(* ===== verification/Prelude.thy ===== *)
theory Prelude
  imports Main "HOL-Library.AList"
begin

text \<open>
  Vocabulary shared by every component of the model: the result type of fallible
  code, the insertion-ordered maps of JavaScript, the string operations the sources
  use, and the generic list lemmas the component proofs rest on.
\<close>

section \<open>Results\<close>

text \<open>
  A TypeScript function that may throw is a function into \<open>('e, 'a) result\<close>: \<open>Inl\<close>
  carries what was thrown, \<open>Inr\<close> what was returned.
\<close>

type_synonym ('e, 'a) result = "'e + 'a"

fun is_ok :: "('e, 'a) result \<Rightarrow> bool" where
  "is_ok (Inl e) = False"
| "is_ok (Inr a) = True"

lemma is_ok_iff: "is_ok r \<longleftrightarrow> (\<exists>a. r = Inr a)"
  by (cases r) auto

text \<open>A loop over a list whose body may throw: the first throw ends it.\<close>

fun foldr_result :: "('a \<Rightarrow> 's \<Rightarrow> ('e, 's) result) \<Rightarrow> 'a list \<Rightarrow> 's \<Rightarrow> ('e, 's) result" where
  "foldr_result f [] s = Inr s"
| "foldr_result f (x # xs) s =
     (case f x s of Inl e \<Rightarrow> Inl e | Inr s' \<Rightarrow> foldr_result f xs s')"

lemma foldr_result_invariant:
  assumes "foldr_result f xs s = Inr t" and "P s"
    and "\<And>x s s'. x \<in> set xs \<Longrightarrow> P s \<Longrightarrow> f x s = Inr s' \<Longrightarrow> P s'"
  shows "P t"
  using assms
proof (induction xs arbitrary: s)
  case (Cons x xs)
  then obtain s' where "f x s = Inr s'" and "foldr_result f xs s' = Inr t"
    by (auto split: sum.splits)
  then show ?case
    using Cons.IH [of s'] Cons.prems(2) Cons.prems(3) by (meson list.set_intros)
qed simp

text \<open>\<open>map\<close> with a callback that may throw.\<close>

fun map_result :: "('a \<Rightarrow> ('e, 'b) result) \<Rightarrow> 'a list \<Rightarrow> ('e, 'b list) result" where
  "map_result f [] = Inr []"
| "map_result f (x # xs) =
     (case f x of
        Inl e \<Rightarrow> Inl e
      | Inr y \<Rightarrow> (case map_result f xs of Inl e \<Rightarrow> Inl e | Inr ys \<Rightarrow> Inr (y # ys)))"

lemma map_result_ok_iff: "map_result f xs = Inr ys \<longleftrightarrow> list_all2 (\<lambda>x y. f x = Inr y) xs ys"
proof (induction xs arbitrary: ys)
  case (Cons x xs)
  then show ?case
    by (cases "map_result f xs") (auto split: sum.splits simp: list_all2_Cons1)
qed auto

lemma map_result_error:
  "map_result f xs = Inl e \<Longrightarrow> \<exists>x \<in> set xs. f x = Inl e"
  by (induction xs) (auto split: sum.splits)

section \<open>JavaScript maps and sets\<close>

text \<open>
  A JavaScript \<open>Map\<close> iterates in insertion order, and setting a present key keeps its
  place. That is an association list under \<open>AList.update\<close> (in place, or at the end) and
  \<open>AList.delete\<close>.
\<close>

type_synonym ('k, 'v) js_map = "('k \<times> 'v) list"

abbreviation js_get :: "('k, 'v) js_map \<Rightarrow> 'k \<Rightarrow> 'v option" where
  "js_get m k \<equiv> map_of m k"

abbreviation js_set :: "'k \<Rightarrow> 'v \<Rightarrow> ('k, 'v) js_map \<Rightarrow> ('k, 'v) js_map" where
  "js_set k v m \<equiv> AList.update k v m"

abbreviation js_delete :: "'k \<Rightarrow> ('k, 'v) js_map \<Rightarrow> ('k, 'v) js_map" where
  "js_delete k m \<equiv> AList.delete k m"

definition js_has :: "('k, 'v) js_map \<Rightarrow> 'k \<Rightarrow> bool" where
  "js_has m k = (js_get m k \<noteq> None)"

lemma js_get_set [simp]: "js_get (js_set k v m) = (js_get m)(k \<mapsto> v)"
  by (rule update_conv')

lemma js_get_delete [simp]: "js_get (js_delete k m) = (js_get m)(k := None)"
  by (rule delete_conv')

lemma js_has_set [simp]: "js_has (js_set k v m) j \<longleftrightarrow> j = k \<or> js_has m j"
  by (simp add: js_has_def)

lemma js_has_delete [simp]: "js_has (js_delete k m) j \<longleftrightarrow> j \<noteq> k \<and> js_has m j"
  by (simp add: js_has_def)

lemma js_has_keys: "js_has m k \<longleftrightarrow> k \<in> fst ` set m"
  by (simp add: js_has_def map_of_eq_None_iff)

lemma js_get_key: "js_get m k = Some v \<Longrightarrow> k \<in> fst ` set m"
  by (metis js_has_def js_has_keys option.distinct(1))

lemma js_set_subset: "set (js_set k v m) \<subseteq> insert (k, v) (set m)"
  by (induction m) auto

section \<open>Effects\<close>

text \<open>
  Code that reads and writes a state and may throw: the state survives the throw, as
  fields of an object do.
\<close>

type_synonym ('s, 'e, 'a) eff = "'s \<Rightarrow> ('e, 'a) result \<times> 's"

definition eff_return :: "'a \<Rightarrow> ('s, 'e, 'a) eff" where
  "eff_return a = (\<lambda>s. (Inr a, s))"

definition eff_throw :: "'e \<Rightarrow> ('s, 'e, 'a) eff" where
  "eff_throw e = (\<lambda>s. (Inl e, s))"

definition eff_bind :: "('s, 'e, 'a) eff \<Rightarrow> ('a \<Rightarrow> ('s, 'e, 'b) eff) \<Rightarrow> ('s, 'e, 'b) eff" where
  "eff_bind m f =
     (\<lambda>s. case m s of (Inl e, s') \<Rightarrow> (Inl e, s') | (Inr a, s') \<Rightarrow> f a s')"

definition eff_lift :: "('e, 'a) result \<Rightarrow> ('s, 'e, 'a) eff" where
  "eff_lift r = (\<lambda>s. (r, s))"

definition eff_update :: "('s \<Rightarrow> 's) \<Rightarrow> ('s, 'e, unit) eff" where
  "eff_update f = (\<lambda>s. (Inr (), f s))"

lemmas eff_defs = eff_return_def eff_throw_def eff_bind_def eff_lift_def eff_update_def

lemma eff_bind_return [simp]: "eff_bind (eff_return a) f = f a"
  by (simp add: eff_defs)

end
