(* ===== verification/Topo_Sort.thy ===== *)
theory Topo_Sort
  imports Prelude
begin

text \<open>
  The depth-first ordering that the platform shell (\<open>orderByDependency\<close>) and the module
  graph (\<open>compileModule\<close>) both run, over an explicit adjacency list, with the facts the
  two components take from it: what a successful visit appends, that it lists
  dependencies first, and that it fails exactly on a reachable cycle.
\<close>

datatype 'n topo_error = Cycle 'n | Missing 'n

lemma card_unvisited_less:
  assumes "map_of g n = Some ss" and "n \<notin> vis"
  shows "card (dom (map_of g) - insert n vis) < card (dom (map_of g) - vis)"
proof (rule psubset_card_mono)
  show "finite (dom (map_of g) - vis)"
    by (simp add: finite_dom_map_of)
  show "dom (map_of g) - insert n vis \<subset> dom (map_of g) - vis"
    using assms by (auto simp: dom_def)
qed

text \<open>
  \<open>done\<close> is the list of finished nodes in completion order, \<open>vis\<close> the nodes on the
  current path. A node without an entry is an error when \<open>strict\<close> holds and a leaf
  otherwise.
\<close>

function topo_visit ::
    "bool \<Rightarrow> ('n \<times> 'n list) list \<Rightarrow> 'n set \<Rightarrow> 'n \<Rightarrow> 'n list \<Rightarrow> ('n topo_error, 'n list) result"
  and topo_visits ::
    "bool \<Rightarrow> ('n \<times> 'n list) list \<Rightarrow> 'n set \<Rightarrow> 'n list \<Rightarrow> 'n list \<Rightarrow> ('n topo_error, 'n list) result"
where
  "topo_visit strict g vis n dn =
     (if n \<in> set dn then Inr dn
      else if n \<in> vis then Inl (Cycle n)
      else case map_of g n of
        None \<Rightarrow> if strict then Inl (Missing n) else Inr (dn @ [n])
      | Some ss \<Rightarrow>
          (case topo_visits strict g (insert n vis) ss dn of
             Inl e \<Rightarrow> Inl e
           | Inr d \<Rightarrow> Inr (d @ [n])))"
| "topo_visits strict g vis [] dn = Inr dn"
| "topo_visits strict g vis (n # ns) dn =
     (case topo_visit strict g vis n dn of
        Inl e \<Rightarrow> Inl e
      | Inr d \<Rightarrow> topo_visits strict g vis ns d)"
  by pat_completeness auto

termination
  by (relation "measures
        [\<lambda>x. case x of Inl (strict, g, vis, n, dn) \<Rightarrow> card (dom (map_of g) - vis)
                     | Inr (strict, g, vis, ns, dn) \<Rightarrow> card (dom (map_of g) - vis),
         \<lambda>x. case x of Inl _ \<Rightarrow> 0 | Inr (strict, g, vis, ns, dn) \<Rightarrow> Suc (length ns)]")
    (auto dest: card_unvisited_less)

declare topo_visit.simps [simp del]

definition succ_of :: "('n \<times> 'n list) list \<Rightarrow> 'n \<Rightarrow> 'n set" where
  "succ_of g n = (case map_of g n of None \<Rightarrow> {} | Some ss \<Rightarrow> set ss)"

definition edges_of :: "('n \<times> 'n list) list \<Rightarrow> ('n \<times> 'n) set" where
  "edges_of g = {(n, m). m \<in> succ_of g n}"

lemma edges_of_iff [simp]: "(n, m) \<in> edges_of g \<longleftrightarrow> m \<in> succ_of g n"
  by (simp add: edges_of_def)

text \<open>\<open>deps_first g seen xs\<close>: every node of \<open>xs\<close> comes after its successors.\<close>

fun deps_first :: "('n \<times> 'n list) list \<Rightarrow> 'n set \<Rightarrow> 'n list \<Rightarrow> bool" where
  "deps_first g seen [] = True"
| "deps_first g seen (x # xs) = (succ_of g x \<subseteq> seen \<and> deps_first g (insert x seen) xs)"

lemma deps_first_append:
  "deps_first g seen (xs @ ys) \<longleftrightarrow> deps_first g seen xs \<and> deps_first g (seen \<union> set xs) ys"
  by (induction xs arbitrary: seen) auto

lemma deps_first_nth:
  "deps_first g seen xs \<Longrightarrow> i < length xs \<Longrightarrow> s \<in> succ_of g (xs ! i) \<Longrightarrow>
   s \<in> seen \<or> (\<exists>j < i. xs ! j = s)"
proof (induction xs arbitrary: seen i)
  case (Cons x xs)
  show ?case
  proof (cases i)
    case 0
    with Cons.prems show ?thesis by auto
  next
    case (Suc k)
    with Cons.prems have "s \<in> insert x seen \<or> (\<exists>j < k. xs ! j = s)"
      by (intro Cons.IH) auto
    then show ?thesis
      using Suc by (metis Suc_less_eq insertE nth_Cons_0 nth_Cons_Suc zero_less_Suc)
  qed
qed simp

subsection \<open>What a successful visit appends\<close>

definition topo_extends :: "('n \<times> 'n list) list \<Rightarrow> 'n set \<Rightarrow> 'n list \<Rightarrow> 'n list \<Rightarrow> 'n list \<Rightarrow> bool" where
  "topo_extends g vis ns dn d =
     (\<exists>new. d = dn @ new \<and> distinct new \<and> set new \<inter> (vis \<union> set dn) = {} \<and>
        set ns \<subseteq> set d \<and> deps_first g (set dn) new \<and>
        (\<forall>m \<in> set new. \<exists>n \<in> set ns. (n, m) \<in> (edges_of g)\<^sup>*))"

lemma topo_visit_step:
  assumes "topo_extends g (insert n vis) ss dn d" and "succ_of g n = set ss"
    and "n \<notin> set dn" and "n \<notin> vis"
  shows "topo_extends g vis [n] dn (d @ [n])"
proof -
  from assms(1) obtain new where new: "d = dn @ new" "distinct new"
      "set new \<inter> (insert n vis \<union> set dn) = {}" "set ss \<subseteq> set d" "deps_first g (set dn) new"
      "\<forall>m \<in> set new. \<exists>s \<in> set ss. (s, m) \<in> (edges_of g)\<^sup>*"
    by (auto simp: topo_extends_def)
  have reach: "(n, m) \<in> (edges_of g)\<^sup>*" if "m \<in> set (new @ [n])" for m
  proof (cases "m = n")
    case False
    with that new(6) obtain s where "s \<in> set ss" and "(s, m) \<in> (edges_of g)\<^sup>*"
      by auto
    moreover from \<open>s \<in> set ss\<close> assms(2) have "(n, s) \<in> edges_of g" by simp
    ultimately show ?thesis by (blast intro: converse_rtrancl_into_rtrancl)
  qed simp
  show ?thesis
    unfolding topo_extends_def
    by (rule exI [of _ "new @ [n]"])
      (use new assms reach in \<open>auto simp: deps_first_append\<close>)
qed

lemma topo_visits_step:
  assumes "topo_extends g vis [n] dn d1" and "topo_extends g vis ns d1 d"
  shows "topo_extends g vis (n # ns) dn d"
proof -
  from assms(1) obtain new1 where n1: "d1 = dn @ new1" "distinct new1"
      "set new1 \<inter> (vis \<union> set dn) = {}" "n \<in> set d1" "deps_first g (set dn) new1"
      "\<forall>m \<in> set new1. (n, m) \<in> (edges_of g)\<^sup>*"
    by (auto simp: topo_extends_def)
  from assms(2) obtain new2 where n2: "d = d1 @ new2" "distinct new2"
      "set new2 \<inter> (vis \<union> set d1) = {}" "set ns \<subseteq> set d" "deps_first g (set d1) new2"
      "\<forall>m \<in> set new2. \<exists>k \<in> set ns. (k, m) \<in> (edges_of g)\<^sup>*"
    by (auto simp: topo_extends_def)
  show ?thesis
    unfolding topo_extends_def
    by (rule exI [of _ "new1 @ new2"])
      (use n1 n2 in \<open>auto simp: deps_first_append Un_ac\<close>)
qed

lemma topo_visit_extends:
  "topo_visit strict g vis n dn = Inr d \<Longrightarrow> topo_extends g vis [n] dn d"
  "topo_visits strict g vis ns dn = Inr d \<Longrightarrow> topo_extends g vis ns dn d"
proof (induction strict g vis n dn and strict g vis ns dn arbitrary: d and d
    rule: topo_visit_topo_visits.induct)
  case (1 strict g vis n dn)
  show ?case
  proof (cases "n \<in> set dn")
    case True
    with "1.prems" show ?thesis
      by (auto simp: topo_visit.simps topo_extends_def)
  next
    case False
    with "1.prems" have vis: "n \<notin> vis"
      by (auto simp: topo_visit.simps split: if_splits)
    show ?thesis
    proof (cases "map_of g n")
      case None
      with "1.prems" False vis have "d = dn @ [n]"
        by (auto simp: topo_visit.simps split: if_splits)
      with None False vis show ?thesis
        by (auto simp: topo_extends_def succ_of_def)
    next
      case (Some ss)
      with "1.prems" False vis obtain d' where
        d': "topo_visits strict g (insert n vis) ss dn = Inr d'" "d = d' @ [n]"
        by (auto simp: topo_visit.simps split: sum.splits)
      have "topo_extends g (insert n vis) ss dn d'"
        using "1.IH" [OF False vis Some d'(1)] .
      then show ?thesis
        using Some False vis d'(2) by (auto intro: topo_visit_step simp: succ_of_def)
    qed
  qed
next
  case (2 strict g vis dn)
  then show ?case by (auto simp: topo_extends_def)
next
  case (3 strict g vis n ns dn)
  then show ?case by (auto split: sum.splits intro: topo_visits_step)
qed

subsection \<open>When a visit fails\<close>

lemma topo_visit_cycle:
  "topo_visit strict g vis n dn = Inl (Cycle m) \<Longrightarrow>
   (m \<in> vis \<and> (n, m) \<in> (edges_of g)\<^sup>*) \<or> ((n, m) \<in> (edges_of g)\<^sup>* \<and> (m, m) \<in> (edges_of g)\<^sup>+)"
  "topo_visits strict g vis ns dn = Inl (Cycle m) \<Longrightarrow>
   \<exists>k \<in> set ns. (m \<in> vis \<and> (k, m) \<in> (edges_of g)\<^sup>*) \<or>
      ((k, m) \<in> (edges_of g)\<^sup>* \<and> (m, m) \<in> (edges_of g)\<^sup>+)"
proof (induction strict g vis n dn and strict g vis ns dn
    rule: topo_visit_topo_visits.induct)
  case (1 strict g vis n dn)
  show ?case
  proof (cases "n \<in> vis")
    case True
    with "1.prems" show ?thesis by (auto simp: topo_visit.simps split: if_splits)
  next
    case False
    with "1.prems" obtain ss where ss: "n \<notin> set dn" "map_of g n = Some ss"
        "topo_visits strict g (insert n vis) ss dn = Inl (Cycle m)"
      by (auto simp: topo_visit.simps split: if_splits option.splits sum.splits)
    then obtain k where k: "k \<in> set ss"
        "(m \<in> insert n vis \<and> (k, m) \<in> (edges_of g)\<^sup>*) \<or>
         ((k, m) \<in> (edges_of g)\<^sup>* \<and> (m, m) \<in> (edges_of g)\<^sup>+)"
      using "1.IH" [OF ss(1) False ss(2) ss(3)] by blast
    have step: "(n, k) \<in> edges_of g"
      using ss(2) k(1) by (simp add: succ_of_def)
    then have "(k, m) \<in> (edges_of g)\<^sup>* \<Longrightarrow> (n, m) \<in> (edges_of g)\<^sup>+"
      by (rule rtrancl_into_trancl2)
    with k(2) show ?thesis by (auto dest: trancl_into_rtrancl)
  qed
next
  case (3 strict g vis n ns dn)
  then show ?case by (fastforce split: sum.splits)
qed simp

lemma topo_visit_missing:
  "topo_visit strict g vis n dn = Inl (Missing m) \<Longrightarrow>
     strict \<and> map_of g m = None \<and> (n, m) \<in> (edges_of g)\<^sup>*"
  "topo_visits strict g vis ns dn = Inl (Missing m) \<Longrightarrow>
     strict \<and> map_of g m = None \<and> (\<exists>k \<in> set ns. (k, m) \<in> (edges_of g)\<^sup>*)"
proof (induction strict g vis n dn and strict g vis ns dn
    rule: topo_visit_topo_visits.induct)
  case (1 strict g vis n dn)
  show ?case
  proof (cases "map_of g n")
    case None
    with "1.prems" show ?thesis by (auto simp: topo_visit.simps split: if_splits)
  next
    case (Some ss)
    with "1.prems" have ss: "n \<notin> set dn" "n \<notin> vis"
        "topo_visits strict g (insert n vis) ss dn = Inl (Missing m)"
      by (auto simp: topo_visit.simps split: if_splits sum.splits)
    from "1.IH" [OF ss(1,2) Some ss(3)] obtain k where "strict" "map_of g m = None"
        "k \<in> set ss" "(k, m) \<in> (edges_of g)\<^sup>*"
      by blast
    moreover have "(n, k) \<in> edges_of g"
      using Some \<open>k \<in> set ss\<close> by (simp add: succ_of_def)
    ultimately show ?thesis by (blast intro: converse_rtrancl_into_rtrancl)
  qed
next
  case (3 strict g vis n ns dn)
  then show ?case by (fastforce split: sum.splits)
qed simp

subsection \<open>A whole run\<close>

lemma deps_first_no_back_edge:
  "deps_first g seen xs \<Longrightarrow> (a, b) \<in> (edges_of g)\<^sup>+ \<Longrightarrow> a \<in> seen \<Longrightarrow>
   \<forall>x \<in> seen. succ_of g x \<subseteq> seen \<Longrightarrow> b \<in> seen"
  by (erule trancl_induct) auto

lemma deps_first_acyclic:
  assumes "deps_first g seen xs" and "distinct xs" and "set xs \<inter> seen = {}"
    and "\<forall>x \<in> seen. succ_of g x \<subseteq> seen" and "\<forall>x \<in> seen. (x, x) \<notin> (edges_of g)\<^sup>+"
  shows "\<forall>x \<in> seen \<union> set xs. (x, x) \<notin> (edges_of g)\<^sup>+"
  using assms
proof (induction xs arbitrary: seen)
  case (Cons x xs)
  have sub: "succ_of g x \<subseteq> seen" and "x \<notin> seen"
    using Cons.prems(1,3) by auto
  have "(x, x) \<notin> (edges_of g)\<^sup>+"
  proof
    assume "(x, x) \<in> (edges_of g)\<^sup>+"
    then obtain y where y: "(x, y) \<in> edges_of g" "(y, x) \<in> (edges_of g)\<^sup>*"
      by (blast dest: tranclD)
    then have "y \<in> seen" using sub by auto
    with y(2) have "x \<in> seen"
      using Cons.prems(4) by (induction rule: rtrancl_induct) auto
    then show False using \<open>x \<notin> seen\<close> by simp
  qed
  then have "\<forall>y \<in> insert x seen \<union> set xs. (y, y) \<notin> (edges_of g)\<^sup>+"
    using Cons.prems sub by (intro Cons.IH) auto
  then show ?case by simp
qed simp

definition topo_run :: "bool \<Rightarrow> ('n \<times> 'n list) list \<Rightarrow> 'n list \<Rightarrow> ('n topo_error, 'n list) result" where
  "topo_run strict g ns = topo_visits strict g {} ns []"

theorem topo_run_ok:
  assumes "topo_run strict g ns = Inr d"
  shows "distinct d" and "set ns \<subseteq> set d" and "deps_first g {} d"
    and "m \<in> set d \<Longrightarrow> \<exists>n \<in> set ns. (n, m) \<in> (edges_of g)\<^sup>*"
  using topo_visit_extends(2) [OF assms [unfolded topo_run_def]]
  by (auto simp: topo_extends_def)

lemma topo_run_closed:
  assumes "topo_run strict g ns = Inr d" and "n \<in> set ns" and "(n, m) \<in> (edges_of g)\<^sup>*"
  shows "m \<in> set d"
  using assms(3)
proof (induction rule: rtrancl_induct)
  case base
  then show ?case using topo_run_ok(2) [OF assms(1)] assms(2) by blast
next
  case (step y z)
  then obtain i where "i < length d" and "d ! i = y"
    by (auto simp: in_set_conv_nth)
  then show ?case
    using deps_first_nth [OF topo_run_ok(3) [OF assms(1)], of i z] step.hyps(2)
    by (metis edges_of_iff empty_iff less_trans nth_mem)
qed

theorem topo_run_set:
  assumes "topo_run strict g ns = Inr d"
  shows "set d = {m. \<exists>n \<in> set ns. (n, m) \<in> (edges_of g)\<^sup>*}"
  using topo_run_closed [OF assms] topo_run_ok(4) [OF assms] by blast

theorem topo_run_acyclic:
  assumes "topo_run strict g ns = Inr d" and "n \<in> set ns" and "(n, m) \<in> (edges_of g)\<^sup>*"
  shows "(m, m) \<notin> (edges_of g)\<^sup>+"
  using deps_first_acyclic [OF topo_run_ok(3,1) [OF assms(1)]]
    topo_run_closed [OF assms] by simp

theorem topo_run_cycle:
  assumes "topo_run strict g ns = Inl (Cycle m)"
  shows "(m, m) \<in> (edges_of g)\<^sup>+ \<and> (\<exists>n \<in> set ns. (n, m) \<in> (edges_of g)\<^sup>*)"
  using topo_visit_cycle(2) [OF assms [unfolded topo_run_def]] by blast

lemma topo_run_missing:
  assumes "topo_run strict g ns = Inl (Missing m)"
  shows "strict \<and> map_of g m = None \<and> (\<exists>n \<in> set ns. (n, m) \<in> (edges_of g)\<^sup>*)"
  using topo_visit_missing(2) [OF assms [unfolded topo_run_def]] by blast

text \<open>Without missing nodes, a run succeeds exactly when no cycle is reachable.\<close>

theorem topo_run_ok_iff:
  assumes "\<And>n m. strict \<Longrightarrow> n \<in> set ns \<Longrightarrow> (n, m) \<in> (edges_of g)\<^sup>* \<Longrightarrow> map_of g m \<noteq> None"
  shows "is_ok (topo_run strict g ns) \<longleftrightarrow>
    (\<forall>n \<in> set ns. \<forall>m. (n, m) \<in> (edges_of g)\<^sup>* \<longrightarrow> (m, m) \<notin> (edges_of g)\<^sup>+)"
proof (cases "topo_run strict g ns")
  case (Inr d)
  then show ?thesis using topo_run_acyclic by fastforce
next
  case (Inl e)
  show ?thesis
  proof (cases e)
    case (Cycle m)
    with Inl show ?thesis using topo_run_cycle by fastforce
  next
    case (Missing m)
    with Inl show ?thesis using topo_run_missing assms by fastforce
  qed
qed

end
