(* ===== verification/Js_String.thy ===== *)
theory Js_String
  imports Prelude
begin

text \<open>
  The JavaScript string operations the sources call. A string is a list of \<open>char\<close>,
  so the model covers the code units U+0000 to U+00FF; the sources treat paths, header
  names, media types and identifiers, which are ASCII in practice.
\<close>

text \<open>\<open>String.prototype.trim\<close> removes ECMAScript white space and line terminators.\<close>

definition js_space :: "char \<Rightarrow> bool" where
  "js_space c = (let n = (of_char c :: nat) in (9 \<le> n \<and> n \<le> 13) \<or> n = 32 \<or> n = 160)"

definition js_trim :: "string \<Rightarrow> string" where
  "js_trim s = rev (dropWhile js_space (rev (dropWhile js_space s)))"

text \<open>
  \<open>toLowerCase\<close> and \<open>toUpperCase\<close> on code units: the ASCII letters and the Latin-1 letters
  whose other case is a single Latin-1 code unit (U+00C0 to U+00DE and U+00E0 to U+00FE,
  without the two arithmetic signs); other code units are kept.
\<close>

definition lower_char :: "char \<Rightarrow> char" where
  "lower_char c = (let n = (of_char c :: nat) in 
     if (65 \<le> n \<and> n \<le> 90) \<or> (192 \<le> n \<and> n \<le> 222 \<and> n \<noteq> 215) then char_of (n + 32) else c)"

definition upper_char :: "char \<Rightarrow> char" where
  "upper_char c = (let n = (of_char c :: nat) in 
     if (97 \<le> n \<and> n \<le> 122) \<or> (224 \<le> n \<and> n \<le> 254 \<and> n \<noteq> 247) then char_of (n - 32) else c)"

definition js_lower :: "string \<Rightarrow> string" where
  "js_lower = map lower_char"

definition js_upper :: "string \<Rightarrow> string" where
  "js_upper = map upper_char"

text \<open>\<open>split(sep)\<close> for a one-character separator always returns at least one piece.\<close>

fun js_split :: "char \<Rightarrow> string \<Rightarrow> string list" where
  "js_split sep [] = [[]]"
| "js_split sep (c # cs) =
     (if c = sep then [] # js_split sep cs
      else case js_split sep cs of [] \<Rightarrow> [[c]] | p # ps \<Rightarrow> (c # p) # ps)"

fun js_join :: "string \<Rightarrow> string list \<Rightarrow> string" where
  "js_join sep [] = []"
| "js_join sep [x] = x"
| "js_join sep (x # y # ys) = x @ sep @ js_join sep (y # ys)"

text \<open>\<open>filter(Boolean)\<close> on strings keeps the non-empty ones.\<close>

definition nonempty_strings :: "string list \<Rightarrow> string list" where
  "nonempty_strings = filter (\<lambda>s. s \<noteq> [])"

lemma js_split_nonempty [simp]: "js_split sep s \<noteq> []"
  by (induction s) (auto split: list.splits)

lemma js_split_no_sep: "p \<in> set (js_split sep s) \<Longrightarrow> sep \<notin> set p"
  by (induction s arbitrary: p) (auto split: list.splits if_splits)

lemma js_split_free: "sep \<notin> set s \<Longrightarrow> js_split sep s = [s]"
  by (induction s) auto

lemma js_split_append:
  "sep \<notin> set p \<Longrightarrow> js_split sep (p @ sep # s) = p # js_split sep s"
  by (induction p) auto

lemma js_split_two: "js_split c (a @ c # t) = js_split c a @ js_split c t"
proof (induction a)
  case (Cons x a)
  then show ?case by (cases "js_split c a") auto
qed simp

lemma js_split_join:
  "ps \<noteq> [] \<Longrightarrow> \<forall>p \<in> set ps. sep \<notin> set p \<Longrightarrow> js_split sep (js_join [sep] ps) = ps"
  by (induction "[sep]" ps rule: js_join.induct) (auto simp: js_split_free js_split_append)

lemma lower_char_idem [simp]: "lower_char (lower_char c) = lower_char c"
  by (auto simp: lower_char_def Let_def)

lemma js_lower_idem [simp]: "js_lower (js_lower s) = js_lower s"
  by (simp add: js_lower_def)

lemma dropWhile_idem_last:
  "xs = [] \<or> \<not> P (hd xs) \<Longrightarrow> dropWhile P xs = xs"
  by (cases xs) auto

lemma hd_rev_dropWhile_rev:
  "\<not> P (hd s) \<Longrightarrow> rev (dropWhile P (rev s)) = [] \<or> \<not> P (hd (rev (dropWhile P (rev s))))"
proof (induction s rule: rev_induct)
  case (snoc x xs)
  then show ?case by (cases xs) (auto split: if_splits)
qed simp

lemma js_trim_idem [simp]: "js_trim (js_trim s) = js_trim s"
proof -
  let ?t = "dropWhile js_space s"
  let ?u = "rev (dropWhile js_space (rev ?t))"
  have t: "?t = [] \<or> \<not> js_space (hd ?t)"
    using hd_dropWhile by blast
  have "?u = [] \<or> \<not> js_space (hd ?u)"
  proof (cases "?t = []")
    case False
    with t show ?thesis using hd_rev_dropWhile_rev by blast
  next
    case True
    then show ?thesis by (simp only: rev.simps dropWhile.simps simp_thms)
  qed
  then have "dropWhile js_space ?u = ?u"
    by (rule dropWhile_idem_last)
  then show ?thesis by (simp add: js_trim_def)
qed

section \<open>Searching and numerals\<close>

fun js_includes :: "string \<Rightarrow> string \<Rightarrow> bool" where
  "js_includes part [] = (part = [])"
| "js_includes part (c # cs) =
     (take (length part) (c # cs) = part \<or> js_includes part cs)"

definition js_ends_with :: "string \<Rightarrow> string \<Rightarrow> bool" where
  "js_ends_with s end_part = (drop (length s - length end_part) s = end_part \<and> length end_part \<le> length s)"

definition js_starts_with :: "string \<Rightarrow> string \<Rightarrow> bool" where
  "js_starts_with s start = (take (length start) s = start)"

text \<open>\<open>String\<close> of a natural number below \<open>10^21\<close>.\<close>

fun decimal :: "nat \<Rightarrow> string" where
  "decimal n = (if n < 10 then [char_of (48 + n)] else decimal (n div 10) @ [char_of (48 + n mod 10)])"

declare decimal.simps [simp del]

end
