(* ===== verification/Platform_Shell.thy ===== *)
theory Platform_Shell
  imports Topo_Sort Js_String
begin

text \<open>
  \<open>packages/runtime/src/platform-shell.ts\<close>: the lifecycle of registered platform
  components. A component's own methods are user code, so they are parameters (record
  \<open>env\<close>): each sees the calls made so far, and so may behave differently every time.
  The shell's fields are the record \<open>shell\<close>; \<open>sh_trace\<close> records the calls it made.
  Each public method is one function from the state to the state and what it returned
  or threw.
\<close>

section \<open>Data\<close>

datatype severity = SevError | SevWarning | SevInfo

record issue =
  iss_code :: string
  iss_severity :: severity
  iss_component :: string
  iss_message :: string
  iss_cause :: "string option"
  iss_fixHint :: "string option"
  iss_dependsOn :: "string list option"
  iss_docsUrl :: "string option"

datatype check_status = CheckPass | CheckFail | CheckDegraded

record check_result =
  ck_name :: string
  ck_status :: check_status
  ck_message :: "string option"

datatype readiness_status = RReady | RNotReady | RDegraded

record readiness =
  rd_status :: readiness_status
  rd_critical :: bool
  rd_reason :: "string option"
  rd_checks :: "check_result list option"

datatype health_status = HHealthy | HUnhealthy | HDegraded

record health =
  he_status :: health_status
  he_reason :: "string option"
  he_checks :: "check_result list option"

record validation =
  va_ok :: bool
  va_issues :: "issue list"
  va_warnings :: "issue list option"

datatype platform_state =
  PCreated | PValidated | PStarting | PReady | PDegraded | PStopping | PStopped | PFailed

record 'd snapshot =
  sn_id :: string
  sn_kind :: string
  sn_state :: platform_state
  sn_readiness :: readiness
  sn_health :: health
  sn_dependencies :: "string list"
  sn_namespace :: string
  sn_tags :: "(string, string) js_map"
  sn_ownsResources :: bool
  sn_externallyManaged :: bool
  sn_details :: "(string, 'd) js_map"

text \<open>A component object: its identity, and the two fields the shell reads.\<close>

record component =
  cp_obj :: nat
  cp_id :: string
  cp_kind :: string

datatype component_input =
  BareComponent component
| ComponentRegistration component "string list option"

record registered =
  rg_component :: component
  rg_deps :: "string list"

abbreviation rg_id :: "registered \<Rightarrow> string" where
  "rg_id r \<equiv> cp_id (rg_component r)"

datatype call =
  CallValidate component | CallStart component | CallStop component
| CallReady component | CallHealth component | CallSnapshot component

text \<open>The components' code. What a method throws is its \<open>error.message\<close> text.\<close>

record 'd env =
  ev_validate :: "call list \<Rightarrow> component \<Rightarrow> (string, validation) result"
  ev_start :: "call list \<Rightarrow> component \<Rightarrow> (string, unit) result"
  ev_stop :: "call list \<Rightarrow> component \<Rightarrow> (string, unit) result"
  ev_ready :: "call list \<Rightarrow> component \<Rightarrow> (string, readiness) result"
  ev_health :: "call list \<Rightarrow> component \<Rightarrow> (string, health) result"
  ev_snapshot :: "call list \<Rightarrow> component \<Rightarrow> (string, 'd snapshot) result"

datatype shell_error =
  EmptyComponentId
| DuplicateComponentId string
| UnknownDependency string string
| SelfDependency string
| ValidationFailed "(string \<times> string) list"
| DependencyCycle string
| MissingRegistration string
| StartFailure string string
| StopAggregate "string list"
| ShellNotReady string

record shell =
  sh_started :: bool
  sh_stopped :: bool
  sh_ordered :: "registered list"
  sh_rollback :: "registered list"
  sh_diags :: "issue list"
  sh_registered :: "registered list"
  sh_trace :: "call list"

section \<open>Registration and reports\<close>

fun normalize_registration :: "component_input \<Rightarrow> registered" where
  "normalize_registration (ComponentRegistration c deps) =
     \<lparr>rg_component = c, rg_deps = (case deps of None \<Rightarrow> [] | Some ds \<Rightarrow> ds)\<rparr>"
| "normalize_registration (BareComponent c) = \<lparr>rg_component = c, rg_deps = []\<rparr>"

definition to_registered_components :: "component_input list option \<Rightarrow> registered list" where
  "to_registered_components cs =
     map normalize_registration (case cs of None \<Rightarrow> [] | Some xs \<Rightarrow> xs)"

definition from_inputs :: "component_input list option \<Rightarrow> shell" where
  "from_inputs cs =
     \<lparr>sh_started = False, sh_stopped = False, sh_ordered = [], sh_rollback = [],
      sh_diags = [], sh_registered = to_registered_components cs, sh_trace = []\<rparr>"

definition unknown_failure_issue :: "string \<Rightarrow> string \<Rightarrow> string \<Rightarrow> issue" where
  "unknown_failure_issue componentId phase cause =
     \<lparr>iss_code = ''RUNTIME_PLATFORM_COMPONENT_FAILURE'', iss_severity = SevError,
      iss_component = componentId,
      iss_message = ''Platform component failed during '' @ phase @ ''.'',
      iss_cause = Some cause,
      iss_fixHint = Some ''Inspect component implementation and ensure validate/start/ready/health/snapshot contracts are deterministic.'',
      iss_dependsOn = None, iss_docsUrl = None\<rparr>"

text \<open>\<open>reports.find(p)?.reason ?? default\<close>\<close>

definition reason_or :: "('r \<Rightarrow> bool) \<Rightarrow> ('r \<Rightarrow> string option) \<Rightarrow> string \<Rightarrow> 'r list \<Rightarrow> string" where
  "reason_or p reason dflt rs =
     (case find p rs of
        None \<Rightarrow> dflt
      | Some r \<Rightarrow> (case reason r of None \<Rightarrow> dflt | Some s \<Rightarrow> s))"

definition aggregate_readiness :: "readiness list \<Rightarrow> readiness" where
  "aggregate_readiness rs =
    (let hasCritical = list_ex rd_critical rs in
     if list_ex (\<lambda>r. rd_critical r \<and> rd_status r = RNotReady) rs then
       \<lparr>rd_status = RNotReady, rd_critical = hasCritical,
        rd_reason = Some (reason_or (\<lambda>r. rd_critical r \<and> rd_status r = RNotReady) rd_reason
          ''One or more critical platform components are not ready.'' rs),
        rd_checks = None\<rparr>
     else if list_ex (\<lambda>r. rd_status r = RNotReady) rs \<or> list_ex (\<lambda>r. rd_status r = RDegraded) rs then
       \<lparr>rd_status = RDegraded, rd_critical = hasCritical,
        rd_reason = Some (reason_or (\<lambda>r. rd_status r \<noteq> RReady) rd_reason
          ''One or more platform components are degraded or not ready.'' rs),
        rd_checks = None\<rparr>
     else \<lparr>rd_status = RReady, rd_critical = hasCritical, rd_reason = None, rd_checks = None\<rparr>)"

definition aggregate_health :: "health list \<Rightarrow> health" where
  "aggregate_health rs =
    (if list_ex (\<lambda>r. he_status r = HUnhealthy) rs then
       \<lparr>he_status = HUnhealthy,
        he_reason = Some (reason_or (\<lambda>r. he_status r = HUnhealthy) he_reason
          ''One or more platform components are unhealthy.'' rs),
        he_checks = None\<rparr>
     else if list_ex (\<lambda>r. he_status r = HDegraded) rs then
       \<lparr>he_status = HDegraded,
        he_reason = Some (reason_or (\<lambda>r. he_status r = HDegraded) he_reason
          ''One or more platform components are degraded.'' rs),
        he_checks = None\<rparr>
     else \<lparr>he_status = HHealthy, he_reason = None, he_checks = None\<rparr>)"

section \<open>Validation and dependency order\<close>

definition has_registered :: "shell \<Rightarrow> bool" where
  "has_registered sh = (sh_registered sh \<noteq> [])"

fun check_ids :: "registered list \<Rightarrow> string set \<Rightarrow> (shell_error, string set) result" where
  "check_ids [] ids = Inr ids"
| "check_ids (r # rs) ids =
     (if rg_id r = [] \<or> js_trim (rg_id r) = [] then Inl EmptyComponentId
      else if rg_id r \<in> ids then Inl (DuplicateComponentId (rg_id r))
      else check_ids rs (insert (rg_id r) ids))"

fun check_deps :: "string \<Rightarrow> string set \<Rightarrow> string list \<Rightarrow> (shell_error, unit) result" where
  "check_deps i ids [] = Inr ()"
| "check_deps i ids (d # ds) =
     (if d \<notin> ids then Inl (UnknownDependency i d)
      else if d = i then Inl (SelfDependency i)
      else check_deps i ids ds)"

fun check_all_deps :: "string set \<Rightarrow> registered list \<Rightarrow> (shell_error, unit) result" where
  "check_all_deps ids [] = Inr ()"
| "check_all_deps ids (r # rs) =
     (case check_deps (rg_id r) ids (rg_deps r) of
        Inl e \<Rightarrow> Inl e
      | Inr _ \<Rightarrow> check_all_deps ids rs)"

definition validate_identity :: "registered list \<Rightarrow> (shell_error, unit) result" where
  "validate_identity rs =
     (case check_ids rs {} of Inl e \<Rightarrow> Inl e | Inr ids \<Rightarrow> check_all_deps ids rs)"

definition log_call :: "call \<Rightarrow> shell \<Rightarrow> shell" where
  "log_call c sh = sh\<lparr>sh_trace := sh_trace sh @ [c]\<rparr>"

definition push_diags :: "issue list \<Rightarrow> shell \<Rightarrow> shell" where
  "push_diags is sh = sh\<lparr>sh_diags := sh_diags sh @ is\<rparr>"

fun validate_components ::
    "'d env \<Rightarrow> registered list \<Rightarrow> issue list \<Rightarrow> shell \<Rightarrow> shell \<times> issue list" where
  "validate_components env [] failures sh = (sh, failures)"
| "validate_components env (r # rs) failures sh =
     (let sh1 = log_call (CallValidate (rg_component r)) sh in
      case ev_validate env (sh_trace sh) (rg_component r) of
        Inl msg \<Rightarrow>
          (let iss = unknown_failure_issue (rg_id r) ''validate'' msg in
           validate_components env rs (failures @ [iss]) (push_diags [iss] sh1))
      | Inr v \<Rightarrow>
          (let sh2 = (case va_warnings v of None \<Rightarrow> sh1 | Some ws \<Rightarrow> push_diags ws sh1) in
           if \<not> va_ok v \<or> list_ex (\<lambda>i. iss_severity i = SevError) (va_issues v)
           then validate_components env rs (failures @ va_issues v) (push_diags (va_issues v) sh2)
           else validate_components env rs failures sh2))"

definition reg_by_id :: "registered list \<Rightarrow> string \<Rightarrow> registered option" where
  "reg_by_id rs = map_of (rev (map (\<lambda>r. (rg_id r, r)) rs))"

text \<open>\<open>visit\<close>: the state is the set of visited ids and the list of ordered components.\<close>

function order_visit ::
    "registered list \<Rightarrow> string set \<Rightarrow> string \<Rightarrow> string set \<times> registered list \<Rightarrow>
     (shell_error, string set \<times> registered list) result"
  and order_visits ::
    "registered list \<Rightarrow> string set \<Rightarrow> string list \<Rightarrow> string set \<times> registered list \<Rightarrow>
     (shell_error, string set \<times> registered list) result"
where
  "order_visit rs visiting i (visited, ordered) =
     (if i \<in> visited then Inr (visited, ordered)
      else if i \<in> visiting then Inl (DependencyCycle i)
      else case reg_by_id rs i of
        None \<Rightarrow> Inl (MissingRegistration i)
      | Some r \<Rightarrow>
          (case order_visits rs (insert i visiting) (rg_deps r) (visited, ordered) of
             Inl e \<Rightarrow> Inl e
           | Inr (visited', ordered') \<Rightarrow> Inr (insert i visited', ordered' @ [r])))"
| "order_visits rs visiting [] st = Inr st"
| "order_visits rs visiting (i # is) st =
     (case order_visit rs visiting i st of
        Inl e \<Rightarrow> Inl e
      | Inr st' \<Rightarrow> order_visits rs visiting is st')"
  by pat_completeness auto

termination
  by (relation "measures
        [\<lambda>x. case x of Inl (rs, vis, i, st) \<Rightarrow> card (dom (reg_by_id rs) - vis)
                     | Inr (rs, vis, is, st) \<Rightarrow> card (dom (reg_by_id rs) - vis),
         \<lambda>x. case x of Inl _ \<Rightarrow> 0 | Inr (rs, vis, is, st) \<Rightarrow> Suc (length is)]")
    (auto simp: reg_by_id_def dest: card_unvisited_less)

declare order_visit.simps [simp del]

definition order_by_dependency :: "registered list \<Rightarrow> (shell_error, registered list) result" where
  "order_by_dependency rs =
     (case order_visits rs {} (map rg_id rs) ({}, []) of
        Inl e \<Rightarrow> Inl e
      | Inr (visited, ordered) \<Rightarrow> Inr ordered)"

section \<open>Start and stop\<close>

fun stop_each :: "'d env \<Rightarrow> registered list \<Rightarrow> string list \<Rightarrow> shell \<Rightarrow> shell \<times> string list" where
  "stop_each env [] errors sh = (sh, errors)"
| "stop_each env (r # rs) errors sh =
     (let sh1 = log_call (CallStop (rg_component r)) sh in
      case ev_stop env (sh_trace sh) (rg_component r) of
        Inr _ \<Rightarrow> stop_each env rs errors sh1
      | Inl msg \<Rightarrow> stop_each env rs (errors @ [msg])
          (push_diags [unknown_failure_issue (rg_id r) ''stop'' msg] sh1))"

definition stop_started_components ::
    "'d env \<Rightarrow> registered list \<Rightarrow> shell \<Rightarrow> shell \<times> (shell_error, unit) result" where
  "stop_started_components env cs sh =
     (case stop_each env (rev cs) [] sh of
        (sh', errors) \<Rightarrow> (sh', if errors \<noteq> [] then Inl (StopAggregate errors) else Inr ()))"

definition shell_stop :: "'d env \<Rightarrow> shell \<Rightarrow> shell \<times> (shell_error, unit) result" where
  "shell_stop env sh =
     (let hasRollbackPending = (sh_rollback sh \<noteq> []) in
      if (\<not> sh_started sh \<and> \<not> hasRollbackPending) \<or> sh_stopped sh then (sh, Inr ())
      else let toStop = (if hasRollbackPending then sh_rollback sh
                         else if sh_ordered sh \<noteq> [] then sh_ordered sh else sh_registered sh) in
        case stop_started_components env toStop sh of
          (sh1, Inl e) \<Rightarrow> (sh1, Inl e)
        | (sh1, Inr _) \<Rightarrow> (sh1\<lparr>sh_rollback := [], sh_started := False, sh_stopped := True\<rparr>, Inr ()))"

fun start_loop ::
    "'d env \<Rightarrow> registered list \<Rightarrow> registered list \<Rightarrow> shell \<Rightarrow> shell \<times> (shell_error, unit) result" where
  "start_loop env [] startedComponents sh =
     (sh\<lparr>sh_started := True, sh_stopped := False, sh_rollback := []\<rparr>, Inr ())"
| "start_loop env (r # rs) startedComponents sh =
     (let sh1 = log_call (CallStart (rg_component r)) sh in
      case ev_start env (sh_trace sh) (rg_component r) of
        Inr _ \<Rightarrow> start_loop env rs (startedComponents @ [r]) sh1
      | Inl msg \<Rightarrow>
          (let sh2 = push_diags [unknown_failure_issue (rg_id r) ''start'' msg] sh1 in
           case stop_started_components env startedComponents sh2 of
             (sh3, Inr _) \<Rightarrow> (sh3\<lparr>sh_rollback := []\<rparr>, Inl (StartFailure (rg_id r) msg))
           | (sh3, Inl _) \<Rightarrow>
               (push_diags [unknown_failure_issue (rg_id r) ''start-rollback''
                   ''One or more platform components failed to stop cleanly.'']
                 (sh3\<lparr>sh_rollback := startedComponents\<rparr>),
                Inl (StartFailure (rg_id r) msg))))"

definition shell_start :: "'d env \<Rightarrow> shell \<Rightarrow> shell \<times> (shell_error, unit) result" where
  "shell_start env sh =
     (if \<not> has_registered sh \<or> sh_started sh then (sh, Inr ())
      else case (if sh_rollback sh \<noteq> [] then shell_stop env sh else (sh, Inr ())) of
        (sh1, Inl e) \<Rightarrow> (sh1, Inl e)
      | (sh1, Inr _) \<Rightarrow>
          (case validate_identity (sh_registered sh1) of
             Inl e \<Rightarrow> (sh1, Inl e)
           | Inr _ \<Rightarrow>
               (case validate_components env (sh_registered sh1) [] sh1 of
                  (sh2, failures) \<Rightarrow>
                    if failures \<noteq> []
                    then (sh2, Inl (ValidationFailed (map (\<lambda>i. (iss_component i, iss_code i)) failures)))
                    else case order_by_dependency (sh_registered sh2) of
                      Inl e \<Rightarrow> (sh2, Inl e)
                    | Inr ord \<Rightarrow> start_loop env ord [] (sh2\<lparr>sh_ordered := ord\<rparr>))))"

section \<open>Readiness, health and snapshots\<close>

fun ready_each :: "'d env \<Rightarrow> registered list \<Rightarrow> readiness list \<Rightarrow> shell \<Rightarrow> shell \<times> readiness list" where
  "ready_each env [] reports sh = (sh, reports)"
| "ready_each env (r # rs) reports sh =
     (let sh1 = log_call (CallReady (rg_component r)) sh in
      case ev_ready env (sh_trace sh) (rg_component r) of
        Inr rep \<Rightarrow> ready_each env rs (reports @ [rep]) sh1
      | Inl msg \<Rightarrow>
          (let iss = unknown_failure_issue (rg_id r) ''ready'' msg in
           ready_each env rs
             (reports @ [\<lparr>rd_status = RNotReady, rd_critical = True, rd_reason = iss_cause iss, rd_checks = None\<rparr>])
             (push_diags [iss] sh1)))"

definition shell_ready :: "'d env \<Rightarrow> shell \<Rightarrow> shell \<times> readiness" where
  "shell_ready env sh =
     (if \<not> has_registered sh
      then (sh, \<lparr>rd_status = RReady, rd_critical = False, rd_reason = None, rd_checks = None\<rparr>)
      else case ready_each env (sh_registered sh) [] sh of
        (sh', reports) \<Rightarrow> (sh', aggregate_readiness reports))"

fun health_each :: "'d env \<Rightarrow> registered list \<Rightarrow> health list \<Rightarrow> shell \<Rightarrow> shell \<times> health list" where
  "health_each env [] reports sh = (sh, reports)"
| "health_each env (r # rs) reports sh =
     (let sh1 = log_call (CallHealth (rg_component r)) sh in
      case ev_health env (sh_trace sh) (rg_component r) of
        Inr rep \<Rightarrow> health_each env rs (reports @ [rep]) sh1
      | Inl msg \<Rightarrow>
          (let iss = unknown_failure_issue (rg_id r) ''health'' msg in
           health_each env rs
             (reports @ [\<lparr>he_status = HUnhealthy, he_reason = iss_cause iss, he_checks = None\<rparr>])
             (push_diags [iss] sh1)))"

definition shell_health :: "'d env \<Rightarrow> shell \<Rightarrow> shell \<times> health" where
  "shell_health env sh =
     (if \<not> has_registered sh
      then (sh, \<lparr>he_status = HHealthy, he_reason = None, he_checks = None\<rparr>)
      else case health_each env (sh_registered sh) [] sh of
        (sh', reports) \<Rightarrow> (sh', aggregate_health reports))"

definition assert_critical_readiness :: "'d env \<Rightarrow> shell \<Rightarrow> shell \<times> (shell_error, unit) result" where
  "assert_critical_readiness env sh =
     (case shell_ready env sh of
        (sh', rep) \<Rightarrow>
          (sh', if rd_status rep = RNotReady 
           then Inl (ShellNotReady (case rd_reason rep of
                  None \<Rightarrow> ''critical platform component is unavailable.'' | Some s \<Rightarrow> s))
           else Inr ()))"

text \<open>
  \<open>snapshot()\<close> probes all components at once. The probes' calls are made in order
  before any of them settles: for each component its \<open>snapshot\<close>, \<open>ready\<close> and
  \<open>health\<close>. No probe rejects, so \<open>Promise.all\<close> yields all results in that order.
\<close>

definition normalize_snapshot :: "'d snapshot \<Rightarrow> component \<Rightarrow> string list \<Rightarrow> 'd snapshot" where
  "normalize_snapshot sn c deps =
     sn\<lparr>sn_dependencies := deps, sn_id := cp_id c, sn_kind := cp_kind c\<rparr>"

definition collect_component_snapshot ::
    "'d env \<Rightarrow> registered \<Rightarrow> shell \<Rightarrow> shell \<times> issue list \<times> 'd snapshot" where
  "collect_component_snapshot env r sh =
     (let c = rg_component r; sh1 = log_call (CallSnapshot c) sh in
      case ev_snapshot env (sh_trace sh) c of
        Inr sn \<Rightarrow> (sh1, [], normalize_snapshot sn c (rg_deps r))
      | Inl msg \<Rightarrow>
          (let iss = unknown_failure_issue (cp_id c) ''snapshot'' msg in
           (sh1, [iss],
            \<lparr>sn_id = cp_id c, sn_kind = cp_kind c, sn_state = PFailed,
             sn_readiness = \<lparr>rd_status = RNotReady, rd_critical = True, rd_reason = iss_cause iss, rd_checks = None\<rparr>,
             sn_health = \<lparr>he_status = HUnhealthy, he_reason = iss_cause iss, he_checks = None\<rparr>,
             sn_dependencies = rg_deps r, sn_namespace = ''fluo.platform'', sn_tags = [],
             sn_ownsResources = False, sn_externallyManaged = False, sn_details = []\<rparr>)))"

definition collect_component_readiness ::
    "'d env \<Rightarrow> registered \<Rightarrow> shell \<Rightarrow> shell \<times> issue list \<times> readiness" where
  "collect_component_readiness env r sh =
     (let c = rg_component r; sh1 = log_call (CallReady c) sh in
      case ev_ready env (sh_trace sh) c of
        Inr rep \<Rightarrow> (sh1, [], rep)
      | Inl msg \<Rightarrow>
          (let iss = unknown_failure_issue (cp_id c) ''ready'' msg in
           (sh1, [iss], \<lparr>rd_status = RNotReady, rd_critical = True, rd_reason = iss_cause iss, rd_checks = None\<rparr>)))"

definition collect_component_health ::
    "'d env \<Rightarrow> registered \<Rightarrow> shell \<Rightarrow> shell \<times> issue list \<times> health" where
  "collect_component_health env r sh =
     (let c = rg_component r; sh1 = log_call (CallHealth c) sh in
      case ev_health env (sh_trace sh) c of
        Inr rep \<Rightarrow> (sh1, [], rep)
      | Inl msg \<Rightarrow>
          (let iss = unknown_failure_issue (cp_id c) ''health'' msg in
           (sh1, [iss], \<lparr>he_status = HUnhealthy, he_reason = iss_cause iss, he_checks = None\<rparr>)))"

record 'd probe =
  pr_diagnostics :: "issue list"
  pr_health :: health
  pr_readiness :: readiness
  pr_snapshot :: "'d snapshot"

definition collect_snapshot_probe ::
    "'d env \<Rightarrow> registered \<Rightarrow> shell \<Rightarrow> shell \<times> 'd probe" where
  "collect_snapshot_probe env r sh =
     (case collect_component_snapshot env r sh of (sh1, d1, sn) \<Rightarrow>
      case collect_component_readiness env r sh1 of (sh2, d2, rd) \<Rightarrow>
      case collect_component_health env r sh2 of (sh3, d3, he) \<Rightarrow>
        (sh3, \<lparr>pr_diagnostics = d1 @ d2 @ d3, pr_health = he, pr_readiness = rd, pr_snapshot = sn\<rparr>))"

fun collect_probes :: "'d env \<Rightarrow> registered list \<Rightarrow> shell \<Rightarrow> shell \<times> 'd probe list" where
  "collect_probes env [] sh = (sh, [])"
| "collect_probes env (r # rs) sh =
     (case collect_snapshot_probe env r sh of (sh1, p) \<Rightarrow>
      case collect_probes env rs sh1 of (sh2, ps) \<Rightarrow> (sh2, p # ps))"

record 'd shell_snapshot =
  ss_components :: "'d snapshot list"
  ss_diagnostics :: "issue list"
  ss_generatedAt :: string
  ss_health :: health
  ss_readiness :: readiness

definition empty_shell_snapshot :: "string \<Rightarrow> issue list \<Rightarrow> 'd shell_snapshot" where
  "empty_shell_snapshot now diags =
     \<lparr>ss_components = [], ss_diagnostics = diags, ss_generatedAt = now,
      ss_health = \<lparr>he_status = HHealthy, he_reason = None, he_checks = None\<rparr>,
      ss_readiness = \<lparr>rd_status = RReady, rd_critical = False, rd_reason = None, rd_checks = None\<rparr>\<rparr>"

definition shell_snapshot :: "'d env \<Rightarrow> string \<Rightarrow> shell \<Rightarrow> shell \<times> 'd shell_snapshot" where
  "shell_snapshot env now sh =
     (if \<not> has_registered sh then (sh, empty_shell_snapshot now (sh_diags sh))
      else case collect_probes env (sh_registered sh) sh of
        (sh1, ps) \<Rightarrow>
          (let sh2 = push_diags (concat (map pr_diagnostics ps)) sh1 in
           (sh2, \<lparr>ss_components = map pr_snapshot ps, ss_diagnostics = sh_diags sh2,
                  ss_generatedAt = now,
                  ss_health = aggregate_health (map pr_health ps),
                  ss_readiness = aggregate_readiness (map pr_readiness ps)\<rparr>)))"

end
