(* ===== verification/Platform_Shell_Facts.thy ===== *)
theory Platform_Shell_Facts
  imports Platform_Shell "HOL-Library.Multiset"
begin

text \<open>
  What the platform shell guarantees: the start order is a topological order of the
  declared dependencies and exists exactly when they are acyclic; a successful start
  starts every component once, dependencies first; a failed start stops what it had
  started, last first; the lifecycle flags stay consistent; and the aggregated reports
  say what the component reports say.
\<close>

section \<open>Dependency order\<close>

definition dep_graph :: "registered list \<Rightarrow> (string \<times> string list) list" where
  "dep_graph rs = rev (map (\<lambda>r. (rg_id r, rg_deps r)) rs)"

lemma reg_by_id_SomeD: "reg_by_id rs i = Some r \<Longrightarrow> rg_id r = i \<and> r \<in> set rs"
  by (auto simp: reg_by_id_def dest: map_of_SomeD)

lemma reg_by_id_None: "reg_by_id rs i = None \<longleftrightarrow> i \<notin> rg_id ` set rs"
  by (simp add: reg_by_id_def map_of_eq_None_iff image_image)

lemma map_of_dep_graph: "map_of (dep_graph rs) i = map_option rg_deps (reg_by_id rs i)"
proof -
  have "map_of (map (\<lambda>r. (rg_id r, rg_deps r)) xs) i =
        map_option rg_deps (map_of (map (\<lambda>r. (rg_id r, r)) xs) i)" for xs
    by (induction xs) auto
  then show ?thesis
    by (simp add: dep_graph_def reg_by_id_def rev_map)
qed

fun order_error :: "string topo_error \<Rightarrow> shell_error" where
  "order_error (Cycle i) = DependencyCycle i"
| "order_error (Missing i) = MissingRegistration i"

abbreviation regs_of :: "registered list \<Rightarrow> string list \<Rightarrow> registered list" where
  "regs_of rs ids \<equiv> map (\<lambda>i. the (reg_by_id rs i)) ids"

lemma order_visit_topo:
  "strict \<Longrightarrow> g = dep_graph rs \<Longrightarrow>
   order_visit rs vis i (set ids, regs_of rs ids) =
     (case topo_visit strict g vis i ids of
        Inl e \<Rightarrow> Inl (order_error e) | Inr d \<Rightarrow> Inr (set d, regs_of rs d))"
  "strict \<Longrightarrow> g = dep_graph rs \<Longrightarrow>
   order_visits rs vis is (set ids, regs_of rs ids) =
     (case topo_visits strict g vis is ids of
        Inl e \<Rightarrow> Inl (order_error e) | Inr d \<Rightarrow> Inr (set d, regs_of rs d))"
proof (induction strict g vis i ids and strict g vis "is" ids
    rule: topo_visit_topo_visits.induct)
  case (1 strict g vis n dn)
  show ?case
  proof (cases "n \<in> set dn \<or> n \<in> vis \<or> reg_by_id rs n = None")
    case True
    with "1.prems" show ?thesis
      by (auto simp: topo_visit.simps [of True _ vis n dn]
          topo_visit.simps [of strict _ vis n dn] order_visit.simps [of rs vis n] map_of_dep_graph)
  next
    case False
    then obtain r where n: "n \<notin> set dn" "n \<notin> vis" and r: "reg_by_id rs n = Some r"
      by auto
    have "map_of g n = Some (rg_deps r)"
      using r "1.prems"(2) by (simp add: map_of_dep_graph)
    from "1.IH" [OF n this "1.prems"] n r this show ?thesis
      by (auto simp: topo_visit.simps [of True _ vis n dn]
          topo_visit.simps [of strict _ vis n dn] order_visit.simps [of rs vis n] split: sum.splits)
  qed
next
  case (3 strict g vis n ns dn)
  then show ?case by (simp split: sum.splits)
qed simp

lemma order_by_dependency_topo:
  "order_by_dependency rs =
     (case topo_run True (dep_graph rs) (map rg_id rs) of
        Inl e \<Rightarrow> Inl (order_error e) | Inr d \<Rightarrow> Inr (regs_of rs d))"
  using order_visit_topo(2) [of True "dep_graph rs" rs "{}" "map rg_id rs" "[]"]
  by (simp add: order_by_dependency_def topo_run_def split: sum.splits)

text \<open>The declared dependency relation on component ids.\<close>

definition depends_on :: "registered list \<Rightarrow> (string \<times> string) set" where
  "depends_on rs = {(rg_id r, d) | r d. r \<in> set rs \<and> d \<in> set (rg_deps r)}"

lemma edges_dep_graph_subset: "edges_of (dep_graph rs) \<subseteq> depends_on rs"
  by (fastforce simp: succ_of_def depends_on_def map_of_dep_graph dest: reg_by_id_SomeD
      split: option.splits)

lemma reg_by_id_distinct:
  "distinct (map rg_id rs) \<Longrightarrow> r \<in> set rs \<Longrightarrow> reg_by_id rs (rg_id r) = Some r"
  unfolding reg_by_id_def
  by (rule map_of_is_SomeI) (auto simp: rev_map comp_def simp flip: rev_map)

lemma edges_dep_graph:
  assumes "distinct (map rg_id rs)"
  shows "edges_of (dep_graph rs) = depends_on rs"
proof
  show "depends_on rs \<subseteq> edges_of (dep_graph rs)"
    using reg_by_id_distinct [OF assms]
    by (auto simp: succ_of_def depends_on_def map_of_dep_graph)
qed (rule edges_dep_graph_subset)

subsection \<open>What validation establishes\<close>

definition valid_registration :: "registered list \<Rightarrow> bool" where
  "valid_registration rs =
     (distinct (map rg_id rs) \<and>
      (\<forall>r \<in> set rs. js_trim (rg_id r) \<noteq> [] \<and> (\<forall>d \<in> set (rg_deps r). d \<in> rg_id ` set rs \<and> d \<noteq> rg_id r)))"

lemma check_ids_ok:
  "check_ids rs ids = Inr ids' \<longleftrightarrow>
     distinct (map rg_id rs) \<and> rg_id ` set rs \<inter> ids = {} \<and>
     (\<forall>r \<in> set rs. js_trim (rg_id r) \<noteq> []) \<and> ids' = ids \<union> rg_id ` set rs"
  by (induction rs arbitrary: ids) (auto simp: js_trim_def)

lemma check_deps_ok: "check_deps i ids ds = Inr () \<longleftrightarrow> (\<forall>d \<in> set ds. d \<in> ids \<and> d \<noteq> i)"
  by (induction ds) auto

lemma check_all_deps_ok:
  "check_all_deps ids rs = Inr () \<longleftrightarrow>
     (\<forall>r \<in> set rs. \<forall>d \<in> set (rg_deps r). d \<in> ids \<and> d \<noteq> rg_id r)"
proof (induction rs)
  case (Cons r rs)
  have "check_deps (rg_id r) ids (rg_deps r) = Inr () \<longleftrightarrow> \<not> (\<exists>e. check_deps (rg_id r) ids (rg_deps r) = Inl e)"
    by (cases "check_deps (rg_id r) ids (rg_deps r)") auto
  with Cons show ?case by (auto simp flip: check_deps_ok split: sum.splits)
qed simp

lemma validate_identity_ok: "validate_identity rs = Inr () \<longleftrightarrow> valid_registration rs"
proof (cases "check_ids rs {}")
  case (Inl e)
  then have "\<not> (distinct (map rg_id rs) \<and> (\<forall>r \<in> set rs. js_trim (rg_id r) \<noteq> []))"
    using check_ids_ok [of rs "{}" "rg_id ` set rs"] by auto
  then show ?thesis
    using Inl by (auto simp: validate_identity_def valid_registration_def)
next
  case (Inr ids)
  then show ?thesis
    using check_ids_ok [of rs "{}" ids]
    by (auto simp: validate_identity_def valid_registration_def check_all_deps_ok)
qed

lemma check_no_start_failure:
  "check_ids rs ids = Inl e \<Longrightarrow> e \<noteq> StartFailure i msg"
  "check_deps j ids ds = Inl e \<Longrightarrow> e \<noteq> StartFailure i msg"
  by (induction rs arbitrary: ids, auto split: if_splits) (induction ds, auto split: if_splits)

lemma validate_identity_no_start_failure:
  "validate_identity rs = Inl e \<Longrightarrow> e \<noteq> StartFailure i msg"
proof -
  have "check_all_deps ids xs = Inl e \<Longrightarrow> e \<noteq> StartFailure i msg" for ids xs
    by (induction xs) (auto split: sum.splits dest: check_no_start_failure)
  then show "validate_identity rs = Inl e \<Longrightarrow> e \<noteq> StartFailure i msg"
    by (auto simp: validate_identity_def dest: check_no_start_failure split: sum.splits)
qed

lemma valid_registration_closed:
  assumes "valid_registration rs" and "i \<in> rg_id ` set rs" and "(i, j) \<in> (depends_on rs)\<^sup>*"
  shows "j \<in> rg_id ` set rs"
  using assms(3,2)
proof (induction rule: rtrancl_induct)
  case (step y z)
  then show ?case using assms(1) by (auto simp: depends_on_def valid_registration_def)
qed


subsection \<open>The start order\<close>

lemma regs_of_self:
  assumes "valid_registration rs" and "set d = rg_id ` set rs" and "distinct d"
  shows "mset (regs_of rs d) = mset rs" and "map rg_id (regs_of rs d) = d"
proof -
  have dist: "distinct (map rg_id rs)"
    using assms(1) by (simp add: valid_registration_def)
  have key: "\<exists>r \<in> set rs. reg_by_id rs i = Some r \<and> rg_id r = i" if "i \<in> set d" for i
    using that assms(2) reg_by_id_distinct [OF dist] by auto
  then show ids: "map rg_id (regs_of rs d) = d"
    by (induction d) fastforce+
  have "regs_of rs d = map (\<lambda>i. the (reg_by_id rs i)) d" by simp
  have "mset d = mset (map rg_id rs)"
    using assms(2,3) dist by (metis set_eq_iff_mset_eq_distinct set_map)
  then have "mset (regs_of rs d) = mset (regs_of rs (map rg_id rs))"
    by (metis mset_map)
  also have "regs_of rs (map rg_id rs) = rs"
    using reg_by_id_distinct [OF dist] by (simp add: map_idI)
  finally show "mset (regs_of rs d) = mset rs" .
qed

definition dependencies_first :: "registered list \<Rightarrow> bool" where
  "dependencies_first ord =
     (\<forall>i < length ord. \<forall>d \<in> set (rg_deps (ord ! i)). \<exists>j < i. rg_id (ord ! j) = d)"

lemma topo_ids:
  assumes "valid_registration rs" and "topo_run True (dep_graph rs) (map rg_id rs) = Inr d"
  shows "set d = rg_id ` set rs"
proof
  show "rg_id ` set rs \<subseteq> set d"
    using topo_run_ok(2) [OF assms(2)] by simp
  show "set d \<subseteq> rg_id ` set rs"
  proof
    fix m assume "m \<in> set d"
    then obtain n where "n \<in> rg_id ` set rs" and "(n, m) \<in> (edges_of (dep_graph rs))\<^sup>*"
      using topo_run_ok(4) [OF assms(2), of m] by auto
    then show "m \<in> rg_id ` set rs"
      using valid_registration_closed [OF assms(1)] rtrancl_mono [OF edges_dep_graph_subset]
      by blast
  qed
qed

lemma order_by_dependency_sorted:
  assumes "valid_registration rs" and "order_by_dependency rs = Inr ord"
  shows "mset ord = mset rs" and "dependencies_first ord"
proof -
  obtain d where run: "topo_run True (dep_graph rs) (map rg_id rs) = Inr d"
    and ord: "ord = regs_of rs d"
    using assms(2) by (auto simp: order_by_dependency_topo split: sum.splits)
  note ids = topo_ids [OF assms(1) run]
  note self = regs_of_self [OF assms(1) ids topo_run_ok(1) [OF run]]
  show "mset ord = mset rs" using self(1) ord by simp
  show "dependencies_first ord"
    unfolding dependencies_first_def
  proof (intro allI impI ballI)
    fix i k assume i: "i < length ord" and k: "k \<in> set (rg_deps (ord ! i))"
    have rgi: "rg_id (ord ! j) = d ! j" if "j < length d" for j
      using self(2) that ord by (metis length_map nth_map)
    have mem: "ord ! i \<in> set rs"
      using i self(1) ord by (metis mset_eq_setD nth_mem)
    have dist: "distinct (map rg_id rs)"
      using assms(1) by (simp add: valid_registration_def)
    have "k \<in> succ_of (dep_graph rs) (d ! i)"
      using reg_by_id_distinct [OF dist mem] k i ord rgi [of i]
      by (cases "reg_by_id rs (d ! i)") (simp_all add: succ_of_def map_of_dep_graph)
    then obtain j where "j < i" and "d ! j = k"
      using deps_first_nth [OF topo_run_ok(3) [OF run], of i k] i ord by auto
    then show "\<exists>j < i. rg_id (ord ! j) = k"
      using rgi i ord by (metis length_map less_trans)
  qed
qed

lemma order_by_dependency_acyclic:
  assumes "valid_registration rs"
  shows "is_ok (order_by_dependency rs) \<longleftrightarrow> acyclic (depends_on rs)"
proof -
  have dist: "distinct (map rg_id rs)"
    using assms by (simp add: valid_registration_def)
  note edges = edges_dep_graph [OF dist]
  have ok: "is_ok (order_by_dependency rs) = is_ok (topo_run True (dep_graph rs) (map rg_id rs))"
    by (auto simp: order_by_dependency_topo split: sum.splits)
  also have "\<dots> = (\<forall>n \<in> rg_id ` set rs. \<forall>m. (n, m) \<in> (depends_on rs)\<^sup>* \<longrightarrow> (m, m) \<notin> (depends_on rs)\<^sup>+)"
    using topo_run_ok_iff [of True "map rg_id rs" "dep_graph rs"] valid_registration_closed [OF assms]
    by (fastforce simp: edges map_of_dep_graph reg_by_id_None)
  also have "\<dots> = acyclic (depends_on rs)"
  proof -
    have src: "m \<in> rg_id ` set rs" if cyc: "(m, m) \<in> (depends_on rs)\<^sup>+" for m
    proof -
      obtain y where "(m, y) \<in> depends_on rs" using tranclD [OF cyc] by blast
      then show ?thesis by (auto simp: depends_on_def)
    qed
    show ?thesis
      using src by (auto simp: acyclic_def)
  qed
  finally show ?thesis .
qed


section \<open>Calls made by start and stop\<close>

abbreviation starts :: "registered list \<Rightarrow> call list" where
  "starts rs \<equiv> map (\<lambda>r. CallStart (rg_component r)) rs"

abbreviation stops :: "registered list \<Rightarrow> call list" where
  "stops rs \<equiv> map (\<lambda>r. CallStop (rg_component r)) rs"

text \<open>The lifecycle fields, which diagnostics and the trace leave alone.\<close>

definition same_lifecycle :: "shell \<Rightarrow> shell \<Rightarrow> bool" where
  "same_lifecycle sh sh' =
     (sh_started sh' = sh_started sh \<and> sh_stopped sh' = sh_stopped sh \<and>
      sh_ordered sh' = sh_ordered sh \<and> sh_rollback sh' = sh_rollback sh \<and>
      sh_registered sh' = sh_registered sh)"

lemma same_lifecycle_refl [simp]: "same_lifecycle sh sh"
  by (simp add: same_lifecycle_def)

lemma same_lifecycle_trans:
  "same_lifecycle a b \<Longrightarrow> same_lifecycle b c \<Longrightarrow> same_lifecycle a c"
  by (simp add: same_lifecycle_def)

lemma same_lifecycle_log [simp]: "same_lifecycle a (log_call c b) = same_lifecycle a b"
  by (simp add: same_lifecycle_def log_call_def)

lemma same_lifecycle_push [simp]: "same_lifecycle a (push_diags d b) = same_lifecycle a b"
  by (simp add: same_lifecycle_def push_diags_def)

lemma same_lifecycle_from [simp]:
  "same_lifecycle (log_call c a) b = same_lifecycle a b"
  "same_lifecycle (push_diags d a) b = same_lifecycle a b"
  by (simp_all add: same_lifecycle_def log_call_def push_diags_def)

lemma trace_log [simp]: "sh_trace (log_call c sh) = sh_trace sh @ [c]"
  by (simp add: log_call_def)

lemma trace_push [simp]: "sh_trace (push_diags d sh) = sh_trace sh"
  by (simp add: push_diags_def)

lemma stops_no_start [simp]: "CallStart c \<notin> (\<lambda>r. CallStop (rg_component r)) ` A"
  by auto

lemma stop_each_calls:
  "stop_each env rs errors sh = (sh', errors') \<Longrightarrow>
   sh_trace sh' = sh_trace sh @ stops rs \<and> same_lifecycle sh sh'"
  by (induction rs arbitrary: errors sh) (fastforce simp: Let_def split: sum.splits)+

lemma stop_started_components_calls:
  "stop_started_components env rs sh = (sh', res) \<Longrightarrow>
   sh_trace sh' = sh_trace sh @ stops (rev rs) \<and> same_lifecycle sh sh'"
  by (auto simp: stop_started_components_def dest!: stop_each_calls split: prod.splits)

lemma validate_components_calls:
  "validate_components env rs failures sh = (sh', failures') \<Longrightarrow>
   sh_trace sh' = sh_trace sh @ map (\<lambda>r. CallValidate (rg_component r)) rs \<and> same_lifecycle sh sh'"
proof (induction rs arbitrary: failures sh)
  case (Cons r rs)
  then show ?case
    by (fastforce simp: Let_def split: sum.splits if_splits option.splits)
qed simp

lemma start_loop_ok:
  "start_loop env rs st sh = (sh', Inr u) \<Longrightarrow>
   sh_trace sh' = sh_trace sh @ starts rs \<and> sh_started sh' \<and> \<not> sh_stopped sh' \<and>
   sh_rollback sh' = [] \<and> sh_ordered sh' = sh_ordered sh \<and> sh_registered sh' = sh_registered sh"
proof (induction rs arbitrary: st sh)
  case (Cons r rs)
  then have "start_loop env rs (st @ [r]) (log_call (CallStart (rg_component r)) sh) = (sh', Inr u)"
    by (auto simp: Let_def split: sum.splits prod.splits)
  from Cons.IH [OF this] show ?case by (simp add: log_call_def)
qed auto

lemma start_loop_failed:
  "start_loop env rs st sh = (sh', Inl e) \<Longrightarrow>
   \<exists>pre r post msg. rs = pre @ r # post \<and> e = StartFailure (rg_id r) msg \<and>
     sh_trace sh' = sh_trace sh @ starts (pre @ [r]) @ stops (rev (st @ pre)) \<and>
     sh_started sh' = sh_started sh \<and> sh_stopped sh' = sh_stopped sh \<and>
     sh_ordered sh' = sh_ordered sh \<and> sh_registered sh' = sh_registered sh \<and>
     (sh_rollback sh' = [] \<or> sh_rollback sh' = st @ pre)"
proof (induction rs arbitrary: st sh)
  case (Cons r rs)
  let ?c = "CallStart (rg_component r)"
  show ?case
  proof (cases "ev_start env (sh_trace sh) (rg_component r)")
    case (Inr u)
    with Cons.prems have "start_loop env rs (st @ [r]) (log_call ?c sh) = (sh', Inl e)"
      by (simp add: Let_def)
    from Cons.IH [OF this] obtain pre r' post msg where
      ih: "rs = pre @ r' # post" "e = StartFailure (rg_id r') msg"
        "sh_trace sh' = sh_trace sh @ starts ((r # pre) @ [r']) @ stops (rev (st @ r # pre))"
        "sh_started sh' = sh_started sh" "sh_stopped sh' = sh_stopped sh"
        "sh_ordered sh' = sh_ordered sh" "sh_registered sh' = sh_registered sh"
        "sh_rollback sh' = [] \<or> sh_rollback sh' = st @ r # pre"
      by (auto simp: log_call_def)
    show ?thesis
      by (rule exI [of _ "r # pre"], rule exI [of _ r'], rule exI [of _ post], rule exI [of _ msg])
        (use ih in simp)
  next
    case (Inl msg)
    define sh2 where "sh2 = push_diags [unknown_failure_issue (rg_id r) ''start'' msg] (log_call ?c sh)"
    obtain sh3 res where st3: "stop_started_components env st sh2 = (sh3, res)"
      by fastforce
    from stop_started_components_calls [OF st3]
    have t3: "sh_trace sh3 = sh_trace sh @ [?c] @ stops (rev st)" "same_lifecycle sh sh3"
      by (simp_all add: sh2_def)
    from Inl Cons.prems st3 have
      "e = StartFailure (rg_id r) msg \<and> sh_trace sh' = sh_trace sh3 \<and>
       (sh_rollback sh' = [] \<or> sh_rollback sh' = st) \<and>
       sh_started sh' = sh_started sh3 \<and> sh_stopped sh' = sh_stopped sh3 \<and>
       sh_ordered sh' = sh_ordered sh3 \<and> sh_registered sh' = sh_registered sh3"
      by (cases res) (auto simp: Let_def sh2_def push_diags_def)
    with t3 show ?thesis
      by (intro exI [of _ "[]"] exI [of _ r] exI [of _ rs] exI [of _ msg])
        (auto simp: same_lifecycle_def)
  qed
qed simp


lemma shell_stop_cases:
  assumes "shell_stop env sh = (sh', res)"
  obtains (idle) "sh' = sh" "res = Inr ()" "(\<not> sh_started sh \<and> sh_rollback sh = []) \<or> sh_stopped sh"
  | (failed) rs e where "\<not> sh_stopped sh" "res = Inl e" "same_lifecycle sh sh'"
      "sh_trace sh' = sh_trace sh @ stops (rev rs)"
      "rs = (if sh_rollback sh \<noteq> [] then sh_rollback sh
             else if sh_ordered sh \<noteq> [] then sh_ordered sh else sh_registered sh)"
  | (stopped) rs where "\<not> sh_stopped sh" "res = Inr ()" "\<not> sh_started sh'" "sh_stopped sh'"
      "sh_rollback sh' = []" "sh_ordered sh' = sh_ordered sh" "sh_registered sh' = sh_registered sh"
      "sh_trace sh' = sh_trace sh @ stops (rev rs)"
      "rs = (if sh_rollback sh \<noteq> [] then sh_rollback sh
             else if sh_ordered sh \<noteq> [] then sh_ordered sh else sh_registered sh)"
proof (cases "(\<not> sh_started sh \<and> sh_rollback sh = []) \<or> sh_stopped sh")
  case True
  with assms show ?thesis by (intro idle) (auto simp: shell_stop_def)
next
  case False
  define rs where "rs = (if sh_rollback sh \<noteq> [] then sh_rollback sh
             else if sh_ordered sh \<noteq> [] then sh_ordered sh else sh_registered sh)"
  obtain sh1 r where st: "stop_started_components env rs sh = (sh1, r)" by fastforce
  note calls = stop_started_components_calls [OF st]
  from False have ns: "\<not> sh_stopped sh" by simp
  show ?thesis
  proof (cases r)
    case (Inl e)
    with assms False st have "sh' = sh1" and "res = Inl e"
      by (auto simp: shell_stop_def Let_def simp flip: rs_def)
    with calls ns show ?thesis by (intro failed [of e rs]) (auto simp: rs_def)
  next
    case (Inr u)
    with assms False st have "sh' = sh1\<lparr>sh_rollback := [], sh_started := False, sh_stopped := True\<rparr>"
      and "res = Inr ()"
      by (auto simp: shell_stop_def Let_def simp flip: rs_def)
    with calls ns show ?thesis
      by (intro stopped [of rs]) (auto simp: rs_def same_lifecycle_def)
  qed
qed

text \<open>What a start calls before it starts anything: it stops what a failed start before it left to clean
  up, unless the shell is stopped, and validates every component in the order of registration.\<close>

definition start_preamble :: "shell \<Rightarrow> call list" where
  "start_preamble sh =
     stops (rev (if sh_stopped sh then [] else sh_rollback sh)) @
     map (\<lambda>r. CallValidate (rg_component r)) (sh_registered sh)"

lemma start_preamble_no_start [simp]: "CallStart c \<notin> set (start_preamble sh)"
  by (auto simp: start_preamble_def)

text \<open>How a \<open>start()\<close> that passes its early return can end.\<close>

lemma shell_start_cases:
  assumes "shell_start env sh = (sh', res)" and "has_registered sh" and "\<not> sh_started sh"
  obtains (stop_failed) e where "res = Inl e" "shell_stop env sh = (sh', Inl e)" "sh_rollback sh \<noteq> []"
  | (refused) e sh1 where "res = Inl e" "sh1 = sh \<or> shell_stop env sh = (sh1, Inr ())"
      "same_lifecycle sh1 sh'" "\<And>i msg. e \<noteq> StartFailure i msg"
  | (ran) ord sh1 sh2 pre where "sh1 = sh \<or> shell_stop env sh = (sh1, Inr ())"
      "same_lifecycle sh1 sh2" "valid_registration (sh_registered sh1)"
      "order_by_dependency (sh_registered sh1) = Inr ord"
      "sh_trace sh2 = sh_trace sh @ pre" "pre = start_preamble sh"
      "start_loop env ord [] (sh2\<lparr>sh_ordered := ord\<rparr>) = (sh', res)"
proof -
  define first where "first = (if sh_rollback sh \<noteq> [] then shell_stop env sh else (sh, Inr ()))"
  obtain sh1 r1 where f: "first = (sh1, r1)" by fastforce
  show ?thesis
  proof (cases r1)
    case (Inl e)
    with assms f have "res = Inl e" "sh' = sh1"
      by (auto simp: shell_start_def simp flip: first_def)
    then show ?thesis
      using f Inl by (intro stop_failed [of e]) (auto simp: first_def split: if_splits)
  next
    case (Inr u)
    have pre: "sh1 = sh \<or> shell_stop env sh = (sh1, Inr ())"
      using f Inr by (auto simp: first_def split: if_splits)
    have tr1: "sh_trace sh1 = sh_trace sh @ stops (rev (if sh_stopped sh then [] else sh_rollback sh)) \<and>
        sh_registered sh1 = sh_registered sh"
    proof (cases "sh_rollback sh = []")
      case True
      then show ?thesis
        using f by (simp add: first_def)
    next
      case False
      then have "shell_stop env sh = (sh1, Inr ())"
        using f Inr by (simp add: first_def)
      then show ?thesis
        using False by (cases rule: shell_stop_cases) simp_all
    qed
    show ?thesis
    proof (cases "validate_identity (sh_registered sh1)")
      case (Inl e)
      with assms f Inr have "res = Inl e" "sh' = sh1"
        by (auto simp: shell_start_def simp flip: first_def)
      moreover have "e \<noteq> StartFailure i msg" for i msg
        using Inl validate_identity_no_start_failure by blast
      ultimately show ?thesis using pre by (intro refused [of e sh1]) auto
    next
      case valid: (Inr v)
      obtain sh2 fs where vc: "validate_components env (sh_registered sh1) [] sh1 = (sh2, fs)"
        by fastforce
      note calls = validate_components_calls [OF vc]
      have reg: "sh_registered sh2 = sh_registered sh1"
        using calls by (simp add: same_lifecycle_def)
      show ?thesis
      proof (cases "fs = []")
        case False
        with assms f Inr valid vc have "\<exists>ps. res = Inl (ValidationFailed ps)" "sh' = sh2"
          by (auto simp: shell_start_def simp flip: first_def)
        then show ?thesis using pre calls by (auto intro: refused)
      next
        case True
        show ?thesis
        proof (cases "order_by_dependency (sh_registered sh1)")
          case (Inl e)
          with assms f Inr valid vc True reg have "res = Inl e" "sh' = sh2"
            by (auto simp: shell_start_def simp flip: first_def)
          moreover have "e \<noteq> StartFailure i msg" for i msg
            using Inl by (auto simp: order_by_dependency_topo split: sum.splits elim!: order_error.elims)
          ultimately show ?thesis
            using pre calls by (intro refused [of e sh1]) auto
        next
          case ordered: (Inr ord)
          with assms f Inr valid vc True reg
          have "start_loop env ord [] (sh2\<lparr>sh_ordered := ord\<rparr>) = (sh', res)"
            by (auto simp: shell_start_def simp flip: first_def)
          then show ?thesis
            using pre calls valid ordered tr1
            by (intro ran [of sh1 sh2 ord "start_preamble sh"])
              (auto simp: validate_identity_ok [symmetric] start_preamble_def)
        qed
      qed
    qed
  qed
qed


section \<open>Properties\<close>


text \<open>C28. When a component fails to start, the shell has stopped exactly the components it
  had started in this attempt, in reverse start order; the failing one and those after it
  were not stopped, the later ones not even started; and any component it may still have
  to clean up is one of those it stopped.\<close>

theorem shell_start_failed:
  assumes "shell_start env sh = (sh', Inl (StartFailure i msg))"
  shows "\<exists>pre up r down. sh_ordered sh' = up @ r # down \<and> rg_id r = i \<and>
           sh_trace sh' = sh_trace sh @ pre @ starts (up @ [r]) @ stops (rev up) \<and>
           (\<forall>c. CallStart c \<notin> set pre) \<and> \<not> sh_started sh' \<and>
           (sh_rollback sh' = [] \<or> sh_rollback sh' = up)"
proof -
  have "has_registered sh" and ns: "\<not> sh_started sh"
    using assms by (auto simp: shell_start_def split: if_splits)
  with assms show ?thesis
  proof (cases rule: shell_start_cases)
    case (stop_failed e)
    then show ?thesis
      by (auto simp: shell_stop_def stop_started_components_def Let_def
          split: if_splits prod.splits sum.splits)
  next
    case (refused e sh1)
    then show ?thesis by blast
  next
    case (ran ord sh1 sh2 pre)
    have "\<not> sh_started sh2"
      using ran(1,2) ns by (auto simp: same_lifecycle_def elim!: shell_stop_cases)
    moreover from start_loop_failed [OF ran(7)] obtain up r down where
      "ord = up @ r # down" "rg_id r = i"
      "sh_trace sh' = sh_trace sh2 @ starts (up @ [r]) @ stops (rev up)"
      "sh_started sh' = sh_started sh2" "sh_ordered sh' = ord"
      "sh_rollback sh' = [] \<or> sh_rollback sh' = up"
      by auto
    ultimately show ?thesis using ran(5,6)
      by (intro exI [of _ pre] exI [of _ up] exI [of _ r] exI [of _ down]) auto
  qed
qed

text \<open>Once identities are valid, a start order exists exactly when the declared
  dependencies have no cycle; a cycle is the only reason to refuse.\<close>

theorem order_exists_iff_acyclic:
  assumes "validate_identity rs = Inr ()"
  shows "is_ok (order_by_dependency rs) \<longleftrightarrow> acyclic (depends_on rs)"
  using assms order_by_dependency_acyclic by (simp add: validate_identity_ok)

text \<open>What each component's probe gives when the probes run in registration order, and the
  report the shell derives from it; a probe that throws counts as critical.\<close>

fun ready_outcomes :: "'d env \<Rightarrow> call list \<Rightarrow> registered list \<Rightarrow> (string, readiness) result list" where
  "ready_outcomes env t [] = []"
| "ready_outcomes env t (r # rs) =
     ev_ready env t (rg_component r) # ready_outcomes env (t @ [CallReady (rg_component r)]) rs"

fun outcome_report :: "(string, readiness) result \<Rightarrow> readiness" where
  "outcome_report (Inr rep) = rep"
| "outcome_report (Inl msg) =
     \<lparr>rd_status = RNotReady, rd_critical = True, rd_reason = Some msg, rd_checks = None\<rparr>"

lemma ready_each_reports:
  "snd (ready_each env rs reports sh) =
     reports @ map outcome_report (ready_outcomes env (sh_trace sh) rs)"
  by (induction rs arbitrary: reports sh)
    (auto simp: Let_def unknown_failure_issue_def split: sum.splits)

lemma aggregate_readiness_status:
  "rd_status (aggregate_readiness rs) = RNotReady \<longleftrightarrow>
     (\<exists>r \<in> set rs. rd_critical r \<and> rd_status r = RNotReady)"
  "rd_status (aggregate_readiness rs) = RReady \<longleftrightarrow> (\<forall>r \<in> set rs. rd_status r = RReady)"
proof -
  show "rd_status (aggregate_readiness rs) = RNotReady \<longleftrightarrow>
     (\<exists>r \<in> set rs. rd_critical r \<and> rd_status r = RNotReady)"
    by (simp add: aggregate_readiness_def Let_def list_ex_iff)
  have "rd_status r = RReady \<longleftrightarrow> rd_status r \<noteq> RNotReady \<and> rd_status r \<noteq> RDegraded" for r :: readiness
    by (cases "rd_status r") auto
  then show "rd_status (aggregate_readiness rs) = RReady \<longleftrightarrow> (\<forall>r \<in> set rs. rd_status r = RReady)"
    by (auto simp: aggregate_readiness_def Let_def list_ex_iff)
qed

text \<open>The shell reports itself not ready exactly when some critical component is not
  ready (or some component's probe threw, which counts as critical), and ready exactly when
  every component is ready.\<close>

theorem shell_ready_status:
  "(rd_status (snd (shell_ready env sh)) = RNotReady \<longleftrightarrow>
      list_ex (\<lambda>o'. rd_critical (outcome_report o') \<and> rd_status (outcome_report o') = RNotReady)
        (ready_outcomes env (sh_trace sh) (sh_registered sh))) \<and>
   (rd_status (snd (shell_ready env sh)) = RReady \<longleftrightarrow>
      list_all (\<lambda>o'. rd_status (outcome_report o') = RReady)
        (ready_outcomes env (sh_trace sh) (sh_registered sh)))"
proof (cases "has_registered sh")
  case False
  then show ?thesis by (simp add: shell_ready_def has_registered_def)
next
  case True
  then have "snd (shell_ready env sh) =
      aggregate_readiness (map outcome_report (ready_outcomes env (sh_trace sh) (sh_registered sh)))"
    using ready_each_reports [of env "sh_registered sh" "[]" sh]
    by (simp add: shell_ready_def case_prod_beta)
  then show ?thesis by (simp add: aggregate_readiness_status list_ex_iff list_all_iff)
qed


text \<open>The states a shell goes through: it is built from its inputs, and then any of its
  methods is called, any number of times, over any behaviour of the components.\<close>

inductive shell_step :: "'d env \<Rightarrow> shell \<Rightarrow> shell \<Rightarrow> bool" for env where
  step_start: "shell_start env sh = (sh', res) \<Longrightarrow> shell_step env sh sh'"
| step_stop: "shell_stop env sh = (sh', res) \<Longrightarrow> shell_step env sh sh'"
| step_ready: "shell_ready env sh = (sh', rep) \<Longrightarrow> shell_step env sh sh'"
| step_health: "shell_health env sh = (sh', hep) \<Longrightarrow> shell_step env sh sh'"
| step_snapshot: "shell_snapshot env now sh = (sh', sn) \<Longrightarrow> shell_step env sh sh'"
| step_assert: "assert_critical_readiness env sh = (sh', res) \<Longrightarrow> shell_step env sh sh'"

inductive shell_reachable :: "'d env \<Rightarrow> component_input list option \<Rightarrow> shell \<Rightarrow> bool" for env cs where
  reach_init: "shell_reachable env cs (from_inputs cs)"
| reach_step: "shell_reachable env cs sh \<Longrightarrow> shell_step env sh sh' \<Longrightarrow> shell_reachable env cs sh'"

definition shell_inv :: "registered list \<Rightarrow> shell \<Rightarrow> bool" where
  "shell_inv rs sh =
     (sh_registered sh = rs \<and>
      (sh_ordered sh = [] \<or> (valid_registration rs \<and> mset (sh_ordered sh) = mset rs \<and> dependencies_first (sh_ordered sh))) \<and>
      (sh_started sh \<longrightarrow> sh_ordered sh \<noteq> [] \<and> sh_rollback sh = [] \<and> \<not> sh_stopped sh) \<and>
      (\<exists>down. sh_rollback sh @ down = sh_ordered sh \<or> sh_rollback sh = []))"

lemma shell_inv_same: "same_lifecycle sh sh' \<Longrightarrow> shell_inv rs sh \<Longrightarrow> shell_inv rs sh'"
  by (simp add: same_lifecycle_def shell_inv_def)

lemma shell_inv_stop:
  assumes "shell_stop env sh = (sh', res)" and "shell_inv rs sh"
  shows "shell_inv rs sh'"
  using assms(1)
proof (cases rule: shell_stop_cases)
  case idle
  with assms(2) show ?thesis by simp
next
  case (failed rs' e)
  with assms(2) show ?thesis by (auto intro: shell_inv_same)
next
  case (stopped rs')
  with assms(2) show ?thesis by (auto simp: shell_inv_def)
qed

lemma shell_inv_start:
  assumes "shell_start env sh = (sh', res)" and "shell_inv rs sh"
  shows "shell_inv rs sh'"
proof (cases "has_registered sh \<and> \<not> sh_started sh")
  case False
  with assms show ?thesis by (auto simp: shell_start_def split: if_splits)
next
  case True
  then have hr: "has_registered sh" and ns: "\<not> sh_started sh" by auto
  from assms(1) hr ns show ?thesis
  proof (cases rule: shell_start_cases)
    case (stop_failed e)
    then show ?thesis using assms(2) shell_inv_stop by blast
  next
    case (refused e sh1)
    then show ?thesis using assms(2) shell_inv_stop shell_inv_same by blast
  next
    case (ran ord sh1 sh2 pre)
    have i1: "shell_inv rs sh1" using ran(1) assms(2) shell_inv_stop by blast
    have reg: "sh_registered sh1 = rs" "sh_registered sh2 = rs"
      using i1 ran(2) by (auto simp: shell_inv_def same_lifecycle_def)
    have started2: "\<not> sh_started sh2"
      using ran(1,2) ns by (auto simp: same_lifecycle_def elim!: shell_stop_cases)
    have ord: "valid_registration rs" "mset ord = mset rs" "dependencies_first ord"
      using ran(3,4) reg order_by_dependency_sorted by auto
    have "rs \<noteq> []"
      using hr assms(2) by (simp add: shell_inv_def has_registered_def)
    then have ne: "ord \<noteq> []" using ord(2) by auto
    show ?thesis
    proof (cases res)
      case (Inr u)
      with start_loop_ok [of env ord "[]" _ sh' u] ran(7) ord ne reg show ?thesis
        by (auto simp: shell_inv_def)
    next
      case (Inl e)
      with start_loop_failed [of env ord "[]" _ sh' e] ran(7) ord reg started2 show ?thesis
        by (fastforce simp: shell_inv_def)
    qed
  qed
qed

lemma ready_each_lifecycle:
  "same_lifecycle a sh \<Longrightarrow> same_lifecycle a (fst (ready_each env rs reports sh))"
  by (induction rs arbitrary: reports sh) (auto simp: Let_def split: sum.splits)

lemma health_each_lifecycle:
  "same_lifecycle a sh \<Longrightarrow> same_lifecycle a (fst (health_each env rs reports sh))"
  by (induction rs arbitrary: reports sh) (auto simp: Let_def split: sum.splits)

lemma collect_probe_lifecycle:
  "collect_snapshot_probe env r sh = (sh', p) \<Longrightarrow> same_lifecycle sh sh'"
  by (auto simp: collect_snapshot_probe_def collect_component_snapshot_def
      collect_component_readiness_def collect_component_health_def Let_def
      split: prod.splits sum.splits)

lemma collect_probes_lifecycle:
  "collect_probes env rs sh = (sh', ps) \<Longrightarrow> same_lifecycle sh sh'"
  by (induction rs arbitrary: sh ps)
    (fastforce split: prod.splits dest: collect_probe_lifecycle intro: same_lifecycle_trans)+

lemma shell_ready_lifecycle: "shell_ready env sh = (sh', rep) \<Longrightarrow> same_lifecycle sh sh'"
  using ready_each_lifecycle [of sh sh env "sh_registered sh" "[]"]
  by (auto simp: shell_ready_def split: if_splits prod.splits)

lemma shell_inv_step:
  assumes "shell_step env sh sh'" and "shell_inv rs sh"
  shows "shell_inv rs sh'"
  using assms(1)
proof cases
  case (step_start res)
  then show ?thesis using assms(2) shell_inv_start by blast
next
  case (step_stop res)
  then show ?thesis using assms(2) shell_inv_stop by blast
next
  case (step_ready rep)
  then show ?thesis using assms(2) shell_inv_same shell_ready_lifecycle by blast
next
  case (step_health hep)
  then have "same_lifecycle sh sh'"
    using health_each_lifecycle [of sh sh env "sh_registered sh" "[]"]
    by (auto simp: shell_health_def split: if_splits prod.splits)
  then show ?thesis using assms(2) shell_inv_same by blast
next
  case (step_snapshot now sn)
  then have "same_lifecycle sh sh'"
    by (auto simp: shell_snapshot_def Let_def split: if_splits prod.splits
        dest: collect_probes_lifecycle)
  then show ?thesis using assms(2) shell_inv_same by blast
next
  case (step_assert res)
  then have "same_lifecycle sh sh'"
    by (auto simp: assert_critical_readiness_def split: prod.splits dest: shell_ready_lifecycle)
  then show ?thesis using assms(2) shell_inv_same by blast
qed

text \<open>In every reachable state, a started shell has a dependency order over exactly its
  registered components, nothing left to roll back and is not marked stopped; components
  left to roll back are always the first part of the last start order.\<close>

theorem shell_lifecycle_invariant:
  assumes "shell_reachable env cs sh"
  shows "shell_inv (to_registered_components cs) sh"
  using assms
proof (induction rule: shell_reachable.induct)
  case reach_init
  show ?case by (simp add: shell_inv_def from_inputs_def)
next
  case (reach_step sh sh')
  then show ?case by (blast intro: shell_inv_step)
qed


section \<open>Concrete runs\<close>

text \<open>Two components, the second depending on the first, whose second start (of the
  dependent) and second stop (of the dependency) fail.\<close>

definition comp_a :: component where
  "comp_a = \<lparr>cp_obj = 0, cp_id = ''db'', cp_kind = ''database''\<rparr>"

definition comp_b :: component where
  "comp_b = \<lparr>cp_obj = 1, cp_id = ''api'', cp_kind = ''server''\<rparr>"

definition two_components :: "component_input list option" where
  "two_components = Some [ComponentRegistration comp_b (Some [''db'']), BareComponent comp_a]"

definition ok_validation :: validation where
  "ok_validation = \<lparr>va_ok = True, va_issues = [], va_warnings = None\<rparr>"

definition steady_env :: "unit env" where
  "steady_env =
     \<lparr>ev_validate = (\<lambda>_ _. Inr ok_validation), ev_start = (\<lambda>_ _. Inr ()), ev_stop = (\<lambda>_ _. Inr ()),
      ev_ready = (\<lambda>_ _. Inl ''down''), ev_health = (\<lambda>_ _. Inl ''down''), ev_snapshot = (\<lambda>_ _. Inl ''down'')\<rparr>"

definition flaky_env :: "unit env" where
  "flaky_env = steady_env
     \<lparr>ev_start := (\<lambda>h c. if c = comp_b \<and> CallStart c \<in> set h then Inl ''boom'' else Inr ()),
      ev_stop := (\<lambda>h c. if c = comp_a \<and> CallStop c \<in> set h then Inl ''stuck'' else Inr ())\<rparr>"

definition flaky_run :: "shell" where
  "flaky_run = fst (shell_start flaky_env (fst (shell_stop flaky_env (fst (shell_start flaky_env (from_inputs two_components))))))"

lemma flaky_run_state:
  "sh_rollback flaky_run = [\<lparr>rg_component = comp_a, rg_deps = []\<rparr>] \<and> sh_stopped flaky_run \<and> \<not> sh_started flaky_run"
  by code_simp

lemma flaky_run_result:
  "snd (shell_start flaky_env (fst (shell_stop flaky_env (fst (shell_start flaky_env (from_inputs two_components))))))
    = Inl (StartFailure ''api'' ''boom'')"
  by code_simp


text \<open>After a stop, a restart whose rollback fails leaves components to clean up, yet
  \<open>stop()\<close> then does nothing: \<open>stopped\<close> is still set from the earlier stop, so the early
  return hides the pending rollback.\<close>

theorem stop_ignores_pending_rollback:
  "shell_reachable flaky_env two_components flaky_run \<and>
   sh_rollback flaky_run \<noteq> [] \<and> shell_stop flaky_env flaky_run = (flaky_run, Inr ())"
proof -
  let ?s0 = "from_inputs two_components"
  let ?s1 = "fst (shell_start flaky_env ?s0)"
  let ?s2 = "fst (shell_stop flaky_env ?s1)"
  have "shell_reachable flaky_env two_components ?s1"
    by (rule reach_step [OF reach_init step_start]) (rule prod.collapse [symmetric])
  then have "shell_reachable flaky_env two_components ?s2"
    by (rule reach_step [OF _ step_stop]) (rule prod.collapse [symmetric])
  then have "shell_reachable flaky_env two_components flaky_run"
    unfolding flaky_run_def by (rule reach_step [OF _ step_start]) (rule prod.collapse [symmetric])
  then show ?thesis
    using flaky_run_state by (simp add: shell_stop_def)
qed

text \<open>A component whose \<open>validate()\<close> answers \<open>ok: false\<close> without listing an issue is
  started all the same: the shell collects the issues of a failed validation and refuses
  only when it collected one.\<close>

theorem failed_validation_without_issues_starts:
  assumes "js_trim (cp_id c) \<noteq> []"
    and "ev_validate env [] c = Inr v" and "\<not> va_ok v" and "va_issues v = []"
    and "ev_start env [CallValidate c] c = Inr ()"
  shows "snd (shell_start env (from_inputs (Some [BareComponent c]))) = Inr () \<and>
         sh_started (fst (shell_start env (from_inputs (Some [BareComponent c]))))"
proof -
  let ?r = "\<lparr>rg_component = c, rg_deps = []\<rparr>"
  have "cp_id c \<noteq> []"
    using assms(1) by (auto simp: js_trim_def)
  moreover have "order_by_dependency [?r] = Inr [?r]"
    by (simp add: order_by_dependency_def order_visit.simps [of "[?r]"] reg_by_id_def)
  ultimately show ?thesis
    using assms by (cases "va_warnings v")
      (simp_all add: shell_start_def from_inputs_def to_registered_components_def has_registered_def
        validate_identity_def Let_def push_diags_def log_call_def)
qed

section \<open>Witnesses\<close>

abbreviation steady_start :: "shell \<times> (shell_error, unit) result" where
  "steady_start \<equiv> shell_start steady_env (from_inputs two_components)"


theorem shell_start_failed_witness:
  "\<not> sh_started flaky_run \<and> sh_trace flaky_run \<noteq> []"
proof -
  let ?s = "fst (shell_stop flaky_env (fst (shell_start flaky_env (from_inputs two_components))))"
  have "shell_start flaky_env ?s = (flaky_run, Inl (StartFailure ''api'' ''boom''))"
    using flaky_run_result by (simp add: flaky_run_def prod_eq_iff)
  from shell_start_failed [OF this] show ?thesis by auto
qed

theorem order_exists_iff_acyclic_witness:
  "is_ok (order_by_dependency (to_registered_components two_components)) =
   acyclic (depends_on (to_registered_components two_components))"
proof -
  have "validate_identity (to_registered_components two_components) = Inr ()" by code_simp
  then show ?thesis by (rule order_exists_iff_acyclic)
qed

theorem shell_lifecycle_invariant_witness:
  "shell_inv (to_registered_components two_components) (fst steady_start)"
proof -
  have "shell_reachable steady_env two_components (fst steady_start)"
    by (rule reach_step [OF reach_init step_start]) (rule prod.collapse [symmetric])
  then show ?thesis by (rule shell_lifecycle_invariant)
qed

definition lax_env :: "unit env" where
  "lax_env = steady_env\<lparr>ev_validate := (\<lambda>_ _. Inr \<lparr>va_ok = False, va_issues = [], va_warnings = None\<rparr>)\<rparr>"

theorem failed_validation_without_issues_starts_witness:
  "sh_started (fst (shell_start lax_env (from_inputs (Some [BareComponent comp_a]))))"
proof -
  have "js_trim (cp_id comp_a) \<noteq> []" by code_simp
  from failed_validation_without_issues_starts [OF this, of lax_env "\<lparr>va_ok = False, va_issues = [], va_warnings = None\<rparr>"]
  show ?thesis by (simp add: lax_env_def steady_env_def)
qed

end
