(* ===== verification/Versioned_Cache.thy ===== *)
theory Versioned_Cache
  imports Prelude
begin

text \<open>
  Caches whose entries carry the version of the state they were computed from, as the class
  metadata store of \<open>packages/core\<close> and the resolution plans of \<open>packages/di\<close> keep them. An
  entry counts only while its version is the current one; the contract a state has to keep
  for that to be sound is the locale.
\<close>

type_synonym ('k, 'r, 'v) versioned = "('k, 'r \<times> 'v) js_map"

text \<open>Reading through the cache: the entry if it is current, else compute and store.\<close>

definition read_current :: "'r \<Rightarrow> ('k, 'r, 'v) versioned \<Rightarrow> 'k \<Rightarrow> 'v option" where
  "read_current ver cache k =
     (case js_get cache k of
        None \<Rightarrow> None
      | Some (r, v) \<Rightarrow> if r = ver then Some v else None)"

definition write_current :: "'r \<Rightarrow> 'k \<Rightarrow> 'v \<Rightarrow> ('k, 'r, 'v) versioned \<Rightarrow> ('k, 'r, 'v) versioned" where
  "write_current ver k v cache = js_set k (ver, v) cache"

locale versioned_cache =
  fixes version :: "'s \<Rightarrow> 'r"
    and compute :: "'s \<Rightarrow> 'k \<Rightarrow> 'v"
    and older :: "'r \<Rightarrow> 'r \<Rightarrow> bool"
    and step :: "'s \<Rightarrow> 's \<Rightarrow> bool"
  assumes older_refl: "older r r"
    and older_trans: "older r r' \<Longrightarrow> older r' r'' \<Longrightarrow> older r r''"
    and older_antisym: "older r r' \<Longrightarrow> older r' r \<Longrightarrow> r = r'"
    and step_older: "step s s' \<Longrightarrow> older (version s) (version s')"
    and step_same: "step s s' \<Longrightarrow> version s' = version s \<Longrightarrow> compute s' = compute s"
begin

text \<open>What one stored answer must satisfy, and what a step does to it.\<close>

definition sound :: "'s \<Rightarrow> 'k \<Rightarrow> 'r \<Rightarrow> 'v \<Rightarrow> bool" where
  "sound s k r v \<longleftrightarrow> older r (version s) \<and> (r = version s \<longrightarrow> v = compute s k)"

lemma sound_now: "sound s k (version s) (compute s k)"
  by (simp add: sound_def older_refl)

lemma sound_step: "sound s k r v \<Longrightarrow> step s s' \<Longrightarrow> sound s' k r v"
  unfolding sound_def using step_older step_same older_trans older_antisym by metis

lemma sound_read: "sound s k (version s) v \<Longrightarrow> v = compute s k"
  by (simp add: sound_def)

definition fresh :: "'s \<Rightarrow> ('k, 'r, 'v) versioned \<Rightarrow> bool" where
  "fresh s cache \<longleftrightarrow> (\<forall>k r v. js_get cache k = Some (r, v) \<longrightarrow> sound s k r v)"

lemma fresh_empty [simp]: "fresh s []"
  by (simp add: fresh_def)

lemma fresh_step: "fresh s cache \<Longrightarrow> step s s' \<Longrightarrow> fresh s' cache"
  unfolding fresh_def using sound_step by blast

lemma fresh_steps: "step\<^sup>*\<^sup>* s s' \<Longrightarrow> fresh s cache \<Longrightarrow> fresh s' cache"
  by (induction rule: rtranclp_induct) (auto intro: fresh_step)

lemma fresh_write: "fresh s cache \<Longrightarrow> fresh s (write_current (version s) k (compute s k) cache)"
  by (auto simp: fresh_def write_current_def sound_now)

lemma read_fresh: "fresh s cache \<Longrightarrow> read_current (version s) cache k = Some v \<Longrightarrow> v = compute s k"
  by (auto simp: fresh_def read_current_def sound_def split: option.splits prod.splits if_splits)

end

end
