(* ===== verification/Class_Di.thy ===== *)
theory Class_Di
  imports Versioned_Cache
begin

text \<open>
  \<open>packages/core/src/metadata/class-di.ts\<close>: the process-wide store of class injection
  metadata, its write version, and the version-checked cache of inherited metadata.
\<close>

section \<open>Classes and tokens\<close>

text \<open>
  A constructor is an object with an identity, a name, a declared parameter count
  (\<open>length\<close>) and the constructor it extends. Prototype chains are finite, as the language
  guarantees.
\<close>

datatype cls = Cls (cls_id: nat) (cls_name: string) (cls_length: nat) (cls_super: "cls option")

text \<open>\<open>Token = string | symbol | Constructor\<close>\<close>

datatype token = TokClass cls | TokSymbol nat string | TokString string

text \<open>\<open>InjectionToken\<close>: a token, a \<open>forwardRef\<close> object (its identity, and what its function
  returns), an \<open>optional\<close> wrapper, or a missing entry.\<close>

datatype inject_entry = Dep token | ForwardRef nat token | OptionalDep token | NullDep

datatype scope = Singleton | Request | Transient

record di_meta =
  dm_inject :: "inject_entry list option"
  dm_scope :: "scope option"

section \<open>The metadata store\<close>

record di_store =
  ds_own :: "(cls, di_meta) js_map"
  ds_inherited :: "(cls, nat, di_meta option) versioned"
  ds_version :: nat

definition empty_di_store :: di_store where
  "empty_di_store = \<lparr>ds_own = [], ds_inherited = [], ds_version = 0\<rparr>"

text \<open>\<open>x ?? y\<close>\<close>

fun js_or :: "'a option \<Rightarrow> 'a option \<Rightarrow> 'a option" where
  "js_or (Some x) y = Some x"
| "js_or None y = y"

lemma js_or_None [simp]: "js_or x None = x"
  by (cases x) auto

lemma js_or_assoc: "js_or (js_or x y) z = js_or x (js_or y z)"
  by (cases x) auto

text \<open>\<open>lineage\<close> lists the constructors from the base class to the class itself.\<close>

fun class_metadata_lineage :: "cls \<Rightarrow> cls list" where
  "class_metadata_lineage (Cls i n l None) = [Cls i n l None]"
| "class_metadata_lineage (Cls i n l (Some p)) = class_metadata_lineage p @ [Cls i n l (Some p)]"

definition define_class_di_metadata :: "cls \<Rightarrow> di_meta \<Rightarrow> di_store \<Rightarrow> di_store" where
  "define_class_di_metadata target metadata s =
     (let existing = js_get (ds_own s) target in
      s\<lparr>ds_own := js_set target
          \<lparr>dm_inject = js_or (dm_inject metadata) (Option.bind existing dm_inject),
           dm_scope = js_or (dm_scope metadata) (Option.bind existing dm_scope)\<rparr> (ds_own s),
        ds_version := ds_version s + 1\<rparr>)"

definition get_own_class_di_metadata :: "di_store \<Rightarrow> cls \<Rightarrow> di_meta option" where
  "get_own_class_di_metadata s target = js_get (ds_own s) target"

definition merge_di_meta :: "di_meta \<Rightarrow> di_meta option \<Rightarrow> di_meta" where
  "merge_di_meta m eff =
     \<lparr>dm_inject = js_or (dm_inject m) (Option.bind eff dm_inject),
      dm_scope = js_or (dm_scope m) (Option.bind eff dm_scope)\<rparr>"

fun walk_lineage :: "di_store \<Rightarrow> cls list \<Rightarrow> di_meta option \<Rightarrow> di_meta option" where
  "walk_lineage s [] effective = effective"
| "walk_lineage s (c # cs) effective =
     (case js_get (ds_own s) c of
        None \<Rightarrow> walk_lineage s cs effective
      | Some m \<Rightarrow> walk_lineage s cs (Some (merge_di_meta m effective)))"

definition get_inherited_class_di_metadata :: "di_store \<Rightarrow> cls \<Rightarrow> di_store \<times> di_meta option" where
  "get_inherited_class_di_metadata s target =
     (case read_current (ds_version s) (ds_inherited s) target of
        Some metadata \<Rightarrow> (s, metadata)
      | None \<Rightarrow>
          (let effective = walk_lineage s (class_metadata_lineage target) None in
           (s\<lparr>ds_inherited := write_current (ds_version s) target effective (ds_inherited s)\<rparr>,
            effective)))"

definition get_class_di_metadata :: "di_store \<Rightarrow> cls \<Rightarrow> di_store \<times> di_meta option" where
  "get_class_di_metadata = get_inherited_class_di_metadata"

section \<open>What a reader sees\<close>

text \<open>The effective metadata by structural recursion on the class: own fields first, then the
  superclass's.\<close>

fun effective_di_meta :: "di_store \<Rightarrow> cls \<Rightarrow> di_meta option" where
  "effective_di_meta s (Cls i n l None) = js_get (ds_own s) (Cls i n l None)"
| "effective_di_meta s (Cls i n l (Some p)) =
     (case js_get (ds_own s) (Cls i n l (Some p)) of
        None \<Rightarrow> effective_di_meta s p
      | Some m \<Rightarrow> Some (merge_di_meta m (effective_di_meta s p)))"

lemma walk_lineage_append:
  "walk_lineage s (xs @ ys) e = walk_lineage s ys (walk_lineage s xs e)"
  by (induction xs arbitrary: e) (auto split: option.splits)

lemma merge_di_meta_None [simp]: "merge_di_meta m None = m"
  by (simp add: merge_di_meta_def)

lemma walk_lineage_effective:
  "walk_lineage s (class_metadata_lineage c) None = effective_di_meta s c"
  by (induction c rule: class_metadata_lineage.induct)
    (auto simp: walk_lineage_append split: option.splits)

text \<open>The store as a versioned cache: a definition raises the version, a read changes nothing
  but the cache.\<close>

definition store_step :: "di_store \<Rightarrow> di_store \<Rightarrow> bool" where
  "store_step s s' \<longleftrightarrow>
     (\<exists>c m. s' = define_class_di_metadata c m s) \<or> (\<exists>x. s' = s\<lparr>ds_inherited := x\<rparr>)"

lemma effective_cached [simp]: "effective_di_meta (s\<lparr>ds_inherited := x\<rparr>) c = effective_di_meta s c"
  by (induction c rule: class_metadata_lineage.induct) (auto split: option.splits)

interpretation metadata_cache: versioned_cache ds_version effective_di_meta "(\<le>)" store_step
  by unfold_locales
    (auto simp: store_step_def define_class_di_metadata_def Let_def fun_eq_iff)

text \<open>Reaching a store: any sequence of definitions and reads.\<close>

datatype di_op = DefineMeta cls di_meta | ReadMeta cls

fun di_run :: "di_op list \<Rightarrow> di_store \<Rightarrow> di_store" where
  "di_run [] s = s"
| "di_run (DefineMeta c m # ops) s = di_run ops (define_class_di_metadata c m s)"
| "di_run (ReadMeta c # ops) s = di_run ops (fst (get_class_di_metadata s c))"

definition store_fresh :: "di_store \<Rightarrow> bool" where
  "store_fresh s \<longleftrightarrow> metadata_cache.fresh s (ds_inherited s)"

lemma store_fresh_define: "store_fresh s \<Longrightarrow> store_fresh (define_class_di_metadata c m s)"
proof -
  assume "store_fresh s"
  moreover have "store_step s (define_class_di_metadata c m s)"
    by (auto simp: store_step_def)
  moreover have "ds_inherited (define_class_di_metadata c m s) = ds_inherited s"
    by (simp add: define_class_di_metadata_def Let_def)
  ultimately show ?thesis
    by (metis metadata_cache.fresh_step store_fresh_def)
qed

lemma get_class_di_metadata_fresh:
  assumes "store_fresh s"
  shows "store_fresh (fst (get_class_di_metadata s c)) \<and>
         snd (get_class_di_metadata s c) = effective_di_meta s c"
proof (cases "read_current (ds_version s) (ds_inherited s) c")
  case None
  have "metadata_cache.fresh s (write_current (ds_version s) c (effective_di_meta s c) (ds_inherited s))"
    using assms metadata_cache.fresh_write by (simp add: store_fresh_def)
  then have "metadata_cache.fresh (s\<lparr>ds_inherited := x\<rparr>)
      (write_current (ds_version s) c (effective_di_meta s c) (ds_inherited s))" for x
    by (rule metadata_cache.fresh_step) (auto simp: store_step_def)
  then show ?thesis
    using None
    by (simp add: get_class_di_metadata_def get_inherited_class_di_metadata_def Let_def
        walk_lineage_effective store_fresh_def)
next
  case (Some m)
  then show ?thesis
    using assms metadata_cache.read_fresh [of s "ds_inherited s" c m]
    by (simp add: get_class_di_metadata_def get_inherited_class_di_metadata_def store_fresh_def)
qed

lemma di_run_fresh: "store_fresh s \<Longrightarrow> store_fresh (di_run ops s)"
  by (induction ops s rule: di_run.induct)
    (auto intro: store_fresh_define simp: get_class_di_metadata_fresh)

text \<open>After any sequence of metadata writes and reads, reading a class's metadata gives
  its own fields with the nearest ancestor's for those it lacks; the version-checked cache is
  never stale.\<close>

theorem class_di_cache_transparent:
  "snd (get_class_di_metadata (di_run ops empty_di_store) c) =
   effective_di_meta (di_run ops empty_di_store) c"
proof -
  have "store_fresh empty_di_store"
    by (simp add: store_fresh_def empty_di_store_def)
  then show ?thesis
    using get_class_di_metadata_fresh [OF di_run_fresh] by blast
qed

end
