(* ===== verification/Di_Types.thy ===== *)
theory Di_Types
  imports Class_Di
begin

text \<open>
  The provider types of \<open>packages/di/src/types.ts\<close>, the errors of
  \<open>packages/di/src/errors.ts\<close>, and the normalisation of providers at the top of
  \<open>packages/di/src/container.ts\<close>.
\<close>

section \<open>Values and errors\<close>

text \<open>
  What resolution hands around: an object has an identity and says whether it has an
  \<open>onDestroy\<close> method; a multi token resolves to an array.
\<close>

datatype js_value = JsUndefined | JsPrim string | JsObj nat bool | JsArr "js_value list"

text \<open>
  The error classes the container throws, with the token they carry in place of the message.
  \<open>CircularDependency\<close> has the chain and whether the \<open>forwardRef\<close> hint is attached;
  \<open>UserError\<close> is whatever a constructor, factory or \<open>onDestroy\<close> threw. \<open>Deadlock\<close> is no
  error of the code: it is the model's name for awaiting a promise that only the awaiting
  call itself could settle. Nor is \<open>AliasInstantiated\<close>: it marks the \<open>existing\<close> branch of
  \<open>instantiate\<close>, which no caller reaches. Both are proved never to occur.
\<close>

datatype di_error =
    ContainerDisposed
  | NoProvider token
  | CircularDependency "token list" bool
  | ScopeMismatch token
  | SingletonDependsOnRequest token token
  | RequestScopeResolution token
  | DuplicateProvider token
  | InvalidProvider string
  | UserError nat
  | AggregateError "di_error list"
  | Deadlock
  | AliasInstantiated

section \<open>Provider definitions as authored\<close>

text \<open>
  A provider object may have any of the strategy keys. \<open>None\<close> is an absent key; a present
  \<open>useExisting\<close>, \<open>useFactory\<close> or \<open>useClass\<close> may still hold something unusable.
\<close>

datatype factory_ref = FactoryFn nat | NotAFunction
datatype class_ref = ClassCtor cls | NotAConstructor

record provider_object =
  po_provide :: "token option"
  po_useValue :: "js_value option"
  po_useFactory :: "factory_ref option"
  po_useClass :: "class_ref option"
  po_useExisting :: "token option option"
  po_inject :: "inject_entry list option"
  po_scope :: "scope option"
  po_multi :: "bool option"
  po_resolverClass :: "cls option"

datatype provider = ClassShorthand cls | ObjectProvider provider_object

section \<open>Normalized providers\<close>

text \<open>A normalized provider is an object of its own: \<open>np_pid\<close> is its identity.\<close>

datatype strategy = UseClass cls | UseFactory nat | UseValue js_value | UseExisting token

record nprov =
  np_pid :: nat
  np_inject :: "inject_entry list"
  np_multi :: "bool option"
  np_provide :: token
  np_scope :: scope
  np_type :: strategy

text \<open>\<open>class_meta\<close>: the effective metadata of decorated classes, what
  \<open>get_class_di_metadata\<close> returns for them.\<close>

type_synonym class_meta = "(cls \<times> di_meta) list"

definition strategy_count :: "provider_object \<Rightarrow> nat" where
  "strategy_count p =
     of_bool (po_useValue p \<noteq> None) + of_bool (po_useFactory p \<noteq> None) +
     of_bool (po_useClass p \<noteq> None) + of_bool (po_useExisting p \<noteq> None)"

definition assert_object_provider :: "provider_object \<Rightarrow> (di_error, token) result" where
  "assert_object_provider p =
     (case po_provide p of
        None \<Rightarrow> Inl (InvalidProvider ''provide'')
      | Some t \<Rightarrow>
          if strategy_count p \<noteq> 1 then Inl (InvalidProvider ''strategy'') else Inr t)"

fun normalize_inject :: "inject_entry list \<Rightarrow> (di_error, inject_entry list) result" where
  "normalize_inject [] = Inr []"
| "normalize_inject (NullDep # es) = Inl (InvalidProvider ''inject'')"
| "normalize_inject (e # es) =
     (case normalize_inject es of Inl x \<Rightarrow> Inl x | Inr es' \<Rightarrow> Inr (e # es'))"

definition scope_or_default :: "scope option \<Rightarrow> scope" where
  "scope_or_default s = (case s of None \<Rightarrow> Singleton | Some s' \<Rightarrow> s')"

definition list_or_empty :: "'a list option \<Rightarrow> 'a list" where
  "list_or_empty xs = (case xs of None \<Rightarrow> [] | Some ys \<Rightarrow> ys)"

definition finish_provider ::
  "nat \<Rightarrow> inject_entry list \<Rightarrow> bool option \<Rightarrow> token \<Rightarrow> scope \<Rightarrow> strategy \<Rightarrow> (di_error, nprov) result"
where
  "finish_provider pid inject multi t sc k =
     (case normalize_inject inject of
        Inl e \<Rightarrow> Inl e
      | Inr es \<Rightarrow> Inr \<lparr>np_pid = pid, np_inject = es, np_multi = multi, np_provide = t,
                        np_scope = sc, np_type = k\<rparr>)"

definition normalize_provider :: "class_meta \<Rightarrow> nat \<Rightarrow> provider \<Rightarrow> (di_error, nprov) result" where
  "normalize_provider M pid pr =
     (case pr of
        ClassShorthand c \<Rightarrow>
          let metadata = js_get M c in
          finish_provider pid (list_or_empty (Option.bind metadata dm_inject)) None (TokClass c)
            (scope_or_default (Option.bind metadata dm_scope)) (UseClass c)
      | ObjectProvider p \<Rightarrow>
          (case po_useValue p of
             Some v \<Rightarrow>
               (case assert_object_provider p of
                  Inl e \<Rightarrow> Inl e
                | Inr t \<Rightarrow> finish_provider pid [] (po_multi p) t Singleton (UseValue v))
           | None \<Rightarrow>
          (case po_useFactory p of
             Some f \<Rightarrow>
               (case assert_object_provider p of
                  Inl e \<Rightarrow> Inl e
                | Inr t \<Rightarrow>
                    (case f of
                       NotAFunction \<Rightarrow> Inl (InvalidProvider ''useFactory'')
                     | FactoryFn fn \<Rightarrow>
                         let metadata = Option.bind (po_resolverClass p) (js_get M) in
                         finish_provider pid (list_or_empty (po_inject p)) (po_multi p) t
                           (scope_or_default (js_or (po_scope p) (Option.bind metadata dm_scope)))
                           (UseFactory fn)))
           | None \<Rightarrow>
          (case po_useClass p of
             Some k \<Rightarrow>
               (case assert_object_provider p of
                  Inl e \<Rightarrow> Inl e
                | Inr t \<Rightarrow>
                    (case k of
                       NotAConstructor \<Rightarrow> Inl (InvalidProvider ''useClass'')
                     | ClassCtor c \<Rightarrow>
                         let metadata = js_get M c in
                         finish_provider pid
                           (list_or_empty (js_or (po_inject p) (Option.bind metadata dm_inject)))
                           (po_multi p) t
                           (scope_or_default (js_or (po_scope p) (Option.bind metadata dm_scope)))
                           (UseClass c)))
           | None \<Rightarrow>
          (case po_useExisting p of
             Some target \<Rightarrow>
               (case assert_object_provider p of
                  Inl e \<Rightarrow> Inl e
                | Inr t \<Rightarrow>
                    (case target of
                       None \<Rightarrow> Inl (InvalidProvider ''useExisting'')
                     | Some x \<Rightarrow> finish_provider pid [] None t Singleton (UseExisting x)))
           | None \<Rightarrow> Inl (InvalidProvider ''unsupported''))))))"

section \<open>Facts\<close>

text \<open>What normalisation guarantees of every provider it lets through.\<close>

definition nprov_ok :: "nprov \<Rightarrow> bool" where
  "nprov_ok p \<longleftrightarrow>
     NullDep \<notin> set (np_inject p) \<and>
     (case np_type p of
        UseValue v \<Rightarrow> np_inject p = [] \<and> np_scope p = Singleton
      | UseExisting t \<Rightarrow> np_inject p = [] \<and> np_scope p = Singleton \<and> np_multi p = None
      | _ \<Rightarrow> True)"

lemma normalize_inject_ok: "normalize_inject es = Inr es' \<Longrightarrow> es' = es \<and> NullDep \<notin> set es"
  by (induction es arbitrary: es' rule: normalize_inject.induct) (auto split: sum.splits)

lemma normalize_inject_iff: "(\<exists>es'. normalize_inject es = Inr es') \<longleftrightarrow> NullDep \<notin> set es"
  by (induction es rule: normalize_inject.induct) (auto split: sum.splits)

lemma finish_provider_ok:
  "finish_provider pid es m t sc k = Inr p \<longleftrightarrow>
   NullDep \<notin> set es \<and>
   p = \<lparr>np_pid = pid, np_inject = es, np_multi = m, np_provide = t, np_scope = sc, np_type = k\<rparr>"
  using normalize_inject_ok [of es] normalize_inject_iff [of es]
  by (auto simp: finish_provider_def split: sum.splits)

lemma assert_object_provider_ok:
  "assert_object_provider p = Inr t \<longleftrightarrow> po_provide p = Some t \<and> strategy_count p = 1"
  by (auto simp: assert_object_provider_def split: option.splits)

lemma normalize_provider_ok: "normalize_provider M pid pr = Inr p \<Longrightarrow> nprov_ok p \<and> np_pid p = pid"
  by (auto simp: normalize_provider_def nprov_ok_def Let_def finish_provider_ok
      split: provider.splits option.splits sum.splits factory_ref.splits class_ref.splits)

end
