(* ===== verification/Container_State.thy ===== *)
theory Container_State
  imports Di_Types
begin

text \<open>
  The registration side of \<open>packages/di/src/container.ts\<close>: what a container has registered,
  the parent chain, \<open>register\<close>, \<open>override\<close>, \<open>createRequestScope\<close> and the lookups that walk
  the chain. \<open>this.parent?.f(...)\<close> is recursion along the list of a container and its
  ancestors, nearest first.
\<close>

section \<open>Containers\<close>

record container =
  ct_id :: nat
  ct_ancestors :: "nat list"
  ct_registrations :: "(token, nprov) js_map"
  ct_multi :: "(token, nprov list) js_map"
  ct_overridden :: "token list"
  ct_request_scope :: bool
  ct_disposed :: bool
  ct_revision :: nat

type_synonym lineage = "container list"

definition new_container :: "nat \<Rightarrow> nat list \<Rightarrow> bool \<Rightarrow> container" where
  "new_container i ancestors request =
     \<lparr>ct_id = i, ct_ancestors = ancestors, ct_registrations = [], ct_multi = [],
      ct_overridden = [], ct_request_scope = request, ct_disposed = False, ct_revision = 0\<rparr>"

definition advance_graph_revision :: "container \<Rightarrow> container" where
  "advance_graph_revision c = c\<lparr>ct_revision := ct_revision c + 1\<rparr>"

lemma advance_graph_revision_simps [simp]:
  "ct_id (advance_graph_revision c) = ct_id c"
  "ct_ancestors (advance_graph_revision c) = ct_ancestors c"
  "ct_registrations (advance_graph_revision c) = ct_registrations c"
  "ct_multi (advance_graph_revision c) = ct_multi c"
  "ct_overridden (advance_graph_revision c) = ct_overridden c"
  "ct_request_scope (advance_graph_revision c) = ct_request_scope c"
  "ct_disposed (advance_graph_revision c) = ct_disposed c"
  "ct_revision (advance_graph_revision c) = Suc (ct_revision c)"
  by (simp_all add: advance_graph_revision_def)

section \<open>Lookups along the parent chain\<close>

fun lookup_provider :: "lineage \<Rightarrow> token \<Rightarrow> nprov option" where
  "lookup_provider [] t = None"
| "lookup_provider (c # cs) t =
     (case js_get (ct_registrations c) t of Some p \<Rightarrow> Some p | None \<Rightarrow> lookup_provider cs t)"

fun has_multi :: "lineage \<Rightarrow> token \<Rightarrow> bool" where
  "has_multi [] t = False"
| "has_multi (c # cs) t = (if js_has (ct_multi c) t then True else has_multi cs t)"

fun has_single_registration :: "lineage \<Rightarrow> token \<Rightarrow> bool" where
  "has_single_registration [] t = False"
| "has_single_registration (c # cs) t =
     (if js_has (ct_registrations c) t then True else has_single_registration cs t)"

fun has_multi_registration :: "lineage \<Rightarrow> token \<Rightarrow> bool" where
  "has_multi_registration [] t = False"
| "has_multi_registration (c # cs) t =
     (if js_has (ct_multi c) t then True else has_multi_registration cs t)"

fun collect_multi_providers :: "lineage \<Rightarrow> token \<Rightarrow> nprov list" where
  "collect_multi_providers [] t = []"
| "collect_multi_providers (c # cs) t =
     (let local = list_or_empty (js_get (ct_multi c) t) in
      if t \<in> set (ct_overridden c) then local
      else collect_multi_providers cs t @ local)"

definition has_token :: "lineage \<Rightarrow> token \<Rightarrow> bool" where
  "has_token lin t \<longleftrightarrow> lookup_provider lin t \<noteq> None \<or> has_multi lin t"

definition is_disposed_in_hierarchy :: "lineage \<Rightarrow> bool" where
  "is_disposed_in_hierarchy lin = list_ex ct_disposed lin"

section \<open>Registering\<close>

definition assert_no_registration_conflict ::
  "lineage \<Rightarrow> token \<Rightarrow> bool \<Rightarrow> (di_error, unit) result" where
  "assert_no_registration_conflict lin t multi =
     (let self = hd lin; ancestors = tl lin in
      if multi then
        (if js_has (ct_registrations self) t then Inl (DuplicateProvider t)
         else if has_single_registration ancestors t then Inl (DuplicateProvider t)
         else Inr ())
      else
        (if js_has (ct_registrations self) t \<or> js_has (ct_multi self) t
         then Inl (DuplicateProvider t)
         else if has_multi_registration ancestors t then Inl (DuplicateProvider t)
         else Inr ()))"

definition store_registration :: "nprov \<Rightarrow> container \<Rightarrow> container" where
  "store_registration p c =
     (if np_multi p = Some True then
        (case js_get (ct_multi c) (np_provide p) of
           Some existing \<Rightarrow> c\<lparr>ct_multi := js_set (np_provide p) (existing @ [p]) (ct_multi c)\<rparr>
         | None \<Rightarrow> c\<lparr>ct_multi := js_set (np_provide p) [p] (ct_multi c)\<rparr>)
      else c\<lparr>ct_registrations := js_set (np_provide p) p (ct_registrations c)\<rparr>)"

text \<open>One round of the loop of \<open>register\<close>, on the container and its ancestors.\<close>

definition register_one ::
  "class_meta \<Rightarrow> lineage \<Rightarrow> nat \<Rightarrow> provider \<Rightarrow> (di_error, container) result" where
  "register_one M lin pid pr =
     (case normalize_provider M pid pr of
        Inl e \<Rightarrow> Inl e
      | Inr p \<Rightarrow>
          if ct_request_scope (hd lin) \<and> np_scope p = Singleton
          then Inl (ScopeMismatch (np_provide p))
          else
            (case assert_no_registration_conflict lin (np_provide p) (np_multi p = Some True) of
               Inl e \<Rightarrow> Inl e
             | Inr _ \<Rightarrow> Inr (advance_graph_revision (store_registration p (hd lin)))))"

text \<open>The loop keeps what it registered before a provider was refused.\<close>

fun register_loop ::
  "class_meta \<Rightarrow> lineage \<Rightarrow> nat \<Rightarrow> provider list \<Rightarrow> di_error option \<times> nat \<times> container" where
  "register_loop M lin pid [] = (None, pid, hd lin)"
| "register_loop M lin pid (pr # prs) =
     (case register_one M lin pid pr of
        Inl e \<Rightarrow> (Some e, pid + 1, hd lin)
      | Inr c \<Rightarrow> register_loop M (c # tl lin) (pid + 1) prs)"

definition register ::
  "class_meta \<Rightarrow> lineage \<Rightarrow> nat \<Rightarrow> provider list \<Rightarrow> di_error option \<times> nat \<times> container" where
  "register M lin pid prs =
     (if is_disposed_in_hierarchy lin then (Some ContainerDisposed, pid, hd lin)
      else register_loop M lin pid prs)"

section \<open>Overriding\<close>

fun group_providers ::
  "class_meta \<Rightarrow> nat \<Rightarrow> provider list \<Rightarrow> (token, nprov list) js_map \<Rightarrow>
   (di_error, nat \<times> (token, nprov list) js_map) result" where
  "group_providers M pid [] m = Inr (pid, m)"
| "group_providers M pid (pr # prs) m =
     (case normalize_provider M pid pr of
        Inl e \<Rightarrow> Inl e
      | Inr p \<Rightarrow>
          (case js_get m (np_provide p) of
             Some ps \<Rightarrow> group_providers M (pid + 1) prs (js_set (np_provide p) (ps @ [p]) m)
           | None \<Rightarrow> group_providers M (pid + 1) prs (js_set (np_provide p) [p] m)))"

text \<open>\<open>containsMultiProvider\<close> and the two refusals of \<open>override\<close>.\<close>

definition contains_multi :: "nprov list \<Rightarrow> bool" where
  "contains_multi ps = list_ex (\<lambda>p. np_multi p = Some True) ps"

definition check_override_group :: "token \<Rightarrow> nprov list \<Rightarrow> (di_error, unit) result" where
  "check_override_group t ps =
     (if contains_multi ps \<and> list_ex (\<lambda>p. np_multi p \<noteq> Some True) ps
      then Inl (DuplicateProvider t)
      else if \<not> contains_multi ps \<and> length ps > 1 then Inl (DuplicateProvider t)
      else Inr ())"

definition replace_registration :: "token \<Rightarrow> nprov list \<Rightarrow> container \<Rightarrow> container" where
  "replace_registration t ps c =
     (let c1 = c\<lparr>ct_registrations := js_delete t (ct_registrations c),
                 ct_multi := js_delete t (ct_multi c),
                 ct_overridden := List.insert t (ct_overridden c)\<rparr> in
      advance_graph_revision
        (if contains_multi ps then c1\<lparr>ct_multi := js_set t ps (ct_multi c1)\<rparr>
         else c1\<lparr>ct_registrations := js_set t (hd ps) (ct_registrations c1)\<rparr>))"

section \<open>Dependency entries\<close>

text \<open>\<open>resolveProviderDependencyToken\<close>; \<open>None\<close> is the token of a missing entry, under which
  nothing is ever registered. A \<open>forwardRef\<close> function is asked once and its answer kept.\<close>

fun dep_token :: "inject_entry \<Rightarrow> token option" where
  "dep_token (Dep t) = Some t"
| "dep_token (ForwardRef i t) = Some t"
| "dep_token (OptionalDep t) = Some t"
| "dep_token NullDep = None"

fun is_optional :: "inject_entry \<Rightarrow> bool" where
  "is_optional (OptionalDep t) = True"
| "is_optional _ = False"

section \<open>Facts about lookups\<close>

lemma has_single_registration_iff:
  "has_single_registration lin t \<longleftrightarrow> lookup_provider lin t \<noteq> None"
  by (induction lin) (auto simp: js_has_def split: option.splits)

lemma has_multi_registration_eq: "has_multi_registration lin t = has_multi lin t"
  by (induction lin) auto

text \<open>The tokens registered anywhere in a lineage.\<close>

definition lineage_tokens :: "lineage \<Rightarrow> token set" where
  "lineage_tokens lin =
     (\<Union>c \<in> set lin. fst ` set (ct_registrations c) \<union> fst ` set (ct_multi c))"

lemma finite_lineage_tokens [simp, intro]: "finite (lineage_tokens lin)"
  by (simp add: lineage_tokens_def)

lemma lineage_tokens_Cons [simp]:
  "lineage_tokens (c # cs) =
   fst ` set (ct_registrations c) \<union> fst ` set (ct_multi c) \<union> lineage_tokens cs"
  by (simp add: lineage_tokens_def)

lemma lineage_tokens_mono: "set cs \<subseteq> set ds \<Longrightarrow> lineage_tokens cs \<subseteq> lineage_tokens ds"
  by (auto simp: lineage_tokens_def)

lemma lookup_provider_tokens: "lookup_provider lin t = Some p \<Longrightarrow> t \<in> lineage_tokens lin"
  by (induction lin) (auto dest: js_get_key split: option.splits)

lemma collect_multi_tokens: "collect_multi_providers lin t \<noteq> [] \<Longrightarrow> t \<in> lineage_tokens lin"
  by (induction lin)
    (auto simp: Let_def list_or_empty_def dest: js_get_key split: option.splits if_splits)

lemma has_multi_tokens: "has_multi lin t \<Longrightarrow> t \<in> lineage_tokens lin"
  by (induction lin) (auto simp: js_has_keys split: if_splits)

lemma lookup_provider_in:
  "lookup_provider lin t = Some p \<Longrightarrow> \<exists>c \<in> set lin. js_get (ct_registrations c) t = Some p"
  by (induction lin) (auto split: option.splits)

lemma collect_multi_in:
  "p \<in> set (collect_multi_providers lin t) \<Longrightarrow>
   \<exists>c \<in> set lin. \<exists>ps. js_get (ct_multi c) t = Some ps \<and> p \<in> set ps"
  by (induction lin)
    (auto simp: Let_def list_or_empty_def split: option.splits if_splits)

section \<open>Well-formed containers\<close>

text \<open>Keys agree with the providers stored under them, multi lists are not empty, and a token
  is never both single and multi in one container.\<close>

definition container_wf :: "container \<Rightarrow> bool" where
  "container_wf c \<longleftrightarrow>
     (\<forall>t p. js_get (ct_registrations c) t = Some p \<longrightarrow>
        np_provide p = t \<and> nprov_ok p \<and> np_multi p \<noteq> Some True \<and> js_get (ct_multi c) t = None) \<and>
     (\<forall>t ps. js_get (ct_multi c) t = Some ps \<longrightarrow>
        ps \<noteq> [] \<and> (\<forall>p \<in> set ps. np_provide p = t \<and> nprov_ok p \<and> np_multi p = Some True))"

definition lineage_wf :: "lineage \<Rightarrow> bool" where
  "lineage_wf lin \<longleftrightarrow>
     lin \<noteq> [] \<and> (\<forall>c \<in> set lin. container_wf c) \<and> \<not> ct_request_scope (last lin)"

lemma container_wf_new: "container_wf (new_container i anc req)"
  by (simp add: container_wf_def new_container_def)

lemma container_wf_advance [simp]: "container_wf (advance_graph_revision c) = container_wf c"
  by (simp add: container_wf_def)

lemma lineage_wf_root: "lineage_wf lin \<Longrightarrow> lineage_wf [last lin]"
  by (auto simp: lineage_wf_def)

lemma container_wf_single:
  "container_wf c \<Longrightarrow> js_get (ct_registrations c) t = Some p \<Longrightarrow>
   np_provide p = t \<and> nprov_ok p \<and> np_multi p \<noteq> Some True \<and> js_get (ct_multi c) t = None"
  by (simp add: container_wf_def)

lemma container_wf_multi:
  "container_wf c \<Longrightarrow> js_get (ct_multi c) t = Some ps \<Longrightarrow>
   ps \<noteq> [] \<and> (\<forall>p \<in> set ps. np_provide p = t \<and> nprov_ok p \<and> np_multi p = Some True)"
  by (simp add: container_wf_def)

lemma lookup_provider_wf:
  assumes "lineage_wf lin" and "lookup_provider lin t = Some p"
  shows "np_provide p = t \<and> nprov_ok p"
  using lookup_provider_in [OF assms(2)] assms(1) container_wf_single
  unfolding lineage_wf_def by blast

lemma collect_multi_wf:
  assumes "lineage_wf lin" and "p \<in> set (collect_multi_providers lin t)"
  shows "np_provide p = t \<and> nprov_ok p"
  using collect_multi_in [OF assms(2)] assms(1) container_wf_multi
  unfolding lineage_wf_def by blast

lemma store_registration_wf:
  assumes "container_wf c" and "nprov_ok p"
    and "assert_no_registration_conflict (c # cs) (np_provide p) (np_multi p = Some True) = Inr ()"
  shows "container_wf (store_registration p c)"
proof (cases "np_multi p = Some True")
  case True
  then show ?thesis
    using assms
    by (auto simp: container_wf_def store_registration_def assert_no_registration_conflict_def
        js_has_def split: option.splits if_splits)
next
  case False
  then show ?thesis
    using assms
    by (auto simp: container_wf_def store_registration_def assert_no_registration_conflict_def
        js_has_def split: if_splits)
qed

lemma replace_registration_wf:
  assumes "container_wf c" and "check_override_group t ps = Inr ()" and "ps \<noteq> []"
    and "\<forall>p \<in> set ps. np_provide p = t \<and> nprov_ok p"
  shows "container_wf (replace_registration t ps c)"
proof (cases "contains_multi ps")
  case True
  then have "\<forall>p \<in> set ps. np_multi p = Some True"
    using assms(2) by (auto simp: check_override_group_def list_ex_iff split: if_splits)
  then show ?thesis
    using True assms(1,3,4) by (simp add: container_wf_def replace_registration_def)
next
  case False
  then have "np_multi (hd ps) \<noteq> Some True" and "hd ps \<in> set ps"
    using assms(3) by (auto simp: contains_multi_def list_ex_iff)
  then show ?thesis
    using False assms(1,4) by (simp add: container_wf_def replace_registration_def)
qed

end
