(* ===== verification/Container_Graph.thy ===== *)
theory Container_Graph
  imports Container_State
begin

text \<open>
  The walks over the provider graph in \<open>packages/di/src/container.ts\<close>: whether resolving a
  token may need a request scope (\<open>hasRequestScopedDependency\<close>), which request-scoped
  provider a singleton depends on (\<open>assertSingletonDependencyScopes\<close>), alias chains
  (\<open>resolveEffectiveProvider\<close>), and which cached providers an override affects
  (\<open>providerDependsOnToken\<close>). Each keeps the set of tokens on the current path, so each
  ends although the graph may be cyclic.
\<close>

section \<open>Known tokens\<close>

definition known_tokens :: "class_meta \<Rightarrow> lineage \<Rightarrow> token set" where
  "known_tokens M lin = lineage_tokens lin \<union> TokClass ` fst ` set M"

lemma finite_known_tokens [simp, intro]: "finite (known_tokens M lin)"
  by (simp add: known_tokens_def)

lemma card_path_less:
  assumes "finite K" and "t \<in> K" and "t \<notin> vis"
  shows "card (K - insert t vis) < card (K - vis)"
proof (rule psubset_card_mono)
  show "K - insert t vis \<subset> K - vis"
    using assms by blast
qed (use assms in simp)

lemma card_path_insert:
  assumes "finite K" and "t \<notin> vis"
  shows "card (K - insert t vis) + of_bool (t \<in> K) = card (K - vis)"
proof (cases "t \<in> K")
  case True
  then have "insert t (K - insert t vis) = K - vis"
    using assms(2) by blast
  moreover have "card (insert t (K - insert t vis)) = Suc (card (K - insert t vis))"
    using assms(1) by (intro card_insert_disjoint) auto
  ultimately show ?thesis
    using True by simp
next
  case False
  then have "K - insert t vis = K - vis"
    by blast
  then show ?thesis
    using False by simp
qed

lemma lookup_known: "lookup_provider lin t = Some p \<Longrightarrow> t \<in> known_tokens M lin"
  by (simp add: known_tokens_def lookup_provider_tokens)

lemma collect_known: "p \<in> set (collect_multi_providers lin t) \<Longrightarrow> t \<in> known_tokens M lin"
  by (auto simp: known_tokens_def intro: collect_multi_tokens)

lemma class_known: "js_get M c = Some m \<Longrightarrow> TokClass c \<in> known_tokens M lin"
  by (auto simp: known_tokens_def dest: js_get_key)

section \<open>Does resolving need a request scope?\<close>

function graph_requires :: "class_meta \<Rightarrow> lineage \<Rightarrow> token \<Rightarrow> token set \<Rightarrow> bool"
and unregistered_requires :: "class_meta \<Rightarrow> lineage \<Rightarrow> token \<Rightarrow> token set \<Rightarrow> bool"
and provider_requires :: "class_meta \<Rightarrow> lineage \<Rightarrow> nprov \<Rightarrow> token set \<Rightarrow> bool"
and entry_requires :: "class_meta \<Rightarrow> lineage \<Rightarrow> inject_entry \<Rightarrow> token set \<Rightarrow> bool"
where
  "graph_requires M lin t visited =
     (if t \<in> visited then True
      else
        (case lookup_provider lin t of
           None \<Rightarrow>
             if collect_multi_providers lin t = [] then unregistered_requires M lin t (insert t visited)
             else list_ex (\<lambda>p. provider_requires M lin p (insert t visited)) (collect_multi_providers lin t)
         | Some p \<Rightarrow>
             if provider_requires M lin p (insert t visited) then True
             else list_ex (\<lambda>q. provider_requires M lin q (insert t visited)) (collect_multi_providers lin t)))"
| "unregistered_requires M lin t visited =
     (case t of
        TokClass c \<Rightarrow>
          (case js_get M c of
             None \<Rightarrow> False
           | Some m \<Rightarrow>
               if dm_scope m = Some Request then True
               else list_ex (\<lambda>e. entry_requires M lin e visited) (list_or_empty (dm_inject m)))
      | _ \<Rightarrow> False)"
| "provider_requires M lin p visited =
     (if np_scope p = Request then True
      else
        (case np_type p of
           UseExisting u \<Rightarrow> graph_requires M lin u visited
         | _ \<Rightarrow> list_ex (\<lambda>e. entry_requires M lin e visited) (np_inject p)))"
| "entry_requires M lin e visited =
     (case dep_token e of
        None \<Rightarrow> False
      | Some t \<Rightarrow>
          if is_optional e \<and> \<not> has_token lin t then False
          else graph_requires M lin t visited)"
  by pat_completeness auto
termination
proof (relation "measures
    [\<lambda>x. case x of
       Inl (Inl (M, lin, t, vis)) \<Rightarrow> card (known_tokens M lin - vis)
     | Inl (Inr (M, lin, t, vis)) \<Rightarrow> card (known_tokens M lin - vis) + of_bool (t \<in> known_tokens M lin)
     | Inr (Inl (M, lin, p, vis)) \<Rightarrow> card (known_tokens M lin - vis)
     | Inr (Inr (M, lin, e, vis)) \<Rightarrow> card (known_tokens M lin - vis),
     \<lambda>x. case x of Inl (Inl _) \<Rightarrow> 1 | Inl (Inr _) \<Rightarrow> 0 | Inr (Inl _) \<Rightarrow> 3 | Inr (Inr _) \<Rightarrow> (2::nat)]",
    goal_cases)
qed (auto simp: card_path_insert intro!: card_path_less intro: lookup_known collect_known class_known)

declare graph_requires.simps [simp del] unregistered_requires.simps [simp del]
  provider_requires.simps [simp del] entry_requires.simps [simp del]

definition has_request_scoped_dependency :: "class_meta \<Rightarrow> lineage \<Rightarrow> token \<Rightarrow> bool" where
  "has_request_scoped_dependency M lin t = graph_requires M lin t {}"

section \<open>Alias chains\<close>

function resolve_effective_loop ::
  "lineage \<Rightarrow> token set \<Rightarrow> token list \<Rightarrow> token \<Rightarrow> (di_error, nprov option) result" where
  "resolve_effective_loop lin visited chain cur =
     (if cur \<in> visited then Inl (CircularDependency (chain @ [cur]) False)
      else
        (case lookup_provider lin cur of
           None \<Rightarrow> Inr None
         | Some p \<Rightarrow>
             (case np_type p of
                UseExisting u \<Rightarrow> resolve_effective_loop lin (insert cur visited) (chain @ [cur]) u
              | _ \<Rightarrow> Inr (Some p))))"
  by pat_completeness auto
termination
  by (relation "measure (\<lambda>(lin, vis, ch, t). card (lineage_tokens lin - vis))")
    (auto intro!: card_path_less intro: lookup_provider_tokens)

declare resolve_effective_loop.simps [simp del]

definition resolve_effective_provider :: "lineage \<Rightarrow> token \<Rightarrow> (di_error, nprov option) result" where
  "resolve_effective_provider lin t = resolve_effective_loop lin {} [] t"

section \<open>Request-scoped dependencies of a singleton\<close>

text \<open>The empty string is a token, and \<open>if (requestScopedToken)\<close> does not see it.\<close>

definition truthy_token :: "token \<Rightarrow> bool" where
  "truthy_token t \<longleftrightarrow> t \<noteq> TokString []"

lemma effective_known:
  "resolve_effective_loop lin vis ch t = Inr (Some p) \<Longrightarrow> t \<in> lineage_tokens lin"
  by (subst (asm) resolve_effective_loop.simps)
    (auto split: if_splits option.splits intro: lookup_provider_tokens)

function find_request_scoped_dependency ::
  "class_meta \<Rightarrow> lineage \<Rightarrow> inject_entry list \<Rightarrow> token set \<Rightarrow> (di_error, token option) result"
and find_request_scoped_token ::
  "class_meta \<Rightarrow> lineage \<Rightarrow> token \<Rightarrow> token set \<Rightarrow> (di_error, token option) result"
where
  "find_request_scoped_dependency M lin [] visited = Inr None"
| "find_request_scoped_dependency M lin (e # es) visited =
     (case dep_token e of
        None \<Rightarrow> find_request_scoped_dependency M lin es visited
      | Some t \<Rightarrow>
          if is_optional e \<and> \<not> has_token lin t then find_request_scoped_dependency M lin es visited
          else
            (case find_request_scoped_token M lin t visited of
               Inl x \<Rightarrow> Inl x
             | Inr None \<Rightarrow> find_request_scoped_dependency M lin es visited
             | Inr (Some u) \<Rightarrow>
                 if truthy_token u then Inr (Some u)
                 else find_request_scoped_dependency M lin es visited))"
| "find_request_scoped_token M lin t visited =
     (if t \<in> visited then Inr None
      else
        (case resolve_effective_provider lin t of
           Inl x \<Rightarrow> Inl x
         | Inr (Some p) \<Rightarrow>
             if np_scope p = Request then Inr (Some (np_provide p))
             else find_request_scoped_dependency M lin (np_inject p) (insert t visited)
         | Inr None \<Rightarrow>
             (case t of
                TokClass c \<Rightarrow>
                  (case js_get M c of
                     None \<Rightarrow> Inr None
                   | Some m \<Rightarrow>
                       if dm_scope m = Some Request then Inr (Some t)
                       else find_request_scoped_dependency M lin (list_or_empty (dm_inject m))
                              (insert t visited))
              | _ \<Rightarrow> Inr None)))"
  by pat_completeness auto
termination
  by (relation "measures
    [\<lambda>x. case x of
       Inl (M, lin, es, vis) \<Rightarrow> card (known_tokens M lin - vis)
     | Inr (M, lin, t, vis) \<Rightarrow> card (known_tokens M lin - vis),
     \<lambda>x. case x of Inl (M, lin, es, vis) \<Rightarrow> length es + 1 | Inr _ \<Rightarrow> 0]")
   (auto simp: resolve_effective_provider_def known_tokens_def
      intro!: card_path_less intro: effective_known dest: js_get_key)

declare find_request_scoped_token.simps [simp del]

definition assert_singleton_dependency_scopes ::
  "class_meta \<Rightarrow> lineage \<Rightarrow> nprov \<Rightarrow> (di_error, unit) result" where
  "assert_singleton_dependency_scopes M lin p =
     (if np_scope p \<noteq> Singleton then Inr ()
      else
        (case find_request_scoped_dependency M lin (np_inject p) {np_provide p} of
           Inl x \<Rightarrow> Inl x
         | Inr None \<Rightarrow> Inr ()
         | Inr (Some u) \<Rightarrow> Inl (SingletonDependsOnRequest (np_provide p) u)))"

section \<open>Which providers an override affects\<close>

function token_references :: "lineage \<Rightarrow> token \<Rightarrow> token \<Rightarrow> token set \<Rightarrow> bool"
and provider_depends_on :: "lineage \<Rightarrow> nprov \<Rightarrow> token \<Rightarrow> token set \<Rightarrow> bool"
where
  "token_references lin dep t visited =
     (if dep = t then True
      else if dep \<in> visited then False
      else
        (case lookup_provider lin dep of
           None \<Rightarrow> list_ex (\<lambda>q. provider_depends_on lin q t (insert dep visited))
                     (collect_multi_providers lin dep)
         | Some p \<Rightarrow>
             if provider_depends_on lin p t (insert dep visited) then True
             else list_ex (\<lambda>q. provider_depends_on lin q t (insert dep visited))
                    (collect_multi_providers lin dep)))"
| "provider_depends_on lin p t visited =
     (case np_type p of
        UseExisting u \<Rightarrow> token_references lin u t visited
      | _ \<Rightarrow> list_ex (\<lambda>e. case dep_token e of None \<Rightarrow> False | Some d \<Rightarrow> token_references lin d t visited)
               (np_inject p))"
  by pat_completeness auto
termination
  by (relation "measures
    [\<lambda>x. case x of
       Inl (lin, d, t, vis) \<Rightarrow> card (lineage_tokens lin - vis)
     | Inr (lin, p, t, vis) \<Rightarrow> card (lineage_tokens lin - vis),
     \<lambda>x. case x of Inl _ \<Rightarrow> 0 | Inr _ \<Rightarrow> (1::nat)]")
   (auto intro!: card_path_less intro: lookup_provider_tokens collect_multi_tokens)

declare token_references.simps [simp del] provider_depends_on.simps [simp del]

definition should_invalidate_token :: "lineage \<Rightarrow> token \<Rightarrow> token \<Rightarrow> bool" where
  "should_invalidate_token lin cached overridden =
     (if cached = overridden then True
      else
        (case lookup_provider lin cached of
           Some p \<Rightarrow>
             if provider_depends_on lin p overridden {np_provide p} then True
             else list_ex (\<lambda>q. provider_depends_on lin q overridden {np_provide q})
                    (collect_multi_providers lin cached)
         | None \<Rightarrow> list_ex (\<lambda>q. provider_depends_on lin q overridden {np_provide q})
                    (collect_multi_providers lin cached)))"

definition should_invalidate_provider :: "lineage \<Rightarrow> nprov \<Rightarrow> token \<Rightarrow> bool" where
  "should_invalidate_provider lin p overridden =
     (if np_provide p = overridden then True
      else provider_depends_on lin p overridden {np_provide p})"

end
