(* ===== verification/Container_Resolve.thy ===== *)
theory Container_Resolve
  imports Container_Graph
begin

text \<open>
  Resolution in \<open>packages/di/src/container.ts\<close>: from \<open>resolveWithChain\<close> down to the calls of
  constructors and factories, with the instance caches it fills.

  One call of \<open>resolve\<close> is modelled while nothing else runs. What an \<open>await\<close> still changes is
  when a cache entry appears: \<open>instantiate\<close> runs synchronously until its first suspension,
  and only then does the caller put the promise into the cache. The keys whose caller is
  still waiting for that are kept in \<open>cs_pending\<close>, innermost first, and every suspension
  writes them in that order. This fixes the insertion order of the caches, which disposal
  reverses.
\<close>

section \<open>State\<close>

text \<open>A cached promise is unsettled while its provider is being instantiated.\<close>

datatype slot = Pending | Settled js_value

text \<open>
  \<open>SingleKey c t\<close> is the entry of token \<open>t\<close> in the \<open>requestCache\<close> of request scope \<open>c\<close>, or in the
  \<open>singletonCache\<close> when \<open>c\<close> is the root; \<open>MultiKey\<close> the same for \<open>multiRequestCache\<close> and
  \<open>multiSingletonCache\<close>.
\<close>

datatype cache_key = SingleKey nat token | MultiKey nat nprov

fun key_token :: "cache_key \<Rightarrow> token" where
  "key_token (SingleKey c t) = t"
| "key_token (MultiKey c p) = np_provide p"

fun key_container :: "cache_key \<Rightarrow> nat" where
  "key_container (SingleKey c t) = c"
| "key_container (MultiKey c p) = c"

datatype di_event = Built nprov "js_value list" js_value | BuildFailed nprov "js_value list" nat
  | Destroyed nat | DestroyFailed nat nat

record cache_state =
  cs_single :: "nat \<Rightarrow> (token, slot) js_map"
  cs_multi :: "nat \<Rightarrow> (nprov, slot) js_map"
  cs_children :: "nat list"
  cs_pending :: "cache_key list"
  cs_log :: "di_event list"

definition empty_cache_state :: cache_state where
  "empty_cache_state =
     \<lparr>cs_single = (\<lambda>_. []), cs_multi = (\<lambda>_. []), cs_children = [], cs_pending = [], cs_log = []\<rparr>"

text \<open>Constructors and factories are not part of the repository: what they do with their
  arguments may depend on everything that happened before. So may the time that disposal hooks take, and with
  it which of several scopes that are disposed together goes on next, by its number among them.\<close>

record di_env =
  construct :: "di_event list \<Rightarrow> cls \<Rightarrow> js_value list \<Rightarrow> (nat, js_value) result"
  call_factory :: "di_event list \<Rightarrow> nat \<Rightarrow> js_value list \<Rightarrow> (nat, js_value) result"
  destroy :: "di_event list \<Rightarrow> nat \<Rightarrow> nat option"
  next_scope :: "di_event list \<Rightarrow> nat \<Rightarrow> nat"

type_synonym 'a di = "(cache_state, di_error, 'a) eff"

fun read_slot :: "cache_key \<Rightarrow> cache_state \<Rightarrow> slot option" where
  "read_slot (SingleKey c t) s = js_get (cs_single s c) t"
| "read_slot (MultiKey c p) s = js_get (cs_multi s c) p"

fun write_slot :: "cache_key \<Rightarrow> slot \<Rightarrow> cache_state \<Rightarrow> cache_state" where
  "write_slot (SingleKey c t) v s =
     s\<lparr>cs_single := (cs_single s)(c := js_set t v (cs_single s c))\<rparr>"
| "write_slot (MultiKey c p) v s =
     s\<lparr>cs_multi := (cs_multi s)(c := js_set p v (cs_multi s c))\<rparr>"

fun drop_slot :: "cache_key \<Rightarrow> cache_state \<Rightarrow> cache_state" where
  "drop_slot (SingleKey c t) s =
     s\<lparr>cs_single := (cs_single s)(c := js_delete t (cs_single s c))\<rparr>"
| "drop_slot (MultiKey c p) s =
     s\<lparr>cs_multi := (cs_multi s)(c := js_delete p (cs_multi s c))\<rparr>"

text \<open>A suspension: every caller on the stack gets its promise and caches it.\<close>

definition flush_pending :: "cache_state \<Rightarrow> cache_state" where
  "flush_pending s = fold (\<lambda>k. write_slot k Pending) (cs_pending s) (s\<lparr>cs_pending := []\<rparr>)"

definition suspend :: "unit di" where
  "suspend = eff_update flush_pending"

definition await_slot :: "slot \<Rightarrow> js_value di" where
  "await_slot sl =
     (case sl of
        Pending \<Rightarrow> eff_throw Deadlock
      | Settled v \<Rightarrow> eff_bind suspend (\<lambda>_. eff_return v))"

section \<open>Which cache holds an instance\<close>

definition ensure_tracked_request_scope :: "container \<Rightarrow> cache_state \<Rightarrow> cache_state" where
  "ensure_tracked_request_scope c s =
     (if \<not> ct_request_scope c \<or> ct_ancestors c = [] \<or> ct_id c \<in> set (cs_children s) then s
      else s\<lparr>cs_children := cs_children s @ [ct_id c]\<rparr>)"

definition should_resolve_from_root :: "lineage \<Rightarrow> nprov \<Rightarrow> bool" where
  "should_resolve_from_root lin p \<longleftrightarrow>
     np_scope p = Singleton \<and> ct_request_scope (hd lin) \<and>
     \<not> js_has (ct_registrations (hd lin)) (np_provide p)"

definition has_local_multi_provider :: "container \<Rightarrow> nprov \<Rightarrow> bool" where
  "has_local_multi_provider c p =
     (case js_get (ct_multi c) (np_provide p) of None \<Rightarrow> False | Some ps \<Rightarrow> p \<in> set ps)"

definition should_resolve_multi_from_root :: "lineage \<Rightarrow> nprov \<Rightarrow> bool" where
  "should_resolve_multi_from_root lin p \<longleftrightarrow>
     np_scope p = Singleton \<and> ct_request_scope (hd lin) \<and>
     \<not> has_local_multi_provider (hd lin) p"

definition request_cache_for_write :: "container \<Rightarrow> cache_key \<Rightarrow> cache_key di" where
  "request_cache_for_write c k =
     eff_bind (eff_update (ensure_tracked_request_scope c)) (\<lambda>_. eff_return k)"

definition cache_for :: "lineage \<Rightarrow> nprov \<Rightarrow> cache_key di" where
  "cache_for lin p =
     (let self = hd lin; t = np_provide p in
      if np_scope p = Singleton then
        (if ct_request_scope self \<and> js_has (ct_registrations self) t
         then request_cache_for_write self (SingleKey (ct_id self) t)
         else eff_return (SingleKey (ct_id (last lin)) t))
      else if \<not> ct_request_scope self then eff_throw (RequestScopeResolution t)
      else request_cache_for_write self (SingleKey (ct_id self) t))"

definition multi_cache_for :: "lineage \<Rightarrow> nprov \<Rightarrow> cache_key di" where
  "multi_cache_for lin p =
     (let self = hd lin in
      if np_scope p = Singleton then
        (if ct_request_scope self \<and> has_local_multi_provider self p
         then request_cache_for_write self (MultiKey (ct_id self) p)
         else eff_return (MultiKey (ct_id (last lin)) p))
      else if \<not> ct_request_scope self then eff_throw (RequestScopeResolution (np_provide p))
      else request_cache_for_write self (MultiKey (ct_id self) p))"

definition get_cached_instance :: "lineage \<Rightarrow> nprov \<Rightarrow> slot option di" where
  "get_cached_instance lin p =
     (if np_scope p \<noteq> Singleton then eff_return None
      else
        eff_bind (cache_for (if should_resolve_from_root lin p then [last lin] else lin) p)
          (\<lambda>k s. (Inr (read_slot k s), s)))"

text \<open>
  \<open>if (!cache.has(key)) cache.set(key, instantiate(...))\<close>, then awaiting the entry. The entry
  of a failed instantiation is deleted by the \<open>catch\<close> handler before anyone else runs.
\<close>

definition with_cached :: "cache_key \<Rightarrow> js_value di \<Rightarrow> js_value di" where
  "with_cached k build s =
     (case read_slot k s of
        Some sl \<Rightarrow> await_slot sl s
      | None \<Rightarrow>
          (case build (s\<lparr>cs_pending := k # cs_pending s\<rparr>) of
             (Inl e, s') \<Rightarrow> (Inl e, drop_slot k (s'\<lparr>cs_pending := removeAll k (cs_pending s')\<rparr>))
           | (Inr v, s') \<Rightarrow> (Inr v, write_slot k (Settled v) (flush_pending s'))))"

section \<open>Instantiating\<close>

text \<open>
  The recursive call of \<open>resolveWithChain\<close> is the argument \<open>res\<close>, already given the chain and the
  container: \<open>res allowForwardRef token\<close>.
\<close>

type_synonym resolver = "bool \<Rightarrow> token \<Rightarrow> js_value di"

definition resolve_dep_token :: "resolver \<Rightarrow> lineage \<Rightarrow> inject_entry \<Rightarrow> js_value di" where
  "resolve_dep_token res lin e =
     (case e of
        OptionalDep t \<Rightarrow> if \<not> has_token lin t then eff_return JsUndefined else res False t
      | ForwardRef i t \<Rightarrow> res True t
      | Dep t \<Rightarrow> res False t
      | NullDep \<Rightarrow> eff_throw (InvalidProvider ''inject''))"

fun resolve_provider_deps :: "resolver \<Rightarrow> lineage \<Rightarrow> inject_entry list \<Rightarrow> js_value list di" where
  "resolve_provider_deps res lin [] = eff_return []"
| "resolve_provider_deps res lin (e # es) =
     eff_bind (resolve_dep_token res lin e) (\<lambda>v.
     eff_bind suspend (\<lambda>_.
     eff_bind (resolve_provider_deps res lin es) (\<lambda>vs. eff_return (v # vs))))"

definition record_build :: "nprov \<Rightarrow> js_value list \<Rightarrow> (nat, js_value) result \<Rightarrow> js_value di" where
  "record_build p deps r s =
     (case r of
        Inl e \<Rightarrow> (Inl (UserError e), s\<lparr>cs_log := cs_log s @ [BuildFailed p deps e]\<rparr>)
      | Inr v \<Rightarrow> (Inr v, s\<lparr>cs_log := cs_log s @ [Built p deps v]\<rparr>))"

definition instantiate :: "di_env \<Rightarrow> class_meta \<Rightarrow> resolver \<Rightarrow> lineage \<Rightarrow> nprov \<Rightarrow> js_value di" where
  "instantiate E M res lin p =
     eff_bind (eff_lift (assert_singleton_dependency_scopes M lin p)) (\<lambda>_.
       (case np_type p of
          UseValue v \<Rightarrow> eff_bind suspend (\<lambda>_. eff_return v)
        | UseExisting t \<Rightarrow> eff_throw AliasInstantiated
        | UseFactory f \<Rightarrow>
            eff_bind (resolve_provider_deps res lin (np_inject p)) (\<lambda>deps.
            eff_bind suspend (\<lambda>_ s. record_build p deps (call_factory E (cs_log s) f deps) s))
        | UseClass c \<Rightarrow>
            eff_bind (resolve_provider_deps res lin (np_inject p)) (\<lambda>deps.
            eff_bind suspend (\<lambda>_ s. record_build p deps (construct E (cs_log s) c deps) s))))"

section \<open>Resolving\<close>

text \<open>
  From here \<open>res fromRoot\<close> is the resolver of the root container when \<open>fromRoot\<close> holds and of this
  container otherwise. The root has no request scope, so \<open>root().f(...)\<close> never redirects again.
\<close>

definition resolve_scoped_instance ::
  "di_env \<Rightarrow> class_meta \<Rightarrow> (bool \<Rightarrow> resolver) \<Rightarrow> lineage \<Rightarrow> nprov \<Rightarrow> js_value di" where
  "resolve_scoped_instance E M res lin p =
     (let from_root = should_resolve_from_root lin p;
          lin' = (if from_root then [last lin] else lin) in
      eff_bind (cache_for lin' p) (\<lambda>k. with_cached k (instantiate E M (res from_root) lin' p)))"

definition resolve_multi_instance ::
  "di_env \<Rightarrow> class_meta \<Rightarrow> (bool \<Rightarrow> resolver) \<Rightarrow> lineage \<Rightarrow> nprov \<Rightarrow> js_value di" where
  "resolve_multi_instance E M res lin p =
     (case np_type p of
        UseExisting u \<Rightarrow> res False False u
      | _ \<Rightarrow>
          if np_scope p = Transient then instantiate E M (res False) lin p
          else
            (let from_root = should_resolve_multi_from_root lin p;
                 lin' = (if from_root then [last lin] else lin) in
             eff_bind (multi_cache_for lin' p)
               (\<lambda>k. with_cached k (instantiate E M (res from_root) lin' p))))"

fun resolve_multi_instances ::
  "di_env \<Rightarrow> class_meta \<Rightarrow> (bool \<Rightarrow> resolver) \<Rightarrow> lineage \<Rightarrow> nprov list \<Rightarrow> js_value list di" where
  "resolve_multi_instances E M res lin [] = eff_return []"
| "resolve_multi_instances E M res lin (p # ps) =
     eff_bind (resolve_multi_instance E M res lin p) (\<lambda>v.
     eff_bind suspend (\<lambda>_.
     eff_bind (resolve_multi_instances E M res lin ps) (\<lambda>vs. eff_return (v # vs))))"

definition resolve_single ::
  "di_env \<Rightarrow> class_meta \<Rightarrow> (bool \<Rightarrow> resolver) \<Rightarrow> lineage \<Rightarrow> nprov \<Rightarrow> js_value di" where
  "resolve_single E M res lin p =
     (case np_type p of
        UseExisting u \<Rightarrow> res False False u
      | _ \<Rightarrow>
          if np_scope p = Transient then instantiate E M (res False) lin p
          else
            eff_bind (get_cached_instance lin p) (\<lambda>c.
              (case c of
                 Some sl \<Rightarrow> await_slot sl
               | None \<Rightarrow> resolve_scoped_instance E M res lin p)))"

text \<open>What \<open>resolveFromRegisteredProviders\<close> finds: a local single provider first, then multi
  providers of the chain, then a single provider of an ancestor.\<close>

datatype selection = MultiProviders "nprov list" | SingleProvider nprov | Unregistered

definition select_provider :: "lineage \<Rightarrow> token \<Rightarrow> selection" where
  "select_provider lin t =
     (if js_get (ct_registrations (hd lin)) t = None \<and> collect_multi_providers lin t \<noteq> []
      then MultiProviders (collect_multi_providers lin t)
      else (case lookup_provider lin t of None \<Rightarrow> Unregistered | Some p \<Rightarrow> SingleProvider p))"

lemma select_known: "select_provider lin t \<noteq> Unregistered \<Longrightarrow> t \<in> lineage_tokens lin"
  by (auto simp: select_provider_def lookup_provider_tokens collect_multi_tokens
      split: if_splits option.splits)

lemma root_tokens: "lin \<noteq> [] \<Longrightarrow> lineage_tokens [last lin] \<subseteq> lineage_tokens lin"
  by (intro lineage_tokens_mono) simp

lemma select_known_nonempty: "select_provider lin t \<noteq> Unregistered \<Longrightarrow> lin \<noteq> []"
  using select_known [of lin t] by (auto simp: lineage_tokens_def)

lemma card_select_less:
  assumes "select_provider lin t \<noteq> Unregistered" and "t \<notin> active"
  shows "card (lineage_tokens (if root then [last lin] else lin) - insert t active)
           < card (lineage_tokens lin - active)"
proof -
  have "card (lineage_tokens (if root then [last lin] else lin) - insert t active)
          \<le> card (lineage_tokens lin - insert t active)"
    using root_tokens [OF select_known_nonempty [OF assms(1)]]
    by (intro card_mono) auto
  also have "\<dots> < card (lineage_tokens lin - active)"
    using assms by (intro card_path_less) (auto dest: select_known)
  finally show ?thesis .
qed

function resolve_with_chain ::
  "di_env \<Rightarrow> class_meta \<Rightarrow> lineage \<Rightarrow> token list \<Rightarrow> token set \<Rightarrow> bool \<Rightarrow> token \<Rightarrow> js_value di" where
  "resolve_with_chain E M lin chain active fwd t s =
     (if t \<in> active then (Inl (CircularDependency (chain @ [t]) fwd), s)
      else
        (case select_provider lin t of
           Unregistered \<Rightarrow> (Inl (NoProvider t), s)
         | MultiProviders ps \<Rightarrow>
             eff_bind
               (resolve_multi_instances E M
                  (\<lambda>root fwd' u s'. resolve_with_chain E M (if root then [last lin] else lin)
                     (chain @ [t]) (insert t active) fwd' u s') lin ps)
               (\<lambda>vs. eff_return (JsArr vs)) s
         | SingleProvider p \<Rightarrow>
             resolve_single E M
               (\<lambda>root fwd' u s'. resolve_with_chain E M (if root then [last lin] else lin)
                  (chain @ [t]) (insert t active) fwd' u s') lin p s))"
  by pat_completeness auto
termination
  by (relation "measure (\<lambda>(E, M, lin, chain, active, fwd, t, s). card (lineage_tokens lin - active))")
    (auto intro: card_select_less [of _ _ _ True, simplified] card_select_less [of _ _ _ False, simplified])

declare resolve_with_chain.simps [simp del]

definition resolve :: "di_env \<Rightarrow> class_meta \<Rightarrow> lineage \<Rightarrow> token \<Rightarrow> js_value di" where
  "resolve E M lin t =
     (if is_disposed_in_hierarchy lin then eff_throw ContainerDisposed
      else resolve_with_chain E M lin [] {} False t)"

end
