(* ===== verification/Container_Graph_Facts.thy ===== *)
theory Container_Graph_Facts
  imports Container_Graph
begin

text \<open>
  What the provider-graph walks of the container compute: the request-scope verdict is
  reachability of a request-scoped provider or of a cycle, the scope check of singletons
  reports a provider that really is request-scoped and reachable, and an alias chain ends
  in a provider that is no alias.
\<close>

section \<open>The dependency graph\<close>

definition entry_targets :: "lineage \<Rightarrow> inject_entry list \<Rightarrow> token list" where
  "entry_targets lin es =
     List.map_filter
       (\<lambda>e. case dep_token e of
              None \<Rightarrow> None
            | Some t \<Rightarrow> if is_optional e \<and> \<not> has_token lin t then None else Some t) es"

definition provider_targets :: "lineage \<Rightarrow> nprov \<Rightarrow> token list" where
  "provider_targets lin p =
     (case np_type p of UseExisting u \<Rightarrow> [u] | _ \<Rightarrow> entry_targets lin (np_inject p))"

definition providers_of :: "lineage \<Rightarrow> token \<Rightarrow> nprov list" where
  "providers_of lin t =
     (case lookup_provider lin t of None \<Rightarrow> [] | Some p \<Rightarrow> [p]) @ collect_multi_providers lin t"

definition class_metadata_of :: "class_meta \<Rightarrow> token \<Rightarrow> di_meta option" where
  "class_metadata_of M t = (case t of TokClass c \<Rightarrow> js_get M c | _ \<Rightarrow> None)"

definition dependency_targets :: "class_meta \<Rightarrow> lineage \<Rightarrow> token \<Rightarrow> token list" where
  "dependency_targets M lin t =
     (if providers_of lin t = [] then
        (case class_metadata_of M t of
           None \<Rightarrow> []
         | Some m \<Rightarrow> entry_targets lin (list_or_empty (dm_inject m)))
      else concat (map (provider_targets lin) (providers_of lin t)))"

definition token_request_scoped :: "class_meta \<Rightarrow> lineage \<Rightarrow> token \<Rightarrow> bool" where
  "token_request_scoped M lin t \<longleftrightarrow>
     (if providers_of lin t = [] then
        (case class_metadata_of M t of None \<Rightarrow> False | Some m \<Rightarrow> dm_scope m = Some Request)
      else list_ex (\<lambda>p. np_scope p = Request) (providers_of lin t))"

definition dependency_edges :: "class_meta \<Rightarrow> lineage \<Rightarrow> (token \<times> token) set" where
  "dependency_edges M lin = {(t, u). u \<in> set (dependency_targets M lin t)}"

lemma entry_requires_targets:
  "list_ex (\<lambda>e. entry_requires M lin e vis) es \<longleftrightarrow>
   (\<exists>u \<in> set (entry_targets lin es). graph_requires M lin u vis)"
  by (induction es)
    (auto simp: entry_targets_def List.map_filter_simps entry_requires.simps split: option.splits)

lemma provider_requires_targets:
  "provider_requires M lin p vis \<longleftrightarrow>
   np_scope p = Request \<or> (\<exists>u \<in> set (provider_targets lin p). graph_requires M lin u vis)"
  by (subst provider_requires.simps)
    (auto simp: provider_targets_def entry_requires_targets split: strategy.splits)

lemma graph_requires_unfold:
  "graph_requires M lin t vis \<longleftrightarrow>
     t \<in> vis \<or> token_request_scoped M lin t \<or>
     (\<exists>u \<in> set (dependency_targets M lin t). graph_requires M lin u (insert t vis))"
  by (subst graph_requires.simps)
    (auto simp: token_request_scoped_def dependency_targets_def providers_of_def
      unregistered_requires.simps class_metadata_of_def provider_requires_targets
      entry_requires_targets list_ex_iff split: option.splits token.splits)

lemma dependency_targets_known:
  "u \<in> set (dependency_targets M lin t) \<Longrightarrow> t \<in> known_tokens M lin"
  by (auto simp: dependency_targets_def providers_of_def class_metadata_of_def
      split: if_splits option.splits token.splits
      intro: lookup_known collect_known class_known class_known [OF sym])

section \<open>The verdict is reachability\<close>

lemma graph_requires_complete:
  assumes "\<not> graph_requires M lin t vis" and "(t, u) \<in> (dependency_edges M lin)\<^sup>*"
  shows "u \<notin> vis \<and> \<not> token_request_scoped M lin u \<and> (u, u) \<notin> (dependency_edges M lin)\<^sup>+"
  using assms
proof (induction "card (known_tokens M lin - vis)" arbitrary: t vis u rule: less_induct)
  case less
  note unfold = graph_requires_unfold [of M lin t vis]
  have below: "v \<notin> insert t vis \<and> \<not> token_request_scoped M lin v \<and> (v, v) \<notin> (dependency_edges M lin)\<^sup>+"
    if "(t, w) \<in> dependency_edges M lin" and "(w, v) \<in> (dependency_edges M lin)\<^sup>*" for w v
  proof -
    from that(1) have w: "w \<in> set (dependency_targets M lin t)"
      by (simp add: dependency_edges_def)
    then have "\<not> graph_requires M lin w (insert t vis)" and "t \<notin> vis"
      using less.prems(1) unfold by blast+
    moreover from this w have "card (known_tokens M lin - insert t vis) < card (known_tokens M lin - vis)"
      by (intro card_path_less) (auto dest: dependency_targets_known)
    ultimately show ?thesis
      using less.hyps [of "insert t vis" w v] that(2) by blast
  qed
  show ?case
  proof (cases "u = t")
    case True
    have "(t, t) \<notin> (dependency_edges M lin)\<^sup>+"
      using below by (metis insertI1 tranclD)
    then show ?thesis
      using True less.prems(1) unfold by blast
  next
    case False
    then obtain w where "(t, w) \<in> dependency_edges M lin" and "(w, u) \<in> (dependency_edges M lin)\<^sup>*"
      using less.prems(2) by (auto elim: converse_rtranclE)
    then show ?thesis
      using below by blast
  qed
qed

lemma graph_requires_sound:
  assumes "graph_requires M lin t vis"
    and "\<And>x. x \<in> vis \<Longrightarrow> (x, t) \<in> (dependency_edges M lin)\<^sup>+"
  shows "\<exists>u. (t, u) \<in> (dependency_edges M lin)\<^sup>* \<and>
             (token_request_scoped M lin u \<or> (u, u) \<in> (dependency_edges M lin)\<^sup>+)"
  using assms
proof (induction "card (known_tokens M lin - vis)" arbitrary: t vis rule: less_induct)
  case less
  consider (seen) "t \<in> vis" | (scoped) "token_request_scoped M lin t"
    | (dep) w where "t \<notin> vis" "w \<in> set (dependency_targets M lin t)"
        "graph_requires M lin w (insert t vis)"
    using less.prems(1) graph_requires_unfold [of M lin t vis] by blast
  then show ?case
  proof cases
    case dep
    then have edge: "(t, w) \<in> dependency_edges M lin"
      by (simp add: dependency_edges_def)
    have "card (known_tokens M lin - insert t vis) < card (known_tokens M lin - vis)"
      using dep by (intro card_path_less) (auto dest: dependency_targets_known)
    moreover have "(x, w) \<in> (dependency_edges M lin)\<^sup>+" if "x \<in> insert t vis" for x
      using that edge less.prems(2) by (auto intro: trancl_into_trancl)
    ultimately show ?thesis
      using less.hyps [OF _ dep(3)] edge by (meson converse_rtrancl_into_rtrancl)
  qed (use less.prems(2) in blast)+
qed

text \<open>\<open>hasRequestScopedDependency\<close> answers exactly whether the provider graph below the
  token holds a request-scoped provider or a cycle.\<close>

theorem request_scope_verdict:
  "has_request_scoped_dependency M lin t \<longleftrightarrow>
   (\<exists>u. (t, u) \<in> (dependency_edges M lin)\<^sup>* \<and>
        (token_request_scoped M lin u \<or> (u, u) \<in> (dependency_edges M lin)\<^sup>+))"
  unfolding has_request_scoped_dependency_def
  using graph_requires_sound [of M lin t "{}"] graph_requires_complete [of M lin t "{}"] by blast

section \<open>Alias chains\<close>

lemma resolve_effective_not_alias:
  "resolve_effective_loop lin vis ch t = Inr (Some p) \<Longrightarrow> \<forall>u. np_type p \<noteq> UseExisting u"
proof (induction lin vis ch t rule: resolve_effective_loop.induct)
  case (1 lin vis ch t)
  from 1(2) show ?case
    by (subst (asm) resolve_effective_loop.simps)
      (auto split: if_splits option.splits strategy.splits dest: 1(1))
qed

text \<open>One alias step, and the chain an alias cycle reports.\<close>

definition alias_step :: "lineage \<Rightarrow> (token \<times> token) set" where
  "alias_step lin = {(t, u). \<exists>p. lookup_provider lin t = Some p \<and> np_type p = UseExisting u}"

lemma resolve_effective_reaches:
  "resolve_effective_loop lin vis ch t = Inr (Some p) \<Longrightarrow>
   \<exists>u. (t, u) \<in> (alias_step lin)\<^sup>* \<and> lookup_provider lin u = Some p"
proof (induction lin vis ch t rule: resolve_effective_loop.induct)
  case (1 lin vis ch t)
  show ?case
  proof (cases "\<exists>q u. lookup_provider lin t = Some q \<and> np_type q = UseExisting u")
    case True
    then obtain q u where q: "lookup_provider lin t = Some q" "np_type q = UseExisting u"
      by blast
    then have "(t, u) \<in> alias_step lin"
      by (auto simp: alias_step_def)
    moreover from 1(2) q have "t \<notin> vis"
      and "resolve_effective_loop lin (insert t vis) (ch @ [t]) u = Inr (Some p)"
      by (subst (asm) resolve_effective_loop.simps, auto split: if_splits)+
    ultimately show ?thesis
      using 1(1) q by (meson converse_rtrancl_into_rtrancl)
  next
    case False
    with 1(2) show ?thesis
      by (subst (asm) resolve_effective_loop.simps)
        (auto split: if_splits option.splits strategy.splits)
  qed
qed

section \<open>The scope check of singletons\<close>

text \<open>The graph this check walks: a token stands for the provider its aliases end in, and an
  unregistered class for its own metadata.\<close>

definition effective_targets :: "class_meta \<Rightarrow> lineage \<Rightarrow> token \<Rightarrow> token list" where
  "effective_targets M lin t =
     (case resolve_effective_provider lin t of
        Inl _ \<Rightarrow> []
      | Inr (Some p) \<Rightarrow> entry_targets lin (np_inject p)
      | Inr None \<Rightarrow>
          (case class_metadata_of M t of
             None \<Rightarrow> []
           | Some m \<Rightarrow> entry_targets lin (list_or_empty (dm_inject m))))"

definition effective_request :: "class_meta \<Rightarrow> lineage \<Rightarrow> token \<Rightarrow> token option" where
  "effective_request M lin t =
     (case resolve_effective_provider lin t of
        Inl _ \<Rightarrow> None
      | Inr (Some p) \<Rightarrow> if np_scope p = Request then Some (np_provide p) else None
      | Inr None \<Rightarrow>
          (case class_metadata_of M t of
             None \<Rightarrow> None
           | Some m \<Rightarrow> if dm_scope m = Some Request then Some t else None))"

definition effective_deps :: "class_meta \<Rightarrow> lineage \<Rightarrow> (token \<times> token) set" where
  "effective_deps M lin = {(t, u). u \<in> set (effective_targets M lin t)}"

text \<open>The search over the entries: the first error, or the first request-scoped token.\<close>

fun first_request ::
  "('a \<Rightarrow> (di_error, token option) result) \<Rightarrow> 'a list \<Rightarrow> (di_error, token option) result" where
  "first_request f [] = Inr None"
| "first_request f (t # ts) =
     (case f t of
        Inl x \<Rightarrow> Inl x
      | Inr None \<Rightarrow> first_request f ts
      | Inr (Some u) \<Rightarrow> if truthy_token u then Inr (Some u) else first_request f ts)"

lemma first_request_none:
  "first_request f ts = Inr None \<Longrightarrow> t \<in> set ts \<Longrightarrow>
   \<exists>w. f t = Inr w \<and> (\<forall>u. w = Some u \<longrightarrow> \<not> truthy_token u)"
  by (induction ts) (auto split: sum.splits option.splits if_splits)

lemma first_request_some:
  "first_request f ts = Inr (Some u) \<Longrightarrow> truthy_token u \<and> (\<exists>t \<in> set ts. f t = Inr (Some u))"
  by (induction ts) (auto split: sum.splits option.splits if_splits)

lemma first_request_error: "first_request f ts = Inl x \<Longrightarrow> \<exists>t \<in> set ts. f t = Inl x"
  by (induction ts) (auto split: sum.splits option.splits if_splits)

lemma find_dependency_entries:
  "find_request_scoped_dependency M lin es vis =
   first_request (\<lambda>t. find_request_scoped_token M lin t vis) (entry_targets lin es)"
  by (induction es)
    (auto simp: entry_targets_def List.map_filter_simps split: option.splits sum.splits)

lemma find_token_unfold:
  "find_request_scoped_token M lin t vis =
     (if t \<in> vis then Inr None
      else
        (case resolve_effective_provider lin t of
           Inl x \<Rightarrow> Inl x
         | Inr _ \<Rightarrow>
             (case effective_request M lin t of
                Some u \<Rightarrow> Inr (Some u)
              | None \<Rightarrow> first_request (\<lambda>w. find_request_scoped_token M lin w (insert t vis))
                          (effective_targets M lin t))))"
  by (subst find_request_scoped_token.simps)
    (auto simp: effective_request_def effective_targets_def class_metadata_of_def
      find_dependency_entries split: sum.splits option.splits token.splits)

lemma class_metadata_of_Some:
  "class_metadata_of M t = Some m \<longleftrightarrow> (\<exists>c. t = TokClass c \<and> js_get M c = Some m)"
  by (cases t) (auto simp: class_metadata_of_def)

lemma effective_targets_known:
  assumes "u \<in> set (effective_targets M lin t)"
  shows "t \<in> known_tokens M lin"
proof -
  consider p where "resolve_effective_loop lin {} [] t = Inr (Some p)"
    | c m where "t = TokClass c" "js_get M c = Some m"
    using assms
    by (cases "resolve_effective_loop lin {} [] t"; cases "class_metadata_of M t")
      (auto simp: effective_targets_def class_metadata_of_Some resolve_effective_provider_def
        split: option.splits)
  then show ?thesis
    by cases (auto simp: known_tokens_def dest: effective_known js_get_key)
qed

text \<open>Paths that never come back to a visited token.\<close>

definition avoiding :: "('a \<times> 'a) set \<Rightarrow> 'a set \<Rightarrow> ('a \<times> 'a) set" where
  "avoiding E vis = E \<inter> UNIV \<times> (- vis)"

lemma avoiding_first_step:
  "(t, v) \<in> (avoiding E vis)\<^sup>* \<Longrightarrow>
   v = t \<or> (\<exists>w. (t, w) \<in> E \<and> w \<notin> insert t vis \<and> (w, v) \<in> (avoiding E (insert t vis))\<^sup>*)"
proof (induction rule: rtrancl_induct)
  case (step y z)
  then have z: "(y, z) \<in> E" "z \<notin> vis"
    by (auto simp: avoiding_def)
  show ?case
  proof (cases "z = t")
    case False
    then have "(y, z) \<in> avoiding E (insert t vis)"
      using z by (simp add: avoiding_def)
    then show ?thesis
      using step.IH z False by (metis insert_iff rtrancl.rtrancl_into_rtrancl rtrancl.rtrancl_refl)
  qed simp
qed simp

text \<open>The check takes the empty string for no token: a request-scoped provider registered under it hides itself
  and what is behind it.\<close>

definition hidden_requests :: "class_meta \<Rightarrow> lineage \<Rightarrow> token set" where
  "hidden_requests M lin = {v. effective_request M lin v = Some (TokString [])}"

lemma visible_request: "v \<notin> hidden_requests M lin \<Longrightarrow> effective_request M lin v = Some u \<Longrightarrow> truthy_token u"
  by (auto simp: hidden_requests_def truthy_token_def)

lemma find_token_complete:
  assumes "find_request_scoped_token M lin t vis = Inr r" and "\<forall>u. r = Some u \<longrightarrow> \<not> truthy_token u"
    and "t \<notin> vis \<union> hidden_requests M lin"
    and "(t, v) \<in> (avoiding (effective_deps M lin) (vis \<union> hidden_requests M lin))\<^sup>*"
  shows "effective_request M lin v = None"
  using assms
proof (induction "card (known_tokens M lin - vis)" arbitrary: t vis r rule: less_induct)
  case less
  let ?f = "\<lambda>w. find_request_scoped_token M lin w (insert t vis)"
  let ?H = "hidden_requests M lin"
  have t: "t \<notin> vis" "t \<notin> ?H"
    using less.prems(3) by simp_all
  have none: "effective_request M lin t = None"
    using less.prems(1,2) t visible_request [OF t(2)] find_token_unfold [of M lin t vis]
    by (fastforce split: sum.splits option.splits)
  show ?case
  proof (cases "v = t")
    case False
    then obtain w where w: "w \<in> set (effective_targets M lin t)" "w \<notin> insert t vis \<union> ?H"
        "(w, v) \<in> (avoiding (effective_deps M lin) (insert t vis \<union> ?H))\<^sup>*"
      using avoiding_first_step [OF less.prems(4)] by (auto simp: effective_deps_def)
    have r: "first_request ?f (effective_targets M lin t) = Inr r"
      using less.prems(1) t(1) none find_token_unfold [of M lin t vis] by (auto split: sum.splits)
    then have "r = None"
      using first_request_some [of ?f "effective_targets M lin t"] less.prems(2) by (cases r) auto
    with r obtain r' where "?f w = Inr r'" "\<forall>u. r' = Some u \<longrightarrow> \<not> truthy_token u"
      using first_request_none [of ?f, OF _ w(1)] by blast
    moreover have "card (known_tokens M lin - insert t vis) < card (known_tokens M lin - vis)"
      using w(1) t(1) by (intro card_path_less) (auto dest: effective_targets_known)
    ultimately show ?thesis
      using less.hyps w(2,3) by blast
  qed (use none in simp)
qed

lemma find_token_sound:
  assumes "find_request_scoped_token M lin t vis = Inr (Some u)"
  shows "\<exists>v. (t, v) \<in> (effective_deps M lin)\<^sup>* \<and> effective_request M lin v = Some u"
  using assms
proof (induction "card (known_tokens M lin - vis)" arbitrary: t vis rule: less_induct)
  case less
  let ?f = "\<lambda>w. find_request_scoped_token M lin w (insert t vis)"
  have t: "t \<notin> vis"
    using less.prems find_token_unfold [of M lin t vis] by (auto split: if_splits)
  show ?case
  proof (cases "effective_request M lin t")
    case (Some x)
    then have "effective_request M lin t = Some u"
      using less.prems t find_token_unfold [of M lin t vis] by (simp split: sum.splits)
    then show ?thesis
      by blast
  next
    case None
    then have "first_request ?f (effective_targets M lin t) = Inr (Some u)"
      using less.prems t find_token_unfold [of M lin t vis] by (auto split: sum.splits)
    then obtain w where w: "w \<in> set (effective_targets M lin t)" "?f w = Inr (Some u)"
      using first_request_some [of ?f] by blast
    then have "card (known_tokens M lin - insert t vis) < card (known_tokens M lin - vis)"
      using t by (intro card_path_less) (auto dest: effective_targets_known)
    then obtain v where "(w, v) \<in> (effective_deps M lin)\<^sup>*" "effective_request M lin v = Some u"
      using less.hyps w(2) by blast
    moreover have "(t, w) \<in> effective_deps M lin"
      using w(1) by (simp add: effective_deps_def)
    ultimately show ?thesis
      by (meson converse_rtrancl_into_rtrancl)
  qed
qed

lemma resolve_effective_error:
  "resolve_effective_loop lin vis ch t = Inl x \<Longrightarrow> \<exists>c. x = CircularDependency c False"
proof (induction lin vis ch t rule: resolve_effective_loop.induct)
  case (1 lin vis ch t)
  from 1(2) show ?case
    by (subst (asm) resolve_effective_loop.simps)
      (auto split: if_splits option.splits strategy.splits dest: 1(1))
qed

lemma find_token_error:
  "find_request_scoped_token M lin t vis = Inl x \<Longrightarrow> \<exists>c. x = CircularDependency c False"
proof (induction "card (known_tokens M lin - vis)" arbitrary: t vis rule: less_induct)
  case less
  let ?f = "\<lambda>w. find_request_scoped_token M lin w (insert t vis)"
  have t: "t \<notin> vis"
    using less.prems find_token_unfold [of M lin t vis] by (auto split: if_splits)
  then consider "resolve_effective_provider lin t = Inl x"
    | "first_request ?f (effective_targets M lin t) = Inl x"
    using less.prems find_token_unfold [of M lin t vis]
    by (auto split: sum.splits option.splits)
  then show ?case
  proof cases
    case 2
    then obtain w where w: "w \<in> set (effective_targets M lin t)" "?f w = Inl x"
      using first_request_error by blast
    then have "card (known_tokens M lin - insert t vis) < card (known_tokens M lin - vis)"
      using t by (intro card_path_less) (auto dest: effective_targets_known)
    then show ?thesis
      using less.hyps w(2) by blast
  qed (simp add: resolve_effective_provider_def resolve_effective_error)
qed


end
