(* ===== verification/Container_Resolve_Facts.thy ===== *)
theory Container_Resolve_Facts
  imports Container_Resolve Container_Graph_Facts
begin

text \<open>
  What resolution does to the instance caches: it never awaits a promise that it is itself
  holding up, keeps every settled instance, leaves no unsettled entry behind, and reports a
  circular dependency only for a real cycle of the provider graph.
\<close>

section \<open>Slots\<close>

lemma read_write_slot [simp]:
  "read_slot j (write_slot k v s) = (if j = k then Some v else read_slot j s)"
  by (cases j; cases k) auto

lemma read_drop_slot [simp]:
  "read_slot j (drop_slot k s) = (if j = k then None else read_slot j s)"
  by (cases j; cases k) auto

lemma write_slot_fields [simp]:
  "cs_pending (write_slot k v s) = cs_pending s" "cs_log (write_slot k v s) = cs_log s"
  "cs_children (write_slot k v s) = cs_children s"
  by (cases k; simp)+

lemma drop_slot_fields [simp]:
  "cs_pending (drop_slot k s) = cs_pending s" "cs_log (drop_slot k s) = cs_log s"
  "cs_children (drop_slot k s) = cs_children s"
  by (cases k; simp)+

lemma read_slot_update [simp]:
  "read_slot k (s\<lparr>cs_pending := ps\<rparr>) = read_slot k s"
  "read_slot k (s\<lparr>cs_log := es\<rparr>) = read_slot k s"
  "read_slot k (s\<lparr>cs_children := cs\<rparr>) = read_slot k s"
  by (cases k; simp)+

lemma fold_write_fields:
  "cs_pending (fold (\<lambda>k. write_slot k v) ks s) = cs_pending s"
  "cs_log (fold (\<lambda>k. write_slot k v) ks s) = cs_log s"
  "cs_children (fold (\<lambda>k. write_slot k v) ks s) = cs_children s"
  by (induction ks arbitrary: s) auto

lemma read_fold_write:
  "read_slot j (fold (\<lambda>k. write_slot k v) ks s) =
   (if j \<in> set ks then Some v else read_slot j s)"
  by (induction ks arbitrary: s) auto

lemma flush_pending_simps [simp]:
  "cs_pending (flush_pending s) = []" "cs_log (flush_pending s) = cs_log s"
  "cs_children (flush_pending s) = cs_children s"
  "read_slot j (flush_pending s) = (if j \<in> set (cs_pending s) then Some Pending else read_slot j s)"
  by (simp_all add: flush_pending_def fold_write_fields read_fold_write)

lemma flush_pending_idle: "cs_pending s = [] \<Longrightarrow> flush_pending s = s"
  by (simp add: flush_pending_def)

lemma ensure_tracked_simps [simp]:
  "cs_pending (ensure_tracked_request_scope c s) = cs_pending s"
  "cs_log (ensure_tracked_request_scope c s) = cs_log s"
  "read_slot j (ensure_tracked_request_scope c s) = read_slot j s"
  by (auto simp: ensure_tracked_request_scope_def)

section \<open>Effects that respect the caches\<close>

definition in_progress :: "cache_state \<Rightarrow> cache_key \<Rightarrow> bool" where
  "in_progress s k \<longleftrightarrow> k \<in> set (cs_pending s) \<or> read_slot k s = Some Pending"

text \<open>Only tokens of \<open>T\<close> are being instantiated, and no key waits for a slot it already has.\<close>

definition cache_ok :: "token set \<Rightarrow> cache_state \<Rightarrow> bool" where
  "cache_ok T s \<longleftrightarrow>
     (\<forall>k. in_progress s k \<longrightarrow> key_token k \<in> T) \<and>
     (\<forall>k \<in> set (cs_pending s). read_slot k s = None)"

definition extends :: "cache_state \<Rightarrow> cache_state \<Rightarrow> bool" where
  "extends s s' \<longleftrightarrow>
     in_progress s' = in_progress s \<and>
     (\<forall>k v. read_slot k s = Some (Settled v) \<longrightarrow> read_slot k s' = Some (Settled v)) \<and>
     (\<exists>es. cs_log s' = cs_log s @ es) \<and>
     set (cs_children s) \<subseteq> set (cs_children s')"

definition good :: "token set \<Rightarrow> 'a di \<Rightarrow> bool" where
  "good T m \<longleftrightarrow>
     (\<forall>s r s'. cache_ok T s \<and> m s = (r, s') \<longrightarrow>
        extends s s' \<and> cache_ok T s' \<and> r \<noteq> Inl Deadlock \<and> r \<noteq> Inl AliasInstantiated)"

lemma extends_refl [simp]: "extends s s"
  by (simp add: extends_def)

lemma extends_trans: "extends s s' \<Longrightarrow> extends s' s'' \<Longrightarrow> extends s s''"
  by (auto simp: extends_def)

lemma goodI:
  "(\<And>s r s'. cache_ok T s \<Longrightarrow> m s = (r, s') \<Longrightarrow>
      extends s s' \<and> cache_ok T s' \<and> r \<noteq> Inl Deadlock \<and> r \<noteq> Inl AliasInstantiated) \<Longrightarrow> good T m"
  by (auto simp: good_def)

lemma goodD:
  assumes "good T m" and "cache_ok T s" and "m s = (r, s')"
  shows "extends s s'" and "cache_ok T s'" and "r \<noteq> Inl Deadlock" and "r \<noteq> Inl AliasInstantiated"
  using assms unfolding good_def by blast+

lemma cache_ok_mono: "cache_ok T s \<Longrightarrow> T \<subseteq> U \<Longrightarrow> cache_ok U s"
  by (auto simp: cache_ok_def)

lemma cache_ok_extends: "cache_ok T s \<Longrightarrow> extends s s' \<Longrightarrow> cache_ok U s' \<Longrightarrow> cache_ok T s'"
  by (auto simp: cache_ok_def extends_def)

lemma good_mono: "good U m \<Longrightarrow> T \<subseteq> U \<Longrightarrow> good T m"
proof (rule goodI)
  fix s r s'
  assume "good U m" "T \<subseteq> U" "cache_ok T s" "m s = (r, s')"
  then show "extends s s' \<and> cache_ok T s' \<and> r \<noteq> Inl Deadlock \<and> r \<noteq> Inl AliasInstantiated"
    using goodD [of U m s r s'] cache_ok_mono [of T s U] cache_ok_extends [of T s s' U] by simp
qed

lemma good_insert: "good (insert t T) m \<Longrightarrow> good T m"
  by (rule good_mono) auto

lemma good_bind:
  assumes "good T m" and "\<And>a. good T (f a)"
  shows "good T (eff_bind m f)"
proof (rule goodI)
  fix s r s'
  assume s: "cache_ok T s" and run: "eff_bind m f s = (r, s')"
  obtain x s1 where m: "m s = (x, s1)"
    by fastforce
  then have one: "extends s s1" "cache_ok T s1" "x \<noteq> Inl Deadlock" "x \<noteq> Inl AliasInstantiated"
    using goodD [OF assms(1) s] by blast+
  show "extends s s' \<and> cache_ok T s' \<and> r \<noteq> Inl Deadlock \<and> r \<noteq> Inl AliasInstantiated"
  proof (cases x)
    case (Inl e)
    then show ?thesis
      using one m run by (auto simp: eff_bind_def)
  next
    case (Inr a)
    then have "f a s1 = (r, s')"
      using m run by (simp add: eff_bind_def)
    then show ?thesis
      using goodD [OF assms(2) [of a] one(2)] extends_trans [OF one(1)] by blast
  qed
qed

lemma good_return [simp]: "good T (eff_return a)"
  by (auto simp: good_def eff_defs)

lemma good_throw [simp]: "e \<noteq> Deadlock \<Longrightarrow> e \<noteq> AliasInstantiated \<Longrightarrow> good T (eff_throw e)"
  by (auto simp: good_def eff_defs)

lemma in_progress_flush [simp]: "in_progress (flush_pending s) = in_progress s"
  by (auto simp: in_progress_def fun_eq_iff)

lemma flush_extends: "cache_ok T s \<Longrightarrow> extends s (flush_pending s)"
  by (auto simp: extends_def cache_ok_def)

lemma flush_cache_ok: "cache_ok T s \<Longrightarrow> cache_ok T (flush_pending s)"
  by (auto simp: cache_ok_def)

lemma good_suspend [simp]: "good T suspend"
  by (auto simp: good_def suspend_def eff_defs flush_extends flush_cache_ok)

lemma good_await: "sl \<noteq> Pending \<Longrightarrow> good T (await_slot sl)"
  by (cases sl) (auto simp: await_slot_def intro: good_bind)

lemma not_pending: "cache_ok T s \<Longrightarrow> key_token k \<notin> T \<Longrightarrow> read_slot k s \<noteq> Some Pending \<and> k \<notin> set (cs_pending s)"
  by (auto simp: cache_ok_def in_progress_def)

section \<open>Caching an instance\<close>

lemma with_cached_good:
  assumes "key_token k = t" and "t \<notin> T" and "good (insert t T) build"
  shows "good T (with_cached k build)"
proof (rule goodI)
  fix s r s'
  assume s: "cache_ok T s" and run: "with_cached k build s = (r, s')"
  note idle = not_pending [OF s, of k]
  show "extends s s' \<and> cache_ok T s' \<and> r \<noteq> Inl Deadlock \<and> r \<noteq> Inl AliasInstantiated"
  proof (cases "read_slot k s")
    case (Some sl)
    then have "sl \<noteq> Pending" and "await_slot sl s = (r, s')"
      using idle assms run by (auto simp: with_cached_def)
    then show ?thesis
      using goodD [OF good_await s] by blast
  next
    case None
    let ?s1 = "s\<lparr>cs_pending := k # cs_pending s\<rparr>"
    have s1: "cache_ok (insert t T) ?s1"
      using s None assms(1) by (auto simp: cache_ok_def in_progress_def)
    obtain x s2 where b: "build ?s1 = (x, s2)"
      by fastforce
    have two: "extends ?s1 s2" "cache_ok (insert t T) s2" "x \<noteq> Inl Deadlock" "x \<noteq> Inl AliasInstantiated"
      using goodD [OF assms(3) s1 b] by blast+
    have prog: "in_progress s2 j \<longleftrightarrow> j = k \<or> in_progress s j" for j
      using two(1) by (auto simp: extends_def in_progress_def fun_eq_iff)
    have kept: "read_slot j s2 = Some (Settled v)" if "read_slot j s = Some (Settled v)" for j v
      using two(1) that by (auto simp: extends_def)
    show ?thesis
    proof (cases x)
      case (Inl e)
      then have s': "s' = drop_slot k (s2\<lparr>cs_pending := removeAll k (cs_pending s2)\<rparr>)" "r = Inl e"
        using run None b by (auto simp: with_cached_def)
      then have same: "in_progress s' = in_progress s"
        using prog idle assms(1,2) by (fastforce simp: in_progress_def fun_eq_iff)
      moreover have "extends s s'"
        using two(1) None same s' kept by (auto simp: extends_def)
      ultimately show ?thesis
        using s two s' Inl by (auto simp: cache_ok_def)
    next
      case (Inr v)
      then have s': "s' = write_slot k (Settled v) (flush_pending s2)" "r = Inr v"
        using run None b by (auto simp: with_cached_def)
      have same: "in_progress s' = in_progress s"
      proof
        fix j
        have "in_progress s' j \<longleftrightarrow> j \<noteq> k \<and> in_progress s2 j"
          using s' by (auto simp: in_progress_def)
        also have "\<dots> \<longleftrightarrow> in_progress s j"
          using prog [of j] idle assms(1,2) by (auto simp: in_progress_def)
        finally show "in_progress s' j = in_progress s j" .
      qed
      moreover have "extends s s'"
        using two(1,2) None same s' kept by (auto simp: extends_def cache_ok_def)
      ultimately show ?thesis
        using s s' by (auto simp: cache_ok_def)
    qed
  qed
qed

section \<open>Resolution respects the caches\<close>

lemma good_lift: "r \<noteq> Inl Deadlock \<Longrightarrow> r \<noteq> Inl AliasInstantiated \<Longrightarrow> good T (eff_lift r)"
  by (auto simp: good_def eff_defs)

lemma assert_scopes_error:
  assumes "assert_singleton_dependency_scopes M lin p = Inl e"
  shows "(\<exists>c. e = CircularDependency c False) \<or> (\<exists>t u. e = SingletonDependsOnRequest t u)"
  using assms
  by (auto simp: assert_singleton_dependency_scopes_def find_dependency_entries
      split: if_splits sum.splits option.splits dest!: first_request_error dest: find_token_error)

lemma good_assert: "good T (eff_lift (assert_singleton_dependency_scopes M lin p))"
  using assert_scopes_error [of M lin p] by (intro good_lift) auto

lemma good_resolve_dep:
  "(\<And>f u. good T (res f u)) \<Longrightarrow> good T (resolve_dep_token res lin e)"
  by (auto simp: resolve_dep_token_def split: inject_entry.splits)

lemma good_resolve_deps:
  "(\<And>f u. good T (res f u)) \<Longrightarrow> good T (resolve_provider_deps res lin es)"
  by (induction es) (auto intro!: good_bind good_resolve_dep)

lemma good_record_build: "good T (\<lambda>s. record_build p deps (r (cs_log s)) s)"
proof (rule goodI)
  fix s x s'
  assume "cache_ok T s" and "record_build p deps (r (cs_log s)) s = (x, s')"
  then show "extends s s' \<and> cache_ok T s' \<and> x \<noteq> Inl Deadlock \<and> x \<noteq> Inl AliasInstantiated"
    by (auto simp: record_build_def extends_def cache_ok_def in_progress_def fun_eq_iff
        split: sum.splits)
qed

lemma good_instantiate:
  assumes "\<And>f u. good T (res f u)" and "\<And>u. np_type p \<noteq> UseExisting u"
  shows "good T (instantiate E M res lin p)"
  using assms unfolding instantiate_def
  by (cases "np_type p")
    (auto intro!: good_bind good_assert good_resolve_deps good_record_build)

lemma track_children: "set (cs_children s) \<subseteq> set (cs_children (ensure_tracked_request_scope c s))"
  by (auto simp: ensure_tracked_request_scope_def)

lemma good_track: "good T (eff_update (ensure_tracked_request_scope c))"
proof (rule goodI)
  fix s s' and r :: "(di_error, unit) result"
  assume "cache_ok T s" and "eff_update (ensure_tracked_request_scope c) s = (r, s')"
  then show "extends s s' \<and> cache_ok T s' \<and> r \<noteq> Inl Deadlock \<and> r \<noteq> Inl AliasInstantiated"
    using track_children [of s c]
    by (auto simp: eff_defs extends_def cache_ok_def in_progress_def fun_eq_iff)
qed

text \<open>The cache of a provider is found under its own token.\<close>

lemma good_cache_for:
  assumes "\<And>k. key_token k = np_provide p \<Longrightarrow> good T (f k)"
  shows "good T (eff_bind (cache_for lin p) f)" and "good T (eff_bind (multi_cache_for lin p) f)"
proof -
  have bind: "good T (eff_bind (request_cache_for_write c k) f)" if "key_token k = np_provide p" for c k
  proof -
    have "eff_bind (request_cache_for_write c k) f =
          eff_bind (eff_update (ensure_tracked_request_scope c)) (\<lambda>_. f k)"
      by (simp add: request_cache_for_write_def eff_defs)
    then show ?thesis
      using that assms by (simp add: good_bind good_track)
  qed
  have throw: "eff_bind (eff_throw e) f = eff_throw e" for e
    by (simp add: eff_defs)
  show "good T (eff_bind (cache_for lin p) f)" and "good T (eff_bind (multi_cache_for lin p) f)"
    by (auto simp: cache_for_def multi_cache_for_def Let_def throw intro!: bind assms)
qed

lemma get_cached_instance_bind:
  "eff_bind (get_cached_instance lin p) g =
   (if np_scope p \<noteq> Singleton then g None
    else eff_bind (cache_for (if should_resolve_from_root lin p then [last lin] else lin) p)
           (\<lambda>k s. g (read_slot k s) s))"
  by (auto simp: get_cached_instance_def eff_defs fun_eq_iff split: prod.splits sum.splits)

lemma good_resolve_scoped:
  assumes "\<And>r f u. good (insert (np_provide p) T) (res r f u)" and "np_provide p \<notin> T"
    and "\<And>u. np_type p \<noteq> UseExisting u"
  shows "good T (resolve_scoped_instance E M res lin p)"
  unfolding resolve_scoped_instance_def Let_def
  using assms by (intro good_cache_for) (auto intro!: with_cached_good good_instantiate)

lemma good_resolve_multi:
  assumes "\<And>r f u. good (insert (np_provide p) T) (res r f u)" and "np_provide p \<notin> T"
  shows "good T (resolve_multi_instance E M res lin p)"
proof (cases "\<exists>u. np_type p = UseExisting u")
  case True
  then show ?thesis
    using assms(1) [THEN good_insert] by (auto simp: resolve_multi_instance_def)
next
  case False
  have one: "good T (instantiate E M (res False) lin p)"
    using False assms(1) [THEN good_insert] by (intro good_instantiate) auto
  have two: "good T (eff_bind (multi_cache_for l p) (\<lambda>k. with_cached k (instantiate E M (res b) l p)))"
    for l b
    by (rule good_cache_for) (use False assms in \<open>auto intro!: with_cached_good good_instantiate\<close>)
  show ?thesis
    using False one two by (auto simp: resolve_multi_instance_def Let_def split: strategy.splits)
qed

lemma good_resolve_multis:
  assumes "\<And>r f u. good (insert t T) (res r f u)" and "t \<notin> T"
    and "\<forall>p \<in> set ps. np_provide p = t"
  shows "good T (resolve_multi_instances E M res lin ps)"
  using assms(3)
proof (induction ps)
  case (Cons p ps)
  then have "good T (resolve_multi_instance E M res lin p)"
    using assms(1,2) by (intro good_resolve_multi) auto
  then show ?case
    using Cons by (auto intro!: good_bind)
qed simp

lemma good_resolve_single:
  assumes "\<And>r f u. good (insert (np_provide p) T) (res r f u)" and "np_provide p \<notin> T"
  shows "good T (resolve_single E M res lin p)"
proof (cases "\<exists>u. np_type p = UseExisting u")
  case True
  then show ?thesis
    using assms(1) [THEN good_insert] by (auto simp: resolve_single_def)
next
  case False
  have one: "good T (instantiate E M (res False) lin p)"
    using False assms(1) [THEN good_insert] by (intro good_instantiate) auto
  have scoped: "good T (resolve_scoped_instance E M res lin p)"
    using False assms by (intro good_resolve_scoped) auto
  let ?g = "\<lambda>c. case c of Some sl \<Rightarrow> await_slot sl | None \<Rightarrow> resolve_scoped_instance E M res lin p"
  have read: "good T (\<lambda>s. ?g (read_slot k s) s)" if k: "key_token k = np_provide p" for k
  proof (rule goodI)
    fix s r s'
    assume s: "cache_ok T s" and run: "?g (read_slot k s) s = (r, s')"
    have g: "good T (?g (read_slot k s))"
      using scoped not_pending [OF s, of k] k assms(2)
      by (auto intro!: good_await split: option.splits)
    then show "extends s s' \<and> cache_ok T s' \<and> r \<noteq> Inl Deadlock \<and> r \<noteq> Inl AliasInstantiated"
      using goodD [OF g s] run by blast
  qed
  have two: "good T (eff_bind (get_cached_instance lin p) ?g)"
    unfolding get_cached_instance_bind using scoped read
    by (auto intro!: good_cache_for)
  show ?thesis
    using False one two by (auto simp: resolve_single_def split: strategy.splits)
qed

lemma resolve_with_chain_good:
  assumes "lineage_wf lin"
  shows "good active (resolve_with_chain E M lin chain active fwd t)"
  using assms
proof (induction "card (lineage_tokens lin - active)" arbitrary: lin chain active fwd t
    rule: less_induct)
  case less
  note unfold = resolve_with_chain.simps [of E M lin chain active fwd t]
  let ?res = "\<lambda>root fwd' u s'. resolve_with_chain E M (if root then [last lin] else lin)
      (chain @ [t]) (insert t active) fwd' u s'"
  consider (cycle) "t \<in> active" | (none) "t \<notin> active" "select_provider lin t = Unregistered"
    | (multi) ps where "t \<notin> active" "select_provider lin t = MultiProviders ps"
    | (single) p where "t \<notin> active" "select_provider lin t = SingleProvider p"
    by (cases "select_provider lin t") auto
  then show ?case
  proof cases
    case cycle
    then show ?thesis
      by (auto simp: good_def unfold)
  next
    case none
    then show ?thesis
      by (auto simp: good_def unfold)
  next
    case multi
    have res: "good (insert t active) (?res root fwd' u)" for root fwd' u
      using less.hyps [of "if root then [last lin] else lin" "insert t active"] multi less.prems
        lineage_wf_root [OF less.prems] card_select_less [of lin t active root] by simp
    have "\<forall>p \<in> set ps. np_provide p = t"
      using multi(2) collect_multi_wf [OF less.prems]
      by (auto simp: select_provider_def split: if_splits option.splits)
    then have "good active (resolve_multi_instances E M ?res lin ps)"
      using multi(1) res by (intro good_resolve_multis) auto
    then have "good active (eff_bind (resolve_multi_instances E M ?res lin ps) (\<lambda>vs. eff_return (JsArr vs)))"
      by (intro good_bind) auto
    then show ?thesis
      using multi unfold by (simp add: good_def)
  next
    case single
    have res: "good (insert t active) (?res root fwd' u)" for root fwd' u
      using less.hyps [of "if root then [last lin] else lin" "insert t active"] single less.prems
        lineage_wf_root [OF less.prems] card_select_less [of lin t active root] by simp
    have "np_provide p = t"
      using single(2) lookup_provider_wf [OF less.prems]
      by (auto simp: select_provider_def split: if_splits option.splits)
    then have "good active (resolve_single E M ?res lin p)"
      using single(1) res by (intro good_resolve_single) auto
    then show ?thesis
      using single unfold by (simp add: good_def)
  qed
qed

text \<open>Between two calls of \<open>resolve\<close> nothing is being instantiated.\<close>

definition idle_caches :: "cache_state \<Rightarrow> bool" where
  "idle_caches s \<longleftrightarrow> (\<forall>k. \<not> in_progress s k)"

lemma idle_caches_ok: "idle_caches s \<longleftrightarrow> cache_ok {} s"
  by (auto simp: idle_caches_def cache_ok_def in_progress_def)

lemma resolve_good: "lineage_wf lin \<Longrightarrow> good {} (resolve E M lin t)"
  by (auto simp: resolve_def intro: resolve_with_chain_good)

lemma resolve_keeps_caches:
  assumes "lineage_wf lin" and "idle_caches s" and "resolve E M lin t s = (r, s')"
  shows "r \<noteq> Inl Deadlock" and "r \<noteq> Inl AliasInstantiated" and "idle_caches s'"
    and "extends s s'"
  using goodD [OF resolve_good [OF assms(1)] _ assms(3)] assms(2)
  by (auto simp: idle_caches_ok)

text \<open>C29. Resolution never waits for itself: started with no instance under construction, a
  call of \<open>resolve\<close> ends, never awaits a promise that only it could settle, never reaches
  the alias branch of \<open>instantiate\<close>, keeps every cached instance and every past event, and
  leaves no unsettled promise in any cache, whether it returns or throws.\<close>

theorem resolve_no_deadlock:
  assumes "lineage_wf lin" and "idle_caches s" and "resolve E M lin t s = (r, s')"
  shows "r \<noteq> Inl Deadlock \<and> r \<noteq> Inl AliasInstantiated \<and> idle_caches s' \<and>
         (\<forall>k v. read_slot k s = Some (Settled v) \<longrightarrow> read_slot k s' = Some (Settled v)) \<and>
         (\<exists>events. cs_log s' = cs_log s @ events)"
  using resolve_keeps_caches [OF assms] by (auto simp: extends_def)

section \<open>Circular dependencies\<close>

text \<open>All the edges resolution may follow: aliases and injected tokens, of single and of multi
  providers, seen from the container or from the root.\<close>

definition provides :: "lineage \<Rightarrow> token \<Rightarrow> nprov \<Rightarrow> bool" where
  "provides lin t p \<longleftrightarrow> lookup_provider lin t = Some p \<or> p \<in> set (collect_multi_providers lin t)"

definition injects :: "nprov \<Rightarrow> token \<Rightarrow> bool" where
  "injects p u \<longleftrightarrow> np_type p = UseExisting u \<or> (\<exists>e \<in> set (np_inject p). dep_token e = Some u)"

definition resolution_edges :: "lineage \<Rightarrow> (token \<times> token) set" where
  "resolution_edges lin =
     {(t, u). \<exists>p. (provides lin t p \<or> provides [last lin] t p) \<and> injects p u}"

fun is_path :: "('a \<times> 'a) set \<Rightarrow> 'a list \<Rightarrow> bool" where
  "is_path E [] = True"
| "is_path E [x] = True"
| "is_path E (x # y # zs) = ((x, y) \<in> E \<and> is_path E (y # zs))"

lemma is_path_snoc:
  "is_path E (xs @ [x]) \<Longrightarrow> (x, y) \<in> E \<Longrightarrow> is_path E (xs @ [x, y])"
  by (induction E "xs @ [x]" arbitrary: xs rule: is_path.induct)
    (auto simp: Cons_eq_append_conv append_eq_Cons_conv)

lemma is_path_mono: "is_path E xs \<Longrightarrow> E \<subseteq> F \<Longrightarrow> is_path F xs"
  by (induction E xs rule: is_path.induct) auto

lemma is_path_trancl: "is_path E (x # xs) \<Longrightarrow> y \<in> set xs \<Longrightarrow> (x, y) \<in> E\<^sup>+"
proof (induction xs arbitrary: x)
  case (Cons z zs)
  then have "(x, z) \<in> E" and "is_path E (z # zs)"
    by auto
  then show ?case
    using Cons.IH [of z] Cons.prems(2) by (auto intro: trancl_into_trancl2)
qed simp

definition cycle_chain :: "(token \<times> token) set \<Rightarrow> token list \<Rightarrow> bool" where
  "cycle_chain E c \<longleftrightarrow> is_path E c \<and> c \<noteq> [] \<and> last c \<in> set (butlast c)"

definition honest :: "(token \<times> token) set \<Rightarrow> 'a di \<Rightarrow> bool" where
  "honest E m \<longleftrightarrow> (\<forall>s c f s'. m s = (Inl (CircularDependency c f), s') \<longrightarrow> cycle_chain E c)"

lemma honestD: "honest E m \<Longrightarrow> m s = (Inl (CircularDependency c f), s') \<Longrightarrow> cycle_chain E c"
  by (auto simp: honest_def)

lemma honest_bind: "honest E m \<Longrightarrow> (\<And>a. honest E (f a)) \<Longrightarrow> honest E (eff_bind m f)"
  by (fastforce simp: honest_def eff_bind_def split: prod.splits sum.splits)

lemma honest_return [simp]: "honest E (eff_return a)"
  by (simp add: honest_def eff_defs)

lemma honest_throw: "(\<And>c f. e \<noteq> CircularDependency c f) \<Longrightarrow> honest E (eff_throw e)"
  by (auto simp: honest_def eff_defs)

lemma honest_suspend [simp]: "honest E suspend"
  by (simp add: honest_def suspend_def eff_defs)

lemma honest_update [simp]: "honest E (eff_update f)"
  by (simp add: honest_def eff_defs)

lemma honest_await [simp]: "honest E (await_slot sl)"
  by (cases sl) (auto simp: await_slot_def intro!: honest_bind honest_throw)

lemma honest_record_build: "honest E (\<lambda>s. record_build p deps (r (cs_log s)) s)"
  by (auto simp: honest_def record_build_def split: sum.splits)

lemma honest_with_cached: "honest E build \<Longrightarrow> honest E (with_cached k build)"
  using honest_await [of E] unfolding honest_def with_cached_def
  by (auto split: option.splits prod.splits sum.splits)

lemma honest_cache_for [simp]: "honest E (cache_for lin p)" "honest E (multi_cache_for lin p)"
  by (auto simp: cache_for_def multi_cache_for_def request_cache_for_write_def Let_def
      intro!: honest_bind honest_throw)

lemma honest_read: "honest E (\<lambda>s. (Inr (f s), s))"
  by (simp add: honest_def)

lemma honest_get_cached [simp]: "honest E (get_cached_instance lin p)"
  unfolding get_cached_instance_def
  by (auto intro!: honest_bind honest_read)

subsection \<open>Alias cycles found by the scope check\<close>

lemma resolve_effective_cycle:
  assumes "resolve_effective_loop lin vis ch t = Inl (CircularDependency c f)"
    and "is_path (alias_step lin) (ch @ [t])" and "vis = set ch"
  shows "cycle_chain (alias_step lin) c"
  using assms
proof (induction lin vis ch t rule: resolve_effective_loop.induct)
  case (1 lin vis ch t)
  show ?case
  proof (cases "t \<in> vis")
    case True
    then show ?thesis
      using 1(2-4) by (subst (asm) resolve_effective_loop.simps) (auto simp: cycle_chain_def butlast_append)
  next
    case False
    with 1(2) obtain p u where p: "lookup_provider lin t = Some p" "np_type p = UseExisting u"
        and rec: "resolve_effective_loop lin (insert t vis) (ch @ [t]) u = Inl (CircularDependency c f)"
      by (subst (asm) resolve_effective_loop.simps)
        (auto split: if_splits option.splits strategy.splits)
    then have "(t, u) \<in> alias_step lin"
      by (auto simp: alias_step_def)
    then have "is_path (alias_step lin) ((ch @ [t]) @ [u])"
      using 1(3) by (simp add: is_path_snoc)
    then show ?thesis
      using 1(1) [OF False p] rec 1(4) by simp
  qed
qed

lemma find_token_cycle:
  "find_request_scoped_token M lin t vis = Inl (CircularDependency c f) \<Longrightarrow>
   cycle_chain (alias_step lin) c"
proof (induction "card (known_tokens M lin - vis)" arbitrary: t vis rule: less_induct)
  case less
  let ?f = "\<lambda>w. find_request_scoped_token M lin w (insert t vis)"
  have t: "t \<notin> vis"
    using less.prems find_token_unfold [of M lin t vis] by (auto split: if_splits)
  then consider "resolve_effective_provider lin t = Inl (CircularDependency c f)"
    | "first_request ?f (effective_targets M lin t) = Inl (CircularDependency c f)"
    using less.prems find_token_unfold [of M lin t vis]
    by (auto split: sum.splits option.splits)
  then show ?case
  proof cases
    case 1
    then show ?thesis
      by (auto simp: resolve_effective_provider_def intro: resolve_effective_cycle)
  next
    case 2
    then obtain w where w: "w \<in> set (effective_targets M lin t)"
        "?f w = Inl (CircularDependency c f)"
      using first_request_error by blast
    then have "card (known_tokens M lin - insert t vis) < card (known_tokens M lin - vis)"
      using t by (intro card_path_less) (auto dest: effective_targets_known)
    then show ?thesis
      using less.hyps w(2) by blast
  qed
qed

lemma honest_assert:
  assumes "alias_step lin \<subseteq> E"
  shows "honest E (eff_lift (assert_singleton_dependency_scopes M lin p))"
proof -
  have "cycle_chain E c"
    if "assert_singleton_dependency_scopes M lin p = Inl (CircularDependency c f)" for c f
  proof -
    from that obtain t where "find_request_scoped_token M lin t {np_provide p} = Inl (CircularDependency c f)"
      by (auto simp: assert_singleton_dependency_scopes_def find_dependency_entries
          split: if_splits sum.splits option.splits dest!: first_request_error)
    then show ?thesis
      using find_token_cycle is_path_mono [OF _ assms] unfolding cycle_chain_def by blast
  qed
  then show ?thesis
    by (simp add: honest_def eff_defs)
qed

subsection \<open>Resolution\<close>

lemma honest_resolve_deps:
  assumes "\<And>e u f. e \<in> set es \<Longrightarrow> dep_token e = Some u \<Longrightarrow> honest E (res f u)"
  shows "honest E (resolve_provider_deps res lin es)"
  using assms
proof (induction es)
  case (Cons e es)
  have "honest E (resolve_dep_token res lin e)"
    using Cons.prems [of e]
    by (cases e) (auto simp: resolve_dep_token_def intro: honest_throw)
  then show ?case
    using Cons by (auto intro!: honest_bind)
qed simp

lemma honest_instantiate:
  assumes "\<And>u f. injects p u \<Longrightarrow> honest E (res f u)" and "alias_step lin \<subseteq> E"
  shows "honest E (instantiate E' M res lin p)"
proof -
  have "honest E (resolve_provider_deps res lin (np_inject p))"
    using assms(1) by (intro honest_resolve_deps) (auto simp: injects_def)
  then show ?thesis
    using assms(2) unfolding instantiate_def
    by (auto intro!: honest_bind honest_assert honest_throw honest_record_build
        split: strategy.splits)
qed

lemma honest_resolve_scoped:
  assumes "\<And>r u f. injects p u \<Longrightarrow> honest E (res r f u)"
    and "alias_step lin \<subseteq> E" and "alias_step [last lin] \<subseteq> E"
  shows "honest E (resolve_scoped_instance E' M res lin p)"
  using assms unfolding resolve_scoped_instance_def Let_def
  by (intro honest_bind honest_with_cached honest_instantiate honest_cache_for) auto

lemma honest_resolve_multi:
  assumes "\<And>r u f. injects p u \<Longrightarrow> honest E (res r f u)"
    and "alias_step lin \<subseteq> E" and "alias_step [last lin] \<subseteq> E"
  shows "honest E (resolve_multi_instance E' M res lin p)"
proof -
  have "honest E (eff_bind (multi_cache_for l p) (\<lambda>k. with_cached k (instantiate E' M (res b) l p)))"
    if "l = lin \<or> l = [last lin]" for l b
    using that assms by (intro honest_bind honest_with_cached honest_instantiate honest_cache_for) auto
  moreover have "honest E (instantiate E' M (res False) lin p)"
    using assms by (intro honest_instantiate) auto
  ultimately show ?thesis
    using assms(1) by (auto simp: resolve_multi_instance_def Let_def injects_def split: strategy.splits)
qed

lemma honest_resolve_multis:
  assumes "\<And>p r u f. p \<in> set ps \<Longrightarrow> injects p u \<Longrightarrow> honest E (res r f u)"
    and "alias_step lin \<subseteq> E" and "alias_step [last lin] \<subseteq> E"
  shows "honest E (resolve_multi_instances E' M res lin ps)"
  using assms
proof (induction ps)
  case (Cons p ps)
  then have "honest E (resolve_multi_instance E' M res lin p)"
    by (intro honest_resolve_multi) auto
  then show ?case
    using Cons by (auto intro!: honest_bind)
qed simp

lemma honest_resolve_single:
  assumes "\<And>r u f. injects p u \<Longrightarrow> honest E (res r f u)"
    and "alias_step lin \<subseteq> E" and "alias_step [last lin] \<subseteq> E"
  shows "honest E (resolve_single E' M res lin p)"
proof -
  have "honest E (instantiate E' M (res False) lin p)"
    using assms by (intro honest_instantiate) auto
  moreover have "honest E (resolve_scoped_instance E' M res lin p)"
    using assms by (intro honest_resolve_scoped) auto
  ultimately show ?thesis
    using assms(1)
    by (auto simp: resolve_single_def injects_def split: strategy.splits option.splits
        intro!: honest_bind)
qed

lemma alias_step_edges: "alias_step lin \<subseteq> resolution_edges lin"
  by (auto simp: alias_step_def resolution_edges_def provides_def injects_def)

lemma root_edges: "resolution_edges [last lin] \<subseteq> resolution_edges lin"
  by (auto simp: resolution_edges_def)

lemma resolve_with_chain_honest:
  assumes "resolution_edges lin \<subseteq> E" and "is_path E (chain @ [t])" and "active = set chain"
  shows "honest E (resolve_with_chain E' M lin chain active fwd t)"
  using assms
proof (induction "card (lineage_tokens lin - active)" arbitrary: lin chain active fwd t
    rule: less_induct)
  case less
  note unfold = resolve_with_chain.simps [of E' M lin chain active fwd t]
  let ?res = "\<lambda>root fwd' u s'. resolve_with_chain E' M (if root then [last lin] else lin)
      (chain @ [t]) (insert t active) fwd' u s'"
  have aliases: "alias_step lin \<subseteq> E" "alias_step [last lin] \<subseteq> E"
    using less.prems(1) alias_step_edges root_edges by blast+
  have res: "honest E (?res root fwd' u)"
    if "t \<notin> active" "select_provider lin t \<noteq> Unregistered" "provides lin t p" "injects p u"
    for root fwd' u p
  proof -
    have "(t, u) \<in> E"
      using that(3,4) less.prems(1) by (auto simp: resolution_edges_def)
    then have "is_path E ((chain @ [t]) @ [u])"
      using less.prems(2) by (simp add: is_path_snoc)
    moreover have "resolution_edges (if root then [last lin] else lin) \<subseteq> E"
      using less.prems(1) root_edges [of lin] by auto
    ultimately show ?thesis
      using less.hyps [OF card_select_less [OF that(2,1), of root] , of "chain @ [t]" u fwd']
        less.prems(3) by simp
  qed
  consider (cycle) "t \<in> active" | (none) "t \<notin> active" "select_provider lin t = Unregistered"
    | (multi) ps where "t \<notin> active" "select_provider lin t = MultiProviders ps"
    | (single) p where "t \<notin> active" "select_provider lin t = SingleProvider p"
    by (cases "select_provider lin t") auto
  then show ?case
  proof cases
    case cycle
    have "cycle_chain E (chain @ [t])"
      using less.prems(2,3) cycle by (simp add: cycle_chain_def)
    then show ?thesis
      using cycle by (simp add: honest_def unfold)
  next
    case none
    then show ?thesis
      by (auto simp: honest_def unfold)
  next
    case multi
    have "honest E (resolve_multi_instances E' M ?res lin ps)"
    proof (rule honest_resolve_multis)
      fix p r u f
      assume "p \<in> set ps" and u: "injects p u"
      then have "provides lin t p"
        using multi(2) by (auto simp: select_provider_def provides_def split: if_splits option.splits)
      then show "honest E (?res r f u)"
        using res [OF multi(1) _ _ u] multi(2) by simp
    qed (rule aliases)+
    then have "honest E (eff_bind (resolve_multi_instances E' M ?res lin ps) (\<lambda>vs. eff_return (JsArr vs)))"
      by (intro honest_bind) auto
    then show ?thesis
      using multi unfold by (simp add: honest_def)
  next
    case single
    then have "provides lin t p"
      by (auto simp: select_provider_def provides_def split: if_splits option.splits)
    then have "honest E (?res r f u)" if "injects p u" for r f u
      using res [OF single(1) _ _ that] single(2) by simp
    then have "honest E (resolve_single E' M ?res lin p)"
      using aliases by (intro honest_resolve_single)
    then show ?thesis
      using single unfold by (simp add: honest_def)
  qed
qed

lemma cycle_chain_trancl:
  assumes "cycle_chain E c"
  shows "(last c, last c) \<in> E\<^sup>+"
proof -
  obtain xs ys where "butlast c = xs @ last c # ys"
    using assms by (auto simp: cycle_chain_def dest: split_list)
  then have c: "c = xs @ (last c # ys @ [last c])"
    using assms by (metis append.assoc append_Cons append_butlast_last_id cycle_chain_def)
  have "is_path E (zs @ ws) \<Longrightarrow> is_path E ws" for zs ws
    by (induction E zs rule: is_path.induct) (cases ws; auto)+
  then have "is_path E (last c # ys @ [last c])"
    using assms c by (metis cycle_chain_def)
  then show ?thesis
    by (rule is_path_trancl) simp
qed

text \<open>A circular-dependency error tells the truth: the chain it carries follows the
  provider graph edge by edge and ends in a token it has already passed, so the graph has
  a cycle through that token.\<close>

theorem circular_dependency_is_real:
  assumes "resolve E M lin t s = (Inl (CircularDependency chain hint), s')"
  shows "cycle_chain (resolution_edges lin) chain \<and>
         (last chain, last chain) \<in> (resolution_edges lin)\<^sup>+"
proof -
  have "honest (resolution_edges lin) (resolve E M lin t)"
    using resolve_with_chain_honest [of lin "resolution_edges lin" "[]" t "{}"]
    by (auto simp: resolve_def intro: honest_throw)
  then have "cycle_chain (resolution_edges lin) chain"
    using assms unfolding honest_def by blast
  then show ?thesis
    using cycle_chain_trancl by blast
qed

end
