(* ===== verification/Container_Sharing.thy ===== *)
theory Container_Sharing
  imports Container_Resolve_Facts
begin

text \<open>
  Who shares an instance with whom: singletons are built once per container hierarchy,
  request-scoped providers once per request scope and never by the root, transients on
  every resolution.
\<close>

section \<open>Where an instance is kept\<close>

definition instance_key :: "lineage \<Rightarrow> nprov \<Rightarrow> cache_key" where
  "instance_key lin p =
     (if np_scope p = Singleton \<and>
         \<not> (ct_request_scope (hd lin) \<and> js_has (ct_registrations (hd lin)) (np_provide p))
      then SingleKey (ct_id (last lin)) (np_provide p)
      else SingleKey (ct_id (hd lin)) (np_provide p))"

lemma key_token_instance_key [simp]: "key_token (instance_key lin p) = np_provide p"
  by (simp add: instance_key_def)

lemma cache_for_redirected:
  assumes "\<not> ct_request_scope (last lin)" and "np_scope p \<noteq> Singleton \<longrightarrow> ct_request_scope (hd lin)"
  shows "\<exists>track. cache_for (if should_resolve_from_root lin p then [last lin] else lin) p =
           (\<lambda>s. (Inr (instance_key lin p), track s)) \<and>
         (\<forall>s. cs_log (track s) = cs_log s \<and> cs_pending (track s) = cs_pending s \<and>
              (\<forall>k. read_slot k (track s) = read_slot k s))"
proof (cases "np_scope p = Singleton \<and>
    \<not> (ct_request_scope (hd lin) \<and> js_has (ct_registrations (hd lin)) (np_provide p))")
  case True
  then show ?thesis
    using assms
    by (intro exI [of _ "\<lambda>s. s"])
      (auto simp: cache_for_def should_resolve_from_root_def instance_key_def eff_defs Let_def)
next
  case False
  then show ?thesis
    using assms
    by (intro exI [of _ "ensure_tracked_request_scope (hd lin)"])
      (cases "np_scope p";
       auto simp: cache_for_def should_resolve_from_root_def instance_key_def eff_defs Let_def
        request_cache_for_write_def)
qed

lemma cache_for_refused:
  assumes "np_scope p \<noteq> Singleton" and "\<not> ct_request_scope (hd lin)"
  shows "cache_for (if should_resolve_from_root lin p then [last lin] else lin) p =
         eff_throw (RequestScopeResolution (np_provide p))"
  using assms by (simp add: cache_for_def should_resolve_from_root_def Let_def)

lemma with_cached_stores:
  assumes "cache_ok T s" and "key_token k \<notin> T" and "with_cached k build s = (Inr v, s')"
  shows "read_slot k s' = Some (Settled v)"
proof (cases "read_slot k s")
  case None
  then show ?thesis
    using assms(3) by (auto simp: with_cached_def split: prod.splits sum.splits)
next
  case (Some sl)
  then have "await_slot sl s = (Inr v, s')"
    using assms(3) by (simp add: with_cached_def)
  then show ?thesis
    using Some not_pending [OF assms(1,2)]
    by (cases sl) (auto simp: await_slot_def suspend_def eff_defs)
qed

lemma with_cached_hit:
  "read_slot k s = Some (Settled v) \<Longrightarrow> with_cached k build s = (Inr v, flush_pending s)"
  by (simp add: with_cached_def await_slot_def suspend_def eff_defs)

text \<open>A provider that is neither an alias nor transient is kept.\<close>

definition cached_provider :: "nprov \<Rightarrow> bool" where
  "cached_provider p \<longleftrightarrow> np_scope p \<noteq> Transient \<and> (\<forall>u. np_type p \<noteq> UseExisting u)"

lemma resolve_single_cached:
  assumes "cached_provider p"
  shows "resolve_single E M res lin p =
         eff_bind (get_cached_instance lin p)
           (\<lambda>c. case c of Some sl \<Rightarrow> await_slot sl | None \<Rightarrow> resolve_scoped_instance E M res lin p)"
  using assms by (auto simp: resolve_single_def cached_provider_def split: strategy.splits)

lemma resolve_single_stores:
  assumes "cached_provider p" and "\<not> ct_request_scope (last lin)" and "cache_ok T s"
    and "np_provide p \<notin> T" and "resolve_single E M res lin p s = (Inr v, s')"
  shows "read_slot (instance_key lin p) s' = Some (Settled v)"
proof (cases "np_scope p \<noteq> Singleton \<and> \<not> ct_request_scope (hd lin)")
  case True
  then show ?thesis
    using assms(5)
    by (simp add: resolve_single_cached [OF assms(1)] get_cached_instance_bind
        resolve_scoped_instance_def cache_for_refused) (simp add: eff_defs)
next
  case False
  then obtain track where track:
      "cache_for (if should_resolve_from_root lin p then [last lin] else lin) p =
         (\<lambda>s. (Inr (instance_key lin p), track s))"
      "\<forall>s. cs_log (track s) = cs_log s \<and> cs_pending (track s) = cs_pending s \<and>
              (\<forall>k. read_slot k (track s) = read_slot k s)"
    using cache_for_redirected [OF assms(2), of p] by blast
  let ?k = "instance_key lin p"
  have ok: "cache_ok T (track s)" if "cache_ok T s" for s
    using that track(2) by (simp add: cache_ok_def in_progress_def)
  have scoped: "read_slot ?k s' = Some (Settled v)"
    if "cache_ok T s" "resolve_scoped_instance E M res lin p s = (Inr v, s')" for s
    using that ok [OF that(1)] assms(4)
    by (auto simp: resolve_scoped_instance_def Let_def track eff_bind_def
        intro: with_cached_stores [of T "track s" ?k])
  show ?thesis
  proof (cases "np_scope p = Singleton")
    case False
    then show ?thesis
      using assms(3,5) scoped
      by (auto simp: resolve_single_cached [OF assms(1)] get_cached_instance_bind)
  next
    case True
    then have run: "(case read_slot ?k (track s) of Some sl \<Rightarrow> await_slot sl
        | None \<Rightarrow> resolve_scoped_instance E M res lin p) (track s) = (Inr v, s')"
      using assms(5) unfolding resolve_single_cached [OF assms(1)] get_cached_instance_bind
      by (simp add: track eff_bind_def split: option.splits)
    show ?thesis
    proof (cases "read_slot ?k (track s)")
      case None
      then show ?thesis
        using run scoped ok [OF assms(3)] by simp
    next
      case (Some sl)
      then have "with_cached ?k (\<lambda>s. (Inr v, s)) (track s) = (Inr v, s')"
        using run by (simp add: with_cached_def)
      then show ?thesis
        using with_cached_stores [OF ok [OF assms(3)]] assms(4) by simp
    qed
  qed
qed

lemma resolve_single_hit:
  assumes "cached_provider p" and "\<not> ct_request_scope (last lin)"
    and "np_scope p \<noteq> Singleton \<longrightarrow> ct_request_scope (hd lin)"
    and "read_slot (instance_key lin p) s = Some (Settled v)" and "cs_pending s = []"
  shows "\<exists>s'. resolve_single E M res lin p s = (Inr v, s') \<and> cs_log s' = cs_log s \<and>
              (\<forall>k. read_slot k s' = read_slot k s)"
proof -
  obtain track where track:
      "cache_for (if should_resolve_from_root lin p then [last lin] else lin) p =
         (\<lambda>s. (Inr (instance_key lin p), track s))"
      "\<forall>s. cs_log (track s) = cs_log s \<and> cs_pending (track s) = cs_pending s \<and>
              (\<forall>k. read_slot k (track s) = read_slot k s)"
    using cache_for_redirected [OF assms(2,3)] by blast
  have "with_cached (instance_key lin p) b (track s) = (Inr v, track s)" for b
    using with_cached_hit [of "instance_key lin p" "track s" v b] track(2) assms(4,5)
    by (simp add: flush_pending_idle)
  moreover have "await_slot (Settled v) (track s) = (Inr v, track s)"
    using track(2) assms(5) by (simp add: await_slot_def suspend_def eff_defs flush_pending_idle)
  moreover have "with_cached (instance_key lin p) b s = (Inr v, s)" for b
    using with_cached_hit [OF assms(4)] assms(5) by (simp add: flush_pending_idle)
  ultimately have "resolve_single E M res lin p s = (Inr v, track s)"
    unfolding resolve_single_cached [OF assms(1)] get_cached_instance_bind
    using track assms(4) by (simp add: resolve_scoped_instance_def Let_def eff_bind_def)
  then show ?thesis
    using track(2) by blast
qed

section \<open>Sharing\<close>

lemma resolve_select_single:
  assumes "\<not> is_disposed_in_hierarchy lin" and "select_provider lin t = SingleProvider p"
  shows "\<exists>res. resolve E M lin t = resolve_single E M res lin p"
  using assms
  by (intro exI [of _ "\<lambda>root fwd u s'. resolve_with_chain E M (if root then [last lin] else lin)
        [t] {t} fwd u s'"])
    (simp add: resolve_def resolve_with_chain.simps [of E M lin "[]" "{}" False t] fun_eq_iff)

text \<open>Any number of calls of \<open>resolve\<close>, one after the other.\<close>

fun resolve_calls :: "di_env \<Rightarrow> class_meta \<Rightarrow> (lineage \<times> token) list \<Rightarrow> cache_state \<Rightarrow> cache_state" where
  "resolve_calls E M [] s = s"
| "resolve_calls E M ((lin, t) # calls) s = resolve_calls E M calls (snd (resolve E M lin t s))"

lemma resolve_calls_keep:
  assumes "\<forall>(l, u) \<in> set calls. lineage_wf l" and "idle_caches s"
  shows "idle_caches (resolve_calls E M calls s) \<and>
         (\<forall>k v. read_slot k s = Some (Settled v) \<longrightarrow>
                read_slot k (resolve_calls E M calls s) = Some (Settled v))"
  using assms
proof (induction E M calls s rule: resolve_calls.induct)
  case (2 E M lin t calls s)
  obtain r s' where run: "resolve E M lin t s = (r, s')"
    by fastforce
  then have good: "extends s s'" "cache_ok {} s'"
    using goodD [OF resolve_good _ run] 2(2,3) by (auto simp: idle_caches_ok)
  then show ?case
    using 2(1) 2(2) run by (auto simp: extends_def idle_caches_ok)
qed simp

lemma idle_no_pending: "idle_caches s \<Longrightarrow> cs_pending s = []"
  by (cases "cs_pending s") (auto simp: idle_caches_def in_progress_def)

text \<open>C2. An instance is built once per place it is kept: after a successful \<open>resolve\<close> of a
  token served by a singleton or request-scoped provider, and after any further calls of
  \<open>resolve\<close> anywhere in the hierarchy, every container that keeps the provider in the same
  cache (the whole hierarchy for a singleton that no request scope overrides, the one
  request scope otherwise) resolves the token to the same value, without running a
  constructor or factory.\<close>

theorem instance_is_shared:
  assumes "lineage_wf lin" and "lineage_wf lin'" and "idle_caches s"
    and "select_provider lin t = SingleProvider p" and "select_provider lin' t = SingleProvider p"
    and "cached_provider p" and "instance_key lin' p = instance_key lin p"
    and "np_scope p \<noteq> Singleton \<longrightarrow> ct_request_scope (hd lin')"
    and "\<not> is_disposed_in_hierarchy lin'"
    and "resolve E M lin t s = (Inr v, s1)"
    and "\<forall>(l, u) \<in> set calls. lineage_wf l"
  shows "\<exists>s3. resolve E M lin' t (resolve_calls E M calls s1) = (Inr v, s3) \<and>
              cs_log s3 = cs_log (resolve_calls E M calls s1)"
proof -
  have live: "\<not> is_disposed_in_hierarchy lin"
    using assms(10) by (auto simp: resolve_def eff_defs)
  obtain res where res: "resolve E M lin t = resolve_single E M res lin p"
    using resolve_select_single [OF live assms(4)] by blast
  have "read_slot (instance_key lin p) s1 = Some (Settled v)"
    using resolve_single_stores [OF assms(6), of lin "{}" s E M res v s1] assms(1,3,10) res
    by (simp add: idle_caches_ok lineage_wf_def)
  moreover have "idle_caches s1"
    using goodD(2) [OF resolve_good [OF assms(1)] _ assms(10)] assms(3) by (simp add: idle_caches_ok)
  ultimately have
    "read_slot (instance_key lin' p) (resolve_calls E M calls s1) = Some (Settled v)"
    "cs_pending (resolve_calls E M calls s1) = []"
    using resolve_calls_keep [OF assms(11), of s1 E M] assms(7) idle_no_pending by auto
  moreover obtain res' where "resolve E M lin' t = resolve_single E M res' lin' p"
    using resolve_select_single [OF assms(9,5)] by blast
  ultimately show ?thesis
    using resolve_single_hit [OF assms(6), of lin' "resolve_calls E M calls s1" v E M res'] assms(2,8)
    by (auto simp: lineage_wf_def)
qed

section \<open>What the root builds\<close>

fun event_provider :: "di_event \<Rightarrow> nprov option" where
  "event_provider (Built p deps v) = Some p"
| "event_provider (BuildFailed p deps e) = Some p"
| "event_provider (Destroyed i) = None"
| "event_provider (DestroyFailed i e) = None"

definition emits :: "(di_event \<Rightarrow> bool) \<Rightarrow> 'a di \<Rightarrow> bool" where
  "emits P m \<longleftrightarrow>
     (\<forall>s r s'. m s = (r, s') \<longrightarrow> (\<exists>es. cs_log s' = cs_log s @ es \<and> (\<forall>e \<in> set es. P e)))"

lemma emitsD: "emits P m \<Longrightarrow> m s = (r, s') \<Longrightarrow> \<exists>es. cs_log s' = cs_log s @ es \<and> (\<forall>e \<in> set es. P e)"
  by (auto simp: emits_def)

lemma emits_quiet: "(\<And>s r s'. m s = (r, s') \<Longrightarrow> cs_log s' = cs_log s) \<Longrightarrow> emits P m"
  by (fastforce simp: emits_def)

lemma emits_bind:
  assumes "emits P m" and "\<And>a. emits P (f a)"
  shows "emits P (eff_bind m f)"
  unfolding emits_def
proof (intro allI impI)
  fix s r s'
  assume run: "eff_bind m f s = (r, s')"
  obtain x s1 where m: "m s = (x, s1)"
    by fastforce
  obtain es where es: "cs_log s1 = cs_log s @ es" "\<forall>e \<in> set es. P e"
    using emitsD [OF assms(1) m] by blast
  show "\<exists>es. cs_log s' = cs_log s @ es \<and> (\<forall>e \<in> set es. P e)"
  proof (cases x)
    case (Inl e)
    then show ?thesis
      using es m run by (auto simp: eff_bind_def)
  next
    case (Inr a)
    then have "f a s1 = (r, s')"
      using m run by (simp add: eff_bind_def)
    then obtain fs where "cs_log s' = cs_log s1 @ fs" "\<forall>e \<in> set fs. P e"
      using emitsD [OF assms(2) [of a]] by blast
    then have "cs_log s' = cs_log s @ (es @ fs)" and "\<forall>e \<in> set (es @ fs). P e"
      using es by auto
    then show ?thesis
      by blast
  qed
qed

lemma emits_return [simp]: "emits P (eff_return a)"
  and emits_throw [simp]: "emits P (eff_throw e)"
  and emits_lift [simp]: "emits P (eff_lift r)"
  and emits_suspend [simp]: "emits P suspend"
  and emits_read [simp]: "emits P (\<lambda>s. (Inr (f s), s))"
  and emits_track [simp]: "emits P (eff_update (ensure_tracked_request_scope c))"
  by (auto intro!: emits_quiet simp: eff_defs suspend_def)

lemma emits_await [simp]: "emits P (await_slot sl)"
  by (cases sl) (auto simp: await_slot_def intro: emits_bind)

lemma emits_with_cached: 
  assumes "emits P build"
  shows "emits P (with_cached k build)"
  unfolding emits_def
proof (intro allI impI)
  fix s r s'
  assume run: "with_cached k build s = (r, s')"
  show "\<exists>es. cs_log s' = cs_log s @ es \<and> (\<forall>e \<in> set es. P e)"
  proof (cases "read_slot k s")
    case None
    obtain x s1 where b: "build (s\<lparr>cs_pending := k # cs_pending s\<rparr>) = (x, s1)"
      by fastforce
    then obtain es where "cs_log s1 = cs_log s @ es" "\<forall>e \<in> set es. P e"
      using emitsD [OF assms] by fastforce
    moreover have "cs_log s' = cs_log s1"
      using run None b by (auto simp: with_cached_def split: sum.splits)
    ultimately show ?thesis
      by auto
  next
    case (Some sl)
    then show ?thesis
      using run emitsD [OF emits_await] by (simp add: with_cached_def)
  qed
qed

lemma emits_record_build:
  assumes "\<And>v. P (Built p deps v)" and "\<And>e. P (BuildFailed p deps e)"
  shows "emits P (\<lambda>s. record_build p deps (r (cs_log s)) s)"
  using assms by (auto simp: emits_def record_build_def split: sum.splits)

lemma emits_resolve_deps:
  "(\<And>f u. emits P (res f u)) \<Longrightarrow> emits P (resolve_provider_deps res lin es)"
  by (induction es)
    (auto intro!: emits_bind simp: resolve_dep_token_def split: inject_entry.splits)

lemma emits_instantiate:
  assumes "\<And>f u. emits P (res f u)"
    and "\<And>deps v. P (Built p deps v)" and "\<And>deps e. P (BuildFailed p deps e)"
  shows "emits P (instantiate E M res lin p)"
  using assms unfolding instantiate_def
  by (auto intro!: emits_bind emits_resolve_deps emits_record_build split: strategy.splits)

text \<open>No event of a request-scoped provider.\<close>

definition unscoped :: "di_event \<Rightarrow> bool" where
  "unscoped e \<longleftrightarrow> (\<forall>p. event_provider e = Some p \<longrightarrow> np_scope p \<noteq> Request)"

lemma emits_cache_for:
  assumes "\<not> ct_request_scope (hd lin)" and "\<And>k. np_scope p \<noteq> Request \<Longrightarrow> emits unscoped (f k)"
  shows "emits unscoped (eff_bind (cache_for lin p) f)"
    and "emits unscoped (eff_bind (multi_cache_for lin p) f)"
proof -
  have throw: "eff_bind (eff_throw e) f = eff_throw e" for e :: di_error
    by (simp add: eff_defs)
  show "emits unscoped (eff_bind (cache_for lin p) f)"
    and "emits unscoped (eff_bind (multi_cache_for lin p) f)"
    using assms by (auto simp: cache_for_def multi_cache_for_def Let_def throw)
qed

definition root_only :: "lineage \<Rightarrow> bool" where
  "root_only lin \<longleftrightarrow> \<not> ct_request_scope (hd lin) \<and> \<not> ct_request_scope (last lin)"

lemma root_instantiate:
  "(\<And>f u. emits unscoped (res f u)) \<Longrightarrow> np_scope p \<noteq> Request \<Longrightarrow>
   emits unscoped (instantiate E M res lin p)"
  by (rule emits_instantiate) (auto simp: unscoped_def)

lemma root_resolve_scoped:
  assumes "root_only lin" and "\<And>r f u. emits unscoped (res r f u)"
  shows "emits unscoped (resolve_scoped_instance E M res lin p)"
  unfolding resolve_scoped_instance_def Let_def
  using assms by (intro emits_cache_for emits_with_cached root_instantiate) (auto simp: root_only_def)

lemma root_resolve_multi:
  assumes "root_only lin" and "\<And>r f u. emits unscoped (res r f u)"
  shows "emits unscoped (resolve_multi_instance E M res lin p)"
proof -
  have "emits unscoped (eff_bind (multi_cache_for l p) (\<lambda>k. with_cached k (instantiate E M (res b) l p)))"
    if "l = lin \<or> l = [last lin]" for l b
    using that assms
    by (intro emits_cache_for emits_with_cached root_instantiate) (auto simp: root_only_def)
  moreover have "np_scope p = Transient \<Longrightarrow> emits unscoped (instantiate E M (res False) lin p)"
    using assms by (intro root_instantiate) auto
  ultimately show ?thesis
    using assms(2) by (auto simp: resolve_multi_instance_def Let_def split: strategy.splits)
qed

lemma root_resolve_multis:
  assumes "root_only lin" and "\<And>r f u. emits unscoped (res r f u)"
  shows "emits unscoped (resolve_multi_instances E M res lin ps)"
  by (induction ps) (auto intro!: emits_bind root_resolve_multi assms)

lemma root_resolve_single:
  assumes "root_only lin" and "\<And>r f u. emits unscoped (res r f u)"
  shows "emits unscoped (resolve_single E M res lin p)"
proof -
  have "np_scope p = Transient \<Longrightarrow> emits unscoped (instantiate E M (res False) lin p)"
    using assms by (intro root_instantiate) auto
  moreover have "emits unscoped (get_cached_instance lin p)"
    using assms(1) unfolding get_cached_instance_def
    by (auto simp: root_only_def intro!: emits_cache_for)
  moreover have "emits unscoped (resolve_scoped_instance E M res lin p)"
    using assms by (rule root_resolve_scoped)
  ultimately show ?thesis
    using assms(2)
    by (auto simp: resolve_single_def intro!: emits_bind split: strategy.splits option.splits)
qed

lemma root_resolve_with_chain:
  assumes "root_only lin"
  shows "emits unscoped (resolve_with_chain E M lin chain active fwd t)"
  using assms
proof (induction "card (lineage_tokens lin - active)" arbitrary: lin chain active fwd t
    rule: less_induct)
  case less
  note unfold = resolve_with_chain.simps [of E M lin chain active fwd t]
  let ?res = "\<lambda>root fwd' u s'. resolve_with_chain E M (if root then [last lin] else lin)
      (chain @ [t]) (insert t active) fwd' u s'"
  have "emits unscoped (?res root fwd' u)"
    if "t \<notin> active" "select_provider lin t \<noteq> Unregistered" for root fwd' u
    using less.hyps [OF card_select_less [OF that(2,1), of root], of "chain @ [t]" fwd' u] less.prems
    by (auto simp: root_only_def)
  note multi = root_resolve_multis [OF less.prems this] and single = root_resolve_single [OF less.prems this]
  show ?case
  proof (cases "t \<in> active \<or> select_provider lin t = Unregistered")
    case True
    then show ?thesis
      by (auto simp: emits_def unfold)
  next
    case False
    then have active: "t \<notin> active" and some: "select_provider lin t \<noteq> Unregistered"
      by auto
    show ?thesis
    proof (cases "select_provider lin t")
      case (MultiProviders ps)
      have "emits unscoped (eff_bind (resolve_multi_instances E M ?res lin ps)
              (\<lambda>vs. eff_return (JsArr vs)))"
        using active some by (intro emits_bind multi) auto
      then show ?thesis
        using MultiProviders active unfold by (simp add: emits_def)
    next
      case (SingleProvider p)
      have "emits unscoped (resolve_single E M ?res lin p)"
        using active some by (intro single) auto
      then show ?thesis
        using SingleProvider active unfold by (simp add: emits_def)
    qed (use some in simp)
  qed
qed

text \<open>A request-scoped provider is never built outside a request scope: whatever the root
  container is asked to resolve, and whether that succeeds, no constructor or factory of a
  request-scoped provider runs; asked for one directly, it throws.\<close>

theorem root_never_builds_request_scoped:
  assumes "lineage_wf lin" and "\<not> ct_request_scope (hd lin)" and "resolve E M lin t s = (r, s')"
  shows "(\<exists>events. cs_log s' = cs_log s @ events \<and>
            (\<forall>e \<in> set events. \<forall>p. event_provider e = Some p \<longrightarrow> np_scope p \<noteq> Request)) \<and>
         (\<forall>p. \<not> is_disposed_in_hierarchy lin \<and> select_provider lin t = SingleProvider p \<and>
              np_scope p = Request \<and> cached_provider p \<longrightarrow>
              r = Inl (RequestScopeResolution t) \<and> s' = s)"
proof (intro conjI allI impI)
  have quiet: "emits unscoped (resolve E M lin t)"
    using root_resolve_with_chain [of lin E M "[]" "{}" False t] assms(1,2)
    by (auto simp: resolve_def root_only_def lineage_wf_def)
  then show "\<exists>events. cs_log s' = cs_log s @ events \<and>
            (\<forall>e \<in> set events. \<forall>p. event_provider e = Some p \<longrightarrow> np_scope p \<noteq> Request)"
    using emitsD [OF quiet assms(3)] by (auto simp: unscoped_def)
next
  fix p
  assume p: "\<not> is_disposed_in_hierarchy lin \<and> select_provider lin t = SingleProvider p \<and>
              np_scope p = Request \<and> cached_provider p"
  then obtain res where res: "resolve E M lin t = resolve_single E M res lin p"
    using resolve_select_single by blast
  have "np_provide p = t"
    using p lookup_provider_wf [OF assms(1)]
    by (auto simp: select_provider_def split: if_splits option.splits)
  moreover have "resolve_single E M res lin p = eff_throw (RequestScopeResolution (np_provide p))"
    using p assms(2) cache_for_refused [of p lin]
    by (simp add: resolve_single_cached get_cached_instance_bind resolve_scoped_instance_def)
      (simp add: eff_defs)
  ultimately show "r = Inl (RequestScopeResolution t)" and "s' = s"
    using res assms(3) by (auto simp: eff_defs)
qed

end
