(* ===== verification/Container_World.thy ===== *)
theory Container_World
  imports Container_Sharing
begin

text \<open>
  A whole container hierarchy of \<open>packages/di/src/container.ts\<close>: the operations of the public
  class on it, with the invalidation of cached instances by \<open>override\<close> and the disposal of
  everything a container holds. Each operation runs to completion, its microtasks included,
  before the next one starts. Request scopes disposed together with their root are disposed
  side by side: each destroys its instances in order, and the steps of different scopes interleave
  in whatever way their hooks take time.
\<close>

section \<open>The hierarchy\<close>

text \<open>
  Container \<open>0\<close> is the root. \<open>wd_stale_errors\<close> is \<open>staleDisposalErrors\<close> of each container,
  \<open>wd_disposed\<close> the containers whose \<open>disposePromise\<close> is fulfilled.
\<close>

record world =
  wd_containers :: "container list"
  wd_next_pid :: nat
  wd_caches :: cache_state
  wd_stale_errors :: "nat \<Rightarrow> di_error list"
  wd_disposed :: "nat list"

definition new_world :: world where
  "new_world = \<lparr>wd_containers = [new_container 0 [] False], wd_next_pid = 0,
                wd_caches = empty_cache_state, wd_stale_errors = (\<lambda>_. []), wd_disposed = []\<rparr>"

definition lineage_at :: "world \<Rightarrow> nat \<Rightarrow> lineage" where
  "lineage_at w c =
     map ((!) (wd_containers w)) (c # ct_ancestors (wd_containers w ! c))"

definition put_container :: "nat \<Rightarrow> container \<Rightarrow> world \<Rightarrow> world" where
  "put_container c ct w = w\<lparr>wd_containers := (wd_containers w)[c := ct]\<rparr>"

definition container_register ::
  "class_meta \<Rightarrow> nat \<Rightarrow> provider list \<Rightarrow> world \<Rightarrow> di_error option \<times> world" where
  "container_register M c prs w =
     (case register M (lineage_at w c) (wd_next_pid w) prs of
        (e, pid, ct) \<Rightarrow> (e, put_container c ct (w\<lparr>wd_next_pid := pid\<rparr>)))"

definition create_request_scope :: "nat \<Rightarrow> world \<Rightarrow> (di_error, nat) result \<times> world" where
  "create_request_scope c w =
     (if is_disposed_in_hierarchy (lineage_at w c) then (Inl ContainerDisposed, w)
      else
        (let i = length (wd_containers w);
             child = new_container i (c # ct_ancestors (wd_containers w ! c)) True in
         (Inr i, w\<lparr>wd_containers := wd_containers w @ [child]\<rparr>)))"

definition container_resolve ::
  "di_env \<Rightarrow> class_meta \<Rightarrow> nat \<Rightarrow> token \<Rightarrow> world \<Rightarrow> (di_error, js_value) result \<times> world" where
  "container_resolve E M c t w =
     (case resolve E M (lineage_at w c) t (wd_caches w) of
        (r, s) \<Rightarrow> (r, w\<lparr>wd_caches := s\<rparr>))"

definition container_has :: "nat \<Rightarrow> token \<Rightarrow> world \<Rightarrow> bool" where
  "container_has c t w = has_token (lineage_at w c) t"

section \<open>Disposable instances\<close>

fun is_disposable :: "js_value \<Rightarrow> bool" where
  "is_disposable (JsObj i d) = d"
| "is_disposable _ = False"

definition destroy_instance :: "di_env \<Rightarrow> nat \<Rightarrow> cache_state \<Rightarrow> di_error list \<times> cache_state" where
  "destroy_instance E i s =
     (case destroy E (cs_log s) i of
        None \<Rightarrow> ([], s\<lparr>cs_log := cs_log s @ [Destroyed i]\<rparr>)
      | Some e \<Rightarrow> ([UserError e], s\<lparr>cs_log := cs_log s @ [DestroyFailed i e]\<rparr>))"

section \<open>Invalidation\<close>

text \<open>\<open>invalidateAffectedCachedEntries\<close>: the affected entries of one container leave its caches
  and become stale.\<close>

definition stale_entries :: "lineage \<Rightarrow> token \<Rightarrow> cache_state \<Rightarrow> slot list" where
  "stale_entries lin t s =
     map snd (filter (\<lambda>(k, _). should_invalidate_token lin k t) (cs_single s (ct_id (hd lin)))) @
     map snd (filter (\<lambda>(p, _). should_invalidate_provider lin p t) (cs_multi s (ct_id (hd lin))))"

definition drop_stale_entries :: "lineage \<Rightarrow> token \<Rightarrow> cache_state \<Rightarrow> cache_state" where
  "drop_stale_entries lin t s =
     (let c = ct_id (hd lin) in
      s\<lparr>cs_single := (cs_single s)(c :=
            filter (\<lambda>(k, _). \<not> should_invalidate_token lin k t) (cs_single s c)),
        cs_multi := (cs_multi s)(c :=
            filter (\<lambda>(p, _). \<not> should_invalidate_provider lin p t) (cs_multi s c))\<rparr>)"

text \<open>A task of \<open>scheduleStaleDisposal\<close>: the container that scheduled it and the entry.\<close>

type_synonym stale_task = "nat \<times> slot"

definition invalidate_container ::
  "nat \<Rightarrow> token \<Rightarrow> world \<times> stale_task list \<Rightarrow> world \<times> stale_task list" where
  "invalidate_container c t wt =
     (case wt of (w, tasks) \<Rightarrow>
        (w\<lparr>wd_caches := drop_stale_entries (lineage_at w c) t (wd_caches w)\<rparr>,
         tasks @ map (Pair c) (stale_entries (lineage_at w c) t (wd_caches w))))"

definition is_ancestor_of :: "world \<Rightarrow> nat \<Rightarrow> nat \<Rightarrow> bool" where
  "is_ancestor_of w c d \<longleftrightarrow> c \<in> set (ct_ancestors (wd_containers w ! d))"

definition invalidate_in_hierarchy ::
  "nat \<Rightarrow> token \<Rightarrow> world \<times> stale_task list \<Rightarrow> world \<times> stale_task list" where
  "invalidate_in_hierarchy c t wt =
     fold (\<lambda>d. invalidate_container d t)
       (c # filter (is_ancestor_of (fst wt) c) (cs_children (wd_caches (fst wt)))) wt"

text \<open>The stale tasks run once \<open>override\<close> has returned or thrown.\<close>

fun run_stale_tasks :: "di_env \<Rightarrow> stale_task list \<Rightarrow> world \<Rightarrow> world" where
  "run_stale_tasks E [] w = w"
| "run_stale_tasks E ((c, Settled (JsObj i True)) # tasks) w =
     (case destroy_instance E i (wd_caches w) of
        (es, s) \<Rightarrow>
          run_stale_tasks E tasks
            (w\<lparr>wd_caches := s,
               wd_stale_errors := (wd_stale_errors w)(c := wd_stale_errors w c @ es)\<rparr>))"
| "run_stale_tasks E (_ # tasks) w = run_stale_tasks E tasks w"

fun override_groups ::
  "nat \<Rightarrow> (token \<times> nprov list) list \<Rightarrow> world \<times> stale_task list \<Rightarrow>
   di_error option \<times> world \<times> stale_task list" where
  "override_groups c [] wt = (None, wt)"
| "override_groups c ((t, ps) # gs) wt =
     (if ps = [] then override_groups c gs wt
      else
        (case check_override_group t ps of
           Inl e \<Rightarrow> (Some e, wt)
         | Inr _ \<Rightarrow>
             (case invalidate_in_hierarchy c t wt of
                (w, tasks) \<Rightarrow>
                  override_groups c gs
                    (put_container c (replace_registration t ps (wd_containers w ! c)) w, tasks))))"

definition container_override ::
  "di_env \<Rightarrow> class_meta \<Rightarrow> nat \<Rightarrow> provider list \<Rightarrow> world \<Rightarrow> di_error option \<times> world" where
  "container_override E M c prs w =
     (if is_disposed_in_hierarchy (lineage_at w c) then (Some ContainerDisposed, w)
      else
        (case group_providers M (wd_next_pid w) prs [] of
           Inl e \<Rightarrow> (Some e, w\<lparr>wd_next_pid := wd_next_pid w + length prs\<rparr>)
         | Inr (pid, groups) \<Rightarrow>
             (case override_groups c groups (w\<lparr>wd_next_pid := pid\<rparr>, []) of
                (e, w', tasks) \<Rightarrow> (e, run_stale_tasks E tasks w'))))"

section \<open>Disposal\<close>

definition throw_disposal_errors :: "di_error list \<Rightarrow> di_error option" where
  "throw_disposal_errors errors =
     (case errors of [] \<Rightarrow> None | [e] \<Rightarrow> Some e | _ \<Rightarrow> Some (AggregateError errors))"

definition collect_disposal_error :: "di_error \<Rightarrow> di_error list \<Rightarrow> di_error list" where
  "collect_disposal_error e errors =
     (case e of AggregateError es \<Rightarrow> errors @ es | _ \<Rightarrow> errors @ [e])"

definition disposal_cache_entries :: "nat \<Rightarrow> cache_state \<Rightarrow> slot list" where
  "disposal_cache_entries c s = map snd (cs_single s c) @ map snd (cs_multi s c)"

fun collect_disposable_instances :: "slot list \<Rightarrow> nat list \<Rightarrow> nat list" where
  "collect_disposable_instances [] seen = []"
| "collect_disposable_instances (sl # sls) seen =
     (case sl of
        Settled (JsObj i True) \<Rightarrow>
          if i \<in> set seen then collect_disposable_instances sls seen
          else i # collect_disposable_instances sls (i # seen)
      | _ \<Rightarrow> collect_disposable_instances sls seen)"

fun destroy_each :: "di_env \<Rightarrow> nat list \<Rightarrow> cache_state \<Rightarrow> di_error list \<times> cache_state" where
  "destroy_each E [] s = ([], s)"
| "destroy_each E (i # is) s =
     (case destroy_instance E i s of
        (es, s1) \<Rightarrow> (case destroy_each E is s1 of (fs, s2) \<Rightarrow> (es @ fs, s2)))"

definition dispose_instances_in_reverse_order ::
  "di_env \<Rightarrow> nat list \<Rightarrow> cache_state \<Rightarrow> di_error list \<times> cache_state" where
  "dispose_instances_in_reverse_order E is s = destroy_each E (rev is) s"

definition clear_disposal_caches :: "nat \<Rightarrow> cache_state \<Rightarrow> cache_state" where
  "clear_disposal_caches c s =
     s\<lparr>cs_single := (cs_single s)(c := []), cs_multi := (cs_multi s)(c := [])\<rparr>"

definition dispose_cache :: "di_env \<Rightarrow> nat \<Rightarrow> world \<Rightarrow> di_error option \<times> world" where
  "dispose_cache E c w =
     (let disposables = collect_disposable_instances (disposal_cache_entries c (wd_caches w)) [] in
      case dispose_instances_in_reverse_order E disposables (wd_caches w) of
        (errors, s) \<Rightarrow>
          (throw_disposal_errors (wd_stale_errors w c @ errors),
           w\<lparr>wd_caches := clear_disposal_caches c s,
             wd_stale_errors := (wd_stale_errors w)(c := [])\<rparr>))"

definition untrack_scope :: "nat \<Rightarrow> world \<Rightarrow> world" where
  "untrack_scope c w =
     w\<lparr>wd_caches := (wd_caches w)\<lparr>cs_children := removeAll c (cs_children (wd_caches w))\<rparr>\<rparr>"

definition mark_disposed :: "nat \<Rightarrow> world \<Rightarrow> world" where
  "mark_disposed c w =
     put_container c (advance_graph_revision ((wd_containers w ! c)\<lparr>ct_disposed := True\<rparr>)) w"

definition collect_optional :: "di_error option \<Rightarrow> di_error list \<Rightarrow> di_error list" where
  "collect_optional e errors =
     (case e of None \<Rightarrow> errors | Some x \<Rightarrow> collect_disposal_error x errors)"

text \<open>\<open>dispose\<close> on a request scope, which has no scopes of its own to tear down.\<close>

definition dispose_scope :: "di_env \<Rightarrow> nat \<Rightarrow> world \<Rightarrow> di_error option \<times> world" where
  "dispose_scope E c w =
     (if c \<in> set (wd_disposed w) then (None, w)
      else
        (case dispose_cache E c (mark_disposed c w) of
           (e, w1) \<Rightarrow>
             (let e' = throw_disposal_errors (collect_optional e []);
                  w2 = untrack_scope c w1 in
              (e', if e' = None then w2\<lparr>wd_disposed := c # wd_disposed w2\<rparr> else w2))))"

lemma queue_shorter:
  assumes "qs = filter (\<lambda>q. snd q \<noteq> []) queues" "qs \<noteq> []" "(c, is) = qs ! (j mod length qs)"
  shows "sum_list (map (length \<circ> snd) (qs[j mod length qs := (c, tl is)])) < sum_list (map (length \<circ> snd) queues)"
proof -
  let ?j = "j mod length qs"
  have j: "?j < length qs"
    using assms(2) by simp
  have "snd (qs ! ?j) \<noteq> []"
    using nth_mem [OF j] unfolding assms(1) by simp
  then have "is \<noteq> []"
    by (simp add: assms(3) [symmetric])
  have split: "qs = take ?j qs @ qs ! ?j # drop (Suc ?j) qs"
    using j by (rule id_take_nth_drop)
  have "sum_list (map (length \<circ> snd) (qs[?j := (c, tl is)])) < sum_list (map (length \<circ> snd) qs)"
    using \<open>is \<noteq> []\<close> j by (subst (2) split) (simp add: upd_conv_take_nth_drop assms(3) [symmetric])
  also have "\<dots> \<le> sum_list (map (length \<circ> snd) queues)"
    unfolding assms(1) by (induction queues) auto
  finally show ?thesis .
qed

text \<open>The scopes that \<open>disposeAll\<close> of the root starts together, each with the instances it has yet to
  destroy. Whenever a hook has settled, the environment says which scope goes on.\<close>

function destroy_side_by_side ::
  "di_env \<Rightarrow> (nat \<times> nat list) list \<Rightarrow> cache_state \<Rightarrow> (nat \<times> di_error list) list \<times> cache_state" where
  "destroy_side_by_side E queues s =
     (let qs = filter (\<lambda>q. snd q \<noteq> []) queues;
          j = next_scope E (cs_log s) (length qs) mod length qs in
      if qs = [] then ([], s)
      else
        (case qs ! j of
           (c, is) \<Rightarrow>
             (case destroy_instance E (hd is) s of
                (es, s1) \<Rightarrow>
                  (case destroy_side_by_side E (qs[j := (c, tl is)]) s1 of
                     (fails, s2) \<Rightarrow> ((c, es) # fails, s2)))))"
  by pat_completeness auto

termination
  by (relation "measure (\<lambda>(E, qs, s). sum_list (map (length \<circ> snd) qs))") (auto intro!: queue_shorter [OF refl])

declare destroy_side_by_side.simps [simp del]

text \<open>The end of each scope's own disposal, once all its hooks have settled.\<close>

definition finish_scope :: "di_error list \<Rightarrow> nat \<Rightarrow> world \<Rightarrow> di_error option \<times> world" where
  "finish_scope errors c w =
     (let e = throw_disposal_errors (collect_optional (throw_disposal_errors (wd_stale_errors w c @ errors)) []);
          w1 = untrack_scope c (w\<lparr>wd_caches := clear_disposal_caches c (wd_caches w),
                 wd_stale_errors := (wd_stale_errors w)(c := [])\<rparr>) in
      (e, if e = None then w1\<lparr>wd_disposed := c # wd_disposed w1\<rparr> else w1))"

fun finish_scopes :: "(nat \<times> di_error list) list \<Rightarrow> nat list \<Rightarrow> world \<Rightarrow> di_error list \<times> world" where
  "finish_scopes fails [] w = ([], w)"
| "finish_scopes fails (c # cs) w =
     (case finish_scope (concat (map snd (filter (\<lambda>f. fst f = c) fails))) c w of
        (e, w1) \<Rightarrow>
          (case finish_scopes fails cs w1 of
             (es, w2) \<Rightarrow> (collect_optional e [] @ es, w2)))"

definition dispose_children :: "di_env \<Rightarrow> nat list \<Rightarrow> world \<Rightarrow> di_error list \<times> world" where
  "dispose_children E cs w =
     (let live = filter (\<lambda>c. c \<notin> set (wd_disposed w)) cs;
          w1 = fold mark_disposed live w in
      case destroy_side_by_side E
             (map (\<lambda>c. (c, rev (collect_disposable_instances (disposal_cache_entries c (wd_caches w1)) []))) live) (wd_caches w1) of
        (fails, s) \<Rightarrow> finish_scopes fails live (w1\<lparr>wd_caches := s\<rparr>))"

definition dispose_root :: "di_env \<Rightarrow> world \<Rightarrow> di_error option \<times> world" where
  "dispose_root E w =
     (if 0 \<in> set (wd_disposed w) then (None, w)
      else
        (case dispose_children E (cs_children (wd_caches w)) (mark_disposed 0 w) of
           (errors, w1) \<Rightarrow>
             (let w2 = w1\<lparr>wd_caches := (wd_caches w1)\<lparr>cs_children := []\<rparr>\<rparr> in
              case dispose_cache E 0 w2 of
                (e, w3) \<Rightarrow>
                  (let e' = throw_disposal_errors (collect_optional e errors) in
                   (e', if e' = None then w3\<lparr>wd_disposed := 0 # wd_disposed w3\<rparr> else w3)))))"

definition container_dispose :: "di_env \<Rightarrow> nat \<Rightarrow> world \<Rightarrow> di_error option \<times> world" where
  "container_dispose E c w =
     (if ct_ancestors (wd_containers w ! c) = [] then dispose_root E w else dispose_scope E c w)"

end
