(* ===== verification/Container_World_Facts.thy ===== *)
theory Container_World_Facts
  imports Container_World
begin

text \<open>
  Invariants of container hierarchies, and what disposal and overriding guarantee: every
  reachable hierarchy is well formed and idle between operations, every cached instance
  belongs to the root or to a scope the root tracks, and disposing the root destroys each
  of them.
\<close>

section \<open>Only tracked scopes hold instances\<close>

definition held_by_tracked :: "cache_state \<Rightarrow> bool" where
  "held_by_tracked s \<longleftrightarrow>
     distinct (cs_children s) \<and>
     (\<forall>k. read_slot k s \<noteq> None \<or> k \<in> set (cs_pending s) \<longrightarrow>
          key_container k = 0 \<or> key_container k \<in> set (cs_children s))"

text \<open>A lineage that ends in the root and, if it starts in a request scope, starts in \<open>own\<close>.\<close>

definition rooted :: "nat \<Rightarrow> lineage \<Rightarrow> bool" where
  "rooted own lin \<longleftrightarrow>
     ct_id (last lin) = 0 \<and> \<not> ct_request_scope (last lin) \<and>
     (ct_request_scope (hd lin) \<longrightarrow> ct_ancestors (hd lin) \<noteq> [] \<and> ct_id (hd lin) = own)"

definition grows :: "nat \<Rightarrow> cache_state \<Rightarrow> cache_state \<Rightarrow> bool" where
  "grows own s s' \<longleftrightarrow>
     set (cs_children s) \<subseteq> set (cs_children s') \<and>
     set (cs_children s') \<subseteq> insert own (set (cs_children s))"

lemma grows_refl [simp]: "grows own s s"
  by (auto simp: grows_def)

lemma grows_trans: "grows own s s' \<Longrightarrow> grows own s' s'' \<Longrightarrow> grows own s s''"
  by (auto simp: grows_def)

lemma grows_same [simp]: "cs_children s' = cs_children s \<Longrightarrow> grows own s s'"
  by (auto simp: grows_def)

lemma grows_track: "ct_id c = own \<Longrightarrow> grows own s (ensure_tracked_request_scope c s)"
  by (auto simp: grows_def ensure_tracked_request_scope_def)

definition tracks :: "nat \<Rightarrow> 'a di \<Rightarrow> bool" where
  "tracks own m \<longleftrightarrow>
     (\<forall>s. held_by_tracked s \<longrightarrow>
        held_by_tracked (snd (m s)) \<and> grows own s (snd (m s)))"

lemma tracksD:
  "tracks own m \<Longrightarrow> held_by_tracked s \<Longrightarrow> m s = (r, s') \<Longrightarrow>
   held_by_tracked s' \<and> grows own s s'"
  by (force simp: tracks_def)

lemma tracks_bind:
  assumes "tracks own m" and "\<And>a. tracks own (f a)"
  shows "tracks own (eff_bind m f)"
  unfolding tracks_def
proof (intro allI impI)
  fix s
  assume s: "held_by_tracked s"
  obtain x s1 where m: "m s = (x, s1)"
    by fastforce
  note one = tracksD [OF assms(1) s m]
  show "held_by_tracked (snd (eff_bind m f s)) \<and>
        grows own s (snd (eff_bind m f s))"
  proof (cases x)
    case (Inl e)
    then show ?thesis
      using one m by (simp add: eff_bind_def)
  next
    case (Inr a)
    obtain y s2 where "f a s1 = (y, s2)"
      by fastforce
    then show ?thesis
      using one m Inr tracksD [OF assms(2) [of a], of s1 y s2] grows_trans [of own s s1 s2]
      by (auto simp: eff_bind_def)
  qed
qed

lemma tracks_same: "(\<And>s. snd (m s) = s) \<Longrightarrow> tracks own m"
  by (simp add: tracks_def)

lemma tracks_return [simp]: "tracks own (eff_return a)"
  and tracks_throw [simp]: "tracks own (eff_throw e)"
  and tracks_lift [simp]: "tracks own (eff_lift r)"
  and tracks_read [simp]: "tracks own (\<lambda>s. (Inr (f s), s))"
  by (auto intro!: tracks_same simp: eff_defs)

lemma held_flush: "held_by_tracked s \<Longrightarrow> held_by_tracked (flush_pending s)"
  by (auto simp: held_by_tracked_def)

lemma tracks_suspend [simp]: "tracks own suspend"
  by (simp add: tracks_def suspend_def eff_defs held_flush)

lemma tracks_await [simp]: "tracks own (await_slot sl)"
  by (cases sl) (auto simp: await_slot_def intro: tracks_bind)

lemma held_track: "held_by_tracked s \<Longrightarrow> held_by_tracked (ensure_tracked_request_scope c s)"
  using track_children [of s c]
  by (auto simp: held_by_tracked_def) (auto simp: ensure_tracked_request_scope_def)

lemma tracks_record_build [simp]: "tracks own (\<lambda>s. record_build p deps (r (cs_log s)) s)"
  by (auto simp: tracks_def record_build_def held_by_tracked_def split: sum.splits)

text \<open>Caching under a key whose container is the root or already tracked.\<close>

lemma with_cached_tracks:
  assumes "tracks own build" and "held_by_tracked s"
    and "key_container k = 0 \<or> key_container k \<in> set (cs_children s)"
  shows "held_by_tracked (snd (with_cached k build s)) \<and>
         grows own s (snd (with_cached k build s))"
proof (cases "read_slot k s")
  case (Some sl)
  obtain r s' where run: "await_slot sl s = (r, s')"
    by fastforce
  then show ?thesis
    using tracksD [OF tracks_await assms(2) run] Some by (simp add: with_cached_def)
next
  case None
  let ?s1 = "s\<lparr>cs_pending := k # cs_pending s\<rparr>"
  have "held_by_tracked ?s1"
    using assms(2,3) by (auto simp: held_by_tracked_def)
  moreover obtain x s2 where b: "build ?s1 = (x, s2)"
    by fastforce
  ultimately have two: "held_by_tracked s2" "grows own s s2"
    using tracksD [OF assms(1) _ b] by (auto simp: grows_def)
  show ?thesis
  proof (cases x)
    case (Inl e)
    then show ?thesis
      using None b two by (auto simp: with_cached_def held_by_tracked_def grows_def)
  next
    case (Inr v)
    then show ?thesis
      using None b held_flush [OF two(1)] two(2) assms(3)
      by (auto simp: with_cached_def held_by_tracked_def grows_def)
  qed
qed

lemma tracks_in_cache:
  assumes "rooted own lin" and "tracks own build"
  shows "tracks own (eff_bind (cache_for lin p) (\<lambda>k. with_cached k build))"
    and "tracks own (eff_bind (multi_cache_for lin p) (\<lambda>k. with_cached k build))"
proof -
  have root: "tracks own (with_cached k build)" if "key_container k = 0" for k
    using with_cached_tracks [OF assms(2)] that by (simp add: tracks_def)
  have scope: "tracks own (eff_bind (request_cache_for_write c k) (\<lambda>k. with_cached k build))"
    if "key_container k = ct_id c" "ct_request_scope c" "ct_ancestors c \<noteq> []" "ct_id c = own" for c k
    unfolding tracks_def
  proof (intro allI impI)
    fix s
    assume s: "held_by_tracked s"
    let ?s = "ensure_tracked_request_scope c s"
    have "key_container k \<in> set (cs_children ?s)"
      using that by (simp add: ensure_tracked_request_scope_def)
    then show "held_by_tracked (snd (eff_bind (request_cache_for_write c k) (\<lambda>k. with_cached k build) s)) \<and>
        grows own s
          (snd (eff_bind (request_cache_for_write c k) (\<lambda>k. with_cached k build) s))"
      using with_cached_tracks [OF assms(2) held_track [OF s]] grows_track [OF that(4), of s]
      by (auto simp: request_cache_for_write_def eff_defs intro: grows_trans)
  qed
  have own: "tracks own (eff_bind (request_cache_for_write (hd lin) k) (\<lambda>k. with_cached k build))"
    if "ct_request_scope (hd lin)" "key_container k = ct_id (hd lin)" for k
    using that assms(1) by (intro scope) (auto simp: rooted_def)
  have last: "ct_id (last lin) = 0"
    using assms(1) by (simp add: rooted_def)
  have throw: "eff_bind (eff_throw e) (\<lambda>k. with_cached k build) = eff_throw e" for e
    by (simp add: eff_defs)
  show "tracks own (eff_bind (cache_for lin p) (\<lambda>k. with_cached k build))"
    and "tracks own (eff_bind (multi_cache_for lin p) (\<lambda>k. with_cached k build))"
    using own last root by (auto simp: cache_for_def multi_cache_for_def Let_def throw)
qed

lemma tracks_track: "ct_id c = own \<Longrightarrow> tracks own (eff_update (ensure_tracked_request_scope c))"
  by (simp add: tracks_def eff_defs held_track grows_track)

lemma tracks_cache_for: "rooted own lin \<Longrightarrow> tracks own (cache_for lin p)"
  by (auto simp: cache_for_def request_cache_for_write_def Let_def rooted_def
      intro!: tracks_bind tracks_track)

lemma tracks_resolve_deps:
  "(\<And>f u. tracks own (res f u)) \<Longrightarrow> tracks own (resolve_provider_deps res lin es)"
  by (induction es)
    (auto intro!: tracks_bind simp: resolve_dep_token_def split: inject_entry.splits)

lemma tracks_instantiate:
  "(\<And>f u. tracks own (res f u)) \<Longrightarrow> tracks own (instantiate E M res lin p)"
  unfolding instantiate_def
  by (auto intro!: tracks_bind tracks_resolve_deps tracks_record_build split: strategy.splits)

lemma rooted_root: "rooted own lin \<Longrightarrow> rooted own [last lin]"
  by (simp add: rooted_def)

lemma tracks_resolve_scoped:
  "rooted own lin \<Longrightarrow> (\<And>r f u. tracks own (res r f u)) \<Longrightarrow> tracks own (resolve_scoped_instance E M res lin p)"
  unfolding resolve_scoped_instance_def Let_def
  by (intro tracks_in_cache tracks_instantiate) (auto simp: rooted_root)

lemma tracks_resolve_multi:
  assumes "rooted own lin" and "\<And>r f u. tracks own (res r f u)"
  shows "tracks own (resolve_multi_instance E M res lin p)"
proof -
  have "tracks own (eff_bind (multi_cache_for l p) (\<lambda>k. with_cached k (instantiate E M (res b) l p)))"
    if "l = lin \<or> l = [last lin]" for l b
    using that assms rooted_root by (intro tracks_in_cache tracks_instantiate) auto
  moreover have "tracks own (instantiate E M (res False) lin p)"
    using assms by (intro tracks_instantiate) auto
  ultimately show ?thesis
    using assms(2) by (auto simp: resolve_multi_instance_def Let_def split: strategy.splits)
qed

lemma tracks_resolve_multis:
  "rooted own lin \<Longrightarrow> (\<And>r f u. tracks own (res r f u)) \<Longrightarrow> tracks own (resolve_multi_instances E M res lin ps)"
  by (induction ps) (auto intro!: tracks_bind tracks_resolve_multi)

lemma tracks_resolve_single:
  assumes "rooted own lin" and "\<And>r f u. tracks own (res r f u)"
  shows "tracks own (resolve_single E M res lin p)"
proof -
  have "tracks own (get_cached_instance lin p)"
    using assms(1) rooted_root unfolding get_cached_instance_def
    by (auto intro!: tracks_bind tracks_cache_for)
  moreover have "tracks own (resolve_scoped_instance E M res lin p)"
    using assms by (rule tracks_resolve_scoped)
  moreover have "tracks own (instantiate E M (res False) lin p)"
    using assms by (intro tracks_instantiate) auto
  ultimately show ?thesis
    using assms(2)
    by (auto simp: resolve_single_def intro!: tracks_bind split: strategy.splits option.splits)
qed

lemma tracks_resolve_with_chain:
  assumes "rooted own lin"
  shows "tracks own (resolve_with_chain E M lin chain active fwd t)"
  using assms
proof (induction "card (lineage_tokens lin - active)" arbitrary: lin chain active fwd t
    rule: less_induct)
  case less
  note unfold = resolve_with_chain.simps [of E M lin chain active fwd t]
  let ?res = "\<lambda>root fwd' u s'. resolve_with_chain E M (if root then [last lin] else lin)
      (chain @ [t]) (insert t active) fwd' u s'"
  have "tracks own (?res root fwd' u)"
    if "t \<notin> active" "select_provider lin t \<noteq> Unregistered" for root fwd' u
    using less.hyps [OF card_select_less [OF that(2,1), of root], of "chain @ [t]" fwd' u]
      less.prems rooted_root by auto
  note multi = tracks_resolve_multis [OF less.prems this] and single = tracks_resolve_single [OF less.prems this]
  show ?case
  proof (cases "t \<in> active \<or> select_provider lin t = Unregistered")
    case True
    then show ?thesis
      by (auto simp: tracks_def unfold)
  next
    case False
    then have active: "t \<notin> active" and some: "select_provider lin t \<noteq> Unregistered"
      by auto
    show ?thesis
    proof (cases "select_provider lin t")
      case (MultiProviders ps)
      have "tracks own (eff_bind (resolve_multi_instances E M ?res lin ps) (\<lambda>vs. eff_return (JsArr vs)))"
        using active some by (intro tracks_bind multi) auto
      then show ?thesis
        using MultiProviders active unfold by (simp add: tracks_def)
    next
      case (SingleProvider p)
      have "tracks own (resolve_single E M ?res lin p)"
        using active some by (intro single) auto
      then show ?thesis
        using SingleProvider active unfold by (simp add: tracks_def)
    qed (use some in simp)
  qed
qed

lemma tracks_resolve: "rooted own lin \<Longrightarrow> tracks own (resolve E M lin t)"
  by (auto simp: resolve_def intro: tracks_resolve_with_chain)

section \<open>Reachable hierarchies\<close>

definition container_at_ok :: "nat \<Rightarrow> container list \<Rightarrow> bool" where
  "container_at_ok i cts \<longleftrightarrow>
     ct_id (cts ! i) = i \<and> container_wf (cts ! i) \<and>
     (\<forall>a \<in> set (ct_ancestors (cts ! i)). a < length cts) \<and>
     (if i = 0 then ct_ancestors (cts ! i) = [] else
        ct_ancestors (cts ! i) \<noteq> [] \<and> last (ct_ancestors (cts ! i)) = 0) \<and>
     (ct_request_scope (cts ! i) \<longleftrightarrow> i \<noteq> 0)"

definition user_errors :: "di_error list \<Rightarrow> bool" where
  "user_errors es \<longleftrightarrow> (\<forall>e \<in> set es. \<exists>n. e = UserError n)"

lemma user_errors_append [simp]: "user_errors (es @ fs) \<longleftrightarrow> user_errors es \<and> user_errors fs"
  by (auto simp: user_errors_def)

lemma user_errors_Nil [simp]: "user_errors []"
  by (simp add: user_errors_def)

definition world_ok :: "world \<Rightarrow> bool" where
  "world_ok w \<longleftrightarrow>
     wd_containers w \<noteq> [] \<and>
     (\<forall>i < length (wd_containers w). container_at_ok i (wd_containers w)) \<and>
     idle_caches (wd_caches w) \<and> held_by_tracked (wd_caches w) \<and>
     (\<forall>c. user_errors (wd_stale_errors w c)) \<and>
     (\<forall>c \<in> set (cs_children (wd_caches w)). c \<noteq> 0 \<and> c < length (wd_containers w)) \<and>
     (\<forall>c \<in> set (wd_disposed w).
        c < length (wd_containers w) \<and> ct_disposed (wd_containers w ! c) \<and>
        c \<notin> set (cs_children (wd_caches w)))"

text \<open>Any operation of the public class on any container of the hierarchy.\<close>

inductive di_step :: "di_env \<Rightarrow> class_meta \<Rightarrow> world \<Rightarrow> world \<Rightarrow> bool" for E M where
  step_register: "c < length (wd_containers w) \<Longrightarrow> di_step E M w (snd (container_register M c prs w))"
| step_override: "c < length (wd_containers w) \<Longrightarrow> di_step E M w (snd (container_override E M c prs w))"
| step_scope: "c < length (wd_containers w) \<Longrightarrow> di_step E M w (snd (create_request_scope c w))"
| step_resolve: "c < length (wd_containers w) \<Longrightarrow> di_step E M w (snd (container_resolve E M c t w))"
| step_dispose: "c < length (wd_containers w) \<Longrightarrow> di_step E M w (snd (container_dispose E c w))"

inductive di_reachable :: "di_env \<Rightarrow> class_meta \<Rightarrow> world \<Rightarrow> bool" for E M where
  reach_new: "di_reachable E M new_world"
| reach_step: "di_reachable E M w \<Longrightarrow> di_step E M w w' \<Longrightarrow> di_reachable E M w'"

inductive_cases di_stepE: "di_step E M w w'"

lemma lineage_at_simps:
  "hd (lineage_at w c) = wd_containers w ! c"
  "tl (lineage_at w c) = map ((!) (wd_containers w)) (ct_ancestors (wd_containers w ! c))"
  "lineage_at w c \<noteq> []"
  by (simp_all add: lineage_at_def)

lemma lineage_at_ok:
  assumes "world_ok w" and "c < length (wd_containers w)"
  shows "lineage_wf (lineage_at w c)" and "rooted c (lineage_at w c)"
    and "ct_id (hd (lineage_at w c)) = c"
proof -
  have ok: "container_at_ok i (wd_containers w)" if "i < length (wd_containers w)" for i
    using assms(1) that by (simp add: world_ok_def)
  have c: "container_at_ok c (wd_containers w)" and root: "container_at_ok 0 (wd_containers w)"
    using ok assms by (auto simp: world_ok_def)
  have last: "last (lineage_at w c) = wd_containers w ! 0"
    using c by (auto simp: lineage_at_def container_at_ok_def last_map split: if_splits)
  have "container_wf x" if "x \<in> set (lineage_at w c)" for x
  proof -
    from that obtain a where "a = c \<or> a \<in> set (ct_ancestors (wd_containers w ! c))"
        "x = wd_containers w ! a"
      by (auto simp: lineage_at_def)
    then show ?thesis
      using c ok [of a] assms(2) by (auto simp: container_at_ok_def)
  qed
  then show "lineage_wf (lineage_at w c)"
    using last root by (simp add: lineage_wf_def lineage_at_simps container_at_ok_def)
  show "rooted c (lineage_at w c)"
    using last root c by (auto simp: rooted_def lineage_at_simps container_at_ok_def)
  show "ct_id (hd (lineage_at w c)) = c"
    using c by (simp add: lineage_at_simps container_at_ok_def)
qed

text \<open>What an operation may change of one container.\<close>

definition same_place :: "container \<Rightarrow> container \<Rightarrow> bool" where
  "same_place c d \<longleftrightarrow>
     ct_id d = ct_id c \<and> ct_ancestors d = ct_ancestors c \<and>
     ct_request_scope d = ct_request_scope c \<and> (ct_disposed c \<longrightarrow> ct_disposed d)"

lemma put_container_ok:
  assumes "world_ok w" and "same_place (wd_containers w ! c) ct" and "container_wf ct"
  shows "world_ok (put_container c ct w)"
proof -
  have "container_at_ok i ((wd_containers w)[c := ct])" if "i < length (wd_containers w)" for i
  proof -
    have "container_at_ok i (wd_containers w)"
      using assms(1) that by (simp add: world_ok_def)
    then show ?thesis
      using assms(2,3) that by (cases "i = c") (auto simp: container_at_ok_def same_place_def)
  qed
  moreover have "ct_disposed ((wd_containers w)[c := ct] ! d)" if "d \<in> set (wd_disposed w)" for d
    using assms(1,2) that by (cases "d = c") (auto simp: world_ok_def same_place_def)
  ultimately show ?thesis
    using assms(1) by (simp add: world_ok_def put_container_def)
qed

lemma world_ok_update [simp]: "world_ok (w\<lparr>wd_next_pid := x\<rparr>) = world_ok w"
  by (simp add: world_ok_def)

lemma world_ok_stale:
  "world_ok w \<Longrightarrow> user_errors es \<Longrightarrow> world_ok (w\<lparr>wd_stale_errors := (wd_stale_errors w)(c := es)\<rparr>)"
  by (simp add: world_ok_def)

subsection \<open>Registering\<close>

lemma register_one_ok:
  assumes "register_one M lin pid pr = Inr c" and "container_wf (hd lin)" and "lin \<noteq> []"
  shows "container_wf c \<and> same_place (hd lin) c"
proof -
  obtain x xs where lin: "lin = x # xs"
    using assms(3) by (cases lin) auto
  obtain p where p: "normalize_provider M pid pr = Inr p"
      "assert_no_registration_conflict lin (np_provide p) (np_multi p = Some True) = Inr ()"
      "c = advance_graph_revision (store_registration p (hd lin))"
    using assms(1) by (auto simp: register_one_def split: sum.splits if_splits)
  then show ?thesis
    using store_registration_wf [of x p xs] normalize_provider_ok [OF p(1)] assms(2) lin
    by (auto simp: same_place_def store_registration_def split: option.splits)
qed

lemma register_loop_ok:
  assumes "register_loop M lin pid prs = (e, pid', c)" and "container_wf (hd lin)" and "lin \<noteq> []"
  shows "container_wf c \<and> same_place (hd lin) c"
  using assms
proof (induction M lin pid prs rule: register_loop.induct)
  case (1 M lin pid)
  then show ?case
    by (simp add: same_place_def)
next
  case (2 M lin pid pr prs)
  show ?case
  proof (cases "register_one M lin pid pr")
    case (Inl e)
    then show ?thesis
      using 2(2,3) by (auto simp: same_place_def)
  next
    case (Inr d)
    then have "container_wf d" "same_place (hd lin) d"
      using register_one_ok 2(3,4) by blast+
    then show ?thesis
      using 2(1) [OF Inr] 2(2) Inr by (auto simp: same_place_def)
  qed
qed

lemma register_ok:
  assumes "world_ok w" and "c < length (wd_containers w)"
  shows "world_ok (snd (container_register M c prs w))"
proof -
  obtain e pid ct where run: "register M (lineage_at w c) (wd_next_pid w) prs = (e, pid, ct)"
    using prod_cases3 by blast
  have "container_wf (wd_containers w ! c)"
    using assms by (auto simp: world_ok_def container_at_ok_def)
  then have "container_wf ct \<and> same_place (wd_containers w ! c) ct"
    using run register_loop_ok [of M "lineage_at w c" "wd_next_pid w" prs e pid ct]
    by (auto simp: register_def lineage_at_simps same_place_def split: if_splits)
  then show ?thesis
    using assms(1) run put_container_ok [of "w\<lparr>wd_next_pid := pid\<rparr>" c ct]
    by (simp add: container_register_def)
qed

subsection \<open>Request scopes\<close>

lemma scope_ok:
  assumes "world_ok w" and "c < length (wd_containers w)"
  shows "world_ok (snd (create_request_scope c w))"
proof (cases "is_disposed_in_hierarchy (lineage_at w c)")
  case True
  then show ?thesis
    using assms by (simp add: create_request_scope_def)
next
  case False
  let ?n = "length (wd_containers w)"
  let ?child = "new_container ?n (c # ct_ancestors (wd_containers w ! c)) True"
  have ok: "container_at_ok i (wd_containers w)" if "i < ?n" for i
    using assms(1) that by (simp add: world_ok_def)
  have "container_at_ok i (wd_containers w @ [?child])" if "i < Suc ?n" for i
  proof (cases "i = ?n")
    case True
    let ?anc = "ct_ancestors (wd_containers w ! c)"
    have child: "ct_id ?child = ?n" "ct_ancestors ?child = c # ?anc" "ct_request_scope ?child"
        "container_wf ?child"
      by (simp_all add: new_container_def container_wf_new [unfolded new_container_def])
    have "?n \<noteq> 0" and "\<forall>a \<in> set ?anc. a < ?n" and "last (c # ?anc) = 0"
      using assms ok [OF assms(2)] by (auto simp: container_at_ok_def split: if_splits)
    then show ?thesis
      using True child assms(2) by (simp add: container_at_ok_def less_SucI)
  next
    case False
    then show ?thesis
      using ok [of i] that by (auto simp: container_at_ok_def nth_append less_SucI)
  qed
  then show ?thesis
    using False assms(1)
    by (auto simp: create_request_scope_def world_ok_def Let_def less_SucI nth_append)
qed

subsection \<open>Resolving\<close>

lemma resolve_ok:
  assumes "world_ok w" and "c < length (wd_containers w)"
  shows "world_ok (snd (container_resolve E M c t w))"
proof (cases "is_disposed_in_hierarchy (lineage_at w c)")
  case True
  then show ?thesis
    using assms by (simp add: container_resolve_def resolve_def eff_defs)
next
  case False
  obtain r s where run: "resolve E M (lineage_at w c) t (wd_caches w) = (r, s)"
    by fastforce
  have idle: "idle_caches (wd_caches w)" and held: "held_by_tracked (wd_caches w)"
    using assms(1) by (simp_all add: world_ok_def)
  note lin = lineage_at_ok [OF assms]
  have "idle_caches s" and "held_by_tracked s" and grown: "grows c (wd_caches w) s"
    using resolve_keeps_caches(3) [OF lin(1) idle run] tracksD [OF tracks_resolve [OF lin(2)] held run]
    by blast+
  moreover have "\<not> ct_disposed (wd_containers w ! c)"
    using False by (simp add: is_disposed_in_hierarchy_def lineage_at_def)
  moreover have "c = 0 \<Longrightarrow> set (cs_children s) \<subseteq> set (cs_children (wd_caches w))"
  proof -
    assume "c = 0"
    then have "rooted d (lineage_at w c)" for d
      using lin(2) assms by (auto simp: rooted_def lineage_at_simps world_ok_def container_at_ok_def)
    then have "grows d (wd_caches w) s" for d
      using tracksD [OF tracks_resolve held run] by blast
    then have "set (cs_children s) \<subseteq> insert d (set (cs_children (wd_caches w)))" for d
      by (simp add: grows_def)
    from this [of 0] this [of 1] show ?thesis
      by auto
  qed
  ultimately show ?thesis
    using run assms grown
    by (cases "c = 0") (auto simp: container_resolve_def world_ok_def grows_def)
qed

subsection \<open>Overriding\<close>

text \<open>Steps that only take settled entries out of the caches and write events.\<close>

definition shrinks :: "cache_state \<Rightarrow> cache_state \<Rightarrow> bool" where
  "shrinks s s' \<longleftrightarrow>
     (\<forall>k. read_slot k s' = None \<or> read_slot k s' = read_slot k s) \<and>
     cs_pending s' = cs_pending s \<and> set (cs_children s') \<subseteq> set (cs_children s) \<and>
     (distinct (cs_children s) \<longrightarrow> distinct (cs_children s')) \<and>
     (\<forall>k. read_slot k s' \<noteq> None \<longrightarrow>
          key_container k \<in> set (cs_children s) \<longrightarrow> key_container k \<in> set (cs_children s'))"

lemma shrinks_idle: "shrinks s s' \<Longrightarrow> idle_caches s \<Longrightarrow> idle_caches s'"
  by (auto simp: shrinks_def idle_caches_def in_progress_def) (metis option.distinct(1))+

lemma shrinks_held:
  assumes "shrinks s s'" and "idle_caches s" and "held_by_tracked s"
  shows "held_by_tracked s'"
proof -
  have "key_container k = 0 \<or> key_container k \<in> set (cs_children s')"
    if "read_slot k s' \<noteq> None \<or> k \<in> set (cs_pending s')" for k
  proof -
    have "k \<notin> set (cs_pending s')" and now: "read_slot k s' \<noteq> None"
      using that assms(1,2) by (auto simp: shrinks_def idle_caches_def in_progress_def)
    then have "read_slot k s \<noteq> None"
      using assms(1) by (metis shrinks_def)
    then show ?thesis
      using now assms(1,3) unfolding shrinks_def held_by_tracked_def by blast
  qed
  then show ?thesis
    using assms(1,3) unfolding shrinks_def held_by_tracked_def by blast
qed

lemma shrinks_world_ok:
  "world_ok w \<Longrightarrow> shrinks (wd_caches w) s \<Longrightarrow> world_ok (w\<lparr>wd_caches := s\<rparr>)"
  using shrinks_idle shrinks_held by (auto simp: world_ok_def shrinks_def)

lemma map_of_filter_key:
  "map_of (filter (\<lambda>(k, _). P k) m) k = (if P k then map_of m k else None)"
  by (induction m) auto

lemma read_drop_stale:
  "read_slot k (drop_stale_entries lin t s) =
     (case k of
        SingleKey c u \<Rightarrow>
          if c = ct_id (hd lin) \<and> should_invalidate_token lin u t then None else read_slot k s
      | MultiKey c p \<Rightarrow>
          if c = ct_id (hd lin) \<and> should_invalidate_provider lin p t then None else read_slot k s)"
  by (cases k)
    (auto simp: drop_stale_entries_def Let_def
      map_of_filter_key [where P = "\<lambda>k. \<not> should_invalidate_token lin k t"]
      map_of_filter_key [where P = "\<lambda>k. \<not> should_invalidate_provider lin k t"])

lemma shrinks_drop_stale: "shrinks s (drop_stale_entries lin t s)"
  unfolding shrinks_def
  by (auto simp: read_drop_stale split: cache_key.splits)
    (auto simp: drop_stale_entries_def Let_def)

lemma shrinks_log: "shrinks s (s\<lparr>cs_log := es\<rparr>)"
  by (simp add: shrinks_def)

lemma shrinks_destroy: "shrinks s (snd (destroy_instance E i s))"
  by (auto simp: destroy_instance_def shrinks_log split: option.splits)

lemma invalidate_container_ok:
  "world_ok (fst wt) \<Longrightarrow> world_ok (fst (invalidate_container c t wt))"
  by (auto simp: invalidate_container_def shrinks_world_ok shrinks_drop_stale split: prod.splits)

lemma invalidate_containers_same:
  "wd_containers (fst (fold (\<lambda>d. invalidate_container d t) ds wt)) = wd_containers (fst wt)"
  by (induction ds arbitrary: wt) (auto simp: invalidate_container_def split: prod.splits)

lemma invalidate_in_hierarchy_ok:
  assumes "world_ok (fst wt)"
  shows "world_ok (fst (invalidate_in_hierarchy c t wt))"
proof -
  have "world_ok (fst (fold (\<lambda>d. invalidate_container d t) ds wt))" if "world_ok (fst wt)" for ds wt
    using that
  proof (induction ds arbitrary: wt)
    case (Cons d ds)
    then show ?case
      using invalidate_container_ok [OF Cons.prems, of d t] by simp
  qed simp
  then show ?thesis
    using assms by (simp add: invalidate_in_hierarchy_def del: fold.simps)
qed

lemma run_stale_tasks_ok: "world_ok w \<Longrightarrow> world_ok (run_stale_tasks E tasks w)"
proof (induction E tasks w rule: run_stale_tasks.induct)
  case (2 E c i tasks w)
  obtain es s where d: "destroy_instance E i (wd_caches w) = (es, s)"
    by fastforce
  let ?w = "w\<lparr>wd_caches := s\<rparr>"
  have "world_ok ?w"
    using shrinks_destroy [of "wd_caches w" E i] d 2(2) shrinks_world_ok by simp
  moreover have "user_errors es"
    using d by (auto simp: destroy_instance_def user_errors_def split: option.splits)
  ultimately have "world_ok (?w\<lparr>wd_stale_errors := (wd_stale_errors ?w)(c := wd_stale_errors ?w c @ es)\<rparr>)"
    using 2(2) by (intro world_ok_stale) (auto simp: world_ok_def)
  then show ?case
    using 2(1) [OF d [symmetric]] d by simp
qed auto

lemma group_providers_ok:
  assumes "group_providers M pid prs m = Inr (pid', m')"
    and "\<forall>(t, ps) \<in> set m. ps \<noteq> [] \<and> (\<forall>p \<in> set ps. np_provide p = t \<and> nprov_ok p)"
  shows "\<forall>(t, ps) \<in> set m'. ps \<noteq> [] \<and> (\<forall>p \<in> set ps. np_provide p = t \<and> nprov_ok p)"
  using assms
proof (induction M pid prs m rule: group_providers.induct)
  case (2 M pid pr prs m)
  then obtain p where p: "normalize_provider M pid pr = Inr p"
    by (auto split: sum.splits)
  have upd: "\<forall>(t, ps) \<in> set (js_set (np_provide p) qs m).
               ps \<noteq> [] \<and> (\<forall>p \<in> set ps. np_provide p = t \<and> nprov_ok p)"
    if "qs \<noteq> []" "\<forall>q \<in> set qs. np_provide q = np_provide p \<and> nprov_ok q" for qs
    using that 2(4) js_set_subset [of "np_provide p" qs m] by fastforce
  show ?case
  proof (cases "js_get m (np_provide p)")
    case None
    then show ?thesis
      using 2(1) [OF p None] 2(3) p None upd [of "[p]"] normalize_provider_ok [OF p] by simp
  next
    case (Some ps)
    then have "(np_provide p, ps) \<in> set m"
      by (rule map_of_SomeD)
    then have qs: "ps @ [p] \<noteq> []" "\<forall>q \<in> set (ps @ [p]). np_provide q = np_provide p \<and> nprov_ok q"
      using 2(4) normalize_provider_ok [OF p] by auto
    then show ?thesis
      using 2(2) [OF p Some _ upd [OF qs]] 2(3) p Some by simp
  qed
qed auto

lemma override_groups_ok:
  assumes "world_ok (fst wt)" and "c < length (wd_containers (fst wt))"
    and "\<forall>(t, ps) \<in> set gs. ps \<noteq> [] \<and> (\<forall>p \<in> set ps. np_provide p = t \<and> nprov_ok p)"
    and "override_groups c gs wt = (e, w', tasks)"
  shows "world_ok w'"
  using assms
proof (induction c gs wt rule: override_groups.induct)
  case (2 c t ps gs wt)
  have ps: "ps \<noteq> []" "\<forall>p \<in> set ps. np_provide p = t \<and> nprov_ok p"
    using 2(5) by auto
  show ?case
  proof (cases "check_override_group t ps")
    case (Inl x)
    then show ?thesis
      using 2(3,6) ps by simp
  next
    case (Inr u)
    then have u: "check_override_group t ps = Inr ()"
      by simp
    obtain w1 tasks1 where inv: "invalidate_in_hierarchy c t wt = (w1, tasks1)"
      by fastforce
    have w1: "world_ok w1" "wd_containers w1 = wd_containers (fst wt)"
      using invalidate_in_hierarchy_ok [OF 2(3), of c t] inv
        invalidate_containers_same [of t _ wt]
      by (auto simp: invalidate_in_hierarchy_def simp del: fold.simps) (metis fst_conv)
    have "container_wf (wd_containers w1 ! c)"
      using w1 2(4) by (auto simp: world_ok_def container_at_ok_def)
    then have "container_wf (replace_registration t ps (wd_containers w1 ! c))"
      using replace_registration_wf [OF _ u ps] by blast
    moreover have "same_place (wd_containers w1 ! c) (replace_registration t ps (wd_containers w1 ! c))"
      by (simp add: same_place_def replace_registration_def Let_def)
    ultimately have "world_ok (put_container c (replace_registration t ps (wd_containers w1 ! c)) w1)"
      using put_container_ok w1(1) by blast
    then show ?thesis
      using 2(2) [OF ps(1) u inv [symmetric]] 2(4,5,6) inv w1(2) u ps(1)
      by (simp add: put_container_def)
  qed
qed auto

lemma override_ok:
  assumes "world_ok w" and "c < length (wd_containers w)"
  shows "world_ok (snd (container_override E M c prs w))"
proof (cases "group_providers M (wd_next_pid w) prs []")
  case (Inl e)
  then show ?thesis
    using assms(1) by (simp add: container_override_def)
next
  case (Inr x)
  then obtain pid gs where gs: "group_providers M (wd_next_pid w) prs [] = Inr (pid, gs)"
    by (cases x) auto
  obtain e w' tasks where run: "override_groups c gs (w\<lparr>wd_next_pid := pid\<rparr>, []) = (e, w', tasks)"
    using prod_cases3 by blast
  have "world_ok w'"
    using override_groups_ok [OF _ _ _ run] group_providers_ok [OF gs] assms by simp
  then show ?thesis
    using assms(1) gs run run_stale_tasks_ok by (simp add: container_override_def)
qed

subsection \<open>Disposal\<close>

fun destroyed_object :: "di_event \<Rightarrow> nat option" where
  "destroyed_object (Destroyed i) = Some i"
| "destroyed_object (DestroyFailed i e) = Some i"
| "destroyed_object _ = None"

fun failure_of :: "di_event \<Rightarrow> di_error list" where
  "failure_of (DestroyFailed i e) = [UserError e]"
| "failure_of _ = []"

lemma destroy_each_log:
  assumes "destroy_each E is s = (errors, s')"
  shows "\<exists>events. s' = s\<lparr>cs_log := cs_log s @ events\<rparr> \<and>
                  map destroyed_object events = map Some is \<and>
                  errors = concat (map failure_of events)"
  using assms
proof (induction "is" arbitrary: s errors s')
  case (Cons i "is")
  obtain es s1 fs where one: "destroy_instance E i s = (es, s1)" "destroy_each E is s1 = (fs, s')"
      "errors = es @ fs"
    using Cons.prems by (auto split: prod.splits)
  obtain ev where ev: "s1 = s\<lparr>cs_log := cs_log s @ [ev]\<rparr>" "destroyed_object ev = Some i"
      "es = failure_of ev"
    using one(1) by (fastforce simp: destroy_instance_def split: option.splits)
  obtain evs where "s' = s1\<lparr>cs_log := cs_log s1 @ evs\<rparr>" "map destroyed_object evs = map Some is"
      "fs = concat (map failure_of evs)"
    using Cons.IH [OF one(2)] by blast
  then show ?case
    using ev one(3) by (intro exI [of _ "ev # evs"]) simp
qed simp

lemma collect_disposable_spec:
  "distinct (collect_disposable_instances sls seen) \<and>
   set (collect_disposable_instances sls seen) = {i. Settled (JsObj i True) \<in> set sls} - set seen"
proof (induction sls arbitrary: seen)
  case (Cons sl sls)
  show ?case
  proof (cases "\<exists>i. sl = Settled (JsObj i True)")
    case True
    then obtain i where "sl = Settled (JsObj i True)"
      by blast
    then show ?thesis
      using Cons [of seen] Cons [of "i # seen"] by (cases "i \<in> set seen") auto
  next
    case False
    then have "collect_disposable_instances (sl # sls) seen = collect_disposable_instances sls seen"
      by (auto split: slot.splits js_value.splits bool.splits)
    then show ?thesis
      using Cons False by auto
  qed
qed simp

lemma read_clear_caches:
  "read_slot k (clear_disposal_caches c s) = (if key_container k = c then None else read_slot k s)"
  by (cases k) (auto simp: clear_disposal_caches_def)

lemma clear_caches_fields [simp]:
  "cs_log (clear_disposal_caches c s) = cs_log s"
  "cs_children (clear_disposal_caches c s) = cs_children s"
  "cs_pending (clear_disposal_caches c s) = cs_pending s"
  by (simp_all add: clear_disposal_caches_def)

text \<open>One cache: every disposable instance once, in reverse, whatever fails.\<close>

lemma dispose_cache_spec:
  assumes "dispose_cache E c w = (e, w')"
  shows "\<exists>events.
           wd_caches w' = clear_disposal_caches c
             ((wd_caches w)\<lparr>cs_log := cs_log (wd_caches w) @ events\<rparr>) \<and>
           map destroyed_object events =
             map Some (rev (collect_disposable_instances (disposal_cache_entries c (wd_caches w)) [])) \<and>
           e = throw_disposal_errors (wd_stale_errors w c @ concat (map failure_of events)) \<and>
           wd_containers w' = wd_containers w \<and> wd_disposed w' = wd_disposed w \<and>
           wd_stale_errors w' = (wd_stale_errors w)(c := [])"
proof -
  let ?is = "rev (collect_disposable_instances (disposal_cache_entries c (wd_caches w)) [])"
  obtain errors s where each: "destroy_each E ?is (wd_caches w) = (errors, s)"
    by fastforce
  then have w': "e = throw_disposal_errors (wd_stale_errors w c @ errors)"
      "w' = w\<lparr>wd_caches := clear_disposal_caches c s,
             wd_stale_errors := (wd_stale_errors w)(c := [])\<rparr>"
    using assms by (auto simp: dispose_cache_def dispose_instances_in_reverse_order_def Let_def)
  then show ?thesis
    using destroy_each_log [OF each] by auto
qed

text \<open>What a cache of a container holds that has an \<open>onDestroy\<close>.\<close>

definition cached_disposables :: "world \<Rightarrow> nat \<Rightarrow> nat list" where
  "cached_disposables w c =
     collect_disposable_instances (disposal_cache_entries c (wd_caches w)) []"

lemma throw_none [simp]: "throw_disposal_errors es = None \<longleftrightarrow> es = []"
  by (cases es rule: remdups_adj.cases) (auto simp: throw_disposal_errors_def)

lemma mark_disposed_simps [simp]:
  "wd_caches (mark_disposed c w) = wd_caches w"
  "wd_stale_errors (mark_disposed c w) = wd_stale_errors w"
  "wd_disposed (mark_disposed c w) = wd_disposed w"
  by (simp_all add: mark_disposed_def put_container_def)

lemma untrack_simps [simp]:
  "cs_log (wd_caches (untrack_scope c w)) = cs_log (wd_caches w)"
  "cs_children (wd_caches (untrack_scope c w)) = removeAll c (cs_children (wd_caches w))"
  "cs_pending (wd_caches (untrack_scope c w)) = cs_pending (wd_caches w)"
  "read_slot k (wd_caches (untrack_scope c w)) = read_slot k (wd_caches w)"
  "wd_containers (untrack_scope c w) = wd_containers w"
  "wd_stale_errors (untrack_scope c w) = wd_stale_errors w"
  "wd_disposed (untrack_scope c w) = wd_disposed w"
  by (simp_all add: untrack_scope_def)

lemma throw_user_errors:
  assumes "user_errors es"
  shows "collect_optional (throw_disposal_errors es) acc = acc @ es"
proof (cases es)
  case (Cons e fs)
  show ?thesis
  proof (cases fs)
    case Nil
    then show ?thesis
      using Cons assms
      by (auto simp: user_errors_def throw_disposal_errors_def collect_optional_def
          collect_disposal_error_def)
  next
    case (Cons f gs)
    then show ?thesis
      using \<open>es = e # fs\<close>
      by (simp add: throw_disposal_errors_def collect_optional_def collect_disposal_error_def)
  qed
qed (simp add: throw_disposal_errors_def collect_optional_def)

lemma user_errors_failures: "user_errors (concat (map failure_of events))"
proof -
  have "user_errors (failure_of e)" for e
    by (cases e) (auto simp: user_errors_def)
  then show ?thesis
    by (auto simp: user_errors_def)
qed

lemma mark_disposed_containers:
  "wd_containers (mark_disposed c w) =
   (wd_containers w)[c := advance_graph_revision ((wd_containers w ! c)\<lparr>ct_disposed := True\<rparr>)]"
  by (simp add: mark_disposed_def put_container_def)

lemma dispose_scope_spec:
  assumes "world_ok w" and "c \<notin> set (wd_disposed w)" and "dispose_scope E c w = (e, w')"
  shows "\<exists>events.
           map destroyed_object events = map Some (rev (cached_disposables w c)) \<and>
           e = throw_disposal_errors (wd_stale_errors w c @ concat (map failure_of events)) \<and>
           wd_caches w' = (clear_disposal_caches c (wd_caches w))
             \<lparr>cs_children := removeAll c (cs_children (wd_caches w)),
              cs_log := cs_log (wd_caches w) @ events\<rparr> \<and>
           wd_stale_errors w' = (wd_stale_errors w)(c := []) \<and>
           wd_disposed w' = (if e = None then c # wd_disposed w else wd_disposed w) \<and>
           wd_containers w' = wd_containers (mark_disposed c w)"
proof -
  obtain e1 w1 where run: "dispose_cache E c (mark_disposed c w) = (e1, w1)"
    by fastforce
  obtain events where ev:
      "wd_caches w1 = clear_disposal_caches c
         ((wd_caches w)\<lparr>cs_log := cs_log (wd_caches w) @ events\<rparr>)"
      "map destroyed_object events = map Some (rev (cached_disposables w c))"
      "e1 = throw_disposal_errors (wd_stale_errors w c @ concat (map failure_of events))"
      "wd_containers w1 = wd_containers (mark_disposed c w)" "wd_disposed w1 = wd_disposed w"
      "wd_stale_errors w1 = (wd_stale_errors w)(c := [])"
    using dispose_cache_spec [OF run] by (auto simp: cached_disposables_def)
  have "user_errors (wd_stale_errors w c @ concat (map failure_of events))"
    using assms(1) user_errors_failures by (simp add: world_ok_def)
  then have e: "throw_disposal_errors (collect_optional e1 []) = e1"
    using throw_user_errors [of _ "[]"] ev(3) by simp
  have "(e, w') = (e1, if e1 = None then (untrack_scope c w1)\<lparr>wd_disposed := c # wd_disposed w1\<rparr>
      else untrack_scope c w1)"
    using assms(2,3) run e by (auto simp: dispose_scope_def Let_def simp del: throw_none)
  moreover have "wd_caches (untrack_scope c w1) = (clear_disposal_caches c (wd_caches w))
      \<lparr>cs_children := removeAll c (cs_children (wd_caches w)), cs_log := cs_log (wd_caches w) @ events\<rparr>"
    using ev(1) by (simp add: untrack_scope_def clear_disposal_caches_def)
  ultimately show ?thesis
    using ev by (intro exI [of _ events]) simp
qed

lemma mark_disposed_ok: "world_ok w \<Longrightarrow> c < length (wd_containers w) \<Longrightarrow> world_ok (mark_disposed c w)"
  unfolding mark_disposed_def
  by (intro put_container_ok) (auto simp: same_place_def world_ok_def container_at_ok_def container_wf_def)

lemma mark_disposed_grows:
  "length (wd_containers (mark_disposed c w)) = length (wd_containers w)"
  "ct_disposed (wd_containers w ! d) \<Longrightarrow> d < length (wd_containers w) \<Longrightarrow>
   ct_disposed (wd_containers (mark_disposed c w) ! d)"
  by (cases "c = d"; simp add: mark_disposed_containers)+

lemma shrinks_clear:
  "shrinks s ((clear_disposal_caches c s)\<lparr>cs_children := removeAll c (cs_children s), cs_log := es\<rparr>)"
  "cs_children s = [] \<Longrightarrow> shrinks s ((clear_disposal_caches c s)\<lparr>cs_log := es\<rparr>)"
  by (auto simp: shrinks_def read_clear_caches distinct_removeAll)

lemma dispose_scope_ok:
  assumes "world_ok w" and "c < length (wd_containers w)" and "dispose_scope E c w = (e, w')"
  shows "world_ok w'" and "length (wd_containers w') = length (wd_containers w)"
    and "\<And>d. d < length (wd_containers w) \<Longrightarrow> ct_disposed (wd_containers w ! d) \<Longrightarrow>
              ct_disposed (wd_containers w' ! d)"
proof -
  have "world_ok w' \<and> length (wd_containers w') = length (wd_containers w) \<and>
      (\<forall>d < length (wd_containers w). ct_disposed (wd_containers w ! d) \<longrightarrow>
           ct_disposed (wd_containers w' ! d))"
  proof (cases "c \<in> set (wd_disposed w)")
    case True
    then show ?thesis
      using assms by (simp add: dispose_scope_def)
  next
    case False
    then obtain events where spec:
        "wd_caches w' = (clear_disposal_caches c (wd_caches w))
             \<lparr>cs_children := removeAll c (cs_children (wd_caches w)),
              cs_log := cs_log (wd_caches w) @ events\<rparr>"
        "wd_stale_errors w' = (wd_stale_errors w)(c := [])"
        "wd_disposed w' = (if e = None then c # wd_disposed w else wd_disposed w)"
        "wd_containers w' = wd_containers (mark_disposed c w)"
      using dispose_scope_spec [OF assms(1) _ assms(3)] by blast
    have w1: "world_ok (mark_disposed c w)"
      using mark_disposed_ok assms by blast
    then have "world_ok ((mark_disposed c w)\<lparr>wd_caches := wd_caches w'\<rparr>)"
      using shrinks_world_ok [OF w1, of "wd_caches w'"] shrinks_clear(1) spec(1) by simp
    moreover have "ct_disposed (wd_containers (mark_disposed c w) ! c)"
      using assms(2) by (simp add: mark_disposed_containers)
    ultimately have "world_ok w'"
      using spec assms(2) mark_disposed_grows(1) [of c w] by (auto simp: world_ok_def)
    then show ?thesis
      using spec(4) mark_disposed_grows by simp
  qed
  then show "world_ok w'" and "length (wd_containers w') = length (wd_containers w)"
    and "\<And>d. d < length (wd_containers w) \<Longrightarrow> ct_disposed (wd_containers w ! d) \<Longrightarrow>
              ct_disposed (wd_containers w' ! d)"
    by blast+
qed

text \<open>The steps of several scopes interleave: each keeps the order of its own.\<close>

primrec interleavings :: "'a list list \<Rightarrow> 'a list set" where
  "interleavings [] = {[]}"
| "interleavings (xs # xss) = (\<Union>zs \<in> interleavings xss. shuffles xs zs)"

lemma set_interleavings: "zs \<in> interleavings xss \<Longrightarrow> set zs = \<Union> (set ` set xss)"
  by (induction xss arbitrary: zs) (auto simp: set_shuffles)

lemma interleavings_filter: "interleavings (map f (filter (\<lambda>x. f x \<noteq> []) xs)) = interleavings (map f xs)"
  by (induction xs) auto

lemma interleavings_nil: "\<forall>xs \<in> set xss. xs = [] \<Longrightarrow> interleavings xss = {[]}"
  by (induction xss) auto

lemma interleavings_step:
  "j < length xss \<Longrightarrow> xss ! j = x # xs \<Longrightarrow> zs \<in> interleavings (xss[j := xs]) \<Longrightarrow> x # zs \<in> interleavings xss"
proof (induction xss arbitrary: j zs)
  case (Cons ys yss)
  show ?case
  proof (cases j)
    case 0
    then show ?thesis
      using Cons.prems by (auto intro: Cons_in_shuffles_leftI)
  next
    case (Suc i)
    then obtain us where "us \<in> interleavings (yss[i := xs])" "zs \<in> shuffles ys us"
      using Cons.prems(3) by auto
    then show ?thesis
      using Cons.IH [of i us] Cons.prems(1,2) Suc by (auto intro!: bexI [of _ "x # us"] Cons_in_shuffles_rightI)
  qed
qed simp

lemma side_by_side_spec:
  assumes "destroy_side_by_side E queues s = (fails, s')"
  shows "\<exists>events. s' = s\<lparr>cs_log := cs_log s @ events\<rparr> \<and>
           map destroyed_object events \<in> interleavings (map (\<lambda>q. map Some (snd q)) queues) \<and>
           concat (map snd fails) = concat (map failure_of events) \<and> fst ` set fails \<subseteq> fst ` set queues"
  using assms
proof (induction E queues s arbitrary: fails s' rule: destroy_side_by_side.induct)
  case (1 E queues s)
  define qs where "qs = filter (\<lambda>q. snd q \<noteq> []) queues"
  define j where "j = next_scope E (cs_log s) (length qs) mod length qs"
  have same: "interleavings (map (\<lambda>q. map Some (snd q)) qs) = interleavings (map (\<lambda>q. map Some (snd q)) queues)"
    using interleavings_filter [of "\<lambda>q. map Some (snd q)" queues] by (simp add: qs_def)
  show ?case
  proof (cases "qs = []")
    case True
    then have "fails = []" "s' = s"
      using 1(2) by (simp_all add: destroy_side_by_side.simps [of E queues] Let_def qs_def [symmetric])
    moreover have "[] \<in> interleavings (map (\<lambda>q. map Some (snd q)) queues)"
      unfolding same [symmetric] True by simp
    ultimately show ?thesis
      by (intro exI [of _ "[]"]) simp
  next
    case False
    then have j: "j < length qs"
      by (simp add: j_def)
    obtain c "is" where q: "qs ! j = (c, is)"
      by fastforce
    have mem: "(c, is) \<in> set qs"
      using nth_mem [OF j] q by simp
    then obtain i rest where i: "is = i # rest" and c: "c \<in> fst ` set queues"
      by (cases "is") (force simp: qs_def)+
    obtain es s1 where one: "destroy_instance E i s = (es, s1)"
      by fastforce
    obtain fs where rec: "destroy_side_by_side E (qs[j := (c, rest)]) s1 = (fs, s')" and fails: "fails = (c, es) # fs"
      using 1(2) False one unfolding destroy_side_by_side.simps [of E queues s] Let_def qs_def [symmetric] j_def [symmetric]
      by (auto simp: q i split: prod.splits)
    obtain ev where ev: "s1 = s\<lparr>cs_log := cs_log s @ [ev]\<rparr>" "destroyed_object ev = Some i" "es = failure_of ev"
      using one by (fastforce simp: destroy_instance_def split: option.splits)
    obtain evs where IH: "s' = s1\<lparr>cs_log := cs_log s1 @ evs\<rparr>"
        "map destroyed_object evs \<in> interleavings (map (\<lambda>q. map Some (snd q)) (qs[j := (c, rest)]))"
        "concat (map snd fs) = concat (map failure_of evs)" "fst ` set fs \<subseteq> fst ` set (qs[j := (c, rest)])"
      using 1(1) [OF qs_def j_def False q [symmetric], of es s1 fs s'] one rec i by auto
    have "Some i # map destroyed_object evs \<in> interleavings (map (\<lambda>q. map Some (snd q)) qs)"
      using IH(2) j q i by (intro interleavings_step [of j _ _ "map Some rest"]) (simp_all add: map_update)
    moreover have "fst ` set (qs[j := (c, rest)]) \<subseteq> fst ` set queues"
    proof -
      have "fst ` set qs \<subseteq> fst ` set queues"
        by (auto simp: qs_def)
      moreover have "fst ` set (qs[j := (c, rest)]) \<subseteq> insert c (fst ` set qs)"
        using image_mono [OF set_update_subset_insert [of qs j "(c, rest)"], of fst] by simp
      ultimately show ?thesis
        using c by blast
    qed
    ultimately show ?thesis
      using ev IH(1,3,4) fails c same by (intro exI [of _ "ev # evs"]) auto
  qed
qed

text \<open>Disposing the tracked scopes together.\<close>

definition children_disposed ::
  "nat list \<Rightarrow> world \<Rightarrow> di_error list \<Rightarrow> di_event list \<Rightarrow> world \<Rightarrow> bool" where
  "children_disposed cs w errors events w' \<longleftrightarrow>
     map destroyed_object events \<in> interleavings (map (\<lambda>c. map Some (rev (cached_disposables w c))) cs) \<and>
     cs_log (wd_caches w') = cs_log (wd_caches w) @ events \<and>
     (errors = [] \<longleftrightarrow>
        (\<forall>c \<in> set cs. wd_stale_errors w c = []) \<and> concat (map failure_of events) = []) \<and>
     user_errors errors \<and>
     cs_single (wd_caches w') = (\<lambda>c. if c \<in> set cs then [] else cs_single (wd_caches w) c) \<and>
     cs_multi (wd_caches w') = (\<lambda>c. if c \<in> set cs then [] else cs_multi (wd_caches w) c) \<and>
     set (cs_children (wd_caches w')) = set (cs_children (wd_caches w)) - set cs \<and>
     wd_stale_errors w' = (\<lambda>c. if c \<in> set cs then [] else wd_stale_errors w c) \<and>
     set (wd_disposed w') \<subseteq> set (wd_disposed w) \<union> set cs"

lemma finish_scope_spec:
  assumes "world_ok w" and "c < length (wd_containers w)" and "ct_disposed (wd_containers w ! c)"
    and "user_errors errors" and "finish_scope errors c w = (e, w')"
  shows "collect_optional e [] = wd_stale_errors w c @ errors \<and> world_ok w' \<and>
         wd_caches w' = (clear_disposal_caches c (wd_caches w))\<lparr>cs_children := removeAll c (cs_children (wd_caches w))\<rparr> \<and>
         wd_stale_errors w' = (wd_stale_errors w)(c := []) \<and> wd_containers w' = wd_containers w \<and>
         set (wd_disposed w') \<subseteq> insert c (set (wd_disposed w))"
proof -
  let ?es = "wd_stale_errors w c @ errors"
  have user: "user_errors ?es"
    using assms(1,4) by (simp add: world_ok_def)
  then have collected: "collect_optional (throw_disposal_errors ?es) [] = ?es"
    using throw_user_errors [OF user, of "[]"] by simp
  have e: "e = throw_disposal_errors ?es"
    using assms(5) by (auto simp: finish_scope_def Let_def collected simp del: throw_none)
  have caches: "wd_caches w' = (clear_disposal_caches c (wd_caches w))
      \<lparr>cs_children := removeAll c (cs_children (wd_caches w)), cs_log := cs_log (wd_caches w)\<rparr>"
    and same: "wd_stale_errors w' = (wd_stale_errors w)(c := [])" "wd_containers w' = wd_containers w"
    and disposed: "wd_disposed w' = (if e = None then c # wd_disposed w else wd_disposed w)"
    using assms(5) e
    by (auto simp: finish_scope_def Let_def collected untrack_scope_def clear_disposal_caches_def simp del: throw_none)
  have "world_ok (w\<lparr>wd_caches := wd_caches w'\<rparr>)"
    using shrinks_world_ok [OF assms(1), of "wd_caches w'"] shrinks_clear(1) caches by simp
  then have "world_ok w'"
    using same disposed caches assms(2,3) by (auto simp: world_ok_def)
  then show ?thesis
    using e collected caches same disposed by (auto simp: clear_disposal_caches_def simp del: throw_none)
qed

abbreviation fails_of :: "(nat \<times> di_error list) list \<Rightarrow> nat \<Rightarrow> di_error list" where
  "fails_of fails c \<equiv> concat (map snd (filter (\<lambda>f. fst f = c) fails))"

lemma finish_scopes_spec:
  assumes "world_ok w" and "\<forall>c \<in> set cs. c < length (wd_containers w) \<and> ct_disposed (wd_containers w ! c)"
    and "distinct cs" and "user_errors (concat (map snd fails))" and "finish_scopes fails cs w = (errors, w')"
  shows "errors = concat (map (\<lambda>c. wd_stale_errors w c @ fails_of fails c) cs) \<and> world_ok w' \<and>
         cs_log (wd_caches w') = cs_log (wd_caches w) \<and>
         cs_single (wd_caches w') = (\<lambda>c. if c \<in> set cs then [] else cs_single (wd_caches w) c) \<and>
         cs_multi (wd_caches w') = (\<lambda>c. if c \<in> set cs then [] else cs_multi (wd_caches w) c) \<and>
         set (cs_children (wd_caches w')) = set (cs_children (wd_caches w)) - set cs \<and>
         wd_stale_errors w' = (\<lambda>c. if c \<in> set cs then [] else wd_stale_errors w c) \<and>
         wd_containers w' = wd_containers w \<and> set (wd_disposed w') \<subseteq> set (wd_disposed w) \<union> set cs"
  using assms
proof (induction cs arbitrary: w errors w')
  case (Cons c cs)
  obtain e w1 errs where one: "finish_scope (fails_of fails c) c w = (e, w1)"
    and rest: "finish_scopes fails cs w1 = (errs, w')" and errors: "errors = collect_optional e [] @ errs"
    using Cons.prems(5) by (auto split: prod.splits)
  have user: "user_errors (fails_of fails c)"
    using Cons.prems(4) by (auto simp: user_errors_def)
  have c: "c < length (wd_containers w)" "ct_disposed (wd_containers w ! c)"
    using Cons.prems(2) by simp_all
  note spec = finish_scope_spec [OF Cons.prems(1) c user one]
  have IH: "errs = concat (map (\<lambda>c. wd_stale_errors w1 c @ fails_of fails c) cs) \<and> world_ok w' \<and>
         cs_log (wd_caches w') = cs_log (wd_caches w1) \<and>
         cs_single (wd_caches w') = (\<lambda>c. if c \<in> set cs then [] else cs_single (wd_caches w1) c) \<and>
         cs_multi (wd_caches w') = (\<lambda>c. if c \<in> set cs then [] else cs_multi (wd_caches w1) c) \<and>
         set (cs_children (wd_caches w')) = set (cs_children (wd_caches w1)) - set cs \<and>
         wd_stale_errors w' = (\<lambda>c. if c \<in> set cs then [] else wd_stale_errors w1 c) \<and>
         wd_containers w' = wd_containers w1 \<and> set (wd_disposed w') \<subseteq> set (wd_disposed w1) \<union> set cs"
    using spec Cons.prems(2,3,4) rest by (intro Cons.IH) auto
  have "map (\<lambda>d. wd_stale_errors w1 d @ fails_of fails d) cs = map (\<lambda>d. wd_stale_errors w d @ fails_of fails d) cs"
    using spec Cons.prems(3) by auto
  then have "errs = concat (map (\<lambda>d. wd_stale_errors w d @ fails_of fails d) cs)"
    using IH by argo
  then have "errors = concat (map (\<lambda>d. wd_stale_errors w d @ fails_of fails d) (c # cs))"
    using spec errors by simp
  moreover have "cs_single (wd_caches w1) = (cs_single (wd_caches w))(c := [])"
      "cs_multi (wd_caches w1) = (cs_multi (wd_caches w))(c := [])" "cs_log (wd_caches w1) = cs_log (wd_caches w)"
    using spec by (auto simp: clear_disposal_caches_def)
  ultimately show ?case
    using spec IH by (auto simp: fun_eq_iff)
qed simp

lemma mark_all_disposed:
  assumes "world_ok w" and "set cs \<subseteq> {..< length (wd_containers w)}"
  shows "world_ok (fold mark_disposed cs w) \<and>
         wd_caches (fold mark_disposed cs w) = wd_caches w \<and>
         wd_stale_errors (fold mark_disposed cs w) = wd_stale_errors w \<and>
         wd_disposed (fold mark_disposed cs w) = wd_disposed w \<and>
         length (wd_containers (fold mark_disposed cs w)) = length (wd_containers w) \<and>
         (\<forall>d < length (wd_containers w). ct_disposed (wd_containers w ! d) \<or> d \<in> set cs \<longrightarrow>
            ct_disposed (wd_containers (fold mark_disposed cs w) ! d))"
  using assms
proof (induction cs arbitrary: w)
  case (Cons c cs)
  have "world_ok (mark_disposed c w)"
    using Cons.prems by (intro mark_disposed_ok) auto
  moreover have "set cs \<subseteq> {..< length (wd_containers (mark_disposed c w))}"
    using Cons.prems(2) by (simp add: mark_disposed_grows(1))
  moreover have "ct_disposed (wd_containers (mark_disposed c w) ! c)"
    using Cons.prems(2) by (simp add: mark_disposed_containers)
  ultimately show ?case
    using Cons.IH [of "mark_disposed c w"] mark_disposed_grows [where c = c and w = w] by auto
qed simp

lemma dispose_children_spec:
  assumes "world_ok w" and "set cs \<subseteq> set (cs_children (wd_caches w))" and "distinct cs"
    and "dispose_children E cs w = (errors, w')"
  shows "(\<exists>events. children_disposed cs w errors events w') \<and> world_ok w' \<and>
         length (wd_containers w') = length (wd_containers w) \<and>
         (\<forall>d < length (wd_containers w). ct_disposed (wd_containers w ! d) \<longrightarrow> ct_disposed (wd_containers w' ! d))"
proof -
  have cs: "\<forall>c \<in> set cs. c \<notin> set (wd_disposed w)" "set cs \<subseteq> {..< length (wd_containers w)}"
    using assms(1,2) by (auto simp: world_ok_def)
  then have live: "filter (\<lambda>c. c \<notin> set (wd_disposed w)) cs = cs"
    by simp
  let ?w1 = "fold mark_disposed cs w"
  note marked = mark_all_disposed [OF assms(1) cs(2)]
  obtain fails s where side: "destroy_side_by_side E
      (map (\<lambda>c. (c, rev (collect_disposable_instances (disposal_cache_entries c (wd_caches ?w1)) []))) cs) (wd_caches ?w1) = (fails, s)"
    by fastforce
  then obtain events where ev: "s = (wd_caches w)\<lparr>cs_log := cs_log (wd_caches w) @ events\<rparr>"
      "map destroyed_object events \<in> interleavings (map (\<lambda>c. map Some (rev (cached_disposables w c))) cs)"
      "concat (map snd fails) = concat (map failure_of events)" "fst ` set fails \<subseteq> set cs"
    using side_by_side_spec [OF side] marked by (auto simp: cached_disposables_def comp_def image_image)
  have finish: "finish_scopes fails cs (?w1\<lparr>wd_caches := s\<rparr>) = (errors, w')"
    using assms(4) side by (simp add: dispose_children_def Let_def live)
  have "world_ok (?w1\<lparr>wd_caches := s\<rparr>)"
    using shrinks_world_ok [of ?w1 s] marked shrinks_log ev(1) by simp
  then have fin: "errors = concat (map (\<lambda>c. wd_stale_errors w c @ fails_of fails c) cs) \<and> world_ok w' \<and>
         cs_log (wd_caches w') = cs_log s \<and>
         cs_single (wd_caches w') = (\<lambda>c. if c \<in> set cs then [] else cs_single s c) \<and>
         cs_multi (wd_caches w') = (\<lambda>c. if c \<in> set cs then [] else cs_multi s c) \<and>
         set (cs_children (wd_caches w')) = set (cs_children s) - set cs \<and>
         wd_stale_errors w' = (\<lambda>c. if c \<in> set cs then [] else wd_stale_errors w c) \<and>
         wd_containers w' = wd_containers ?w1 \<and> set (wd_disposed w') \<subseteq> set (wd_disposed w) \<union> set cs"
    using finish_scopes_spec [OF _ _ assms(3) _ finish] marked cs(2) ev(3) user_errors_failures by (auto simp: subset_eq)
  have "errors = [] \<longleftrightarrow> (\<forall>c \<in> set cs. wd_stale_errors w c = []) \<and> concat (map failure_of events) = []"
  proof -
    have "(\<forall>c \<in> set cs. fails_of fails c = []) \<longleftrightarrow> concat (map snd fails) = []"
      using ev(4) by fastforce
    moreover have "errors = [] \<longleftrightarrow> (\<forall>c \<in> set cs. wd_stale_errors w c = [] \<and> fails_of fails c = [])"
      using fin by (simp del: concat_eq_Nil_conv add: concat_eq_Nil_conv [of "map _ cs"])
    ultimately show ?thesis
      using ev(3) by auto
  qed
  moreover have "user_errors errors"
  proof -
    have "user_errors (fails_of fails c)" for c
      using user_errors_failures [of events] unfolding ev(3) [symmetric] by (auto simp: user_errors_def)
    then show ?thesis
      using fin assms(1) by (auto simp: user_errors_def world_ok_def)
  qed
  ultimately have "children_disposed cs w errors events w'"
    using fin ev(2) by (simp add: children_disposed_def ev(1) cong: if_cong)
  then show ?thesis
    using fin marked by auto
qed

lemma dispose_root_spec:
  assumes "world_ok w" and "0 \<notin> set (wd_disposed w)"
    and "dispose_root E w = (e, w')"
  shows "world_ok w' \<and> (\<forall>k. read_slot k (wd_caches w') = None) \<and>
         cs_children (wd_caches w') = [] \<and> ct_disposed (wd_containers w' ! 0) \<and>
         length (wd_containers w') = length (wd_containers w) \<and>
         (\<exists>events.
            cs_log (wd_caches w') = cs_log (wd_caches w) @ events \<and>
            (\<exists>ds \<in> interleavings (map (\<lambda>c. map Some (rev (cached_disposables w c))) (cs_children (wd_caches w))).
               map destroyed_object events = ds @ map Some (rev (cached_disposables w 0))) \<and>
            (e = None \<longleftrightarrow> (\<forall>c \<in> set (0 # cs_children (wd_caches w)). wd_stale_errors w c = []) \<and>
                          concat (map failure_of events) = []))"
proof -
  let ?cs = "cs_children (wd_caches w)" and ?w = "mark_disposed 0 w"
  obtain errors w1 where kids: "dispose_children E ?cs ?w = (errors, w1)"
    by fastforce
  let ?w2 = "w1\<lparr>wd_caches := (wd_caches w1)\<lparr>cs_children := []\<rparr>\<rparr>"
  obtain e0 w3 where own: "dispose_cache E 0 ?w2 = (e0, w3)"
    by fastforce
  have len: "0 < length (wd_containers w)" and zero: "0 \<notin> set ?cs"
      and kids_lt: "set ?cs \<subseteq> {..< length (wd_containers w)}"
    using assms(1) by (auto simp: world_ok_def)
  have w0: "world_ok ?w"
    using mark_disposed_ok [OF assms(1) len] .
  have "distinct ?cs"
    using assms(1) by (simp add: world_ok_def held_by_tracked_def)
  note children = dispose_children_spec [OF w0 _ this kids]
  obtain ev where ev: "children_disposed ?cs ?w errors ev w1"
    using children by auto
  have w1: "world_ok w1" "length (wd_containers w1) = length (wd_containers w)"
      "ct_disposed (wd_containers w1 ! 0)"
    using children kids_lt len
    by (auto simp: mark_disposed_grows(1)) (simp add: mark_disposed_containers)
  have kidless: "set (cs_children (wd_caches w1)) = {}"
    using ev by (simp add: children_disposed_def)
  then have kids_nil: "cs_children (wd_caches w1) = []"
    by simp
  obtain ev0 where own_spec:
      "wd_caches w3 = clear_disposal_caches 0
         ((wd_caches w1)\<lparr>cs_children := [], cs_log := cs_log (wd_caches w1) @ ev0\<rparr>)"
      "map destroyed_object ev0 = map Some (rev (cached_disposables w1 0))"
      "e0 = throw_disposal_errors (wd_stale_errors w1 0 @ concat (map failure_of ev0))"
      "wd_containers w3 = wd_containers w1" "wd_disposed w3 = wd_disposed w1"
      "wd_stale_errors w3 = (wd_stale_errors w1)(0 := [])"
    using dispose_cache_spec [OF own]
    by (auto simp: cached_disposables_def disposal_cache_entries_def)
  have "user_errors (wd_stale_errors w1 0 @ concat (map failure_of ev0))"
    using w1(1) user_errors_failures by (simp add: world_ok_def)
  then have collected: "collect_optional e0 errors =
      errors @ wd_stale_errors w1 0 @ concat (map failure_of ev0)"
    using throw_user_errors own_spec(3) by simp
  have result: "e = throw_disposal_errors (collect_optional e0 errors)"
      "w' = (if e = None then w3\<lparr>wd_disposed := 0 # wd_disposed w3\<rparr> else w3)"
    using assms(2,3) kids own by (auto simp: dispose_root_def Let_def simp del: throw_none)
  have clean: "wd_caches w3 = (clear_disposal_caches 0 (wd_caches w1))
      \<lparr>cs_log := cs_log (wd_caches w1) @ ev0\<rparr>"
    using own_spec(1) kids_nil by (simp add: clear_disposal_caches_def)
  have "world_ok (w1\<lparr>wd_caches := wd_caches w3\<rparr>)"
    using shrinks_world_ok [OF w1(1)] shrinks_clear(2) [OF kids_nil] clean by simp
  then have w3: "world_ok w3"
    using own_spec(4,5,6) by (auto simp: world_ok_def)
  have children3: "cs_children (wd_caches w3) = []"
    using clean kids_nil by simp
  then have "world_ok w'"
    using w3 result(2) w1(3) own_spec(4) len w1(2) by (auto simp: world_ok_def)
  moreover have "read_slot k (wd_caches w') = None" for k
  proof -
    have "held_by_tracked (wd_caches w3)"
      using w3 by (simp add: world_ok_def)
    then have "key_container k = 0" if "read_slot k (wd_caches w3) \<noteq> None"
      using that children3 unfolding held_by_tracked_def by fastforce
    moreover have "read_slot k (wd_caches w3) = (if key_container k = 0 then None else read_slot k (wd_caches w1))"
      by (simp add: clean read_clear_caches)
    ultimately have "read_slot k (wd_caches w3) = None"
      by metis
    then show ?thesis
      using result(2) by simp
  qed
  moreover have "cached_disposables w1 0 = cached_disposables w 0"
      and same: "cached_disposables ?w = cached_disposables w"
    using ev zero by (auto simp: children_disposed_def cached_disposables_def disposal_cache_entries_def)
  then have "\<exists>events.
            cs_log (wd_caches w') = cs_log (wd_caches w) @ events \<and>
            (\<exists>ds \<in> interleavings (map (\<lambda>c. map Some (rev (cached_disposables w c))) ?cs).
               map destroyed_object events = ds @ map Some (rev (cached_disposables w 0))) \<and>
            (e = None \<longleftrightarrow> (\<forall>c \<in> set (0 # ?cs). wd_stale_errors w c = []) \<and>
                          concat (map failure_of events) = [])"
    using ev clean result own_spec(2) collected zero
    by (intro exI [of _ "ev @ ev0"]) (auto simp: children_disposed_def)
  ultimately show ?thesis
    using result(2) children3 w1 own_spec(4) by auto
qed

lemma dispose_ok:
  assumes "world_ok w" and "c < length (wd_containers w)"
  shows "world_ok (snd (container_dispose E c w))"
proof -
  obtain e w' where root: "dispose_root E w = (e, w')"
    by fastforce
  obtain e1 w1 where scope: "dispose_scope E c w = (e1, w1)"
    by fastforce
  have "world_ok w'"
    using dispose_root_spec [OF assms(1) _ root] assms(1) root
    by (cases "0 \<in> set (wd_disposed w)") (auto simp: dispose_root_def)
  then show ?thesis
    using root scope dispose_scope_ok(1) [OF assms scope] by (simp add: container_dispose_def)
qed

section \<open>The properties of the hierarchy\<close>

lemma new_world_ok: "world_ok new_world"
proof -
  have "read_slot k empty_cache_state = None" for k
    by (cases k) (auto simp: empty_cache_state_def)
  then show ?thesis
    using container_wf_new [of 0 "[]" False]
    by (auto simp: world_ok_def new_world_def container_at_ok_def idle_caches_def in_progress_def
        held_by_tracked_def empty_cache_state_def)
      (auto simp: new_container_def)
qed

lemma di_reachable_ok: "di_reachable E M w \<Longrightarrow> world_ok w"
proof (induction rule: di_reachable.induct)
  case (reach_step w w')
  from reach_step.hyps(2) show ?case
    by cases (simp_all add: reach_step.IH register_ok override_ok scope_ok resolve_ok dispose_ok)
qed (rule new_world_ok)

text \<open>C1. In every hierarchy that any sequence of operations can reach, no token is at once a
  single and a multi provider of one container, every registration is stored under its own
  token, only the root and the request scopes it tracks hold instances, and no promise is
  left unsettled; so no call of \<open>resolve\<close> on any of its containers can wait for itself.\<close>

theorem di_hierarchy_invariant:
  assumes "di_reachable E M w" and "c < length (wd_containers w)"
  shows "container_wf (wd_containers w ! c) \<and>
         (\<forall>t. \<not> (js_has (ct_registrations (wd_containers w ! c)) t \<and>
                 js_has (ct_multi (wd_containers w ! c)) t)) \<and>
         idle_caches (wd_caches w) \<and>
         (\<forall>k. read_slot k (wd_caches w) \<noteq> None \<longrightarrow>
              key_container k = 0 \<or> key_container k \<in> set (cs_children (wd_caches w))) \<and>
         (\<forall>t. fst (container_resolve E M c t w) \<noteq> Inl Deadlock)"
proof -
  note ok = di_reachable_ok [OF assms(1)]
  have wf: "container_wf (wd_containers w ! c)" and idle: "idle_caches (wd_caches w)"
      and held: "held_by_tracked (wd_caches w)"
    using ok assms(2) by (auto simp: world_ok_def container_at_ok_def)
  have "\<not> (js_has (ct_registrations (wd_containers w ! c)) t \<and>
                 js_has (ct_multi (wd_containers w ! c)) t)" for t
    using container_wf_single [OF wf, of t] by (cases "js_get (ct_registrations (wd_containers w ! c)) t")
      (auto simp: js_has_def)
  moreover have "fst (container_resolve E M c t w) \<noteq> Inl Deadlock" for t
    using resolve_keeps_caches(1) [OF lineage_at_ok(1) [OF ok assms(2)] idle]
    by (auto simp: container_resolve_def split: prod.splits)
  ultimately show ?thesis
    using wf idle held by (auto simp: held_by_tracked_def)
qed

text \<open>C5. Disposing the root of a hierarchy that has not been disposed destroys every disposable
  instance held anywhere in it: first those of the tracked request scopes, in an interleaving in which
  every scope destroys each of its own once and in the reverse of the order in which the cache entries
  appeared, then those of the root in the same way; and it goes on when a hook throws. It reports success exactly when no hook
  throws now or threw in an earlier invalidation; afterwards no cache holds anything and
  every container of the hierarchy refuses to resolve.\<close>

theorem dispose_destroys_everything:
  assumes "di_reachable E M w" and "0 \<notin> set (wd_disposed w)"
    and "container_dispose E 0 w = (e, w')"
  shows "(\<exists>events.
           cs_log (wd_caches w') = cs_log (wd_caches w) @ events \<and>
           (\<exists>ds \<in> interleavings (map (\<lambda>c. map Some (rev (cached_disposables w c))) (cs_children (wd_caches w))).
              map destroyed_object events = ds @ map Some (rev (cached_disposables w 0))) \<and>
           (\<forall>c. distinct (cached_disposables w c)) \<and>
           (\<forall>k i. read_slot k (wd_caches w) = Some (Settled (JsObj i True)) \<longrightarrow>
                  Some i \<in> destroyed_object ` set events) \<and>
           (e = None \<longleftrightarrow>
              (\<forall>c \<in> set (0 # cs_children (wd_caches w)). wd_stale_errors w c = []) \<and>
              concat (map failure_of events) = [])) \<and>
         (\<forall>k. read_slot k (wd_caches w') = None) \<and>
         (\<forall>c < length (wd_containers w'). \<forall>t.
            fst (container_resolve E M c t w') = Inl ContainerDisposed)"
proof -
  note ok = di_reachable_ok [OF assms(1)]
  have "ct_ancestors (wd_containers w ! 0) = []"
    using ok by (auto simp: world_ok_def container_at_ok_def)
  then have "dispose_root E w = (e, w')"
    using assms(3) by (simp add: container_dispose_def)
  note spec = dispose_root_spec [OF ok assms(2) this]
  then obtain events ds where ev:
      "cs_log (wd_caches w') = cs_log (wd_caches w) @ events"
      "ds \<in> interleavings (map (\<lambda>c. map Some (rev (cached_disposables w c))) (cs_children (wd_caches w)))"
      "map destroyed_object events = ds @ map Some (rev (cached_disposables w 0))"
      "e = None \<longleftrightarrow> (\<forall>c \<in> set (0 # cs_children (wd_caches w)). wd_stale_errors w c = []) \<and>
                    concat (map failure_of events) = []"
    by blast
  have "Some i \<in> destroyed_object ` set events"
    if k: "read_slot k (wd_caches w) = Some (Settled (JsObj i True))" for k i
  proof -
    have "Settled (JsObj i True) \<in> set (disposal_cache_entries (key_container k) (wd_caches w))"
      using k by (cases k) (force simp: disposal_cache_entries_def dest: map_of_SomeD)+
    then have "i \<in> set (cached_disposables w (key_container k))"
      using collect_disposable_spec by (simp add: cached_disposables_def)
    moreover have "key_container k \<in> set (cs_children (wd_caches w) @ [0])"
      using ok k by (fastforce simp: world_ok_def held_by_tracked_def)
    ultimately have "Some i \<in> set (map destroyed_object events)"
      unfolding ev(3) using set_interleavings [OF ev(2)] by auto
    then show ?thesis
      by simp
  qed
  moreover have "fst (container_resolve E M c t w') = Inl ContainerDisposed"
    if "c < length (wd_containers w')" for c t
  proof -
    have "container_at_ok c (wd_containers w')"
      using spec that by (simp add: world_ok_def)
    then have "wd_containers w' ! 0 \<in> set (lineage_at w' c)"
      by (cases "c = 0") (auto simp: container_at_ok_def lineage_at_def intro: image_eqI [OF _ last_in_set])
    then have "is_disposed_in_hierarchy (lineage_at w' c)"
      using spec by (auto simp: is_disposed_in_hierarchy_def list_ex_iff)
    then show ?thesis
      by (simp add: container_resolve_def resolve_def eff_defs)
  qed
  moreover have "distinct (cached_disposables w c)" for c
    using collect_disposable_spec by (simp add: cached_disposables_def)
  ultimately show ?thesis
    using ev spec by blast
qed

end
