(* ===== verification/Container_Override.thy ===== *)
theory Container_Override
  imports Container_World_Facts
begin

text \<open>
  What \<open>override\<close> does to cached instances: exactly the entries whose token reaches an
  overridden token in the dependency graph leave the caches, in the overriding container
  and in every tracked scope below it, and their disposable instances are destroyed.
\<close>

section \<open>Affected tokens\<close>

definition references :: "lineage \<Rightarrow> (token \<times> token) set" where
  "references lin = {(t, u). \<exists>p. provides lin t p \<and> injects p u}"

lemma provider_depends_unfold:
  "provider_depends_on lin p t vis \<longleftrightarrow>
   (case np_type p of
      UseExisting u \<Rightarrow> token_references lin u t vis
    | _ \<Rightarrow> \<exists>e \<in> set (np_inject p). \<exists>u. dep_token e = Some u \<and> token_references lin u t vis)"
  by (subst provider_depends_on.simps)
    (auto simp: list_ex_iff split: strategy.splits option.splits)

lemma provider_depends_injects:
  assumes "nprov_ok p"
  shows "provider_depends_on lin p t vis \<longleftrightarrow> (\<exists>u. injects p u \<and> token_references lin u t vis)"
  unfolding provider_depends_unfold injects_def using assms
  by (cases "np_type p") (auto simp: nprov_ok_def)

lemma token_references_unfold:
  assumes "lineage_wf lin"
  shows "token_references lin d t vis \<longleftrightarrow>
     d = t \<or> (d \<notin> vis \<and> (\<exists>u. (d, u) \<in> references lin \<and> token_references lin u t (insert d vis)))"
proof -
  have "provider_depends_on lin p t (insert d vis) \<longleftrightarrow>
      (\<exists>u. injects p u \<and> token_references lin u t (insert d vis))" if "provides lin d p" for p
    using that assms lookup_provider_wf collect_multi_wf
    by (intro provider_depends_injects) (auto simp: provides_def)
  then show ?thesis
    by (subst token_references.simps)
      (auto simp: provides_def references_def list_ex_iff split: option.splits)
qed

lemma references_known: "(d, u) \<in> references lin \<Longrightarrow> d \<in> lineage_tokens lin"
  by (auto simp: references_def provides_def intro: lookup_provider_tokens collect_multi_tokens)

lemma token_references_sound:
  assumes "lineage_wf lin"
  shows "token_references lin d t vis \<Longrightarrow> (d, t) \<in> (references lin)\<^sup>*"
proof (induction "card (lineage_tokens lin - vis)" arbitrary: d vis rule: less_induct)
  case less
  consider "d = t" | u where "d \<notin> vis" "(d, u) \<in> references lin" "token_references lin u t (insert d vis)"
    using less.prems token_references_unfold [OF assms] by blast
  then show ?case
  proof cases
    case 2
    then have "card (lineage_tokens lin - insert d vis) < card (lineage_tokens lin - vis)"
      by (intro card_path_less) (auto dest: references_known)
    then show ?thesis
      using less.hyps 2 by (meson converse_rtrancl_into_rtrancl)
  qed simp
qed

lemma token_references_complete:
  assumes "lineage_wf lin"
  shows "d \<notin> vis \<Longrightarrow> (d, t) \<in> (avoiding (references lin) vis)\<^sup>* \<Longrightarrow> token_references lin d t vis"
proof (induction "card (lineage_tokens lin - vis)" arbitrary: d vis rule: less_induct)
  case less
  show ?case
  proof (cases "t = d")
    case True
    then show ?thesis
      using token_references_unfold [OF assms] by blast
  next
    case False
    then obtain w where w: "(d, w) \<in> references lin" "w \<notin> insert d vis"
        "(w, t) \<in> (avoiding (references lin) (insert d vis))\<^sup>*"
      using avoiding_first_step [OF less.prems(2)] by blast
    then have "card (lineage_tokens lin - insert d vis) < card (lineage_tokens lin - vis)"
      using less.prems(1) by (intro card_path_less) (auto dest: references_known)
    then have "token_references lin w t (insert d vis)"
      using less.hyps w by blast
    then show ?thesis
      using token_references_unfold [OF assms] w(1) less.prems(1) by blast
  qed
qed

lemma should_invalidate_iff:
  assumes "lineage_wf lin"
  shows "should_invalidate_token lin u t \<longleftrightarrow> (u, t) \<in> (references lin)\<^sup>*"
proof -
  have pro: "provider_depends_on lin p t {np_provide p} \<longleftrightarrow>
      (\<exists>w. injects p w \<and> token_references lin w t {u})" if "provides lin u p" for p
    using that assms lookup_provider_wf [OF assms, of u p] collect_multi_wf [OF assms, of p u]
      provider_depends_injects [of p lin t "{np_provide p}"]
    by (auto simp: provides_def)
  have "should_invalidate_token lin u t \<longleftrightarrow>
      u = t \<or> (\<exists>p. provides lin u p \<and> provider_depends_on lin p t {np_provide p})"
    by (auto simp: should_invalidate_token_def provides_def list_ex_iff split: option.splits)
  also have "\<dots> \<longleftrightarrow> u = t \<or> (\<exists>w. (u, w) \<in> references lin \<and> token_references lin w t {u})"
    using pro by (auto simp: references_def)
  also have "\<dots> \<longleftrightarrow> (u, t) \<in> (references lin)\<^sup>*"
  proof
    assume "u = t \<or> (\<exists>w. (u, w) \<in> references lin \<and> token_references lin w t {u})"
    then show "(u, t) \<in> (references lin)\<^sup>*"
      using token_references_sound [OF assms] by (auto intro: converse_rtrancl_into_rtrancl)
  next
    assume "(u, t) \<in> (references lin)\<^sup>*"
    then have "(u, t) \<in> (avoiding (references lin) {})\<^sup>*"
      by (simp add: avoiding_def)
    from avoiding_first_step [OF this]
    show "u = t \<or> (\<exists>w. (u, w) \<in> references lin \<and> token_references lin w t {u})"
      using token_references_complete [OF assms, of _ "{u}" t] by auto
  qed
  finally show ?thesis .
qed

text \<open>An instance of a multi provider is kept under the provider itself: what counts is the provider's token
  and what its own dependencies reach without coming back to that token.\<close>

definition direct_targets :: "nprov \<Rightarrow> token set" where
  "direct_targets p = {u. case np_type p of UseExisting v \<Rightarrow> u = v | _ \<Rightarrow> \<exists>e \<in> set (np_inject p). dep_token e = Some u}"

definition provider_reaches :: "lineage \<Rightarrow> nprov \<Rightarrow> token \<Rightarrow> bool" where
  "provider_reaches lin p t \<longleftrightarrow>
     np_provide p = t \<or>
     (\<exists>u \<in> direct_targets p. u \<noteq> np_provide p \<and> (u, t) \<in> (avoiding (references lin) {np_provide p})\<^sup>*)"

lemma token_references_avoiding:
  assumes "lineage_wf lin"
  shows "token_references lin d t vis \<Longrightarrow> t \<notin> vis \<Longrightarrow> d \<notin> vis \<and> (d, t) \<in> (avoiding (references lin) vis)\<^sup>*"
proof (induction "card (lineage_tokens lin - vis)" arbitrary: d vis rule: less_induct)
  case less
  show ?case
  proof (cases "d = t")
    case False
    then obtain u where u: "d \<notin> vis" "(d, u) \<in> references lin" "token_references lin u t (insert d vis)"
      using less.prems(1) token_references_unfold [OF assms] by blast
    then have "card (lineage_tokens lin - insert d vis) < card (lineage_tokens lin - vis)"
      by (intro card_path_less) (auto dest: references_known)
    then have rest: "u \<notin> insert d vis" "(u, t) \<in> (avoiding (references lin) (insert d vis))\<^sup>*"
      using less.hyps u(3) less.prems(2) False by blast+
    have "avoiding (references lin) (insert d vis) \<subseteq> avoiding (references lin) vis"
      by (auto simp: avoiding_def)
    then have "(u, t) \<in> (avoiding (references lin) vis)\<^sup>*"
      using rest(2) rtrancl_mono by blast
    moreover have "(d, u) \<in> avoiding (references lin) vis"
      using u(2) rest(1) by (simp add: avoiding_def)
    ultimately show ?thesis
      using u(1) by (meson converse_rtrancl_into_rtrancl)
  qed (use less.prems in simp)
qed

lemma should_invalidate_provider_iff:
  assumes "lineage_wf lin"
  shows "should_invalidate_provider lin p t \<longleftrightarrow> provider_reaches lin p t"
proof (cases "np_provide p = t")
  case False
  have "provider_depends_on lin p t vis \<longleftrightarrow> (\<exists>u \<in> direct_targets p. token_references lin u t vis)" for vis
    unfolding provider_depends_unfold direct_targets_def by (auto split: strategy.split)
  moreover have "token_references lin u t {np_provide p} \<longleftrightarrow>
      u \<noteq> np_provide p \<and> (u, t) \<in> (avoiding (references lin) {np_provide p})\<^sup>*" for u
    using token_references_avoiding [OF assms, of u t "{np_provide p}"]
      token_references_complete [OF assms, of u "{np_provide p}" t] False by auto
  ultimately show ?thesis
    using False by (simp add: should_invalidate_provider_def provider_reaches_def)
qed (simp add: should_invalidate_provider_def provider_reaches_def)

section \<open>What an override removes\<close>

definition affected :: "world \<Rightarrow> nat \<Rightarrow> token \<Rightarrow> cache_key \<Rightarrow> bool" where
  "affected w d t k \<longleftrightarrow>
     (case k of
        SingleKey e u \<Rightarrow> e = d \<and> should_invalidate_token (lineage_at w d) u t
      | MultiKey e p \<Rightarrow> e = d \<and> should_invalidate_provider (lineage_at w d) p t)"

lemma lineage_at_cong: "wd_containers w' = wd_containers w \<Longrightarrow> lineage_at w' c = lineage_at w c"
  by (simp add: lineage_at_def)

lemma lineage_at_next_pid [simp]: "lineage_at (w\<lparr>wd_next_pid := x\<rparr>) = lineage_at w"
  by (simp add: lineage_at_def fun_eq_iff)

lemma invalidate_container_read:
  assumes "ct_id (hd (lineage_at w d)) = d"
  shows "read_slot k (wd_caches (fst (invalidate_container d t (w, tasks)))) =
         (if affected w d t k then None else read_slot k (wd_caches w))"
  using assms
  by (cases k) (auto simp: invalidate_container_def read_drop_stale affected_def)

lemma stale_entries_iff:
  assumes "ct_id (hd lin) = d"
  shows "sl \<in> set (stale_entries lin t s) \<longleftrightarrow>
    (\<exists>u. (u, sl) \<in> set (cs_single s d) \<and> should_invalidate_token lin u t) \<or>
    (\<exists>p. (p, sl) \<in> set (cs_multi s d) \<and> should_invalidate_provider lin p t)"
  using assms by (force simp: stale_entries_def)

lemma invalidate_container_tasks:
  assumes "ct_id (hd (lineage_at w d)) = d" and "affected w d t k"
    and "read_slot k (wd_caches w) = Some sl"
  shows "(d, sl) \<in> set (snd (invalidate_container d t (w, tasks)))"
proof -
  have "sl \<in> set (stale_entries (lineage_at w d) t (wd_caches w))"
    using assms(2,3) unfolding stale_entries_iff [OF assms(1)]
    by (cases k) (auto simp: affected_def dest: map_of_SomeD)
  then show ?thesis
    by (simp add: invalidate_container_def)
qed

lemma invalidate_containers_spec:
  assumes "\<forall>d \<in> set ds. ct_id (hd (lineage_at w d)) = d"
    and "fold (\<lambda>d. invalidate_container d t) ds (w, tasks) = (w', tasks')"
  shows "wd_containers w' = wd_containers w \<and> cs_log (wd_caches w') = cs_log (wd_caches w) \<and>
         set tasks \<subseteq> set tasks' \<and>
         (\<forall>k. read_slot k (wd_caches w') =
              (if \<exists>d \<in> set ds. affected w d t k then None else read_slot k (wd_caches w))) \<and>
         (\<forall>k sl. (\<exists>d \<in> set ds. affected w d t k) \<and> read_slot k (wd_caches w) = Some sl \<longrightarrow>
              (\<exists>d. (d, sl) \<in> set tasks'))"
  using assms
proof (induction ds arbitrary: w tasks)
  case (Cons d ds)
  obtain w1 tasks1 where one: "invalidate_container d t (w, tasks) = (w1, tasks1)"
    by fastforce
  have d: "ct_id (hd (lineage_at w d)) = d"
    using Cons.prems(1) by simp
  have w1: "wd_containers w1 = wd_containers w" "cs_log (wd_caches w1) = cs_log (wd_caches w)"
      "set tasks \<subseteq> set tasks1"
    using one by (auto simp: invalidate_container_def drop_stale_entries_def Let_def)
  have aff: "affected w1 e t k = affected w e t k" for e k
    using lineage_at_cong [OF w1(1)] by (simp add: affected_def split: cache_key.splits)
  have read: "read_slot k (wd_caches w1) = (if affected w d t k then None else read_slot k (wd_caches w))" for k
    using invalidate_container_read [OF d, of k t tasks] one by simp
  have task: "affected w d t k \<Longrightarrow> read_slot k (wd_caches w) = Some sl \<Longrightarrow> (d, sl) \<in> set tasks1" for k sl
    using invalidate_container_tasks [OF d, of t k sl tasks] one by simp
  have "\<forall>e \<in> set ds. ct_id (hd (lineage_at w1 e)) = e"
    using Cons.prems(1) lineage_at_cong [OF w1(1)] by simp
  note IH = Cons.IH [OF this, of tasks1]
  have rest: "fold (\<lambda>d. invalidate_container d t) ds (w1, tasks1) = (w', tasks')"
    using Cons.prems(2) one by simp
  have "\<exists>e. (e, sl) \<in> set tasks'"
    if "\<exists>e \<in> set (d # ds). affected w e t k" "read_slot k (wd_caches w) = Some sl" for k sl
  proof (cases "affected w d t k")
    case True
    then show ?thesis
      using task [OF True that(2)] IH [OF rest] by blast
  next
    case False
    then show ?thesis
      using that IH [OF rest] read [of k] aff by auto
  qed
  then show ?case
    using IH [OF rest] w1 read aff by auto
qed auto

lemma run_stale_tasks_spec:
  "wd_containers (run_stale_tasks E tasks w) = wd_containers w \<and>
   read_slot k (wd_caches (run_stale_tasks E tasks w)) = read_slot k (wd_caches w) \<and>
   (\<exists>events. cs_log (wd_caches (run_stale_tasks E tasks w)) = cs_log (wd_caches w) @ events \<and>
      (\<forall>c i. (c, Settled (JsObj i True)) \<in> set tasks \<longrightarrow> Some i \<in> destroyed_object ` set events))"
proof (induction E tasks w rule: run_stale_tasks.induct)
  case (2 E c i tasks w)
  obtain es s where d: "destroy_instance E i (wd_caches w) = (es, s)"
    by fastforce
  then obtain ev where ev: "s = (wd_caches w)\<lparr>cs_log := cs_log (wd_caches w) @ [ev]\<rparr>"
      "destroyed_object ev = Some i"
    by (fastforce simp: destroy_instance_def split: option.splits)
  let ?w = "w\<lparr>wd_caches := s, wd_stale_errors := (wd_stale_errors w)(c := wd_stale_errors w c @ es)\<rparr>"
  note IH = 2 [OF d [symmetric]]
  obtain evs where "cs_log (wd_caches (run_stale_tasks E tasks ?w)) = cs_log s @ evs"
      "\<forall>c i. (c, Settled (JsObj i True)) \<in> set tasks \<longrightarrow> Some i \<in> destroyed_object ` set evs"
    using IH by auto
  then have "\<exists>events. cs_log (wd_caches (run_stale_tasks E tasks ?w)) = cs_log (wd_caches w) @ events \<and>
      (\<forall>d j. (d, Settled (JsObj j True)) \<in> set ((c, Settled (JsObj i True)) # tasks) \<longrightarrow>
             Some j \<in> destroyed_object ` set events)"
    using ev by (intro exI [of _ "ev # evs"]) (auto intro: image_eqI)
  then show ?case
    using IH d ev(1) by simp
qed auto

definition scopes_below :: "world \<Rightarrow> nat \<Rightarrow> nat set" where
  "scopes_below w c = insert c {d \<in> set (cs_children (wd_caches w)). is_ancestor_of w c d}"


end
