(* ===== verification/Container_Examples.thy ===== *)
theory Container_Examples
  imports Container_Override
begin

text \<open>
  Small hierarchies evaluated by the kernel: the witnesses of the container properties, and
  three behaviours that the code has and probably does not intend.
\<close>

section \<open>Sample providers\<close>

text \<open>Every factory makes a new disposable object, named by the number of events before it,
  except factory \<open>9\<close>, which hands on its first dependency.\<close>

definition object_env :: di_env where
  "object_env = \<lparr>construct = (\<lambda>log c deps. Inr (JsObj (length log) True)),
     call_factory = (\<lambda>log f deps. if f = 9 then Inr (hd deps) else Inr (JsObj (length log) True)),
     destroy = (\<lambda>log i. if i = 1 then Some 7 else None), next_scope = (\<lambda>log n. length log)\<rparr>"

definition factory_provider :: "string \<Rightarrow> nat \<Rightarrow> string list \<Rightarrow> scope \<Rightarrow> provider" where
  "factory_provider t f deps sc =
     ObjectProvider \<lparr>po_provide = Some (TokString t), po_useValue = None,
       po_useFactory = Some (FactoryFn f), po_useClass = None, po_useExisting = None,
       po_inject = Some (map (\<lambda>d. Dep (TokString d)) deps), po_scope = Some sc,
       po_multi = None, po_resolverClass = None\<rparr>"

definition registered :: "provider list \<Rightarrow> world" where
  "registered prs = snd (container_register [] 0 prs new_world)"

definition after_resolve :: "nat \<Rightarrow> string \<Rightarrow> world \<Rightarrow> world" where
  "after_resolve c t w = snd (container_resolve object_env [] c (TokString t) w)"

definition destroyed_in_order :: "world \<Rightarrow> nat list" where
  "destroyed_in_order w = List.map_filter destroyed_object (cs_log (wd_caches w))"

definition a_needs_b_and_c :: world where
  "a_needs_b_and_c =
     registered [factory_provider ''A'' 0 [''B'', ''C''] Singleton,
                 factory_provider ''B'' 0 [] Singleton, factory_provider ''C'' 0 [] Singleton]"

text \<open>Disposal does not always destroy dependents before what they depend on: where \<open>A\<close> is
  built from \<open>B\<close> and \<open>C\<close>, disposing the container after resolving \<open>A\<close> destroys \<open>C\<close> before \<open>A\<close>.
  The second dependency enters the cache only after \<open>A\<close> has, because \<open>A\<close>'s promise is
  cached at the first suspension, while its first dependency is being built.\<close>

theorem disposal_precedes_dependent:
  "map (\<lambda>e. case e of Built p deps v \<Rightarrow> Some (np_provide p, deps, v) | _ \<Rightarrow> None)
     (cs_log (wd_caches (after_resolve 0 ''A'' a_needs_b_and_c))) =
     [Some (TokString ''B'', [], JsObj 0 True), Some (TokString ''C'', [], JsObj 1 True),
      Some (TokString ''A'', [JsObj 0 True, JsObj 1 True], JsObj 2 True)] \<and>
   destroyed_in_order
     (snd (container_dispose object_env 0 (after_resolve 0 ''A'' a_needs_b_and_c))) = [1, 2, 0]"
  by code_simp

definition b_hands_on_a :: world where
  "b_hands_on_a =
     registered [factory_provider ''A'' 0 [] Singleton, factory_provider ''B'' 9 [''A''] Singleton]"

definition b_overridden :: world where
  "b_overridden =
     snd (container_override object_env [] 0 [factory_provider ''B'' 0 [] Singleton]
            (after_resolve 0 ''B'' b_hands_on_a))"

text \<open>Overriding a token may destroy an instance that is still in use: where \<open>B\<close>'s factory
  hands on the instance of \<open>A\<close>, overriding \<open>B\<close> destroys that instance although \<open>A\<close> is not
  affected; \<open>A\<close> still resolves to it, and disposing the container destroys it again.\<close>

theorem override_destroys_live_instance:
  "destroyed_in_order b_overridden = [0] \<and>
   fst (container_resolve object_env [] 0 (TokString ''A'') b_overridden) = Inr (JsObj 0 True) \<and>
   destroyed_in_order (snd (container_dispose object_env 0 b_overridden)) = [0, 0]"
  by code_simp

text \<open>The scope check takes the empty string for no token: a singleton may depend on a request-scoped
  provider that is registered under it.\<close>

definition a_needs_unnamed :: world where
  "a_needs_unnamed = registered [factory_provider ''A'' 0 [[]] Singleton, factory_provider [] 0 [] Request]"

theorem unnamed_request_scope_escapes:
  "(let lin = lineage_at a_needs_unnamed 0; p = the (lookup_provider lin (TokString ''A'')) in
    np_scope p = Singleton \<and> entry_targets lin (np_inject p) = [TokString []] \<and>
    effective_request [] lin (TokString []) = Some (TokString []) \<and>
    assert_singleton_dependency_scopes [] lin p = Inr ())"
  by code_simp

section \<open>Reaching the samples\<close>

lemma registered_reachable: "di_reachable object_env [] (registered prs)"
  unfolding registered_def
  by (rule reach_step [OF reach_new step_register]) (simp add: new_world_def)

lemma after_resolve_reachable:
  "di_reachable object_env [] w \<Longrightarrow> c < length (wd_containers w) \<Longrightarrow>
   di_reachable object_env [] (after_resolve c t w)"
  unfolding after_resolve_def by (rule reach_step [OF _ step_resolve])

lemma sample_wf:
  "c < length (wd_containers w) \<Longrightarrow> di_reachable object_env [] w \<Longrightarrow> lineage_wf (lineage_at w c)"
  by (rule lineage_at_ok(1) [OF di_reachable_ok])

lemma sample_idle: "di_reachable object_env [] w \<Longrightarrow> idle_caches (wd_caches w)"
  using di_reachable_ok by (simp add: world_ok_def)

section \<open>Witnesses\<close>

definition a_needs_scoped_b :: world where
  "a_needs_scoped_b =
     registered [factory_provider ''A'' 0 [''B''] Singleton, factory_provider ''B'' 0 [] Request]"

definition provider_a :: nprov where
  "provider_a = the (lookup_provider (lineage_at a_needs_scoped_b 0) (TokString ''A''))"


lemma resolve_no_deadlock_witness:
  "fst (resolve object_env [] (lineage_at a_needs_b_and_c 0) (TokString ''A'')
     (wd_caches a_needs_b_and_c)) \<noteq> Inl Deadlock"
proof -
  have reach: "di_reachable object_env [] a_needs_b_and_c"
    unfolding a_needs_b_and_c_def by (rule registered_reachable)
  have "0 < length (wd_containers a_needs_b_and_c)"
    by code_simp
  then show ?thesis
    using resolve_no_deadlock [OF sample_wf sample_idle prod.collapse [symmetric]] reach by blast
qed

definition a_and_b_circular :: world where
  "a_and_b_circular =
     registered [factory_provider ''A'' 0 [''B''] Singleton, factory_provider ''B'' 0 [''A''] Singleton]"

lemma circular_dependency_is_real_witness:
  "cycle_chain (resolution_edges (lineage_at a_and_b_circular 0))
     [TokString ''A'', TokString ''B'', TokString ''A'']"
proof -
  have "fst (resolve object_env [] (lineage_at a_and_b_circular 0) (TokString ''A'') empty_cache_state) =
      Inl (CircularDependency [TokString ''A'', TokString ''B'', TokString ''A''] False)"
    by code_simp
  then show ?thesis
    using circular_dependency_is_real by (metis prod.collapse)
qed

definition with_scope :: "world \<Rightarrow> world" where
  "with_scope w = snd (create_request_scope 0 w)"

lemma with_scope_reachable:
  "di_reachable object_env [] w \<Longrightarrow> 0 < length (wd_containers w) \<Longrightarrow>
   di_reachable object_env [] (with_scope w)"
  unfolding with_scope_def by (rule reach_step [OF _ step_scope])

definition scoped_world :: world where
  "scoped_world = with_scope a_needs_b_and_c"

text \<open>Two request scopes with two instances each, torn down together: their hooks take turns.\<close>

definition two_scopes :: world where
  "two_scopes = after_resolve 2 ''P'' (after_resolve 1 ''P'' (with_scope (with_scope
     (registered [factory_provider ''P'' 0 [''Q''] Request, factory_provider ''Q'' 0 [] Request]))))"

lemma scopes_take_turns:
  "map (\<lambda>c. rev (collect_disposable_instances (disposal_cache_entries c (wd_caches two_scopes)) [])) [1, 2] =
     [[1, 0], [3, 2]] \<and>
   destroyed_in_order (snd (container_dispose object_env 0 two_scopes)) = [1, 3, 0, 2]"
  by code_simp

lemma scoped_world_reachable: "di_reachable object_env [] scoped_world"
proof -
  have "0 < length (wd_containers a_needs_b_and_c)"
    by code_simp
  then show ?thesis
    unfolding scoped_world_def a_needs_b_and_c_def
    by (intro with_scope_reachable registered_reachable) simp_all
qed

lemma instance_is_shared_witness:
  "\<exists>s3. resolve object_env [] (lineage_at scoped_world 1) (TokString ''A'')
          (resolve_calls object_env [] [(lineage_at scoped_world 1, TokString ''B'')]
            (wd_caches (after_resolve 0 ''A'' scoped_world))) = (Inr (JsObj 2 True), s3) \<and>
        cs_log s3 = cs_log (resolve_calls object_env []
            [(lineage_at scoped_world 1, TokString ''B'')]
            (wd_caches (after_resolve 0 ''A'' scoped_world)))"
proof -
  let ?p = "the (lookup_provider (lineage_at scoped_world 0) (TokString ''A''))"
  have "0 < length (wd_containers scoped_world)" and "1 < length (wd_containers scoped_world)"
    by code_simp+
  then have wf: "lineage_wf (lineage_at scoped_world 0)" "lineage_wf (lineage_at scoped_world 1)"
    using sample_wf scoped_world_reachable by blast+
  have "fst (resolve object_env [] (lineage_at scoped_world 0) (TokString ''A'') (wd_caches scoped_world)) =
      Inr (JsObj 2 True)"
    by code_simp
  then have run: "resolve object_env [] (lineage_at scoped_world 0) (TokString ''A'') (wd_caches scoped_world) =
      (Inr (JsObj 2 True), wd_caches (after_resolve 0 ''A'' scoped_world))"
    by (auto simp: after_resolve_def container_resolve_def split: prod.splits)
  have "select_provider (lineage_at scoped_world 0) (TokString ''A'') = SingleProvider ?p"
      "select_provider (lineage_at scoped_world 1) (TokString ''A'') = SingleProvider ?p"
      "instance_key (lineage_at scoped_world 1) ?p = instance_key (lineage_at scoped_world 0) ?p"
      "np_scope ?p \<noteq> Singleton \<longrightarrow> ct_request_scope (hd (lineage_at scoped_world 1))"
      "\<not> is_disposed_in_hierarchy (lineage_at scoped_world 1)"
    by code_simp+
  moreover have "np_scope ?p = Singleton" "np_type ?p = UseFactory 0"
    by code_simp+
  then have "cached_provider ?p"
    by (simp add: cached_provider_def)
  ultimately show ?thesis
    using instance_is_shared [OF wf sample_idle [OF scoped_world_reachable] _ _ _ _ _ _ run,
        of ?p "[(lineage_at scoped_world 1, TokString ''B'')]"] wf by simp
qed

lemma root_never_builds_request_scoped_witness:
  "\<exists>events. cs_log (snd (resolve object_env [] (lineage_at a_needs_scoped_b 0) (TokString ''B'')
       (wd_caches a_needs_scoped_b))) = cs_log (wd_caches a_needs_scoped_b) @ events \<and>
     (\<forall>e \<in> set events. \<forall>p. event_provider e = Some p \<longrightarrow> np_scope p \<noteq> Request)"
proof -
  have "di_reachable object_env [] a_needs_scoped_b"
    unfolding a_needs_scoped_b_def by (rule registered_reachable)
  moreover have "0 < length (wd_containers a_needs_scoped_b)"
      and "\<not> ct_request_scope (hd (lineage_at a_needs_scoped_b 0))"
    by code_simp+
  ultimately show ?thesis
    using root_never_builds_request_scoped [OF sample_wf _ prod.collapse [symmetric]] by blast
qed

lemma di_hierarchy_invariant_witness:
  "container_wf (wd_containers (after_resolve 0 ''A'' scoped_world) ! 1) \<and>
   idle_caches (wd_caches (after_resolve 0 ''A'' scoped_world))"
proof -
  have "0 < length (wd_containers scoped_world)"
      and one: "1 < length (wd_containers (after_resolve 0 ''A'' scoped_world))"
    by code_simp+
  then have "di_reachable object_env [] (after_resolve 0 ''A'' scoped_world)"
    using after_resolve_reachable scoped_world_reachable by blast
  then show ?thesis
    using di_hierarchy_invariant one by blast
qed

lemma dispose_destroys_everything_witness:
  "\<forall>k. read_slot k (wd_caches (snd (container_dispose object_env 0
          (after_resolve 0 ''A'' scoped_world)))) = None"
proof -
  have "0 < length (wd_containers scoped_world)"
      and fresh: "0 \<notin> set (wd_disposed (after_resolve 0 ''A'' scoped_world))"
    by code_simp+
  then have "di_reachable object_env [] (after_resolve 0 ''A'' scoped_world)"
    using after_resolve_reachable scoped_world_reachable by blast
  then show ?thesis
    using dispose_destroys_everything [OF _ fresh prod.collapse [symmetric]] by blast
qed


end
