(* ===== verification/Container_Plan.thy ===== *)
theory Container_Plan
  imports Container_Graph Versioned_Cache
begin

text \<open>
  The resolution plan caches of \<open>packages/di/src/container.ts\<close>: answers to lookups kept per
  container under the revisions of its whole parent chain. The rest of the development
  works with the plain lookups; this theory proves that no reader can tell the difference.
\<close>

section \<open>Plans\<close>

text \<open>\<open>lineageRevision\<close> joins the revisions with slashes, the root's first; here it is their
  list.\<close>

record plans =
  pl_lookup :: "(token, nat list, nprov option) versioned"
  pl_multi :: "(token, nat list, nprov list) versioned"
  pl_verdict :: "(token, nat list, bool) versioned"
  pl_effective :: "(token, nat list, (di_error, nprov option) result) versioned"

definition no_plans :: plans where
  "no_plans = \<lparr>pl_lookup = [], pl_multi = [], pl_verdict = [], pl_effective = []\<rparr>"

type_synonym planned_lineage = "(container \<times> plans) list"

fun lineage_revision :: "lineage \<Rightarrow> nat list" where
  "lineage_revision [] = []"
| "lineage_revision (c # cs) = lineage_revision cs @ [ct_revision c]"

abbreviation plain :: "planned_lineage \<Rightarrow> lineage" where
  "plain pcs \<equiv> map fst pcs"

fun lookup_provider_planned :: "planned_lineage \<Rightarrow> token \<Rightarrow> planned_lineage \<times> nprov option" where
  "lookup_provider_planned [] t = ([], None)"
| "lookup_provider_planned ((c, pl) # pcs) t =
     (let ver = lineage_revision (c # plain pcs) in
      case read_current ver (pl_lookup pl) t of
        Some v \<Rightarrow> ((c, pl) # pcs, v)
      | None \<Rightarrow>
          (case (case js_get (ct_registrations c) t of
                   Some p \<Rightarrow> (pcs, Some p)
                 | None \<Rightarrow> lookup_provider_planned pcs t) of
             (pcs', v) \<Rightarrow>
               ((c, pl\<lparr>pl_lookup := write_current ver t v (pl_lookup pl)\<rparr>) # pcs', v)))"

fun collect_multi_planned :: "planned_lineage \<Rightarrow> token \<Rightarrow> planned_lineage \<times> nprov list" where
  "collect_multi_planned [] t = ([], [])"
| "collect_multi_planned ((c, pl) # pcs) t =
     (let ver = lineage_revision (c # plain pcs) in
      case read_current ver (pl_multi pl) t of
        Some v \<Rightarrow> ((c, pl) # pcs, v)
      | None \<Rightarrow>
          (let local = list_or_empty (js_get (ct_multi c) t) in
           case (if t \<in> set (ct_overridden c) then (pcs, local)
                 else (case collect_multi_planned pcs t of (pcs', v) \<Rightarrow> (pcs', v @ local))) of
             (pcs', v) \<Rightarrow>
               ((c, pl\<lparr>pl_multi := write_current ver t v (pl_multi pl)\<rparr>) # pcs', v)))"

text \<open>The two walks cache their own answer; the lookups inside them are the plain ones.\<close>

definition request_scope_verdict_planned ::
  "class_meta \<Rightarrow> planned_lineage \<Rightarrow> token \<Rightarrow> planned_lineage \<times> bool" where
  "request_scope_verdict_planned M pcs t =
     (case pcs of
        [] \<Rightarrow> ([], has_request_scoped_dependency M [] t)
      | (c, pl) # rest \<Rightarrow>
          (let ver = lineage_revision (plain pcs) in
           case read_current ver (pl_verdict pl) t of
             Some v \<Rightarrow> (pcs, v)
           | None \<Rightarrow>
               (let v = has_request_scoped_dependency M (plain pcs) t in
                ((c, pl\<lparr>pl_verdict := write_current ver t v (pl_verdict pl)\<rparr>) # rest, v))))"

definition effective_provider_planned ::
  "planned_lineage \<Rightarrow> token \<Rightarrow> planned_lineage \<times> (di_error, nprov option) result" where
  "effective_provider_planned pcs t =
     (case pcs of
        [] \<Rightarrow> ([], resolve_effective_provider [] t)
      | (c, pl) # rest \<Rightarrow>
          (let ver = lineage_revision (plain pcs) in
           case read_current ver (pl_effective pl) t of
             Some v \<Rightarrow> (pcs, v)
           | None \<Rightarrow>
               (case resolve_effective_provider (plain pcs) t of
                  Inl e \<Rightarrow> (pcs, Inl e)
                | Inr v \<Rightarrow>
                    ((c, pl\<lparr>pl_effective := write_current ver t (Inr v) (pl_effective pl)\<rparr>) # rest,
                     Inr v))))"

section \<open>Plans are versioned caches\<close>

text \<open>A registration changes containers of the lineage and raises the revision of each one it
  changes.\<close>

definition container_step :: "container \<Rightarrow> container \<Rightarrow> bool" where
  "container_step c c' \<longleftrightarrow> c' = c \<or> ct_revision c < ct_revision c'"

definition lineage_step :: "lineage \<Rightarrow> lineage \<Rightarrow> bool" where
  "lineage_step lin lin' \<longleftrightarrow> list_all2 container_step lin lin'"

lemma lineage_revision_rev: "lineage_revision lin = rev (map ct_revision lin)"
  by (induction lin) auto

lemma lineage_step_older:
  "lineage_step lin lin' \<Longrightarrow> list_all2 (\<le>) (lineage_revision lin) (lineage_revision lin')"
  unfolding lineage_step_def lineage_revision_rev
  by (simp add: list_all2_map1 list_all2_map2) (auto simp: container_step_def elim!: list_all2_mono)

lemma lineage_step_same:
  assumes "lineage_step lin lin'" and "lineage_revision lin' = lineage_revision lin"
  shows "lin' = lin"
proof -
  have "list_all2 container_step lin lin' \<Longrightarrow> map ct_revision lin' = map ct_revision lin \<Longrightarrow> lin' = lin"
    by (induction rule: list_all2_induct) (auto simp: container_step_def)
  then show ?thesis
    using assms by (simp add: lineage_step_def lineage_revision_rev)
qed

lemma revisions_antisym:
  "list_all2 (\<le>) xs ys \<Longrightarrow> list_all2 (\<le>) ys xs \<Longrightarrow> xs = (ys :: nat list)"
  by (induction rule: list_all2_induct) auto

lemma revisions_trans:
  "list_all2 (\<le>) xs ys \<Longrightarrow> list_all2 (\<le>) ys zs \<Longrightarrow> list_all2 (\<le>) xs (zs :: nat list)"
  by (rule list_all2_trans [of "(\<le>)" "(\<le>)" "(\<le>)"]) auto

lemmas revision_order =
  revisions_antisym revisions_trans lineage_step_older lineage_step_same list_all2_refl

interpretation lookup_plan: versioned_cache lineage_revision lookup_provider "list_all2 (\<le>)" lineage_step
  by unfold_locales (auto intro: revision_order dest: lineage_step_same)

interpretation multi_plan: versioned_cache lineage_revision collect_multi_providers "list_all2 (\<le>)" lineage_step
  by unfold_locales (auto intro: revision_order dest: lineage_step_same)

interpretation verdict_plan: versioned_cache lineage_revision "has_request_scoped_dependency M"
  "list_all2 (\<le>)" lineage_step for M
  by unfold_locales (auto intro: revision_order dest: lineage_step_same)

interpretation effective_plan: versioned_cache lineage_revision resolve_effective_provider
  "list_all2 (\<le>)" lineage_step
  by unfold_locales (auto intro: revision_order dest: lineage_step_same)

definition plans_fresh :: "class_meta \<Rightarrow> lineage \<Rightarrow> plans \<Rightarrow> bool" where
  "plans_fresh M lin pl \<longleftrightarrow>
     lookup_plan.fresh lin (pl_lookup pl) \<and> multi_plan.fresh lin (pl_multi pl) \<and>
     verdict_plan.fresh M lin (pl_verdict pl) \<and> effective_plan.fresh lin (pl_effective pl)"

fun all_fresh :: "class_meta \<Rightarrow> planned_lineage \<Rightarrow> bool" where
  "all_fresh M [] = True"
| "all_fresh M ((c, pl) # pcs) = (plans_fresh M (c # plain pcs) pl \<and> all_fresh M pcs)"

lemma plans_fresh_empty [simp]: "plans_fresh M lin no_plans"
  by (simp add: plans_fresh_def no_plans_def)

lemma plans_fresh_step: "plans_fresh M lin pl \<Longrightarrow> lineage_step lin lin' \<Longrightarrow> plans_fresh M lin' pl"
  unfolding plans_fresh_def
  by (blast intro: lookup_plan.fresh_step multi_plan.fresh_step verdict_plan.fresh_step
      effective_plan.fresh_step)

lemma lookup_planned:
  "all_fresh M pcs \<Longrightarrow>
   snd (lookup_provider_planned pcs t) = lookup_provider (plain pcs) t \<and>
   plain (fst (lookup_provider_planned pcs t)) = plain pcs \<and>
   all_fresh M (fst (lookup_provider_planned pcs t))"
proof (induction pcs t rule: lookup_provider_planned.induct)
  case (2 c pl pcs t)
  let ?lin = "c # plain pcs"
  have pl: "plans_fresh M ?lin pl" and pcs: "all_fresh M pcs"
    using 2(2) by auto
  have stored: "plans_fresh M ?lin
      (pl\<lparr>pl_lookup := write_current (lineage_revision ?lin) t (lookup_provider ?lin t) (pl_lookup pl)\<rparr>)"
    using pl lookup_plan.fresh_write [of ?lin "pl_lookup pl" t] unfolding plans_fresh_def by simp
  show ?case
  proof (cases "read_current (lineage_revision ?lin) (pl_lookup pl) t")
    case None
    have IH: "js_get (ct_registrations c) t = None \<Longrightarrow>
        snd (lookup_provider_planned pcs t) = lookup_provider (plain pcs) t \<and>
        plain (fst (lookup_provider_planned pcs t)) = plain pcs \<and>
        all_fresh M (fst (lookup_provider_planned pcs t))"
      using 2(1) None pcs by simp
    then show ?thesis
      using None stored pcs
      by (cases "js_get (ct_registrations c) t") (auto simp: Let_def split: prod.splits)
  next
    case (Some v)
    then show ?thesis
      using 2(2) lookup_plan.read_fresh [of ?lin "pl_lookup pl" t v] pl
      by (simp add: Let_def plans_fresh_def)
  qed
qed simp

lemma collect_planned:
  "all_fresh M pcs \<Longrightarrow>
   snd (collect_multi_planned pcs t) = collect_multi_providers (plain pcs) t \<and>
   plain (fst (collect_multi_planned pcs t)) = plain pcs \<and>
   all_fresh M (fst (collect_multi_planned pcs t))"
proof (induction pcs t rule: collect_multi_planned.induct)
  case (2 c pl pcs t)
  let ?lin = "c # plain pcs"
  have pl: "plans_fresh M ?lin pl" and pcs: "all_fresh M pcs"
    using 2(2) by auto
  have stored: "plans_fresh M ?lin
      (pl\<lparr>pl_multi := write_current (lineage_revision ?lin) t (collect_multi_providers ?lin t) (pl_multi pl)\<rparr>)"
    using pl multi_plan.fresh_write [of ?lin "pl_multi pl" t] unfolding plans_fresh_def by simp
  show ?case
  proof (cases "read_current (lineage_revision ?lin) (pl_multi pl) t")
    case None
    have IH: "t \<notin> set (ct_overridden c) \<Longrightarrow>
        snd (collect_multi_planned pcs t) = collect_multi_providers (plain pcs) t \<and>
        plain (fst (collect_multi_planned pcs t)) = plain pcs \<and>
        all_fresh M (fst (collect_multi_planned pcs t))"
      using 2(1) None pcs by simp
    then show ?thesis
      using None stored pcs
      by (cases "t \<in> set (ct_overridden c)") (auto simp: Let_def split: prod.splits)
  next
    case (Some v)
    then show ?thesis
      using 2(2) multi_plan.read_fresh [of ?lin "pl_multi pl" t v] pl
      by (simp add: Let_def plans_fresh_def)
  qed
qed simp

lemma verdict_planned:
  assumes "all_fresh M pcs"
  shows "snd (request_scope_verdict_planned M pcs t) = has_request_scoped_dependency M (plain pcs) t \<and>
         plain (fst (request_scope_verdict_planned M pcs t)) = plain pcs \<and>
         all_fresh M (fst (request_scope_verdict_planned M pcs t))"
proof (cases pcs)
  case (Cons x rest)
  obtain c pl where x: "x = (c, pl)"
    by fastforce
  let ?lin = "c # plain rest"
  have pl: "plans_fresh M ?lin pl"
    using assms Cons x by simp
  have stored: "plans_fresh M ?lin
      (pl\<lparr>pl_verdict := write_current (lineage_revision ?lin) t (has_request_scoped_dependency M ?lin t)
             (pl_verdict pl)\<rparr>)"
    using pl verdict_plan.fresh_write [of M ?lin "pl_verdict pl" t] unfolding plans_fresh_def by simp
  show ?thesis
    using assms Cons x stored verdict_plan.read_fresh [of M ?lin "pl_verdict pl" t] pl
    by (cases "read_current (lineage_revision ?lin) (pl_verdict pl) t")
      (auto simp: request_scope_verdict_planned_def plans_fresh_def Let_def)
qed (simp add: request_scope_verdict_planned_def)

lemma effective_planned:
  assumes "all_fresh M pcs"
  shows "snd (effective_provider_planned pcs t) = resolve_effective_provider (plain pcs) t \<and>
         plain (fst (effective_provider_planned pcs t)) = plain pcs \<and>
         all_fresh M (fst (effective_provider_planned pcs t))"
proof (cases pcs)
  case (Cons x rest)
  obtain c pl where x: "x = (c, pl)"
    by fastforce
  let ?lin = "c # plain rest"
  have pl: "plans_fresh M ?lin pl"
    using assms Cons x by simp
  have stored: "plans_fresh M ?lin
      (pl\<lparr>pl_effective := write_current (lineage_revision ?lin) t (resolve_effective_provider ?lin t)
             (pl_effective pl)\<rparr>)"
    using pl effective_plan.fresh_write [of ?lin "pl_effective pl" t] unfolding plans_fresh_def by simp
  show ?thesis
    using assms Cons x stored effective_plan.read_fresh [of ?lin "pl_effective pl" t] pl
    by (cases "read_current (lineage_revision ?lin) (pl_effective pl) t";
        cases "resolve_effective_provider ?lin t")
      (auto simp: effective_provider_planned_def plans_fresh_def Let_def)
qed (simp add: effective_provider_planned_def)

section \<open>Any history of changes and reads\<close>

text \<open>
  A change of the container at position \<open>i\<close> of the lineage (a registration, an override, a
  disposal) raises its revision and clears its own plans; clearing the caches at the end of
  a disposal only clears the plans. A read starts at position \<open>i\<close>.
\<close>

datatype plan_op = ChangeContainer nat "container \<Rightarrow> container" | ClearPlans nat
  | ReadLookup nat token | ReadMulti nat token | ReadVerdict nat token | ReadEffective nat token

definition read_at ::
  "nat \<Rightarrow> (planned_lineage \<Rightarrow> planned_lineage \<times> 'a) \<Rightarrow> planned_lineage \<Rightarrow> planned_lineage" where
  "read_at i f pcs = take i pcs @ fst (f (drop i pcs))"

definition change_at :: "nat \<Rightarrow> (container \<Rightarrow> container) \<Rightarrow> planned_lineage \<Rightarrow> planned_lineage" where
  "change_at i f pcs =
     (if i < length pcs then
        (let c = fst (pcs ! i) in
         pcs[i := (advance_graph_revision ((f c)\<lparr>ct_revision := ct_revision c\<rparr>), no_plans)])
      else pcs)"

definition clear_at :: "nat \<Rightarrow> planned_lineage \<Rightarrow> planned_lineage" where
  "clear_at i pcs = (if i < length pcs then pcs[i := (fst (pcs ! i), no_plans)] else pcs)"

fun plan_run :: "class_meta \<Rightarrow> plan_op list \<Rightarrow> planned_lineage \<Rightarrow> planned_lineage" where
  "plan_run M [] pcs = pcs"
| "plan_run M (ChangeContainer i f # ops) pcs = plan_run M ops (change_at i f pcs)"
| "plan_run M (ClearPlans i # ops) pcs = plan_run M ops (clear_at i pcs)"
| "plan_run M (ReadLookup i t # ops) pcs =
     plan_run M ops (read_at i (\<lambda>q. lookup_provider_planned q t) pcs)"
| "plan_run M (ReadMulti i t # ops) pcs =
     plan_run M ops (read_at i (\<lambda>q. collect_multi_planned q t) pcs)"
| "plan_run M (ReadVerdict i t # ops) pcs =
     plan_run M ops (read_at i (\<lambda>q. request_scope_verdict_planned M q t) pcs)"
| "plan_run M (ReadEffective i t # ops) pcs =
     plan_run M ops (read_at i (\<lambda>q. effective_provider_planned q t) pcs)"

lemma all_fresh_append:
  assumes "all_fresh M (pcs @ qs)" and "plain qs' = plain qs" and "all_fresh M qs'"
  shows "all_fresh M (pcs @ qs')"
  using assms
proof (induction pcs)
  case (Cons x pcs)
  obtain c pl where "x = (c, pl)"
    by fastforce
  then show ?case
    using Cons by simp
qed simp

lemma all_fresh_drop: "all_fresh M pcs \<Longrightarrow> all_fresh M (drop i pcs)"
proof (induction pcs arbitrary: i)
  case (Cons x pcs)
  obtain c pl where x: "x = (c, pl)"
    by fastforce
  then have "all_fresh M pcs"
    using Cons.prems by simp
  then show ?case
    using Cons x by (cases i) auto
qed simp

lemma read_at_fresh:
  assumes "all_fresh M pcs"
    and "plain (fst (f (drop i pcs))) = plain (drop i pcs)" and "all_fresh M (fst (f (drop i pcs)))"
  shows "all_fresh M (read_at i f pcs)"
proof -
  have "all_fresh M (take i pcs @ drop i pcs)"
    using assms(1) by simp
  then show ?thesis
    unfolding read_at_def using assms(2,3) by (rule all_fresh_append)
qed

lemma lineage_step_refl: "lineage_step lin lin"
  by (simp add: lineage_step_def container_step_def list_all2_refl)

lemma all_fresh_update:
  assumes "all_fresh M pcs" and "i < length pcs" and "container_step (fst (pcs ! i)) c"
  shows "all_fresh M (pcs[i := (c, no_plans)]) \<and>
         lineage_step (plain pcs) (plain (pcs[i := (c, no_plans)]))"
  using assms
proof (induction pcs arbitrary: i)
  case (Cons x pcs)
  obtain d pl where x: "x = (d, pl)"
    by fastforce
  show ?case
  proof (cases i)
    case 0
    then show ?thesis
      using Cons.prems x lineage_step_refl [of "plain pcs"] by (auto simp: lineage_step_def)
  next
    case (Suc j)
    then have IH: "all_fresh M (pcs[j := (c, no_plans)])"
        "lineage_step (plain pcs) (plain (pcs[j := (c, no_plans)]))"
      using Cons.IH [of j] Cons.prems x by auto
    then have step: "lineage_step (d # plain pcs) (d # plain (pcs[j := (c, no_plans)]))"
      by (simp add: lineage_step_def container_step_def)
    then have "plans_fresh M (d # plain (pcs[j := (c, no_plans)])) pl"
      using plans_fresh_step [OF _ step] Cons.prems(1) x by simp
    then show ?thesis
      using IH step x Suc by simp
  qed
qed simp

lemma plan_run_fresh: "all_fresh M pcs \<Longrightarrow> all_fresh M (plan_run M ops pcs)"
proof (induction M ops pcs rule: plan_run.induct)
  case (2 M i f ops pcs)
  then show ?case
    using all_fresh_update [of M pcs i] by (auto simp: change_at_def Let_def container_step_def)
next
  case (3 M i ops pcs)
  then show ?case
    using all_fresh_update [of M pcs i "fst (pcs ! i)"]
    by (auto simp: clear_at_def container_step_def)
next
  case (4 M i t ops pcs)
  then show ?case
    using read_at_fresh [of M pcs "\<lambda>q. lookup_provider_planned q t" i]
      lookup_planned [OF all_fresh_drop [OF 4(2)]] by simp
next
  case (5 M i t ops pcs)
  then show ?case
    using read_at_fresh [of M pcs "\<lambda>q. collect_multi_planned q t" i]
      collect_planned [OF all_fresh_drop [OF 5(2)]] by simp
next
  case (6 M i t ops pcs)
  then show ?case
    using read_at_fresh [of M pcs "\<lambda>q. request_scope_verdict_planned M q t" i]
      verdict_planned [OF all_fresh_drop [OF 6(2)]] by simp
next
  case (7 M i t ops pcs)
  then show ?case
    using read_at_fresh [of M pcs "\<lambda>q. effective_provider_planned q t" i]
      effective_planned [OF all_fresh_drop [OF 7(2)]] by simp
qed simp

lemma all_fresh_no_plans: "all_fresh M (map (\<lambda>c. (c, no_plans)) lin)"
  by (induction lin) auto

text \<open>The plan caches are transparent: after any sequence of changes to the containers of a
  parent chain and of cached reads anywhere in it, every cached read (a provider lookup, the
  multi providers, the request-scope verdict, the end of an alias chain) gives what the
  plain walk over the current registrations gives.\<close>

theorem plan_caches_transparent:
  "snd (lookup_provider_planned (drop i (plan_run M ops (map (\<lambda>c. (c, no_plans)) lin))) t) =
     lookup_provider (plain (drop i (plan_run M ops (map (\<lambda>c. (c, no_plans)) lin)))) t \<and>
   snd (collect_multi_planned (drop i (plan_run M ops (map (\<lambda>c. (c, no_plans)) lin))) t) =
     collect_multi_providers (plain (drop i (plan_run M ops (map (\<lambda>c. (c, no_plans)) lin)))) t \<and>
   snd (request_scope_verdict_planned M (drop i (plan_run M ops (map (\<lambda>c. (c, no_plans)) lin))) t) =
     has_request_scoped_dependency M (plain (drop i (plan_run M ops (map (\<lambda>c. (c, no_plans)) lin)))) t \<and>
   snd (effective_provider_planned (drop i (plan_run M ops (map (\<lambda>c. (c, no_plans)) lin))) t) =
     resolve_effective_provider (plain (drop i (plan_run M ops (map (\<lambda>c. (c, no_plans)) lin)))) t"
proof -
  have "all_fresh M (drop i (plan_run M ops (map (\<lambda>c. (c, no_plans)) lin)))"
    by (intro all_fresh_drop plan_run_fresh all_fresh_no_plans)
  then show ?thesis
    using lookup_planned collect_planned verdict_planned effective_planned by blast
qed

section \<open>The operations raise the revision\<close>

lemma register_one_revision:
  "register_one M lin pid pr = Inr c \<Longrightarrow> ct_revision c = ct_revision (hd lin) + 1"
  by (auto simp: register_one_def store_registration_def split: sum.splits if_splits option.splits)

lemma replace_registration_revision:
  "ct_revision (replace_registration t ps c) = ct_revision c + 1"
  by (simp add: replace_registration_def Let_def)

end
