(* ===== verification/Module_Graph.thy ===== *)
theory Module_Graph
  imports Di_Types Topo_Sort
begin

text \<open>
  \<open>packages/core/src/metadata/module.ts\<close> and \<open>packages/runtime/src/module-graph.ts\<close>: the
  store of module metadata, and compilation of the module graph: imports first, then the
  checks of injection metadata, visibility and exports, with the opt-in compile cache.
  Snapshots are values here, so freezing and cloning of the compiled records leave no trace.
\<close>

section \<open>Module metadata\<close>

text \<open>A middleware is an opaque value; it is carried, never looked at.\<close>

record module_meta =
  mm_controllers :: "cls list option"
  mm_exports :: "token list option"
  mm_global :: "bool option"
  mm_imports :: "cls list option"
  mm_middleware :: "nat list option"
  mm_providers :: "provider list option"

record metadata_store =
  ms_modules :: "(cls, module_meta) js_map"
  ms_module_version :: nat
  ms_di :: di_store

definition empty_metadata_store :: metadata_store where
  "empty_metadata_store = \<lparr>ms_modules = [], ms_module_version = 0, ms_di = empty_di_store\<rparr>"

definition define_module_metadata :: "cls \<Rightarrow> module_meta \<Rightarrow> metadata_store \<Rightarrow> metadata_store" where
  "define_module_metadata target m s =
     (let existing = js_get (ms_modules s) target in
      s\<lparr>ms_modules := js_set target
          \<lparr>mm_controllers = js_or (mm_controllers m) (Option.bind existing mm_controllers),
           mm_exports = js_or (mm_exports m) (Option.bind existing mm_exports),
           mm_global = js_or (mm_global m) (Option.bind existing mm_global),
           mm_imports = js_or (mm_imports m) (Option.bind existing mm_imports),
           mm_middleware = js_or (mm_middleware m) (Option.bind existing mm_middleware),
           mm_providers = js_or (mm_providers m) (Option.bind existing mm_providers)\<rparr>
          (ms_modules s),
        ms_module_version := ms_module_version s + 1\<rparr>)"

definition get_module_metadata :: "metadata_store \<Rightarrow> cls \<Rightarrow> module_meta option" where
  "get_module_metadata s target = js_get (ms_modules s) target"

text \<open>Effective class metadata, as \<open>get_class_di_metadata\<close> returns it from a fresh store.\<close>

definition effective_inject :: "metadata_store \<Rightarrow> cls \<Rightarrow> inject_entry list option" where
  "effective_inject s c = Option.bind (effective_di_meta (ms_di s) c) dm_inject"

section \<open>Definitions and compiled modules\<close>

record module_definition =
  md_global :: bool
  md_imports :: "cls list"
  md_providers :: "provider list"
  md_controllers :: "cls list"
  md_exports :: "token list"
  md_middleware :: "nat list"

record compiled_module =
  cm_type :: cls
  cm_definition :: module_definition
  cm_accessible :: "token list"
  cm_exported :: "token list"
  cm_imported_exported :: "token list"
  cm_provider_tokens :: "token list"

text \<open>\<open>subject\<close> of an error message: a provider or a controller.\<close>

datatype module_error =
    CircularImport cls
  | NotCompiled cls
  | MissingInjection cls nat nat
  | ProviderCannotAccess cls "token option" "token option"
  | ControllerCannotAccess cls cls "token option"
  | CannotExport cls token

definition normalize_module_definition :: "module_meta option \<Rightarrow> module_definition" where
  "normalize_module_definition raw =
     (case raw of
        None \<Rightarrow> \<lparr>md_global = False, md_imports = [], md_providers = [], md_controllers = [],
                 md_exports = [], md_middleware = []\<rparr>
      | Some m \<Rightarrow>
          \<lparr>md_global = (mm_global m = Some True),
           md_imports = list_or_empty (mm_imports m),
           md_providers = list_or_empty (mm_providers m),
           md_controllers = list_or_empty (mm_controllers m),
           md_exports = list_or_empty (mm_exports m),
           md_middleware = list_or_empty (mm_middleware m)\<rparr>)"

definition definition_of :: "metadata_store \<Rightarrow> cls \<Rightarrow> module_definition" where
  "definition_of s c = normalize_module_definition (get_module_metadata s c)"

text \<open>Provider objects have a \<open>provide\<close> token by their type; one without adds no token.\<close>

definition provider_token :: "provider \<Rightarrow> token option" where
  "provider_token p = (case p of ClassShorthand c \<Rightarrow> Some (TokClass c) | ObjectProvider o' \<Rightarrow> po_provide o')"

text \<open>A \<open>Set\<close> keeps first occurrences in order.\<close>

definition js_set_of :: "'a list \<Rightarrow> 'a list" where
  "js_set_of xs = rev (remdups (rev xs))"

definition create_runtime_token_set :: "provider list \<Rightarrow> token list" where
  "create_runtime_token_set ps = js_set_of (List.map_filter provider_token ps)"

definition merge_runtime_token_sets :: "provider list \<Rightarrow> token list \<Rightarrow> token list" where
  "merge_runtime_token_sets ps validation = js_set_of (create_runtime_token_set ps @ validation)"

section \<open>Injection metadata\<close>

fun resolve_injection_token :: "inject_entry \<Rightarrow> token option" where
  "resolve_injection_token (Dep t) = Some t"
| "resolve_injection_token (ForwardRef i t) = Some t"
| "resolve_injection_token (OptionalDep t) = Some t"
| "resolve_injection_token NullDep = None"

definition provider_dependencies :: "metadata_store \<Rightarrow> provider \<Rightarrow> inject_entry list" where
  "provider_dependencies s p =
     (case p of
        ClassShorthand c \<Rightarrow> list_or_empty (effective_inject s c)
      | ObjectProvider o' \<Rightarrow>
          if po_useFactory o' \<noteq> None then list_or_empty (po_inject o')
          else
            (case po_useClass o' of
               Some (ClassCtor c) \<Rightarrow> list_or_empty (js_or (po_inject o') (effective_inject s c))
             | Some NotAConstructor \<Rightarrow> list_or_empty (po_inject o')
             | None \<Rightarrow> []))"

definition required_constructor_parameters :: "metadata_store \<Rightarrow> cls \<Rightarrow> nat" where
  "required_constructor_parameters s c =
     (if Option.bind (get_own_class_di_metadata (ms_di s) c) dm_inject \<noteq> None then 0
      else cls_length c)"

definition validate_class_injection ::
  "metadata_store \<Rightarrow> cls \<Rightarrow> inject_entry list \<Rightarrow> (module_error, unit) result" where
  "validate_class_injection s c inject =
     (let required = required_constructor_parameters s c in
      if required = 0 \<or> length inject \<ge> required then Inr ()
      else Inl (MissingInjection c required (length inject)))"

definition validate_provider_injection ::
  "metadata_store \<Rightarrow> provider \<Rightarrow> (module_error, unit) result" where
  "validate_provider_injection s p =
     (case p of
        ClassShorthand c \<Rightarrow> validate_class_injection s c (list_or_empty (effective_inject s c))
      | ObjectProvider o' \<Rightarrow>
          (case po_useClass o' of
             Some (ClassCtor c) \<Rightarrow>
               validate_class_injection s c (list_or_empty (js_or (po_inject o') (effective_inject s c)))
           | _ \<Rightarrow> Inr ()))"

definition validate_controller_injection ::
  "metadata_store \<Rightarrow> cls \<Rightarrow> (module_error, unit) result" where
  "validate_controller_injection s c =
     validate_class_injection s c (list_or_empty (effective_inject s c))"

section \<open>Compiling\<close>

text \<open>\<open>compiled\<close> and \<open>ordered\<close> hold the same records; the second is the first in order.\<close>

definition new_compiled :: "metadata_store \<Rightarrow> cls \<Rightarrow> compiled_module" where
  "new_compiled s t =
     \<lparr>cm_type = t, cm_definition = definition_of s t, cm_accessible = [], cm_exported = [],
      cm_imported_exported = [],
      cm_provider_tokens = create_runtime_token_set (md_providers (definition_of s t))\<rparr>"

definition module_graph :: "metadata_store \<Rightarrow> (cls \<times> cls list) list" where
  "module_graph s = map (\<lambda>(c, m). (c, md_imports (normalize_module_definition (Some m)))) (ms_modules s)"

lemma map_of_module_graph:
  "map_of (module_graph s) c =
   map_option (\<lambda>m. md_imports (normalize_module_definition (Some m))) (get_module_metadata s c)"
proof -
  have "map_of (map (\<lambda>(c, m). (c, md_imports (normalize_module_definition (Some m)))) ms) c =
        map_option (\<lambda>m. md_imports (normalize_module_definition (Some m))) (map_of ms c)" for ms
    by (induction ms) auto
  then show ?thesis
    by (simp add: module_graph_def get_module_metadata_def)
qed

lemma imports_known:
  assumes "md_imports (definition_of s t) \<noteq> []"
  shows "map_of (module_graph s) t = Some (md_imports (definition_of s t))"
  using assms
  by (cases "get_module_metadata s t")
    (auto simp: map_of_module_graph definition_of_def normalize_module_definition_def)

function compile_module ::
  "metadata_store \<Rightarrow> cls set \<Rightarrow> cls \<Rightarrow> compiled_module list \<Rightarrow>
   (module_error, compiled_module list) result"
and compile_imports ::
  "metadata_store \<Rightarrow> cls set \<Rightarrow> cls list \<Rightarrow> compiled_module list \<Rightarrow>
   (module_error, compiled_module list) result"
where
  "compile_module s visiting t ordered =
     (if t \<in> cm_type ` set ordered then Inr ordered
      else if t \<in> visiting then Inl (CircularImport t)
      else
        (case md_imports (definition_of s t) of
           [] \<Rightarrow> Inr (ordered @ [new_compiled s t])
         | i # is \<Rightarrow>
             (case compile_imports s (insert t visiting) (i # is) ordered of
                Inl e \<Rightarrow> Inl e
              | Inr ordered' \<Rightarrow> Inr (ordered' @ [new_compiled s t]))))"
| "compile_imports s visiting [] ordered = Inr ordered"
| "compile_imports s visiting (i # is) ordered =
     (case compile_module s visiting i ordered of
        Inl e \<Rightarrow> Inl e
      | Inr ordered' \<Rightarrow> compile_imports s visiting is ordered')"
  by pat_completeness auto
termination
proof (relation "measures
    [\<lambda>x. case x of Inl (s, vis, t, ord) \<Rightarrow> card (dom (map_of (module_graph s)) - vis)
                 | Inr (s, vis, is, ord) \<Rightarrow> card (dom (map_of (module_graph s)) - vis),
     \<lambda>x. case x of Inl _ \<Rightarrow> 0 | Inr (s, vis, is, ord) \<Rightarrow> Suc (length is)]", goal_cases)
  case (2 s vis t ordered i "is")
  then have "map_of (module_graph s) t = Some (md_imports (definition_of s t))"
    by (intro imports_known) simp
  then show ?case
    using 2 card_unvisited_less by auto
qed auto

declare compile_module.simps [simp del]

section \<open>Visibility\<close>

text \<open>The compiled modules so far, by type, with the latest record of each.\<close>

type_synonym compiled_map = "(cls, compiled_module) js_map"

fun resolve_imported_modules ::
  "compiled_map \<Rightarrow> cls list \<Rightarrow> (module_error, compiled_module list) result" where
  "resolve_imported_modules m [] = Inr []"
| "resolve_imported_modules m (i # is) =
     (case js_get m i of
        None \<Rightarrow> Inl (NotCompiled i)
      | Some c \<Rightarrow>
          (case resolve_imported_modules m is of Inl e \<Rightarrow> Inl e | Inr cs \<Rightarrow> Inr (c # cs)))"

definition create_imported_exported_token_set :: "compiled_module list \<Rightarrow> token list" where
  "create_imported_exported_token_set cs = js_set_of (concat (map cm_exported cs))"

definition create_accessible_token_set ::
  "token list \<Rightarrow> token list \<Rightarrow> token list \<Rightarrow> token list \<Rightarrow> token list" where
  "create_accessible_token_set runtime own imported global =
     js_set_of (runtime @ own @ imported @ global)"

definition memoize_accessible_token_set ::
  "compiled_module \<Rightarrow> compiled_module list \<Rightarrow> token list \<Rightarrow> token list \<Rightarrow> compiled_module" where
  "memoize_accessible_token_set c imported runtime global =
     (let ie = create_imported_exported_token_set imported in
      c\<lparr>cm_imported_exported := ie,
        cm_accessible := create_accessible_token_set runtime (cm_provider_tokens c) ie global\<rparr>)"

definition accessible_entry :: "token list \<Rightarrow> inject_entry \<Rightarrow> bool" where
  "accessible_entry accessible e =
     (case resolve_injection_token e of None \<Rightarrow> False | Some t \<Rightarrow> t \<in> set accessible)"

definition first_hidden :: "token list \<Rightarrow> inject_entry list \<Rightarrow> inject_entry option" where
  "first_hidden accessible es = List.find (\<lambda>e. \<not> accessible_entry accessible e) es"

fun validate_provider_visibility ::
  "metadata_store \<Rightarrow> compiled_module \<Rightarrow> provider list \<Rightarrow> (module_error, unit) result" where
  "validate_provider_visibility s c [] = Inr ()"
| "validate_provider_visibility s c (p # ps) =
     (case validate_provider_injection s p of
        Inl e \<Rightarrow> Inl e
      | Inr _ \<Rightarrow>
          (case first_hidden (cm_accessible c) (provider_dependencies s p) of
             Some e \<Rightarrow> Inl (ProviderCannotAccess (cm_type c) (provider_token p) (resolve_injection_token e))
           | None \<Rightarrow> validate_provider_visibility s c ps))"

fun validate_controller_visibility ::
  "metadata_store \<Rightarrow> compiled_module \<Rightarrow> cls list \<Rightarrow> (module_error, unit) result" where
  "validate_controller_visibility s c [] = Inr ()"
| "validate_controller_visibility s c (k # ks) =
     (case validate_controller_injection s k of
        Inl e \<Rightarrow> Inl e
      | Inr _ \<Rightarrow>
          (case first_hidden (cm_accessible c) (list_or_empty (effective_inject s k)) of
             Some e \<Rightarrow> Inl (ControllerCannotAccess (cm_type c) k (resolve_injection_token e))
           | None \<Rightarrow> validate_controller_visibility s c ks))"

definition create_exported_token_set :: "compiled_module \<Rightarrow> (module_error, token list) result" where
  "create_exported_token_set c =
     (case List.find (\<lambda>t. t \<notin> set (cm_provider_tokens c) \<and> t \<notin> set (cm_imported_exported c))
             (md_exports (cm_definition c)) of
        Some t \<Rightarrow> Inl (CannotExport (cm_type c) t)
      | None \<Rightarrow> Inr (js_set_of (md_exports (cm_definition c))))"

fun validate_runtime_providers :: "metadata_store \<Rightarrow> provider list \<Rightarrow> (module_error, unit) result" where
  "validate_runtime_providers s [] = Inr ()"
| "validate_runtime_providers s (p # ps) =
     (case validate_provider_injection s p of
        Inl e \<Rightarrow> Inl e
      | Inr _ \<Rightarrow> validate_runtime_providers s ps)"

definition global_exported_tokens :: "compiled_module list \<Rightarrow> token list" where
  "global_exported_tokens ms =
     js_set_of (concat (map (\<lambda>c. md_exports (cm_definition c))
       (filter (\<lambda>c. md_global (cm_definition c)) ms)))"

text \<open>One round of the last loop of \<open>validateCompiledModules\<close>.\<close>

definition validate_module ::
  "metadata_store \<Rightarrow> token list \<Rightarrow> token list \<Rightarrow> compiled_map \<Rightarrow> compiled_module \<Rightarrow>
   (module_error, compiled_module) result" where
  "validate_module s runtime global m c =
     (case resolve_imported_modules m (md_imports (cm_definition c)) of
        Inl e \<Rightarrow> Inl e
      | Inr imported \<Rightarrow>
          (let c1 = memoize_accessible_token_set c imported runtime global in
           case validate_provider_visibility s c1 (md_providers (cm_definition c)) of
             Inl e \<Rightarrow> Inl e
           | Inr _ \<Rightarrow>
               (case validate_controller_visibility s c1 (md_controllers (cm_definition c)) of
                  Inl e \<Rightarrow> Inl e
                | Inr _ \<Rightarrow>
                    (case create_exported_token_set c1 of
                       Inl e \<Rightarrow> Inl e
                     | Inr ts \<Rightarrow> Inr (c1\<lparr>cm_exported := ts\<rparr>)))))"

text \<open>The loop updates the records the map holds; \<open>finished\<close> are those it is done with.\<close>

fun validate_modules ::
  "metadata_store \<Rightarrow> token list \<Rightarrow> token list \<Rightarrow> compiled_map \<Rightarrow> compiled_module list \<Rightarrow>
   (module_error, compiled_module list) result" where
  "validate_modules s runtime global m [] = Inr []"
| "validate_modules s runtime global m (c # cs) =
     (case validate_module s runtime global m c of
        Inl e \<Rightarrow> Inl e
      | Inr c' \<Rightarrow>
          (case validate_modules s runtime global (js_set (cm_type c) c' m) cs of
             Inl e \<Rightarrow> Inl e
           | Inr cs' \<Rightarrow> Inr (c' # cs')))"

definition compiled_by_type :: "compiled_module list \<Rightarrow> compiled_map" where
  "compiled_by_type ms = fold (\<lambda>c. js_set (cm_type c) c) ms []"

definition validate_compiled_modules ::
  "metadata_store \<Rightarrow> compiled_module list \<Rightarrow> provider list \<Rightarrow> token list \<Rightarrow>
   (module_error, compiled_module list) result" where
  "validate_compiled_modules s ms runtime_providers runtime =
     (case validate_runtime_providers s runtime_providers of
        Inl e \<Rightarrow> Inl e
      | Inr _ \<Rightarrow>
          validate_modules s runtime (global_exported_tokens ms) (compiled_by_type ms) ms)"

text \<open>\<open>compileModuleGraph\<close> without the cache.\<close>

definition compile_module_graph ::
  "metadata_store \<Rightarrow> cls \<Rightarrow> provider list \<Rightarrow> token list \<Rightarrow> (module_error, compiled_module list) result"
where
  "compile_module_graph s root providers validation =
     (case compile_module s {} root [] of
        Inl e \<Rightarrow> Inl e
      | Inr ordered \<Rightarrow>
          validate_compiled_modules s ordered providers (merge_runtime_token_sets providers validation))"

end
