(* ===== verification/Module_Graph_Facts.thy ===== *)
theory Module_Graph_Facts
  imports Module_Graph
begin

text \<open>
  What compiling a module graph guarantees: the order of the modules, exactly which graphs
  are accepted, and what is visible where.
\<close>

section \<open>Order\<close>

definition imports_of :: "metadata_store \<Rightarrow> (cls \<times> cls) set" where
  "imports_of s = {(c, d). d \<in> set (md_imports (definition_of s c))}"

lemma edges_module_graph: "edges_of (module_graph s) = imports_of s"
proof -
  have "succ_of (module_graph s) c = set (md_imports (definition_of s c))" for c
    by (cases "get_module_metadata s c")
      (auto simp: succ_of_def map_of_module_graph definition_of_def normalize_module_definition_def)
  then show ?thesis
    by (auto simp: edges_of_def imports_of_def)
qed

fun module_topo_error :: "cls topo_error \<Rightarrow> module_error" where
  "module_topo_error (Cycle c) = CircularImport c"
| "module_topo_error (Missing c) = NotCompiled c"

lemma cm_type_new [simp]: "cm_type (new_compiled s t) = t"
  by (simp add: new_compiled_def)

lemma compile_module_topo:
  "\<not> strict \<Longrightarrow> g = module_graph s \<Longrightarrow>
   compile_module s vis t (map (new_compiled s) ids) =
     (case topo_visit strict g vis t ids of
        Inl e \<Rightarrow> Inl (module_topo_error e) | Inr d \<Rightarrow> Inr (map (new_compiled s) d))"
  "\<not> strict \<Longrightarrow> g = module_graph s \<Longrightarrow>
   compile_imports s vis ts (map (new_compiled s) ids) =
     (case topo_visits strict g vis ts ids of
        Inl e \<Rightarrow> Inl (module_topo_error e) | Inr d \<Rightarrow> Inr (map (new_compiled s) d))"
proof (induction strict g vis t ids and strict g vis ts ids
    rule: topo_visit_topo_visits.induct)
  case (1 strict g vis n dn)
  have types: "cm_type ` set (map (new_compiled s) dn) = set dn"
    by (simp add: image_image)
  note unfold = compile_module.simps [of s vis n "map (new_compiled s) dn"]
    topo_visit.simps [of strict g vis n dn]
  show ?case
  proof (cases "n \<in> set dn \<or> n \<in> vis")
    case True
    then show ?thesis
      using types unfold by auto
  next
    case False
    then have fresh: "n \<notin> set dn" "n \<notin> vis"
      by auto
    show ?thesis
    proof (cases "md_imports (definition_of s n)")
      case Nil
      have "map_of g n = None \<or> map_of g n = Some []"
        using Nil "1.prems"(2)
        by (cases "get_module_metadata s n") (auto simp: map_of_module_graph definition_of_def)
      then show ?thesis
        using fresh types unfold Nil "1.prems"(1) by auto
    next
      case (Cons i "is")
      then have g: "map_of g n = Some (i # is)"
        using imports_known [of s n] "1.prems"(2) by simp
      from "1.IH" [OF fresh g "1.prems"] show ?thesis
        using fresh types unfold Cons g by (auto split: sum.splits)
    qed
  qed
next
  case (3 strict g vis n ns dn)
  then show ?case
    by (simp split: sum.splits)
qed simp

lemma compile_root_topo:
  "compile_module s {} root [] =
     (case topo_run False (module_graph s) [root] of
        Inl e \<Rightarrow> Inl (module_topo_error e) | Inr d \<Rightarrow> Inr (map (new_compiled s) d))"
proof -
  have "topo_run False (module_graph s) [root] = topo_visit False (module_graph s) {} root []"
    by (simp add: topo_run_def split: sum.splits)
  then show ?thesis
    using compile_module_topo(1) [of False "module_graph s" s "{}" root "[]"] by simp
qed

section \<open>Sets\<close>

lemma set_js_set_of [simp]: "set (js_set_of xs) = set xs"
  by (simp add: js_set_of_def)

lemma first_hidden_None:
  "first_hidden acc es = None \<longleftrightarrow> (\<forall>e \<in> set es. accessible_entry acc e)"
  by (auto simp: first_hidden_def find_None_iff)

lemma validate_provider_visibility_ok:
  "is_ok (validate_provider_visibility s c ps) \<longleftrightarrow>
   (\<forall>p \<in> set ps. is_ok (validate_provider_injection s p) \<and>
      (\<forall>e \<in> set (provider_dependencies s p). accessible_entry (cm_accessible c) e))"
proof (induction ps)
  case (Cons p ps)
  then show ?case
    using first_hidden_None [of "cm_accessible c" "provider_dependencies s p"]
    by (auto split: sum.splits option.splits)
qed simp

lemma validate_controller_visibility_ok:
  "is_ok (validate_controller_visibility s c ks) \<longleftrightarrow>
   (\<forall>k \<in> set ks. is_ok (validate_controller_injection s k) \<and>
      (\<forall>e \<in> set (list_or_empty (effective_inject s k)). accessible_entry (cm_accessible c) e))"
proof (induction ks)
  case (Cons k ks)
  then show ?case
    using first_hidden_None [of "cm_accessible c" "list_or_empty (effective_inject s k)"]
    by (auto split: sum.splits option.splits)
qed simp

lemma create_exported_ok:
  "create_exported_token_set c = Inr ts \<longleftrightarrow>
   ts = js_set_of (md_exports (cm_definition c)) \<and>
   (\<forall>t \<in> set (md_exports (cm_definition c)).
      t \<in> set (cm_provider_tokens c) \<or> t \<in> set (cm_imported_exported c))"
  using find_None_iff [of "\<lambda>t. t \<notin> set (cm_provider_tokens c) \<and> t \<notin> set (cm_imported_exported c)"
      "md_exports (cm_definition c)"]
  by (auto simp: create_exported_token_set_def split: option.splits)

lemma validate_runtime_ok:
  "is_ok (validate_runtime_providers s ps) \<longleftrightarrow> (\<forall>p \<in> set ps. is_ok (validate_provider_injection s p))"
  by (induction ps) (auto split: sum.splits)

lemma resolve_imported_ok:
  "(\<forall>i \<in> set is. js_get m i \<noteq> None) \<Longrightarrow> resolve_imported_modules m is = Inr (map (\<lambda>i. the (js_get m i)) is)"
  by (induction "is") auto

section \<open>The specification\<close>

text \<open>What a module declares, and what it may use: tokens of the runtime, its own providers,
  the exports of the modules it imports, and the exports of global modules of the graph.\<close>

definition own_tokens :: "metadata_store \<Rightarrow> cls \<Rightarrow> token set" where
  "own_tokens s c = set (List.map_filter provider_token (md_providers (definition_of s c)))"

definition exports_of :: "metadata_store \<Rightarrow> cls \<Rightarrow> token set" where
  "exports_of s c = set (md_exports (definition_of s c))"

definition visible_tokens :: "metadata_store \<Rightarrow> token set \<Rightarrow> cls set \<Rightarrow> cls \<Rightarrow> token set" where
  "visible_tokens s runtime modules c =
     runtime \<union> own_tokens s c \<union>
     (\<Union>i \<in> set (md_imports (definition_of s c)). exports_of s i) \<union>
     (\<Union>g \<in> {g \<in> modules. md_global (definition_of s g)}. exports_of s g)"

definition entry_visible :: "token set \<Rightarrow> inject_entry \<Rightarrow> bool" where
  "entry_visible V e \<longleftrightarrow> (\<exists>t \<in> V. resolve_injection_token e = Some t)"

definition module_valid :: "metadata_store \<Rightarrow> token set \<Rightarrow> cls set \<Rightarrow> cls \<Rightarrow> bool" where
  "module_valid s runtime modules c \<longleftrightarrow>
     (\<forall>p \<in> set (md_providers (definition_of s c)). is_ok (validate_provider_injection s p) \<and>
        (\<forall>e \<in> set (provider_dependencies s p). entry_visible (visible_tokens s runtime modules c) e)) \<and>
     (\<forall>k \<in> set (md_controllers (definition_of s c)). is_ok (validate_controller_injection s k) \<and>
        (\<forall>e \<in> set (list_or_empty (effective_inject s k)).
           entry_visible (visible_tokens s runtime modules c) e)) \<and>
     (\<forall>t \<in> exports_of s c.
        t \<in> own_tokens s c \<or> (\<exists>i \<in> set (md_imports (definition_of s c)). t \<in> exports_of s i))"

lemma accessible_entry_set: "accessible_entry acc e \<longleftrightarrow> entry_visible (set acc) e"
  by (auto simp: accessible_entry_def entry_visible_def split: option.splits)

text \<open>One module, when its imports are done.\<close>

definition imports_done :: "metadata_store \<Rightarrow> compiled_map \<Rightarrow> cls set \<Rightarrow> bool" where
  "imports_done s m seen \<longleftrightarrow>
     (\<forall>t \<in> seen. \<exists>c. js_get m t = Some c \<and> set (cm_exported c) = exports_of s t)"

lemma new_compiled_fields [simp]:
  "cm_definition (new_compiled s t) = definition_of s t"
  "set (cm_provider_tokens (new_compiled s t)) = own_tokens s t"
  by (simp_all add: new_compiled_def own_tokens_def create_runtime_token_set_def)

lemma validate_module_spec:
  assumes "imports_done s m seen" and "set (md_imports (definition_of s t)) \<subseteq> seen"
    and "set global = (\<Union>g \<in> {g \<in> modules. md_global (definition_of s g)}. exports_of s g)"
  shows "is_ok (validate_module s runtime global m (new_compiled s t)) \<longleftrightarrow>
           module_valid s (set runtime) modules t"
    and "validate_module s runtime global m (new_compiled s t) = Inr c \<Longrightarrow>
           cm_type c = t \<and> cm_definition c = definition_of s t \<and>
           set (cm_exported c) = exports_of s t \<and>
           set (cm_accessible c) = visible_tokens s (set runtime) modules t"
proof -
  let ?is = "md_imports (definition_of s t)"
  let ?imported = "map (\<lambda>i. the (js_get m i)) ?is"
  have imported: "resolve_imported_modules m ?is = Inr ?imported"
    using assms(1,2) by (intro resolve_imported_ok) (auto simp: imports_done_def)
  let ?c = "memoize_accessible_token_set (new_compiled s t) ?imported runtime global"
  have exported: "set (cm_exported (the (js_get m i))) = exports_of s i" if "i \<in> set ?is" for i
    using that assms(1,2) by (fastforce simp: imports_done_def)
  have ie: "set (cm_imported_exported ?c) = (\<Union>i \<in> set ?is. exports_of s i)"
    using exported by (auto simp: memoize_accessible_token_set_def Let_def create_imported_exported_token_set_def)
  have acc: "set (cm_accessible ?c) = visible_tokens s (set runtime) modules t"
    using ie assms(3)
    by (auto simp: memoize_accessible_token_set_def Let_def create_accessible_token_set_def visible_tokens_def)
  have fields: "cm_type ?c = t" "cm_definition ?c = definition_of s t"
      "set (cm_provider_tokens ?c) = own_tokens s t"
    by (simp_all add: memoize_accessible_token_set_def Let_def)
  have run: "validate_module s runtime global m (new_compiled s t) =
      (case validate_provider_visibility s ?c (md_providers (definition_of s t)) of
         Inl e \<Rightarrow> Inl e
       | Inr _ \<Rightarrow>
           (case validate_controller_visibility s ?c (md_controllers (definition_of s t)) of
              Inl e \<Rightarrow> Inl e
            | Inr _ \<Rightarrow>
                (case create_exported_token_set ?c of
                   Inl e \<Rightarrow> Inl e | Inr ts \<Rightarrow> Inr (?c\<lparr>cm_exported := ts\<rparr>))))"
    unfolding validate_module_def Let_def new_compiled_fields(1) imported by simp
  have "is_ok (validate_module s runtime global m (new_compiled s t)) \<longleftrightarrow>
      is_ok (validate_provider_visibility s ?c (md_providers (definition_of s t))) \<and>
      is_ok (validate_controller_visibility s ?c (md_controllers (definition_of s t))) \<and>
      is_ok (create_exported_token_set ?c)"
    unfolding run by (auto split: sum.splits)
  moreover have "is_ok (create_exported_token_set ?c) \<longleftrightarrow>
      (\<forall>u \<in> exports_of s t. u \<in> own_tokens s t \<or> (\<exists>i \<in> set ?is. u \<in> exports_of s i))"
    using ie fields unfolding is_ok_iff create_exported_ok by (simp add: exports_of_def)
  ultimately show "is_ok (validate_module s runtime global m (new_compiled s t)) \<longleftrightarrow>
      module_valid s (set runtime) modules t"
    by (simp add: module_valid_def validate_provider_visibility_ok validate_controller_visibility_ok
        accessible_entry_set acc)
  show "cm_type c = t \<and> cm_definition c = definition_of s t \<and>
      set (cm_exported c) = exports_of s t \<and>
      set (cm_accessible c) = visible_tokens s (set runtime) modules t"
    if "validate_module s runtime global m (new_compiled s t) = Inr c"
    using that fields acc unfolding run
    by (auto simp: create_exported_ok exports_of_def split: sum.splits)
qed

text \<open>All modules, in an order that lists imports first.\<close>

definition compiled_as :: "metadata_store \<Rightarrow> token set \<Rightarrow> cls set \<Rightarrow> cls \<Rightarrow> compiled_module \<Rightarrow> bool" where
  "compiled_as s runtime modules t c \<longleftrightarrow>
     cm_type c = t \<and> cm_definition c = definition_of s t \<and>
     set (cm_exported c) = exports_of s t \<and> set (cm_accessible c) = visible_tokens s runtime modules t"

lemma validate_modules_spec:
  assumes "imports_done s m seen" and "deps_first (module_graph s) seen ts"
    and "set global = (\<Union>g \<in> {g \<in> modules. md_global (definition_of s g)}. exports_of s g)"
  shows "(is_ok (validate_modules s runtime global m (map (new_compiled s) ts)) \<longleftrightarrow>
            (\<forall>t \<in> set ts. module_valid s (set runtime) modules t)) \<and>
         (\<forall>cs. validate_modules s runtime global m (map (new_compiled s) ts) = Inr cs \<longrightarrow>
            list_all2 (compiled_as s (set runtime) modules) ts cs)"
  using assms(1,2)
proof (induction ts arbitrary: m seen)
  case (Cons t ts)
  have "succ_of (module_graph s) t = set (md_imports (definition_of s t))"
    using edges_module_graph [of s] by (auto simp: edges_of_def imports_of_def)
  then have sub: "set (md_imports (definition_of s t)) \<subseteq> seen"
    and rest: "deps_first (module_graph s) (insert t seen) ts"
    using Cons.prems(2) by auto
  note one = validate_module_spec [OF Cons.prems(1) sub assms(3), of runtime]
  show ?case
  proof (cases "validate_module s runtime global m (new_compiled s t)")
    case (Inl e)
    then show ?thesis
      using one(1) by simp
  next
    case (Inr c)
    note c = one(2) [OF Inr]
    have "imports_done s (js_set t c m) (insert t seen)"
      using Cons.prems(1) c by (auto simp: imports_done_def)
    note IH = Cons.IH [OF this rest]
    have "module_valid s (set runtime) modules t"
      using one(1) Inr by simp
    then show ?thesis
      using IH c Inr by (auto simp: compiled_as_def split: sum.splits)
  qed
qed simp

definition modules_from :: "metadata_store \<Rightarrow> cls \<Rightarrow> cls set" where
  "modules_from s root = {m. (root, m) \<in> (imports_of s)\<^sup>*}"

lemma global_exported_set:
  "set (global_exported_tokens (map (new_compiled s) ts)) =
   (\<Union>g \<in> {g \<in> set ts. md_global (definition_of s g)}. exports_of s g)"
  by (auto simp: global_exported_tokens_def exports_of_def)

text \<open>The result of compiling, in one step.\<close>

lemma compile_module_graph_spec:
  fixes providers :: "provider list" and validation :: "token list"
  assumes "topo_run False (module_graph s) [root] = Inr ts"
  defines "runtime \<equiv> set (merge_runtime_token_sets providers validation)"
  shows "(is_ok (compile_module_graph s root providers validation) \<longleftrightarrow>
            (\<forall>p \<in> set providers. is_ok (validate_provider_injection s p)) \<and>
            (\<forall>t \<in> set ts. module_valid s runtime (set ts) t)) \<and>
         (\<forall>cs. compile_module_graph s root providers validation = Inr cs \<longrightarrow>
            list_all2 (compiled_as s runtime (set ts)) ts cs)"
proof -
  have "imports_done s m {}" for m
    by (simp add: imports_done_def)
  note spec = validate_modules_spec [OF this topo_run_ok(3) [OF assms(1)] global_exported_set]
  have run: "compile_module_graph s root providers validation =
      validate_compiled_modules s (map (new_compiled s) ts) providers
        (merge_runtime_token_sets providers validation)"
    using assms(1) by (simp add: compile_module_graph_def compile_root_topo)
  show ?thesis
    using spec [where runtime = "merge_runtime_token_sets providers validation"] validate_runtime_ok [of s providers]
    unfolding run validate_compiled_modules_def runtime_def
    by (auto split: sum.splits)
qed

lemma modules_from_topo:
  assumes "topo_run False (module_graph s) [root] = Inr ts"
  shows "set ts = modules_from s root"
  using topo_run_set [OF assms] by (simp add: edges_module_graph modules_from_def)

lemma topo_run_no_missing: "topo_run False g ns \<noteq> Inl (Missing m)"
  using topo_run_missing [of False g ns m] by auto

text \<open>C8. Compiling succeeds exactly on the graphs the module rules allow: no import cycle is
  reachable from the root, every runtime provider has the injection metadata its constructor
  needs, and every reachable module has that too, injects only tokens it may see, and
  exports only its own tokens or those of modules it imports.\<close>

theorem module_graph_accepts_iff:
  "is_ok (compile_module_graph s root providers validation) \<longleftrightarrow>
     (\<forall>m \<in> modules_from s root. (m, m) \<notin> (imports_of s)\<^sup>+) \<and>
     (\<forall>p \<in> set providers. is_ok (validate_provider_injection s p)) \<and>
     (\<forall>m \<in> modules_from s root.
        module_valid s (set (merge_runtime_token_sets providers validation)) (modules_from s root) m)"
proof -
  have acyclic: "is_ok (topo_run False (module_graph s) [root]) \<longleftrightarrow>
      (\<forall>m \<in> modules_from s root. (m, m) \<notin> (imports_of s)\<^sup>+)"
    using topo_run_ok_iff [of False "[root]" "module_graph s"]
    by (simp add: edges_module_graph modules_from_def)
  show ?thesis
  proof (cases "topo_run False (module_graph s) [root]")
    case (Inl e)
    then show ?thesis
      using acyclic by (auto simp: compile_module_graph_def compile_root_topo)
  next
    case (Inr ts)
    then show ?thesis
      using acyclic compile_module_graph_spec [OF Inr] modules_from_topo [OF Inr] by simp
  qed
qed

text \<open>C9. A successful compilation lists every module reachable from the root once, each after
  all the modules it imports, with its own definition, its exports as declared, and as its
  accessible tokens exactly the runtime's tokens, its own, those exported by the modules it
  imports, and those exported by global modules of the graph.\<close>

theorem module_graph_result:
  assumes "compile_module_graph s root providers validation = Inr cs"
  shows "distinct (map cm_type cs) \<and> set (map cm_type cs) = modules_from s root \<and>
         (\<forall>i < length cs. \<forall>d \<in> set (md_imports (cm_definition (cs ! i))). \<exists>j < i. cm_type (cs ! j) = d) \<and>
         (\<forall>c \<in> set cs. cm_definition c = definition_of s (cm_type c) \<and>
            set (cm_exported c) = exports_of s (cm_type c) \<and>
            set (cm_accessible c) =
              visible_tokens s (set (merge_runtime_token_sets providers validation))
                (modules_from s root) (cm_type c))"
proof -
  obtain ts where ts: "topo_run False (module_graph s) [root] = Inr ts"
    using assms by (auto simp: compile_module_graph_def compile_root_topo split: sum.splits)
  let ?ok = "compiled_as s (set (merge_runtime_token_sets providers validation)) (modules_from s root)"
  have all: "list_all2 ?ok ts cs"
    using compile_module_graph_spec [OF ts] modules_from_topo [OF ts] assms by simp
  then have types: "map cm_type cs = ts" and len: "length cs = length ts"
    by (induction rule: list_all2_induct) (auto simp: compiled_as_def)
  have nth: "?ok (ts ! i) (cs ! i)" if "i < length cs" for i
    using all that by (simp add: list_all2_conv_all_nth)
  have "\<exists>j < i. cm_type (cs ! j) = d"
    if i: "i < length cs" and d: "d \<in> set (md_imports (cm_definition (cs ! i)))" for i d
  proof -
    have "d \<in> succ_of (module_graph s) (ts ! i)"
      using d nth [OF i] edges_module_graph [of s]
      by (auto simp: compiled_as_def edges_of_def imports_of_def)
    then obtain j where "j < i" "ts ! j = d"
      using deps_first_nth [OF topo_run_ok(3) [OF ts], of i d] i len by auto
    then show ?thesis
      using types i by (metis (no_types, lifting) len nth_map order.strict_trans)
  qed
  moreover have "?ok (cm_type c) c" if "c \<in> set cs" for c
    using that all nth types len by (metis in_set_conv_nth compiled_as_def)
  ultimately show ?thesis
    using types topo_run_ok(1) [OF ts] modules_from_topo [OF ts]
    by (auto simp: compiled_as_def)
qed

section \<open>An evaluated graph\<close>

definition app_module :: cls where
  "app_module = Cls 10 ''AppModule'' 0 None"

definition users_module :: cls where
  "users_module = Cls 11 ''UsersModule'' 0 None"

definition users_service :: cls where
  "users_service = Cls 12 ''UsersService'' 0 None"

definition app_store :: metadata_store where
  "app_store =
     define_module_metadata app_module
       \<lparr>mm_controllers = None, mm_exports = None, mm_global = None,
        mm_imports = Some [users_module], mm_middleware = None,
        mm_providers = Some [ClassShorthand (Cls 13 ''App'' 0 None)]\<rparr>
     (define_module_metadata users_module
       \<lparr>mm_controllers = None, mm_exports = Some [TokClass users_service], mm_global = None,
        mm_imports = None, mm_middleware = None,
        mm_providers = Some [ClassShorthand users_service]\<rparr> empty_metadata_store)"

lemma module_graph_result_witness:
  "\<exists>cs. compile_module_graph app_store app_module [] [] = Inr cs \<and>
        set (map cm_type cs) = modules_from app_store app_module"
proof -
  have "is_ok (compile_module_graph app_store app_module [] [])"
    by code_simp
  then obtain cs where "compile_module_graph app_store app_module [] [] = Inr cs"
    by (auto simp: is_ok_iff)
  then show ?thesis
    using module_graph_result by blast
qed

lemma module_graph_accepts_iff_witness:
  "module_valid app_store (set (merge_runtime_token_sets [] [])) (modules_from app_store app_module) app_module"
proof -
  have "is_ok (compile_module_graph app_store app_module [] [])"
    by code_simp
  moreover have "app_module \<in> modules_from app_store app_module"
    by (simp add: modules_from_def)
  ultimately show ?thesis
    using module_graph_accepts_iff by blast
qed

end
