(* ===== verification/Module_Cache.thy ===== *)
theory Module_Cache
  imports Module_Graph_Facts
begin

text \<open>
  The opt-in compile cache of \<open>packages/runtime/src/module-graph.ts\<close>: its key, the cached
  entry point, when a hit is as good as compiling, and the options it confuses.
\<close>

section \<open>The key\<close>

text \<open>
  The key is a string that concatenates the fields below, with functions and symbols numbered
  by identity and string tokens quoted; the model keeps the fields. A missing \<open>inject\<close> and
  an empty one both leave the field empty.
\<close>

datatype inject_key = ForwardKey token | OptionalKey token | TokenKey "token option"

datatype provider_key =
    ClassKey cls
  | UseClassKey "token option" class_ref "scope option" bool "inject_key list"
  | UseFactoryKey "token option" factory_ref "cls option" "scope option" bool "inject_key list"
  | UseExistingKey "token option" "token option"
  | UseValueKey "token option" bool

fun describe_injection_token :: "inject_entry \<Rightarrow> inject_key" where
  "describe_injection_token (ForwardRef i t) = ForwardKey t"
| "describe_injection_token (OptionalDep t) = OptionalKey t"
| "describe_injection_token (Dep t) = TokenKey (Some t)"
| "describe_injection_token NullDep = TokenKey None"

definition describe_provider :: "provider \<Rightarrow> provider_key" where
  "describe_provider p =
     (case p of
        ClassShorthand c \<Rightarrow> ClassKey c
      | ObjectProvider o' \<Rightarrow>
          (let multi = (po_multi o' = Some True);
               inject = map describe_injection_token (list_or_empty (po_inject o')) in
           case po_useClass o' of
             Some k \<Rightarrow> UseClassKey (po_provide o') k (po_scope o') multi inject
           | None \<Rightarrow>
               (case po_useFactory o' of
                  Some f \<Rightarrow> UseFactoryKey (po_provide o') f (po_resolverClass o') (po_scope o') multi inject
                | None \<Rightarrow>
                    (case po_useExisting o' of
                       Some t \<Rightarrow> UseExistingKey (po_provide o') t
                     | None \<Rightarrow> UseValueKey (po_provide o') multi))))"

record graph_key =
  gk_root :: cls
  gk_module_version :: nat
  gk_di_version :: nat
  gk_runtime :: "provider_key list"
  gk_validation :: "token list"

definition create_module_graph_cache_key ::
  "metadata_store \<Rightarrow> cls \<Rightarrow> provider list \<Rightarrow> token list \<Rightarrow> graph_key" where
  "create_module_graph_cache_key s root providers validation =
     \<lparr>gk_root = root, gk_module_version = ms_module_version s, gk_di_version = ds_version (ms_di s),
      gk_runtime = map describe_provider providers, gk_validation = validation\<rparr>"

type_synonym graph_cache = "(graph_key, compiled_module list) js_map"

text \<open>\<open>compileModuleGraph\<close>; the flag is \<open>options.moduleGraphCache === true\<close>.\<close>

definition compile_module_graph_cached ::
  "metadata_store \<Rightarrow> bool \<Rightarrow> cls \<Rightarrow> provider list \<Rightarrow> token list \<Rightarrow> graph_cache \<Rightarrow>
   (module_error, compiled_module list) result \<times> graph_cache" where
  "compile_module_graph_cached s enabled root providers validation cache =
     (if \<not> enabled then (compile_module_graph s root providers validation, cache)
      else
        (let key = create_module_graph_cache_key s root providers validation in
         case js_get cache key of
           Some ms \<Rightarrow> (Inr ms, cache)
         | None \<Rightarrow>
             (case compile_module_graph s root providers validation of
                Inl e \<Rightarrow> (Inl e, cache)
              | Inr ms \<Rightarrow> (Inr ms, js_set key ms cache))))"

section \<open>What the key determines\<close>

text \<open>Compilation looks at a runtime provider only for its token and its injection metadata;
  the key determines both unless a class provider has an explicitly empty \<open>inject\<close>.\<close>

fun decode_inject :: "inject_key \<Rightarrow> inject_entry" where
  "decode_inject (ForwardKey t) = ForwardRef 0 t"
| "decode_inject (OptionalKey t) = OptionalDep t"
| "decode_inject (TokenKey (Some t)) = Dep t"
| "decode_inject (TokenKey None) = NullDep"

definition blank_provider :: "token option \<Rightarrow> provider_object" where
  "blank_provider t =
     \<lparr>po_provide = t, po_useValue = None, po_useFactory = None, po_useClass = None,
      po_useExisting = None, po_inject = None, po_scope = None, po_multi = None,
      po_resolverClass = None\<rparr>"

fun decode_provider :: "provider_key \<Rightarrow> provider" where
  "decode_provider (ClassKey c) = ClassShorthand c"
| "decode_provider (UseClassKey t k sc multi inject) =
     ObjectProvider ((blank_provider t)\<lparr>po_useClass := Some k,
       po_inject := (if inject = [] then None else Some (map decode_inject inject))\<rparr>)"
| "decode_provider (UseFactoryKey t f r sc multi inject) = ObjectProvider (blank_provider t)"
| "decode_provider (UseExistingKey t u) = ObjectProvider (blank_provider t)"
| "decode_provider (UseValueKey t multi) = ObjectProvider (blank_provider t)"

definition key_faithful :: "provider \<Rightarrow> bool" where
  "key_faithful p \<longleftrightarrow>
     (case p of
        ClassShorthand c \<Rightarrow> True
      | ObjectProvider o' \<Rightarrow> po_useClass o' \<noteq> None \<longrightarrow> po_inject o' \<noteq> Some [])"

lemma decode_token: "provider_token (decode_provider (describe_provider p)) = provider_token p"
  by (cases p)
    (auto simp: describe_provider_def provider_token_def blank_provider_def Let_def split: option.splits)

lemma decode_injection:
  assumes "key_faithful p"
  shows "validate_provider_injection s (decode_provider (describe_provider p)) =
         validate_provider_injection s p"
proof (cases p)
  case (ObjectProvider o')
  show ?thesis
  proof (cases "po_useClass o'")
    case None
    then show ?thesis
      using ObjectProvider
      by (auto simp: describe_provider_def validate_provider_injection_def blank_provider_def Let_def
          split: option.splits)
  next
    case (Some k)
    then show ?thesis
      using ObjectProvider assms
      by (cases k; cases "po_inject o'")
        (auto simp: describe_provider_def validate_provider_injection_def blank_provider_def Let_def
          list_or_empty_def key_faithful_def validate_class_injection_def)
  qed
qed (simp add: describe_provider_def)

lemma compile_by_key:
  assumes "\<forall>p \<in> set providers. key_faithful p"
  shows "compile_module_graph s root (map decode_provider (map describe_provider providers)) validation =
         compile_module_graph s root providers validation"
proof -
  have tokens: "create_runtime_token_set (map decode_provider (map describe_provider ps)) =
      create_runtime_token_set ps" for ps
  proof -
    have "List.map_filter provider_token (map decode_provider (map describe_provider ps)) =
        List.map_filter provider_token ps"
      by (induction ps) (auto simp: List.map_filter_simps decode_token split: option.splits)
    then show ?thesis
      by (simp add: create_runtime_token_set_def)
  qed
  have runtime: "validate_runtime_providers s (map decode_provider (map describe_provider providers)) =
      validate_runtime_providers s providers"
    using assms by (induction providers) (auto simp: decode_injection split: sum.splits)
  show ?thesis
    unfolding compile_module_graph_def validate_compiled_modules_def merge_runtime_token_sets_def
      tokens runtime by (rule refl)
qed

section \<open>The cache is versioned by the metadata stores\<close>

definition metadata_step :: "metadata_store \<Rightarrow> metadata_store \<Rightarrow> bool" where
  "metadata_step s s' \<longleftrightarrow>
     (\<exists>c m. s' = define_module_metadata c m s) \<or>
     (\<exists>c m. s' = s\<lparr>ms_di := define_class_di_metadata c m (ms_di s)\<rparr>)"

definition metadata_versions :: "metadata_store \<Rightarrow> nat \<times> nat" where
  "metadata_versions s = (ms_module_version s, ds_version (ms_di s))"

definition versions_older :: "nat \<times> nat \<Rightarrow> nat \<times> nat \<Rightarrow> bool" where
  "versions_older r r' \<longleftrightarrow> fst r \<le> fst r' \<and> snd r \<le> snd r'"

definition compile_key ::
  "metadata_store \<Rightarrow> cls \<times> provider_key list \<times> token list \<Rightarrow>
   (module_error, compiled_module list) result" where
  "compile_key s k =
     (case k of (root, ps, validation) \<Rightarrow>
        compile_module_graph s root (map decode_provider ps) validation)"

lemma metadata_step_versions:
  assumes "metadata_step s s'"
  shows "versions_older (metadata_versions s) (metadata_versions s')"
    and "metadata_versions s' \<noteq> metadata_versions s"
  using assms
  by (auto simp: metadata_step_def metadata_versions_def versions_older_def
      define_module_metadata_def define_class_di_metadata_def Let_def)

interpretation graph_cache: versioned_cache metadata_versions compile_key versions_older metadata_step
  by unfold_locales
    (use metadata_step_versions in \<open>auto simp: versions_older_def prod_eq_iff\<close>)

definition cache_sound :: "metadata_store \<Rightarrow> graph_cache \<Rightarrow> bool" where
  "cache_sound s cache \<longleftrightarrow>
     (\<forall>k ms. js_get cache k = Some ms \<longrightarrow>
        graph_cache.sound s (gk_root k, gk_runtime k, gk_validation k)
          (gk_module_version k, gk_di_version k) (Inr ms))"

lemma cache_sound_step: "cache_sound s cache \<Longrightarrow> metadata_step s s' \<Longrightarrow> cache_sound s' cache"
  unfolding cache_sound_def using graph_cache.sound_step by blast

lemma compile_cached_spec:
  assumes "cache_sound s cache" and "\<forall>p \<in> set providers. key_faithful p"
  shows "fst (compile_module_graph_cached s enabled root providers validation cache) =
           compile_module_graph s root providers validation \<and>
         cache_sound s (snd (compile_module_graph_cached s enabled root providers validation cache))"
proof (cases enabled)
  case False
  then show ?thesis
    using assms by (simp add: compile_module_graph_cached_def)
next
  case True
  let ?key = "create_module_graph_cache_key s root providers validation"
  have now: "compile_key s (gk_root ?key, gk_runtime ?key, gk_validation ?key) =
      compile_module_graph s root providers validation"
    using compile_by_key [OF assms(2)]
    by (simp add: compile_key_def create_module_graph_cache_key_def)
  have ver: "(gk_module_version ?key, gk_di_version ?key) = metadata_versions s"
    by (simp add: create_module_graph_cache_key_def metadata_versions_def)
  show ?thesis
  proof (cases "js_get cache ?key")
    case (Some ms)
    then have "Inr ms = compile_module_graph s root providers validation"
      using assms(1) graph_cache.sound_read [of s _ "Inr ms"] ver now
      unfolding cache_sound_def by metis
    then show ?thesis
      using Some True assms(1) by (simp add: compile_module_graph_cached_def Let_def)
  next
    case None
    have "graph_cache.sound s (gk_root ?key, gk_runtime ?key, gk_validation ?key)
        (gk_module_version ?key, gk_di_version ?key) (Inr ms)"
      if "compile_module_graph s root providers validation = Inr ms" for ms
      using graph_cache.sound_now [of s "(gk_root ?key, gk_runtime ?key, gk_validation ?key)"]
        ver now that by simp
    then show ?thesis
      using None True assms(1)
      by (auto simp: compile_module_graph_cached_def Let_def cache_sound_def split: sum.splits)
  qed
qed

text \<open>Any sequence of metadata writes and compilations.\<close>

datatype graph_op =
    DefineModule cls module_meta
  | DefineClass cls di_meta
  | Compile bool cls "provider list" "token list"

fun graph_run :: "graph_op list \<Rightarrow> metadata_store \<times> graph_cache \<Rightarrow> metadata_store \<times> graph_cache" where
  "graph_run [] st = st"
| "graph_run (DefineModule c m # ops) (s, cache) = graph_run ops (define_module_metadata c m s, cache)"
| "graph_run (DefineClass c m # ops) (s, cache) =
     graph_run ops (s\<lparr>ms_di := define_class_di_metadata c m (ms_di s)\<rparr>, cache)"
| "graph_run (Compile enabled root ps vs # ops) (s, cache) =
     graph_run ops (s, snd (compile_module_graph_cached s enabled root ps vs cache))"

fun op_faithful :: "graph_op \<Rightarrow> bool" where
  "op_faithful (Compile enabled root ps vs) = list_all key_faithful ps"
| "op_faithful _ = True"

lemma graph_run_sound:
  assumes "list_all op_faithful ops" and "cache_sound (fst st) (snd st)"
  shows "cache_sound (fst (graph_run ops st)) (snd (graph_run ops st))"
  using assms
proof (induction ops st rule: graph_run.induct)
  case (2 c m ops s cache)
  moreover have "metadata_step s (define_module_metadata c m s)"
    by (auto simp: metadata_step_def)
  ultimately show ?case
    using cache_sound_step by simp
next
  case (3 c m ops s cache)
  moreover have "metadata_step s (s\<lparr>ms_di := define_class_di_metadata c m (ms_di s)\<rparr>)"
    by (auto simp: metadata_step_def)
  ultimately show ?case
    using cache_sound_step by simp
next
  case (4 enabled root ps vs ops s cache)
  then show ?case
    using compile_cached_spec [of s cache ps] by (simp add: list_all_iff)
qed simp

text \<open>The compile cache is transparent as long as no runtime class provider is given with
  an explicitly empty \<open>inject\<close>: after any sequence of metadata writes and compilations, a
  compilation with the cache on gives exactly what compiling anew gives.\<close>

theorem module_graph_cache_transparent:
  assumes "list_all op_faithful ops" and "list_all key_faithful providers"
    and "graph_run ops (empty_metadata_store, []) = (s, cache)"
  shows "fst (compile_module_graph_cached s True root providers validation cache) =
         compile_module_graph s root providers validation"
proof -
  have "cache_sound empty_metadata_store []"
    by (simp add: cache_sound_def)
  then have "cache_sound s cache"
    using graph_run_sound [OF assms(1), of "(empty_metadata_store, [])"] assms(3) by simp
  then show ?thesis
    using compile_cached_spec assms(2) by (simp add: list_all_iff)
qed

section \<open>Evaluated graphs\<close>

definition logger_class :: cls where
  "logger_class = Cls 1 ''BaseService'' 1 None"

definition service_class :: cls where
  "service_class = Cls 2 ''Service'' 1 (Some logger_class)"

definition root_module :: cls where
  "root_module = Cls 3 ''AppModule'' 0 None"

text \<open>The base class declares what its constructor takes; the derived one inherits it.\<close>

definition inherited_metadata :: graph_op where
  "inherited_metadata =
     DefineClass logger_class \<lparr>dm_inject = Some [Dep (TokString ''config'')], dm_scope = None\<rparr>"

definition service_provider :: "inject_entry list option \<Rightarrow> provider" where
  "service_provider inject =
     ObjectProvider ((blank_provider (Some (TokString ''service'')))
       \<lparr>po_useClass := Some (ClassCtor service_class), po_inject := inject\<rparr>)"

lemma module_graph_cache_transparent_witness:
  "fst (compile_module_graph_cached
     (fst (graph_run [inherited_metadata, Compile True root_module [service_provider None] []]
             (empty_metadata_store, []))) True root_module [service_provider None] []
     (snd (graph_run [inherited_metadata, Compile True root_module [service_provider None] []]
             (empty_metadata_store, [])))) =
   compile_module_graph
     (fst (graph_run [inherited_metadata, Compile True root_module [service_provider None] []]
             (empty_metadata_store, []))) root_module [service_provider None] []"
proof -
  have "list_all op_faithful [inherited_metadata, Compile True root_module [service_provider None] []]"
    and "list_all key_faithful [service_provider None]"
    by code_simp+
  then show ?thesis
    by (rule module_graph_cache_transparent) simp
qed

text \<open>The key does not tell an absent \<open>inject\<close> from an empty one: a class provider whose
  empty \<open>inject\<close> leaves a constructor parameter uncovered is refused when compiled anew, and
  accepted from the cache after the same provider without \<open>inject\<close> was compiled.\<close>

theorem empty_inject_hits_stale_entry:
  "(case graph_run [inherited_metadata, Compile True root_module [service_provider None] []]
           (empty_metadata_store, []) of
      (s, cache) \<Rightarrow>
        compile_module_graph s root_module [service_provider (Some [])] [] =
          Inl (MissingInjection service_class 1 0) \<and>
        is_ok (fst (compile_module_graph_cached s True root_module [service_provider (Some [])] [] cache)))"
  by code_simp

end
