(* ===== verification/Route_Path.thy ===== *)
theory Route_Path
  imports Js_String
begin

text \<open>
  \<open>packages/http/src/route-path.ts\<close>: normalization, parsing and matching of route paths, with
  the round trip between paths and segments.
\<close>

section \<open>Segments and errors\<close>

datatype route_segment = LiteralSegment string | ParamSegment string

datatype route_fault = BadParameterName | PartialParameter | UnsupportedToken

text \<open>\<open>InvalidRoutePathError\<close>: the label, the path, the offending segment and the reason.\<close>

datatype route_error = InvalidRoutePath string string string route_fault

definition name_start :: "char \<Rightarrow> bool" where
  "name_start c =
     (let n = (of_char c :: nat) in (97 \<le> n \<and> n \<le> 122) \<or> (65 \<le> n \<and> n \<le> 90) \<or> n = 95)"

definition name_rest :: "char \<Rightarrow> bool" where
  "name_rest c = (name_start c \<or> (let n = (of_char c :: nat) in 48 \<le> n \<and> n \<le> 57))"

text \<open>\<open>/^[a-zA-Z_][a-zA-Z0-9_]*$/\<close>\<close>

fun route_param_name :: "string \<Rightarrow> bool" where
  "route_param_name [] = False"
| "route_param_name (c # cs) = (name_start c \<and> list_all name_rest cs)"

text \<open>\<open>/[*?+()[\]{}\\]/\<close>\<close>

definition unsupported_literal_char :: "char \<Rightarrow> bool" where
  "unsupported_literal_char c = (c \<in> set ''*?+()[]{}'' \<or> c = CHR 0x5C)"

definition normalize_label :: "string option \<Rightarrow> string" where
  "normalize_label label =
     (case label of
        None \<Rightarrow> ''Route path''
      | Some l \<Rightarrow> if js_trim l \<noteq> [] then js_trim l else ''Route path'')"

definition parse_route_path_segment ::
  "string \<Rightarrow> string option \<Rightarrow> string \<Rightarrow> (route_error, route_segment) result" where
  "parse_route_path_segment path label segment =
     (if take 1 segment = '':'' then
        (if route_param_name (drop 1 segment) then Inr (ParamSegment (drop 1 segment))
         else Inl (InvalidRoutePath (normalize_label label) path segment BadParameterName))
      else if CHR '':'' \<in> set segment then
        Inl (InvalidRoutePath (normalize_label label) path segment PartialParameter)
      else if list_ex unsupported_literal_char segment then
        Inl (InvalidRoutePath (normalize_label label) path segment UnsupportedToken)
      else Inr (LiteralSegment segment))"

section \<open>Paths\<close>

definition path_segments :: "string \<Rightarrow> string list" where
  "path_segments path = nonempty_strings (js_split (CHR ''/'') path)"

definition normalize_route_path :: "string \<Rightarrow> string" where
  "normalize_route_path path =
     (let normalized = ''/'' @ js_join ''/'' (path_segments path) in
      if normalized = [] then ''/'' else normalized)"

definition parse_route_path ::
  "string \<Rightarrow> string option \<Rightarrow> (route_error, route_segment list) result" where
  "parse_route_path path label =
     map_result (parse_route_path_segment path label) (path_segments (normalize_route_path path))"

definition validate_route_path :: "string \<Rightarrow> string option \<Rightarrow> (route_error, unit) result" where
  "validate_route_path path label =
     (case parse_route_path path label of Inl e \<Rightarrow> Inl e | Inr _ \<Rightarrow> Inr ())"

fun segment_params :: "route_segment \<Rightarrow> string list" where
  "segment_params (ParamSegment n) = [n]"
| "segment_params (LiteralSegment v) = []"

definition extract_route_path_params :: "string \<Rightarrow> (route_error, string list) result" where
  "extract_route_path_params path =
     (case parse_route_path path None of
        Inl e \<Rightarrow> Inl e
      | Inr segments \<Rightarrow> Inr (concat (map segment_params segments)))"

section \<open>Matching\<close>

text \<open>Writing a property of a plain object: a string written to \<open>__proto__\<close> goes to the
  inherited setter, which ignores it.\<close>

definition set_param :: "string \<Rightarrow> string \<Rightarrow> (string, string) js_map \<Rightarrow> (string, string) js_map" where
  "set_param name v params = (if name = ''__proto__'' then params else js_set name v params)"

fun match_segments ::
  "route_segment list \<Rightarrow> string list \<Rightarrow> (string, string) js_map \<Rightarrow> (string, string) js_map option"
where
  "match_segments (ParamSegment n # ss) (i # is) params = match_segments ss is (set_param n i params)"
| "match_segments (LiteralSegment v # ss) (i # is) params =
     (if v \<noteq> i then None else match_segments ss is params)"
| "match_segments _ _ params = Some params"

definition match_route_path ::
  "route_segment list \<Rightarrow> string list \<Rightarrow> (string, string) js_map option" where
  "match_route_path registered incoming =
     (if length registered \<noteq> length incoming then None else match_segments registered incoming [])"

section \<open>Paths and segments\<close>

fun render_segment :: "route_segment \<Rightarrow> string" where
  "render_segment (LiteralSegment v) = v"
| "render_segment (ParamSegment n) = CHR '':'' # n"

definition render_path :: "route_segment list \<Rightarrow> string" where
  "render_path segments = ''/'' @ js_join ''/'' (map render_segment segments)"

text \<open>The segments the route syntax allows.\<close>

fun segment_ok :: "route_segment \<Rightarrow> bool" where
  "segment_ok (LiteralSegment v) =
     (v \<noteq> [] \<and> CHR ''/'' \<notin> set v \<and> CHR '':'' \<notin> set v \<and> \<not> list_ex unsupported_literal_char v)"
| "segment_ok (ParamSegment n) = route_param_name n"

lemma name_char_not_slash: "list_all name_rest cs \<Longrightarrow> CHR ''/'' \<notin> set cs"
  by (auto simp: list_all_iff name_rest_def name_start_def Let_def dest: bspec [of _ _ "CHR ''/''"])

lemma route_param_name_no_slash: "route_param_name n \<Longrightarrow> n \<noteq> [] \<and> CHR ''/'' \<notin> set n"
  by (cases n) (auto simp: name_start_def Let_def dest: name_char_not_slash)

lemma segment_ok_render: "segment_ok s \<Longrightarrow> render_segment s \<noteq> [] \<and> CHR ''/'' \<notin> set (render_segment s)"
  by (cases s) (auto dest: route_param_name_no_slash)

lemma path_segments_pieces: "p \<in> set (path_segments path) \<Longrightarrow> p \<noteq> [] \<and> CHR ''/'' \<notin> set p"
  by (auto simp: path_segments_def nonempty_strings_def dest: js_split_no_sep)

lemma path_segments_join:
  assumes "\<forall>p \<in> set ps. p \<noteq> [] \<and> CHR ''/'' \<notin> set p"
  shows "path_segments (''/'' @ js_join ''/'' ps) = ps"
proof (cases "ps = []")
  case False
  then have "js_split (CHR ''/'') (js_join ''/'' ps) = ps"
    using assms by (simp add: js_split_join)
  then show ?thesis
    using assms by (simp add: path_segments_def nonempty_strings_def filter_id_conv)
qed (simp add: path_segments_def nonempty_strings_def)

lemma path_segments_render:
  "list_all segment_ok ss \<Longrightarrow> path_segments (render_path ss) = map render_segment ss"
  unfolding render_path_def
  by (intro path_segments_join) (auto simp: list_all_iff dest: segment_ok_render)

lemma normalize_route_path_eq: "normalize_route_path path = ''/'' @ js_join ''/'' (path_segments path)"
  by (simp add: normalize_route_path_def Let_def)

lemma path_segments_normalize [simp]: "path_segments (normalize_route_path path) = path_segments path"
  unfolding normalize_route_path_eq using path_segments_pieces by (rule path_segments_join [OF ballI])

lemma normalize_route_path_idem [simp]:
  "normalize_route_path (normalize_route_path path) = normalize_route_path path"
  by (simp add: normalize_route_path_eq [of "normalize_route_path path"])
    (simp add: normalize_route_path_eq)

lemma parse_segment_iff:
  assumes "seg \<noteq> []" and "CHR ''/'' \<notin> set seg"
  shows "parse_route_path_segment path label seg = Inr s \<longleftrightarrow> segment_ok s \<and> seg = render_segment s"
  using assms by (cases seg; cases s) (auto simp: parse_route_path_segment_def)

lemma parse_segments_iff:
  assumes "\<forall>p \<in> set ps. p \<noteq> [] \<and> CHR ''/'' \<notin> set p"
  shows "map_result (parse_route_path_segment path label) ps = Inr segments \<longleftrightarrow>
         list_all segment_ok segments \<and> ps = map render_segment segments"
  using assms unfolding map_result_ok_iff
  by (induction ps arbitrary: segments) (auto simp: list_all2_Cons1 parse_segment_iff)

lemma parse_route_path_iff:
  "parse_route_path path label = Inr segments \<longleftrightarrow>
   list_all segment_ok segments \<and> normalize_route_path path = render_path segments"
proof -
  have "path_segments path = map render_segment segments \<longleftrightarrow>
        normalize_route_path path = render_path segments" if "list_all segment_ok segments"
  proof
    assume "normalize_route_path path = render_path segments"
    moreover have "path_segments (render_path segments) = map render_segment segments"
      using that by (rule path_segments_render)
    ultimately have "path_segments (normalize_route_path path) = map render_segment segments"
      by simp
    then show "path_segments path = map render_segment segments" by simp
  qed (simp add: normalize_route_path_eq render_path_def)
  then show ?thesis
    using parse_segments_iff [of "path_segments path"] path_segments_pieces
    by (auto simp: parse_route_path_def)
qed

text \<open>C37. A route path parses to a list of segments exactly when every segment is allowed by
  the route syntax and the normalized path is the segments written out, joined by slashes.\<close>

theorem route_path_roundtrip:
  "parse_route_path path label = Inr segments \<longleftrightarrow>
   list_all segment_ok segments \<and> normalize_route_path path = render_path segments"
  by (rule parse_route_path_iff)

section \<open>Parameters\<close>

fun segment_fits :: "route_segment \<Rightarrow> string \<Rightarrow> bool" where
  "segment_fits (LiteralSegment v) i = (v = i)"
| "segment_fits (ParamSegment n) i = True"

fun bindings :: "route_segment list \<Rightarrow> string list \<Rightarrow> (string \<times> string) list" where
  "bindings (ParamSegment n # ss) (i # is) = (n, i) # bindings ss is"
| "bindings (LiteralSegment v # ss) (i # is) = bindings ss is"
| "bindings _ _ = []"

definition param_names :: "route_segment list \<Rightarrow> string list" where
  "param_names ss = concat (map segment_params ss)"

text \<open>The path a set of parameters gives.\<close>

fun fill_segment :: "(string, string) js_map \<Rightarrow> route_segment \<Rightarrow> string" where
  "fill_segment params (LiteralSegment v) = v"
| "fill_segment params (ParamSegment n) = (case js_get params n of None \<Rightarrow> [] | Some v \<Rightarrow> v)"

lemma match_segments_eq:
  "length ss = length is \<Longrightarrow>
   match_segments ss is params =
   (if list_all2 segment_fits ss is
    then Some (fold (\<lambda>(n, v). set_param n v) (bindings ss is) params) else None)"
  by (induction ss "is" params rule: match_segments.induct) auto

lemma match_route_path_eq:
  "match_route_path ss is =
   (if list_all2 segment_fits ss is
    then Some (fold (\<lambda>(n, v). set_param n v) (bindings ss is) []) else None)"
  by (auto simp: match_route_path_def match_segments_eq dest: list_all2_lengthD)

lemma bindings_names:
  "length ss = length is \<Longrightarrow> map fst (bindings ss is) = param_names ss"
  by (induction ss "is" rule: bindings.induct) (auto simp: param_names_def)

lemma js_set_fresh: "k \<notin> fst ` set m \<Longrightarrow> js_set k v m = m @ [(k, v)]"
  by (induction m) auto

lemma fold_set_param:
  assumes "distinct (map fst bs)" and "fst ` set bs \<inter> fst ` set params = {}"
    and "''__proto__'' \<notin> fst ` set bs"
  shows "fold (\<lambda>(n, v). set_param n v) bs params = params @ bs"
  using assms
proof (induction bs arbitrary: params)
  case (Cons b bs)
  obtain n v where "b = (n, v)" by fastforce
  with Cons show ?case by (auto simp: set_param_def js_set_fresh)
qed simp

lemma fill_bindings:
  assumes "list_all2 segment_fits ss is" and "distinct (param_names ss)"
    and "\<forall>(n, v) \<in> set (bindings ss is). js_get params n = Some v"
  shows "map (fill_segment params) ss = is"
  using assms
proof (induction ss "is" rule: list_all2_induct)
  case (Cons s ss i "is")
  then show ?case by (cases s) (auto simp: param_names_def)
qed simp

text \<open>C38. Matching inverts filling in: when a route whose parameter names are distinct (and none
  is \<open>__proto__\<close>) matches the segments of a request, the parameters are those of the route in
  order, and writing them back into the route gives the request's segments; and every way of
  filling in the route's parameters is matched, with those parameters.\<close>

theorem route_match_roundtrip:
  assumes "distinct (param_names ss)" and "''__proto__'' \<notin> set (param_names ss)"
  shows "(match_route_path ss is = Some params \<longrightarrow>
            map fst params = param_names ss \<and> map (fill_segment params) ss = is) \<and>
         (map fst params = param_names ss \<longrightarrow>
            match_route_path ss (map (fill_segment params) ss) = Some params)"
proof (intro conjI impI)
  assume "match_route_path ss is = Some params"
  then have fits: "list_all2 segment_fits ss is"
    and params: "params = fold (\<lambda>(n, v). set_param n v) (bindings ss is) []"
    by (auto simp: match_route_path_eq split: if_splits)
  have names: "map fst (bindings ss is) = param_names ss"
    using fits by (simp add: bindings_names list_all2_lengthD)
  then have "fst ` set (bindings ss is) = set (param_names ss)"
    by (metis set_map)
  then have eq: "params = bindings ss is"
    using params assms names by (simp add: fold_set_param)
  show "map fst params = param_names ss"
    using names eq by simp
  show "map (fill_segment params) ss = is"
    using fits assms(1) by (rule fill_bindings) (use eq names assms(1) in auto)
next
  assume names: "map fst params = param_names ss"
  let ?is = "map (fill_segment params) ss"
  have fits: "list_all2 segment_fits ss ?is"
  proof -
    have "segment_fits s (fill_segment params s)" for s by (cases s) auto
    then show ?thesis by (simp add: list_all2_conv_all_nth)
  qed
  have "bindings ss ?is = map (\<lambda>n. (n, case js_get params n of None \<Rightarrow> [] | Some v \<Rightarrow> v)) (param_names ss)"
  proof (induction ss)
    case (Cons s ss)
    then show ?case by (cases s) (auto simp: param_names_def)
  qed (simp add: param_names_def)
  also have "map (\<lambda>n. (n, case js_get params n of None \<Rightarrow> [] | Some v \<Rightarrow> v)) (param_names ss) = params"
  proof -
    have "distinct (map fst params)" using assms(1) names by simp
    then have "map (\<lambda>x. (fst x, case js_get params (fst x) of None \<Rightarrow> [] | Some v \<Rightarrow> v)) params = params"
      by (intro map_idI) auto
    then show ?thesis by (simp add: names [symmetric] comp_def)
  qed
  finally have "bindings ss ?is = params" .
  then show "match_route_path ss ?is = Some params"
    using fits assms names by (simp add: match_route_path_eq) (metis append_Nil fold_set_param inf_bot_right list.set(1) set_map image_empty)
qed

text \<open>A route with two parameters, and the path that fills it.\<close>

lemma route_match_roundtrip_witness:
  "match_route_path [LiteralSegment ''users'', ParamSegment ''id'', ParamSegment ''tab'']
     [''users'', ''7'', ''edit''] = Some [(''id'', ''7''), (''tab'', ''edit'')]"
proof -
  let ?route = "[LiteralSegment ''users'', ParamSegment ''id'', ParamSegment ''tab'']"
  let ?params = "[(''id'', ''7''), (''tab'', ''edit'')]"
  have distinct: "distinct (param_names ?route)" and proto: "''__proto__'' \<notin> set (param_names ?route)"
    and names: "map fst ?params = param_names ?route"
    and path: "map (fill_segment ?params) ?route = [''users'', ''7'', ''edit'']"
    by code_simp+
  from route_match_roundtrip [OF distinct proto] names
  have "match_route_path ?route (map (fill_segment ?params) ?route) = Some ?params" by blast
  then show ?thesis unfolding path .
qed

end
