(* ===== verification/Http_Request.thy ===== *)
theory Http_Request
  imports Js_String
begin

text \<open>
  The part of \<open>FrameworkRequest\<close> (\<open>packages/http/src/types.ts\<close>) that routing and content
  negotiation read, and the reading of headers.
\<close>

text \<open>\<open>string | string[] | undefined\<close>\<close>

datatype multi_value = NoValue | OneValue string | ManyValues "string list"

record http_request =
  rq_method :: string
  rq_path :: string
  rq_headers :: "(string, multi_value) js_map"

text \<open>\<open>Array.isArray(raw) ? raw : [raw]\<close>\<close>

fun candidate_values :: "multi_value \<Rightarrow> string option list" where
  "candidate_values NoValue = [None]"
| "candidate_values (OneValue v) = [Some v]"
| "candidate_values (ManyValues vs) = map Some vs"

fun first_nonblank :: "string option list \<Rightarrow> string option" where
  "first_nonblank [] = None"
| "first_nonblank (None # vs) = first_nonblank vs"
| "first_nonblank (Some v # vs) = (if js_trim v \<noteq> [] then Some (js_trim v) else first_nonblank vs)"

text \<open>The loop over \<open>Object.entries(request.headers)\<close>.\<close>

fun find_header :: "string \<Rightarrow> (string, multi_value) js_map \<Rightarrow> string option" where
  "find_header name [] = None"
| "find_header name ((key, raw) # hs) =
     (if js_lower key \<noteq> name then find_header name hs
      else case first_nonblank (candidate_values raw) of
        Some v \<Rightarrow> Some v
      | None \<Rightarrow> find_header name hs)"

definition read_header_value :: "http_request \<Rightarrow> string \<Rightarrow> string option" where
  "read_header_value request header_name =
     (let normalized = js_lower (js_trim header_name) in
      if normalized = [] then None else find_header normalized (rq_headers request))"

end
