(* ===== verification/Handler_Mapping.thy ===== *)
theory Handler_Mapping
  imports Route_Path Http_Request
begin

text \<open>
  \<open>packages/http/src/mapping.ts\<close>: handler descriptors from controllers, the compiled index,
  and matching of requests by method, path and version.
\<close>

section \<open>Versions\<close>

datatype versioning_type = Uri | Header | MediaType | Custom

text \<open>\<open>VersioningOptions\<close>; a custom extractor is code of the application.\<close>

datatype versioning_options =
    UriVersioning
  | HeaderVersioning string
  | MediaTypeVersioning "string option"
  | CustomVersioning "http_request \<Rightarrow> multi_value"

record versioning =
  vs_extractor :: "http_request \<Rightarrow> multi_value"
  vs_type :: versioning_type

text \<open>\<open>replace(/^v/i, '')\<close>\<close>

fun strip_v :: "string \<Rightarrow> string" where
  "strip_v [] = []"
| "strip_v (c # cs) = (if c = CHR ''v'' \<or> c = CHR ''V'' then cs else c # cs)"

definition normalize_version_value :: "string \<Rightarrow> string" where
  "normalize_version_value version = strip_v (js_trim version)"

definition normalize_version_segment :: "string \<Rightarrow> string" where
  "normalize_version_segment version = CHR ''v'' # strip_v (js_trim version)"

definition join_paths :: "string \<Rightarrow> string \<Rightarrow> string" where
  "join_paths base route = normalize_route_path (base @ ''/'' @ route)"

text \<open>\<open>!version\<close>: absent or empty.\<close>

definition no_string :: "string option \<Rightarrow> bool" where
  "no_string v = (v = None \<or> v = Some [])"

definition apply_version_prefix :: "string \<Rightarrow> string option \<Rightarrow> string" where
  "apply_version_prefix path version =
     (case version of
        None \<Rightarrow> path
      | Some v \<Rightarrow> if v = [] then path else join_paths (CHR ''/'' # normalize_version_segment v) path)"

text \<open>
  \<open>match\<close> of the regular expression made of the escaped key and \<open>([^;,+\s]+)\<close>, without regard
  to case: the leftmost place where the key is followed by such a character, with the
  longest capture there.
\<close>

definition version_char :: "char \<Rightarrow> bool" where
  "version_char c = (c \<noteq> CHR '';'' \<and> c \<noteq> CHR '','' \<and> c \<noteq> CHR ''+'' \<and> \<not> js_space c)"

definition capture_here :: "string \<Rightarrow> string \<Rightarrow> string option" where
  "capture_here key s =
     (if js_upper (take (length key) s) = js_upper key \<and>
         takeWhile version_char (drop (length key) s) \<noteq> []
      then Some (takeWhile version_char (drop (length key) s)) else None)"

fun capture_after :: "string \<Rightarrow> string \<Rightarrow> string option" where
  "capture_after key [] = capture_here key []"
| "capture_after key (c # cs) =
     (case capture_here key (c # cs) of Some v \<Rightarrow> Some v | None \<Rightarrow> capture_after key cs)"

fun first_media_version :: "string \<Rightarrow> string list \<Rightarrow> string option" where
  "first_media_version key [] = None"
| "first_media_version key (m # ms) =
     (case capture_after key m of
        Some v \<Rightarrow> if js_trim v \<noteq> [] then Some (js_trim v) else first_media_version key ms
      | None \<Rightarrow> first_media_version key ms)"

definition extract_version_from_media_type :: "http_request \<Rightarrow> string \<Rightarrow> string option" where
  "extract_version_from_media_type request key =
     (case read_header_value request ''accept'' of
        None \<Rightarrow> None
      | Some accept \<Rightarrow>
          first_media_version key (nonempty_strings (map js_trim (js_split (CHR '','') accept))))"

fun value_of_option :: "string option \<Rightarrow> multi_value" where
  "value_of_option None = NoValue"
| "value_of_option (Some v) = OneValue v"

definition resolve_versioning :: "versioning_options option \<Rightarrow> versioning" where
  "resolve_versioning options =
     (case options of
        None \<Rightarrow> \<lparr>vs_extractor = (\<lambda>_. NoValue), vs_type = Uri\<rparr>
      | Some UriVersioning \<Rightarrow> \<lparr>vs_extractor = (\<lambda>_. NoValue), vs_type = Uri\<rparr>
      | Some (HeaderVersioning header) \<Rightarrow>
          \<lparr>vs_extractor = (\<lambda>r. value_of_option (read_header_value r header)), vs_type = Header\<rparr>
      | Some (MediaTypeVersioning key) \<Rightarrow>
          \<lparr>vs_extractor = (\<lambda>r. value_of_option (extract_version_from_media_type r
              (case key of None \<Rightarrow> ''v='' | Some k \<Rightarrow> k))), vs_type = MediaType\<rparr>
      | Some (CustomVersioning extractor) \<Rightarrow> \<lparr>vs_extractor = extractor, vs_type = Custom\<rparr>)"

fun first_version :: "string option list \<Rightarrow> string option" where
  "first_version [] = None"
| "first_version (None # vs) = first_version vs"
| "first_version (Some v # vs) =
     (if normalize_version_value v \<noteq> [] then Some (normalize_version_value v) else first_version vs)"

definition resolve_request_version :: "http_request \<Rightarrow> versioning \<Rightarrow> string option" where
  "resolve_request_version request v = first_version (candidate_values (vs_extractor v request))"

section \<open>Descriptors\<close>

text \<open>Controllers, guards, interceptors, middleware and the remaining response settings of a
  route are carried, never looked at.\<close>

record controller_metadata =
  ctm_base :: string
  ctm_version :: "string option"
  ctm_guards :: "nat list option"
  ctm_interceptors :: "nat list option"

record route_metadata =
  rtm_method :: string
  rtm_path :: string
  rtm_version :: "string option"
  rtm_guards :: "nat list option"
  rtm_interceptors :: "nat list option"
  rtm_rest :: nat

record route_definition =
  rt_method :: string
  rt_path :: string
  rt_version :: "string option"
  rt_guards :: "nat list"
  rt_interceptors :: "nat list"
  rt_produces :: "string list option"
  rt_rest :: nat

record handler_descriptor =
  hd_controller :: nat
  hd_controller_path :: string
  hd_effective_path :: string
  hd_effective_version :: "string option"
  hd_middleware :: "nat list"
  hd_module :: "nat option"
  hd_path_params :: "string list"
  hd_method_name :: string
  hd_route :: route_definition

text \<open>A source: the controller, and what the metadata readers return for it. \<open>hs_properties\<close>
  are the own property names of the prototype with the route metadata and the media types of
  each.\<close>

record handler_source =
  hs_controller :: nat
  hs_middleware :: "nat list option"
  hs_module :: "nat option"
  hs_metadata :: "controller_metadata option"
  hs_properties :: "(string \<times> route_metadata option \<times> string list option) list"

datatype mapping_error = BadRoute route_error | RouteConflict string

fun or_empty :: "'a list option \<Rightarrow> 'a list" where
  "or_empty None = []"
| "or_empty (Some xs) = xs"

definition controller_methods ::
  "handler_source \<Rightarrow> (string \<times> route_metadata option \<times> string list option) list" where
  "controller_methods source = filter (\<lambda>(name, _). name \<noteq> ''constructor'') (hs_properties source)"

definition effective_route_path ::
  "versioning \<Rightarrow> controller_metadata \<Rightarrow> route_metadata \<Rightarrow> string option \<Rightarrow> string" where
  "effective_route_path v c m version =
     (let path = join_paths (ctm_base c) (rtm_path m) in
      if vs_type v = Uri then apply_version_prefix path version else path)"

definition create_handler_descriptor ::
  "versioning \<Rightarrow> handler_source \<Rightarrow> controller_metadata \<Rightarrow> string \<Rightarrow> route_metadata \<Rightarrow>
   string list option \<Rightarrow> (mapping_error, handler_descriptor) result" where
  "create_handler_descriptor v source c name m produces =
     (let version = (case rtm_version m of Some x \<Rightarrow> Some x | None \<Rightarrow> ctm_version c);
          path = effective_route_path v c m version in
      case extract_route_path_params path of
        Inl e \<Rightarrow> Inl (BadRoute e)
      | Inr params \<Rightarrow> Inr
          \<lparr>hd_controller = hs_controller source, hd_controller_path = ctm_base c,
           hd_effective_path = path, hd_effective_version = version,
           hd_middleware = or_empty (hs_middleware source), hd_module = hs_module source,
           hd_path_params = params, hd_method_name = name,
           hd_route =
             \<lparr>rt_method = rtm_method m, rt_path = path, rt_version = version,
              rt_guards = or_empty (ctm_guards c) @ or_empty (rtm_guards m),
              rt_interceptors = or_empty (ctm_interceptors c) @ or_empty (rtm_interceptors m),
              rt_produces = produces, rt_rest = rtm_rest m\<rparr>\<rparr>)"

fun describe_methods ::
  "versioning \<Rightarrow> handler_source \<Rightarrow> controller_metadata \<Rightarrow>
   (string \<times> route_metadata option \<times> string list option) list \<Rightarrow>
   (mapping_error, handler_descriptor list) result" where
  "describe_methods v source c [] = Inr []"
| "describe_methods v source c ((name, None, produces) # ps) = describe_methods v source c ps"
| "describe_methods v source c ((name, Some m, produces) # ps) =
     (case create_handler_descriptor v source c name m produces of
        Inl e \<Rightarrow> Inl e
      | Inr d \<Rightarrow>
          (case describe_methods v source c ps of Inl e \<Rightarrow> Inl e | Inr ds \<Rightarrow> Inr (d # ds)))"

definition create_handler_descriptors ::
  "handler_source \<Rightarrow> versioning \<Rightarrow> (mapping_error, handler_descriptor list) result" where
  "create_handler_descriptors source v =
     describe_methods v source
       (case hs_metadata source of
          Some c \<Rightarrow> c
        | None \<Rightarrow> \<lparr>ctm_base = [], ctm_version = None, ctm_guards = None, ctm_interceptors = None\<rparr>)
       (controller_methods source)"

definition route_key :: "handler_descriptor \<Rightarrow> string" where
  "route_key d =
     (let r = hd_route d in
      rt_method r @ '':'' @ rt_path r @ '':'' @
      (case rt_version r of None \<Rightarrow> ''<none>'' | Some v \<Rightarrow> normalize_version_value v))"

fun check_conflicts ::
  "handler_descriptor list \<Rightarrow> string set \<Rightarrow> (mapping_error, unit) result" where
  "check_conflicts [] seen = Inr ()"
| "check_conflicts (d # ds) seen =
     (if route_key d \<in> seen then Inl (RouteConflict (route_key d))
      else check_conflicts ds (insert (route_key d) seen))"

definition build_descriptor_list ::
  "handler_source list \<Rightarrow> versioning \<Rightarrow> (mapping_error, handler_descriptor list) result" where
  "build_descriptor_list sources v =
     (case map_result (\<lambda>s. create_handler_descriptors s v) sources of
        Inl e \<Rightarrow> Inl e
      | Inr dss \<Rightarrow>
          (case check_conflicts (concat dss) {} of
             Inl e \<Rightarrow> Inl e
           | Inr _ \<Rightarrow> Inr (concat dss)))"

section \<open>The index\<close>

type_synonym static_index = "(string, (string, handler_descriptor list) js_map) js_map"
type_synonym param_index =
  "(string, (nat, (handler_descriptor \<times> route_segment list) list) js_map) js_map"

record descriptor_index =
  ix_static :: static_index
  ix_param :: param_index

text \<open>\<open>bucket.push\<close>, creating the inner map and the bucket when they are missing.\<close>

definition push_bucket ::
  "'m \<Rightarrow> 'k \<Rightarrow> 'v \<Rightarrow> ('m, ('k, 'v list) js_map) js_map \<Rightarrow> ('m, ('k, 'v list) js_map) js_map" where
  "push_bucket m k v index =
     (let inner = (case js_get index m of None \<Rightarrow> [] | Some i \<Rightarrow> i);
          bucket = (case js_get inner k of None \<Rightarrow> [] | Some b \<Rightarrow> b) in
      js_set m (js_set k (bucket @ [v]) inner) index)"

fun is_literal :: "route_segment \<Rightarrow> bool" where
  "is_literal (LiteralSegment v) = True"
| "is_literal (ParamSegment n) = False"

definition index_descriptor ::
  "handler_descriptor \<Rightarrow> descriptor_index \<Rightarrow> (mapping_error, descriptor_index) result" where
  "index_descriptor d ix =
     (let r = hd_route d in
      case parse_route_path (rt_path r) (Some (''Registered '' @ rt_method r @ '' route path'')) of
        Inl e \<Rightarrow> Inl (BadRoute e)
      | Inr segments \<Rightarrow>
          if list_all is_literal segments then
            Inr (ix\<lparr>ix_static := push_bucket (rt_method r) (rt_path r) d (ix_static ix)\<rparr>)
          else
            Inr (ix\<lparr>ix_param := push_bucket (rt_method r) (length segments) (d, segments) (ix_param ix)\<rparr>))"

definition build_descriptor_index ::
  "handler_descriptor list \<Rightarrow> (mapping_error, descriptor_index) result" where
  "build_descriptor_index ds = foldr_result index_descriptor ds \<lparr>ix_static = [], ix_param = []\<rparr>"

definition bucket_of :: "('m, ('k, 'v list) js_map) js_map \<Rightarrow> 'm \<Rightarrow> 'k \<Rightarrow> 'v list" where
  "bucket_of index m k =
     (case js_get index m of
        None \<Rightarrow> []
      | Some inner \<Rightarrow> (case js_get inner k of None \<Rightarrow> [] | Some b \<Rightarrow> b))"

section \<open>Matching\<close>

type_synonym handler_match = "handler_descriptor \<times> (string, string) js_map"

definition matches_route_version :: "handler_descriptor \<Rightarrow> string option \<Rightarrow> bool" where
  "matches_route_version d request_version =
     (case rt_version (hd_route d) of
        None \<Rightarrow> request_version = None
      | Some v \<Rightarrow>
          if v = [] then request_version = None
          else if no_string request_version then False
          else Some (normalize_version_value v) = request_version)"

text \<open>A loop over candidates ends early with \<open>Inl\<close>, or with the first unversioned match it has
  passed.\<close>

fun scan_static ::
  "versioning_type \<Rightarrow> string option \<Rightarrow> handler_descriptor list \<Rightarrow> handler_match option \<Rightarrow>
   handler_match + handler_match option" where
  "scan_static type version [] unversioned = Inr unversioned"
| "scan_static type version (d # ds) unversioned =
     (if type = Uri then Inl (d, [])
      else if matches_route_version d version then Inl (d, [])
      else if rt_version (hd_route d) = None \<and> unversioned = None
        then scan_static type version ds (Some (d, []))
      else scan_static type version ds unversioned)"

fun find_static_match ::
  "versioning_type \<Rightarrow> string option \<Rightarrow> handler_descriptor list list \<Rightarrow> handler_match option \<Rightarrow>
   handler_match option" where
  "find_static_match type version [] unversioned = unversioned"
| "find_static_match type version (b # bs) unversioned =
     (case scan_static type version b unversioned of
        Inl m \<Rightarrow> Some m
      | Inr unversioned' \<Rightarrow> find_static_match type version bs unversioned')"

text \<open>The two loops of \<open>matchParameterizedRoute\<close>: the literals first, then the parameters.\<close>

fun literals_agree :: "route_segment list \<Rightarrow> string list \<Rightarrow> bool" where
  "literals_agree (LiteralSegment v # ss) (i # is) = (if v \<noteq> i then False else literals_agree ss is)"
| "literals_agree (ParamSegment n # ss) (i # is) = literals_agree ss is"
| "literals_agree _ _ = True"

fun collect_params ::
  "route_segment list \<Rightarrow> string list \<Rightarrow> (string, string) js_map \<Rightarrow> (string, string) js_map" where
  "collect_params (ParamSegment n # ss) (i # is) params = collect_params ss is (set_param n i params)"
| "collect_params (LiteralSegment v # ss) (i # is) params = collect_params ss is params"
| "collect_params _ _ params = params"

definition match_parameterized_route ::
  "route_segment list \<Rightarrow> string list \<Rightarrow> (string, string) js_map option" where
  "match_parameterized_route segments incoming =
     (if length segments \<noteq> length incoming then None
      else if \<not> literals_agree segments incoming then None
      else Some (collect_params segments incoming []))"

fun scan_candidates ::
  "versioning_type \<Rightarrow> string option \<Rightarrow> string list \<Rightarrow>
   (handler_descriptor \<times> route_segment list) list \<Rightarrow> handler_match option \<Rightarrow> handler_match option"
where
  "scan_candidates type version incoming [] unversioned =
     (if type \<noteq> Uri then unversioned else None)"
| "scan_candidates type version incoming ((d, segments) # cs) unversioned =
     (case match_parameterized_route segments incoming of
        None \<Rightarrow> scan_candidates type version incoming cs unversioned
      | Some params \<Rightarrow>
          if type = Uri then Some (d, params)
          else if matches_route_version d version then Some (d, params)
          else if rt_version (hd_route d) = None \<and> unversioned = None
            then scan_candidates type version incoming cs (Some (d, params))
          else scan_candidates type version incoming cs unversioned)"

record handler_mapping =
  hm_descriptors :: "handler_descriptor list"
  hm_versioning :: versioning
  hm_index :: descriptor_index

definition create_handler_mapping ::
  "handler_source list \<Rightarrow> versioning_options option \<Rightarrow> (mapping_error, handler_mapping) result" where
  "create_handler_mapping sources options =
     (let v = resolve_versioning options in
      case build_descriptor_list sources v of
        Inl e \<Rightarrow> Inl e
      | Inr ds \<Rightarrow>
          (case build_descriptor_index ds of
             Inl e \<Rightarrow> Inl e
           | Inr ix \<Rightarrow> Inr \<lparr>hm_descriptors = ds, hm_versioning = v, hm_index = ix\<rparr>))"

definition request_version :: "handler_mapping \<Rightarrow> http_request \<Rightarrow> string option" where
  "request_version m request =
     (if vs_type (hm_versioning m) = Uri then None
      else resolve_request_version request (hm_versioning m))"

definition match_handler :: "handler_mapping \<Rightarrow> http_request \<Rightarrow> handler_match option" where
  "match_handler m request =
     (let method = js_upper (rq_method request);
          type = vs_type (hm_versioning m);
          version = request_version m request;
          path = normalize_route_path (rq_path request);
          static = ix_static (hm_index m); param = ix_param (hm_index m) in
      case find_static_match type version
             [bucket_of static method path, bucket_of static ''ALL'' path] None of
        Some found \<Rightarrow> Some found
      | None \<Rightarrow>
          (let incoming = path_segments path in
           scan_candidates type version incoming
             (bucket_of param method (length incoming) @ bucket_of param ''ALL'' (length incoming))
             None))"

end
