(* ===== verification/Handler_Mapping_Facts.thy ===== *)
theory Handler_Mapping_Facts
  imports Handler_Mapping
begin

text \<open>
  Handler matching against its specification: the compiled index finds what a scan over all
  descriptors finds, the descriptors are conflict-free, and matching is sound and complete.
\<close>

section \<open>What a match is\<close>

definition route_segments :: "handler_descriptor \<Rightarrow> route_segment list" where
  "route_segments d =
     (case parse_route_path (rt_path (hd_route d)) None of Inl e \<Rightarrow> [] | Inr ss \<Rightarrow> ss)"

definition candidates ::
  "handler_descriptor list \<Rightarrow> string \<Rightarrow> bool \<Rightarrow> string \<Rightarrow> handler_match list" where
  "candidates ds method literal path =
     List.map_filter (\<lambda>d.
       if rt_method (hd_route d) = method \<and> list_all is_literal (route_segments d) = literal
       then map_option (Pair d) (match_route_path (route_segments d) (path_segments path)) else None) ds"

text \<open>The first candidate under URI versioning; otherwise the first one of the request's
  version, else the first without a version.\<close>

definition pick_match :: "versioning_type \<Rightarrow> string option \<Rightarrow> handler_match list \<Rightarrow> handler_match option" where
  "pick_match type version cs =
     (if type = Uri then (case cs of [] \<Rightarrow> None | c # _ \<Rightarrow> Some c)
      else case List.find (\<lambda>(d, _). matches_route_version d version) cs of
        Some c \<Rightarrow> Some c
      | None \<Rightarrow> List.find (\<lambda>(d, _). rt_version (hd_route d) = None) cs)"

text \<open>Literal routes before routes with parameters; among each, those of the request's method and
  then those of \<open>ALL\<close>, in the order of registration, are the candidates of \<open>pick_match\<close>.\<close>

definition route_match_spec :: "handler_mapping \<Rightarrow> http_request \<Rightarrow> handler_match option" where
  "route_match_spec m request =
     (let cs = (\<lambda>literal. candidates (hm_descriptors m) (js_upper (rq_method request)) literal (rq_path request) @
                candidates (hm_descriptors m) ''ALL'' literal (rq_path request));
          pick = pick_match (vs_type (hm_versioning m)) (request_version m request) in
      case pick (cs True) of Some c \<Rightarrow> Some c | None \<Rightarrow> pick (cs False))"

section \<open>The loops\<close>

lemma match_segments_two_loops:
  "length ss = length is \<Longrightarrow>
   match_segments ss is params =
     (if literals_agree ss is then Some (collect_params ss is params) else None)"
  by (induction ss "is" params rule: match_segments.induct) auto

lemma match_parameterized_eq: "match_parameterized_route = match_route_path"
  by (intro ext) (simp add: match_parameterized_route_def match_route_path_def match_segments_two_loops)

text \<open>\<open>pick_match\<close> with a first unversioned match already passed.\<close>

definition pick_after ::
  "versioning_type \<Rightarrow> string option \<Rightarrow> handler_match list \<Rightarrow> handler_match option \<Rightarrow> handler_match option"
where
  "pick_after type version cs unversioned =
     (if type = Uri then (case cs of [] \<Rightarrow> unversioned | c # _ \<Rightarrow> Some c)
      else case List.find (\<lambda>(d, _). matches_route_version d version) cs of
        Some c \<Rightarrow> Some c
      | None \<Rightarrow> (case unversioned of
            Some u \<Rightarrow> Some u
          | None \<Rightarrow> List.find (\<lambda>(d, _). rt_version (hd_route d) = None) cs))"

lemma pick_after_None: "pick_after type version cs None = pick_match type version cs"
  by (simp add: pick_after_def pick_match_def split: option.splits)

lemma scan_static_choose:
  "(case scan_static type version b u of Inl m \<Rightarrow> Some m | Inr u' \<Rightarrow> pick_after type version cs u') =
   pick_after type version (map (\<lambda>d. (d, [])) b @ cs) u"
  by (induction type version b u rule: scan_static.induct)
    (auto simp: pick_after_def split: option.splits)

lemma find_static_choose:
  "find_static_match type version bs u = pick_after type version (map (\<lambda>d. (d, [])) (concat bs)) u"
proof (induction bs arbitrary: u)
  case (Cons b bs)
  then show ?case
    using scan_static_choose [where type = type and version = version and b = b and u = u
        and cs = "map (\<lambda>d. (d, [])) (concat bs)"]
    by (cases "scan_static type version b u") simp_all
qed (auto simp: pick_after_def split: option.splits)

lemma scan_candidates_choose:
  "type = Uri \<longrightarrow> u = None \<Longrightarrow>
   scan_candidates type version is cs u =
   pick_after type version
     (List.map_filter (\<lambda>(d, ss). map_option (Pair d) (match_route_path ss is)) cs) u"
  by (induction cs arbitrary: u)
    (auto simp: pick_after_def match_parameterized_eq map_filter_simps split: option.splits)

section \<open>The index\<close>

lemma bucket_of_push:
  "bucket_of (push_bucket m k v index) m' k' =
   bucket_of index m' k' @ (if m = m' \<and> k = k' then [v] else [])"
  by (auto simp: bucket_of_def push_bucket_def Let_def split: option.splits)

lemma parse_label: "parse_route_path path label = Inr ss \<longleftrightarrow> parse_route_path path label' = Inr ss"
  by (simp add: parse_route_path_iff)

lemma index_descriptor_ok:
  assumes "index_descriptor d ix = Inr ix'"
  shows "bucket_of (ix_static ix') m p = bucket_of (ix_static ix) m p @
           (if rt_method (hd_route d) = m \<and> list_all is_literal (route_segments d) \<and>
               rt_path (hd_route d) = p then [d] else []) \<and>
         bucket_of (ix_param ix') m n = bucket_of (ix_param ix) m n @
           (if rt_method (hd_route d) = m \<and> \<not> list_all is_literal (route_segments d) \<and>
               length (route_segments d) = n then [(d, route_segments d)] else [])"
proof -
  obtain ss where "parse_route_path (rt_path (hd_route d))
      (Some (''Registered '' @ rt_method (hd_route d) @ '' route path'')) = Inr ss"
    using assms by (auto simp: index_descriptor_def Let_def split: sum.splits)
  moreover from this have "route_segments d = ss"
    by (subst (asm) parse_label [of _ _ ss None]) (simp add: route_segments_def)
  ultimately show ?thesis
    using assms by (auto simp: index_descriptor_def Let_def bucket_of_push split: if_splits)
qed

lemma build_index_ok:
  assumes "foldr_result index_descriptor ds ix = Inr ix'"
  shows "bucket_of (ix_static ix') m p = bucket_of (ix_static ix) m p @
           filter (\<lambda>d. rt_method (hd_route d) = m \<and> list_all is_literal (route_segments d) \<and>
                       rt_path (hd_route d) = p) ds \<and>
         bucket_of (ix_param ix') m n = bucket_of (ix_param ix) m n @
           map (\<lambda>d. (d, route_segments d))
             (filter (\<lambda>d. rt_method (hd_route d) = m \<and> \<not> list_all is_literal (route_segments d) \<and>
                          length (route_segments d) = n) ds)"
  using assms
proof (induction ds arbitrary: ix)
  case (Cons d ds)
  then obtain ix1 where "index_descriptor d ix = Inr ix1" and "foldr_result index_descriptor ds ix1 = Inr ix'"
    by (auto split: sum.splits)
  then show ?case
    using Cons.IH index_descriptor_ok [of d ix ix1 m p n] by simp
qed simp

section \<open>The descriptors\<close>

text \<open>What creation guarantees of a descriptor.\<close>

definition descriptor_ok :: "handler_descriptor \<Rightarrow> bool" where
  "descriptor_ok d \<longleftrightarrow>
     (let r = hd_route d in
      hd_effective_path d = rt_path r \<and> hd_effective_version d = rt_version r \<and>
      normalize_route_path (rt_path r) = rt_path r \<and>
      list_all segment_ok (route_segments d) \<and> rt_path r = render_path (route_segments d) \<and>
      hd_path_params d = param_names (route_segments d))"

lemma join_paths_normal: "normalize_route_path (join_paths a b) = join_paths a b"
  by (simp add: join_paths_def)

lemma effective_route_path_normal:
  "normalize_route_path (effective_route_path v c m version) = effective_route_path v c m version"
  by (simp add: effective_route_path_def apply_version_prefix_def join_paths_normal Let_def split: option.split)

lemma create_handler_descriptor_ok:
  assumes "create_handler_descriptor v source c name m produces = Inr d"
  shows "descriptor_ok d \<and> hd_controller d = hs_controller source \<and> hd_method_name d = name"
proof -
  define version where "version = (case rtm_version m of Some x \<Rightarrow> Some x | None \<Rightarrow> ctm_version c)"
  define path where "path = effective_route_path v c m version"
  have d: "\<exists>params. extract_route_path_params path = Inr params \<and> hd_path_params d = params \<and>
      rt_path (hd_route d) = path \<and> hd_effective_path d = path \<and>
      hd_effective_version d = rt_version (hd_route d) \<and>
      hd_controller d = hs_controller source \<and> hd_method_name d = name"
    using assms
    by (auto simp: create_handler_descriptor_def Let_def path_def version_def split: sum.splits)
  then obtain ss where parse: "parse_route_path path None = Inr ss"
    and params: "hd_path_params d = param_names ss"
    by (auto simp: extract_route_path_params_def param_names_def split: sum.splits)
  have normal: "normalize_route_path path = path"
    unfolding path_def by (rule effective_route_path_normal)
  from parse have "list_all segment_ok ss" and "normalize_route_path path = render_path ss"
    unfolding parse_route_path_iff by auto
  moreover have "route_segments d = ss"
    using d parse by (auto simp: route_segments_def)
  ultimately show ?thesis
    using d normal params by (auto simp: descriptor_ok_def Let_def)
qed

text \<open>The routed methods of a source.\<close>

definition routed_methods :: "handler_source \<Rightarrow> (nat \<times> string) list" where
  "routed_methods source =
     map (\<lambda>(name, _). (hs_controller source, name))
       (filter (\<lambda>(name, m, _). name \<noteq> ''constructor'' \<and> m \<noteq> None) (hs_properties source))"

lemma describe_methods_ok:
  assumes "describe_methods v source c ps = Inr ds"
  shows "list_all descriptor_ok ds \<and>
    map (\<lambda>d. (hd_controller d, hd_method_name d)) ds =
    map (\<lambda>(name, _). (hs_controller source, name)) (filter (\<lambda>(_, m, _). m \<noteq> None) ps)"
  using assms
proof (induction v source c ps arbitrary: ds rule: describe_methods.induct)
  case (3 v source c name m produces ps)
  then show ?case
    by (auto split: sum.splits dest: create_handler_descriptor_ok)
qed auto

lemma create_handler_descriptors_ok:
  assumes "create_handler_descriptors source v = Inr ds"
  shows "list_all descriptor_ok ds \<and>
         map (\<lambda>d. (hd_controller d, hd_method_name d)) ds = routed_methods source"
  using describe_methods_ok [OF assms [unfolded create_handler_descriptors_def]]
  by (simp add: routed_methods_def controller_methods_def case_prod_unfold conj_commute)

lemma check_conflicts_ok:
  "check_conflicts ds seen = Inr () \<longleftrightarrow>
   distinct (map route_key ds) \<and> set (map route_key ds) \<inter> seen = {}"
  by (induction ds arbitrary: seen) auto

lemma build_descriptor_list_ok:
  assumes "build_descriptor_list sources v = Inr ds"
  shows "list_all descriptor_ok ds \<and> distinct (map route_key ds) \<and>
         map (\<lambda>d. (hd_controller d, hd_method_name d)) ds = concat (map routed_methods sources)"
proof -
  obtain dss where dss: "list_all2 (\<lambda>s x. create_handler_descriptors s v = Inr x) sources dss"
    and ds: "ds = concat dss" and "check_conflicts ds {} = Inr ()"
    using assms by (auto simp: build_descriptor_list_def map_result_ok_iff split: sum.splits)
  then have "distinct (map route_key ds)" by (simp add: check_conflicts_ok)
  moreover have "list_all descriptor_ok (concat dss) \<and>
      map (\<lambda>d. (hd_controller d, hd_method_name d)) (concat dss) = concat (map routed_methods sources)"
    using dss by (induction rule: list_all2_induct) (auto dest: create_handler_descriptors_ok)
  ultimately show ?thesis using ds by simp
qed

lemma create_handler_mapping_ok:
  assumes "create_handler_mapping sources options = Inr m"
  shows "list_all descriptor_ok (hm_descriptors m) \<and> distinct (map route_key (hm_descriptors m)) \<and>
         map (\<lambda>d. (hd_controller d, hd_method_name d)) (hm_descriptors m) =
           concat (map routed_methods sources) \<and>
         build_descriptor_index (hm_descriptors m) = Inr (hm_index m)"
  using assms
  by (auto simp: create_handler_mapping_def Let_def split: sum.splits dest: build_descriptor_list_ok)

lemma distinct_map_compD: "distinct (map (f \<circ> g) xs) \<Longrightarrow> distinct (map g xs)"
  by (induction xs) auto

text \<open>C36. A mapping that is built holds exactly one descriptor per routed controller method, in
  order of registration; no two descriptors share method, path and version, and each one's
  path is normalized, allowed by the route syntax and has the recorded parameter names.\<close>

theorem handler_mapping_descriptors:
  assumes "create_handler_mapping sources options = Inr m"
  shows "map (\<lambda>d. (hd_controller d, hd_method_name d)) (hm_descriptors m) =
           concat (map routed_methods sources) \<and>
         distinct (map (\<lambda>d. (rt_method (hd_route d), rt_path (hd_route d),
           map_option normalize_version_value (rt_version (hd_route d)))) (hm_descriptors m)) \<and>
         list_all descriptor_ok (hm_descriptors m)"
proof -
  let ?triple = "\<lambda>d. (rt_method (hd_route d), rt_path (hd_route d),
           map_option normalize_version_value (rt_version (hd_route d)))"
  let ?key = "\<lambda>(meth, path, version). meth @ '':'' @ path @ '':'' @
      (case version of None \<Rightarrow> ''<none>'' | Some v \<Rightarrow> v)"
  have "route_key = ?key \<circ> ?triple"
    by (auto simp: fun_eq_iff route_key_def Let_def split: option.splits)
  moreover have "distinct (map route_key (hm_descriptors m))"
    using create_handler_mapping_ok [OF assms] by blast
  ultimately have "distinct (map (?key \<circ> ?triple) (hm_descriptors m))"
    by (simp only:)
  then have "distinct (map ?triple (hm_descriptors m))"
    by (rule distinct_map_compD)
  then show ?thesis
    using create_handler_mapping_ok [OF assms] by simp
qed

section \<open>Matching\<close>

lemma literal_match:
  assumes "list_all is_literal ss"
  shows "match_route_path ss is = (if map render_segment ss = is then Some [] else None)"
proof -
  have fits: "list_all2 segment_fits ss is \<longleftrightarrow> map render_segment ss = is" for "is"
    using assms
  proof (induction ss arbitrary: "is")
    case (Cons s ss)
    then show ?case by (cases s; cases "is") auto
  qed auto
  have "bindings ss is = []" if "map render_segment ss = is"
    using assms that
  proof (induction ss arbitrary: "is")
    case (Cons s ss)
    then show ?case by (cases s; cases "is") auto
  qed auto
  then show ?thesis by (simp add: match_route_path_eq fits)
qed

lemma static_path_match:
  assumes "descriptor_ok d" and "list_all is_literal (route_segments d)"
  shows "rt_path (hd_route d) = normalize_route_path path \<longleftrightarrow>
         map render_segment (route_segments d) = path_segments path"
proof -
  have "path_segments (rt_path (hd_route d)) = map render_segment (route_segments d)"
    using assms(1)
    by (simp add: descriptor_ok_def Let_def path_segments_render)
  then show ?thesis
    using assms(1) by (metis descriptor_ok_def normalize_route_path_eq path_segments_normalize)
qed

lemma static_candidates:
  assumes "list_all descriptor_ok ds"
  shows "map (\<lambda>d. (d, [])) (filter (\<lambda>d. rt_method (hd_route d) = meth \<and>
           list_all is_literal (route_segments d) \<and> rt_path (hd_route d) = normalize_route_path path) ds) =
         candidates ds meth True path"
  using assms
  by (induction ds) (auto simp: candidates_def map_filter_simps static_path_match literal_match)

lemma param_candidates:
  "List.map_filter (\<lambda>(d, ss). map_option (Pair d) (match_route_path ss (path_segments path)))
     (map (\<lambda>d. (d, route_segments d)) (filter (\<lambda>d. rt_method (hd_route d) = meth \<and>
        \<not> list_all is_literal (route_segments d) \<and>
        length (route_segments d) = length (path_segments path)) ds)) =
   candidates ds meth False path"
  by (induction ds) (auto simp: candidates_def map_filter_simps match_route_path_def split: option.splits)

lemma map_filter_append: "List.map_filter f (xs @ ys) = List.map_filter f xs @ List.map_filter f ys"
  by (simp add: map_filter_def)

lemma match_handler_spec:
  assumes "create_handler_mapping sources options = Inr m"
  shows "match_handler m request = route_match_spec m request"
proof -
  have ok: "list_all descriptor_ok (hm_descriptors m)"
    and index: "foldr_result index_descriptor (hm_descriptors m) \<lparr>ix_static = [], ix_param = []\<rparr> = Inr (hm_index m)"
    using create_handler_mapping_ok [OF assms] by (simp_all add: build_descriptor_index_def)
  have empty: "bucket_of [] a b = []" for a b
    by (simp add: bucket_of_def)
  have static: "map (\<lambda>d. (d, [])) (bucket_of (ix_static (hm_index m)) meth (normalize_route_path path)) =
      candidates (hm_descriptors m) meth True path" for meth path
    using build_index_ok [OF index] static_candidates [OF ok] by (simp add: empty)
  have param: "List.map_filter (\<lambda>(d, ss). map_option (Pair d) (match_route_path ss (path_segments path)))
        (bucket_of (ix_param (hm_index m)) meth (length (path_segments path))) =
      candidates (hm_descriptors m) meth False path" for meth path
    using build_index_ok [OF index] param_candidates by (simp add: empty)
  show ?thesis
    by (simp add: match_handler_def route_match_spec_def Let_def find_static_choose pick_after_None
        scan_candidates_choose map_filter_append static param split: option.split)
qed

text \<open>C26. The compiled index is invisible: matching a request gives what a scan over all
  descriptors gives: literal routes go before routes with parameters; among each, the routes of
  the request's method in the order of registration are followed by those of \<open>ALL\<close>, and the first of
  them is taken under URI versioning, otherwise the first one of the request's version and, if there
  is none, the first without a version. So a route of \<open>ALL\<close> with the request's version goes
  before one of the request's method without a version.\<close>

theorem handler_match_refines:
  assumes "create_handler_mapping sources options = Inr m"
  shows "match_handler m request = route_match_spec m request"
  by (rule match_handler_spec [OF assms])

text \<open>The descriptors that may serve a request.\<close>

definition serves :: "handler_mapping \<Rightarrow> http_request \<Rightarrow> handler_descriptor \<Rightarrow> bool" where
  "serves m request d \<longleftrightarrow>
     (rt_method (hd_route d) = js_upper (rq_method request) \<or> rt_method (hd_route d) = ''ALL'') \<and>
     list_all2 segment_fits (route_segments d) (path_segments (rq_path request)) \<and>
     (vs_type (hm_versioning m) = Uri \<or> matches_route_version d (request_version m request) \<or>
      rt_version (hd_route d) = None)"

lemma candidates_iff:
  "(d, params) \<in> set (candidates ds meth lit path) \<longleftrightarrow>
   d \<in> set ds \<and> rt_method (hd_route d) = meth \<and> list_all is_literal (route_segments d) = lit \<and>
   match_route_path (route_segments d) (path_segments path) = Some params"
  by (induction ds) (auto simp: candidates_def map_filter_simps split: option.splits)

lemma pick_match_SomeD:
  "pick_match type version cs = Some (d, params) \<Longrightarrow>
   (d, params) \<in> set cs \<and>
   (type = Uri \<or> matches_route_version d version \<or> rt_version (hd_route d) = None)"
  by (auto simp: pick_match_def find_Some_iff split: if_splits list.splits option.splits)
    (metis nth_mem)+

lemma pick_match_NoneD:
  "pick_match type version cs = None \<Longrightarrow> (d, params) \<in> set cs \<Longrightarrow>
   type \<noteq> Uri \<and> \<not> matches_route_version d version \<and> rt_version (hd_route d) \<noteq> None"
  by (auto simp: pick_match_def find_None_iff split: if_splits list.splits option.splits)

text \<open>C35. Matching is sound and complete: a match is one of the mapping's descriptors, serves the
  request's method, path and version, and carries the parameters its path gives; and there is
  no match only if no descriptor serves the request.\<close>

theorem handler_match_exact:
  assumes "create_handler_mapping sources options = Inr m"
  shows "(match_handler m request = Some (d, params) \<longrightarrow>
            d \<in> set (hm_descriptors m) \<and> serves m request d \<and>
            match_route_path (route_segments d) (path_segments (rq_path request)) = Some params) \<and>
         (match_handler m request = None \<longleftrightarrow> \<not> list_ex (serves m request) (hm_descriptors m))"
proof -
  let ?meth = "js_upper (rq_method request)"
  let ?cs = "\<lambda>lit. candidates (hm_descriptors m) ?meth lit (rq_path request) @
                    candidates (hm_descriptors m) ''ALL'' lit (rq_path request)"
  let ?pick = "pick_match (vs_type (hm_versioning m)) (request_version m request)"
  have spec: "match_handler m request = (case ?pick (?cs True) of Some c \<Rightarrow> Some c | None \<Rightarrow> ?pick (?cs False))"
    using match_handler_spec [OF assms] by (simp add: route_match_spec_def Let_def)
  have fits: "match_route_path ss is = Some p \<Longrightarrow> list_all2 segment_fits ss is" for ss "is" p
    by (simp add: match_route_path_eq split: if_splits)
  have some: "?pick (?cs lit) = Some (d, params) \<Longrightarrow> d \<in> set (hm_descriptors m) \<and> serves m request d \<and>
      match_route_path (route_segments d) (path_segments (rq_path request)) = Some params" for lit d params
    by (auto dest!: pick_match_SomeD simp: candidates_iff serves_def fits)
  have none: "\<not> serves m request d"
    if "?pick (?cs True) = None" and "?pick (?cs False) = None" and "d \<in> set (hm_descriptors m)" for d
  proof
    assume "serves m request d"
    moreover from this obtain p where
      "match_route_path (route_segments d) (path_segments (rq_path request)) = Some p"
      by (auto simp: serves_def match_route_path_eq)
    ultimately have "(d, p) \<in> set (?cs (list_all is_literal (route_segments d)))"
      using that(3) by (auto simp: candidates_iff serves_def)
    then show False
      using that(1,2) \<open>serves m request d\<close>
      by (cases "list_all is_literal (route_segments d)") (auto dest: pick_match_NoneD simp: serves_def)
  qed
  have found: "list_ex (serves m request) (hm_descriptors m)" if "?pick (?cs lit) = Some c" for lit c
    using some [of lit "fst c" "snd c"] that by (auto simp: list_ex_iff)
  show ?thesis
  proof (cases "?pick (?cs True)")
    case (Some c)
    with found [OF Some] show ?thesis unfolding spec using some [of True d params] by auto
  next
    case no_literal: None
    show ?thesis
    proof (cases "?pick (?cs False)")
      case (Some c)
      with no_literal found [OF Some] show ?thesis
        unfolding spec using some [of False d params] by auto
    next
      case None
      with no_literal show ?thesis unfolding spec using none by (simp add: list_ex_iff)
    qed
  qed
qed

section \<open>A sample mapping\<close>

definition users_controller :: handler_source where
  "users_controller =
     (let route = (\<lambda>method path version. Some \<lparr>rtm_method = method, rtm_path = path, rtm_version = version,
            rtm_guards = None, rtm_interceptors = None, rtm_rest = 0\<rparr>) in
      \<lparr>hs_controller = 0, hs_middleware = None, hs_module = None,
       hs_metadata = Some \<lparr>ctm_base = ''/users'', ctm_version = None, ctm_guards = None, ctm_interceptors = None\<rparr>,
       hs_properties =
         [(''constructor'', None, None), (''list'', route ''GET'' ''/'' None, None),
          (''show'', route ''GET'' '':id'' None, None), (''me'', route ''GET'' ''me'' (Some ''v2''), None)]\<rparr>)"

definition users_mapping :: handler_mapping where
  "users_mapping = (case create_handler_mapping [users_controller] (Some (HeaderVersioning ''X-Version'')) of
     Inr m \<Rightarrow> m | Inl e \<Rightarrow> undefined)"

definition get_users :: "string \<Rightarrow> multi_value \<Rightarrow> http_request" where
  "get_users path version =
     \<lparr>rq_method = ''get'', rq_path = path, rq_headers = [(''x-version'', version)]\<rparr>"

lemma users_mapping_created:
  "create_handler_mapping [users_controller] (Some (HeaderVersioning ''X-Version'')) = Inr users_mapping"
proof -
  have "is_ok (create_handler_mapping [users_controller] (Some (HeaderVersioning ''X-Version'')))"
    by code_simp
  then show ?thesis by (auto simp: is_ok_iff users_mapping_def)
qed

lemma handler_mapping_descriptors_witness:
  "map hd_method_name (hm_descriptors users_mapping) = [''list'', ''show'', ''me'']"
proof -
  have "map snd (map (\<lambda>d. (hd_controller d, hd_method_name d)) (hm_descriptors users_mapping)) =
        map snd (concat (map routed_methods [users_controller]))"
    using handler_mapping_descriptors [OF users_mapping_created] by simp
  moreover have "map snd (concat (map routed_methods [users_controller])) = [''list'', ''show'', ''me'']"
    by code_simp
  ultimately show ?thesis by (simp add: comp_def)
qed

lemma handler_match_refines_witness:
  "map_option (\<lambda>(d, params). (hd_method_name d, params))
     (route_match_spec users_mapping (get_users ''/users//7/'' NoValue)) = Some (''show'', [(''id'', ''7'')])"
proof -
  have "map_option (\<lambda>(d, params). (hd_method_name d, params))
     (match_handler users_mapping (get_users ''/users//7/'' NoValue)) = Some (''show'', [(''id'', ''7'')])"
    by code_simp
  then show ?thesis
    by (simp only: handler_match_refines [OF users_mapping_created])
qed

lemma handler_match_exact_witness:
  "\<not> list_ex (serves users_mapping (get_users ''/orders'' (OneValue ''2''))) (hm_descriptors users_mapping)"
proof -
  have "match_handler users_mapping (get_users ''/orders'' (OneValue ''2'')) = None"
    by code_simp
  then show ?thesis
    using handler_match_exact [OF users_mapping_created, of "get_users ''/orders'' (OneValue ''2'')"] by simp
qed

end
