(* ===== verification/Js_Number.thy ===== *)
theory Js_Number
  imports Complex_Main Js_String
begin

text \<open>
  \<open>Number(s)\<close> of JavaScript on strings. Values are exact rationals: rounding to the nearest
  double is not modelled, except that what rounds to an infinity is one and what rounds to
  zero is zero.
\<close>

datatype js_number = NotANumber | Infinite | Finite rat

definition is_digit :: "char \<Rightarrow> bool" where
  "is_digit c = (let n = (of_char c :: nat) in 48 \<le> n \<and> n \<le> 57)"

text \<open>The value of a digit up to base 16.\<close>

definition digit_value :: "char \<Rightarrow> nat option" where
  "digit_value c =
     (let n = (of_char c :: nat) in
      if 48 \<le> n \<and> n \<le> 57 then Some (n - 48)
      else if 97 \<le> n \<and> n \<le> 102 then Some (n - 87)
      else if 65 \<le> n \<and> n \<le> 70 then Some (n - 55)
      else None)"

fun read_digits :: "nat \<Rightarrow> nat \<Rightarrow> string \<Rightarrow> nat option" where
  "read_digits base acc [] = Some acc"
| "read_digits base acc (c # cs) =
     (case digit_value c of
        None \<Rightarrow> None
      | Some d \<Rightarrow> if d < base then read_digits base (acc * base + d) cs else None)"

text \<open>A run of decimal digits; the empty run is 0.\<close>

definition decimal_value :: "string \<Rightarrow> nat" where
  "decimal_value ds = (case read_digits 10 0 ds of Some n \<Rightarrow> n | None \<Rightarrow> 0)"

definition scale10 :: "int \<Rightarrow> rat \<Rightarrow> rat" where
  "scale10 e q = (if 0 \<le> e then q * 10 ^ nat e else q / 10 ^ nat (- e))"

text \<open>The part from \<open>e\<close> or \<open>E\<close> on; nothing stands for exponent 0.\<close>

definition exponent_value :: "string \<Rightarrow> int option" where
  "exponent_value s =
     (case s of
        [] \<Rightarrow> Some 0
      | c # cs \<Rightarrow>
          if c \<noteq> CHR ''e'' \<and> c \<noteq> CHR ''E'' then None
          else
            (let sign = (case cs of d # _ \<Rightarrow> d = CHR ''+'' \<or> d = CHR ''-'' | [] \<Rightarrow> False);
                 ds = (if sign then tl cs else cs) in
             if ds = [] \<or> \<not> list_all is_digit ds then None
             else Some ((if sign \<and> hd cs = CHR ''-'' then -1 else 1) * int (decimal_value ds))))"

text \<open>Digits with an optional point and exponent, with a digit before or after the point.\<close>

definition unsigned_decimal :: "string \<Rightarrow> rat option" where
  "unsigned_decimal s =
     (let whole = takeWhile is_digit s; rest = dropWhile is_digit s;
          point = (case rest of c # _ \<Rightarrow> c = CHR ''.'' | [] \<Rightarrow> False);
          fraction = (if point then takeWhile is_digit (tl rest) else []);
          tail = (if point then dropWhile is_digit (tl rest) else rest) in
      if whole = [] \<and> fraction = [] then None
      else map_option
             (\<lambda>e. scale10 (e - int (length fraction)) (of_nat (decimal_value (whole @ fraction))))
             (exponent_value tail))"

text \<open>The least magnitude that rounds to infinity, and the greatest that rounds to zero.\<close>

definition to_double :: "bool \<Rightarrow> rat \<Rightarrow> js_number" where
  "to_double negative q =
     (if q \<ge> 2 ^ 1024 - 2 ^ 970 then Infinite
      else if q * 2 ^ 1075 \<le> 1 then Finite 0
      else Finite (if negative then - q else q))"

text \<open>Ordinary magnitudes are evaluated without the two bounds.\<close>

lemma to_double_code [code]:
  "to_double negative q =
     (if q = 0 \<or> (1 \<le> q * 1024 \<and> q \<le> 1024) then Finite (if negative then - q else q)
      else if q \<ge> 2 ^ 1024 - 2 ^ 970 then Infinite
      else if q * 2 ^ 1075 \<le> 1 then Finite 0
      else Finite (if negative then - q else q))"
proof -
  have "\<not> 2 ^ 1024 - 2 ^ 970 \<le> q" if "q \<le> 1024"
    using that by simp
  moreover have "\<not> q * 2 ^ 1075 \<le> 1" if "1 \<le> q * 1024"
  proof -
    have "(q * 1024) * 2 \<le> (q * 1024) * 2 ^ 1065"
      using that by (intro mult_left_mono) simp_all
    then have "2 \<le> q * 2 ^ 1075"
      using that by simp
    then show ?thesis by simp
  qed
  ultimately show ?thesis
    by (auto simp: to_double_def)
qed

definition signed_number :: "bool \<Rightarrow> string \<Rightarrow> js_number" where
  "signed_number negative s =
     (if s = ''Infinity'' then Infinite
      else case unsigned_decimal s of None \<Rightarrow> NotANumber | Some q \<Rightarrow> to_double negative q)"

definition prefixed_number :: "nat \<Rightarrow> string \<Rightarrow> js_number" where
  "prefixed_number base ds =
     (if ds = [] then NotANumber
      else case read_digits base 0 ds of None \<Rightarrow> NotANumber | Some n \<Rightarrow> to_double False (of_nat n))"

definition js_number_of :: "string \<Rightarrow> js_number" where
  "js_number_of s =
     (let t = js_trim s; prefix = js_lower (take 2 t) in
      if t = [] then Finite 0
      else if prefix = ''0x'' then prefixed_number 16 (drop 2 t)
      else if prefix = ''0o'' then prefixed_number 8 (drop 2 t)
      else if prefix = ''0b'' then prefixed_number 2 (drop 2 t)
      else if hd t = CHR ''-'' then signed_number True (tl t)
      else if hd t = CHR ''+'' then signed_number False (tl t)
      else signed_number False t)"

end
