(* ===== verification/Content_Negotiation.thy ===== *)
theory Content_Negotiation
  imports Js_Number Http_Request "HOL-Library.Multiset"
begin

text \<open>
  \<open>packages/http/src/dispatch/dispatch-content-negotiation.ts\<close>: the configured formatters, the
  Accept header with its quality values, and the choice of the response formatter.
\<close>

section \<open>Accept tokens\<close>

text \<open>The order the tokens are sorted by: greater quality first, then greater specificity. The
  better preference is the smaller one.\<close>

datatype preference = Preference (pf_quality: rat) (pf_specificity: nat)

instantiation preference :: linorder
begin

definition less_eq_preference :: "preference \<Rightarrow> preference \<Rightarrow> bool" where
  "p \<le> q \<longleftrightarrow> pf_quality q < pf_quality p \<or>
     (pf_quality p = pf_quality q \<and> pf_specificity q \<le> pf_specificity p)"

definition less_preference :: "preference \<Rightarrow> preference \<Rightarrow> bool" where
  "p < q \<longleftrightarrow> pf_quality q < pf_quality p \<or>
     (pf_quality p = pf_quality q \<and> pf_specificity q < pf_specificity p)"

instance
  by standard (auto simp: less_eq_preference_def less_preference_def preference.expand)

end

record accept_token =
  at_range :: string
  at_preference :: preference

definition first_piece :: "char \<Rightarrow> string \<Rightarrow> string" where
  "first_piece sep s = (case js_split sep s of p # _ \<Rightarrow> p | [] \<Rightarrow> [])"

definition normalize_media_type :: "string \<Rightarrow> string" where
  "normalize_media_type v = js_lower (js_trim (first_piece (CHR '';'') v))"

text \<open>\<open>request.headers.accept ?? request.headers.Accept\<close>, trimmed; blank counts as absent.\<close>

definition header_property :: "http_request \<Rightarrow> string \<Rightarrow> multi_value" where
  "header_property request name = (case js_get (rq_headers request) name of None \<Rightarrow> NoValue | Some v \<Rightarrow> v)"

definition read_accept_header :: "http_request \<Rightarrow> string option" where
  "read_accept_header request =
     (let raw = (case header_property request ''accept'' of
                   NoValue \<Rightarrow> header_property request ''Accept'' | v \<Rightarrow> v);
          v = (case raw of NoValue \<Rightarrow> None | OneValue v \<Rightarrow> Some v | ManyValues vs \<Rightarrow> Some (js_join '','' vs)) in
      case v of None \<Rightarrow> None | Some s \<Rightarrow> if js_trim s = [] then None else Some (js_trim s))"

definition parse_quality :: "string option \<Rightarrow> rat" where
  "parse_quality v =
     (case v of
        None \<Rightarrow> 1
      | Some s \<Rightarrow>
          if s = [] then 1
          else (case js_number_of s of
                  Finite q \<Rightarrow> if q < 0 then 0 else if q > 1 then 1 else q
                | _ \<Rightarrow> 0))"

definition media_range_specificity :: "string \<Rightarrow> nat" where
  "media_range_specificity r =
     (if r = ''*/*'' then 0
      else if length r \<ge> 2 \<and> drop (length r - 2) r = ''/*'' then 1 else 2)"

text \<open>The loop over the parameters: the first \<open>q\<close> decides.\<close>

fun token_quality :: "string list \<Rightarrow> rat" where
  "token_quality [] = 1"
| "token_quality (part # parts) =
     (let pieces = js_split (CHR ''='') (js_trim part) in
      if js_lower (hd pieces) = ''q'' then
        parse_quality (case tl pieces of [] \<Rightarrow> None | v # _ \<Rightarrow> Some (js_trim v))
      else token_quality parts)"

definition parse_accept_token :: "string \<Rightarrow> accept_token option" where
  "parse_accept_token token =
     (let pieces = js_split (CHR '';'') (js_trim token);
          rng = normalize_media_type (hd pieces);
          quality = token_quality (tl pieces) in
      if rng = [] \<or> CHR ''/'' \<notin> set rng then None
      else if quality \<le> 0 then None
      else Some \<lparr>at_range = rng, at_preference = Preference quality (media_range_specificity rng)\<rparr>)"

definition parse_accept_header :: "string \<Rightarrow> accept_token list" where
  "parse_accept_header header =
     sort_key at_preference (List.map_filter parse_accept_token (js_split (CHR '','') header))"

text \<open>Destructuring \<open>split('/')\<close>: a missing piece and an empty one are both refused.\<close>

definition piece :: "nat \<Rightarrow> string \<Rightarrow> string" where
  "piece i s = (let ps = js_split (CHR ''/'') s in if i < length ps then ps ! i else [])"

definition matches_media_range :: "string \<Rightarrow> string \<Rightarrow> bool" where
  "matches_media_range rng media =
     (if rng = ''*/*'' then True
      else if piece 0 rng = [] \<or> piece 1 rng = [] \<or> piece 0 media = [] \<or> piece 1 media = [] then False
      else if piece 0 rng \<noteq> ''*'' \<and> piece 0 rng \<noteq> piece 0 media then False
      else piece 1 rng = ''*'' \<or> piece 1 rng = piece 1 media)"

section \<open>Formatters\<close>

record formatter =
  fm_media_type :: string
  fm_format :: nat

record negotiation_options =
  no_default :: "string option"
  no_formatters :: "formatter list option"

record negotiation =
  ng_default :: formatter
  ng_formatters :: "formatter list"
  ng_media_types :: "string list"

abbreviation media_type_of :: "formatter \<Rightarrow> string" where
  "media_type_of f \<equiv> normalize_media_type (fm_media_type f)"

fun unique_formatters :: "string set \<Rightarrow> formatter list \<Rightarrow> formatter list" where
  "unique_formatters seen [] = []"
| "unique_formatters seen (f # fs) =
     (if media_type_of f = [] \<or> media_type_of f \<in> seen then unique_formatters seen fs
      else f # unique_formatters (insert (media_type_of f) seen) fs)"

definition resolve_content_negotiation :: "negotiation_options option \<Rightarrow> negotiation option" where
  "resolve_content_negotiation options =
     (case Option.bind options no_formatters of
        None \<Rightarrow> None
      | Some configured \<Rightarrow>
          if configured = [] then None
          else
            (case unique_formatters {} configured of
               [] \<Rightarrow> None
             | f # fs \<Rightarrow>
                 (let media = normalize_media_type
                        (case Option.bind options no_default of None \<Rightarrow> [] | Some d \<Rightarrow> d);
                      chosen = (if media \<noteq> []
                        then (case List.find (\<lambda>g. media_type_of g = media) (f # fs) of Some g \<Rightarrow> g | None \<Rightarrow> f)
                        else f) in
                  Some \<lparr>ng_default = chosen, ng_formatters = f # fs,
                        ng_media_types = map media_type_of (f # fs)\<rparr>)))"

section \<open>Choosing the formatter\<close>

text \<open>The loop over the two parallel arrays.\<close>

fun filter_parallel :: "string set \<Rightarrow> formatter list \<Rightarrow> string list \<Rightarrow> formatter list \<times> string list" where
  "filter_parallel allowed (f # fs) (m # ms) =
     (let (fs', ms') = filter_parallel allowed fs ms in
      if m \<in> allowed then (f # fs', m # ms') else (fs', ms'))"
| "filter_parallel allowed _ _ = ([], [])"

definition resolve_allowed_formatters ::
  "string list option \<Rightarrow> negotiation \<Rightarrow> formatter list \<times> string list" where
  "resolve_allowed_formatters produces n =
     (case produces of
        None \<Rightarrow> (ng_formatters n, ng_media_types n)
      | Some ps \<Rightarrow>
          if ps = [] then (ng_formatters n, ng_media_types n)
          else filter_parallel (normalize_media_type ` set ps) (ng_formatters n) (ng_media_types n))"

fun index_of :: "'a \<Rightarrow> 'a list \<Rightarrow> nat option" where
  "index_of x [] = None"
| "index_of x (y # ys) = (if x = y then Some 0 else map_option Suc (index_of x ys))"

definition resolve_default_formatter :: "formatter list \<Rightarrow> string list \<Rightarrow> negotiation \<Rightarrow> formatter" where
  "resolve_default_formatter fs ms n =
     (case index_of (media_type_of (ng_default n)) ms of
        Some i \<Rightarrow> fs ! i
      | None \<Rightarrow> (case fs of f # _ \<Rightarrow> f | [] \<Rightarrow> ng_default n))"

fun first_matching :: "string \<Rightarrow> formatter list \<Rightarrow> string list \<Rightarrow> formatter option" where
  "first_matching rng (f # fs) (m # ms) =
     (if matches_media_range rng m then Some f else first_matching rng fs ms)"
| "first_matching rng _ _ = None"

datatype negotiation_error = NotAcceptable

fun select_by_tokens ::
  "accept_token list \<Rightarrow> formatter \<Rightarrow> formatter list \<Rightarrow> string list \<Rightarrow> (negotiation_error, formatter) result"
where
  "select_by_tokens [] fallback fs ms = Inl NotAcceptable"
| "select_by_tokens (t # ts) fallback fs ms =
     (if at_range t = ''*/*'' then Inr fallback
      else case first_matching (at_range t) fs ms of
        Some f \<Rightarrow> Inr f
      | None \<Rightarrow> select_by_tokens ts fallback fs ms)"

definition select_response_formatter ::
  "string list option \<Rightarrow> http_request \<Rightarrow> negotiation \<Rightarrow> (negotiation_error, formatter) result" where
  "select_response_formatter produces request n =
     (let (fs, ms) = resolve_allowed_formatters produces n in
      if fs = [] then Inl NotAcceptable
      else
        (let fallback = resolve_default_formatter fs ms n in
         case read_accept_header request of
           None \<Rightarrow> Inr fallback
         | Some header \<Rightarrow>
             (let tokens = parse_accept_header header in
              if tokens = [] then Inl NotAcceptable else select_by_tokens tokens fallback fs ms)))"

end
