(* ===== verification/Content_Negotiation_Facts.thy ===== *)
theory Content_Negotiation_Facts
  imports Content_Negotiation
begin

text \<open>
  What content negotiation guarantees: the order of the Accept tokens, that the chosen
  formatter is allowed and wanted most, when the answer is 406, and how a quality of zero is
  lost.
\<close>

section \<open>The Accept header\<close>

lemma parse_quality_bounds: "0 \<le> parse_quality v \<and> parse_quality v \<le> 1"
  by (auto simp: parse_quality_def split: option.splits js_number.splits)

lemma token_quality_bounds: "0 \<le> token_quality parts \<and> token_quality parts \<le> 1"
  by (induction parts) (auto simp: Let_def parse_quality_bounds)

definition quality_of :: "accept_token \<Rightarrow> rat" where
  "quality_of t = pf_quality (at_preference t)"

lemma parse_accept_token_bounds:
  "parse_accept_token s = Some t \<Longrightarrow> 0 < quality_of t \<and> quality_of t \<le> 1 \<and> CHR ''/'' \<in> set (at_range t)"
  using token_quality_bounds
  by (auto simp: parse_accept_token_def Let_def quality_of_def split: if_splits)

text \<open>A sort by key keeps the order of elements with equal keys.\<close>

lemma filter_insort_other: "f x \<noteq> k \<Longrightarrow> filter (\<lambda>y. f y = k) (insort_key f x xs) = filter (\<lambda>y. f y = k) xs"
  by (induction xs) auto

lemma filter_insort_same:
  "sorted (map f xs) \<Longrightarrow> filter (\<lambda>y. f y = f x) (insort_key f x xs) = x # filter (\<lambda>y. f y = f x) xs"
  by (induction xs) (auto intro: filter_False dest: antisym)

lemma filter_sort_key: "filter (\<lambda>y. f y = k) (sort_key f xs) = filter (\<lambda>y. f y = k) xs"
proof (induction xs)
  case (Cons x xs)
  have "sorted (map f (sort_key f xs))" by simp
  with Cons show ?case
    by (cases "f x = k") (auto simp: filter_insort_other filter_insort_same)
qed simp

text \<open>The Accept tokens hold exactly the pieces of the header that name a media range and
  have a positive quality; qualities are at most 1; the tokens are sorted by quality and then
  specificity, and tokens with equal preference keep their order in the header.\<close>

theorem accept_tokens_ordered:
  "sorted (map at_preference (parse_accept_header header)) \<and>
   mset (parse_accept_header header) =
     mset (List.map_filter parse_accept_token (js_split (CHR '','') header)) \<and>
   filter (\<lambda>t. at_preference t = p) (parse_accept_header header) =
     filter (\<lambda>t. at_preference t = p) (List.map_filter parse_accept_token (js_split (CHR '','') header)) \<and>
   list_all (\<lambda>t. 0 < quality_of t \<and> quality_of t \<le> 1) (parse_accept_header header)"
proof -
  have "list_all (\<lambda>t. 0 < quality_of t \<and> quality_of t \<le> 1) (List.map_filter parse_accept_token pieces)"
    for pieces
    by (induction pieces) (auto simp: map_filter_simps split: option.splits dest: parse_accept_token_bounds)
  then show ?thesis
    by (simp add: parse_accept_header_def filter_sort_key list_all_iff)
qed

section \<open>Allowed formatters\<close>

text \<open>A configured formatter the route may produce.\<close>

definition producible :: "string list option \<Rightarrow> formatter \<Rightarrow> bool" where
  "producible produces f =
     (case produces of
        None \<Rightarrow> True
      | Some ps \<Rightarrow> ps = [] \<or> media_type_of f \<in> normalize_media_type ` set ps)"

definition allowed_formatters :: "string list option \<Rightarrow> negotiation \<Rightarrow> formatter list" where
  "allowed_formatters produces n = filter (producible produces) (ng_formatters n)"

lemma filter_parallel_map:
  "filter_parallel allowed fs (map media_type_of fs) =
   (filter (\<lambda>f. media_type_of f \<in> allowed) fs,
    map media_type_of (filter (\<lambda>f. media_type_of f \<in> allowed) fs))"
  by (induction fs) (auto simp: Let_def)

lemma resolve_negotiation_media:
  "resolve_content_negotiation options = Some n \<Longrightarrow> ng_media_types n = map media_type_of (ng_formatters n)"
  by (auto simp: resolve_content_negotiation_def Let_def split: option.splits if_splits list.splits)

lemma resolve_allowed_eq:
  assumes "ng_media_types n = map media_type_of (ng_formatters n)"
  shows "resolve_allowed_formatters produces n =
         (allowed_formatters produces n, map media_type_of (allowed_formatters produces n))"
proof (cases "produces = None \<or> produces = Some []")
  case True
  then have "producible produces = (\<lambda>f. True)" by (auto simp: producible_def)
  with True assms show ?thesis
    by (auto simp: resolve_allowed_formatters_def allowed_formatters_def)
next
  case False
  then obtain ps where ps: "produces = Some ps" "ps \<noteq> []" by auto
  then have "producible produces = (\<lambda>f. media_type_of f \<in> normalize_media_type ` set ps)"
    by (auto simp: producible_def)
  with ps show ?thesis
    using assms
    by (simp add: resolve_allowed_formatters_def allowed_formatters_def filter_parallel_map)
qed

lemma index_of_Some: "index_of x ys = Some i \<Longrightarrow> i < length ys \<and> ys ! i = x"
  by (induction ys arbitrary: i) (auto split: if_splits)

lemma default_formatter_allowed:
  "fs \<noteq> [] \<Longrightarrow> resolve_default_formatter fs (map media_type_of fs) n \<in> set fs"
  by (auto simp: resolve_default_formatter_def split: option.splits list.splits dest: index_of_Some)

definition accepts :: "accept_token \<Rightarrow> formatter \<Rightarrow> bool" where
  "accepts t f = matches_media_range (at_range t) (media_type_of f)"

lemma first_matching_eq:
  "first_matching r fs (map media_type_of fs) = List.find (\<lambda>f. matches_media_range r (media_type_of f)) fs"
  by (induction fs) auto

lemma find_SomeD: "List.find P xs = Some x \<Longrightarrow> P x \<and> x \<in> set xs"
  by (auto simp: find_Some_iff)

lemma accepts_any: "at_range t = ''*/*'' \<Longrightarrow> accepts t f"
  by (simp add: accepts_def matches_media_range_def)

lemma select_by_tokens_Inr:
  assumes "select_by_tokens ts d fs (map media_type_of fs) = Inr f" and "d \<in> set fs"
  shows "\<exists>t us vs. ts = us @ t # vs \<and> accepts t f \<and> f \<in> set fs \<and>
           (\<forall>u \<in> set us. \<forall>g \<in> set fs. \<not> accepts u g)"
  using assms(1)
proof (induction ts)
  case (Cons t ts)
  show ?case
  proof (cases "at_range t = ''*/*'' \<or> first_matching (at_range t) fs (map media_type_of fs) \<noteq> None")
    case True
    have "accepts t f \<and> f \<in> set fs"
    proof (cases "at_range t = ''*/*''")
      case any: True
      with Cons.prems assms(2) show ?thesis by (simp add: accepts_any)
    next
      case False
      with True Cons.prems show ?thesis
        by (auto simp: accepts_def first_matching_eq dest: find_SomeD)
    qed
    then have "t # ts = [] @ t # ts \<and> accepts t f \<and> f \<in> set fs \<and>
        (\<forall>u \<in> set []. \<forall>g \<in> set fs. \<not> accepts u g)" by simp
    then show ?thesis by blast
  next
    case False
    then have none: "\<forall>g \<in> set fs. \<not> accepts t g"
      by (auto simp: accepts_def first_matching_eq find_None_iff)
    from False Cons.prems have "select_by_tokens ts d fs (map media_type_of fs) = Inr f"
      by simp
    from Cons.IH [OF this] obtain t' us vs where "ts = us @ t' # vs" and
      "accepts t' f \<and> f \<in> set fs" and "\<forall>u \<in> set us. \<forall>g \<in> set fs. \<not> accepts u g" by blast
    then have "t # ts = (t # us) @ t' # vs \<and> accepts t' f \<and> f \<in> set fs \<and>
        (\<forall>u \<in> set (t # us). \<forall>g \<in> set fs. \<not> accepts u g)" using none by simp
    then show ?thesis by blast
  qed
qed simp

lemma select_by_tokens_Inl:
  assumes "fs \<noteq> []"
  shows "select_by_tokens ts d fs (map media_type_of fs) = Inl NotAcceptable \<longleftrightarrow>
         (\<forall>t \<in> set ts. \<forall>g \<in> set fs. \<not> accepts t g)"
proof (induction ts)
  case (Cons t ts)
  show ?case
  proof (cases "at_range t = ''*/*''")
    case True
    then have "\<exists>g \<in> set fs. accepts t g"
      using assms by (auto simp: accepts_any neq_Nil_conv)
    with True show ?thesis by auto
  next
    case False
    then show ?thesis
      using Cons by (auto simp: first_matching_eq accepts_def find_None_iff dest: find_SomeD split: option.split)
  qed
qed simp

section \<open>The choice\<close>

lemma select_unfold:
  assumes "ng_media_types n = map media_type_of (ng_formatters n)"
  shows "select_response_formatter produces request n =
     (let fs = allowed_formatters produces n; d = resolve_default_formatter fs (map media_type_of fs) n in
      if fs = [] then Inl NotAcceptable
      else (case read_accept_header request of
              None \<Rightarrow> Inr d
            | Some h \<Rightarrow> select_by_tokens (parse_accept_header h) d fs (map media_type_of fs)))"
  by (auto simp: select_response_formatter_def resolve_allowed_eq [OF assms] Let_def split: option.splits)

lemma sorted_better_before:
  assumes "sorted (map f (us @ t # vs))" and "u \<in> set (us @ t # vs)" and "f u < f t"
  shows "u \<in> set us"
  using assms by (auto simp: sorted_append)

text \<open>C39. The chosen formatter is configured and allowed by the route; with no Accept header it
  is the route's default; otherwise some accepted token matches it, and no token the client
  prefers more matches any allowed formatter.\<close>

theorem selected_formatter_best:
  assumes "resolve_content_negotiation options = Some n"
    and "select_response_formatter produces request n = Inr f"
  shows "f \<in> set (ng_formatters n) \<and> producible produces f \<and>
    (case read_accept_header request of
       None \<Rightarrow> f = resolve_default_formatter (allowed_formatters produces n)
                   (map media_type_of (allowed_formatters produces n)) n
     | Some h \<Rightarrow>
         (\<exists>t \<in> set (parse_accept_header h). accepts t f \<and>
            (\<forall>u \<in> set (parse_accept_header h). at_preference u < at_preference t \<longrightarrow>
               (\<forall>g \<in> set (allowed_formatters produces n). \<not> accepts u g))))"
proof -
  let ?fs = "allowed_formatters produces n"
  let ?d = "resolve_default_formatter ?fs (map media_type_of ?fs) n"
  have some: "?fs \<noteq> []" and run: "(case read_accept_header request of
              None \<Rightarrow> Inr ?d
            | Some h \<Rightarrow> select_by_tokens (parse_accept_header h) ?d ?fs (map media_type_of ?fs)) = Inr f"
    using assms(2) unfolding select_unfold [OF resolve_negotiation_media [OF assms(1)]]
    by (auto simp: Let_def split: if_splits)
  have d: "?d \<in> set ?fs" using some by (rule default_formatter_allowed)
  have allowed: "g \<in> set ?fs \<Longrightarrow> g \<in> set (ng_formatters n) \<and> producible produces g" for g
    by (simp add: allowed_formatters_def)
  show ?thesis
  proof (cases "read_accept_header request")
    case None
    then show ?thesis using run d allowed by auto
  next
    case (Some h)
    with run have "select_by_tokens (parse_accept_header h) ?d ?fs (map media_type_of ?fs) = Inr f"
      by simp
    from select_by_tokens_Inr [OF this d] obtain t us vs where
      split: "parse_accept_header h = us @ t # vs" and f: "accepts t f" "f \<in> set ?fs"
      and us: "\<forall>u \<in> set us. \<forall>g \<in> set ?fs. \<not> accepts u g" by blast
    have "sorted (map at_preference (us @ t # vs))"
      unfolding split [symmetric] by (simp add: parse_accept_header_def)
    with us have "\<forall>u \<in> set (us @ t # vs). at_preference u < at_preference t \<longrightarrow>
        (\<forall>g \<in> set ?fs. \<not> accepts u g)"
      using sorted_better_before by metis
    with f allowed Some split show ?thesis by auto
  qed
qed

text \<open>The answer is 406 exactly when the route may produce none of the configured media
  types, or there is an Accept header and none of its tokens matches an allowed formatter.\<close>

theorem not_acceptable_iff:
  assumes "resolve_content_negotiation options = Some n"
  shows "select_response_formatter produces request n = Inl NotAcceptable \<longleftrightarrow>
    allowed_formatters produces n = [] \<or>
    (case read_accept_header request of
       None \<Rightarrow> False
     | Some h \<Rightarrow> \<not> list_ex (\<lambda>t. list_ex (accepts t) (allowed_formatters produces n)) (parse_accept_header h))"
  unfolding select_unfold [OF resolve_negotiation_media [OF assms]]
  by (auto simp: Let_def select_by_tokens_Inl list_ex_iff split: option.splits)

section \<open>Samples\<close>

definition json_formatter :: formatter where
  "json_formatter = \<lparr>fm_media_type = ''application/json'', fm_format = 0\<rparr>"

definition text_formatter :: formatter where
  "text_formatter = \<lparr>fm_media_type = ''text/plain; charset=utf-8'', fm_format = 1\<rparr>"

definition two_formatters :: negotiation where
  "two_formatters =
     \<lparr>ng_default = json_formatter, ng_formatters = [json_formatter, text_formatter],
      ng_media_types = [''application/json'', ''text/plain'']\<rparr>"

definition two_formatter_options :: "negotiation_options option" where
  "two_formatter_options = Some \<lparr>no_default = None, no_formatters = Some [json_formatter, text_formatter]\<rparr>"

definition accepting :: "string \<Rightarrow> http_request" where
  "accepting header = \<lparr>rq_method = ''GET'', rq_path = ''/'', rq_headers = [(''accept'', OneValue header)]\<rparr>"

lemma two_formatters_resolved: "resolve_content_negotiation two_formatter_options = Some two_formatters"
  by code_simp

text \<open>A media type the client excludes with a quality of zero is served all the same when
  another token is a wildcard: \<open>application/json;q=0, */*\<close> is answered with JSON although plain
  text is available.\<close>

theorem excluded_type_selected:
  "resolve_content_negotiation two_formatter_options = Some two_formatters \<and>
   select_response_formatter None (accepting ''application/json;q=0, */*'') two_formatters = Inr json_formatter"
  by code_simp

lemma selected_formatter_best_witness:
  "\<exists>t \<in> set (parse_accept_header ''text/*;q=0.8, image/png''). accepts t text_formatter"
proof -
  have run: "select_response_formatter None (accepting ''text/*;q=0.8, image/png'') two_formatters = Inr text_formatter"
    by code_simp
  have header: "read_accept_header (accepting ''text/*;q=0.8, image/png'') = Some ''text/*;q=0.8, image/png''"
    by code_simp
  show ?thesis
    using selected_formatter_best [OF two_formatters_resolved run] unfolding header by auto
qed

lemma not_acceptable_iff_witness:
  "\<not> list_ex (\<lambda>t. list_ex (accepts t) (allowed_formatters (Some [''text/plain'']) two_formatters))
       (parse_accept_header ''application/json'')"
proof -
  have run: "select_response_formatter (Some [''text/plain'']) (accepting ''application/json'') two_formatters =
      Inl NotAcceptable" by code_simp
  have header: "read_accept_header (accepting ''application/json'') = Some ''application/json''"
    by code_simp
  have "allowed_formatters (Some [''text/plain'']) two_formatters = [text_formatter]"
    by code_simp
  then show ?thesis
    using not_acceptable_iff [OF two_formatters_resolved, of "Some [''text/plain'']" "accepting ''application/json''"]
      run header by simp
qed

end
