(* ===== verification/Rate_Window.thy ===== *)
theory Rate_Window
  imports Prelude
begin

text \<open>
  Fixed-window request counters: one window, the sweep of expired windows, the interface of a
  store that keeps one window per key (\<open>window_store\<close>), and what follows from it for any such
  store: keys do not interfere, and no time span of one window length sees more than twice
  the limit admitted.
\<close>

section \<open>One window\<close>

text \<open>\<open>ThrottlerStoreEntry\<close> and \<open>RateLimitStoreEntry\<close>; times are milliseconds.\<close>

record window =
  w_count :: nat
  w_reset :: int

definition consume_window :: "window option \<Rightarrow> int \<Rightarrow> int \<Rightarrow> window" where
  "consume_window entry now window_ms =
     (case entry of
        None \<Rightarrow> \<lparr>w_count = 1, w_reset = now + window_ms\<rparr>
      | Some e \<Rightarrow>
          if now \<ge> w_reset e then \<lparr>w_count = 1, w_reset = now + window_ms\<rparr>
          else \<lparr>w_count = w_count e + 1, w_reset = w_reset e\<rparr>)"

text \<open>The loop that deletes expired entries and finds the earliest remaining reset;
  \<open>None\<close> is positive infinity.\<close>

fun sweep_loop ::
  "('k, window) js_map \<Rightarrow> int \<Rightarrow> int option \<Rightarrow> ('k, window) js_map \<times> int option" where
  "sweep_loop [] now next = ([], next)"
| "sweep_loop ((k, e) # m) now next =
     (if now \<ge> w_reset e then sweep_loop m now next
      else
        (let (m', next') = sweep_loop m now
               (Some (case next of None \<Rightarrow> w_reset e | Some n \<Rightarrow> min n (w_reset e))) in
         ((k, e) # m', next')))"

text \<open>\<open>Math.ceil(ms / 1000)\<close>\<close>

definition ceil_seconds :: "int \<Rightarrow> int" where
  "ceil_seconds ms = - ((- ms) div 1000)"

lemma ceil_seconds_bounds: "ms \<le> 1000 * ceil_seconds ms \<and> 1000 * ceil_seconds ms < ms + 1000"
proof -
  have "- ms = 1000 * ((- ms) div 1000) + (- ms) mod 1000" by simp
  moreover have "0 \<le> (- ms) mod 1000" and "(- ms) mod 1000 < 1000" by simp_all
  ultimately show ?thesis unfolding ceil_seconds_def by linarith
qed

lemma sweep_loop_entries: "fst (sweep_loop m now next) = filter (\<lambda>(k, e). now < w_reset e) m"
  by (induction m now "next" rule: sweep_loop.induct) (auto simp: case_prod_beta Let_def)

lemma window_count_update [simp]: "e\<lparr>w_count := c\<rparr> = \<lparr>w_count = c, w_reset = w_reset e\<rparr>"
  by (cases e) simp

section \<open>What a window is worth\<close>

definition live :: "int \<Rightarrow> window option \<Rightarrow> window option" where
  "live t entry = (case entry of None \<Rightarrow> None | Some e \<Rightarrow> if t < w_reset e then Some e else None)"

lemma consume_window_live: "consume_window (live now entry) now w = consume_window entry now w"
  by (auto simp: live_def consume_window_def split: option.splits)

lemma map_of_filter_value:
  "distinct (map fst m) \<Longrightarrow>
   map_of (filter (\<lambda>(k, e). P e) m) k = (case map_of m k of Some e \<Rightarrow> if P e then Some e else None | None \<Rightarrow> None)"
  by (induction m) (auto split: option.splits simp: map_of_eq_None_iff image_iff dest: map_of_SomeD)

lemma live_sweep:
  assumes "distinct (map fst m)" and "now \<le> t"
  shows "live t (js_get (fst (sweep_loop m now next)) k) = live t (js_get m k)"
  unfolding sweep_loop_entries
  using assms by (simp add: map_of_filter_value live_def split: option.splits)

lemma sweep_loop_distinct:
  "distinct (map fst m) \<Longrightarrow> distinct (map fst (fst (sweep_loop m now next)))"
  unfolding sweep_loop_entries by (induction m) auto

text \<open>The requests of one key, each with its window afterwards.\<close>

fun window_run :: "int \<Rightarrow> window option \<Rightarrow> int list \<Rightarrow> (int \<times> window) list" where
  "window_run w entry [] = []"
| "window_run w entry (t # ts) =
     (t, consume_window entry t w) # window_run w (Some (consume_window entry t w)) ts"

definition admitted :: "nat \<Rightarrow> int \<Rightarrow> int \<Rightarrow> (int \<times> window) list \<Rightarrow> nat" where
  "admitted limit a w rs = length (filter (\<lambda>(t, e). a \<le> t \<and> t < a + w \<and> w_count e \<le> limit) rs)"

lemma admitted_simps [simp]:
  "admitted limit a w [] = 0"
  "admitted limit a w ((t, e) # rs) =
     (if a \<le> t \<and> t < a + w \<and> w_count e \<le> limit then 1 else 0) + admitted limit a w rs"
  by (simp_all add: admitted_def)

lemma admitted_after: "(\<forall>t \<in> set ts. a + w \<le> t) \<Longrightarrow> admitted limit a w (window_run w entry ts) = 0"
  by (induction ts arbitrary: entry) auto

text \<open>Within a window that lasts to the end of the span.\<close>

lemma admitted_one_window:
  assumes "sorted ts" and "a + w \<le> w_reset e"
  shows "admitted limit a w (window_run w (Some e) ts) \<le> limit - w_count e"
  using assms
proof (induction ts arbitrary: e)
  case (Cons t ts)
  show ?case
  proof (cases "a + w \<le> t")
    case True
    then have "\<forall>t \<in> set (t # ts). a + w \<le> t" using Cons.prems(1) by auto
    then show ?thesis by (simp only: admitted_after)
  next
    case False
    with Cons.prems have step: "consume_window (Some e) t w = \<lparr>w_count = w_count e + 1, w_reset = w_reset e\<rparr>"
      by (simp add: consume_window_def)
    have "admitted limit a w (window_run w (Some (consume_window (Some e) t w)) ts) \<le> limit - (w_count e + 1)"
      using Cons.IH [of "consume_window (Some e) t w"] Cons.prems by (simp add: step)
    then show ?thesis by (auto simp: step)
  qed
qed simp

lemma admitted_new_window:
  assumes "sorted (t # ts)" and "a \<le> t" and "entry = None \<or> (\<exists>e. entry = Some e \<and> w_reset e \<le> t)"
  shows "admitted limit a w (window_run w entry (t # ts)) \<le> limit"
proof -
  have step: "consume_window entry t w = \<lparr>w_count = 1, w_reset = t + w\<rparr>"
    using assms(3) by (auto simp: consume_window_def)
  have "admitted limit a w (window_run w (Some \<lparr>w_count = 1, w_reset = t + w\<rparr>) ts) \<le> limit - 1"
    using admitted_one_window [of ts a w "\<lparr>w_count = 1, w_reset = t + w\<rparr>"] assms by simp
  then show ?thesis by (auto simp: step)
qed

lemma admitted_two_windows:
  assumes "sorted ts" and "\<forall>t \<in> set ts. a \<le> t"
  shows "admitted limit a w (window_run w (Some e) ts) \<le> (limit - w_count e) + limit"
  using assms
proof (induction ts arbitrary: e)
  case (Cons t ts)
  show ?case
  proof (cases "w_reset e \<le> t")
    case True
    then have "admitted limit a w (window_run w (Some e) (t # ts)) \<le> limit"
      using Cons.prems by (intro admitted_new_window) auto
    then show ?thesis by linarith
  next
    case False
    then have step: "consume_window (Some e) t w = \<lparr>w_count = w_count e + 1, w_reset = w_reset e\<rparr>"
      by (simp add: consume_window_def)
    have "admitted limit a w (window_run w (Some (consume_window (Some e) t w)) ts) \<le>
        (limit - (w_count e + 1)) + limit"
      using Cons.IH [of "consume_window (Some e) t w"] Cons.prems by (simp add: step)
    then show ?thesis by (auto simp: step)
  qed
qed simp

lemma admitted_le_twice:
  assumes "sorted ts"
  shows "admitted limit a w (window_run w entry ts) \<le> 2 * limit"
  using assms
proof (induction ts arbitrary: entry)
  case (Cons t ts)
  show ?case
  proof (cases "a \<le> t")
    case False
    then show ?thesis using Cons by simp
  next
    case True
    then have later: "\<forall>t \<in> set (t # ts). a \<le> t" using Cons.prems by auto
    show ?thesis
    proof (cases entry)
      case None
      then show ?thesis using admitted_new_window [OF Cons.prems True, of entry limit w] by simp
    next
      case (Some e)
      then show ?thesis
        using admitted_two_windows [OF Cons.prems later, of limit w e] by simp
    qed
  qed
qed simp

section \<open>The interface of a store\<close>

text \<open>A store consumes a request of a key at a time, for a window length the request brings.\<close>

fun store_run ::
  "('s \<Rightarrow> 'k \<Rightarrow> int \<Rightarrow> int \<Rightarrow> window \<times> 's) \<Rightarrow> 's \<Rightarrow> ('k \<times> int \<times> int) list \<Rightarrow> ('k \<times> int \<times> window) list" where
  "store_run consume s [] = []"
| "store_run consume s ((k, t, w) # rs) =
     (let (e, s') = consume s k t w in (k, t, e) # store_run consume s' rs)"

definition of_key :: "'k \<Rightarrow> ('k \<times> 'a) list \<Rightarrow> 'a list" where
  "of_key k rs = map snd (filter (\<lambda>r. fst r = k) rs)"

lemma of_key_simps [simp]:
  "of_key k [] = []"
  "of_key k ((j, x) # rs) = (if j = k then x # of_key k rs else of_key k rs)"
  by (simp_all add: of_key_def)

lemma of_key_in: "x \<in> set (of_key k rs) \<longleftrightarrow> (k, x) \<in> set rs"
  by (induction rs) (auto split: if_splits)

lemma of_key_sorted: "sorted (map (\<lambda>(k, t, w). t) rs) \<Longrightarrow> sorted (map fst (of_key k rs))"
proof (induction rs)
  case (Cons r rs)
  obtain j t w where r: "r = (j, t, w)" by (cases r)
  have "\<forall>x \<in> set (of_key k rs). t \<le> fst x"
    using Cons.prems by (fastforce simp: r of_key_in)
  then show ?case
    using Cons by (simp add: r)
qed simp

text \<open>Requests that all bring the same window length.\<close>

definition timed :: "int \<Rightarrow> ('k \<times> int) list \<Rightarrow> ('k \<times> int \<times> int) list" where
  "timed w rs = map (\<lambda>(k, t). (k, t, w)) rs"

lemma timed_simps [simp]:
  "timed w [] = []" "timed w ((k, t) # rs) = (k, t, w) # timed w rs"
  by (simp_all add: timed_def)

lemma timed_times: "map (\<lambda>(k, t, w). t) (timed w rs) = map snd rs"
  by (induction rs) auto

lemma timed_key: "of_key k (timed w rs) = map (\<lambda>t. (t, w)) (of_key k rs)"
  by (induction rs) auto

fun window_runs :: "window option \<Rightarrow> (int \<times> int) list \<Rightarrow> (int \<times> window) list" where
  "window_runs entry [] = []"
| "window_runs entry ((t, w) # ts) =
     (t, consume_window entry t w) # window_runs (Some (consume_window entry t w)) ts"

lemma window_runs_live:
  "(\<And>t w. (t, w) \<in> set ts \<Longrightarrow> live t entry = live t entry') \<Longrightarrow> window_runs entry ts = window_runs entry' ts"
proof (cases ts)
  case (Cons x ts')
  assume "\<And>t w. (t, w) \<in> set ts \<Longrightarrow> live t entry = live t entry'"
  with Cons have "consume_window entry (fst x) (snd x) = consume_window entry' (fst x) (snd x)"
    by (metis consume_window_live list.set_intros(1) prod.collapse)
  with Cons show ?thesis by (cases x) simp
qed simp

lemma window_runs_same: "(\<forall>x \<in> set ts. snd x = w) \<Longrightarrow> window_runs entry ts = window_run w entry (map fst ts)"
  by (induction ts arbitrary: entry) auto

locale window_store =
  fixes consume :: "'s \<Rightarrow> 'k \<Rightarrow> int \<Rightarrow> int \<Rightarrow> window \<times> 's"
    and view :: "'s \<Rightarrow> 'k \<Rightarrow> window option"
    and ok :: "'s \<Rightarrow> bool"
  assumes consume_own: "ok s \<Longrightarrow> consume s k now w = (e, s') \<Longrightarrow>
      e = consume_window (view s k) now w \<and> view s' k = Some e"
    and consume_other: "ok s \<Longrightarrow> consume s k now w = (e, s') \<Longrightarrow> j \<noteq> k \<Longrightarrow> now \<le> t \<Longrightarrow>
      live t (view s' j) = live t (view s j)"
    and consume_ok: "ok s \<Longrightarrow> consume s k now w = (e, s') \<Longrightarrow> ok s'"
begin

lemma keys_independent:
  assumes "ok s" and "sorted (map (\<lambda>(k, t, w). t) rs)"
  shows "of_key k (store_run consume s rs) = window_runs (view s k) (of_key k rs)"
  using assms
proof (induction rs arbitrary: s)
  case (Cons r rs)
  obtain j t w where r: "r = (j, t, w)" by (cases r)
  obtain e s' where run: "consume s j t w = (e, s')" by fastforce
  have ok: "ok s'" and sorted: "sorted (map (\<lambda>(k, t, w). t) rs)"
    using consume_ok [OF Cons.prems(1) run] Cons.prems(2) by auto
  note IH = Cons.IH [OF ok sorted]
  show ?case
  proof (cases "j = k")
    case True
    then have run': "consume s k t w = (e, s')" using run by simp
    show ?thesis
      using IH consume_own [OF Cons.prems(1) run'] True by (simp add: r run')
  next
    case False
    have "window_runs (view s' k) (of_key k rs) = window_runs (view s k) (of_key k rs)"
    proof (rule window_runs_live)
      fix u x assume "(u, x) \<in> set (of_key k rs)"
      then have "t \<le> u" using Cons.prems(2) r by (auto simp: of_key_in)
      then show "live u (view s' k) = live u (view s k)"
        using consume_other [OF Cons.prems(1) run, of k u] False by auto
    qed
    then show ?thesis
      using IH False by (simp add: r run)
  qed
qed simp

lemma admitted_in_span:
  assumes "ok s" and "sorted (map (\<lambda>(k, t, w). t) rs)" and "\<forall>x \<in> set (of_key k rs). snd x = w"
  shows "admitted limit a w (of_key k (store_run consume s rs)) \<le> 2 * limit"
  unfolding keys_independent [OF assms(1,2)] window_runs_same [OF assms(3)]
  by (intro admitted_le_twice of_key_sorted assms(2))

end

end
