(* ===== verification/Rate_Limit.thy ===== *)
theory Rate_Limit
  imports Rate_Window
begin

text \<open>
  \<open>packages/http/src/middleware/rate-limit.ts\<close>: the in-memory store and the middleware. The
  key of a request and the clock are inputs; each request runs to its decision before the
  next one starts.
\<close>

section \<open>The store\<close>

record rate_store =
  rs_map :: "(string, window) js_map"
  rs_next_sweep :: int

definition create_memory_rate_limit_store :: rate_store where
  "create_memory_rate_limit_store = \<lparr>rs_map = [], rs_next_sweep = 0\<rparr>"

definition rate_get :: "rate_store \<Rightarrow> string \<Rightarrow> window option" where
  "rate_get s key = js_get (rs_map s) key"

definition rate_set :: "rate_store \<Rightarrow> string \<Rightarrow> window \<Rightarrow> rate_store" where
  "rate_set s key entry = s\<lparr>rs_map := js_set key entry (rs_map s)\<rparr>"

definition rate_increment :: "rate_store \<Rightarrow> string \<Rightarrow> nat \<times> rate_store" where
  "rate_increment s key =
     (case js_get (rs_map s) key of
        None \<Rightarrow> (0, s)
      | Some e \<Rightarrow> (w_count e + 1, rate_set s key (e\<lparr>w_count := w_count e + 1\<rparr>)))"

definition rate_evict :: "rate_store \<Rightarrow> int \<Rightarrow> rate_store" where
  "rate_evict s now =
     (if now < rs_next_sweep s then s
      else
        (let (m, next) = sweep_loop (rs_map s) now None in
         \<lparr>rs_map = m, rs_next_sweep = (case next of Some n \<Rightarrow> n | None \<Rightarrow> 0)\<rparr>))"

section \<open>The middleware\<close>

text \<open>Either the next handler runs, or the answer is 429 with a \<open>Retry-After\<close> in seconds.\<close>

datatype rate_decision = Proceed | TooManyRequests int

definition rate_limit_handle ::
  "int \<Rightarrow> int \<Rightarrow> rate_store \<Rightarrow> string \<Rightarrow> int \<Rightarrow> rate_decision \<times> rate_store" where
  "rate_limit_handle limit window_ms s key now =
     (let s1 = rate_evict s now in
      case rate_get s1 key of
        None \<Rightarrow>
          (if 1 > limit then TooManyRequests (ceil_seconds window_ms) else Proceed,
           rate_set s1 key \<lparr>w_count = 1, w_reset = now + window_ms\<rparr>)
      | Some e \<Rightarrow>
          if now \<ge> w_reset e then
            (if 1 > limit then TooManyRequests (ceil_seconds window_ms) else Proceed,
             rate_set s1 key \<lparr>w_count = 1, w_reset = now + window_ms\<rparr>)
          else
            (let (count, s2) = rate_increment s1 key in
             (if int count > limit then TooManyRequests (ceil_seconds (w_reset e - now)) else Proceed, s2)))"

section \<open>The store as a window store\<close>

text \<open>The window a request leaves in the store, and the store.\<close>

definition rate_consume :: "rate_store \<Rightarrow> string \<Rightarrow> int \<Rightarrow> int \<Rightarrow> window \<times> rate_store" where
  "rate_consume s key now window_ms =
     (let s' = snd (rate_limit_handle 0 window_ms s key now) in (the (rate_get s' key), s'))"

definition rate_ok :: "rate_store \<Rightarrow> bool" where
  "rate_ok s = distinct (map fst (rs_map s))"

lemma rate_evict_facts:
  assumes "rate_ok s"
  shows "rate_ok (rate_evict s now) \<and>
         (now \<le> t \<longrightarrow> live t (rate_get (rate_evict s now) k) = live t (rate_get s k))"
  using assms
  by (auto simp: rate_evict_def rate_ok_def rate_get_def case_prod_beta Let_def
      sweep_loop_distinct live_sweep)

lemma rate_set_facts:
  "rate_get (rate_set s k e) j = (if j = k then Some e else rate_get s j)"
  "rate_ok s \<Longrightarrow> rate_ok (rate_set s k e)"
  by (auto simp: rate_set_def rate_get_def rate_ok_def distinct_update)

text \<open>What the middleware does, by the window it consumes.\<close>

lemma rate_limit_handle_window:
  assumes "rate_ok s"
  shows "\<exists>s1. rate_ok s1 \<and> (\<forall>t j. now \<le> t \<longrightarrow> live t (rate_get s1 j) = live t (rate_get s j)) \<and>
    rate_limit_handle limit w s key now =
      (let e = consume_window (rate_get s key) now w in
       (if int (w_count e) > limit then TooManyRequests (ceil_seconds (w_reset e - now)) else Proceed,
        rate_set s1 key e))"
proof -
  let ?s1 = "rate_evict s now"
  have ok: "rate_ok ?s1" and same: "\<forall>t j. now \<le> t \<longrightarrow> live t (rate_get ?s1 j) = live t (rate_get s j)"
    using rate_evict_facts [OF assms] by auto
  then have eq: "consume_window (rate_get s key) now w = consume_window (rate_get ?s1 key) now w"
    by (metis consume_window_live order_refl)
  have get: "js_get (rs_map ?s1) key = rate_get ?s1 key" by (simp add: rate_get_def)
  have "rate_limit_handle limit w s key now =
      (let e = consume_window (rate_get s key) now w in
       (if int (w_count e) > limit then TooManyRequests (ceil_seconds (w_reset e - now)) else Proceed,
        rate_set ?s1 key e))"
    unfolding eq
    by (cases "rate_get ?s1 key")
      (simp_all add: rate_limit_handle_def consume_window_def Let_def rate_increment_def get)
  with ok same show ?thesis by blast
qed

lemma rate_consume_window:
  assumes "rate_ok s" and "rate_consume s k now w = (e, s')"
  shows "e = consume_window (rate_get s k) now w \<and> rate_get s' k = Some e \<and> rate_ok s' \<and>
         (\<forall>j t. j \<noteq> k \<longrightarrow> now \<le> t \<longrightarrow> live t (rate_get s' j) = live t (rate_get s j)) \<and>
         (\<forall>limit. rate_limit_handle limit w s k now =
            (if int (w_count e) > limit then TooManyRequests (ceil_seconds (w_reset e - now)) else Proceed, s'))"
proof -
  have evicted: "\<exists>s1. rate_ok s1 \<and> (\<forall>t j. now \<le> t \<longrightarrow> live t (rate_get s1 j) = live t (rate_get s j)) \<and>
      s' = rate_set s1 k (consume_window (rate_get s k) now w)"
    using rate_limit_handle_window [OF assms(1), of now 0 w k] assms(2)
    by (auto simp: rate_consume_def Let_def)
  then have e: "e = consume_window (rate_get s k) now w" and get: "rate_get s' k = Some e"
    using assms(2) by (auto simp: rate_consume_def Let_def rate_set_facts)
  have "snd (rate_limit_handle limit w s k now) = s'" for limit
  proof -
    have "snd (rate_limit_handle limit w s k now) = snd (rate_limit_handle 0 w s k now)"
      by (simp add: rate_limit_handle_def Let_def case_prod_beta split: option.splits)
    then show ?thesis using assms(2) by (simp add: rate_consume_def Let_def)
  qed
  moreover have "fst (rate_limit_handle limit w s k now) =
      (if int (w_count e) > limit then TooManyRequests (ceil_seconds (w_reset e - now)) else Proceed)" for limit
    using rate_limit_handle_window [OF assms(1), of now limit w k] e by (auto simp: Let_def)
  ultimately have "rate_limit_handle limit w s k now =
      (if int (w_count e) > limit then TooManyRequests (ceil_seconds (w_reset e - now)) else Proceed, s')" for limit
    by (simp add: prod_eq_iff)
  then show ?thesis
    using e get evicted by (auto simp: rate_set_facts)
qed

interpretation rate_limit_store: window_store rate_consume rate_get rate_ok
  by unfold_locales (auto dest: rate_consume_window)

section \<open>What the middleware guarantees\<close>

fun rate_limit_run ::
  "int \<Rightarrow> int \<Rightarrow> rate_store \<Rightarrow> (string \<times> int) list \<Rightarrow> (string \<times> int \<times> rate_decision) list" where
  "rate_limit_run limit w s [] = []"
| "rate_limit_run limit w s ((k, t) # rs) =
     (let (d, s') = rate_limit_handle limit w s k t in (k, t, d) # rate_limit_run limit w s' rs)"

lemma rate_limit_run_store:
  assumes "rate_ok s"
  shows "rate_limit_run limit w s rs =
    map (\<lambda>(k, t, e). (k, t, if int (w_count e) > limit
           then TooManyRequests (ceil_seconds (w_reset e - t)) else Proceed))
      (store_run rate_consume s (timed w rs))"
  using assms
proof (induction rs arbitrary: s)
  case (Cons r rs)
  obtain k t where r: "r = (k, t)" by fastforce
  obtain e s' where run: "rate_consume s k t w = (e, s')" by fastforce
  from rate_consume_window [OF Cons.prems this] have "rate_ok s'" and
    "rate_limit_handle limit w s k t =
      (if int (w_count e) > limit then TooManyRequests (ceil_seconds (w_reset e - t)) else Proceed, s')"
    by auto
  then show ?case
    using Cons.IH [of s'] by (simp add: r run)
qed simp

definition proceeded :: "string \<Rightarrow> int \<Rightarrow> int \<Rightarrow> (string \<times> int \<times> rate_decision) list \<Rightarrow> nat" where
  "proceeded k a w rs = length (filter (\<lambda>(j, t, d). j = k \<and> a \<le> t \<and> t < a + w \<and> d = Proceed) rs)"

lemma proceeded_admitted:
  "0 \<le> limit \<Longrightarrow>
   proceeded k a w (map (\<lambda>(k, t, e). (k, t, if int (w_count e) > limit
      then TooManyRequests (ceil_seconds (w_reset e - t)) else Proceed)) rs) =
   admitted (nat limit) a w (of_key k rs)"
  by (induction rs) (auto simp: proceeded_def admitted_def le_nat_iff split: if_splits)



lemma empty_store_get: "rate_get create_memory_rate_limit_store k = None"
  by (simp add: rate_get_def create_memory_rate_limit_store_def)

lemma empty_store_ok: "rate_ok create_memory_rate_limit_store"
  by (simp add: rate_ok_def create_memory_rate_limit_store_def)

text \<open>Whatever the traffic, in any time span of one window length the rate limiter lets at
  most twice the limit of one key's requests through.\<close>

theorem rate_limit_bound:
  assumes "sorted (map snd rs)" and "0 \<le> limit"
  shows "proceeded k a w (rate_limit_run limit w create_memory_rate_limit_store rs) \<le> 2 * nat limit"
  unfolding rate_limit_run_store [OF empty_store_ok] proceeded_admitted [OF assms(2)]
  using assms(1) by (intro rate_limit_store.admitted_in_span [OF empty_store_ok]) (auto simp: timed_times timed_key)

text \<open>A key's decisions depend only on its own requests: in any traffic they are those of a
  single window counter fed with the key's request times.\<close>

theorem rate_limit_keys_independent:
  assumes "sorted (map snd rs)"
  shows "map snd (filter (\<lambda>r. fst r = k) (rate_limit_run limit w create_memory_rate_limit_store rs)) =
    map (\<lambda>(t, e). (t, if int (w_count e) > limit
           then TooManyRequests (ceil_seconds (w_reset e - t)) else Proceed))
      (window_run w None (of_key k rs))"
proof -
  let ?decide = "\<lambda>(t, e). (t, if int (w_count e) > limit
           then TooManyRequests (ceil_seconds (w_reset e - t)) else Proceed)"
  have decided: "map snd (filter (\<lambda>r. fst r = k) (map (\<lambda>(k, t, e). (k, t, if int (w_count e) > limit
           then TooManyRequests (ceil_seconds (w_reset e - t)) else Proceed)) xs)) =
        map ?decide (of_key k xs)" for xs
    by (induction xs) auto
  have "sorted (map (\<lambda>(k, t, w). t) (timed w rs))"
    using assms by (simp only: timed_times)
  from rate_limit_store.keys_independent [OF empty_store_ok this, of k]
  have "of_key k (store_run rate_consume create_memory_rate_limit_store (timed w rs)) =
        window_run w None (of_key k rs)"
    using window_runs_same [of "map (\<lambda>t. (t, w)) (of_key k rs)" w None]
    by (simp add: timed_key empty_store_get comp_def)
  then show ?thesis
    unfolding rate_limit_run_store [OF empty_store_ok] decided by (simp only:)
qed

text \<open>A refused client is told the truth: where windows end no later than one window length
  from now, \<open>Retry-After\<close> is at least one second and at most the window rounded up, and a
  request of the key that comes no earlier is let through.\<close>

theorem retry_after_suffices:
  assumes "rate_ok s" and "0 < w" and "1 \<le> limit"
    and "rate_limit_handle limit w s k now = (TooManyRequests seconds, s')"
    and "now + 1000 * seconds \<le> later"
    and "pred_option (\<lambda>e. w_reset e \<le> now + w) (rate_get s k)"
  shows "1 \<le> seconds \<and> seconds \<le> ceil_seconds w \<and>
         fst (rate_limit_handle limit w s' k later) = Proceed"
proof -
  obtain e s1 where run: "rate_consume s k now w = (e, s1)" by fastforce
  from rate_consume_window [OF assms(1) run] have e: "e = consume_window (rate_get s k) now w"
    and get: "rate_get s1 k = Some e" and ok: "rate_ok s1"
    and dec: "rate_limit_handle limit w s k now =
      (if int (w_count e) > limit then TooManyRequests (ceil_seconds (w_reset e - now)) else Proceed, s1)"
    by auto
  from dec assms(4) have seconds: "seconds = ceil_seconds (w_reset e - now)" and s': "s1 = s'"
    by (auto split: if_splits)
  have "now < w_reset e"
    using e assms(2) by (auto simp: consume_window_def split: option.splits)
  then have one: "1 \<le> seconds"
    using ceil_seconds_bounds [of "w_reset e - now"] seconds by linarith
  have "w_reset e \<le> later"
    using ceil_seconds_bounds [of "w_reset e - now"] seconds assms(5) by linarith
  then have "consume_window (rate_get s1 k) later w = \<lparr>w_count = 1, w_reset = later + w\<rparr>"
    by (simp add: get consume_window_def)
  moreover obtain e2 s2 where run2: "rate_consume s1 k later w = (e2, s2)" by fastforce
  ultimately have "fst (rate_limit_handle limit w s1 k later) = Proceed"
    using rate_consume_window [OF ok run2] assms(3) by auto
  moreover have "w_reset e \<le> now + w"
    using e assms(6) by (auto simp: consume_window_def split: option.splits)
  then have "seconds \<le> ceil_seconds w"
    unfolding seconds ceil_seconds_def by (intro le_imp_neg_le zdiv_mono1) auto
  ultimately show ?thesis using one s' by auto
qed

section \<open>A sample run\<close>

definition three_requests :: "(string \<times> int) list" where
  "three_requests = [(''a'', 0), (''b'', 100), (''a'', 200), (''a'', 900), (''a'', 1000)]"

lemma rate_limit_bound_witness:
  "proceeded ''a'' 0 1000 (rate_limit_run 2 1000 create_memory_rate_limit_store three_requests) \<le> 4"
proof -
  have sorted: "sorted (map snd three_requests)" by code_simp
  from rate_limit_bound [OF sorted, of 2 "''a''" 0 1000] show ?thesis by simp
qed

lemma rate_limit_keys_independent_witness:
  "map snd (filter (\<lambda>r. fst r = ''a'') (rate_limit_run 2 1000 create_memory_rate_limit_store three_requests)) =
   [(0, Proceed), (200, Proceed), (900, TooManyRequests 1), (1000, Proceed)]"
proof -
  have sorted: "sorted (map snd three_requests)" by code_simp
  have "map (\<lambda>(t, e). (t, if int (w_count e) > 2
           then TooManyRequests (ceil_seconds (w_reset e - t)) else Proceed))
      (window_run 1000 None (of_key ''a'' three_requests)) =
      [(0, Proceed), (200, Proceed), (900, TooManyRequests 1), (1000, Proceed)]" by code_simp
  then show ?thesis
    by (simp only: rate_limit_keys_independent [OF sorted])
qed

definition full_store :: rate_store where
  "full_store = \<lparr>rs_map = [(''a'', \<lparr>w_count = 2, w_reset = 1000\<rparr>)], rs_next_sweep = 1000\<rparr>"

lemma retry_after_suffices_witness:
  "fst (rate_limit_handle 2 1000 (snd (rate_limit_handle 2 1000 full_store ''a'' 400)) ''a'' 1400) = Proceed"
proof -
  have ok: "rate_ok full_store" by code_simp
  have run: "rate_limit_handle 2 1000 full_store ''a'' 400 =
      (TooManyRequests 1, snd (rate_limit_handle 2 1000 full_store ''a'' 400))" by code_simp
  have reset: "pred_option (\<lambda>e. w_reset e \<le> 400 + 1000) (rate_get full_store ''a'')"
    by (simp add: full_store_def rate_get_def)
  from retry_after_suffices [OF ok _ _ run _ reset, of 1400] show ?thesis by simp
qed

end
