(* ===== verification/Client_Identity.thy ===== *)
theory Client_Identity
  imports Http_Request Js_Number
begin

text \<open>
  \<open>packages/http/src/client-identity.ts\<close>: the identity of a client, from trusted proxy headers
  or from the socket.
\<close>

section \<open>Headers\<close>

fun find_nonblank :: "string list \<Rightarrow> string option" where
  "find_nonblank [] = None"
| "find_nonblank (v # vs) = (if js_trim v \<noteq> [] then Some v else find_nonblank vs)"

fun header_text :: "multi_value \<Rightarrow> string option" where
  "header_text NoValue = None"
| "header_text (OneValue v) = Some v"
| "header_text (ManyValues vs) = find_nonblank vs"

text \<open>The property of that name; if there is none, the first whose name agrees without case.\<close>

definition read_header :: "(string, multi_value) js_map \<Rightarrow> string \<Rightarrow> string option" where
  "read_header headers name =
     (case js_get headers name of
        Some (OneValue v) \<Rightarrow> Some v
      | Some (ManyValues vs) \<Rightarrow> find_nonblank vs
      | _ \<Rightarrow>
          (case List.find (\<lambda>(key, _). js_lower key = name) headers of
             None \<Rightarrow> None
           | Some (_, v) \<Rightarrow> header_text v))"

section \<open>Identities\<close>

definition unquote :: "char \<Rightarrow> char \<Rightarrow> string \<Rightarrow> string" where
  "unquote l r s =
     (if s \<noteq> [] \<and> hd s = l \<and> last s = r then js_trim (take (length s - 2) (drop 1 s)) else s)"

text \<open>\<open>/^\[(.+)]:(\d+)$/\<close>: the digits at the end, before them the bracket and colon, at the
  front the other bracket, in between at least one character and no line terminator.\<close>

definition bracketed_host :: "string \<Rightarrow> string option" where
  "bracketed_host s =
     (let port = rev (takeWhile is_digit (rev s));
          rest = take (length s - length port) s;
          host = take (length rest - 3) (drop 1 rest) in
      if port \<noteq> [] \<and> length rest \<ge> 4 \<and> hd rest = CHR ''['' \<and>
         drop (length rest - 2) rest = '']:'' \<and>
         CHR 0x0A \<notin> set host \<and> CHR 0x0D \<notin> set host
      then Some host else None)"

text \<open>\<open>/^((?:\d{1,3}\.){3}\d{1,3}):(\d+)$/\<close>\<close>

definition digits_between :: "nat \<Rightarrow> nat \<Rightarrow> string \<Rightarrow> bool" where
  "digits_between lo hi s = (lo \<le> length s \<and> length s \<le> hi \<and> list_all is_digit s)"

definition ipv4_host :: "string \<Rightarrow> string option" where
  "ipv4_host s =
     (case js_split (CHR '':'') s of
        [host, port] \<Rightarrow>
          if port \<noteq> [] \<and> list_all is_digit port \<and>
             length (js_split (CHR ''.'') host) = 4 \<and>
             list_all (digits_between 1 3) (js_split (CHR ''.'') host)
          then Some host else None
      | _ \<Rightarrow> None)"

text \<open>\<open>x || undefined\<close> on strings\<close>

definition nonempty :: "string \<Rightarrow> string option" where
  "nonempty s = (if s = [] then None else Some s)"

definition normalize_client_identity :: "string option \<Rightarrow> string option" where
  "normalize_client_identity v =
     (case v of
        None \<Rightarrow> None
      | Some raw \<Rightarrow>
          (let n0 = js_trim raw in
           if raw = [] then None
           else if n0 = [] \<or> js_lower n0 = ''unknown'' then None
           else
             (let n1 = unquote (CHR 0x22) (CHR 0x22) n0 in
              case bracketed_host n1 of
                Some host \<Rightarrow> nonempty (js_trim host)
              | None \<Rightarrow>
                  (let n2 = unquote (CHR ''['') (CHR '']'') n1 in
                   case ipv4_host n2 of
                     Some host \<Rightarrow> nonempty (js_trim host)
                   | None \<Rightarrow> nonempty n2))))"

text \<open>The first part of a \<open>Forwarded\<close> header whose key is \<open>for\<close> and whose value normalizes.\<close>

fun first_forwarded :: "string list \<Rightarrow> string option" where
  "first_forwarded [] = None"
| "first_forwarded (part # parts) =
     (if CHR ''='' \<notin> set part then first_forwarded parts
      else
        (let key = takeWhile (\<lambda>c. c \<noteq> CHR ''='') part in
         if js_lower (js_trim key) \<noteq> ''for'' then first_forwarded parts
         else case normalize_client_identity (Some (drop (length key + 1) part)) of
           Some v \<Rightarrow> Some v
         | None \<Rightarrow> first_forwarded parts))"

definition resolve_forwarded_identity :: "(string, multi_value) js_map \<Rightarrow> string option" where
  "resolve_forwarded_identity headers =
     (case read_header headers ''forwarded'' of
        None \<Rightarrow> None
      | Some forwarded \<Rightarrow>
          if forwarded = [] then None
          else first_forwarded (concat (map (js_split (CHR '';'')) (js_split (CHR '','') forwarded))))"

fun first_identity :: "string list \<Rightarrow> string option" where
  "first_identity [] = None"
| "first_identity (v # vs) =
     (case normalize_client_identity (Some v) of Some i \<Rightarrow> Some i | None \<Rightarrow> first_identity vs)"

definition resolve_comma_separated_identity :: "(string, multi_value) js_map \<Rightarrow> string \<Rightarrow> string option" where
  "resolve_comma_separated_identity headers name =
     (case read_header headers name of
        None \<Rightarrow> None
      | Some v \<Rightarrow> if v = [] then None else first_identity (js_split (CHR '','') v))"

text \<open>\<open>remote_address\<close> is \<open>raw.socket.remoteAddress\<close> where that is a string.\<close>

datatype identity_error = NoClientIdentity

definition resolve_client_identity ::
  "bool \<Rightarrow> (string, multi_value) js_map \<Rightarrow> string option \<Rightarrow> (identity_error, string) result" where
  "resolve_client_identity trust_proxy_headers headers remote_address =
     (let proxy =
        (if trust_proxy_headers then
           (case resolve_forwarded_identity headers of
              Some i \<Rightarrow> Some i
            | None \<Rightarrow>
                (case resolve_comma_separated_identity headers ''x-forwarded-for'' of
                   Some i \<Rightarrow> Some i
                 | None \<Rightarrow> normalize_client_identity (read_header headers ''x-real-ip'')))
         else None) in
      case (case proxy of Some i \<Rightarrow> Some i | None \<Rightarrow> normalize_client_identity remote_address) of
        Some i \<Rightarrow> Inr i
      | None \<Rightarrow> Inl NoClientIdentity)"

section \<open>What an identity is\<close>

lemma normalize_identity_nonempty: "normalize_client_identity v = Some i \<Longrightarrow> i \<noteq> []"
  by (auto simp: normalize_client_identity_def Let_def nonempty_def split: option.splits if_splits)

lemma first_forwarded_nonempty: "first_forwarded parts = Some i \<Longrightarrow> i \<noteq> []"
  by (induction parts)
    (auto simp: Let_def split: if_splits option.splits dest: normalize_identity_nonempty)

lemma first_identity_nonempty: "first_identity vs = Some i \<Longrightarrow> i \<noteq> []"
  by (induction vs) (auto split: option.splits dest: normalize_identity_nonempty)

text \<open>Without trust in proxy headers no header can influence the identity; and whatever is
  trusted, an identity is never the empty string.\<close>

theorem client_identity_not_spoofable:
  "resolve_client_identity False headers remote = resolve_client_identity False headers' remote \<and>
   resolve_client_identity trust headers remote \<noteq> Inr []"
  using first_forwarded_nonempty first_identity_nonempty normalize_identity_nonempty
  by (auto simp: resolve_client_identity_def Let_def resolve_forwarded_identity_def
      resolve_comma_separated_identity_def split: option.splits if_splits)

text \<open>A quoted \<open>unknown\<close> is taken for an identity, although \<open>unknown\<close> itself is refused: all
  clients a proxy reports that way share one identity.\<close>

theorem quoted_unknown_is_identity:
  "normalize_client_identity (Some ''unknown'') = None \<and>
   normalize_client_identity (Some ([CHR 0x22] @ ''unknown'' @ [CHR 0x22])) = Some ''unknown''"
  by code_simp

end
