(* ===== verification/Uri_Encoding.thy ===== *)
theory Uri_Encoding
  imports Main
begin

text \<open>
  \<open>encodeURIComponent\<close> on strings of Latin-1 code units: unreserved characters stay, every
  other one becomes the percent-encoded bytes of its UTF-8 form. The encoding is injective
  and its output free of separators.
\<close>

definition unreserved :: "char \<Rightarrow> bool" where
  "unreserved c =
     (let n = (of_char c :: nat) in
      (97 \<le> n \<and> n \<le> 122) \<or> (65 \<le> n \<and> n \<le> 90) \<or> (48 \<le> n \<and> n \<le> 57) \<or>
      c \<in> {CHR ''-'', CHR ''_'', CHR ''.'', CHR ''!'', CHR ''~'', CHR ''*'', CHR 0x27, CHR ''('', CHR '')''})"

definition hex_digit :: "nat \<Rightarrow> char" where
  "hex_digit n = char_of (if n < 10 then 48 + n else 55 + n)"

definition encode_byte :: "nat \<Rightarrow> string" where
  "encode_byte b = [CHR ''%'', hex_digit (b div 16), hex_digit (b mod 16)]"

definition encode_char :: "char \<Rightarrow> string" where
  "encode_char c =
     (let n = (of_char c :: nat) in
      if unreserved c then [c]
      else if n < 128 then encode_byte n
      else encode_byte (192 + n div 64) @ encode_byte (128 + n mod 64))"

definition encode_uri_component :: "string \<Rightarrow> string" where
  "encode_uri_component s = concat (map encode_char s)"

lemma of_char_small: "n < 256 \<Longrightarrow> (of_char (char_of n :: char) :: nat) = n"
  by (simp only: of_char_of mod_less)

lemma of_hex_digit: "n < 16 \<Longrightarrow> (of_char (hex_digit n) :: nat) = (if n < 10 then 48 + n else 55 + n)"
proof -
  assume "n < 16"
  then have "(if n < 10 then 48 + n else 55 + n) < 256" by (cases "n < 10") auto
  then show ?thesis unfolding hex_digit_def by (rule of_char_small)
qed

lemma hex_digit_inj: "m < 16 \<Longrightarrow> n < 16 \<Longrightarrow> hex_digit m = hex_digit n \<longleftrightarrow> m = n"
proof
  assume "m < 16" "n < 16" "hex_digit m = hex_digit n"
  then have "(if m < 10 then 48 + m else 55 + m) = (if n < 10 then 48 + n else 55 + n)"
    using of_hex_digit [of m] of_hex_digit [of n] by metis
  then show "m = n" by (cases "m < 10"; cases "n < 10") simp_all
qed simp

lemma encode_byte_inj:
  assumes "b < 256" and "d < 256"
  shows "encode_byte b @ xs = encode_byte d @ ys \<longleftrightarrow> b = d \<and> xs = ys"
proof -
  have "b = d" if "b div 16 = d div 16" "b mod 16 = d mod 16"
    using that by (metis div_mult_mod_eq)
  then show ?thesis
    using assms by (auto simp: encode_byte_def hex_digit_inj)
qed

lemma percent_reserved: "\<not> unreserved (CHR ''%'')"
  by code_simp

lemma encode_byte_percent: "encode_byte b = CHR ''%'' # tl (encode_byte b)"
  by (simp add: encode_byte_def)

lemma of_char_inj: "(of_char c :: nat) = of_char d \<longleftrightarrow> c = d"
  by (metis char_of_char)

lemma encode_char_inj: "encode_char c @ xs = encode_char d @ ys \<longleftrightarrow> c = d \<and> xs = ys"
proof -
  have small: "(of_char c :: nat) < 256" for c by simp
  have two: "128 \<le> n \<Longrightarrow> n < 256 \<Longrightarrow> 192 + n div 64 < 256 \<and> 128 + n mod 64 < 256 \<and> 194 \<le> 192 + n div 64"
    for n :: nat by auto
  have kept: "unreserved c \<Longrightarrow> c # xs \<noteq> encode_byte b @ ys \<and> encode_byte b @ ys \<noteq> c # xs" for c xs b ys
    using percent_reserved by (subst (1 2) encode_byte_percent) auto
  have bytes: "192 + m div 64 = 192 + n div 64 \<Longrightarrow> 128 + m mod 64 = 128 + n mod 64 \<Longrightarrow> m = n" for m n :: nat
    by (metis add_left_imp_eq div_mult_mod_eq)
  show ?thesis
  proof
    assume eq: "encode_char c @ xs = encode_char d @ ys"
    consider "unreserved c" | "\<not> unreserved c" "(of_char c :: nat) < 128" | "\<not> unreserved c" "128 \<le> (of_char c :: nat)"
      by linarith
    then show "c = d \<and> xs = ys"
    proof cases
      case 1
      then show ?thesis using eq kept
        by (auto simp: encode_char_def Let_def split: if_splits)
    next
      case 2
      have "unreserved d \<Longrightarrow> False" using 2 eq kept [of d ys] by (auto simp: encode_char_def Let_def)
      moreover have "128 \<le> (of_char d :: nat) \<Longrightarrow> \<not> unreserved d \<Longrightarrow> False"
        using 2 eq two [of "of_char d"] small [of d]
        by (auto simp: encode_char_def Let_def encode_byte_inj)
      ultimately have "\<not> unreserved d" and "(of_char d :: nat) < 128"
        using not_less by blast+
      then show ?thesis
        using 2 eq by (simp add: encode_char_def Let_def encode_byte_inj of_char_inj)
    next
      case 3
      have "unreserved d \<Longrightarrow> False" using 3 eq kept [of d ys] by (auto simp: encode_char_def Let_def)
      moreover have "(of_char d :: nat) < 128 \<Longrightarrow> \<not> unreserved d \<Longrightarrow> False"
        using 3 eq two [of "of_char c"] small [of c]
        by (auto simp: encode_char_def Let_def encode_byte_inj)
      moreover have "128 \<le> (of_char d :: nat) \<Longrightarrow> \<not> unreserved d \<Longrightarrow> ?thesis"
        using 3 eq two [of "of_char c"] two [of "of_char d"] small bytes [of "of_char c" "of_char d"]
        by (auto simp: encode_char_def Let_def encode_byte_inj of_char_inj)
      ultimately show ?thesis using not_less by blast
    qed
  qed simp
qed

lemma encode_uri_component_inj: "encode_uri_component s = encode_uri_component t \<longleftrightarrow> s = t"
proof
  show "encode_uri_component s = encode_uri_component t \<Longrightarrow> s = t"
  proof (induction s arbitrary: t)
    case Nil
    then show ?case
      by (cases t) (auto simp: encode_uri_component_def encode_char_def encode_byte_def Let_def split: if_splits)
  next
    case (Cons c s)
    then show ?case
    proof (cases t)
      case Nil
      with Cons.prems show ?thesis
        by (auto simp: encode_uri_component_def encode_char_def encode_byte_def Let_def split: if_splits)
    next
      case (Cons d t')
      then have "encode_char c @ encode_uri_component s = encode_char d @ encode_uri_component t'"
        using \<open>encode_uri_component (c # s) = encode_uri_component t\<close> by (simp add: encode_uri_component_def)
      then show ?thesis
        using Cons \<open>\<And>t. encode_uri_component s = encode_uri_component t \<Longrightarrow> s = t\<close>
        by (simp add: encode_char_inj)
    qed
  qed
qed simp

lemma hex_digit_unreserved: "n < 16 \<Longrightarrow> unreserved (hex_digit n)"
  by (auto simp: unreserved_def hex_digit_def Let_def)

lemma encode_uri_component_chars: "c \<in> set (encode_uri_component s) \<Longrightarrow> unreserved c \<or> c = CHR ''%''"
proof -
  have "(192 + n div 64) div 16 < 16 \<and> (128 + n mod 64) div 16 < 16" if "n < 256" for n :: nat
  proof -
    have "n div 64 < 4" and "n mod 64 < 64" using that by (simp_all add: less_mult_imp_div_less)
    then have "192 + n div 64 < 16 * 16" and "128 + n mod 64 < 16 * 16" by simp_all
    then show ?thesis by (simp add: less_mult_imp_div_less)
  qed
  moreover have "(of_char c :: nat) < 256" for c by simp
  ultimately have "(192 + (of_char c :: nat) div 64) div 16 < 16" "(128 + (of_char c :: nat) mod 64) div 16 < 16" for c
    by blast+
  then show "c \<in> set (encode_uri_component s) \<Longrightarrow> unreserved c \<or> c = CHR ''%''"
    by (auto simp: encode_uri_component_def encode_char_def encode_byte_def Let_def hex_digit_unreserved
        split: if_splits)
qed

end
