(* ===== verification/Throttler.thy ===== *)
theory Throttler
  imports Rate_Window Client_Identity Handler_Mapping_Facts Uri_Encoding
begin

text \<open>
  \<open>packages/throttler\<close>: option validation, the in-memory store, the Redis script, store keys
  and the guard. The key of a counter is made of the matched handler and the client's
  identity, so the theory joins the handler mapping, the client identity and the windows.
\<close>

section \<open>Validation\<close>

text \<open>A JavaScript number: an integer, another finite number, or NaN or an infinity.\<close>

datatype js_num = IntegerNum int | FractionNum | NonFinite

text \<open>The field an error names.\<close>

datatype throttler_error =
    InvalidField string
  | InvalidScriptResponse
  | NonNumericCounters
  | Unidentified identity_error
  | TooMany int

fun assert_positive_integer :: "string \<Rightarrow> js_num \<Rightarrow> (throttler_error, int) result" where
  "assert_positive_integer field (IntegerNum n) = (if n \<le> 0 then Inl (InvalidField field) else Inr n)"
| "assert_positive_integer field _ = Inl (InvalidField field)"

fun assert_integer :: "string \<Rightarrow> js_num \<Rightarrow> (throttler_error, int) result" where
  "assert_integer field (IntegerNum n) = Inr n"
| "assert_integer field _ = Inl (InvalidField field)"

record throttle_options =
  to_limit :: js_num
  to_ttl :: js_num

record throttle_policy =
  tp_limit :: int
  tp_ttl :: int

definition validate_throttle_options ::
  "throttle_options \<Rightarrow> (throttler_error, throttle_policy) result" where
  "validate_throttle_options o' =
     (case assert_positive_integer ''limit'' (to_limit o') of
        Inl e \<Rightarrow> Inl e
      | Inr l \<Rightarrow>
          (case assert_positive_integer ''ttl'' (to_ttl o') of
             Inl e \<Rightarrow> Inl e
           | Inr t \<Rightarrow> Inr \<lparr>tp_limit = l, tp_ttl = t\<rparr>))"

text \<open>What a store answers; \<open>re_retry\<close> is the Redis store's remaining time in milliseconds.\<close>

record raw_entry =
  re_count :: js_num
  re_reset :: js_num
  re_retry :: "int option"

definition validate_store_entry :: "raw_entry \<Rightarrow> (throttler_error, int \<times> int) result" where
  "validate_store_entry e =
     (case assert_positive_integer ''store count'' (re_count e) of
        Inl x \<Rightarrow> Inl x
      | Inr c \<Rightarrow>
          (case assert_integer ''store resetAt'' (re_reset e) of Inl x \<Rightarrow> Inl x | Inr r \<Rightarrow> Inr (c, r)))"

section \<open>The in-memory store\<close>

record throttler_store =
  ts_map :: "(string, window) js_map"
  ts_next_sweep :: int

definition create_memory_throttler_store :: throttler_store where
  "create_memory_throttler_store = \<lparr>ts_map = [], ts_next_sweep = 0\<rparr>"

definition sweep_expired_entries ::
  "(string, window) js_map \<Rightarrow> int \<Rightarrow> (string, window) js_map \<times> int" where
  "sweep_expired_entries m now =
     (let (m', next) = sweep_loop m now None in (m', case next of Some n \<Rightarrow> n | None \<Rightarrow> 0))"

definition memory_consume ::
  "throttler_store \<Rightarrow> string \<Rightarrow> int \<Rightarrow> int \<Rightarrow> window \<times> throttler_store" where
  "memory_consume s key now window_ms =
     (let (m, next) = (if now \<ge> ts_next_sweep s then sweep_expired_entries (ts_map s) now
                       else (ts_map s, ts_next_sweep s));
          e = consume_window (js_get m key) now window_ms in
      (e, \<lparr>ts_map = js_set key e m,
           ts_next_sweep = (if next = 0 then w_reset e else min next (w_reset e))\<rparr>))"

definition memory_answer ::
  "throttler_store \<Rightarrow> string \<Rightarrow> int \<Rightarrow> int \<Rightarrow> raw_entry \<times> throttler_store" where
  "memory_answer s key now ttl_seconds =
     (let (e, s') = memory_consume s key now (ttl_seconds * 1000) in
      (\<lparr>re_count = IntegerNum (int (w_count e)), re_reset = IntegerNum (w_reset e), re_retry = None\<rparr>, s'))"

definition throttler_store_ok :: "throttler_store \<Rightarrow> bool" where
  "throttler_store_ok s = distinct (map fst (ts_map s))"

lemma memory_consume_window:
  assumes "throttler_store_ok s" and "memory_consume s k now w = (e, s')"
  shows "e = consume_window (js_get (ts_map s) k) now w \<and> js_get (ts_map s') k = Some e \<and>
         throttler_store_ok s' \<and>
         (\<forall>j t. j \<noteq> k \<longrightarrow> now \<le> t \<longrightarrow> live t (js_get (ts_map s') j) = live t (js_get (ts_map s) j))"
proof -
  let ?m = "if now \<ge> ts_next_sweep s then fst (sweep_loop (ts_map s) now None) else ts_map s"
  have distinct: "distinct (map fst ?m)"
    using assms(1) by (simp add: throttler_store_ok_def sweep_loop_distinct)
  have same: "now \<le> t \<Longrightarrow> live t (js_get ?m j) = live t (js_get (ts_map s) j)" for t j
    using assms(1) by (simp add: throttler_store_ok_def live_sweep)
  have e: "e = consume_window (js_get ?m k) now w" and s': "ts_map s' = js_set k e ?m"
    using assms(2)
    by (auto simp: memory_consume_def sweep_expired_entries_def Let_def case_prod_beta split: if_splits)
  have "e = consume_window (js_get (ts_map s) k) now w"
    unfolding e by (metis consume_window_live order_refl same)
  then show ?thesis
    using s' same distinct by (simp add: throttler_store_ok_def distinct_update)
qed

interpretation throttler_memory: window_store memory_consume "\<lambda>s. js_get (ts_map s)" throttler_store_ok
  by unfold_locales (auto dest: memory_consume_window)

section \<open>The Redis store\<close>

text \<open>The Lua script, as a function of the decoded value at the key (nothing if the key is
  absent, and a field is missing if it is no number), Redis's clock and the window length: the
  value written back and the expiry of the key in milliseconds.\<close>

definition consume_script ::
  "(nat option \<times> int option) option \<Rightarrow> int \<Rightarrow> int \<Rightarrow> window \<times> int" where
  "consume_script raw now ttl_ms =
     (let e = (case raw of
                 None \<Rightarrow> \<lparr>w_count = 1, w_reset = now + ttl_ms\<rparr>
               | Some (c, r) \<Rightarrow>
                   (let count = (case c of Some n \<Rightarrow> n | None \<Rightarrow> 0);
                        reset = (case r of Some t \<Rightarrow> t | None \<Rightarrow> now + ttl_ms) in
                    if now \<ge> reset then \<lparr>w_count = 1, w_reset = now + ttl_ms\<rparr>
                    else \<lparr>w_count = count + 1, w_reset = reset\<rparr>)) in
      (e, max (w_reset e - now) 1))"

definition parse_consume_result :: "js_num list \<Rightarrow> (throttler_error, raw_entry) result" where
  "parse_consume_result result =
     (case result of
        count # reset # rest \<Rightarrow>
          if count = NonFinite \<or> reset = NonFinite then Inl NonNumericCounters
          else
            (case validate_store_entry \<lparr>re_count = count, re_reset = reset, re_retry = None\<rparr> of
               Inl e \<Rightarrow> Inl e
             | Inr (c, r) \<Rightarrow> Inr
                 \<lparr>re_count = IntegerNum c, re_reset = IntegerNum r,
                  re_retry = (case rest of IntegerNum ms # _ \<Rightarrow> Some ms | _ \<Rightarrow> None)\<rparr>)
      | _ \<Rightarrow> Inl InvalidScriptResponse)"

section \<open>The guard\<close>

text \<open>What the decorators left on a class or on a method.\<close>

record throttle_bag =
  tb_skip :: bool
  tb_throttle :: "throttle_options option"

record throttler_options =
  thr_policy :: throttle_options
  thr_trust_proxy :: bool
  thr_key_generator :: "(http_request \<Rightarrow> string) option"

definition build_handler_key :: "handler_descriptor \<Rightarrow> string" where
  "build_handler_key d =
     (let version = (case rt_version (hd_route d) of
                       Some v \<Rightarrow> v
                     | None \<Rightarrow> (case hd_effective_version d of Some v \<Rightarrow> v | None \<Rightarrow> ''unversioned'')) in
      js_join ''|''
        [''method:'' @ rt_method (hd_route d),
         ''path:'' @ encode_uri_component (rt_path (hd_route d)),
         ''version:'' @ encode_uri_component version,
         ''handler:'' @ encode_uri_component (hd_method_name d)])"

definition build_store_key :: "string \<Rightarrow> string \<Rightarrow> string" where
  "build_store_key handler_key client_key =
     ''throttler:'' @ encode_uri_component handler_key @ '':'' @ encode_uri_component client_key"

definition resolve_retry_after_seconds :: "raw_entry \<Rightarrow> int \<Rightarrow> int \<Rightarrow> int" where
  "resolve_retry_after_seconds e reset now =
     (case re_retry e of
        Some ms \<Rightarrow> max 1 (ceil_seconds ms)
      | None \<Rightarrow> max 1 (ceil_seconds (reset - now)))"

definition read_throttle :: "throttle_bag option \<Rightarrow> (throttler_error, throttle_policy option) result" where
  "read_throttle bag =
     (case Option.bind bag tb_throttle of
        None \<Rightarrow> Inr None
      | Some o' \<Rightarrow> (case validate_throttle_options o' of Inl e \<Rightarrow> Inl e | Inr p \<Rightarrow> Inr (Some p)))"

definition bag_skips :: "throttle_bag option \<Rightarrow> bool" where
  "bag_skips bag = (case bag of None \<Rightarrow> False | Some b \<Rightarrow> tb_skip b)"

definition resolve_policy ::
  "throttler_options \<Rightarrow> throttle_bag option \<Rightarrow> throttle_bag option \<Rightarrow> (throttler_error, throttle_policy) result"
where
  "resolve_policy options class_bag method_bag =
     (case read_throttle method_bag of
        Inl e \<Rightarrow> Inl e
      | Inr m \<Rightarrow>
          (case read_throttle class_bag of
             Inl e \<Rightarrow> Inl e
           | Inr c \<Rightarrow>
               (case (case m of Some p \<Rightarrow> Some p | None \<Rightarrow> c) of
                  Some p \<Rightarrow> validate_throttle_options
                    \<lparr>to_limit = IntegerNum (tp_limit p), to_ttl = IntegerNum (tp_ttl p)\<rparr>
                | None \<Rightarrow> validate_throttle_options (thr_policy options))))"

definition client_key ::
  "throttler_options \<Rightarrow> http_request \<Rightarrow> string option \<Rightarrow> (throttler_error, string) result" where
  "client_key options request remote =
     (case thr_key_generator options of
        Some generate \<Rightarrow> Inr (generate request)
      | None \<Rightarrow>
          (case resolve_client_identity (thr_trust_proxy options) (rq_headers request) remote of
             Inl e \<Rightarrow> Inl (Unidentified e)
           | Inr i \<Rightarrow> Inr i))"

definition can_activate ::
  "('s \<Rightarrow> string \<Rightarrow> int \<Rightarrow> int \<Rightarrow> raw_entry \<times> 's) \<Rightarrow> throttler_options \<Rightarrow>
   throttle_bag option \<Rightarrow> throttle_bag option \<Rightarrow> handler_descriptor \<Rightarrow>
   http_request \<Rightarrow> string option \<Rightarrow> int \<Rightarrow> 's \<Rightarrow> (throttler_error, unit) result \<times> 's" where
  "can_activate answer options class_bag method_bag handler request remote now s =
     (if bag_skips class_bag \<or> bag_skips method_bag then (Inr (), s)
      else
        (case resolve_policy options class_bag method_bag of
           Inl e \<Rightarrow> (Inl e, s)
         | Inr policy \<Rightarrow>
             (case client_key options request remote of
                Inl e \<Rightarrow> (Inl e, s)
              | Inr key \<Rightarrow>
                  (let (raw, s') = answer s (build_store_key (build_handler_key handler) key) now (tp_ttl policy) in
                   case validate_store_entry raw of
                     Inl e \<Rightarrow> (Inl e, s')
                   | Inr (count, reset) \<Rightarrow>
                       (if count > tp_limit policy
                        then Inl (TooMany (resolve_retry_after_seconds raw reset now)) else Inr (), s')))))"

end
