(* ===== verification/Throttler_Facts.thy ===== *)
theory Throttler_Facts
  imports Throttler
begin

text \<open>
  What throttling guarantees: the Redis script keeps the same windows as the in-memory store,
  a counter belongs to one handler and one client, and the guard bounds what a client gets.
\<close>

section \<open>The Redis script\<close>

definition stored_value :: "window option \<Rightarrow> (nat option \<times> int option) option" where
  "stored_value entry = map_option (\<lambda>e. (Some (w_count e), Some (w_reset e))) entry"

text \<open>The Redis script and the in-memory store count alike: on a value it wrote, or none, the
  script gives the window the in-memory store gives; the key then expires when the window
  ends; and the reply parses to that window with the remaining time.\<close>

theorem redis_script_window:
  assumes "0 < window_ms"
  shows "fst (consume_script (stored_value entry) now window_ms) = consume_window entry now window_ms \<and>
    now + snd (consume_script (stored_value entry) now window_ms) =
      w_reset (consume_window entry now window_ms) \<and>
    (let (e, left) = consume_script (stored_value entry) now window_ms in
     parse_consume_result [IntegerNum (int (w_count e)), IntegerNum (w_reset e), IntegerNum left] =
       Inr \<lparr>re_count = IntegerNum (int (w_count e)), re_reset = IntegerNum (w_reset e), re_retry = Some left\<rparr>)"
  using assms
  by (auto simp: consume_script_def stored_value_def consume_window_def parse_consume_result_def
      validate_store_entry_def Let_def split: option.split)

section \<open>Counters\<close>

lemma before_separator: "c \<notin> set x \<Longrightarrow> takeWhile (\<lambda>d. d \<noteq> c) (x @ c # y) = x"
  by (induction x) auto

lemma split_at_separator:
  assumes "x @ c # y = x' @ c # y'" and "c \<notin> set x" and "c \<notin> set x'"
  shows "x = x' \<and> y = y'"
proof -
  have "takeWhile (\<lambda>d. d \<noteq> c) (x @ c # y) = takeWhile (\<lambda>d. d \<noteq> c) (x' @ c # y')"
    using assms(1) by simp
  then have "x = x'"
    unfolding before_separator [OF assms(2)] before_separator [OF assms(3)] .
  then show ?thesis using assms(1) by simp
qed

lemma encoded_free:
  "CHR '':'' \<notin> set (encode_uri_component s)" "CHR ''|'' \<notin> set (encode_uri_component s)"
  using encode_uri_component_chars [of "CHR '':''" s] encode_uri_component_chars [of "CHR ''|''" s]
  by (auto simp: unreserved_def Let_def)

definition throttle_version :: "handler_descriptor \<Rightarrow> string" where
  "throttle_version d =
     (case rt_version (hd_route d) of
        Some v \<Rightarrow> v
      | None \<Rightarrow> (case hd_effective_version d of Some v \<Rightarrow> v | None \<Rightarrow> ''unversioned''))"

lemma handler_key_inj:
  assumes "CHR ''|'' \<notin> set (rt_method (hd_route d))" and "CHR ''|'' \<notin> set (rt_method (hd_route d'))"
    and "build_handler_key d = build_handler_key d'"
  shows "rt_method (hd_route d) = rt_method (hd_route d') \<and> rt_path (hd_route d) = rt_path (hd_route d') \<and>
    throttle_version d = throttle_version d' \<and> hd_method_name d = hd_method_name d'"
proof -
  let ?rest = "\<lambda>d. ''path:'' @ encode_uri_component (rt_path (hd_route d)) @ CHR ''|'' #
    (''version:'' @ encode_uri_component (throttle_version d) @ CHR ''|'' #
    (''handler:'' @ encode_uri_component (hd_method_name d)))"
  have key: "build_handler_key d = (''method:'' @ rt_method (hd_route d)) @ CHR ''|'' # ?rest d" for d
    by (simp add: build_handler_key_def throttle_version_def Let_def)
  have eq: "(''method:'' @ rt_method (hd_route d)) @ CHR ''|'' # ?rest d =
        (''method:'' @ rt_method (hd_route d')) @ CHR ''|'' # ?rest d'"
    using assms(3) by (simp only: key)
  from split_at_separator [OF eq] assms(1,2)
  have m: "rt_method (hd_route d) = rt_method (hd_route d')" and rest: "?rest d = ?rest d'" by auto
  from rest have eq2: "encode_uri_component (rt_path (hd_route d)) @ CHR ''|'' #
      (''version:'' @ encode_uri_component (throttle_version d) @ CHR ''|'' #
      (''handler:'' @ encode_uri_component (hd_method_name d))) =
      encode_uri_component (rt_path (hd_route d')) @ CHR ''|'' #
      (''version:'' @ encode_uri_component (throttle_version d') @ CHR ''|'' #
      (''handler:'' @ encode_uri_component (hd_method_name d')))" by simp
  from split_at_separator [OF eq2 encoded_free(2) encoded_free(2)]
  have p: "rt_path (hd_route d) = rt_path (hd_route d')"
    and eq3: "encode_uri_component (throttle_version d) @ CHR ''|'' #
      (''handler:'' @ encode_uri_component (hd_method_name d)) =
      encode_uri_component (throttle_version d') @ CHR ''|'' #
      (''handler:'' @ encode_uri_component (hd_method_name d'))"
    by (simp_all add: encode_uri_component_inj)
  from split_at_separator [OF eq3 encoded_free(2) encoded_free(2)] m p
  show ?thesis by (simp add: encode_uri_component_inj)
qed

lemma store_key_inj:
  "build_store_key h c = build_store_key h' c' \<longleftrightarrow> h = h' \<and> c = c'"
proof
  assume "build_store_key h c = build_store_key h' c'"
  then have "encode_uri_component h @ CHR '':'' # encode_uri_component c =
             encode_uri_component h' @ CHR '':'' # encode_uri_component c'"
    by (simp add: build_store_key_def)
  from split_at_separator [OF this encoded_free(1) encoded_free(1)]
  show "h = h' \<and> c = c'" by (simp add: encode_uri_component_inj)
qed simp

text \<open>The descriptors the key distinguishes: methods without a bar (as all HTTP methods are), and
  no version spelled \<open>unversioned\<close>.\<close>

definition distinguishable :: "handler_descriptor \<Rightarrow> bool" where
  "distinguishable d \<longleftrightarrow>
     CHR ''|'' \<notin> set (rt_method (hd_route d)) \<and> rt_version (hd_route d) \<noteq> Some ''unversioned''"

lemma counters_separate:
  assumes "create_handler_mapping sources options = Inr m"
    and "d \<in> set (hm_descriptors m)" and "d' \<in> set (hm_descriptors m)"
    and "distinguishable d" and "distinguishable d'"
    and "build_store_key (build_handler_key d) c = build_store_key (build_handler_key d') c'"
  shows "d = d' \<and> c = c'"
proof -
  have ok: "list_all descriptor_ok (hm_descriptors m)" and keys: "distinct (map route_key (hm_descriptors m))"
    using create_handler_mapping_ok [OF assms(1)] by auto
  have c: "c = c'" and same: "build_handler_key d = build_handler_key d'"
    using assms(6) by (simp_all add: store_key_inj)
  have version: "throttle_version x = (case rt_version (hd_route x) of Some v \<Rightarrow> v | None \<Rightarrow> ''unversioned'')"
    if "x \<in> set (hm_descriptors m)" for x
    using ok that by (auto simp: list_all_iff descriptor_ok_def throttle_version_def Let_def split: option.split)
  have "rt_method (hd_route d) = rt_method (hd_route d')" and "rt_path (hd_route d) = rt_path (hd_route d')"
    and "throttle_version d = throttle_version d'"
    using handler_key_inj [OF _ _ same] assms(4,5) by (auto simp: distinguishable_def)
  moreover from this have "rt_version (hd_route d) = rt_version (hd_route d')"
    using version [OF assms(2)] version [OF assms(3)] assms(4,5)
    by (auto simp: distinguishable_def split: option.splits)
  ultimately have "route_key d = route_key d'"
    by (simp add: route_key_def Let_def)
  with keys assms(2,3) have "d = d'"
    by (auto simp: distinct_map dest: inj_onD)
  with c show ?thesis by simp
qed

text \<open>No two handlers of one mapping and no two clients share a throttle counter.\<close>

theorem throttle_counters_separate:
  assumes "create_handler_mapping sources options = Inr m"
    and "d \<in> set (hm_descriptors m)" and "d' \<in> set (hm_descriptors m)"
    and "distinguishable d" and "distinguishable d'"
  shows "build_store_key (build_handler_key d) c = build_store_key (build_handler_key d') c' \<longleftrightarrow>
         d = d' \<and> c = c'"
  using counters_separate [OF assms] by auto

section \<open>The guard\<close>

text \<open>A guarded request: the handler, the request, the socket's address and the time.\<close>

type_synonym guarded_request = "handler_descriptor \<times> http_request \<times> string option \<times> int"

type_synonym bags = "handler_descriptor \<Rightarrow> throttle_bag option \<times> throttle_bag option"

fun guard_run ::
  "throttler_options \<Rightarrow> bags \<Rightarrow> throttler_store \<Rightarrow> guarded_request list \<Rightarrow>
   (guarded_request \<times> (throttler_error, unit) result) list" where
  "guard_run options bags s [] = []"
| "guard_run options bags s ((d, request, remote, now) # rs) =
     (let (result, s') = can_activate memory_answer options (fst (bags d)) (snd (bags d)) d request remote now s in
      ((d, request, remote, now), result) # guard_run options bags s' rs)"

text \<open>The admitted requests of one handler and one client in a time span.\<close>

definition granted ::
  "throttler_options \<Rightarrow> handler_descriptor \<Rightarrow> string \<Rightarrow> int \<Rightarrow> int \<Rightarrow>
   (guarded_request \<times> (throttler_error, unit) result) list \<Rightarrow> nat" where
  "granted options d c a w rs =
     length (filter (\<lambda>((d', request, remote, t), result).
       d' = d \<and> client_key options request remote = Inr c \<and> a \<le> t \<and> t < a + w \<and> result = Inr ()) rs)"

text \<open>What a guarded request asks of the store, if it gets there.\<close>

definition store_request :: "throttler_options \<Rightarrow> bags \<Rightarrow> guarded_request \<Rightarrow> (string \<times> int \<times> int) option" where
  "store_request options bags r =
     (case r of (d, request, remote, now) \<Rightarrow>
        if bag_skips (fst (bags d)) \<or> bag_skips (snd (bags d)) then None
        else
          (case resolve_policy options (fst (bags d)) (snd (bags d)) of
             Inl e \<Rightarrow> None
           | Inr p \<Rightarrow>
               (case client_key options request remote of
                  Inl e \<Rightarrow> None
                | Inr c \<Rightarrow> Some (build_store_key (build_handler_key d) c, now, tp_ttl p * 1000))))"

lemma guard_no_store:
  assumes "store_request options bags (d, request, remote, now) = None"
  shows "snd (can_activate memory_answer options (fst (bags d)) (snd (bags d)) d request remote now s) = s"
  using assms
  by (auto simp: store_request_def can_activate_def split: if_splits sum.splits)

lemma consume_window_positive: "0 < w_count (consume_window entry now w)"
  by (auto simp: consume_window_def split: option.splits)

lemma guard_store:
  assumes "store_request options bags (d, request, remote, now) = Some (k, t, w)"
    and "throttler_store_ok s" and "memory_consume s k t w = (e, s')"
  shows "snd (can_activate memory_answer options (fst (bags d)) (snd (bags d)) d request remote now s) = s' \<and>
    t = now \<and>
    (\<exists>p. resolve_policy options (fst (bags d)) (snd (bags d)) = Inr p \<and> w = tp_ttl p * 1000 \<and>
      (fst (can_activate memory_answer options (fst (bags d)) (snd (bags d)) d request remote now s) = Inr () \<longleftrightarrow>
       int (w_count e) \<le> tp_limit p))"
proof -
  obtain p c where p: "resolve_policy options (fst (bags d)) (snd (bags d)) = Inr p"
    and c: "client_key options request remote = Inr c"
    and skip: "\<not> bag_skips (fst (bags d))" "\<not> bag_skips (snd (bags d))"
    and k: "k = build_store_key (build_handler_key d) c" and t: "t = now" and w: "w = tp_ttl p * 1000"
    using assms(1) by (auto simp: store_request_def split: if_splits sum.splits)
  have "0 < w_count e"
    using memory_consume_window [OF assms(2,3)] consume_window_positive by auto
  then show ?thesis
    using p c skip assms(3) unfolding k t w
    by (auto simp: can_activate_def memory_answer_def validate_store_entry_def)
qed

text \<open>The requests the guard admits, read off the windows the store hands out.\<close>

lemma guard_run_granted:
  assumes "throttler_store_ok s" and "resolve_policy options (fst (bags d)) (snd (bags d)) = Inr p"
    and "\<not> bag_skips (fst (bags d))" and "\<not> bag_skips (snd (bags d))" and "0 \<le> tp_limit p"
    and "\<forall>(d', request, remote, t) \<in> set rs. \<forall>c'. client_key options request remote = Inr c' \<longrightarrow>
      (build_store_key (build_handler_key d') c' = build_store_key (build_handler_key d) c \<longrightarrow> d' = d \<and> c' = c)"
  shows "granted options d c a w (guard_run options bags s rs) =
    admitted (nat (tp_limit p)) a w (of_key (build_store_key (build_handler_key d) c)
      (store_run memory_consume s (List.map_filter (store_request options bags) rs)))"
  using assms(1,6)
proof (induction rs arbitrary: s)
  case Nil
  then show ?case by (simp add: granted_def map_filter_simps)
next
  case (Cons r rs)
  obtain d' request remote now where r: "r = (d', request, remote, now)" by (cases r)
  let ?run = "can_activate memory_answer options (fst (bags d')) (snd (bags d')) d' request remote now s"
  let ?K = "build_store_key (build_handler_key d) c"
  have head: "granted options d c a w (guard_run options bags s (r # rs)) =
      (if d' = d \<and> client_key options request remote = Inr c \<and> a \<le> now \<and> now < a + w \<and> fst ?run = Inr ()
       then 1 else 0) + granted options d c a w (guard_run options bags (snd ?run) rs)"
    by (auto simp: r granted_def case_prod_beta)
  have distinct: "client_key options request remote = Inr c' \<Longrightarrow>
      build_store_key (build_handler_key d') c' = ?K \<Longrightarrow> d' = d \<and> c' = c" for c'
    using Cons.prems(2) by (auto simp: r)
  show ?case
  proof (cases "store_request options bags (d', request, remote, now)")
    case None
    then have "\<not> (d' = d \<and> client_key options request remote = Inr c)"
      using assms(2-4) by (auto simp: store_request_def)
    then have "granted options d c a w (guard_run options bags s (r # rs)) =
        granted options d c a w (guard_run options bags (snd ?run) rs)"
      unfolding head by auto
    moreover have "List.map_filter (store_request options bags) (r # rs) =
        List.map_filter (store_request options bags) rs"
      using None by (simp add: r map_filter_simps)
    ultimately show ?thesis
      using Cons.IH [OF Cons.prems(1)] Cons.prems(2) guard_no_store [OF None] by simp
  next
    case (Some x)
    obtain k t u where x: "x = (k, t, u)" by (cases x)
    obtain e s' where run: "memory_consume s k t u = (e, s')" by fastforce
    have ok: "throttler_store_ok s'"
      using memory_consume_window [OF Cons.prems(1) run] by simp
    note store = guard_store [OF Some [unfolded x] Cons.prems(1) run]
    have key: "k = ?K \<longleftrightarrow> d' = d \<and> client_key options request remote = Inr c"
      using Some x distinct by (auto simp: store_request_def split: if_splits sum.splits)
    have result: "fst ?run = Inr () \<longleftrightarrow> w_count e \<le> nat (tp_limit p)" if "d' = d"
      using store assms(2,5) that by auto
    have IH: "granted options d c a w (guard_run options bags s' rs) =
        admitted (nat (tp_limit p)) a w (of_key ?K
          (store_run memory_consume s' (List.map_filter (store_request options bags) rs)))"
      using Cons.IH [OF ok] Cons.prems(2) by simp
    have now: "t = now" and rest: "snd ?run = s'" using store by simp_all
    have runs: "store_run memory_consume s (List.map_filter (store_request options bags) (r # rs)) =
        (k, now, e) # store_run memory_consume s' (List.map_filter (store_request options bags) rs)"
      using Some run by (simp add: r x map_filter_simps now)
    show ?thesis
    proof (cases "k = ?K")
      case True
      then have mine: "d' = d" "client_key options request remote = Inr c" using key by simp_all
      show ?thesis
        unfolding head runs rest IH using True mine result by simp
    next
      case False
      then have "\<not> (d' = d \<and> client_key options request remote = Inr c)" using key by simp
      then show ?thesis
        unfolding head runs rest IH using False by auto
    qed
  qed
qed

lemma throttler_options_positive:
  assumes "resolve_policy options cb mb = Inr p"
  shows "0 < tp_limit p \<and> 0 < tp_ttl p"
proof -
  have "validate_throttle_options o' = Inr q \<Longrightarrow> 0 < tp_limit q \<and> 0 < tp_ttl q" for o' q
    by (cases "to_limit o'"; cases "to_ttl o'")
      (auto simp: validate_throttle_options_def split: sum.splits if_splits)
  then show ?thesis
    using assms by (auto simp: resolve_policy_def split: sum.splits option.splits)
qed

lemma store_request_Some:
  "store_request options bags (d, request, remote, now) = Some (k, t, w) \<Longrightarrow>
   t = now \<and> (\<exists>p c. resolve_policy options (fst (bags d)) (snd (bags d)) = Inr p \<and> w = tp_ttl p * 1000 \<and>
     client_key options request remote = Inr c \<and> k = build_store_key (build_handler_key d) c)"
  by (auto simp: store_request_def split: if_splits sum.splits)

lemma map_filter_in: "x \<in> set (List.map_filter f xs) \<longleftrightarrow> (\<exists>y \<in> set xs. f y = Some x)"
  by (induction xs) (auto simp: map_filter_simps split: option.splits)

lemma sorted_map_filter:
  assumes "sorted (map h rs)" and "\<And>r x. f r = Some x \<Longrightarrow> g x = h r"
  shows "sorted (map g (List.map_filter f rs))"
  using assms(1)
proof (induction rs)
  case (Cons r rs)
  then show ?case
    using assms(2) by (auto simp: map_filter_simps map_filter_in split: option.split)
qed (simp add: map_filter_simps)

text \<open>C40. The guard bounds what a client gets: in a mapping with no route of a version spelled
  \<open>unversioned\<close> and no bar in a method (\<open>distinguishable\<close>), whatever the traffic to its
  handlers, in any time span of one window length a handler under the policy \<open>p\<close> that is not skipped
  admits at most twice the policy's limit of requests of one client. The store is the in-memory
  one, the clock does not run backwards, and the requests are served one after the other. A route without a version and one of the
  version \<open>unversioned\<close> may share a counter: then the shorter window of one renews the other's.\<close>

theorem throttler_bound:
  assumes "create_handler_mapping sources versions = Inr m"
    and "\<forall>d' \<in> set (hm_descriptors m). distinguishable d'"
    and "\<forall>(d', request, remote, t) \<in> set rs. d' \<in> set (hm_descriptors m)"
    and "sorted (map (\<lambda>(d', request, remote, t). t) rs)" and "d \<in> set (hm_descriptors m)"
    and "resolve_policy options (fst (bags d)) (snd (bags d)) = Inr p"
    and "\<not> bag_skips (fst (bags d))" and "\<not> bag_skips (snd (bags d))"
  shows "int (granted options d c a (tp_ttl p * 1000)
    (guard_run options bags create_memory_throttler_store rs)) \<le> 2 * tp_limit p"
proof -
  let ?K = "build_store_key (build_handler_key d) c"
  let ?srs = "List.map_filter (store_request options bags) rs"
  have ok: "throttler_store_ok create_memory_throttler_store"
    by (simp add: throttler_store_ok_def create_memory_throttler_store_def)
  have separate: "\<forall>(d', request, remote, t) \<in> set rs. \<forall>c'. client_key options request remote = Inr c' \<longrightarrow>
      (build_store_key (build_handler_key d') c' = ?K \<longrightarrow> d' = d \<and> c' = c)"
  proof (intro ballI, clarify)
    fix d' request remote t c'
    assume "(d', request, remote, t) \<in> set rs" and key: "build_store_key (build_handler_key d') c' = ?K"
    with assms(3) have d': "d' \<in> set (hm_descriptors m)" by auto
    show "d' = d \<and> c' = c"
      by (rule counters_separate [OF assms(1) d' assms(5) bspec [OF assms(2) d'] bspec [OF assms(2) assms(5)] key])
  qed
  have limit: "0 \<le> tp_limit p"
    using throttler_options_positive [OF assms(6)] by simp

  have "sorted (map (\<lambda>(k, t, w). t) ?srs)"
    using assms(4) by (rule sorted_map_filter) (auto dest: store_request_Some)
  moreover have "\<forall>x \<in> set (of_key ?K ?srs). snd x = tp_ttl p * 1000"
  proof
    fix x assume "x \<in> set (of_key ?K ?srs)"
    then obtain r where "r \<in> set rs" and "store_request options bags r = Some (?K, x)"
      by (auto simp: of_key_in map_filter_in)
    moreover obtain d' request remote now where "r = (d', request, remote, now)" by (cases r)
    ultimately have r: "(d', request, remote, now) \<in> set rs"
      and some: "store_request options bags (d', request, remote, now) = Some (?K, fst x, snd x)" by simp_all
    from store_request_Some [OF some] obtain p' c' where
      p': "resolve_policy options (fst (bags d')) (snd (bags d')) = Inr p'" "snd x = tp_ttl p' * 1000"
      and "client_key options request remote = Inr c'" and "?K = build_store_key (build_handler_key d') c'" by blast
    moreover from bspec [OF separate r] have
      "\<forall>c'. client_key options request remote = Inr c' \<longrightarrow>
        build_store_key (build_handler_key d') c' = ?K \<longrightarrow> d' = d \<and> c' = c" by simp
    ultimately have "d' = d" by metis
    with p' assms(6) show "snd x = tp_ttl p * 1000" by simp
  qed
  ultimately have "admitted (nat (tp_limit p)) a (tp_ttl p * 1000)
      (of_key ?K (store_run memory_consume create_memory_throttler_store ?srs)) \<le> 2 * nat (tp_limit p)"
    by (rule throttler_memory.admitted_in_span [OF ok])
  then show ?thesis
    unfolding guard_run_granted [where bags = bags and d = d, OF ok assms(6-8) limit separate]
    using limit by linarith
qed

section \<open>Samples\<close>

lemma redis_script_window_witness:
  "fst (consume_script (stored_value (Some \<lparr>w_count = 2, w_reset = 5000\<rparr>)) 4000 60000) = \<lparr>w_count = 3, w_reset = 5000\<rparr>"
proof -
  have "(0::int) < 60000" by simp
  from redis_script_window [OF this, of "Some \<lparr>w_count = 2, w_reset = 5000\<rparr>" 4000] show ?thesis
    by (simp add: consume_window_def)
qed

definition list_users :: handler_descriptor where
  "list_users = hd (hm_descriptors users_mapping)"

lemma users_distinguishable: "\<forall>d \<in> set (hm_descriptors users_mapping). distinguishable d"
proof -
  have "list_all distinguishable (hm_descriptors users_mapping)" by code_simp
  then show ?thesis by (simp add: list_all_iff)
qed

lemma list_users_in: "list_users \<in> set (hm_descriptors users_mapping)"
proof -
  have "hm_descriptors users_mapping \<noteq> []" by code_simp
  then show ?thesis by (simp add: list_users_def)
qed

lemma throttle_counters_separate_witness:
  "build_store_key (build_handler_key list_users) ''1.2.3.4'' \<noteq> build_store_key (build_handler_key list_users) ''1.2.3.5''"
  using throttle_counters_separate [OF users_mapping_created list_users_in list_users_in
      bspec [OF users_distinguishable list_users_in] bspec [OF users_distinguishable list_users_in],
      of "''1.2.3.4''" "''1.2.3.5''"]
  by simp

definition two_a_minute :: throttler_options where
  "two_a_minute = \<lparr>thr_policy = \<lparr>to_limit = IntegerNum 2, to_ttl = IntegerNum 60\<rparr>,
     thr_trust_proxy = False, thr_key_generator = None\<rparr>"

definition three_calls :: "guarded_request list" where
  "three_calls = map (\<lambda>t. (list_users, get_users ''/users'' NoValue, Some ''1.2.3.4'', t)) [0, 10, 20]"

lemma throttler_bound_witness:
  "granted two_a_minute list_users ''1.2.3.4'' 0 60000
     (guard_run two_a_minute (\<lambda>d. (None, None)) create_memory_throttler_store three_calls) \<le> 4"
proof -
  have calls: "\<forall>(d', request, remote, t) \<in> set three_calls. d' \<in> set (hm_descriptors users_mapping)"
    using list_users_in by (auto simp: three_calls_def)
  have sorted: "sorted (map (\<lambda>(d', request, remote, t). t) three_calls)"
    by (simp add: three_calls_def)
  have policy: "resolve_policy two_a_minute (fst (None, None)) (snd (None, None)) = Inr \<lparr>tp_limit = 2, tp_ttl = 60\<rparr>"
    by (simp add: resolve_policy_def read_throttle_def two_a_minute_def validate_throttle_options_def)
  have skip: "\<not> bag_skips (fst (None, None))" "\<not> bag_skips (snd (None, None))"
    by (simp_all add: bag_skips_def)
  show ?thesis
    using throttler_bound [where bags = "\<lambda>d. (None, None)" and d = list_users and c = "''1.2.3.4''" and a = 0,
      OF users_mapping_created users_distinguishable calls sorted list_users_in policy skip]
    by simp
qed

text \<open>Two routes for the same method, path and method name, one without a version and one of the version
  \<open>unversioned\<close>, share the counter of a client: where the second has a window of one second, the first
  admits six requests in the minute in which its policy allows two.\<close>

definition report_source :: "nat \<Rightarrow> string option \<Rightarrow> handler_source" where
  "report_source c version =
     \<lparr>hs_controller = c, hs_middleware = None, hs_module = None,
      hs_metadata = Some \<lparr>ctm_base = ''/'', ctm_version = None, ctm_guards = None, ctm_interceptors = None\<rparr>,
      hs_properties =
        [(''report'', Some \<lparr>rtm_method = ''GET'', rtm_path = ''report'', rtm_version = version,
            rtm_guards = None, rtm_interceptors = None, rtm_rest = 0\<rparr>, None)]\<rparr>"

definition report_routes :: "handler_descriptor list" where
  "report_routes =
     (case create_handler_mapping [report_source 0 None, report_source 1 (Some ''unversioned'')]
            (Some (HeaderVersioning ''X-Version'')) of
        Inr m \<Rightarrow> hm_descriptors m | Inl e \<Rightarrow> [])"

theorem unversioned_shares_counter:
  "(let bags = (\<lambda>d. (None, if hd_controller d = 1
                        then Some \<lparr>tb_skip = False, tb_throttle = Some \<lparr>to_limit = IntegerNum 2, to_ttl = IntegerNum 1\<rparr>\<rparr>
                        else None));
        request = get_users ''/report'' NoValue;
        visit = (\<lambda>i t. (report_routes ! i, request, Some ''1.2.3.4'', t));
        rs = concat (map (\<lambda>t. [visit 1 t, visit 0 (t + 500)]) [0, 1000, 2000, 3000, 4000, 5000])
    in (length report_routes, granted two_a_minute (report_routes ! 0) ''1.2.3.4'' 0 60000
          (guard_run two_a_minute bags create_memory_throttler_store rs))) = (2, 6)"
  by code_simp

end
