(* ===== verification/Http_Response.thy ===== *)
theory Http_Response
  imports Content_Negotiation Handler_Mapping Di_Types
begin

text \<open>
  What is thrown and what is returned while a request is served, HTTP exceptions
  (\<open>packages/http/src/exceptions.ts\<close>), the response object of the Web-standard adapters
  (\<open>MutableWebFrameworkResponse\<close> in \<open>packages/runtime/src/web.ts\<close>), and the policies that write
  results and errors to it (\<open>packages/http/src/dispatch/dispatch-response-policy.ts\<close> and
  \<open>dispatch-error-policy.ts\<close>).
\<close>

section \<open>Values\<close>

text \<open>What \<open>JSON.stringify\<close> does with a value.\<close>

datatype json = JsonText string | JsonUndefined | JsonThrows

text \<open>
  A handler's result, as far as the framework tells results apart: \<open>PlainObject\<close> has
  \<open>Object.prototype\<close> as its prototype, \<open>OtherValue\<close> is everything else that has no constructor
  here, \<open>SseResult\<close> an instance of \<open>SseResponse\<close> and \<open>IterableResult\<close> an async iterable. Each
  carries the JSON it serializes to, where the framework serializes it.
\<close>

record http_exception =
  he_status :: nat
  he_code :: string
  he_message :: string
  he_details :: json
  he_meta :: json

datatype http_value =
    UndefinedResult
  | BoolResult bool
  | StringResult string
  | BytesResult nat json
  | PlainObject json
  | ArrayResult json
  | OtherValue json
  | SseResult
  | IterableResult nat json

text \<open>
  What may be thrown. \<open>ThrownFalsy\<close> is a falsy value, such as the \<open>undefined\<close> of
  \<open>Promise.reject()\<close>; \<open>ThrownHttp\<close> an \<open>HttpException\<close>; \<open>ThrownHandlerNotFound\<close> has the method and the path; \<open>ThrownOther\<close> any other value of the
  application.
\<close>

datatype thrown =
    ThrownFalsy
  | ThrownOther nat
  | ThrownHttp http_exception
  | ThrownHandlerNotFound string string
  | ThrownAborted
  | ThrownByContainer di_error
  | ThrownMissingMethod
  | ThrownNotFastPath
  | ThrownNotReady
  | ThrownNotSerializable

definition forbidden_exception :: http_exception where
  "forbidden_exception =
     \<lparr>he_status = 403, he_code = ''FORBIDDEN'', he_message = ''Access denied.'', he_details = JsonUndefined, he_meta = JsonUndefined\<rparr>"

definition not_acceptable_exception :: http_exception where
  "not_acceptable_exception =
     \<lparr>he_status = 406, he_code = ''NOT_ACCEPTABLE'', he_message = ''No acceptable response representation found.'',
      he_details = JsonUndefined, he_meta = JsonUndefined\<rparr>"

definition not_found_exception :: "string \<Rightarrow> string \<Rightarrow> http_exception" where
  "not_found_exception method path =
     \<lparr>he_status = 404, he_code = ''NOT_FOUND'',
      he_message = ''No handler registered for '' @ method @ '' '' @ path @ ''.'',
      he_details = JsonUndefined, he_meta = JsonUndefined\<rparr>"

definition internal_exception :: http_exception where
  "internal_exception =
     \<lparr>he_status = 500, he_code = ''INTERNAL_SERVER_ERROR'', he_message = ''Internal server error.'',
      he_details = JsonUndefined, he_meta = JsonUndefined\<rparr>"

section \<open>JSON\<close>

definition hex_digit :: "nat \<Rightarrow> char" where
  "hex_digit n = (if n < 10 then char_of (48 + n) else char_of (87 + n))"

text \<open>\<open>JSON.stringify\<close> on one code unit of a string.\<close>

definition json_char :: "char \<Rightarrow> string" where
  "json_char c =
     (let n = (of_char c :: nat); esc = char_of (92 :: nat) in
      if n = 34 \<or> n = 92 then [esc, c]
      else if n = 8 then [esc, CHR ''b''] else if n = 9 then [esc, CHR ''t'']
      else if n = 10 then [esc, CHR ''n''] else if n = 12 then [esc, CHR ''f'']
      else if n = 13 then [esc, CHR ''r'']
      else if n < 32 then [esc, CHR ''u'', CHR ''0'', CHR ''0'', hex_digit (n div 16), hex_digit (n mod 16)]
      else [c])"

definition json_quote :: "string \<Rightarrow> string" where
  "json_quote s = char_of (34 :: nat) # concat (map json_char s) @ [char_of (34 :: nat)]"

fun json_of :: "http_value \<Rightarrow> json" where
  "json_of UndefinedResult = JsonUndefined"
| "json_of (BoolResult b) = JsonText (if b then ''true'' else ''false'')"
| "json_of (StringResult s) = JsonText (json_quote s)"
| "json_of (BytesResult b j) = j"
| "json_of (PlainObject j) = j"
| "json_of (ArrayResult j) = j"
| "json_of (OtherValue j) = j"
| "json_of (IterableResult i j) = j"
| "json_of SseResult = JsonThrows"

section \<open>The response object\<close>

datatype payload = NoPayload | TextPayload string | BytesPayload nat

text \<open>
  \<open>MutableWebFrameworkResponse\<close>. \<open>toResponse\<close> runs after the dispatch, so \<open>finalizedResponse\<close> is
  unset throughout. \<open>rs_frames\<close> and \<open>rs_stream_closed\<close> are the chunks written to its stream and
  whether the stream is closed.
\<close>

record http_response =
  rs_committed :: bool
  rs_headers :: "(string, multi_value) js_map"
  rs_status :: "nat option"
  rs_status_set :: bool
  rs_body :: payload
  rs_stream_active :: bool
  rs_frames :: "string list"
  rs_stream_closed :: bool

definition new_response :: http_response where
  "new_response =
     \<lparr>rs_committed = False, rs_headers = [], rs_status = None, rs_status_set = False, rs_body = NoPayload,
      rs_stream_active = False, rs_frames = [], rs_stream_closed = False\<rparr>"

definition set_status :: "nat \<Rightarrow> http_response \<Rightarrow> http_response" where
  "set_status code r = r\<lparr>rs_status := Some code, rs_status_set := True\<rparr>"

definition find_header_name :: "(string, multi_value) js_map \<Rightarrow> string \<Rightarrow> string option" where
  "find_header_name hs name = List.find (\<lambda>k. js_lower k = js_lower name) (map fst hs)"

fun value_list :: "multi_value \<Rightarrow> string list" where
  "value_list NoValue = []"
| "value_list (OneValue v) = [v]"
| "value_list (ManyValues vs) = vs"

definition merge_set_cookie_header :: "multi_value \<Rightarrow> multi_value \<Rightarrow> multi_value" where
  "merge_set_cookie_header current incoming =
     (case value_list current @ value_list incoming of
        [v] \<Rightarrow> OneValue v
      | vs \<Rightarrow> ManyValues vs)"

definition set_header :: "string \<Rightarrow> multi_value \<Rightarrow> http_response \<Rightarrow> http_response" where
  "set_header name value r =
     (let key = (case find_header_name (rs_headers r) name of Some k \<Rightarrow> k | None \<Rightarrow> name) in
      if js_lower name = ''set-cookie'' then
        r\<lparr>rs_headers := js_set key
            (merge_set_cookie_header
               (case js_get (rs_headers r) key of Some v \<Rightarrow> v | None \<Rightarrow> NoValue) value) (rs_headers r)\<rparr>
      else r\<lparr>rs_headers := js_set key value (rs_headers r)\<rparr>)"

text \<open>The Content-Type \<open>send\<close> looks at: only these two spellings, and only a single value.\<close>

definition sent_content_type :: "(string, multi_value) js_map \<Rightarrow> string option" where
  "sent_content_type hs =
     (case js_get hs ''Content-Type'' of
        Some (OneValue v) \<Rightarrow> Some v
      | _ \<Rightarrow> (case js_get hs ''content-type'' of Some (OneValue v) \<Rightarrow> Some v | _ \<Rightarrow> None))"

definition is_json_content_type :: "string option \<Rightarrow> bool" where
  "is_json_content_type t =
     (case t of None \<Rightarrow> False | Some s \<Rightarrow> js_includes ''application/json'' (js_lower s))"

definition json_type :: string where "json_type = ''application/json; charset=utf-8''"

text \<open>The default Content-Type and the payload.\<close>

fun json_payload :: "json \<Rightarrow> (thrown, payload) result" where
  "json_payload (JsonText t) = Inr (TextPayload t)"
| "json_payload JsonUndefined = Inr NoPayload"
| "json_payload JsonThrows = Inl ThrownNotSerializable"

definition with_type :: "string \<Rightarrow> (thrown, payload) result \<Rightarrow> (thrown, string option \<times> payload) result" where
  "with_type t p = (case p of Inl e \<Rightarrow> Inl e | Inr x \<Rightarrow> Inr (Some t, x))"

fun serialize_web_response_body ::
  "http_value \<Rightarrow> string option \<Rightarrow> (thrown, string option \<times> payload) result" where
  "serialize_web_response_body UndefinedResult type = Inr (None, TextPayload [])"
| "serialize_web_response_body (BytesResult b j) type = Inr (Some ''application/octet-stream'', BytesPayload b)"
| "serialize_web_response_body (StringResult s) type =
     (if is_json_content_type type then Inr (None, TextPayload (json_quote s))
      else Inr (Some ''text/plain; charset=utf-8'', TextPayload s))"
| "serialize_web_response_body v type = with_type json_type (json_payload (json_of v))"

definition set_default_type :: "string option \<Rightarrow> http_response \<Rightarrow> http_response" where
  "set_default_type t r =
     (case t of
        None \<Rightarrow> r
      | Some v \<Rightarrow>
          if find_header_name (rs_headers r) ''content-type'' = None
          then set_header ''Content-Type'' (OneValue v) r else r)"

definition send :: "http_value \<Rightarrow> http_response \<Rightarrow> (thrown, unit) result \<times> http_response" where
  "send body r =
     (case serialize_web_response_body body (sent_content_type (rs_headers r)) of
        Inl e \<Rightarrow> (Inl e, r)
      | Inr (t, payload) \<Rightarrow>
          (Inr (), (set_default_type t r)\<lparr>rs_body := payload, rs_committed := True\<rparr>))"

definition send_simple_json :: "http_value \<Rightarrow> http_response \<Rightarrow> (thrown, unit) result \<times> http_response" where
  "send_simple_json body r =
     (let r' = (if find_header_name (rs_headers r) ''content-type'' = None
                then set_header ''Content-Type'' (OneValue json_type) r else r) in
      case serialize_web_response_body body None of
        Inl e \<Rightarrow> (Inl e, r')
      | Inr (t, payload) \<Rightarrow> (Inr (), r'\<lparr>rs_body := payload, rs_committed := True\<rparr>))"

definition redirect :: "nat \<Rightarrow> string \<Rightarrow> http_response \<Rightarrow> http_response" where
  "redirect status location r =
     snd (send UndefinedResult (set_header ''Location'' (OneValue location) (set_status status r)))"

section \<open>Errors\<close>

fun to_http_exception :: "thrown \<Rightarrow> http_exception" where
  "to_http_exception (ThrownHttp e) = e"
| "to_http_exception (ThrownHandlerNotFound method path) = not_found_exception method path"
| "to_http_exception _ = internal_exception"

text \<open>The fields of the envelope; \<open>JSON.stringify\<close> leaves out those that are undefined.\<close>

definition json_field :: "string \<Rightarrow> json \<Rightarrow> string list" where
  "json_field name j =
     (case j of JsonText t \<Rightarrow> [json_quote name @ '':'' @ t] | _ \<Rightarrow> [])"

definition create_error_response :: "http_exception \<Rightarrow> string option \<Rightarrow> http_value" where
  "create_error_response e request_id =
     PlainObject
       (if he_details e = JsonThrows \<or> he_meta e = JsonThrows then JsonThrows
        else JsonText
          (''{'' @ json_quote ''error'' @ '':{'' @
           js_join '',''
             (json_field ''code'' (JsonText (json_quote (he_code e))) @
              json_field ''details'' (he_details e) @
              json_field ''message'' (JsonText (json_quote (he_message e))) @
              json_field ''meta'' (he_meta e) @
              json_field ''requestId''
                (case request_id of Some i \<Rightarrow> JsonText (json_quote i) | None \<Rightarrow> JsonUndefined) @
              json_field ''status'' (JsonText (decimal (he_status e)))) @
           ''}}''))"

definition write_error_response ::
  "thrown \<Rightarrow> string option \<Rightarrow> http_response \<Rightarrow> (thrown, unit) result \<times> http_response" where
  "write_error_response e request_id r =
     (if rs_committed r then (Inr (), r)
      else
        (let x = to_http_exception e in
         send (create_error_response x request_id) (set_status (he_status x) r)))"

section \<open>Successful results\<close>

text \<open>The settings of a route that only the response policy reads.\<close>

record response_settings =
  st_redirect :: "(string \<times> nat option) option"
  st_headers :: "(string \<times> string) list"
  st_success_status :: "nat option"

definition resolve_default_success_status :: "string \<Rightarrow> http_value \<Rightarrow> nat" where
  "resolve_default_success_status method value =
     (if method = ''POST'' then 201
      else if method = ''DELETE'' \<or> method = ''OPTIONS'' then
        (if value = UndefinedResult then 204 else 200)
      else 200)"

definition is_response_body_forbidden :: "nat option \<Rightarrow> bool" where
  "is_response_body_forbidden status = (status \<in> {Some 204, Some 205, Some 304})"

fun is_simple_json_response_body :: "http_value \<Rightarrow> bool" where
  "is_simple_json_response_body (PlainObject j) = True"
| "is_simple_json_response_body (ArrayResult j) = True"
| "is_simple_json_response_body _ = False"

definition read_response_header :: "(string, multi_value) js_map \<Rightarrow> string \<Rightarrow> string option" where
  "read_response_header hs name =
     (case List.find (\<lambda>(k, v). js_lower k = js_lower name) hs of
        Some (k, OneValue v) \<Rightarrow> Some v
      | _ \<Rightarrow> None)"

definition has_json_compatible_content_type :: "http_response \<Rightarrow> bool" where
  "has_json_compatible_content_type r =
     (case read_response_header (rs_headers r) ''content-type'' of
        None \<Rightarrow> True
      | Some t \<Rightarrow> js_includes ''application/json'' (js_lower t) \<or> js_ends_with (js_lower t) ''+json'')"

definition can_use_simple_json :: "http_response \<Rightarrow> http_value \<Rightarrow> bool" where
  "can_use_simple_json r value =
     (is_simple_json_response_body value \<and> \<not> is_response_body_forbidden (rs_status r) \<and>
      has_json_compatible_content_type r)"

text \<open>\<open>apply_format\<close> is what a formatter's \<open>format\<close> returns or throws.\<close>

definition write_success_response ::
  "(nat \<Rightarrow> http_value \<Rightarrow> (thrown, http_value) result) \<Rightarrow> route_definition \<Rightarrow> response_settings \<Rightarrow>
   http_request \<Rightarrow> http_value \<Rightarrow> negotiation option \<Rightarrow> http_response \<Rightarrow>
   (thrown, unit) result \<times> http_response" where
  "write_success_response apply_format route settings request value negotiation r =
     (if rs_committed r then (Inr (), r)
      else
        (case st_redirect settings of
           Some (url, status) \<Rightarrow>
             (Inr (), redirect (case status of Some s \<Rightarrow> s | None \<Rightarrow> 302) url r)
         | None \<Rightarrow>
             (case (case negotiation of
                      None \<Rightarrow> Inr None
                    | Some n \<Rightarrow>
                        (case select_response_formatter (rt_produces route) request n of
                           Inl NotAcceptable \<Rightarrow> Inl (ThrownHttp not_acceptable_exception)
                         | Inr f \<Rightarrow> Inr (Some f))) of
                Inl e \<Rightarrow> (Inl e, r)
              | Inr chosen \<Rightarrow>
                  (let r1 = fold (\<lambda>(n, v). set_header n (OneValue v)) (st_headers settings) r;
                       r2 = (case chosen of
                               None \<Rightarrow> r1
                             | Some f \<Rightarrow> set_header ''Content-Type'' (OneValue (fm_media_type f)) r1);
                       r3 = (case st_success_status settings of
                               Some s \<Rightarrow> set_status s r2
                             | None \<Rightarrow>
                                 if rs_status_set r2 then r2
                                 else set_status (resolve_default_success_status (rt_method route) value) r2) in
                   case chosen of
                     None \<Rightarrow>
                       if can_use_simple_json r3 value then send_simple_json value r3
                       else send value r3
                   | Some f \<Rightarrow>
                       (case apply_format (fm_format f) value of
                          Inl e \<Rightarrow> (Inl e, r3)
                        | Inr body \<Rightarrow> send body r3)))))"

end
