(* ===== verification/Dispatch_Plan.thy ===== *)
theory Dispatch_Plan
  imports Http_Response Container_Graph
begin

text \<open>
  What the dispatcher decides before it runs anything: which middleware is active for a path
  (\<open>packages/http/src/middleware/middleware.ts\<close>), the compiled plans that say whether a request
  needs a request scope (\<open>packages/http/src/dispatch/dispatcher.ts\<close>), and which handlers may take
  the fast path (\<open>packages/http/src/dispatch/fast-path\<close>).
\<close>

section \<open>The application\<close>

text \<open>A guard, interceptor, observer or middleware is an object or a token; middleware may also
  be bound to routes (\<open>forRoutes\<close>).\<close>

datatype component_ref = Instance js_value | ByToken token

datatype middleware_ref = Unrouted component_ref | Routed token "string list"

text \<open>
  What the numbers in a handler descriptor stand for. \<open>ap_arity\<close> is the \<open>length\<close> of the method on
  the controller's prototype, if it is a function. A DTO is a number; \<open>getCompiledDtoBindingPlan\<close>
  says whether one of its entries has a converter and whether it needs validation.
\<close>

record route_settings = response_settings +
  st_request :: "nat option"

record application =
  ap_mapping :: handler_mapping
  ap_app_middleware :: "middleware_ref list"
  ap_observers :: "component_ref list"
  ap_interceptors :: "component_ref list"
  ap_negotiation :: "negotiation_options option"
  ap_custom_binder :: bool
  ap_converters :: bool
  ap_error_handler :: bool
  ap_debug_headers :: bool
  ap_controller :: "nat \<Rightarrow> cls"
  ap_arity :: "nat \<Rightarrow> string \<Rightarrow> nat option"
  ap_component :: "nat \<Rightarrow> component_ref"
  ap_middleware :: "nat \<Rightarrow> middleware_ref"
  ap_settings :: "nat \<Rightarrow> route_settings"
  ap_dto_converter :: "nat \<Rightarrow> bool"
  ap_dto_validates :: "nat \<Rightarrow> bool"

definition controller_token :: "application \<Rightarrow> handler_descriptor \<Rightarrow> token" where
  "controller_token app d = TokClass (ap_controller app (hd_controller d))"

definition settings_of :: "application \<Rightarrow> handler_descriptor \<Rightarrow> route_settings" where
  "settings_of app d = ap_settings app (rt_rest (hd_route d))"

definition module_middleware :: "application \<Rightarrow> handler_descriptor \<Rightarrow> middleware_ref list" where
  "module_middleware app d = map (ap_middleware app) (hd_middleware d)"

definition route_guards :: "application \<Rightarrow> handler_descriptor \<Rightarrow> component_ref list" where
  "route_guards app d = map (ap_component app) (rt_guards (hd_route d))"

definition route_interceptors :: "application \<Rightarrow> handler_descriptor \<Rightarrow> component_ref list" where
  "route_interceptors app d = map (ap_component app) (rt_interceptors (hd_route d))"

section \<open>Route patterns\<close>

definition before_last_two :: "string \<Rightarrow> string" where
  "before_last_two s = take (length s - 2) s"

function normalize_route_pattern :: "string \<Rightarrow> string" where
  "normalize_route_pattern path =
     (if js_ends_with path ''/*'' then normalize_route_pattern (before_last_two path) @ ''/*''
      else normalize_route_path path)"
  by pat_completeness auto
termination
  by (relation "measure length") (auto simp: js_ends_with_def before_last_two_def)

declare normalize_route_pattern.simps [simp del]

definition match_route_pattern :: "string \<Rightarrow> string \<Rightarrow> bool" where
  "match_route_pattern pattern path =
     (let p = normalize_route_pattern path; q = normalize_route_pattern pattern in
      if js_ends_with q ''/*'' then
        p = before_last_two q \<or> js_starts_with p (before_last_two q @ ''/'')
      else p = q)"

section \<open>Which middleware is active\<close>

fun is_active :: "string \<Rightarrow> middleware_ref \<Rightarrow> bool" where
  "is_active path (Unrouted c) = True"
| "is_active path (Routed t routes) =
     (routes = [] \<or> list_ex (\<lambda>route. match_route_pattern route path) routes)"

definition active_middleware_may_require :: "middleware_ref list \<Rightarrow> string \<Rightarrow> bool" where
  "active_middleware_may_require ms path = list_ex (is_active path) ms"

record scope_plan =
  sp_always :: bool
  sp_conditional :: "middleware_ref list"

fun is_unconditional :: "middleware_ref \<Rightarrow> bool" where
  "is_unconditional (Unrouted c) = True"
| "is_unconditional (Routed t routes) = (routes = [])"

fun compile_scope_loop :: "middleware_ref list \<Rightarrow> middleware_ref list \<Rightarrow> scope_plan" where
  "compile_scope_loop [] conditional = \<lparr>sp_always = False, sp_conditional = conditional\<rparr>"
| "compile_scope_loop (m # ms) conditional =
     (if is_unconditional m then \<lparr>sp_always = True, sp_conditional = []\<rparr>
      else compile_scope_loop ms (conditional @ [m]))"

definition compile_middleware_scope_plan :: "middleware_ref list \<Rightarrow> scope_plan" where
  "compile_middleware_scope_plan ms = compile_scope_loop ms []"

definition compiled_middleware_may_require :: "scope_plan \<Rightarrow> string \<Rightarrow> bool" where
  "compiled_middleware_may_require plan path =
     (sp_always plan \<or> active_middleware_may_require (sp_conditional plan) path)"

section \<open>Handler plans\<close>

definition request_dto_may_require :: "application \<Rightarrow> handler_descriptor \<Rightarrow> bool" where
  "request_dto_may_require app d =
     (case st_request (settings_of app d) of
        None \<Rightarrow> False
      | Some dto \<Rightarrow> ap_converters app \<or> ap_custom_binder app \<or> ap_dto_converter app dto)"

definition handler_may_use_context :: "application \<Rightarrow> handler_descriptor \<Rightarrow> bool" where
  "handler_may_use_context app d =
     (case ap_arity app (hd_controller d) (hd_method_name d) of None \<Rightarrow> False | Some n \<Rightarrow> 2 \<le> n)"

definition merge_interceptors :: "component_ref list \<Rightarrow> component_ref list \<Rightarrow> component_ref list" where
  "merge_interceptors global route =
     (if global = [] then route else if route = [] then global else global @ route)"

record execution_plan =
  xp_interceptors :: "component_ref list"
  xp_scope :: scope_plan
  xp_requires :: bool
  xp_guards :: "component_ref list"

text \<open>\<open>verdict\<close> is the root container's \<open>hasRequestScopedDependency\<close>.\<close>

definition compile_handler_execution_plan ::
  "application \<Rightarrow> (token \<Rightarrow> bool) \<Rightarrow> handler_descriptor \<Rightarrow> execution_plan" where
  "compile_handler_execution_plan app verdict d =
     (let guards = route_guards app d;
          plan = compile_middleware_scope_plan (module_middleware app d);
          merged = merge_interceptors (ap_interceptors app) (route_interceptors app d) in
      \<lparr>xp_interceptors = merged, xp_scope = plan,
       xp_requires = (guards \<noteq> [] \<or> merged \<noteq> [] \<or> sp_always plan \<or> request_dto_may_require app d \<or>
                      handler_may_use_context app d \<or> verdict (controller_token app d)),
       xp_guards = guards\<rparr>)"

definition handler_may_require :: "execution_plan \<Rightarrow> string \<Rightarrow> bool" where
  "handler_may_require plan path =
     (xp_requires plan \<or> compiled_middleware_may_require (xp_scope plan) path)"

record start_plan =
  gp_scope :: scope_plan
  gp_requires :: bool

definition compile_dispatch_start_plan :: "application \<Rightarrow> start_plan" where
  "compile_dispatch_start_plan app =
     (let plan = compile_middleware_scope_plan (ap_app_middleware app) in
      \<lparr>gp_scope = plan, gp_requires = (ap_observers app \<noteq> [] \<or> sp_always plan)\<rparr>)"

definition dispatch_start_may_require :: "start_plan \<Rightarrow> string \<Rightarrow> bool" where
  "dispatch_start_may_require plan path =
     (gp_requires plan \<or> compiled_middleware_may_require (gp_scope plan) path)"

section \<open>The fast path\<close>

definition is_sse_route :: "handler_descriptor \<Rightarrow> bool" where
  "is_sse_route d =
     (case rt_produces (hd_route d) of
        None \<Rightarrow> False
      | Some ms \<Rightarrow> list_ex (\<lambda>m. js_starts_with (js_lower m) ''text/event-stream'') ms)"

definition determine_request_scope_requirement ::
  "application \<Rightarrow> (token \<Rightarrow> bool) \<Rightarrow> handler_descriptor \<Rightarrow> bool" where
  "determine_request_scope_requirement app verdict d =
     (if rt_guards (hd_route d) \<noteq> [] then True
      else if rt_interceptors (hd_route d) \<noteq> [] then True
      else if hd_middleware d \<noteq> [] then True
      else if request_dto_may_require app d then True
      else verdict (controller_token app d))"

definition determine_middleware_requirement :: "application \<Rightarrow> handler_descriptor \<Rightarrow> bool" where
  "determine_middleware_requirement app d = (ap_app_middleware app \<noteq> [] \<or> hd_middleware d \<noteq> [])"

record eligibility =
  el_fast :: bool
  el_fallback_reason :: "string option"
  el_has_pipe :: bool
  el_route_id :: string

definition blocking_reasons :: "application \<Rightarrow> (token \<Rightarrow> bool) \<Rightarrow> handler_descriptor \<Rightarrow> string list" where
  "blocking_reasons app verdict d =
     (let when = (\<lambda>b reason. if b then [reason] else []) in
      when (rt_guards (hd_route d) \<noteq> []) ''guards'' @
      when (rt_interceptors (hd_route d) \<noteq> [] \<or> ap_interceptors app \<noteq> []) ''interceptors'' @
      when (determine_request_scope_requirement app verdict d) ''request-scoped DI'' @
      when (determine_middleware_requirement app d) ''middleware'' @
      when (ap_observers app \<noteq> []) ''request observers'' @
      when (ap_error_handler app) ''custom error filter'' @
      when (ap_custom_binder app) ''custom binder'' @
      when (Option.bind (ap_negotiation app) no_formatters \<notin> {None, Some []}) ''content negotiation'' @
      when (is_sse_route d) ''SSE streaming'')"

definition compile_fast_path_eligibility ::
  "application \<Rightarrow> (token \<Rightarrow> bool) \<Rightarrow> handler_descriptor \<Rightarrow> eligibility" where
  "compile_fast_path_eligibility app verdict d =
     (let reasons = blocking_reasons app verdict d in
      \<lparr>el_fast = (reasons = []),
       el_fallback_reason =
         (if reasons = [] then None
          else Some (''Full path required due to: '' @ js_join '', '' reasons)),
       el_has_pipe = (st_request (settings_of app d) \<noteq> None),
       el_route_id = rt_method (hd_route d) @ '':'' @ rt_path (hd_route d)\<rparr>)"

text \<open>The value of the \<open>X-Fluo-Path\<close> header.\<close>

definition path_debug_header :: "eligibility \<Rightarrow> string" where
  "path_debug_header e =
     (if el_fast e then ''fast; route='' @ el_route_id e
      else ''full; route='' @ el_route_id e @ ''; reason='' @
        (case el_fallback_reason e of Some r \<Rightarrow> r | None \<Rightarrow> ''none''))"

record fast_path_stats =
  fs_fast :: nat
  fs_full :: nat
  fs_total :: nat
  fs_routes :: "eligibility list"

definition create_fast_path_stats :: "eligibility list \<Rightarrow> fast_path_stats" where
  "create_fast_path_stats es =
     (let fast = length (filter el_fast es) in
      \<lparr>fs_fast = fast, fs_full = length es - fast, fs_total = length es, fs_routes = es\<rparr>)"

text \<open>What \<open>createDispatcher\<close> compiles once. The execution plans and the eligibilities are attached
  to the descriptors of the mapping.\<close>

record dispatcher =
  dp_app :: application
  dp_negotiation :: "negotiation option"
  dp_start :: start_plan
  dp_plans :: "(handler_descriptor, execution_plan) js_map"
  dp_eligibility :: "(handler_descriptor, eligibility) js_map"
  dp_stats :: fast_path_stats

definition create_dispatcher :: "application \<Rightarrow> (token \<Rightarrow> bool) \<Rightarrow> dispatcher" where
  "create_dispatcher app verdict =
     (let ds = hm_descriptors (ap_mapping app);
          es = map (compile_fast_path_eligibility app verdict) ds in
      \<lparr>dp_app = app,
       dp_negotiation = resolve_content_negotiation (ap_negotiation app),
       dp_start = compile_dispatch_start_plan app,
       dp_plans = map (\<lambda>d. (d, compile_handler_execution_plan app verdict d)) ds,
       dp_eligibility = zip ds es,
       dp_stats = create_fast_path_stats es\<rparr>)"

end
