(* ===== verification/Sse.thy ===== *)
theory Sse
  imports Http_Response
begin

text \<open>
  \<open>packages/http/src/context/sse.ts\<close>: encoding of server-sent event frames, and \<open>SseResponse\<close>
  over the stream of the Web-standard response (\<open>WebResponseStream\<close> in
  \<open>packages/runtime/src/web.ts\<close>).
\<close>

section \<open>Frames\<close>

definition cr :: char where "cr = CHR 0x0D"
definition lf :: char where "lf = CHR 0x0A"

definition sanitize_sse_field :: "string \<Rightarrow> string" where
  "sanitize_sse_field value = filter (\<lambda>c. c \<noteq> lf) (filter (\<lambda>c. c \<noteq> cr) value)"

fun replace_crlf :: "string \<Rightarrow> string" where
  "replace_crlf (a # b # s) =
     (if a = cr \<and> b = lf then lf # replace_crlf s else a # replace_crlf (b # s))"
| "replace_crlf s = s"

definition split_sse_lines :: "string \<Rightarrow> string list" where
  "split_sse_lines value = js_split lf (map (\<lambda>c. if c = cr then lf else c) (replace_crlf value))"

definition to_sse_data_string :: "http_value \<Rightarrow> (thrown, string) result" where
  "to_sse_data_string v =
     (case v of
        UndefinedResult \<Rightarrow> Inr []
      | StringResult s \<Rightarrow> Inr s
      | _ \<Rightarrow> (case json_of v of JsonText t \<Rightarrow> Inr t | _ \<Rightarrow> Inl ThrownNotSerializable))"

definition encode_sse_comment :: "string \<Rightarrow> string" where
  "encode_sse_comment comment =
     js_join [lf] (map (\<lambda>line. if line = [] then '':'' else '': '' @ line) (split_sse_lines comment)) @
     [lf, lf]"

text \<open>\<open>sse_id\<close> is \<open>String(id)\<close>.\<close>

record sse_options =
  sse_event :: "string option"
  sse_id :: "string option"
  sse_retry :: "js_number option"

text \<open>
  \<open>String(n)\<close> of a number that is an integer: up to \<open>2 ^ 53\<close> its decimal digits, beyond it the number
  with the fewest significant digits that rounds to the same double, the nearest one
  first, and from \<open>10 ^ 21\<close> on with an exponent.
\<close>

definition nearest_double :: "nat \<Rightarrow> nat" where
  "nearest_double c =
     (if c < 2 ^ 53 then c
      else
        (let unit = 2 ^ (length (takeWhile (\<lambda>e. 2 ^ e \<le> c) [53..<1024]));
             q = c div unit; r = c mod unit in
         (if 2 * r > unit \<or> 2 * r = unit \<and> odd q then q + 1 else q) * unit))"

definition round_candidates :: "nat \<Rightarrow> nat \<Rightarrow> nat list" where
  "round_candidates n p =
     (let low = n div p * p in
      if low = n then [n] else if 2 * (n - low) \<le> p then [low, low + p] else [low + p, low])"

definition shortest_digits :: "nat \<Rightarrow> string" where
  "shortest_digits n =
     (case List.find (\<lambda>c. nearest_double c = n)
             (concat (map (\<lambda>j. round_candidates n (10 ^ j)) (rev [0..<length (decimal n)]))) of
        Some c \<Rightarrow> decimal c
      | None \<Rightarrow> decimal n)"

definition integer_text :: "nat \<Rightarrow> string" where
  "integer_text n =
     (if n < 2 ^ 53 then decimal n
      else
        (let digits = shortest_digits n;
             significant = rev (dropWhile (\<lambda>c. c = CHR ''0'') (rev digits)) in
         if length digits \<le> 21 then digits
         else take 1 significant @ (if length significant \<le> 1 then [] else ''.'' @ drop 1 significant) @
           ''e+'' @ decimal (length digits - 1)))"

definition retry_line :: "js_number option \<Rightarrow> string list" where
  "retry_line retry =
     (case retry of
        Some (Finite q) \<Rightarrow> if q \<ge> 0 then [''retry: '' @ integer_text (nat \<lfloor>q\<rfloor>)] else []
      | _ \<Rightarrow> [])"

definition encode_sse_message :: "http_value \<Rightarrow> sse_options \<Rightarrow> (thrown, string) result" where
  "encode_sse_message data opts =
     (case to_sse_data_string data of
        Inl e \<Rightarrow> Inl e
      | Inr text \<Rightarrow> Inr
          (js_join [lf]
             ((case sse_event opts of None \<Rightarrow> [] | Some v \<Rightarrow> [''event: '' @ sanitize_sse_field v]) @
              (case sse_id opts of None \<Rightarrow> [] | Some v \<Rightarrow> [''id: '' @ sanitize_sse_field v]) @
              retry_line (sse_retry opts) @
              map (\<lambda>line. ''data: '' @ line) (split_sse_lines text)) @ [lf, lf]))"

section \<open>The response stream\<close>

definition stream_activate :: "http_response \<Rightarrow> http_response" where
  "stream_activate r = r\<lparr>rs_stream_active := True\<rparr>"

text \<open>Returns whether the stream took the chunk.\<close>

definition stream_write :: "string \<Rightarrow> http_response \<Rightarrow> bool \<times> http_response" where
  "stream_write chunk r =
     (let r' = stream_activate r in
      if rs_stream_closed r' then (False, r')
      else (True, r'\<lparr>rs_frames := rs_frames r' @ [chunk]\<rparr>))"

definition stream_close :: "http_response \<Rightarrow> http_response" where
  "stream_close r = (stream_activate r)\<lparr>rs_stream_closed := True\<rparr>"

section \<open>SseResponse\<close>

text \<open>An \<open>SseResponse\<close> is the pair of its \<open>closed\<close> flag and the response; what it registers for
  the abort signal and the stream's end only closes it.\<close>

definition sse_close :: "bool \<times> http_response \<Rightarrow> bool \<times> http_response" where
  "sse_close st =
     (case st of (shut, r) \<Rightarrow>
        if shut then (True, r)
        else (True, (if rs_stream_closed r then r else stream_close r)\<lparr>rs_committed := True\<rparr>))"

definition sse_open :: "bool \<Rightarrow> http_response \<Rightarrow> bool \<times> http_response" where
  "sse_open aborted r =
     (let r1 = (if rs_status_set r then r else set_status 200 r);
          r2 = set_header ''Cache-Control'' (OneValue ''no-cache, no-transform'') r1;
          r3 = set_header ''Connection'' (OneValue ''keep-alive'') r2;
          r4 = set_header ''Content-Type'' (OneValue ''text/event-stream; charset=utf-8'') r3;
          r5 = set_header ''X-Accel-Buffering'' (OneValue ''no'') r4;
          r6 = stream_activate (r5\<lparr>rs_committed := True\<rparr>) in
      if aborted \<or> rs_stream_closed r6 then sse_close (False, r6) else (False, r6))"

definition sse_write_frame :: "string \<Rightarrow> bool \<times> http_response \<Rightarrow> bool \<times> bool \<times> http_response" where
  "sse_write_frame frame st =
     (case st of (shut, r) \<Rightarrow>
        if shut then (False, shut, r)
        else if rs_stream_closed r then (False, sse_close (shut, r))
        else (case stream_write frame r of (ok, r') \<Rightarrow> (ok, shut, r')))"

definition sse_send ::
  "http_value \<Rightarrow> sse_options \<Rightarrow> bool \<times> http_response \<Rightarrow> (thrown, bool) result \<times> bool \<times> http_response" where
  "sse_send data opts st =
     (case encode_sse_message data opts of
        Inl e \<Rightarrow> (Inl e, st)
      | Inr frame \<Rightarrow> (case sse_write_frame frame st of (ok, st') \<Rightarrow> (Inr ok, st')))"

section \<open>Managed streams\<close>

text \<open>
  What awaiting the next item of the handler's async iterable brings: an item (a plain value has
  no options), after which the client may have gone by the time the loop looks again; the
  iterable's error; or that the request was aborted or the stream closed first
  (\<open>Stopped True\<close>: aborted). When the list is used up, the iterable is done.
\<close>

datatype sse_item = Item http_value sse_options bool | Fails thrown | Stopped bool

record managed_sse =
  ms_response :: http_response
  ms_aborted :: bool
  ms_iterator_closed :: bool
  ms_result :: "(thrown, unit) result"

text \<open>\<open>onAbort\<close> closes the response as soon as the client goes. \<open>closeAsyncIteratorEventually\<close>
  is called in one place only.\<close>

fun sse_loop :: "sse_item list \<Rightarrow> bool \<Rightarrow> bool \<times> http_response \<Rightarrow> managed_sse" where
  "sse_loop items True st =
     \<lparr>ms_response = snd (sse_close st), ms_aborted = True, ms_iterator_closed = False, ms_result = Inr ()\<rparr>"
| "sse_loop [] False st =
     \<lparr>ms_response = snd (sse_close st), ms_aborted = False, ms_iterator_closed = False, ms_result = Inr ()\<rparr>"
| "sse_loop (Stopped gone # items) False st =
     \<lparr>ms_response = snd (sse_close st), ms_aborted = gone,
      ms_iterator_closed = True, ms_result = Inr ()\<rparr>"
| "sse_loop (Fails e # items) False st =
     \<lparr>ms_response = snd (sse_close st), ms_aborted = False, ms_iterator_closed = False, ms_result = Inl e\<rparr>"
| "sse_loop (Item v opts gone # items) False st =
     (case sse_send v opts st of
        (Inl e, st') \<Rightarrow>
          \<lparr>ms_response = snd (sse_close st'), ms_aborted = False, ms_iterator_closed = False, ms_result = Inl e\<rparr>
      | (Inr ok, st') \<Rightarrow> sse_loop items gone (if gone then sse_close st' else st'))"

definition write_managed_sse :: "sse_item list \<Rightarrow> bool \<Rightarrow> http_response \<Rightarrow> managed_sse" where
  "write_managed_sse items aborted r = sse_loop items aborted (sse_open aborted r)"

end
