(* ===== verification/Dispatch_State.thy ===== *)
theory Dispatch_State
  imports Dispatch_Plan Sse Container_World
begin

text \<open>
  The state of one dispatch, what application code can do to it, and the request context's
  \<open>container\<close>, which creates the request scope when it is first used
  (\<open>createDispatchContext\<close> in \<open>packages/http/src/dispatch/dispatcher.ts\<close>).
\<close>

section \<open>Application code\<close>

text \<open>
  Middleware, guards, interceptors, observers, handlers, binders and the error handler are code
  of the application. What such code does while it runs is a script: it returns or throws;
  continues the chain (\<open>next()\<close>, \<open>next.handle()\<close>) as often as it likes; resolves tokens from the
  request context's container or disposes it; writes to the response; opens an event stream;
  looks at the request and the response; rewrites the request's method and path; or waits
  while the client aborts. Each continuation gets what the step gave, errors included. A
  script is well-founded: application code that runs forever is not covered.
\<close>

datatype response_call =
    CallSetStatus nat
  | CallSetHeader string multi_value
  | CallRedirect nat string
  | CallSend http_value
  | CallOpenSse

record request_view =
  vw_request :: http_request
  vw_params :: "(string, string) js_map"
  vw_response :: http_response
  vw_aborted :: bool

datatype script =
    Finish http_value
  | Throw thrown
  | Continue "(thrown, http_value) result \<Rightarrow> script"
  | ResolveToken token "(thrown, js_value) result \<Rightarrow> script"
  | DisposeContainer "(thrown, unit) result \<Rightarrow> script"
  | Respond response_call "(thrown, unit) result \<Rightarrow> script"
  | Look "request_view \<Rightarrow> script"
  | Rewrite string string script
  | ClientAborts script

section \<open>Events\<close>

datatype observer_hook = OnStart | OnMatched | OnSuccess http_value | OnError thrown | OnFinish

datatype dispatch_event =
    Observed observer_hook js_value
  | MiddlewareEntered js_value
  | GuardAsked handler_descriptor js_value
  | GuardPassed handler_descriptor component_ref
  | InterceptorEntered js_value
  | DtoBound nat
  | HandlerCalled handler_descriptor js_value http_value
  | ErrorHandlerAsked thrown
  | TokenRequested nat token
  | ScopeOpened nat
  | ScopeReleased nat
  | FailureLogged thrown

text \<open>
  The code behind the names: each call yields a script, which may depend on everything that
  happened in the dispatch so far. A hook an observer lacks is \<open>Finish UndefinedResult\<close>.
  \<open>ac_has_method\<close> says whether the controller instance has the method; \<open>ac_prototype\<close> is the
  function under the method's name on the prototype of the class the handler was declared in,
  which the fast path reads once per handler.
\<close>

type_synonym method_code = "dispatch_event list \<Rightarrow> js_value \<Rightarrow> http_value \<Rightarrow> script"

record app_code =
  ac_env :: di_env
  ac_meta :: class_meta
  ac_middleware :: "dispatch_event list \<Rightarrow> js_value \<Rightarrow> script"
  ac_guard :: "dispatch_event list \<Rightarrow> js_value \<Rightarrow> script"
  ac_interceptor :: "dispatch_event list \<Rightarrow> js_value \<Rightarrow> script"
  ac_observer :: "dispatch_event list \<Rightarrow> observer_hook \<Rightarrow> js_value \<Rightarrow> script"
  ac_has_method :: "js_value \<Rightarrow> string \<Rightarrow> bool"
  ac_method :: "js_value \<Rightarrow> string \<Rightarrow> method_code"
  ac_prototype :: "handler_descriptor \<Rightarrow> method_code option"
  ac_bind :: "dispatch_event list \<Rightarrow> nat \<Rightarrow> script"
  ac_validate :: "dispatch_event list \<Rightarrow> nat \<Rightarrow> http_value \<Rightarrow> script"
  ac_on_error :: "dispatch_event list \<Rightarrow> thrown \<Rightarrow> script"
  ac_format :: "nat \<Rightarrow> http_value \<Rightarrow> (thrown, http_value) result"
  ac_items :: "dispatch_event list \<Rightarrow> nat \<Rightarrow> sse_item list"

section \<open>State\<close>

text \<open>
  \<open>ds_container\<close> and \<open>ds_request_scoped\<close> are \<open>dispatchScope\<close>; \<open>ds_promoted\<close> is what the context's
  \<open>container\<close> stands for once it is promoted; \<open>ds_open\<close> is \<open>containerPromotionOpen\<close>. A native
  handoff is the match with the method and path it was made for. \<open>ds_controllers\<close> is the
  dispatcher's cache of fast-path controllers, which outlives the dispatch.
\<close>

datatype controller_entry = ControllerReady js_value | ControllerRejected thrown

record dispatch_state =
  ds_world :: world
  ds_container :: nat
  ds_request_scoped :: bool
  ds_promoted :: "nat option"
  ds_open :: bool
  ds_request :: http_request
  ds_params :: "(string, string) js_map"
  ds_request_id :: "string option"
  ds_handoff :: "(handler_match \<times> string \<times> string) option"
  ds_aborted :: bool
  ds_response :: http_response
  ds_matched :: "handler_descriptor option"
  ds_controllers :: "(handler_descriptor, controller_entry) js_map"
  ds_log :: "dispatch_event list"

type_synonym 'a dispatch = "(dispatch_state, thrown, 'a) eff"

definition eff_try :: "'a dispatch \<Rightarrow> (thrown, 'a) result dispatch" where
  "eff_try m = (\<lambda>s. case m s of (r, s') \<Rightarrow> (Inr r, s'))"

definition eff_read :: "(dispatch_state \<Rightarrow> 'a dispatch) \<Rightarrow> 'a dispatch" where
  "eff_read f = (\<lambda>s. f s s)"

definition log_event :: "dispatch_event \<Rightarrow> unit dispatch" where
  "log_event e = eff_update (\<lambda>s. s\<lparr>ds_log := ds_log s @ [e]\<rparr>)"

section \<open>Containers\<close>

definition resolve_in :: "app_code \<Rightarrow> nat \<Rightarrow> token \<Rightarrow> js_value dispatch" where
  "resolve_in C c t =
     (\<lambda>s. case container_resolve (ac_env C) (ac_meta C) c t (ds_world s) of
            (r, w) \<Rightarrow>
              (case r of Inl e \<Rightarrow> Inl (ThrownByContainer e) | Inr v \<Rightarrow> Inr v,
               s\<lparr>ds_world := w, ds_log := ds_log s @ [TokenRequested c t]\<rparr>))"

text \<open>\<open>createRequestDispatchScope\<close>.\<close>

definition open_request_scope :: "unit dispatch" where
  "open_request_scope =
     (\<lambda>s. case create_request_scope 0 (ds_world s) of
            (Inl e, w) \<Rightarrow> (Inl (ThrownByContainer e), s\<lparr>ds_world := w\<rparr>)
          | (Inr c, w) \<Rightarrow>
              (Inr (), s\<lparr>ds_world := w, ds_container := c, ds_request_scoped := True,
                         ds_log := ds_log s @ [ScopeOpened c]\<rparr>))"

text \<open>Assigning to the context's \<open>container\<close> promotes it.\<close>

definition ensure_request_scope :: "unit dispatch" where
  "ensure_request_scope =
     eff_read (\<lambda>s.
       if ds_request_scoped s then eff_return ()
       else eff_bind open_request_scope
              (\<lambda>_. eff_update (\<lambda>s. s\<lparr>ds_promoted := Some (ds_container s)\<rparr>)))"

definition promote_on_container_access :: "nat dispatch" where
  "promote_on_container_access =
     eff_read (\<lambda>s.
       if \<not> ds_open s then eff_return (ds_container s)
       else eff_bind ensure_request_scope (\<lambda>_. eff_read (\<lambda>s. eff_return (ds_container s))))"

definition context_container :: "nat dispatch" where
  "context_container =
     eff_read (\<lambda>s.
       case ds_promoted s of
         Some c \<Rightarrow> eff_return c
       | None \<Rightarrow>
           eff_bind promote_on_container_access
             (\<lambda>c. eff_bind (eff_update (\<lambda>s. s\<lparr>ds_promoted := Some c\<rparr>)) (\<lambda>_. eff_return c)))"

definition context_resolve :: "app_code \<Rightarrow> token \<Rightarrow> js_value dispatch" where
  "context_resolve C t = eff_bind context_container (\<lambda>c. resolve_in C c t)"

text \<open>\<open>dispose\<close> of a container that was never promoted does nothing.\<close>

definition dispose_in :: "app_code \<Rightarrow> nat \<Rightarrow> unit dispatch" where
  "dispose_in C c =
     (\<lambda>s. case container_dispose (ac_env C) c (ds_world s) of
            (e, w) \<Rightarrow>
              (case e of None \<Rightarrow> Inr () | Some x \<Rightarrow> Inl (ThrownByContainer x), s\<lparr>ds_world := w\<rparr>))"

definition context_dispose :: "app_code \<Rightarrow> unit dispatch" where
  "context_dispose C =
     eff_read (\<lambda>s. case ds_promoted s of None \<Rightarrow> eff_return () | Some c \<Rightarrow> dispose_in C c)"

section \<open>Running application code\<close>

definition on_response :: "(http_response \<Rightarrow> (thrown, unit) result \<times> http_response) \<Rightarrow> unit dispatch" where
  "on_response f = (\<lambda>s. case f (ds_response s) of (x, r) \<Rightarrow> (x, s\<lparr>ds_response := r\<rparr>))"

fun call_response :: "response_call \<Rightarrow> bool \<Rightarrow> http_response \<Rightarrow> (thrown, unit) result \<times> http_response" where
  "call_response (CallSetStatus n) aborted r = (Inr (), set_status n r)"
| "call_response (CallSetHeader name v) aborted r = (Inr (), set_header name v r)"
| "call_response (CallRedirect n url) aborted r = (Inr (), redirect n url r)"
| "call_response (CallSend v) aborted r = send v r"
| "call_response CallOpenSse aborted r = (Inr (), snd (sse_open aborted r))"

definition view_of :: "dispatch_state \<Rightarrow> request_view" where
  "view_of s = \<lparr>vw_request = ds_request s, vw_params = ds_params s, vw_response = ds_response s,
                vw_aborted = ds_aborted s\<rparr>"

primrec run_script :: "app_code \<Rightarrow> http_value dispatch \<Rightarrow> script \<Rightarrow> http_value dispatch" where
  "run_script C next (Finish v) = eff_return v"
| "run_script C next (Throw e) = eff_throw e"
| "run_script C next (Continue k) = eff_bind (eff_try next) (\<lambda>r. run_script C next (k r))"
| "run_script C next (ResolveToken t k) =
     eff_bind (eff_try (context_resolve C t)) (\<lambda>r. run_script C next (k r))"
| "run_script C next (DisposeContainer k) =
     eff_bind (eff_try (context_dispose C)) (\<lambda>r. run_script C next (k r))"
| "run_script C next (Respond call k) =
     eff_bind (eff_try (eff_read (\<lambda>s. on_response (call_response call (ds_aborted s)))))
       (\<lambda>r. run_script C next (k r))"
| "run_script C next (Look k) = eff_read (\<lambda>s. run_script C next (k (view_of s)))"
| "run_script C next (Rewrite method path k) =
     eff_bind (eff_update (\<lambda>s. s\<lparr>ds_request := (ds_request s)\<lparr>rq_method := method, rq_path := path\<rparr>\<rparr>))
       (\<lambda>_. run_script C next k)"
| "run_script C next (ClientAborts k) =
     eff_bind (eff_update (\<lambda>s. s\<lparr>ds_aborted := True\<rparr>)) (\<lambda>_. run_script C next k)"

text \<open>Code that has nothing to continue, and code that reads the history first.\<close>

definition run_call :: "app_code \<Rightarrow> (dispatch_event list \<Rightarrow> script) \<Rightarrow> http_value dispatch" where
  "run_call C f = eff_read (\<lambda>s. run_script C (eff_return UndefinedResult) (f (ds_log s)))"

definition run_around :: "app_code \<Rightarrow> (dispatch_event list \<Rightarrow> script) \<Rightarrow> http_value dispatch \<Rightarrow> http_value dispatch" where
  "run_around C f next = eff_read (\<lambda>s. run_script C next (f (ds_log s)))"

definition resolve_component :: "app_code \<Rightarrow> component_ref \<Rightarrow> js_value dispatch" where
  "resolve_component C d = (case d of Instance v \<Rightarrow> eff_return v | ByToken t \<Rightarrow> context_resolve C t)"

end
