(* ===== verification/Dispatcher.thy ===== *)
theory Dispatcher
  imports Dispatch_State
begin

text \<open>
  The request lifecycle: \<open>packages/http/src/dispatch/dispatcher.ts\<close> with the guard, interceptor and
  middleware chains (\<open>guards.ts\<close>, \<open>interceptors.ts\<close>, \<open>middleware/middleware.ts\<close>), the handler
  call (\<open>dispatch-handler-policy.ts\<close>), the fast path (\<open>fast-path/fast-path-executor.ts\<close>), the
  native route handoff (\<open>native-route-handoff.ts\<close>) and the adapters' entry point
  (\<open>packages/runtime/src/adapters/request-response-factory.ts\<close>).
\<close>

section \<open>Chains\<close>

fun run_guard_chain :: "app_code \<Rightarrow> handler_descriptor \<Rightarrow> component_ref list \<Rightarrow> unit dispatch" where
  "run_guard_chain C h [] = eff_return ()"
| "run_guard_chain C h (d # ds) =
     eff_bind (resolve_component C d) (\<lambda>guard.
     eff_bind (log_event (GuardAsked h guard)) (\<lambda>_.
     eff_bind (run_call C (\<lambda>log. ac_guard C log guard)) (\<lambda>result.
       if result = BoolResult False then eff_throw (ThrownHttp forbidden_exception)
       else eff_bind (log_event (GuardPassed h d)) (\<lambda>_. run_guard_chain C h ds))))"

text \<open>The loop from the last interceptor to the first: it resolves each and wraps what is there.\<close>

definition call_interceptor :: "app_code \<Rightarrow> js_value \<Rightarrow> http_value dispatch \<Rightarrow> http_value dispatch" where
  "call_interceptor C v next =
     eff_bind (log_event (InterceptorEntered v)) (\<lambda>_. run_around C (\<lambda>log. ac_interceptor C log v) next)"

fun wrap_interceptors ::
  "app_code \<Rightarrow> component_ref list \<Rightarrow> http_value dispatch \<Rightarrow> (http_value dispatch) dispatch" where
  "wrap_interceptors C [] next = eff_return next"
| "wrap_interceptors C (d # ds) next =
     eff_bind (resolve_component C d) (\<lambda>v. wrap_interceptors C ds (call_interceptor C v next))"

definition run_interceptor_chain ::
  "app_code \<Rightarrow> component_ref list \<Rightarrow> http_value dispatch \<Rightarrow> http_value dispatch" where
  "run_interceptor_chain C ds terminal =
     (if ds = [] then terminal else eff_bind (wrap_interceptors C (rev ds) terminal) (\<lambda>next. next))"

fun resolve_active_middleware :: "app_code \<Rightarrow> string \<Rightarrow> middleware_ref list \<Rightarrow> js_value list dispatch" where
  "resolve_active_middleware C path [] = eff_return []"
| "resolve_active_middleware C path (m # ms) =
     (if is_active path m then
        eff_bind (case m of Unrouted d \<Rightarrow> resolve_component C d | Routed t routes \<Rightarrow> context_resolve C t)
          (\<lambda>v. eff_bind (resolve_active_middleware C path ms) (\<lambda>vs. eff_return (v # vs)))
      else resolve_active_middleware C path ms)"

definition call_middleware :: "app_code \<Rightarrow> js_value \<Rightarrow> http_value dispatch \<Rightarrow> http_value dispatch" where
  "call_middleware C v next =
     eff_bind (log_event (MiddlewareEntered v)) (\<lambda>_.
     eff_bind (run_around C (\<lambda>log. ac_middleware C log v) next) (\<lambda>_. eff_return UndefinedResult))"

definition run_middleware_chain ::
  "app_code \<Rightarrow> middleware_ref list \<Rightarrow> http_value dispatch \<Rightarrow> http_value dispatch" where
  "run_middleware_chain C ms terminal =
     (if ms = [] then terminal
      else eff_read (\<lambda>s.
        eff_bind (resolve_active_middleware C (rq_path (ds_request s)) ms)
          (\<lambda>vs. foldr (call_middleware C) vs terminal)))"

section \<open>Observers\<close>

fun notify_observers :: "app_code \<Rightarrow> observer_hook \<Rightarrow> component_ref list \<Rightarrow> unit dispatch" where
  "notify_observers C hook [] = eff_return ()"
| "notify_observers C hook (d # ds) =
     eff_bind (resolve_component C d) (\<lambda>observer.
     eff_bind (log_event (Observed hook observer)) (\<lambda>_.
     eff_bind (run_call C (\<lambda>log. ac_observer C log hook observer)) (\<lambda>_.
       notify_observers C hook ds)))"

text \<open>An error is logged and swallowed.\<close>

definition log_failure :: "unit dispatch \<Rightarrow> unit dispatch" where
  "log_failure m =
     eff_bind (eff_try m) (\<lambda>r. case r of Inl e \<Rightarrow> log_event (FailureLogged e) | Inr _ \<Rightarrow> eff_return ())"

definition notify_observers_safely :: "app_code \<Rightarrow> observer_hook \<Rightarrow> component_ref list \<Rightarrow> unit dispatch" where
  "notify_observers_safely C hook ds =
     (if ds = [] then eff_return () else log_failure (notify_observers C hook ds))"

section \<open>The handler\<close>

definition ensure_not_aborted :: "unit dispatch" where
  "ensure_not_aborted =
     eff_read (\<lambda>s. if ds_aborted s then eff_throw ThrownAborted else eff_return ())"

definition bind_input :: "application \<Rightarrow> app_code \<Rightarrow> handler_descriptor \<Rightarrow> http_value dispatch" where
  "bind_input app C d =
     (case st_request (settings_of app d) of
        None \<Rightarrow> eff_return UndefinedResult
      | Some dto \<Rightarrow>
          eff_bind (log_event (DtoBound dto)) (\<lambda>_.
          eff_bind (run_call C (\<lambda>log. ac_bind C log dto)) (\<lambda>input.
            if ap_dto_validates app dto
            then eff_bind (run_call C (\<lambda>log. ac_validate C log dto input)) (\<lambda>_. eff_return input)
            else eff_return input)))"

text \<open>The function the full path finds under the method's name on the controller, and the one
  the fast path calls: the declared class's own if its prototype has one, the controller's
  otherwise. Both are called with the controller as \<open>this\<close>.\<close>

definition own_method :: "app_code \<Rightarrow> handler_descriptor \<Rightarrow> js_value \<Rightarrow> method_code option" where
  "own_method C d controller =
     (if ac_has_method C controller (hd_method_name d) then Some (ac_method C controller (hd_method_name d))
      else None)"

definition fast_method :: "app_code \<Rightarrow> handler_descriptor \<Rightarrow> js_value \<Rightarrow> method_code option" where
  "fast_method C d controller =
     (case ac_prototype C d of Some f \<Rightarrow> Some f | None \<Rightarrow> own_method C d controller)"

definition call_handler ::
  "application \<Rightarrow> app_code \<Rightarrow> handler_descriptor \<Rightarrow> method_code option \<Rightarrow> js_value \<Rightarrow> http_value dispatch" where
  "call_handler app C d found controller =
     (case found of
        None \<Rightarrow> eff_throw ThrownMissingMethod
      | Some f \<Rightarrow>
          eff_bind (bind_input app C d) (\<lambda>input.
          eff_bind (log_event (HandlerCalled d controller input)) (\<lambda>_.
            run_call C (\<lambda>log. f log controller input))))"

definition invoke_controller_handler ::
  "application \<Rightarrow> app_code \<Rightarrow> handler_descriptor \<Rightarrow> nat \<Rightarrow> http_value dispatch" where
  "invoke_controller_handler app C d c =
     eff_bind (resolve_in C c (controller_token app d)) (\<lambda>controller.
       call_handler app C d (own_method C d controller) controller)"

text \<open>\<open>writeManagedSseIterable\<close> on an SSE route; true if it took the result.\<close>

definition write_managed_sse_iterable :: "app_code \<Rightarrow> handler_descriptor \<Rightarrow> nat \<Rightarrow> bool dispatch" where
  "write_managed_sse_iterable C d i =
     (if \<not> is_sse_route d then eff_return False
      else (\<lambda>s.
        let m = write_managed_sse (ac_items C (ds_log s) i) (ds_aborted s) (ds_response s) in
        (case ms_result m of Inl e \<Rightarrow> Inl e | Inr _ \<Rightarrow> Inr True,
         s\<lparr>ds_response := ms_response m, ds_aborted := ms_aborted m\<rparr>)))"

definition write_success :: "dispatcher \<Rightarrow> app_code \<Rightarrow> handler_descriptor \<Rightarrow> http_value \<Rightarrow> unit dispatch" where
  "write_success D C d result =
     eff_read (\<lambda>s.
       on_response
         (write_success_response (ac_format C) (hd_route d)
            (response_settings.truncate (settings_of (dp_app D) d)) (ds_request s) result (dp_negotiation D)))"

definition write_result :: "dispatcher \<Rightarrow> app_code \<Rightarrow> handler_descriptor \<Rightarrow> http_value \<Rightarrow> unit dispatch" where
  "write_result D C d result =
     eff_bind
       (case result of IterableResult i j \<Rightarrow> write_managed_sse_iterable C d i | _ \<Rightarrow> eff_return False)
       (\<lambda>taken. eff_read (\<lambda>s.
          if \<not> taken \<and> result \<noteq> SseResult \<and> \<not> rs_committed (ds_response s)
          then write_success D C d result else eff_return ()))"

definition dispatch_matched_handler ::
  "dispatcher \<Rightarrow> app_code \<Rightarrow> handler_descriptor \<Rightarrow> execution_plan \<Rightarrow> nat \<Rightarrow> unit dispatch" where
  "dispatch_matched_handler D C d plan c =
     eff_bind (run_guard_chain C d (xp_guards plan)) (\<lambda>_. eff_read (\<lambda>s.
       if rs_committed (ds_response s) then eff_return ()
       else
         eff_bind (run_interceptor_chain C (xp_interceptors plan)
                     (invoke_controller_handler (dp_app D) C d c)) (\<lambda>result.
         eff_bind ensure_not_aborted (\<lambda>_.
         eff_bind (write_result D C d result) (\<lambda>_.
           notify_observers_safely C (OnSuccess result) (ap_observers (dp_app D)))))))"

section \<open>The fast path\<close>

text \<open>The controller is resolved once per handler and dispatcher; the promise is kept, rejected or
  not.\<close>

definition fast_path_controller :: "app_code \<Rightarrow> handler_descriptor \<Rightarrow> token \<Rightarrow> js_value dispatch" where
  "fast_path_controller C d t =
     eff_read (\<lambda>s.
       case js_get (ds_controllers s) d of
         Some (ControllerReady v) \<Rightarrow> eff_return v
       | Some (ControllerRejected e) \<Rightarrow> eff_throw e
       | None \<Rightarrow>
           eff_bind (eff_try (resolve_in C (ds_container s) t)) (\<lambda>r.
             case r of
               Inr v \<Rightarrow>
                 eff_bind (eff_update (\<lambda>s. s\<lparr>ds_controllers := js_set d (ControllerReady v) (ds_controllers s)\<rparr>))
                   (\<lambda>_. eff_return v)
             | Inl e \<Rightarrow>
                 eff_bind (eff_update (\<lambda>s. s\<lparr>ds_controllers := js_set d (ControllerRejected e) (ds_controllers s)\<rparr>))
                   (\<lambda>_. eff_throw e)))"

definition run_fast_path :: "dispatcher \<Rightarrow> app_code \<Rightarrow> handler_descriptor \<Rightarrow> js_value \<Rightarrow> unit dispatch" where
  "run_fast_path D C d controller =
     eff_bind (call_handler (dp_app D) C d (fast_method C d controller) controller) (\<lambda>result.
     eff_bind ensure_not_aborted (\<lambda>_. eff_read (\<lambda>s.
       if result \<noteq> SseResult \<and> \<not> rs_committed (ds_response s) then write_success D C d result
       else eff_return ())))"

text \<open>\<open>executeFastPath\<close> returns the error in its result, and a falsy error is as good as none.\<close>

definition try_fast_path_execution :: "dispatcher \<Rightarrow> app_code \<Rightarrow> handler_descriptor \<Rightarrow> bool dispatch" where
  "try_fast_path_execution D C d =
     (case js_get (dp_eligibility D) d of
        None \<Rightarrow> eff_return False
      | Some e \<Rightarrow>
          if \<not> el_fast e then eff_return False
          else
            eff_bind (fast_path_controller C d (controller_token (dp_app D) d)) (\<lambda>controller.
            eff_bind (eff_try (run_fast_path D C d controller)) (\<lambda>r.
              case r of
                Inr _ \<Rightarrow> eff_return True
              | Inl x \<Rightarrow> if x = ThrownFalsy then eff_return False else eff_throw x)))"

definition should_use_fast_path :: "eligibility option \<Rightarrow> bool \<Rightarrow> bool" where
  "should_use_fast_path e aborted = (case e of None \<Rightarrow> False | Some x \<Rightarrow> el_fast x \<and> \<not> aborted)"

definition add_path_debug_header :: "dispatcher \<Rightarrow> handler_descriptor \<Rightarrow> unit dispatch" where
  "add_path_debug_header D d =
     eff_update (\<lambda>s.
       case js_get (dp_eligibility D) d of
         Some e \<Rightarrow>
           if ap_debug_headers (dp_app D) \<and> \<not> rs_committed (ds_response s)
           then s\<lparr>ds_response := set_header ''X-Fluo-Path'' (OneValue (path_debug_header e)) (ds_response s)\<rparr>
           else s
       | None \<Rightarrow> s)"

section \<open>The pipeline\<close>

definition match_handler_or_throw :: "handler_mapping \<Rightarrow> http_request \<Rightarrow> (thrown, handler_match) result" where
  "match_handler_or_throw m request =
     (case match_handler m request of
        Some found \<Rightarrow> Inr found
      | None \<Rightarrow> Inl (ThrownHandlerNotFound (rq_method request) (rq_path request)))"

text \<open>A native handoff counts only for the method and path it was made for.\<close>

definition read_native_handoff :: "dispatch_state \<Rightarrow> handler_match option" where
  "read_native_handoff s =
     (case ds_handoff s of
        None \<Rightarrow> None
      | Some (found, method, path) \<Rightarrow>
          if method \<noteq> rq_method (ds_request s) \<or> path \<noteq> rq_path (ds_request s) then None
          else Some found)"

definition match_route :: "dispatcher \<Rightarrow> handler_match dispatch" where
  "match_route D =
     eff_read (\<lambda>s.
       case read_native_handoff s of
         Some found \<Rightarrow> eff_return found
       | None \<Rightarrow> eff_lift (match_handler_or_throw (ap_mapping (dp_app D)) (ds_request s)))"

text \<open>A descriptor that is not of the mapping gets its plan when it is first used.\<close>

definition resolve_execution_plan ::
  "dispatcher \<Rightarrow> app_code \<Rightarrow> handler_descriptor \<Rightarrow> dispatch_state \<Rightarrow> execution_plan" where
  "resolve_execution_plan D C d s =
     (case js_get (dp_plans D) d of
        Some plan \<Rightarrow> plan
      | None \<Rightarrow>
          compile_handler_execution_plan (dp_app D)
            (has_request_scoped_dependency (ac_meta C) (lineage_at (ds_world s) 0)) d)"

definition dispatch_full_path :: "dispatcher \<Rightarrow> app_code \<Rightarrow> handler_descriptor \<Rightarrow> unit dispatch" where
  "dispatch_full_path D C d =
     eff_read (\<lambda>s.
       let plan = resolve_execution_plan D C d s in
       eff_bind (if handler_may_require plan (rq_path (ds_request s)) then ensure_request_scope
                 else eff_return ()) (\<lambda>_.
       eff_bind (notify_observers_safely C OnMatched (ap_observers (dp_app D))) (\<lambda>_.
       eff_bind (run_middleware_chain C (module_middleware (dp_app D) d)
                   (eff_read (\<lambda>s.
                      eff_bind (dispatch_matched_handler D C d plan (ds_container s))
                        (\<lambda>_. eff_return UndefinedResult)))) (\<lambda>_. eff_return ()))))"

definition dispatch_matched_route :: "dispatcher \<Rightarrow> app_code \<Rightarrow> unit dispatch" where
  "dispatch_matched_route D C =
     eff_read (\<lambda>s.
       if rs_committed (ds_response s) then eff_return ()
       else
         eff_bind (match_route D) (\<lambda>(d, params).
         eff_bind (eff_update (\<lambda>s. s\<lparr>ds_matched := Some d, ds_params := params\<rparr>)) (\<lambda>_.
         eff_bind (add_path_debug_header D d) (\<lambda>_. eff_read (\<lambda>s.
         eff_bind (if should_use_fast_path (js_get (dp_eligibility D) d) (ds_aborted s)
                   then try_fast_path_execution D C d else eff_return False) (\<lambda>fast.
           if fast then eff_return () else dispatch_full_path D C d))))))"

definition run_dispatch_pipeline :: "dispatcher \<Rightarrow> app_code \<Rightarrow> unit dispatch" where
  "run_dispatch_pipeline D C =
     eff_bind ensure_not_aborted (\<lambda>_.
     eff_bind (run_middleware_chain C (ap_app_middleware (dp_app D))
                 (eff_bind (dispatch_matched_route D C) (\<lambda>_. eff_return UndefinedResult)))
       (\<lambda>_. eff_return ()))"

fun is_truthy :: "http_value \<Rightarrow> bool" where
  "is_truthy UndefinedResult = False"
| "is_truthy (BoolResult b) = b"
| "is_truthy (StringResult s) = (s \<noteq> [])"
| "is_truthy _ = True"

definition handle_dispatch_error :: "dispatcher \<Rightarrow> app_code \<Rightarrow> thrown \<Rightarrow> unit dispatch" where
  "handle_dispatch_error D C e =
     eff_read (\<lambda>s.
       if e = ThrownAborted \<or> ds_aborted s then eff_return ()
       else
         eff_bind (notify_observers_safely C (OnError e) (ap_observers (dp_app D))) (\<lambda>_.
         eff_bind
           (if ap_error_handler (dp_app D)
            then eff_bind (log_event (ErrorHandlerAsked e)) (\<lambda>_. run_call C (\<lambda>log. ac_on_error C log e))
            else eff_return UndefinedResult) (\<lambda>handled.
           if is_truthy handled then eff_return ()
           else eff_read (\<lambda>s. on_response (write_error_response e (ds_request_id s))))))"

section \<open>Dispatching\<close>

text \<open>\<open>try { body } catch (e) { handler e } finally { final }\<close>, where \<open>final\<close> may throw too.\<close>

definition try_catch_finally ::
  "unit dispatch \<Rightarrow> (thrown \<Rightarrow> unit dispatch) \<Rightarrow> unit dispatch \<Rightarrow> unit dispatch" where
  "try_catch_finally body handler final =
     eff_bind (eff_try (eff_bind (eff_try body) (\<lambda>r. case r of Inl e \<Rightarrow> handler e | Inr _ \<Rightarrow> eff_return ())))
       (\<lambda>r. eff_bind final (\<lambda>_. eff_lift r))"

definition release_scope :: "app_code \<Rightarrow> unit dispatch" where
  "release_scope C =
     eff_bind (eff_update (\<lambda>s.
         (if ds_request_scoped s then s else s\<lparr>ds_promoted := Some (ds_container s)\<rparr>)\<lparr>ds_open := False\<rparr>)) (\<lambda>_.
     eff_read (\<lambda>s.
       if ds_request_scoped s
       then eff_bind (log_event (ScopeReleased (ds_container s)))
              (\<lambda>_. log_failure (dispose_in C (ds_container s)))
       else eff_return ()))"

definition read_request_id :: "http_request \<Rightarrow> string option \<Rightarrow> string option" where
  "read_request_id request given =
     (if given \<noteq> None \<and> given \<noteq> Some [] then given
      else
        (let raw = (case js_get (rq_headers request) ''x-request-id'' of
                      Some NoValue \<Rightarrow> header_property request ''X-Request-Id''
                    | Some v \<Rightarrow> v
                    | None \<Rightarrow> header_property request ''X-Request-Id'');
             value = (case raw of NoValue \<Rightarrow> None | OneValue v \<Rightarrow> Some v
                      | ManyValues [] \<Rightarrow> None | ManyValues (v # vs) \<Rightarrow> Some v) in
         case value of
           None \<Rightarrow> None
         | Some v \<Rightarrow> if js_trim v = [] then None else Some (js_trim v)))"

text \<open>
  What an adapter hands to the dispatcher: the request with its own request id, an optional
  native handoff, whether the abort signal has fired, and the response. The request scope, the
  world of containers and the controller cache are the dispatcher's.
\<close>

record incoming =
  in_request :: http_request
  in_request_id :: "string option"
  in_handoff :: "(handler_match \<times> string \<times> string) option"
  in_aborted :: bool
  in_response :: http_response

text \<open>\<open>createDispatchRequest\<close> reads the handoff and attaches it to the copy.\<close>

definition start_state ::
  "incoming \<Rightarrow> world \<Rightarrow> (handler_descriptor, controller_entry) js_map \<Rightarrow> dispatch_state" where
  "start_state req w cache =
     (let s = \<lparr>ds_world = w, ds_container = 0, ds_request_scoped = False, ds_promoted = None,
               ds_open = True, ds_request = in_request req, ds_params = [],
               ds_request_id = read_request_id (in_request req) (in_request_id req),
               ds_handoff = in_handoff req, ds_aborted = in_aborted req,
               ds_response = in_response req, ds_matched = None, ds_controllers = cache, ds_log = []\<rparr> in
      s\<lparr>ds_handoff := (case read_native_handoff s of
          None \<Rightarrow> None
        | Some found \<Rightarrow> Some (found, rq_method (in_request req), rq_path (in_request req)))\<rparr>)"

definition serve_request :: "dispatcher \<Rightarrow> app_code \<Rightarrow> unit dispatch" where
  "serve_request D C =
     (let observers = ap_observers (dp_app D) in
      try_catch_finally
        (eff_bind (notify_observers_safely C OnStart observers) (\<lambda>_. run_dispatch_pipeline D C))
        (handle_dispatch_error D C)
        (eff_bind (notify_observers_safely C OnFinish observers) (\<lambda>_. release_scope C)))"

definition dispatch :: "dispatcher \<Rightarrow> app_code \<Rightarrow> unit dispatch" where
  "dispatch D C =
     eff_read (\<lambda>s.
       eff_bind (if dispatch_start_may_require (dp_start D) (rq_path (ds_request s))
                 then open_request_scope else eff_return ())
         (\<lambda>_. serve_request D C))"

definition dispatch_native_fast_route :: "dispatcher \<Rightarrow> app_code \<Rightarrow> handler_match \<Rightarrow> bool dispatch" where
  "dispatch_native_fast_route D C found =
     eff_read (\<lambda>s.
       if \<not> should_use_fast_path (js_get (dp_eligibility D) (fst found)) (ds_aborted s) then eff_return False
       else
         eff_bind (add_path_debug_header D (fst found)) (\<lambda>_.
         eff_bind (eff_update (\<lambda>s. s\<lparr>ds_matched := Some (fst found), ds_params := snd found\<rparr>)) (\<lambda>_.
         eff_bind
           (try_catch_finally
              (eff_bind ensure_not_aborted (\<lambda>_.
               eff_bind (try_fast_path_execution D C (fst found)) (\<lambda>ok.
                 if ok then eff_return () else eff_throw ThrownNotFastPath)))
              (handle_dispatch_error (D\<lparr>dp_app := (dp_app D)\<lparr>ap_observers := []\<rparr>\<rparr>) C)
              (release_scope C)) (\<lambda>_. eff_return True))))"

text \<open>
  \<open>dispatchWithRequestResponseFactory\<close>: \<open>failed\<close> is what \<open>createRequest\<close> or \<open>materializeRequest\<close>
  threw, if they threw; without a dispatcher the request is refused.
\<close>

definition factory_write_error :: "thrown \<Rightarrow> string option \<Rightarrow> http_response \<Rightarrow> (thrown, unit) result \<times> http_response" where
  "factory_write_error e request_id r =
     (let x = (case e of ThrownHttp x \<Rightarrow> x | _ \<Rightarrow> internal_exception) in
      send (create_error_response x request_id) (set_status (he_status x) r))"

definition factory_attempt :: "dispatcher option \<Rightarrow> app_code \<Rightarrow> thrown option \<Rightarrow> unit dispatch" where
  "factory_attempt D C failed =
     eff_bind (case failed of Some e \<Rightarrow> eff_throw e | None \<Rightarrow> eff_return ()) (\<lambda>_.
       case D of
         None \<Rightarrow> eff_throw ThrownNotReady
       | Some dispatcher \<Rightarrow>
           eff_bind (dispatch dispatcher C) (\<lambda>_. eff_read (\<lambda>s.
             if rs_committed (ds_response s) then eff_return ()
             else on_response (send UndefinedResult))))"

definition dispatch_with_factory ::
  "dispatcher option \<Rightarrow> app_code \<Rightarrow> thrown option \<Rightarrow> string option \<Rightarrow> unit dispatch" where
  "dispatch_with_factory D C failed request_id =
     eff_bind (eff_try (factory_attempt D C failed)) (\<lambda>r.
       case r of
         Inr _ \<Rightarrow> eff_return ()
       | Inl e \<Rightarrow> eff_read (\<lambda>s.
           if ds_aborted s \<or> rs_committed (ds_response s) then eff_return ()
           else on_response (factory_write_error e request_id)))"

end
