(* ===== verification/Dispatch_Rules.thy ===== *)
theory Dispatch_Rules
  imports Dispatcher
begin

text \<open>
  How to prove something about every dispatch, whatever the application's code does: the
  locale \<open>dispatch_rules\<close> states what a property has to satisfy for the few primitive steps,
  and proves that the chains, the fast path, the pipeline and the error handling keep it.
\<close>

section \<open>Steps that keep a property\<close>

text \<open>\<open>I\<close> is an invariant and \<open>R\<close> relates the states before and after; \<open>P\<close> is what is known
  before.\<close>

definition keeps ::
  "(dispatch_state \<Rightarrow> bool) \<Rightarrow> (dispatch_state \<Rightarrow> dispatch_state \<Rightarrow> bool) \<Rightarrow>
   (dispatch_state \<Rightarrow> bool) \<Rightarrow> 'a dispatch \<Rightarrow> bool" where
  "keeps I R P m \<longleftrightarrow> (\<forall>s. I s \<longrightarrow> P s \<longrightarrow> I (snd (m s)) \<and> R s (snd (m s)))"

lemma keepsI:
  "(\<And>s. I s \<Longrightarrow> P s \<Longrightarrow> I (snd (m s)) \<and> R s (snd (m s))) \<Longrightarrow> keeps I R P m"
  by (simp add: keeps_def)

lemma keepsD:
  "keeps I R P m \<Longrightarrow> I s \<Longrightarrow> P s \<Longrightarrow> m s = (r, t) \<Longrightarrow> I t \<and> R s t"
  by (force simp: keeps_def)

lemma keeps_weaken: "keeps I R P m \<Longrightarrow> (\<And>s. Q s \<Longrightarrow> P s) \<Longrightarrow> keeps I R Q m"
  by (auto simp: keeps_def)

lemma keeps_try: "keeps I R P m \<Longrightarrow> keeps I R P (eff_try m)"
  by (auto simp: keeps_def eff_try_def split: prod.splits)

lemma keeps_read: "(\<And>s. I s \<Longrightarrow> P s \<Longrightarrow> keeps I R P (f s)) \<Longrightarrow> keeps I R P (eff_read f)"
  by (auto simp: keeps_def eff_read_def)

lemma keeps_read_at:
  "(\<And>s. I s \<Longrightarrow> P s \<Longrightarrow> Q s s \<and> keeps I R (Q s) (f s)) \<Longrightarrow> keeps I R P (eff_read f)"
  by (auto simp: keeps_def eff_read_def)

text \<open>A plain event: anything but a handler being called. A quiet update touches neither the
  containers nor the log, the handoff or the request's headers.\<close>

fun plain_event :: "dispatch_event \<Rightarrow> bool" where
  "plain_event (HandlerCalled d v x) = False"
| "plain_event _ = True"

definition quiet :: "dispatch_state \<Rightarrow> dispatch_state \<Rightarrow> bool" where
  "quiet s t \<longleftrightarrow>
     ds_world t = ds_world s \<and> ds_container t = ds_container s \<and>
     ds_request_scoped t = ds_request_scoped s \<and> ds_promoted t = ds_promoted s \<and>
     ds_open t = ds_open s \<and> ds_log t = ds_log s \<and> ds_handoff t = ds_handoff s \<and>
     rq_headers (ds_request t) = rq_headers (ds_request s)"

definition guards_passed :: "handler_descriptor \<Rightarrow> component_ref list \<Rightarrow> dispatch_state \<Rightarrow> bool" where
  "guards_passed h gs s \<longleftrightarrow> (\<forall>g \<in> set gs. GuardPassed h g \<in> set (ds_log s))"

definition with_event :: "dispatch_event \<Rightarrow> dispatch_state \<Rightarrow> dispatch_state" where
  "with_event e s = s\<lparr>ds_log := ds_log s @ [e]\<rparr>"

lemma eff_return_run: "eff_return a s = (Inr a, s)"
  by (simp add: eff_return_def)

lemma eff_bind_run:
  "m s = (x, t) \<Longrightarrow> eff_bind m f s = (case x of Inl e \<Rightarrow> (Inl e, t) | Inr a \<Rightarrow> f a t)"
  by (simp add: eff_bind_def split: sum.splits)

lemma eff_try_run: "m s = (x, t) \<Longrightarrow> eff_try m s = (Inr x, t)"
  by (simp add: eff_try_def)

lemma eff_read_run: "eff_read f s = f s s"
  by (simp add: eff_read_def)

lemmas eff_runs = eff_bind_run eff_try_run eff_read_run eff_return_run

lemma log_event_run [simp]: "log_event e s = (Inr (), with_event e s)"
  by (simp add: log_event_def with_event_def eff_defs)

lemma with_event_fields [simp]:
  "ds_log (with_event e s) = ds_log s @ [e]" "ds_world (with_event e s) = ds_world s"
  "ds_container (with_event e s) = ds_container s" "ds_promoted (with_event e s) = ds_promoted s"
  "ds_request_scoped (with_event e s) = ds_request_scoped s" "ds_open (with_event e s) = ds_open s"
  "ds_request (with_event e s) = ds_request s" "ds_handoff (with_event e s) = ds_handoff s"
  "ds_response (with_event e s) = ds_response s" "ds_aborted (with_event e s) = ds_aborted s"
  by (simp_all add: with_event_def)

text \<open>Everything of a request but the release of its scope.\<close>

definition serve_until_release :: "dispatcher \<Rightarrow> app_code \<Rightarrow> unit dispatch" where
  "serve_until_release D C =
     (let observers = ap_observers (dp_app D) in
      eff_bind (eff_try (eff_bind (eff_try
          (eff_bind (notify_observers_safely C OnStart observers) (\<lambda>_. run_dispatch_pipeline D C)))
          (\<lambda>r. case r of Inl e \<Rightarrow> handle_dispatch_error D C e | Inr _ \<Rightarrow> eff_return ())))
        (\<lambda>r. eff_bind (notify_observers_safely C OnFinish observers) (\<lambda>_. eff_lift r)))"

lemma log_failure_returns: "fst (log_failure m s) = Inr ()"
  by (auto simp: log_failure_def eff_defs eff_try_def with_event_def log_event_def split: prod.splits sum.splits)

lemma notify_safely_returns: "fst (notify_observers_safely C hook ds s) = Inr ()"
  by (simp add: notify_observers_safely_def log_failure_returns eff_return_run)

lemma release_scope_returns: "fst (release_scope C s) = Inr ()"
  by (auto simp: release_scope_def eff_defs eff_read_def with_event_def log_event_def log_failure_returns
      split: prod.splits sum.splits)

lemma serve_request_split:
  "serve_request D C s =
   (case serve_until_release D C s of (r, t) \<Rightarrow> (r, snd (release_scope C t)))"
proof -
  have rel: "release_scope C t = (Inr (), snd (release_scope C t))" for t
    using release_scope_returns [of C t] by (metis prod.collapse)
  have fin: "notify_observers_safely C h ds t = (Inr (), snd (notify_observers_safely C h ds t))" for h ds t
    using notify_safely_returns [of C h ds t] by (metis prod.collapse)
  show ?thesis
    unfolding serve_request_def serve_until_release_def try_catch_finally_def Let_def eff_bind_def eff_lift_def
    by (auto split: prod.splits sum.splits simp: eff_try_def) (metis fin rel old.prod.inject sum.inject(2) old.sum.distinct(1))+
qed

locale dispatch_rules =
  fixes app :: application
    and verdict :: "token \<Rightarrow> bool"
    and C :: app_code
    and I :: "dispatch_state \<Rightarrow> bool"
    and R :: "dispatch_state \<Rightarrow> dispatch_state \<Rightarrow> bool"
    and V :: "nat \<Rightarrow> dispatch_state \<Rightarrow> bool"
  assumes R_refl: "R s s"
    and R_trans: "R s t \<Longrightarrow> R t u \<Longrightarrow> R s u"
    and R_log: "R s t \<Longrightarrow> set (ds_log s) \<subseteq> set (ds_log t)"
    and R_usable: "R s t \<Longrightarrow> V c s \<Longrightarrow> V c t"
    and quiet_step: "I s \<Longrightarrow> quiet s t \<Longrightarrow> I t \<and> R s t"
    and event_step: "I s \<Longrightarrow> plain_event e \<Longrightarrow> I (with_event e s) \<and> R s (with_event e s)"
    and handler_step:
      "I s \<Longrightarrow> guards_passed d (route_guards app d) s \<Longrightarrow>
       I (with_event (HandlerCalled d v x) s) \<and> R s (with_event (HandlerCalled d v x) s)"
    and scope_step:
      "I s \<Longrightarrow> \<not> ds_request_scoped s \<Longrightarrow> I (snd (open_request_scope s)) \<and> R s (snd (open_request_scope s))"
    and promote_step:
      "I s \<Longrightarrow> ds_request_scoped s \<or> \<not> ds_open s \<Longrightarrow>
       I (s\<lparr>ds_promoted := Some (ds_container s)\<rparr>) \<and> R s (s\<lparr>ds_promoted := Some (ds_container s)\<rparr>)"
    and resolve_step: "I s \<Longrightarrow> V c s \<Longrightarrow> I (snd (resolve_in C c tok s)) \<and> R s (snd (resolve_in C c tok s))"
    and dispose_step:
      "I s \<Longrightarrow> ds_promoted s = Some c \<Longrightarrow> I (snd (dispose_in C c s)) \<and> R s (snd (dispose_in C c s))"
    and current_usable: "I s \<Longrightarrow> V (ds_container s) s"
    and promoted_usable: "I s \<Longrightarrow> ds_promoted s = Some c \<Longrightarrow> V c s"
begin

definition stable :: "(dispatch_state \<Rightarrow> bool) \<Rightarrow> bool" where
  "stable P \<longleftrightarrow> (\<forall>s t. R s t \<longrightarrow> P s \<longrightarrow> P t)"

lemma stable_intros [simp, intro]:
  "stable (\<lambda>_. True)" "stable (V c)" "stable (guards_passed h gs)"
  "stable P \<Longrightarrow> stable Q \<Longrightarrow> stable (\<lambda>s. P s \<and> Q s)"
  using R_usable R_log unfolding stable_def guards_passed_def by blast+

lemma keeps_bind_post:
  assumes "keeps I R P m" and "stable P"
    and "\<And>s a t. I s \<Longrightarrow> P s \<Longrightarrow> m s = (Inr a, t) \<Longrightarrow> Q a t"
    and "\<And>a. keeps I R (\<lambda>t. P t \<and> Q a t) (f a)"
  shows "keeps I R P (eff_bind m f)"
proof (rule keepsI)
  fix s
  assume s: "I s" "P s"
  obtain r t where run: "m s = (r, t)" by fastforce
  then have t: "I t" "R s t"
    using keepsD [OF assms(1) s] by blast+
  then have "P t"
    using assms(2) s(2) by (auto simp: stable_def)
  show "I (snd (eff_bind m f s)) \<and> R s (snd (eff_bind m f s))"
  proof (cases r)
    case (Inr a)
    then have "I (snd (f a t)) \<and> R t (snd (f a t))"
      using assms(4) [of a] assms(3) [OF s] run t(1) \<open>P t\<close> by (auto simp: keeps_def)
    then show ?thesis
      using Inr run t(2) R_trans by (auto simp: eff_bind_def)
  qed (use run t in \<open>simp add: eff_bind_def\<close>)
qed

lemma keeps_bind:
  "keeps I R P m \<Longrightarrow> stable P \<Longrightarrow> (\<And>a. keeps I R P (f a)) \<Longrightarrow> keeps I R P (eff_bind m f)"
  by (rule keeps_bind_post [where Q = "\<lambda>_ _. True"]) auto

lemma keeps_pure [simp, intro]:
  "keeps I R P (eff_return a)" "keeps I R P (eff_throw e)" "keeps I R P (eff_lift r)"
  by (auto simp: keeps_def eff_defs R_refl)

lemma keeps_quiet: "(\<And>s. quiet s (f s)) \<Longrightarrow> keeps I R P (eff_update f)"
  using quiet_step by (auto simp: keeps_def eff_defs)

lemma keeps_quiet_run: "(\<And>s. quiet s (snd (m s))) \<Longrightarrow> keeps I R P m"
  using quiet_step by (auto simp: keeps_def)

lemma keeps_event [simp, intro]: "plain_event e \<Longrightarrow> keeps I R P (log_event e)"
  using event_step by (auto simp: keeps_def)

lemma keeps_on_response [simp, intro]: "keeps I R P (on_response f)"
  by (rule keeps_quiet_run) (auto simp: on_response_def quiet_def split: prod.splits)

lemma keeps_ensure [simp, intro]: "stable P \<Longrightarrow> keeps I R P ensure_request_scope"
proof -
  have "keeps I R (\<lambda>s. \<not> ds_request_scoped s)
      (eff_bind open_request_scope (\<lambda>_. eff_update (\<lambda>s. s\<lparr>ds_promoted := Some (ds_container s)\<rparr>)))"
  proof (rule keepsI)
    fix s
    assume s: "I s" "\<not> ds_request_scoped s"
    obtain r t where run: "open_request_scope s = (r, t)" by fastforce
    have t: "I t" "R s t" and scoped: "r = Inr () \<Longrightarrow> ds_request_scoped t"
      using scope_step [OF s] run by (auto simp: open_request_scope_def split: prod.splits sum.splits)
    show "I (snd (eff_bind open_request_scope (\<lambda>_. eff_update (\<lambda>s. s\<lparr>ds_promoted := Some (ds_container s)\<rparr>)) s)) \<and>
      R s (snd (eff_bind open_request_scope (\<lambda>_. eff_update (\<lambda>s. s\<lparr>ds_promoted := Some (ds_container s)\<rparr>)) s))"
      using run t scoped promote_step [of t] R_trans by (cases r) (auto simp: eff_bind_def eff_update_def)
  qed
  then show ?thesis
    by (auto simp: ensure_request_scope_def keeps_def eff_read_def eff_return_def R_refl)
qed

lemma ensure_scoped:
  "ensure_request_scope s = (Inr u, t) \<Longrightarrow> ds_request_scoped t"
  by (auto simp: ensure_request_scope_def eff_read_def eff_defs open_request_scope_def
      split: if_splits prod.splits sum.splits)

lemma keeps_context [simp, intro]: "stable P \<Longrightarrow> keeps I R P context_container"
  and context_usable: "I s \<Longrightarrow> context_container s = (Inr c, t) \<Longrightarrow> V c t"
proof -
  have run: "(case context_container s of (r, t) \<Rightarrow> I t \<and> R s t \<and> (\<forall>c. r = Inr c \<longrightarrow> V c t))"
    if s: "I s" for s
  proof (cases "ds_promoted s")
    case (Some c)
    then show ?thesis
      using s promoted_usable by (auto simp: context_container_def eff_read_def eff_return_def R_refl)
  next
    case None
    show ?thesis
    proof (cases "ds_open s")
      case False
      then show ?thesis
        using s None promote_step [OF s] current_usable [OF s] R_usable
        by (auto simp: context_container_def promote_on_container_access_def eff_read_def eff_defs)
    next
      case True
      obtain r t where run: "ensure_request_scope s = (r, t)" by fastforce
      then have t: "I t" "R s t" and scoped: "r = Inr () \<Longrightarrow> ds_request_scoped t"
        using keepsD [OF keeps_ensure [of "\<lambda>_. True"] s] ensure_scoped by auto
      then have "r = Inr () \<Longrightarrow> V (ds_container t) (t\<lparr>ds_promoted := Some (ds_container t)\<rparr>)"
        using promote_step [OF t(1)] current_usable [OF t(1)] R_usable by blast
      then show ?thesis
        using None True run t scoped promote_step [OF t(1)] R_trans
        by (cases r) (auto simp: context_container_def promote_on_container_access_def eff_read_def eff_defs)
    qed
  qed
  then show "stable P \<Longrightarrow> keeps I R P context_container"
    by (force simp: keeps_def split: prod.splits)
  show "I s \<Longrightarrow> context_container s = (Inr c, t) \<Longrightarrow> V c t"
    using run [of s] by auto
qed

lemma keeps_resolve_in [intro]: "(\<And>s. P s \<Longrightarrow> V c s) \<Longrightarrow> keeps I R P (resolve_in C c t)"
  using resolve_step by (auto simp: keeps_def)

lemma keeps_context_resolve [simp, intro]: "stable P \<Longrightarrow> keeps I R P (context_resolve C t)"
  unfolding context_resolve_def
  by (rule keeps_bind_post [where Q = V]) (auto dest: context_usable)

lemma keeps_context_dispose [simp, intro]: "keeps I R P (context_dispose C)"
  using dispose_step
  by (auto simp: keeps_def context_dispose_def eff_read_def eff_return_def R_refl split: option.splits)

lemma keeps_script:
  assumes "stable P" and "keeps I R P next"
  shows "keeps I R P (run_script C next sc)"
proof (induction sc)
  case (Continue k)
  then show ?case
    using assms by (auto intro!: keeps_bind keeps_try)
next
  case (ResolveToken t k)
  then show ?case
    using assms by (auto intro!: keeps_bind keeps_try)
next
  case (DisposeContainer k)
  then show ?case
    using assms by (auto intro!: keeps_bind keeps_try)
next
  case (Respond call k)
  then show ?case
    using assms by (auto intro!: keeps_bind keeps_try keeps_read)
next
  case (Look k)
  then show ?case
    by (auto intro!: keeps_read)
next
  case (Rewrite meth path k)
  then show ?case
    using assms by (auto intro!: keeps_bind keeps_quiet simp: quiet_def)
next
  case (ClientAborts k)
  then show ?case
    using assms by (auto intro!: keeps_bind keeps_quiet simp: quiet_def)
qed auto

lemma keeps_call [simp, intro]: "stable P \<Longrightarrow> keeps I R P (run_call C f)"
  unfolding run_call_def by (intro keeps_read keeps_script) auto

lemma keeps_around: "stable P \<Longrightarrow> keeps I R P next \<Longrightarrow> keeps I R P (run_around C f next)"
  unfolding run_around_def by (intro keeps_read keeps_script)

lemma keeps_component [simp, intro]: "stable P \<Longrightarrow> keeps I R P (resolve_component C d)"
  by (auto simp: resolve_component_def split: component_ref.splits)

subsection \<open>Chains\<close>

lemma keeps_guard_chain: "stable P \<Longrightarrow> keeps I R P (run_guard_chain C h ds)"
  by (induction ds) (auto intro!: keeps_bind)

lemma guard_chain_passed:
  assumes "I s" and "run_guard_chain C h ds s = (Inr u, t)"
  shows "guards_passed h ds t"
  using assms
proof (induction ds arbitrary: s)
  case (Cons d ds)
  obtain g s1 where 1: "resolve_component C d s = (Inr g, s1)"
    using Cons.prems(2) by (auto simp: eff_bind_def split: prod.splits sum.splits)
  obtain r s2 where 2: "run_call C (\<lambda>log. ac_guard C log g) (with_event (GuardAsked h g) s1) = (Inr r, s2)"
    using Cons.prems(2) 1 by (auto simp: eff_bind_def split: prod.splits sum.splits)
  have run: "run_guard_chain C h ds (with_event (GuardPassed h d) s2) = (Inr u, t)"
    using Cons.prems(2) 1 2 by (auto simp: eff_bind_def eff_throw_def split: if_splits)
  have "I s1"
    using keepsD [OF keeps_component [of "\<lambda>_. True"] Cons.prems(1) _ 1] by simp
  then have "I (with_event (GuardAsked h g) s1)"
    using event_step by simp
  then have "I s2"
    using keepsD [OF keeps_call [of "\<lambda>_. True"] _ _ 2] by simp
  then have s3: "I (with_event (GuardPassed h d) s2)"
    using event_step by simp
  then have "R (with_event (GuardPassed h d) s2) t"
    using keepsD [OF keeps_guard_chain [of "\<lambda>_. True"] _ _ run] by simp
  from R_log [OF this] have "GuardPassed h d \<in> set (ds_log t)"
    by (auto simp: with_event_def)
  then show ?case
    using Cons.IH [OF s3 run] by (simp add: guards_passed_def)
qed (simp add: guards_passed_def)

lemma keeps_call_interceptor:
  "stable P \<Longrightarrow> keeps I R P next \<Longrightarrow> keeps I R P (call_interceptor C v next)"
  unfolding call_interceptor_def by (auto intro!: keeps_bind keeps_around)

lemma keeps_wrap:
  assumes "stable P" and "keeps I R P next"
  shows "keeps I R P (wrap_interceptors C ds next)"
    and "wrap_interceptors C ds next s = (Inr chain, t) \<Longrightarrow> keeps I R P chain"
proof -
  have "keeps I R P (wrap_interceptors C ds next) \<and>
      (\<forall>s chain t. wrap_interceptors C ds next s = (Inr chain, t) \<longrightarrow> keeps I R P chain)"
    using assms(2)
  proof (induction ds arbitrary: "next")
    case (Cons d ds)
    note IH = Cons.IH [OF keeps_call_interceptor [OF assms(1) Cons.prems]]
    show ?case
    proof (intro conjI allI impI)
      show "keeps I R P (wrap_interceptors C (d # ds) next)"
        using IH assms(1) by (auto intro!: keeps_bind)
    next
      fix s chain t
      assume "wrap_interceptors C (d # ds) next s = (Inr chain, t)"
      then obtain v s1 where "wrap_interceptors C ds (call_interceptor C v next) s1 = (Inr chain, t)"
        by (auto simp: eff_bind_def split: prod.splits sum.splits)
      then show "keeps I R P chain"
        using IH by blast
    qed
  qed (auto simp: eff_return_run)
  then show "keeps I R P (wrap_interceptors C ds next)"
    and "wrap_interceptors C ds next s = (Inr chain, t) \<Longrightarrow> keeps I R P chain"
    by blast+
qed

lemma keeps_interceptor_chain:
  assumes "stable P" and "keeps I R P next"
  shows "keeps I R P (run_interceptor_chain C ds next)"
proof -
  have "keeps I R P (eff_bind (wrap_interceptors C (rev ds) next) (\<lambda>chain. chain))"
  proof (rule keepsI)
    fix s
    assume s: "I s" "P s"
    obtain r t where run: "wrap_interceptors C (rev ds) next s = (r, t)" by fastforce
    have t: "I t" "R s t"
      using keepsD [OF keeps_wrap(1) [OF assms] s run] by blast+
    show "I (snd (eff_bind (wrap_interceptors C (rev ds) next) (\<lambda>chain. chain) s)) \<and>
        R s (snd (eff_bind (wrap_interceptors C (rev ds) next) (\<lambda>chain. chain) s))"
    proof (cases r)
      case (Inr chain)
      have "P t"
        using assms(1) s(2) t(2) by (auto simp: stable_def)
      with Inr run t keeps_wrap(2) [OF assms] have "I (snd (chain t)) \<and> R t (snd (chain t))"
        by (auto simp: keeps_def)
      then show ?thesis
        using Inr run R_trans [OF t(2)] by (simp add: eff_bind_def)
    qed (use run t in \<open>simp add: eff_bind_def\<close>)
  qed
  then show ?thesis
    using assms(2) by (simp add: run_interceptor_chain_def)
qed

lemma keeps_active_middleware: "stable P \<Longrightarrow> keeps I R P (resolve_active_middleware C path ms)"
  by (induction ms) (auto intro!: keeps_bind split: middleware_ref.splits)

lemma keeps_middleware_chain:
  assumes "stable P" and "keeps I R P next"
  shows "keeps I R P (run_middleware_chain C ms next)"
proof -
  have "keeps I R P (foldr (call_middleware C) vs next)" for vs
  proof (induction vs)
    case (Cons v vs)
    then show ?case
      using assms(1) by (auto simp: call_middleware_def intro!: keeps_bind keeps_around)
  qed (use assms in simp)
  then show ?thesis
    using assms by (auto simp: run_middleware_chain_def intro!: keeps_read keeps_bind keeps_active_middleware)
qed

subsection \<open>Observers and the handler\<close>

lemma keeps_notify: "stable P \<Longrightarrow> keeps I R P (notify_observers C hook ds)"
  by (induction ds) (auto intro!: keeps_bind)

lemma keeps_log_failure: "stable P \<Longrightarrow> keeps I R P m \<Longrightarrow> keeps I R P (log_failure m)"
  unfolding log_failure_def by (auto intro!: keeps_bind keeps_try split: sum.splits)

lemma keeps_notify_safely [simp, intro]: "stable P \<Longrightarrow> keeps I R P (notify_observers_safely C hook ds)"
  by (auto simp: notify_observers_safely_def intro!: keeps_log_failure keeps_notify)

lemma keeps_not_aborted [simp, intro]: "keeps I R P ensure_not_aborted"
  by (auto simp: ensure_not_aborted_def intro!: keeps_read)

lemma keeps_bind_input: "stable P \<Longrightarrow> keeps I R P (bind_input app' C d)"
  by (auto simp: bind_input_def intro!: keeps_bind split: option.splits)

lemma keeps_call_handler:
  assumes "stable P" and "\<And>s. P s \<Longrightarrow> guards_passed d (route_guards app d) s"
  shows "keeps I R P (call_handler app' C d found v)"
proof -
  have "keeps I R P (log_event (HandlerCalled d v x))" for x
    using handler_step assms(2) by (auto simp: keeps_def)
  then show ?thesis
    using assms(1) by (auto simp: call_handler_def intro!: keeps_bind keeps_bind_input split: option.splits)
qed

lemma keeps_write_result [simp, intro]: "stable P \<Longrightarrow> keeps I R P (write_result D C d result)"
proof -
  have "keeps I R P (write_managed_sse_iterable C d i)" for i
    by (rule keeps_quiet_run)
      (auto simp: write_managed_sse_iterable_def eff_return_def quiet_def Let_def)
  then show "stable P \<Longrightarrow> keeps I R P (write_result D C d result)"
    by (cases result)
      (auto simp: write_result_def write_success_def intro!: keeps_bind keeps_read)
qed

lemma keeps_matched_handler:
  assumes "xp_guards plan = route_guards app d"
  shows "keeps I R (V c) (dispatch_matched_handler D C d plan c)"
proof -
  let ?P = "\<lambda>t. V c t \<and> guards_passed d (route_guards app d) t"
  have "keeps I R ?P (run_interceptor_chain C (xp_interceptors plan) (invoke_controller_handler app' C d c))" for app'
    unfolding invoke_controller_handler_def
    by (intro keeps_interceptor_chain keeps_bind keeps_call_handler) auto
  then have "keeps I R ?P (if b then eff_return () else
      eff_bind (run_interceptor_chain C (xp_interceptors plan) (invoke_controller_handler (dp_app D) C d c))
        (\<lambda>result. eff_bind ensure_not_aborted (\<lambda>_. eff_bind (write_result D C d result) (\<lambda>_.
           notify_observers_safely C (OnSuccess result) (ap_observers (dp_app D))))))" for b
    by (auto intro!: keeps_bind)
  then show ?thesis
    unfolding dispatch_matched_handler_def
    by (intro keeps_bind_post [where Q = "\<lambda>_. guards_passed d (route_guards app d)"] keeps_read keeps_guard_chain)
      (auto simp: assms dest: guard_chain_passed)
qed

subsection \<open>The pipeline\<close>

lemma fast_no_guards:
  assumes "js_get (dp_eligibility (create_dispatcher app verdict)) d = Some e" and "el_fast e"
  shows "route_guards app d = []"
proof -
  let ?f = "compile_fast_path_eligibility app verdict"
  have "(d, e) \<in> set (zip (hm_descriptors (ap_mapping app)) (map ?f (hm_descriptors (ap_mapping app))))"
    using map_of_SomeD [OF assms(1) [unfolded create_dispatcher_def Let_def dispatcher.simps]] by simp
  then have "e = ?f d"
    by (auto simp: set_zip)
  then show ?thesis
    using assms(2)
    by (auto simp: compile_fast_path_eligibility_def blocking_reasons_def Let_def route_guards_def split: if_splits)
qed

lemma keeps_fast_controller: "keeps I R (\<lambda>_. True) (fast_path_controller C d t)"
  unfolding fast_path_controller_def
proof (rule keeps_read_at [where Q = "\<lambda>s. V (ds_container s)"])
  fix s
  assume "I s"
  then show "V (ds_container s) s \<and> keeps I R (V (ds_container s))
      (case js_get (ds_controllers s) d of
         Some (ControllerReady v) \<Rightarrow> eff_return v
       | Some (ControllerRejected e) \<Rightarrow> eff_throw e
       | None \<Rightarrow>
           eff_bind (eff_try (resolve_in C (ds_container s) t)) (\<lambda>r.
             case r of
               Inr v \<Rightarrow>
                 eff_bind (eff_update (\<lambda>s. s\<lparr>ds_controllers := js_set d (ControllerReady v) (ds_controllers s)\<rparr>))
                   (\<lambda>_. eff_return v)
             | Inl e \<Rightarrow>
                 eff_bind (eff_update (\<lambda>s. s\<lparr>ds_controllers := js_set d (ControllerRejected e) (ds_controllers s)\<rparr>))
                   (\<lambda>_. eff_throw e)))"
    using current_usable
    by (auto intro!: keeps_bind keeps_try keeps_quiet simp: quiet_def split: option.splits controller_entry.splits sum.splits)
qed

lemma keeps_fast_path:
  assumes "dp_eligibility D = dp_eligibility (create_dispatcher app verdict)"
  shows "keeps I R (\<lambda>_. True) (try_fast_path_execution D C d)"
proof (cases "js_get (dp_eligibility D) d")
  case (Some e)
  show ?thesis
  proof (cases "el_fast e")
    case True
    then have "guards_passed d (route_guards app d) s" for s
      using fast_no_guards Some assms by (simp add: guards_passed_def)
    then have "keeps I R (\<lambda>_. True) (run_fast_path D C d v)" for v
      by (auto simp: run_fast_path_def write_success_def intro!: keeps_bind keeps_call_handler keeps_read)
    then show ?thesis
      using Some True
      by (auto simp: try_fast_path_execution_def intro!: keeps_bind keeps_fast_controller keeps_try split: sum.splits)
  qed (use Some in \<open>simp add: try_fast_path_execution_def\<close>)
qed (simp add: try_fast_path_execution_def)

lemma dispatcher_app [simp]: "dp_app (create_dispatcher app verdict) = app"
  by (simp add: create_dispatcher_def Let_def)

lemma plan_guards:
  "xp_guards (resolve_execution_plan (create_dispatcher app verdict) C d s) = route_guards app d"
proof -
  have "map_of (map (\<lambda>d. (d, f d)) ds) d = Some x \<Longrightarrow> x = f d"
    for f :: "handler_descriptor \<Rightarrow> execution_plan" and ds x
    by (induction ds) (auto split: if_splits)
  then have "js_get (dp_plans (create_dispatcher app verdict)) d = Some x \<Longrightarrow>
      x = compile_handler_execution_plan app verdict d" for x
    by (simp add: create_dispatcher_def Let_def)
  then show ?thesis
    by (auto simp: resolve_execution_plan_def compile_handler_execution_plan_def Let_def split: option.splits)
qed

lemma keeps_full_path: "keeps I R (\<lambda>_. True) (dispatch_full_path (create_dispatcher app verdict) C d)"
  unfolding dispatch_full_path_def
proof (rule keeps_read)
  fix s
  let ?D = "create_dispatcher app verdict"
  let ?plan = "resolve_execution_plan ?D C d s"
  have "keeps I R (V (ds_container t))
      (eff_bind (dispatch_matched_handler ?D C d ?plan (ds_container t)) (\<lambda>_. eff_return UndefinedResult))" for t
    by (auto intro!: keeps_bind keeps_matched_handler simp: plan_guards)
  then have "keeps I R (\<lambda>_. True) (eff_read (\<lambda>t.
      eff_bind (dispatch_matched_handler ?D C d ?plan (ds_container t)) (\<lambda>_. eff_return UndefinedResult)))"
    by (intro keeps_read_at [where Q = "\<lambda>t. V (ds_container t)"]) (simp add: current_usable)
  then show "keeps I R (\<lambda>_. True) (let plan = ?plan in
       eff_bind (if handler_may_require plan (rq_path (ds_request s)) then ensure_request_scope
                 else eff_return ()) (\<lambda>_.
       eff_bind (notify_observers_safely C OnMatched (ap_observers (dp_app ?D))) (\<lambda>_.
       eff_bind (run_middleware_chain C (module_middleware (dp_app ?D) d)
                   (eff_read (\<lambda>s.
                      eff_bind (dispatch_matched_handler ?D C d plan (ds_container s))
                        (\<lambda>_. eff_return UndefinedResult)))) (\<lambda>_. eff_return ()))))"
    unfolding Let_def by (auto intro!: keeps_bind keeps_middleware_chain)
qed

lemma keeps_pipeline: "keeps I R (\<lambda>_. True) (run_dispatch_pipeline (create_dispatcher app verdict) C)"
proof -
  have "keeps I R (\<lambda>_. True) (match_route (create_dispatcher app verdict))"
    by (auto simp: match_route_def intro!: keeps_read split: option.splits)
  moreover have "keeps I R (\<lambda>_. True) (add_path_debug_header D d)" for D d
    unfolding add_path_debug_header_def by (rule keeps_quiet) (auto simp: quiet_def split: option.splits)
  moreover have "keeps I R (\<lambda>_. True) (eff_update (\<lambda>s. s\<lparr>ds_matched := Some d, ds_params := params\<rparr>))" for d params
    by (rule keeps_quiet) (simp add: quiet_def)
  ultimately have "keeps I R (\<lambda>_. True) (dispatch_matched_route (create_dispatcher app verdict) C)"
    unfolding dispatch_matched_route_def
    by (auto intro!: keeps_read keeps_bind keeps_fast_path keeps_full_path split: prod.splits)
  then show ?thesis
    unfolding run_dispatch_pipeline_def by (auto intro!: keeps_bind keeps_middleware_chain)
qed

lemma keeps_error: "keeps I R (\<lambda>_. True) (handle_dispatch_error D C e)"
  unfolding handle_dispatch_error_def by (auto intro!: keeps_read keeps_bind)

lemma keeps_served:
  "keeps I R (\<lambda>_. True) (serve_until_release (create_dispatcher app verdict) C)"
  unfolding serve_until_release_def Let_def
  by (auto intro!: keeps_bind keeps_try keeps_pipeline keeps_error split: sum.splits)

end

end
