(* ===== verification/Dispatch_Facts.thy ===== *)
theory Dispatch_Facts
  imports Dispatch_Rules Container_World_Facts
begin

text \<open>
  What every dispatch guarantees, whatever the application's code does: request scopes are
  released, handlers run only after their guards, the finish observers run last, and an
  adapter always has a response to write.
\<close>

section \<open>One container operation\<close>

lemma resolve_frame:
  assumes "world_ok w" and "c < length (wd_containers w)" and "container_resolve E M c t w = (r, w')"
  shows "wd_containers w' = wd_containers w"
    and "\<And>k v. read_slot k (wd_caches w) = Some (Settled v) \<Longrightarrow> read_slot k (wd_caches w') = Some (Settled v)"
    and "set (cs_children (wd_caches w')) - {c} = set (cs_children (wd_caches w)) - {c}"
proof -
  obtain s where run: "resolve E M (lineage_at w c) t (wd_caches w) = (r, s)" and w': "w' = w\<lparr>wd_caches := s\<rparr>"
    using assms(3) by (auto simp: container_resolve_def split: prod.splits)
  have idle: "idle_caches (wd_caches w)" and held: "held_by_tracked (wd_caches w)"
    using assms(1) by (simp_all add: world_ok_def)
  note lin = lineage_at_ok [OF assms(1,2)]
  have "extends (wd_caches w) s" and "grows c (wd_caches w) s"
    using resolve_keeps_caches(4) [OF lin(1) idle run] tracksD [OF tracks_resolve [OF lin(2)] held run]
    by blast+
  then show "wd_containers w' = wd_containers w"
    and "\<And>k v. read_slot k (wd_caches w) = Some (Settled v) \<Longrightarrow> read_slot k (wd_caches w') = Some (Settled v)"
    and "set (cs_children (wd_caches w')) - {c} = set (cs_children (wd_caches w)) - {c}"
    using w' by (auto simp: extends_def grows_def)
qed

lemma dispose_frame:
  assumes "world_ok w" and "0 < c" "c < length (wd_containers w)" and "container_dispose E c w = (e, w')"
  shows "length (wd_containers w') = length (wd_containers w)"
    and "\<And>i. i \<noteq> c \<Longrightarrow> wd_containers w' ! i = wd_containers w ! i"
    and "ct_ancestors (wd_containers w' ! c) = ct_ancestors (wd_containers w ! c)"
    and "ct_disposed (wd_containers w' ! c)"
    and "\<And>k. key_container k \<noteq> c \<Longrightarrow> read_slot k (wd_caches w') = read_slot k (wd_caches w)"
    and "\<And>k. key_container k = c \<Longrightarrow> read_slot k (wd_caches w') = None"
    and "set (cs_children (wd_caches w')) = set (cs_children (wd_caches w)) - {c}"
proof -
  have "ct_ancestors (wd_containers w ! c) \<noteq> []"
    using assms by (auto simp: world_ok_def container_at_ok_def)
  then have scope: "dispose_scope E c w = (e, w')"
    using assms(4) by (simp add: container_dispose_def)
  have "length (wd_containers w') = length (wd_containers w) \<and>
    (\<forall>i. i \<noteq> c \<longrightarrow> wd_containers w' ! i = wd_containers w ! i) \<and>
    ct_ancestors (wd_containers w' ! c) = ct_ancestors (wd_containers w ! c) \<and>
    ct_disposed (wd_containers w' ! c) \<and>
    (\<forall>k. read_slot k (wd_caches w') = (if key_container k = c then None else read_slot k (wd_caches w))) \<and>
    set (cs_children (wd_caches w')) = set (cs_children (wd_caches w)) - {c}"
  proof (cases "c \<in> set (wd_disposed w)")
    case True
    then have "w' = w" and "ct_disposed (wd_containers w ! c)" and gone: "c \<notin> set (cs_children (wd_caches w))"
      using scope assms(1) by (auto simp: dispose_scope_def world_ok_def)
    moreover have "read_slot k (wd_caches w) = None" if "key_container k = c" for k
      using assms(1,2) gone that by (fastforce simp: world_ok_def held_by_tracked_def)
    ultimately show ?thesis by auto
  next
    case False
    then obtain events where
        "wd_caches w' = (clear_disposal_caches c (wd_caches w))
           \<lparr>cs_children := removeAll c (cs_children (wd_caches w)), cs_log := cs_log (wd_caches w) @ events\<rparr>"
        and "wd_containers w' = wd_containers (mark_disposed c w)"
      using dispose_scope_spec [OF assms(1) _ scope] by blast
    moreover have "read_slot k (s\<lparr>cs_children := xs, cs_log := es\<rparr>) = read_slot k s" for k s xs es
      by (cases k) simp_all
    ultimately show ?thesis
      using assms(3) by (simp add: mark_disposed_containers read_clear_caches)
  qed
  then show "length (wd_containers w') = length (wd_containers w)"
    and "\<And>i. i \<noteq> c \<Longrightarrow> wd_containers w' ! i = wd_containers w ! i"
    and "ct_ancestors (wd_containers w' ! c) = ct_ancestors (wd_containers w ! c)"
    and "ct_disposed (wd_containers w' ! c)"
    and "\<And>k. key_container k \<noteq> c \<Longrightarrow> read_slot k (wd_caches w') = read_slot k (wd_caches w)"
    and "\<And>k. key_container k = c \<Longrightarrow> read_slot k (wd_caches w') = None"
    and "set (cs_children (wd_caches w')) = set (cs_children (wd_caches w)) - {c}"
    by simp_all
qed

section \<open>Request scopes\<close>

text \<open>How the hierarchy of a running dispatch differs from the hierarchy \<open>w\<close> it started in.\<close>

definition scoped_world :: "world \<Rightarrow> bool \<Rightarrow> world \<Rightarrow> bool" where
  "scoped_world w scoped w' \<longleftrightarrow>
     (let n = length (wd_containers w) in
      length (wd_containers w') = (if scoped then Suc n else n) \<and>
      (\<forall>i < n. wd_containers w' ! i = wd_containers w ! i) \<and>
      set (cs_children (wd_caches w')) - {n} = set (cs_children (wd_caches w)) \<and>
      (\<forall>k v. read_slot k (wd_caches w) = Some (Settled v) \<longrightarrow> read_slot k (wd_caches w') = Some (Settled v)))"

definition scope_inv :: "app_code \<Rightarrow> world \<Rightarrow> dispatch_state \<Rightarrow> bool" where
  "scope_inv C w s \<longleftrightarrow>
     world_ok w \<and> di_reachable (ac_env C) (ac_meta C) (ds_world s) \<and>
     scoped_world w (ds_request_scoped s) (ds_world s) \<and> ds_open s \<and>
     ds_container s = (if ds_request_scoped s then length (wd_containers w) else 0) \<and>
     (\<forall>c. ds_promoted s = Some c \<longrightarrow> ds_request_scoped s \<and> c = ds_container s)"

definition scope_rel :: "dispatch_state \<Rightarrow> dispatch_state \<Rightarrow> bool" where
  "scope_rel s t \<longleftrightarrow>
     set (ds_log s) \<subseteq> set (ds_log t) \<and> (ds_request_scoped s \<longrightarrow> ds_request_scoped t)"

definition scope_usable :: "world \<Rightarrow> nat \<Rightarrow> dispatch_state \<Rightarrow> bool" where
  "scope_usable w c s \<longleftrightarrow> c = 0 \<or> (c = length (wd_containers w) \<and> ds_request_scoped s)"

lemma world_ok_pos: "world_ok w \<Longrightarrow> 0 < length (wd_containers w)"
  by (auto simp: world_ok_def)

lemma world_ok_slot:
  "world_ok w \<Longrightarrow> read_slot k (wd_caches w) \<noteq> None \<Longrightarrow> key_container k < length (wd_containers w)"
  unfolding world_ok_def held_by_tracked_def by (metis length_greater_0_conv)

lemma scoped_world_open:
  assumes "scoped_world w False (ds_world s)" and "world_ok w" and "\<not> ds_request_scoped s"
    and "open_request_scope s = (r, t)"
  shows "scoped_world w (ds_request_scoped t) (ds_world t) \<and>
    (ds_request_scoped t \<longrightarrow> ds_container t = length (wd_containers w)) \<and>
    (\<not> ds_request_scoped t \<longrightarrow> ds_container t = ds_container s) \<and>
    ds_promoted t = ds_promoted s \<and> ds_open t = ds_open s \<and>
    ds_world t = snd (create_request_scope 0 (ds_world s))"
proof (cases "is_disposed_in_hierarchy (lineage_at (ds_world s) 0)")
  case True
  then show ?thesis
    using assms by (auto simp: open_request_scope_def create_request_scope_def)
next
  case False
  let ?n = "length (wd_containers w)"
  have len: "length (wd_containers (ds_world s)) = ?n"
    using assms(1) by (simp add: scoped_world_def Let_def)
  obtain ct where "create_request_scope 0 (ds_world s) =
      (Inr ?n, (ds_world s)\<lparr>wd_containers := wd_containers (ds_world s) @ [ct]\<rparr>)"
    using False len by (simp add: create_request_scope_def Let_def)
  then show ?thesis
    using assms(1,4) len by (auto simp: open_request_scope_def scoped_world_def Let_def nth_append)
qed

lemma scope_inv_resolve:
  assumes "scope_inv C w s" and "scope_usable w c s"
  shows "scope_inv C w (snd (resolve_in C c t s)) \<and> scope_rel s (snd (resolve_in C c t s))"
proof -
  obtain r w' where run: "container_resolve (ac_env C) (ac_meta C) c t (ds_world s) = (r, w')"
    by fastforce
  have reach: "di_reachable (ac_env C) (ac_meta C) (ds_world s)" and w: "world_ok w"
    and scoped: "scoped_world w (ds_request_scoped s) (ds_world s)"
    using assms(1) by (simp_all add: scope_inv_def)
  have c: "c < length (wd_containers (ds_world s))"
    using assms(2) scoped world_ok_pos [OF w] by (auto simp: scope_usable_def scoped_world_def Let_def split: if_splits)
  note ok = di_reachable_ok [OF reach]
  note frame = resolve_frame [OF ok c run]
  have "di_reachable (ac_env C) (ac_meta C) w'"
    using reach_step [OF reach step_resolve [OF c, of _ _ t]] run by simp
  moreover have "scoped_world w (ds_request_scoped s) w'"
  proof -
    have "0 \<notin> set (cs_children (wd_caches (ds_world s)))" and "0 \<notin> set (cs_children (wd_caches w'))"
      using ok di_reachable_ok [OF calculation] by (auto simp: world_ok_def)
    then show ?thesis
      using scoped frame assms(2) unfolding scoped_world_def Let_def scope_usable_def by auto
  qed
  ultimately show ?thesis
    using assms(1) run by (auto simp: resolve_in_def scope_inv_def scope_rel_def)
qed

lemma scope_dispose:
  assumes "scoped_world w True w0" and "world_ok w" and "di_reachable (ac_env C) (ac_meta C) w0"
    and "container_dispose (ac_env C) (length (wd_containers w)) w0 = (e, w')"
  shows "scoped_world w True w'" and "di_reachable (ac_env C) (ac_meta C) w'"
    and "ct_disposed (wd_containers w' ! length (wd_containers w))"
    and "length (wd_containers w) \<notin> set (cs_children (wd_caches w'))"
    and "\<And>k. key_container k = length (wd_containers w) \<Longrightarrow> read_slot k (wd_caches w') = None"
proof -
  let ?n = "length (wd_containers w)"
  have n: "0 < ?n" "?n < length (wd_containers w0)"
    using assms(1) world_ok_pos [OF assms(2)] by (auto simp: scoped_world_def Let_def)
  note frame = dispose_frame [OF di_reachable_ok [OF assms(3)] n assms(4)]
  have "key_container k \<noteq> ?n" if "read_slot k (wd_caches w) = Some (Settled v)" for k v
    using world_ok_slot [OF assms(2), of k] that by auto
  then show "scoped_world w True w'"
    using assms(1) frame unfolding scoped_world_def Let_def by auto
  show "di_reachable (ac_env C) (ac_meta C) w'"
    using reach_step [OF assms(3) step_dispose [OF n(2)]] assms(4) by simp
  show "ct_disposed (wd_containers w' ! ?n)" and "?n \<notin> set (cs_children (wd_caches w'))"
    and "\<And>k. key_container k = ?n \<Longrightarrow> read_slot k (wd_caches w') = None"
    using frame by auto
qed

interpretation scopes: dispatch_rules app verdict C "scope_inv C w" scope_rel "scope_usable w"
  for app verdict C w
proof (unfold_locales, goal_cases)
  case (5 s t)
  then show ?case
    by (auto simp: scope_inv_def scope_rel_def quiet_def)
next
  case (8 s)
  then have s: "world_ok w" "scoped_world w False (ds_world s)" "ds_container s = 0"
      "ds_promoted s = None" "ds_open s" "di_reachable (ac_env C) (ac_meta C) (ds_world s)"
    by (auto simp: scope_inv_def)
  obtain r t where run: "open_request_scope s = (r, t)" by fastforce
  have "0 < length (wd_containers (ds_world s))"
    using world_ok_pos [OF di_reachable_ok [OF s(6)]] .
  then have "di_reachable (ac_env C) (ac_meta C) (snd (create_request_scope 0 (ds_world s)))"
    using reach_step [OF s(6) step_scope] by blast
  moreover have "set (ds_log s) \<subseteq> set (ds_log t)"
    using run by (auto simp: open_request_scope_def split: prod.splits sum.splits)
  moreover note opened = scoped_world_open [OF s(2,1) 8(2) run]
  moreover have "ds_world t = snd (create_request_scope 0 (ds_world s))"
    using opened by blast
  ultimately show ?case
    using s run 8(2) by (auto simp: scope_inv_def scope_rel_def)
next
  case (10 s c tok)
  then show ?case by (rule scope_inv_resolve)
next
  case (11 s c)
  then have scoped: "ds_request_scoped s" "c = length (wd_containers w)" "scoped_world w True (ds_world s)"
      "world_ok w" "di_reachable (ac_env C) (ac_meta C) (ds_world s)"
    by (auto simp: scope_inv_def)
  obtain e w' where run: "container_dispose (ac_env C) (length (wd_containers w)) (ds_world s) = (e, w')"
    by fastforce
  then have disposed: "snd (dispose_in C c s) = s\<lparr>ds_world := w'\<rparr>"
    unfolding dispose_in_def scoped(2) by simp
  have "scoped_world w (ds_request_scoped s) w'" and "di_reachable (ac_env C) (ac_meta C) w'"
    using scope_dispose(1,2) [OF scoped(3-5) run] scoped(1) by simp_all
  then have "scope_inv C w (s\<lparr>ds_world := w'\<rparr>)"
    using 11(1) unfolding scope_inv_def by (elim conjE, intro conjI) simp_all
  then show ?case
    unfolding disposed by (simp add: scope_rel_def)
qed (auto simp: scope_inv_def scope_rel_def scope_usable_def)

text \<open>The release at the end of a dispatch.\<close>

lemma release_scope_done:
  assumes "scope_inv C w s" and "release_scope C s = (r, t)"
  shows "di_reachable (ac_env C) (ac_meta C) (ds_world t) \<and>
    scoped_world w (ds_request_scoped s) (ds_world t) \<and>
    (ds_request_scoped s \<longrightarrow>
       ct_disposed (wd_containers (ds_world t) ! length (wd_containers w)) \<and>
       length (wd_containers w) \<notin> set (cs_children (wd_caches (ds_world t))) \<and>
       (\<forall>k. key_container k = length (wd_containers w) \<longrightarrow> read_slot k (wd_caches (ds_world t)) = None))"
proof (cases "ds_request_scoped s")
  case False
  then show ?thesis
    using assms by (auto simp: release_scope_def scope_inv_def eff_defs eff_read_def)
next
  case True
  then have s: "ds_container s = length (wd_containers w)" "scoped_world w True (ds_world s)" "world_ok w"
      "di_reachable (ac_env C) (ac_meta C) (ds_world s)"
    using assms(1) by (auto simp: scope_inv_def)
  obtain e w' where run: "container_dispose (ac_env C) (length (wd_containers w)) (ds_world s) = (e, w')"
    by fastforce
  have "ds_world t = w'"
    using assms(2) True s(1) run
    by (auto simp: release_scope_def log_failure_def eff_try_def dispose_in_def eff_defs eff_read_def
        log_event_def with_event_def split: option.splits)
  then show ?thesis
    using scope_dispose [OF s(2-4) run] True by simp
qed

lemma scope_inv_start:
  assumes "di_reachable (ac_env C) (ac_meta C) w"
  shows "scope_inv C w (start_state req w cache)"
proof -
  have "length (wd_containers w) \<notin> set (cs_children (wd_caches w))"
    using di_reachable_ok [OF assms] by (auto simp: world_ok_def)
  then show ?thesis
    using assms di_reachable_ok [OF assms]
    by (auto simp: scope_inv_def start_state_def Let_def scoped_world_def)
qed

text \<open>The states a dispatch passes: after its scope was opened, if it needs one, and before the
  release.\<close>

lemma dispatch_split:
  assumes "dispatch D C s = (r, t)"
  shows "(\<exists>e. open_request_scope s = (Inl e, t) \<and> r = Inl e) \<or>
    (\<exists>s1 u. (s1 = s \<or> open_request_scope s = (Inr (), s1)) \<and>
       serve_until_release D C s1 = (r, u) \<and> t = snd (release_scope C u))"
proof -
  have "serve_request D C s1 = (r, t) \<Longrightarrow>
      \<exists>u. serve_until_release D C s1 = (r, u) \<and> t = snd (release_scope C u)" for s1
    by (auto simp: serve_request_split split: prod.splits)
  then show ?thesis
    using assms
    by (cases "open_request_scope s"; cases "fst (open_request_scope s)")
      (auto simp: dispatch_def eff_read_def eff_bind_def eff_return_run split: if_splits)
qed

text \<open>C3. A dispatch leaves no request scope behind. Whatever middleware, guards, interceptors,
  observers, handlers and the error handler do (return, throw, resolve from the container or
  dispose it, never continue or continue twice), and whether the dispatch succeeds, fails or is
  aborted: afterwards the hierarchy of containers is a reachable one, its old containers are as
  they were, at most one scope was created, and that scope is disposed, no longer tracked and
  holds no instance; every instance that was cached before still is.\<close>

theorem dispatch_releases_scope:
  assumes "di_reachable (ac_env C) (ac_meta C) w"
    and "dispatch (create_dispatcher app verdict) C (start_state req w cache) = (r, s)"
  shows "di_reachable (ac_env C) (ac_meta C) (ds_world s) \<and>
    length (wd_containers (ds_world s)) \<le> Suc (length (wd_containers w)) \<and>
    (\<forall>i < length (wd_containers w). wd_containers (ds_world s) ! i = wd_containers w ! i) \<and>
    (\<forall>c. length (wd_containers w) \<le> c \<and> c < length (wd_containers (ds_world s)) \<longrightarrow>
       ct_disposed (wd_containers (ds_world s) ! c) \<and>
       (\<forall>k. key_container k = c \<longrightarrow> read_slot k (wd_caches (ds_world s)) = None)) \<and>
    set (cs_children (wd_caches (ds_world s))) = set (cs_children (wd_caches w)) \<and>
    (\<forall>k v. read_slot k (wd_caches w) = Some (Settled v) \<longrightarrow>
       read_slot k (wd_caches (ds_world s)) = Some (Settled v))"
proof -
  let ?s0 = "start_state req w cache"
  have start: "scope_inv C w ?s0" and unscoped: "\<not> ds_request_scoped ?s0"
    using scope_inv_start [OF assms(1)] by (auto simp: start_state_def Let_def)
  note opened = scopes.scope_step [OF start unscoped]
  consider (failed) e where "open_request_scope ?s0 = (Inl e, s)"
    | (served) s1 u where "s1 = ?s0 \<or> open_request_scope ?s0 = (Inr (), s1)"
        "serve_until_release (create_dispatcher app verdict) C s1 = (r, u)" "s = snd (release_scope C u)"
    using dispatch_split [OF assms(2)] by blast
  then show ?thesis
  proof cases
    case failed
    then have "ds_world s = w"
      by (auto simp: open_request_scope_def create_request_scope_def start_state_def Let_def split: if_splits)
    then show ?thesis
      using assms(1) by auto
  next
    case served
    note s = served(3) and run = served(2)
    have "scope_inv C w s1"
      using served(1) start opened by auto
    then have "scope_inv C w u"
      using keepsD [OF scopes.keeps_served _ _ run] by simp
    then have finished: "di_reachable (ac_env C) (ac_meta C) (ds_world s)"
        "scoped_world w (ds_request_scoped u) (ds_world s)"
        "ds_request_scoped u \<longrightarrow>
           ct_disposed (wd_containers (ds_world s) ! length (wd_containers w)) \<and>
           length (wd_containers w) \<notin> set (cs_children (wd_caches (ds_world s))) \<and>
           (\<forall>k. key_container k = length (wd_containers w) \<longrightarrow> read_slot k (wd_caches (ds_world s)) = None)"
      using release_scope_done s by (metis prod.collapse)+
    have "c = length (wd_containers w) \<and> ds_request_scoped u"
      if "length (wd_containers w) \<le> c" "c < length (wd_containers (ds_world s))" for c
      using finished(2) that by (auto simp: scoped_world_def Let_def split: if_splits)
    moreover have "length (wd_containers w) \<notin> set (cs_children (wd_caches (ds_world s)))"
      using finished(2,3) di_reachable_ok [OF finished(1)]
      by (cases "ds_request_scoped u") (auto simp: scoped_world_def Let_def world_ok_def)
    ultimately show ?thesis
      using finished by (auto simp: scoped_world_def Let_def less_Suc_eq)
  qed
qed

section \<open>Guards\<close>

definition guarded :: "application \<Rightarrow> dispatch_event list \<Rightarrow> bool" where
  "guarded app es \<longleftrightarrow>
     (\<forall>before d v x after. es = before @ HandlerCalled d v x # after \<longrightarrow>
        (\<forall>g \<in> set (route_guards app d). GuardPassed d g \<in> set before))"

lemma guarded_Nil [simp]: "guarded app []"
  by (simp add: guarded_def)

lemma guarded_snoc:
  assumes "guarded app es"
    and "\<And>d v x. e = HandlerCalled d v x \<Longrightarrow> \<forall>g \<in> set (route_guards app d). GuardPassed d g \<in> set es"
  shows "guarded app (es @ [e])"
  unfolding guarded_def
proof (intro allI impI)
  fix before d v x after
  assume split: "es @ [e] = before @ HandlerCalled d v x # after"
  show "\<forall>g \<in> set (route_guards app d). GuardPassed d g \<in> set before"
  proof (cases after rule: rev_cases)
    case Nil
    then show ?thesis
      using split assms(2) by auto
  next
    case (snoc ys y)
    then have "es = before @ HandlerCalled d v x # ys"
      using split by (metis append.assoc append_Cons butlast_snoc)
    then show ?thesis
      using assms(1) unfolding guarded_def by blast
  qed
qed

lemma guarded_plain: "guarded app es \<Longrightarrow> plain_event e \<Longrightarrow> guarded app (es @ [e])"
  by (rule guarded_snoc) auto

interpretation guards: dispatch_rules app verdict C "\<lambda>s. guarded app (ds_log s)"
  "\<lambda>s t. set (ds_log s) \<subseteq> set (ds_log t)" "\<lambda>_ _. True"
  for app verdict C
proof (unfold_locales, goal_cases)
  case (7 s d v x)
  then show ?case
    by (auto intro: guarded_snoc simp: guards_passed_def)
next
  case (8 s)
  then show ?case
    by (auto simp: open_request_scope_def guarded_plain split: prod.splits sum.splits)
next
  case (10 s c tok)
  then show ?case
    by (auto simp: resolve_in_def guarded_plain split: prod.splits)
next
  case (11 s c)
  then show ?case
    by (auto simp: dispose_in_def split: prod.splits)
qed (auto simp: quiet_def guarded_plain)

lemma release_scope_log:
  "ds_log (snd (release_scope C s)) = ds_log s \<or>
   (\<exists>c. ds_log (snd (release_scope C s)) = ds_log s @ [ScopeReleased c]) \<or>
   (\<exists>c e. ds_log (snd (release_scope C s)) = ds_log s @ [ScopeReleased c, FailureLogged e])"
  by (auto simp: release_scope_def log_failure_def eff_try_def dispose_in_def eff_defs eff_read_def
      log_event_def with_event_def split: option.splits prod.splits)

text \<open>C4. A handler runs only behind its guards: whatever the application's code does, by the time
  a dispatch calls the method of a handler, each guard of its route (the controller's and the
  method's) has been asked for this handler and has not answered \<open>false\<close> or thrown. The fast
  path is no exception.\<close>

theorem guards_before_handler:
  assumes "dispatch (create_dispatcher app verdict) C (start_state req w cache) = (r, s)"
    and "ds_log s = before @ HandlerCalled d v x # after"
    and "g \<in> set (route_guards app d)"
  shows "GuardPassed d g \<in> set before"
proof -
  let ?s0 = "start_state req w cache"
  have log0: "ds_log ?s0 = []" and "\<not> ds_request_scoped ?s0"
    by (simp_all add: start_state_def Let_def)
  then have opened: "guarded app (ds_log (snd (open_request_scope ?s0)))"
    using guards.scope_step [of app ?s0] by simp
  have "guarded app (ds_log s)"
  proof -
    consider (failed) e where "open_request_scope ?s0 = (Inl e, s)"
      | (served) s1 u where "s1 = ?s0 \<or> open_request_scope ?s0 = (Inr (), s1)"
          "serve_until_release (create_dispatcher app verdict) C s1 = (r, u)" "s = snd (release_scope C u)"
      using dispatch_split [OF assms(1)] by blast
    then show ?thesis
    proof cases
      case failed
      then show ?thesis
        using opened by simp
    next
      case served
      have "guarded app (ds_log s1)"
        using served(1) opened log0 by auto
      then have "guarded app (ds_log u)"
        using keepsD [OF guards.keeps_served _ _ served(2)] by simp
      then show ?thesis
        using release_scope_log [of C u] guarded_plain [of app "ds_log u" "ScopeReleased c" for c]
          guarded_plain [of app "ds_log u @ [ScopeReleased c]" "FailureLogged e" for c e]
        by (auto simp: served(3))
    qed
  qed
  then show ?thesis
    using assms(2,3) unfolding guarded_def by blast
qed

section \<open>Responses\<close>

lemma json_payload_error: "json_payload j = Inl e \<Longrightarrow> e = ThrownNotSerializable"
  by (cases j) auto

lemma serialize_error: "serialize_web_response_body v t = Inl e \<Longrightarrow> e = ThrownNotSerializable"
  by (cases v) (auto simp: with_type_def split: if_splits sum.splits dest!: json_payload_error)

lemma send_result:
  "send v r = (Inr u, r') \<Longrightarrow> rs_committed r'"
  "send v r = (Inl e, r') \<Longrightarrow> e = ThrownNotSerializable \<and> r' = r"
  by (auto simp: send_def split: sum.splits prod.splits dest: serialize_error)

lemma send_undefined: "fst (send UndefinedResult r) = Inr ()"
  by (simp add: send_def)

lemma write_error_result:
  "write_error_response e i r = (Inl x, r') \<Longrightarrow> x = ThrownNotSerializable"
  by (auto simp: write_error_response_def Let_def split: if_splits dest: send_result)

lemma factory_error_sent:
  assumes "\<And>x. e = ThrownHttp x \<Longrightarrow> he_details x \<noteq> JsonThrows \<and> he_meta x \<noteq> JsonThrows"
  shows "fst (factory_write_error e i r) = Inr ()"
  using assms
  by (cases e)
    (auto simp: factory_write_error_def send_def create_error_response_def with_type_def internal_exception_def Let_def)

lemma handle_error_throws:
  assumes "handle_dispatch_error D C e s = (Inl x, t)" and "\<not> ap_error_handler (dp_app D)"
  shows "x = ThrownNotSerializable"
proof -
  obtain u where "on_response (write_error_response e (ds_request_id u)) u = (Inl x, t)"
    using assms notify_safely_returns [of C "OnError e" "ap_observers (dp_app D)" s]
    by (cases "notify_observers_safely C (OnError e) (ap_observers (dp_app D)) s")
      (auto simp: handle_dispatch_error_def eff_read_def eff_bind_def eff_return_run split: if_splits)
  then show ?thesis
    by (auto simp: on_response_def split: prod.splits dest: write_error_result)
qed

lemma dispatch_throws:
  assumes "dispatch D C s = (Inl e, t)" and "\<not> ap_error_handler (dp_app D)"
  shows "e = ThrownNotSerializable \<or> (\<exists>x. e = ThrownByContainer x)"
proof -
  consider (failed) x where "open_request_scope s = (Inl x, t)" "Inl e = (Inl x :: thrown + unit)"
    | (served) s1 u where "serve_until_release D C s1 = (Inl e, u)"
    using dispatch_split [OF assms(1)] by blast
  then show ?thesis
  proof cases
    case failed
    then show ?thesis
      by (auto simp: open_request_scope_def split: prod.splits sum.splits)
  next
    case served
    let ?observers = "ap_observers (dp_app D)"
    let ?body = "eff_bind (notify_observers_safely C OnStart ?observers) (\<lambda>_. run_dispatch_pipeline D C)"
    obtain x s2 where body: "?body s1 = (x, s2)" by fastforce
    let ?handled = "(case x of Inl e \<Rightarrow> handle_dispatch_error D C e | Inr _ \<Rightarrow> eff_return ())"
    obtain y s3 where handled: "?handled s2 = (y, s3)" by fastforce
    have tail: "eff_bind (notify_observers_safely C OnFinish ?observers) (\<lambda>_. eff_lift y) s3 = (Inl e, u)"
      using served handled
      by (simp add: serve_until_release_def Let_def eff_bind_def eff_try_def body [unfolded eff_bind_def])
    then have "y = Inl e"
      using notify_safely_returns [of C OnFinish ?observers s3]
      by (auto simp: eff_bind_def eff_lift_def split: prod.splits)
    then show ?thesis
      using handled handle_error_throws [OF _ assms(2)]
      by (cases x) (auto simp: eff_return_run)
  qed
qed

text \<open>C10. An adapter always has a response to write: whatever the application's code does, the
  shared entry point of the adapters ends with a committed response, unless the client has
  gone. It throws only when the error to report cannot be serialized, and such an error can
  only come from the adapter's own request parsing or from a custom error handler.\<close>

theorem request_is_answered:
  "case dispatch_with_factory D C failed request_id s of (r, t) \<Rightarrow>
     (r = Inr () \<and> (rs_committed (ds_response t) \<or> ds_aborted t)) \<or>
     (r = Inl ThrownNotSerializable \<and>
      ((\<exists>x. failed = Some (ThrownHttp x)) \<or> (\<exists>d. D = Some d \<and> ap_error_handler (dp_app d))))"
proof -
  obtain r t where assms: "dispatch_with_factory D C failed request_id s = (r, t)" by fastforce
  obtain b u where body: "factory_attempt D C failed s = (b, u)" by fastforce
  have tried: "eff_try (factory_attempt D C failed) s = (Inr b, u)"
    using body by (rule eff_try_run)
  note steps = dispatch_with_factory_def eff_read_run eff_return_run eff_bind_def tried
  have "(r = Inr () \<and> (rs_committed (ds_response t) \<or> ds_aborted t)) \<or>
     (r = Inl ThrownNotSerializable \<and>
      ((\<exists>x. failed = Some (ThrownHttp x)) \<or> (\<exists>d. D = Some d \<and> ap_error_handler (dp_app d))))"
  proof (cases b)
    case (Inr x)
    then have "rs_committed (ds_response u)"
      using body
      by (auto simp: factory_attempt_def eff_bind_def eff_read_def eff_defs on_response_def
          split: option.splits prod.splits sum.splits if_splits dest: send_result)
    then show ?thesis
      using assms Inr by (simp add: steps)
  next
    case (Inl e)
    have cause: "(\<exists>x. failed = Some (ThrownHttp x)) \<or> (\<exists>d. D = Some d \<and> ap_error_handler (dp_app d))"
      if "e = ThrownHttp x" for x
      using body Inl that
      by (auto simp: factory_attempt_def eff_bind_def eff_read_def eff_defs on_response_def
          split: option.splits prod.splits sum.splits if_splits dest: send_result dest!: dispatch_throws)
    show ?thesis
    proof (cases "ds_aborted u \<or> rs_committed (ds_response u)")
      case True
      then show ?thesis
        using assms Inl by (auto simp: steps)
    next
      case False
      obtain r' w where sent: "factory_write_error e request_id (ds_response u) = (r', w)" by fastforce
      then have "(r, t) = (r', u\<lparr>ds_response := w\<rparr>)"
        using assms Inl False by (simp add: steps on_response_def)
      then show ?thesis
        using sent cause factory_error_sent [of e request_id "ds_response u"]
        by (cases r') (auto simp: factory_write_error_def Let_def dest: send_result)
    qed
  qed
  then show ?thesis
    using assms by simp
qed

end
