(* ===== verification/Dispatch_Paths.thy ===== *)
theory Dispatch_Paths
  imports Dispatch_Rules
begin

text \<open>
  The decisions in front of a dispatch: what a route pattern matches, that the compiled scope
  plans are exact, and that the fast path runs what the full path runs.
\<close>

section \<open>Route patterns\<close>

lemma ends_with_append [simp]: "js_ends_with (s @ t) t"
  by (simp add: js_ends_with_def)

lemma before_last_two_append [simp]: "before_last_two (s @ ''/*'') = s"
  by (simp add: before_last_two_def)

lemma starts_with_iff: "js_starts_with s p \<longleftrightarrow> (\<exists>t. s = p @ t)"
  by (metis append_eq_conv_conj js_starts_with_def append_take_drop_id)

lemma ends_with_iff: "js_ends_with s p \<longleftrightarrow> (\<exists>t. s = t @ p)"
proof
  assume "js_ends_with s p"
  then show "\<exists>t. s = t @ p"
    unfolding js_ends_with_def by (metis append_take_drop_id)
qed auto

lemma normalize_pattern_plain:
  "\<not> js_ends_with p ''/*'' \<Longrightarrow> normalize_route_pattern p = normalize_route_path p"
  by (subst normalize_route_pattern.simps) simp

lemma normalize_pattern_star:
  "normalize_route_pattern (p @ ''/*'') = normalize_route_pattern p @ ''/*''"
  by (subst normalize_route_pattern.simps) simp

lemma path_segments_two: "path_segments (a @ CHR ''/'' # t) = path_segments a @ path_segments t"
  by (simp add: path_segments_def js_split_two nonempty_strings_def)

lemma js_join_two: "xs \<noteq> [] \<Longrightarrow> ys \<noteq> [] \<Longrightarrow> js_join c (xs @ ys) = js_join c xs @ c @ js_join c ys"
proof (induction c xs rule: js_join.induct)
  case (2 c x)
  then show ?case by (cases ys) auto
qed auto

lemma normalized_no_double_slash: "normalize_route_path path \<noteq> ''//'' @ t"
proof (cases "path_segments path")
  case (Cons s ss)
  then have "s \<noteq> []" and "CHR ''/'' \<notin> set s"
    using path_segments_pieces [of s path] by auto
  then show ?thesis
    using Cons by (cases s; cases ss) (auto simp: normalize_route_path_eq)
qed (simp add: normalize_route_path_eq)

lemma normalized_root: "normalize_route_path path = ''/'' \<longleftrightarrow> path_segments path = []"
proof
  assume root: "normalize_route_path path = ''/''"
  have "path_segments ''/'' = []"
    by (simp add: path_segments_def nonempty_strings_def)
  then show "path_segments path = []"
    using path_segments_normalize [of path] unfolding root by simp
qed (simp add: normalize_route_path_eq)

text \<open>What a route pattern matches. \<open>p/*\<close> with a prefix \<open>p\<close> below the root matches the paths
  that have the segments of \<open>p\<close> in front, and no others; but \<open>/*\<close> matches the root path only, not
  every path: its empty prefix normalizes to \<open>/\<close>, so the pattern becomes \<open>//*\<close>, and no
  normalized path starts with two slashes.\<close>

theorem wildcard_patterns:
  assumes "\<not> js_ends_with path ''/*''" and "\<not> js_ends_with base ''/*''"
  shows "match_route_pattern (base @ ''/*'') path \<longleftrightarrow>
         (if path_segments base = [] then path_segments path = []
          else \<exists>rest. path_segments path = path_segments base @ rest)"
proof -
  let ?p = "normalize_route_path path" and ?b = "normalize_route_path base"
  have eq: "match_route_pattern (base @ ''/*'') path \<longleftrightarrow> ?p = ?b \<or> (\<exists>t. ?p = ?b @ ''/'' @ t)"
    using assms
    by (simp add: match_route_pattern_def Let_def normalize_pattern_star normalize_pattern_plain starts_with_iff)
  show ?thesis
  proof (cases "path_segments base")
    case Nil
    then have root: "?b = ''/''"
      by (simp add: normalized_root)
    show ?thesis
      using Nil eq normalized_no_double_slash [of path] normalized_root [of path] unfolding root by simp
  next
    case (Cons s ss)
    have "\<exists>rest. path_segments path = path_segments base @ rest" if "?p = ?b @ ''/'' @ t" for t
      using path_segments_two [of ?b t] path_segments_normalize that by (metis append_Cons append_Nil)
    moreover have "?p = ?b \<or> (\<exists>t. ?p = ?b @ ''/'' @ t)"
      if "path_segments path = path_segments base @ rest" for rest
      using that Cons js_join_two [of "s # ss" rest "''/''"]
      by (cases "rest = []") (auto simp: normalize_route_path_eq)
    moreover have "path_segments path = path_segments base" if "?p = ?b"
      using that path_segments_normalize by metis
    ultimately show ?thesis
      using Cons eq by (metis append_Nil2 list.distinct(1))
  qed
qed

lemma wildcard_patterns_witness:
  "match_route_pattern (''/api'' @ ''/*'') ''/api/users'' \<and> \<not> match_route_pattern ([] @ ''/*'') ''/users''"
  using wildcard_patterns [of "''/api/users''" "''/api''"] wildcard_patterns [of "''/users''" "[]"]
  by (simp add: js_ends_with_def path_segments_def nonempty_strings_def)

section \<open>Scope plans\<close>

lemma unconditional_active: "is_unconditional m \<Longrightarrow> is_active path m"
  by (cases m) auto

lemma compile_scope_loop_exact:
  "compiled_middleware_may_require (compile_scope_loop ms cs) path \<longleftrightarrow>
   list_ex (is_active path) (cs @ ms)"
proof (induction ms arbitrary: cs)
  case (Cons m ms)
  then show ?case
    using unconditional_active [of m path]
    by (auto simp: compiled_middleware_may_require_def active_middleware_may_require_def list_ex_iff)
qed (simp add: compiled_middleware_may_require_def active_middleware_may_require_def)

lemma scope_plan_verdict [simp]:
  "compiled_middleware_may_require (compile_middleware_scope_plan ms) path \<longleftrightarrow> list_ex (is_active path) ms"
  using compile_scope_loop_exact [of ms "[]" path] by (simp add: compile_middleware_scope_plan_def)

lemma scope_plan_always: "sp_always (compile_middleware_scope_plan ms) \<Longrightarrow> list_ex (is_active path) ms"
  using scope_plan_verdict [of ms path] by (simp add: compiled_middleware_may_require_def)

lemma start_scope_exact:
  "dispatch_start_may_require (compile_dispatch_start_plan app) path \<longleftrightarrow>
     ap_observers app \<noteq> [] \<or> list_ex (is_active path) (ap_app_middleware app)"
  by (auto simp: dispatch_start_may_require_def compile_dispatch_start_plan_def scope_plan_always Let_def)

lemma handler_scope_exact:
  "handler_may_require (compile_handler_execution_plan app verdict d) path \<longleftrightarrow>
     route_guards app d \<noteq> [] \<or> ap_interceptors app @ route_interceptors app d \<noteq> [] \<or>
     list_ex (is_active path) (module_middleware app d) \<or> request_dto_may_require app d \<or>
     handler_may_use_context app d \<or> verdict (controller_token app d)"
  by (auto simp: handler_may_require_def compile_handler_execution_plan_def merge_interceptors_def
      scope_plan_always Let_def)

text \<open>The compiled scope plans are exact: a request is served without a request scope before the
  application's middleware runs exactly if there are no observers and none of that middleware is
  active for its path, and before the handler's part runs exactly if its route has no guards,
  interceptors or active module middleware, neither its DTO nor its method may use the request
  context, and the container says that the controller depends on no request-scoped provider.\<close>

theorem scope_plans_exact:
  "(dispatch_start_may_require (compile_dispatch_start_plan app) path \<longleftrightarrow>
     \<not> (ap_observers app = [] \<and> \<not> list_ex (is_active path) (ap_app_middleware app))) \<and>
   (handler_may_require (compile_handler_execution_plan app verdict d) path \<longleftrightarrow>
     \<not> (route_guards app d = [] \<and> ap_interceptors app @ route_interceptors app d = [] \<and>
        \<not> list_ex (is_active path) (module_middleware app d) \<and> \<not> request_dto_may_require app d \<and>
        \<not> handler_may_use_context app d \<and> \<not> verdict (controller_token app d)))"
  by (auto simp: start_scope_exact handler_scope_exact)

section \<open>The fast path\<close>

lemma eff_bind_assoc: "eff_bind (eff_bind m f) g = eff_bind m (\<lambda>a. eff_bind (f a) g)"
  by (auto simp: eff_bind_def fun_eq_iff split: prod.splits sum.splits)

lemma eff_bind_read: "eff_bind (eff_read f) g = eff_read (\<lambda>s. eff_bind (f s) g)"
  by (auto simp: eff_bind_def eff_read_def fun_eq_iff)

lemma eff_bind_unit [simp]: "eff_bind m eff_return = m"
  by (auto simp: eff_bind_def eff_return_def fun_eq_iff split: prod.splits sum.splits)

lemma mapped_eligibility:
  assumes "js_get (dp_eligibility (create_dispatcher app verdict)) d = Some e"
  shows "e = compile_fast_path_eligibility app verdict d"
    and "js_get (dp_plans (create_dispatcher app verdict)) d = Some (compile_handler_execution_plan app verdict d)"
proof -
  let ?ds = "hm_descriptors (ap_mapping app)"
  have "map_of (zip ds (map f ds)) d = Some e \<Longrightarrow> e = f d \<and> map_of (map (\<lambda>d. (d, g d)) ds) d = Some (g d)"
    for f :: "handler_descriptor \<Rightarrow> eligibility" and g :: "handler_descriptor \<Rightarrow> execution_plan" and ds
    by (induction ds) (auto split: if_splits)
  from this [of ?ds] show "e = compile_fast_path_eligibility app verdict d"
    and "js_get (dp_plans (create_dispatcher app verdict)) d = Some (compile_handler_execution_plan app verdict d)"
    using assms by (simp_all add: create_dispatcher_def Let_def)
qed

lemma eligible_conditions:
  assumes "el_fast (compile_fast_path_eligibility app verdict d)"
  shows "route_guards app d = []" "ap_interceptors app = []" "route_interceptors app d = []"
    "ap_app_middleware app = []" "module_middleware app d = []" "ap_observers app = []"
    "\<not> ap_error_handler app" "\<not> request_dto_may_require app d" "\<not> verdict (controller_token app d)"
    "\<not> is_sse_route d"
  using assms
  by (simp_all add: compile_fast_path_eligibility_def blocking_reasons_def Let_def route_guards_def
      route_interceptors_def module_middleware_def determine_request_scope_requirement_def
      determine_middleware_requirement_def split: if_splits)

lemma write_result_plain:
  "\<not> is_sse_route d \<Longrightarrow> write_result D C d result = eff_read (\<lambda>s.
     if result \<noteq> SseResult \<and> \<not> rs_committed (ds_response s) then write_success D C d result
     else eff_return ())"
  by (cases result) (auto simp: write_result_def write_managed_sse_iterable_def eff_bind_def eff_return_def)

text \<open>The fast path with the function to call as an argument.\<close>

definition run_with ::
  "dispatcher \<Rightarrow> app_code \<Rightarrow> handler_descriptor \<Rightarrow> method_code option \<Rightarrow> js_value \<Rightarrow> unit dispatch" where
  "run_with D C d found v =
     eff_bind (call_handler (dp_app D) C d found v) (\<lambda>result.
     eff_bind ensure_not_aborted (\<lambda>_. eff_read (\<lambda>s.
       if result \<noteq> SseResult \<and> \<not> rs_committed (ds_response s) then write_success D C d result
       else eff_return ())))"

lemma run_with_fast: "run_fast_path D C d v = run_with D C d (fast_method C d v) v"
  by (simp add: run_fast_path_def run_with_def)

text \<open>C30. The fast path is the full path without its scaffolding: for a handler that is eligible
  for it and whose method does not take the request context, the full path does nothing but
  resolve the controller from the current container and then run, step for step, what the
  fast path runs with its controller. This needs that the resolved controller inherits the
  method from the class the handler was declared in (or that class has none): the fast path
  calls the function of that class's prototype on whatever the container resolved.\<close>

theorem fast_path_is_full_path:
  assumes "js_get (dp_eligibility (create_dispatcher app verdict)) d = Some e" and "el_fast e"
    and "\<not> handler_may_use_context app d" and "\<not> rs_committed (ds_response s)"
    and "\<And>v s'. resolve_in C (ds_container s) (controller_token app d) s = (Inr v, s') \<Longrightarrow>
           fast_method C d v = own_method C d v"
  shows "dispatch_full_path (create_dispatcher app verdict) C d s =
         eff_bind (resolve_in C (ds_container s) (controller_token app d))
           (run_fast_path (create_dispatcher app verdict) C d) s"
proof -
  let ?D = "create_dispatcher app verdict"
  let ?plan = "compile_handler_execution_plan app verdict d"
  have app: "dp_app ?D = app"
    by (simp add: create_dispatcher_def Let_def)
  note mapped = mapped_eligibility [OF assms(1)]
  note conditions = eligible_conditions [OF assms(2) [unfolded mapped(1)]]
  have plan: "resolve_execution_plan ?D C d s = ?plan"
    by (simp add: resolve_execution_plan_def mapped(2))
  have "\<not> handler_may_require ?plan (rq_path (ds_request s))"
    using conditions assms(3) by (simp add: handler_scope_exact)
  moreover have "xp_guards ?plan = []" and "xp_interceptors ?plan = []"
    using conditions by (simp_all add: compile_handler_execution_plan_def merge_interceptors_def Let_def)
  ultimately have "dispatch_full_path ?D C d s =
      eff_bind (resolve_in C (ds_container s) (controller_token app d))
        (\<lambda>v. run_with ?D C d (own_method C d v) v) s"
    using conditions assms(4)
    by (simp add: dispatch_full_path_def plan Let_def app run_middleware_chain_def notify_observers_safely_def
        dispatch_matched_handler_def run_interceptor_chain_def invoke_controller_handler_def
        run_with_def write_result_plain eff_bind_assoc eff_bind_read eff_read_run)
  then show ?thesis
    using assms(5) by (simp add: eff_bind_def run_with_fast split: prod.splits sum.splits)
qed

end
