(* ===== verification/Dispatch_Examples.thy ===== *)
theory Dispatch_Examples
  imports Dispatch_Facts Dispatch_Paths Container_Examples
begin

text \<open>
  Requests evaluated by the kernel: the witnesses of the dispatcher's properties, and what the
  fast path and the response policy do that the code probably does not intend.
\<close>

section \<open>A sample application\<close>

definition ping_class :: cls where "ping_class = Cls 0 ''PingController'' 0 None"

definition ping_source :: "nat list \<Rightarrow> string list option \<Rightarrow> handler_source" where
  "ping_source guards produces =
     \<lparr>hs_controller = 0, hs_middleware = None, hs_module = None,
      hs_metadata = Some \<lparr>ctm_base = ''/'', ctm_version = None, ctm_guards = None, ctm_interceptors = None\<rparr>,
      hs_properties =
        [(''ping'', Some \<lparr>rtm_method = ''GET'', rtm_path = ''ping'', rtm_version = None,
            rtm_guards = Some guards, rtm_interceptors = None, rtm_rest = 0\<rparr>, produces)]\<rparr>"

definition ping_mapping :: "nat list \<Rightarrow> string list option \<Rightarrow> handler_mapping" where
  "ping_mapping guards produces =
     (case create_handler_mapping [ping_source guards produces] None of
        Inr m \<Rightarrow> m
      | Inl e \<Rightarrow> \<lparr>hm_descriptors = [], hm_versioning = resolve_versioning None,
                 hm_index = \<lparr>ix_static = [], ix_param = []\<rparr>\<rparr>)"

text \<open>Guard number \<open>n\<close> is the object \<open>n\<close>.\<close>

definition ping_app :: "nat list \<Rightarrow> negotiation_options option \<Rightarrow> application" where
  "ping_app guards negotiation =
     \<lparr>ap_mapping = ping_mapping guards None, ap_app_middleware = [], ap_observers = [], ap_interceptors = [],
      ap_negotiation = negotiation, ap_custom_binder = False, ap_converters = False,
      ap_error_handler = False, ap_debug_headers = False, ap_controller = (\<lambda>_. ping_class),
      ap_arity = (\<lambda>_ _. Some 0), ap_component = (\<lambda>n. Instance (JsObj n False)),
      ap_middleware = (\<lambda>n. Unrouted (Instance (JsObj n False))),
      ap_settings = (\<lambda>_. \<lparr>st_redirect = None, st_headers = [], st_success_status = None, st_request = None\<rparr>),
      ap_dto_converter = (\<lambda>_. False), ap_dto_validates = (\<lambda>_. False)\<rparr>"

definition ping_env :: di_env where
  "ping_env = \<lparr>construct = (\<lambda>log c deps. Inr (JsObj (length log) True)),
     call_factory = (\<lambda>log f deps. Inl 0), destroy = (\<lambda>log i. None), next_scope = (\<lambda>log n. 0)\<rparr>"

definition ping_code :: "di_env \<Rightarrow> script \<Rightarrow> app_code" where
  "ping_code env handler =
     \<lparr>ac_env = env, ac_meta = [], ac_middleware = (\<lambda>_ _. Continue (\<lambda>_. Finish UndefinedResult)),
      ac_guard = (\<lambda>_ _. Finish (BoolResult True)), ac_interceptor = (\<lambda>_ _. Continue (\<lambda>r. case r of Inl e \<Rightarrow> Throw e | Inr v \<Rightarrow> Finish v)),
      ac_observer = (\<lambda>_ _ _. Finish UndefinedResult), ac_has_method = (\<lambda>_ _. True),
      ac_method = (\<lambda>_ _ _ _ _. handler),
      ac_prototype = (\<lambda>_. Some (\<lambda>_ _ _. handler)), ac_bind = (\<lambda>_ _. Finish UndefinedResult),
      ac_validate = (\<lambda>_ _ _. Finish UndefinedResult), ac_on_error = (\<lambda>_ _. Finish UndefinedResult),
      ac_format = (\<lambda>_ _. Inl (ThrownOther 1)), ac_items = (\<lambda>_ _. [])\<rparr>"

definition ping_world :: "scope \<Rightarrow> world" where
  "ping_world sc =
     snd (container_register [(ping_class, \<lparr>dm_inject = None, dm_scope = Some sc\<rparr>)] 0
            [ClassShorthand ping_class] new_world)"

definition get_ping :: incoming where
  "get_ping = \<lparr>in_request = \<lparr>rq_method = ''GET'', rq_path = ''/ping'', rq_headers = []\<rparr>,
     in_request_id = None, in_handoff = None, in_aborted = False, in_response = new_response\<rparr>"

definition handler_calls :: "dispatch_state \<Rightarrow> js_value list" where
  "handler_calls s =
     List.map_filter (\<lambda>e. case e of HandlerCalled d v x \<Rightarrow> Some v | _ \<Rightarrow> None) (ds_log s)"

definition serve_ping ::
  "application \<Rightarrow> app_code \<Rightarrow> world \<Rightarrow> (handler_descriptor, controller_entry) js_map \<Rightarrow>
   (thrown, unit) result \<times> dispatch_state" where
  "serve_ping app C w cache =
     dispatch (create_dispatcher app (\<lambda>_. False)) C (start_state get_ping w cache)"

text \<open>Where a handler on the fast path throws a falsy value (\<open>Promise.reject()\<close> does), the
  request is served again by the full path: the handler runs twice, and the second error is
  the one answered with status 500.\<close>

theorem falsy_error_runs_handler_twice:
  "(let (r, s) = serve_ping (ping_app [] None) (ping_code ping_env (Throw ThrownFalsy)) (ping_world Singleton) []
    in (r, handler_calls s, rs_status (ds_response s))) =
   (Inr (), [JsObj 0 True, JsObj 0 True], Some 500)"
  by code_simp

definition flaky_env :: di_env where
  "flaky_env = ping_env\<lparr>construct := (\<lambda>log c deps. if log = [] then Inl 3 else Inr (JsObj (length log) True))\<rparr>"

text \<open>The fast path keeps a controller that failed to construct: where the constructor fails
  once and would then succeed, every later request of the handler is answered with status 500
  by the kept rejection, although the container resolves the controller.\<close>

theorem rejected_controller_kept:
  "(let app = ping_app [] None; C = ping_code flaky_env (Finish (StringResult ''pong''));
        (r1, s1) = serve_ping app C (ping_world Singleton) [];
        (r2, s2) = serve_ping app C (ds_world s1) (ds_controllers s1)
    in (rs_status (ds_response s1), rs_status (ds_response s2), handler_calls s2,
        fst (container_resolve flaky_env [] 0 (TokClass ping_class) (ds_world s1)))) =
   (Some 500, Some 500, [], Inr (JsObj 1 True))"
  by code_simp

text \<open>The fast path shares one instance of a transient controller: the container makes a new
  instance on every resolution, and does not call the controller request-scoped, but two
  requests of its handler run on the same instance.\<close>

theorem transient_controller_shared:
  "(let app = ping_app [] None; C = ping_code ping_env (Finish (StringResult ''pong''));
        w = ping_world Transient;
        (r1, s1) = serve_ping app C w [];
        (r2, s2) = serve_ping app C (ds_world s1) (ds_controllers s1)
    in (has_request_scoped_dependency [] (lineage_at w 0) (TokClass ping_class),
        handler_calls s1, handler_calls s2,
        fst (container_resolve ping_env [] 0 (TokClass ping_class) (ds_world s1)))) =
   (False, [JsObj 0 True], [JsObj 0 True], Inr (JsObj 1 True))"
  by code_simp

text \<open>The fast path calls the method of the class the handler was declared in, whatever the
  container gave for it. Where the token is overridden by an object with a method of its own
  (a test double, or \<open>useClass\<close> with a subclass), a route with one guard that lets everything
  pass calls the object's method, and the same route without the guard the class's.\<close>

theorem fast_path_calls_declared_class:
  "(let C = (ping_code ping_env (Finish (StringResult ''double'')))
              \<lparr>ac_prototype := (\<lambda>_. Some (\<lambda>_ _ _. Finish (StringResult ''declared'')))\<rparr>;
        body = (\<lambda>guards. rs_body (ds_response (snd (serve_ping (ping_app guards None) C (ping_world Singleton) []))))
    in (body [], body [5])) =
   (TextPayload ''declared'', TextPayload ''double'')"
  by code_simp

definition csv_negotiation :: negotiation_options where
  "csv_negotiation = \<lparr>no_default = None, no_formatters = Some [\<lparr>fm_media_type = ''text/csv'', fm_format = 0\<rparr>]\<rparr>"

text \<open>When the chosen formatter throws, its media type stays on the error response: the JSON
  error envelope is sent with the content type of the formatter.\<close>

theorem failed_formatter_content_type:
  "(let (r, s) = serve_ping (ping_app [] (Some csv_negotiation)) (ping_code ping_env (Finish (StringResult ''pong'')))
                   (ping_world Singleton) []
    in (rs_status (ds_response s), js_get (rs_headers (ds_response s)) ''Content-Type'',
        rs_body (ds_response s) = TextPayload (case create_error_response internal_exception None of
            PlainObject (JsonText t) \<Rightarrow> t | _ \<Rightarrow> []))) =
   (Some 500, Some (OneValue ''text/csv''), True)"
  by code_simp

section \<open>Witnesses\<close>

definition guarded_run :: "(thrown, unit) result \<times> dispatch_state" where
  "guarded_run =
     dispatch (create_dispatcher (ping_app [5] None) (\<lambda>_. False))
       (ping_code object_env (Finish (StringResult ''pong'')))
       (start_state get_ping (registered [ClassShorthand ping_class]) [])"

lemma dispatch_releases_scope_witness:
  "length (wd_containers (ds_world (snd guarded_run))) = 2 \<and>
   ct_disposed (wd_containers (ds_world (snd guarded_run)) ! 1)"
proof -
  have before: "length (wd_containers (registered [ClassShorthand ping_class])) = 1"
    and after: "length (wd_containers (ds_world (snd guarded_run))) = 2"
    by code_simp+
  have env: "ac_env (ping_code object_env sc) = object_env" "ac_meta (ping_code object_env sc) = []" for sc
    by (simp_all add: ping_code_def)
  have reach: "di_reachable (ac_env (ping_code object_env sc)) (ac_meta (ping_code object_env sc))
      (registered [ClassShorthand ping_class])" for sc
    unfolding env by (rule registered_reachable)
  have run: "dispatch (create_dispatcher (ping_app [5] None) (\<lambda>_. False))
      (ping_code object_env (Finish (StringResult ''pong'')))
      (start_state get_ping (registered [ClassShorthand ping_class]) []) = (fst guarded_run, snd guarded_run)"
    by (simp add: guarded_run_def)
  show ?thesis
    using dispatch_releases_scope [OF reach run] before after by simp
qed

definition before_handler :: "dispatch_event list \<Rightarrow> dispatch_event list" where
  "before_handler = takeWhile plain_event"

lemma guards_before_handler_witness:
  "GuardPassed (hd (hm_descriptors (ping_mapping [5] None))) (Instance (JsObj 5 False))
     \<in> set (before_handler (ds_log (snd guarded_run)))"
proof -
  let ?d = "hd (hm_descriptors (ping_mapping [5] None))"
  have log: "ds_log (snd guarded_run) = before_handler (ds_log (snd guarded_run)) @
      HandlerCalled ?d (JsObj 0 True) UndefinedResult #
      drop (Suc (length (before_handler (ds_log (snd guarded_run))))) (ds_log (snd guarded_run))"
    by code_simp
  have run: "dispatch (create_dispatcher (ping_app [5] None) (\<lambda>_. False))
      (ping_code object_env (Finish (StringResult ''pong'')))
      (start_state get_ping (registered [ClassShorthand ping_class]) []) = (fst guarded_run, snd guarded_run)"
    by (simp add: guarded_run_def)
  have "Instance (JsObj 5 False) \<in> set (route_guards (ping_app [5] None) ?d)"
    by code_simp
  from guards_before_handler [OF run log this] show ?thesis .
qed

lemma fast_path_is_full_path_witness:
  "(let app = ping_app [] None; D = create_dispatcher app (\<lambda>_. False);
        C = ping_code ping_env (Finish (StringResult ''pong''));
        d = hd (hm_descriptors (ping_mapping [] None)); s = start_state get_ping (ping_world Singleton) []
    in dispatch_full_path D C d s = eff_bind (resolve_in C 0 (controller_token app d)) (run_fast_path D C d) s)"
proof -
  let ?app = "ping_app [] None" and ?d = "hd (hm_descriptors (ping_mapping [] None))"
  let ?e = "compile_fast_path_eligibility ?app (\<lambda>_. False) ?d"
  have "js_get (dp_eligibility (create_dispatcher ?app (\<lambda>_. False))) ?d = Some ?e"
    and "el_fast ?e" and "\<not> handler_may_use_context ?app ?d"
    and "\<not> rs_committed (ds_response (start_state get_ping (ping_world Singleton) []))"
    and container: "ds_container (start_state get_ping (ping_world Singleton) []) = 0"
    by code_simp+
  moreover have "fast_method C ?d v = own_method C ?d v"
    if "C = ping_code ping_env (Finish (StringResult ''pong''))" for C v
    by (simp add: that ping_code_def fast_method_def own_method_def)
  ultimately show ?thesis
    using fast_path_is_full_path [of ?app "\<lambda>_. False" ?d ?e "start_state get_ping (ping_world Singleton) []"
        "ping_code ping_env (Finish (StringResult ''pong''))"]
    by (simp add: Let_def)
qed

end
