(* ===== verification/Sse_Facts.thy ===== *)
theory Sse_Facts
  imports Sse
begin

text \<open>
  Server-sent events: a frame is read back as exactly the event it was made of, a managed stream
  is closed whatever the handler's iterable does, and when the iterable is left running.
\<close>

section \<open>Reading a frame\<close>

text \<open>The event a client reads from the lines up to the first blank one: a field name ends at the
  first colon, and one space after it is dropped (HTML, 9.2.6).\<close>

record client_event =
  ce_event :: "string option"
  ce_id :: "string option"
  ce_retry :: "string option"
  ce_data :: "string list"

definition field_value :: "string \<Rightarrow> string" where
  "field_value line =
     (let rest = tl (dropWhile (\<lambda>c. c \<noteq> CHR '':'') line) in
      case rest of [] \<Rightarrow> [] | c # cs \<Rightarrow> if c = CHR '' '' then cs else rest)"

definition read_line :: "string \<Rightarrow> client_event \<Rightarrow> client_event" where
  "read_line line e =
     (let name = takeWhile (\<lambda>c. c \<noteq> CHR '':'') line; v = field_value line in
      if name = ''event'' then e\<lparr>ce_event := Some v\<rparr>
      else if name = ''id'' then e\<lparr>ce_id := Some v\<rparr>
      else if name = ''retry'' then e\<lparr>ce_retry := Some v\<rparr>
      else if name = ''data'' then e\<lparr>ce_data := ce_data e @ [v]\<rparr>
      else e)"

definition read_event :: "string list \<Rightarrow> client_event" where
  "read_event lines =
     fold read_line lines \<lparr>ce_event = None, ce_id = None, ce_retry = None, ce_data = []\<rparr>"

lemma read_line_fields [simp]:
  "read_line (''event: '' @ v) e = e\<lparr>ce_event := Some v\<rparr>"
  "read_line (''id: '' @ v) e = e\<lparr>ce_id := Some v\<rparr>"
  "read_line (''retry: '' @ v) e = e\<lparr>ce_retry := Some v\<rparr>"
  "read_line (''data: '' @ v) e = e\<lparr>ce_data := ce_data e @ [v]\<rparr>"
  by (simp_all add: read_line_def field_value_def)

lemma fold_read_data:
  "fold read_line (map (\<lambda>line. ''data: '' @ line) ls) e = e\<lparr>ce_data := ce_data e @ ls\<rparr>"
  by (induction ls arbitrary: e) (simp_all del: append_Cons)

section \<open>Lines\<close>

lemma cr_lf [simp]: "cr \<noteq> lf" "lf \<noteq> cr"
  by (simp_all add: cr_def lf_def)

lemma sanitize_clean: "cr \<notin> set (sanitize_sse_field v)" "lf \<notin> set (sanitize_sse_field v)"
  by (auto simp: sanitize_sse_field_def)

lemma split_sse_clean: "line \<in> set (split_sse_lines v) \<Longrightarrow> cr \<notin> set line \<and> lf \<notin> set line"
proof -
  assume line: "line \<in> set (split_sse_lines v)"
  let ?t = "map (\<lambda>c. if c = cr then lf else c) (replace_crlf v)"
  have "p \<in> set (js_split lf s) \<Longrightarrow> set p \<subseteq> set s" for p s
  proof (induction s arbitrary: p)
    case (Cons c s)
    then show ?case
      by (cases "js_split lf s") (fastforce split: if_splits)+
  qed simp
  then have "set line \<subseteq> set ?t"
    using line unfolding split_sse_lines_def by blast
  moreover have "cr \<notin> set ?t"
    by auto
  ultimately show ?thesis
    using line js_split_no_sep unfolding split_sse_lines_def by blast
qed

lemma decimal_char: "c \<in> set (decimal n) \<Longrightarrow> 48 \<le> (of_char c :: nat)"
proof (induction n rule: decimal.induct)
  case (1 n)
  have digit: "d < 10 \<Longrightarrow> 48 \<le> (of_char (char_of (48 + d :: nat)) :: nat)" for d
    by simp
  have "n mod 10 < 10" by simp
  then show ?case
    using 1 digit by (subst (asm) (2) decimal.simps) (auto split: if_splits)
qed

lemma decimal_clean: "cr \<notin> set (decimal n)" "lf \<notin> set (decimal n)"
  using decimal_char by (fastforce simp: cr_def lf_def)+

lemma integer_text_clean: "cr \<notin> set (integer_text n)" "lf \<notin> set (integer_text n)"
proof -
  have digits: "c \<in> set (shortest_digits n) \<Longrightarrow> 48 \<le> (of_char c :: nat)" for c
    using decimal_char by (auto simp: shortest_digits_def split: option.splits)
  have "set (integer_text n) \<subseteq> set (decimal n) \<union> set (shortest_digits n) \<union> set ''.e+'' \<union> set (decimal (length (shortest_digits n) - 1))"
    by (auto simp: integer_text_def Let_def dest!: in_set_takeD in_set_dropD set_dropWhileD)
  then have "c \<in> set (integer_text n) \<Longrightarrow> 43 \<le> (of_char c :: nat)" for c
    using digits [of c] decimal_char [of c n] decimal_char [of c "length (shortest_digits n) - 1"] by fastforce
  then show "cr \<notin> set (integer_text n)" "lf \<notin> set (integer_text n)"
    by (fastforce simp: cr_def lf_def)+
qed

text \<open>The delays there are in practice are printed with their digits.\<close>

lemma integer_text_small: "n < 2 ^ 53 \<Longrightarrow> integer_text n = decimal n"
  by (simp add: integer_text_def)

lemma retry_line_clean: "line \<in> set (retry_line r) \<Longrightarrow> cr \<notin> set line \<and> lf \<notin> set line \<and> line \<noteq> []"
  using integer_text_clean by (auto simp: retry_line_def cr_def lf_def split: option.splits js_number.splits if_splits)

definition frame_lines :: "string \<Rightarrow> sse_options \<Rightarrow> string list" where
  "frame_lines text opts =
     (case sse_event opts of None \<Rightarrow> [] | Some v \<Rightarrow> [''event: '' @ sanitize_sse_field v]) @
     (case sse_id opts of None \<Rightarrow> [] | Some v \<Rightarrow> [''id: '' @ sanitize_sse_field v]) @
     retry_line (sse_retry opts) @ map (\<lambda>line. ''data: '' @ line) (split_sse_lines text)"

lemma frame_lines_clean:
  "line \<in> set (frame_lines text opts) \<Longrightarrow> cr \<notin> set line \<and> lf \<notin> set line \<and> line \<noteq> []"
  using retry_line_clean [of line "sse_retry opts"] sanitize_clean split_sse_clean
  by (auto simp: frame_lines_def cr_def lf_def split: option.splits)

lemma join_two_blank: "ls \<noteq> [] \<Longrightarrow> js_join [lf] ls @ [lf, lf] = js_join [lf] (ls @ [[], []])"
proof (induction "[lf]" ls rule: js_join.induct)
  case (3 x y ys)
  then show ?case by simp
qed simp_all

lemma frame_split:
  "js_split lf (js_join [lf] (frame_lines text opts) @ [lf, lf]) = frame_lines text opts @ [[], []]"
proof -
  have "frame_lines text opts \<noteq> []"
    by (simp add: frame_lines_def split_sse_lines_def)
  then show ?thesis
    using frame_lines_clean by (subst join_two_blank) (auto intro!: js_split_join)
qed

lemma read_frame_lines:
  "read_event (frame_lines text opts) =
     \<lparr>ce_event = map_option sanitize_sse_field (sse_event opts),
      ce_id = map_option sanitize_sse_field (sse_id opts),
      ce_retry = (case sse_retry opts of
          Some (Finite q) \<Rightarrow> if q \<ge> 0 then Some (integer_text (nat \<lfloor>q\<rfloor>)) else None | _ \<Rightarrow> None),
      ce_data = split_sse_lines text\<rparr>"
  by (auto simp: read_event_def frame_lines_def retry_line_def fold_read_data
      simp del: append_Cons split: option.splits js_number.splits)

text \<open>C34. A message frame is read back as the event it encodes: split at the line feeds, it is the
  field lines, none of them blank or with a carriage return, and the two empty pieces of the one
  blank line that ends it; and reading the lines gives the event name and the id without line
  breaks, the retry delay as JavaScript prints it, and the lines of the data. So nothing in the data, the event name or
  the id can end the event early or add a field to it.\<close>

theorem sse_frame_roundtrip:
  "case encode_sse_message v opts of
     Inl e \<Rightarrow> e = ThrownNotSerializable \<and> (\<forall>t. json_of v \<noteq> JsonText t)
   | Inr frame \<Rightarrow> \<exists>text ls. to_sse_data_string v = Inr text \<and> js_split lf frame = ls @ [[], []] \<and>
       [] \<notin> set ls \<and> cr \<notin> set frame \<and>
       read_event ls =
         \<lparr>ce_event = map_option sanitize_sse_field (sse_event opts),
          ce_id = map_option sanitize_sse_field (sse_id opts),
          ce_retry = (case sse_retry opts of
              Some (Finite q) \<Rightarrow> if q \<ge> 0 then Some (integer_text (nat \<lfloor>q\<rfloor>)) else None | _ \<Rightarrow> None),
          ce_data = split_sse_lines text\<rparr>"
proof (cases "to_sse_data_string v")
  case (Inl e)
  then show ?thesis
    by (cases v) (auto simp: encode_sse_message_def to_sse_data_string_def split: json.splits)
next
  case (Inr body)
  let ?ls = "frame_lines body opts"
  have frame: "encode_sse_message v opts = Inr (js_join [lf] ?ls @ [lf, lf])"
    using Inr by (simp add: encode_sse_message_def frame_lines_def del: append_Cons)
  have "set (js_join [lf] ls) \<subseteq> insert lf (\<Union> (set ` set ls))" for ls
    by (induction "[lf]" ls rule: js_join.induct) auto
  then have "cr \<notin> set (js_join [lf] ?ls @ [lf, lf])"
    using frame_lines_clean [of _ body opts] by fastforce
  then show ?thesis
    using Inr frame frame_split [of body opts] read_frame_lines [of body opts]
      frame_lines_clean [of "[]" body opts] by auto
qed

section \<open>Managed streams\<close>

fun item_frame :: "sse_item \<Rightarrow> string" where
  "item_frame (Item v opts gone) = (case encode_sse_message v opts of Inr f \<Rightarrow> f | Inl e \<Rightarrow> [])"
| "item_frame _ = []"

definition sse_live :: "bool \<times> http_response \<Rightarrow> bool" where
  "sse_live st \<longleftrightarrow> rs_committed (snd st) \<and> (fst st \<longrightarrow> rs_stream_closed (snd st))"

lemma sse_close_live:
  "sse_live st \<Longrightarrow> sse_live (sse_close st) \<and> rs_stream_closed (snd (sse_close st)) \<and>
     rs_frames (snd (sse_close st)) = rs_frames (snd st)"
  by (cases st) (auto simp: sse_live_def sse_close_def stream_close_def stream_activate_def)

lemma sse_close_facts:
  assumes "sse_live st"
  shows "rs_committed (snd (sse_close st))" "rs_stream_closed (snd (sse_close st))"
    "rs_frames (snd (sse_close st)) = rs_frames (snd st)"
  using sse_close_live [OF assms] by (auto simp: sse_live_def)

lemma sse_send_live:
  assumes "sse_live st" and "sse_send v opts st = (r, st')"
  shows "sse_live st'"
    and "rs_frames (snd st') = rs_frames (snd st) @
      (if rs_stream_closed (snd st) then [] else case encode_sse_message v opts of Inr f \<Rightarrow> [f] | Inl e \<Rightarrow> [])"
    and "rs_stream_closed (snd st) \<Longrightarrow> rs_stream_closed (snd st')"
  using assms
  by (auto simp: sse_live_def sse_send_def sse_write_frame_def sse_close_def stream_write_def
      stream_close_def stream_activate_def Let_def split: sum.splits prod.splits if_splits)

lemma sse_loop_spec:
  assumes "sse_live st"
  shows "let m = sse_loop items aborted st in
    rs_committed (ms_response m) \<and> rs_stream_closed (ms_response m) \<and>
    (\<exists>k. rs_frames (ms_response m) = rs_frames (snd st) @ map item_frame (take k items) \<and>
         (rs_stream_closed (snd st) \<longrightarrow> k = 0))"
  using assms
proof (induction items aborted st rule: sse_loop.induct)
  case (5 v opts gone items st)
  obtain r st' where run: "sse_send v opts st = (r, st')"
    by (cases "sse_send v opts st")
  note live = sse_send_live [OF 5(2) run]
  show ?case
  proof (cases r)
    case (Inl e)
    then have "encode_sse_message v opts = Inl e"
      using run by (auto simp: sse_send_def split: sum.splits prod.splits)
    then show ?thesis
      using Inl run live sse_close_live [OF live(1)]
      by (auto simp: sse_live_def intro!: exI [of _ 0])
  next
    case (Inr ok)
    let ?next = "if gone then sse_close st' else st'"
    have "sse_live ?next" and frames: "rs_frames (snd ?next) = rs_frames (snd st')"
      and shut: "rs_stream_closed (snd st') \<Longrightarrow> rs_stream_closed (snd ?next)"
      using sse_close_live [OF live(1)] live(1) by auto
    from 5(1) [OF run [symmetric] Inr this(1)] obtain k where
        m: "rs_committed (ms_response (sse_loop items gone ?next))"
           "rs_stream_closed (ms_response (sse_loop items gone ?next))"
           "rs_frames (ms_response (sse_loop items gone ?next)) =
              rs_frames (snd ?next) @ map item_frame (take k items)"
           "rs_stream_closed (snd ?next) \<longrightarrow> k = 0"
      by (auto simp: Let_def)
    obtain f where enc: "encode_sse_message v opts = Inr f"
      using run Inr by (auto simp: sse_send_def split: sum.splits)
    show ?thesis
    proof (cases "rs_stream_closed (snd st)")
      case True
      then show ?thesis
        using m shut live Inr run frames by (auto simp: Let_def intro!: exI [of _ 0])
    next
      case False
      then show ?thesis
        using m live(2) Inr run frames enc by (auto simp: Let_def intro!: exI [of _ "Suc k"])
    qed
  qed
qed (auto simp: Let_def sse_close_facts intro!: exI [of _ 0])

lemma set_header_fields [simp]:
  "rs_committed (set_header n v r) = rs_committed r" "rs_frames (set_header n v r) = rs_frames r"
  "rs_stream_closed (set_header n v r) = rs_stream_closed r"
  by (simp_all add: set_header_def Let_def)

lemma sse_open_live:
  "sse_live (sse_open aborted r)" "rs_frames (snd (sse_open aborted r)) = rs_frames r"
  by (simp_all add: sse_open_def sse_live_def sse_close_def stream_close_def stream_activate_def
      set_status_def Let_def)

text \<open>A managed event stream always ends closed and committed, whatever the handler's iterable
  yields or throws and whenever the client goes; and what was written is the frames of its first
  items, in order.\<close>

theorem managed_stream_closed:
  "let m = write_managed_sse items aborted r in
   rs_stream_closed (ms_response m) \<and> rs_committed (ms_response m) \<and>
   (\<exists>k. rs_frames (ms_response m) = rs_frames r @ map item_frame (take k items))"
  using sse_loop_spec [OF sse_open_live(1) [of aborted r], of items aborted]
  by (auto simp: write_managed_sse_def Let_def sse_open_live(2))

text \<open>A client that goes between two items leaves the handler's iterable running: the loop sees
  the abort at its head and ends without calling the iterator's \<open>return\<close>, which it does call when
  the abort arrives while it waits for an item.\<close>

theorem abort_between_items_leaves_iterator:
  "(let opts = \<lparr>sse_event = None, sse_id = None, sse_retry = None\<rparr>;
        between = write_managed_sse [Item (StringResult ''tick'') opts True, Stopped True] False new_response;
        waiting = write_managed_sse [Item (StringResult ''tick'') opts False, Stopped True] False new_response
    in (ms_aborted between, ms_iterator_closed between, ms_aborted waiting, ms_iterator_closed waiting)) =
   (True, False, True, True)"
  by code_simp

end
