(* ===== verification/Memory_Store.thy ===== *)
theory Memory_Store
  imports Complex_Main Prelude
begin

text \<open>
  The in-memory cache store (\<open>packages/cache-manager/src/stores/memory-store.ts\<close>): entries with an
  optional expiry, swept when the earliest expiry has passed and bounded by the number of
  entries; and the interface of a cache store (\<open>packages/cache-manager/src/types.ts\<close>), which the
  memory store is proved to implement.
\<close>

section \<open>The store\<close>

text \<open>\<open>MemoryCacheEntry\<close>; times are milliseconds.\<close>

record 'v cache_entry =
  ce_expires :: "int option"
  ce_value :: 'v

text \<open>The fields of \<open>MemoryStore\<close>. \<open>structuredClone\<close> of the host may refuse a value: it is the
  parameter \<open>clone\<close>.\<close>

record ('k, 'v) memory_store =
  ms_entries :: "('k, 'v cache_entry) js_map"
  ms_next_sweep :: int

definition max_entries :: nat where
  "max_entries = 1000"

definition empty_memory_store :: "('k, 'v) memory_store" where
  "empty_memory_store = \<lparr>ms_entries = [], ms_next_sweep = 0\<rparr>"

definition is_live :: "int \<Rightarrow> 'v cache_entry \<Rightarrow> bool" where
  "is_live now e = (case ce_expires e of None \<Rightarrow> True | Some x \<Rightarrow> now < x)"

text \<open>The loop of \<open>sweepExpiredEntries\<close>; \<open>None\<close> is positive infinity.\<close>

fun sweep_entries ::
  "('k, 'v cache_entry) js_map \<Rightarrow> int \<Rightarrow> int option \<Rightarrow> ('k, 'v cache_entry) js_map \<times> int option" where
  "sweep_entries [] now next = ([], next)"
| "sweep_entries ((k, e) # m) now next =
     (case ce_expires e of
        None \<Rightarrow> (let (m', next') = sweep_entries m now next in ((k, e) # m', next'))
      | Some x \<Rightarrow>
          if now \<ge> x then sweep_entries m now next
          else
            (let (m', next') = sweep_entries m now
                   (Some (case next of None \<Rightarrow> x | Some n \<Rightarrow> min n x)) in
             ((k, e) # m', next')))"

definition sweep_expired_entries ::
  "('k, 'v cache_entry) js_map \<Rightarrow> int \<Rightarrow> ('k, 'v cache_entry) js_map \<times> int" where
  "sweep_expired_entries m now =
     (let (m', next) = sweep_entries m now None in (m', case next of None \<Rightarrow> 0 | Some n \<Rightarrow> n))"

text \<open>\<open>enforceEntryLimit\<close>: the oldest entries go.\<close>

fun enforce_entry_limit :: "('k, 'v) js_map \<Rightarrow> ('k, 'v) js_map" where
  "enforce_entry_limit [] = []"
| "enforce_entry_limit (e # m) = (if length (e # m) > max_entries then enforce_entry_limit m else e # m)"

definition sweep_if_due :: "int \<Rightarrow> ('k, 'v) memory_store \<Rightarrow> ('k, 'v) memory_store" where
  "sweep_if_due now s =
     (if now \<ge> ms_next_sweep s
      then (let (m, next) = sweep_expired_entries (ms_entries s) now in
            \<lparr>ms_entries = m, ms_next_sweep = next\<rparr>)
      else s)"

definition memory_get ::
  "('v \<Rightarrow> 'v option) \<Rightarrow> int \<Rightarrow> 'k \<Rightarrow> ('k, 'v) memory_store \<Rightarrow>
   (unit, 'v option) result \<times> ('k, 'v) memory_store" where
  "memory_get clone now k s0 =
     (let s = sweep_if_due now s0 in
      case js_get (ms_entries s) k of
        None \<Rightarrow> (Inr None, s)
      | Some e \<Rightarrow>
          if (case ce_expires e of None \<Rightarrow> False | Some x \<Rightarrow> now \<ge> x)
          then (let (m, next) = sweep_expired_entries (js_delete k (ms_entries s)) now in
                (Inr None, \<lparr>ms_entries = m, ms_next_sweep = next\<rparr>))
          else (case clone (ce_value e) of None \<Rightarrow> (Inl (), s) | Some v \<Rightarrow> (Inr (Some v), s)))"

text \<open>\<open>Math.max(1, Math.floor(ttlSeconds * 1000))\<close>, for a positive finite number.\<close>

definition expiry :: "int \<Rightarrow> rat \<Rightarrow> int option" where
  "expiry now ttl = (if ttl > 0 then Some (now + max 1 \<lfloor>ttl * 1000\<rfloor>) else None)"

definition memory_set ::
  "('v \<Rightarrow> 'v option) \<Rightarrow> int \<Rightarrow> 'k \<Rightarrow> 'v \<Rightarrow> rat \<Rightarrow> ('k, 'v) memory_store \<Rightarrow>
   (unit, unit) result \<times> ('k, 'v) memory_store" where
  "memory_set clone now k v ttl s0 =
     (let s = sweep_if_due now s0 in
      case clone v of
        None \<Rightarrow> (Inl (), s)
      | Some v' \<Rightarrow>
          (let e = \<lparr>ce_expires = expiry now ttl, ce_value = v'\<rparr>;
               m = enforce_entry_limit (js_set k e (js_delete k (ms_entries s))) in
           (Inr (),
            \<lparr>ms_entries = m,
             ms_next_sweep =
               (case ce_expires e of
                  None \<Rightarrow> ms_next_sweep s
                | Some x \<Rightarrow> if ms_next_sweep s = 0 then x else min (ms_next_sweep s) x)\<rparr>)))"

definition memory_del :: "'k \<Rightarrow> ('k, 'v) memory_store \<Rightarrow> ('k, 'v) memory_store" where
  "memory_del k s = s\<lparr>ms_entries := js_delete k (ms_entries s)\<rparr>"

definition memory_reset :: "('k, 'v) memory_store \<Rightarrow> ('k, 'v) memory_store" where
  "memory_reset s = \<lparr>ms_entries = [], ms_next_sweep = 0\<rparr>"

section \<open>Sweeping\<close>

definition live_entries :: "int \<Rightarrow> ('k, 'v cache_entry) js_map \<Rightarrow> ('k, 'v cache_entry) js_map" where
  "live_entries now m = filter (\<lambda>(k, e). is_live now e) m"

lemma live_entries_simps [simp]:
  "live_entries now [] = []"
  "live_entries now ((k, e) # m) = (if is_live now e then (k, e) # live_entries now m else live_entries now m)"
  by (simp_all add: live_entries_def)

lemma sweep_entries_eq: "fst (sweep_entries m now next) = live_entries now m"
  by (induction m now "next" rule: sweep_entries.induct)
    (auto simp: is_live_def case_prod_beta Let_def split: option.splits)

text \<open>The earliest expiry the loop returns is a lower bound of those that remain.\<close>

lemma sweep_entries_next:
  "(\<forall>n. next = Some n \<longrightarrow> (\<exists>n'. snd (sweep_entries m now next) = Some n' \<and> n' \<le> n)) \<and>
   (\<forall>k e x. (k, e) \<in> set (live_entries now m) \<longrightarrow> ce_expires e = Some x \<longrightarrow>
     (\<exists>n. snd (sweep_entries m now next) = Some n \<and> n \<le> x))"
proof (induction m now "next" rule: sweep_entries.induct)
  case (2 k e m now "next")
  show ?case
  proof (cases "ce_expires e")
    case None
    then show ?thesis
      using "2.IH"(1) [OF None] by (auto simp: case_prod_beta Let_def is_live_def)
  next
    case (Some x)
    show ?thesis
    proof (cases "now \<ge> x")
      case True
      then show ?thesis
        using "2.IH"(2) [OF Some True] Some by (auto simp: is_live_def)
    next
      case False
      let ?next = "Some (case next of None \<Rightarrow> x | Some n \<Rightarrow> min n x)"
      note IH = "2.IH"(3) [OF Some False]
      obtain n' where n': "snd (sweep_entries m now ?next) = Some n'" "n' \<le> (case next of None \<Rightarrow> x | Some n \<Rightarrow> min n x)"
        using IH by blast
      have "n' \<le> x" and "\<And>n. next = Some n \<Longrightarrow> n' \<le> n"
        using n'(2) by (auto split: option.splits)
      then show ?thesis
        using IH n'(1) Some False by (auto simp: case_prod_beta Let_def is_live_def)
    qed
  qed
qed simp

lemma sweep_entries_above:
  "snd (sweep_entries m now next) = Some n \<Longrightarrow> (\<And>x. next = Some x \<Longrightarrow> now < x) \<Longrightarrow> now < n"
  by (induction m now "next" arbitrary: n rule: sweep_entries.induct)
    (auto simp: case_prod_beta Let_def split: option.splits if_splits)

text \<open>The invariant of the store: keys are distinct, there are no more entries than the limit, and
  no expiry lies before the next sweep, which is set if there is an expiry at all.\<close>

definition memory_ok :: "('k, 'v) memory_store \<Rightarrow> bool" where
  "memory_ok s \<longleftrightarrow>
     distinct (map fst (ms_entries s)) \<and> length (ms_entries s) \<le> max_entries \<and> 0 \<le> ms_next_sweep s \<and>
     (\<forall>(k, e) \<in> set (ms_entries s). \<forall>x. ce_expires e = Some x \<longrightarrow> 0 < ms_next_sweep s \<and> ms_next_sweep s \<le> x)"

lemma memory_ok_empty: "memory_ok empty_memory_store"
  by (simp add: memory_ok_def empty_memory_store_def)

lemma live_entries_subset: "set (live_entries now m) \<subseteq> set m"
  by (auto simp: live_entries_def)

lemma distinct_filter_keys: "distinct (map fst m) \<Longrightarrow> distinct (map fst (filter P m))"
  by (induction m) auto

lemma sweep_keeps_ok:
  assumes "distinct (map fst m)" and "length m \<le> max_entries" and "0 \<le> now"
    and "sweep_expired_entries m now = (m', next)"
  shows "m' = live_entries now m" and "memory_ok \<lparr>ms_entries = m', ms_next_sweep = next\<rparr>"
proof -
  show m': "m' = live_entries now m"
    using assms(4) sweep_entries_eq [of m now None]
    by (auto simp: sweep_expired_entries_def split: prod.splits option.splits)
  have "0 < next \<and> next \<le> x" if kept: "(k, e) \<in> set m'" "ce_expires e = Some x" for k e x
  proof -
    obtain n where n: "snd (sweep_entries m now None) = Some n" "n \<le> x"
      using sweep_entries_next [of None m now] kept unfolding m' by blast
    then have "next = n"
      using assms(4) by (auto simp: sweep_expired_entries_def split: prod.splits)
    moreover have "now < n"
      using n(1) sweep_entries_above [of m now None n] by simp
    ultimately show ?thesis
      using n(2) assms(3) by simp
  qed
  moreover have "0 \<le> next"
    using assms(3,4) sweep_entries_above [of m now None]
    by (fastforce simp: sweep_expired_entries_def split: prod.splits option.splits)
  ultimately show "memory_ok \<lparr>ms_entries = m', ms_next_sweep = next\<rparr>"
    using assms(1,2) le_trans [OF length_filter_le assms(2)]
    by (auto simp: memory_ok_def m' live_entries_def distinct_filter_keys)
qed

lemma sweep_if_due_ok:
  assumes "memory_ok s" and "0 \<le> now"
  shows "ms_entries (sweep_if_due now s) = live_entries now (ms_entries s)"
    and "memory_ok (sweep_if_due now s)"
proof -
  have ok: "distinct (map fst (ms_entries s))" "length (ms_entries s) \<le> max_entries"
    using assms(1) by (simp_all add: memory_ok_def)
  show "ms_entries (sweep_if_due now s) = live_entries now (ms_entries s)"
  proof (cases "now \<ge> ms_next_sweep s")
    case True
    then show ?thesis
      using sweep_keeps_ok(1) [OF ok assms(2)]
      by (auto simp: sweep_if_due_def split: prod.splits)
  next
    case False
    have "is_live now e" if "(k, e) \<in> set (ms_entries s)" for k e
      using assms(1) False that by (force simp: memory_ok_def is_live_def split: option.splits)
    then show ?thesis
      using False by (auto simp: sweep_if_due_def live_entries_def intro!: filter_True [symmetric])
  qed
  show "memory_ok (sweep_if_due now s)"
    using sweep_keeps_ok(2) [OF ok assms(2)] assms(1)
    by (auto simp: sweep_if_due_def split: prod.splits)
qed


section \<open>What the operations do\<close>

lemma enforce_entry_limit_eq: "enforce_entry_limit m = drop (length m - max_entries) m"
  by (induction m) (auto simp: Suc_diff_le not_less_eq_eq)

text \<open>The entries after a write: the live ones but for the key, in the order they were written, the
  new one last, and of these the most recent ones up to the limit.\<close>

definition after_write ::
  "int \<Rightarrow> 'k \<Rightarrow> 'v cache_entry \<Rightarrow> ('k, 'v cache_entry) js_map \<Rightarrow> ('k, 'v cache_entry) js_map" where
  "after_write now k e m =
     (let kept = filter (\<lambda>(j, x). j \<noteq> k \<and> is_live now x) m @ [(k, e)] in
      drop (length kept - max_entries) kept)"

lemma delete_filter: "js_delete k m = filter (\<lambda>(j, x). j \<noteq> k) m"
  by (induction m) auto

lemma set_after_delete: "js_set k e (js_delete k m) = js_delete k m @ [(k, e)]"
  by (induction m) auto

lemma memory_set_spec:
  assumes "memory_ok s" and "0 \<le> now" and "memory_set clone now k v ttl s = (r, s')"
  shows "memory_ok s'"
    and "case clone v of
           None \<Rightarrow> r = Inl () \<and> ms_entries s' = live_entries now (ms_entries s)
         | Some v' \<Rightarrow> r = Inr () \<and>
             ms_entries s' = after_write now k \<lparr>ce_expires = expiry now ttl, ce_value = v'\<rparr> (ms_entries s)"
proof -
  let ?s = "sweep_if_due now s"
  note swept = sweep_if_due_ok [OF assms(1,2)]
  have entries: "js_set k e (js_delete k (ms_entries ?s)) =
      filter (\<lambda>(j, x). j \<noteq> k \<and> is_live now x) (ms_entries s) @ [(k, e)]" for e
    by (simp only: set_after_delete) (simp add: swept(1) delete_filter live_entries_def split_def conj_commute)
  have written: "after_write now k e (ms_entries s) =
      drop (length (js_set k e (js_delete k (ms_entries ?s))) - max_entries) (js_set k e (js_delete k (ms_entries ?s)))" for e
    by (simp only: after_write_def Let_def entries)
  show "case clone v of
           None \<Rightarrow> r = Inl () \<and> ms_entries s' = live_entries now (ms_entries s)
         | Some v' \<Rightarrow> r = Inr () \<and>
             ms_entries s' = after_write now k \<lparr>ce_expires = expiry now ttl, ce_value = v'\<rparr> (ms_entries s)"
    using assms(3)
    by (auto simp: memory_set_def Let_def written swept(1) enforce_entry_limit_eq split: option.splits)
  show "memory_ok s'"
  proof (cases "clone v")
    case None
    then show ?thesis
      using assms(3) swept(2) by (simp add: memory_set_def Let_def)
  next
    case (Some v')
    let ?e = "\<lparr>ce_expires = expiry now ttl, ce_value = v'\<rparr>"
    let ?m = "js_set k ?e (js_delete k (ms_entries ?s))"
    let ?next = "case expiry now ttl of None \<Rightarrow> ms_next_sweep ?s
      | Some x \<Rightarrow> if ms_next_sweep ?s = 0 then x else min (ms_next_sweep ?s) x"
    have s': "s' = \<lparr>ms_entries = drop (length ?m - max_entries) ?m, ms_next_sweep = ?next\<rparr>"
      using assms(3) Some by (simp add: memory_set_def Let_def enforce_entry_limit_eq)
    have expires: "0 < x" if "expiry now ttl = Some x" for x
      using that assms(2) by (auto simp: expiry_def split: if_splits)
    have "0 < ?next \<and> ?next \<le> x" if "(j, y) \<in> set ?m" "ce_expires y = Some x" for j y x
    proof -
      have "(j, y) = (k, ?e) \<or> (j, y) \<in> set (ms_entries ?s)"
        using that(1) unfolding set_after_delete by (auto simp: delete_filter)
      then show ?thesis
      proof
        assume "(j, y) = (k, ?e)"
        then show ?thesis
          using that(2) swept(2) expires [of x] by (auto simp: memory_ok_def)
      next
        assume "(j, y) \<in> set (ms_entries ?s)"
        then have "0 < ms_next_sweep ?s \<and> ms_next_sweep ?s \<le> x"
          using that(2) swept(2) by (auto simp: memory_ok_def)
        then show ?thesis
          using expires by (auto split: option.splits)
      qed
    qed
    moreover have "0 \<le> ?next"
      using swept(2) expires by (force simp: memory_ok_def split: option.splits)
    moreover have "distinct (map fst ?m)"
      using swept(2) by (simp add: distinct_update distinct_delete memory_ok_def)
    ultimately show ?thesis
      by (auto simp: s' memory_ok_def drop_map [symmetric] distinct_drop dest!: in_set_dropD)
  qed
qed

text \<open>What a reader of the key gets from the entries at a time.\<close>

definition visible :: "int \<Rightarrow> ('k, 'v cache_entry) js_map \<Rightarrow> 'k \<Rightarrow> 'v option" where
  "visible now m k =
     (case js_get m k of None \<Rightarrow> None | Some e \<Rightarrow> if is_live now e then Some (ce_value e) else None)"

lemma get_live_entries:
  "distinct (map fst m) \<Longrightarrow>
   js_get (live_entries now m) k = (case js_get m k of Some e \<Rightarrow> if is_live now e then Some e else None | None \<Rightarrow> None)"
  by (induction m) (auto split: option.splits simp: map_of_eq_None_iff live_entries_def image_iff dest: map_of_SomeD)

lemma live_entries_live: "live_entries now (live_entries now m) = live_entries now m"
  by (simp add: live_entries_def)

lemma memory_get_spec:
  assumes "memory_ok s" and "0 \<le> now" and "memory_get clone now k s = (r, s')"
  shows "memory_ok s'" and "ms_entries s' = live_entries now (ms_entries s)"
    and "r = (case visible now (ms_entries s) k of None \<Rightarrow> Inr None
          | Some v \<Rightarrow> (case clone v of None \<Rightarrow> Inl () | Some v' \<Rightarrow> Inr (Some v')))"
proof -
  have distinct: "distinct (map fst (ms_entries s))"
    using assms(1) by (simp add: memory_ok_def)
  note swept = sweep_if_due_ok [OF assms(1,2)]
  have found: "js_get (ms_entries (sweep_if_due now s)) k =
      (case js_get (ms_entries s) k of Some e \<Rightarrow> if is_live now e then Some e else None | None \<Rightarrow> None)"
    by (simp add: swept(1) get_live_entries [OF distinct])
  have never_expired: "\<not> (case ce_expires e of None \<Rightarrow> False | Some x \<Rightarrow> now \<ge> x)"
    if "js_get (ms_entries (sweep_if_due now s)) k = Some e" for e
    using that found by (auto simp: is_live_def split: option.splits if_splits)
  have get: "memory_get clone now k s =
      (case js_get (ms_entries (sweep_if_due now s)) k of
         None \<Rightarrow> (Inr None, sweep_if_due now s)
       | Some e \<Rightarrow> (case clone (ce_value e) of
           None \<Rightarrow> (Inl (), sweep_if_due now s) | Some v \<Rightarrow> (Inr (Some v), sweep_if_due now s)))"
    using never_expired by (auto simp: memory_get_def Let_def split: option.splits)
  show "memory_ok s'" and "ms_entries s' = live_entries now (ms_entries s)"
    using assms(3) swept unfolding get by (auto split: option.splits)
  show "r = (case visible now (ms_entries s) k of None \<Rightarrow> Inr None
          | Some v \<Rightarrow> (case clone v of None \<Rightarrow> Inl () | Some v' \<Rightarrow> Inr (Some v')))"
    using assms(3) unfolding get found visible_def by (auto split: option.splits if_splits)
qed

section \<open>The store against its specification\<close>

text \<open>
  The specification has no sweeping: it is the list of writes that may still count, in the order
  they were made. A read sees the write of its key unless that has expired; a write forgets the
  expired ones, and the oldest if there are more than the limit.
\<close>

datatype ('k, 'v) cache_op = OpGet 'k | OpSet 'k 'v rat | OpDel 'k | OpReset

fun memory_op ::
  "('v \<Rightarrow> 'v option) \<Rightarrow> int \<Rightarrow> ('k, 'v) cache_op \<Rightarrow> ('k, 'v) memory_store \<Rightarrow>
   (unit, 'v option) result \<times> ('k, 'v) memory_store" where
  "memory_op clone now (OpGet k) s = memory_get clone now k s"
| "memory_op clone now (OpSet k v ttl) s =
     (let (r, s') = memory_set clone now k v ttl s in
      (case r of Inl e \<Rightarrow> Inl e | Inr _ \<Rightarrow> Inr None, s'))"
| "memory_op clone now (OpDel k) s = (Inr None, memory_del k s)"
| "memory_op clone now OpReset s = (Inr None, memory_reset s)"

fun memory_run ::
  "('v \<Rightarrow> 'v option) \<Rightarrow> (int \<times> ('k, 'v) cache_op) list \<Rightarrow> ('k, 'v) memory_store \<Rightarrow>
   (unit, 'v option) result list \<times> ('k, 'v) memory_store" where
  "memory_run clone [] s = ([], s)"
| "memory_run clone ((now, op) # ops) s =
     (let (r, s') = memory_op clone now op s; (rs, s'') = memory_run clone ops s' in (r # rs, s''))"

fun spec_op ::
  "('v \<Rightarrow> 'v option) \<Rightarrow> int \<Rightarrow> ('k, 'v) cache_op \<Rightarrow> ('k, 'v cache_entry) js_map \<Rightarrow>
   (unit, 'v option) result \<times> ('k, 'v cache_entry) js_map" where
  "spec_op clone now (OpGet k) m =
     (case visible now m k of
        None \<Rightarrow> (Inr None, m)
      | Some v \<Rightarrow> (case clone v of None \<Rightarrow> (Inl (), m) | Some v' \<Rightarrow> (Inr (Some v'), m)))"
| "spec_op clone now (OpSet k v ttl) m =
     (case clone v of
        None \<Rightarrow> (Inl (), m)
      | Some v' \<Rightarrow> (Inr None, after_write now k \<lparr>ce_expires = expiry now ttl, ce_value = v'\<rparr> m))"
| "spec_op clone now (OpDel k) m = (Inr None, js_delete k m)"
| "spec_op clone now OpReset m = (Inr None, [])"

fun spec_run ::
  "('v \<Rightarrow> 'v option) \<Rightarrow> (int \<times> ('k, 'v) cache_op) list \<Rightarrow> ('k, 'v cache_entry) js_map \<Rightarrow>
   (unit, 'v option) result list" where
  "spec_run clone [] m = []"
| "spec_run clone ((now, op) # ops) m =
     (let (r, m') = spec_op clone now op m in r # spec_run clone ops m')"

lemma visible_live: "distinct (map fst m) \<Longrightarrow> visible now (live_entries now m) k = visible now m k"
  by (auto simp: visible_def get_live_entries split: option.splits)

lemma live_entries_later: "t \<le> u \<Longrightarrow> live_entries u (live_entries t m) = live_entries u m"
  by (induction m) (auto simp: is_live_def split: option.splits)

lemma after_write_live: "after_write now k e (live_entries now m) = after_write now k e m"
proof -
  have "filter (\<lambda>(j, x). j \<noteq> k \<and> is_live now x) (live_entries now m) = filter (\<lambda>(j, x). j \<noteq> k \<and> is_live now x) m"
    by (auto simp: live_entries_def intro!: filter_cong)
  then show ?thesis
    by (simp only: after_write_def)
qed

lemma live_delete: "live_entries now (js_delete k m) = js_delete k (live_entries now m)"
  by (induction m) auto

lemma after_write_distinct:
  assumes "distinct (map fst m)"
  shows "distinct (map fst (after_write now k e m))"
proof -
  have "distinct (map fst (filter (\<lambda>(j, x). j \<noteq> k \<and> is_live now x) m @ [(k, e)]))"
    using assms by (auto simp: distinct_filter_keys)
  then show ?thesis
    by (simp only: after_write_def Let_def drop_map [symmetric] distinct_drop)
qed

lemma memory_del_ok: "memory_ok s \<Longrightarrow> memory_ok (memory_del k s)"
  using le_trans [OF length_delete_le [of k "ms_entries s"]]
  by (auto simp: memory_ok_def memory_del_def distinct_delete) (auto simp: delete_filter)

text \<open>One operation: the store and the specification agree on what is live, before and after.\<close>

lemma memory_op_refines:
  assumes "memory_ok s" and "distinct (map fst m)" and "0 \<le> now"
    and "live_entries now (ms_entries s) = live_entries now m"
    and "memory_op clone now op s = (r, s')" and "spec_op clone now op m = (q, m')"
  shows "r = q \<and> memory_ok s' \<and> distinct (map fst m') \<and> live_entries now (ms_entries s') = live_entries now m'"
proof (cases op)
  case (OpGet k)
  have "visible now (ms_entries s) k = visible now m k"
    using assms(1,2,4) visible_live [of "ms_entries s" now k] visible_live [of m now k]
    by (simp add: memory_ok_def)
  then show ?thesis
    using OpGet assms memory_get_spec [of s now clone k r s']
    by (auto simp: live_entries_live split: option.splits)
next
  case (OpSet k v ttl)
  obtain x where set: "memory_set clone now k v ttl s = (x, s')"
    using assms(5) OpSet by (cases "memory_set clone now k v ttl s") auto
  note spec = memory_set_spec [OF assms(1,3) set]
  have same: "after_write now k e (ms_entries s) = after_write now k e m" for e
    using after_write_live [of now k e m] after_write_live [of now k e "ms_entries s"] assms(4) by simp
  then show ?thesis
  proof (cases "clone v")
    case None
    then show ?thesis
      using OpSet assms(2,4-) set spec by (auto simp: live_entries_live)
  next
    case (Some v')
    let ?e = "\<lparr>ce_expires = expiry now ttl, ce_value = v'\<rparr>"
    have "m' = after_write now k ?e m" and "ms_entries s' = after_write now k ?e m" and "r = q"
      using OpSet assms(5,6) set spec(2) Some same [of ?e] by auto
    then show ?thesis
      using spec(1) after_write_distinct [OF assms(2)] by simp
  qed
next
  case (OpDel k)
  then show ?thesis
    using assms memory_del_ok [OF assms(1), of k] by (auto simp: memory_del_def live_delete distinct_delete)
next
  case OpReset
  then show ?thesis
    using assms by (auto simp: memory_reset_def memory_ok_def)
qed

lemma memory_run_refines:
  assumes "memory_ok s" and "distinct (map fst m)" and "sorted (t # map fst ops)" and "0 \<le> t"
    and "live_entries t (ms_entries s) = live_entries t m"
    and "memory_run clone ops s = (rs, s')"
  shows "rs = spec_run clone ops m \<and> memory_ok s'"
  using assms
proof (induction ops arbitrary: s m t rs)
  case (Cons top ops)
  obtain u op where top: "top = (u, op)" by fastforce
  obtain r s1 where step: "memory_op clone u op s = (r, s1)" by fastforce
  obtain q m1 where spec: "spec_op clone u op m = (q, m1)" by fastforce
  obtain rs' where rest: "memory_run clone ops s1 = (rs', s')" "rs = r # rs'"
    using Cons.prems(6) top step by (auto split: prod.splits)
  have "t \<le> u" and sorted: "sorted (u # map fst ops)" "0 \<le> u"
    using Cons.prems(3,4) top by auto
  then have "live_entries u (ms_entries s) = live_entries u m"
    using Cons.prems(5) by (metis live_entries_later)
  then have "r = q \<and> memory_ok s1 \<and> distinct (map fst m1) \<and> live_entries u (ms_entries s1) = live_entries u m1"
    using memory_op_refines [OF Cons.prems(1,2) sorted(2) _ step spec] by simp
  then show ?case
    using Cons.IH [of s1 m1 u rs'] sorted rest top spec by simp
qed simp

text \<open>C23. The memory store implements the specification without sweeping: whatever operations
  are made at times that do not go back, every read returns what the specification returns; so
  the lazy sweeps are invisible, a value is served until its time to live is over and not
  after, and a write evicts live entries only when there are more than the limit of them, the
  oldest writes first. The store never holds more entries than the limit.\<close>

theorem memory_store_refines:
  assumes "sorted (map fst ops)" and "\<forall>(t, op) \<in> set ops. 0 \<le> t"
    and "memory_run clone ops empty_memory_store = (rs, s)"
  shows "rs = spec_run clone ops [] \<and> length (ms_entries s) \<le> max_entries"
proof -
  have "sorted (0 # map fst ops)"
    using assms(1,2) by auto
  then show ?thesis
    using memory_run_refines [OF memory_ok_empty _ _ _ _ assms(3), of "[]" 0]
    by (simp add: empty_memory_store_def memory_ok_def)
qed

lemma memory_store_refines_witness:
  "memory_run Some [(5, OpSet ''a'' (7::nat) 2), (6, OpGet ''a''), (2005, OpGet ''a'')] empty_memory_store =
   ([Inr None, Inr (Some 7), Inr None], \<lparr>ms_entries = [], ms_next_sweep = 0\<rparr>)"
proof -
  let ?ops = "[(5, OpSet ''a'' (7::nat) 2), (6, OpGet ''a''), (2005, OpGet ''a'')]"
  have run: "memory_run Some ?ops empty_memory_store =
      ([Inr None, Inr (Some 7), Inr None], \<lparr>ms_entries = [], ms_next_sweep = 0\<rparr>)"
    by code_simp
  have "[Inr None, Inr (Some 7), Inr None] = spec_run Some ?ops []"
    using memory_store_refines [OF _ _ run] by simp
  then show ?thesis
    using run by simp
qed

section \<open>The interface of a cache store\<close>

text \<open>
  What the cache service relies on, of the entries a store holds for its keys: a read
  returns what is held or nothing, and never adds an entry; a write holds the copy it made of
  the value under its key, and adds nothing elsewhere; \<open>del\<close> and \<open>reset\<close> leave nothing.
  A store may forget entries at any time. Every operation carries the time.
\<close>

record ('k, 'v, 's) store_ops =
  st_get :: "nat \<Rightarrow> 'k \<Rightarrow> 's \<Rightarrow> (unit, 'v option) result \<times> 's"
  st_set :: "nat \<Rightarrow> 'k \<Rightarrow> 'v \<Rightarrow> rat \<Rightarrow> 's \<Rightarrow> (unit, unit) result \<times> 's"
  st_del :: "'k \<Rightarrow> 's \<Rightarrow> 's"
  st_reset :: "'s \<Rightarrow> 's"

locale cache_store =
  fixes ops :: "('k, 'v, 's) store_ops"
    and held :: "'s \<Rightarrow> 'k \<Rightarrow> 'v option"
    and copy :: "'v \<Rightarrow> 'v option"
    and ok :: "'s \<Rightarrow> bool"
  assumes get_result: "ok s \<Longrightarrow> st_get ops now k s = (Inr (Some v), s') \<Longrightarrow> \<exists>u. held s k = Some u \<and> copy u = Some v"
    and get_held: "ok s \<Longrightarrow> held (snd (st_get ops now k s)) \<subseteq>\<^sub>m held s"
    and set_held: "ok s \<Longrightarrow> held (snd (st_set ops now k v ttl s)) j = Some u \<Longrightarrow>
          held s j = Some u \<or> (j = k \<and> copy v = Some u)"
    and del_held: "ok s \<Longrightarrow> held (st_del ops k s) \<subseteq>\<^sub>m (held s)(k := None)"
    and reset_held: "held (st_reset ops s) = Map.empty"
    and keeps_ok: "ok s \<Longrightarrow> ok (snd (st_get ops now k s))" "ok s \<Longrightarrow> ok (snd (st_set ops now k v ttl s))"
          "ok s \<Longrightarrow> ok (st_del ops k s)" "ok (st_reset ops s)"
begin

lemma get_keeps_source: "ok s \<Longrightarrow> held (snd (st_get ops now k s)) j = Some u \<Longrightarrow> held s j = Some u"
  using get_held [of s now k] by (force simp: map_le_def dom_def)

lemma del_keeps_source: "ok s \<Longrightarrow> held (st_del ops k s) j = Some u \<Longrightarrow> j \<noteq> k \<and> held s j = Some u"
  using del_held [of s k] by (cases "j = k") (force simp: map_le_def dom_def)+

lemma del_absent: "ok s \<Longrightarrow> held (st_del ops k s) k = None"
  using del_keeps_source [of s k k] by (cases "held (st_del ops k s) k") auto

end

text \<open>The memory store keeps the laws.\<close>

definition memory_ops :: "('v \<Rightarrow> 'v option) \<Rightarrow> ('k, 'v, ('k, 'v) memory_store) store_ops" where
  "memory_ops clone =
     \<lparr>st_get = (\<lambda>now. memory_get clone (int now)), st_set = (\<lambda>now. memory_set clone (int now)),
      st_del = memory_del, st_reset = memory_reset\<rparr>"

definition memory_held :: "('k, 'v) memory_store \<Rightarrow> 'k \<Rightarrow> 'v option" where
  "memory_held s k = map_option ce_value (js_get (ms_entries s) k)"

lemma memory_held_eq:
  "memory_ok s \<Longrightarrow> memory_held s k = Some v \<longleftrightarrow> (\<exists>x. (k, \<lparr>ce_expires = x, ce_value = v\<rparr>) \<in> set (ms_entries s))"
  by (auto simp: memory_held_def memory_ok_def map_of_eq_Some_iff) (metis cache_entry.surjective old.unit.exhaust)

interpretation memory: cache_store "memory_ops clone" "memory_held :: ('k, 'v) memory_store \<Rightarrow> 'k \<Rightarrow> 'v option" clone memory_ok
  for clone :: "'v \<Rightarrow> 'v option"
proof
  fix s :: "('k, 'v) memory_store" and now k v s'
  assume ok: "memory_ok s" and "st_get (memory_ops clone) now k s = (Inr (Some v), s')"
  then have "memory_get clone (int now) k s = (Inr (Some v), s')"
    by (simp add: memory_ops_def)
  from memory_get_spec(3) [OF ok _ this] show "\<exists>u. memory_held s k = Some u \<and> clone u = Some v"
    by (auto simp: visible_def memory_held_def split: option.splits if_splits)
next
  fix s :: "('k, 'v) memory_store" and now k
  assume ok: "memory_ok s"
  obtain r s' where get: "memory_get clone (int now) k s = (r, s')" by fastforce
  have "memory_ok s'" and "set (ms_entries s') \<subseteq> set (ms_entries s)"
    using memory_get_spec(1,2) [OF ok _ get] live_entries_subset by auto
  then have "memory_held s' j = Some u \<Longrightarrow> memory_held s j = Some u" for j u
    using ok by (auto simp: memory_held_eq)
  then show "memory_held (snd (st_get (memory_ops clone) now k s)) \<subseteq>\<^sub>m memory_held s"
    by (auto simp: memory_ops_def get map_le_def dom_def)
next
  fix s :: "('k, 'v) memory_store" and now k v ttl j u
  assume ok: "memory_ok s" and held: "memory_held (snd (st_set (memory_ops clone) now k v ttl s)) j = Some u"
  obtain r s' where set: "memory_set clone (int now) k v ttl s = (r, s')" by fastforce
  have spec: "memory_ok s'" "case clone v of
           None \<Rightarrow> r = Inl () \<and> ms_entries s' = live_entries (int now) (ms_entries s)
         | Some v' \<Rightarrow> r = Inr () \<and>
             ms_entries s' = after_write (int now) k \<lparr>ce_expires = expiry (int now) ttl, ce_value = v'\<rparr> (ms_entries s)"
    using memory_set_spec [OF ok _ set] by simp_all
  obtain x where "(j, \<lparr>ce_expires = x, ce_value = u\<rparr>) \<in> set (ms_entries s')"
    using held spec(1) by (auto simp: memory_ops_def set memory_held_eq)
  then show "memory_held s j = Some u \<or> (j = k \<and> clone v = Some u)"
    using spec(2) ok live_entries_subset [of "int now" "ms_entries s"]
    by (auto simp: memory_held_eq after_write_def Let_def split: option.splits dest!: in_set_dropD)
next
  fix s :: "('k, 'v) memory_store" and k
  assume "memory_ok s"
  then show "memory_held (st_del (memory_ops clone) k s) \<subseteq>\<^sub>m (memory_held s)(k := None)"
    by (auto simp: memory_ops_def memory_del_def memory_held_def map_le_def)
next
  fix s :: "('k, 'v) memory_store" and now k v ttl
  show "memory_ok s \<Longrightarrow> memory_ok (snd (st_get (memory_ops clone) now k s))"
    by (simp add: memory_ops_def) (metis memory_get_spec(1) of_nat_0_le_iff prod.collapse)
  show "memory_ok s \<Longrightarrow> memory_ok (snd (st_set (memory_ops clone) now k v ttl s))"
    by (simp add: memory_ops_def) (metis memory_set_spec(1) of_nat_0_le_iff prod.collapse)
  show "memory_ok s \<Longrightarrow> memory_ok (st_del (memory_ops clone) k s)"
    by (simp add: memory_ops_def memory_del_ok)
  show "memory_ok (st_reset (memory_ops clone) s)"
    using memory_ok_empty by (simp add: memory_ops_def memory_reset_def empty_memory_store_def)
qed (simp add: memory_ops_def memory_reset_def memory_held_def fun_eq_iff)

end
