(* ===== verification/Cache_Service.thy ===== *)
theory Cache_Service
  imports Memory_Store Js_Number
begin

text \<open>
  The cache service (\<open>packages/cache-manager/src/service.ts\<close>): reads, writes and invalidations over a
  store, and read-through loading. Its operations are asynchronous and interleave: the
  service is a state with one step per stretch of code between two awaits, and a run is any
  sequence of such steps. A command takes effect in the store when it is issued, and its
  promise settles in a later step.
\<close>

section \<open>State\<close>

datatype load_error = LoaderRejected | StoreRejected

text \<open>Where the promise of a load stands: the loader runs; the value is being written, then perhaps
  deleted again; the callback has ended and the final cleanup is due; settled.\<close>

datatype 'v load_phase =
    Loading
  | Writing 'v "(unit, unit) result"
  | Deleting 'v
  | Settling "(load_error, 'v) result"
  | Settled "(load_error, 'v) result"

text \<open>\<open>InflightLoad\<close>, with what its callbacks close over. A load is its position in the list of all
  loads.\<close>

record ('k, 'v) load =
  ld_key :: 'k
  ld_generation :: nat
  ld_ttl :: "js_number option"
  ld_invalidated :: bool
  ld_phase :: "'v load_phase"

text \<open>A call of \<open>remember\<close>: it has read the store and awaits the reply, or has returned: a value, an
  error, or the promise of a load.\<close>

datatype 'v call_phase =
    Reading "(unit, 'v option) result"
  | Returned "(load_error, 'v) result"
  | Joined nat

record ('k, 'v) remember_call =
  rc_key :: 'k
  rc_generation :: nat
  rc_ttl :: "js_number option"
  rc_phase :: "'v call_phase"

record ('k, 'v, 's) cache_service =
  cs_store :: 's
  cs_now :: nat
  cs_default_ttl :: js_number
  cs_inflight :: "('k, nat) js_map"
  cs_pending_loads :: "('k, (nat, nat) js_map) js_map"
  cs_pending_invalidations :: "('k, nat) js_map"
  cs_invalidated_inflight :: "'k set"
  cs_closed :: bool
  cs_reset_version :: nat
  cs_loads :: "('k, 'v) load list"
  cs_calls :: "('k, 'v) remember_call list"

definition new_cache_service :: "'s \<Rightarrow> js_number \<Rightarrow> ('k, 'v, 's) cache_service" where
  "new_cache_service store ttl =
     \<lparr>cs_store = store, cs_now = 0, cs_default_ttl = ttl, cs_inflight = [], cs_pending_loads = [],
      cs_pending_invalidations = [], cs_invalidated_inflight = {}, cs_closed = False,
      cs_reset_version = 0, cs_loads = [], cs_calls = []\<rparr>"

section \<open>Bookkeeping\<close>

definition begin_pending_load :: "'k \<Rightarrow> nat \<Rightarrow> ('k, 'v, 's) cache_service \<Rightarrow> ('k, 'v, 's) cache_service" where
  "begin_pending_load k gen s =
     (let generations = (case js_get (cs_pending_loads s) k of None \<Rightarrow> [] | Some g \<Rightarrow> g);
          count = (case js_get generations gen of None \<Rightarrow> 0 | Some n \<Rightarrow> n) in
      s\<lparr>cs_pending_loads := js_set k (js_set gen (count + 1) generations) (cs_pending_loads s)\<rparr>)"

definition end_pending_load :: "'k \<Rightarrow> nat \<Rightarrow> ('k, 'v, 's) cache_service \<Rightarrow> ('k, 'v, 's) cache_service" where
  "end_pending_load k gen s =
     (case js_get (cs_pending_loads s) k of
        None \<Rightarrow> s
      | Some generations \<Rightarrow>
          (let count = (case js_get generations gen of None \<Rightarrow> 0 | Some n \<Rightarrow> n) in
           if count > 1
           then s\<lparr>cs_pending_loads := js_set k (js_set gen (count - 1) generations) (cs_pending_loads s)\<rparr>
           else
             (let left = js_delete gen generations in
              s\<lparr>cs_pending_loads :=
                 (if left = [] then js_delete k (cs_pending_loads s)
                  else js_set k left (cs_pending_loads s))\<rparr>)))"

definition in_store ::
  "('s \<Rightarrow> 'a \<times> 's) \<Rightarrow> ('k, 'v, 's) cache_service \<Rightarrow> 'a \<times> ('k, 'v, 's) cache_service" where
  "in_store f s = (let (r, store) = f (cs_store s) in (r, s\<lparr>cs_store := store\<rparr>))"

definition on_load ::
  "nat \<Rightarrow> (('k, 'v) load \<Rightarrow> ('k, 'v) load) \<Rightarrow> ('k, 'v, 's) cache_service \<Rightarrow> ('k, 'v, 's) cache_service" where
  "on_load l f s = s\<lparr>cs_loads := (cs_loads s)[l := f (cs_loads s ! l)]\<rparr>"

section \<open>Direct operations\<close>

text \<open>\<open>set\<close>: a time to live that is negative or no finite number makes the call do nothing.\<close>

definition service_set ::
  "('k, 'v, 's) store_ops \<Rightarrow> 'k \<Rightarrow> 'v \<Rightarrow> js_number option \<Rightarrow> ('k, 'v, 's) cache_service \<Rightarrow>
   (unit, unit) result \<times> ('k, 'v, 's) cache_service" where
  "service_set ops k v ttl s =
     (case (case ttl of None \<Rightarrow> cs_default_ttl s | Some t \<Rightarrow> t) of
        Finite q \<Rightarrow> if q < 0 then (Inr (), s) else in_store (st_set ops (cs_now s) k v q) s
      | _ \<Rightarrow> (Inr (), s))"

definition service_del ::
  "('k, 'v, 's) store_ops \<Rightarrow> 'k \<Rightarrow> ('k, 'v, 's) cache_service \<Rightarrow> ('k, 'v, 's) cache_service" where
  "service_del ops k s =
     (let s' =
        (case js_get (cs_inflight s) k of
           Some l \<Rightarrow>
             (on_load l (\<lambda>e. e\<lparr>ld_invalidated := True\<rparr>) s)
               \<lparr>cs_invalidated_inflight := insert k (cs_invalidated_inflight s)\<rparr>
         | None \<Rightarrow>
             if js_has (cs_pending_loads s) k
             then s\<lparr>cs_pending_invalidations := js_set k (cs_reset_version s) (cs_pending_invalidations s),
                    cs_invalidated_inflight := insert k (cs_invalidated_inflight s)\<rparr>
             else s) in
      s'\<lparr>cs_store := st_del ops k (cs_store s')\<rparr>)"

definition clear_bookkeeping :: "('k, 'v, 's) cache_service \<Rightarrow> ('k, 'v, 's) cache_service" where
  "clear_bookkeeping s =
     s\<lparr>cs_inflight := [], cs_pending_loads := [], cs_pending_invalidations := [], cs_invalidated_inflight := {}\<rparr>"

definition service_reset ::
  "('k, 'v, 's) store_ops \<Rightarrow> ('k, 'v, 's) cache_service \<Rightarrow> ('k, 'v, 's) cache_service" where
  "service_reset ops s =
     (clear_bookkeeping s)\<lparr>cs_reset_version := cs_reset_version s + 1, cs_store := st_reset ops (cs_store s)\<rparr>"

text \<open>\<open>close\<close>; what the store's own teardown does is up to the store.\<close>

definition service_close :: "('k, 'v, 's) cache_service \<Rightarrow> ('k, 'v, 's) cache_service" where
  "service_close s = (if cs_closed s then s else (clear_bookkeeping s)\<lparr>cs_closed := True\<rparr>)"

section \<open>Read-through loading\<close>

text \<open>\<open>remember\<close> up to the read of the store.\<close>

definition remember_begin ::
  "('k, 'v, 's) store_ops \<Rightarrow> 'k \<Rightarrow> js_number option \<Rightarrow> ('k, 'v, 's) cache_service \<Rightarrow> ('k, 'v, 's) cache_service" where
  "remember_begin ops k ttl s =
     (let gen = cs_reset_version s;
          (cached, s') = in_store (st_get ops (cs_now s) k) (begin_pending_load k gen s) in
      s'\<lparr>cs_calls := cs_calls s' @
          [\<lparr>rc_key = k, rc_generation = gen, rc_ttl = ttl, rc_phase = Reading cached\<rparr>]\<rparr>)"

definition return_call ::
  "nat \<Rightarrow> 'v call_phase \<Rightarrow> ('k, 'v, 's) cache_service \<Rightarrow> ('k, 'v, 's) cache_service" where
  "return_call c phase s =
     (let call = cs_calls s ! c in
      end_pending_load (rc_key call) (rc_generation call)
        (s\<lparr>cs_calls := (cs_calls s)[c := call\<lparr>rc_phase := phase\<rparr>]\<rparr>))"

text \<open>The load a miss starts: its loader is called at once. A loader that throws instead of returning
  a promise leaves no load.\<close>

definition start_load :: "nat \<Rightarrow> bool \<Rightarrow> ('k, 'v, 's) cache_service \<Rightarrow> ('k, 'v, 's) cache_service" where
  "start_load c throws s =
     (let call = cs_calls s ! c; k = rc_key call;
          entry = \<lparr>ld_key = k, ld_generation = rc_generation call, ld_ttl = rc_ttl call,
            ld_invalidated = (js_get (cs_pending_invalidations s) k = Some (rc_generation call)),
            ld_phase = Loading\<rparr> in
      if throws then return_call c (Returned (Inl LoaderRejected)) s
      else return_call c (Joined (length (cs_loads s)))
             (s\<lparr>cs_loads := cs_loads s @ [entry], cs_inflight := js_set k (length (cs_loads s)) (cs_inflight s)\<rparr>))"

text \<open>\<open>remember\<close> from the reply of the store on.\<close>

definition remember_continue :: "nat \<Rightarrow> bool \<Rightarrow> ('k, 'v, 's) cache_service \<Rightarrow> ('k, 'v, 's) cache_service" where
  "remember_continue c throws s =
     (if c < length (cs_calls s)
      then (case rc_phase (cs_calls s ! c) of
          Reading (Inl e) \<Rightarrow> return_call c (Returned (Inl StoreRejected)) s
        | Reading (Inr (Some v)) \<Rightarrow> return_call c (Returned (Inr v)) s
        | Reading (Inr None) \<Rightarrow>
            (case js_get (cs_inflight s) (rc_key (cs_calls s ! c)) of
               Some l \<Rightarrow> return_call c (Joined l) s
             | None \<Rightarrow> start_load c throws s)
        | _ \<Rightarrow> s)
      else s)"

definition is_stale :: "('k, 'v, 's) cache_service \<Rightarrow> ('k, 'v) load \<Rightarrow> bool" where
  "is_stale s e \<longleftrightarrow> ld_invalidated e \<or> cs_reset_version s \<noteq> ld_generation e"

text \<open>The callback of the loader's promise, up to the write; \<open>None\<close> is a rejection.\<close>

definition loader_settles ::
  "('k, 'v, 's) store_ops \<Rightarrow> nat \<Rightarrow> 'v option \<Rightarrow> ('k, 'v, 's) cache_service \<Rightarrow> ('k, 'v, 's) cache_service" where
  "loader_settles ops l outcome s =
     (if l < length (cs_loads s) \<and> ld_phase (cs_loads s ! l) = Loading
      then (case outcome of
          None \<Rightarrow> on_load l (\<lambda>e. e\<lparr>ld_phase := Settling (Inl LoaderRejected)\<rparr>) s
        | Some v \<Rightarrow>
            (let e = cs_loads s ! l in
             if is_stale s e then on_load l (\<lambda>e. e\<lparr>ld_phase := Settling (Inr v)\<rparr>) s
             else
               (let (r, s') = service_set ops (ld_key e) v (ld_ttl e) s in
                on_load l (\<lambda>e. e\<lparr>ld_phase := Writing v r\<rparr>) s')))
      else s)"

text \<open>The callback after the write, and after the deletion that may follow it.\<close>

definition write_done ::
  "('k, 'v, 's) store_ops \<Rightarrow> nat \<Rightarrow> ('k, 'v, 's) cache_service \<Rightarrow> ('k, 'v, 's) cache_service" where
  "write_done ops l s =
     (if l < length (cs_loads s)
      then (case ld_phase (cs_loads s ! l) of
          Writing v (Inl e) \<Rightarrow> on_load l (\<lambda>e. e\<lparr>ld_phase := Settling (Inl StoreRejected)\<rparr>) s
        | Writing v (Inr _) \<Rightarrow>
            if is_stale s (cs_loads s ! l)
            then on_load l (\<lambda>e. e\<lparr>ld_phase := Deleting v\<rparr>)
                   (s\<lparr>cs_store := st_del ops (ld_key (cs_loads s ! l)) (cs_store s)\<rparr>)
            else on_load l (\<lambda>e. e\<lparr>ld_phase := Settling (Inr v)\<rparr>) s
        | _ \<Rightarrow> s)
      else s)"

definition deletion_done :: "nat \<Rightarrow> ('k, 'v, 's) cache_service \<Rightarrow> ('k, 'v, 's) cache_service" where
  "deletion_done l s =
     (if l < length (cs_loads s)
      then (case ld_phase (cs_loads s ! l) of
          Deleting v \<Rightarrow> on_load l (\<lambda>e. e\<lparr>ld_phase := Settling (Inr v)\<rparr>) s
        | _ \<Rightarrow> s)
      else s)"

text \<open>The \<open>finally\<close> of a load.\<close>

definition finalize_load :: "nat \<Rightarrow> ('k, 'v, 's) cache_service \<Rightarrow> ('k, 'v, 's) cache_service" where
  "finalize_load l s =
     (if l < length (cs_loads s)
      then (case ld_phase (cs_loads s ! l) of
          Settling r \<Rightarrow>
            (let e = cs_loads s ! l; k = ld_key e;
                 s1 = (if js_get (cs_inflight s) k = Some l
                       then s\<lparr>cs_inflight := js_delete k (cs_inflight s),
                              cs_invalidated_inflight := cs_invalidated_inflight s - {k}\<rparr>
                       else s);
                 s2 = (if js_get (cs_pending_invalidations s) k = Some (ld_generation e)
                       then s1\<lparr>cs_pending_invalidations := js_delete k (cs_pending_invalidations s)\<rparr>
                       else s1) in
             on_load l (\<lambda>e. e\<lparr>ld_phase := Settled r\<rparr>) s2)
        | _ \<Rightarrow> s)
      else s)"

section \<open>Runs\<close>

text \<open>
  The steps in which a run proceeds; one whose promise is not pending does nothing. A loader
  must not call the service before its first await: then its call and the bookkeeping after it are
  one step.
\<close>

datatype ('k, 'v) cache_action =
    Elapse nat
  | CallGet 'k
  | CallSet 'k 'v "js_number option"
  | CallDel 'k
  | CallReset
  | CallClose
  | CallRemember 'k "js_number option"
  | ReadArrives nat bool
  | LoaderSettles nat "'v option"
  | WriteDone nat
  | DeletionDone nat
  | Finalize nat

fun cache_step ::
  "('k, 'v, 's) store_ops \<Rightarrow> ('k, 'v) cache_action \<Rightarrow> ('k, 'v, 's) cache_service \<Rightarrow> ('k, 'v, 's) cache_service" where
  "cache_step ops (Elapse ms) s = s\<lparr>cs_now := cs_now s + ms\<rparr>"
| "cache_step ops (CallGet k) s = snd (in_store (st_get ops (cs_now s) k) s)"
| "cache_step ops (CallSet k v ttl) s = snd (service_set ops k v ttl s)"
| "cache_step ops (CallDel k) s = service_del ops k s"
| "cache_step ops CallReset s = service_reset ops s"
| "cache_step ops CallClose s = service_close s"
| "cache_step ops (CallRemember k ttl) s = remember_begin ops k ttl s"
| "cache_step ops (ReadArrives c throws) s = remember_continue c throws s"
| "cache_step ops (LoaderSettles l r) s = loader_settles ops l r s"
| "cache_step ops (WriteDone l) s = write_done ops l s"
| "cache_step ops (DeletionDone l) s = deletion_done l s"
| "cache_step ops (Finalize l) s = finalize_load l s"

definition cache_run ::
  "('k, 'v, 's) store_ops \<Rightarrow> ('k, 'v) cache_action list \<Rightarrow> ('k, 'v, 's) cache_service \<Rightarrow> ('k, 'v, 's) cache_service" where
  "cache_run ops as s = fold (cache_step ops) as s"

end
