(* ===== verification/Cache_Facts.thy ===== *)
theory Cache_Facts
  imports Cache_Service
begin

text \<open>
  What the cache service guarantees over any store that keeps the laws of \<open>cache_store\<close>: a load
  that is overtaken by an invalidation does not bring its value back, and loads of a key are
  shared. The properties are stated for the memory store, through its interpretation.
\<close>

section \<open>Single steps\<close>

lemmas service_defs =
  begin_pending_load_def end_pending_load_def in_store_def on_load_def service_set_def service_del_def
  clear_bookkeeping_def service_reset_def service_close_def remember_begin_def return_call_def start_load_def
  remember_continue_def loader_settles_def write_done_def deletion_done_def finalize_load_def

text \<open>What the bookkeeping functions leave alone.\<close>

lemma end_pending_load_fields [simp]:
  "cs_store (end_pending_load k g s) = cs_store s"
  "cs_inflight (end_pending_load k g s) = cs_inflight s"
  "cs_loads (end_pending_load k g s) = cs_loads s"
  "cs_calls (end_pending_load k g s) = cs_calls s"
  "cs_reset_version (end_pending_load k g s) = cs_reset_version s"
  "cs_closed (end_pending_load k g s) = cs_closed s"
  by (simp_all add: end_pending_load_def Let_def split: option.split)

lemma begin_pending_load_fields [simp]:
  "cs_store (begin_pending_load k g s) = cs_store s"
  "cs_inflight (begin_pending_load k g s) = cs_inflight s"
  "cs_loads (begin_pending_load k g s) = cs_loads s"
  "cs_calls (begin_pending_load k g s) = cs_calls s"
  "cs_reset_version (begin_pending_load k g s) = cs_reset_version s"
  "cs_closed (begin_pending_load k g s) = cs_closed s"
  by (simp_all add: begin_pending_load_def Let_def)

lemma in_store_fields [simp]:
  "cs_store (snd (in_store f s)) = snd (f (cs_store s))"
  "cs_inflight (snd (in_store f s)) = cs_inflight s"
  "cs_loads (snd (in_store f s)) = cs_loads s"
  "cs_calls (snd (in_store f s)) = cs_calls s"
  "cs_reset_version (snd (in_store f s)) = cs_reset_version s"
  "cs_closed (snd (in_store f s)) = cs_closed s"
  by (simp_all add: in_store_def split_def Let_def)

lemma service_set_fields [simp]:
  "cs_inflight (snd (service_set ops k v ttl s)) = cs_inflight s"
  "cs_loads (snd (service_set ops k v ttl s)) = cs_loads s"
  "cs_calls (snd (service_set ops k v ttl s)) = cs_calls s"
  "cs_reset_version (snd (service_set ops k v ttl s)) = cs_reset_version s"
  "cs_closed (snd (service_set ops k v ttl s)) = cs_closed s"
  by (simp_all add: service_set_def split: option.split js_number.split)

lemma on_load_fields [simp]:
  "cs_store (on_load l f s) = cs_store s"
  "cs_inflight (on_load l f s) = cs_inflight s"
  "cs_loads (on_load l f s) = (cs_loads s)[l := f (cs_loads s ! l)]"
  "cs_calls (on_load l f s) = cs_calls s"
  "cs_reset_version (on_load l f s) = cs_reset_version s"
  "cs_closed (on_load l f s) = cs_closed s"
  by (simp_all add: on_load_def)

lemma return_call_fields [simp]:
  "cs_store (return_call c p s) = cs_store s"
  "cs_inflight (return_call c p s) = cs_inflight s"
  "cs_loads (return_call c p s) = cs_loads s"
  "cs_calls (return_call c p s) = (cs_calls s)[c := (cs_calls s ! c)\<lparr>rc_phase := p\<rparr>]"
  "cs_reset_version (return_call c p s) = cs_reset_version s"
  "cs_closed (return_call c p s) = cs_closed s"
  by (simp_all add: return_call_def Let_def)

lemma nth_update: "i < length xs \<Longrightarrow> xs[j := x] ! i = (if i = j then x else xs ! i)"
  by (cases "j < length xs") auto

definition unsettled :: "('k, 'v) load \<Rightarrow> bool" where
  "unsettled e = (\<forall>r. ld_phase e \<noteq> Settled r)"

text \<open>Every step leaves the loads there are with their key and generation, adds at most one, and
  never brings a load back to its loader, nor takes back an invalidation.\<close>

definition load_steps :: "('k, 'v) load \<Rightarrow> ('k, 'v) load \<Rightarrow> bool" where
  "load_steps e e' \<longleftrightarrow>
     ld_key e' = ld_key e \<and> ld_generation e' = ld_generation e \<and>
     (ld_invalidated e \<longrightarrow> ld_invalidated e') \<and> (ld_phase e' = Loading \<longrightarrow> ld_phase e = Loading)"

lemma load_steps_refl [simp]: "load_steps e e"
  by (simp add: load_steps_def)

definition grown :: "('k, 'v, 's) cache_service \<Rightarrow> ('k, 'v, 's) cache_service \<Rightarrow> bool" where
  "grown s s' \<longleftrightarrow>
     cs_reset_version s \<le> cs_reset_version s' \<and> length (cs_loads s) \<le> length (cs_loads s') \<and>
     (\<forall>l < length (cs_loads s). load_steps (cs_loads s ! l) (cs_loads s' ! l))"

lemma grown_same:
  "cs_reset_version s \<le> cs_reset_version s' \<Longrightarrow> cs_loads s' = cs_loads s \<Longrightarrow> grown s s'"
  by (simp add: grown_def)

lemma grown_on_load:
  "cs_reset_version s' = cs_reset_version s \<Longrightarrow> cs_loads s' = cs_loads s \<Longrightarrow>
   (l < length (cs_loads s) \<Longrightarrow> load_steps (cs_loads s ! l) (f (cs_loads s ! l))) \<Longrightarrow> grown s (on_load l f s')"
  by (simp add: grown_def nth_update)

lemma grown_update [intro]:
  "grown s s' \<Longrightarrow> grown s (s'\<lparr>cs_store := x\<rparr>)" "grown s s' \<Longrightarrow> grown s (s'\<lparr>cs_invalidated_inflight := y\<rparr>)"
  "grown s s' \<Longrightarrow> grown s (return_call c p s')"
  by (simp_all add: grown_def)

lemma start_load_grown: "grown s (start_load c throws s)"
  by (auto simp: start_load_def Let_def grown_def nth_append)

lemma step_grown: "grown s (cache_step ops a s)"
proof (cases a)
  case (CallDel k)
  then show ?thesis
    by (auto simp: service_del_def Let_def split: option.split intro: grown_same)
      (auto simp: load_steps_def intro!: grown_update grown_on_load)
next
  case (ReadArrives c throws)
  then show ?thesis
    by (auto simp: remember_continue_def start_load_grown split: option.split call_phase.split sum.split
        intro: grown_same)
next
  case (LoaderSettles l r)
  then show ?thesis
    by (auto simp: loader_settles_def Let_def split_def load_steps_def split: option.split
        intro: grown_on_load grown_same)
next
  case (WriteDone l)
  then show ?thesis
    by (auto simp: write_done_def load_steps_def split: load_phase.split sum.split intro: grown_on_load grown_same)
next
  case (Finalize l)
  then show ?thesis
    by (auto simp: finalize_load_def Let_def load_steps_def split: load_phase.split intro: grown_on_load grown_same)
qed (auto simp: service_reset_def clear_bookkeeping_def service_close_def remember_begin_def Let_def split_def
    deletion_done_def load_steps_def split: load_phase.split intro: grown_on_load grown_same)

section \<open>The invariant\<close>

context cache_store
begin

text \<open>The store is well formed, the in-flight map points to loads of its keys, generations are not
  ahead of the service, and until the service is closed every unsettled load of the current
  generation is the one in flight for its key.\<close>

definition service_ok :: "('k, 'v, 's) cache_service \<Rightarrow> bool" where
  "service_ok s \<longleftrightarrow>
     ok (cs_store s) \<and>
     (\<forall>k l. js_get (cs_inflight s) k = Some l \<longrightarrow> l < length (cs_loads s) \<and> ld_key (cs_loads s ! l) = k) \<and>
     (\<forall>l < length (cs_loads s). ld_generation (cs_loads s ! l) \<le> cs_reset_version s) \<and>
     (\<forall>c < length (cs_calls s). rc_generation (cs_calls s ! c) \<le> cs_reset_version s) \<and>
     (\<not> cs_closed s \<longrightarrow> (\<forall>l < length (cs_loads s).
        unsettled (cs_loads s ! l) \<and> ld_generation (cs_loads s ! l) = cs_reset_version s \<longrightarrow>
        js_get (cs_inflight s) (ld_key (cs_loads s ! l)) = Some l))"

lemma service_ok_new: "ok store \<Longrightarrow> service_ok (new_cache_service store ttl)"
  by (simp add: service_ok_def new_cache_service_def)

text \<open>A step that only moves phases on.\<close>

definition only_moves :: "('k, 'v, 's) cache_service \<Rightarrow> ('k, 'v, 's) cache_service \<Rightarrow> bool" where
  "only_moves s s' \<longleftrightarrow>
     cs_inflight s' = cs_inflight s \<and> cs_reset_version s' = cs_reset_version s \<and> cs_closed s' = cs_closed s \<and>
     length (cs_loads s') = length (cs_loads s) \<and> length (cs_calls s') = length (cs_calls s) \<and>
     (\<forall>l < length (cs_loads s). ld_key (cs_loads s' ! l) = ld_key (cs_loads s ! l) \<and>
        ld_generation (cs_loads s' ! l) = ld_generation (cs_loads s ! l) \<and>
        (unsettled (cs_loads s' ! l) \<longrightarrow> unsettled (cs_loads s ! l))) \<and>
     (\<forall>c < length (cs_calls s). rc_generation (cs_calls s' ! c) = rc_generation (cs_calls s ! c))"

lemma only_moves_refl [simp]: "only_moves s s"
  by (simp add: only_moves_def)

lemma only_moves_ok:
  assumes ok: "service_ok s" and moves: "only_moves s s'" and store: "ok (cs_store s')"
  shows "service_ok s'"
proof -
  have "l < length (cs_loads s') \<and> ld_key (cs_loads s' ! l) = k" if "js_get (cs_inflight s') k = Some l" for k l
    using ok moves that by (simp add: service_ok_def only_moves_def)
  moreover have "ld_generation (cs_loads s' ! l) \<le> cs_reset_version s'" if "l < length (cs_loads s')" for l
    using ok moves that by (simp add: service_ok_def only_moves_def)
  moreover have "rc_generation (cs_calls s' ! c) \<le> cs_reset_version s'" if "c < length (cs_calls s')" for c
    using ok moves that by (simp add: service_ok_def only_moves_def)
  moreover have "js_get (cs_inflight s') (ld_key (cs_loads s' ! l)) = Some l"
    if "\<not> cs_closed s'" "l < length (cs_loads s')" "unsettled (cs_loads s' ! l)"
      "ld_generation (cs_loads s' ! l) = cs_reset_version s'" for l
    using ok moves that by (simp add: service_ok_def only_moves_def)
  ultimately show ?thesis
    using store unfolding service_ok_def by blast
qed

lemma only_moves_step [intro]:
  "only_moves s s' \<Longrightarrow> only_moves s (return_call c p s')"
  "only_moves s s' \<Longrightarrow> only_moves s (s'\<lparr>cs_store := x\<rparr>)"
  "only_moves s s' \<Longrightarrow> only_moves s (s'\<lparr>cs_invalidated_inflight := y\<rparr>)"
  "only_moves s s' \<Longrightarrow> only_moves s (s'\<lparr>cs_pending_invalidations := z\<rparr>)"
  by (auto simp: only_moves_def nth_update)

lemma only_moves_on_load:
  assumes "only_moves s s'"
    and "l < length (cs_loads s') \<Longrightarrow> ld_key (f (cs_loads s' ! l)) = ld_key (cs_loads s' ! l) \<and>
       ld_generation (f (cs_loads s' ! l)) = ld_generation (cs_loads s' ! l) \<and>
       (unsettled (f (cs_loads s' ! l)) \<longrightarrow> unsettled (cs_loads s' ! l))"
  shows "only_moves s (on_load l f s')"
  using assms by (auto simp: only_moves_def nth_update)

lemma service_set_moves: "only_moves s (snd (service_set ops k v ttl s))"
  by (simp add: only_moves_def)

lemma service_set_store_ok: "ok (cs_store s) \<Longrightarrow> ok (cs_store (snd (service_set ops k v ttl s)))"
  using keeps_ok(2) by (auto simp: service_set_def split: option.split js_number.split)

lemma service_ok_store: "service_ok s \<Longrightarrow> ok (cs_store s)"
  by (simp add: service_ok_def)

lemma start_load_ok:
  assumes ok: "service_ok s" and c: "c < length (cs_calls s)"
    and free: "js_get (cs_inflight s) (rc_key (cs_calls s ! c)) = None"
  shows "service_ok (start_load c throws s)"
proof (cases throws)
  case True
  then show ?thesis
    using only_moves_ok [OF ok only_moves_step(1) [OF only_moves_refl]] service_ok_store [OF ok]
    by (simp add: start_load_def Let_def)
next
  case False
  let ?call = "cs_calls s ! c" and ?n = "length (cs_loads s)"
  let ?e = "\<lparr>ld_key = rc_key ?call, ld_generation = rc_generation ?call, ld_ttl = rc_ttl ?call,
    ld_invalidated = (js_get (cs_pending_invalidations s) (rc_key ?call) = Some (rc_generation ?call)),
    ld_phase = Loading\<rparr>"
  let ?s = "s\<lparr>cs_loads := cs_loads s @ [?e], cs_inflight := js_set (rc_key ?call) ?n (cs_inflight s)\<rparr>"
  have "js_get (cs_inflight ?s) (ld_key (cs_loads ?s ! l)) = Some l"
    if "\<not> cs_closed s" "l < Suc ?n" "unsettled (cs_loads ?s ! l)" "ld_generation (cs_loads ?s ! l) = cs_reset_version s" for l
  proof (cases "l < ?n")
    case True
    then have "js_get (cs_inflight s) (ld_key (cs_loads s ! l)) = Some l"
      using ok that by (simp add: service_ok_def nth_append)
    then show ?thesis
      using free True by (auto simp: nth_append)
  next
    case False
    then have "l = ?n" using that(2) by simp
    then show ?thesis by (simp add: nth_append)
  qed
  moreover have "l < Suc ?n \<and> ld_key (cs_loads ?s ! l) = k" if "js_get (cs_inflight ?s) k = Some l" for k l
    using ok that by (auto simp: service_ok_def nth_append less_Suc_eq split: if_splits)
  moreover have "ld_generation (cs_loads ?s ! l) \<le> cs_reset_version s" if "l < Suc ?n" for l
    using ok c that by (cases "l < ?n") (auto simp: service_ok_def nth_append less_Suc_eq)
  ultimately have "service_ok ?s"
    using ok by (simp add: service_ok_def)
  then show ?thesis
    using only_moves_ok [OF _ only_moves_step(1) [OF only_moves_refl]] service_ok_store False
    by (simp add: start_load_def Let_def)
qed

text \<open>The cleanup of a load takes only its own entry out of the in-flight map.\<close>

lemma finalize_ok:
  assumes ok: "service_ok s"
  shows "service_ok (finalize_load l s)"
proof (cases "\<exists>r. l < length (cs_loads s) \<and> ld_phase (cs_loads s ! l) = Settling r")
  case True
  then obtain r where l: "l < length (cs_loads s)" and r: "ld_phase (cs_loads s ! l) = Settling r" by blast
  let ?s = "finalize_load l s" and ?k = "ld_key (cs_loads s ! l)"
  have loads: "cs_loads ?s = (cs_loads s)[l := (cs_loads s ! l)\<lparr>ld_phase := Settled r\<rparr>]"
    and inflight: "js_get (cs_inflight ?s) =
      (if js_get (cs_inflight s) ?k = Some l then (js_get (cs_inflight s))(?k := None) else js_get (cs_inflight s))"
    and same: "cs_store ?s = cs_store s" "cs_reset_version ?s = cs_reset_version s" "cs_closed ?s = cs_closed s"
      "cs_calls ?s = cs_calls s"
    using l r by (auto simp: finalize_load_def Let_def fun_eq_iff)
  have "js_get (cs_inflight ?s) (ld_key (cs_loads ?s ! j)) = Some j"
    if "\<not> cs_closed s" "j < length (cs_loads s)" "unsettled (cs_loads ?s ! j)"
      "ld_generation (cs_loads ?s ! j) = cs_reset_version s" for j
  proof -
    have "j \<noteq> l"
      using that(2,3) by (auto simp: loads nth_update unsettled_def)
    then have "js_get (cs_inflight s) (ld_key (cs_loads s ! j)) = Some j"
      using ok that by (simp add: service_ok_def loads nth_update)
    then show ?thesis
      using \<open>j \<noteq> l\<close> that(2) by (auto simp: inflight loads nth_update)
  qed
  moreover have "j < length (cs_loads s) \<and> ld_key (cs_loads ?s ! j) = k" if "js_get (cs_inflight ?s) k = Some j" for k j
  proof -
    have "js_get (cs_inflight s) k = Some j"
      using that by (auto simp: inflight split: if_splits)
    then show ?thesis
      using ok by (auto simp: service_ok_def loads nth_update)
  qed
  moreover have "ld_generation (cs_loads ?s ! j) \<le> cs_reset_version s" if "j < length (cs_loads s)" for j
    using ok that by (auto simp: service_ok_def loads nth_update)
  ultimately show ?thesis
    using ok by (simp add: service_ok_def same loads)
next
  case False
  then have "finalize_load l s = s"
    by (auto simp: finalize_load_def split: load_phase.split)
  then show ?thesis using ok by simp
qed

lemma step_ok:
  assumes ok: "service_ok s"
  shows "service_ok (cache_step ops a s)"
proof -
  note store = service_ok_store [OF ok]
  note moves = only_moves_ok [OF ok]
  show ?thesis
  proof (cases a)
    case (Elapse ms)
    then show ?thesis using moves store by (simp add: only_moves_def)
  next
    case (CallGet k)
    then show ?thesis using moves keeps_ok(1) [OF store] by (simp add: only_moves_def)
  next
    case (CallSet k v ttl)
    then show ?thesis using moves service_set_moves service_set_store_ok [OF store] by simp
  next
    case (CallDel k)
    have "only_moves s (service_del ops k s)"
      by (auto simp: service_del_def Let_def split: option.split intro: only_moves_step)
        (auto simp: unsettled_def intro!: only_moves_step only_moves_on_load)
    then show ?thesis
      using CallDel moves keeps_ok(3) [OF store] by (simp add: service_del_def Let_def split: option.splits)
  next
    case CallReset
    then show ?thesis
      using ok keeps_ok(4) by (auto simp: service_ok_def service_reset_def clear_bookkeeping_def)
  next
    case CallClose
    then show ?thesis
      using ok by (auto simp: service_ok_def service_close_def clear_bookkeeping_def)
  next
    case (CallRemember k ttl)
    then show ?thesis
      using ok keeps_ok(1) [OF store]
      by (auto simp: service_ok_def remember_begin_def Let_def split_def nth_append less_Suc_eq)
  next
    case (ReadArrives c throws)
    then show ?thesis
      using moves [OF only_moves_step(1) [OF only_moves_refl]] store start_load_ok [OF ok] ok
      by (auto simp: remember_continue_def split: option.split call_phase.split sum.split)
  next
    case (LoaderSettles l r)
    have "only_moves s (loader_settles ops l r s)" and "ok (cs_store (loader_settles ops l r s))"
      using store service_set_store_ok [OF store]
      by (auto simp: loader_settles_def Let_def split_def unsettled_def split: option.split
          intro!: only_moves_on_load service_set_moves)
    then show ?thesis using LoaderSettles moves by simp
  next
    case (WriteDone l)
    have "only_moves s (write_done ops l s)" and "ok (cs_store (write_done ops l s))"
      using store keeps_ok(3) [OF store]
      by (auto simp: write_done_def unsettled_def split: load_phase.split sum.split
          intro!: only_moves_on_load only_moves_step)
    then show ?thesis using WriteDone moves by simp
  next
    case (DeletionDone l)
    have "only_moves s (deletion_done l s)" and "ok (cs_store (deletion_done l s))"
      using store by (auto simp: deletion_done_def unsettled_def split: load_phase.split intro!: only_moves_on_load)
    then show ?thesis using DeletionDone moves by simp
  next
    case (Finalize l)
    then show ?thesis using finalize_ok [OF ok] by simp
  qed
qed

lemma run_ok: "service_ok s \<Longrightarrow> service_ok (cache_run ops as s)"
  unfolding cache_run_def by (induction as arbitrary: s) (simp_all add: step_ok)

section \<open>Where the values in the store come from\<close>

lemma service_set_held:
  assumes "ok (cs_store s)" and "held (cs_store (snd (service_set ops k v ttl s))) j = Some u"
  shows "held (cs_store s) j = Some u \<or> (j = k \<and> copy v = Some u)"
  using assms set_held by (auto simp: service_set_def split: option.splits js_number.splits if_splits)

lemma service_del_store [simp]: "cs_store (service_del ops k s) = st_del ops k (cs_store s)"
  by (simp add: service_del_def Let_def split: option.split)

text \<open>The writes: what the application sets, and what a load that is not stale has loaded.\<close>

lemma step_held:
  assumes ok: "service_ok s" and held: "held (cs_store (cache_step ops a s)) k = Some u"
  obtains (kept) "held (cs_store s) k = Some u"
    | (set) v ttl where "a = CallSet k v ttl" "copy v = Some u"
    | (loaded) l v where "a = LoaderSettles l (Some v)" "copy v = Some u" "l < length (cs_loads s)"
        "ld_key (cs_loads s ! l) = k" "ld_phase (cs_loads s ! l) = Loading" "\<not> is_stale s (cs_loads s ! l)"
proof -
  note store = service_ok_store [OF ok]
  have "held (cs_store s) k = Some u \<or> (\<exists>v ttl. a = CallSet k v ttl \<and> copy v = Some u) \<or>
      (\<exists>l v. a = LoaderSettles l (Some v) \<and> copy v = Some u \<and> l < length (cs_loads s) \<and>
        ld_key (cs_loads s ! l) = k \<and> ld_phase (cs_loads s ! l) = Loading \<and> \<not> is_stale s (cs_loads s ! l))"
  proof (cases a)
    case (CallGet j)
    then show ?thesis using held get_keeps_source [OF store] by auto
  next
    case (CallSet j v ttl)
    then show ?thesis using held service_set_held [OF store, of j v ttl k u] by auto
  next
    case (CallDel j)
    then show ?thesis using held del_keeps_source [OF store] by auto
  next
    case CallReset
    then show ?thesis using held reset_held by (simp add: service_reset_def)
  next
    case (CallRemember j ttl)
    then show ?thesis using held get_keeps_source [OF store] by (auto simp: remember_begin_def Let_def split_def)
  next
    case (ReadArrives c throws)
    then show ?thesis
      using held by (simp add: remember_continue_def start_load_def Let_def
          split: if_splits option.splits call_phase.splits sum.splits)
  next
    case (LoaderSettles l r)
    then show ?thesis
      using held service_set_held [OF store, of "ld_key (cs_loads s ! l)" _ "ld_ttl (cs_loads s ! l)" k u]
      by (cases r) (auto simp: loader_settles_def Let_def split_def split: if_splits)
  next
    case (WriteDone l)
    then show ?thesis
      using held del_keeps_source [OF store]
      by (auto simp: write_done_def split: if_splits load_phase.splits sum.splits)
  next
    case (DeletionDone l)
    then show ?thesis using held by (simp add: deletion_done_def split: if_splits load_phase.splits)
  next
    case (Finalize l)
    then show ?thesis using held by (simp add: finalize_load_def Let_def split: if_splits load_phase.splits)
  qed (use held in \<open>auto simp: service_close_def clear_bookkeeping_def split: if_splits\<close>)
  then show thesis using that by blast
qed

text \<open>The loads of a key that were there at an invalidation can not write any more.\<close>

definition barred :: "'k \<Rightarrow> nat \<Rightarrow> ('k, 'v, 's) cache_service \<Rightarrow> bool" where
  "barred k n s \<longleftrightarrow> n \<le> length (cs_loads s) \<and>
     (\<forall>l < n. ld_key (cs_loads s ! l) = k \<and> ld_phase (cs_loads s ! l) = Loading \<longrightarrow> is_stale s (cs_loads s ! l))"

lemma step_barred:
  assumes ok: "service_ok s" and barred: "barred k n s"
  shows "barred k n (cache_step ops a s)"
  unfolding barred_def
proof (intro conjI allI impI)
  let ?s = "cache_step ops a s"
  note grown = step_grown [of s ops a]
  show "n \<le> length (cs_loads ?s)"
    using grown barred by (simp add: grown_def barred_def)
  fix l assume l: "l < n" and "ld_key (cs_loads ?s ! l) = k \<and> ld_phase (cs_loads ?s ! l) = Loading"
  then have steps: "load_steps (cs_loads s ! l) (cs_loads ?s ! l)" and version: "cs_reset_version s \<le> cs_reset_version ?s"
    and old: "ld_key (cs_loads s ! l) = k" "ld_phase (cs_loads s ! l) = Loading"
    using grown barred by (auto simp: grown_def barred_def load_steps_def)
  then have "is_stale s (cs_loads s ! l)" and "ld_generation (cs_loads s ! l) \<le> cs_reset_version s"
    using barred ok l by (auto simp: barred_def service_ok_def)
  then show "is_stale ?s (cs_loads ?s ! l)"
    using steps version by (auto simp: is_stale_def load_steps_def)
qed

lemma barred_run:
  assumes "service_ok s" and "barred k n s" and "held (cs_store (cache_run ops as s)) k = Some u"
  shows "held (cs_store s) k = Some u \<or> (\<exists>v ttl. CallSet k v ttl \<in> set as \<and> copy v = Some u) \<or>
    (\<exists>l v. n \<le> l \<and> LoaderSettles l (Some v) \<in> set as \<and> copy v = Some u)"
  using assms
proof (induction as arbitrary: s)
  case (Cons a as)
  have "service_ok (cache_step ops a s)" and "barred k n (cache_step ops a s)"
    using Cons.prems(1,2) by (simp_all add: step_ok step_barred)
  then consider (earlier) "held (cs_store (cache_step ops a s)) k = Some u"
    | (later) "(\<exists>v ttl. CallSet k v ttl \<in> set as \<and> copy v = Some u) \<or>
        (\<exists>l v. n \<le> l \<and> LoaderSettles l (Some v) \<in> set as \<and> copy v = Some u)"
    using Cons.IH [of "cache_step ops a s"] Cons.prems(3) by (auto simp: cache_run_def)
  then show ?case
  proof cases
    case earlier
    from Cons.prems(1) this show ?thesis
    proof (cases rule: step_held)
      case (loaded l v)
      have "n \<le> l"
        using Cons.prems(2) loaded by (auto simp: barred_def not_le [symmetric])
      then show ?thesis using loaded by auto
    qed auto
  next
    case later
    then show ?thesis by auto
  qed
qed (simp add: cache_run_def)

lemma del_bars:
  assumes ok: "service_ok s" and "\<not> cs_closed s"
  shows "barred k (length (cs_loads s)) (service_del ops k s)"
  unfolding barred_def
proof (intro conjI allI impI)
  let ?s = "service_del ops k s"
  note grown = step_grown [of s ops "CallDel k"]
  then show "length (cs_loads s) \<le> length (cs_loads ?s)"
    by (simp add: grown_def)
  fix l assume l: "l < length (cs_loads s)" and phase: "ld_key (cs_loads ?s ! l) = k \<and> ld_phase (cs_loads ?s ! l) = Loading"
  then have old: "ld_key (cs_loads s ! l) = k" "ld_phase (cs_loads s ! l) = Loading"
    using grown l by (auto simp: grown_def load_steps_def)
  have version: "cs_reset_version ?s = cs_reset_version s"
    by (simp add: service_del_def Let_def split: option.split)
  show "is_stale ?s (cs_loads ?s ! l)"
  proof (cases "ld_generation (cs_loads s ! l) = cs_reset_version s")
    case True
    then have "js_get (cs_inflight s) k = Some l"
      using assms l old by (auto simp: service_ok_def unsettled_def)
    then show ?thesis
      using l by (simp add: service_del_def is_stale_def)
  next
    case False
    then show ?thesis
      using grown l version by (auto simp: is_stale_def grown_def load_steps_def)
  qed
qed

lemma reset_bars: "service_ok s \<Longrightarrow> barred k (length (cs_loads s)) (service_reset ops s)"
  by (auto simp: barred_def service_reset_def clear_bookkeeping_def is_stale_def service_ok_def)

lemma open_run: "CallClose \<notin> set as \<Longrightarrow> cs_closed (cache_run ops as s) = cs_closed s"
proof (induction as arbitrary: s)
  case (Cons a as)
  have "cs_closed (cache_step ops a s) = cs_closed s"
    using Cons.prems
    by (cases a)
      (auto simp: service_del_def service_reset_def clear_bookkeeping_def remember_begin_def remember_continue_def
        start_load_def loader_settles_def write_done_def deletion_done_def finalize_load_def Let_def split_def
        split: option.split call_phase.split load_phase.split sum.split)
  then show ?case using Cons by (simp add: cache_run_def)
qed (simp add: cache_run_def)

lemma new_not_closed [simp]: "\<not> cs_closed (new_cache_service store ttl)"
  by (simp add: new_cache_service_def)

text \<open>The two guarantees, for runs of a service that was started on a store.\<close>

lemma invalidation_holds:
  assumes "ok store" and "a = CallReset \<or> a = CallDel k \<and> CallClose \<notin> set before"
    and "s = cache_run ops before (new_cache_service store ttl)"
    and "held (cs_store (cache_run ops (a # after) s)) k = Some u"
  shows "(\<exists>v t. CallSet k v t \<in> set after \<and> copy v = Some u) \<or>
    (\<exists>l v. length (cs_loads s) \<le> l \<and> LoaderSettles l (Some v) \<in> set after \<and> copy v = Some u)"
proof -
  have ok: "service_ok s"
    using assms(1,3) by (simp add: run_ok service_ok_new)
  have "CallClose \<notin> set before \<Longrightarrow> \<not> cs_closed s"
    using assms(3) by (simp add: open_run)
  with ok have bars: "barred k (length (cs_loads s)) (cache_step ops a s)"
    using assms(2) del_bars reset_bars by auto
  have "held (cs_store (cache_step ops a s)) k = None"
    using assms(2) del_absent service_ok_store [OF ok] reset_held by (auto simp: service_reset_def)
  then show ?thesis
    using barred_run [OF step_ok [OF ok] bars, of after u] assms(4) by (auto simp: cache_run_def)
qed

lemma current_in_flight:
  "service_ok s \<Longrightarrow> \<not> cs_closed s \<Longrightarrow> l < length (cs_loads s) \<Longrightarrow> unsettled (cs_loads s ! l) \<Longrightarrow>
   ld_generation (cs_loads s ! l) = cs_reset_version s \<Longrightarrow> js_get (cs_inflight s) (ld_key (cs_loads s ! l)) = Some l"
  by (simp add: service_ok_def)

lemma loads_shared:
  assumes "ok store" and "CallClose \<notin> set as" and "s = cache_run ops as (new_cache_service store ttl)"
    and "i < length (cs_loads s)" "j < length (cs_loads s)" "ld_key (cs_loads s ! i) = ld_key (cs_loads s ! j)"
    and "unsettled (cs_loads s ! i)" "unsettled (cs_loads s ! j)"
    and "ld_generation (cs_loads s ! i) = cs_reset_version s" "ld_generation (cs_loads s ! j) = cs_reset_version s"
  shows "i = j"
proof -
  have ok: "service_ok s" and "\<not> cs_closed s"
    using assms(1-3) by (simp_all add: run_ok service_ok_new open_run)
  note in_flight = current_in_flight [OF this]
  have "js_get (cs_inflight s) (ld_key (cs_loads s ! i)) = Some i"
    by (rule in_flight [OF assms(4,7,9)])
  moreover have "js_get (cs_inflight s) (ld_key (cs_loads s ! j)) = Some j"
    by (rule in_flight [OF assms(5,8,10)])
  ultimately show ?thesis
    unfolding assms(6) by simp
qed

end


section \<open>The service over the memory store\<close>

text \<open>C11. An invalidation is not undone by a load that was under way: whatever follows a \<open>reset\<close>, or
  a \<open>del\<close> of a key on a service that was not closed before it, a value the store then returns
  for the key was given to \<open>set\<close> after it, or loaded by a loader that was started after it. The
  steps of concurrent calls may interleave in every way. (\<open>close\<close> forgets the loads under way
  without making them stale, so a later \<open>del\<close> does not reach them.)\<close>

theorem invalidation_not_undone:
  assumes "a = CallReset \<or> a = CallDel k \<and> CallClose \<notin> set before"
    and "s = cache_run (memory_ops clone) before (new_cache_service empty_memory_store ttl)"
    and "fst (memory_get clone (int now) k (cs_store (cache_run (memory_ops clone) (a # after) s))) = Inr (Some w)"
  shows "\<exists>v u. clone v = Some u \<and> clone u = Some w \<and>
    ((\<exists>t. CallSet k v t \<in> set after) \<or> (\<exists>l \<ge> length (cs_loads s). LoaderSettles l (Some v) \<in> set after))"
proof -
  let ?t = "cache_run (memory_ops clone) (a # after) s"
  have "memory.service_ok ?t"
    unfolding assms(2) by (intro memory.run_ok memory.service_ok_new memory_ok_empty)
  then have "memory_ok (cs_store ?t)"
    by (rule memory.service_ok_store)
  moreover obtain m where "st_get (memory_ops clone) now k (cs_store ?t) = (Inr (Some w), m)"
    using assms(3) by (cases "memory_get clone (int now) k (cs_store ?t)") (simp add: memory_ops_def)
  ultimately obtain u where u: "memory_held (cs_store ?t) k = Some u" "clone u = Some w"
    using memory.get_result [of "cs_store ?t" clone now k w m] by auto
  show ?thesis
    using memory.invalidation_holds [OF memory_ok_empty assms(1,2) u(1)] u(2) by blast
qed

lemma invalidation_not_undone_witness:
  "(let s = cache_run (memory_ops Some) [CallRemember ''k'' None, ReadArrives 0 False]
              (new_cache_service empty_memory_store (Finite 300));
        t = cache_run (memory_ops Some)
              [CallDel ''k'', LoaderSettles 0 (Some (1::nat)), Finalize 0, CallRemember ''k'' None, ReadArrives 1 False,
               LoaderSettles 1 (Some 2), WriteDone 1, Finalize 1] s
    in fst (memory_get Some 0 ''k'' (cs_store t)) = Inr (Some 2) \<and>
       (\<exists>l \<ge> length (cs_loads s).
          LoaderSettles l (Some 2) \<in> set [LoaderSettles 0 (Some (1::nat)), Finalize 0, CallRemember ''k'' None,
            ReadArrives 1 False, LoaderSettles 1 (Some 2), WriteDone 1, Finalize 1]))"
proof -
  let ?before = "[CallRemember ''k'' None, ReadArrives 0 False]"
  let ?after = "[LoaderSettles 0 (Some (1::nat)), Finalize 0, CallRemember ''k'' None, ReadArrives 1 False,
               LoaderSettles 1 (Some 2), WriteDone 1, Finalize 1]"
  let ?s = "cache_run (memory_ops Some) ?before (new_cache_service empty_memory_store (Finite 300)) ::
      (string, nat, _) cache_service"
  have got: "fst (memory_get Some 0 ''k'' (cs_store (cache_run (memory_ops Some) (CallDel ''k'' # ?after) ?s))) =
      Inr (Some (2::nat))"
    by code_simp
  have "\<exists>v u. Some v = Some u \<and> Some u = Some (2::nat) \<and>
    ((\<exists>t. CallSet ''k'' v t \<in> set ?after) \<or> (\<exists>l \<ge> length (cs_loads ?s). LoaderSettles l (Some v) \<in> set ?after))"
    by (rule invalidation_not_undone [of "CallDel ''k''" "''k''" ?before ?s Some "Finite 300" 0 ?after 2])
      (use got in simp_all)
  then have "\<exists>l \<ge> length (cs_loads ?s). LoaderSettles l (Some 2) \<in> set ?after"
    by (elim exE conjE disjE) simp_all
  then show ?thesis
    unfolding Let_def using got by (intro conjI)
qed

text \<open>C25. Loads are shared: while a service is open there is at most one unsettled load of a key that
  belongs to the current generation, the calls of \<open>remember\<close> since the last \<open>reset\<close>, however many
  of them miss it at once. (Calls that began before a \<open>reset\<close> may have started loads of their
  own after it.)\<close>

theorem one_load_per_key:
  assumes "CallClose \<notin> set as" and "s = cache_run (memory_ops clone) as (new_cache_service empty_memory_store ttl)"
    and "i < length (cs_loads s)" "j < length (cs_loads s)" "ld_key (cs_loads s ! i) = ld_key (cs_loads s ! j)"
    and "unsettled (cs_loads s ! i)" "unsettled (cs_loads s ! j)"
    and "ld_generation (cs_loads s ! i) = cs_reset_version s" "ld_generation (cs_loads s ! j) = cs_reset_version s"
  shows "i = j"
  using memory.loads_shared [OF memory_ok_empty assms] .

lemma one_load_per_key_witness:
  "(let s = cache_run (memory_ops Some) [CallRemember ''k'' None, CallRemember ''k'' None, ReadArrives 0 False, ReadArrives 1 False]
              (new_cache_service empty_memory_store (Finite 300) :: (string, nat, _) cache_service)
    in length (cs_loads s) = 1 \<and> \<not> (\<exists>i j. i < length (cs_loads s) \<and> j < length (cs_loads s) \<and> i \<noteq> j))"
proof -
  let ?as = "[CallRemember ''k'' None, CallRemember ''k'' None, ReadArrives 0 False, ReadArrives 1 False]"
  let ?s = "cache_run (memory_ops Some) ?as (new_cache_service empty_memory_store (Finite 300)) ::
      (string, nat, _) cache_service"
  have loads: "cs_loads ?s = [\<lparr>ld_key = ''k'', ld_generation = 0, ld_ttl = None, ld_invalidated = False, ld_phase = Loading\<rparr>]"
    and version: "cs_reset_version ?s = 0"
    by code_simp+
  have "i = j" if "i < length (cs_loads ?s)" "j < length (cs_loads ?s)" for i j
    by (rule one_load_per_key [of ?as ?s Some "Finite 300"])
      (use that loads version in \<open>simp_all add: unsettled_def\<close>)
  then have "\<not> (\<exists>i j. i < length (cs_loads ?s) \<and> j < length (cs_loads ?s) \<and> i \<noteq> j)"
    by blast
  then show ?thesis
    unfolding Let_def loads by simp
qed

text \<open>A closed service still writes: a load that is under way when the service is closed puts its
  value into the store afterwards.\<close>

theorem load_writes_after_close:
  "(let s = cache_run (memory_ops Some) [CallRemember ''k'' None, ReadArrives 0 False, CallClose, LoaderSettles 0 (Some (1::nat))]
              (new_cache_service empty_memory_store (Finite 300))
    in (cs_closed s, fst (memory_get Some 0 ''k'' (cs_store s)))) = (True, Inr (Some 1))"
  by code_simp

text \<open>Nor does a deletion after the service was closed reach the load: its value is stored over it.\<close>

theorem deletion_after_close_undone:
  "(let s = cache_run (memory_ops Some)
              [CallRemember ''k'' None, ReadArrives 0 False, CallClose, CallDel ''k'', LoaderSettles 0 (Some (1::nat)),
               WriteDone 0, Finalize 0]
              (new_cache_service empty_memory_store (Finite 300))
    in fst (memory_get Some 0 ''k'' (cs_store s))) = Inr (Some 1)"
  by code_simp

text \<open>A deletion during a call that hits leaves its mark behind: the next load of the key, long
  after, is treated as stale and not stored.\<close>

theorem deletion_mark_outlives_hit:
  "(let s = cache_run (memory_ops Some)
              [CallSet ''k'' (1::nat) None, CallRemember ''k'' None, CallDel ''k'', ReadArrives 0 False, Elapse 9,
               CallRemember ''k'' None, ReadArrives 1 False, LoaderSettles 0 (Some 2), Finalize 0]
              (new_cache_service empty_memory_store (Finite 300))
    in (map rc_phase (cs_calls s), map ld_phase (cs_loads s), fst (memory_get Some 9 ''k'' (cs_store s)))) =
   ([Returned (Inr 1), Joined 0], [Settled (Inr 2)], Inr None)"
  by code_simp

end
