(* ===== verification/Cache_Interceptor.thy ===== *)
theory Cache_Interceptor
  imports Cache_Facts Uri_Encoding Http_Response "HOL-Library.Multiset"
begin

text \<open>
  The HTTP cache interceptor (\<open>packages/cache-manager/src/interceptor.ts\<close>): the key of a request,
  reading and writing the cache around a GET handler, and evicting keys after a write. What
  the decorators recorded for the route is input. \<open>localeCompare\<close> of the host is the parameter
  \<open>before\<close>.
\<close>

section \<open>Requests and routes\<close>

datatype query_value = QueryUndefined | QueryOne string | QueryMany "string list"

record cache_principal =
  cp_issuer :: "string option"
  cp_subject :: string

record cache_request =
  cr_method :: string
  cr_path :: string
  cr_query :: "(string, query_value) js_map"
  cr_principal :: "cache_principal option"

datatype key_strategy = ByRoute | ByRouteAndQuery | CustomStrategy "cache_request \<Rightarrow> string"

datatype key_metadata = LiteralKey string | KeyFactory "cache_request \<Rightarrow> string"

datatype evict_metadata = EvictKeys "string list" | EvictFactory "http_value \<Rightarrow> string list"

record cached_route =
  ct_key :: "key_metadata option"
  ct_ttl :: "js_number option"
  ct_evict :: "evict_metadata option"
  ct_redirect :: bool
  ct_success_status :: "nat option"

record cache_options =
  co_ttl :: js_number
  co_strategy :: key_strategy
  co_scope :: "(cache_request \<Rightarrow> string option) option"

section \<open>Keys\<close>

text \<open>A stable sort by a comparison, as \<open>Array.prototype.sort\<close>.\<close>

fun insert_by :: "('a \<Rightarrow> 'a \<Rightarrow> bool) \<Rightarrow> 'a \<Rightarrow> 'a list \<Rightarrow> 'a list" where
  "insert_by le x [] = [x]"
| "insert_by le x (y # ys) = (if le x y then x # y # ys else y # insert_by le x ys)"

definition sort_by :: "('a \<Rightarrow> 'a \<Rightarrow> bool) \<Rightarrow> 'a list \<Rightarrow> 'a list" where
  "sort_by le xs = foldr (insert_by le) xs []"

definition query_pair :: "string \<Rightarrow> string \<Rightarrow> string" where
  "query_pair k v = encode_uri_component k @ ''='' @ encode_uri_component v"

fun query_entry :: "(string \<Rightarrow> string \<Rightarrow> bool) \<Rightarrow> string \<times> query_value \<Rightarrow> string" where
  "query_entry le (k, QueryUndefined) = query_pair k ''undefined''"
| "query_entry le (k, QueryOne v) = query_pair k v"
| "query_entry le (k, QueryMany vs) = js_join ''&'' (map (query_pair k) (sort_by le vs))"

definition build_sorted_query_string ::
  "(string \<Rightarrow> string \<Rightarrow> bool) \<Rightarrow> (string, query_value) js_map \<Rightarrow> string" where
  "build_sorted_query_string le query =
     js_join ''&'' (map (query_entry le)
       (sort_by (\<lambda>a b. le (fst a) (fst b)) (filter (\<lambda>(k, v). v \<noteq> QueryUndefined) query)))"

definition append_principal_scope ::
  "string \<Rightarrow> cache_request \<Rightarrow> (cache_request \<Rightarrow> string option) option \<Rightarrow> string" where
  "append_principal_scope key r resolver =
     (case resolver of
        Some f \<Rightarrow> (case f r of Some scope \<Rightarrow> key @ ''|principal:'' @ scope | None \<Rightarrow> key)
      | None \<Rightarrow>
          (case cr_principal r of
             None \<Rightarrow> key
           | Some p \<Rightarrow>
               key @ ''|principal:'' @
               encode_uri_component (case cp_issuer p of None \<Rightarrow> ''unknown'' | Some i \<Rightarrow> i) @ '':'' @
               encode_uri_component (cp_subject p)))"

definition default_cache_key ::
  "(string \<Rightarrow> string \<Rightarrow> bool) \<Rightarrow> cache_options \<Rightarrow> cache_request \<Rightarrow> string" where
  "default_cache_key le opts r =
     (case co_strategy opts of
        CustomStrategy f \<Rightarrow> f r
      | ByRoute \<Rightarrow> append_principal_scope (cr_path r) r (co_scope opts)
      | ByRouteAndQuery \<Rightarrow>
          (let q = build_sorted_query_string le (cr_query r) in
           append_principal_scope (if q = [] then cr_path r else cr_path r @ ''?'' @ q) r (co_scope opts)))"

text \<open>An empty literal key counts as none.\<close>

definition resolve_cache_key ::
  "(string \<Rightarrow> string \<Rightarrow> bool) \<Rightarrow> cache_options \<Rightarrow> cached_route \<Rightarrow> cache_request \<Rightarrow> string" where
  "resolve_cache_key le opts route r =
     (case ct_key route of
        Some (KeyFactory f) \<Rightarrow> f r
      | Some (LiteralKey k) \<Rightarrow> if k = [] then default_cache_key le opts r else k
      | None \<Rightarrow> default_cache_key le opts r)"

section \<open>Reading through\<close>

definition normalize_ttl :: "js_number option \<Rightarrow> js_number \<Rightarrow> js_number option" where
  "normalize_ttl ttl fallback =
     (case (case ttl of None \<Rightarrow> fallback | Some t \<Rightarrow> t) of
        Finite q \<Rightarrow> if q < 0 then None else Some (Finite q)
      | _ \<Rightarrow> None)"

definition is_success_status_code :: "nat \<Rightarrow> bool" where
  "is_success_status_code n \<longleftrightarrow> 200 \<le> n \<and> n < 300"

definition should_cache_route :: "cached_route \<Rightarrow> bool" where
  "should_cache_route route \<longleftrightarrow>
     \<not> ct_redirect route \<and> (case ct_success_status route of None \<Rightarrow> True | Some n \<Rightarrow> is_success_status_code n)"

text \<open>What the handler did: it threw, or it returned and left the response in some state.\<close>

datatype outcome = Throws thrown | Returns http_value "nat option" bool

definition should_cache_value :: "http_value \<Rightarrow> nat option \<Rightarrow> bool \<Rightarrow> bool" where
  "should_cache_value v status committed \<longleftrightarrow>
     v \<noteq> UndefinedResult \<and> (case status of None \<Rightarrow> True | Some n \<Rightarrow> is_success_status_code n) \<and>
     v \<noteq> SseResult \<and> \<not> committed"

type_synonym 's http_cache = "(string, http_value, 's) cache_service"

definition safe_get :: "(string, http_value, 's) store_ops \<Rightarrow> string \<Rightarrow> 's http_cache \<Rightarrow> http_value option \<times> 's http_cache" where
  "safe_get ops k s =
     (let (r, s') = in_store (st_get ops (cs_now s) k) s in
      (case r of Inr (Some v) \<Rightarrow> if v = UndefinedResult then None else Some v | _ \<Rightarrow> None, s'))"

definition intercept_get ::
  "(string, http_value, 's) store_ops \<Rightarrow> (string \<Rightarrow> string \<Rightarrow> bool) \<Rightarrow> cache_options \<Rightarrow> cached_route \<Rightarrow>
   cache_request \<Rightarrow> ('s http_cache \<Rightarrow> outcome \<times> 's http_cache) \<Rightarrow> 's http_cache \<Rightarrow>
   (thrown, http_value) result \<times> 's http_cache" where
  "intercept_get ops le opts route r handler s =
     (let key = resolve_cache_key le opts route r;
          ttl = normalize_ttl (ct_ttl route) (co_ttl opts);
          cacheable = ttl \<noteq> None \<and> should_cache_route route;
          (cached, s1) = (if cacheable then safe_get ops key s else (None, s)) in
      case cached of
        Some v \<Rightarrow> (Inr v, s1)
      | None \<Rightarrow>
          (case handler s1 of
             (Throws e, s2) \<Rightarrow> (Inl e, s2)
           | (Returns v status committed, s2) \<Rightarrow>
               (Inr v,
                if cacheable \<and> should_cache_value v status committed then snd (service_set ops key v ttl s2)
                else s2)))"

section \<open>Eviction\<close>

definition resolve_evict_keys :: "evict_metadata \<Rightarrow> http_value \<Rightarrow> string list" where
  "resolve_evict_keys m v =
     filter (\<lambda>k. k \<noteq> []) (case m of EvictKeys ks \<Rightarrow> ks | EvictFactory f \<Rightarrow> f v)"

definition run_eviction ::
  "(string, http_value, 's) store_ops \<Rightarrow> evict_metadata \<Rightarrow> http_value \<Rightarrow> 's http_cache \<Rightarrow> 's http_cache" where
  "run_eviction ops m v s = fold (service_del ops) (rev (remdups (rev (resolve_evict_keys m v)))) s"

text \<open>
  \<open>installDeferredEviction\<close>: the eviction waits for the response to be sent, or for a timer if it
  never is; a response that could not be sent cancels it.
\<close>

record deferred =
  df_restored :: bool
  df_completed :: bool
  df_evictions :: nat

definition installed :: deferred where
  "installed = \<lparr>df_restored = False, df_completed = False, df_evictions = 0\<rparr>"

definition run_deferred :: "deferred \<Rightarrow> deferred" where
  "run_deferred d = (if df_completed d then d else d\<lparr>df_completed := True, df_evictions := df_evictions d + 1\<rparr>)"

datatype deferred_event = ResponseSent | SendFailed | TimerFires

text \<open>After \<open>restore\<close> the response has its own \<open>send\<close> back and the timer is cleared. Sends that were
  under way still end.\<close>

fun deferred_step :: "deferred_event \<Rightarrow> deferred \<Rightarrow> deferred" where
  "deferred_step ResponseSent d = (run_deferred d)\<lparr>df_restored := True\<rparr>"
| "deferred_step SendFailed d = d\<lparr>df_completed := True, df_restored := True\<rparr>"
| "deferred_step TimerFires d = (if df_restored d then d else (run_deferred d)\<lparr>df_restored := True\<rparr>)"

text \<open>The eviction runs at most once, and never after the first event was a failed send.\<close>

lemma deferred_once:
  "df_evictions (fold deferred_step es installed) = (case es of [] \<Rightarrow> 0 | SendFailed # _ \<Rightarrow> 0 | _ \<Rightarrow> 1)"
proof -
  have settled: "df_evictions (fold deferred_step es d) = df_evictions d" if "df_completed d" for es d
    using that
  proof (induction es arbitrary: d)
    case (Cons e es)
    then have "df_completed (deferred_step e d)" and "df_evictions (deferred_step e d) = df_evictions d"
      by (cases e; simp add: run_deferred_def)+
    then show ?case using Cons.IH by simp
  qed simp
  show ?thesis
    by (auto simp: settled run_deferred_def installed_def split: list.split deferred_event.split)
qed

text \<open>\<open>evictAfterWrite\<close> where the handler has returned: at once if the response is committed, or
  deferred, with the events that follow.\<close>

definition evict_after_write ::
  "(string, http_value, 's) store_ops \<Rightarrow> cached_route \<Rightarrow> http_value \<Rightarrow> bool \<Rightarrow> deferred_event list \<Rightarrow>
   's http_cache \<Rightarrow> 's http_cache" where
  "evict_after_write ops route v committed events s =
     (case ct_evict route of
        None \<Rightarrow> s
      | Some m \<Rightarrow>
          if committed \<or> df_evictions (fold deferred_step events installed) > 0 then run_eviction ops m v s else s)"

definition intercept ::
  "(string, http_value, 's) store_ops \<Rightarrow> (string \<Rightarrow> string \<Rightarrow> bool) \<Rightarrow> cache_options \<Rightarrow> cached_route \<Rightarrow>
   cache_request \<Rightarrow> ('s http_cache \<Rightarrow> outcome \<times> 's http_cache) \<Rightarrow> deferred_event list \<Rightarrow> 's http_cache \<Rightarrow>
   (thrown, http_value) result \<times> 's http_cache" where
  "intercept ops le opts route r handler events s =
     (if js_upper (cr_method r) = ''GET'' then intercept_get ops le opts route r handler s
      else (case handler s of
          (Throws e, s') \<Rightarrow> (Inl e, s')
        | (Returns v status committed, s') \<Rightarrow> (Inr v, evict_after_write ops route v committed events s')))"

section \<open>Whose answer is served\<close>

text \<open>What is asked for beside the path: the names and values of the query, in no order.\<close>

fun value_pairs :: "string \<times> query_value \<Rightarrow> (string \<times> string) multiset" where
  "value_pairs (k, QueryUndefined) = {#}"
| "value_pairs (k, QueryOne v) = {#(k, v)#}"
| "value_pairs (k, QueryMany vs) = image_mset (Pair k) (mset vs)"

definition query_pairs :: "(string, query_value) js_map \<Rightarrow> (string \<times> string) multiset" where
  "query_pairs query = (\<Sum>e \<leftarrow> query. value_pairs e)"

definition same_query :: "key_strategy \<Rightarrow> cache_request \<Rightarrow> cache_request \<Rightarrow> bool" where
  "same_query strategy r r' \<longleftrightarrow> strategy = ByRoute \<or> query_pairs (cr_query r) = query_pairs (cr_query r')"

text \<open>Two requests are of the same principal: of none, or of the same subject and issuer. No issuer
  and an issuer called \<open>unknown\<close> are one to the key.\<close>

definition same_principal :: "cache_request \<Rightarrow> cache_request \<Rightarrow> bool" where
  "same_principal r r' \<longleftrightarrow>
     (case (cr_principal r, cr_principal r') of
        (None, None) \<Rightarrow> True
      | (Some p, Some q) \<Rightarrow> cp_subject p = cp_subject q \<and>
          (cp_issuer p = cp_issuer q \<or> {cp_issuer p, cp_issuer q} = {None, Some ''unknown''})
      | _ \<Rightarrow> False)"

text \<open>Who asks, for the key: nobody, or an issuer (\<open>unknown\<close> if there is none) and a subject.\<close>

definition asker :: "cache_request \<Rightarrow> (string \<times> string) option" where
  "asker r = map_option (\<lambda>p. (case cp_issuer p of None \<Rightarrow> ''unknown'' | Some i \<Rightarrow> i, cp_subject p)) (cr_principal r)"

lemma asker_principal: "asker r = asker r' \<Longrightarrow> same_principal r r'"
  by (auto simp: asker_def same_principal_def split: option.splits)

text \<open>What is asked for, for the key.\<close>

definition target :: "(string \<Rightarrow> string \<Rightarrow> bool) \<Rightarrow> key_strategy \<Rightarrow> cache_request \<Rightarrow> string" where
  "target le strategy r =
     (let q = build_sorted_query_string le (cr_query r) in
      if strategy = ByRoute \<or> q = [] then cr_path r else cr_path r @ ''?'' @ q)"

definition scope_suffix :: "(string \<times> string) option \<Rightarrow> string" where
  "scope_suffix a =
     (case a of None \<Rightarrow> [] | Some (i, s) \<Rightarrow> ''|principal:'' @ encode_uri_component i @ '':'' @ encode_uri_component s)"

abbreviation bar :: char where "bar \<equiv> CHR ''|''"

lemma encoded_bar_free: "bar \<notin> set (encode_uri_component s)" "CHR '':'' \<notin> set (encode_uri_component s)"
proof -
  have "\<not> unreserved bar" and "\<not> unreserved (CHR '':'')"
    by code_simp+
  then show "bar \<notin> set (encode_uri_component s)" and "CHR '':'' \<notin> set (encode_uri_component s)"
    using encode_uri_component_chars by blast+
qed

lemma split_at:
  "c \<notin> set xs \<Longrightarrow> c \<notin> set ys \<Longrightarrow> xs @ c # us = ys @ c # vs \<longleftrightarrow> xs = ys \<and> us = vs"
proof (induction xs arbitrary: ys)
  case Nil
  then show ?case by (cases ys) auto
next
  case (Cons x xs)
  then show ?case by (cases ys) auto
qed

lemma scope_suffix_cases: "scope_suffix a = (case a of None \<Rightarrow> [] | Some (i, s) \<Rightarrow>
    bar # ''principal:'' @ encode_uri_component i @ CHR '':'' # encode_uri_component s)"
  by (simp add: scope_suffix_def split: option.split)

lemma scope_suffix_inj:
  assumes "bar \<notin> set xs" and "bar \<notin> set ys" and "xs @ scope_suffix a = ys @ scope_suffix b"
  shows "xs = ys \<and> a = b"
proof (cases a; cases b)
  assume "a = None" "b = None"
  then show ?thesis using assms(3) by (simp add: scope_suffix_cases)
next
  fix q assume "a = None" "b = Some q"
  then have "bar \<in> set xs" using assms(3) by (auto simp: scope_suffix_cases split: prod.splits)
  then show ?thesis using assms(1) by simp
next
  fix p assume "a = Some p" "b = None"
  then have "bar \<in> set ys" using assms(3) [symmetric] by (auto simp: scope_suffix_cases split: prod.splits)
  then show ?thesis using assms(2) by simp
next
  fix p q assume "a = Some p" "b = Some q"
  then show ?thesis
    using assms by (cases p; cases q)
      (simp add: scope_suffix_cases split_at encoded_bar_free encode_uri_component_inj)
qed

lemma query_string_free: "bar \<notin> set (build_sorted_query_string le query)"
proof -
  have join: "bar \<notin> set (js_join sep ss)" if "bar \<notin> set sep" "\<forall>s \<in> set ss. bar \<notin> set s" for sep ss
    using that by (induction sep ss rule: js_join.induct) auto
  have "bar \<notin> set (query_entry le e)" for e
  proof -
    have pair: "bar \<notin> set (query_pair k v)" for k v
      by (simp add: query_pair_def encoded_bar_free)
    show ?thesis
      by (cases "(le, e)" rule: query_entry.cases) (auto simp: pair join)
  qed
  then show ?thesis
    unfolding build_sorted_query_string_def by (intro join) auto
qed

text \<open>Keys of the built-in strategies tell targets and askers apart.\<close>

lemma default_key_eq:
  "co_scope opts = None \<Longrightarrow> co_strategy opts \<in> {ByRoute, ByRouteAndQuery} \<Longrightarrow>
   default_cache_key le opts r = target le (co_strategy opts) r @ scope_suffix (asker r)"
  by (auto simp: default_cache_key_def append_principal_scope_def target_def asker_def scope_suffix_def Let_def
      split: option.split)

lemma target_free: "bar \<notin> set (cr_path r) \<Longrightarrow> bar \<notin> set (target le strategy r)"
  by (simp add: target_def Let_def query_string_free)

lemma default_key_inj:
  assumes "co_scope opts = None" and "co_strategy opts \<in> {ByRoute, ByRouteAndQuery}"
    and "bar \<notin> set (cr_path r)" "bar \<notin> set (cr_path r')"
    and "default_cache_key le opts r = default_cache_key le opts r'"
  shows "target le (co_strategy opts) r = target le (co_strategy opts) r' \<and> asker r = asker r'"
  using assms scope_suffix_inj [OF target_free target_free] by (simp add: default_key_eq)

text \<open>The query string can be read back, up to the order of its pairs.\<close>

abbreviation amp :: char where "amp \<equiv> CHR ''&''"
abbreviation mark :: char where "mark \<equiv> CHR ''?''"

definition pieces :: "string \<Rightarrow> string list" where
  "pieces s = nonempty_strings (js_split amp s)"

lemma pieces_two: "pieces (a @ amp # t) = pieces a @ pieces t"
  by (simp add: pieces_def js_split_two nonempty_strings_def)

lemma pieces_join: "pieces (js_join [amp] ss) = concat (map pieces ss)"
proof (induction "[amp]" ss rule: js_join.induct)
  case 1
  show ?case by (simp add: pieces_def nonempty_strings_def)
next
  case (3 x y ys)
  then show ?case by (simp add: pieces_two)
qed simp

lemma encoded_pairs_free: "amp \<notin> set (encode_uri_component s)" "CHR ''='' \<notin> set (encode_uri_component s)"
    "mark \<notin> set (encode_uri_component s)"
proof -
  have "\<not> unreserved amp" and "\<not> unreserved (CHR ''='')" and "\<not> unreserved mark"
    by code_simp+
  then show "amp \<notin> set (encode_uri_component s)" "CHR ''='' \<notin> set (encode_uri_component s)"
      "mark \<notin> set (encode_uri_component s)"
    using encode_uri_component_chars by blast+
qed

lemma pieces_pair [simp]: "pieces (query_pair k v) = [query_pair k v]"
  by (simp add: pieces_def js_split_free query_pair_def encoded_pairs_free nonempty_strings_def)

lemma query_pair_inj: "query_pair k v = query_pair k' v' \<longleftrightarrow> k = k' \<and> v = v'"
  by (simp add: query_pair_def split_at encoded_pairs_free encode_uri_component_inj)

lemma mset_insert_by [simp]: "mset (insert_by le x xs) = add_mset x (mset xs)"
  by (induction xs) simp_all

lemma mset_sort_by [simp]: "mset (sort_by le xs) = mset xs"
  by (induction xs) (simp_all add: sort_by_def)

lemma pieces_entry:
  assumes "snd e \<noteq> QueryUndefined"
  shows "mset (pieces (query_entry le e)) = image_mset (case_prod query_pair) (value_pairs e)"
proof (cases "(le, e)" rule: query_entry.cases)
  case (3 le' k vs)
  have "mset (concat (map (\<lambda>x. pieces (query_pair k x)) xs)) = image_mset (query_pair k) (mset xs)" for xs
    by (induction xs) simp_all
  then show ?thesis
    using 3 by (simp add: pieces_join comp_def) (simp add: multiset.map_comp comp_def)
qed (use assms in simp_all)

lemma sum_of_sorted: "(\<Sum>e \<leftarrow> sort_by le es. f e) = (\<Sum>e \<leftarrow> es. f e)" for f :: "'a \<Rightarrow> 'b multiset"
  by (metis mset_sort_by mset_map sum_mset_sum_list)

lemma pieces_query:
  "mset (pieces (build_sorted_query_string le query)) = image_mset (case_prod query_pair) (query_pairs query)"
proof -
  have "mset (pieces (build_sorted_query_string le query)) =
      (\<Sum>e \<leftarrow> filter (\<lambda>(k, v). v \<noteq> QueryUndefined) query. mset (pieces (query_entry le e)))"
    by (simp add: build_sorted_query_string_def pieces_join mset_concat comp_def sum_of_sorted)
  also have "\<dots> = image_mset (case_prod query_pair) (query_pairs query)"
  proof (induction query)
    case (Cons e es)
    obtain k v where "e = (k, v)"
      by (cases e)
    with Cons show ?case
      by (cases "v = QueryUndefined")
        (simp_all add: query_pairs_def pieces_entry del: query_entry.simps value_pairs.simps(2,3))
  qed (simp add: query_pairs_def)
  finally show ?thesis .
qed

lemma query_string_pairs:
  assumes "build_sorted_query_string le query = build_sorted_query_string le query'"
  shows "query_pairs query = query_pairs query'"
proof -
  have "image_mset (case_prod query_pair) (query_pairs query) = image_mset (case_prod query_pair) (query_pairs query')"
    unfolding pieces_query [of le, symmetric] assms ..
  moreover have "inv (case_prod query_pair) \<circ> case_prod query_pair = id"
    by (rule inv_o_cancel) (auto simp: inj_def query_pair_inj)
  then have "image_mset (inv (case_prod query_pair)) (image_mset (case_prod query_pair) A) = A" for A
    by (simp only: multiset.map_comp multiset.map_id)
  ultimately show ?thesis
    by metis
qed

lemma marked_parts:
  assumes free: "mark \<notin> set p" "mark \<notin> set p'"
    and eq: "(if q = [] then p else p @ mark # q) = (if q' = [] then p' else p' @ mark # q')"
  shows "p = p' \<and> q = q'"
proof (cases "q = []"; cases "q' = []")
  assume "q \<noteq> []" "q' \<noteq> []"
  then show ?thesis
    using eq split_at [OF free] by simp
qed (use eq free in auto)

lemma target_parts:
  assumes "target le strategy r = target le strategy r'"
    and "strategy \<noteq> ByRoute \<longrightarrow> mark \<notin> set (cr_path r) \<and> mark \<notin> set (cr_path r')"
  shows "cr_path r = cr_path r' \<and> same_query strategy r r'"
proof (cases "strategy = ByRoute")
  case True
  then show ?thesis
    using assms(1) by (simp add: target_def same_query_def)
next
  case False
  have "target le strategy r = (if build_sorted_query_string le (cr_query r) = [] then cr_path r
      else cr_path r @ mark # build_sorted_query_string le (cr_query r))" for r
    using False by (simp add: target_def Let_def)
  from assms(1) [unfolded this] have "cr_path r = cr_path r' \<and>
      build_sorted_query_string le (cr_query r) = build_sorted_query_string le (cr_query r')"
  proof (intro marked_parts)
    show "mark \<notin> set (cr_path r)" "mark \<notin> set (cr_path r')"
      using assms(2) False by simp_all
  qed
  then show ?thesis
    using query_string_pairs [of le "cr_query r" "cr_query r'"] by (simp add: same_query_def)
qed

section \<open>Sequences of requests\<close>

record visit =
  vs_wait :: nat
  vs_request :: cache_request
  vs_route :: cached_route
  vs_outcome :: outcome

fun visits ::
  "(string, http_value, 's) store_ops \<Rightarrow> (string \<Rightarrow> string \<Rightarrow> bool) \<Rightarrow> cache_options \<Rightarrow> visit list \<Rightarrow> 's http_cache \<Rightarrow>
   (thrown, http_value) result list" where
  "visits ops le opts [] s = []"
| "visits ops le opts (v # vs) s =
     (let (r, s') = intercept_get ops le opts (vs_route v) (vs_request v) (\<lambda>c. (vs_outcome v, c))
                      (s\<lparr>cs_now := cs_now s + vs_wait v\<rparr>) in
      r # visits ops le opts vs s')"

definition answers :: "outcome \<Rightarrow> http_value \<Rightarrow> bool" where
  "answers out v \<longleftrightarrow> (\<exists>status committed. out = Returns v status committed)"

context cache_store
begin

text \<open>Every value in the store is a copy of what an earlier visit's handler returned, under its key.\<close>

definition sourced ::
  "(visit \<Rightarrow> 'k) \<Rightarrow> (visit \<Rightarrow> 'v \<Rightarrow> bool) \<Rightarrow> visit list \<Rightarrow> 's \<Rightarrow> bool" where
  "sourced key returned vs s \<longleftrightarrow>
     ok s \<and> (\<forall>k u. held s k = Some u \<longrightarrow> (\<exists>v \<in> set vs. \<exists>w. key v = k \<and> returned v w \<and> copy w = Some u))"

lemma sourced_get:
  assumes "sourced key returned vs s"
  shows "sourced key returned vs (snd (st_get ops now k s))"
    and "fst (st_get ops now k s) = Inr (Some x) \<Longrightarrow>
      \<exists>v \<in> set vs. \<exists>w u. key v = k \<and> returned v w \<and> copy w = Some u \<and> copy u = Some x"
proof -
  have ok: "ok s" using assms by (simp add: sourced_def)
  show "sourced key returned vs (snd (st_get ops now k s))"
    using assms get_keeps_source [OF ok] keeps_ok(1) [OF ok] unfolding sourced_def by blast
  show "\<exists>v \<in> set vs. \<exists>w u. key v = k \<and> returned v w \<and> copy w = Some u \<and> copy u = Some x"
    if got: "fst (st_get ops now k s) = Inr (Some x)"
  proof -
    obtain s' where "st_get ops now k s = (Inr (Some x), s')"
      using got by (cases "st_get ops now k s") auto
    then obtain u where "held s k = Some u" and "copy u = Some x"
      using get_result [OF ok] by blast
    then show ?thesis
      using assms unfolding sourced_def by blast
  qed
qed

lemma sourced_set:
  assumes "sourced key returned vs s" and "key v = k" and "returned v w"
  shows "sourced key returned (v # vs) (snd (st_set ops now k w ttl s))"
proof -
  have ok: "ok s" using assms(1) by (simp add: sourced_def)
  have "\<exists>v' \<in> set (v # vs). \<exists>x. key v' = j \<and> returned v' x \<and> copy x = Some u"
    if "held (snd (st_set ops now k w ttl s)) j = Some u" for j u
    using set_held [OF ok that] assms unfolding sourced_def by auto
  then show ?thesis
    using keeps_ok(2) [OF ok] unfolding sourced_def by blast
qed

lemma sourced_mono: "sourced key returned vs s \<Longrightarrow> sourced key returned (v # vs) s"
  by (auto simp: sourced_def)

end


text \<open>One GET request over the memory store: the answer is the handler's, or a copy of a copy of an
  earlier visit's.\<close>

lemma safe_get_sourced:
  assumes "memory.sourced clone key returned vs (cs_store s)"
    and "safe_get (memory_ops clone) k s = (r, s')"
  shows "memory.sourced clone key returned vs (cs_store s')"
    and "r = Some x \<Longrightarrow> \<exists>v \<in> set vs. \<exists>w u. key v = k \<and> returned v w \<and> clone w = Some u \<and> clone u = Some x"
  using memory.sourced_get [OF assms(1)] assms(2)
  by (auto simp: safe_get_def in_store_def Let_def split_def split: sum.splits option.splits if_splits)

lemma service_set_sourced:
  assumes "memory.sourced clone key returned vs (cs_store s)" and "key v = k" and "returned v w"
  shows "memory.sourced clone key returned (v # vs) (cs_store (snd (service_set (memory_ops clone) k w ttl s)))"
  using memory.sourced_set [OF assms] memory.sourced_mono [OF assms(1)]
  by (auto simp: service_set_def split: option.split js_number.split)

lemma intercept_get_sourced:
  fixes s :: "(string, http_value) memory_store http_cache"
  assumes sourced: "memory.sourced clone key returned vs (cs_store s)"
    and key: "key v = resolve_cache_key le opts (vs_route v) (vs_request v)"
    and returned: "\<And>w. answers (vs_outcome v) w \<Longrightarrow> returned v w"
    and get: "intercept_get (memory_ops clone) le opts (vs_route v) (vs_request v) (\<lambda>c. (vs_outcome v, c)) s = (r, s')"
  shows "memory.sourced clone key returned (v # vs) (cs_store s') \<and>
    (\<forall>x. r = Inr x \<longrightarrow> answers (vs_outcome v) x \<or>
      (\<exists>v' \<in> set vs. \<exists>w u. key v' = key v \<and> returned v' w \<and> clone w = Some u \<and> clone u = Some x))"
proof -
  let ?k = "resolve_cache_key le opts (vs_route v) (vs_request v)"
  let ?ttl = "normalize_ttl (ct_ttl (vs_route v)) (co_ttl opts)"
  let ?cacheable = "?ttl \<noteq> None \<and> should_cache_route (vs_route v)"
  obtain cached s1 where read: "(if ?cacheable then safe_get (memory_ops clone) ?k s else (None, s)) = (cached, s1)"
    by fastforce
  have s1: "memory.sourced clone key returned vs (cs_store s1)"
    using read safe_get_sourced(1) [OF sourced] sourced by (auto split: if_splits)
  show ?thesis
  proof (cases cached)
    case (Some x)
    then have "safe_get (memory_ops clone) ?k s = (Some x, s1)" and "r = Inr x" and "s' = s1"
      using read get by (auto simp: intercept_get_def Let_def split: if_splits)
    then show ?thesis
      using safe_get_sourced(2) [OF sourced, of ?k "Some x" s1 x] memory.sourced_mono [OF s1] key by auto
  next
    case None
    then have handled: "(r, s') = (case vs_outcome v of Throws e \<Rightarrow> (Inl e, s1)
      | Returns w status committed \<Rightarrow> (Inr w,
          if ?cacheable \<and> should_cache_value w status committed
          then snd (service_set (memory_ops clone) ?k w ?ttl s1) else s1))"
      using read get by (auto simp: intercept_get_def Let_def split: outcome.splits if_splits)
    show ?thesis
    proof (cases "vs_outcome v")
      case (Returns w status committed)
      then have "returned v w" using returned by (simp add: answers_def)
      then show ?thesis
        using handled Returns service_set_sourced [OF s1 key] memory.sourced_mono [OF s1]
        by (auto simp: answers_def split: if_splits)
    next
      case (Throws e)
      then show ?thesis
        using handled memory.sourced_mono [OF s1] by auto
    qed
  qed
qed

lemma visits_sourced:
  assumes "memory.sourced clone key returned past (cs_store s)"
    and "\<And>v. v \<in> set vs \<Longrightarrow> key v = resolve_cache_key le opts (vs_route v) (vs_request v)"
    and "\<And>v w. answers (vs_outcome v) w \<Longrightarrow> returned v w"
    and "i < length vs" and "visits (memory_ops clone) le opts vs s ! i = Inr x"
  shows "answers (vs_outcome (vs ! i)) x \<or>
    (\<exists>v \<in> set past \<union> set (take i vs). \<exists>w u. key v = key (vs ! i) \<and> returned v w \<and> clone w = Some u \<and> clone u = Some x)"
  using assms
proof (induction vs arbitrary: s past i)
  case (Cons v vs)
  obtain r s' where get: "intercept_get (memory_ops clone) le opts (vs_route v) (vs_request v) (\<lambda>c. (vs_outcome v, c))
      (s\<lparr>cs_now := cs_now s + vs_wait v\<rparr>) = (r, s')" by fastforce
  have key: "key v = resolve_cache_key le opts (vs_route v) (vs_request v)"
    using Cons.prems(2) by simp
  have start: "memory.sourced clone key returned past (cs_store (s\<lparr>cs_now := cs_now s + vs_wait v\<rparr>))"
    using Cons.prems(1) by simp
  note step = intercept_get_sourced [OF start key Cons.prems(3) get]
  show ?case
  proof (cases i)
    case 0
    then show ?thesis
      using step Cons.prems(5) get by auto
  next
    case (Suc j)
    have "answers (vs_outcome (vs ! j)) x \<or>
      (\<exists>u \<in> set (v # past) \<union> set (take j vs). \<exists>w y. key u = key (vs ! j) \<and> returned u w \<and> clone w = Some y \<and> clone y = Some x)"
      by (rule Cons.IH [of "v # past" s']) (use step Cons.prems Suc get in auto)
    then show ?thesis
      using Suc by auto
  qed
qed simp

text \<open>C22. No one gets an answer made for another: with a built-in key strategy, the default scope and no
  \<open>@CacheKey\<close>, in any sequence of GET requests that are served one after the other, what is answered
  to a request is what its own handler returns, or a copy of what an earlier handler returned for
  the same path, under \<open>route+query\<close> the same names and values in the query, and the same principal, where
  no issuer and the issuer \<open>unknown\<close> count as one. No path contains a bar, nor, under
  \<open>route+query\<close>, a question mark. Whatever the response status, time to live and order are.\<close>

theorem cached_answers_keep_to_asker:
  assumes "co_scope opts = None" and "co_strategy opts \<in> {ByRoute, ByRouteAndQuery}"
    and "\<forall>v \<in> set vs. ct_key (vs_route v) = None \<and> bar \<notin> set (cr_path (vs_request v)) \<and>
           (co_strategy opts \<noteq> ByRoute \<longrightarrow> mark \<notin> set (cr_path (vs_request v)))"
    and "i < length vs"
    and "visits (memory_ops clone) le opts vs (new_cache_service empty_memory_store ttl) ! i = Inr x"
  shows "answers (vs_outcome (vs ! i)) x \<or>
    (\<exists>v \<in> set (take i vs). \<exists>w u. answers (vs_outcome v) w \<and> clone w = Some u \<and> clone u = Some x \<and>
       cr_path (vs_request v) = cr_path (vs_request (vs ! i)) \<and>
       same_query (co_strategy opts) (vs_request v) (vs_request (vs ! i)) \<and>
       same_principal (vs_request v) (vs_request (vs ! i)))"
proof -
  let ?key = "\<lambda>v. default_cache_key le opts (vs_request v)"
  have keys: "?key v = resolve_cache_key le opts (vs_route v) (vs_request v)" if "v \<in> set vs" for v
    using assms(3) that by (simp add: resolve_cache_key_def)
  have start: "memory.sourced clone ?key (\<lambda>v. answers (vs_outcome v)) []
      (cs_store (new_cache_service empty_memory_store ttl))"
    using memory_ok_empty
    by (simp add: memory.sourced_def new_cache_service_def memory_held_def) (simp add: empty_memory_store_def)
  have "answers (vs_outcome (vs ! i)) x \<or>
    (\<exists>v \<in> set (take i vs). \<exists>w u. ?key v = ?key (vs ! i) \<and> answers (vs_outcome v) w \<and> clone w = Some u \<and> clone u = Some x)"
    using visits_sourced [OF start keys _ assms(4,5)] by simp
  moreover have "cr_path (vs_request v) = cr_path (vs_request (vs ! i)) \<and>
      same_query (co_strategy opts) (vs_request v) (vs_request (vs ! i)) \<and>
      same_principal (vs_request v) (vs_request (vs ! i))"
    if "v \<in> set (take i vs)" "?key v = ?key (vs ! i)" for v
  proof -
    have "v \<in> set vs" and "vs ! i \<in> set vs"
      using that(1) assms(4) by (auto dest: in_set_takeD)
    then have "target le (co_strategy opts) (vs_request v) = target le (co_strategy opts) (vs_request (vs ! i))"
        and "asker (vs_request v) = asker (vs_request (vs ! i))"
        and "co_strategy opts \<noteq> ByRoute \<longrightarrow> mark \<notin> set (cr_path (vs_request v)) \<and> mark \<notin> set (cr_path (vs_request (vs ! i)))"
      using default_key_inj [OF assms(1,2) _ _ that(2)] assms(3) by blast+
    then show ?thesis
      using target_parts asker_principal by blast
  qed
  ultimately show ?thesis by blast
qed

section \<open>Examples\<close>

definition plain_route :: cached_route where
  "plain_route = \<lparr>ct_key = None, ct_ttl = None, ct_evict = None, ct_redirect = False, ct_success_status = None\<rparr>"

definition get_by :: "string \<Rightarrow> string option \<Rightarrow> string \<Rightarrow> visit" where
  "get_by path subject answer =
     \<lparr>vs_wait = 1,
      vs_request = \<lparr>cr_method = ''GET'', cr_path = path, cr_query = [],
        cr_principal = map_option (\<lambda>s. \<lparr>cp_issuer = None, cp_subject = s\<rparr>) subject\<rparr>,
      vs_route = plain_route, vs_outcome = Returns (StringResult answer) None False\<rparr>"

definition route_options :: cache_options where
  "route_options = \<lparr>co_ttl = Finite 300, co_strategy = ByRoute, co_scope = None\<rparr>"

lemma cached_answers_keep_to_asker_witness:
  "(let vs = [get_by ''/me'' (Some ''alice'') ''a'', get_by ''/me'' (Some ''bob'') ''b'', get_by ''/me'' (Some ''alice'') ''c'']
    in visits (memory_ops Some) (\<lambda>_ _. True) route_options vs (new_cache_service empty_memory_store (Finite 300)) =
         [Inr (StringResult ''a''), Inr (StringResult ''b''), Inr (StringResult ''a'')] \<and>
       (\<exists>v \<in> set (take 2 vs). answers (vs_outcome v) (StringResult ''a'') \<and>
          same_principal (vs_request v) (vs_request (vs ! 2))))"
proof -
  let ?vs = "[get_by ''/me'' (Some ''alice'') ''a'', get_by ''/me'' (Some ''bob'') ''b'', get_by ''/me'' (Some ''alice'') ''c'']"
  have run: "visits (memory_ops Some) (\<lambda>_ _. True) route_options ?vs (new_cache_service empty_memory_store (Finite 300)) =
         [Inr (StringResult ''a''), Inr (StringResult ''b''), Inr (StringResult ''a'')]"
    by code_simp
  have third: "visits (memory_ops Some) (\<lambda>_ _. True) route_options ?vs (new_cache_service empty_memory_store (Finite 300)) ! 2 =
         Inr (StringResult ''a'')"
    unfolding run by simp
  have routes: "\<forall>v \<in> set ?vs. ct_key (vs_route v) = None \<and> bar \<notin> set (cr_path (vs_request v)) \<and>
      (co_strategy route_options \<noteq> ByRoute \<longrightarrow> mark \<notin> set (cr_path (vs_request v)))"
    by (simp add: get_by_def plain_route_def route_options_def)
  have "answers (vs_outcome (?vs ! 2)) (StringResult ''a'') \<or>
    (\<exists>v \<in> set (take 2 ?vs). \<exists>w u. answers (vs_outcome v) w \<and> Some w = Some u \<and> Some u = Some (StringResult ''a'') \<and>
       cr_path (vs_request v) = cr_path (vs_request (?vs ! 2)) \<and>
       same_query (co_strategy route_options) (vs_request v) (vs_request (?vs ! 2)) \<and>
       same_principal (vs_request v) (vs_request (?vs ! 2)))"
    by (rule cached_answers_keep_to_asker [OF _ _ routes _ third]) (simp_all add: route_options_def)
  moreover have "\<not> answers (vs_outcome (?vs ! 2)) (StringResult ''a'')"
    by (simp add: answers_def get_by_def)
  ultimately show ?thesis
    unfolding Let_def run by blast
qed

text \<open>A path can forge a principal: without the restriction on bars, an anonymous request whose path
  ends in the scope of a principal is answered with what was cached for that principal under
  the path in front of it.\<close>

theorem forged_principal_path:
  "visits (memory_ops Some) (\<lambda>_ _. True) route_options
     [get_by ''/me'' (Some ''alice'') ''private'', get_by ''/me|principal:unknown:alice'' None ''public'']
     (new_cache_service empty_memory_store (Finite 300)) =
   [Inr (StringResult ''private''), Inr (StringResult ''private'')]"
  by code_simp

end
