(* ===== verification/Jwt.thy ===== *)
theory Jwt
  imports Js_Number Prelude
begin

text \<open>
  JSON web tokens (\<open>packages/jwt/src/signing/verifier.ts\<close>, \<open>signer.ts\<close>): which key checks a token,
  which claims it must carry, and how tokens are made. Cryptography, base64 and JSON are the
  host's: they are parameters (\<open>jwt_host\<close>). Numbers in claims are exact rationals.
\<close>

section \<open>Tokens and options\<close>

datatype jwt_error = JwtInvalidToken | JwtExpiredToken | JwtConfiguration | JsTypeError

text \<open>A claim as JSON gives it; \<open>ClaimList\<close> is an array with its string elements.\<close>

datatype claim =
    ClaimAbsent
  | ClaimNumber js_number
  | ClaimString string
  | ClaimList "string option list"
  | ClaimOther

record jwt_claims =
  jc_sub :: claim
  jc_iss :: claim
  jc_aud :: claim
  jc_exp :: claim
  jc_iat :: claim
  jc_nbf :: claim
  jc_scope :: claim
  jc_scopes :: claim
  jc_roles :: claim
  jc_jti :: claim
  jc_family :: claim
  jc_type :: claim
  jc_rest :: nat

record jwt_header =
  jh_alg :: "string option"
  jh_kid :: "string option"

datatype key_material = KeyString string | KeyObject nat

record jwt_key_entry =
  ke_kid :: string
  ke_secret :: "string option"
  ke_private :: "key_material option"
  ke_public :: "key_material option"

datatype audience = NoAudience | OneAudience string | Audiences "string list"

record jwt_options =
  jo_algorithms :: "string list"
  jo_ttl :: "js_number option"
  jo_audience :: audience
  jo_clock_skew :: "js_number option"
  jo_issuer :: "string option"
  jo_keys :: "jwt_key_entry list"
  jo_max_age :: "js_number option"
  jo_require_exp :: "bool option"
  jo_provider :: "(jwt_header \<Rightarrow> key_material option) option"
  jo_secret :: "string option"
  jo_private :: "key_material option"
  jo_public :: "key_material option"

text \<open>What JSON.parse gives for a segment: nothing it can parse, \<open>null\<close>, or an object.\<close>

datatype 'a parsed = Unparsable | ParsedNull | Parsed 'a

text \<open>The host: hash-based and public-key signatures over an input, the bytes a base64url segment stands
  for, and the segments of headers and claims.\<close>

record jwt_host =
  h_hmac :: "string \<Rightarrow> string \<Rightarrow> string \<Rightarrow> string"
  h_sign :: "string \<Rightarrow> key_material \<Rightarrow> string \<Rightarrow> string"
  h_verify :: "string \<Rightarrow> key_material \<Rightarrow> string \<Rightarrow> string \<Rightarrow> bool"
  h_encode :: "string \<Rightarrow> string"
  h_decode :: "string \<Rightarrow> string"
  h_write_header :: "jwt_header \<Rightarrow> string"
  h_read_header :: "string \<Rightarrow> jwt_header parsed"
  h_write_claims :: "jwt_claims \<Rightarrow> string"
  h_read_claims :: "string \<Rightarrow> jwt_claims parsed"

definition hmac_algorithms :: "string list" where
  "hmac_algorithms = [''HS256'', ''HS384'', ''HS512'']"

definition asymmetric_algorithms :: "string list" where
  "asymmetric_algorithms = [''RS256'', ''RS384'', ''RS512'', ''ES256'', ''ES384'', ''ES512'']"

definition is_supported_algorithm :: "string \<Rightarrow> bool" where
  "is_supported_algorithm alg \<longleftrightarrow> alg \<in> set hmac_algorithms \<or> alg \<in> set asymmetric_algorithms"

definition assert_jwt_algorithms :: "string list \<Rightarrow> (jwt_error, unit) result" where
  "assert_jwt_algorithms algs =
     (if algs = [] \<or> \<not> list_all is_supported_algorithm algs then Inl JwtConfiguration else Inr ())"

definition is_allowed_algorithm :: "string option \<Rightarrow> string list \<Rightarrow> bool" where
  "is_allowed_algorithm alg allowed =
     (case alg of None \<Rightarrow> False | Some a \<Rightarrow> is_supported_algorithm a \<and> a \<in> set allowed)"

section \<open>Keys\<close>

text \<open>\<open>KeyResolutionState\<close>\<close>

record key_state =
  ks_default_secret :: "string option"
  ks_default_public :: "key_material option"
  ks_hmac_count :: nat
  ks_by_kid :: "(string, jwt_key_entry) js_map"
  ks_public_count :: nat

definition nonempty_secret :: "string option \<Rightarrow> bool" where
  "nonempty_secret s = (case s of None \<Rightarrow> False | Some x \<Rightarrow> x \<noteq> [])"

definition add_key_entry :: "jwt_key_entry \<Rightarrow> key_state \<Rightarrow> key_state" where
  "add_key_entry e s =
     (let s1 = s\<lparr>ks_by_kid := js_set (ke_kid e) e (ks_by_kid s)\<rparr>;
          s2 = (if nonempty_secret (ke_secret e)
                then s1\<lparr>ks_hmac_count := ks_hmac_count s1 + 1,
                        ks_default_secret := (if ks_hmac_count s1 = 0 then ke_secret e else None)\<rparr>
                else s1) in
      if ke_public e \<noteq> None
      then s2\<lparr>ks_public_count := ks_public_count s2 + 1,
              ks_default_public := (if ks_public_count s2 = 0 then ke_public e else None)\<rparr>
      else s2)"

definition create_key_state :: "jwt_key_entry list \<Rightarrow> key_state" where
  "create_key_state keys =
     fold add_key_entry keys
       \<lparr>ks_default_secret = None, ks_default_public = None, ks_hmac_count = 0, ks_by_kid = [], ks_public_count = 0\<rparr>"

text \<open>\<open>a ?? b\<close>\<close>

fun or_else :: "'a option \<Rightarrow> 'a option \<Rightarrow> 'a option" where
  "or_else None b = b"
| "or_else (Some a) b = Some a"

definition has_kid :: "string option \<Rightarrow> bool" where
  "has_kid kid \<longleftrightarrow> kid \<noteq> None \<and> kid \<noteq> Some []"

definition resolve_hmac_secret ::
  "jwt_options \<Rightarrow> key_state \<Rightarrow> string option \<Rightarrow> (jwt_error, string option) result" where
  "resolve_hmac_secret opts ks kid =
     (if has_kid kid
      then (case js_get (ks_by_kid ks) (the kid) of
          None \<Rightarrow> Inl JwtInvalidToken
        | Some e \<Rightarrow> if nonempty_secret (ke_secret e) then Inr (ke_secret e) else Inl JwtConfiguration)
      else if ks_hmac_count ks > 1 then Inl JwtInvalidToken
      else Inr (or_else (ks_default_secret ks) (jo_secret opts)))"

definition resolve_static_public_key ::
  "jwt_options \<Rightarrow> key_state \<Rightarrow> string option \<Rightarrow> (jwt_error, key_material option) result" where
  "resolve_static_public_key opts ks kid =
     (if has_kid kid \<and> ks_by_kid ks \<noteq> []
      then (case js_get (ks_by_kid ks) (the kid) of
          None \<Rightarrow> Inl JwtInvalidToken
        | Some e \<Rightarrow> (case ke_public e of None \<Rightarrow> Inl JwtConfiguration | Some k \<Rightarrow> Inr (Some k)))
      else if ks_public_count ks > 1 then Inl JwtInvalidToken
      else Inr (or_else (ks_default_public ks) (jo_public opts)))"

text \<open>\<open>resolveProviderKey\<close>\<close>

definition provider_key :: "jwt_options \<Rightarrow> jwt_header \<Rightarrow> key_material option" where
  "provider_key opts header = (case jo_provider opts of None \<Rightarrow> None | Some f \<Rightarrow> f header)"

definition hmac_secret ::
  "jwt_options \<Rightarrow> key_state \<Rightarrow> jwt_header \<Rightarrow> (jwt_error, string) result" where
  "hmac_secret opts ks header =
     (case provider_key opts header of
        Some (KeyObject i) \<Rightarrow> Inl JwtConfiguration
      | Some (KeyString s) \<Rightarrow> if s = [] then Inl JwtConfiguration else Inr s
      | None \<Rightarrow>
          (case resolve_hmac_secret opts ks (jh_kid header) of
             Inl e \<Rightarrow> Inl e
           | Inr s \<Rightarrow> if nonempty_secret s then Inr (the s) else Inl JwtConfiguration))"

text \<open>\<open>jwks\<close> looks a key id up at the remote key set, if one is configured.\<close>

definition verification_key ::
  "jwt_options \<Rightarrow> key_state \<Rightarrow> (string \<Rightarrow> (jwt_error, key_material) result) option \<Rightarrow> jwt_header \<Rightarrow>
   (jwt_error, key_material) result" where
  "verification_key opts ks jwks header =
     (case (case provider_key opts header of
          Some k \<Rightarrow> Inr (Some k)
        | None \<Rightarrow>
            (case jwks of
               Some f \<Rightarrow> if has_kid (jh_kid header) then map_sum id Some (f (the (jh_kid header))) else Inl JwtInvalidToken
             | None \<Rightarrow> resolve_static_public_key opts ks (jh_kid header))) of
        Inl e \<Rightarrow> Inl e
      | Inr None \<Rightarrow> Inl JwtConfiguration
      | Inr (Some k) \<Rightarrow> if k = KeyString [] then Inl JwtConfiguration else Inr k)"

section \<open>Signatures\<close>

definition verify_token_signature ::
  "jwt_host \<Rightarrow> jwt_options \<Rightarrow> key_state \<Rightarrow> (string \<Rightarrow> (jwt_error, key_material) result) option \<Rightarrow>
   jwt_header \<Rightarrow> string \<Rightarrow> string \<Rightarrow> (jwt_error, unit) result" where
  "verify_token_signature H opts ks jwks header signing_input signature =
     (let alg = the (jh_alg header) in
      if alg \<in> set hmac_algorithms
      then (case hmac_secret opts ks header of
          Inl e \<Rightarrow> Inl e
        | Inr secret \<Rightarrow>
            if h_decode H (h_encode H (h_hmac H alg secret signing_input)) = h_decode H signature then Inr ()
            else Inl JwtInvalidToken)
      else (case verification_key opts ks jwks header of
          Inl e \<Rightarrow> Inl e
        | Inr k \<Rightarrow> if h_verify H alg k signing_input signature then Inr () else Inl JwtInvalidToken))"

section \<open>Claims\<close>

definition resolve_clock_skew_seconds :: "js_number option \<Rightarrow> (jwt_error, rat) result" where
  "resolve_clock_skew_seconds skew =
     (case skew of
        None \<Rightarrow> Inr 0
      | Some (Finite q) \<Rightarrow> if q < 0 then Inl JwtConfiguration else Inr q
      | Some _ \<Rightarrow> Inl JwtConfiguration)"

fun is_number_claim :: "claim \<Rightarrow> bool" where
  "is_number_claim (ClaimNumber n) = True"
| "is_number_claim _ = False"

text \<open>\<open>assertFiniteNumericDateClaim\<close>\<close>

fun finite_date_claim :: "claim \<Rightarrow> bool" where
  "finite_date_claim ClaimAbsent = True"
| "finite_date_claim (ClaimNumber (Finite q)) = True"
| "finite_date_claim _ = False"

definition validate_max_age ::
  "jwt_claims \<Rightarrow> js_number option \<Rightarrow> rat \<Rightarrow> int \<Rightarrow> (jwt_error, unit) result" where
  "validate_max_age c max_age skew now =
     (case max_age of
        None \<Rightarrow> Inr ()
      | Some (Finite m) \<Rightarrow>
          if m < 0 then Inl JwtConfiguration
          else (case jc_iat c of
              ClaimNumber (Finite iat) \<Rightarrow>
                if iat - skew > of_int now then Inl JwtInvalidToken
                else if of_int now - iat > m + skew then Inl JwtExpiredToken
                else Inr ()
            | _ \<Rightarrow> Inl JwtInvalidToken)
      | Some _ \<Rightarrow> Inl JwtConfiguration)"

fun audience_list :: "claim \<Rightarrow> string option list" where
  "audience_list (ClaimList xs) = xs"
| "audience_list (ClaimString s) = (if s = [] then [] else [Some s])"
| "audience_list _ = []"

fun expected_audience :: "audience \<Rightarrow> string list option" where
  "expected_audience NoAudience = None"
| "expected_audience (OneAudience a) = (if a = [] then None else Some [a])"
| "expected_audience (Audiences as) = Some as"

definition validate_issuer_and_audience :: "jwt_claims \<Rightarrow> jwt_options \<Rightarrow> (jwt_error, unit) result" where
  "validate_issuer_and_audience c opts =
     (if nonempty_secret (jo_issuer opts) \<and> jc_iss c \<noteq> ClaimString (the (jo_issuer opts)) then Inl JwtInvalidToken
      else (case expected_audience (jo_audience opts) of
          None \<Rightarrow> Inr ()
        | Some expected \<Rightarrow>
            if list_ex (\<lambda>a. Some a \<in> set (audience_list (jc_aud c))) expected then Inr ()
            else Inl JwtInvalidToken))"

definition validate_token_claims :: "jwt_claims \<Rightarrow> jwt_options \<Rightarrow> int \<Rightarrow> (jwt_error, unit) result" where
  "validate_token_claims c opts now =
     (case resolve_clock_skew_seconds (jo_clock_skew opts) of
        Inl e \<Rightarrow> Inl e
      | Inr skew \<Rightarrow>
          if jo_require_exp opts \<noteq> Some False \<and> \<not> is_number_claim (jc_exp c) then Inl JwtInvalidToken
          else if \<not> finite_date_claim (jc_exp c) then Inl JwtInvalidToken
          else if \<not> finite_date_claim (jc_nbf c) then Inl JwtInvalidToken
          else (case validate_max_age c (jo_max_age opts) skew now of
              Inl e \<Rightarrow> Inl e
            | Inr _ \<Rightarrow>
                if (case jc_exp c of ClaimNumber (Finite e) \<Rightarrow> e + skew \<le> of_int now | _ \<Rightarrow> False) then Inl JwtExpiredToken
                else if (case jc_nbf c of ClaimNumber (Finite n) \<Rightarrow> n - skew > of_int now | _ \<Rightarrow> False) then Inl JwtInvalidToken
                else validate_issuer_and_audience c opts))"

record jwt_principal =
  jp_subject :: string
  jp_scopes :: "string list option"
  jp_roles :: "string list option"
  jp_claims :: jwt_claims

definition normalize_principal :: "jwt_claims \<Rightarrow> (jwt_error, jwt_principal) result" where
  "normalize_principal c =
     (case jc_sub c of
        ClaimString (x # xs) \<Rightarrow>
          Inr \<lparr>jp_subject = x # xs,
               jp_scopes =
                 (case jc_scopes c of
                    ClaimList ss \<Rightarrow> Some (List.map_filter (\<lambda>s. if s = Some [] then None else s) ss)
                  | _ \<Rightarrow> (case jc_scope c of
                      ClaimString s \<Rightarrow> Some (nonempty_strings (js_split (CHR '' '') s)) | _ \<Rightarrow> None)),
               jp_roles = (case jc_roles c of ClaimList rs \<Rightarrow> Some (List.map_filter id rs) | _ \<Rightarrow> None),
               jp_claims = c\<rparr>
      | _ \<Rightarrow> Inl JwtInvalidToken)"

section \<open>Verification\<close>

text \<open>\<open>verifyToken\<close>. Reading a property of \<open>null\<close> throws the host's \<open>TypeError\<close>.\<close>

definition verify_token ::
  "jwt_host \<Rightarrow> jwt_options \<Rightarrow> key_state \<Rightarrow> (string \<Rightarrow> (jwt_error, key_material) result) option \<Rightarrow> int \<Rightarrow> string \<Rightarrow>
   (jwt_error, jwt_principal) result" where
  "verify_token H opts ks jwks now token =
     (case js_split (CHR ''.'') token of
        [header_segment, payload_segment, signature_segment] \<Rightarrow>
          (case h_read_header H header_segment of
             Unparsable \<Rightarrow> Inl JwtInvalidToken
           | ParsedNull \<Rightarrow> Inl JsTypeError
           | Parsed header \<Rightarrow>
               if \<not> is_allowed_algorithm (jh_alg header) (jo_algorithms opts) then Inl JwtInvalidToken
               else (case verify_token_signature H opts ks jwks header
                            (header_segment @ ''.'' @ payload_segment) signature_segment of
                   Inl e \<Rightarrow> Inl e
                 | Inr _ \<Rightarrow>
                     (case h_read_claims H payload_segment of
                        Unparsable \<Rightarrow> Inl JwtInvalidToken
                      | ParsedNull \<Rightarrow>
                          (case resolve_clock_skew_seconds (jo_clock_skew opts) of
                             Inl e \<Rightarrow> Inl e | Inr _ \<Rightarrow> Inl JsTypeError)
                      | Parsed c \<Rightarrow>
                          (case validate_token_claims c opts now of
                             Inl e \<Rightarrow> Inl e
                           | Inr _ \<Rightarrow> normalize_principal c))))
      | _ \<Rightarrow> Inl JwtInvalidToken)"

definition verify_access_token ::
  "jwt_host \<Rightarrow> jwt_options \<Rightarrow> (string \<Rightarrow> (jwt_error, key_material) result) option \<Rightarrow> int \<Rightarrow> string \<Rightarrow>
   (jwt_error, jwt_principal) result" where
  "verify_access_token H opts jwks now token =
     (case assert_jwt_algorithms (jo_algorithms opts) of
        Inl e \<Rightarrow> Inl e
      | Inr _ \<Rightarrow> verify_token H opts (create_key_state (jo_keys opts)) jwks now token)"

section \<open>Signing\<close>

definition resolve_signing_key_entry :: "jwt_options \<Rightarrow> string \<Rightarrow> jwt_key_entry option" where
  "resolve_signing_key_entry opts alg =
     (if alg \<in> set hmac_algorithms then List.find (\<lambda>e. nonempty_secret (ke_secret e)) (jo_keys opts)
      else List.find (\<lambda>e. ke_private e \<noteq> None) (jo_keys opts))"

definition resolve_access_token_ttl :: "jwt_options \<Rightarrow> (jwt_error, rat) result" where
  "resolve_access_token_ttl opts =
     (case jo_ttl opts of
        None \<Rightarrow> Inr 3600
      | Some (Finite q) \<Rightarrow> if q \<le> 0 then Inl JwtConfiguration else Inr q
      | Some _ \<Rightarrow> Inl JwtConfiguration)"

fun audience_claim :: "audience \<Rightarrow> claim" where
  "audience_claim NoAudience = ClaimAbsent"
| "audience_claim (OneAudience a) = ClaimString a"
| "audience_claim (Audiences as) = ClaimList (map Some as)"

definition default_claim :: "claim \<Rightarrow> claim \<Rightarrow> claim" where
  "default_claim c d = (if c = ClaimAbsent then d else c)"

text \<open>The payload \<open>signToken\<close> makes of the claims.\<close>

definition token_payload :: "jwt_claims \<Rightarrow> jwt_options \<Rightarrow> rat \<Rightarrow> int \<Rightarrow> jwt_claims" where
  "token_payload c opts ttl now =
     c\<lparr>jc_aud := default_claim (jc_aud c) (audience_claim (jo_audience opts)),
       jc_exp := default_claim (jc_exp c) (ClaimNumber (Finite (of_int now + ttl))),
       jc_iat := default_claim (jc_iat c) (ClaimNumber (Finite (of_int now))),
       jc_iss := default_claim (jc_iss c) (case jo_issuer opts of None \<Rightarrow> ClaimAbsent | Some i \<Rightarrow> ClaimString i)\<rparr>"

definition sign_token ::
  "jwt_host \<Rightarrow> jwt_claims \<Rightarrow> jwt_options \<Rightarrow> bool \<Rightarrow> int \<Rightarrow> (jwt_error, string) result" where
  "sign_token H c opts hmac_only now =
     (case List.find (\<lambda>a. if hmac_only then a \<in> set hmac_algorithms else is_supported_algorithm a) (jo_algorithms opts) of
        None \<Rightarrow> Inl JwtConfiguration
      | Some alg \<Rightarrow>
          (case resolve_access_token_ttl opts of
             Inl e \<Rightarrow> Inl e
           | Inr ttl \<Rightarrow>
               (let entry = resolve_signing_key_entry opts alg;
                    header = \<lparr>jh_alg = Some alg, jh_kid = map_option ke_kid entry\<rparr>;
                    signing_input = h_write_header H header @ ''.'' @ h_write_claims H (token_payload c opts ttl now) in
                if alg \<in> set asymmetric_algorithms
                then (case or_else (Option.bind entry ke_private) (jo_private opts) of
                    None \<Rightarrow> Inl JwtConfiguration
                  | Some k \<Rightarrow>
                      if k = KeyString [] then Inl JwtConfiguration
                      else Inr (signing_input @ ''.'' @ h_sign H alg k signing_input))
                else
                  (let secret = or_else (Option.bind entry ke_secret) (jo_secret opts) in
                   if \<not> nonempty_secret secret then Inl JwtConfiguration
                   else Inr (signing_input @ ''.'' @ h_encode H (h_hmac H alg (the secret) signing_input))))))"

definition sign_access_token ::
  "jwt_host \<Rightarrow> jwt_options \<Rightarrow> jwt_claims \<Rightarrow> int \<Rightarrow> (jwt_error, string) result" where
  "sign_access_token H opts c now =
     (case assert_jwt_algorithms (jo_algorithms opts) of
        Inl e \<Rightarrow> Inl e
      | Inr _ \<Rightarrow> sign_token H c opts False now)"

end
