(* ===== verification/Jwt_Facts.thy ===== *)
theory Jwt_Facts
  imports Jwt
begin

text \<open>
  What an accepted token shows, and that a token signed with a secret is accepted under the
  options it was signed with, until it expires.
\<close>

lemma js_join_split: "js_join [sep] (js_split sep s) = s"
proof (induction s)
  case (Cons c s)
  have cons: "js_join sep' ((c # p) # ps) = c # js_join sep' (p # ps)" for sep' p ps
    by (cases ps) auto
  obtain p ps where "js_split sep s = p # ps"
    by (cases "js_split sep s") auto
  then show ?case
    using Cons by (simp add: cons)
qed simp

section \<open>Keys\<close>

text \<open>The configured secrets a key id may stand for: the provider's, that of the last entry with the id,
  or without an id the only secret there is.\<close>

definition configured_secret :: "jwt_options \<Rightarrow> jwt_header \<Rightarrow> string \<Rightarrow> bool" where
  "configured_secret opts header s \<longleftrightarrow> s \<noteq> [] \<and>
     (case provider_key opts header of
        Some k \<Rightarrow> k = KeyString s
      | None \<Rightarrow>
          if has_kid (jh_kid header)
          then (\<exists>e before after. jo_keys opts = before @ e # after \<and> Some (ke_kid e) = jh_kid header \<and>
                 ke_secret e = Some s \<and> (\<forall>x \<in> set after. ke_kid x \<noteq> ke_kid e))
          else (case filter (\<lambda>e. nonempty_secret (ke_secret e)) (jo_keys opts) of
              [] \<Rightarrow> jo_secret opts = Some s
            | [e] \<Rightarrow> ke_secret e = Some s
            | _ \<Rightarrow> False))"

lemma js_get_key_state:
  "js_get (ks_by_kid (fold add_key_entry keys s)) kid =
     (case List.find (\<lambda>e. ke_kid e = kid) (rev keys) of Some e \<Rightarrow> Some e | None \<Rightarrow> js_get (ks_by_kid s) kid)"
proof (induction keys arbitrary: s rule: rev_induct)
  case (snoc e keys)
  then show ?case
    by (simp add: add_key_entry_def Let_def)
qed simp

lemma find_last:
  "List.find P (rev xs) = Some x \<Longrightarrow> \<exists>before after. xs = before @ x # after \<and> P x \<and> (\<forall>y \<in> set after. \<not> P y)"
proof (induction xs rule: rev_induct)
  case (snoc y ys)
  show ?case
  proof (cases "P y")
    case True
    then have "x = y" using snoc.prems by simp
    then show ?thesis using True by (intro exI [of _ ys] exI [of _ "[]"]) simp
  next
    case False
    then obtain before after where "ys = before @ x # after" "P x" "\<forall>y \<in> set after. \<not> P y"
      using snoc by auto
    then show ?thesis
      using False by (intro exI [of _ before] exI [of _ "after @ [y]"]) auto
  qed
qed simp

lemma hmac_count_fold:
  "ks_hmac_count (fold add_key_entry keys s) =
     ks_hmac_count s + length (filter (\<lambda>e. nonempty_secret (ke_secret e)) keys)"
  by (induction keys arbitrary: s) (simp_all add: add_key_entry_def Let_def)

lemma default_secret_fold:
  "ks_default_secret (fold add_key_entry keys s) =
     (case filter (\<lambda>e. nonempty_secret (ke_secret e)) keys of
        [] \<Rightarrow> ks_default_secret s
      | [e] \<Rightarrow> if ks_hmac_count s = 0 then ke_secret e else None
      | _ \<Rightarrow> None)"
  by (induction keys arbitrary: s) (auto simp: add_key_entry_def Let_def split: list.split)

lemma hmac_secret_configured:
  assumes "hmac_secret opts (create_key_state (jo_keys opts)) header = Inr s"
  shows "configured_secret opts header s"
proof (cases "provider_key opts header")
  case (Some k)
  then show ?thesis
    using assms by (cases k) (auto simp: hmac_secret_def configured_secret_def split: if_splits)
next
  case None
  let ?ks = "create_key_state (jo_keys opts)"
  let ?secrets = "filter (\<lambda>e. nonempty_secret (ke_secret e)) (jo_keys opts)"
  have resolved: "resolve_hmac_secret opts ?ks (jh_kid header) = Inr (Some s)" and s: "s \<noteq> []"
    using assms None by (auto simp: hmac_secret_def nonempty_secret_def split: sum.splits if_splits option.splits)
  show ?thesis
  proof (cases "has_kid (jh_kid header)")
    case True
    then obtain kid where kid: "jh_kid header = Some kid" by (auto simp: has_kid_def)
    then obtain e where e: "List.find (\<lambda>e. ke_kid e = kid) (rev (jo_keys opts)) = Some e" "ke_secret e = Some s"
      using resolved True
      by (auto simp: resolve_hmac_secret_def create_key_state_def js_get_key_state split: option.splits if_splits)
    then show ?thesis
      using find_last [OF e(1)] kid s True None unfolding configured_secret_def by auto
  next
    case False
    then have "length ?secrets \<le> 1" and "or_else (ks_default_secret ?ks) (jo_secret opts) = Some s"
      using resolved
      by (auto simp: resolve_hmac_secret_def create_key_state_def hmac_count_fold not_less split: if_splits)
    moreover have "?secrets = [] \<or> (\<exists>e. ?secrets = [e] \<and> ke_secret e \<noteq> None)"
    proof (cases ?secrets)
      case (Cons e es)
      then have "e \<in> set ?secrets" by simp
      then show ?thesis
        using calculation(1) Cons by (auto simp: nonempty_secret_def split: option.splits)
    qed simp
    ultimately show ?thesis
      using s False None by (auto simp: configured_secret_def create_key_state_def default_secret_fold)
  qed
qed

text \<open>The configured public keys: the provider's, that of the remote set for the key id, that of the last
  static entry with the id, or without an id (or without static entries) the only public key there
  is.\<close>

definition configured_public_key ::
  "jwt_options \<Rightarrow> (string \<Rightarrow> (jwt_error, key_material) result) option \<Rightarrow> jwt_header \<Rightarrow> key_material \<Rightarrow> bool" where
  "configured_public_key opts jwks header k \<longleftrightarrow> k \<noteq> KeyString [] \<and>
     (case (provider_key opts header, jwks) of
        (Some k', _) \<Rightarrow> k = k'
      | (None, Some remote) \<Rightarrow> \<exists>kid. jh_kid header = Some kid \<and> kid \<noteq> [] \<and> remote kid = Inr k
      | (None, None) \<Rightarrow>
          if has_kid (jh_kid header) \<and> jo_keys opts \<noteq> []
          then (\<exists>e before after. jo_keys opts = before @ e # after \<and> Some (ke_kid e) = jh_kid header \<and>
                 ke_public e = Some k \<and> (\<forall>x \<in> set after. ke_kid x \<noteq> ke_kid e))
          else (case filter (\<lambda>e. ke_public e \<noteq> None) (jo_keys opts) of
              [] \<Rightarrow> jo_public opts = Some k
            | [e] \<Rightarrow> ke_public e = Some k
            | _ \<Rightarrow> False))"

lemma public_count_fold:
  "ks_public_count (fold add_key_entry keys s) =
     ks_public_count s + length (filter (\<lambda>e. ke_public e \<noteq> None) keys)"
  by (induction keys arbitrary: s) (auto simp: add_key_entry_def Let_def)

lemma default_public_fold:
  "ks_default_public (fold add_key_entry keys s) =
     (case filter (\<lambda>e. ke_public e \<noteq> None) keys of
        [] \<Rightarrow> ks_default_public s
      | [e] \<Rightarrow> if ks_public_count s = 0 then ke_public e else None
      | _ \<Rightarrow> None)"
  by (induction keys arbitrary: s) (auto simp: add_key_entry_def Let_def split: list.split)

lemma kids_fold: "ks_by_kid (fold add_key_entry keys s) = [] \<longleftrightarrow> keys = [] \<and> ks_by_kid s = []"
  by (induction keys rule: rev_induct) (auto simp: add_key_entry_def Let_def)

lemma static_public_key_configured:
  assumes "resolve_static_public_key opts (create_key_state (jo_keys opts)) (jh_kid header) = Inr (Some k)"
    and "provider_key opts header = None" and "k \<noteq> KeyString []"
  shows "configured_public_key opts None header k"
proof (cases "has_kid (jh_kid header) \<and> jo_keys opts \<noteq> []")
  case True
  then obtain kid where kid: "jh_kid header = Some kid" by (auto simp: has_kid_def)
  then obtain e where e: "List.find (\<lambda>e. ke_kid e = kid) (rev (jo_keys opts)) = Some e" "ke_public e = Some k"
    using assms(1) True
    by (auto simp: resolve_static_public_key_def create_key_state_def js_get_key_state kids_fold
        split: option.splits if_splits)
  then show ?thesis
    using find_last [OF e(1)] kid assms(2,3) True unfolding configured_public_key_def by auto
next
  case False
  let ?ks = "create_key_state (jo_keys opts)"
  let ?public = "filter (\<lambda>e. ke_public e \<noteq> None) (jo_keys opts)"
  have "length ?public \<le> 1" and "or_else (ks_default_public ?ks) (jo_public opts) = Some k"
    using assms(1) False
    by (auto simp: resolve_static_public_key_def create_key_state_def public_count_fold kids_fold not_less
        split: if_splits)
  moreover have "?public = [] \<or> (\<exists>e. ?public = [e] \<and> ke_public e \<noteq> None)"
  proof (cases ?public)
    case (Cons e es)
    then have "e \<in> set ?public" by simp
    then show ?thesis
      using calculation(1) Cons by auto
  qed simp
  ultimately show ?thesis
    using False assms(2,3) by (auto simp: configured_public_key_def create_key_state_def default_public_fold)
qed

lemma verification_key_configured:
  assumes "verification_key opts (create_key_state (jo_keys opts)) jwks header = Inr k"
  shows "configured_public_key opts jwks header k"
proof (cases "provider_key opts header")
  case None
  then show ?thesis
  proof (cases jwks)
    case None
    then show ?thesis
      using assms \<open>provider_key opts header = None\<close> static_public_key_configured [of opts header k]
      by (auto simp: verification_key_def split: sum.splits option.splits if_splits)
  next
    case (Some remote)
    then show ?thesis
      using assms \<open>provider_key opts header = None\<close>
      by (cases "remote (the (jh_kid header))")
        (auto simp: verification_key_def configured_public_key_def has_kid_def split: if_splits)
  qed
qed (use assms in \<open>auto simp: verification_key_def configured_public_key_def split: if_splits\<close>)

section \<open>Claims\<close>

definition skew_of :: "jwt_options \<Rightarrow> rat" where
  "skew_of opts = (case jo_clock_skew opts of Some (Finite q) \<Rightarrow> q | _ \<Rightarrow> 0)"

text \<open>What a token must say at a time to be accepted.\<close>

definition claims_hold :: "jwt_options \<Rightarrow> int \<Rightarrow> jwt_claims \<Rightarrow> bool" where
  "claims_hold opts now c \<longleftrightarrow>
     (jc_exp c = ClaimAbsent \<and> jo_require_exp opts = Some False \<or>
      (\<exists>e. jc_exp c = ClaimNumber (Finite e) \<and> of_int now < e + skew_of opts)) \<and>
     (jc_nbf c = ClaimAbsent \<or> (\<exists>n. jc_nbf c = ClaimNumber (Finite n) \<and> n - skew_of opts \<le> of_int now)) \<and>
     (case jo_max_age opts of
        None \<Rightarrow> True
      | Some m \<Rightarrow> \<exists>age iat. m = Finite age \<and> jc_iat c = ClaimNumber (Finite iat) \<and>
          iat - skew_of opts \<le> of_int now \<and> of_int now - iat \<le> age + skew_of opts) \<and>
     (nonempty_secret (jo_issuer opts) \<longrightarrow> jc_iss c = ClaimString (the (jo_issuer opts))) \<and>
     (case expected_audience (jo_audience opts) of
        None \<Rightarrow> True
      | Some expected \<Rightarrow> \<exists>a \<in> set expected. Some a \<in> set (audience_list (jc_aud c))) \<and>
     (\<exists>sub. jc_sub c = ClaimString sub \<and> sub \<noteq> [])"

lemma validated_claims:
  assumes "validate_token_claims c opts now = Inr u" and "normalize_principal c = Inr p"
  shows "claims_hold opts now c" and "jp_claims p = c" and "jc_sub c = ClaimString (jp_subject p)"
proof -
  obtain skew where skew: "resolve_clock_skew_seconds (jo_clock_skew opts) = Inr skew"
    using assms(1) by (auto simp: validate_token_claims_def split: sum.splits)
  then have of: "skew_of opts = skew"
    by (auto simp: resolve_clock_skew_seconds_def skew_of_def split: option.splits js_number.splits if_splits)
  note checks = assms(1) [unfolded validate_token_claims_def skew sum.case]
  have exp: "jc_exp c = ClaimAbsent \<and> jo_require_exp opts = Some False \<or>
      (\<exists>e. jc_exp c = ClaimNumber (Finite e) \<and> of_int now < e + skew)"
    using checks by (cases "jc_exp c" rule: finite_date_claim.cases) (auto split: if_splits sum.splits)
  have nbf: "jc_nbf c = ClaimAbsent \<or> (\<exists>n. jc_nbf c = ClaimNumber (Finite n) \<and> n - skew \<le> of_int now)"
    using checks by (cases "jc_nbf c" rule: finite_date_claim.cases) (auto split: if_splits sum.splits)
  have age: "validate_max_age c (jo_max_age opts) skew now = Inr ()"
    and parties: "validate_issuer_and_audience c opts = Inr ()"
    using checks by (auto split: if_splits sum.splits)
  show sub: "jp_claims p = c" "jc_sub c = ClaimString (jp_subject p)"
    using assms(2) by (auto simp: normalize_principal_def split: claim.splits list.splits)
  have "\<exists>sub. jc_sub c = ClaimString sub \<and> sub \<noteq> []"
    using assms(2) by (auto simp: normalize_principal_def split: claim.splits list.splits)
  moreover have "case jo_max_age opts of None \<Rightarrow> True
      | Some m \<Rightarrow> \<exists>age iat. m = Finite age \<and> jc_iat c = ClaimNumber (Finite iat) \<and>
          iat - skew \<le> of_int now \<and> of_int now - iat \<le> age + skew"
    using age by (auto simp: validate_max_age_def not_less split: option.splits js_number.splits claim.splits if_splits)
  moreover have "(nonempty_secret (jo_issuer opts) \<longrightarrow> jc_iss c = ClaimString (the (jo_issuer opts))) \<and>
      (case expected_audience (jo_audience opts) of None \<Rightarrow> True
       | Some expected \<Rightarrow> \<exists>a \<in> set expected. Some a \<in> set (audience_list (jc_aud c)))"
    using parties by (auto simp: validate_issuer_and_audience_def list_ex_iff split: option.splits if_splits)
  ultimately show "claims_hold opts now c"
    using exp nbf unfolding claims_hold_def of by blast
qed


section \<open>Accepted tokens\<close>

text \<open>C12. An accepted token is authentic and current: it has three segments, its algorithm is one of
  the allowed ones, its signature is that of header and claims under a key the verifier is
  configured with, and at the time its claims hold: it has not expired, is active, is not too
  old, and names the issuer, an audience and a subject. For a hash-based algorithm the key is
  the string the application's key provider returns for the header or, where it returns none, a
  secret of the options: that of the last entry with the header's key id, or without an id the
  only one there is; what stands in a public-key field is never used as a secret (a provider
  may return any string, and nothing asks whether it is one). For the others it is the
  provider's key, that of the remote set for the header's key id, or the static public key
  the id selects.\<close>

theorem accepted_token_is_authentic:
  assumes "verify_access_token H opts jwks now token = Inr p"
  shows "\<exists>hs ps ss header alg. token = hs @ ''.'' @ ps @ ''.'' @ ss \<and>
    h_read_header H hs = Parsed header \<and> h_read_claims H ps = Parsed (jp_claims p) \<and>
    jh_alg header = Some alg \<and> alg \<in> set (jo_algorithms opts) \<and>
    (if alg \<in> set hmac_algorithms
     then \<exists>s. configured_secret opts header s \<and>
            h_decode H ss = h_decode H (h_encode H (h_hmac H alg s (hs @ ''.'' @ ps)))
     else \<exists>k. configured_public_key opts jwks header k \<and> h_verify H alg k (hs @ ''.'' @ ps) ss) \<and>
    claims_hold opts now (jp_claims p) \<and> jc_sub (jp_claims p) = ClaimString (jp_subject p)"
proof -
  have verified: "verify_token H opts (create_key_state (jo_keys opts)) jwks now token = Inr p"
    using assms by (auto simp: verify_access_token_def split: sum.splits)
  obtain hs ps ss where segments: "js_split (CHR ''.'') token = [hs, ps, ss]"
    using verified by (auto simp: verify_token_def split: list.splits)
  then have token: "token = hs @ ''.'' @ ps @ ''.'' @ ss"
    using js_join_split [of "CHR ''.''" token] by simp
  obtain header where header: "h_read_header H hs = Parsed header"
    using verified segments by (auto simp: verify_token_def split: parsed.splits)
  obtain alg where alg: "jh_alg header = Some alg" "alg \<in> set (jo_algorithms opts)"
    using verified segments header
    by (auto simp: verify_token_def is_allowed_algorithm_def split: option.splits if_splits)
  have signed: "verify_token_signature H opts (create_key_state (jo_keys opts)) jwks header (hs @ ''.'' @ ps) ss = Inr ()"
    using verified segments header by (auto simp: verify_token_def split: if_splits sum.splits)
  obtain c where c: "h_read_claims H ps = Parsed c"
    using verified segments header
    by (auto simp: verify_token_def split: if_splits sum.splits parsed.splits)
  obtain u where u: "validate_token_claims c opts now = Inr u" "normalize_principal c = Inr p"
    using verified segments header c by (auto simp: verify_token_def split: if_splits sum.splits)
  note claims = validated_claims [OF u]
  have "if alg \<in> set hmac_algorithms
     then \<exists>s. configured_secret opts header s \<and>
            h_decode H ss = h_decode H (h_encode H (h_hmac H alg s (hs @ ''.'' @ ps)))
     else \<exists>k. configured_public_key opts jwks header k \<and> h_verify H alg k (hs @ ''.'' @ ps) ss"
    using signed alg(1) hmac_secret_configured [of opts header] verification_key_configured [of opts jwks header]
    by (cases "hmac_secret opts (create_key_state (jo_keys opts)) header")
      (auto simp: verify_token_signature_def Let_def split: sum.splits if_splits intro!: exI)
  then show ?thesis
    using token header c alg claims by blast
qed


section \<open>Signed tokens\<close>

fun json_safe :: "claim \<Rightarrow> bool" where
  "json_safe (ClaimNumber (Finite q)) = True"
| "json_safe (ClaimNumber n) = False"
| "json_safe (ClaimList xs) = (None \<notin> set xs)"
| "json_safe c = (c \<noteq> ClaimOther)"

definition json_safe_claims :: "jwt_claims \<Rightarrow> bool" where
  "json_safe_claims c =
     list_all (\<lambda>f. json_safe (f c))
       [jc_sub, jc_iss, jc_aud, jc_exp, jc_iat, jc_nbf, jc_scope, jc_scopes, jc_roles, jc_jti, jc_family, jc_type]"

text \<open>What the code relies on from the host: what JSON writes it reads back (strings, finite numbers and
  arrays of strings), and base64url has no dots.\<close>

definition host_ok :: "jwt_host \<Rightarrow> jwt_header \<Rightarrow> jwt_claims \<Rightarrow> bool" where
  "host_ok H h c \<longleftrightarrow>
     h_read_header H (h_write_header H h) = Parsed h \<and> CHR ''.'' \<notin> set (h_write_header H h) \<and>
     (json_safe_claims c \<longrightarrow> h_read_claims H (h_write_claims H c) = Parsed c) \<and>
     CHR ''.'' \<notin> set (h_write_claims H c) \<and> (\<forall>x. CHR ''.'' \<notin> set (h_encode H x))"

definition token_header :: "jwt_options \<Rightarrow> string \<Rightarrow> jwt_header" where
  "token_header opts alg =
     \<lparr>jh_alg = Some alg, jh_kid = map_option ke_kid (resolve_signing_key_entry opts alg)\<rparr>"

text \<open>The claims an application leaves to the signer.\<close>

definition bare_claims :: "jwt_claims \<Rightarrow> bool" where
  "bare_claims c \<longleftrightarrow>
     jc_aud c = ClaimAbsent \<and> jc_iss c = ClaimAbsent \<and> jc_exp c = ClaimAbsent \<and> jc_iat c = ClaimAbsent \<and>
     jc_nbf c = ClaimAbsent \<and> (\<exists>s. jc_sub c = ClaimString s \<and> s \<noteq> []) \<and> json_safe_claims c"

lemma find_distinct_kid:
  assumes "List.find P keys = Some e" and "distinct (map ke_kid keys)"
  shows "List.find (\<lambda>x. ke_kid x = ke_kid e) (rev keys) = Some e"
proof -
  have e: "e \<in> set (rev keys)" and distinct: "distinct (map ke_kid (rev keys))"
    using assms by (auto simp: find_Some_iff rev_map [symmetric])
  have "List.find (\<lambda>x. ke_kid x = ke_kid e) xs = Some e" if "e \<in> set xs" "distinct (map ke_kid xs)" for xs
    using that by (induction xs) (auto simp: rev_image_eqI)
  then show ?thesis using e distinct by blast
qed

text \<open>The verifier finds the secret the signer used.\<close>

lemma signer_secret_resolved:
  assumes "jo_provider opts = None" and "distinct (map ke_kid (jo_keys opts))"
    and "\<forall>e \<in> set (jo_keys opts). ke_kid e \<noteq> []" and "alg \<in> set hmac_algorithms"
    and "entry = resolve_signing_key_entry opts alg"
    and "or_else (Option.bind entry ke_secret) (jo_secret opts) = secret" and "nonempty_secret secret"
  shows "hmac_secret opts (create_key_state (jo_keys opts)) \<lparr>jh_alg = Some alg, jh_kid = map_option ke_kid entry\<rparr> =
    Inr (the secret)"
proof (cases entry)
  case None
  then have "filter (\<lambda>e. nonempty_secret (ke_secret e)) (jo_keys opts) = []"
    using assms(4,5) by (simp add: resolve_signing_key_entry_def find_None_iff filter_empty_conv)
  then show ?thesis
    using None assms(1,6,7)
    by (simp add: hmac_secret_def provider_key_def resolve_hmac_secret_def has_kid_def create_key_state_def
        hmac_count_fold default_secret_fold)
next
  case (Some e)
  then have found: "List.find (\<lambda>e. nonempty_secret (ke_secret e)) (jo_keys opts) = Some e"
    using assms(4,5) by (simp add: resolve_signing_key_entry_def)
  then have e: "e \<in> set (jo_keys opts)" "nonempty_secret (ke_secret e)"
    by (auto simp: find_Some_iff)
  then have "secret = ke_secret e"
    using Some assms(6) by (cases "ke_secret e") (auto simp: nonempty_secret_def)
  then show ?thesis
    using Some assms(1,3) e find_distinct_kid [OF found assms(2)]
    by (simp add: hmac_secret_def provider_key_def resolve_hmac_secret_def has_kid_def create_key_state_def
        js_get_key_state)
qed

lemma payload_holds:
  assumes "bare_claims c" and "resolve_clock_skew_seconds (jo_clock_skew opts) = Inr skew"
    and "jo_audience opts \<noteq> Audiences []" and "now \<le> t" and "of_int t < of_int now + ttl + skew"
    and "\<And>m. jo_max_age opts = Some m \<Longrightarrow> \<exists>q. m = Finite q \<and> 0 \<le> q \<and> of_int t - of_int now \<le> q + skew"
  shows "validate_token_claims (token_payload c opts ttl now) opts t = Inr ()"
proof -
  let ?c = "token_payload c opts ttl now"
  have skew: "0 \<le> skew"
    using assms(2) by (auto simp: resolve_clock_skew_seconds_def split: option.splits js_number.splits if_splits)
  have fields: "jc_exp ?c = ClaimNumber (Finite (of_int now + ttl))" "jc_nbf ?c = ClaimAbsent"
      "jc_iat ?c = ClaimNumber (Finite (of_int now))" "jc_aud ?c = audience_claim (jo_audience opts)"
      "jc_iss ?c = (case jo_issuer opts of None \<Rightarrow> ClaimAbsent | Some i \<Rightarrow> ClaimString i)"
    using assms(1) by (simp_all add: bare_claims_def token_payload_def default_claim_def)
  have early: "of_int now - skew \<le> (of_int t :: rat)"
  proof -
    have "(of_int now :: rat) \<le> of_int t" using assms(4) by simp
    then show ?thesis using skew by linarith
  qed
  have "validate_max_age ?c (jo_max_age opts) skew t = Inr ()"
    using assms(6) early by (fastforce simp: validate_max_age_def fields not_less split: option.split)
  moreover have "validate_issuer_and_audience ?c opts = Inr ()"
  proof -
    have "list_ex (\<lambda>a. Some a \<in> set (audience_list (jc_aud ?c))) expected"
      if "expected_audience (jo_audience opts) = Some expected" for expected
      using that assms(3) unfolding fields
      by (cases "jo_audience opts") (auto simp: list_ex_iff neq_Nil_conv split: if_splits)
    then show ?thesis
      by (auto simp: validate_issuer_and_audience_def fields nonempty_secret_def split: option.splits)
  qed
  moreover have "\<not> of_int now + ttl + skew \<le> of_int t"
    using assms(5) by linarith
  ultimately show ?thesis
    using assms(2) by (simp add: validate_token_claims_def fields)
qed

text \<open>C24. What the signer signs the verifier accepts: under options whose first supported algorithm is
  hash-based, whose keys have distinct ids that are not empty, which have no
  \<open>secretOrKeyProvider\<close> (the signer never asks one) and do not expect an audience out of an empty
  list, an access token that was signed with claims that name a subject and leave the other
  registered ones to the signer is accepted under the same options until its time to live (and the
  maximal age) plus the clock skew is over, and gives back the payload that was signed. Of two
  keys with one id the signer takes the first and the verifier the last.\<close>

theorem signed_token_is_accepted:
  assumes "host_ok H (token_header opts alg) (token_payload c opts ttl now)" and "sign_access_token H opts c now = Inr token" and "bare_claims c"
    and "List.find is_supported_algorithm (jo_algorithms opts) = Some alg" and "alg \<in> set hmac_algorithms"
    and "jo_provider opts = None" and "distinct (map ke_kid (jo_keys opts))" and "\<forall>e \<in> set (jo_keys opts). ke_kid e \<noteq> []"
    and "resolve_access_token_ttl opts = Inr ttl" and "resolve_clock_skew_seconds (jo_clock_skew opts) = Inr skew"
    and "jo_audience opts \<noteq> Audiences []" and "now \<le> t" and "of_int t < of_int now + ttl + skew"
    and "\<forall>m. jo_max_age opts = Some m \<longrightarrow> (\<exists>q. m = Finite q \<and> 0 \<le> q \<and> of_int t - of_int now \<le> q + skew)"
  shows "\<exists>p. verify_access_token H opts jwks t token = Inr p \<and> jp_claims p = token_payload c opts ttl now"
proof -
  let ?c = "token_payload c opts ttl now"
  define entry where "entry = resolve_signing_key_entry opts alg"
  define secret where "secret = or_else (Option.bind entry ke_secret) (jo_secret opts)"
  let ?header = "\<lparr>jh_alg = Some alg, jh_kid = map_option ke_kid entry\<rparr>"
  let ?h = "h_write_header H ?header" and ?p = "h_write_claims H ?c"
  let ?input = "?h @ ''.'' @ ?p"
  have algorithms: "assert_jwt_algorithms (jo_algorithms opts) = Inr ()"
    using assms(2) by (auto simp: sign_access_token_def split: sum.splits)
  have "alg \<notin> set asymmetric_algorithms"
    using assms(5) by (auto simp: hmac_algorithms_def asymmetric_algorithms_def)
  then have secret: "nonempty_secret secret"
    and token: "token = ?input @ ''.'' @ h_encode H (h_hmac H alg (the secret) ?input)"
    using assms(2,4,9) algorithms
    by (auto simp: sign_access_token_def sign_token_def Let_def entry_def secret_def split: if_splits)
  let ?s = "h_encode H (h_hmac H alg (the secret) ?input)"
  have "js_split (CHR ''.'') token = [?h, ?p, ?s]"
    using assms(1) js_split_join [of "[?h, ?p, ?s]" "CHR ''.''"] unfolding token by (simp add: host_ok_def token_header_def entry_def token_header_def entry_def)
  moreover have "h_read_header H ?h = Parsed ?header"
    using assms(1) by (simp add: host_ok_def token_header_def entry_def)
  moreover have "is_allowed_algorithm (Some alg) (jo_algorithms opts)"
    using assms(4) by (auto simp: is_allowed_algorithm_def find_Some_iff)
  moreover have "verify_token_signature H opts (create_key_state (jo_keys opts)) jwks ?header ?input ?s = Inr ()"
    using signer_secret_resolved [OF assms(6,7,8,5) entry_def secret_def [symmetric] secret] assms(5)
    by (simp add: verify_token_signature_def)
  moreover have "json_safe_claims ?c"
    using assms(3) by (cases "jo_audience opts")
      (auto simp: bare_claims_def json_safe_claims_def token_payload_def default_claim_def split: option.split)
  then have "h_read_claims H ?p = Parsed ?c"
    using assms(1) by (simp add: host_ok_def token_header_def entry_def)
  moreover have "validate_token_claims ?c opts t = Inr ()"
    by (rule payload_holds) (use assms in blast)+
  moreover obtain p where "normalize_principal ?c = Inr p" and "jp_claims p = ?c"
    using assms(3) by (auto simp: bare_claims_def normalize_principal_def token_payload_def neq_Nil_conv)
  ultimately show ?thesis
    using algorithms by (simp add: verify_access_token_def verify_token_def)
qed


section \<open>Examples\<close>

text \<open>A host whose hash-based signature is the secret itself in front of the number of characters
  signed, and which writes one header and one payload.\<close>

definition demo_options :: jwt_options where
  "demo_options =
     \<lparr>jo_algorithms = [''HS256''], jo_ttl = Some (Finite 60), jo_audience = OneAudience ''api'', jo_clock_skew = None,
      jo_issuer = Some ''me'',
      jo_keys = [\<lparr>ke_kid = ''k1'', ke_secret = Some ''hush'', ke_private = None, ke_public = None\<rparr>],
      jo_max_age = None, jo_require_exp = None, jo_provider = None, jo_secret = None, jo_private = None, jo_public = None\<rparr>"

definition demo_claims :: jwt_claims where
  "demo_claims =
     \<lparr>jc_sub = ClaimString ''ann'', jc_iss = ClaimAbsent, jc_aud = ClaimAbsent, jc_exp = ClaimAbsent, jc_iat = ClaimAbsent,
      jc_nbf = ClaimAbsent, jc_scope = ClaimAbsent, jc_scopes = ClaimAbsent, jc_roles = ClaimAbsent, jc_jti = ClaimAbsent,
      jc_family = ClaimAbsent, jc_type = ClaimAbsent, jc_rest = 0\<rparr>"

definition demo_payload :: jwt_claims where
  "demo_payload = demo_claims\<lparr>jc_aud := ClaimString ''api'', jc_exp := ClaimNumber (Finite 160), jc_iat := ClaimNumber (Finite 100),
     jc_iss := ClaimString ''me''\<rparr>"

definition demo_host :: jwt_host where
  "demo_host =
     \<lparr>h_hmac = (\<lambda>alg secret x. secret @ replicate (length x) (CHR ''x'')), h_sign = (\<lambda>alg k x. []),
      h_verify = (\<lambda>alg k x s. False), h_encode = filter (\<lambda>c. c \<noteq> CHR ''.''), h_decode = id,
      h_write_header = (\<lambda>h. ''head''),
      h_read_header = (\<lambda>s. if s = ''head'' then Parsed \<lparr>jh_alg = Some ''HS256'', jh_kid = Some ''k1''\<rparr>
         else if s = ''null'' then ParsedNull else Unparsable),
      h_write_claims = (\<lambda>c. ''body''), h_read_claims = (\<lambda>s. if s = ''body'' then Parsed demo_payload else Unparsable)\<rparr>"

lemma demo_payload_eq: "token_payload demo_claims demo_options 60 100 = demo_payload"
  by (simp add: token_payload_def demo_claims_def demo_options_def demo_payload_def default_claim_def)

lemma demo_signed: "sign_access_token demo_host demo_options demo_claims 100 = Inr ''head.body.hushxxxxxxxxx''"
  by code_simp

lemma signed_token_is_accepted_witness:
  "\<exists>p. verify_access_token demo_host demo_options None 159 ''head.body.hushxxxxxxxxx'' = Inr p \<and> jp_claims p = demo_payload"
proof -
  have header: "token_header demo_options ''HS256'' = \<lparr>jh_alg = Some ''HS256'', jh_kid = Some ''k1''\<rparr>"
    by code_simp
  have "host_ok demo_host (token_header demo_options ''HS256'') demo_payload"
    by (simp add: host_ok_def header demo_host_def)
  then show ?thesis
    using signed_token_is_accepted [OF _ demo_signed, of "''HS256''" 60 0 159 None]
    unfolding demo_payload_eq
    by (simp add: demo_options_def demo_claims_def bare_claims_def json_safe_claims_def is_supported_algorithm_def
        hmac_algorithms_def resolve_access_token_ttl_def resolve_clock_skew_seconds_def)
qed

lemma accepted_token_is_authentic_witness:
  "(\<exists>header s. configured_secret demo_options header s) \<and> claims_hold demo_options 159 demo_payload"
proof -
  have p: "verify_access_token demo_host demo_options None 159 ''head.body.hushxxxxxxxxx'' =
      Inr \<lparr>jp_subject = ''ann'', jp_scopes = None, jp_roles = None, jp_claims = demo_payload\<rparr>"
    by code_simp
  have only: "set (jo_algorithms demo_options) \<subseteq> set hmac_algorithms"
    by (simp add: demo_options_def hmac_algorithms_def)
  show ?thesis
    using accepted_token_is_authentic [OF p] only by fastforce
qed

text \<open>Of two keys with the same id the signer takes the first and the verifier the last: a token is
  rejected by the service that has just signed it.\<close>

theorem same_kid_rejected:
  "(let opts = demo_options\<lparr>jo_keys :=
        [\<lparr>ke_kid = ''k1'', ke_secret = Some ''hush'', ke_private = None, ke_public = None\<rparr>,
         \<lparr>ke_kid = ''k1'', ke_secret = Some ''loud'', ke_private = None, ke_public = None\<rparr>]\<rparr>
    in case sign_access_token demo_host opts demo_claims 100 of
         Inl e \<Rightarrow> None | Inr token \<Rightarrow> Some (verify_access_token demo_host opts None 101 token)) =
   Some (Inl JwtInvalidToken)"
  by code_simp

text \<open>A token whose header is the JSON \<open>null\<close> is refused with the host's \<open>TypeError\<close>, not as an invalid
  token.\<close>

theorem null_header_type_error:
  "verify_access_token demo_host demo_options None 159 ''null.body.x'' = Inl JsTypeError"
  by code_simp

end
