(* ===== verification/Refresh_Token.thy ===== *)
theory Refresh_Token
  imports Jwt
begin

text \<open>
  Refresh tokens (\<open>packages/jwt/src/refresh/refresh-token.ts\<close>) over a token store, with the
  in-memory store (\<open>packages/passport/src/refresh/jwt-refresh-token-adapter.ts\<close>). Rotation is
  asynchronous: between the step that consumes a token and the one that saves its
  replacement, or revokes after a reuse, steps of other calls may come. \<open>randomUUID\<close> of the host
  gives the identifiers; times are milliseconds.
\<close>

section \<open>Records and stores\<close>

record refresh_record =
  rr_id :: string
  rr_subject :: string
  rr_family :: string
  rr_expires :: rat
  rr_used :: bool
  rr_created :: int

datatype consume_result = Consumed | AlreadyUsed | Expired | NotFound | Mismatch | Invalid

record consume_input =
  ci_token :: string
  ci_subject :: string
  ci_family :: string
  ci_now :: int

record 's token_store =
  ts_save :: "refresh_record \<Rightarrow> 's \<Rightarrow> 's"
  ts_find :: "string \<Rightarrow> 's \<Rightarrow> refresh_record option"
  ts_revoke :: "string \<Rightarrow> 's \<Rightarrow> 's"
  ts_revoke_subject :: "string \<Rightarrow> 's \<Rightarrow> 's"
  ts_consume :: "(consume_input \<Rightarrow> 's \<Rightarrow> consume_result \<times> 's) option"
  ts_rotate :: "(consume_input \<Rightarrow> refresh_record \<Rightarrow> 's \<Rightarrow> consume_result \<times> 's) option"

text \<open>\<open>createInMemoryStore\<close>\<close>

type_synonym memory_tokens = "(string, refresh_record) js_map"

definition memory_consume :: "consume_input \<Rightarrow> memory_tokens \<Rightarrow> consume_result \<times> memory_tokens" where
  "memory_consume input s =
     (case js_get s (ci_token input) of
        None \<Rightarrow> (Invalid, s)
      | Some r \<Rightarrow>
          if rr_subject r \<noteq> ci_subject input \<or> rr_family r \<noteq> ci_family input then (Invalid, s)
          else if rr_expires r \<le> of_int (ci_now input) then (Expired, s)
          else if rr_used r then (AlreadyUsed, s)
          else (Consumed, js_set (ci_token input) (r\<lparr>rr_used := True\<rparr>) s))"

definition memory_tokens :: "memory_tokens token_store" where
  "memory_tokens =
     \<lparr>ts_save = (\<lambda>r. js_set (rr_id r) r), ts_find = (\<lambda>i s. js_get s i), ts_revoke = js_delete,
      ts_revoke_subject = (\<lambda>sub. filter (\<lambda>(i, r). rr_subject r \<noteq> sub)),
      ts_consume = Some memory_consume, ts_rotate = None\<rparr>"

section \<open>Options\<close>

record refresh_options =
  ro_secret :: string
  ro_expires_in :: js_number
  ro_max_age :: "js_number option"
  ro_rotation :: bool

definition normalize_refresh_options ::
  "'s token_store \<Rightarrow> refresh_options option \<Rightarrow> (jwt_error, refresh_options) result" where
  "normalize_refresh_options store options =
     (case options of
        None \<Rightarrow> Inl JwtConfiguration
      | Some opts \<Rightarrow>
          if ro_secret opts = [] then Inl JwtConfiguration
          else if (case ro_expires_in opts of Finite q \<Rightarrow> q \<le> 0 | _ \<Rightarrow> True) then Inl JwtConfiguration
          else if (case ro_max_age opts of None \<Rightarrow> False | Some (Finite q) \<Rightarrow> q < 0 | Some _ \<Rightarrow> True) then Inl JwtConfiguration
          else if ro_rotation opts \<and> ts_rotate store = None \<and> ts_consume store = None then Inl JwtConfiguration
          else Inr opts)"

text \<open>\<open>createRefreshVerificationOptions\<close>\<close>

definition refresh_verification_options :: "jwt_options \<Rightarrow> refresh_options \<Rightarrow> (jwt_error, jwt_options) result" where
  "refresh_verification_options opts ropts =
     (let algorithms = filter (\<lambda>a. a \<in> set hmac_algorithms) (jo_algorithms opts) in
      if algorithms = [] then Inl JwtConfiguration
      else Inr \<lparr>jo_algorithms = algorithms, jo_ttl = None, jo_audience = jo_audience opts,
                jo_clock_skew = jo_clock_skew opts, jo_issuer = jo_issuer opts, jo_keys = [],
                jo_max_age = ro_max_age ropts, jo_require_exp = Some True, jo_provider = None,
                jo_secret = Some (ro_secret ropts), jo_private = None, jo_public = None\<rparr>)"

definition verify_refresh_token ::
  "jwt_host \<Rightarrow> jwt_options \<Rightarrow> refresh_options \<Rightarrow> int \<Rightarrow> string \<Rightarrow> (jwt_error, jwt_principal) result" where
  "verify_refresh_token H opts ropts now token =
     (case refresh_verification_options opts ropts of
        Inl e \<Rightarrow> Inl e
      | Inr vopts \<Rightarrow> verify_token H vopts (create_key_state []) None now token)"

definition refresh_signing_options :: "jwt_options \<Rightarrow> refresh_options \<Rightarrow> jwt_options" where
  "refresh_signing_options opts ropts =
     \<lparr>jo_algorithms = filter (\<lambda>a. a \<in> set hmac_algorithms) (jo_algorithms opts), jo_ttl = Some (ro_expires_in ropts),
      jo_audience = jo_audience opts, jo_clock_skew = None, jo_issuer = jo_issuer opts, jo_keys = [], jo_max_age = None,
      jo_require_exp = None, jo_provider = None, jo_secret = Some (ro_secret ropts), jo_private = None, jo_public = None\<rparr>"

definition sign_refresh_token ::
  "jwt_host \<Rightarrow> jwt_options \<Rightarrow> refresh_options \<Rightarrow> jwt_claims \<Rightarrow> int \<Rightarrow> (jwt_error, string) result" where
  "sign_refresh_token H opts ropts c now = sign_token H c (refresh_signing_options opts ropts) True now"

section \<open>Claims\<close>

record refresh_claims =
  fc_subject :: string
  fc_family :: string
  fc_jti :: string

fun nonempty_string_claim :: "claim \<Rightarrow> string option" where
  "nonempty_string_claim (ClaimString s) = (if s = [] then None else Some s)"
| "nonempty_string_claim _ = None"

definition verify_refresh_claims ::
  "jwt_host \<Rightarrow> jwt_options \<Rightarrow> refresh_options \<Rightarrow> int \<Rightarrow> string \<Rightarrow> (jwt_error, refresh_claims) result" where
  "verify_refresh_claims H opts ropts now token =
     (case verify_refresh_token H opts ropts now token of
        Inl e \<Rightarrow> Inl e
      | Inr p \<Rightarrow>
          (let c = jp_claims p in
           if jc_type c \<noteq> ClaimString ''refresh'' then Inl JwtInvalidToken
           else (case (nonempty_string_claim (jc_jti c), nonempty_string_claim (jc_family c), nonempty_string_claim (jc_sub c)) of
               (Some jti, Some family, Some sub) \<Rightarrow> Inr \<lparr>fc_subject = sub, fc_family = family, fc_jti = jti\<rparr>
             | _ \<Rightarrow> Inl JwtInvalidToken)))"

text \<open>\<open>createRefreshTokenWithFamily\<close>: the record, and the claims that are signed.\<close>

definition create_refresh_record :: "refresh_options \<Rightarrow> string \<Rightarrow> string \<Rightarrow> string \<Rightarrow> int \<Rightarrow> refresh_record" where
  "create_refresh_record ropts subject family token_id now_ms =
     (let now = now_ms div 1000; ttl = (case ro_expires_in ropts of Finite q \<Rightarrow> q | _ \<Rightarrow> 0) in
      \<lparr>rr_id = token_id, rr_subject = subject, rr_family = family, rr_expires = (of_int now + ttl) * 1000,
       rr_used = False, rr_created = now * 1000\<rparr>)"

definition refresh_token_claims :: "refresh_record \<Rightarrow> jwt_claims" where
  "refresh_token_claims r =
     \<lparr>jc_sub = ClaimString (rr_subject r), jc_iss = ClaimAbsent, jc_aud = ClaimAbsent,
      jc_exp = ClaimNumber (Finite (of_int \<lfloor>rr_expires r / 1000\<rfloor>)),
      jc_iat = ClaimNumber (Finite (of_int (rr_created r div 1000))),
      jc_nbf = ClaimAbsent, jc_scope = ClaimAbsent, jc_scopes = ClaimAbsent, jc_roles = ClaimAbsent,
      jc_jti = ClaimString (rr_id r), jc_family = ClaimString (rr_family r), jc_type = ClaimString ''refresh'', jc_rest = 0\<rparr>"

section \<open>Rotation\<close>

text \<open>Where a rotation stands that has consumed its token, or tried to.\<close>

datatype rotation_phase =
    SavePending refresh_record
  | RevokePending string
  | Ended "(jwt_error, refresh_record) result"

definition input_of :: "refresh_claims \<Rightarrow> int \<Rightarrow> consume_input" where
  "input_of c now = \<lparr>ci_token = fc_jti c, ci_subject = fc_subject c, ci_family = fc_family c, ci_now = now\<rparr>"

definition after_consume :: "bool \<Rightarrow> refresh_claims \<Rightarrow> refresh_record \<Rightarrow> consume_result \<Rightarrow> rotation_phase" where
  "after_consume atomic c new r =
     (case r of
        Consumed \<Rightarrow> if atomic then Ended (Inr new) else SavePending new
      | AlreadyUsed \<Rightarrow> RevokePending (fc_subject c)
      | Expired \<Rightarrow> Ended (Inl JwtExpiredToken)
      | _ \<Rightarrow> Ended (Inl JwtInvalidToken))"

text \<open>The step that consumes the token, by \<open>rotate\<close> of the store if it has one.\<close>

definition rotate_consume ::
  "'s token_store \<Rightarrow> refresh_claims \<Rightarrow> refresh_record \<Rightarrow> int \<Rightarrow> 's \<Rightarrow> rotation_phase \<times> 's" where
  "rotate_consume store c new now s =
     (case ts_rotate store of
        Some f \<Rightarrow> (let (r, s') = f (input_of c now) new s in (after_consume True c new r, s'))
      | None \<Rightarrow>
          (case ts_consume store of
             None \<Rightarrow> (Ended (Inl JwtConfiguration), s)
           | Some f \<Rightarrow> (let (r, s') = f (input_of c now) s in (after_consume False c new r, s'))))"

definition rotate_finish :: "'s token_store \<Rightarrow> rotation_phase \<Rightarrow> 's \<Rightarrow> rotation_phase \<times> 's" where
  "rotate_finish store p s =
     (case p of
        SavePending r \<Rightarrow> (Ended (Inr r), ts_save store r s)
      | RevokePending sub \<Rightarrow> (Ended (Inl JwtInvalidToken), ts_revoke_subject store sub s)
      | Ended r \<Rightarrow> (p, s))"

text \<open>Without rotation the token stays the same.\<close>

definition check_record ::
  "'s token_store \<Rightarrow> refresh_claims \<Rightarrow> int \<Rightarrow> 's \<Rightarrow> (jwt_error, refresh_record) result \<times> 's" where
  "check_record store c now s =
     (case ts_find store (fc_jti c) s of
        None \<Rightarrow> (Inl JwtInvalidToken, s)
      | Some r \<Rightarrow>
          if rr_subject r \<noteq> fc_subject c \<or> rr_family r \<noteq> fc_family c then (Inl JwtInvalidToken, s)
          else if rr_expires r \<le> of_int now then (Inl JwtExpiredToken, s)
          else if rr_used r then (Inl JwtInvalidToken, ts_revoke_subject store (rr_subject r) s)
          else (Inr r, s))"

definition subject_claims :: "string \<Rightarrow> jwt_claims" where
  "subject_claims sub =
     \<lparr>jc_sub = ClaimString sub, jc_iss = ClaimAbsent, jc_aud = ClaimAbsent, jc_exp = ClaimAbsent, jc_iat = ClaimAbsent,
      jc_nbf = ClaimAbsent, jc_scope = ClaimAbsent, jc_scopes = ClaimAbsent, jc_roles = ClaimAbsent, jc_jti = ClaimAbsent,
      jc_family = ClaimAbsent, jc_type = ClaimAbsent, jc_rest = 0\<rparr>"

text \<open>\<open>rotateRefreshToken\<close>, when nothing comes between its steps: the access token and the refresh
  token it returns.\<close>

definition rotate_refresh_token ::
  "jwt_host \<Rightarrow> jwt_options \<Rightarrow> refresh_options \<Rightarrow> 's token_store \<Rightarrow> string \<Rightarrow> int \<Rightarrow> string \<Rightarrow> 's \<Rightarrow>
   (jwt_error, string \<times> string) result \<times> 's" where
  "rotate_refresh_token H opts ropts store new_id now_ms token s =
     (let now = now_ms div 1000 in
      case verify_refresh_claims H opts ropts now token of
        Inl e \<Rightarrow> (Inl e, s)
      | Inr c \<Rightarrow>
          if ro_rotation ropts
          then
            (let new = create_refresh_record ropts (fc_subject c) (fc_family c) new_id now_ms in
             case sign_refresh_token H opts ropts (refresh_token_claims new) now of
               Inl e \<Rightarrow> (Inl e, s)
             | Inr next \<Rightarrow>
                 (case sign_access_token H opts (subject_claims (fc_subject c)) now of
                    Inl e \<Rightarrow> (Inl e, s)
                  | Inr access \<Rightarrow>
                      (let (p, s1) = rotate_consume store c new now_ms s; (p', s2) = rotate_finish store p s1 in
                       (case p' of Ended (Inr _) \<Rightarrow> Inr (access, next) | Ended (Inl e) \<Rightarrow> Inl e
                          | _ \<Rightarrow> Inl JwtInvalidToken, s2))))
          else
            (case check_record store c now_ms s of
               (Inl e, s') \<Rightarrow> (Inl e, s')
             | (Inr r, s') \<Rightarrow>
                 (case sign_access_token H opts (subject_claims (rr_subject r)) now of
                    Inl e \<Rightarrow> (Inl e, s')
                  | Inr access \<Rightarrow> (Inr (access, token), s'))))"

text \<open>\<open>issueRefreshToken\<close>\<close>

definition issue_refresh_token ::
  "jwt_host \<Rightarrow> jwt_options \<Rightarrow> refresh_options \<Rightarrow> 's token_store \<Rightarrow> string \<Rightarrow> string \<Rightarrow> string \<Rightarrow> int \<Rightarrow> 's \<Rightarrow>
   (jwt_error, string) result \<times> 's" where
  "issue_refresh_token H opts ropts store subject family new_id now_ms s =
     (let r = create_refresh_record ropts subject family new_id now_ms in
      case sign_refresh_token H opts ropts (refresh_token_claims r) (now_ms div 1000) of
        Inl e \<Rightarrow> (Inl e, s)
      | Inr token \<Rightarrow> (Inr token, ts_save store r s))"

section \<open>Concurrent calls\<close>

text \<open>
  The steps of any number of calls on one store: an issue saves its record; a rotation whose token
  has been verified consumes it, and goes on later; tokens and subjects may be revoked at any
  time. A call is its position in the list of rotations.
\<close>

datatype refresh_action =
    SaveIssued refresh_record
  | Present refresh_claims refresh_record int
  | Continue nat
  | RevokeToken string
  | RevokeSubject string

record 's refresh_state =
  rs_store :: 's
  rs_calls :: "(refresh_claims \<times> rotation_phase) list"

fun refresh_step :: "'s token_store \<Rightarrow> refresh_action \<Rightarrow> 's refresh_state \<Rightarrow> 's refresh_state" where
  "refresh_step store (SaveIssued r) t = t\<lparr>rs_store := ts_save store r (rs_store t)\<rparr>"
| "refresh_step store (Present c new now) t =
     (let (p, s) = rotate_consume store c new now (rs_store t) in
      \<lparr>rs_store = s, rs_calls = rs_calls t @ [(c, p)]\<rparr>)"
| "refresh_step store (Continue i) t =
     (if i < length (rs_calls t)
      then (let (c, p) = rs_calls t ! i; (p', s) = rotate_finish store p (rs_store t) in
            \<lparr>rs_store = s, rs_calls = (rs_calls t)[i := (c, p')]\<rparr>)
      else t)"
| "refresh_step store (RevokeToken i) t = t\<lparr>rs_store := ts_revoke store i (rs_store t)\<rparr>"
| "refresh_step store (RevokeSubject sub) t = t\<lparr>rs_store := ts_revoke_subject store sub (rs_store t)\<rparr>"

definition refresh_run :: "'s token_store \<Rightarrow> refresh_action list \<Rightarrow> 's refresh_state \<Rightarrow> 's refresh_state" where
  "refresh_run store as t = fold (refresh_step store) as t"

end
