(* ===== verification/Refresh_Facts.thy ===== *)
theory Refresh_Facts
  imports Refresh_Token
begin

text \<open>
  The contract of a token store, and what rotation guarantees over any store that keeps it, whatever
  calls run at once: a refresh token is redeemed at most once, and a family never has two
  tokens that could be redeemed.
\<close>

section \<open>The contract of a token store\<close>

text \<open>\<open>consume\<close> and \<open>rotate\<close> are atomic: only a held, unused, current and matching record is consumed.\<close>

definition consumable :: "consume_input \<Rightarrow> refresh_record \<Rightarrow> bool" where
  "consumable input r \<longleftrightarrow>
     \<not> rr_used r \<and> rr_subject r = ci_subject input \<and> rr_family r = ci_family input \<and> of_int (ci_now input) < rr_expires r"

locale refresh_store =
  fixes store :: "'s token_store" and held :: "'s \<Rightarrow> string \<Rightarrow> refresh_record option" and valid :: "'s \<Rightarrow> bool"
  assumes save_held: "held (ts_save store r s) = (held s)(rr_id r \<mapsto> r)"
    and find_held: "ts_find store i s = held s i"
    and revoke_held: "held (ts_revoke store i s) = (held s)(i := None)"
    and revoke_subject_held: "valid s \<Longrightarrow> held (ts_revoke_subject store sub s) =
          (\<lambda>i. case held s i of None \<Rightarrow> None | Some r \<Rightarrow> if rr_subject r = sub then None else Some r)"
    and consume_held: "ts_consume store = Some f \<Longrightarrow> f input s = (res, s') \<Longrightarrow>
          if res = Consumed
          then \<exists>r. held s (ci_token input) = Some r \<and> consumable input r \<and>
                 held s' = (held s)(ci_token input \<mapsto> r\<lparr>rr_used := True\<rparr>)
          else held s' = held s"
    and rotate_held: "ts_rotate store = Some g \<Longrightarrow> g input new s = (res, s') \<Longrightarrow>
          if res = Consumed
          then \<exists>r. held s (ci_token input) = Some r \<and> consumable input r \<and>
                 held s' = (held s)(ci_token input \<mapsto> r\<lparr>rr_used := True\<rparr>, rr_id new \<mapsto> new)
          else held s' = held s"
    and save_valid: "valid s \<Longrightarrow> valid (ts_save store r s)"
    and revoke_valid: "valid s \<Longrightarrow> valid (ts_revoke store i s)" "valid s \<Longrightarrow> valid (ts_revoke_subject store sub s)"
    and consume_valid: "ts_consume store = Some f \<Longrightarrow> valid s \<Longrightarrow> f input s = (res, s') \<Longrightarrow> valid s'"
    and rotate_valid: "ts_rotate store = Some g \<Longrightarrow> valid s \<Longrightarrow> g input new s = (res, s') \<Longrightarrow> valid s'"
begin

text \<open>The step of a rotation that may consume the token.\<close>

lemma rotate_consume_cases:
  assumes "rotate_consume store c new now s = (p, s')"
  obtains (refused) "held s' = held s" "\<forall>r. p \<noteq> SavePending r" "\<forall>r. p \<noteq> Ended (Inr r)"
    | (pending) r where "held s (fc_jti c) = Some r" "\<not> rr_used r" "rr_family r = fc_family c" "p = SavePending new"
        "held s' = (held s)(fc_jti c \<mapsto> r\<lparr>rr_used := True\<rparr>)"
    | (rotated) r where "held s (fc_jti c) = Some r" "\<not> rr_used r" "rr_family r = fc_family c" "p = Ended (Inr new)"
        "held s' = (held s)(fc_jti c \<mapsto> r\<lparr>rr_used := True\<rparr>, rr_id new \<mapsto> new)"
proof (cases "ts_rotate store")
  case (Some g)
  obtain res where g: "g (input_of c now) new s = (res, s')" "p = after_consume True c new res"
    using assms Some by (auto simp: rotate_consume_def split: prod.splits)
  show ?thesis
    using rotate_held [OF Some g(1)] g(2) refused rotated
    by (cases res) (auto simp: after_consume_def input_of_def consumable_def)
next
  case None
  show ?thesis
  proof (cases "ts_consume store")
    case (Some f)
    obtain res where f: "f (input_of c now) s = (res, s')" "p = after_consume False c new res"
      using assms Some None by (auto simp: rotate_consume_def split: prod.splits)
    show ?thesis
      using consume_held [OF Some f(1)] f(2) refused pending
      by (cases res) (auto simp: after_consume_def input_of_def consumable_def)
  next
    case none: None
    then show ?thesis
      using assms None refused by (auto simp: rotate_consume_def)
  qed
qed

end

section \<open>The invariant\<close>

text \<open>
  What is held (\<open>h\<close>), which call has which record to save (\<open>P\<close>), and which has redeemed which token
  (\<open>R\<close>); \<open>ids\<close> and \<open>families\<close> are those in use. A family has one slot: a redeemable record, or one
  to save.
\<close>

definition slots_ok ::
  "string set \<Rightarrow> string set \<Rightarrow> (string \<Rightarrow> refresh_record option) \<Rightarrow> (nat \<times> refresh_record) set \<Rightarrow>
   (nat \<times> string) set \<Rightarrow> bool" where
  "slots_ok ids families h P R \<longleftrightarrow>
     (\<forall>k r. h k = Some r \<longrightarrow> k \<in> ids) \<and>
     (\<forall>k r. h k = Some r \<longrightarrow> rr_family r \<in> families) \<and>
     (\<forall>i r. (i, r) \<in> P \<longrightarrow> rr_id r \<in> ids) \<and>
     (\<forall>i r. (i, r) \<in> P \<longrightarrow> rr_family r \<in> families) \<and>
     (\<forall>i r. (i, r) \<in> P \<longrightarrow> h (rr_id r) = None) \<and>
     (\<forall>i k. (i, k) \<in> R \<longrightarrow> k \<in> ids) \<and>
     (\<forall>i k r. (i, k) \<in> R \<longrightarrow> h k = Some r \<longrightarrow> rr_used r) \<and>
     (\<forall>i r j. (i, r) \<in> P \<longrightarrow> (j, rr_id r) \<notin> R) \<and>
     (\<forall>i r j q. (i, r) \<in> P \<longrightarrow> (j, q) \<in> P \<longrightarrow> rr_family r = rr_family q \<longrightarrow> i = j) \<and>
     (\<forall>i r j q. (i, r) \<in> P \<longrightarrow> (j, q) \<in> P \<longrightarrow> rr_id r = rr_id q \<longrightarrow> i = j) \<and>
     (\<forall>k r m q. h k = Some r \<longrightarrow> h m = Some q \<longrightarrow> \<not> rr_used r \<longrightarrow> \<not> rr_used q \<longrightarrow> rr_family r = rr_family q \<longrightarrow> k = m) \<and>
     (\<forall>k r j q. h k = Some r \<longrightarrow> \<not> rr_used r \<longrightarrow> (j, q) \<in> P \<longrightarrow> rr_family r \<noteq> rr_family q) \<and>
     (\<forall>i j k. (i, k) \<in> R \<longrightarrow> (j, k) \<in> R \<longrightarrow> i = j)"

lemma slots_okD:
  assumes "slots_ok ids families h P R"
  shows "h k = Some r \<Longrightarrow> k \<in> ids" "h k = Some r \<Longrightarrow> rr_family r \<in> families"
    and "(i, r) \<in> P \<Longrightarrow> rr_id r \<in> ids" "(i, r) \<in> P \<Longrightarrow> rr_family r \<in> families" "(i, r) \<in> P \<Longrightarrow> h (rr_id r) = None"
    and "(i, k) \<in> R \<Longrightarrow> k \<in> ids" "(i, k) \<in> R \<Longrightarrow> h k = Some r \<Longrightarrow> rr_used r"
    and "(i, r) \<in> P \<Longrightarrow> (j, rr_id r) \<notin> R"
    and "(i, r) \<in> P \<Longrightarrow> (j, q) \<in> P \<Longrightarrow> rr_family r = rr_family q \<Longrightarrow> i = j"
    and "(i, r) \<in> P \<Longrightarrow> (j, q) \<in> P \<Longrightarrow> rr_id r = rr_id q \<Longrightarrow> i = j"
    and "h k = Some r \<Longrightarrow> h m = Some q \<Longrightarrow> \<not> rr_used r \<Longrightarrow> \<not> rr_used q \<Longrightarrow> rr_family r = rr_family q \<Longrightarrow> k = m"
    and "h k = Some r \<Longrightarrow> \<not> rr_used r \<Longrightarrow> (j, q) \<in> P \<Longrightarrow> rr_family r \<noteq> rr_family q"
    and "(i, k) \<in> R \<Longrightarrow> (j, k) \<in> R \<Longrightarrow> i = j"
  subgoal using assms unfolding slots_ok_def by (elim conjE) blast
  subgoal using assms unfolding slots_ok_def by (elim conjE) blast
  subgoal using assms unfolding slots_ok_def by (elim conjE) blast
  subgoal using assms unfolding slots_ok_def by (elim conjE) blast
  subgoal using assms unfolding slots_ok_def by (elim conjE) blast
  subgoal using assms unfolding slots_ok_def by (elim conjE) blast
  subgoal using assms unfolding slots_ok_def by (elim conjE) blast
  subgoal using assms unfolding slots_ok_def by (elim conjE) blast
  subgoal using assms unfolding slots_ok_def by (elim conjE) metis
  subgoal using assms unfolding slots_ok_def by (elim conjE) metis
  subgoal using assms unfolding slots_ok_def by (elim conjE) metis
  subgoal using assms unfolding slots_ok_def by (elim conjE) metis
  subgoal using assms unfolding slots_ok_def by (elim conjE) metis
  done

lemma slots_ok_fewer:
  assumes ok: "slots_ok ids families h P R" and fewer: "\<And>k r. h' k = Some r \<Longrightarrow> h k = Some r"
  shows "slots_ok ids families h' P R"
proof -
  have none: "h' k = None" if "h k = None" for k
    using fewer that by (cases "h' k") auto
  note D = slots_okD [OF ok]
  show ?thesis
    unfolding slots_ok_def by (intro conjI allI impI) (auto dest: D dest!: fewer intro: none)
qed

lemma slots_ok_mono:
  "slots_ok ids families h P R \<Longrightarrow> ids \<subseteq> ids' \<Longrightarrow> slots_ok ids' families h P R"
  unfolding slots_ok_def by (elim conjE, intro conjI) (simp_all add: subset_eq)

lemma slots_ok_revoke_subject:
  "slots_ok ids families h P R \<Longrightarrow>
   slots_ok ids families (\<lambda>i. case h i of None \<Rightarrow> None | Some r \<Rightarrow> if rr_subject r = sub then None else Some r) P R"
  by (erule slots_ok_fewer) (auto split: option.splits if_splits)

text \<open>A token of a new family is saved.\<close>

lemma slots_ok_issue:
  assumes ok: "slots_ok ids families h P R" and new: "rr_id n \<notin> ids" "rr_family n \<notin> families"
  shows "slots_ok (insert (rr_id n) ids) (insert (rr_family n) families) (h(rr_id n \<mapsto> n)) P R"
proof -
  note D = slots_okD [OF ok]
  have case_h: "k = rr_id n \<and> r = n \<or> k \<noteq> rr_id n \<and> h k = Some r" if "(h(rr_id n \<mapsto> n)) k = Some r" for k r
    using that by (auto split: if_splits)
  have P: "rr_id q \<noteq> rr_id n \<and> rr_family q \<noteq> rr_family n" if "(i, q) \<in> P" for i q
    using D(3,4) [OF that] new by auto
  have R: "k \<noteq> rr_id n" if "(i, k) \<in> R" for i k
    using D(6) [OF that] new by auto
  have h: "rr_family q \<noteq> rr_family n" "rr_family n \<noteq> rr_family q" if "h k = Some q" for k q
    using D(2) [OF that] new by auto
  show ?thesis
    unfolding slots_ok_def by (intro conjI allI impI) (auto split: if_splits dest: D P R h)
qed

text \<open>A redeemable token is consumed by a call \<open>c\<close> that has a replacement to save.\<close>

lemma slots_ok_consume:
  assumes ok: "slots_ok ids families h P R" and held: "h k = Some r" "\<not> rr_used r"
    and new: "rr_id n \<notin> ids" "rr_family n = rr_family r" and call: "\<And>x. (c, x) \<notin> P" "\<And>x. (c, x) \<notin> R"
  shows "slots_ok (insert (rr_id n) ids) families (h(k \<mapsto> r\<lparr>rr_used := True\<rparr>)) (insert (c, n) P) (insert (c, k) R)"
proof -
  note D = slots_okD [OF ok]
  have k: "k \<in> ids" "rr_family r \<in> families" "k \<noteq> rr_id n"
    using D(1,2) [OF held(1)] new by auto
  have n: "h (rr_id n) = None"
    using D(1) new by (cases "h (rr_id n)") auto
  have P: "rr_id q \<noteq> rr_id n" "rr_family q \<noteq> rr_family n" "rr_id q \<noteq> k" if "(i, q) \<in> P" for i q
    using D(3,4,5) [OF that] D(12) [OF held that] new held by auto
  have R: "m \<noteq> rr_id n" "m \<noteq> k" if "(i, m) \<in> R" for i m
    using D(6,7) [OF that] new held by auto
  have h: "rr_family q \<noteq> rr_family n" "rr_family n \<noteq> rr_family q" if "h m = Some q" "\<not> rr_used q" "m \<noteq> k" for m q
    using D(11) [OF that(1) held(1) that(2) held(2)] that(3) new by auto
  show ?thesis
    unfolding slots_ok_def by (intro conjI allI impI) (auto split: if_splits simp: k n new dest: D P R h)
qed

text \<open>The replacement is saved.\<close>

lemma slots_ok_save:
  assumes ok: "slots_ok ids families h P R" and pending: "(c, n) \<in> P" and only: "\<And>x. (c, x) \<in> P \<Longrightarrow> x = n"
  shows "slots_ok ids families (h(rr_id n \<mapsto> n)) (P - {(c, n)}) R"
proof -
  note D = slots_okD [OF ok]
  have n: "rr_id n \<in> ids" "rr_family n \<in> families" "h (rr_id n) = None" "(j, rr_id n) \<notin> R" for j
    using D(3,4,5,8) [OF pending] by auto
  have P: "rr_id q \<noteq> rr_id n \<and> rr_family n \<noteq> rr_family q" if q: "(i, q) \<in> P" "i \<noteq> c \<or> q \<noteq> n" for i q
  proof (rule ccontr)
    assume "\<not> (rr_id q \<noteq> rr_id n \<and> rr_family n \<noteq> rr_family q)"
    then have "i = c"
      using D(9,10) [OF pending q(1)] by auto
    then show False
      using q only by blast
  qed
  have h: "rr_family q \<noteq> rr_family n" "rr_family n \<noteq> rr_family q" if "h m = Some q" "\<not> rr_used q" for m q
    using D(12) [OF that pending] by auto
  show ?thesis
    unfolding slots_ok_def by (intro conjI allI impI) (auto split: if_splits simp: n dest: D P h)
qed

section \<open>Any run\<close>

fun redeems :: "rotation_phase \<Rightarrow> bool" where
  "redeems (SavePending _) = True"
| "redeems (RevokePending _) = False"
| "redeems (Ended r) = (case r of Inl _ \<Rightarrow> False | Inr _ \<Rightarrow> True)"

definition pending_saves :: "(refresh_claims \<times> rotation_phase) list \<Rightarrow> (nat \<times> refresh_record) set" where
  "pending_saves cs = {(i, r). i < length cs \<and> snd (cs ! i) = SavePending r}"

definition redeemed :: "(refresh_claims \<times> rotation_phase) list \<Rightarrow> (nat \<times> string) set" where
  "redeemed cs = {(i, k). i < length cs \<and> redeems (snd (cs ! i)) \<and> fc_jti (fst (cs ! i)) = k}"

lemma pending_saves_append:
  "pending_saves (cs @ [(c, p)]) =
     (case p of SavePending n \<Rightarrow> insert (length cs, n) (pending_saves cs) | _ \<Rightarrow> pending_saves cs)"
  by (auto simp: pending_saves_def nth_append less_Suc_eq split: rotation_phase.splits)

lemma redeemed_append:
  "redeemed (cs @ [(c, p)]) = (if redeems p then insert (length cs, fc_jti c) (redeemed cs) else redeemed cs)"
  by (auto simp: redeemed_def nth_append less_Suc_eq)

lemma pending_saves_update:
  "i < length cs \<Longrightarrow> pending_saves (cs[i := (c, Ended r)]) = pending_saves cs - {(i, n) |n. True}"
  by (auto simp: pending_saves_def nth_list_update split: if_splits)

lemma redeemed_update:
  "i < length cs \<Longrightarrow> fst (cs ! i) = c \<Longrightarrow> redeems p = redeems (snd (cs ! i)) \<Longrightarrow> redeemed (cs[i := (c, p)]) = redeemed cs"
  by (auto simp: redeemed_def nth_list_update split: if_splits)

lemma new_call: "(length cs, x) \<notin> pending_saves cs" "(length cs, y) \<notin> redeemed cs"
  by (auto simp: pending_saves_def redeemed_def)

text \<open>The identifiers and families a step brings in; a rotation keeps the family of its token.\<close>

fun new_ids :: "refresh_action \<Rightarrow> string list" where
  "new_ids (SaveIssued r) = [rr_id r]"
| "new_ids (Present _ new _) = [rr_id new]"
| "new_ids _ = []"

fun new_families :: "refresh_action \<Rightarrow> string list" where
  "new_families (SaveIssued r) = [rr_family r]"
| "new_families _ = []"

fun keeps_family :: "refresh_action \<Rightarrow> bool" where
  "keeps_family (Present c new _) = (rr_family new = fc_family c)"
| "keeps_family _ = True"

context refresh_store
begin

definition tokens_ok :: "string set \<Rightarrow> string set \<Rightarrow> 's refresh_state \<Rightarrow> bool" where
  "tokens_ok ids families t \<longleftrightarrow> valid (rs_store t) \<and>
     slots_ok ids families (held (rs_store t)) (pending_saves (rs_calls t)) (redeemed (rs_calls t))"

lemma tokens_ok_present:
  assumes ok: "tokens_ok ids families t" and new: "rr_id n \<notin> ids" "rr_family n = fc_family c"
  shows "tokens_ok (insert (rr_id n) ids) families (refresh_step store (Present c n now) t)"
proof -
  obtain p s where step: "rotate_consume store c n now (rs_store t) = (p, s)"
    by fastforce
  have valid: "valid (rs_store t)"
    and ok: "slots_ok ids families (held (rs_store t)) (pending_saves (rs_calls t)) (redeemed (rs_calls t))"
    using ok by (auto simp: tokens_ok_def)
  let ?cs = "rs_calls t" and ?h = "held (rs_store t)"
  have mono: "slots_ok (insert (rr_id n) ids) families ?h (pending_saves ?cs) (redeemed ?cs)"
    using ok by (rule slots_ok_mono) auto
  have valid': "valid s"
    using step valid
    by (auto simp: rotate_consume_def split: option.splits prod.splits intro: rotate_valid consume_valid)
  show ?thesis
    using step
  proof (cases rule: rotate_consume_cases)
    case refused
    then show ?thesis
      using mono step valid'
      by (cases p) (auto simp: tokens_ok_def pending_saves_append redeemed_append split: sum.splits)
  next
    case (pending r)
    have "slots_ok (insert (rr_id n) ids) families (?h(fc_jti c \<mapsto> r\<lparr>rr_used := True\<rparr>))
            (insert (length ?cs, n) (pending_saves ?cs)) (insert (length ?cs, fc_jti c) (redeemed ?cs))"
      using ok pending new new_call by (intro slots_ok_consume) auto
    then show ?thesis
      using step pending valid' by (simp add: tokens_ok_def pending_saves_append redeemed_append)
  next
    case (rotated r)
    let ?P = "insert (length ?cs, n) (pending_saves ?cs)"
    have "slots_ok (insert (rr_id n) ids) families (?h(fc_jti c \<mapsto> r\<lparr>rr_used := True\<rparr>))
            ?P (insert (length ?cs, fc_jti c) (redeemed ?cs))"
      using ok rotated new new_call by (intro slots_ok_consume) auto
    then have "slots_ok (insert (rr_id n) ids) families (?h(fc_jti c \<mapsto> r\<lparr>rr_used := True\<rparr>, rr_id n \<mapsto> n))
            (?P - {(length ?cs, n)}) (insert (length ?cs, fc_jti c) (redeemed ?cs))"
      using new_call by (intro slots_ok_save) auto
    then show ?thesis
      using step rotated new_call valid' by (simp add: tokens_ok_def pending_saves_append redeemed_append)
  qed
qed

lemma tokens_ok_continue:
  assumes ok: "tokens_ok ids families t"
  shows "tokens_ok ids families (refresh_step store (Continue i) t)"
proof (cases "i < length (rs_calls t)")
  case True
  obtain c p where call: "rs_calls t ! i = (c, p)"
    by fastforce
  have valid: "valid (rs_store t)"
    and ok: "slots_ok ids families (held (rs_store t)) (pending_saves (rs_calls t)) (redeemed (rs_calls t))"
    using ok by (auto simp: tokens_ok_def)
  show ?thesis
  proof (cases p)
    case (SavePending n)
    then have pending: "(i, n) \<in> pending_saves (rs_calls t)" "pending_saves (rs_calls t) - {(i, n) |n. True} = pending_saves (rs_calls t) - {(i, n)}"
      and only: "(i, x) \<in> pending_saves (rs_calls t) \<Longrightarrow> x = n" for x
      using True call by (auto simp: pending_saves_def)
    show ?thesis
      using slots_ok_save [OF ok pending(1) only] pending(2) SavePending call True valid
      by (simp add: tokens_ok_def rotate_finish_def save_valid save_held pending_saves_update redeemed_update)
  next
    case (RevokePending sub)
    have same: "pending_saves (rs_calls t) - {(i, n) |n. True} = pending_saves (rs_calls t)"
      using call RevokePending by (auto simp: pending_saves_def)
    show ?thesis
      using slots_ok_revoke_subject [OF ok] RevokePending call True same valid
      by (simp add: tokens_ok_def rotate_finish_def revoke_valid revoke_subject_held pending_saves_update redeemed_update)
  next
    case (Ended r)
    then show ?thesis
      using ok valid call True list_update_id [of "rs_calls t" i] by (simp add: tokens_ok_def rotate_finish_def)
  qed
qed (use ok in simp)

lemma tokens_ok_step:
  assumes ok: "tokens_ok ids families t" and a: "set (new_ids a) \<inter> ids = {}" "set (new_families a) \<inter> families = {}" "keeps_family a"
  shows "tokens_ok (set (new_ids a) \<union> ids) (set (new_families a) \<union> families) (refresh_step store a t)"
proof (cases a)
  case (SaveIssued r)
  then show ?thesis
    using slots_ok_issue [of ids families] ok a by (simp add: tokens_ok_def save_held save_valid)
next
  case (Present c n now)
  then show ?thesis
    using tokens_ok_present [OF ok] a by simp
next
  case (Continue i)
  then show ?thesis
    using tokens_ok_continue [OF ok] by simp
next
  case (RevokeToken k)
  then show ?thesis
    using ok by (auto simp: tokens_ok_def revoke_held revoke_valid intro: slots_ok_fewer split: if_splits)
next
  case (RevokeSubject sub)
  then show ?thesis
    using slots_ok_revoke_subject [of ids families] ok by (simp add: tokens_ok_def revoke_subject_held revoke_valid)
qed

lemma tokens_ok_run:
  "tokens_ok ids families t \<Longrightarrow> distinct (concat (map new_ids as)) \<Longrightarrow> distinct (concat (map new_families as)) \<Longrightarrow>
   set (concat (map new_ids as)) \<inter> ids = {} \<Longrightarrow> set (concat (map new_families as)) \<inter> families = {} \<Longrightarrow>
   list_all keeps_family as \<Longrightarrow> \<exists>ids families. tokens_ok ids families (refresh_run store as t)"
proof (induction as arbitrary: ids families t)
  case Nil
  then show ?case
    by (auto simp: refresh_run_def)
next
  case (Cons a as)
  have "tokens_ok (set (new_ids a) \<union> ids) (set (new_families a) \<union> families) (refresh_step store a t)"
    using Cons.prems by (intro tokens_ok_step) auto
  then have "\<exists>ids families. tokens_ok ids families (refresh_run store as (refresh_step store a t))"
    using Cons.prems by (intro Cons.IH) auto
  then show ?case
    by (simp add: refresh_run_def)
qed

text \<open>From an empty store: no token is redeemed twice, and no family has two redeemable records.\<close>

lemma single_use:
  assumes "held s = Map.empty" "valid s" "distinct (concat (map new_ids as))" "distinct (concat (map new_families as))" "list_all keeps_family as"
    and t: "t = refresh_run store as \<lparr>rs_store = s, rs_calls = []\<rparr>"
  shows "(i, k) \<in> redeemed (rs_calls t) \<Longrightarrow> (j, k) \<in> redeemed (rs_calls t) \<Longrightarrow> i = j"
    and "held (rs_store t) k = Some r \<Longrightarrow> held (rs_store t) m = Some q \<Longrightarrow> \<not> rr_used r \<Longrightarrow> \<not> rr_used q \<Longrightarrow>
         rr_family r = rr_family q \<Longrightarrow> k = m"
proof -
  have "tokens_ok {} {} \<lparr>rs_store = s, rs_calls = []\<rparr>"
    using assms(1,2) by (simp add: tokens_ok_def slots_ok_def pending_saves_def redeemed_def)
  then have "\<exists>ids families. tokens_ok ids families t"
    unfolding t using assms(3-5) by (intro tokens_ok_run) auto
  then obtain ids families where "tokens_ok ids families t"
    by blast
  note D = slots_okD [OF conjunct2 [OF this [unfolded tokens_ok_def]]]
  show "(i, k) \<in> redeemed (rs_calls t) \<Longrightarrow> (j, k) \<in> redeemed (rs_calls t) \<Longrightarrow> i = j"
    by (rule D(13))
  show "held (rs_store t) k = Some r \<Longrightarrow> held (rs_store t) m = Some q \<Longrightarrow> \<not> rr_used r \<Longrightarrow> \<not> rr_used q \<Longrightarrow>
         rr_family r = rr_family q \<Longrightarrow> k = m"
    by (rule D(11))
qed

end

section \<open>The in-memory store\<close>

definition memory_valid :: "memory_tokens \<Rightarrow> bool" where
  "memory_valid s \<longleftrightarrow> distinct (map fst s)"

lemma js_get_filter:
  "distinct (map fst s) \<Longrightarrow>
   js_get (filter (\<lambda>(i, r). P r) s) k = (case js_get s k of None \<Rightarrow> None | Some r \<Rightarrow> if P r then Some r else None)"
  by (induction s) (auto dest: js_get_key simp: rev_image_eqI split: option.splits)

interpretation memory_refresh: refresh_store memory_tokens "\<lambda>s i. js_get s i" memory_valid
proof unfold_locales
  fix f input s res s'
  assume f: "ts_consume memory_tokens = Some f" "f input s = (res, s')"
  then have "memory_consume input s = (res, s')"
    by (simp add: memory_tokens_def)
  then show "if res = Consumed
        then \<exists>r. js_get s (ci_token input) = Some r \<and> consumable input r \<and>
               js_get s' = (js_get s)(ci_token input \<mapsto> r\<lparr>rr_used := True\<rparr>)
        else js_get s' = js_get s"
    by (auto simp: memory_consume_def consumable_def split: option.splits if_splits)
  show "memory_valid s \<Longrightarrow> memory_valid s'"
    using \<open>memory_consume input s = (res, s')\<close>
    by (auto simp: memory_consume_def memory_valid_def distinct_update split: option.splits if_splits)
qed (auto simp: memory_tokens_def memory_valid_def js_get_filter distinct_update distinct_delete distinct_map_filter
       fun_eq_iff split: option.splits)

section \<open>Properties\<close>

text \<open>C13. 
  However calls on the in-memory store interleave, from an empty store, if \<open>randomUUID\<close>
  never repeats: two rotations that redeemed the same token are the same one, and two records
  of one family that can still be redeemed are the same record.
\<close>

theorem refresh_tokens_single_use:
  assumes "distinct (concat (map new_ids as))" "distinct (concat (map new_families as))" "list_all keeps_family as"
    and "t = refresh_run memory_tokens as \<lparr>rs_store = [], rs_calls = []\<rparr>"
  shows "((i, k) \<in> redeemed (rs_calls t) \<longrightarrow> (j, k) \<in> redeemed (rs_calls t) \<longrightarrow> i = j) \<and>
         (js_get (rs_store t) k = Some r \<longrightarrow> js_get (rs_store t) m = Some q \<longrightarrow> \<not> rr_used r \<longrightarrow> \<not> rr_used q \<longrightarrow>
          rr_family r = rr_family q \<longrightarrow> k = m)"
  using memory_refresh.single_use [OF _ _ assms] by (auto simp: memory_valid_def)

text \<open>Two tokens of one user: the first is redeemed, rotated and presented again by two calls at once.\<close>

definition token_of :: "string \<Rightarrow> string \<Rightarrow> refresh_record" where
  "token_of i family =
     \<lparr>rr_id = i, rr_subject = ''ann'', rr_family = family, rr_expires = 9000, rr_used = False, rr_created = 0\<rparr>"

definition claims_of :: "string \<Rightarrow> string \<Rightarrow> refresh_claims" where
  "claims_of i family = \<lparr>fc_subject = ''ann'', fc_family = family, fc_jti = i\<rparr>"

definition racing_calls :: "refresh_action list" where
  "racing_calls =
     [SaveIssued (token_of ''a'' ''F''), SaveIssued (token_of ''b'' ''G''),
      Present (claims_of ''a'' ''F'') (token_of ''c'' ''F'') 1000,
      Present (claims_of ''a'' ''F'') (token_of ''d'' ''F'') 1001,
      Continue 1, Continue 0]"

lemma racing_calls_run:
  "refresh_run memory_tokens racing_calls \<lparr>rs_store = [], rs_calls = []\<rparr> =
     \<lparr>rs_store = [(''c'', token_of ''c'' ''F'')],
      rs_calls = [(claims_of ''a'' ''F'', Ended (Inr (token_of ''c'' ''F''))), (claims_of ''a'' ''F'', Ended (Inl JwtInvalidToken))]\<rparr>"
  by code_simp

theorem refresh_tokens_single_use_witness:
  "\<not> ((0, ''a'') \<in> redeemed (rs_calls (refresh_run memory_tokens racing_calls \<lparr>rs_store = [], rs_calls = []\<rparr>)) \<and>
      (1, ''a'') \<in> redeemed (rs_calls (refresh_run memory_tokens racing_calls \<lparr>rs_store = [], rs_calls = []\<rparr>)))"
  using refresh_tokens_single_use [of racing_calls, OF _ _ _ refl, of 0 "''a''" 1]
  by (simp add: racing_calls_def token_of_def claims_of_def)

text \<open>
  The detection of a reuse revokes every token of the subject, but the rotation that redeemed the
  token first may still have its replacement to save: saved after the revocation, that token stays
  valid, although its token was reused.
\<close>

theorem revocation_misses_pending_rotation:
  "let t = refresh_run memory_tokens racing_calls \<lparr>rs_store = [], rs_calls = []\<rparr>
   in snd (rs_calls t ! 1) = Ended (Inl JwtInvalidToken) \<and>
      js_get (rs_store t) ''c'' = Some (token_of ''c'' ''F'') \<and> \<not> rr_used (token_of ''c'' ''F'')"
  by (simp add: racing_calls_run Let_def token_of_def)

text \<open>
  When nothing comes between: presenting a used token of the subject is refused, and leaves no token
  of the subject in the store.
\<close>

theorem reuse_revokes_subject:
  assumes "js_get s (fc_jti c) = Some r" "rr_used r" "rr_subject r = fc_subject c" "rr_family r = fc_family c"
    and "of_int now < rr_expires r" "distinct (map fst s)"
  shows "(case rotate_consume memory_tokens c new now s of (p, s1) \<Rightarrow>
            case rotate_finish memory_tokens p s1 of (p', s2) \<Rightarrow>
              p' = Ended (Inl JwtInvalidToken) \<and>
              (\<forall>k. js_get s2 k = (case js_get s k of None \<Rightarrow> None | Some q \<Rightarrow> if rr_subject q = fc_subject c then None else Some q)))"
  using assms
  by (auto simp: rotate_consume_def rotate_finish_def memory_tokens_def memory_consume_def input_of_def
        after_consume_def js_get_filter split: option.splits)

end
