(* ===== verification/Serialization.thy ===== *)
theory Serialization
  imports Prelude
begin

text \<open>
  Response serialization (\<open>packages/serialization/src\<close>): the metadata that decorators record for
  classes and their fields, and the walk that turns an object graph into plain objects. The
  objects of the graph, with what their getters and transforms return, are a given heap; the
  walk allocates the objects of its result in order, and its recursion is bounded by the
  depth of the stack, so that running out of stack is a result (\<open>None\<close>) of its own.
\<close>

section \<open>Values and objects\<close>

datatype property_key = Named string | SymbolKey nat

text \<open>A value: \<open>Scalar\<close> is any primitive or function, \<open>Ref\<close> an object.\<close>

datatype ser_value = UndefinedValue | NullValue | Scalar nat | Ref nat

text \<open>\<open>Array.isArray\<close>, \<open>isOpaqueObject\<close>, \<open>isPlainObject\<close>, or an instance with its constructor, if
  that is a function (\<open>getSerializableConstructor\<close>).\<close>

datatype object_kind = ArrayObject "ser_value list" | OpaqueObject | PlainObject | InstanceOf "nat option"

text \<open>An object with its enumerable own keys, names first and then symbols, and what reading a
  property gives: its own value, or an inherited one, or that of a getter, which may throw.\<close>

record ser_object =
  so_kind :: object_kind
  so_keys :: "property_key list"
  so_read :: "property_key \<Rightarrow> (nat, ser_value) result"

section \<open>Metadata\<close>

type_synonym transform = "ser_value \<Rightarrow> (nat, ser_value) result"

record field_metadata =
  fm_excluded :: "bool option"
  fm_exposed :: "bool option"
  fm_transforms :: "transform list option"

type_synonym field_map = "(property_key, field_metadata) js_map"

text \<open>The options of a class: \<open>excludeExtraneous\<close> may be absent, and is explicitly undefined as
  \<open>Some None\<close>.\<close>

type_synonym class_options = "bool option option"

text \<open>
  What decorators store in the metadata object of a class (\<open>context.metadata\<close>), whose
  prototype is the metadata object of the superclass: a property is read from the nearest
  class of the lineage (\<open>supers\<close>, the class first) that has it.
\<close>

record metadata_bag =
  mb_class :: "class_options option"
  mb_fields :: "field_map option"

type_synonym bags = "(nat, metadata_bag) js_map"

definition bag_of :: "bags \<Rightarrow> nat \<Rightarrow> metadata_bag" where
  "bag_of W c = (case js_get W c of None \<Rightarrow> \<lparr>mb_class = None, mb_fields = None\<rparr> | Some b \<Rightarrow> b)"

definition fields_owner :: "(nat \<Rightarrow> nat list) \<Rightarrow> bags \<Rightarrow> nat \<Rightarrow> nat option" where
  "fields_owner supers W c = List.find (\<lambda>d. mb_fields (bag_of W d) \<noteq> None) (supers c)"

definition class_owner :: "(nat \<Rightarrow> nat list) \<Rightarrow> bags \<Rightarrow> nat \<Rightarrow> nat option" where
  "class_owner supers W c = List.find (\<lambda>d. mb_class (bag_of W d) \<noteq> None) (supers c)"

text \<open>\<open>updateFieldSerializationMetadata\<close>, with \<open>getFieldMetadataMap\<close>: the map that is found is
  changed in place, whichever class it belongs to.\<close>

definition update_field_serialization_metadata ::
  "(nat \<Rightarrow> nat list) \<Rightarrow> nat \<Rightarrow> property_key \<Rightarrow> (field_metadata option \<Rightarrow> field_metadata) \<Rightarrow> bags \<Rightarrow> bags" where
  "update_field_serialization_metadata supers c k f W =
     (let owner = (case fields_owner supers W c of None \<Rightarrow> c | Some d \<Rightarrow> d);
          fields = (case mb_fields (bag_of W owner) of None \<Rightarrow> [] | Some m \<Rightarrow> m) in
      js_set owner ((bag_of W owner)\<lparr>mb_fields := Some (js_set k (f (js_get fields k)) fields)\<rparr>) W)"

text \<open>\<open>updateClassSerializationOptions\<close>, with \<open>getClassMetadataObject\<close>\<close>

definition update_class_serialization_options ::
  "(nat \<Rightarrow> nat list) \<Rightarrow> nat \<Rightarrow> bool option \<Rightarrow> bags \<Rightarrow> bags" where
  "update_class_serialization_options supers c exclude_extraneous W =
     (let owner = (case class_owner supers W c of None \<Rightarrow> c | Some d \<Rightarrow> d) in
      js_set owner ((bag_of W owner)\<lparr>mb_class := Some (Some exclude_extraneous)\<rparr>) W)"

text \<open>The decorators; others only make sure that the class has a metadata object.\<close>

datatype ser_decorator =
    ExposeClass nat "bool option option"
  | ExposeField nat property_key
  | ExcludeField nat property_key
  | TransformField nat property_key transform
  | OtherDecorator nat

definition no_field_metadata :: field_metadata where
  "no_field_metadata = \<lparr>fm_excluded = None, fm_exposed = None, fm_transforms = None\<rparr>"

definition current_or_empty :: "field_metadata option \<Rightarrow> field_metadata" where
  "current_or_empty m = (case m of None \<Rightarrow> no_field_metadata | Some m \<Rightarrow> m)"

definition touch_bag :: "nat \<Rightarrow> bags \<Rightarrow> bags" where
  "touch_bag c W = js_set c (bag_of W c) W"

fun apply_decorator :: "(nat \<Rightarrow> nat list) \<Rightarrow> ser_decorator \<Rightarrow> bags \<Rightarrow> bags" where
  "apply_decorator supers (ExposeClass c options) W =
     (case options of
        None \<Rightarrow> touch_bag c W
      | Some b \<Rightarrow> update_class_serialization_options supers c b (touch_bag c W))"
| "apply_decorator supers (ExposeField c k) W =
     update_field_serialization_metadata supers c k (\<lambda>m. (current_or_empty m)\<lparr>fm_exposed := Some True\<rparr>) (touch_bag c W)"
| "apply_decorator supers (ExcludeField c k) W =
     update_field_serialization_metadata supers c k (\<lambda>m. (current_or_empty m)\<lparr>fm_excluded := Some True\<rparr>) (touch_bag c W)"
| "apply_decorator supers (TransformField c k t) W =
     update_field_serialization_metadata supers c k
       (\<lambda>m. (current_or_empty m)
          \<lparr>fm_transforms := Some ((case fm_transforms (current_or_empty m) of None \<Rightarrow> [] | Some ts \<Rightarrow> ts) @ [t])\<rparr>)
       (touch_bag c W)"
| "apply_decorator supers (OtherDecorator c) W = touch_bag c W"

definition run_decorators :: "(nat \<Rightarrow> nat list) \<Rightarrow> ser_decorator list \<Rightarrow> bags" where
  "run_decorators supers ds = fold (apply_decorator supers) ds []"

text \<open>\<open>getConstructorMetadataBags\<close>: the classes of the lineage with a metadata object of their own,
  the base class first.\<close>

definition get_constructor_metadata_bags :: "(nat \<Rightarrow> nat list) \<Rightarrow> bags \<Rightarrow> nat \<Rightarrow> nat list" where
  "get_constructor_metadata_bags supers W c = rev (filter (js_has W) (supers c))"

text \<open>\<open>{ ...options, ...own }\<close> for the one option there is.\<close>

fun spread_options :: "class_options \<Rightarrow> class_options \<Rightarrow> class_options" where
  "spread_options options None = options"
| "spread_options options (Some b) = Some b"

definition get_class_serialization_options :: "(nat \<Rightarrow> nat list) \<Rightarrow> bags \<Rightarrow> nat \<Rightarrow> class_options" where
  "get_class_serialization_options supers W c =
     fold (\<lambda>d options.
             case class_owner supers W d of
               None \<Rightarrow> options
             | Some owner \<Rightarrow>
                 (case mb_class (bag_of W owner) of None \<Rightarrow> options | Some own \<Rightarrow> spread_options options own))
       (get_constructor_metadata_bags supers W c) None"

definition or_default :: "'a option \<Rightarrow> 'a option \<Rightarrow> 'a option" where
  "or_default a b = (case a of None \<Rightarrow> b | Some x \<Rightarrow> Some x)"

text \<open>\<open>{ ...current, ...metadata, transforms: [...] }\<close>\<close>

definition merge_field_metadata :: "field_metadata option \<Rightarrow> field_metadata \<Rightarrow> field_metadata" where
  "merge_field_metadata current m =
     (let c = current_or_empty current in
      \<lparr>fm_excluded = or_default (fm_excluded m) (fm_excluded c),
       fm_exposed = or_default (fm_exposed m) (fm_exposed c),
       fm_transforms = Some ((case fm_transforms c of None \<Rightarrow> [] | Some ts \<Rightarrow> ts) @
                             (case fm_transforms m of None \<Rightarrow> [] | Some ts \<Rightarrow> ts))\<rparr>)"

definition merge_fields :: "field_map \<Rightarrow> field_map \<Rightarrow> field_map" where
  "merge_fields own merged = fold (\<lambda>(k, m) acc. js_set k (merge_field_metadata (js_get acc k) m) acc) own merged"

definition get_field_serialization_metadata :: "(nat \<Rightarrow> nat list) \<Rightarrow> bags \<Rightarrow> nat \<Rightarrow> field_map" where
  "get_field_serialization_metadata supers W c =
     fold (\<lambda>d merged.
             case fields_owner supers W d of
               None \<Rightarrow> merged
             | Some owner \<Rightarrow>
                 (case mb_fields (bag_of W owner) of None \<Rightarrow> merged | Some own \<Rightarrow> merge_fields own merged))
       (get_constructor_metadata_bags supers W c) []"

section \<open>The result\<close>

text \<open>An opaque object of the input is passed on as it is.\<close>

datatype out_value = OutUndefined | OutNull | OutScalar nat | OutOpaque nat | OutRef nat

datatype out_object = OutArray "out_value list" | OutRecord "(property_key, out_value) js_map"

type_synonym class_metadata = "bool \<times> field_map"

text \<open>\<open>SerializationContext\<close>, with the objects made so far: a reference is active or complete, and
  names the object made for it.\<close>

record ser_context =
  sc_metadata :: "(nat, class_metadata) js_map"
  sc_references :: "(nat, bool \<times> nat) js_map"
  sc_out :: "out_object list"

definition empty_context :: ser_context where
  "empty_context = \<lparr>sc_metadata = [], sc_references = [], sc_out = []\<rparr>"

text \<open>The heap, and the metadata of each constructor: whether \<open>excludeExtraneous\<close> is true, and the
  fmap.\<close>

record ser_env =
  se_heap :: "nat \<Rightarrow> ser_object"
  se_metadata :: "nat \<Rightarrow> class_metadata"

definition metadata_of :: "(nat \<Rightarrow> nat list) \<Rightarrow> bags \<Rightarrow> nat \<Rightarrow> class_metadata" where
  "metadata_of supers W c =
     (get_class_serialization_options supers W c = Some (Some True), get_field_serialization_metadata supers W c)"

section \<open>The walk\<close>

fun apply_transforms :: "transform list \<Rightarrow> ser_value \<Rightarrow> (nat, ser_value) result" where
  "apply_transforms [] v = Inr v"
| "apply_transforms (t # ts) v = (case t v of Inl e \<Rightarrow> Inl e | Inr w \<Rightarrow> apply_transforms ts w)"

text \<open>Assigning to \<open>__proto__\<close> of an object defines no property; \<open>Object.defineProperty\<close> does.\<close>

definition ordinary_assign :: "property_key \<Rightarrow> 'v \<Rightarrow> (property_key, 'v) js_map \<Rightarrow> (property_key, 'v) js_map" where
  "ordinary_assign k v m = (if k = Named ''__proto__'' then m else js_set k v m)"

definition assign_serialized_property ::
  "property_key \<Rightarrow> 'v \<Rightarrow> (property_key, 'v) js_map \<Rightarrow> (property_key, 'v) js_map" where
  "assign_serialized_property k v m =
     (if k \<in> {Named ''__proto__'', Named ''constructor'', Named ''prototype''} then js_set k v m
      else ordinary_assign k v m)"

definition is_exposed :: "field_metadata \<Rightarrow> bool" where
  "is_exposed m \<longleftrightarrow> fm_exposed m = Some True"

definition is_excluded :: "field_metadata \<Rightarrow> bool" where
  "is_excluded m \<longleftrightarrow> fm_excluded m = Some True"

text \<open>Each key once, in the order of the first occurrences, as a \<open>Set\<close> keeps them.\<close>

definition first_occurrences :: "'a list \<Rightarrow> 'a list" where
  "first_occurrences xs = rev (remdups (rev xs))"

definition resolve_candidate_keys :: "ser_object \<Rightarrow> field_map \<Rightarrow> bool \<Rightarrow> property_key list" where
  "resolve_candidate_keys obj fmap exclude_extraneous =
     (let exposed = map fst (filter (\<lambda>(k, m). is_exposed m) fmap) in
      if exclude_extraneous then exposed else first_occurrences (so_keys obj @ exposed))"

definition get_cached_metadata :: "ser_env \<Rightarrow> nat \<Rightarrow> ser_context \<Rightarrow> class_metadata \<times> ser_context" where
  "get_cached_metadata E c s =
     (case js_get (sc_metadata s) c of
        Some m \<Rightarrow> (m, s)
      | None \<Rightarrow> (se_metadata E c, s\<lparr>sc_metadata := js_set c (se_metadata E c) (sc_metadata s)\<rparr>))"

definition mark_serialization_start :: "nat \<Rightarrow> out_object \<Rightarrow> ser_context \<Rightarrow> ser_context" where
  "mark_serialization_start i blank s =
     s\<lparr>sc_references := js_set i (True, length (sc_out s)) (sc_references s), sc_out := sc_out s @ [blank]\<rparr>"

definition mark_serialization_complete :: "nat \<Rightarrow> ser_context \<Rightarrow> ser_context" where
  "mark_serialization_complete i s =
     (case js_get (sc_references s) i of
        None \<Rightarrow> s
      | Some (active, r) \<Rightarrow> s\<lparr>sc_references := js_set i (False, r) (sc_references s)\<rparr>)"

text \<open>A step may throw, and may exhaust the stack.\<close>

type_synonym 'a walk = "ser_context \<Rightarrow> ((nat, 'a) result \<times> ser_context) option"

definition serialize_with_tracked_reference ::
  "nat \<Rightarrow> out_object \<Rightarrow> (nat \<Rightarrow> unit walk) \<Rightarrow> out_value walk" where
  "serialize_with_tracked_reference i blank fill s =
     (case js_get (sc_references s) i of
        Some (active, r) \<Rightarrow> Some (Inr (if active then OutUndefined else OutRef r), s)
      | None \<Rightarrow>
          (let r = length (sc_out s) in
           case fill r (mark_serialization_start i blank s) of
             None \<Rightarrow> None
           | Some (Inl e, s') \<Rightarrow> Some (Inl e, mark_serialization_complete i s')
           | Some (Inr _, s') \<Rightarrow> Some (Inr (OutRef r), mark_serialization_complete i s')))"

definition push_item :: "nat \<Rightarrow> out_value \<Rightarrow> ser_context \<Rightarrow> ser_context" where
  "push_item r w s =
     s\<lparr>sc_out := (sc_out s)[r := (case sc_out s ! r of OutArray ws \<Rightarrow> OutArray (ws @ [w]) | x \<Rightarrow> x)]\<rparr>"

definition set_property :: "nat \<Rightarrow> property_key \<Rightarrow> out_value \<Rightarrow> ser_context \<Rightarrow> ser_context" where
  "set_property r k w s =
     s\<lparr>sc_out := (sc_out s)
        [r := (case sc_out s ! r of OutRecord m \<Rightarrow> OutRecord (assign_serialized_property k w m) | x \<Rightarrow> x)]\<rparr>"

fun fill_items :: "(ser_value \<Rightarrow> out_value walk) \<Rightarrow> ser_value list \<Rightarrow> nat \<Rightarrow> unit walk" where
  "fill_items rec [] r s = Some (Inr (), s)"
| "fill_items rec (v # vs) r s =
     (case rec v s of
        None \<Rightarrow> None
      | Some (Inl e, s') \<Rightarrow> Some (Inl e, s')
      | Some (Inr w, s') \<Rightarrow> fill_items rec vs r (push_item r w s'))"

text \<open>The loop over the keys; \<open>get\<close> gives nothing for a key that is left out.\<close>

fun fill_properties ::
  "(ser_value \<Rightarrow> out_value walk) \<Rightarrow> (property_key \<Rightarrow> (nat, ser_value) result option) \<Rightarrow> property_key list \<Rightarrow>
   nat \<Rightarrow> unit walk" where
  "fill_properties rec get [] r s = Some (Inr (), s)"
| "fill_properties rec get (k # ks) r s =
     (case get k of
        None \<Rightarrow> fill_properties rec get ks r s
      | Some (Inl e) \<Rightarrow> Some (Inl e, s)
      | Some (Inr v) \<Rightarrow>
          (case rec v s of
             None \<Rightarrow> None
           | Some (Inl e, s') \<Rightarrow> Some (Inl e, s')
           | Some (Inr w, s') \<Rightarrow> fill_properties rec get ks r (set_property r k w s')))"

text \<open>The body of the loop in \<open>serializeClassInstance\<close>, up to the recursive call.\<close>

definition field_value :: "class_metadata \<Rightarrow> ser_object \<Rightarrow> property_key \<Rightarrow> (nat, ser_value) result option" where
  "field_value m obj k =
     (case js_get (snd m) k of
        None \<Rightarrow>
          (case so_read obj k of
             Inl e \<Rightarrow> Some (Inl e)
           | Inr raw \<Rightarrow> if raw = UndefinedValue \<and> fst m then None else Some (Inr raw))
      | Some fm \<Rightarrow>
          if is_excluded fm then None
          else (case so_read obj k of
              Inl e \<Rightarrow> Some (Inl e)
            | Inr raw \<Rightarrow>
                if raw = UndefinedValue \<and> fst m \<and> \<not> is_exposed fm then None
                else Some (apply_transforms (case fm_transforms fm of None \<Rightarrow> [] | Some ts \<Rightarrow> ts) raw)))"

definition serialize_record :: "(ser_value \<Rightarrow> out_value walk) \<Rightarrow> ser_env \<Rightarrow> nat \<Rightarrow> out_value walk" where
  "serialize_record rec E i s =
     (let obj = se_heap E i in
      serialize_with_tracked_reference i (OutRecord [])
        (fill_properties rec (\<lambda>k. Some (so_read obj k)) (so_keys obj)) s)"

definition serialize_class_instance ::
  "(ser_value \<Rightarrow> out_value walk) \<Rightarrow> ser_env \<Rightarrow> nat \<Rightarrow> nat option \<Rightarrow> out_value walk" where
  "serialize_class_instance rec E i constructor s =
     (case constructor of
        None \<Rightarrow> serialize_record rec E i s
      | Some c \<Rightarrow>
          (let (m, s') = get_cached_metadata E c s in
           if snd m = [] \<and> \<not> fst m then serialize_record rec E i s'
           else
             (let obj = se_heap E i in
              serialize_with_tracked_reference i (OutRecord [])
                (fill_properties rec (field_value m obj) (resolve_candidate_keys obj (snd m) (fst m))) s')))"

fun serialize_internal :: "nat \<Rightarrow> ser_env \<Rightarrow> ser_value \<Rightarrow> out_value walk" where
  "serialize_internal 0 E v s = None"
| "serialize_internal (Suc depth) E v s =
     (case v of
        UndefinedValue \<Rightarrow> Some (Inr OutUndefined, s)
      | NullValue \<Rightarrow> Some (Inr OutNull, s)
      | Scalar n \<Rightarrow> Some (Inr (OutScalar n), s)
      | Ref i \<Rightarrow>
          (case so_kind (se_heap E i) of
             ArrayObject vs \<Rightarrow>
               serialize_with_tracked_reference i (OutArray []) (fill_items (serialize_internal depth E) vs) s
           | OpaqueObject \<Rightarrow> Some (Inr (OutOpaque i), s)
           | PlainObject \<Rightarrow> serialize_record (serialize_internal depth E) E i s
           | InstanceOf c \<Rightarrow> serialize_class_instance (serialize_internal depth E) E i c s))"

text \<open>\<open>serialize\<close>: the value and the objects it refers to, with what stands for which object.\<close>

definition serialize :: "nat \<Rightarrow> ser_env \<Rightarrow> ser_value \<Rightarrow> ((nat, out_value) result \<times> ser_context) option" where
  "serialize depth E v = serialize_internal depth E v empty_context"

end
