(* ===== verification/Serialization_Facts.thy ===== *)
theory Serialization_Facts
  imports Serialization
begin

text \<open>
  What the walk of the serializer guarantees: with a stack deep enough for the objects it
  can reach it ends, cycles or not; its result has no cycles, keeps sharing, and is the image of
  the input under the metadata; and what a class excludes is never in the result for an instance
  of it or of a subclass.
\<close>

section \<open>The graph of the input\<close>

text \<open>The values an object of the input is serialized from, by key.\<close>

definition has_no_metadata :: "ser_env \<Rightarrow> nat option \<Rightarrow> bool" where
  "has_no_metadata E c = (case c of None \<Rightarrow> True | Some k \<Rightarrow> snd (se_metadata E k) = [] \<and> \<not> fst (se_metadata E k))"

definition object_keys :: "ser_env \<Rightarrow> nat \<Rightarrow> property_key list" where
  "object_keys E i =
     (let obj = se_heap E i in
      case so_kind obj of
        PlainObject \<Rightarrow> so_keys obj
      | InstanceOf c \<Rightarrow>
          if has_no_metadata E c then so_keys obj
          else resolve_candidate_keys obj (snd (se_metadata E (the c))) (fst (se_metadata E (the c)))
      | _ \<Rightarrow> [])"

definition object_value :: "ser_env \<Rightarrow> nat \<Rightarrow> property_key \<Rightarrow> (nat, ser_value) result option" where
  "object_value E i k =
     (let obj = se_heap E i in
      case so_kind obj of
        InstanceOf c \<Rightarrow>
          if has_no_metadata E c then Some (so_read obj k) else field_value (se_metadata E (the c)) obj k
      | _ \<Rightarrow> Some (so_read obj k))"

definition children :: "ser_env \<Rightarrow> nat \<Rightarrow> ser_value set" where
  "children E i =
     (case so_kind (se_heap E i) of
        ArrayObject vs \<Rightarrow> set vs
      | OpaqueObject \<Rightarrow> {}
      | _ \<Rightarrow> {v. \<exists>k \<in> set (object_keys E i). object_value E i k = Some (Inr v)})"

definition child :: "ser_env \<Rightarrow> (nat \<times> nat) set" where
  "child E = {(i, j). Ref j \<in> children E i}"

text \<open>The cache of the metadata is transparent.\<close>

definition metadata_current :: "ser_env \<Rightarrow> ser_context \<Rightarrow> bool" where
  "metadata_current E s \<longleftrightarrow> (\<forall>c m. js_get (sc_metadata s) c = Some m \<longrightarrow> m = se_metadata E c)"

definition after_cache :: "ser_env \<Rightarrow> nat \<Rightarrow> ser_context \<Rightarrow> ser_context" where
  "after_cache E i s =
     (case so_kind (se_heap E i) of InstanceOf (Some c) \<Rightarrow> snd (get_cached_metadata E c s) | _ \<Rightarrow> s)"

lemma get_cached_metadata_current:
  "metadata_current E s \<Longrightarrow> get_cached_metadata E c s = (se_metadata E c, snd (get_cached_metadata E c s))"
  by (auto simp: metadata_current_def get_cached_metadata_def split: option.split)

lemma after_cache_simps [simp]:
  "sc_references (after_cache E i s) = sc_references s" "sc_out (after_cache E i s) = sc_out s"
  "metadata_current E s \<Longrightarrow> metadata_current E (after_cache E i s)"
  by (auto simp: after_cache_def get_cached_metadata_def metadata_current_def split: object_kind.split option.split)

text \<open>How the walk treats an object: not at all, item by item, or key by key.\<close>

definition fill_object :: "ser_env \<Rightarrow> (ser_value \<Rightarrow> out_value walk) \<Rightarrow> nat \<Rightarrow> nat \<Rightarrow> unit walk" where
  "fill_object E rec i =
     (case so_kind (se_heap E i) of
        ArrayObject vs \<Rightarrow> fill_items rec vs
      | _ \<Rightarrow> fill_properties rec (object_value E i) (object_keys E i))"

definition blank_object :: "ser_env \<Rightarrow> nat \<Rightarrow> out_object" where
  "blank_object E i = (case so_kind (se_heap E i) of ArrayObject vs \<Rightarrow> OutArray [] | _ \<Rightarrow> OutRecord [])"

lemma serialize_internal_ref:
  assumes "metadata_current E s"
  shows "serialize_internal (Suc d) E (Ref i) s =
     (if so_kind (se_heap E i) = OpaqueObject then Some (Inr (OutOpaque i), s)
      else serialize_with_tracked_reference i (blank_object E i) (fill_object E (serialize_internal d E) i)
             (after_cache E i s))"
proof (cases "so_kind (se_heap E i)")
  case (ArrayObject vs)
  then show ?thesis
    by (simp add: fill_object_def blank_object_def after_cache_def)
next
  case PlainObject
  then have "object_value E i = (\<lambda>k. Some (so_read (se_heap E i) k))" "object_keys E i = so_keys (se_heap E i)"
    by (simp_all add: fun_eq_iff object_value_def object_keys_def Let_def)
  then show ?thesis
    using PlainObject by (simp add: fill_object_def blank_object_def after_cache_def serialize_record_def Let_def)
next
  case (InstanceOf constr)
  show ?thesis
  proof (cases "has_no_metadata E constr")
    case True
    then have "object_value E i = (\<lambda>k. Some (so_read (se_heap E i) k))" "object_keys E i = so_keys (se_heap E i)"
      using InstanceOf by (simp_all add: fun_eq_iff object_value_def object_keys_def Let_def)
    note same = this InstanceOf True
    show ?thesis
    proof (cases constr)
      case (Some c)
      obtain s' where "get_cached_metadata E c s = (se_metadata E c, s')"
        using get_cached_metadata_current [OF assms] by metis
      then show ?thesis
        using same Some by (simp add: fill_object_def blank_object_def after_cache_def serialize_record_def
            serialize_class_instance_def has_no_metadata_def Let_def)
    qed (use same in \<open>simp add: fill_object_def blank_object_def after_cache_def serialize_record_def
            serialize_class_instance_def Let_def\<close>)
  next
    case False
    then obtain c where c: "constr = Some c"
      by (cases constr) (auto simp: has_no_metadata_def)
    have "object_value E i = field_value (se_metadata E c) (se_heap E i)"
      "object_keys E i = resolve_candidate_keys (se_heap E i) (snd (se_metadata E c)) (fst (se_metadata E c))"
      using InstanceOf False c by (simp_all add: fun_eq_iff object_value_def object_keys_def Let_def)
    moreover obtain s' where "get_cached_metadata E c s = (se_metadata E c, s')"
      using get_cached_metadata_current [OF assms] by metis
    ultimately show ?thesis
      using InstanceOf False c by (auto simp: fill_object_def blank_object_def after_cache_def serialize_class_instance_def
          has_no_metadata_def Let_def)
  qed
qed (simp add: fill_object_def)

section \<open>The walk ends\<close>

text \<open>A deeper stack gives the same result.\<close>

lemma fill_items_deeper:
  "(\<And>v s x. rec v s = Some x \<Longrightarrow> rec' v s = Some x) \<Longrightarrow> fill_items rec vs r s = Some x \<Longrightarrow> fill_items rec' vs r s = Some x"
  by (induction vs arbitrary: s) (fastforce split: option.splits sum.splits)+

lemma fill_properties_deeper:
  "(\<And>v s x. rec v s = Some x \<Longrightarrow> rec' v s = Some x) \<Longrightarrow> fill_properties rec get ks r s = Some x \<Longrightarrow>
   fill_properties rec' get ks r s = Some x"
  by (induction ks arbitrary: s) (fastforce split: option.splits sum.splits)+

lemma tracked_deeper:
  "(\<And>r s x. fill r s = Some x \<Longrightarrow> fill' r s = Some x) \<Longrightarrow> serialize_with_tracked_reference i b fill s = Some x \<Longrightarrow>
   serialize_with_tracked_reference i b fill' s = Some x"
  by (fastforce simp: serialize_with_tracked_reference_def Let_def split: option.splits sum.splits prod.splits)

declare serialize_internal.simps(2) [simp del]

lemma serialize_internal_deeper: "serialize_internal d E v s = Some x \<Longrightarrow> serialize_internal (Suc d) E v s = Some x"
proof (induction d arbitrary: v s x)
  case (Suc d)
  have items: "serialize_with_tracked_reference i b (fill_items (serialize_internal d E) vs) s = Some x \<Longrightarrow>
      serialize_with_tracked_reference i b (fill_items (serialize_internal (Suc d) E) vs) s = Some x" for i b vs s x
    by (erule tracked_deeper [rotated], erule fill_items_deeper [rotated], rule Suc.IH)
  have properties: "serialize_with_tracked_reference i b (fill_properties (serialize_internal d E) get ks) s = Some x \<Longrightarrow>
      serialize_with_tracked_reference i b (fill_properties (serialize_internal (Suc d) E) get ks) s = Some x"
    for i b get ks s x
    by (erule tracked_deeper [rotated], erule fill_properties_deeper [rotated], rule Suc.IH)
  have rec: "serialize_record (serialize_internal d E) E i s = Some x \<Longrightarrow>
      serialize_record (serialize_internal (Suc d) E) E i s = Some x" for i s x
    unfolding serialize_record_def Let_def by (rule properties)
  show ?case
  proof (cases v)
    case (Ref i)
    show ?thesis
    proof (cases "so_kind (se_heap E i)")
      case (ArrayObject vs)
      then show ?thesis
        using Suc.prems items Ref by (simp add: serialize_internal.simps(2))
    next
      case (InstanceOf c)
      note simps = serialize_internal.simps(2) serialize_class_instance_def Ref InstanceOf
      show ?thesis
      proof (cases c)
        case None
        then show ?thesis
          using Suc.prems rec by (simp add: simps)
      next
        case (Some k)
        obtain m s' where m: "get_cached_metadata E k s = (m, s')"
          by fastforce
        show ?thesis
        proof (cases "snd m = [] \<and> \<not> fst m")
          case True
          then show ?thesis
            using Suc.prems rec Some m by (simp add: simps)
        next
          case False
          then have "serialize_class_instance r E i (Some k) s =
              serialize_with_tracked_reference i (OutRecord [])
                (fill_properties r (field_value m (se_heap E i)) (resolve_candidate_keys (se_heap E i) (snd m) (fst m))) s'" for r
            using m by (auto simp: serialize_class_instance_def Let_def)
          then show ?thesis
            using Suc.prems properties Some by (simp add: serialize_internal.simps(2) Ref InstanceOf)
        qed
      qed
    qed (use Suc.prems Ref rec in \<open>simp_all add: serialize_internal.simps(2)\<close>)
  qed (use Suc.prems in \<open>simp_all add: serialize_internal.simps(2)\<close>)
qed simp

lemma serialize_internal_depth: "serialize_internal d E v s = Some x \<Longrightarrow> d \<le> d' \<Longrightarrow> serialize_internal d' E v s = Some x"
  by (rotate_tac, induction rule: dec_induct) (auto intro: serialize_internal_deeper)

text \<open>References are never dropped.\<close>

definition walk_grows :: "ser_env \<Rightarrow> ser_context \<Rightarrow> ser_context \<Rightarrow> bool" where
  "walk_grows E s s' \<longleftrightarrow> metadata_current E s \<longrightarrow>
     metadata_current E s' \<and> dom (js_get (sc_references s)) \<subseteq> dom (js_get (sc_references s'))"

lemma walk_grows_refl [simp]: "walk_grows E s s"
  by (simp add: walk_grows_def)

lemma walk_grows_trans: "walk_grows E s t \<Longrightarrow> walk_grows E t u \<Longrightarrow> walk_grows E s u"
  by (auto simp: walk_grows_def)

lemma push_item_simps [simp]:
  "sc_references (push_item r w s) = sc_references s" "sc_metadata (push_item r w s) = sc_metadata s"
  "length (sc_out (push_item r w s)) = length (sc_out s)"
  by (simp_all add: push_item_def)

lemma set_property_simps [simp]:
  "sc_references (set_property r k w s) = sc_references s" "sc_metadata (set_property r k w s) = sc_metadata s"
  "length (sc_out (set_property r k w s)) = length (sc_out s)"
  by (simp_all add: set_property_def)

lemma walk_grows_edit [simp]:
  "walk_grows E s (push_item r w t) = walk_grows E s t" "walk_grows E s (set_property r k w t) = walk_grows E s t"
  by (simp_all add: walk_grows_def metadata_current_def)

lemma fill_items_grows:
  assumes rec: "\<And>v s x s'. rec v s = Some (x, s') \<Longrightarrow> walk_grows E s s'"
  shows "fill_items rec vs r s = Some (x, s') \<Longrightarrow> walk_grows E s s'"
proof (induction vs arbitrary: s)
  case (Cons v vs)
  obtain y t where y: "rec v s = Some (y, t)"
    using Cons.prems by (auto split: option.splits)
  note t = rec [OF y]
  show ?case
  proof (cases y)
    case (Inr w)
    then have "walk_grows E (push_item r w t) s'"
      using Cons y by simp
    moreover have "walk_grows E s (push_item r w t)"
      using t by simp
    ultimately show ?thesis
      by (rule walk_grows_trans [rotated])
  qed (use Cons.prems y t in simp)
qed simp

lemma fill_properties_grows:
  assumes rec: "\<And>v s x s'. rec v s = Some (x, s') \<Longrightarrow> walk_grows E s s'"
  shows "fill_properties rec get ks r s = Some (x, s') \<Longrightarrow> walk_grows E s s'"
proof (induction ks arbitrary: s)
  case (Cons k ks)
  show ?case
  proof (cases "\<exists>v. get k = Some (Inr v)")
    case True
    then obtain v y t where v: "get k = Some (Inr v)" and y: "rec v s = Some (y, t)"
      using Cons.prems by (auto split: option.splits)
    note t = rec [OF y]
    show ?thesis
    proof (cases y)
      case (Inr w)
      then have "walk_grows E (set_property r k w t) s'"
        using Cons v y by simp
      moreover have "walk_grows E s (set_property r k w t)"
        using t by simp
      ultimately show ?thesis
        by (rule walk_grows_trans [rotated])
    qed (use Cons.prems v y t in simp)
  next
    case False
    then show ?thesis
      using Cons by (cases "get k") (auto split: sum.splits)
  qed
qed simp

lemma mark_start_simps [simp]:
  "sc_references (mark_serialization_start i b s) = js_set i (True, length (sc_out s)) (sc_references s)"
  "sc_out (mark_serialization_start i b s) = sc_out s @ [b]"
  "metadata_current E (mark_serialization_start i b s) = metadata_current E s"
  by (simp_all add: mark_serialization_start_def metadata_current_def)

lemma mark_complete_simps [simp]:
  "sc_out (mark_serialization_complete i s) = sc_out s"
  "metadata_current E (mark_serialization_complete i s) = metadata_current E s"
  "js_get (sc_references (mark_serialization_complete i s)) =
     (js_get (sc_references s))(i := map_option (\<lambda>(a, r). (False, r)) (js_get (sc_references s) i))"
  by (auto simp: mark_serialization_complete_def metadata_current_def fun_eq_iff split: option.split)

lemma mark_dom:
  "dom (js_get (sc_references (mark_serialization_start i b s))) = insert i (dom (js_get (sc_references s)))"
  "dom (js_get (sc_references (mark_serialization_complete i s))) = dom (js_get (sc_references s))"
  by (auto simp: dom_def)

lemma tracked_grows:
  assumes "\<And>r s x s'. fill r s = Some (x, s') \<Longrightarrow> walk_grows E s s'" and "serialize_with_tracked_reference i b fill s = Some (x, s')"
  shows "walk_grows E s s'"
proof (cases "js_get (sc_references s) i")
  case None
  then obtain y t where y: "fill (length (sc_out s)) (mark_serialization_start i b s) = Some (y, t)"
    and s': "s' = mark_serialization_complete i t"
    using assms(2) by (auto simp: serialize_with_tracked_reference_def Let_def split: option.splits sum.splits)
  have "walk_grows E (mark_serialization_start i b s) t"
    by (rule assms(1) [OF y])
  then show ?thesis
    unfolding s' walk_grows_def mark_dom by simp
next
  case (Some p)
  then show ?thesis
    using assms(2) by (cases p) (simp add: serialize_with_tracked_reference_def)
qed

lemma fill_object_grows:
  "(\<And>v s x s'. rec v s = Some (x, s') \<Longrightarrow> walk_grows E s s') \<Longrightarrow> fill_object E rec i r s = Some (x, s') \<Longrightarrow> walk_grows E s s'"
  by (cases "so_kind (se_heap E i)")
    (simp_all add: fill_object_def, (erule fill_items_grows [rotated] fill_properties_grows [rotated], blast)+)

lemma serialize_internal_grows: "serialize_internal d E v s = Some (x, s') \<Longrightarrow> walk_grows E s s'"
proof (induction d arbitrary: v s x s')
  case (Suc d)
  show ?case
  proof (cases "metadata_current E s")
    case current: True
    show ?thesis
    proof (cases v)
      case (Ref i)
      have "walk_grows E (after_cache E i s) s'" if "so_kind (se_heap E i) \<noteq> OpaqueObject"
        using Suc.prems that unfolding Ref serialize_internal_ref [OF current]
        by (auto intro: tracked_grows fill_object_grows [OF Suc.IH])
      then show ?thesis
        using Suc.prems current unfolding Ref serialize_internal_ref [OF current]
        by (auto simp: walk_grows_def split: if_splits)
    qed (use Suc.prems in \<open>simp_all add: serialize_internal.simps(2)\<close>)
  qed (simp add: walk_grows_def)
qed simp

text \<open>The stack is deep enough if it is deeper than there are objects left to visit.\<close>

definition unvisited :: "nat set \<Rightarrow> ser_context \<Rightarrow> nat" where
  "unvisited S s = card (S - dom (js_get (sc_references s)))"

lemma unvisited_grows: "finite S \<Longrightarrow> metadata_current E s \<Longrightarrow> walk_grows E s s' \<Longrightarrow> unvisited S s' \<le> unvisited S s"
  unfolding unvisited_def walk_grows_def by (intro card_mono) auto

definition enough :: "ser_env \<Rightarrow> nat set \<Rightarrow> nat \<Rightarrow> ser_context \<Rightarrow> bool" where
  "enough E S d s \<longleftrightarrow> metadata_current E s \<and> unvisited S s < d"

lemma enough_grows: "finite S \<Longrightarrow> enough E S d s \<Longrightarrow> walk_grows E s s' \<Longrightarrow> enough E S d s'"
  using unvisited_grows [of S E s s'] by (auto simp: enough_def walk_grows_def)

lemma enough_edit [simp]:
  "enough E S d (push_item r w s) = enough E S d s" "enough E S d (set_property r k w s) = enough E S d s"
  by (simp_all add: enough_def unvisited_def metadata_current_def)

lemma fill_items_ends:
  assumes "finite S" and rec: "\<And>v s. v \<in> set vs \<Longrightarrow> enough E S d s \<Longrightarrow> rec v s \<noteq> None"
    and grows: "\<And>v s x s'. rec v s = Some (x, s') \<Longrightarrow> walk_grows E s s'"
  shows "enough E S d s \<Longrightarrow> fill_items rec vs r s \<noteq> None"
  using rec
proof (induction vs arbitrary: s)
  case (Cons v vs)
  then obtain y t where y: "rec v s = Some (y, t)"
    by fastforce
  then have "enough E S d t"
    using enough_grows [OF assms(1) Cons.prems(1)] grows by blast
  then show ?case
    using y Cons by (auto split: sum.splits)
qed simp

lemma fill_properties_ends:
  assumes "finite S" and rec: "\<And>k v s. k \<in> set ks \<Longrightarrow> get k = Some (Inr v) \<Longrightarrow> enough E S d s \<Longrightarrow> rec v s \<noteq> None"
    and grows: "\<And>v s x s'. rec v s = Some (x, s') \<Longrightarrow> walk_grows E s s'"
  shows "enough E S d s \<Longrightarrow> fill_properties rec get ks r s \<noteq> None"
  using rec
proof (induction ks arbitrary: s)
  case (Cons k ks)
  show ?case
  proof (cases "\<exists>v. get k = Some (Inr v)")
    case True
    then obtain v y t where v: "get k = Some (Inr v)" and y: "rec v s = Some (y, t)"
      using Cons.prems by fastforce
    then have "enough E S d t"
      using enough_grows [OF assms(1) Cons.prems(1)] grows by blast
    then have "fill_properties rec get ks r (set_property r k w t) \<noteq> None" for w
      by (intro Cons.IH Cons.prems(2)) auto
    then show ?thesis
      using v y by (cases y) simp_all
  next
    case False
    have "fill_properties rec get ks r s \<noteq> None"
      by (intro Cons.IH Cons.prems) auto
    then show ?thesis
      using False by (cases "get k") (auto split: sum.splits)
  qed
qed simp

lemma fill_object_ends:
  assumes "finite S" and "\<And>v s. v \<in> children E i \<Longrightarrow> enough E S d s \<Longrightarrow> rec v s \<noteq> None"
    and grows: "\<And>v s x s'. rec v s = Some (x, s') \<Longrightarrow> walk_grows E s s'" and "enough E S d s"
    and "so_kind (se_heap E i) \<noteq> OpaqueObject"
  shows "fill_object E rec i r s \<noteq> None"
proof (cases "so_kind (se_heap E i)")
  case (ArrayObject vs)
  then have "fill_items rec vs r s \<noteq> None"
    by (intro fill_items_ends [OF assms(1) _ grows assms(4)] assms(2)) (auto simp: children_def)
  then show ?thesis
    using ArrayObject by (simp add: fill_object_def)
next
  case PlainObject
  have "fill_properties rec (object_value E i) (object_keys E i) r s \<noteq> None"
    by (rule fill_properties_ends [OF assms(1) _ grows assms(4)], rule assms(2)) (auto simp: children_def PlainObject)
  then show ?thesis
    using PlainObject by (simp add: fill_object_def)
next
  case (InstanceOf c)
  have "fill_properties rec (object_value E i) (object_keys E i) r s \<noteq> None"
    by (rule fill_properties_ends [OF assms(1) _ grows assms(4)], rule assms(2)) (auto simp: children_def InstanceOf)
  then show ?thesis
    using InstanceOf by (simp add: fill_object_def)
qed (use assms(5) in simp)

definition within :: "nat set \<Rightarrow> ser_value \<Rightarrow> bool" where
  "within S v \<longleftrightarrow> (\<forall>i. v = Ref i \<longrightarrow> i \<in> S)"

lemma serialize_internal_ends:
  assumes "finite S" and "child E `` S \<subseteq> S"
  shows "within S v \<Longrightarrow> enough E S d s \<Longrightarrow> serialize_internal d E v s \<noteq> None"
proof (induction d arbitrary: v s)
  case (Suc d)
  have current: "metadata_current E s"
    using Suc.prems(2) by (simp add: enough_def)
  show ?case
  proof (cases v)
    case (Ref i)
    show ?thesis
    proof (cases "so_kind (se_heap E i) = OpaqueObject \<or> js_get (sc_references s) i \<noteq> None")
      case True
      then show ?thesis
        unfolding Ref serialize_internal_ref [OF current]
        by (auto simp: serialize_with_tracked_reference_def split: option.split)
    next
      case False
      let ?s = "mark_serialization_start i (blank_object E i) (after_cache E i s)"
      have i: "i \<in> S - dom (js_get (sc_references s))"
        using Suc.prems(1) False by (auto simp: Ref within_def)
      have "unvisited S ?s = card (S - dom (js_get (sc_references s)) - {i})"
        unfolding unvisited_def mark_dom by (simp add: set_diff_eq) (metis Diff_insert set_diff_eq)
      also have "\<dots> < unvisited S s"
        unfolding unvisited_def using i assms(1) by (intro card_Diff1_less) auto
      finally have "enough E S d ?s"
        using Suc.prems(2) current by (simp add: enough_def)
      moreover have "within S w" if "w \<in> children E i" for w
        using that assms(2) i by (auto simp: within_def child_def)
      ultimately have "fill_object E (serialize_internal d E) i r ?s \<noteq> None" for r
        using Suc.IH False by (intro fill_object_ends [OF assms(1) _ serialize_internal_grows]) auto
      then show ?thesis
        using False unfolding Ref serialize_internal_ref [OF current]
        by (auto simp: serialize_with_tracked_reference_def Let_def split: option.split sum.split)
    qed
  qed (simp_all add: serialize_internal.simps(2))
qed (simp add: enough_def)

text \<open>C21. If finitely many objects can be reached from a value, in whatever cycles, serializing it ends:
  with a stack deeper than their number it never overflows, and the result is the same for every
  such depth.\<close>

theorem serialize_terminates:
  assumes "finite S" and "child E `` S \<subseteq> S" and "within S v"
  shows "\<exists>r. \<forall>d > card S. serialize d E v = Some r"
proof -
  have "enough E S (Suc (card S)) empty_context"
    by (simp add: enough_def metadata_current_def unvisited_def empty_context_def)
  then obtain r where "serialize (Suc (card S)) E v = Some r"
    using serialize_internal_ends [OF assms] by (fastforce simp: serialize_def)
  then show ?thesis
    unfolding serialize_def using serialize_internal_depth by (metis Suc_leI)
qed

section \<open>The result is the image of the input\<close>

text \<open>What stands for an object of the input, once it is complete.\<close>

definition made :: "ser_context \<Rightarrow> nat \<Rightarrow> nat option" where
  "made s i = (case js_get (sc_references s) i of Some (False, r) \<Rightarrow> Some r | _ \<Rightarrow> None)"

text \<open>A value of the result matches one of the input: an object gives the object made for it, and
  \<open>undefined\<close> only where the object can reach itself.\<close>

fun matches :: "ser_env \<Rightarrow> (nat \<Rightarrow> nat option) \<Rightarrow> ser_value \<Rightarrow> out_value \<Rightarrow> bool" where
  "matches E f UndefinedValue w \<longleftrightarrow> w = OutUndefined"
| "matches E f NullValue w \<longleftrightarrow> w = OutNull"
| "matches E f (Scalar n) w \<longleftrightarrow> w = OutScalar n"
| "matches E f (Ref i) w \<longleftrightarrow>
     (if so_kind (se_heap E i) = OpaqueObject then w = OutOpaque i
      else (\<exists>r. f i = Some r \<and> w = OutRef r) \<or> w = OutUndefined \<and> (i, i) \<in> (child E)\<^sup>+)"

definition image_items :: "ser_env \<Rightarrow> (nat \<Rightarrow> nat option) \<Rightarrow> ser_value list \<Rightarrow> out_object \<Rightarrow> bool" where
  "image_items E f vs x \<longleftrightarrow> (\<exists>ws. x = OutArray ws \<and> list_all2 (matches E f) vs ws)"

definition image_properties :: "ser_env \<Rightarrow> (nat \<Rightarrow> nat option) \<Rightarrow> nat \<Rightarrow> property_key set \<Rightarrow> out_object \<Rightarrow> bool" where
  "image_properties E f i K x \<longleftrightarrow>
     (\<exists>m. x = OutRecord m \<and>
        (\<forall>k. case js_get m k of
               None \<Rightarrow> k \<in> K \<longrightarrow> object_value E i k = None
             | Some w \<Rightarrow> k \<in> K \<and> (\<exists>v. object_value E i k = Some (Inr v) \<and> matches E f v w)))"

definition image_of :: "ser_env \<Rightarrow> (nat \<Rightarrow> nat option) \<Rightarrow> nat \<Rightarrow> out_object \<Rightarrow> bool" where
  "image_of E f i x \<longleftrightarrow>
     (case so_kind (se_heap E i) of
        ArrayObject vs \<Rightarrow> image_items E f vs x
      | _ \<Rightarrow> image_properties E f i (set (object_keys E i)) x)"

fun out_refs :: "out_object \<Rightarrow> nat set" where
  "out_refs (OutArray ws) = {r. OutRef r \<in> set ws}"
| "out_refs (OutRecord m) = {r. OutRef r \<in> ran (js_get m)}"

definition edges :: "out_object list \<Rightarrow> (nat \<times> nat) set" where
  "edges out = {(p, r). p < length out \<and> r \<in> out_refs (out ! p)}"

lemma matches_mono: "f \<subseteq>\<^sub>m g \<Longrightarrow> matches E f v w \<Longrightarrow> matches E g v w"
  by (cases v) (auto simp: map_le_def dom_def split: if_splits)

lemma image_items_mono: "f \<subseteq>\<^sub>m g \<Longrightarrow> image_items E f vs x \<Longrightarrow> image_items E g vs x"
  by (auto simp: image_items_def intro: list.rel_mono_strong matches_mono)

lemma image_properties_mono: "f \<subseteq>\<^sub>m g \<Longrightarrow> image_properties E f i K x \<Longrightarrow> image_properties E g i K x"
  unfolding image_properties_def by (fastforce intro: matches_mono split: option.splits)

lemma image_of_mono: "f \<subseteq>\<^sub>m g \<Longrightarrow> image_of E f i x \<Longrightarrow> image_of E g i x"
  by (auto simp: image_of_def intro: image_items_mono image_properties_mono split: object_kind.splits)

definition walk_ok :: "ser_env \<Rightarrow> ser_context \<Rightarrow> bool" where
  "walk_ok E s \<longleftrightarrow>
     metadata_current E s \<and>
     (\<forall>i j a b r. js_get (sc_references s) i = Some (a, r) \<longrightarrow> js_get (sc_references s) j = Some (b, r) \<longrightarrow> i = j) \<and>
     (\<forall>i a r. js_get (sc_references s) i = Some (a, r) \<longrightarrow> r < length (sc_out s)) \<and>
     (\<forall>r < length (sc_out s). \<exists>i a. js_get (sc_references s) i = Some (a, r)) \<and>
     (\<forall>p r. (p, r) \<in> edges (sc_out s) \<longrightarrow> (\<exists>j. js_get (sc_references s) j = Some (False, r))) \<and>
     acyclic (edges (sc_out s)) \<and>
     (\<forall>j r. js_get (sc_references s) j = Some (False, r) \<longrightarrow> image_of E (made s) j (sc_out s ! r))"

lemma walk_okI:
  assumes "metadata_current E s"
    and "\<And>i j a b r. js_get (sc_references s) i = Some (a, r) \<Longrightarrow> js_get (sc_references s) j = Some (b, r) \<Longrightarrow> i = j"
    and "\<And>i a r. js_get (sc_references s) i = Some (a, r) \<Longrightarrow> r < length (sc_out s)"
    and "\<And>r. r < length (sc_out s) \<Longrightarrow> \<exists>i a. js_get (sc_references s) i = Some (a, r)"
    and "\<And>p r. (p, r) \<in> edges (sc_out s) \<Longrightarrow> \<exists>j. js_get (sc_references s) j = Some (False, r)"
    and "acyclic (edges (sc_out s))"
    and "\<And>j r. js_get (sc_references s) j = Some (False, r) \<Longrightarrow> image_of E (made s) j (sc_out s ! r)"
  shows "walk_ok E s"
  unfolding walk_ok_def by (intro conjI allI impI) (fact assms(1), erule (1) assms(2), erule assms(3), erule assms(4),
    erule assms(5), fact assms(6), erule assms(7))

lemma walk_okD:
  assumes "walk_ok E s"
  shows "(p, r) \<in> edges (sc_out s) \<Longrightarrow> \<exists>j. js_get (sc_references s) j = Some (False, r)"
    and "r < length (sc_out s) \<Longrightarrow> \<exists>j a. js_get (sc_references s) j = Some (a, r)"
  using assms by (simp_all add: walk_ok_def)

text \<open>What a part of the walk may change: it adds objects and completes what it starts.\<close>

definition walk_extends :: "nat set \<Rightarrow> ser_context \<Rightarrow> ser_context \<Rightarrow> bool" where
  "walk_extends X s s' \<longleftrightarrow>
     length (sc_out s) \<le> length (sc_out s') \<and>
     (\<forall>p < length (sc_out s). p \<notin> X \<longrightarrow> sc_out s' ! p = sc_out s ! p) \<and>
     (\<forall>i x. js_get (sc_references s) i = Some x \<longrightarrow> js_get (sc_references s') i = Some x) \<and>
     (\<forall>i r. js_get (sc_references s) i = None \<longrightarrow> js_get (sc_references s') i \<noteq> Some (True, r))"

lemma walk_extends_refl [simp]: "walk_extends X s s"
  by (simp add: walk_extends_def)

lemma walk_extends_trans:
  assumes "walk_extends X s t" and "walk_extends X t u"
  shows "walk_extends X s u"
proof -
  have "js_get (sc_references u) i \<noteq> Some (True, r)" if "js_get (sc_references s) i = None" for i r
  proof (cases "js_get (sc_references t) i")
    case (Some x)
    then have "x \<noteq> (True, r)" and "js_get (sc_references u) i = Some x"
      using assms that by (cases x; auto simp: walk_extends_def)+
    then show ?thesis by simp
  qed (use assms(2) in \<open>simp add: walk_extends_def\<close>)
  then show ?thesis
    using assms by (simp add: walk_extends_def)
qed

lemma walk_extends_mono: "walk_extends X s t \<Longrightarrow> X \<subseteq> Y \<Longrightarrow> walk_extends Y s t"
  by (auto simp: walk_extends_def)

lemma made_extends: "walk_extends X s s' \<Longrightarrow> made s \<subseteq>\<^sub>m made s'"
  by (fastforce simp: walk_extends_def made_def map_le_def dom_def split: option.splits bool.splits)

lemma made_iff: "made s i = Some r \<longleftrightarrow> js_get (sc_references s) i = Some (False, r)"
  by (auto simp: made_def split: option.splits bool.splits)

text \<open>All active objects lead to a value.\<close>

definition actives_above :: "ser_env \<Rightarrow> ser_context \<Rightarrow> ser_value \<Rightarrow> bool" where
  "actives_above E s v \<longleftrightarrow>
     (\<forall>i j r. v = Ref i \<longrightarrow> js_get (sc_references s) j = Some (True, r) \<longrightarrow> (j, i) \<in> (child E)\<^sup>+)"

lemma actives_above_extends: "walk_extends X s s' \<Longrightarrow> actives_above E s v \<Longrightarrow> actives_above E s' v"
  unfolding walk_extends_def actives_above_def
  by (intro allI impI, metis option.exhaust)

text \<open>Adding a value to an active object: nothing leads to it yet, so no cycle arises.\<close>

definition refers_to_made :: "ser_context \<Rightarrow> out_value \<Rightarrow> bool" where
  "refers_to_made s w \<longleftrightarrow> (\<forall>r. w = OutRef r \<longrightarrow> (\<exists>j. made s j = Some r))"

lemma matches_refers: "matches E (made s) v w \<Longrightarrow> refers_to_made s w"
  by (cases v) (auto simp: refers_to_made_def split: if_splits)

lemma acyclic_new_edges:
  assumes "acyclic A" and "\<And>p. (p, x) \<notin> A" and "x \<notin> R"
  shows "acyclic (A \<union> {x} \<times> R)"
proof (rule acyclicI, intro allI notI)
  fix y
  have step: "(p, q) \<in> (A \<union> {x} \<times> R)\<^sup>+ \<Longrightarrow> q \<noteq> x \<and> (p \<noteq> x \<longrightarrow> (p, q) \<in> A\<^sup>+)" for p q
  proof (induction rule: trancl_induct)
    case (base q)
    then show ?case using assms(2,3) by auto
  next
    case (step q u)
    then show ?case using assms(2,3) by (auto intro: trancl_into_trancl)
  qed
  assume "(y, y) \<in> (A \<union> {x} \<times> R)\<^sup>+"
  then show False
    using step assms(1) by (auto simp: acyclic_def)
qed

lemma walk_ok_edit:
  assumes ok: "walk_ok E t" and active: "js_get (sc_references t) i = Some (True, r)" and w: "refers_to_made t w"
    and x: "out_refs x \<subseteq> out_refs (sc_out t ! r) \<union> {c. w = OutRef c}"
  shows "walk_ok E (t\<lparr>sc_out := (sc_out t)[r := x]\<rparr>)"
proof -
  let ?t = "t\<lparr>sc_out := (sc_out t)[r := x]\<rparr>" and ?R = "{c. w = OutRef c}"
  have r: "r < length (sc_out t)"
    using ok active by (auto simp: walk_ok_def)
  have target: "\<exists>j. js_get (sc_references t) j = Some (False, c)" if "(p, c) \<in> edges (sc_out t) \<or> c \<in> ?R" for p c
    using that ok w by (auto simp: walk_ok_def refers_to_made_def made_iff)
  have not_r: "c \<noteq> r" if "js_get (sc_references t) j = Some (False, c)" for j c
  proof
    assume "c = r"
    then have "j = i"
      using ok that active unfolding walk_ok_def by blast
    then show False
      using that active by simp
  qed
  have sub: "edges (sc_out ?t) \<subseteq> edges (sc_out t) \<union> {r} \<times> ?R"
    using x r by (auto simp: edges_def nth_list_update split: if_splits)
  have "acyclic (edges (sc_out t) \<union> {r} \<times> ?R)"
    using ok target not_r by (intro acyclic_new_edges) (auto simp: walk_ok_def)
  then have "acyclic (edges (sc_out ?t))"
    by (rule acyclic_subset) (rule sub)
  moreover have "\<exists>j. js_get (sc_references ?t) j = Some (False, c)" if "(p, c) \<in> edges (sc_out ?t)" for p c
    using that sub target [of p c] by auto
  moreover have "made ?t = made t"
    by (simp add: made_def fun_eq_iff)
  moreover have "image_of E (made t) j (sc_out ?t ! c)" if "js_get (sc_references t) j = Some (False, c)" for j c
    using that ok not_r [OF that] by (simp add: walk_ok_def)
  ultimately show ?thesis
    using ok by (simp add: walk_ok_def metadata_current_def)
qed

lemma walk_extends_edit: "walk_extends {r} t (t\<lparr>sc_out := (sc_out t)[r := x]\<rparr>)"
  by (simp add: walk_extends_def)

lemma made_edit [simp]: "made (t\<lparr>sc_out := out\<rparr>) = made t"
  by (simp add: made_def fun_eq_iff)

definition walks :: "ser_env \<Rightarrow> (ser_value \<Rightarrow> out_value walk) \<Rightarrow> ser_value \<Rightarrow> bool" where
  "walks E rec v \<longleftrightarrow>
     (\<forall>s w s'. walk_ok E s \<longrightarrow> actives_above E s v \<longrightarrow> rec v s = Some (Inr w, s') \<longrightarrow>
        walk_ok E s' \<and> walk_extends {} s s' \<and> matches E (made s') v w)"

lemma assign_get [simp]: "js_get (assign_serialized_property k w m) = (js_get m)(k \<mapsto> w)"
  by (simp add: assign_serialized_property_def ordinary_assign_def fun_eq_iff)

lemma fill_items_ok:
  assumes "\<And>v. v \<in> set vs \<Longrightarrow> walks E rec v" "\<And>v. v \<in> set vs \<Longrightarrow> actives_above E s v" and "walk_ok E s"
    and "js_get (sc_references s) i = Some (True, r)" "image_items E (made s) us (sc_out s ! r)"
    and "fill_items rec vs r s = Some (Inr (), s')"
  shows "walk_ok E s' \<and> walk_extends {r} s s' \<and> image_items E (made s') (us @ vs) (sc_out s' ! r)"
  using assms
proof (induction vs arbitrary: s us)
  case (Cons v vs)
  obtain w t where rec: "rec v s = Some (Inr w, t)" and rest: "fill_items rec vs r (push_item r w t) = Some (Inr (), s')"
    using Cons.prems(6) by (auto split: option.splits sum.splits)
  have t: "walk_ok E t" "walk_extends {} s t" "matches E (made t) v w"
    using Cons.prems(1) [of v] Cons.prems(2) [of v] Cons.prems(3) rec by (auto simp: walks_def)
  have r: "r < length (sc_out s)"
    using Cons.prems(3,4) by (auto simp: walk_ok_def)
  obtain ws where ws: "sc_out s ! r = OutArray ws" "list_all2 (matches E (made s)) us ws"
    using Cons.prems(5) by (auto simp: image_items_def)
  have out_t: "sc_out t ! r = OutArray ws" and active: "js_get (sc_references t) i = Some (True, r)" and len: "r < length (sc_out t)"
    using t(2) ws(1) r Cons.prems(4) by (auto simp: walk_extends_def)
  have push: "push_item r w t = t\<lparr>sc_out := (sc_out t)[r := OutArray (ws @ [w])]\<rparr>"
    by (simp add: push_item_def out_t)
  have ok: "walk_ok E (push_item r w t)"
    unfolding push by (rule walk_ok_edit [OF t(1) active matches_refers [OF t(3)]]) (auto simp: out_t)
  have ext: "walk_extends {r} s (push_item r w t)"
    unfolding push using walk_extends_mono [OF t(2)] walk_extends_edit by (blast intro: walk_extends_trans)
  have "list_all2 (matches E (made t)) (us @ [v]) (ws @ [w])"
    using ws(2) t(3) made_extends [OF t(2)] by (auto intro!: list_all2_appendI intro: list.rel_mono_strong matches_mono)
  then have image: "image_items E (made (push_item r w t)) (us @ [v]) (sc_out (push_item r w t) ! r)"
    unfolding push using len by (simp add: image_items_def)
  have "walk_ok E s' \<and> walk_extends {r} (push_item r w t) s' \<and> image_items E (made s') ((us @ [v]) @ vs) (sc_out s' ! r)"
    using Cons.prems(1,2) ok ext image rest active
    by (intro Cons.IH) (auto intro: actives_above_extends [OF ext])
  then show ?case
    using ext by (auto intro: walk_extends_trans)
qed simp

lemma fill_properties_ok:
  assumes "\<And>k v. k \<in> set ks \<Longrightarrow> object_value E i k = Some (Inr v) \<Longrightarrow> walks E rec v \<and> actives_above E s v"
    and "walk_ok E s" "js_get (sc_references s) i = Some (True, r)" "image_properties E (made s) i K (sc_out s ! r)"
    and "fill_properties rec (object_value E i) ks r s = Some (Inr (), s')"
  shows "walk_ok E s' \<and> walk_extends {r} s s' \<and> image_properties E (made s') i (K \<union> set ks) (sc_out s' ! r)"
  using assms
proof (induction ks arbitrary: s K)
  case (Cons k ks)
  obtain m where m: "sc_out s ! r = OutRecord m"
    and image: "case js_get m j of None \<Rightarrow> j \<in> K \<longrightarrow> object_value E i j = None
       | Some w \<Rightarrow> j \<in> K \<and> (\<exists>v. object_value E i j = Some (Inr v) \<and> matches E (made s) v w)" for j
    using Cons.prems(4) by (auto simp: image_properties_def)
  show ?case
  proof (cases "object_value E i k")
    case None
    have "image_properties E (made s) i (insert k K) (sc_out s ! r)"
      unfolding image_properties_def m
    proof (intro exI [of _ m] conjI allI refl)
      fix j
      show "case js_get m j of None \<Rightarrow> j \<in> insert k K \<longrightarrow> object_value E i j = None
         | Some w \<Rightarrow> j \<in> insert k K \<and> (\<exists>v. object_value E i j = Some (Inr v) \<and> matches E (made s) v w)"
        using image [of j] None by (auto split: option.splits)
    qed
    then have "walk_ok E s' \<and> walk_extends {r} s s' \<and> image_properties E (made s') i (insert k K \<union> set ks) (sc_out s' ! r)"
      using Cons.prems None by (intro Cons.IH) auto
    then show ?thesis by simp
  next
    case (Some y)
    then obtain v where v: "object_value E i k = Some (Inr v)"
      using Cons.prems(5) by (cases y) auto
    then obtain w t where rec: "rec v s = Some (Inr w, t)"
      and rest: "fill_properties rec (object_value E i) ks r (set_property r k w t) = Some (Inr (), s')"
      using Cons.prems(5) by (auto split: option.splits sum.splits)
    have t: "walk_ok E t" "walk_extends {} s t" "matches E (made t) v w"
      using Cons.prems(1) [OF _ v] Cons.prems(2) rec by (auto simp: walks_def)
    have r: "r < length (sc_out s)"
      using Cons.prems(2,3) by (auto simp: walk_ok_def)
    have out_t: "sc_out t ! r = OutRecord m" and active: "js_get (sc_references t) i = Some (True, r)" and len: "r < length (sc_out t)"
      using t(2) m r Cons.prems(3) by (auto simp: walk_extends_def)
    let ?m = "assign_serialized_property k w m"
    have edit: "set_property r k w t = t\<lparr>sc_out := (sc_out t)[r := OutRecord ?m]\<rparr>"
      by (simp add: set_property_def out_t)
    have ok: "walk_ok E (set_property r k w t)"
      unfolding edit by (rule walk_ok_edit [OF t(1) active matches_refers [OF t(3)]]) (auto simp: out_t ran_def)
    have ext: "walk_extends {r} s (set_property r k w t)"
      unfolding edit using walk_extends_mono [OF t(2)] walk_extends_edit by (blast intro: walk_extends_trans)
    have "image_properties E (made (set_property r k w t)) i (insert k K) (sc_out (set_property r k w t) ! r)"
      unfolding edit image_properties_def made_edit
    proof (intro exI [of _ ?m] conjI allI)
      fix j
      show "case js_get ?m j of None \<Rightarrow> j \<in> insert k K \<longrightarrow> object_value E i j = None
         | Some w \<Rightarrow> j \<in> insert k K \<and> (\<exists>v. object_value E i j = Some (Inr v) \<and> matches E (made t) v w)"
        using image [of j] v t(3) matches_mono [OF made_extends [OF t(2)]] by (auto split: option.splits)
    qed (use len in simp)
    then have "walk_ok E s' \<and> walk_extends {r} (set_property r k w t) s' \<and> image_properties E (made s') i (insert k K \<union> set ks) (sc_out s' ! r)"
      using Cons.prems(1) ok rest active
      by (intro Cons.IH) (auto intro: actives_above_extends [OF ext])
    then show ?thesis
      using ext by (auto intro: walk_extends_trans)
  qed
qed simp

text \<open>Starting and completing an object.\<close>

lemma walk_ok_start:
  assumes ok: "walk_ok E s" and new: "js_get (sc_references s) i = None"
  shows "walk_ok E (mark_serialization_start i (blank_object E i) s)"
proof -
  let ?s = "mark_serialization_start i (blank_object E i) s"
  have "out_refs (blank_object E i) = {}"
    by (simp add: blank_object_def split: object_kind.split)
  then have "edges (sc_out ?s) = edges (sc_out s)"
    by (auto simp: edges_def nth_append less_Suc_eq)
  moreover have "made ?s = made s"
    using new by (auto simp: made_def fun_eq_iff)
  moreover have below: "r < length (sc_out s)" if "js_get (sc_references s) j = Some (a, r)" for j a r
    using ok that by (auto simp: walk_ok_def)
  moreover have "image_of E (made s) j ((sc_out s @ [blank_object E i]) ! r)" if "js_get (sc_references s) j = Some (False, r)" for j r
    using ok that below [OF that] by (simp add: walk_ok_def nth_append)
  moreover have keep: "js_get (sc_references ?s) j = Some x" if "js_get (sc_references s) j = Some x" for j x
    using that new by auto
  moreover have "\<exists>j a. js_get (sc_references ?s) j = Some (a, q)" if "q < Suc (length (sc_out s))" for q
  proof (cases "q = length (sc_out s)")
    case True
    then have "js_get (sc_references ?s) i = Some (True, q)"
      by simp
    then show ?thesis by blast
  next
    case False
    then show ?thesis
      using that walk_okD(2) [OF ok, of q] keep by (metis less_SucE)
  qed
  moreover have "\<exists>j. js_get (sc_references ?s) j = Some (False, q)" if "(p, q) \<in> edges (sc_out s)" for p q
    using walk_okD(1) [OF ok that] keep by blast
  ultimately show ?thesis
    using ok new unfolding walk_ok_def
    by (simp add: less_Suc_eq) (auto dest: below)
qed

lemma walk_ok_complete:
  assumes ok: "walk_ok E s" and active: "js_get (sc_references s) i = Some (True, r)" and image: "image_of E (made s) i (sc_out s ! r)"
  shows "walk_ok E (mark_serialization_complete i s)"
proof -
  let ?s = "mark_serialization_complete i s"
  have same: "js_get (sc_references ?s) j = (if j = i then Some (False, r) else js_get (sc_references s) j)" for j
    using active by simp
  have "made s \<subseteq>\<^sub>m made ?s"
    using active by (auto simp: made_def map_le_def dom_def)
  then have images: "image_of E (made ?s) j (sc_out s ! q)" if "js_get (sc_references ?s) j = Some (False, q)" for j q
    using ok image that unfolding same walk_ok_def by (auto split: if_splits intro: image_of_mono)
  have targets: "\<exists>j. js_get (sc_references ?s) j = Some (False, q)" if e: "(p, q) \<in> edges (sc_out s)" for p q
  proof -
    obtain j where "js_get (sc_references s) j = Some (False, q)"
      using walk_okD(1) [OF ok e] ..
    then have "js_get (sc_references ?s) j = Some (False, q)"
      using active unfolding same by auto
    then show ?thesis ..
  qed
  have inj: "j = l" if "js_get (sc_references ?s) j = Some (a, q)" "js_get (sc_references ?s) l = Some (b, q)" for j l a b q
    using ok that active unfolding same walk_ok_def by (auto split: if_splits)
  have bound: "q < length (sc_out s)" if "js_get (sc_references ?s) j = Some (a, q)" for j a q
    using ok that active unfolding same walk_ok_def by (auto split: if_splits)
  have cover: "\<exists>j a. js_get (sc_references ?s) j = Some (a, q)" if q: "q < length (sc_out s)" for q
  proof -
    obtain j a where "js_get (sc_references s) j = Some (a, q)"
      using walk_okD(2) [OF ok q] by blast
    then have "js_get (sc_references ?s) j = Some (if j = i then False else a, q)"
      using active unfolding same by auto
    then show ?thesis by blast
  qed
  have rest: "metadata_current E ?s" "acyclic (edges (sc_out s))"
    using ok by (simp_all add: walk_ok_def)
  show ?thesis
    by (rule walk_okI; (simp only: mark_complete_simps(1))?)
      (fact rest(1), erule (1) inj, erule bound, erule cover, erule targets, fact rest(2), erule images)
qed

lemma fill_object_ok:
  assumes rec: "\<And>v. walks E rec v" and above: "\<And>v. v \<in> children E i \<Longrightarrow> actives_above E s v"
    and "walk_ok E s" "js_get (sc_references s) i = Some (True, r)" "sc_out s ! r = blank_object E i"
    and kind: "so_kind (se_heap E i) \<noteq> OpaqueObject" and fill: "fill_object E rec i r s = Some (Inr (), s')"
  shows "walk_ok E s' \<and> walk_extends {r} s s' \<and> image_of E (made s') i (sc_out s' ! r)"
proof (cases "\<exists>vs. so_kind (se_heap E i) = ArrayObject vs")
  case True
  then obtain vs where vs: "so_kind (se_heap E i) = ArrayObject vs" ..
  have "image_items E (made s) [] (sc_out s ! r)"
    using assms(5) vs by (simp add: image_items_def blank_object_def)
  then have "walk_ok E s' \<and> walk_extends {r} s s' \<and> image_items E (made s') ([] @ vs) (sc_out s' ! r)"
    using assms vs by (intro fill_items_ok [OF rec]) (auto simp: children_def fill_object_def)
  then show ?thesis
    using vs by (simp add: image_of_def)
next
  case False
  have "image_properties E (made s) i {} (sc_out s ! r)"
    using assms(5) False by (auto simp: image_properties_def blank_object_def split: object_kind.splits)
  moreover have "fill_properties rec (object_value E i) (object_keys E i) r s = Some (Inr (), s')"
    using fill False by (auto simp: fill_object_def split: object_kind.splits)
  moreover have "actives_above E s v" if "k \<in> set (object_keys E i)" "object_value E i k = Some (Inr v)" for k v
    using that above [of v] False kind by (cases "so_kind (se_heap E i)") (auto simp: children_def)
  ultimately have "walk_ok E s' \<and> walk_extends {r} s s' \<and> image_properties E (made s') i ({} \<union> set (object_keys E i)) (sc_out s' ! r)"
    using assms by (intro fill_properties_ok) auto
  then show ?thesis
    using False by (auto simp: image_of_def split: object_kind.splits)
qed

lemma walk_extends_tracked:
  assumes new: "js_get (sc_references s) i = None" and ext: "walk_extends {length (sc_out s)} (mark_serialization_start i b s) t"
  shows "walk_extends {} s (mark_serialization_complete i t)"
proof -
  let ?s = "mark_serialization_start i b s"
  have keep: "js_get (sc_references t) j = Some x" if "js_get (sc_references ?s) j = Some x" for j x
    using ext that unfolding walk_extends_def by blast
  have fresh: "js_get (sc_references t) j \<noteq> Some (True, r)" if "js_get (sc_references ?s) j = None" for j r
    using ext that unfolding walk_extends_def by blast
  have "sc_out t ! p = sc_out s ! p" if "p < length (sc_out s)" for p
    using ext that by (simp add: walk_extends_def nth_append)
  moreover have "js_get (sc_references (mark_serialization_complete i t)) j = Some x" if "js_get (sc_references s) j = Some x" for j x
    using keep [of j x] that new by auto
  moreover have "js_get (sc_references (mark_serialization_complete i t)) j \<noteq> Some (True, r)"
    if "js_get (sc_references s) j = None" for j r
    using fresh [of j r] that by auto
  ultimately show ?thesis
    using ext unfolding walk_extends_def by simp
qed

lemma serialize_internal_walks: "walks E (serialize_internal d E) v"
proof (induction d arbitrary: v)
  case 0
  then show ?case
    by (simp add: walks_def)
next
  case (Suc d)
  show ?case
    unfolding walks_def
  proof (intro allI impI)
    fix s w s'
    assume ok: "walk_ok E s" and above: "actives_above E s v" and run: "serialize_internal (Suc d) E v s = Some (Inr w, s')"
    show "walk_ok E s' \<and> walk_extends {} s s' \<and> matches E (made s') v w"
    proof (cases v)
      case (Ref i)
      have current: "metadata_current E s"
        using ok by (simp add: walk_ok_def)
      let ?s = "after_cache E i s"
      have "made ?s = made s"
        by (simp add: made_def fun_eq_iff)
      then have ok': "walk_ok E ?s" and ext: "walk_extends {} s ?s"
        using ok current by (simp_all add: walk_ok_def walk_extends_def)
      have above': "actives_above E ?s v"
        using above by (simp add: actives_above_def)
      consider (opaque) "so_kind (se_heap E i) = OpaqueObject" | (old) a r where "so_kind (se_heap E i) \<noteq> OpaqueObject"
          "js_get (sc_references ?s) i = Some (a, r)" | (new) "so_kind (se_heap E i) \<noteq> OpaqueObject" "js_get (sc_references ?s) i = None"
        by (cases "js_get (sc_references ?s) i") fastforce+
      then show ?thesis
      proof cases
        case opaque
        then show ?thesis
          using ok run unfolding Ref serialize_internal_ref [OF current] by auto
      next
        case old
        then have "w = (if a then OutUndefined else OutRef r)" "s' = ?s"
          using run unfolding Ref serialize_internal_ref [OF current]
          by (auto simp: serialize_with_tracked_reference_def)
        then show ?thesis
          using ok' ext old above' by (auto simp: Ref made_iff actives_above_def)
      next
        case new
        let ?r = "length (sc_out ?s)" and ?t = "mark_serialization_start i (blank_object E i) ?s"
        obtain t where fill: "fill_object E (serialize_internal d E) i ?r ?t = Some (Inr (), t)"
          and w: "w = OutRef ?r" "s' = mark_serialization_complete i t"
          using run new unfolding Ref serialize_internal_ref [OF current]
          by (auto simp: serialize_with_tracked_reference_def Let_def split: option.splits sum.splits)
        have "actives_above E ?t u" if "u \<in> children E i" for u
          using that above' unfolding actives_above_def Ref
          by (auto simp: child_def intro: trancl_into_trancl split: if_splits)
        then have t: "walk_ok E t" "walk_extends {?r} ?t t" "image_of E (made t) i (sc_out t ! ?r)"
          using fill_object_ok [OF Suc.IH _ walk_ok_start [OF ok' new(2)] _ _ new(1) fill] by auto
        have i: "js_get (sc_references t) i = Some (True, ?r)"
          using t(2) by (auto simp: walk_extends_def)
        have "made s' i = Some ?r"
          using i by (simp add: w made_iff)
        then show ?thesis
          using walk_ok_complete [OF t(1) i t(3)] walk_extends_tracked [OF new(2) t(2)] ext w new(1)
          by (auto simp: Ref intro: walk_extends_trans)
      qed
    qed (use ok run in \<open>auto simp: serialize_internal.simps(2)\<close>)
  qed
qed

text \<open>C19. Whatever the input and its cycles: the result has no cycles; every object of it stands for
  exactly one object of the input and has exactly the properties, or items, that object gives
  under its metadata; and a property is \<open>undefined\<close> for an object only where that object can
  reach itself.\<close>

theorem serialize_image:
  assumes "serialize d E v = Some (Inr w, s)"
  shows "acyclic (edges (sc_out s)) \<and> matches E (made s) v w \<and> inj_on (made s) (dom (made s)) \<and>
    ran (made s) = {..<length (sc_out s)} \<and> (\<forall>i r. made s i = Some r \<longrightarrow> image_of E (made s) i (sc_out s ! r))"
proof -
  have "walk_ok E empty_context" "actives_above E empty_context v"
    by (simp_all add: walk_ok_def metadata_current_def empty_context_def edges_def actives_above_def wf_acyclic)
  then have ok: "walk_ok E s" and ext: "walk_extends {} empty_context s" and w: "matches E (made s) v w"
    using serialize_internal_walks [of E d v] assms by (auto simp: walks_def serialize_def)
  have complete: "a = False" if "js_get (sc_references s) i = Some (a, r)" for i a r
    using ext that by (cases a) (auto simp: walk_extends_def empty_context_def)
  have "inj_on (made s) (dom (made s))"
  proof (rule inj_onI)
    fix i j assume "i \<in> dom (made s)" "made s i = made s j"
    then obtain r where "made s i = Some r" "made s j = Some r"
      by (metis domD)
    then show "i = j"
      using ok unfolding made_iff walk_ok_def by blast
  qed
  moreover have "ran (made s) = {..<length (sc_out s)}"
  proof (intro set_eqI iffI)
    fix r assume "r \<in> {..<length (sc_out s)}"
    then obtain i a where "js_get (sc_references s) i = Some (a, r)"
      using walk_okD(2) [OF ok] by blast
    then have "made s i = Some r"
      using complete [of i a r] by (simp add: made_iff)
    then show "r \<in> ran (made s)"
      by (rule ranI)
  qed (use ok in \<open>auto simp: ran_def made_iff walk_ok_def\<close>)
  ultimately show ?thesis
    using ok w by (simp add: walk_ok_def made_iff)
qed

section \<open>Excluded fields\<close>

definition excluded_in :: "bags \<Rightarrow> nat \<Rightarrow> property_key \<Rightarrow> bool" where
  "excluded_in W c k \<longleftrightarrow>
     js_has W c \<and> (\<exists>own m. mb_fields (bag_of W c) = Some own \<and> js_get own k = Some m \<and> is_excluded m)"

definition never_included :: "field_map \<Rightarrow> bool" where
  "never_included own \<longleftrightarrow> (\<forall>(k, m) \<in> set own. fm_excluded m \<noteq> Some False)"

definition bags_ok :: "bags \<Rightarrow> bool" where
  "bags_ok W \<longleftrightarrow> (\<forall>c own. mb_fields (bag_of W c) = Some own \<longrightarrow> never_included own)"

lemma bag_of_set: "bag_of (js_set c b W) d = (if d = c then b else bag_of W d)"
  by (simp add: bag_of_def)

lemma touch_bag_simps [simp]: "bag_of (touch_bag c W) = bag_of W" "js_has (touch_bag c W) d \<longleftrightarrow> d = c \<or> js_has W d"
  by (auto simp: touch_bag_def bag_of_set fun_eq_iff)

lemma excluded_in_touch: "excluded_in W d k \<Longrightarrow> excluded_in (touch_bag c W) d k"
  by (simp add: excluded_in_def)

definition keeps_exclusion :: "(field_metadata option \<Rightarrow> field_metadata) \<Rightarrow> bool" where
  "keeps_exclusion f \<longleftrightarrow> (\<forall>m. fm_excluded (f m) = Some True \<or> fm_excluded (f m) = fm_excluded (current_or_empty m))"

lemma excluded_in_update_field:
  "keeps_exclusion f \<Longrightarrow> excluded_in W d k \<Longrightarrow> excluded_in (update_field_serialization_metadata supers c j f W) d k"
  by (fastforce simp: excluded_in_def update_field_serialization_metadata_def Let_def bag_of_set is_excluded_def
      keeps_exclusion_def current_or_empty_def)

lemma excluded_in_update_class:
  "excluded_in W d k \<Longrightarrow> excluded_in (update_class_serialization_options supers c b W) d k"
  by (auto simp: excluded_in_def update_class_serialization_options_def Let_def bag_of_set)

lemma decorators_keep_exclusion:
  "keeps_exclusion (\<lambda>m. (current_or_empty m)\<lparr>fm_exposed := e\<rparr>)"
  "keeps_exclusion (\<lambda>m. (current_or_empty m)\<lparr>fm_excluded := Some True\<rparr>)"
  "keeps_exclusion (\<lambda>m. (current_or_empty m)\<lparr>fm_transforms := t m\<rparr>)"
  by (simp_all add: keeps_exclusion_def)

lemma excluded_in_apply: "excluded_in W d k \<Longrightarrow> excluded_in (apply_decorator supers x W) d k"
  by (cases x) (simp_all add: excluded_in_touch excluded_in_update_field excluded_in_update_class decorators_keep_exclusion
      split: option.split)

lemma bags_ok_update_field:
  assumes "keeps_exclusion f" and "bags_ok W"
  shows "bags_ok (update_field_serialization_metadata supers c k f W)"
proof -
  define owner where "owner = (case fields_owner supers W c of None \<Rightarrow> c | Some d \<Rightarrow> d)"
  define own where "own = (case mb_fields (bag_of W owner) of None \<Rightarrow> [] | Some m \<Rightarrow> m)"
  have own: "never_included own"
    using assms(2) by (cases "mb_fields (bag_of W owner)") (auto simp: own_def bags_ok_def never_included_def)
  have "fm_excluded (f (js_get own k)) \<noteq> Some False"
  proof -
    have "fm_excluded (current_or_empty (js_get own k)) \<noteq> Some False"
      using own by (auto simp: current_or_empty_def no_field_metadata_def never_included_def dest: map_of_SomeD split: option.split)
    then show ?thesis
      using assms(1) unfolding keeps_exclusion_def by (metis option.inject)
  qed
  then have "never_included (js_set k (f (js_get own k)) own)"
    using own js_set_subset [of k "f (js_get own k)" own] by (auto simp: never_included_def)
  then show ?thesis
    using assms(2) by (auto simp: bags_ok_def update_field_serialization_metadata_def Let_def bag_of_set owner_def [symmetric] own_def [symmetric])
qed

lemma bags_ok_touch [simp]: "bags_ok (touch_bag c W) = bags_ok W"
  by (simp add: bags_ok_def)

lemma bags_ok_update_class: "bags_ok W \<Longrightarrow> bags_ok (update_class_serialization_options supers c b W)"
  by (auto simp: bags_ok_def update_class_serialization_options_def Let_def bag_of_set)

lemma bags_ok_apply: "bags_ok W \<Longrightarrow> bags_ok (apply_decorator supers x W)"
  by (cases x) (simp_all add: bags_ok_update_field bags_ok_update_class decorators_keep_exclusion split: option.split)

lemma bags_ok_run: "bags_ok (run_decorators supers ds)"
proof -
  have "bags_ok W \<Longrightarrow> bags_ok (fold (apply_decorator supers) ds W)" for W
    by (induction ds arbitrary: W) (auto intro: bags_ok_apply)
  moreover have "bags_ok []"
    by (simp add: bags_ok_def bag_of_def)
  ultimately show ?thesis
    by (simp add: run_decorators_def)
qed

text \<open>The lineage of a class starts with it, and goes on with that of its superclass.\<close>

definition lineages_ok :: "(nat \<Rightarrow> nat list) \<Rightarrow> bool" where
  "lineages_ok supers \<longleftrightarrow> (\<forall>c. \<exists>rest. supers c = c # rest \<and> (\<forall>d \<in> set rest. set (supers d) \<subseteq> set rest))"

lemma lineages_ok_self: "lineages_ok supers \<Longrightarrow> \<exists>rest. supers c = c # rest"
  by (auto simp: lineages_ok_def)

lemma lineages_ok_trans: "lineages_ok supers \<Longrightarrow> c \<in> set (supers d) \<Longrightarrow> b \<in> set (supers c) \<Longrightarrow> b \<in> set (supers d)"
  unfolding lineages_ok_def by (metis list.set_intros(2) set_ConsD subsetD)

lemma excluded_in_run:
  assumes "ExcludeField c k \<in> set ds" and "lineages_ok supers"
  shows "\<exists>b \<in> set (supers c). excluded_in (run_decorators supers ds) b k"
proof -
  obtain before after where ds: "ds = before @ ExcludeField c k # after"
    using assms(1) by (meson split_list)
  define W where "W = touch_bag c (fold (apply_decorator supers) before [])"
  define b where "b = (case fields_owner supers W c of None \<Rightarrow> c | Some d \<Rightarrow> d)"
  have "b \<in> set (supers c)"
    using lineages_ok_self [OF assms(2), of c]
    by (auto simp: b_def fields_owner_def find_Some_iff in_set_conv_nth split: option.split)
  moreover have "excluded_in (apply_decorator supers (ExcludeField c k) (fold (apply_decorator supers) before [])) b k"
    by (simp add: excluded_in_def update_field_serialization_metadata_def Let_def W_def [symmetric] b_def [symmetric]
        bag_of_set is_excluded_def)
  moreover have "excluded_in W b k \<Longrightarrow> excluded_in (fold (apply_decorator supers) after W) b k" for W
    by (induction after arbitrary: W) (auto intro: excluded_in_apply)
  ultimately show ?thesis
    by (auto simp: run_decorators_def ds)
qed

definition excluded_by :: "field_map \<Rightarrow> property_key \<Rightarrow> bool" where
  "excluded_by own k \<longleftrightarrow> (\<exists>m. js_get own k = Some m \<and> is_excluded m)"

lemma merge_field_excluded:
  "fm_excluded m \<noteq> Some False \<Longrightarrow> is_excluded m \<or> (\<exists>c. current = Some c \<and> is_excluded c) \<Longrightarrow>
   is_excluded (merge_field_metadata current m)"
  by (cases "fm_excluded m")
    (auto simp: merge_field_metadata_def is_excluded_def or_default_def current_or_empty_def Let_def)

lemma merge_fields_keeps: "never_included own \<Longrightarrow> excluded_by merged k \<Longrightarrow> excluded_by (merge_fields own merged) k"
proof (induction own arbitrary: merged)
  case (Cons e own)
  obtain j m where e: "e = (j, m)" by fastforce
  have "excluded_by (js_set j (merge_field_metadata (js_get merged j) m) merged) k"
    using Cons.prems by (auto simp: e excluded_by_def never_included_def intro: merge_field_excluded)
  then show ?case
    using Cons by (simp add: merge_fields_def never_included_def e)
qed (simp add: merge_fields_def)

lemma merge_fields_adds: "never_included own \<Longrightarrow> (k, m) \<in> set own \<Longrightarrow> is_excluded m \<Longrightarrow> excluded_by (merge_fields own merged) k"
proof (induction own arbitrary: merged)
  case (Cons e own)
  obtain j n where e: "e = (j, n)" by fastforce
  let ?merged = "js_set j (merge_field_metadata (js_get merged j) n) merged"
  have step: "merge_fields (e # own) merged = merge_fields own ?merged" and own: "never_included own"
    using Cons.prems(1) by (simp_all add: merge_fields_def never_included_def e)
  show ?case
  proof (cases "(k, m) = e")
    case True
    then have "excluded_by ?merged k"
      using Cons.prems by (auto simp: e excluded_by_def never_included_def intro: merge_field_excluded)
    then show ?thesis
      unfolding step by (rule merge_fields_keeps [OF own])
  next
    case False
    then show ?thesis
      unfolding step using Cons own by auto
  qed
qed simp

lemma merged_metadata_excludes:
  assumes lineage: "lineages_ok supers" and ok: "bags_ok W" and b: "b \<in> set (supers d)" "excluded_in W b k"
  shows "excluded_by (get_field_serialization_metadata supers W d) k"
proof -
  let ?f = "\<lambda>e merged. case fields_owner supers W e of None \<Rightarrow> merged
      | Some owner \<Rightarrow> (case mb_fields (bag_of W owner) of None \<Rightarrow> merged | Some own \<Rightarrow> merge_fields own merged)"
  have keeps: "excluded_by (fold ?f es merged) k" if "excluded_by merged k" for es merged
    using that
  proof (induction es arbitrary: merged)
    case (Cons e es)
    have "excluded_by (?f e merged) k"
      using Cons.prems ok by (auto simp: bags_ok_def intro: merge_fields_keeps split: option.split)
    then show ?case
      using Cons.IH by simp
  qed simp
  obtain own m where own: "mb_fields (bag_of W b) = Some own" "js_get own k = Some m" "is_excluded m" and has: "js_has W b"
    using b(2) by (auto simp: excluded_in_def)
  have "fields_owner supers W b = Some b"
    using lineages_ok_self [OF lineage, of b] own(1) by (auto simp: fields_owner_def)
  moreover have "never_included own"
    using ok own(1) by (simp add: bags_ok_def)
  ultimately have adds: "excluded_by (?f b merged) k" for merged
    using own by (auto intro: merge_fields_adds dest: map_of_SomeD)
  have "b \<in> set (get_constructor_metadata_bags supers W d)"
    using b(1) has by (simp add: get_constructor_metadata_bags_def)
  then obtain before after where "get_constructor_metadata_bags supers W d = before @ b # after"
    by (meson split_list)
  then show ?thesis
    unfolding get_field_serialization_metadata_def by (simp add: keeps adds)
qed

text \<open>C20. A field that a decorator of a class excludes is never in the result for an instance of the
  class or of a subclass, wherever in the graph the instance is, and whatever else is decorated.\<close>

theorem excluded_fields_absent:
  assumes "lineages_ok supers" and "ExcludeField c k \<in> set ds" and "c \<in> set (supers d)"
    and "se_metadata E = metadata_of supers (run_decorators supers ds)"
    and "so_kind (se_heap E i) = InstanceOf (Some d)"
    and "serialize depth E v = Some (Inr w, s)" and "made s i = Some r"
  shows "\<exists>m. sc_out s ! r = OutRecord m \<and> js_get m k = None"
proof -
  obtain b where b: "b \<in> set (supers c)" "excluded_in (run_decorators supers ds) b k"
    using excluded_in_run [OF assms(2,1)] by blast
  have "excluded_by (snd (se_metadata E d)) k"
    unfolding assms(4) metadata_of_def snd_conv
    by (rule merged_metadata_excludes [OF assms(1) bags_ok_run lineages_ok_trans [OF assms(1,3) b(1)] b(2)])
  then have "object_value E i k = None"
    using assms(5) by (auto simp: excluded_by_def object_value_def has_no_metadata_def field_value_def Let_def)
  moreover have "image_of E (made s) i (sc_out s ! r)"
    using serialize_image [OF assms(6)] assms(7) by blast
  ultimately obtain m where m: "sc_out s ! r = OutRecord m"
    and "case js_get m k of None \<Rightarrow> True | Some w \<Rightarrow> \<exists>v. None = Some (Inr v :: (nat, ser_value) result)"
    using assms(5) by (fastforce simp: image_of_def image_properties_def split: option.splits)
  then show ?thesis
    by (auto split: option.splits)
qed

text \<open>A class 1 with a subclass 2, whose only metadata is its superclass's.\<close>

definition two_classes :: "nat \<Rightarrow> nat list" where
  "two_classes c = (if c = 2 then [2, 1] else [c])"

definition account_fields :: "ser_decorator list" where
  "account_fields = [ExcludeField 1 (Named ''password''), OtherDecorator 2]"

text \<open>Object 0 is an instance of class 2 with a name, a password and a reference to itself.\<close>

definition account_env :: ser_env where
  "account_env =
     \<lparr>se_heap = (\<lambda>i. \<lparr>so_kind = InstanceOf (Some 2), so_keys = [Named ''name'', Named ''password'', Named ''self''],
        so_read = (\<lambda>k. Inr (if k = Named ''self'' then Ref 0 else Scalar 7))\<rparr>),
      se_metadata = metadata_of two_classes (run_decorators two_classes account_fields)\<rparr>"

definition account_context :: ser_context where
  "account_context = snd (the (serialize 2 account_env (Ref 0)))"

lemma account_context:
  "sc_references account_context = [(0, False, 0)]"
  "sc_out account_context = [OutRecord [(Named ''name'', OutScalar 7), (Named ''self'', OutUndefined)]]"
  by code_simp+

lemma account_run: "serialize 2 account_env (Ref 0) = Some (Inr (OutRef 0), account_context)"
proof -
  have "map_option fst (serialize 2 account_env (Ref 0)) = Some (Inr (OutRef 0))"
    by code_simp
  then show ?thesis
    by (auto simp: account_context_def)
qed

lemma account_metadata:
  "se_metadata account_env 2 =
     (False, [(Named ''password'', \<lparr>fm_excluded = Some True, fm_exposed = None, fm_transforms = Some []\<rparr>)])"
  by (simp add: account_env_def metadata_of_def get_class_serialization_options_def get_field_serialization_metadata_def
      get_constructor_metadata_bags_def run_decorators_def account_fields_def two_classes_def touch_bag_def bag_of_def
      update_field_serialization_metadata_def fields_owner_def class_owner_def js_has_def merge_fields_def
      merge_field_metadata_def current_or_empty_def no_field_metadata_def or_default_def)

lemma account_children: "children account_env 0 \<subseteq> {Ref 0, Scalar 7}"
proof -
  have "so_kind (se_heap account_env 0) = InstanceOf (Some 2)"
    "so_read (se_heap account_env 0) k = Inr (if k = Named ''self'' then Ref 0 else Scalar 7)" for k
    by (simp_all add: account_env_def)
  then show ?thesis
    by (auto simp: children_def object_value_def has_no_metadata_def field_value_def account_metadata is_excluded_def
        split: if_splits)
qed

lemma two_classes_ok: "lineages_ok two_classes"
  by (simp add: lineages_ok_def two_classes_def)

theorem serialize_terminates_witness:
  "(\<exists>r. serialize 2 account_env (Ref 0) = Some r \<and> serialize 9 account_env (Ref 0) = Some r)"
proof -
  have "\<exists>r. \<forall>d > card {0::nat}. serialize d account_env (Ref 0) = Some r"
    using account_children by (intro serialize_terminates) (auto simp: within_def child_def)
  then obtain r where r: "serialize d account_env (Ref 0) = Some r" if "1 < d" for d
    by auto
  show ?thesis
    using r [of 2] r [of 9] by auto
qed

theorem serialize_image_witness:
  "acyclic (edges [OutRecord [(Named ''name'', OutScalar 7), (Named ''self'', OutUndefined)]]) \<and>
   ran (made account_context) = {..<1}"
  using serialize_image [OF account_run] unfolding account_context by simp

theorem excluded_fields_absent_witness:
  "\<exists>m. sc_out account_context ! 0 = OutRecord m \<and> js_get m (Named ''password'') = None"
proof -
  have "made account_context 0 = Some 0"
    by (simp add: made_def account_context)
  then show ?thesis
    by (intro excluded_fields_absent [OF two_classes_ok, of 1 _ account_fields 2 account_env 0, OF _ _ _ _ account_run])
      (simp_all add: account_fields_def account_env_def two_classes_def)
qed

section \<open>Defects\<close>

text \<open>A subclass's metadata object inherits from its superclass's, and is looked up like any other
  property: what a subclass decorates is written into the map of the superclass, and is excluded
  from instances of the superclass too.\<close>

theorem subclass_decorates_base:
  "map_option fm_excluded (js_get (get_field_serialization_metadata two_classes
      (run_decorators two_classes [ExposeField 1 (Named ''id''), ExcludeField 2 (Named ''email'')]) 1) (Named ''email'')) =
   Some (Some True)"
  by code_simp

text \<open>And the superclass's map is merged once for each class of the lineage that has a metadata
  object: a transform of the superclass runs twice for instances of a subclass with any decorator.\<close>

definition increment :: transform where
  "increment v = (case v of Scalar n \<Rightarrow> Inr (Scalar (n + 1)) | _ \<Rightarrow> Inr v)"

theorem inherited_transform_runs_twice:
  "map_option (\<lambda>m. map_option (\<lambda>ts. apply_transforms ts (Scalar 5)) (fm_transforms m))
     (js_get (get_field_serialization_metadata two_classes
        (run_decorators two_classes [TransformField 1 (Named ''price'') increment, OtherDecorator 2]) 2) (Named ''price'')) =
   Some (Some (Inr (Scalar 7)))"
  by code_simp

end
