(* ===== verification/Passport.thy ===== *)
theory Passport
  imports Jwt Js_String
begin

text \<open>
  Authentication of routes (\<open>packages/passport/src\<close>): what decorators declare for a
  controller and its methods, how the declarations are merged, the guard that enforces them,
  the strategy that reads tokens from cookies, and the linking of accounts. A strategy is code of
  the application, which may change the request context.
\<close>

section \<open>Requirements\<close>

text \<open>\<open>AuthRequirement\<close>: \<open>optional\<close> may be absent, and is explicitly undefined as \<open>Some None\<close>.\<close>

record auth_requirement =
  ar_strategy :: "string option"
  ar_optional :: "bool option option"
  ar_scopes :: "string list option"

fun normalize_scope_items :: "string list \<Rightarrow> string list \<Rightarrow> string list" where
  "normalize_scope_items [] seen = []"
| "normalize_scope_items (item # items) seen =
     (let scope = js_trim item in
      if scope = [] \<or> scope \<in> set seen then normalize_scope_items items seen
      else scope # normalize_scope_items items (scope # seen))"

definition normalize_declared_scopes :: "string list \<Rightarrow> string list option" where
  "normalize_declared_scopes scopes =
     (let normalized = normalize_scope_items scopes [] in if normalized = [] then None else Some normalized)"

definition scope_list :: "auth_requirement option \<Rightarrow> string list" where
  "scope_list r = (case r of None \<Rightarrow> [] | Some q \<Rightarrow> (case ar_scopes q of None \<Rightarrow> [] | Some s \<Rightarrow> s))"

text \<open>An empty strategy name counts as none.\<close>

definition has_strategy :: "auth_requirement \<Rightarrow> bool" where
  "has_strategy r \<longleftrightarrow> ar_strategy r \<noteq> None \<and> ar_strategy r \<noteq> Some []"

text \<open>The value of \<open>optional\<close>, absent or not.\<close>

definition optional_of :: "auth_requirement option \<Rightarrow> bool option" where
  "optional_of r = (case r of None \<Rightarrow> None | Some q \<Rightarrow> (case ar_optional q of None \<Rightarrow> None | Some b \<Rightarrow> b))"

definition strategy_of :: "auth_requirement option \<Rightarrow> string option" where
  "strategy_of r = (case r of None \<Rightarrow> None | Some q \<Rightarrow> ar_strategy q)"

definition merge_auth_requirements ::
  "auth_requirement option \<Rightarrow> auth_requirement option \<Rightarrow> auth_requirement option" where
  "merge_auth_requirements base extra =
     (if base = None \<and> extra = None then None
      else
        (let scopes = normalize_declared_scopes (scope_list base @ scope_list extra);
             optional =
               (case (case extra of None \<Rightarrow> None | Some e \<Rightarrow> ar_optional e) of
                  Some b \<Rightarrow> b
                | None \<Rightarrow>
                    if optional_of base = Some True \<and> (case extra of None \<Rightarrow> False | Some e \<Rightarrow> has_strategy e)
                    then Some False else optional_of base);
             strategy = or_else (strategy_of extra) (strategy_of base) in
         if (strategy = None \<or> strategy = Some []) \<and> scopes = None \<and> optional \<noteq> Some True then None
         else Some \<lparr>ar_strategy = strategy, ar_optional = Some optional, ar_scopes = scopes\<rparr>))"

definition normalize_requirement :: "auth_requirement option \<Rightarrow> auth_requirement option" where
  "normalize_requirement r =
     (case r of
        None \<Rightarrow> None
      | Some q \<Rightarrow>
          (let scopes = normalize_declared_scopes (scope_list r) in
           if \<not> has_strategy q \<and> scopes = None \<and> optional_of r \<noteq> Some True then None
           else Some \<lparr>ar_strategy = ar_strategy q, ar_optional = Some (optional_of r), ar_scopes = scopes\<rparr>))"

section \<open>Decorators\<close>

text \<open>
  The metadata objects of classes, each with that of the superclass as its prototype: a
  property is read from the nearest class of the lineage (\<open>supers\<close>, the class first) that
  has it. The map of a class's methods is shared with the subclasses that find it there.
\<close>

record auth_bag =
  ab_class :: "auth_requirement option"
  ab_methods :: "(string, auth_requirement) js_map option"

type_synonym auth_bags = "(nat, auth_bag) js_map"

definition auth_bag_of :: "auth_bags \<Rightarrow> nat \<Rightarrow> auth_bag" where
  "auth_bag_of W c = (case js_get W c of None \<Rightarrow> \<lparr>ab_class = None, ab_methods = None\<rparr> | Some b \<Rightarrow> b)"

definition class_requirement_in :: "auth_bags \<Rightarrow> nat list \<Rightarrow> auth_requirement option" where
  "class_requirement_in W lineage =
     (case List.find (\<lambda>d. ab_class (auth_bag_of W d) \<noteq> None) lineage of
        None \<Rightarrow> None | Some d \<Rightarrow> ab_class (auth_bag_of W d))"

definition methods_owner :: "auth_bags \<Rightarrow> nat list \<Rightarrow> nat option" where
  "methods_owner W lineage = List.find (\<lambda>d. ab_methods (auth_bag_of W d) \<noteq> None) lineage"

definition methods_in :: "auth_bags \<Rightarrow> nat list \<Rightarrow> (string, auth_requirement) js_map" where
  "methods_in W lineage =
     (case methods_owner W lineage of
        None \<Rightarrow> [] | Some d \<Rightarrow> (case ab_methods (auth_bag_of W d) of None \<Rightarrow> [] | Some m \<Rightarrow> m))"

text \<open>\<open>defineStandardAuthRequirement\<close> without and with a method.\<close>

definition define_class_requirement :: "nat list \<Rightarrow> nat \<Rightarrow> auth_requirement option \<Rightarrow> auth_bags \<Rightarrow> auth_bags" where
  "define_class_requirement lineage c requirement W =
     js_set c ((auth_bag_of W c)\<lparr>ab_class := merge_auth_requirements (class_requirement_in W lineage) requirement\<rparr>) W"

definition define_method_requirement :: "nat list \<Rightarrow> nat \<Rightarrow> string \<Rightarrow> auth_requirement \<Rightarrow> auth_bags \<Rightarrow> auth_bags" where
  "define_method_requirement lineage c name patch W =
     (let owner = (case methods_owner W lineage of None \<Rightarrow> c | Some d \<Rightarrow> d);
          methods = methods_in W lineage;
          methods' = (case merge_auth_requirements (js_get methods name) (Some patch) of
              None \<Rightarrow> js_delete name methods
            | Some r \<Rightarrow> js_set name r methods) in
      js_set owner ((auth_bag_of W owner)\<lparr>ab_methods := Some methods'\<rparr>) W)"

text \<open>\<open>getOwnAuthRequirement\<close>, where nothing was defined with \<open>defineAuthRequirement\<close>.\<close>

definition own_class_requirement :: "auth_bags \<Rightarrow> nat list \<Rightarrow> auth_requirement option" where
  "own_class_requirement W lineage = merge_auth_requirements None (normalize_requirement (class_requirement_in W lineage))"

definition own_method_requirement :: "auth_bags \<Rightarrow> nat list \<Rightarrow> string \<Rightarrow> auth_requirement option" where
  "own_method_requirement W lineage name =
     merge_auth_requirements None (normalize_requirement (js_get (methods_in W lineage) name))"

text \<open>The decorators; \<open>None\<close> for the method is the class itself, whose own metadata object is
  attached to it only after its decorators have run.\<close>

datatype auth_decorator =
    UseAuth string
  | UseOptionalAuth string
  | RequireScopes "string list"

fun patch_of :: "auth_decorator \<Rightarrow> auth_requirement" where
  "patch_of (UseAuth s) = \<lparr>ar_strategy = Some s, ar_optional = None, ar_scopes = None\<rparr>"
| "patch_of (UseOptionalAuth s) = \<lparr>ar_strategy = Some s, ar_optional = Some (Some True), ar_scopes = None\<rparr>"
| "patch_of (RequireScopes scopes) = \<lparr>ar_strategy = None, ar_optional = None, ar_scopes = Some scopes\<rparr>"

fun apply_auth_requirement ::
  "(nat \<Rightarrow> nat list) \<Rightarrow> nat \<times> string option \<times> auth_decorator \<Rightarrow> auth_bags \<Rightarrow> auth_bags" where
  "apply_auth_requirement supers (c, None, x) W =
     define_class_requirement (supers c) c
       (merge_auth_requirements (own_class_requirement W (tl (supers c))) (Some (patch_of x))) W"
| "apply_auth_requirement supers (c, Some name, x) W = define_method_requirement (supers c) c name (patch_of x) W"

definition declare_auth :: "(nat \<Rightarrow> nat list) \<Rightarrow> (nat \<times> string option \<times> auth_decorator) list \<Rightarrow> auth_bags" where
  "declare_auth supers ds = fold (apply_auth_requirement supers) ds []"

text \<open>\<open>getAuthRequirement\<close> of a method.\<close>

definition get_auth_requirement :: "(nat \<Rightarrow> nat list) \<Rightarrow> auth_bags \<Rightarrow> nat \<Rightarrow> string \<Rightarrow> auth_requirement option" where
  "get_auth_requirement supers W c name =
     merge_auth_requirements (own_class_requirement W (supers c)) (own_method_requirement W (supers c) name)"

section \<open>Strategies\<close>

text \<open>What a strategy returns: no object, an object with \<open>handled\<close> true and perhaps a principal, one
  with \<open>authenticated\<close> false, or any other object. A candidate for a principal is no record, or one
  with its fields; \<open>cd_claims\<close> says whether \<open>claims\<close> is a record.\<close>

record candidate =
  cd_subject :: claim
  cd_claims :: bool
  cd_issuer :: claim
  cd_audience :: claim
  cd_roles :: claim
  cd_scopes :: claim

datatype strategy_value =
    NoObject
  | Handled "candidate option option"
  | Unauthenticated
  | Object "candidate option"

datatype strategy_error = AuthenticationRequired | AuthenticationExpired | AuthenticationFailed | OtherThrown nat

datatype guard_error = Unauthorized | Forbidden | StrategyResolution | Propagated nat

record principal =
  pr_subject :: string
  pr_scopes :: "string list option"
  pr_candidate :: candidate

record guard_context =
  gc_principal :: "principal option"
  gc_committed :: bool

type_synonym strategy = "guard_context \<Rightarrow> (strategy_error, strategy_value) result \<times> guard_context"

fun is_string_array :: "claim \<Rightarrow> bool" where
  "is_string_array (ClaimList xs) = (None \<notin> set xs)"
| "is_string_array _ = False"

fun string_array :: "claim \<Rightarrow> string list option" where
  "string_array (ClaimList xs) = Some (List.map_filter id xs)"
| "string_array _ = None"

fun is_string :: "claim \<Rightarrow> bool" where
  "is_string (ClaimString s) = True"
| "is_string _ = False"

text \<open>\<open>isPrincipal\<close>, with the principal it is then.\<close>

definition as_principal :: "candidate option \<Rightarrow> principal option" where
  "as_principal cd =
     (case cd of
        None \<Rightarrow> None
      | Some d \<Rightarrow>
          (case cd_subject d of
             ClaimString (x # xs) \<Rightarrow>
               if cd_claims d \<and>
                  (cd_issuer d = ClaimAbsent \<or> is_string (cd_issuer d)) \<and>
                  (cd_audience d = ClaimAbsent \<or> is_string (cd_audience d) \<or> is_string_array (cd_audience d)) \<and>
                  (cd_roles d = ClaimAbsent \<or> is_string_array (cd_roles d)) \<and>
                  (cd_scopes d = ClaimAbsent \<or> is_string_array (cd_scopes d))
               then Some \<lparr>pr_subject = x # xs, pr_scopes = string_array (cd_scopes d), pr_candidate = d\<rparr>
               else None
           | _ \<Rightarrow> None))"

text \<open>\<open>resolvePrincipal\<close>; \<open>None\<close> for a falsy value.\<close>

fun resolve_principal :: "strategy_value \<Rightarrow> candidate option option" where
  "resolve_principal NoObject = None"
| "resolve_principal (Handled p) = p"
| "resolve_principal Unauthenticated = None"
| "resolve_principal (Object d) = Some d"

definition has_required_scopes :: "principal \<Rightarrow> string list \<Rightarrow> bool" where
  "has_required_scopes p scopes \<longleftrightarrow>
     list_all (\<lambda>s. case pr_scopes p of None \<Rightarrow> False | Some have \<Rightarrow> s \<in> set have) scopes"

section \<open>The guard\<close>

text \<open>\<open>AuthGuard.canActivate\<close> from the result of the strategy on.\<close>

definition accept_result ::
  "auth_requirement option \<Rightarrow> strategy_value \<Rightarrow> guard_context \<Rightarrow>
   (strategy_error + guard_error, unit) result \<times> guard_context" where
  "accept_result requirement v ctx =
     (let scopes = scope_list requirement in
      case resolve_principal v of
        None \<Rightarrow>
          (case v of
             Handled p \<Rightarrow> if gc_committed ctx then (Inr (), ctx) else (Inl (Inl AuthenticationFailed), ctx)
           | Unauthenticated \<Rightarrow>
               if optional_of requirement = Some True \<and> scopes = [] then (Inr (), ctx)
               else (Inl (Inl AuthenticationFailed), ctx)
           | _ \<Rightarrow> (Inl (Inl AuthenticationFailed), ctx))
      | Some d \<Rightarrow>
          (case as_principal d of
             None \<Rightarrow> (Inl (Inl AuthenticationFailed), ctx)
           | Some p \<Rightarrow>
               if scopes \<noteq> [] \<and> \<not> has_required_scopes p scopes then (Inl (Inr Forbidden), ctx)
               else (Inr (), ctx\<lparr>gc_principal := Some p\<rparr>)))"

fun guard_failure :: "strategy_error + guard_error \<Rightarrow> guard_error" where
  "guard_failure (Inl (OtherThrown n)) = Propagated n"
| "guard_failure (Inl _) = Unauthorized"
| "guard_failure (Inr e) = e"

text \<open>Resolving a strategy from the container fails with a \<open>ContainerResolutionError\<close> (\<open>None\<close>), or
  otherwise.\<close>

definition can_activate ::
  "auth_requirement option \<Rightarrow> string option \<Rightarrow> (string, nat) js_map \<Rightarrow>
   (nat \<Rightarrow> (nat option, strategy) result) \<Rightarrow> guard_context \<Rightarrow> (guard_error, unit) result \<times> guard_context" where
  "can_activate requirement default_strategy registry resolve ctx =
     (case or_else (strategy_of requirement) default_strategy of
        None \<Rightarrow> (if scope_list requirement \<noteq> [] then Inl StrategyResolution else Inr (), ctx)
      | Some name \<Rightarrow>
          if name = [] then (if scope_list requirement \<noteq> [] then Inl StrategyResolution else Inr (), ctx)
          else
            (case js_get registry name of
               None \<Rightarrow> (Inl StrategyResolution, ctx)
             | Some token \<Rightarrow>
                 (case resolve token of
                    Inl None \<Rightarrow> (Inl StrategyResolution, ctx)
                  | Inl (Some e) \<Rightarrow> (Inl (Propagated e), ctx)
                  | Inr authenticate \<Rightarrow>
                      (case authenticate ctx of
                         (Inl e, ctx') \<Rightarrow> (Inl (guard_failure (Inl e)), ctx')
                       | (Inr v, ctx') \<Rightarrow>
                           (case accept_result requirement v ctx' of
                              (Inl e, ctx'') \<Rightarrow> (Inl (guard_failure e), ctx'')
                            | (Inr _, ctx'') \<Rightarrow> (Inr (), ctx''))))))"

section \<open>Cookies\<close>

record cookie_options =
  ck_access_token :: string
  ck_require_access_token :: bool

text \<open>The cookie's value; one that is no string is \<open>ClaimOther\<close>.\<close>

definition cookie_value :: "(string, claim) js_map option \<Rightarrow> string \<Rightarrow> claim option" where
  "cookie_value cookies name = (case cookies of None \<Rightarrow> None | Some m \<Rightarrow> js_get m name)"

definition principal_candidate :: "jwt_principal \<Rightarrow> candidate" where
  "principal_candidate p =
     \<lparr>cd_subject = ClaimString (jp_subject p), cd_claims = True, cd_issuer = jc_iss (jp_claims p),
      cd_audience = jc_aud (jp_claims p),
      cd_roles = (case jp_roles p of None \<Rightarrow> ClaimAbsent | Some rs \<Rightarrow> ClaimList (map Some rs)),
      cd_scopes = (case jp_scopes p of None \<Rightarrow> ClaimAbsent | Some ss \<Rightarrow> ClaimList (map Some ss))\<rparr>"

text \<open>\<open>CookieAuthStrategy.authenticate\<close>, given what the verifier says of a token.\<close>

definition cookie_authenticate ::
  "cookie_options \<Rightarrow> (string \<Rightarrow> (jwt_error, jwt_principal) result) \<Rightarrow> (string, claim) js_map option \<Rightarrow>
   (strategy_error, strategy_value) result" where
  "cookie_authenticate opts verify cookies =
     (case cookie_value cookies (ck_access_token opts) of
        None \<Rightarrow> if ck_require_access_token opts then Inl AuthenticationRequired else Inr Unauthenticated
      | Some (ClaimString (x # xs)) \<Rightarrow>
          (case verify (x # xs) of
             Inl e \<Rightarrow> Inl AuthenticationRequired
           | Inr p \<Rightarrow> Inr (Object (Some (principal_candidate p))))
      | Some _ \<Rightarrow> Inl AuthenticationRequired)"

section \<open>Account linking\<close>

record link_candidate =
  lc_account :: string
  lc_reason :: string

record link_attempt =
  la_target :: string
  la_confirmed :: bool

datatype link_decision =
    Link string
  | CreateAccount
  | Reject "string option"
  | Conflict "string list"

datatype link_error = LinkRejected "string option" | LinkConflict "string list"

datatype link_resolution = Linked string | CreateNew | Skipped

text \<open>\<open>createConservativeAccountLinkPolicy\<close>\<close>

definition conservative_policy :: "link_candidate list \<Rightarrow> link_attempt option \<Rightarrow> link_decision" where
  "conservative_policy candidates attempt =
     (let existing = rev (remdups (rev (map lc_account (filter (\<lambda>c. lc_reason c = ''existing-link'') candidates)))) in
      if length existing = 1 then Link (hd existing)
      else if length existing > 1 then Conflict existing
      else (case attempt of
          Some a \<Rightarrow>
            if \<not> la_confirmed a then Reject (Some ''ACCOUNT_LINK_CONFIRMATION_REQUIRED'')
            else if list_ex (\<lambda>c. lc_account c = la_target a) candidates then Link (la_target a)
            else Reject (Some ''ACCOUNT_LINK_TARGET_NOT_FOUND'')
        | None \<Rightarrow> if candidates = [] then CreateAccount else Conflict (map lc_account candidates)))"

definition resolve_account_linking ::
  "(link_candidate list \<Rightarrow> link_attempt option \<Rightarrow> link_decision) option \<Rightarrow> bool \<Rightarrow>
   link_candidate list \<Rightarrow> link_attempt option \<Rightarrow> (link_error, link_resolution) result" where
  "resolve_account_linking policy fallback_creates candidates attempt =
     (case policy of
        None \<Rightarrow> Inr (if fallback_creates then CreateNew else Skipped)
      | Some evaluate \<Rightarrow>
          (case evaluate candidates attempt of
             Link account \<Rightarrow> Inr (Linked account)
           | CreateAccount \<Rightarrow> Inr CreateNew
           | Reject code \<Rightarrow> Inl (LinkRejected code)
           | Conflict accounts \<Rightarrow> Inl (LinkConflict accounts)))"

end
