(* ===== verification/Passport_Facts.thy ===== *)
theory Passport_Facts
  imports Passport
begin

text \<open>
  What the guard guarantees of a request it lets pass, against what the decorators declared for the
  route, and what account linking never does by itself.
\<close>

section \<open>Rules about declarations\<close>

text \<open>A lineage starts with the class and goes on with that of the superclass.\<close>

definition linear_lineages :: "(nat \<Rightarrow> nat list) \<Rightarrow> bool" where
  "linear_lineages supers \<longleftrightarrow>
     (\<forall>c. \<exists>rest. supers c = c # rest) \<and> (\<forall>c pre e post. supers c = pre @ e # post \<longrightarrow> supers e = e # post)"

lemma lineage_head: "linear_lineages supers \<Longrightarrow> \<exists>rest. supers c = c # rest"
  unfolding linear_lineages_def by blast

lemma auth_bag_of_set: "auth_bag_of (js_set c b W) d = (if d = c then b else auth_bag_of W d)"
  by (simp add: auth_bag_of_def)

lemma define_method_get:
  assumes "owner = (case methods_owner W lineage of None \<Rightarrow> c | Some d \<Rightarrow> d)"
  shows "ab_methods (auth_bag_of (define_method_requirement lineage c name patch W) d) =
      (if d = owner then Some (case merge_auth_requirements (js_get (methods_in W lineage) name) (Some patch) of
           None \<Rightarrow> js_delete name (methods_in W lineage) | Some r \<Rightarrow> js_set name r (methods_in W lineage))
       else ab_methods (auth_bag_of W d))"
    and "ab_class (auth_bag_of (define_method_requirement lineage c name patch W) d) = ab_class (auth_bag_of W d)"
  using assms by (auto simp: define_method_requirement_def Let_def auth_bag_of_set)

lemma ab_methods_define_class [simp]:
  "ab_methods (auth_bag_of (define_class_requirement lineage c r W) d) = ab_methods (auth_bag_of W d)"
  by (simp add: define_class_requirement_def auth_bag_of_set)

lemma updated_methods_get:
  "js_get (case x of None \<Rightarrow> js_delete name M | Some r \<Rightarrow> js_set name r M) k = (if k = name then x else js_get M k)"
  by (simp split: option.split)

lemma find_prefix:
  "List.find P xs = Some x \<Longrightarrow> \<exists>pre post. xs = pre @ x # post \<and> P x \<and> (\<forall>y \<in> set pre. \<not> P y)"
proof (induction xs)
  case (Cons y ys)
  show ?case
  proof (cases "P y")
    case True
    then show ?thesis
      using Cons.prems by (intro exI [of _ "[]"] exI [of _ ys]) auto
  next
    case False
    then obtain pre post where "ys = pre @ x # post" "P x" "\<forall>y \<in> set pre. \<not> P y"
      using Cons by auto
    then show ?thesis
      using False by (intro exI [of _ "y # pre"] exI [of _ post]) auto
  qed
qed simp

lemma methods_owner_step:
  assumes lineages: "linear_lineages supers" and owner: "methods_owner W (supers c) = Some b"
  shows "methods_owner (define_method_requirement (supers e) e name patch W) (supers c) = Some b"
proof -
  let ?W = "define_method_requirement (supers e) e name patch W"
  define own where "own = (case methods_owner W (supers e) of None \<Rightarrow> e | Some d \<Rightarrow> d)"
  have has: "ab_methods (auth_bag_of ?W d) \<noteq> None \<longleftrightarrow> d = own \<or> ab_methods (auth_bag_of W d) \<noteq> None" for d
    unfolding define_method_get(1) [OF own_def] by simp
  obtain pre post where c: "supers c = pre @ b # post" "ab_methods (auth_bag_of W b) \<noteq> None"
      "\<forall>d \<in> set pre. \<not> ab_methods (auth_bag_of W d) \<noteq> None"
    using find_prefix [OF owner [unfolded methods_owner_def]] by blast
  have "own \<notin> set pre"
  proof
    assume "own \<in> set pre"
    then have no_map: "ab_methods (auth_bag_of W own) = None"
      using c(3) by simp
    have none: "methods_owner W (supers e) = None"
    proof (cases "methods_owner W (supers e)")
      case (Some d)
      then have "ab_methods (auth_bag_of W d) \<noteq> None"
        unfolding methods_owner_def using find_prefix [of _ "supers e" d] by blast
      then show ?thesis
        using no_map Some by (simp add: own_def)
    qed
    then have own: "own = e"
      by (simp add: own_def)
    obtain u v where "pre = u @ e # v"
      using \<open>own \<in> set pre\<close> own by (meson split_list)
    then have "supers e = e # v @ b # post"
      using c(1) lineages by (simp add: linear_lineages_def)
    then have "b \<in> set (supers e)"
      by simp
    then show False
      using none [unfolded methods_owner_def find_None_iff] c(2) by blast
  qed
  then have "List.find (\<lambda>d. ab_methods (auth_bag_of ?W d) \<noteq> None) (pre @ b # post) = Some b"
    unfolding has using c(2,3) by (induction pre) auto
  then show ?thesis
    by (simp add: methods_owner_def c(1))
qed

text \<open>
  A rule holds of what some decorator declares (\<open>Q\<close>) and is not undone by the others, all of
  which keep to \<open>G\<close>.
\<close>

locale auth_rule =
  fixes G Q :: "auth_requirement option \<Rightarrow> bool"
  assumes G_none: "G None"
    and G_normalize: "G r \<Longrightarrow> G (normalize_requirement r)"
    and G_merge: "G a \<Longrightarrow> G b \<Longrightarrow> G (merge_auth_requirements a b)"
    and Q_normalize: "Q r \<Longrightarrow> Q (normalize_requirement r)"
    and Q_base: "Q a \<Longrightarrow> G b \<Longrightarrow> Q (merge_auth_requirements a b)"
    and Q_extra: "G a \<Longrightarrow> Q b \<Longrightarrow> Q (merge_auth_requirements a b)"
    and Q_none: "\<not> Q None"
begin

definition bags_keep :: "auth_bags \<Rightarrow> bool" where
  "bags_keep W \<longleftrightarrow> (\<forall>d. G (ab_class (auth_bag_of W d))) \<and>
     (\<forall>d m k. ab_methods (auth_bag_of W d) = Some m \<longrightarrow> G (js_get m k))"

lemma G_class: "bags_keep W \<Longrightarrow> G (class_requirement_in W lineage)"
  by (auto simp: bags_keep_def class_requirement_in_def G_none split: option.split)

lemma G_own_class: "bags_keep W \<Longrightarrow> G (own_class_requirement W lineage)"
  unfolding own_class_requirement_def by (intro G_merge G_none G_normalize G_class)

lemma G_methods: "bags_keep W \<Longrightarrow> G (js_get (methods_in W lineage) k)"
  by (auto simp: bags_keep_def methods_in_def G_none split: option.split)

lemma G_own_method: "bags_keep W \<Longrightarrow> G (own_method_requirement W lineage name)"
  unfolding own_method_requirement_def by (intro G_merge G_none G_normalize G_methods)

lemma bags_keep_step:
  assumes keep: "bags_keep W" and patch: "G (Some (patch_of x))"
  shows "bags_keep (apply_auth_requirement supers (c, target, x) W)"
proof (cases target)
  case None
  have "G (merge_auth_requirements (class_requirement_in W (supers c))
      (merge_auth_requirements (own_class_requirement W (tl (supers c))) (Some (patch_of x))))"
    using keep patch by (intro G_merge G_class G_own_class)
  then show ?thesis
    using keep None by (simp add: bags_keep_def define_class_requirement_def auth_bag_of_set)
next
  case (Some name)
  have "G (js_get m k)" if "ab_methods (auth_bag_of (define_method_requirement (supers c) c name (patch_of x) W) d) = Some m" for d m k
    using that keep G_methods [OF keep] G_merge [OF G_methods [OF keep] patch]
    by (auto simp: define_method_get(1) [OF refl] updated_methods_get bags_keep_def split: if_splits)
  then show ?thesis
    using keep Some by (simp add: bags_keep_def define_method_get(2) [OF refl])
qed

text \<open>What is declared for a class, or for a method as seen from a class, stays declared.\<close>

definition class_keeps :: "nat \<Rightarrow> auth_bags \<Rightarrow> bool" where
  "class_keeps c W \<longleftrightarrow> Q (ab_class (auth_bag_of W c))"

definition method_keeps :: "(nat \<Rightarrow> nat list) \<Rightarrow> nat \<Rightarrow> string \<Rightarrow> auth_bags \<Rightarrow> bool" where
  "method_keeps supers c name W \<longleftrightarrow> (\<exists>b m. methods_owner W (supers c) = Some b \<and>
     ab_methods (auth_bag_of W b) = Some m \<and> Q (js_get m name))"

lemma class_self: "linear_lineages supers \<Longrightarrow> class_keeps c W \<Longrightarrow> class_requirement_in W (supers c) = ab_class (auth_bag_of W c)"
proof -
  assume lineages: "linear_lineages supers" and c: "class_keeps c W"
  obtain rest where "supers c = c # rest"
    using lineage_head [OF lineages] by blast
  moreover have "ab_class (auth_bag_of W c) \<noteq> None"
    using c Q_none by (metis class_keeps_def)
  ultimately show ?thesis
    by (simp add: class_requirement_in_def)
qed

lemma class_keeps_step:
  assumes lineages: "linear_lineages supers" and keep: "bags_keep W" and patch: "G (Some (patch_of x))" and c: "class_keeps c W"
  shows "class_keeps c (apply_auth_requirement supers (e, target, x) W)"
proof (cases target)
  case None
  have "Q (merge_auth_requirements (class_requirement_in W (supers c))
      (merge_auth_requirements (own_class_requirement W (tl (supers e))) (Some (patch_of x))))"
    unfolding class_self [OF lineages c]
    using c keep patch by (intro Q_base G_merge G_own_class) (simp_all add: class_keeps_def)
  then show ?thesis
    using c None by (cases "e = c") (simp_all add: class_keeps_def define_class_requirement_def auth_bag_of_set)
qed (use c in \<open>simp add: class_keeps_def define_method_get(2) [OF refl]\<close>)

lemma methods_in_owner: "methods_owner W lineage = Some b \<Longrightarrow> ab_methods (auth_bag_of W b) = Some m \<Longrightarrow> methods_in W lineage = m"
  by (simp add: methods_in_def)

lemma method_keeps_step:
  assumes lineages: "linear_lineages supers" and keep: "bags_keep W" and patch: "G (Some (patch_of x))" and c: "method_keeps supers c name W"
  shows "method_keeps supers c name (apply_auth_requirement supers (e, target, x) W)"
proof (cases target)
  case None
  then show ?thesis
    using c by (simp add: method_keeps_def methods_owner_def)
next
  case (Some name')
  obtain b m where b: "methods_owner W (supers c) = Some b" "ab_methods (auth_bag_of W b) = Some m" "Q (js_get m name)"
    using c by (auto simp: method_keeps_def)
  let ?W = "define_method_requirement (supers e) e name' (patch_of x) W"
  define own where "own = (case methods_owner W (supers e) of None \<Rightarrow> e | Some d \<Rightarrow> d)"
  have "\<exists>m'. ab_methods (auth_bag_of ?W b) = Some m' \<and> Q (js_get m' name)"
  proof (cases "b = own")
    case True
    have "methods_owner W (supers e) = Some b"
    proof (cases "methods_owner W (supers e)")
      case None
      obtain rest where "supers e = e # rest"
        using lineage_head [OF lineages] by blast
      then have "own = e" "ab_methods (auth_bag_of W e) = None"
        using None by (auto simp: own_def methods_owner_def split: if_splits)
      then show ?thesis
        using True b(2) by simp
    qed (use True in \<open>simp add: own_def\<close>)
    then have "methods_in W (supers e) = m"
      using b(2) by (rule methods_in_owner)
    then show ?thesis
      using True b(3) patch by (auto simp: define_method_get(1) [OF own_def] updated_methods_get intro: Q_base)
  next
    case False
    then show ?thesis
      using b by (simp add: define_method_get(1) [OF own_def])
  qed
  moreover have "methods_owner ?W (supers c) = Some b"
    by (rule methods_owner_step [OF lineages b(1)])
  ultimately show ?thesis
    using Some by (auto simp: method_keeps_def)
qed

lemma class_declares:
  assumes keep: "bags_keep W" and Q: "Q (Some (patch_of x))"
  shows "class_keeps c (apply_auth_requirement supers (c, None, x) W)"
  using Q_extra [OF G_class [OF keep] Q_extra [OF G_own_class [OF keep] Q]]
  by (simp add: class_keeps_def define_class_requirement_def auth_bag_of_set)

lemma method_declares:
  assumes lineages: "linear_lineages supers" and keep: "bags_keep W" and Q: "Q (Some (patch_of x))"
  shows "method_keeps supers c name (apply_auth_requirement supers (c, Some name, x) W)"
proof -
  let ?W = "define_method_requirement (supers c) c name (patch_of x) W"
  define own where "own = (case methods_owner W (supers c) of None \<Rightarrow> c | Some d \<Rightarrow> d)"
  let ?r = "merge_auth_requirements (js_get (methods_in W (supers c)) name) (Some (patch_of x))"
  define m where "m = (case ?r of None \<Rightarrow> js_delete name (methods_in W (supers c)) | Some r \<Rightarrow> js_set name r (methods_in W (supers c)))"
  have "js_get m name = ?r"
    unfolding m_def updated_methods_get by simp
  then have m: "ab_methods (auth_bag_of ?W own) = Some m" "Q (js_get m name)"
    using Q_extra [OF G_methods [OF keep] Q] by (simp_all add: define_method_get(1) [OF own_def] m_def)
  obtain rest where rest: "supers c = c # rest"
    using lineage_head [OF lineages] by blast
  have "methods_owner ?W (supers c) = Some own"
  proof (cases "methods_owner W (supers c)")
    case None
    then show ?thesis
      using m(1) rest by (simp add: own_def methods_owner_def)
  next
    case (Some b)
    then show ?thesis
      using methods_owner_step [OF lineages Some] by (simp add: own_def)
  qed
  then show ?thesis
    using m by (auto simp: method_keeps_def)
qed

text \<open>Whatever else is declared: what a decorator of the class or the method declares holds of the
  requirement of the route.\<close>

lemma declaration_holds:
  assumes lineages: "linear_lineages supers" and patches: "\<forall>(c, target, x) \<in> set ds. G (Some (patch_of x))"
    and declared: "(c, None, x) \<in> set ds \<or> (c, Some name, x) \<in> set ds" and Q: "Q (Some (patch_of x))"
  shows "Q (get_auth_requirement supers (declare_auth supers ds) c name)"
proof -
  have keep: "bags_keep (fold (apply_auth_requirement supers) as [])" if "\<forall>(c, target, x) \<in> set as. G (Some (patch_of x))" for as
    using that
  proof (induction as rule: rev_induct)
    case Nil
    then show ?case by (simp add: bags_keep_def auth_bag_of_def G_none)
  next
    case (snoc a as)
    then show ?case by (cases a) (auto intro: bags_keep_step)
  qed
  obtain target where target: "(c, target, x) \<in> set ds" "target = None \<or> target = Some name"
    using declared by blast
  obtain before after where ds: "ds = before @ (c, target, x) # after"
    using target(1) by (meson split_list)
  let ?W = "apply_auth_requirement supers (c, target, x) (fold (apply_auth_requirement supers) before [])"
  have W: "declare_auth supers ds = fold (apply_auth_requirement supers) after ?W"
    by (simp add: declare_auth_def ds)
  have after: "\<forall>(c, target, x) \<in> set after. G (Some (patch_of x))" and "\<forall>(c, target, x) \<in> set before. G (Some (patch_of x))"
    and x: "G (Some (patch_of x))"
    using patches by (simp_all add: ds)
  then have before: "bags_keep (fold (apply_auth_requirement supers) before [])"
    by (intro keep)
  have kept: "bags_keep ?W"
    by (rule bags_keep_step [OF before x])
  have rest: "bags_keep (fold (apply_auth_requirement supers) after W) \<and>
      (class_keeps c W \<longrightarrow> class_keeps c (fold (apply_auth_requirement supers) after W)) \<and>
      (method_keeps supers c name W \<longrightarrow> method_keeps supers c name (fold (apply_auth_requirement supers) after W))"
    if "bags_keep W" for W
    using that after
  proof (induction after arbitrary: W)
    case (Cons a after)
    obtain e t y where a: "a = (e, t, y)" by (metis prod_cases3)
    have "bags_keep (apply_auth_requirement supers a W)"
      using Cons.prems by (auto simp: a intro: bags_keep_step)
    then show ?case
      using Cons.IH [of "apply_auth_requirement supers a W"] Cons.prems class_keeps_step [OF lineages Cons.prems(1)]
        method_keeps_step [OF lineages Cons.prems(1)] by (auto simp: a)
  qed simp
  let ?D = "declare_auth supers ds"
  have D: "bags_keep ?D"
    unfolding W using rest [OF kept] by blast
  show ?thesis
  proof (cases target)
    case None
    then have "class_keeps c ?D"
      unfolding W using rest [OF kept] class_declares [OF before Q, of c supers] by auto
    then have "Q (own_class_requirement ?D (supers c))"
      using class_self [OF lineages, of c ?D] unfolding own_class_requirement_def class_keeps_def
      by (auto intro!: Q_extra Q_normalize simp: G_none)
    then show ?thesis
      unfolding get_auth_requirement_def by (rule Q_base) (rule G_own_method [OF D])
  next
    case (Some n)
    then have "method_keeps supers c name ?D"
      unfolding W using rest [OF kept] method_declares [OF lineages before Q, of c name] target(2) by auto
    then have "Q (own_method_requirement ?D (supers c) name)"
      unfolding own_method_requirement_def method_keeps_def
      by (auto intro!: Q_extra Q_normalize simp: G_none methods_in_owner)
    then show ?thesis
      unfolding get_auth_requirement_def by (rule Q_extra [OF G_own_class [OF D]])
  qed
qed

end

section \<open>Scopes and strategies\<close>

lemma normalize_scope_items_set:
  "set (normalize_scope_items items seen) = {js_trim i |i. i \<in> set items} - {[]} - set seen"
  by (induction items seen rule: normalize_scope_items.induct) (auto simp: Let_def)

lemma declared_scopes_set:
  "set (case normalize_declared_scopes scopes of None \<Rightarrow> [] | Some s \<Rightarrow> s) = {js_trim i |i. i \<in> set scopes} - {[]}"
  unfolding normalize_declared_scopes_def Let_def
  using normalize_scope_items_set [of scopes "[]"] by (auto split: if_splits)

lemma get_simps:
  "scope_list None = []" "scope_list (Some \<lparr>ar_strategy = s, ar_optional = opt, ar_scopes = x\<rparr>) = (case x of None \<Rightarrow> [] | Some y \<Rightarrow> y)"
  "optional_of None = None" "optional_of (Some \<lparr>ar_strategy = s, ar_optional = Some b, ar_scopes = x\<rparr>) = b"
  "strategy_of None = None" "strategy_of (Some \<lparr>ar_strategy = s, ar_optional = opt, ar_scopes = x\<rparr>) = s"
  by (simp_all add: scope_list_def optional_of_def strategy_of_def)

text \<open>What a merge gives.\<close>

lemma merge_shape:
  obtains (none) "merge_auth_requirements base extra = None"
      "or_else (strategy_of extra) (strategy_of base) \<in> {None, Some []}"
      "normalize_declared_scopes (scope_list base @ scope_list extra) = None"
  | (some) opt where "merge_auth_requirements base extra =
        Some \<lparr>ar_strategy = or_else (strategy_of extra) (strategy_of base), ar_optional = Some opt,
          ar_scopes = normalize_declared_scopes (scope_list base @ scope_list extra)\<rparr>"
      "opt = Some True \<Longrightarrow> optional_of base = Some True \<or> optional_of extra = Some True"
proof (cases "base = None \<and> extra = None")
  case True
  then show ?thesis
    by (intro none)
      (simp_all add: merge_auth_requirements_def strategy_of_def scope_list_def normalize_declared_scopes_def)
next
  case False
  define opt where "opt = (case (case extra of None \<Rightarrow> None | Some e \<Rightarrow> ar_optional e) of
        Some b \<Rightarrow> b
      | None \<Rightarrow> if optional_of base = Some True \<and> (case extra of None \<Rightarrow> False | Some e \<Rightarrow> has_strategy e)
          then Some False else optional_of base)"
  have opt: "opt = Some True \<Longrightarrow> optional_of base = Some True \<or> optional_of extra = Some True"
    by (auto simp: opt_def optional_of_def [of extra] split: option.splits if_splits)
  let ?strategy = "or_else (strategy_of extra) (strategy_of base)"
  let ?scopes = "normalize_declared_scopes (scope_list base @ scope_list extra)"
  have merge: "merge_auth_requirements base extra =
      (if (?strategy = None \<or> ?strategy = Some []) \<and> ?scopes = None \<and> opt \<noteq> Some True then None
       else Some \<lparr>ar_strategy = ?strategy, ar_optional = Some opt, ar_scopes = ?scopes\<rparr>)"
    unfolding merge_auth_requirements_def Let_def opt_def using False by (simp only: if_False)
  show ?thesis
  proof (cases "(?strategy = None \<or> ?strategy = Some []) \<and> ?scopes = None \<and> opt \<noteq> Some True")
    case True
    then show ?thesis
      unfolding insert_iff empty_iff using merge [unfolded if_P [OF True]] by (intro none) blast+
  next
    case False
    show ?thesis
      by (rule some [OF merge [unfolded if_not_P [OF False]] opt])
  qed
qed

lemma scope_list_merge:
  "set (scope_list (merge_auth_requirements base extra)) =
     {js_trim i |i. i \<in> set (scope_list base @ scope_list extra)} - {[]}"
  using declared_scopes_set [of "scope_list base @ scope_list extra"]
  by (cases base extra rule: merge_shape) (simp_all only: get_simps option.case)

lemma scope_list_normalize:
  "set (scope_list (normalize_requirement r)) = {js_trim i |i. i \<in> set (scope_list r)} - {[]}"
proof (cases r)
  case (Some q)
  have "scope_list (normalize_requirement r) = (case normalize_declared_scopes (scope_list r) of None \<Rightarrow> [] | Some s \<Rightarrow> s)"
    by (simp add: Some normalize_requirement_def Let_def get_simps)
  then show ?thesis
    using declared_scopes_set [of "scope_list r"] by simp
qed (simp add: normalize_requirement_def scope_list_def)

text \<open>A scope is required, up to the white space around it.\<close>

definition requires_scope :: "string \<Rightarrow> auth_requirement option \<Rightarrow> bool" where
  "requires_scope s r \<longleftrightarrow> (\<exists>i \<in> set (scope_list r). js_trim i = s)"

lemma requires_scope_trimmed:
  assumes "set (scope_list r) = {js_trim i |i. i \<in> A} - {[]}" "i \<in> A" "js_trim i = x # xs"
  shows "requires_scope (x # xs) r"
proof -
  have "x # xs \<in> set (scope_list r)"
    unfolding assms(1) using assms(2) assms(3) [symmetric] by blast
  moreover have "js_trim (x # xs) = x # xs"
    using assms(3) by (metis js_trim_idem)
  ultimately show ?thesis
    unfolding requires_scope_def by blast
qed

interpretation scope_rule: auth_rule "\<lambda>_. True" "requires_scope (x # xs)" for x xs
proof
  show "requires_scope (x # xs) (normalize_requirement r)" if "requires_scope (x # xs) r" for r
    using that requires_scope_trimmed [OF scope_list_normalize] unfolding requires_scope_def [of _ r] by blast
  show "requires_scope (x # xs) (merge_auth_requirements a b)" if "requires_scope (x # xs) a" for a b
    using that requires_scope_trimmed [OF scope_list_merge] unfolding requires_scope_def [of _ a] set_append by blast
  show "requires_scope (x # xs) (merge_auth_requirements a b)" if "requires_scope (x # xs) b" for a b
    using that requires_scope_trimmed [OF scope_list_merge] unfolding requires_scope_def [of _ b] set_append by blast
qed (simp_all add: requires_scope_def scope_list_def)

text \<open>A strategy with a name must run, and must give a principal.\<close>

definition never_optional :: "auth_requirement option \<Rightarrow> bool" where
  "never_optional r \<longleftrightarrow> optional_of r \<noteq> Some True \<and> strategy_of r \<noteq> Some []"

definition authenticates :: "auth_requirement option \<Rightarrow> bool" where
  "authenticates r \<longleftrightarrow> never_optional r \<and> strategy_of r \<noteq> None"

lemma optional_of_merge:
  "optional_of (merge_auth_requirements a b) = Some True \<Longrightarrow> optional_of a = Some True \<or> optional_of b = Some True"
  by (cases a b rule: merge_shape) (simp_all add: get_simps)

lemma strategy_of_merge:
  "or_else (strategy_of b) (strategy_of a) \<noteq> Some [] \<Longrightarrow>
   strategy_of (merge_auth_requirements a b) = or_else (strategy_of b) (strategy_of a)"
  by (cases a b rule: merge_shape) (auto simp: get_simps)

lemma or_else_cases: "or_else a b = b \<and> a = None \<or> or_else a b = a \<and> a \<noteq> None"
  by (cases a) auto

lemma never_optional_merge:
  assumes "never_optional a" "never_optional b"
  shows "never_optional (merge_auth_requirements a b)"
    and "strategy_of (merge_auth_requirements a b) = or_else (strategy_of b) (strategy_of a)"
proof -
  have "or_else (strategy_of b) (strategy_of a) \<noteq> Some []"
    using assms or_else_cases [of "strategy_of b" "strategy_of a"] unfolding never_optional_def by metis
  then show "strategy_of (merge_auth_requirements a b) = or_else (strategy_of b) (strategy_of a)"
    and "never_optional (merge_auth_requirements a b)"
    using strategy_of_merge [of b a] optional_of_merge [of a b] assms unfolding never_optional_def by metis+
qed

lemma normalize_strategy:
  assumes "never_optional r"
  shows "never_optional (normalize_requirement r) \<and> strategy_of (normalize_requirement r) = strategy_of r"
  using assms by (cases r) (auto simp: never_optional_def normalize_requirement_def has_strategy_def optional_of_def
      strategy_of_def Let_def)

interpretation strategy_rule: auth_rule never_optional authenticates
proof
  show "never_optional None" "\<not> authenticates None"
    by (simp_all add: never_optional_def authenticates_def optional_of_def strategy_of_def)
  show "never_optional (normalize_requirement r)" if "never_optional r" for r
    using normalize_strategy [OF that] by blast
  show "authenticates (normalize_requirement r)" if "authenticates r" for r
    using that normalize_strategy [of r] by (simp add: authenticates_def)
  fix a b
  show "never_optional (merge_auth_requirements a b)" if "never_optional a" "never_optional b"
    by (rule never_optional_merge [OF that])
  show "authenticates (merge_auth_requirements a b)" if "authenticates a" "never_optional b"
    using that never_optional_merge [of a b] or_else_cases [of "strategy_of b" "strategy_of a"]
    unfolding authenticates_def by metis
  show "authenticates (merge_auth_requirements a b)" if "never_optional a" "authenticates b"
    using that never_optional_merge [of a b] or_else_cases [of "strategy_of b" "strategy_of a"]
    unfolding authenticates_def by metis
qed

section \<open>The guard\<close>

text \<open>A principal that a strategy gave for the request.\<close>

definition authenticated :: "(nat \<Rightarrow> (nat option, strategy) result) \<Rightarrow> guard_context \<Rightarrow> principal \<Rightarrow> bool" where
  "authenticated resolve ctx p \<longleftrightarrow>
     (\<exists>token f v c d. resolve token = Inr f \<and> f ctx = (Inr v, c) \<and> resolve_principal v = Some d \<and> as_principal d = Some p)"

lemma accept_result_ok:
  assumes "accept_result requirement v ctx = (Inr (), ctx')"
  shows "gc_committed ctx' \<or> optional_of requirement = Some True \<and> scope_list requirement = [] \<or>
    (\<exists>p d. gc_principal ctx' = Some p \<and> resolve_principal v = Some d \<and> as_principal d = Some p \<and>
       has_required_scopes p (scope_list requirement))"
proof (cases "resolve_principal v")
  case None
  then show ?thesis
    using assms by (cases v) (auto simp: accept_result_def Let_def split: if_splits)
next
  case (Some d)
  then show ?thesis
    using assms by (auto simp: accept_result_def Let_def has_required_scopes_def split: option.splits if_splits)
qed

lemma can_activate_ok:
  assumes "can_activate requirement default_strategy registry resolve ctx = (Inr (), ctx')"
  shows "or_else (strategy_of requirement) default_strategy \<in> {None, Some []} \<and> scope_list requirement = [] \<or>
    gc_committed ctx' \<or> optional_of requirement = Some True \<and> scope_list requirement = [] \<or>
    (\<exists>p. gc_principal ctx' = Some p \<and> authenticated resolve ctx p \<and> has_required_scopes p (scope_list requirement))"
proof (cases "or_else (strategy_of requirement) default_strategy \<in> {None, Some []}")
  case True
  then show ?thesis
    using assms by (auto simp: can_activate_def split: if_splits)
next
  case False
  then obtain token f v c where f: "resolve token = Inr f" "f ctx = (Inr v, c)"
    and accept: "accept_result requirement v c = (Inr (), ctx')"
    using assms by (auto simp: can_activate_def split: option.splits if_splits sum.splits prod.splits)
  show ?thesis
    using accept_result_ok [OF accept] f unfolding authenticated_def by blast
qed

text \<open>C15. Whatever else is declared, in whatever order and for whatever classes: a request that the guard
  lets pass, and that the strategy has not answered itself, has a principal from a strategy with
  every scope that \<open>@RequireScopes\<close> declares for its route or its controller.\<close>

theorem guard_enforces_scopes:
  assumes "linear_lineages supers" and "(c, None, RequireScopes ss) \<in> set ds \<or> (c, Some name, RequireScopes ss) \<in> set ds"
    and "s \<in> set ss" "js_trim s \<noteq> []"
    and "can_activate (get_auth_requirement supers (declare_auth supers ds) c name) default_strategy registry resolve ctx = (Inr (), ctx')"
  shows "gc_committed ctx' \<or>
    (\<exists>p given. gc_principal ctx' = Some p \<and> authenticated resolve ctx p \<and> pr_scopes p = Some given \<and> js_trim s \<in> set given)"
proof -
  let ?r = "get_auth_requirement supers (declare_auth supers ds) c name"
  obtain x xs where s: "js_trim s = x # xs"
    using assms(4) by (cases "js_trim s") auto
  have "requires_scope (x # xs) ?r"
    by (rule scope_rule.declaration_holds [OF assms(1) _ assms(2)])
      (use assms(3) s in \<open>auto simp: requires_scope_def scope_list_def\<close>)
  then obtain i where "i \<in> set (scope_list ?r)" "js_trim i = js_trim s"
    unfolding s by (auto simp: requires_scope_def)
  moreover have "i = js_trim i"
    using calculation(1) unfolding get_auth_requirement_def scope_list_merge by auto
  ultimately have "js_trim s \<in> set (scope_list ?r)"
    by simp
  then show ?thesis
    using can_activate_ok [OF assms(5)] by (fastforce simp: has_required_scopes_def list_all_iff split: option.splits)
qed

text \<open>C33. And if no route is declared optional: a request that passes to a route for which, or for whose
  controller, a strategy is declared has a principal from a strategy, unless the strategy has
  answered itself.\<close>

theorem protected_routes_authenticate:
  assumes "linear_lineages supers"
    and "\<forall>(c, target, x) \<in> set ds. case x of UseAuth n \<Rightarrow> n \<noteq> [] | UseOptionalAuth n \<Rightarrow> False | RequireScopes ss \<Rightarrow> True"
    and "(c, None, UseAuth n) \<in> set ds \<or> (c, Some name, UseAuth n) \<in> set ds"
    and "can_activate (get_auth_requirement supers (declare_auth supers ds) c name) default_strategy registry resolve ctx = (Inr (), ctx')"
  shows "gc_committed ctx' \<or> (\<exists>p. gc_principal ctx' = Some p \<and> authenticated resolve ctx p)"
proof -
  have "never_optional (Some (patch_of x))" if "(c, target, x) \<in> set ds" for c target x
    using assms(2) that by (cases x) (auto simp: never_optional_def optional_of_def strategy_of_def)
  moreover have "authenticates (Some (patch_of (UseAuth n)))"
    using assms(2,3) by (auto simp: authenticates_def never_optional_def optional_of_def strategy_of_def)
  ultimately have "authenticates (get_auth_requirement supers (declare_auth supers ds) c name)"
    using assms(1,3) by (intro strategy_rule.declaration_holds) auto
  then show ?thesis
    using can_activate_ok [OF assms(4)] by (auto simp: authenticates_def never_optional_def)
qed

section \<open>Account linking\<close>

text \<open>The conservative policy links exactly the account of the only existing link, or, without one,
  a candidate that the user has confirmed; it creates an account only when there is no candidate.\<close>

theorem linking_needs_link_or_confirmation:
  "(resolve_account_linking (Some conservative_policy) fallback candidates attempt = Inr (Linked a) \<longleftrightarrow>
     (let existing = lc_account ` {c \<in> set candidates. lc_reason c = ''existing-link''} in
      existing = {a} \<or>
      existing = {} \<and> attempt = Some \<lparr>la_target = a, la_confirmed = True\<rparr> \<and> a \<in> lc_account ` set candidates)) \<and>
   (resolve_account_linking (Some conservative_policy) fallback candidates attempt = Inr CreateNew \<longleftrightarrow>
     candidates = [] \<and> attempt = None)"
proof -
  define linked where "linked = rev (remdups (rev (map lc_account (filter (\<lambda>c. lc_reason c = ''existing-link'') candidates))))"
  define existing where "existing = lc_account ` {c \<in> set candidates. lc_reason c = ''existing-link''}"
  have set_linked: "set linked = existing" and "distinct linked"
    by (simp_all add: linked_def existing_def)
  have policy: "conservative_policy candidates attempt =
      (if length linked = 1 then Link (hd linked) else if length linked > 1 then Conflict linked
       else (case attempt of
           Some a \<Rightarrow>
             if \<not> la_confirmed a then Reject (Some ''ACCOUNT_LINK_CONFIRMATION_REQUIRED'')
             else if list_ex (\<lambda>c. lc_account c = la_target a) candidates then Link (la_target a)
             else Reject (Some ''ACCOUNT_LINK_TARGET_NOT_FOUND'')
         | None \<Rightarrow> if candidates = [] then CreateAccount else Conflict (map lc_account candidates)))"
    unfolding conservative_policy_def Let_def linked_def ..
  consider (no) "linked = []" | (one) b where "linked = [b]" | (more) b c ys where "linked = b # c # ys"
    by (metis list.exhaust)
  then have "(resolve_account_linking (Some conservative_policy) fallback candidates attempt = Inr (Linked a) \<longleftrightarrow>
      existing = {a} \<or> existing = {} \<and> attempt = Some \<lparr>la_target = a, la_confirmed = True\<rparr> \<and> a \<in> lc_account ` set candidates) \<and>
    (resolve_account_linking (Some conservative_policy) fallback candidates attempt = Inr CreateNew \<longleftrightarrow>
      candidates = [] \<and> attempt = None)"
  proof cases
    case no
    then have "existing = {}"
      using set_linked by simp
    then show ?thesis
      unfolding resolve_account_linking_def option.case policy no list_ex_iff by (cases attempt) (auto, metis image_eqI)
  next
    case one
    then have "existing = {b}" "candidates \<noteq> []"
      using set_linked by (auto simp: linked_def)
    then show ?thesis
      by (auto simp: resolve_account_linking_def policy one)
  next
    case more
    then have "b \<in> existing" "c \<in> existing" "b \<noteq> c" "candidates \<noteq> []"
      using set_linked \<open>distinct linked\<close> by (auto simp: linked_def)
    then show ?thesis
      by (auto simp: resolve_account_linking_def policy more)
  qed
  then show ?thesis
    unfolding Let_def existing_def .
qed

section \<open>Examples\<close>

lemma single_lineages: "linear_lineages (\<lambda>c. [c])"
  by (auto simp: linear_lineages_def Cons_eq_append_conv)

text \<open>A strategy that gives a principal with one scope.\<close>

definition example_strategy :: strategy where
  "example_strategy ctx =
     (Inr (Object (Some \<lparr>cd_subject = ClaimString ''ann'', cd_claims = True, cd_issuer = ClaimAbsent,
         cd_audience = ClaimAbsent, cd_roles = ClaimAbsent, cd_scopes = ClaimList [Some ''read'']\<rparr>)), ctx)"

definition example_declarations :: "(nat \<times> string option \<times> auth_decorator) list" where
  "example_declarations = [(1, Some ''get'', RequireScopes ['' read '']), (1, None, UseAuth ''jwt'')]"

lemma example_activates:
  "fst (can_activate (get_auth_requirement (\<lambda>c. [c]) (declare_auth (\<lambda>c. [c]) example_declarations) 1 ''get'')
     None [(''jwt'', 7)] (\<lambda>_. Inr example_strategy) \<lparr>gc_principal = None, gc_committed = False\<rparr>) = Inr ()"
  by code_simp

theorem guard_enforces_scopes_witness:
  "\<exists>ctx' :: guard_context. (gc_committed ctx' \<or>
    (\<exists>p given. gc_principal ctx' = Some p \<and> authenticated (\<lambda>_. Inr example_strategy) \<lparr>gc_principal = None, gc_committed = False\<rparr> p \<and>
       pr_scopes p = Some given \<and> js_trim '' read '' \<in> set given))"
proof -
  obtain ctx' where activates: "can_activate (get_auth_requirement (\<lambda>c. [c]) (declare_auth (\<lambda>c. [c]) example_declarations) 1 ''get'')
     None [(''jwt'', 7)] (\<lambda>_. Inr example_strategy) \<lparr>gc_principal = None, gc_committed = False\<rparr> = (Inr (), ctx')"
    using example_activates by (metis prod.collapse)
  have declared: "(1, None, RequireScopes ['' read '']) \<in> set example_declarations \<or> (1, Some ''get'', RequireScopes ['' read '']) \<in> set example_declarations"
    by (simp add: example_declarations_def)
  have scope: "'' read '' \<in> set ['' read '']"
    by simp
  have "js_trim '' read '' \<noteq> []"
    by code_simp
  from guard_enforces_scopes [OF single_lineages declared scope this activates] show ?thesis
    by (rule exI [where x = ctx'])
qed

theorem protected_routes_authenticate_witness:
  "\<exists>ctx' :: guard_context. (gc_committed ctx' \<or>
    (\<exists>p. gc_principal ctx' = Some p \<and> authenticated (\<lambda>_. Inr example_strategy) \<lparr>gc_principal = None, gc_committed = False\<rparr> p))"
proof -
  obtain ctx' where activates: "can_activate (get_auth_requirement (\<lambda>c. [c]) (declare_auth (\<lambda>c. [c]) example_declarations) 1 ''get'')
     None [(''jwt'', 7)] (\<lambda>_. Inr example_strategy) \<lparr>gc_principal = None, gc_committed = False\<rparr> = (Inr (), ctx')"
    using example_activates by (metis prod.collapse)
  have mandatory: "\<forall>(c, target, x) \<in> set example_declarations. case x of UseAuth n \<Rightarrow> n \<noteq> [] | UseOptionalAuth n \<Rightarrow> False | RequireScopes ss \<Rightarrow> True"
    and declared: "(1, None, UseAuth ''jwt'') \<in> set example_declarations \<or> (1, Some ''get'', UseAuth ''jwt'') \<in> set example_declarations"
    by (simp_all add: example_declarations_def)
  from protected_routes_authenticate [OF single_lineages mandatory declared activates] show ?thesis
    by (rule exI [where x = ctx'])
qed

text \<open>Overriding a method with \<open>@UseOptionalAuth\<close> in a subclass makes the route of the base
  controller optional too, since the map of methods is that of the base class.\<close>

lemma subclass_weakens_base_route:
  "optional_of (get_auth_requirement (\<lambda>c. if c = 2 then [2, 1] else [c])
     (declare_auth (\<lambda>c. if c = 2 then [2, 1] else [c])
       [(1, Some ''get'', UseAuth ''jwt''), (2, Some ''get'', UseOptionalAuth ''jwt'')]) 1 ''get'') = Some True"
  by code_simp

end
