(* ===== verification/Cron.thy ===== *)
theory Cron
  imports Js_String
begin

text \<open>
  The task scheduler (\<open>packages/cron/src\<close>): the registry of tasks and their timers
  (\<open>service.ts\<close>), the runner of one task (\<open>task-runner.ts\<close>), and the lock that keeps a task from
  running on two nodes at once (\<open>distributed-lock-manager.ts\<close>). Several nodes share a Redis
  server. A node is a state with one step per stretch of code between two awaits; a command to
  Redis is sent, run and answered in three steps, and one that fails has run before it fails or
  never runs.
\<close>

section \<open>Redis\<close>

text \<open>The commands the lock manager uses, as functions of the server's state and the time:
  \<open>GET\<close>, \<open>SET\<close> with \<open>PX\<close> and \<open>NX\<close>, \<open>PEXPIRE\<close> and \<open>DEL\<close>.\<close>

record 'r redis =
  rd_get :: "'r \<Rightarrow> nat \<Rightarrow> string \<Rightarrow> string option"
  rd_set :: "'r \<Rightarrow> nat \<Rightarrow> string \<Rightarrow> string \<Rightarrow> nat \<Rightarrow> bool \<times> 'r"
  rd_pexpire :: "'r \<Rightarrow> nat \<Rightarrow> string \<Rightarrow> nat \<Rightarrow> 'r"
  rd_del :: "'r \<Rightarrow> nat \<Rightarrow> string \<Rightarrow> 'r"

text \<open>\<open>RENEW_LOCK_SCRIPT\<close> and \<open>RELEASE_LOCK_SCRIPT\<close>; false is the reply 0.\<close>

definition renew_lock_script :: "'r redis \<Rightarrow> string \<Rightarrow> string \<Rightarrow> nat \<Rightarrow> nat \<Rightarrow> 'r \<Rightarrow> bool \<times> 'r" where
  "renew_lock_script R k owner ttl now r =
     (if rd_get R r now k = Some owner then (True, rd_pexpire R r now k ttl) else (False, r))"

definition release_lock_script :: "'r redis \<Rightarrow> string \<Rightarrow> string \<Rightarrow> nat \<Rightarrow> 'r \<Rightarrow> bool \<times> 'r" where
  "release_lock_script R k owner now r =
     (if rd_get R r now k = Some owner then (True, rd_del R r now k) else (False, r))"

section \<open>Tasks\<close>

datatype task_kind = CronTask | IntervalTask | TimeoutTask

text \<open>\<open>CronTaskDescriptor\<close>, its hooks and what it invokes apart.\<close>

record task_descriptor =
  td_name :: string
  td_kind :: task_kind
  td_expression :: "string option"
  td_ms :: "int option"
  td_distributed :: bool
  td_lock_key :: string
  td_lock_ttl :: int

text \<open>\<open>RuntimeTaskState\<close>\<close>

record task_state =
  ts_descriptor :: task_descriptor
  ts_enabled :: bool
  ts_running :: bool
  ts_handle :: "nat option"

datatype scheduling_error =
    InvalidName | InvalidMs | InvalidExpression | InvalidLockTtl | DuplicateName string
  | MissingExpression | MissingMs | SchedulerThrew | NoSuchTask | NotCron

text \<open>A timer or cron job: the task it ticks, by name, and whether it is still going to.\<close>

record timer =
  tm_name :: string
  tm_kind :: task_kind
  tm_live :: bool

section \<open>Ticks\<close>

text \<open>A command under way: sent, or run with a reply that has not arrived.\<close>

datatype command = Sent | Replied bool

text \<open>A tick acquires the lock, runs \<open>executeTask\<close> up to the post-run check, awaits the renewals, runs
  the success hook, runs the remaining hooks, releases the lock, and has ended.\<close>

datatype tick_phase =
    Acquiring command
  | Running
  | AwaitingRenewals
  | Succeeding
  | Closing
  | Releasing command
  | Ended

datatype lock_error = OwnershipLost | RenewalFailed

text \<open>\<open>LockRenewalState\<close>. The renewal chain is the attempt under way and the number of those queued
  behind it.\<close>

record renewal_state =
  rs_error :: "lock_error option"
  rs_next_due :: nat
  rs_interval :: nat
  rs_stopped :: bool
  rs_current :: "command option"
  rs_queued :: nat

text \<open>One call of \<open>runTaskTick\<close>. The last five fields record when the lock was granted, until when it
  is held as far as the replies of Redis say, when the task began and ended, and whether the success
  hook was reached; the code does not read them. Ticks are kept after they end.\<close>

record tick =
  tk_task :: nat
  tk_descriptor :: task_descriptor
  tk_locked :: bool
  tk_timeout :: bool
  tk_phase :: tick_phase
  tk_renewal :: renewal_state
  tk_granted :: "nat option"
  tk_held :: nat
  tk_begun :: nat
  tk_finished :: nat
  tk_succeeded :: bool

datatype lifecycle = Created | Starting | Ready | Stopping | Stopped | Failed

record cron_node =
  cn_owner :: string
  cn_distributed :: bool
  cn_client :: bool
  cn_timeout_ms :: nat
  cn_objects :: "(nat, task_state) js_map"
  cn_tasks :: "(string, nat) js_map"
  cn_timers :: "(nat, timer) js_map"
  cn_ticks :: "(nat, tick) js_map"
  cn_running_keys :: "string list"
  cn_owned :: "string list"
  cn_losses :: nat
  cn_failures :: nat
  cn_started :: bool
  cn_lifecycle :: lifecycle
  cn_next :: nat

text \<open>What the cron package accepts as an expression, and whether the scheduler option schedules
  it.\<close>

record cron_host =
  ch_valid :: "string \<Rightarrow> bool"
  ch_schedules :: "string \<Rightarrow> bool"

section \<open>The registry\<close>

definition create_lock_key :: "string \<Rightarrow> string \<Rightarrow> string" where
  "create_lock_key prefix name = prefix @ '':'' @ name"

definition set_object :: "nat \<Rightarrow> task_state \<Rightarrow> cron_node \<Rightarrow> cron_node" where
  "set_object i t nd = nd\<lparr>cn_objects := js_set i t (cn_objects nd)\<rparr>"

text \<open>\<open>createScheduledHandle\<close>\<close>

definition create_scheduled_handle :: "cron_host \<Rightarrow> task_descriptor \<Rightarrow> cron_node \<Rightarrow> (scheduling_error, nat \<times> cron_node) result" where
  "create_scheduled_handle H d nd =
     (let made = (cn_next nd, nd\<lparr>cn_timers := js_set (cn_next nd) \<lparr>tm_name = td_name d, tm_kind = td_kind d, tm_live = True\<rparr> (cn_timers nd),
                    cn_next := cn_next nd + 1\<rparr>) in
      if td_kind d = CronTask then
        (case td_expression d of
           None \<Rightarrow> Inl MissingExpression
         | Some e \<Rightarrow> if e = [] then Inl MissingExpression
                     else if ch_schedules H e then Inr made else Inl SchedulerThrew)
      else if td_ms d = None \<or> td_ms d = Some 0 then Inl MissingMs
      else Inr made)"

definition stop_timer :: "nat \<Rightarrow> cron_node \<Rightarrow> cron_node" where
  "stop_timer h nd =
     (case js_get (cn_timers nd) h of
        None \<Rightarrow> nd
      | Some t \<Rightarrow> nd\<lparr>cn_timers := js_set h (t\<lparr>tm_live := False\<rparr>) (cn_timers nd)\<rparr>)"

definition unschedule_task :: "nat \<Rightarrow> cron_node \<Rightarrow> cron_node" where
  "unschedule_task i nd =
     (case js_get (cn_objects nd) i of
        None \<Rightarrow> nd
      | Some t \<Rightarrow>
          (case ts_handle t of
             None \<Rightarrow> nd
           | Some h \<Rightarrow> stop_timer h (set_object i (t\<lparr>ts_handle := None\<rparr>) nd)))"

definition schedule_task :: "cron_host \<Rightarrow> nat \<Rightarrow> cron_node \<Rightarrow> (scheduling_error, cron_node) result" where
  "schedule_task H i nd =
     (case js_get (cn_objects nd) i of
        None \<Rightarrow> Inr nd
      | Some t \<Rightarrow>
          if \<not> ts_enabled t \<or> ts_handle t \<noteq> None then Inr nd
          else (case create_scheduled_handle H (ts_descriptor t) nd of
                  Inl e \<Rightarrow> Inl e
                | Inr (h, nd') \<Rightarrow> Inr (set_object i (t\<lparr>ts_handle := Some h\<rparr>) nd')))"

definition register_task :: "cron_host \<Rightarrow> task_descriptor \<Rightarrow> cron_node \<Rightarrow> (scheduling_error, cron_node) result" where
  "register_task H d nd =
     (if js_has (cn_tasks nd) (td_name d) then Inl (DuplicateName (td_name d))
      else if td_distributed d \<and> td_lock_ttl d < 1000 then Inl InvalidLockTtl
      else
        (case (if cn_started nd
               then (case create_scheduled_handle H d nd of Inl e \<Rightarrow> Inl e | Inr (h, nd') \<Rightarrow> Inr (Some h, nd'))
               else Inr (None, nd)) of
           Inl e \<Rightarrow> Inl e
         | Inr (h, nd') \<Rightarrow>
             Inr (nd'\<lparr>cn_objects := js_set (cn_next nd') \<lparr>ts_descriptor = d, ts_enabled = True, ts_running = False, ts_handle = h\<rparr>
                    (cn_objects nd'),
                  cn_tasks := js_set (td_name d) (cn_next nd') (cn_tasks nd'), cn_next := cn_next nd' + 1\<rparr>)))"

text \<open>\<open>addCron\<close>, \<open>addInterval\<close> and \<open>addTimeout\<close>. The numbers given are integers.\<close>

definition add_task :: "cron_host \<Rightarrow> task_descriptor \<Rightarrow> cron_node \<Rightarrow> (scheduling_error, cron_node) result" where
  "add_task H d nd =
     (if js_trim (td_name d) = [] then Inl InvalidName
      else if td_kind d = CronTask \<and> \<not> (case td_expression d of None \<Rightarrow> False | Some e \<Rightarrow> ch_valid H e) then Inl InvalidExpression
      else if td_kind d \<noteq> CronTask \<and> \<not> (case td_ms d of None \<Rightarrow> False | Some ms \<Rightarrow> 0 < ms) then Inl InvalidMs
      else register_task H d nd)"

definition remove_task :: "string \<Rightarrow> cron_node \<Rightarrow> bool \<times> cron_node" where
  "remove_task name nd =
     (case js_get (cn_tasks nd) name of
        None \<Rightarrow> (False, nd)
      | Some i \<Rightarrow> (True, (unschedule_task i nd)\<lparr>cn_tasks := js_delete name (cn_tasks nd)\<rparr>))"

definition enable_task :: "cron_host \<Rightarrow> string \<Rightarrow> cron_node \<Rightarrow> (scheduling_error, bool) result \<times> cron_node" where
  "enable_task H name nd =
     (case js_get (cn_tasks nd) name of
        None \<Rightarrow> (Inr False, nd)
      | Some i \<Rightarrow>
          (case js_get (cn_objects nd) i of
             None \<Rightarrow> (Inr False, nd)
           | Some t \<Rightarrow>
               if ts_enabled t then (Inr True, nd)
               else
                 (let nd' = set_object i (t\<lparr>ts_enabled := True\<rparr>) nd in
                  if cn_started nd then
                    (case schedule_task H i nd' of
                       Inl e \<Rightarrow> (Inl e, set_object i t nd')
                     | Inr nd'' \<Rightarrow> (Inr True, nd''))
                  else (Inr True, nd'))))"

definition disable_task :: "string \<Rightarrow> cron_node \<Rightarrow> bool \<times> cron_node" where
  "disable_task name nd =
     (case js_get (cn_tasks nd) name of
        None \<Rightarrow> (False, nd)
      | Some i \<Rightarrow>
          (case js_get (cn_objects nd) i of
             None \<Rightarrow> (False, nd)
           | Some t \<Rightarrow>
               if \<not> ts_enabled t \<and> ts_handle t = None then (True, nd)
               else (True, unschedule_task i (set_object i (t\<lparr>ts_enabled := False\<rparr>) nd))))"

definition update_cron_expression ::
  "cron_host \<Rightarrow> string \<Rightarrow> string \<Rightarrow> cron_node \<Rightarrow> (scheduling_error, unit) result \<times> cron_node" where
  "update_cron_expression H name e nd =
     (if \<not> ch_valid H e then (Inl InvalidExpression, nd)
      else
        (case js_get (cn_tasks nd) name of
           None \<Rightarrow> (Inl NoSuchTask, nd)
         | Some i \<Rightarrow>
             (case js_get (cn_objects nd) i of
                None \<Rightarrow> (Inl NoSuchTask, nd)
              | Some t \<Rightarrow>
                  if td_kind (ts_descriptor t) \<noteq> CronTask then (Inl NotCron, nd)
                  else
                    (let d = (ts_descriptor t)\<lparr>td_expression := Some e\<rparr> in
                     if \<not> ts_enabled t \<or> \<not> cn_started nd then (Inr (), set_object i (t\<lparr>ts_descriptor := d\<rparr>) nd)
                     else
                       (case create_scheduled_handle H d nd of
                          Inl x \<Rightarrow> (Inl x, nd)
                        | Inr (h, nd') \<Rightarrow>
                            (Inr (),
                             (case ts_handle t of None \<Rightarrow> id | Some old \<Rightarrow> stop_timer old)
                               (set_object i (t\<lparr>ts_descriptor := d, ts_handle := Some h\<rparr>) nd')))))))"

definition stop_all_scheduled_tasks :: "cron_node \<Rightarrow> cron_node" where
  "stop_all_scheduled_tasks nd = fold unschedule_task (map snd (cn_tasks nd)) nd"

text \<open>\<open>completeTimeoutTask\<close>\<close>

definition complete_timeout_task :: "string \<Rightarrow> cron_node \<Rightarrow> cron_node" where
  "complete_timeout_task name nd =
     (case js_get (cn_tasks nd) name of
        None \<Rightarrow> nd
      | Some i \<Rightarrow>
          (case js_get (cn_objects nd) i of
             None \<Rightarrow> nd
           | Some t \<Rightarrow>
               if td_kind (ts_descriptor t) \<noteq> TimeoutTask then nd
               else set_object i (t\<lparr>ts_handle := None, ts_enabled := False\<rparr>) nd))"

section \<open>The renewal monitor\<close>

definition update_tick :: "nat \<Rightarrow> tick \<Rightarrow> cron_node \<Rightarrow> cron_node" where
  "update_tick r tk nd = nd\<lparr>cn_ticks := js_set r tk (cn_ticks nd)\<rparr>"

text \<open>\<open>createLockRenewalState\<close>\<close>

definition renewal_interval :: "int \<Rightarrow> nat" where
  "renewal_interval ttl = nat (max 250 (ttl div 2))"

definition create_lock_renewal_state :: "int \<Rightarrow> nat \<Rightarrow> renewal_state" where
  "create_lock_renewal_state ttl now =
     \<lparr>rs_error = None, rs_next_due = now + renewal_interval ttl, rs_interval = renewal_interval ttl,
      rs_stopped = False, rs_current = None, rs_queued = 0\<rparr>"

text \<open>Another attempt on the renewal chain.\<close>

definition chain_attempt :: "renewal_state \<Rightarrow> renewal_state" where
  "chain_attempt m =
     (let m' = m\<lparr>rs_next_due := rs_next_due m + rs_interval m\<rparr> in
      if rs_current m' = None then m'\<lparr>rs_current := Some Sent\<rparr> else m'\<lparr>rs_queued := rs_queued m' + 1\<rparr>)"

text \<open>\<open>queueDueLockRenewalAttempts\<close>\<close>

function queue_due_lock_renewal_attempts :: "nat \<Rightarrow> renewal_state \<Rightarrow> renewal_state" where
  "queue_due_lock_renewal_attempts now m =
     (if 0 < rs_interval m \<and> rs_next_due m \<le> now then queue_due_lock_renewal_attempts now (chain_attempt m) else m)"
  by pat_completeness auto
termination
  by (relation "measure (\<lambda>(now, m). Suc now - rs_next_due m)") (auto simp: chain_attempt_def Let_def)

declare queue_due_lock_renewal_attempts.simps [simp del]

text \<open>\<open>runLockRenewalAttempt\<close> from its outcome on; \<open>None\<close> is \<open>renewed\<close>.\<close>

definition settle_attempt :: "lock_error option \<Rightarrow> renewal_state \<Rightarrow> renewal_state" where
  "settle_attempt outcome m =
     m\<lparr>rs_error := (if rs_error m = None then outcome else rs_error m),
       rs_current := (if rs_queued m = 0 then None else Some Sent),
       rs_queued := rs_queued m - 1\<rparr>"

definition count_outcome :: "lock_error option \<Rightarrow> cron_node \<Rightarrow> cron_node" where
  "count_outcome outcome nd =
     (case outcome of
        None \<Rightarrow> nd
      | Some OwnershipLost \<Rightarrow> nd\<lparr>cn_losses := cn_losses nd + 1\<rparr>
      | Some RenewalFailed \<Rightarrow> nd\<lparr>cn_failures := cn_failures nd + 1\<rparr>)"

section \<open>Running a tick\<close>

text \<open>\<open>handleTaskTick\<close> up to its first await. A tick of a task that is disabled or runs already does
  nothing.\<close>

definition should_use_distributed_execution :: "cron_node \<Rightarrow> task_descriptor \<Rightarrow> bool" where
  "should_use_distributed_execution nd d \<longleftrightarrow> cn_distributed nd \<and> td_distributed d \<and> cn_client nd"

definition new_tick :: "nat \<Rightarrow> task_descriptor \<Rightarrow> bool \<Rightarrow> bool \<Rightarrow> nat \<Rightarrow> tick" where
  "new_tick i d locked timeout now =
     \<lparr>tk_task = i, tk_descriptor = d, tk_locked = locked, tk_timeout = timeout,
      tk_phase = (if locked then Acquiring Sent else Running),
      tk_renewal = create_lock_renewal_state (td_lock_ttl d) now,
      tk_granted = None, tk_held = 0, tk_begun = now, tk_finished = 0, tk_succeeded = False\<rparr>"

definition handle_task_tick :: "nat \<Rightarrow> string \<Rightarrow> bool \<Rightarrow> cron_node \<Rightarrow> cron_node" where
  "handle_task_tick now name timeout nd =
     (case js_get (cn_tasks nd) name of
        None \<Rightarrow> nd
      | Some i \<Rightarrow>
          (case js_get (cn_objects nd) i of
             None \<Rightarrow> nd
           | Some t \<Rightarrow>
               if \<not> ts_enabled t \<or> ts_running t then (if timeout then complete_timeout_task name nd else nd)
               else
                 (let d = ts_descriptor t;
                      tk = new_tick i d (should_use_distributed_execution nd d) timeout now in
                  update_tick (cn_next nd) tk
                    ((set_object i (t\<lparr>ts_running := True\<rparr>) nd)\<lparr>cn_next := cn_next nd + 1\<rparr>))))"

text \<open>A timer fires: an interval or a cron job goes on, a timeout is over.\<close>

definition fire_timer :: "nat \<Rightarrow> nat \<Rightarrow> cron_node \<Rightarrow> cron_node option" where
  "fire_timer now h nd =
     (case js_get (cn_timers nd) h of
        None \<Rightarrow> None
      | Some t \<Rightarrow>
          if \<not> tm_live t then None
          else if tm_kind t = TimeoutTask
          then Some (handle_task_tick now (tm_name t) True (nd\<lparr>cn_timers := js_set h (t\<lparr>tm_live := False\<rparr>) (cn_timers nd)\<rparr>))
          else Some (handle_task_tick now (tm_name t) False nd))"

text \<open>The end of \<open>handleTaskTick\<close>, and of the callback of a timeout.\<close>

definition end_tick :: "nat \<Rightarrow> tick \<Rightarrow> cron_node \<Rightarrow> cron_node" where
  "end_tick r tk nd =
     (let nd' = update_tick r (tk\<lparr>tk_phase := Ended\<rparr>) nd;
          nd'' = (case js_get (cn_objects nd') (tk_task tk) of
              None \<Rightarrow> nd' | Some t \<Rightarrow> set_object (tk_task tk) (t\<lparr>ts_running := False\<rparr>) nd') in
      if tk_timeout tk then complete_timeout_task (td_name (tk_descriptor tk)) nd'' else nd'')"

text \<open>\<open>executeTask\<close> has returned: a timeout task is switched off, a lock is released. The monitor was
  stopped.\<close>

definition leave_task :: "nat \<Rightarrow> nat \<Rightarrow> tick \<Rightarrow> cron_node \<Rightarrow> cron_node" where
  "leave_task now r tk nd =
     (let nd' = (if td_kind (tk_descriptor tk) = TimeoutTask
                 then (case js_get (cn_objects nd) (tk_task tk) of
                    None \<Rightarrow> nd
                  | Some t \<Rightarrow> set_object (tk_task tk) (t\<lparr>ts_enabled := False, ts_handle := None\<rparr>) nd)
                 else nd) in
      if tk_locked tk
      then update_tick r (tk\<lparr>tk_phase := Releasing Sent, tk_renewal := (tk_renewal tk)\<lparr>rs_stopped := True\<rparr>\<rparr>) nd'
      else end_tick r tk nd')"

text \<open>The post-run check is over.\<close>

definition after_renewals :: "nat \<Rightarrow> tick \<Rightarrow> cron_node \<Rightarrow> cron_node" where
  "after_renewals r tk nd =
     (if rs_error (tk_renewal tk) = None
      then update_tick r (tk\<lparr>tk_phase := Succeeding, tk_succeeded := True\<rparr>) nd
      else update_tick r (tk\<lparr>tk_phase := Closing\<rparr>) nd)"

definition await_renewals :: "nat \<Rightarrow> tick \<Rightarrow> cron_node \<Rightarrow> cron_node" where
  "await_renewals r tk nd =
     (if rs_current (tk_renewal tk) = None then after_renewals r tk nd
      else update_tick r (tk\<lparr>tk_phase := AwaitingRenewals\<rparr>) nd)"

text \<open>How the part of \<open>executeTask\<close> before the post-run check ends: the task has no target to
  invoke, the before hook and the task complete, or one of them throws.\<close>

datatype task_outcome = Skipped | Completed | Threw

definition task_ends :: "nat \<Rightarrow> nat \<Rightarrow> task_outcome \<Rightarrow> cron_node \<Rightarrow> cron_node option" where
  "task_ends now r outcome nd =
     (case js_get (cn_ticks nd) r of
        None \<Rightarrow> None
      | Some tk \<Rightarrow>
          if tk_phase tk \<noteq> Running then None
          else Some (case outcome of
              Skipped \<Rightarrow> leave_task now r (tk\<lparr>tk_finished := now\<rparr>) nd
            | Threw \<Rightarrow> update_tick r (tk\<lparr>tk_phase := Closing, tk_finished := now\<rparr>) nd
            | Completed \<Rightarrow>
                if tk_locked tk
                then await_renewals r (tk\<lparr>tk_finished := now,
                       tk_renewal := queue_due_lock_renewal_attempts now ((tk_renewal tk)\<lparr>rs_stopped := True\<rparr>)\<rparr>) nd
                else update_tick r (tk\<lparr>tk_phase := Succeeding, tk_finished := now, tk_succeeded := True\<rparr>) nd))"

text \<open>The success hook, and the error and after hooks, end; a failing success hook is an error of the
  task, a failing error or after hook is only logged.\<close>

definition hooks_end :: "nat \<Rightarrow> nat \<Rightarrow> cron_node \<Rightarrow> cron_node option" where
  "hooks_end now r nd =
     (case js_get (cn_ticks nd) r of
        None \<Rightarrow> None
      | Some tk \<Rightarrow>
          (case tk_phase tk of
             Succeeding \<Rightarrow> Some (update_tick r (tk\<lparr>tk_phase := Closing\<rparr>) nd)
           | Closing \<Rightarrow> Some (leave_task now r tk nd)
           | _ \<Rightarrow> None))"

text \<open>Redis runs the command of a tick.\<close>

fun run_command :: "'r redis \<Rightarrow> nat \<Rightarrow> nat \<Rightarrow> cron_node \<times> 'r \<Rightarrow> (cron_node \<times> 'r) option" where
  "run_command R now r (nd, red) =
     (case js_get (cn_ticks nd) r of
        None \<Rightarrow> None
      | Some tk \<Rightarrow>
          (let k = td_lock_key (tk_descriptor tk); ttl = nat (td_lock_ttl (tk_descriptor tk)) in
           case tk_phase tk of
             Acquiring Sent \<Rightarrow>
               (let (ok, red') = rd_set R red now k (cn_owner nd) ttl in
                Some (update_tick r (tk\<lparr>tk_phase := Acquiring (Replied ok),
                        tk_granted := (if ok then Some now else None), tk_held := (if ok then now + ttl else 0)\<rparr>) nd, red'))
           | Releasing Sent \<Rightarrow>
               (let (ok, red') = release_lock_script R k (cn_owner nd) now red in
                Some (update_tick r (tk\<lparr>tk_phase := Releasing (Replied ok), tk_held := min (tk_held tk) now\<rparr>) nd, red'))
           | _ \<Rightarrow> None))"

text \<open>The reply arrives: \<open>tryAcquireLock\<close> and what follows it, or \<open>releaseLockKey\<close> and the end of the
  tick.\<close>

definition command_replies :: "nat \<Rightarrow> nat \<Rightarrow> cron_node \<Rightarrow> cron_node option" where
  "command_replies now r nd =
     (case js_get (cn_ticks nd) r of
        None \<Rightarrow> None
      | Some tk \<Rightarrow>
          (let k = td_lock_key (tk_descriptor tk) in
           case tk_phase tk of
             Acquiring (Replied True) \<Rightarrow>
               Some (update_tick r
                 (tk\<lparr>tk_phase := Running, tk_begun := now,
                     tk_renewal := create_lock_renewal_state (td_lock_ttl (tk_descriptor tk)) now\<rparr>)
                 (nd\<lparr>cn_owned := List.insert k (cn_owned nd), cn_running_keys := List.insert k (cn_running_keys nd)\<rparr>))
           | Acquiring (Replied False) \<Rightarrow> Some (end_tick r tk nd)
           | Releasing (Replied ok) \<Rightarrow>
               Some (end_tick r tk
                 (nd\<lparr>cn_owned := removeAll k (cn_owned nd), cn_running_keys := removeAll k (cn_running_keys nd)\<rparr>))
           | _ \<Rightarrow> None))"

text \<open>The command fails at the client, whether Redis has run it or not.\<close>

definition command_fails :: "nat \<Rightarrow> nat \<Rightarrow> cron_node \<Rightarrow> cron_node option" where
  "command_fails now r nd =
     (case js_get (cn_ticks nd) r of
        None \<Rightarrow> None
      | Some tk \<Rightarrow>
          (let k = td_lock_key (tk_descriptor tk) in
           case tk_phase tk of
             Acquiring c \<Rightarrow> Some (end_tick r (tk\<lparr>tk_granted := None\<rparr>) nd)
           | Releasing c \<Rightarrow> Some (end_tick r (tk\<lparr>tk_held := min (tk_held tk) now\<rparr>) (nd\<lparr>cn_running_keys := removeAll k (cn_running_keys nd)\<rparr>))
           | _ \<Rightarrow> None))"

text \<open>The timer of the monitor; it never fires before an attempt is due.\<close>

definition renewal_timer :: "nat \<Rightarrow> nat \<Rightarrow> cron_node \<Rightarrow> cron_node option" where
  "renewal_timer now r nd =
     (case js_get (cn_ticks nd) r of
        None \<Rightarrow> None
      | Some tk \<Rightarrow>
          if tk_locked tk \<and> \<not> rs_stopped (tk_renewal tk) \<and> rs_next_due (tk_renewal tk) \<le> now \<and>
             tk_phase tk \<in> {Running, AwaitingRenewals, Succeeding, Closing}
          then Some (update_tick r (tk\<lparr>tk_renewal := chain_attempt (tk_renewal tk)\<rparr>) nd)
          else None)"

text \<open>Redis runs the renewal under way.\<close>

fun run_renewal :: "'r redis \<Rightarrow> nat \<Rightarrow> nat \<Rightarrow> cron_node \<times> 'r \<Rightarrow> (cron_node \<times> 'r) option" where
  "run_renewal R now r (nd, red) =
     (case js_get (cn_ticks nd) r of
        None \<Rightarrow> None
      | Some tk \<Rightarrow>
          if rs_current (tk_renewal tk) \<noteq> Some Sent then None
          else
            (let k = td_lock_key (tk_descriptor tk); ttl = nat (td_lock_ttl (tk_descriptor tk));
                 (ok, red') = renew_lock_script R k (cn_owner nd) ttl now red in
             Some (update_tick r
               (tk\<lparr>tk_renewal := (tk_renewal tk)\<lparr>rs_current := Some (Replied ok)\<rparr>,
                   tk_held := (if ok \<and> tk_phase tk \<in> {Running, AwaitingRenewals, Succeeding, Closing, Releasing Sent}
                               then now + ttl else tk_held tk)\<rparr>) nd, red')))"

text \<open>A renewal settles; the post-run check goes on when the chain is done.\<close>

definition settle_renewal :: "nat \<Rightarrow> tick \<Rightarrow> lock_error option \<Rightarrow> cron_node \<Rightarrow> cron_node" where
  "settle_renewal r tk outcome nd =
     (let tk' = tk\<lparr>tk_renewal := settle_attempt outcome (tk_renewal tk)\<rparr>;
          nd' = count_outcome outcome nd in
      if tk_phase tk = AwaitingRenewals then await_renewals r tk' nd' else update_tick r tk' nd')"

definition renewal_replies :: "nat \<Rightarrow> cron_node \<Rightarrow> cron_node option" where
  "renewal_replies r nd =
     (case js_get (cn_ticks nd) r of
        None \<Rightarrow> None
      | Some tk \<Rightarrow>
          (case rs_current (tk_renewal tk) of
             Some (Replied ok) \<Rightarrow> Some (settle_renewal r tk (if ok then None else Some OwnershipLost) nd)
           | _ \<Rightarrow> None))"

definition renewal_fails :: "nat \<Rightarrow> cron_node \<Rightarrow> cron_node option" where
  "renewal_fails r nd =
     (case js_get (cn_ticks nd) r of
        None \<Rightarrow> None
      | Some tk \<Rightarrow>
          (case rs_current (tk_renewal tk) of
             None \<Rightarrow> None
           | Some c \<Rightarrow> Some (settle_renewal r tk (Some RenewalFailed) nd)))"

text \<open>\<open>CronTaskRunner.executeTask\<close> as a whole, for a task that has a target: what each of the hooks and
  the task does if it is there. A falsy value thrown is \<open>None\<close>. The result is the error of the task
  and what was called.\<close>

datatype runner_call = BeforeRun | TaskBody | PostRunCheck | OnSuccess | OnError | AfterRun

type_synonym runner_env = "runner_call \<Rightarrow> (nat option, unit) result option"

fun call_hooks :: "runner_env \<Rightarrow> runner_call list \<Rightarrow> (nat option, unit) result \<times> runner_call list" where
  "call_hooks E [] = (Inr (), [])"
| "call_hooks E (h # hs) =
     (case E h of
        None \<Rightarrow> call_hooks E hs
      | Some (Inl e) \<Rightarrow> (Inl e, [h])
      | Some (Inr u) \<Rightarrow> (let (res, calls) = call_hooks E hs in (res, h # calls)))"

definition execute_task :: "runner_env \<Rightarrow> nat option \<times> runner_call list" where
  "execute_task E =
     (let (res, calls) = call_hooks E [BeforeRun, TaskBody, PostRunCheck, OnSuccess];
          err = (case res of Inl e \<Rightarrow> e | Inr u \<Rightarrow> None) in
      (err, calls @ (if err = None then [] else snd (call_hooks E [OnError])) @ snd (call_hooks E [AfterRun])))"

section \<open>Lifecycle\<close>

text \<open>\<open>startLifecycle\<close> after the client was resolved, with the tasks the decorators declare. A node
  whose start fails is reset and not used.\<close>

definition start_lifecycle :: "cron_host \<Rightarrow> int \<Rightarrow> task_descriptor list \<Rightarrow> cron_node \<Rightarrow> (scheduling_error, cron_node) result" where
  "start_lifecycle H ttl ds nd =
     (if cn_distributed nd \<and> ttl < 1000 then Inl InvalidLockTtl
      else
        (case foldr_result (register_task H) ds nd of
           Inl e \<Rightarrow> Inl e
         | Inr nd' \<Rightarrow> foldr_result (schedule_task H) (map snd (cn_tasks nd')) (nd'\<lparr>cn_started := True\<rparr>)))"

definition active_ticks :: "cron_node \<Rightarrow> nat list" where
  "active_ticks nd = map fst (filter (\<lambda>(r, tk). tk_phase tk \<noteq> Ended) (cn_ticks nd))"

text \<open>\<open>runShutdownLifecycle\<close> up to the drain of the active tasks, and from its end on. The locks it
  releases are released when the commands are sent.\<close>

definition begin_shutdown :: "cron_node \<Rightarrow> cron_node" where
  "begin_shutdown nd =
     (if cn_lifecycle nd = Stopping \<or> cn_lifecycle nd = Stopped then nd
      else stop_all_scheduled_tasks (nd\<lparr>cn_lifecycle := Stopping, cn_started := False\<rparr>))"

fun release_owned_locks :: "'r redis \<Rightarrow> nat \<Rightarrow> string list \<Rightarrow> cron_node \<times> 'r \<Rightarrow> cron_node \<times> 'r" where
  "release_owned_locks R now [] s = s"
| "release_owned_locks R now (k # ks) (nd, red) =
     release_owned_locks R now ks
       (nd\<lparr>cn_owned := removeAll k (cn_owned nd)\<rparr>, snd (release_lock_script R k (cn_owner nd) now red))"

fun finish_shutdown :: "'r redis \<Rightarrow> nat \<Rightarrow> bool \<Rightarrow> cron_node \<times> 'r \<Rightarrow> (cron_node \<times> 'r) option" where
  "finish_shutdown R now timed_out (nd, red) =
     (if cn_lifecycle nd \<noteq> Stopping \<or> timed_out \<noteq> (active_ticks nd \<noteq> []) then None
     else
       (let excluded = (if timed_out then cn_running_keys nd else []);
            keys = filter (\<lambda>k. k \<notin> set excluded) (cn_owned nd);
            (nd', red') = (if cn_client nd then release_owned_locks R now keys (nd, red) else (nd, red)) in
        Some (nd'\<lparr>cn_lifecycle := Stopped\<rparr>, red')))"

section \<open>The nodes and their server\<close>

record 'r cron_system =
  cs_now :: nat
  cs_redis :: 'r
  cs_nodes :: "(nat, cron_node) js_map"

datatype cron_call =
    AddTask task_descriptor
  | RemoveTask string
  | EnableTask string
  | DisableTask string
  | UpdateExpression string string
  | BeginShutdown

datatype cron_action =
    Advance nat
  | Call nat cron_call
  | Fire nat nat
  | RunCommand nat nat
  | CommandReplies nat nat
  | CommandFails nat nat
  | TaskEnds nat nat task_outcome
  | HooksEnd nat nat
  | RenewalTimer nat nat
  | RunRenewal nat nat
  | RenewalReplies nat nat
  | RenewalFails nat nat
  | FinishShutdown nat bool

definition cron_call_step :: "cron_host \<Rightarrow> cron_call \<Rightarrow> cron_node \<Rightarrow> cron_node option" where
  "cron_call_step H c nd = Some
     (case c of
        AddTask d \<Rightarrow> (case add_task H d nd of Inl e \<Rightarrow> nd | Inr nd' \<Rightarrow> nd')
      | RemoveTask name \<Rightarrow> snd (remove_task name nd)
      | EnableTask name \<Rightarrow> snd (enable_task H name nd)
      | DisableTask name \<Rightarrow> snd (disable_task name nd)
      | UpdateExpression name e \<Rightarrow> snd (update_cron_expression H name e nd)
      | BeginShutdown \<Rightarrow> begin_shutdown nd)"

definition on_node :: "nat \<Rightarrow> (cron_node \<times> 'r \<Rightarrow> (cron_node \<times> 'r) option) \<Rightarrow> 'r cron_system \<Rightarrow> 'r cron_system option" where
  "on_node n f s =
     (case js_get (cs_nodes s) n of
        None \<Rightarrow> None
      | Some nd \<Rightarrow>
          (case f (nd, cs_redis s) of
             None \<Rightarrow> None
           | Some (nd', red') \<Rightarrow> Some (s\<lparr>cs_nodes := js_set n nd' (cs_nodes s), cs_redis := red'\<rparr>)))"

fun node_only :: "(cron_node \<Rightarrow> cron_node option) \<Rightarrow> cron_node \<times> 'r \<Rightarrow> (cron_node \<times> 'r) option" where
  "node_only f (nd, red) = (case f nd of None \<Rightarrow> None | Some nd' \<Rightarrow> Some (nd', red))"

fun cron_step :: "cron_host \<Rightarrow> 'r redis \<Rightarrow> cron_action \<Rightarrow> 'r cron_system \<Rightarrow> 'r cron_system option" where
  "cron_step H R (Advance d) s = Some (s\<lparr>cs_now := cs_now s + d\<rparr>)"
| "cron_step H R (Call n c) s = on_node n (node_only (cron_call_step H c)) s"
| "cron_step H R (Fire n h) s = on_node n (node_only (fire_timer (cs_now s) h)) s"
| "cron_step H R (RunCommand n r) s = on_node n (run_command R (cs_now s) r) s"
| "cron_step H R (CommandReplies n r) s = on_node n (node_only (command_replies (cs_now s) r)) s"
| "cron_step H R (CommandFails n r) s = on_node n (node_only (command_fails (cs_now s) r)) s"
| "cron_step H R (TaskEnds n r outcome) s = on_node n (node_only (task_ends (cs_now s) r outcome)) s"
| "cron_step H R (HooksEnd n r) s = on_node n (node_only (hooks_end (cs_now s) r)) s"
| "cron_step H R (RenewalTimer n r) s = on_node n (node_only (renewal_timer (cs_now s) r)) s"
| "cron_step H R (RunRenewal n r) s = on_node n (run_renewal R (cs_now s) r) s"
| "cron_step H R (RenewalReplies n r) s = on_node n (node_only (renewal_replies r)) s"
| "cron_step H R (RenewalFails n r) s = on_node n (node_only (renewal_fails r)) s"
| "cron_step H R (FinishShutdown n timed_out) s = on_node n (finish_shutdown R (cs_now s) timed_out) s"

end
