(* ===== verification/Cron_Facts.thy ===== *)
theory Cron_Facts
  imports Cron
begin

text \<open>
  What the distributed lock achieves: successful runs of a task on different nodes do not overlap.
  The proof abstracts from the ticks to leases, which only four kinds of step change.
\<close>

section \<open>What Redis documents\<close>

definition redis_ok :: "'r redis \<Rightarrow> bool" where
  "redis_ok R \<longleftrightarrow>
     (\<forall>r t k v ttl. fst (rd_set R r t k v ttl) \<longleftrightarrow> rd_get R r t k = None) \<and>
     (\<forall>r t k v ttl t' k'. rd_get R r t k = None \<longrightarrow> t \<le> t' \<longrightarrow>
        rd_get R (snd (rd_set R r t k v ttl)) t' k' =
          (if k' = k then (if t' < t + ttl then Some v else None) else rd_get R r t' k')) \<and>
     (\<forall>r t k v ttl. rd_get R r t k \<noteq> None \<longrightarrow> snd (rd_set R r t k v ttl) = r) \<and>
     (\<forall>r t k v ttl t' k'. rd_get R r t k = Some v \<longrightarrow> t \<le> t' \<longrightarrow>
        rd_get R (rd_pexpire R r t k ttl) t' k' =
          (if k' = k then (if t' < t + ttl then Some v else None) else rd_get R r t' k')) \<and>
     (\<forall>r t k t' k'. t \<le> t' \<longrightarrow>
        rd_get R (rd_del R r t k) t' k' = (if k' = k then None else rd_get R r t' k')) \<and>
     (\<forall>r t k t'. t \<le> t' \<longrightarrow> rd_get R r t' k = rd_get R r t k \<or> rd_get R r t' k = None)"

lemma redis_laws:
  assumes "redis_ok R"
  shows "fst (rd_set R r t k v ttl) \<longleftrightarrow> rd_get R r t k = None"
    and "rd_get R r t k = None \<Longrightarrow> t \<le> t' \<Longrightarrow> rd_get R (snd (rd_set R r t k v ttl)) t' k' =
      (if k' = k then (if t' < t + ttl then Some v else None) else rd_get R r t' k')"
    and "rd_get R r t k \<noteq> None \<Longrightarrow> snd (rd_set R r t k v ttl) = r"
    and "rd_get R r t k = Some v \<Longrightarrow> t \<le> t' \<Longrightarrow> rd_get R (rd_pexpire R r t k ttl) t' k' =
      (if k' = k then (if t' < t + ttl then Some v else None) else rd_get R r t' k')"
    and "t \<le> t' \<Longrightarrow> rd_get R (rd_del R r t k) t' k' = (if k' = k then None else rd_get R r t' k')"
    and "t \<le> t' \<Longrightarrow> rd_get R r t' k = rd_get R r t k \<or> rd_get R r t' k = None"
proof -
  note ok = assms [unfolded redis_ok_def]
  show "fst (rd_set R r t k v ttl) \<longleftrightarrow> rd_get R r t k = None"
    by (rule ok [THEN conjunct1, rule_format])
  show "rd_get R r t k = None \<Longrightarrow> t \<le> t' \<Longrightarrow> rd_get R (snd (rd_set R r t k v ttl)) t' k' =
      (if k' = k then (if t' < t + ttl then Some v else None) else rd_get R r t' k')"
    by (rule ok [THEN conjunct2, THEN conjunct1, rule_format])
  show "rd_get R r t k \<noteq> None \<Longrightarrow> snd (rd_set R r t k v ttl) = r"
    by (rule ok [THEN conjunct2, THEN conjunct2, THEN conjunct1, rule_format])
  show "rd_get R r t k = Some v \<Longrightarrow> t \<le> t' \<Longrightarrow> rd_get R (rd_pexpire R r t k ttl) t' k' =
      (if k' = k then (if t' < t + ttl then Some v else None) else rd_get R r t' k')"
    by (rule ok [THEN conjunct2, THEN conjunct2, THEN conjunct2, THEN conjunct1, rule_format])
  show "t \<le> t' \<Longrightarrow> rd_get R (rd_del R r t k) t' k' = (if k' = k then None else rd_get R r t' k')"
    by (rule ok [THEN conjunct2, THEN conjunct2, THEN conjunct2, THEN conjunct2, THEN conjunct1, rule_format])
  show "t \<le> t' \<Longrightarrow> rd_get R r t' k = rd_get R r t k \<or> rd_get R r t' k = None"
    by (rule ok [THEN conjunct2, THEN conjunct2, THEN conjunct2, THEN conjunct2, THEN conjunct2, rule_format])
qed

section \<open>Leases\<close>

text \<open>A tick that was granted the lock, as the lock sees it.\<close>

record lease =
  ls_node :: nat
  ls_key :: string
  ls_granted :: nat
  ls_held :: nat
  ls_active :: bool

definition secure :: "'r redis \<Rightarrow> (nat \<Rightarrow> string) \<Rightarrow> 'r \<Rightarrow> nat \<Rightarrow> lease \<Rightarrow> bool" where
  "secure R own red now l \<longleftrightarrow> (\<forall>t. now \<le> t \<longrightarrow> t < ls_held l \<longrightarrow> rd_get R red t (ls_key l) = Some (own (ls_node l)))"

definition lost :: "'r redis \<Rightarrow> (nat \<Rightarrow> string) \<Rightarrow> 'r \<Rightarrow> nat \<Rightarrow> lease \<Rightarrow> bool" where
  "lost R own red now l \<longleftrightarrow> (\<forall>t. now \<le> t \<longrightarrow> rd_get R red t (ls_key l) \<noteq> Some (own (ls_node l)))"

definition before :: "'r redis \<Rightarrow> (nat \<Rightarrow> string) \<Rightarrow> 'r \<Rightarrow> nat \<Rightarrow> lease \<Rightarrow> lease \<Rightarrow> bool" where
  "before R own red now l m \<longleftrightarrow> ls_held l \<le> ls_granted m \<and> (ls_active l \<longrightarrow> lost R own red now l)"

definition leases_ok :: "'r redis \<Rightarrow> (nat \<Rightarrow> string) \<Rightarrow> nat set \<Rightarrow> 'r \<Rightarrow> nat \<Rightarrow> ('i \<Rightarrow> lease option) \<Rightarrow> bool" where
  "leases_ok R own N red now V \<longleftrightarrow>
     (\<forall>i l. V i = Some l \<longrightarrow> ls_node l \<in> N \<and>
        (if ls_active l then secure R own red now l \<or> lost R own red now l \<and> ls_held l \<le> now else ls_held l \<le> now)) \<and>
     (\<forall>i j l m. V i = Some l \<longrightarrow> V j = Some m \<longrightarrow> ls_key l = ls_key m \<longrightarrow> ls_node l \<noteq> ls_node m \<longrightarrow>
        before R own red now l m \<or> before R own red now m l)"

text \<open>A lease that has become less.\<close>

definition lesser :: "lease \<Rightarrow> lease \<Rightarrow> bool" where
  "lesser l' l \<longleftrightarrow> ls_node l' = ls_node l \<and> ls_key l' = ls_key l \<and> ls_granted l' = ls_granted l \<and>
     ls_held l' \<le> ls_held l \<and> (ls_active l' \<longrightarrow> ls_active l)"

lemma leases_shrink:
  assumes ok: "leases_ok R own N red now V" and "now \<le> now'"
    and less: "\<And>i l'. V' i = Some l' \<Longrightarrow> \<exists>l. V i = Some l \<and> lesser l' l \<and> (ls_active l' \<or> ls_held l' \<le> now' \<or> \<not> ls_active l)"
  shows "leases_ok R own N red now' V'"
  unfolding leases_ok_def
proof (intro conjI allI impI)
  fix i l' assume l': "V' i = Some l'"
  then obtain l where l: "V i = Some l" "lesser l' l" "ls_active l' \<or> ls_held l' \<le> now' \<or> \<not> ls_active l" using less by blast
  then show "ls_node l' \<in> N"
    using ok by (auto simp: leases_ok_def lesser_def)
  have "if ls_active l then secure R own red now l \<or> lost R own red now l \<and> ls_held l \<le> now else ls_held l \<le> now"
    using ok l(1) by (simp add: leases_ok_def)
  then show "if ls_active l' then secure R own red now' l' \<or> lost R own red now' l' \<and> ls_held l' \<le> now' else ls_held l' \<le> now'"
    using l(2,3) \<open>now \<le> now'\<close> by (auto simp: lesser_def secure_def lost_def split: if_splits)
next
  fix i j l' m' assume a: "V' i = Some l'" "V' j = Some m'" "ls_key l' = ls_key m'" "ls_node l' \<noteq> ls_node m'"
  then obtain l m where l: "V i = Some l" "lesser l' l" and m: "V j = Some m" "lesser m' m"
    using less by meson
  then have "before R own red now l m \<or> before R own red now m l"
    using ok a by (auto simp: leases_ok_def lesser_def)
  then show "before R own red now' l' m' \<or> before R own red now' m' l'"
    using l(2) m(2) \<open>now \<le> now'\<close> by (auto simp: before_def lesser_def lost_def)
qed

text \<open>Redis changes what it says of a key for others only where they are not secure any more.\<close>

lemma leases_redis:
  assumes ok: "leases_ok R own N red now V"
    and kept: "\<And>i l. V i = Some l \<Longrightarrow> ls_active l \<Longrightarrow> secure R own red now l \<Longrightarrow>
      secure R own red' now l \<or> lost R own red' now l \<and> ls_held l \<le> now"
    and lost: "\<And>i l. V i = Some l \<Longrightarrow> ls_active l \<Longrightarrow> lost R own red now l \<Longrightarrow> lost R own red' now l"
  shows "leases_ok R own N red' now V"
  unfolding leases_ok_def
proof (intro conjI allI impI)
  fix i l assume l: "V i = Some l"
  then show "ls_node l \<in> N"
    using ok by (simp add: leases_ok_def)
  have "if ls_active l then secure R own red now l \<or> lost R own red now l \<and> ls_held l \<le> now else ls_held l \<le> now"
    using ok l by (simp add: leases_ok_def)
  then show "if ls_active l then secure R own red' now l \<or> lost R own red' now l \<and> ls_held l \<le> now else ls_held l \<le> now"
    using kept [OF l] lost [OF l] by (auto split: if_splits)
next
  fix i j l m assume l: "V i = Some l" and m: "V j = Some m" and a: "ls_key l = ls_key m" "ls_node l \<noteq> ls_node m"
  have "before R own red now l m \<or> before R own red now m l"
    using ok l m a by (auto simp: leases_ok_def)
  then show "before R own red' now l m \<or> before R own red' now m l"
    using lost [OF l] lost [OF m] by (auto simp: before_def)
qed

lemma expired:
  assumes "secure R own red now l" "rd_get R red now (ls_key l) \<noteq> Some (own (ls_node l))"
  shows "ls_held l \<le> now"
  using assms unfolding secure_def by (metis le_refl not_le)

lemma leases_release:
  assumes redis: "redis_ok R" and own: "inj_on own N" and n: "n \<in> N" and ok: "leases_ok R own N red now V"
    and inactive: "\<And>i l. V i = Some l \<Longrightarrow> ls_node l = n \<Longrightarrow> ls_key l = k \<Longrightarrow> \<not> ls_active l"
  shows "leases_ok R own N (snd (release_lock_script R k (own n) now red)) now V"
proof (cases "rd_get R red now k = Some (own n)")
  case True
  let ?red = "snd (release_lock_script R k (own n) now red)"
  have get: "rd_get R ?red t k' = (if k' = k then None else rd_get R red t k')" if "now \<le> t" for t k'
    using redis_laws(5) [OF redis that] True by (simp add: release_lock_script_def)
  show ?thesis
  proof (rule leases_redis [OF ok])
    fix i l assume l: "V i = Some l" "ls_active l"
    show "lost R own red now l \<Longrightarrow> lost R own ?red now l"
      by (simp add: lost_def get)
    assume secure: "secure R own red now l"
    show "secure R own ?red now l \<or> lost R own ?red now l \<and> ls_held l \<le> now"
    proof (cases "ls_key l = k")
      case k: True
      have "ls_node l \<noteq> n" "ls_node l \<in> N"
        using inactive [OF l(1) _ k] l ok by (auto simp: leases_ok_def)
      then have "own (ls_node l) \<noteq> own n"
        using own n by (auto simp: inj_on_def)
      then have "ls_held l \<le> now"
        using expired [OF secure] True k by simp
      then show ?thesis
        using k by (simp add: lost_def get)
    qed (use secure in \<open>simp add: secure_def get\<close>)
  qed
qed (use ok in \<open>simp add: release_lock_script_def\<close>)

text \<open>The owner of a key becomes, or stays, a node: for the others the lock is lost.\<close>

lemma taken:
  assumes own: "inj_on own N" "n \<in> N" "ls_node l \<in> N" "ls_node l \<noteq> n"
    and get: "\<And>t. now \<le> t \<Longrightarrow> rd_get R red' t (ls_key l) \<in> {None, Some (own n)}"
  shows "lost R own red' now l"
proof -
  have "own (ls_node l) \<noteq> own n"
    using own by (auto simp: inj_on_def)
  then show ?thesis
    using get by (force simp: lost_def)
qed

lemma leases_grant:
  assumes redis: "redis_ok R" and own: "inj_on own N" and n: "n \<in> N" and ok: "leases_ok R own N red now V"
    and inactive: "\<And>i l. V i = Some l \<Longrightarrow> ls_node l = n \<Longrightarrow> ls_key l = k \<Longrightarrow> \<not> ls_active l"
    and free: "rd_get R red now k = None"
  shows "leases_ok R own N (snd (rd_set R red now k (own n) ttl)) now
    (V(i \<mapsto> \<lparr>ls_node = n, ls_key = k, ls_granted = now, ls_held = now + ttl, ls_active = True\<rparr>))"
proof -
  let ?red = "snd (rd_set R red now k (own n) ttl)" and ?new = "\<lparr>ls_node = n, ls_key = k, ls_granted = now, ls_held = now + ttl, ls_active = True\<rparr>"
  have get: "rd_get R ?red t k' = (if k' = k then (if t < now + ttl then Some (own n) else None) else rd_get R red t k')" if "now \<le> t" for t k'
    by (rule redis_laws(2) [OF redis free that])
  have lost: "lost R own ?red now l" if "V j = Some l" "ls_key l = k" "ls_node l \<noteq> n" for j l
    using ok that by (intro taken [OF own n]) (auto simp: leases_ok_def get)
  have held: "ls_held l \<le> now" if l: "V j = Some l" "ls_key l = k" for j l
  proof -
    have "if ls_active l then secure R own red now l \<or> lost R own red now l \<and> ls_held l \<le> now else ls_held l \<le> now"
      using ok l(1) by (simp add: leases_ok_def)
    then show ?thesis
      using expired [of R own red now l] free l(2) by (auto split: if_splits)
  qed
  have "leases_ok R own N ?red now V"
  proof (rule leases_redis [OF ok])
    fix j l assume l: "V j = Some l" "ls_active l"
    have other: "ls_node l \<noteq> n" if "ls_key l = k"
      using inactive [OF l(1) _ that] l(2) by blast
    show "lost R own red now l \<Longrightarrow> lost R own ?red now l"
      using lost [OF l(1) _ other] by (cases "ls_key l = k") (auto simp: lost_def get)
    show "secure R own red now l \<Longrightarrow> secure R own ?red now l \<or> lost R own ?red now l \<and> ls_held l \<le> now"
      using lost [OF l(1) _ other] held [OF l(1)] by (cases "ls_key l = k") (auto simp: secure_def get)
  qed
  moreover have "secure R own ?red now ?new"
    by (simp add: secure_def get)
  moreover have "before R own ?red now l ?new" if "V j = Some l" "ls_key l = k" "ls_node l \<noteq> n" for j l
    using lost [OF that] held [OF that(1,2)] by (simp add: before_def)
  ultimately show ?thesis
    using n unfolding leases_ok_def by (auto split: if_splits)
qed

lemma leases_renew:
  assumes redis: "redis_ok R" and own: "inj_on own N" and n: "n \<in> N" and ok: "leases_ok R own N red now V"
    and mine: "rd_get R red now k = Some (own n)" and ttl: "0 < ttl"
    and held: "\<And>j l. V j = Some l \<Longrightarrow> ls_node l = n \<Longrightarrow> ls_key l = k \<Longrightarrow> ls_held l \<le> now + ttl"
    and V': "V' = V \<or> (\<exists>i l. V i = Some l \<and> ls_node l = n \<and> ls_key l = k \<and> ls_active l \<and> V' = V(i \<mapsto> l\<lparr>ls_held := now + ttl\<rparr>))"
  shows "leases_ok R own N (rd_pexpire R red now k ttl) now V'"
proof -
  let ?red = "rd_pexpire R red now k ttl"
  have get: "rd_get R ?red t k' = (if k' = k then (if t < now + ttl then Some (own n) else None) else rd_get R red t k')" if "now \<le> t" for t k'
    by (rule redis_laws(4) [OF redis mine that])
  have kept: "leases_ok R own N ?red now V"
  proof (rule leases_redis [OF ok])
    fix j l assume l: "V j = Some l" "ls_active l"
    have N: "ls_node l \<in> N"
      using ok l(1) by (auto simp: leases_ok_def)
    have other: "lost R own ?red now l" if "ls_key l = k" "ls_node l \<noteq> n"
      using that by (intro taken [OF own n N]) (auto simp: get)
    show "lost R own ?red now l" if "lost R own red now l"
      using that other mine by (cases "ls_key l = k"; cases "ls_node l = n") (auto simp: lost_def get)
    assume secure: "secure R own red now l"
    show "secure R own ?red now l \<or> lost R own ?red now l \<and> ls_held l \<le> now"
    proof (cases "ls_key l = k \<and> ls_node l \<noteq> n")
      case True
      then have "own (ls_node l) \<noteq> own n"
        using own n N by (auto simp: inj_on_def)
      then have "ls_held l \<le> now"
        using expired [OF secure] True mine by simp
      then show ?thesis
        using other True by simp
    next
      case False
      then have "secure R own ?red now l"
        using secure held [OF l(1)] by (auto simp: secure_def get)
      then show ?thesis ..
    qed
  qed
  from V' show ?thesis
  proof
    assume "\<exists>i l. V i = Some l \<and> ls_node l = n \<and> ls_key l = k \<and> ls_active l \<and> V' = V(i \<mapsto> l\<lparr>ls_held := now + ttl\<rparr>)"
    then obtain i l where l: "V i = Some l" "ls_node l = n" "ls_key l = k" "ls_active l" and V': "V' = V(i \<mapsto> l\<lparr>ls_held := now + ttl\<rparr>)"
      by blast
    have first: "before R own ?red now m l" if "V j = Some m" "ls_key m = k" "ls_node m \<noteq> n" for j m
    proof -
      have "before R own ?red now m l \<or> before R own ?red now l m"
        using kept l that unfolding leases_ok_def by metis
      moreover have "\<not> lost R own ?red now l"
        using l ttl get [OF le_refl, of k] by (auto simp: lost_def)
      ultimately show ?thesis
        using l(4) by (auto simp: before_def)
    qed
    have "secure R own ?red now (l\<lparr>ls_held := now + ttl\<rparr>)"
      using l by (simp add: secure_def get)
    then show ?thesis
      using kept first l n unfolding leases_ok_def V' by (auto simp: before_def split: if_splits)
  qed (use kept in simp)
qed

section \<open>Ticks and nodes\<close>

definition tick_ttl :: "tick \<Rightarrow> nat" where
  "tick_ttl tk = nat (td_lock_ttl (tk_descriptor tk))"

definition tick_key :: "tick \<Rightarrow> string" where
  "tick_key tk = td_lock_key (tk_descriptor tk)"

text \<open>The tick runs under the lock, as far as it knows.\<close>

fun under_lock :: "tick_phase \<Rightarrow> bool" where
  "under_lock (Acquiring c) = False"
| "under_lock Ended = False"
| "under_lock _ = True"

definition tick_active :: "tick \<Rightarrow> bool" where
  "tick_active tk \<longleftrightarrow> tk_phase tk = Acquiring (Replied True) \<or> under_lock (tk_phase tk) \<and> (\<forall>b. tk_phase tk \<noteq> Releasing (Replied b))"

definition lease_of :: "nat \<Rightarrow> tick \<Rightarrow> lease option" where
  "lease_of n tk = (case tk_granted tk of None \<Rightarrow> None
     | Some g \<Rightarrow> Some \<lparr>ls_node = n, ls_key = tick_key tk, ls_granted = g, ls_held = tk_held tk, ls_active = tick_active tk\<rparr>)"

definition system_leases :: "'r cron_system \<Rightarrow> nat \<times> nat \<Rightarrow> lease option" where
  "system_leases s = (\<lambda>(n, r). case js_get (cs_nodes s) n of None \<Rightarrow> None
     | Some nd \<Rightarrow> (case js_get (cn_ticks nd) r of None \<Rightarrow> None | Some tk \<Rightarrow> lease_of n tk))"

text \<open>The attempts still to run, and the pace of a monitor: attempt \<open>e\<close> runs \<open>e\<close> intervals after the
  task began, or later.\<close>

definition pending :: "renewal_state \<Rightarrow> nat" where
  "pending m = (if rs_current m = Some Sent then 1 else 0) + rs_queued m"

definition tick_interval :: "tick \<Rightarrow> nat" where
  "tick_interval tk = renewal_interval (td_lock_ttl (tk_descriptor tk))"

text \<open>After \<open>e\<close> attempts, all of which renewed the lock, it is held this long.\<close>

definition covered :: "tick \<Rightarrow> nat \<Rightarrow> bool" where
  "covered tk e \<longleftrightarrow>
     (if e = 0 then (\<exists>g. tk_granted tk = Some g \<and> g + tick_ttl tk \<le> tk_held tk)
      else tk_begun tk + e * tick_interval tk + tick_ttl tk \<le> tk_held tk)"

definition unfailed :: "renewal_state \<Rightarrow> bool" where
  "unfailed m \<longleftrightarrow> rs_error m = None \<and> rs_current m \<noteq> Some (Replied False)"

definition paced_at :: "nat \<Rightarrow> tick \<Rightarrow> renewal_state \<Rightarrow> nat \<Rightarrow> bool" where
  "paced_at now tk m e \<longleftrightarrow> rs_interval m = tick_interval tk \<and> (rs_current m = None \<longrightarrow> rs_queued m = 0) \<and>
     rs_next_due m = tk_begun tk + (e + pending m + 1) * tick_interval tk \<and>
     tk_begun tk + (e + pending m) * tick_interval tk \<le> now \<and> (unfailed m \<longrightarrow> covered tk e)"

definition paced :: "nat \<Rightarrow> tick \<Rightarrow> bool" where
  "paced now tk \<longleftrightarrow> (\<exists>e. paced_at now tk (tk_renewal tk) e)"

lemma tick_fields [simp]:
  "tick_ttl (tk\<lparr>tk_renewal := m\<rparr>) = tick_ttl tk" "tick_interval (tk\<lparr>tk_renewal := m\<rparr>) = tick_interval tk"
  "tick_ttl (tk\<lparr>tk_held := h\<rparr>) = tick_ttl tk" "tick_interval (tk\<lparr>tk_held := h\<rparr>) = tick_interval tk"
  "tick_ttl (tk\<lparr>tk_phase := p\<rparr>) = tick_ttl tk" "tick_interval (tk\<lparr>tk_phase := p\<rparr>) = tick_interval tk"
  "tick_ttl (tk\<lparr>tk_finished := f\<rparr>) = tick_ttl tk" "tick_interval (tk\<lparr>tk_finished := f\<rparr>) = tick_interval tk"
  "tick_ttl (tk\<lparr>tk_begun := f\<rparr>) = tick_ttl tk" "tick_interval (tk\<lparr>tk_begun := f\<rparr>) = tick_interval tk"
  "tick_ttl (tk\<lparr>tk_granted := g\<rparr>) = tick_ttl tk" "tick_ttl (tk\<lparr>tk_succeeded := b\<rparr>) = tick_ttl tk"
  by (simp_all add: tick_ttl_def tick_interval_def)

lemma covered_fields [simp]:
  "covered (tk\<lparr>tk_renewal := m\<rparr>) e = covered tk e" "covered (tk\<lparr>tk_phase := p\<rparr>) e = covered tk e"
  "covered (tk\<lparr>tk_finished := f\<rparr>) e = covered tk e"
  by (simp_all add: covered_def)

lemma paced_fields [simp]:
  "paced_at now (tk\<lparr>tk_renewal := x\<rparr>) m e = paced_at now tk m e" "paced_at now (tk\<lparr>tk_phase := p\<rparr>) m e = paced_at now tk m e"
  "paced_at now (tk\<lparr>tk_finished := f\<rparr>) m e = paced_at now tk m e"
  "paced now (tk\<lparr>tk_phase := p\<rparr>) = paced now tk" "paced now (tk\<lparr>tk_finished := f\<rparr>) = paced now tk"
  "paced now (tk\<lparr>tk_renewal := x\<rparr>) = (\<exists>e. paced_at now tk x e)"
  by (simp_all add: paced_at_def paced_def)

definition tick_timing :: "nat \<Rightarrow> tick \<Rightarrow> bool" where
  "tick_timing now tk \<longleftrightarrow>
     (tk_granted tk \<noteq> None \<longrightarrow> tk_locked tk \<and> tk_phase tk \<noteq> Acquiring Sent \<and>
        tk_phase tk \<noteq> Acquiring (Replied False) \<and> the (tk_granted tk) \<le> now \<and> 1000 \<le> tick_ttl tk \<and>
        tk_held tk \<le> now + tick_ttl tk \<and>
        ((\<forall>c. tk_phase tk \<noteq> Acquiring c) \<longrightarrow> the (tk_granted tk) \<le> tk_begun tk) \<and>
        (tk_succeeded tk \<longrightarrow> tk_begun tk \<le> tk_finished tk \<and> tk_finished tk \<le> tk_held tk \<and> tk_finished tk \<le> now)) \<and>
     (tk_phase tk = Acquiring (Replied True) \<longrightarrow> tk_granted tk \<noteq> None \<and> tk_held tk = the (tk_granted tk) + tick_ttl tk) \<and>
     (tk_locked tk \<longrightarrow> under_lock (tk_phase tk) \<or> tk_succeeded tk \<longrightarrow> tk_granted tk \<noteq> None) \<and>
     (tk_phase tk = AwaitingRenewals \<longrightarrow> tk_locked tk \<and> tk_begun tk \<le> tk_finished tk \<and> tk_finished tk \<le> now) \<and>
     (tk_succeeded tk \<longrightarrow> tk_phase tk \<in> {Succeeding, Closing, Ended} \<or> (\<exists>c. tk_phase tk = Releasing c)) \<and>
     (\<forall>c. tk_phase tk = Acquiring c \<longrightarrow> tk_locked tk)"

definition tick_ok :: "nat \<Rightarrow> tick \<Rightarrow> bool" where
  "tick_ok now tk \<longleftrightarrow> tick_timing now tk \<and>
     (tk_locked tk \<longrightarrow> tk_phase tk \<in> {Running, AwaitingRenewals} \<longrightarrow> tk_begun tk \<le> now \<and> paced now tk) \<and>
     (tk_phase tk = AwaitingRenewals \<longrightarrow> tk_finished tk < rs_next_due (tk_renewal tk)) \<and>
     (rs_current (tk_renewal tk) \<noteq> None \<longrightarrow> tk_locked tk)"

lemma tick_timing_renewal [simp]: "tick_timing now (tk\<lparr>tk_renewal := m\<rparr>) = tick_timing now tk"
  by (simp add: tick_timing_def)

definition lock_terms :: "task_descriptor \<Rightarrow> string \<times> int \<times> bool" where
  "lock_terms d = (td_lock_key d, td_lock_ttl d, td_distributed d)"

definition node_ok :: "nat \<Rightarrow> cron_node \<Rightarrow> bool" where
  "node_ok now nd \<longleftrightarrow>
     (\<forall>r tk. js_get (cn_ticks nd) r = Some tk \<longrightarrow> tick_ok now tk \<and> r < cn_next nd \<and>
        (tk_locked tk \<longrightarrow> td_distributed (tk_descriptor tk)) \<and>
        (tk_locked tk \<longrightarrow> under_lock (tk_phase tk) \<longrightarrow> tick_key tk \<in> set (cn_running_keys nd)) \<and>
        (\<exists>t. js_get (cn_objects nd) (tk_task tk) = Some t \<and> lock_terms (ts_descriptor t) = lock_terms (tk_descriptor tk) \<and>
           (tk_phase tk \<noteq> Ended \<longrightarrow> ts_running t))) \<and>
     (\<forall>r tk r' tk'. js_get (cn_ticks nd) r = Some tk \<longrightarrow> js_get (cn_ticks nd) r' = Some tk' \<longrightarrow>
        tk_phase tk \<noteq> Ended \<longrightarrow> tk_phase tk' \<noteq> Ended \<longrightarrow> tk_task tk = tk_task tk' \<longrightarrow> r = r') \<and>
     (\<forall>i t. js_get (cn_objects nd) i = Some t \<longrightarrow> i < cn_next nd \<and>
        (td_distributed (ts_descriptor t) \<longrightarrow> 1000 \<le> td_lock_ttl (ts_descriptor t)))"

text \<open>Calls of the registry leave the ticks alone.\<close>

definition keeps :: "cron_node \<Rightarrow> cron_node \<Rightarrow> bool" where
  "keeps nd nd' \<longleftrightarrow> cn_ticks nd' = cn_ticks nd \<and> cn_owner nd' = cn_owner nd \<and> cn_running_keys nd' = cn_running_keys nd \<and>
     cn_next nd \<le> cn_next nd' \<and>
     (\<forall>i t. js_get (cn_objects nd) i = Some t \<longrightarrow> (\<exists>t'. js_get (cn_objects nd') i = Some t' \<and>
        lock_terms (ts_descriptor t') = lock_terms (ts_descriptor t) \<and> ts_running t' = ts_running t)) \<and>
     (\<forall>i t'. js_get (cn_objects nd') i = Some t' \<longrightarrow> js_get (cn_objects nd) i = None \<longrightarrow>
        cn_next nd \<le> i \<and> i < cn_next nd' \<and> (td_distributed (ts_descriptor t') \<longrightarrow> 1000 \<le> td_lock_ttl (ts_descriptor t')))"

lemma keeps_refl [simp]: "keeps nd nd"
  by (simp add: keeps_def)

lemma keeps_trans:
  assumes ab: "keeps a b" and bc: "keeps b c"
  shows "keeps a c"
  unfolding keeps_def
proof (intro conjI allI impI)
  fix i t assume "js_get (cn_objects a) i = Some t"
  then obtain t' where "js_get (cn_objects b) i = Some t'" "lock_terms (ts_descriptor t') = lock_terms (ts_descriptor t)"
    "ts_running t' = ts_running t"
    using ab unfolding keeps_def by blast
  then show "\<exists>t'. js_get (cn_objects c) i = Some t' \<and>
        lock_terms (ts_descriptor t') = lock_terms (ts_descriptor t) \<and> ts_running t' = ts_running t"
    using bc unfolding keeps_def by metis
next
  fix i t' assume c: "js_get (cn_objects c) i = Some t'" and a: "js_get (cn_objects a) i = None"
  have next_ids: "cn_next a \<le> cn_next b" "cn_next b \<le> cn_next c"
    using ab bc by (simp_all add: keeps_def)
  have "cn_next a \<le> i \<and> i < cn_next c \<and> (td_distributed (ts_descriptor t') \<longrightarrow> 1000 \<le> td_lock_ttl (ts_descriptor t'))"
  proof (cases "js_get (cn_objects b) i")
    case None
    then have "cn_next b \<le> i \<and> i < cn_next c \<and> (td_distributed (ts_descriptor t') \<longrightarrow> 1000 \<le> td_lock_ttl (ts_descriptor t'))"
      using bc c unfolding keeps_def by blast
    then show ?thesis
      using next_ids by linarith
  next
    case (Some u)
    then have u: "cn_next a \<le> i" "i < cn_next b" "td_distributed (ts_descriptor u) \<longrightarrow> 1000 \<le> td_lock_ttl (ts_descriptor u)"
      using ab a unfolding keeps_def by blast+
    have "lock_terms (ts_descriptor t') = lock_terms (ts_descriptor u)"
      using bc Some c unfolding keeps_def by force
    then show ?thesis
      using u next_ids by (simp add: lock_terms_def)
  qed
  then show "cn_next a \<le> i" "i < cn_next c" "td_distributed (ts_descriptor t') \<Longrightarrow> 1000 \<le> td_lock_ttl (ts_descriptor t')"
    by blast+
qed (use ab bc in \<open>auto simp: keeps_def\<close>)

lemma node_okI:
  assumes "\<And>r tk. js_get (cn_ticks nd) r = Some tk \<Longrightarrow> tick_ok now tk" "\<And>r tk. js_get (cn_ticks nd) r = Some tk \<Longrightarrow> r < cn_next nd"
    and "\<And>r tk. js_get (cn_ticks nd) r = Some tk \<Longrightarrow> tk_locked tk \<Longrightarrow> td_distributed (tk_descriptor tk)"
    and "\<And>r tk. js_get (cn_ticks nd) r = Some tk \<Longrightarrow> tk_locked tk \<Longrightarrow> under_lock (tk_phase tk) \<Longrightarrow> tick_key tk \<in> set (cn_running_keys nd)"
    and "\<And>r tk. js_get (cn_ticks nd) r = Some tk \<Longrightarrow> \<exists>t. js_get (cn_objects nd) (tk_task tk) = Some t \<and>
      lock_terms (ts_descriptor t) = lock_terms (tk_descriptor tk) \<and> (tk_phase tk \<noteq> Ended \<longrightarrow> ts_running t)"
    and "\<And>r tk r' tk'. js_get (cn_ticks nd) r = Some tk \<Longrightarrow> js_get (cn_ticks nd) r' = Some tk' \<Longrightarrow>
      tk_phase tk \<noteq> Ended \<Longrightarrow> tk_phase tk' \<noteq> Ended \<Longrightarrow> tk_task tk = tk_task tk' \<Longrightarrow> r = r'"
    and "\<And>i t. js_get (cn_objects nd) i = Some t \<Longrightarrow> i < cn_next nd"
    and "\<And>i t. js_get (cn_objects nd) i = Some t \<Longrightarrow> td_distributed (ts_descriptor t) \<Longrightarrow> 1000 \<le> td_lock_ttl (ts_descriptor t)"
  shows "node_ok now nd"
  unfolding node_ok_def by (intro conjI allI impI) (erule (5) assms | erule (4) assms | erule (3) assms | erule (2) assms | erule (1) assms | erule assms)+

lemma node_okD:
  assumes "node_ok now nd"
  shows "js_get (cn_ticks nd) r = Some tk \<Longrightarrow> tick_ok now tk"
    and "js_get (cn_ticks nd) r = Some tk \<Longrightarrow> r < cn_next nd"
    and "js_get (cn_ticks nd) r = Some tk \<Longrightarrow> tk_locked tk \<Longrightarrow> td_distributed (tk_descriptor tk)"
    and "js_get (cn_ticks nd) r = Some tk \<Longrightarrow> tk_locked tk \<Longrightarrow> under_lock (tk_phase tk) \<Longrightarrow> tick_key tk \<in> set (cn_running_keys nd)"
    and "js_get (cn_ticks nd) r = Some tk \<Longrightarrow> \<exists>t. js_get (cn_objects nd) (tk_task tk) = Some t \<and>
      lock_terms (ts_descriptor t) = lock_terms (tk_descriptor tk) \<and> (tk_phase tk \<noteq> Ended \<longrightarrow> ts_running t)"
    and "js_get (cn_ticks nd) r = Some tk \<Longrightarrow> js_get (cn_ticks nd) r' = Some tk' \<Longrightarrow>
      tk_phase tk \<noteq> Ended \<Longrightarrow> tk_phase tk' \<noteq> Ended \<Longrightarrow> tk_task tk = tk_task tk' \<Longrightarrow> r = r'"
    and "js_get (cn_objects nd) i = Some t \<Longrightarrow> i < cn_next nd"
    and "js_get (cn_objects nd) i = Some t \<Longrightarrow> td_distributed (ts_descriptor t) \<Longrightarrow> 1000 \<le> td_lock_ttl (ts_descriptor t)"
  using assms unfolding node_ok_def by metis+

lemma keeps_ok:
  assumes keeps: "keeps nd nd'" and ok: "node_ok now nd"
  shows "node_ok now nd'"
proof -
  have same: "cn_ticks nd' = cn_ticks nd" "cn_running_keys nd' = cn_running_keys nd" "cn_next nd \<le> cn_next nd'"
    using keeps by (simp_all add: keeps_def)
  have old: "\<exists>t'. js_get (cn_objects nd') i = Some t' \<and> lock_terms (ts_descriptor t') = lock_terms (ts_descriptor t) \<and> ts_running t' = ts_running t"
    if "js_get (cn_objects nd) i = Some t" for i t
    using keeps that unfolding keeps_def by blast
  have object: "i < cn_next nd' \<and> (td_distributed (ts_descriptor t') \<longrightarrow> 1000 \<le> td_lock_ttl (ts_descriptor t'))"
    if t': "js_get (cn_objects nd') i = Some t'" for i t'
  proof (cases "js_get (cn_objects nd) i")
    case None
    then show ?thesis
      using keeps t' unfolding keeps_def by blast
  next
    case (Some t)
    then have "lock_terms (ts_descriptor t') = lock_terms (ts_descriptor t)"
      using old [OF Some] t' by force
    then show ?thesis
      using node_okD(7) [OF ok Some] node_okD(8) [OF ok Some] same(3) by (simp add: lock_terms_def)
  qed
  show ?thesis
  proof (rule node_okI, unfold same(1,2))
    fix r tk assume tk: "js_get (cn_ticks nd) r = Some tk"
    show "r < cn_next nd'"
      using node_okD(2) [OF ok tk] same(3) by linarith
    show "\<exists>t. js_get (cn_objects nd') (tk_task tk) = Some t \<and>
      lock_terms (ts_descriptor t) = lock_terms (tk_descriptor tk) \<and> (tk_phase tk \<noteq> Ended \<longrightarrow> ts_running t)"
      using node_okD(5) [OF ok tk] old by metis
  qed (use node_okD(1,3,4,6) [OF ok] object in blast)+
qed

section \<open>The registry\<close>

lemma keeps_set_object:
  assumes "js_get (cn_objects nd) i = Some t" "lock_terms (ts_descriptor t') = lock_terms (ts_descriptor t)" "ts_running t' = ts_running t"
  shows "keeps nd (set_object i t' nd)"
  using assms by (simp add: keeps_def set_object_def)

lemma keeps_fields [simp]:
  "keeps nd (nd\<lparr>cn_tasks := x\<rparr>)" "keeps nd (nd\<lparr>cn_timers := y\<rparr>)" "keeps nd (nd\<lparr>cn_started := b\<rparr>)"
  "keeps nd (nd\<lparr>cn_lifecycle := l, cn_started := b\<rparr>)" "keeps nd (nd\<lparr>cn_timers := y, cn_next := cn_next nd + 1\<rparr>)"
  by (simp_all add: keeps_def)

lemma keeps_stop_timer: "keeps nd (stop_timer h nd)"
  by (simp add: stop_timer_def split: option.split)

lemma keeps_create_handle:
  "create_scheduled_handle H d nd = Inr (h, nd') \<Longrightarrow> keeps nd nd' \<and> cn_objects nd' = cn_objects nd"
  by (auto simp: create_scheduled_handle_def keeps_def Let_def split: if_splits option.splits)

lemma keeps_unschedule: "keeps nd (unschedule_task i nd)"
proof -
  have "keeps nd (stop_timer h (set_object i (t\<lparr>ts_handle := None\<rparr>) nd))" if "js_get (cn_objects nd) i = Some t" for t h
    by (rule keeps_trans [OF keeps_set_object [OF that] keeps_stop_timer]) simp_all
  then show ?thesis
    by (simp add: unschedule_task_def split: option.split)
qed

lemma keeps_schedule:
  assumes "schedule_task H i nd = Inr nd'"
  shows "keeps nd nd'"
proof (cases "nd' = nd")
  case False
  then obtain t h nd1 where t: "js_get (cn_objects nd) i = Some t" and nd1: "create_scheduled_handle H (ts_descriptor t) nd = Inr (h, nd1)"
    and nd': "nd' = set_object i (t\<lparr>ts_handle := Some h\<rparr>) nd1"
    using assms by (auto simp: schedule_task_def split: option.splits if_splits sum.splits)
  show ?thesis
    unfolding nd' using keeps_create_handle [OF nd1] t by (auto intro!: keeps_trans [OF _ keeps_set_object [of _ i t]])
qed simp

lemma keeps_new_object:
  assumes fresh: "node_ok now nd" and valid: "td_distributed (ts_descriptor t) \<longrightarrow> 1000 \<le> td_lock_ttl (ts_descriptor t)"
  shows "keeps nd (nd\<lparr>cn_objects := js_set (cn_next nd) t (cn_objects nd), cn_tasks := x, cn_next := cn_next nd + 1\<rparr>)"
proof -
  have "i \<noteq> cn_next nd" if "js_get (cn_objects nd) i = Some u" for i u
    using node_okD(7) [OF fresh that] by simp
  then show ?thesis
    using valid by (auto simp: keeps_def)
qed

lemma keeps_register:
  assumes "register_task H d nd = Inr nd'" and ok: "node_ok now nd"
  shows "keeps nd nd'"
proof -
  obtain h nd1 where nd1: "(if cn_started nd
        then (case create_scheduled_handle H d nd of Inl e \<Rightarrow> Inl e | Inr (h, nd') \<Rightarrow> Inr (Some h, nd'))
        else Inr (None, nd)) = Inr (h, nd1)" and valid: "\<not> (td_distributed d \<and> td_lock_ttl d < 1000)"
    and nd': "nd' = nd1\<lparr>cn_objects := js_set (cn_next nd1) \<lparr>ts_descriptor = d, ts_enabled = True, ts_running = False, ts_handle = h\<rparr>
        (cn_objects nd1), cn_tasks := js_set (td_name d) (cn_next nd1) (cn_tasks nd1), cn_next := cn_next nd1 + 1\<rparr>"
    using assms(1) unfolding register_task_def by (auto split: if_splits sum.splits)
  have "keeps nd nd1"
    using nd1 keeps_create_handle [of H d nd] by (auto split: if_splits sum.splits)
  then show ?thesis
    unfolding nd' by (rule keeps_trans) (rule keeps_new_object [OF keeps_ok [OF \<open>keeps nd nd1\<close> ok]], use valid in auto)
qed

lemma keeps_complete_timeout: "keeps nd (complete_timeout_task name nd)"
  by (auto simp: complete_timeout_task_def split: option.split intro: keeps_set_object)

lemma keeps_enable: "keeps nd (snd (enable_task H name nd))"
proof (cases "js_get (cn_tasks nd) name")
  case (Some i)
  show ?thesis
  proof (cases "js_get (cn_objects nd) i")
    case t: (Some t)
    let ?nd = "set_object i (t\<lparr>ts_enabled := True\<rparr>) nd"
    have on: "keeps nd ?nd"
      by (rule keeps_set_object [OF t]) simp_all
    have off: "keeps nd (set_object i t ?nd)"
      by (rule keeps_trans [OF on keeps_set_object [of _ i "t\<lparr>ts_enabled := True\<rparr>"]]) (simp_all add: set_object_def)
    show ?thesis
      using Some t on off keeps_trans [OF on keeps_schedule]
      by (auto simp: enable_task_def Let_def split: sum.split)
  qed (simp add: enable_task_def Some)
qed (simp add: enable_task_def)

lemma keeps_disable: "keeps nd (snd (disable_task name nd))"
  by (auto simp: disable_task_def split: option.split intro!: keeps_trans [OF keeps_set_object keeps_unschedule])

lemma keeps_update_expression: "keeps nd (snd (update_cron_expression H name e nd))"
proof (cases "js_get (cn_tasks nd) name")
  case (Some i)
  show ?thesis
  proof (cases "js_get (cn_objects nd) i")
    case t: (Some t)
    let ?d = "(ts_descriptor t)\<lparr>td_expression := Some e\<rparr>"
    have terms: "lock_terms ?d = lock_terms (ts_descriptor t)"
      by (simp add: lock_terms_def)
    have idle: "keeps nd (set_object i (t\<lparr>ts_descriptor := ?d\<rparr>) nd)"
      by (rule keeps_set_object [OF t]) (simp_all add: terms)
    have live: "keeps nd ((case ts_handle t of None \<Rightarrow> id | Some old \<Rightarrow> stop_timer old) (set_object i (t\<lparr>ts_descriptor := ?d, ts_handle := Some h\<rparr>) nd'))"
      if "create_scheduled_handle H ?d nd = Inr (h, nd')" for h nd'
    proof -
      have "keeps nd nd'" "js_get (cn_objects nd') i = Some t"
        using keeps_create_handle [OF that] t by simp_all
      then have "keeps nd (set_object i (t\<lparr>ts_descriptor := ?d, ts_handle := Some h\<rparr>) nd')"
        by (intro keeps_trans [OF _ keeps_set_object]) (simp_all add: terms)
      then show ?thesis
        using keeps_trans [OF _ keeps_stop_timer] by (simp split: option.split)
    qed
    show ?thesis
      using Some t idle live by (auto simp: update_cron_expression_def Let_def split: sum.split prod.split)
  qed (simp add: update_cron_expression_def Some)
qed (simp add: update_cron_expression_def)

lemma keeps_stop_all: "keeps nd (stop_all_scheduled_tasks nd)"
proof -
  have "keeps nd (fold unschedule_task is nd)" for "is"
    by (induction "is" arbitrary: nd) (auto intro: keeps_trans [OF keeps_unschedule])
  then show ?thesis
    by (simp add: stop_all_scheduled_tasks_def)
qed

lemma registry_keeps_call:
  assumes "node_ok now nd"
  shows "keeps nd (the (cron_call_step H c nd))"
proof (cases c)
  case (AddTask d)
  then show ?thesis
    using keeps_register [OF _ assms, of H d] by (auto simp: cron_call_step_def add_task_def split: sum.split)
next
  case (RemoveTask name)
  then show ?thesis
    by (auto simp: cron_call_step_def remove_task_def intro: keeps_trans [OF keeps_unschedule keeps_fields(1)] split: option.split)
next
  case BeginShutdown
  then show ?thesis
    by (auto simp: cron_call_step_def begin_shutdown_def intro: keeps_trans [OF keeps_fields(4) keeps_stop_all])
qed (simp_all add: cron_call_step_def keeps_enable keeps_disable keeps_update_expression)

section \<open>Steps of a tick\<close>

lemma paced_mono: "paced now tk \<Longrightarrow> now \<le> now' \<Longrightarrow> paced now' tk"
  unfolding paced_def paced_at_def by (meson order_trans)

lemma tick_ok_mono: "tick_ok now tk \<Longrightarrow> now \<le> now' \<Longrightarrow> tick_ok now' tk"
  unfolding tick_ok_def tick_timing_def using paced_mono by (smt (verit) add_le_mono1 order_trans)

lemma node_ok_mono:
  assumes "node_ok now nd" "now \<le> now'"
  shows "node_ok now' nd"
  using assms node_okD [OF assms(1)] by (intro node_okI) (blast intro: tick_ok_mono)+

lemma node_ok_running_keys:
  assumes ok: "node_ok now nd"
    and keys: "\<And>r tk. js_get (cn_ticks nd) r = Some tk \<Longrightarrow> tk_locked tk \<Longrightarrow> under_lock (tk_phase tk) \<Longrightarrow> tick_key tk \<in> set x"
  shows "node_ok now (nd\<lparr>cn_owned := y, cn_running_keys := x\<rparr>)"
  by (rule node_okI; simp) (blast intro: node_okD [OF ok] keys)+

text \<open>A tick goes on: what stays, and the lease it may keep.\<close>

definition tick_same :: "nat \<Rightarrow> tick \<Rightarrow> tick \<Rightarrow> bool" where
  "tick_same now tk tk' \<longleftrightarrow> tick_ok now tk' \<and> tk_task tk' = tk_task tk \<and> tk_descriptor tk' = tk_descriptor tk \<and>
     tk_locked tk' = tk_locked tk \<and> (tk_phase tk = Ended \<longrightarrow> tk_phase tk' = Ended)"

definition tick_step :: "nat \<Rightarrow> tick \<Rightarrow> tick \<Rightarrow> bool" where
  "tick_step now tk tk' \<longleftrightarrow> tick_ok now tk' \<and> tk_task tk' = tk_task tk \<and> tk_descriptor tk' = tk_descriptor tk \<and>
     tk_locked tk' = tk_locked tk \<and> (tk_phase tk = Ended \<longrightarrow> tk_phase tk' = Ended) \<and>
     (tk_granted tk' = None \<or> tk_granted tk' = tk_granted tk \<and> tk_held tk' \<le> tk_held tk \<and>
        (tick_active tk' \<longrightarrow> tick_active tk) \<and> (tick_active tk' \<or> tk_held tk' \<le> now \<or> \<not> tick_active tk))"

definition lessens :: "nat \<Rightarrow> cron_node \<Rightarrow> cron_node \<Rightarrow> bool" where
  "lessens now nd nd' \<longleftrightarrow> cn_owner nd' = cn_owner nd \<and>
     (\<forall>r tk'. js_get (cn_ticks nd') r = Some tk' \<longrightarrow> tk_granted tk' \<noteq> None \<longrightarrow>
        (\<exists>tk. js_get (cn_ticks nd) r = Some tk \<and> tk_granted tk' = tk_granted tk \<and> tick_key tk' = tick_key tk \<and>
           tk_held tk' \<le> tk_held tk \<and> (tick_active tk' \<longrightarrow> tick_active tk) \<and>
           (tick_active tk' \<or> tk_held tk' \<le> now \<or> \<not> tick_active tk)))"

lemma lessens_refl [simp]: "lessens now nd nd"
  by (auto simp: lessens_def)

lemma lessens_keeps: "lessens now nd nd' \<Longrightarrow> keeps nd' nd'' \<Longrightarrow> lessens now nd nd''"
  by (simp add: lessens_def keeps_def)

lemma update_tick_ticks [simp]:
  "js_get (cn_ticks (update_tick r tk nd)) = (js_get (cn_ticks nd))(r \<mapsto> tk)" "cn_objects (update_tick r tk nd) = cn_objects nd"
  "cn_tasks (update_tick r tk nd) = cn_tasks nd" "cn_owner (update_tick r tk nd) = cn_owner nd" "cn_next (update_tick r tk nd) = cn_next nd"
  "cn_running_keys (update_tick r tk nd) = cn_running_keys nd"
  by (simp_all add: update_tick_def fun_eq_iff)

lemma tick_step_same: "tick_step now tk tk' \<Longrightarrow> tick_same now tk tk'"
  by (simp add: tick_step_def tick_same_def)

lemma lessens_update:
  assumes "js_get (cn_ticks nd) r = Some tk" "tick_step now tk tk'"
  shows "lessens now nd (update_tick r tk' nd)"
  using assms unfolding lessens_def tick_step_def tick_key_def by auto

lemma node_ok_update:
  assumes ok: "node_ok now nd" and tk: "js_get (cn_ticks nd) r = Some tk" and to: "tick_same now tk tk'"
    and key: "tk_locked tk \<Longrightarrow> under_lock (tk_phase tk') \<Longrightarrow> under_lock (tk_phase tk) \<or> tick_key tk \<in> set (cn_running_keys nd)"
  shows "node_ok now (update_tick r tk' nd)"
proof (rule node_okI)
  have same: "tk_task tk' = tk_task tk" "tk_descriptor tk' = tk_descriptor tk" "tk_locked tk' = tk_locked tk"
      "tk_phase tk = Ended \<longrightarrow> tk_phase tk' = Ended" "tick_ok now tk'" "tick_key tk' = tick_key tk"
    using to by (auto simp: tick_same_def tick_key_def)
  fix q u assume u: "js_get (cn_ticks (update_tick r tk' nd)) q = Some u"
  show "tick_ok now u" "q < cn_next (update_tick r tk' nd)" "tk_locked u \<Longrightarrow> td_distributed (tk_descriptor u)"
    using u same node_okD(1-3) [OF ok] tk by (auto split: if_splits)
  show "tick_key u \<in> set (cn_running_keys (update_tick r tk' nd))" if "tk_locked u" "under_lock (tk_phase u)"
    using u same node_okD(4) [OF ok] tk key that by (auto split: if_splits)
  show "\<exists>t. js_get (cn_objects (update_tick r tk' nd)) (tk_task u) = Some t \<and>
      lock_terms (ts_descriptor t) = lock_terms (tk_descriptor u) \<and> (tk_phase u \<noteq> Ended \<longrightarrow> ts_running t)"
    using u same node_okD(5) [OF ok tk] node_okD(5) [OF ok, of q u] by (auto split: if_splits)
  show "q = q'" if "js_get (cn_ticks (update_tick r tk' nd)) q' = Some u'" "tk_phase u \<noteq> Ended" "tk_phase u' \<noteq> Ended" "tk_task u = tk_task u'" for q' u'
    using u that same node_okD(6) [OF ok] tk by (auto split: if_splits)
qed (use node_okD(7,8) [OF ok] in auto)

text \<open>The end of a tick, after which its task may run again.\<close>

lemma node_ok_idle:
  assumes ok: "node_ok now nd" and t: "js_get (cn_objects nd) i = Some t" and terms: "lock_terms (ts_descriptor t') = lock_terms (ts_descriptor t)"
    and idle: "ts_running t' = ts_running t \<or> (\<nexists>r tk. js_get (cn_ticks nd) r = Some tk \<and> tk_task tk = i \<and> tk_phase tk \<noteq> Ended)"
  shows "node_ok now (set_object i t' nd)"
proof (rule node_okI)
  fix r tk assume tk: "js_get (cn_ticks (set_object i t' nd)) r = Some tk"
  then have tk': "js_get (cn_ticks nd) r = Some tk"
    by (simp add: set_object_def)
  show "\<exists>u. js_get (cn_objects (set_object i t' nd)) (tk_task tk) = Some u \<and>
      lock_terms (ts_descriptor u) = lock_terms (tk_descriptor tk) \<and> (tk_phase tk \<noteq> Ended \<longrightarrow> ts_running u)"
    using node_okD(5) [OF ok tk'] t terms idle tk' by (auto simp: set_object_def)
qed (use node_okD(1-4,6-8) [OF ok] t terms in \<open>auto simp: set_object_def lock_terms_def split: if_splits\<close>)

definition stopped :: "tick \<Rightarrow> tick" where
  "stopped tk = tk\<lparr>tk_phase := Ended\<rparr>"

lemma end_tick_step:
  assumes ok: "node_ok now nd" and tk0: "js_get (cn_ticks nd) r = Some tk0" and to: "tick_step now tk0 (stopped tk)"
    and live: "tk_phase tk0 \<noteq> Ended"
  shows "node_ok now (end_tick r tk nd) \<and> lessens now nd (end_tick r tk nd)"
proof -
  let ?nd1 = "update_tick r (tk\<lparr>tk_phase := Ended\<rparr>) nd"
  have to': "tick_step now tk0 (tk\<lparr>tk_phase := Ended\<rparr>)"
    using to by (simp add: stopped_def)
  have ok1: "node_ok now ?nd1" and less1: "lessens now nd ?nd1"
    using node_ok_update [OF ok tk0 tick_step_same [OF to']] lessens_update [OF tk0 to'] by simp_all
  have task: "tk_task tk = tk_task tk0"
    using to' by (simp add: tick_step_def)
  have idle: "\<nexists>q u. js_get (cn_ticks ?nd1) q = Some u \<and> tk_task u = tk_task tk \<and> tk_phase u \<noteq> Ended"
  proof
    assume "\<exists>q u. js_get (cn_ticks ?nd1) q = Some u \<and> tk_task u = tk_task tk \<and> tk_phase u \<noteq> Ended"
    then obtain q u where u: "js_get (cn_ticks ?nd1) q = Some u" "tk_task u = tk_task tk" "tk_phase u \<noteq> Ended"
      by blast
    moreover have "q \<noteq> r"
      using u by auto
    ultimately show False
      using node_okD(6) [OF ok tk0, of q u] task live by auto
  qed
  obtain t where t: "js_get (cn_objects nd) (tk_task tk0) = Some t"
    using node_okD(5) [OF ok tk0] by blast
  let ?nd2 = "set_object (tk_task tk) (t\<lparr>ts_running := False\<rparr>) ?nd1"
  have "node_ok now ?nd2"
    by (rule node_ok_idle [OF ok1]) (use t task idle in auto)
  moreover have "lessens now nd ?nd2"
    using less1 by (simp add: lessens_def set_object_def)
  ultimately show ?thesis
    using keeps_ok [OF keeps_complete_timeout, of now ?nd2] lessens_keeps [OF _ keeps_complete_timeout, of now nd ?nd2] t task
    by (simp add: end_tick_def Let_def)
qed

text \<open>Two tasks of a node do not share a lock key.\<close>

definition unshared_keys :: "cron_node \<Rightarrow> bool" where
  "unshared_keys nd \<longleftrightarrow> distinct (map (\<lambda>(i, t). td_lock_key (ts_descriptor t)) (cn_objects nd))"

lemma distinct_map_eqD: "distinct (map f xs) \<Longrightarrow> x \<in> set xs \<Longrightarrow> y \<in> set xs \<Longrightarrow> f x = f y \<Longrightarrow> x = y"
  by (metis distinct_map inj_on_def)

lemma same_key_same_tick:
  assumes ok: "node_ok now nd" and keys: "unshared_keys nd"
    and tk: "js_get (cn_ticks nd) r = Some tk" "js_get (cn_ticks nd) q = Some u" and key: "tick_key tk = tick_key u"
  shows "tick_ttl tk = tick_ttl u \<and> (tk_phase tk \<noteq> Ended \<longrightarrow> tk_phase u \<noteq> Ended \<longrightarrow> r = q)"
proof -
  obtain t t' where t: "js_get (cn_objects nd) (tk_task tk) = Some t" "lock_terms (ts_descriptor t) = lock_terms (tk_descriptor tk)"
      "js_get (cn_objects nd) (tk_task u) = Some t'" "lock_terms (ts_descriptor t') = lock_terms (tk_descriptor u)"
    using node_okD(5) [OF ok tk(1)] node_okD(5) [OF ok tk(2)] by blast
  then have "(tk_task tk, t) = (tk_task u, t')"
    using key keys unfolding unshared_keys_def
    by (intro distinct_map_eqD [OF keys [unfolded unshared_keys_def]]) (auto simp: lock_terms_def tick_key_def dest: map_of_SomeD)
  then show ?thesis
    using t node_okD(6) [OF ok tk] by (auto simp: lock_terms_def tick_ttl_def)
qed

lemma node_ok_remove_key:
  assumes ok: "node_ok now nd" and "\<And>r tk. js_get (cn_ticks nd) r = Some tk \<Longrightarrow> tk_locked tk \<Longrightarrow> under_lock (tk_phase tk) \<Longrightarrow> tick_key tk \<noteq> k"
  shows "node_ok now (nd\<lparr>cn_owned := y, cn_running_keys := removeAll k (cn_running_keys nd)\<rparr>)"
  using node_okD(4) [OF ok] assms(2) by (intro node_ok_running_keys [OF ok]) auto

lemma end_tick_fields:
  "end_tick r tk (nd\<lparr>cn_owned := y, cn_running_keys := x\<rparr>) = (end_tick r tk nd)\<lparr>cn_owned := y, cn_running_keys := x\<rparr>"
  by (simp add: end_tick_def complete_timeout_task_def set_object_def update_tick_def Let_def split: option.split)

lemma end_tick_ticks: "js_get (cn_ticks (end_tick r tk nd)) = (js_get (cn_ticks nd))(r \<mapsto> tk\<lparr>tk_phase := Ended\<rparr>)"
  by (auto simp: end_tick_def complete_timeout_task_def set_object_def Let_def split: option.split)

text \<open>The end of a tick that gives its key back.\<close>

lemma end_tick_key:
  assumes ok: "node_ok now nd" and keys: "unshared_keys nd" and tk0: "js_get (cn_ticks nd) r = Some tk0"
    and to: "tick_step now tk0 (stopped tk)" and live: "tk_phase tk0 \<noteq> Ended"
  shows "node_ok now (end_tick r tk (nd\<lparr>cn_owned := y, cn_running_keys := removeAll (tick_key tk0) (cn_running_keys nd)\<rparr>)) \<and>
    lessens now nd (end_tick r tk (nd\<lparr>cn_owned := y, cn_running_keys := removeAll (tick_key tk0) (cn_running_keys nd)\<rparr>))"
proof -
  have end_ok: "node_ok now (end_tick r tk nd)" "lessens now nd (end_tick r tk nd)"
    using end_tick_step [OF ok tk0 to live] by simp_all
  have "tick_key u \<noteq> tick_key tk0" if u: "js_get (cn_ticks (end_tick r tk nd)) q = Some u" "under_lock (tk_phase u)" for q u
  proof -
    have q: "q \<noteq> r" "js_get (cn_ticks nd) q = Some u"
      using u by (auto simp: end_tick_ticks split: if_splits)
    then show ?thesis
      using same_key_same_tick [OF ok keys q(2) tk0] u(2) live by auto
  qed
  then have "node_ok now ((end_tick r tk nd)\<lparr>cn_owned := y, cn_running_keys := removeAll (tick_key tk0) (cn_running_keys (end_tick r tk nd))\<rparr>)"
    by (intro node_ok_remove_key [OF end_ok(1)]) blast
  moreover have "cn_running_keys (end_tick r tk nd) = cn_running_keys nd"
    by (auto simp: end_tick_def complete_timeout_task_def set_object_def Let_def split: option.split)
  ultimately show ?thesis
    using end_ok(2) by (simp add: end_tick_fields lessens_def)
qed

lemma leave_task_step:
  assumes ok: "node_ok now nd" and tk0: "js_get (cn_ticks nd) r = Some tk0" and "under_lock (tk_phase tk0)" and locked: "tk_locked tk = tk_locked tk0"
    and task: "tk_task tk = tk_task tk0"
    and to: "tk_locked tk0 \<Longrightarrow> tick_step now tk0 (tk\<lparr>tk_phase := Releasing Sent, tk_renewal := (tk_renewal tk)\<lparr>rs_stopped := True\<rparr>\<rparr>)"
      "\<not> tk_locked tk0 \<Longrightarrow> tick_step now tk0 (stopped tk)"
  shows "node_ok now (leave_task now r tk nd) \<and> lessens now nd (leave_task now r tk nd)"
proof -
  let ?nd = "if td_kind (tk_descriptor tk) = TimeoutTask
     then (case js_get (cn_objects nd) (tk_task tk) of None \<Rightarrow> nd
       | Some t \<Rightarrow> set_object (tk_task tk) (t\<lparr>ts_enabled := False, ts_handle := None\<rparr>) nd)
     else nd"
  have keeps: "keeps nd ?nd"
    by (auto split: option.split intro: keeps_set_object)
  have ok': "node_ok now ?nd"
    by (rule keeps_ok [OF keeps ok])
  have tk0': "js_get (cn_ticks ?nd) r = Some tk0"
    using tk0 keeps by (simp add: keeps_def)
  have less: "lessens now ?nd nd' \<Longrightarrow> lessens now nd nd'" for nd'
    using keeps by (simp add: lessens_def keeps_def)
  show ?thesis
  proof (cases "tk_locked tk0")
    case True
    then show ?thesis
      using node_ok_update [OF ok' tk0' tick_step_same [OF to(1)]] less [OF lessens_update [OF tk0' to(1)]] assms(3) locked
      by (simp add: leave_task_def)
  next
    case False
    have "tk_phase tk0 \<noteq> Ended"
      using assms(3) by auto
    then have "node_ok now (end_tick r tk ?nd) \<and> lessens now nd (end_tick r tk ?nd)"
      using end_tick_step [OF ok' tk0' to(2) [OF False]] less by blast
    moreover have "leave_task now r tk nd = end_tick r tk ?nd"
      using False locked by (simp add: leave_task_def)
    ultimately show ?thesis
      by simp
  qed
qed

lemma handle_tick_step:
  assumes ok: "node_ok now nd"
  shows "node_ok now (handle_task_tick now name timeout nd) \<and> lessens now nd (handle_task_tick now name timeout nd)"
proof (cases "\<exists>i t. js_get (cn_tasks nd) name = Some i \<and> js_get (cn_objects nd) i = Some t \<and> ts_enabled t \<and> \<not> ts_running t")
  case False
  have "keeps nd (handle_task_tick now name timeout nd)"
    using False by (auto simp: handle_task_tick_def keeps_complete_timeout split: option.split)
  then show ?thesis
    using keeps_ok [OF _ ok] lessens_keeps [OF lessens_refl] by auto
next
  case True
  then obtain i t where t: "js_get (cn_tasks nd) name = Some i" "js_get (cn_objects nd) i = Some t" "ts_enabled t" "\<not> ts_running t"
    by blast
  define tk where "tk = new_tick i (ts_descriptor t) (should_use_distributed_execution nd (ts_descriptor t)) timeout now"
  let ?nd = "update_tick (cn_next nd) tk ((set_object i (t\<lparr>ts_running := True\<rparr>) nd)\<lparr>cn_next := cn_next nd + 1\<rparr>)"
  have nd': "handle_task_tick now name timeout nd = ?nd"
    using t by (simp add: handle_task_tick_def tk_def Let_def)
  have tk_simps: "tk_granted tk = None" "tk_task tk = i" "tk_descriptor tk = ts_descriptor t" "tick_ok now tk" "\<not> (tk_locked tk \<and> under_lock (tk_phase tk))"
      "tk_locked tk \<Longrightarrow> td_distributed (ts_descriptor t)"
    by (auto simp: tk_def new_tick_def tick_ok_def tick_timing_def should_use_distributed_execution_def create_lock_renewal_state_def)
  have old: "q < cn_next nd" if "js_get (cn_ticks nd) q = Some u" for q u
    by (rule node_okD(2) [OF ok that])
  have ended: "tk_phase u = Ended" if "js_get (cn_ticks nd) q = Some u" "tk_task u = i" for q u
    using node_okD(5) [OF ok that(1)] that(2) t by auto
  have "node_ok now ?nd"
  proof (rule node_okI)
    fix q u assume u: "js_get (cn_ticks ?nd) q = Some u"
    then have cases: "q = cn_next nd \<and> u = tk \<or> q \<noteq> cn_next nd \<and> js_get (cn_ticks nd) q = Some u"
      by (auto simp: set_object_def split: if_splits)
    then show "tick_ok now u" "tk_locked u \<Longrightarrow> td_distributed (tk_descriptor u)"
      using tk_simps node_okD(1,3) [OF ok] by metis+
    show "q < cn_next ?nd"
      using cases old [of q u] by auto
    show "tick_key u \<in> set (cn_running_keys ?nd)" if "tk_locked u" "under_lock (tk_phase u)"
      using cases that tk_simps(5) node_okD(4) [OF ok] by (auto simp: set_object_def)
    show "\<exists>t. js_get (cn_objects ?nd) (tk_task u) = Some t \<and>
        lock_terms (ts_descriptor t) = lock_terms (tk_descriptor u) \<and> (tk_phase u \<noteq> Ended \<longrightarrow> ts_running t)"
      using cases tk_simps(2,3) node_okD(5) [OF ok, of q u] t by (auto simp: set_object_def)
    show "q = q'" if u': "js_get (cn_ticks ?nd) q' = Some u'" "tk_phase u \<noteq> Ended" "tk_phase u' \<noteq> Ended" "tk_task u = tk_task u'" for q' u'
    proof -
      have "q' = cn_next nd \<and> u' = tk \<or> q' \<noteq> cn_next nd \<and> js_get (cn_ticks nd) q' = Some u'"
        using u'(1) by (auto simp: set_object_def split: if_splits)
      then show ?thesis
        using cases u' tk_simps(2) ended node_okD(6) [OF ok, of q u q' u'] by metis
    qed
  qed (use node_okD(7,8) [OF ok] t in \<open>force simp: set_object_def split: if_splits\<close>)+
  moreover have "lessens now nd ?nd"
    using tk_simps(1) by (auto simp: lessens_def set_object_def)
  ultimately show ?thesis
    by (simp add: nd')
qed

section \<open>The pace of renewals\<close>

lemma paced_chain:
  assumes paced: "paced now tk" and due: "rs_next_due (tk_renewal tk) \<le> now"
  shows "paced now (tk\<lparr>tk_renewal := chain_attempt (tk_renewal tk)\<rparr>)"
proof -
  obtain e where e: "paced_at now tk (tk_renewal tk) e"
    using paced by (auto simp: paced_def)
  then have pending: "pending (chain_attempt (tk_renewal tk)) = pending (tk_renewal tk) + 1"
    by (auto simp: chain_attempt_def pending_def paced_at_def Let_def)
  have "rs_next_due (chain_attempt (tk_renewal tk)) = rs_next_due (tk_renewal tk) + rs_interval (tk_renewal tk)"
      "rs_interval (chain_attempt (tk_renewal tk)) = rs_interval (tk_renewal tk)" "rs_current (chain_attempt (tk_renewal tk)) \<noteq> None"
      "unfailed (chain_attempt (tk_renewal tk)) \<Longrightarrow> unfailed (tk_renewal tk)"
    by (auto simp: chain_attempt_def unfailed_def Let_def split: if_splits)
  then have "paced_at now tk (chain_attempt (tk_renewal tk)) e"
    using e due unfolding paced_at_def pending by auto
  then show ?thesis
    by auto
qed

lemma queue_due_paced:
  assumes "paced now tk" "m = tk_renewal tk"
  shows "paced now (tk\<lparr>tk_renewal := queue_due_lock_renewal_attempts now m\<rparr>) \<and>
    now < rs_next_due (queue_due_lock_renewal_attempts now m) \<and> rs_stopped (queue_due_lock_renewal_attempts now m) = rs_stopped m"
  using assms
proof (induction now m arbitrary: tk rule: queue_due_lock_renewal_attempts.induct)
  case (1 now m)
  have interval: "0 < rs_interval m"
    using 1(2,3) by (auto simp: paced_def paced_at_def tick_interval_def renewal_interval_def)
  show ?case
  proof (cases "rs_next_due m \<le> now")
    case True
    have step: "queue_due_lock_renewal_attempts now m = queue_due_lock_renewal_attempts now (chain_attempt m)"
      using True interval by (subst queue_due_lock_renewal_attempts.simps) simp
    have stopped: "rs_stopped (chain_attempt m) = rs_stopped m"
      by (simp add: chain_attempt_def Let_def)
    have "paced now (tk\<lparr>tk_renewal := chain_attempt m\<rparr>)"
      using paced_chain [OF 1(2)] True 1(3) by simp
    from 1(1) [OF _ this] show ?thesis
      using True interval stopped unfolding step by simp
  next
    case False
    then have "queue_due_lock_renewal_attempts now m = m"
      by (subst queue_due_lock_renewal_attempts.simps) simp
    then show ?thesis
      using 1(2,3) False by (simp add: paced_def)
  qed
qed

lemma paced_settle:
  assumes paced: "paced now tk" and current: "rs_current (tk_renewal tk) = Some c" and outcome: "outcome = None \<longrightarrow> c = Replied True"
  shows "paced now (tk\<lparr>tk_renewal := settle_attempt outcome (tk_renewal tk)\<rparr>)"
proof -
  let ?m = "tk_renewal tk"
  obtain e where e: "paced_at now tk ?m e"
    using paced by (auto simp: paced_def)
  let ?e = "if c = Sent then e + 1 else e"
  have pending: "?e + pending (settle_attempt outcome ?m) = e + pending ?m"
    using current by (auto simp: settle_attempt_def pending_def)
  have "rs_interval (settle_attempt outcome ?m) = rs_interval ?m" "rs_next_due (settle_attempt outcome ?m) = rs_next_due ?m"
      "rs_current (settle_attempt outcome ?m) = None \<longrightarrow> rs_queued (settle_attempt outcome ?m) = 0"
      "unfailed (settle_attempt outcome ?m) \<Longrightarrow> unfailed ?m \<and> ?e = e"
    using outcome current by (auto simp: settle_attempt_def unfailed_def split: if_splits)
  then have "paced_at now tk (settle_attempt outcome ?m) ?e"
    using e unfolding paced_at_def pending by metis
  then show ?thesis
    by auto
qed

lemma paced_run:
  assumes paced: "paced now tk" and current: "rs_current (tk_renewal tk) = Some Sent" and held: "ok \<longrightarrow> held = now + tick_ttl tk"
  shows "paced now (tk\<lparr>tk_renewal := (tk_renewal tk)\<lparr>rs_current := Some (Replied ok)\<rparr>, tk_held := held\<rparr>)"
proof -
  let ?m = "(tk_renewal tk)\<lparr>rs_current := Some (Replied ok)\<rparr>"
  obtain e where e: "paced_at now tk (tk_renewal tk) e"
    using paced by (auto simp: paced_def)
  have p: "pending (tk_renewal tk) = pending ?m + 1"
    using current by (simp add: pending_def)
  have "tk_begun tk + (e + 1) * tick_interval tk \<le> now"
    using e by (simp add: paced_at_def p algebra_simps)
  then have "unfailed ?m \<longrightarrow> covered (tk\<lparr>tk_held := held\<rparr>) (e + 1)"
    using held by (auto simp: covered_def unfailed_def)
  then have "paced_at now (tk\<lparr>tk_held := held\<rparr>) ?m (e + 1)"
    using e unfolding paced_at_def p by simp
  then have "paced_at now (tk\<lparr>tk_renewal := ?m, tk_held := held\<rparr>) ?m (e + 1)"
    by (simp add: paced_at_def covered_def)
  then show ?thesis
    unfolding paced_def by auto
qed

text \<open>Replies to lock requests that arrive within half the time to live.\<close>

definition prompt_replies :: "cron_node \<Rightarrow> bool" where
  "prompt_replies nd \<longleftrightarrow>
     list_all (\<lambda>(r, tk). case tk_granted tk of None \<Rightarrow> True | Some g \<Rightarrow> tk_begun tk \<le> g + tick_ttl tk div 2) (cn_ticks nd)"

text \<open>When every attempt that was due has renewed the lock, it was held to the end of the task.\<close>

lemma paced_held:
  assumes paced: "paced now tk" and ttl: "1000 \<le> tick_ttl tk" and settled: "rs_current (tk_renewal tk) = None" "rs_error (tk_renewal tk) = None"
    and finished: "tk_finished tk < rs_next_due (tk_renewal tk)"
    and prompt: "\<And>g. tk_granted tk = Some g \<Longrightarrow> tk_begun tk \<le> g + tick_ttl tk div 2"
  shows "tk_finished tk \<le> tk_held tk"
proof -
  obtain e where e: "paced_at now tk (tk_renewal tk) e"
    using paced by (auto simp: paced_def)
  then have due: "rs_next_due (tk_renewal tk) = tk_begun tk + (e + 1) * tick_interval tk" and "covered tk e"
    using settled by (simp_all add: paced_at_def pending_def unfailed_def)
  have i: "tick_interval tk = tick_ttl tk div 2"
    using ttl by (simp add: renewal_interval_def tick_ttl_def tick_interval_def)
  show ?thesis
  proof (cases "e = 0")
    case True
    then obtain g where "tk_granted tk = Some g" "g + tick_ttl tk \<le> tk_held tk"
      using \<open>covered tk e\<close> by (auto simp: covered_def)
    then show ?thesis
      using prompt [of g] finished due True i by simp
  next
    case False
    then show ?thesis
      using \<open>covered tk e\<close> finished due i by (simp add: covered_def)
  qed
qed

section \<open>The steps of a node\<close>

definition node_step :: "nat \<Rightarrow> cron_node \<Rightarrow> cron_node \<Rightarrow> bool" where
  "node_step now nd nd' \<longleftrightarrow> node_ok now nd' \<and> lessens now nd nd'"

lemma node_step_update:
  assumes "node_ok now nd" "js_get (cn_ticks nd) r = Some tk" "tick_step now tk tk'"
    and "tk_locked tk \<Longrightarrow> under_lock (tk_phase tk') \<Longrightarrow> under_lock (tk_phase tk) \<or> tick_key tk \<in> set (cn_running_keys nd)"
  shows "node_step now nd (update_tick r tk' nd)"
  using node_ok_update [OF assms(1,2) tick_step_same [OF assms(3)] assms(4)] lessens_update [OF assms(2,3)] by (simp add: node_step_def)

lemma node_step_keeps: "node_ok now nd \<Longrightarrow> keeps nd nd' \<Longrightarrow> node_step now nd nd'"
  using keeps_ok lessens_keeps [OF lessens_refl] by (auto simp: node_step_def)

lemma tick_step_renewal:
  assumes tick: "tick_ok now tk" and paced: "paced now tk \<Longrightarrow> paced now (tk\<lparr>tk_renewal := m\<rparr>)" and due: "rs_next_due (tk_renewal tk) \<le> rs_next_due m"
    and locked: "rs_current m \<noteq> None \<Longrightarrow> tk_locked tk"
  shows "tick_step now tk (tk\<lparr>tk_renewal := m\<rparr>)"
proof -
  have active: "tick_active (tk\<lparr>tk_renewal := m\<rparr>) = tick_active tk"
    by (simp add: tick_active_def)
  have "tick_ok now (tk\<lparr>tk_renewal := m\<rparr>)"
  proof -
    have "tk_phase tk = AwaitingRenewals \<Longrightarrow> tk_finished tk < rs_next_due (tk_renewal tk)"
      using tick by (simp add: tick_ok_def tick_timing_def)
    then have "tk_phase tk = AwaitingRenewals \<Longrightarrow> tk_finished tk < rs_next_due m"
      using due by linarith
    then show ?thesis
      using tick paced locked unfolding tick_ok_def by auto
  qed
  then show ?thesis
    by (auto simp: tick_step_def active)
qed

lemma fire_timer_step:
  assumes ok: "node_ok now nd" and "fire_timer now h nd = Some nd'"
  shows "node_step now nd nd'"
proof -
  obtain t where t: "js_get (cn_timers nd) h = Some t" "tm_live t"
    using assms(2) by (auto simp: fire_timer_def split: option.splits if_splits)
  let ?nd = "nd\<lparr>cn_timers := js_set h (t\<lparr>tm_live := False\<rparr>) (cn_timers nd)\<rparr>"
  have "node_ok now ?nd"
    by (rule keeps_ok [OF keeps_fields(2) ok])
  then have "node_step now ?nd (handle_task_tick now (tm_name t) True ?nd)" "node_step now nd (handle_task_tick now (tm_name t) False nd)"
    using handle_tick_step ok by (simp_all add: node_step_def)
  then show ?thesis
    using assms(2) t by (auto simp: fire_timer_def node_step_def lessens_def split: if_splits)
qed

lemma command_replies_step:
  assumes ok: "node_ok now nd" and keys: "unshared_keys nd" and step: "command_replies now r nd = Some nd'"
  shows "node_step now nd nd'"
proof -
  obtain tk where tk: "js_get (cn_ticks nd) r = Some tk"
    using step by (auto simp: command_replies_def split: option.splits)
  have tick: "tick_ok now tk"
    by (rule node_okD(1) [OF ok tk])
  consider (granted) "tk_phase tk = Acquiring (Replied True)" | (refused) "tk_phase tk = Acquiring (Replied False)"
    | (released) b where "tk_phase tk = Releasing (Replied b)"
    using step tk by (auto simp: command_replies_def Let_def split: tick_phase.splits command.splits bool.splits)
  then show ?thesis
  proof cases
    case granted
    let ?tk = "tk\<lparr>tk_phase := Running, tk_begun := now, tk_renewal := create_lock_renewal_state (td_lock_ttl (tk_descriptor tk)) now\<rparr>"
    let ?nd = "nd\<lparr>cn_owned := List.insert (tick_key tk) (cn_owned nd), cn_running_keys := List.insert (tick_key tk) (cn_running_keys nd)\<rparr>"
    have nd': "nd' = update_tick r ?tk ?nd"
      using step tk granted by (simp add: command_replies_def Let_def tick_key_def)
    have ok': "node_ok now ?nd"
      by (rule node_ok_running_keys [OF ok]) (use node_okD(4) [OF ok] in auto)
    have "paced_at now ?tk (create_lock_renewal_state (td_lock_ttl (tk_descriptor tk)) now) 0"
      using tick granted
      by (auto simp: paced_at_def create_lock_renewal_state_def pending_def tick_interval_def covered_def tick_ok_def tick_timing_def tick_ttl_def)
    then have "paced now ?tk"
      unfolding paced_def by auto
    then have "tick_step now tk ?tk"
      using tick granted by (simp add: tick_step_def tick_ok_def tick_timing_def tick_active_def tick_ttl_def)
    then have "node_step now ?nd nd'"
      unfolding nd' by (intro node_step_update [of now ?nd r tk, OF ok']) (use tk in simp_all)
    then show ?thesis
      by (simp add: node_step_def lessens_def)
  next
    case refused
    have "tick_step now tk (stopped tk)"
      using tick refused by (simp add: tick_step_def tick_ok_def tick_timing_def stopped_def tick_active_def)
    then show ?thesis
      using end_tick_step [OF ok tk, of tk] step tk refused by (simp add: command_replies_def Let_def node_step_def)
  next
    case released
    have "tick_step now tk (stopped tk)"
      using tick released by (simp add: tick_step_def tick_ok_def tick_timing_def stopped_def tick_active_def)
    then show ?thesis
      using end_tick_key [OF ok keys tk, of tk "removeAll (tick_key tk) (cn_owned nd)"] step tk released by (simp add: command_replies_def Let_def node_step_def tick_key_def)
  qed
qed

lemma command_fails_step:
  assumes ok: "node_ok now nd" and keys: "unshared_keys nd" and step: "command_fails now r nd = Some nd'"
  shows "node_step now nd nd'"
proof -
  obtain tk where tk: "js_get (cn_ticks nd) r = Some tk"
    using step by (auto simp: command_fails_def split: option.splits)
  have tick: "tick_ok now tk"
    by (rule node_okD(1) [OF ok tk])
  consider (acquiring) c where "tk_phase tk = Acquiring c" | (releasing) c where "tk_phase tk = Releasing c"
    using step tk by (auto simp: command_fails_def Let_def split: tick_phase.splits)
  then show ?thesis
  proof cases
    case acquiring
    have "tick_step now tk (stopped (tk\<lparr>tk_granted := None\<rparr>))"
      using tick acquiring by (simp add: tick_step_def tick_ok_def tick_timing_def stopped_def)
    then show ?thesis
      using end_tick_step [OF ok tk, of "tk\<lparr>tk_granted := None\<rparr>"] step tk acquiring by (simp add: command_fails_def Let_def node_step_def)
  next
    case releasing
    have "tick_step now tk (stopped (tk\<lparr>tk_held := min (tk_held tk) now\<rparr>))"
      using tick releasing by (simp add: tick_step_def tick_ok_def tick_timing_def stopped_def tick_active_def min_le_iff_disj)
    then show ?thesis
      using end_tick_key [OF ok keys tk, of "tk\<lparr>tk_held := min (tk_held tk) now\<rparr>" "cn_owned nd"] step tk releasing by (simp add: command_fails_def Let_def node_step_def tick_key_def)
  qed
qed

lemma leave_task_ok:
  assumes ok: "node_ok now nd" and tk0: "js_get (cn_ticks nd) r = Some tk0" and "under_lock (tk_phase tk0)"
    and "tk_phase tk0 \<noteq> AwaitingRenewals" "\<forall>c. tk_phase tk0 \<noteq> Releasing c"
    and tk: "tk = tk0 \<or> tk = tk0\<lparr>tk_finished := now\<rparr> \<and> \<not> tk_succeeded tk0"
  shows "node_step now nd (leave_task now r tk nd)"
proof -
  have tick: "tick_ok now tk0"
    by (rule node_okD(1) [OF ok tk0])
  have fields: "tk_locked tk = tk_locked tk0" "tk_task tk = tk_task tk0"
    using tk by auto
  have phase: "tk_phase tk0 = Running \<or> tk_phase tk0 = Succeeding \<or> tk_phase tk0 = Closing"
    using assms(3-5) by (cases "tk_phase tk0") auto
  have locked: "tick_step now tk0 (tk\<lparr>tk_phase := Releasing Sent, tk_renewal := (tk_renewal tk)\<lparr>rs_stopped := True\<rparr>\<rparr>)" if "tk_locked tk0"
    using tk phase tick that by (elim disjE) (simp_all add: tick_step_def tick_ok_def tick_timing_def tick_active_def)
  have unlocked: "tick_step now tk0 (stopped tk)" if "\<not> tk_locked tk0"
    using tk phase tick that by (elim disjE) (simp_all add: tick_step_def tick_ok_def tick_timing_def stopped_def)
  show ?thesis
    using leave_task_step [OF ok tk0 assms(3) fields locked unlocked] by (simp add: node_step_def)
qed

lemma after_renewals_step:
  assumes ok: "node_ok now nd" and tk0: "js_get (cn_ticks nd) r = Some tk0" and step: "tick_step now tk0 tk" and under: "under_lock (tk_phase tk0)"
    and phase: "tk_phase tk = AwaitingRenewals"
    and current: "rs_current (tk_renewal tk) = None" and prompt: "\<And>g. tk_granted tk = Some g \<Longrightarrow> tk_begun tk \<le> g + tick_ttl tk div 2"
  shows "node_step now nd (after_renewals r tk nd)"
proof -
  have tick: "tick_ok now tk"
    using step by (simp add: tick_step_def)
  then have waiting: "tk_locked tk" "paced now tk" "1000 \<le> tick_ttl tk" "tk_finished tk < rs_next_due (tk_renewal tk)"
    using phase by (auto simp: tick_ok_def tick_timing_def)
  have "tick_step now tk0 (tk\<lparr>tk_phase := Succeeding, tk_succeeded := True\<rparr>)" if "rs_error (tk_renewal tk) = None"
    using paced_held [OF waiting(2,3) current that waiting(4) prompt] step phase tick
    unfolding tick_step_def tick_ok_def tick_timing_def tick_active_def by auto
  moreover have "tick_step now tk0 (tk\<lparr>tk_phase := Closing\<rparr>)"
    using step phase tick unfolding tick_step_def tick_ok_def tick_timing_def tick_active_def by auto
  ultimately show ?thesis
    using under by (auto simp: after_renewals_def intro!: node_step_update [OF ok tk0])
qed

lemma await_renewals_step:
  assumes ok: "node_ok now nd" and tk0: "js_get (cn_ticks nd) r = Some tk0" and step: "tick_step now tk0 (tk\<lparr>tk_phase := AwaitingRenewals\<rparr>)"
    and under: "under_lock (tk_phase tk0)" and prompt: "\<And>g. tk_granted tk = Some g \<Longrightarrow> tk_begun tk \<le> g + tick_ttl tk div 2"
  shows "node_step now nd (await_renewals r tk nd)"
proof (cases "rs_current (tk_renewal tk) = None")
  case True
  have "after_renewals r tk nd = after_renewals r (tk\<lparr>tk_phase := AwaitingRenewals\<rparr>) nd"
    by (simp add: after_renewals_def)
  then show ?thesis
    using after_renewals_step [OF ok tk0 step under] True prompt by (simp add: await_renewals_def)
next
  case False
  then show ?thesis
    unfolding await_renewals_def if_not_P [OF False] by (intro node_step_update [OF ok tk0 step]) (use under in simp)
qed

lemma prompt_tick:
  assumes "prompt_replies nd" "js_get (cn_ticks nd) r = Some tk" "tk_granted tk = Some g"
  shows "tk_begun tk \<le> g + tick_ttl tk div 2"
  using assms map_of_SomeD [OF assms(2)] by (auto simp: prompt_replies_def list_all_iff)

lemma task_ends_step:
  assumes ok: "node_ok now nd" and prompt: "prompt_replies nd" and step: "task_ends now r outcome nd = Some nd'"
  shows "node_step now nd nd'"
proof -
  obtain tk where tk: "js_get (cn_ticks nd) r = Some tk" and phase: "tk_phase tk = Running"
    using step by (auto simp: task_ends_def split: option.splits if_splits)
  have tick: "tick_ok now tk"
    by (rule node_okD(1) [OF ok tk])
  then have unsucceeded: "\<not> tk_succeeded tk"
    using phase by (auto simp: tick_ok_def tick_timing_def)
  show ?thesis
  proof (cases outcome)
    case Skipped
    then have "nd' = leave_task now r (tk\<lparr>tk_finished := now\<rparr>) nd"
      using step tk phase by (simp add: task_ends_def)
    then show ?thesis
      using leave_task_ok [OF ok tk _ _ _ disjI2] phase unsucceeded by simp
  next
    case Threw
    have "tick_step now tk (tk\<lparr>tk_phase := Closing, tk_finished := now\<rparr>)"
      using tick phase unsucceeded by (simp add: tick_step_def tick_ok_def tick_timing_def tick_active_def tick_ttl_def)
    then show ?thesis
      using node_step_update [OF ok tk] step tk phase Threw by (auto simp: task_ends_def)
  next
    case Completed
    show ?thesis
    proof (cases "tk_locked tk")
      case True
      let ?m = "(tk_renewal tk)\<lparr>rs_stopped := True\<rparr>"
      let ?tk = "tk\<lparr>tk_finished := now, tk_renewal := queue_due_lock_renewal_attempts now ?m\<rparr>"
      have "paced now tk"
        using tick True phase by (auto simp: tick_ok_def tick_timing_def)
      then have "paced now (tk\<lparr>tk_renewal := ?m\<rparr>)"
        by (simp add: paced_def paced_at_def pending_def unfailed_def)
      from queue_due_paced [OF this refl]
      have "paced now ?tk" "now < rs_next_due (tk_renewal ?tk)"
        by simp_all
      then have "tick_step now tk (?tk\<lparr>tk_phase := AwaitingRenewals\<rparr>)"
        using tick phase True unsucceeded by (simp add: tick_step_def tick_ok_def tick_timing_def tick_active_def tick_ttl_def)
      then have "node_step now nd (await_renewals r ?tk nd)"
        using phase prompt_tick [OF prompt tk] by (intro await_renewals_step [OF ok tk]) (auto simp: tick_ttl_def)
      then show ?thesis
        using step tk phase True Completed by (simp add: task_ends_def)
    next
      case False
      have "tick_step now tk (tk\<lparr>tk_phase := Succeeding, tk_finished := now, tk_succeeded := True\<rparr>)"
        using tick phase False by (simp add: tick_step_def tick_ok_def tick_timing_def tick_active_def)
      then show ?thesis
        using node_step_update [OF ok tk] step tk phase Completed False by (auto simp: task_ends_def)
    qed
  qed
qed

lemma hooks_end_step:
  assumes ok: "node_ok now nd" and step: "hooks_end now r nd = Some nd'"
  shows "node_step now nd nd'"
proof -
  obtain tk where tk: "js_get (cn_ticks nd) r = Some tk"
    using step by (auto simp: hooks_end_def split: option.splits)
  have tick: "tick_ok now tk"
    by (rule node_okD(1) [OF ok tk])
  consider (success) "tk_phase tk = Succeeding" | (closing) "tk_phase tk = Closing"
    using step tk by (auto simp: hooks_end_def split: tick_phase.splits)
  then show ?thesis
  proof cases
    case success
    have "tick_step now tk (tk\<lparr>tk_phase := Closing\<rparr>)"
      using tick success by (simp add: tick_step_def tick_ok_def tick_timing_def tick_active_def)
    then show ?thesis
      using node_step_update [OF ok tk] step tk success by (auto simp: hooks_end_def)
  next
    case closing
    then have "nd' = leave_task now r tk nd"
      using step tk by (simp add: hooks_end_def)
    then show ?thesis
      using leave_task_ok [OF ok tk _ _ _ disjI1] closing by simp
  qed
qed

lemma renewal_timer_step:
  assumes ok: "node_ok now nd" and step: "renewal_timer now r nd = Some nd'"
  shows "node_step now nd nd'"
proof -
  obtain tk where tk: "js_get (cn_ticks nd) r = Some tk" and due: "rs_next_due (tk_renewal tk) \<le> now" and locked: "tk_locked tk"
    and phase: "tk_phase tk \<in> {Running, AwaitingRenewals, Succeeding, Closing}" and nd': "nd' = update_tick r (tk\<lparr>tk_renewal := chain_attempt (tk_renewal tk)\<rparr>) nd"
    using step by (auto simp: renewal_timer_def split: option.splits if_splits)
  have tick: "tick_ok now tk"
    by (rule node_okD(1) [OF ok tk])
  have "rs_next_due (tk_renewal tk) \<le> rs_next_due (chain_attempt (tk_renewal tk))"
    by (simp add: chain_attempt_def Let_def)
  then have "tick_step now tk (tk\<lparr>tk_renewal := chain_attempt (tk_renewal tk)\<rparr>)"
    using locked by (intro tick_step_renewal [OF tick paced_chain [OF _ due]])
  then show ?thesis
    unfolding nd' by (intro node_step_update [OF ok tk]) auto
qed

lemma settle_renewal_step:
  assumes ok: "node_ok now nd" and prompt: "prompt_replies nd" and tk: "js_get (cn_ticks nd) r = Some tk"
    and current: "rs_current (tk_renewal tk) = Some c" and outcome: "outcome = None \<longrightarrow> c = Replied True"
  shows "node_step now nd (settle_renewal r tk outcome nd)"
proof -
  let ?tk = "tk\<lparr>tk_renewal := settle_attempt outcome (tk_renewal tk)\<rparr>" and ?nd = "count_outcome outcome nd"
  have ok': "node_ok now ?nd" and tk': "js_get (cn_ticks ?nd) r = Some tk" and less: "lessens now nd ?nd"
    using ok tk by (auto simp: count_outcome_def node_ok_def lessens_def split: option.split lock_error.split)
  have less: "node_step now ?nd nd' \<Longrightarrow> node_step now nd nd'" for nd'
    by (auto simp: node_step_def lessens_def count_outcome_def split: option.splits lock_error.splits)
  have tick: "tick_ok now tk"
    by (rule node_okD(1) [OF ok tk])
  have due: "rs_next_due (settle_attempt outcome (tk_renewal tk)) = rs_next_due (tk_renewal tk)"
    by (simp add: settle_attempt_def)
  have step: "tick_step now tk ?tk"
    by (rule tick_step_renewal [OF tick paced_settle [OF _ current outcome]]) (use tick current in \<open>simp_all add: due tick_ok_def tick_timing_def\<close>)
  show ?thesis
    proof (cases "tk_phase tk = AwaitingRenewals")
      case True
      then have "tick_step now tk (?tk\<lparr>tk_phase := AwaitingRenewals\<rparr>)"
        using step by (cases tk) simp
      then have "node_step now ?nd (await_renewals r ?tk ?nd)"
        using True prompt_tick [OF prompt tk] by (intro await_renewals_step [OF ok' tk']) simp_all
      then show ?thesis
        using less True by (simp add: settle_renewal_def Let_def)
    next
      case other: False
      have "node_step now ?nd (update_tick r ?tk ?nd)"
        by (rule node_step_update [OF ok' tk' step]) simp
      then show ?thesis
        using less other by (simp add: settle_renewal_def Let_def)
    qed
qed

section \<open>The system\<close>

definition system_ok :: "'r redis \<Rightarrow> (nat \<Rightarrow> string) \<Rightarrow> nat set \<Rightarrow> 'r cron_system \<Rightarrow> bool" where
  "system_ok R own N s \<longleftrightarrow>
     (\<forall>n nd. js_get (cs_nodes s) n = Some nd \<longrightarrow> n \<in> N \<and> cn_owner nd = own n \<and> node_ok (cs_now s) nd) \<and>
     leases_ok R own N (cs_redis s) (cs_now s) (system_leases s)"

definition well_behaved :: "'r cron_system \<Rightarrow> bool" where
  "well_behaved s \<longleftrightarrow> list_all (\<lambda>(n, nd). unshared_keys nd \<and> prompt_replies nd) (cs_nodes s)"

text \<open>The drain of a shutdown does not time out just when Redis has granted a tick a lock, the reply
  has not arrived, and the node still counts the key as owned from an earlier release that
  failed: the shutdown would then release the new lock.\<close>

fun orderly :: "cron_action \<Rightarrow> 'r cron_system \<Rightarrow> bool" where
  "orderly (FinishShutdown n timed_out) s =
     (case js_get (cs_nodes s) n of
        None \<Rightarrow> True
      | Some nd \<Rightarrow> list_all (\<lambda>(r, tk). tk_phase tk = Acquiring (Replied True) \<longrightarrow> tick_key tk \<notin> set (cn_owned nd))
          (cn_ticks nd))"
| "orderly _ s = True"

lemma lease_less:
  assumes "lessens now nd nd'" "js_get (cn_ticks nd') r = Some tk'" "lease_of n tk' = Some l'"
  shows "\<exists>tk l. js_get (cn_ticks nd) r = Some tk \<and> lease_of n tk = Some l \<and> lesser l' l \<and>
    (ls_active l' \<or> ls_held l' \<le> now \<or> \<not> ls_active l)"
proof -
  obtain g where g: "tk_granted tk' = Some g"
    using assms(3) by (auto simp: lease_of_def split: option.splits)
  then obtain tk where "js_get (cn_ticks nd) r = Some tk" "tk_granted tk = Some g" "tick_key tk' = tick_key tk"
      "tk_held tk' \<le> tk_held tk" "tick_active tk' \<longrightarrow> tick_active tk" "tick_active tk' \<or> tk_held tk' \<le> now \<or> \<not> tick_active tk"
    using assms(1,2) unfolding lessens_def by fastforce
  then show ?thesis
    using g assms(3) by (auto simp: lease_of_def lesser_def)
qed

lemma leases_node:
  assumes ok: "leases_ok R own N red now (system_leases s)" and nd: "js_get (cs_nodes s) n = Some nd" and less: "lessens now nd nd'"
  shows "leases_ok R own N red now (system_leases (s\<lparr>cs_nodes := js_set n nd' (cs_nodes s), cs_redis := red'\<rparr>))"
proof (rule leases_shrink [OF ok le_refl])
  fix i l' assume l': "system_leases (s\<lparr>cs_nodes := js_set n nd' (cs_nodes s), cs_redis := red'\<rparr>) i = Some l'"
  obtain m r where i: "i = (m, r)" by force
  show "\<exists>l. system_leases s i = Some l \<and> lesser l' l \<and> (ls_active l' \<or> ls_held l' \<le> now \<or> \<not> ls_active l)"
  proof (cases "m = n")
    case True
    then obtain tk' where "js_get (cn_ticks nd') r = Some tk'" "lease_of n tk' = Some l'"
      using l' i by (auto simp: system_leases_def split: option.splits)
    from lease_less [OF less this] show ?thesis
      using nd i True by (auto simp: system_leases_def)
  next
    case False
    then have "system_leases s i = Some l'"
      using l' i by (simp add: system_leases_def)
    then show ?thesis
      by (auto simp: lesser_def)
  qed
qed

lemma system_node_step:
  assumes ok: "system_ok R own N s" and nd: "js_get (cs_nodes s) n = Some nd" and step: "node_step (cs_now s) nd nd'"
  shows "system_ok R own N (s\<lparr>cs_nodes := js_set n nd' (cs_nodes s), cs_redis := cs_redis s\<rparr>)"
proof -
  have "leases_ok R own N (cs_redis s) (cs_now s) (system_leases (s\<lparr>cs_nodes := js_set n nd' (cs_nodes s), cs_redis := cs_redis s\<rparr>))"
    using ok step by (intro leases_node [OF _ nd]) (simp_all add: system_ok_def node_step_def)
  moreover have "n \<in> N \<and> cn_owner nd' = own n \<and> node_ok (cs_now s) nd'"
    using ok nd step by (auto simp: system_ok_def node_step_def lessens_def)
  ultimately show ?thesis
    using ok by (simp add: system_ok_def)
qed

text \<open>What the leases of a node's own ticks are.\<close>

lemma system_lease_at:
  "system_leases s (n, r) = Some l \<longleftrightarrow> (\<exists>nd tk. js_get (cs_nodes s) n = Some nd \<and> js_get (cn_ticks nd) r = Some tk \<and> lease_of n tk = Some l)"
  by (simp add: system_leases_def split: option.split)

lemma lease_of_node:
  assumes "lease_of n tk = Some l"
  shows "ls_node l = n" "ls_key l = tick_key tk" "ls_active l = tick_active tk" "ls_held l = tk_held tk" "tk_granted tk = Some (ls_granted l)"
  using assms by (simp_all add: lease_of_def split: option.splits) auto

lemma node_lease:
  assumes l: "system_leases s i = Some l" "ls_node l = n" and nd: "js_get (cs_nodes s) n = Some nd"
  obtains q u where "i = (n, q)" "js_get (cn_ticks nd) q = Some u" "lease_of n u = Some l"
proof -
  obtain m q where i: "i = (m, q)" by force
  then obtain nd' u where u: "js_get (cs_nodes s) m = Some nd'" "js_get (cn_ticks nd') q = Some u" "lease_of m u = Some l"
    using l(1) unfolding i system_lease_at by blast
  have "m = n"
    using lease_of_node(1) [OF u(3)] l(2) by simp
  then show ?thesis
    using that i u nd by simp
qed

lemma locked_ttl:
  assumes node: "node_ok now nd" and tk: "js_get (cn_ticks nd) r = Some tk" "tk_locked tk"
  shows "1000 \<le> tick_ttl tk"
proof -
  obtain t where "js_get (cn_objects nd) (tk_task tk) = Some t" "lock_terms (ts_descriptor t) = lock_terms (tk_descriptor tk)"
    using node_okD(5) [OF node tk(1)] by blast
  then have "1000 \<le> td_lock_ttl (tk_descriptor tk)"
    using node_okD(8) [OF node, of "tk_task tk" t] node_okD(3) [OF node tk] by (simp add: lock_terms_def)
  then show ?thesis
    by (simp add: tick_ttl_def)
qed

lemma other_leases:
  assumes node: "node_ok (cs_now s) nd" and keys: "unshared_keys nd" and nd: "js_get (cs_nodes s) n = Some nd"
    and tk: "js_get (cn_ticks nd) r = Some tk" "tk_phase tk \<noteq> Ended"
    and l: "system_leases s i = Some l" "ls_node l = n" "ls_key l = tick_key tk" "i \<noteq> (n, r)"
  shows "\<not> ls_active l"
proof -
  obtain q u where u: "i = (n, q)" "js_get (cn_ticks nd) q = Some u" "lease_of n u = Some l"
    by (rule node_lease [OF l(1,2) nd])
  have "tk_phase u = Ended"
    using same_key_same_tick [OF node keys tk(1) u(2)] l(3,4) lease_of_node(2) [OF u(3)] u(1) tk(2) by auto
  then show ?thesis
    using lease_of_node(3) [OF u(3)] by (simp add: tick_active_def)
qed

lemma system_okI:
  assumes ok: "system_ok R own N s" and nd: "js_get (cs_nodes s) n = Some nd"
    and "node_ok (cs_now s) nd'" "cn_owner nd' = cn_owner nd"
    and "leases_ok R own N red' (cs_now s) (system_leases (s\<lparr>cs_nodes := js_set n nd' (cs_nodes s), cs_redis := red'\<rparr>))"
  shows "system_ok R own N (s\<lparr>cs_nodes := js_set n nd' (cs_nodes s), cs_redis := red'\<rparr>)"
  using assms by (simp add: system_ok_def)

lemma acquire_step:
  assumes redis: "redis_ok R" and own: "inj_on own N" and ok: "system_ok R own N s" and keys: "unshared_keys nd"
    and nd: "js_get (cs_nodes s) n = Some nd" and tk: "js_get (cn_ticks nd) r = Some tk" and phase: "tk_phase tk = Acquiring Sent"
    and step: "run_command R (cs_now s) r (nd, cs_redis s) = Some (nd', red')"
  shows "system_ok R own N (s\<lparr>cs_nodes := js_set n nd' (cs_nodes s), cs_redis := red'\<rparr>)"
proof -
  let ?now = "cs_now s" and ?red = "cs_redis s" and ?s' = "s\<lparr>cs_nodes := js_set n nd' (cs_nodes s), cs_redis := red'\<rparr>"
  have n: "n \<in> N" and owner: "cn_owner nd = own n" and node: "node_ok ?now nd" and leases: "leases_ok R own N ?red ?now (system_leases s)"
    using ok nd by (auto simp: system_ok_def)
  have tick: "tick_ok ?now tk"
    by (rule node_okD(1) [OF node tk])
  have none: "tk_granted tk = None" and locked: "tk_locked tk"
    using tick phase by (auto simp: tick_ok_def tick_timing_def)
  have ttl: "1000 \<le> tick_ttl tk"
    by (rule locked_ttl [OF node tk locked])
  show ?thesis
  proof (cases "rd_get R ?red ?now (tick_key tk)")
    case None
    let ?tk = "tk\<lparr>tk_phase := Acquiring (Replied True), tk_granted := Some ?now, tk_held := ?now + tick_ttl tk\<rparr>"
    let ?l = "\<lparr>ls_node = n, ls_key = tick_key tk, ls_granted = ?now, ls_held = ?now + tick_ttl tk, ls_active = True\<rparr>"
    have "fst (rd_set R ?red ?now (tick_key tk) (own n) (tick_ttl tk))"
      using redis_laws(1) [OF redis] None by simp
    then have nd': "nd' = update_tick r ?tk nd" and red': "red' = snd (rd_set R ?red ?now (tick_key tk) (own n) (tick_ttl tk))"
      using step tk phase by (auto simp: Let_def owner tick_key_def tick_ttl_def split: prod.splits)
    have "tick_same ?now tk ?tk"
      using tick phase none locked ttl by (simp add: tick_same_def tick_ok_def tick_timing_def)
    then have node': "node_ok ?now nd'"
      unfolding nd' by (rule node_ok_update [OF node tk]) simp
    have inactive: "\<not> ls_active l" if "system_leases s i = Some l" "ls_node l = n" "ls_key l = tick_key tk" for i l
    proof (cases "i = (n, r)")
      case True
      then show ?thesis
        using that none nd tk by (auto simp: system_lease_at lease_of_def)
    qed (use other_leases [OF node keys nd tk _ that] phase in simp)
    have "system_leases ?s' = (system_leases s)((n, r) \<mapsto> ?l)"
    proof
      fix i show "system_leases ?s' i = ((system_leases s)((n, r) \<mapsto> ?l)) i"
        using nd by (cases i) (auto simp: system_leases_def nd' lease_of_def tick_active_def tick_key_def)
    qed
    then have "leases_ok R own N red' ?now (system_leases ?s')"
      unfolding red' using leases_grant [OF redis own n leases inactive None] by simp
    then show ?thesis
      by (intro system_okI [OF ok nd node']) (simp_all add: nd')
  next
    case (Some v)
    let ?tk = "tk\<lparr>tk_phase := Acquiring (Replied False), tk_granted := None, tk_held := 0\<rparr>"
    have "\<not> fst (rd_set R ?red ?now (tick_key tk) (own n) (tick_ttl tk))" "snd (rd_set R ?red ?now (tick_key tk) (own n) (tick_ttl tk)) = ?red"
      using redis_laws(1,3) [OF redis] Some by simp_all
    then have nd': "nd' = update_tick r ?tk nd" and red': "red' = ?red"
      using step tk phase by (auto simp: Let_def owner tick_key_def tick_ttl_def split: prod.splits)
    have "tick_step ?now tk ?tk"
      using tick phase none by (simp add: tick_step_def tick_ok_def tick_timing_def)
    then have "node_step ?now nd nd'"
      unfolding nd' by (rule node_step_update [OF node tk]) simp
    then show ?thesis
      unfolding red' by (rule system_node_step [OF ok nd])
  qed
qed

lemma release_step:
  assumes redis: "redis_ok R" and own: "inj_on own N" and ok: "system_ok R own N s" and keys: "unshared_keys nd"
    and nd: "js_get (cs_nodes s) n = Some nd" and tk: "js_get (cn_ticks nd) r = Some tk" and phase: "tk_phase tk = Releasing Sent"
    and step: "run_command R (cs_now s) r (nd, cs_redis s) = Some (nd', red')"
  shows "system_ok R own N (s\<lparr>cs_nodes := js_set n nd' (cs_nodes s), cs_redis := red'\<rparr>)"
proof -
  let ?now = "cs_now s" and ?red = "cs_redis s" and ?s' = "s\<lparr>cs_nodes := js_set n nd' (cs_nodes s), cs_redis := red'\<rparr>"
  have n: "n \<in> N" and owner: "cn_owner nd = own n" and node: "node_ok ?now nd" and leases: "leases_ok R own N ?red ?now (system_leases s)"
    using ok nd by (auto simp: system_ok_def)
  have tick: "tick_ok ?now tk"
    by (rule node_okD(1) [OF node tk])
  obtain b where nd': "nd' = update_tick r (tk\<lparr>tk_phase := Releasing (Replied b), tk_held := min (tk_held tk) ?now\<rparr>) nd"
    and red': "red' = snd (release_lock_script R (tick_key tk) (own n) ?now ?red)"
    using step tk phase by (auto simp: Let_def owner tick_key_def split: prod.splits)
  have "tick_step ?now tk (tk\<lparr>tk_phase := Releasing (Replied b), tk_held := min (tk_held tk) ?now\<rparr>)"
    using tick phase by (simp add: tick_step_def tick_ok_def tick_timing_def tick_active_def min_le_iff_disj, blast)
  then have node': "node_step ?now nd nd'"
    unfolding nd' by (rule node_step_update [OF node tk]) (simp add: phase)
  then have leases': "leases_ok R own N ?red ?now (system_leases ?s')"
    by (intro leases_node [OF leases nd]) (simp add: node_step_def)
  have "\<not> ls_active l" if l: "system_leases ?s' i = Some l" "ls_node l = n" "ls_key l = tick_key tk" for i l
  proof (cases "i = (n, r)")
    case True
    then obtain u where "js_get (cn_ticks nd') r = Some u" "lease_of n u = Some l"
      using l(1) unfolding True system_lease_at by auto
    then show ?thesis
      using lease_of_node(3) [of n u l] by (auto simp: nd' tick_active_def)
  next
    case False
    obtain m q where i: "i = (m, q)" by force
    have "system_leases s i = Some l"
      using l(1) False nd by (auto simp: system_leases_def i nd' split: if_splits)
    then show ?thesis
      using other_leases [OF node keys nd tk _ _ l(2,3) False] phase by simp
  qed
  from leases_release [OF redis own n leases' this]
  have "leases_ok R own N red' ?now (system_leases ?s')"
    unfolding red' .
  then show ?thesis
    using node' by (intro system_okI [OF ok nd]) (simp_all add: node_step_def lessens_def)
qed

lemma run_command_step:
  assumes redis: "redis_ok R" and own: "inj_on own N" and ok: "system_ok R own N s" and keys: "unshared_keys nd"
    and nd: "js_get (cs_nodes s) n = Some nd" and step: "run_command R (cs_now s) r (nd, cs_redis s) = Some (nd', red')"
  shows "system_ok R own N (s\<lparr>cs_nodes := js_set n nd' (cs_nodes s), cs_redis := red'\<rparr>)"
proof -
  obtain tk where tk: "js_get (cn_ticks nd) r = Some tk"
    using step by (auto simp: split: option.splits)
  then have "tk_phase tk = Acquiring Sent \<or> tk_phase tk = Releasing Sent"
    using step by (auto simp: Let_def split: tick_phase.splits command.splits)
  then show ?thesis
    using acquire_step [OF redis own ok keys nd tk _ step] release_step [OF redis own ok keys nd tk _ step] by blast
qed

lemma run_renewal_step:
  assumes redis: "redis_ok R" and own: "inj_on own N" and ok: "system_ok R own N s" and keys: "unshared_keys nd"
    and nd: "js_get (cs_nodes s) n = Some nd" and step: "run_renewal R (cs_now s) r (nd, cs_redis s) = Some (nd', red')"
  shows "system_ok R own N (s\<lparr>cs_nodes := js_set n nd' (cs_nodes s), cs_redis := red'\<rparr>)"
proof -
  let ?now = "cs_now s" and ?red = "cs_redis s" and ?s' = "s\<lparr>cs_nodes := js_set n nd' (cs_nodes s), cs_redis := red'\<rparr>"
  have n: "n \<in> N" and owner: "cn_owner nd = own n" and node: "node_ok ?now nd" and leases: "leases_ok R own N ?red ?now (system_leases s)"
    using ok nd by (auto simp: system_ok_def)
  obtain tk where tk: "js_get (cn_ticks nd) r = Some tk" and current: "rs_current (tk_renewal tk) = Some Sent"
    using step by (auto simp: split: option.splits if_splits)
  have tick: "tick_ok ?now tk"
    by (rule node_okD(1) [OF node tk])
  have ttl: "1000 \<le> tick_ttl tk"
    using tick current by (intro locked_ttl [OF node tk]) (simp add: tick_ok_def tick_timing_def)
  let ?k = "tick_key tk"
  let ?live = "tk_phase tk \<in> {Running, AwaitingRenewals, Succeeding, Closing, Releasing Sent}"
  have live: "tick_active tk" if ?live
    using that by (auto simp: tick_active_def)
  let ?tk = "\<lambda>b held. tk\<lparr>tk_renewal := (tk_renewal tk)\<lparr>rs_current := Some (Replied b)\<rparr>, tk_held := held\<rparr>"
  show ?thesis
  proof (cases "rd_get R ?red ?now ?k = Some (own n)")
    case False
    then have nd': "nd' = update_tick r (?tk False (tk_held tk)) nd" and red': "red' = ?red"
      using step tk current by (auto simp: renew_lock_script_def Let_def owner tick_key_def)
    have "tick_step ?now tk (tk\<lparr>tk_renewal := (tk_renewal tk)\<lparr>rs_current := Some (Replied False)\<rparr>\<rparr>)"
      using paced_run [OF _ current, of ?now False "tk_held tk"] tick current
      by (intro tick_step_renewal) (auto simp: tick_ok_def tick_timing_def)
    then have "node_step ?now nd nd'"
      unfolding nd' by (intro node_step_update [OF node tk]) auto
    then show ?thesis
      unfolding red' by (rule system_node_step [OF ok nd])
  next
    case True
    let ?held = "if ?live then ?now + tick_ttl tk else tk_held tk"
    have nd': "nd' = update_tick r (?tk True ?held) nd" and red': "red' = rd_pexpire R ?red ?now ?k (tick_ttl tk)"
      using step tk current True by (auto simp: renew_lock_script_def Let_def owner tick_key_def tick_ttl_def)
    have grows: "tk_held tk \<le> ?held" "?held \<le> ?now + tick_ttl tk" if "tk_granted tk \<noteq> None"
      using tick that by (auto simp: tick_ok_def tick_timing_def)
    have paced: "paced ?now (?tk True ?held)" if "paced ?now tk" "tk_phase tk \<in> {Running, AwaitingRenewals}"
      using that by (intro paced_run [OF _ current]) auto
    have phase: "\<not> ?live \<Longrightarrow> tk_phase tk = Acquiring (Replied True) \<Longrightarrow> ?held = tk_held tk"
      by simp
    have "tick_ok ?now (?tk True ?held)"
    proof (cases ?live)
      case live: True
      have "tk_locked tk"
        using tick current by (simp add: tick_ok_def tick_timing_def)
      moreover have "under_lock (tk_phase tk)"
        using live by auto
      ultimately have locked: "tk_locked tk" "under_lock (tk_phase tk)" .
      have granted: "tk_granted tk \<noteq> None"
        using tick locked by (simp add: tick_ok_def tick_timing_def)
      show ?thesis
      proof -
        have eq: "?held = ?now + tick_ttl tk"
          using live by simp
        have "tk_finished tk \<le> ?now + tick_ttl tk" if "tk_succeeded tk"
          using tick granted that unfolding tick_ok_def tick_timing_def by (blast intro: trans_le_add1)
        moreover have phases: "tk_phase tk = Running \<or> tk_phase tk = AwaitingRenewals \<or> tk_phase tk = Succeeding \<or> tk_phase tk = Closing \<or> tk_phase tk = Releasing Sent"
          using live by simp
        ultimately show ?thesis
          using phases tick current paced grows [OF granted] granted unfolding eq
          by (elim disjE) (simp_all add: tick_ok_def tick_timing_def)
      qed
    next
      case False
      then have "tk_phase tk \<noteq> Running" "tk_phase tk \<noteq> AwaitingRenewals"
        by auto
      then show ?thesis
        using tick current False unfolding tick_ok_def tick_timing_def by simp
    qed
    then have node': "node_ok ?now nd'"
      unfolding nd' by (intro node_ok_update [OF node tk]) (simp_all add: tick_same_def)
    have held: "ls_held l \<le> ?now + tick_ttl tk" if l: "system_leases s i = Some l" "ls_node l = n" "ls_key l = ?k" for i l
    proof -
      obtain q u where u: "js_get (cn_ticks nd) q = Some u" "lease_of n u = Some l"
        by (rule node_lease [OF l(1,2) nd])
      then have "tick_ttl u = tick_ttl tk"
        using same_key_same_tick [OF node keys tk u(1)] l(3) lease_of_node(2) [OF u(2)] by simp
      moreover have "tk_held u \<le> ?now + tick_ttl u"
        using node_okD(1) [OF node u(1)] lease_of_node(5) [OF u(2)] by (simp add: tick_ok_def tick_timing_def)
      ultimately show ?thesis
        using lease_of_node(4) [OF u(2)] by simp
    qed
    have "system_leases ?s' = system_leases s \<or> (\<exists>i l. system_leases s i = Some l \<and> ls_node l = n \<and> ls_key l = ?k \<and> ls_active l \<and>
        system_leases ?s' = (system_leases s)(i \<mapsto> l\<lparr>ls_held := ?now + tick_ttl tk\<rparr>))"
    proof (cases ?live)
      case live: True
      have "tk_locked tk"
        using tick current by (simp add: tick_ok_def tick_timing_def)
      moreover have "under_lock (tk_phase tk)"
        using live by auto
      ultimately have locked: "tk_locked tk" "under_lock (tk_phase tk)" .
      then obtain g where g: "tk_granted tk = Some g"
        using tick unfolding tick_ok_def tick_timing_def by blast
      let ?l = "\<lparr>ls_node = n, ls_key = ?k, ls_granted = g, ls_held = tk_held tk, ls_active = True\<rparr>"
      have active: "tick_active tk" "tick_active (?tk True (?now + tick_ttl tk))"
        using live by (auto simp: tick_active_def)
      have "system_leases s (n, r) = Some ?l"
        using nd tk g active by (simp add: system_leases_def lease_of_def)
      moreover have "system_leases ?s' = (system_leases s)((n, r) \<mapsto> ?l\<lparr>ls_held := ?now + tick_ttl tk\<rparr>)"
      proof
        fix i show "system_leases ?s' i = ((system_leases s)((n, r) \<mapsto> ?l\<lparr>ls_held := ?now + tick_ttl tk\<rparr>)) i"
          using nd live g active by (cases i) (auto simp: system_leases_def nd' lease_of_def tick_key_def)
      qed
      ultimately show ?thesis
        by fastforce
    next
      case False
      then have "lease_of n (?tk True ?held) = lease_of n tk"
        by (simp add: lease_of_def tick_key_def tick_active_def split: option.split)
      then have "system_leases ?s' i = system_leases s i" for i
        using nd tk False by (cases i) (auto simp: system_leases_def nd')
      then show ?thesis
        by blast
    qed
    then have "leases_ok R own N red' ?now (system_leases ?s')"
      unfolding red' using ttl by (intro leases_renew [OF redis own n leases True _ held]) simp_all
    then show ?thesis
      by (intro system_okI [OF ok nd node']) (simp_all add: nd')
  qed
qed

lemma release_owned:
  assumes redis: "redis_ok R" and own: "inj_on own N" and n: "n \<in> N" and owner: "cn_owner nd = own n"
    and ok: "leases_ok R own N red now V"
    and inactive: "\<And>k i l. k \<in> set ks \<Longrightarrow> V i = Some l \<Longrightarrow> ls_node l = n \<Longrightarrow> ls_key l = k \<Longrightarrow> \<not> ls_active l"
    and release: "release_owned_locks R now ks (nd, red) = (nd', red')"
  shows "leases_ok R own N red' now V \<and> (\<exists>x. nd' = nd\<lparr>cn_owned := x\<rparr>)"
  using owner ok inactive release
proof (induction ks arbitrary: nd red)
  case Nil
  then show ?case
    by (auto intro: exI [of _ "cn_owned nd"])
next
  case (Cons k ks)
  let ?nd = "nd\<lparr>cn_owned := removeAll k (cn_owned nd)\<rparr>" and ?red = "snd (release_lock_script R k (own n) now red)"
  have "leases_ok R own N ?red now V"
    using Cons.prems(3) [of k] by (intro leases_release [OF redis own n Cons.prems(2)]) auto
  moreover have "release_owned_locks R now ks (?nd, ?red) = (nd', red')"
    using Cons.prems(1,4) by simp
  ultimately show ?case
    using Cons.IH [of ?nd ?red] Cons.prems(1,3) by auto
qed

lemma finish_shutdown_step:
  assumes redis: "redis_ok R" and own: "inj_on own N" and ok: "system_ok R own N s" and orderly: "orderly (FinishShutdown n timed_out) s"
    and nd: "js_get (cs_nodes s) n = Some nd" and step: "finish_shutdown R (cs_now s) timed_out (nd, cs_redis s) = Some (nd', red')"
  shows "system_ok R own N (s\<lparr>cs_nodes := js_set n nd' (cs_nodes s), cs_redis := red'\<rparr>)"
proof -
  let ?now = "cs_now s" and ?red = "cs_redis s"
  have n: "n \<in> N" and owner: "cn_owner nd = own n" and node: "node_ok ?now nd" and leases: "leases_ok R own N ?red ?now (system_leases s)"
    using ok nd by (auto simp: system_ok_def)
  let ?keys = "filter (\<lambda>k. k \<notin> set (if timed_out then cn_running_keys nd else [])) (cn_owned nd)"
  have inactive: "\<not> ls_active l" if k: "k \<in> set ?keys" and l: "system_leases s i = Some l" "ls_node l = n" "ls_key l = k" for k i l
  proof
    assume "ls_active l"
    obtain r tk where tk: "js_get (cn_ticks nd) r = Some tk" "lease_of n tk = Some l"
      by (rule node_lease [OF l(1,2) nd])
    then have active: "tick_active tk" "tick_key tk = k" and "tk_granted tk \<noteq> None"
      using \<open>ls_active l\<close> l(3) lease_of_node(2,3,5) [OF tk(2)] by simp_all
    then have "tk_locked tk"
      using node_okD(1) [OF node tk(1)] by (simp add: tick_ok_def tick_timing_def)
    have entry: "(r, tk) \<in> set (cn_ticks nd)"
      using tk(1) by (rule map_of_SomeD)
    then have "tk_phase tk \<noteq> Acquiring (Replied True)"
      using orderly nd active(2) k by (force simp: list_all_iff)
    then have "under_lock (tk_phase tk)"
      using active(1) by (simp add: tick_active_def)
    then have "k \<in> set (cn_running_keys nd)"
      using node_okD(4) [OF node tk(1) \<open>tk_locked tk\<close>] active(2) by simp
    then have "\<not> timed_out"
      using k by auto
    then have "active_ticks nd = []"
      using step by (auto simp: split: if_splits)
    then have "tk_phase tk = Ended"
      using entry by (auto simp: active_ticks_def filter_empty_conv)
    then show False
      using \<open>under_lock (tk_phase tk)\<close> by simp
  qed
  obtain nd1 where "leases_ok R own N red' ?now (system_leases s)" "\<exists>x. nd1 = nd\<lparr>cn_owned := x\<rparr>" and nd': "nd' = nd1\<lparr>cn_lifecycle := Stopped\<rparr>"
  proof (cases "cn_client nd")
    case True
    obtain nd1 red1 where release: "release_owned_locks R ?now ?keys (nd, ?red) = (nd1, red1)"
      by (rule prod.exhaust)
    then have "nd' = nd1\<lparr>cn_lifecycle := Stopped\<rparr>" "red' = red1"
      using step True by (auto simp: Let_def split: if_splits)
    moreover have "leases_ok R own N red1 ?now (system_leases s) \<and> (\<exists>x. nd1 = nd\<lparr>cn_owned := x\<rparr>)"
      by (rule release_owned [OF redis own n owner leases _ release]) (rule inactive)
    ultimately show ?thesis
      using that by blast
  next
    case False
    have "\<exists>x. nd = nd\<lparr>cn_owned := x\<rparr>"
      by (rule exI [of _ "cn_owned nd"]) simp
    moreover have "nd' = nd\<lparr>cn_lifecycle := Stopped\<rparr>" "red' = ?red"
      using step False by (auto simp: Let_def split: if_splits)
    ultimately show ?thesis
      using that [of nd] leases by simp
  qed
  then obtain x where nd'': "nd' = nd\<lparr>cn_owned := x, cn_lifecycle := Stopped\<rparr>" and leases': "leases_ok R own N red' ?now (system_leases s)"
    by auto
  have "system_leases (s\<lparr>cs_nodes := js_set n nd' (cs_nodes s), cs_redis := red'\<rparr>) = system_leases s"
  proof
    fix i show "system_leases (s\<lparr>cs_nodes := js_set n nd' (cs_nodes s), cs_redis := red'\<rparr>) i = system_leases s i"
      using nd by (cases i) (simp add: system_leases_def nd'')
  qed
  moreover have "keeps nd nd'"
    by (simp add: keeps_def nd'')
  ultimately show ?thesis
    using leases' keeps_ok [OF _ node] by (intro system_okI [OF ok nd]) (simp_all add: nd'')
qed

lemma keeps_call_step: "node_ok now nd \<Longrightarrow> cron_call_step H c nd = Some nd' \<Longrightarrow> keeps nd nd'"
  using registry_keeps_call [of now nd H c] by simp

lemma cron_step_ok:
  assumes redis: "redis_ok R" and own: "inj_on own N" and ok: "system_ok R own N s" and behaved: "well_behaved s"
    and orderly: "orderly a s" and step: "cron_step H R a s = Some s'"
  shows "system_ok R own N s'"
proof -
  have node: "node_ok (cs_now s) nd" "unshared_keys nd" "prompt_replies nd" if "js_get (cs_nodes s) n = Some nd" for n nd
    using ok behaved that map_of_SomeD [OF that] by (auto simp: system_ok_def well_behaved_def list_all_iff)
  have local_step: "system_ok R own N s'" if s': "on_node n (node_only f) s = Some s'"
    and f: "\<And>nd nd'. js_get (cs_nodes s) n = Some nd \<Longrightarrow> f nd = Some nd' \<Longrightarrow> node_step (cs_now s) nd nd'" for n f
  proof -
    obtain nd nd' where "js_get (cs_nodes s) n = Some nd" "f nd = Some nd'"
        "s' = s\<lparr>cs_nodes := js_set n nd' (cs_nodes s), cs_redis := cs_redis s\<rparr>"
      using s' by (auto simp: on_node_def split: option.splits)
    then show ?thesis
      using system_node_step [OF ok] f by blast
  qed
  have shared_step: "system_ok R own N s'" if s': "on_node n f s = Some s'"
    and f: "\<And>nd nd' red'. js_get (cs_nodes s) n = Some nd \<Longrightarrow> f (nd, cs_redis s) = Some (nd', red') \<Longrightarrow>
      system_ok R own N (s\<lparr>cs_nodes := js_set n nd' (cs_nodes s), cs_redis := red'\<rparr>)" for n f
    using s' f by (auto simp: on_node_def split: option.splits)
  show ?thesis
  proof (cases a)
    case (Advance d)
    then have s': "s' = s\<lparr>cs_now := cs_now s + d\<rparr>"
      using step by simp
    have "leases_ok R own N (cs_redis s) (cs_now s) (system_leases s)"
      using ok by (simp add: system_ok_def)
    then have "leases_ok R own N (cs_redis s) (cs_now s + d) (system_leases s)"
    proof (rule leases_shrink)
      fix i l' assume "system_leases s i = Some l'"
      then show "\<exists>l. system_leases s i = Some l \<and> lesser l' l \<and> (ls_active l' \<or> ls_held l' \<le> cs_now s + d \<or> \<not> ls_active l)"
        by (intro exI [of _ l']) (auto simp: lesser_def)
    qed simp
    then show ?thesis
      using ok node_ok_mono [of "cs_now s" _ "cs_now s + d"] by (auto simp: s' system_ok_def system_leases_def)
  next
    case (Call n c)
    then show ?thesis
      using step by (intro local_step [of n "cron_call_step H c"]) (auto intro: node_step_keeps node dest: keeps_call_step [OF node(1)])
  next
    case (Fire n h)
    then show ?thesis
      using step by (intro local_step [of n "fire_timer (cs_now s) h"]) (auto intro: fire_timer_step node)
  next
    case (RunCommand n r)
    then show ?thesis
      using step by (intro shared_step [of n "run_command R (cs_now s) r"]) (auto intro: run_command_step [OF redis own ok] node)
  next
    case (CommandReplies n r)
    then show ?thesis
      using step by (intro local_step [of n "command_replies (cs_now s) r"]) (auto intro: command_replies_step node)
  next
    case (CommandFails n r)
    then show ?thesis
      using step by (intro local_step [of n "command_fails (cs_now s) r"]) (auto intro: command_fails_step node)
  next
    case (TaskEnds n r outcome)
    then show ?thesis
      using step by (intro local_step [of n "task_ends (cs_now s) r outcome"]) (auto intro: task_ends_step node)
  next
    case (HooksEnd n r)
    then show ?thesis
      using step by (intro local_step [of n "hooks_end (cs_now s) r"]) (auto intro: hooks_end_step node)
  next
    case (RenewalTimer n r)
    then show ?thesis
      using step by (intro local_step [of n "renewal_timer (cs_now s) r"]) (auto intro: renewal_timer_step node)
  next
    case (RunRenewal n r)
    then show ?thesis
      using step by (intro shared_step [of n "run_renewal R (cs_now s) r"]) (auto intro: run_renewal_step [OF redis own ok] node)
  next
    case (RenewalReplies n r)
    have "node_step (cs_now s) nd nd'" if "js_get (cs_nodes s) n = Some nd" "renewal_replies r nd = Some nd'" for nd nd'
      using that settle_renewal_step [OF node(1,3), OF that(1) that(1)]
      by (auto simp: renewal_replies_def split: option.splits command.splits if_splits)
    then show ?thesis
      using step RenewalReplies by (intro local_step [of n "renewal_replies r"]) auto
  next
    case (RenewalFails n r)
    have "node_step (cs_now s) nd nd'" if "js_get (cs_nodes s) n = Some nd" "renewal_fails r nd = Some nd'" for nd nd'
      using that settle_renewal_step [OF node(1,3), OF that(1) that(1)]
      by (auto simp: renewal_fails_def split: option.splits)
    then show ?thesis
      using step RenewalFails by (intro local_step [of n "renewal_fails r"]) auto
  next
    case (FinishShutdown n timed_out)
    then show ?thesis
      using step orderly by (intro shared_step [of n "finish_shutdown R (cs_now s) timed_out"]) (auto intro: finish_shutdown_step [OF redis own ok])
  qed
qed

section \<open>Runs\<close>

fun cron_run :: "cron_host \<Rightarrow> 'r redis \<Rightarrow> cron_action list \<Rightarrow> 'r cron_system \<Rightarrow> 'r cron_system option" where
  "cron_run H R [] s = Some s"
| "cron_run H R (a # as) s =
     (if well_behaved s \<and> orderly a s
      then (case cron_step H R a s of None \<Rightarrow> None | Some s' \<Rightarrow> cron_run H R as s')
      else None)"

text \<open>Nodes with their own identities, and tasks but no ticks yet.\<close>

definition cron_ready :: "'r cron_system \<Rightarrow> bool" where
  "cron_ready s \<longleftrightarrow> distinct (map (\<lambda>(n, nd). cn_owner nd) (cs_nodes s)) \<and>
     list_all (\<lambda>(n, nd). cn_ticks nd = [] \<and>
       list_all (\<lambda>(i, t). i < cn_next nd \<and> (td_distributed (ts_descriptor t) \<longrightarrow> 1000 \<le> td_lock_ttl (ts_descriptor t))) (cn_objects nd))
       (cs_nodes s)"

lemma cron_run_ok:
  assumes "redis_ok R" "inj_on own N" "system_ok R own N s0" "cron_run H R as s0 = Some s"
  shows "system_ok R own N s"
  using assms(3,4)
proof (induction "as" arbitrary: s0)
  case (Cons a as)
  then obtain s1 where "well_behaved s0" "orderly a s0" "cron_step H R a s0 = Some s1" "cron_run H R as s1 = Some s"
    by (auto split: if_splits option.splits)
  then show ?case
    using Cons.IH cron_step_ok [OF assms(1,2) Cons.prems(1)] by blast
qed simp

lemma tick_ok_succeeded:
  assumes tick: "tick_ok now tk" and "tk_succeeded tk" "tk_locked tk"
  shows "\<exists>g. tk_granted tk = Some g \<and> g \<le> tk_begun tk \<and> tk_finished tk \<le> tk_held tk"
proof -
  have granted: "tk_granted tk \<noteq> None"
    using assms by (simp add: tick_ok_def tick_timing_def)
  have "tk_phase tk \<in> {Succeeding, Closing, Ended} \<or> (\<exists>c. tk_phase tk = Releasing c)"
    using assms by (simp add: tick_ok_def tick_timing_def)
  then have "\<forall>c. tk_phase tk \<noteq> Acquiring c"
    by auto
  then have "the (tk_granted tk) \<le> tk_begun tk \<and> tk_finished tk \<le> tk_held tk"
    using assms granted by (simp add: tick_ok_def tick_timing_def)
  then show ?thesis
    using granted by auto
qed


end
