(* ===== verification/Cron_Examples.thy ===== *)
theory Cron_Examples
  imports Cron_Facts
begin

text \<open>
  Concrete schedulers: two nodes that take turns, and four defects, each on a run that the
  theorems about the lock exclude or do not speak of.
\<close>

section \<open>A server\<close>

definition table_get :: "(string, string \<times> nat) js_map \<Rightarrow> nat \<Rightarrow> string \<Rightarrow> string option" where
  "table_get r t k = (case js_get r k of None \<Rightarrow> None | Some (v, e) \<Rightarrow> if t < e then Some v else None)"

definition table_redis :: "(string, string \<times> nat) js_map redis" where
  "table_redis =
     \<lparr>rd_get = table_get,
      rd_set = (\<lambda>r t k v ttl. if table_get r t k = None then (True, js_set k (v, t + ttl) r) else (False, r)),
      rd_pexpire = (\<lambda>r t k ttl. case js_get r k of None \<Rightarrow> r | Some (v, e) \<Rightarrow> js_set k (v, t + ttl) r),
      rd_del = (\<lambda>r t k. js_delete k r)\<rparr>"

lemma table_redis_ok: "redis_ok table_redis"
  unfolding redis_ok_def table_redis_def
  by (auto simp: table_get_def split: option.splits prod.splits if_splits)

section \<open>Two nodes\<close>

definition example_node :: "string \<Rightarrow> cron_node" where
  "example_node owner =
     \<lparr>cn_owner = owner, cn_distributed = True, cn_client = True, cn_timeout_ms = 10000, cn_objects = [], cn_tasks = [],
      cn_timers = [], cn_ticks = [], cn_running_keys = [], cn_owned = [], cn_losses = 0, cn_failures = 0,
      cn_started = True, cn_lifecycle = Ready, cn_next = 0\<rparr>"

definition example_task :: "string \<Rightarrow> task_kind \<Rightarrow> task_descriptor" where
  "example_task name kind =
     \<lparr>td_name = name, td_kind = kind, td_expression = None, td_ms = Some 60000, td_distributed = True,
      td_lock_key = create_lock_key ''lock'' ''report'', td_lock_ttl = 1000\<rparr>"

definition example_host :: cron_host where
  "example_host = \<lparr>ch_valid = (\<lambda>_. True), ch_schedules = (\<lambda>_. True)\<rparr>"

definition example_system :: "(string, string \<times> nat) js_map cron_system" where
  "example_system = \<lparr>cs_now = 0, cs_redis = [], cs_nodes = [(1, example_node ''a''), (2, example_node ''b'')]\<rparr>"

text \<open>Runs are evaluated by rewriting.\<close>

lemmas run_defs = on_node_def cron_call_step_def add_task_def register_task_def create_scheduled_handle_def
  fire_timer_def handle_task_tick_def new_tick_def should_use_distributed_execution_def set_object_def update_tick_def
  create_lock_renewal_state_def renewal_interval_def command_replies_def command_fails_def end_tick_def complete_timeout_task_def
  renewal_timer_def chain_attempt_def renew_lock_script_def release_lock_script_def renewal_replies_def settle_renewal_def
  settle_attempt_def count_outcome_def await_renewals_def after_renewals_def task_ends_def hooks_end_def leave_task_def
  remove_task_def enable_task_def disable_task_def unschedule_task_def schedule_task_def stop_timer_def begin_shutdown_def
  stop_all_scheduled_tasks_def js_has_def create_lock_key_def Let_def queue_due_lock_renewal_attempts.simps
  well_behaved_def unshared_keys_def prompt_replies_def tick_ttl_def

lemma trimmed_names: "js_trim ''report'' \<noteq> []" "js_trim ''again'' \<noteq> []" "js_trim ''once'' \<noteq> []"
  by code_simp+

lemmas example_defs = example_node_def example_task_def example_host_def example_system_def table_redis_def table_get_def trimmed_names

text \<open>Both nodes have the task. The first runs it and renews its lock once, the second is refused the
  lock meanwhile and runs the task later.\<close>

definition example_actions :: "cron_action list" where
  "example_actions =
     [Call 1 (AddTask (example_task ''report'' IntervalTask)), Call 2 (AddTask (example_task ''report'' IntervalTask)),
      Fire 1 0, RunCommand 1 2, CommandReplies 1 2,
      Fire 2 0, RunCommand 2 2, CommandReplies 2 2,
      Advance 600, RenewalTimer 1 2, RunRenewal 1 2, RenewalReplies 1 2,
      TaskEnds 1 2 Completed, HooksEnd 1 2, HooksEnd 1 2, RunCommand 1 2, CommandReplies 1 2,
      Advance 10, Fire 2 0, RunCommand 2 3, CommandReplies 2 3, Advance 20,
      TaskEnds 2 3 Completed, HooksEnd 2 3, HooksEnd 2 3, RunCommand 2 3, CommandReplies 2 3]"

definition tick_at :: "'r cron_system \<Rightarrow> nat \<Rightarrow> nat \<Rightarrow> tick option" where
  "tick_at s n r = (case js_get (cs_nodes s) n of None \<Rightarrow> None | Some nd \<Rightarrow> js_get (cn_ticks nd) r)"

definition succeeds :: "'r cron_system \<Rightarrow> nat \<Rightarrow> nat \<Rightarrow> bool" where
  "succeeds s n r \<longleftrightarrow> (case tick_at s n r of None \<Rightarrow> False
     | Some tk \<Rightarrow> tk_locked tk \<and> tk_succeeded tk \<and> td_lock_key (tk_descriptor tk) = create_lock_key ''lock'' ''report'')"

lemma tick_at_iff: "tick_at s n r = Some tk \<longleftrightarrow> (\<exists>nd. js_get (cs_nodes s) n = Some nd \<and> js_get (cn_ticks nd) r = Some tk)"
  by (simp add: tick_at_def split: option.split)

lemma example_ready: "cron_ready example_system"
  by (simp add: cron_ready_def example_defs)

lemma example_run:
  "case cron_run example_host table_redis example_actions example_system of
     None \<Rightarrow> False | Some s \<Rightarrow> succeeds s 1 2 \<and> succeeds s 2 3"
  by (simp add: example_actions_def run_defs example_defs succeeds_def tick_at_def)


section \<open>Defects\<close>

definition cron_steps :: "cron_action list \<Rightarrow> (string, string \<times> nat) js_map cron_system \<Rightarrow> (string, string \<times> nat) js_map cron_system option" where
  "cron_steps as s = fold (\<lambda>a m. case m of None \<Rightarrow> None | Some s \<Rightarrow> cron_step example_host table_redis a s) as (Some s)"

text \<open>Two tasks of one node with the same lock key: the lock's value is that of the node, so the first
  task, which let its lock expire, renews and releases that of the second, and another node runs
  the task at the same time as the second. Both runs succeed.\<close>

lemma shared_key_overlap:
  "case cron_steps
     [Call 1 (AddTask (example_task ''report'' IntervalTask)), Call 1 (AddTask (example_task ''again'' IntervalTask)),
      Call 2 (AddTask (example_task ''report'' IntervalTask)),
      Fire 1 0, RunCommand 1 4, CommandReplies 1 4, Advance 1001,
      Fire 1 2, RunCommand 1 5, CommandReplies 1 5,
      TaskEnds 1 4 Completed, RunRenewal 1 4, RenewalReplies 1 4, RunRenewal 1 4, RenewalReplies 1 4,
      HooksEnd 1 4, HooksEnd 1 4, RunCommand 1 4, CommandReplies 1 4,
      Fire 2 0, RunCommand 2 2, CommandReplies 2 2, Advance 100,
      TaskEnds 1 5 Completed, TaskEnds 2 2 Completed] example_system of
     None \<Rightarrow> False
   | Some s \<Rightarrow> (case (tick_at s 1 5, tick_at s 2 2) of
        (Some tk, Some u) \<Rightarrow> tk_succeeded tk \<and> tk_succeeded u \<and> tk_begun u < tk_finished tk \<and> tk_begun tk < tk_finished u
      | _ \<Rightarrow> False)"
  by (simp add: cron_steps_def run_defs example_defs tick_at_def)

text \<open>A release that fails leaves its key among the owned ones. When the drain of a shutdown times out
  between the grant of the next lock and its reply, the key is not yet among the running
  ones, and the shutdown releases the lock of a run that is about to begin: it overlaps a run on another node,
  and both succeed.\<close>

lemma shutdown_releases_granted_lock:
  "case cron_steps
     [Call 1 (AddTask (example_task ''report'' IntervalTask)), Call 2 (AddTask (example_task ''report'' IntervalTask)),
      Fire 1 0, RunCommand 1 2, CommandReplies 1 2, TaskEnds 1 2 Completed, HooksEnd 1 2, HooksEnd 1 2, CommandFails 1 2,
      Advance 1001, Fire 1 0, RunCommand 1 3, Call 1 BeginShutdown, FinishShutdown 1 True, CommandReplies 1 3,
      Fire 2 0, RunCommand 2 2, CommandReplies 2 2, Advance 100,
      TaskEnds 1 3 Completed, TaskEnds 2 2 Completed] example_system of
     None \<Rightarrow> False
   | Some s \<Rightarrow> (case (tick_at s 1 3, tick_at s 2 2) of
        (Some tk, Some u) \<Rightarrow> tk_succeeded tk \<and> tk_succeeded u \<and> tk_begun u < tk_finished tk \<and> tk_begun tk < tk_finished u
      | _ \<Rightarrow> False)"
  by (simp add: cron_steps_def run_defs example_defs tick_at_def active_ticks_def)

text \<open>A timeout task that is disabled and enabled again while it runs: the end of the run forgets the
  new timer without stopping it, and not even removing the task stops it.\<close>

lemma reenabled_timeout_leaks_timer:
  "case cron_steps
     [Call 1 (AddTask ((example_task ''once'' TimeoutTask)\<lparr>td_distributed := False\<rparr>)), Fire 1 0,
      Call 1 (DisableTask ''once''), Call 1 (EnableTask ''once''),
      TaskEnds 1 2 Completed, HooksEnd 1 2, HooksEnd 1 2, Call 1 (RemoveTask ''once''), Call 1 BeginShutdown] example_system of
     None \<Rightarrow> False
   | Some s \<Rightarrow> (case js_get (cs_nodes s) 1 of None \<Rightarrow> False
       | Some nd \<Rightarrow> cn_tasks nd = [] \<and> map (\<lambda>(h, t). (tm_name t, tm_live t)) (cn_timers nd) = [(''once'', False), (''once'', True)])"
  by (simp add: cron_steps_def run_defs example_defs tick_at_def)

section \<open>The runner\<close>

text \<open>The after hook runs last whatever happens; the success hook runs only if the task and the check
  after it succeed, and the error hook only for an error.\<close>

lemma runner_calls:
  assumes "E TaskBody = Some t" "E BeforeRun = None" "E PostRunCheck = None" "E OnSuccess = Some s" "E OnError = Some e" "E AfterRun = Some f"
  shows "execute_task E =
    (case t of
       Inl None \<Rightarrow> (None, [TaskBody, AfterRun])
     | Inl (Some x) \<Rightarrow> (Some x, [TaskBody, OnError, AfterRun])
     | Inr u \<Rightarrow> (case s of
           Inl None \<Rightarrow> (None, [TaskBody, OnSuccess, AfterRun])
         | Inl (Some x) \<Rightarrow> (Some x, [TaskBody, OnSuccess, OnError, AfterRun])
         | Inr v \<Rightarrow> (None, [TaskBody, OnSuccess, AfterRun])))"
  using assms by (auto simp: execute_task_def Let_def split: sum.split option.split)

end
