(* ===== verification/Dto_Metadata.thy ===== *)
theory Dto_Metadata
  imports Js_Number Js_String
begin

text \<open>
  What decorators declare for the fields of a data transfer object: where a field is bound
  from (\<open>http/src/decorators.ts\<close>), the rules that check it (\<open>validation/src/decorators.ts\<close>), how the
  declarations of a class and its superclasses are read back (\<open>core/src/metadata/validation.ts\<close>), and
  the classes derived from others (\<open>validation/src/mapped-types.ts\<close>).
\<close>

section \<open>Values and objects\<close>

datatype js_num = NaN | PositiveInfinity | NegativeInfinity | Fin rat

text \<open>A value; \<open>Opaque\<close> is a symbol, a function or a bigint, and \<open>Detached\<close> an object of the metadata
  stores, which no value of a request is.\<close>

datatype js_val = Undef | Null | Bool bool | Num js_num | Str string | Opaque nat | Ref nat | Detached nat

datatype dto_key = NameKey string | SymKey nat string

fun to_field_name :: "dto_key \<Rightarrow> string" where
  "to_field_name (NameKey s) = s"
| "to_field_name (SymKey i description) = ''Symbol('' @ description @ '')''"

text \<open>An object with its own enumerable properties, which hold data: one whose prototype is
  \<open>Object.prototype\<close> or null, or an instance of a class. A heap is a list; an object is its
  position, and the garbage collector is left out.\<close>

datatype js_obj =
    PlainObj "(dto_key, js_val) js_map"
  | Instance nat "(dto_key, js_val) js_map"
  | ArrayObj "js_val list"
  | SetObj "js_val list"
  | MapObj "(js_val \<times> js_val) list"
  | DateObj js_num
  | OtherObj nat

type_synonym js_heap = "js_obj list"

definition deref :: "js_heap \<Rightarrow> js_val \<Rightarrow> js_obj option" where
  "deref h v = (case v of Ref r \<Rightarrow> if r < length h then Some (h ! r) else None | _ \<Rightarrow> None)"

section \<open>Rules\<close>

datatype metadata_source = PathSource | QuerySource | HeaderSource | CookieSource | BodySource

text \<open>\<open>ValidationIssueMetadata\<close>\<close>

record issue =
  is_code :: string
  is_field :: "string option"
  is_source :: "metadata_source option"

datatype rule_result = Accepted | Rejected | Issues "issue list" | OneIssue issue

text \<open>The argument of \<open>ValidateNested\<close>: the text of the function, the class it is or returns, and
  whether it is a class, which cannot be called.\<close>

record nested_dto =
  nd_text :: string
  nd_class :: nat
  nd_is_class :: bool

text \<open>A callback of the application may throw.\<close>

type_synonym 'a callback = "(nat, 'a) result"

datatype rule_kind =
    ValidateIf "js_heap \<Rightarrow> js_val \<Rightarrow> js_val \<Rightarrow> bool callback"
  | Defined
  | OptionalField
  | Equals js_val
  | NotEquals js_val
  | Empty
  | NotEmpty
  | In "js_val list"
  | NotIn "js_val list"
  | IsString
  | IsNumber bool
  | IsBoolean
  | IsDate
  | IsArray
  | IsObject
  | IsEnum "js_val list"
  | IsInt
  | DivisibleBy js_num
  | Positive
  | Negative
  | MinValue js_num
  | MaxValue js_num
  | MinDate js_num
  | MaxDate js_num
  | Contains string
  | NotContains string
  | LengthBetween js_num "js_num option"
  | MinLength js_num
  | MaxLength js_num
  | Nested nested_dto
  | ValidatorJs string "js_val list"
  | ArrayContains "js_val list"
  | ArrayNotContains "js_val list"
  | ArrayNotEmpty
  | ArrayMinSize js_num
  | ArrayMaxSize js_num
  | ArrayUnique "(js_heap \<Rightarrow> js_val \<Rightarrow> js_val callback) option"
  | Custom "js_heap \<Rightarrow> js_val \<Rightarrow> js_val \<Rightarrow> dto_key \<Rightarrow> rule_result callback" "metadata_source option"

fun is_optional_field :: "rule_kind \<Rightarrow> bool" where
  "is_optional_field OptionalField = True"
| "is_optional_field _ = False"

text \<open>\<open>DtoFieldValidationRule\<close> and \<open>ClassValidationRule\<close>, messages apart\<close>

record dto_rule =
  ru_kind :: rule_kind
  ru_code :: "string option"
  ru_each :: bool

record class_rule =
  cr_validate :: "js_heap \<Rightarrow> js_val \<Rightarrow> rule_result callback"
  cr_code :: "string option"

text \<open>\<open>DtoFieldBindingMetadata\<close>, of which the decorators record parts\<close>

datatype converter_like = ConverterInstance nat | ConverterClass nat | ConverterName string | NotAConverter

record dto_binding =
  db_source :: "metadata_source option"
  db_key :: "string option"
  db_optional :: "bool option"
  db_converter :: "converter_like option"

definition no_binding :: dto_binding where
  "no_binding = \<lparr>db_source = None, db_key = None, db_optional = None, db_converter = None\<rparr>"

section \<open>The stores\<close>

text \<open>The explicit stores, by class, and the metadata objects that the decorators fill.\<close>

record dto_bag =
  bg_bindings :: "(dto_key, dto_binding) js_map option"
  bg_rules :: "(dto_key, dto_rule list) js_map option"
  bg_class_rules :: "class_rule list option"

record dto_store =
  st_bindings :: "(nat, (dto_key, dto_binding) js_map) js_map"
  st_rules :: "(nat, (dto_key, dto_rule list) js_map) js_map"
  st_class_rules :: "(nat, class_rule list) js_map"
  st_bags :: "(nat, dto_bag) js_map"

definition empty_bag :: dto_bag where
  "empty_bag = \<lparr>bg_bindings = None, bg_rules = None, bg_class_rules = None\<rparr>"

definition empty_store :: dto_store where
  "empty_store = \<lparr>st_bindings = [], st_rules = [], st_class_rules = [], st_bags = []\<rparr>"

definition get_or :: "('k, 'v) js_map \<Rightarrow> 'k \<Rightarrow> 'v \<Rightarrow> 'v" where
  "get_or m k d = (case js_get m k of None \<Rightarrow> d | Some v \<Rightarrow> v)"

definition bag_at :: "dto_store \<Rightarrow> nat \<Rightarrow> dto_bag" where
  "bag_at S c = get_or (st_bags S) c empty_bag"

text \<open>A metadata object has that of the superclass as its prototype: a property is that of the
  nearest class of the lineage (\<open>supers\<close>, the class first) that has it.\<close>

definition owner_of :: "(dto_bag \<Rightarrow> 'a option) \<Rightarrow> (nat \<Rightarrow> nat list) \<Rightarrow> dto_store \<Rightarrow> nat \<Rightarrow> nat option" where
  "owner_of field supers S c = List.find (\<lambda>d. field (bag_at S d) \<noteq> None) (supers c)"

definition bag_read :: "(dto_bag \<Rightarrow> 'a option) \<Rightarrow> (nat \<Rightarrow> nat list) \<Rightarrow> dto_store \<Rightarrow> nat \<Rightarrow> 'a option" where
  "bag_read field supers S c = (case owner_of field supers S c of None \<Rightarrow> None | Some d \<Rightarrow> field (bag_at S d))"

text \<open>\<open>cloneMutableValue\<close> of a rule. A rule is a plain object, so the call goes to \<open>fallbackClone\<close>, which
  copies what is inside it to any depth: an operand that is an object, an instance of a class as well
  (\<open>Object.create\<close> of its prototype with copies of its properties), is replaced by a copy. Only a value
  that is handed to \<open>cloneMutableValue\<close> itself stays what it is when it is an instance.\<close>

fun clone_value :: "js_val \<Rightarrow> js_val" where
  "clone_value (Ref r) = Detached r"
| "clone_value v = v"

fun clone_kind :: "rule_kind \<Rightarrow> rule_kind" where
  "clone_kind (Equals v) = Equals (clone_value v)"
| "clone_kind (NotEquals v) = NotEquals (clone_value v)"
| "clone_kind (In vs) = In (map clone_value vs)"
| "clone_kind (NotIn vs) = NotIn (map clone_value vs)"
| "clone_kind (IsEnum vs) = IsEnum (map clone_value vs)"
| "clone_kind (ArrayContains vs) = ArrayContains (map clone_value vs)"
| "clone_kind (ArrayNotContains vs) = ArrayNotContains (map clone_value vs)"
| "clone_kind (ValidatorJs name vs) = ValidatorJs name (map clone_value vs)"
| "clone_kind k = k"

definition clone_rule :: "dto_rule \<Rightarrow> dto_rule" where
  "clone_rule r = r\<lparr>ru_kind := clone_kind (ru_kind r)\<rparr>"

text \<open>\<open>defineDtoFieldBindingMetadata\<close>, \<open>appendDtoFieldValidationRule\<close>, \<open>appendClassValidationRule\<close>\<close>

definition define_dto_field_binding_metadata :: "nat \<Rightarrow> dto_key \<Rightarrow> dto_binding \<Rightarrow> dto_store \<Rightarrow> dto_store" where
  "define_dto_field_binding_metadata c k b S =
     S\<lparr>st_bindings := js_set c (js_set k b (get_or (st_bindings S) c [])) (st_bindings S)\<rparr>"

definition append_dto_field_validation_rule :: "nat \<Rightarrow> dto_key \<Rightarrow> dto_rule \<Rightarrow> dto_store \<Rightarrow> dto_store" where
  "append_dto_field_validation_rule c k r S =
     (let m = get_or (st_rules S) c [] in
      S\<lparr>st_rules := js_set c (js_set k (get_or m k [] @ [clone_rule r]) m) (st_rules S)\<rparr>)"

definition append_class_validation_rule :: "nat \<Rightarrow> class_rule \<Rightarrow> dto_store \<Rightarrow> dto_store" where
  "append_class_validation_rule c r S =
     S\<lparr>st_class_rules := js_set c (get_or (st_class_rules S) c [] @ [r]) (st_class_rules S)\<rparr>"

section \<open>Reading\<close>

text \<open>What the classes of a lineage store, the base class first.\<close>

definition get_inherited_stored_dto_binding_map :: "(nat \<Rightarrow> nat list) \<Rightarrow> dto_store \<Rightarrow> nat \<Rightarrow> (dto_key, dto_binding) js_map" where
  "get_inherited_stored_dto_binding_map supers S c =
     fold (\<lambda>d m. fold (\<lambda>(k, b). js_set k b) (get_or (st_bindings S) d []) m) (rev (supers c)) []"

definition get_inherited_stored_dto_validation_map :: "(nat \<Rightarrow> nat list) \<Rightarrow> dto_store \<Rightarrow> nat \<Rightarrow> (dto_key, dto_rule list) js_map" where
  "get_inherited_stored_dto_validation_map supers S c =
     fold (\<lambda>d m. fold (\<lambda>(k, rs) m. js_set k (get_or m k [] @ map clone_rule rs) m) (get_or (st_rules S) d []) m)
       (rev (supers c)) []"

definition get_inherited_stored_class_validation_rules :: "(nat \<Rightarrow> nat list) \<Rightarrow> dto_store \<Rightarrow> nat \<Rightarrow> class_rule list" where
  "get_inherited_stored_class_validation_rules supers S c =
     concat (map (\<lambda>d. get_or (st_class_rules S) d []) (rev (supers c)))"

definition merge_metadata_property_keys :: "dto_key list \<Rightarrow> dto_key list \<Rightarrow> dto_key list" where
  "merge_metadata_property_keys stored standard = stored @ filter (\<lambda>k. k \<notin> set stored) standard"

text \<open>\<open>a ?? b\<close>\<close>

fun coalesce :: "'a option \<Rightarrow> 'a option \<Rightarrow> 'a option" where
  "coalesce None b = b"
| "coalesce (Some a) b = Some a"

definition merge_binding :: "dto_binding \<Rightarrow> dto_binding \<Rightarrow> dto_binding" where
  "merge_binding stored standard =
     \<lparr>db_source = coalesce (db_source stored) (db_source standard), db_key = coalesce (db_key stored) (db_key standard),
      db_optional = coalesce (db_optional stored) (db_optional standard),
      db_converter = coalesce (db_converter stored) (db_converter standard)\<rparr>"

definition get_dto_binding_schema :: "(nat \<Rightarrow> nat list) \<Rightarrow> dto_store \<Rightarrow> nat \<Rightarrow> (dto_key \<times> dto_binding) list" where
  "get_dto_binding_schema supers S c =
     (let stored = get_inherited_stored_dto_binding_map supers S c;
          standard = (case bag_read bg_bindings supers S c of None \<Rightarrow> [] | Some m \<Rightarrow> m);
          merged = map (\<lambda>k. (k, merge_binding (get_or stored k no_binding) (get_or standard k no_binding)))
            (merge_metadata_property_keys (map fst stored) (map fst standard)) in
      filter (\<lambda>(k, b). db_source b \<noteq> None) merged)"

definition get_dto_validation_schema :: "(nat \<Rightarrow> nat list) \<Rightarrow> dto_store \<Rightarrow> nat \<Rightarrow> (dto_key \<times> dto_rule list) list" where
  "get_dto_validation_schema supers S c =
     (let stored = get_inherited_stored_dto_validation_map supers S c;
          standard = (case bag_read bg_rules supers S c of None \<Rightarrow> [] | Some m \<Rightarrow> m);
          merged = map (\<lambda>k. (k, map clone_rule (get_or standard k []) @ map clone_rule (get_or stored k [])))
            (merge_metadata_property_keys (map fst stored) (map fst standard)) in
      filter (\<lambda>(k, rs). rs \<noteq> []) merged)"

definition get_class_validation_rules :: "(nat \<Rightarrow> nat list) \<Rightarrow> dto_store \<Rightarrow> nat \<Rightarrow> class_rule list" where
  "get_class_validation_rules supers S c =
     (case bag_read bg_class_rules supers S c of None \<Rightarrow> [] | Some rs \<Rightarrow> rs) @
     get_inherited_stored_class_validation_rules supers S c"

section \<open>Decorators\<close>

text \<open>The map or list that is found in the metadata object is changed in place, whichever class it
  belongs to.\<close>

definition append_standard_dto_validation_rule :: "(nat \<Rightarrow> nat list) \<Rightarrow> nat \<Rightarrow> dto_key \<Rightarrow> dto_rule \<Rightarrow> dto_store \<Rightarrow> dto_store" where
  "append_standard_dto_validation_rule supers c k r S =
     (let d = (case owner_of bg_rules supers S c of None \<Rightarrow> c | Some d \<Rightarrow> d);
          m = (case bag_read bg_rules supers S c of None \<Rightarrow> [] | Some m \<Rightarrow> m) in
      S\<lparr>st_bags := js_set d ((bag_at S d)\<lparr>bg_rules := Some (js_set k (get_or m k [] @ [r]) m)\<rparr>) (st_bags S)\<rparr>)"

definition append_standard_class_validation_rule :: "(nat \<Rightarrow> nat list) \<Rightarrow> nat \<Rightarrow> class_rule \<Rightarrow> dto_store \<Rightarrow> dto_store" where
  "append_standard_class_validation_rule supers c r S =
     (let d = (case owner_of bg_class_rules supers S c of None \<Rightarrow> c | Some d \<Rightarrow> d);
          rs = (case bag_read bg_class_rules supers S c of None \<Rightarrow> [] | Some rs \<Rightarrow> rs) in
      S\<lparr>st_bags := js_set d ((bag_at S d)\<lparr>bg_class_rules := Some (rs @ [r])\<rparr>) (st_bags S)\<rparr>)"

definition merge_standard_dto_binding :: "(nat \<Rightarrow> nat list) \<Rightarrow> nat \<Rightarrow> dto_key \<Rightarrow> (dto_binding \<Rightarrow> dto_binding) \<Rightarrow> dto_store \<Rightarrow> dto_store" where
  "merge_standard_dto_binding supers c k f S =
     (let d = (case owner_of bg_bindings supers S c of None \<Rightarrow> c | Some d \<Rightarrow> d);
          m = (case bag_read bg_bindings supers S c of None \<Rightarrow> [] | Some m \<Rightarrow> m) in
      S\<lparr>st_bags := js_set d ((bag_at S d)\<lparr>bg_bindings := Some (js_set k (f (get_or m k no_binding)) m)\<rparr>) (st_bags S)\<rparr>)"

text \<open>A decorator of a field, with the rule it makes, or of the class itself.\<close>

datatype dto_decorator =
    FieldRule dto_key dto_rule
  | ValidateClass class_rule
  | BindFrom metadata_source dto_key "string option"
  | MarkOptional dto_key
  | ConvertWith dto_key converter_like

fun apply_dto_decorator :: "(nat \<Rightarrow> nat list) \<Rightarrow> nat \<Rightarrow> dto_decorator \<Rightarrow> dto_store \<Rightarrow> dto_store" where
  "apply_dto_decorator supers c (FieldRule k r) S = append_standard_dto_validation_rule supers c k r S"
| "apply_dto_decorator supers c (ValidateClass r) S = append_standard_class_validation_rule supers c r S"
| "apply_dto_decorator supers c (BindFrom source k key) S =
     merge_standard_dto_binding supers c k (\<lambda>b. b\<lparr>db_key := key, db_source := Some source\<rparr>) S"
| "apply_dto_decorator supers c (MarkOptional k) S = merge_standard_dto_binding supers c k (\<lambda>b. b\<lparr>db_optional := Some True\<rparr>) S"
| "apply_dto_decorator supers c (ConvertWith k conv) S =
     merge_standard_dto_binding supers c k (\<lambda>b. b\<lparr>db_converter := Some conv\<rparr>) S"

definition declare_dto :: "(nat \<Rightarrow> nat list) \<Rightarrow> nat \<Rightarrow> dto_decorator list \<Rightarrow> dto_store \<Rightarrow> dto_store" where
  "declare_dto supers c ds S = fold (apply_dto_decorator supers c) ds S"

section \<open>Derived classes\<close>

definition collect_dto_keys :: "(nat \<Rightarrow> nat list) \<Rightarrow> dto_store \<Rightarrow> nat \<Rightarrow> dto_key list" where
  "collect_dto_keys supers S c =
     merge_metadata_property_keys (map fst (get_dto_binding_schema supers S c)) (map fst (get_dto_validation_schema supers S c))"

definition copy_dto_metadata :: "(nat \<Rightarrow> nat list) \<Rightarrow> nat \<Rightarrow> nat \<Rightarrow> (dto_key \<Rightarrow> bool) \<Rightarrow> bool \<Rightarrow> dto_store \<Rightarrow> dto_store" where
  "copy_dto_metadata supers source target include class_rules S =
     (let S1 = fold (\<lambda>(k, b). define_dto_field_binding_metadata target k b)
            (filter (\<lambda>(k, b). include k) (get_dto_binding_schema supers S source)) S;
          S2 = fold (\<lambda>(k, rs). fold (append_dto_field_validation_rule target k) rs)
            (filter (\<lambda>(k, rs). include k) (get_dto_validation_schema supers S1 source)) S1 in
      if class_rules then fold (append_class_validation_rule target) (get_class_validation_rules supers S2 source) S2
      else S2)"

definition pick_type :: "(nat \<Rightarrow> nat list) \<Rightarrow> nat \<Rightarrow> dto_key list \<Rightarrow> nat \<Rightarrow> dto_store \<Rightarrow> dto_store" where
  "pick_type supers base keys target S = copy_dto_metadata supers base target (\<lambda>k. k \<in> set keys) False S"

definition omit_type :: "(nat \<Rightarrow> nat list) \<Rightarrow> nat \<Rightarrow> dto_key list \<Rightarrow> nat \<Rightarrow> dto_store \<Rightarrow> dto_store" where
  "omit_type supers base keys target S = copy_dto_metadata supers base target (\<lambda>k. k \<notin> set keys) False S"

definition intersection_type :: "(nat \<Rightarrow> nat list) \<Rightarrow> nat list \<Rightarrow> nat \<Rightarrow> dto_store \<Rightarrow> dto_store" where
  "intersection_type supers bases target S =
     fold (\<lambda>base. copy_dto_metadata supers base target (\<lambda>_. True) True) bases S"

definition optional_rule :: dto_rule where
  "optional_rule = \<lparr>ru_kind = OptionalField, ru_code = None, ru_each = False\<rparr>"

definition partial_type :: "(nat \<Rightarrow> nat list) \<Rightarrow> nat \<Rightarrow> nat \<Rightarrow> dto_store \<Rightarrow> dto_store" where
  "partial_type supers base target S =
     (let S1 = fold (\<lambda>(k, b). define_dto_field_binding_metadata target k (b\<lparr>db_optional := Some True\<rparr>))
            (get_dto_binding_schema supers S base) S in
      fold (\<lambda>(k, rs) S. fold (append_dto_field_validation_rule target k)
              (rs @ (if list_ex (\<lambda>r. is_optional_field (ru_kind r)) rs then [] else [optional_rule])) S)
        (get_dto_validation_schema supers S1 base) S1)"

text \<open>What the constructor of a derived class sets, each to undefined.\<close>

definition derived_fields :: "(nat \<Rightarrow> nat list) \<Rightarrow> dto_store \<Rightarrow> nat list \<Rightarrow> (dto_key \<Rightarrow> bool) \<Rightarrow> (dto_key, js_val) js_map" where
  "derived_fields supers S bases include =
     fold (\<lambda>c m. fold (\<lambda>k m. if include k then js_set k Undef m else m) (collect_dto_keys supers S c) m) bases []"

end
