(* ===== verification/Validation.thy ===== *)
theory Validation
  imports Dto_Metadata
begin

text \<open>
  Validation of data transfer objects (\<open>validation/src/validation.ts\<close>): the predicates of the rules,
  the instances made from plain objects, the walk that collects issues, and the two entry points.
  The object graph may have cycles; the code keeps the objects on its path and the depth of the
  host's stack bounds its recursion, with \<open>None\<close> as the overflow. Callbacks of the
  application and constructors may throw. Objects are only added to the heap; what the walk makes
  for itself is dropped with its heap. Messages are left out, with what their texts may throw (an
  invalid date as the bound of a rule).
\<close>

section \<open>Runs\<close>

datatype dto_error = Thrown nat | NotCallable | DtoValidationError "issue list"

type_synonym 'a run = "(dto_error, 'a) result option"

definition run_bind :: "'a run \<Rightarrow> ('a \<Rightarrow> 'b run) \<Rightarrow> 'b run" where
  "run_bind m f = (case m of None \<Rightarrow> None | Some (Inl e) \<Rightarrow> Some (Inl e) | Some (Inr a) \<Rightarrow> f a)"

definition run_return :: "'a \<Rightarrow> 'a run" where
  "run_return a = Some (Inr a)"

definition run_throw :: "dto_error \<Rightarrow> 'a run" where
  "run_throw e = Some (Inl e)"

definition run_callback :: "'a callback \<Rightarrow> 'a run" where
  "run_callback r = (case r of Inl e \<Rightarrow> run_throw (Thrown e) | Inr a \<Rightarrow> run_return a)"

text \<open>A loop that threads the heap, and one that appends the issues of its rounds.\<close>

fun run_map :: "('a \<Rightarrow> 's \<Rightarrow> ('b \<times> 's) run) \<Rightarrow> 'a list \<Rightarrow> 's \<Rightarrow> ('b list \<times> 's) run" where
  "run_map f [] s = run_return ([], s)"
| "run_map f (x # xs) s =
     run_bind (f x s) (\<lambda>(y, s'). run_bind (run_map f xs s') (\<lambda>(ys, s''). run_return (y # ys, s'')))"

fun run_concat :: "('a \<Rightarrow> 'b list run) \<Rightarrow> 'a list \<Rightarrow> 'b list run" where
  "run_concat f [] = run_return []"
| "run_concat f (x # xs) = run_bind (f x) (\<lambda>bs. run_bind (run_concat f xs) (\<lambda>bss. run_return (bs @ bss)))"

section \<open>The surroundings\<close>

text \<open>The prototype chain of a class, itself first; the metadata stores; the constructors, each
  with the fields it sets; what reading a property gives that an object does not own; and the
  checks of the validator package, which may throw for the options they are given.\<close>

record dto_world =
  dw_supers :: "nat \<Rightarrow> nat list"
  dw_store :: dto_store
  dw_construct :: "nat \<Rightarrow> js_heap \<Rightarrow> ((dto_key, js_val) js_map \<times> js_heap) callback"
  dw_inherited :: "js_obj \<Rightarrow> dto_key \<Rightarrow> js_val"
  dw_validator_js :: "string \<Rightarrow> string \<Rightarrow> js_val list \<Rightarrow> bool callback"

abbreviation missing :: "js_val \<Rightarrow> bool" where
  "missing v \<equiv> v = Undef \<or> v = Null"

fun own_properties :: "js_obj \<Rightarrow> (dto_key, js_val) js_map" where
  "own_properties (PlainObj m) = m"
| "own_properties (Instance c m) = m"
| "own_properties ob = []"

definition read_object :: "dto_world \<Rightarrow> js_obj \<Rightarrow> dto_key \<Rightarrow> js_val" where
  "read_object W ob k = (case js_get (own_properties ob) k of Some v \<Rightarrow> v | None \<Rightarrow> dw_inherited W ob k)"

definition read_property :: "dto_world \<Rightarrow> js_heap \<Rightarrow> js_val \<Rightarrow> dto_key \<Rightarrow> js_val" where
  "read_property W h v k = (case deref h v of None \<Rightarrow> Undef | Some ob \<Rightarrow> read_object W ob k)"

definition is_plain_object :: "js_heap \<Rightarrow> js_val \<Rightarrow> bool" where
  "is_plain_object h v \<longleftrightarrow> (case deref h v of Some (PlainObj m) \<Rightarrow> True | _ \<Rightarrow> False)"

definition instance_of :: "dto_world \<Rightarrow> js_heap \<Rightarrow> js_val \<Rightarrow> nat \<Rightarrow> bool" where
  "instance_of W h v D \<longleftrightarrow> (case deref h v of Some (Instance c m) \<Rightarrow> D \<in> set (dw_supers W c) | _ \<Rightarrow> False)"

definition array_of :: "js_heap \<Rightarrow> js_val \<Rightarrow> js_val list option" where
  "array_of h v = (case deref h v of Some (ArrayObj vs) \<Rightarrow> Some vs | _ \<Rightarrow> None)"

definition date_of :: "js_heap \<Rightarrow> js_val \<Rightarrow> js_num option" where
  "date_of h v = (case deref h v of Some (DateObj t) \<Rightarrow> if t = NaN then None else Some t | _ \<Rightarrow> None)"

text \<open>\<open>getIterableValues\<close> and \<open>getRuleValues\<close>\<close>

definition get_iterable_values :: "js_heap \<Rightarrow> js_val \<Rightarrow> js_val list option" where
  "get_iterable_values h v =
     (case deref h v of
        Some (ArrayObj vs) \<Rightarrow> Some vs
      | Some (SetObj vs) \<Rightarrow> Some vs
      | Some (MapObj kvs) \<Rightarrow> Some (map snd kvs)
      | _ \<Rightarrow> None)"

definition get_rule_values :: "js_heap \<Rightarrow> js_val \<Rightarrow> js_val list" where
  "get_rule_values h v = (case get_iterable_values h v of None \<Rightarrow> [v] | Some vs \<Rightarrow> vs)"

section \<open>Predicates\<close>

fun num_less :: "js_num \<Rightarrow> js_num \<Rightarrow> bool" where
  "num_less (Fin a) (Fin b) = (a < b)"
| "num_less (Fin a) PositiveInfinity = True"
| "num_less NegativeInfinity (Fin b) = True"
| "num_less NegativeInfinity PositiveInfinity = True"
| "num_less _ _ = False"

definition num_le :: "js_num \<Rightarrow> js_num \<Rightarrow> bool" where
  "num_le a b \<longleftrightarrow> a \<noteq> NaN \<and> b \<noteq> NaN \<and> (a = b \<or> num_less a b)"

definition num_of_nat :: "nat \<Rightarrow> js_num" where
  "num_of_nat n = Fin (of_nat n)"

text \<open>\<open>a % b === 0\<close>\<close>

fun remainder_zero :: "js_num \<Rightarrow> js_num \<Rightarrow> bool" where
  "remainder_zero (Fin a) (Fin b) = (b \<noteq> 0 \<and> a / b = of_int \<lfloor>a / b\<rfloor>)"
| "remainder_zero (Fin a) PositiveInfinity = (a = 0)"
| "remainder_zero (Fin a) NegativeInfinity = (a = 0)"
| "remainder_zero _ _ = False"

fun is_integer :: "js_num \<Rightarrow> bool" where
  "is_integer (Fin a) = (a = of_int \<lfloor>a\<rfloor>)"
| "is_integer _ = False"

definition strictly_equal :: "js_val \<Rightarrow> js_val \<Rightarrow> bool" where
  "strictly_equal v w \<longleftrightarrow> v = w \<and> v \<noteq> Num NaN"

text \<open>\<open>includes\<close> takes NaN to be equal to itself.\<close>

definition includes_value :: "js_val list \<Rightarrow> js_val \<Rightarrow> bool" where
  "includes_value vs v \<longleftrightarrow> v \<in> set vs"

definition is_empty_value :: "js_val \<Rightarrow> bool" where
  "is_empty_value v \<longleftrightarrow> v = Str [] \<or> v = Null \<or> v = Undef"

fun on_number :: "(js_num \<Rightarrow> bool) \<Rightarrow> js_val \<Rightarrow> bool" where
  "on_number P (Num x) = P x"
| "on_number P v = False"

fun on_string :: "(string \<Rightarrow> bool) \<Rightarrow> js_val \<Rightarrow> bool" where
  "on_string P (Str s) = P s"
| "on_string P v = False"

definition validator_js_rules :: "string list" where
  "validator_js_rules =
     [''alpha'', ''alphanumeric'', ''ascii'', ''base64'', ''booleanString'', ''currency'', ''dataURI'', ''dateString'',
      ''decimal'', ''email'', ''fqdn'', ''hexColor'', ''hexadecimal'', ''ip'', ''isbn'', ''issn'', ''json'', ''jwt'', ''locale'',
      ''lowercase'', ''magnetURI'', ''matches'', ''mimeType'', ''mobilePhone'', ''mongoId'', ''numberString'', ''port'',
      ''postalCode'', ''rgbColor'', ''rfc3339'', ''semVer'', ''uppercase'', ''url'', ''uuid'', ''iso8601'', ''latLong'']"

definition run_validator_js :: "dto_world \<Rightarrow> string \<Rightarrow> js_val list \<Rightarrow> js_val \<Rightarrow> bool callback" where
  "run_validator_js W name args v =
     (if name = ''latitude'' then Inr (on_number (\<lambda>x. num_le (Fin (-90)) x \<and> num_le x (Fin 90)) v)
      else if name = ''longitude'' then Inr (on_number (\<lambda>x. num_le (Fin (-180)) x \<and> num_le x (Fin 180)) v)
      else
        (case v of
           Str s \<Rightarrow>
             if name \<in> set validator_js_rules
             then dw_validator_js W name s
                    (if name = ''postalCode'' \<and> (args = [] \<or> missing (hd args)) then [Str ''any''] else args)
             else Inr False
         | _ \<Rightarrow> Inr False))"

text \<open>The loop of \<open>arrayUnique\<close>\<close>

fun array_unique :: "(js_val \<Rightarrow> js_val callback) \<Rightarrow> js_val list \<Rightarrow> js_val list \<Rightarrow> bool callback" where
  "array_unique key [] seen = Inr True"
| "array_unique key (v # vs) seen =
     (case key v of
        Inl e \<Rightarrow> Inl e
      | Inr k \<Rightarrow> if k \<in> set seen then Inr False else array_unique key vs (k # seen))"

definition on_array :: "js_heap \<Rightarrow> (js_val list \<Rightarrow> bool) \<Rightarrow> js_val \<Rightarrow> bool" where
  "on_array h P v = (case array_of h v of None \<Rightarrow> False | Some vs \<Rightarrow> P vs)"

definition on_date :: "js_heap \<Rightarrow> (js_num \<Rightarrow> bool) \<Rightarrow> js_val \<Rightarrow> bool" where
  "on_date h P v = (case date_of h v of None \<Rightarrow> False | Some t \<Rightarrow> P t)"

text \<open>\<open>RULE_HANDLERS\<close>: whether a value passes a rule, where neither a callback nor the validator package
  is asked.\<close>

fun rule_predicate :: "dto_world \<Rightarrow> js_heap \<Rightarrow> rule_kind \<Rightarrow> js_val \<Rightarrow> bool" where
  "rule_predicate W h Defined v = (\<not> missing v)"
| "rule_predicate W h (Equals w) v = strictly_equal v w"
| "rule_predicate W h (NotEquals w) v = (\<not> strictly_equal v w)"
| "rule_predicate W h Empty v = is_empty_value v"
| "rule_predicate W h NotEmpty v = (\<not> is_empty_value v)"
| "rule_predicate W h (In vs) v = includes_value vs v"
| "rule_predicate W h (NotIn vs) v = (\<not> includes_value vs v)"
| "rule_predicate W h IsString v = on_string (\<lambda>_. True) v"
| "rule_predicate W h (IsNumber allow_nan) v = on_number (\<lambda>x. allow_nan \<or> x \<noteq> NaN) v"
| "rule_predicate W h IsBoolean v = (v = Bool True \<or> v = Bool False)"
| "rule_predicate W h IsDate v = on_date h (\<lambda>_. True) v"
| "rule_predicate W h IsArray v = on_array h (\<lambda>_. True) v"
| "rule_predicate W h IsObject v = is_plain_object h v"
| "rule_predicate W h (IsEnum vs) v = includes_value vs v"
| "rule_predicate W h IsInt v = on_number is_integer v"
| "rule_predicate W h (DivisibleBy d) v = on_number (\<lambda>x. remainder_zero x d) v"
| "rule_predicate W h Positive v = on_number (num_less (Fin 0)) v"
| "rule_predicate W h Negative v = on_number (\<lambda>x. num_less x (Fin 0)) v"
| "rule_predicate W h (MinValue m) v = on_number (num_le m) v"
| "rule_predicate W h (MaxValue m) v = on_number (\<lambda>x. num_le x m) v"
| "rule_predicate W h (MinDate m) v = on_date h (num_le m) v"
| "rule_predicate W h (MaxDate m) v = on_date h (\<lambda>t. num_le t m) v"
| "rule_predicate W h (Contains part) v = on_string (js_includes part) v"
| "rule_predicate W h (NotContains part) v = on_string (\<lambda>s. \<not> js_includes part s) v"
| "rule_predicate W h (LengthBetween a b) v =
     on_string (\<lambda>s. num_le a (num_of_nat (length s)) \<and> (case b of None \<Rightarrow> True | Some m \<Rightarrow> num_le (num_of_nat (length s)) m)) v"
| "rule_predicate W h (MinLength a) v = on_string (\<lambda>s. num_le a (num_of_nat (length s))) v"
| "rule_predicate W h (MaxLength b) v = on_string (\<lambda>s. num_le (num_of_nat (length s)) b) v"
| "rule_predicate W h (ArrayContains ws) v = on_array h (\<lambda>vs. list_all (includes_value vs) ws) v"
| "rule_predicate W h (ArrayNotContains ws) v = on_array h (\<lambda>vs. list_all (\<lambda>w. \<not> includes_value vs w) ws) v"
| "rule_predicate W h ArrayNotEmpty v = on_array h (\<lambda>vs. vs \<noteq> []) v"
| "rule_predicate W h (ArrayMinSize n) v = on_array h (\<lambda>vs. num_le n (num_of_nat (length vs))) v"
| "rule_predicate W h (ArrayMaxSize n) v = on_array h (\<lambda>vs. num_le (num_of_nat (length vs)) n) v"
| "rule_predicate W h _ v = True"

text \<open>\<open>validateSingleRule\<close>\<close>

definition validate_single_rule :: "dto_world \<Rightarrow> js_heap \<Rightarrow> rule_kind \<Rightarrow> js_val \<Rightarrow> bool callback" where
  "validate_single_rule W h kind v =
     (case kind of
        ArrayUnique selector \<Rightarrow>
          (case array_of h v of
             None \<Rightarrow> Inr False
           | Some vs \<Rightarrow> array_unique (case selector of None \<Rightarrow> Inr | Some f \<Rightarrow> f h) vs [])
      | ValidatorJs name args \<Rightarrow> run_validator_js W name args v
      | _ \<Rightarrow> Inr (rule_predicate W h kind v))"

section \<open>Issues\<close>

fun default_code :: "rule_kind \<Rightarrow> string" where
  "default_code (ValidateIf f) = ''VALIDATE_IF''"
| "default_code Defined = ''REQUIRED''"
| "default_code OptionalField = ''OPTIONAL''"
| "default_code (Equals v) = ''EQUALS''"
| "default_code (NotEquals v) = ''NOT_EQUALS''"
| "default_code Empty = ''EMPTY''"
| "default_code NotEmpty = ''NOT_EMPTY''"
| "default_code (In vs) = ''IN''"
| "default_code (NotIn vs) = ''NOT_IN''"
| "default_code IsString = ''INVALID_STRING''"
| "default_code (IsNumber b) = ''INVALID_NUMBER''"
| "default_code IsBoolean = ''INVALID_BOOLEAN''"
| "default_code IsDate = ''INVALID_DATE''"
| "default_code IsArray = ''INVALID_ARRAY''"
| "default_code IsObject = ''INVALID_OBJECT''"
| "default_code (IsEnum vs) = ''INVALID_ENUM''"
| "default_code IsInt = ''INVALID_INT''"
| "default_code (DivisibleBy d) = ''DIVISIBLE_BY''"
| "default_code Positive = ''POSITIVE''"
| "default_code Negative = ''NEGATIVE''"
| "default_code (MinValue m) = ''MIN''"
| "default_code (MaxValue m) = ''MAX''"
| "default_code (MinDate m) = ''MIN_DATE''"
| "default_code (MaxDate m) = ''MAX_DATE''"
| "default_code (Contains s) = ''CONTAINS''"
| "default_code (NotContains s) = ''NOT_CONTAINS''"
| "default_code (LengthBetween a b) = ''LENGTH''"
| "default_code (MinLength a) = ''MIN_LENGTH''"
| "default_code (MaxLength b) = ''MAX_LENGTH''"
| "default_code (Nested d) = ''INVALID_NESTED''"
| "default_code (ValidatorJs name args) = js_upper name"
| "default_code (ArrayContains vs) = ''ARRAY_CONTAINS''"
| "default_code (ArrayNotContains vs) = ''ARRAY_NOT_CONTAINS''"
| "default_code ArrayNotEmpty = ''ARRAY_NOT_EMPTY''"
| "default_code (ArrayMinSize n) = ''ARRAY_MIN_SIZE''"
| "default_code (ArrayMaxSize n) = ''ARRAY_MAX_SIZE''"
| "default_code (ArrayUnique f) = ''ARRAY_UNIQUE''"
| "default_code (Custom f s) = ''INVALID_FIELD''"

text \<open>\<open>describeValidator\<close>\<close>

definition describe_code :: "dto_rule \<Rightarrow> string" where
  "describe_code r = (case ru_code r of Some c \<Rightarrow> c | None \<Rightarrow> default_code (ru_kind r))"

definition build_issue :: "string \<Rightarrow> string \<Rightarrow> metadata_source option \<Rightarrow> issue" where
  "build_issue code field source = \<lparr>is_code = code, is_field = Some field, is_source = source\<rparr>"

definition normalize_issue :: "string option \<Rightarrow> metadata_source option \<Rightarrow> issue \<Rightarrow> issue" where
  "normalize_issue field source i =
     i\<lparr>is_field := coalesce (is_field i) field, is_source := coalesce (is_source i) source\<rparr>"

definition normalize_result :: "rule_result \<Rightarrow> string option \<Rightarrow> metadata_source option \<Rightarrow> string \<Rightarrow> issue list" where
  "normalize_result res field source code =
     (case res of
        Accepted \<Rightarrow> []
      | Rejected \<Rightarrow> [\<lparr>is_code = code, is_field = field, is_source = source\<rparr>]
      | Issues is \<Rightarrow> map (normalize_issue field source) is
      | OneIssue i \<Rightarrow> [normalize_issue field source i])"

definition join_field_path :: "string \<Rightarrow> string option \<Rightarrow> string" where
  "join_field_path parent child =
     (case child of
        None \<Rightarrow> parent
      | Some [] \<Rightarrow> parent
      | Some (c # cs) \<Rightarrow> if c = CHR ''['' then parent @ c # cs else parent @ ''.'' @ c # cs)"

definition prefix_issues :: "string \<Rightarrow> metadata_source option \<Rightarrow> issue list \<Rightarrow> issue list" where
  "prefix_issues prefix source is =
     map (\<lambda>i. i\<lparr>is_field := Some (join_field_path prefix (is_field i)), is_source := coalesce (is_source i) source\<rparr>) is"

definition indexed_path :: "string \<Rightarrow> nat \<Rightarrow> string" where
  "indexed_path path i = path @ ''['' @ decimal i @ '']''"

section \<open>Class metadata\<close>

text \<open>\<open>resolveNestedDto\<close>: a function is a class if its text starts so; any other is called.\<close>

definition resolve_nested_dto :: "nested_dto \<Rightarrow> nat run" where
  "resolve_nested_dto d =
     (if js_starts_with (nd_text d) ''class '' \<or> \<not> nd_is_class d then run_return (nd_class d) else run_throw NotCallable)"

record nested_transform =
  nt_key :: dto_key
  nt_each :: bool
  nt_class :: nat

record dto_meta =
  dm_bindings :: "(dto_key, dto_binding) js_map"
  dm_class_rules :: "class_rule list"
  dm_schema :: "(dto_key \<times> dto_rule list) list"
  dm_keys :: "dto_key list"
  dm_transforms :: "nested_transform list"

definition is_nested :: "dto_rule \<Rightarrow> bool" where
  "is_nested r = (case ru_kind r of Nested d \<Rightarrow> True | _ \<Rightarrow> False)"

fun collect_nested_dto_transforms :: "(dto_key \<times> dto_rule list) list \<Rightarrow> nested_transform list run" where
  "collect_nested_dto_transforms [] = run_return []"
| "collect_nested_dto_transforms ((k, rs) # entries) =
     (case List.find is_nested rs of
        None \<Rightarrow> collect_nested_dto_transforms entries
      | Some r \<Rightarrow>
          (case ru_kind r of
             Nested d \<Rightarrow>
               run_bind (resolve_nested_dto d) (\<lambda>D.
               run_bind (collect_nested_dto_transforms entries) (\<lambda>ts.
               run_return (\<lparr>nt_key = k, nt_each = ru_each r, nt_class = D\<rparr> # ts)))
           | _ \<Rightarrow> collect_nested_dto_transforms entries))"

text \<open>\<open>getCachedDtoMetadata\<close>\<close>

definition get_dto_metadata :: "dto_world \<Rightarrow> nat \<Rightarrow> dto_meta run" where
  "get_dto_metadata W D =
     (let bindings = get_dto_binding_schema (dw_supers W) (dw_store W) D;
          schema = get_dto_validation_schema (dw_supers W) (dw_store W) D in
      run_bind (collect_nested_dto_transforms schema) (\<lambda>ts.
      run_return \<lparr>dm_bindings = bindings, dm_class_rules = get_class_validation_rules (dw_supers W) (dw_store W) D,
        dm_schema = schema, dm_keys = merge_metadata_property_keys (map fst bindings) (map fst schema), dm_transforms = ts\<rparr>))"

section \<open>Instances\<close>

definition dangerous_key :: "dto_key \<Rightarrow> bool" where
  "dangerous_key k \<longleftrightarrow> k = NameKey ''__proto__'' \<or> k = NameKey ''constructor'' \<or> k = NameKey ''prototype''"

definition assign_safe_own_enumerable_properties :: "(dto_key, js_val) js_map \<Rightarrow> (dto_key, js_val) js_map \<Rightarrow> (dto_key, js_val) js_map" where
  "assign_safe_own_enumerable_properties target source =
     fold (\<lambda>(k, v) m. if dangerous_key k then m else js_set k v m) source target"

text \<open>An empty source key counts as none.\<close>

definition apply_binding_values ::
  "dto_world \<Rightarrow> js_obj \<Rightarrow> dto_key list \<Rightarrow> (dto_key, dto_binding) js_map \<Rightarrow> (dto_key, js_val) js_map \<Rightarrow> (dto_key, js_val) js_map" where
  "apply_binding_values W raw keys bindings props =
     fold (\<lambda>k m. case db_key (get_or bindings k no_binding) of
              None \<Rightarrow> m
            | Some s \<Rightarrow> if s = [] then m else js_set k (read_object W raw (NameKey s)) m) keys props"

type_synonym nested_maker = "nat \<Rightarrow> js_val \<Rightarrow> js_heap \<Rightarrow> (js_val \<times> js_heap) run"

definition transform_nested_value :: "nested_maker \<Rightarrow> nat \<Rightarrow> js_val \<Rightarrow> js_heap \<Rightarrow> (js_val \<times> js_heap) run" where
  "transform_nested_value mk D v h = (if missing v then run_return (v, h) else mk D v h)"

definition transform_nested_each_value :: "nested_maker \<Rightarrow> nat \<Rightarrow> js_val \<Rightarrow> js_heap \<Rightarrow> (js_val \<times> js_heap) run" where
  "transform_nested_each_value mk D v h =
     (case deref h v of
        Some (ArrayObj vs) \<Rightarrow>
          run_bind (run_map (transform_nested_value mk D) vs h) (\<lambda>(ws, h'). run_return (Ref (length h'), h' @ [ArrayObj ws]))
      | Some (SetObj vs) \<Rightarrow>
          run_bind (run_map (transform_nested_value mk D) vs h) (\<lambda>(ws, h'). run_return (Ref (length h'), h' @ [SetObj (rev (remdups (rev ws)))]))
      | Some (MapObj kvs) \<Rightarrow>
          run_bind (run_map (transform_nested_value mk D) (map snd kvs) h)
            (\<lambda>(ws, h'). run_return (Ref (length h'), h' @ [MapObj (zip (map fst kvs) ws)]))
      | _ \<Rightarrow> transform_nested_value mk D v h)"

fun transform_fields ::
  "dto_world \<Rightarrow> nested_maker \<Rightarrow> nat \<Rightarrow> nested_transform list \<Rightarrow> (dto_key, js_val) js_map \<Rightarrow> js_heap \<Rightarrow>
   ((dto_key, js_val) js_map \<times> js_heap) run" where
  "transform_fields W mk D [] props h = run_return (props, h)"
| "transform_fields W mk D (t # ts) props h =
     (let v = read_object W (Instance D props) (nt_key t) in
      if missing v then transform_fields W mk D ts props h
      else
        run_bind ((if nt_each t then transform_nested_each_value else transform_nested_value) mk (nt_class t) v h)
          (\<lambda>(w, h'). transform_fields W mk D ts (js_set (nt_key t) w props) h'))"

text \<open>\<open>createNestedDtoInstance\<close>, which is \<open>materializeNestedDtoValue\<close> as well: an instance of the class
  and a value that is not a plain object stay what they are. The path holds the plain objects
  that instances are being made of. The new object takes its place in the heap when it is done; nothing
  refers to it before.\<close>

primrec create_nested_dto_instance ::
  "nat \<Rightarrow> dto_world \<Rightarrow> nat \<Rightarrow> js_val \<Rightarrow> js_val list \<Rightarrow> js_heap \<Rightarrow> (js_val \<times> js_heap) run" where
  "create_nested_dto_instance 0 W D v active h = None"
| "create_nested_dto_instance (Suc n) W D v active h =
     (case deref h v of
        Some (PlainObj raw) \<Rightarrow>
          run_bind (run_callback (dw_construct W D h)) (\<lambda>(init, h1).
            if v \<in> set active then run_return (v, h1)
            else
              run_bind (get_dto_metadata W D) (\<lambda>M.
              run_bind (transform_fields W (\<lambda>D' x h'. create_nested_dto_instance n W D' x (v # active) h') D (dm_transforms M)
                  (apply_binding_values W (PlainObj raw) (dm_keys M) (dm_bindings M)
                    (assign_safe_own_enumerable_properties init raw)) h1) (\<lambda>(props, h2).
              run_return (Ref (length h2), h2 @ [Instance D props]))))
      | _ \<Rightarrow> run_return (v, h))"

section \<open>Collecting issues\<close>

fun checks_missing_values :: "rule_kind \<Rightarrow> bool" where
  "checks_missing_values Defined = True"
| "checks_missing_values NotEmpty = True"
| "checks_missing_values Empty = True"
| "checks_missing_values _ = False"

definition should_skip_rule_for_missing_value :: "rule_kind \<Rightarrow> js_val \<Rightarrow> bool" where
  "should_skip_rule_for_missing_value kind v \<longleftrightarrow> missing v \<and> \<not> checks_missing_values kind"

definition evaluate_custom_rule ::
  "js_heap \<Rightarrow> dto_rule \<Rightarrow> (js_heap \<Rightarrow> js_val \<Rightarrow> js_val \<Rightarrow> dto_key \<Rightarrow> rule_result callback) \<Rightarrow> metadata_source option \<Rightarrow>
   js_val \<Rightarrow> js_val \<Rightarrow> dto_key \<Rightarrow> string \<Rightarrow> metadata_source option \<Rightarrow> issue list run" where
  "evaluate_custom_rule h r f own v dto k path source =
     (let s = coalesce own source; code = describe_code r in
      if \<not> ru_each r then
        run_bind (run_callback (f h v dto k)) (\<lambda>res. run_return (normalize_result res (Some path) s code))
      else
        run_concat (\<lambda>(i, x).
            run_bind (run_callback (f h x dto k)) (\<lambda>res.
            run_return (prefix_issues (indexed_path path i) source (normalize_result res None s code))))
          (enumerate 0 (get_rule_values h v)))"

text \<open>A value under a nested rule; the walk into it is a parameter.\<close>

definition validate_nested_entry ::
  "dto_world \<Rightarrow> nested_maker \<Rightarrow> (nat \<Rightarrow> js_val \<Rightarrow> string \<Rightarrow> js_val list \<Rightarrow> js_heap \<Rightarrow> issue list run) \<Rightarrow> js_heap \<Rightarrow> dto_rule \<Rightarrow> nat \<Rightarrow>
   string \<Rightarrow> metadata_source option \<Rightarrow> js_val list \<Rightarrow> js_val \<Rightarrow> issue list run" where
  "validate_nested_entry W mk walk h r D path source active x =
     (if missing x then run_return []
      else if \<not> instance_of W h x D \<and> \<not> is_plain_object h x \<or> x \<in> set active
      then run_return [build_issue (describe_code r) path source]
      else
        run_bind (mk D x h) (\<lambda>(dto, h').
          walk D dto path (if instance_of W h x D then active else x # active) h'))"

definition validate_nested_rule ::
  "dto_world \<Rightarrow> nested_maker \<Rightarrow> (nat \<Rightarrow> js_val \<Rightarrow> string \<Rightarrow> js_val list \<Rightarrow> js_heap \<Rightarrow> issue list run) \<Rightarrow> js_heap \<Rightarrow> dto_rule \<Rightarrow>
   nested_dto \<Rightarrow> js_val \<Rightarrow> string \<Rightarrow> metadata_source option \<Rightarrow> js_val list \<Rightarrow> issue list run" where
  "validate_nested_rule W mk walk h r d v path source active =
     run_bind (resolve_nested_dto d) (\<lambda>D.
       run_concat (\<lambda>(i, x). validate_nested_entry W mk walk h r D (if ru_each r then indexed_path path i else path) source active x)
         (enumerate 0 (if ru_each r then get_rule_values h v else [v])))"

definition evaluate_rule ::
  "dto_world \<Rightarrow> nested_maker \<Rightarrow> (nat \<Rightarrow> js_val \<Rightarrow> string \<Rightarrow> js_val list \<Rightarrow> js_heap \<Rightarrow> issue list run) \<Rightarrow> js_heap \<Rightarrow> js_val \<Rightarrow> dto_key \<Rightarrow>
   js_val \<Rightarrow> string \<Rightarrow> metadata_source option \<Rightarrow> js_val list \<Rightarrow> dto_rule \<Rightarrow> issue list run" where
  "evaluate_rule W mk walk h dto k v path source active r =
     (case ru_kind r of
        Custom f own \<Rightarrow> evaluate_custom_rule h r f own v dto k path source
      | Nested d \<Rightarrow> validate_nested_rule W mk walk h r d v path source active
      | kind \<Rightarrow>
          if ru_each r then
            run_concat (\<lambda>(i, x).
                run_bind (run_callback (validate_single_rule W h kind x)) (\<lambda>ok.
                run_return (if ok then [] else [build_issue (describe_code r) (indexed_path path i) source])))
              (enumerate 0 (get_rule_values h v))
          else
            run_bind (run_callback (validate_single_rule W h kind v)) (\<lambda>ok.
            run_return (if ok then [] else [build_issue (describe_code r) path source])))"

fun should_conditionally_skip :: "js_heap \<Rightarrow> dto_rule list \<Rightarrow> js_val \<Rightarrow> js_val \<Rightarrow> bool callback" where
  "should_conditionally_skip h [] dto v = Inr False"
| "should_conditionally_skip h (r # rs) dto v =
     (case ru_kind r of
        ValidateIf f \<Rightarrow>
          (case f h dto v of
             Inl e \<Rightarrow> Inl e
           | Inr b \<Rightarrow> if b then should_conditionally_skip h rs dto v else Inr True)
      | _ \<Rightarrow> should_conditionally_skip h rs dto v)"

fun is_validate_if :: "rule_kind \<Rightarrow> bool" where
  "is_validate_if (ValidateIf f) = True"
| "is_validate_if _ = False"

definition has_optional :: "dto_rule list \<Rightarrow> bool" where
  "has_optional rs \<longleftrightarrow> list_ex (\<lambda>r. is_optional_field (ru_kind r)) rs"

definition rule_applies :: "js_val \<Rightarrow> dto_rule \<Rightarrow> bool" where
  "rule_applies v r \<longleftrightarrow>
     \<not> is_validate_if (ru_kind r) \<and> \<not> is_optional_field (ru_kind r) \<and> \<not> should_skip_rule_for_missing_value (ru_kind r) v"

definition apply_property_rules ::
  "dto_world \<Rightarrow> nested_maker \<Rightarrow> (nat \<Rightarrow> js_val \<Rightarrow> string \<Rightarrow> js_val list \<Rightarrow> js_heap \<Rightarrow> issue list run) \<Rightarrow> js_heap \<Rightarrow> js_val \<Rightarrow> dto_key \<Rightarrow>
   js_val \<Rightarrow> string \<Rightarrow> metadata_source option \<Rightarrow> js_val list \<Rightarrow> dto_rule list \<Rightarrow> issue list run" where
  "apply_property_rules W mk walk h dto k v path source active rs =
     run_bind (run_callback (should_conditionally_skip h rs dto v)) (\<lambda>skip.
       if has_optional rs \<and> missing v then run_return []
       else if skip then run_return []
       else run_concat (evaluate_rule W mk walk h dto k v path source active) (filter (rule_applies v) rs))"

definition validate_class_rule :: "js_heap \<Rightarrow> js_val \<Rightarrow> class_rule \<Rightarrow> issue list run" where
  "validate_class_rule h dto r =
     run_bind (run_callback (cr_validate r h dto)) (\<lambda>res.
     run_return (normalize_result res None None (case cr_code r of Some c \<Rightarrow> c | None \<Rightarrow> ''INVALID_DTO'')))"

text \<open>\<open>collectValidationIssuesInternal\<close>; the empty prefix is none. An object already on the path has no
  issues of its own.\<close>

primrec collect_validation_issues ::
  "nat \<Rightarrow> dto_world \<Rightarrow> metadata_source option \<Rightarrow> nat \<Rightarrow> js_val \<Rightarrow> string \<Rightarrow> js_val list \<Rightarrow> js_heap \<Rightarrow> issue list run" where
  "collect_validation_issues 0 W inherited D v prefix active h = None"
| "collect_validation_issues (Suc n) W inherited D v prefix active h =
     (if v \<in> set active then run_return []
      else
        run_bind (get_dto_metadata W D) (\<lambda>M.
        run_bind (run_concat (\<lambda>(k, rs).
            let source = coalesce (db_source (get_or (dm_bindings M) k no_binding)) inherited;
                path = (if prefix = [] then to_field_name k else join_field_path prefix (Some (to_field_name k))) in
            apply_property_rules W (\<lambda>D' x h'. create_nested_dto_instance n W D' x (v # active) h')
              (\<lambda>D' x prefix' active' h'. collect_validation_issues n W source D' x prefix' active' h')
              h v k (read_property W h v k) path source (v # active) rs) (dm_schema M)) (\<lambda>field_issues.
        run_bind (run_concat (\<lambda>r.
            run_bind (validate_class_rule h v r) (\<lambda>is.
            run_return (if prefix = [] then is else prefix_issues prefix inherited is))) (dm_class_rules M)) (\<lambda>class_issues.
        run_return (field_issues @ class_issues)))))"

section \<open>The validator\<close>

definition assert_valid_root_value :: "dto_world \<Rightarrow> js_heap \<Rightarrow> nat \<Rightarrow> js_val \<Rightarrow> unit run" where
  "assert_valid_root_value W h D v =
     (if instance_of W h v D \<or> is_plain_object h v then run_return ()
      else run_throw (DtoValidationError [\<lparr>is_code = ''INVALID_DTO'', is_field = None, is_source = None\<rparr>]))"

definition throw_issues :: "issue list \<Rightarrow> unit run" where
  "throw_issues is = (if is = [] then run_return () else run_throw (DtoValidationError is))"

definition validate_dto :: "nat \<Rightarrow> dto_world \<Rightarrow> nat \<Rightarrow> js_val \<Rightarrow> js_heap \<Rightarrow> unit run" where
  "validate_dto n W D v h =
     run_bind (assert_valid_root_value W h D v) (\<lambda>_.
     run_bind (collect_validation_issues n W None D v [] [] h) throw_issues)"

definition materialize_dto :: "nat \<Rightarrow> dto_world \<Rightarrow> nat \<Rightarrow> js_val \<Rightarrow> js_heap \<Rightarrow> (js_val \<times> js_heap) run" where
  "materialize_dto n W D v h =
     run_bind (assert_valid_root_value W h D v) (\<lambda>_.
     run_bind (create_nested_dto_instance n W D v [] h) (\<lambda>(w, h').
     run_bind (run_bind (collect_validation_issues n W None D w [] [] h') throw_issues) (\<lambda>_.
     run_return (w, h'))))"

end
