(* ===== verification/Validation_Facts.thy ===== *)
theory Validation_Facts
  imports Validation "HOL-Library.Sublist"
begin

text \<open>
  What it means for an object to conform to a class, as a predicate without paths, issues or
  fuel; that what is materialized from plain data conforms; that data that conforms is accepted; and
  that materialization ends.
\<close>

section \<open>Runs\<close>

lemma run_bind_simps [simp]:
  "run_bind (run_return a) f = f a" "run_bind (run_throw e) f = run_throw e" "run_bind None f = None"
  by (simp_all add: run_bind_def run_return_def run_throw_def)

lemma run_neq [simp]: "run_throw e \<noteq> run_return a" "run_return a \<noteq> run_throw e" "run_throw e \<noteq> None" "run_return a \<noteq> None"
  by (simp_all add: run_return_def run_throw_def)

lemma run_return_inject [simp]: "run_return a = run_return b \<longleftrightarrow> a = b"
  by (simp add: run_return_def)

lemma run_bind_return_iff: "run_bind m f = run_return b \<longleftrightarrow> (\<exists>a. m = run_return a \<and> f a = run_return b)"
  by (auto simp: run_bind_def run_return_def split: option.split sum.split)

text \<open>The stack is deep enough.\<close>

definition returns :: "'a run \<Rightarrow> bool" where
  "returns m \<longleftrightarrow> m \<noteq> None"

lemma returns_simps [simp]: "returns (run_return a)" "returns (run_throw e)" "\<not> returns None"
  by (simp_all add: returns_def run_return_def run_throw_def)

lemma returns_bind [simp]: "returns (run_bind m f) \<longleftrightarrow> returns m \<and> (\<forall>a. m = run_return a \<longrightarrow> returns (f a))"
  by (auto simp: returns_def run_bind_def run_return_def split: option.split sum.split)

lemma run_callback_simps [simp]: "run_callback (Inr a) = run_return a" "run_callback (Inl e) = run_throw (Thrown e)"
  by (simp_all add: run_callback_def)

lemma run_callback_return_iff: "run_callback r = run_return a \<longleftrightarrow> r = Inr a"
  by (cases r) auto

lemma returns_callback [simp]: "returns (run_callback r)"
  by (cases r) auto

lemma run_concat_nil_iff: "run_concat f xs = run_return [] \<longleftrightarrow> (\<forall>x \<in> set xs. f x = run_return [])"
  by (induction xs) (auto simp: run_bind_return_iff)

lemma returns_concat: "(\<And>x. x \<in> set xs \<Longrightarrow> returns (f x)) \<Longrightarrow> returns (run_concat f xs)"
  by (induction xs) simp_all

lemma enumerate_values: "(\<forall>(i, x) \<in> set (enumerate n xs). P x) \<longleftrightarrow> (\<forall>x \<in> set xs. P x)"
  by (induction xs arbitrary: n) auto

lemma enumerate_member: "(i, x) \<in> set (enumerate n xs) \<Longrightarrow> x \<in> set xs"
  by (induction xs arbitrary: n) auto

lemma enumerate_covers: "x \<in> set xs \<Longrightarrow> \<exists>i. (i, x) \<in> set (enumerate n xs)"
proof (induction xs arbitrary: n)
  case (Cons y ys)
  then show ?case
    by (cases "x = y") auto
qed simp

section \<open>Conformance\<close>

abbreviation schema_of :: "dto_world \<Rightarrow> nat \<Rightarrow> (dto_key \<times> dto_rule list) list" where
  "schema_of W \<equiv> get_dto_validation_schema (dw_supers W) (dw_store W)"

definition rule_elements :: "js_heap \<Rightarrow> dto_rule \<Rightarrow> js_val \<Rightarrow> js_val list" where
  "rule_elements h r v = (if ru_each r then get_rule_values h v else [v])"

definition accepting :: "rule_result callback \<Rightarrow> bool" where
  "accepting res \<longleftrightarrow> res = Inr Accepted \<or> res = Inr (Issues [])"

text \<open>A rule holds of a value, given what it is for an object to conform to a class.\<close>

definition rule_holds ::
  "(nat \<Rightarrow> js_val \<Rightarrow> bool) \<Rightarrow> dto_world \<Rightarrow> js_heap \<Rightarrow> js_val \<Rightarrow> dto_key \<Rightarrow> js_val \<Rightarrow> dto_rule \<Rightarrow> bool" where
  "rule_holds C W h dto k v r \<longleftrightarrow>
     (case ru_kind r of
        Custom f own \<Rightarrow> \<forall>x \<in> set (rule_elements h r v). accepting (f h x dto k)
      | Nested d \<Rightarrow> \<exists>D. resolve_nested_dto d = run_return D \<and> (\<forall>x \<in> set (rule_elements h r v). missing x \<or> C D x)
      | kind \<Rightarrow> \<forall>x \<in> set (rule_elements h r v). validate_single_rule W h kind x = Inr True)"

definition field_holds ::
  "(nat \<Rightarrow> js_val \<Rightarrow> bool) \<Rightarrow> dto_world \<Rightarrow> js_heap \<Rightarrow> js_val \<Rightarrow> dto_key \<Rightarrow> dto_rule list \<Rightarrow> bool" where
  "field_holds C W h dto k rs \<longleftrightarrow>
     (let v = read_property W h dto k in
      \<exists>skip. should_conditionally_skip h rs dto v = Inr skip \<and>
        (has_optional rs \<and> missing v \<or> skip \<or> (\<forall>r \<in> set rs. rule_applies v r \<longrightarrow> rule_holds C W h dto k v r)))"

lemma rule_holds_mono: "(\<And>D x. C D x \<Longrightarrow> C' D x) \<Longrightarrow> rule_holds C W h dto k v r \<Longrightarrow> rule_holds C' W h dto k v r"
  unfolding rule_holds_def by (cases "ru_kind r") fastforce+

lemma field_holds_mono [mono]:
  "(\<And>D x. C D x \<longrightarrow> C' D x) \<Longrightarrow> field_holds C W h dto k rs \<longrightarrow> field_holds C' W h dto k rs"
  unfolding field_holds_def Let_def using rule_holds_mono [of C C'] by blast

text \<open>An object conforms to a class if it is an instance, every field holds, the objects under nested
  rules conform to theirs, and the rules of the class accept it.\<close>

inductive conforms :: "dto_world \<Rightarrow> js_heap \<Rightarrow> nat \<Rightarrow> js_val \<Rightarrow> bool" for W h where
  conforms_object:
    "instance_of W h v D \<Longrightarrow>
     (\<And>k rs. (k, rs) \<in> set (schema_of W D) \<Longrightarrow> field_holds (conforms W h) W h v k rs) \<Longrightarrow>
     (\<And>r. r \<in> set (get_class_validation_rules (dw_supers W) (dw_store W) D) \<Longrightarrow> accepting (cr_validate r h v)) \<Longrightarrow>
     conforms W h D v"

inductive_cases conforms_cases: "conforms W h D v"

lemma conforms_parts:
  assumes "conforms W h D v"
  shows "instance_of W h v D" "(k, rs) \<in> set (schema_of W D) \<Longrightarrow> field_holds (conforms W h) W h v k rs"
    "r \<in> set (get_class_validation_rules (dw_supers W) (dw_store W) D) \<Longrightarrow> accepting (cr_validate r h v)"
  using assms by (rule conforms_cases, simp)+

section \<open>Rules without issues\<close>

lemma normalize_result_nil_iff: "normalize_result res field source code = [] \<longleftrightarrow> accepting (Inr res)"
  by (auto simp: normalize_result_def accepting_def split: rule_result.split)

lemma callback_issues_iff:
  "run_bind (run_callback c) (\<lambda>res. run_return (normalize_result res field source code)) = run_return [] \<longleftrightarrow> accepting c"
  by (cases c) (auto simp: normalize_result_nil_iff accepting_def)

lemma prefix_issues_nil [simp]: "prefix_issues p s is = [] \<longleftrightarrow> is = []"
  by (simp add: prefix_issues_def)

lemma evaluate_custom_rule_iff:
  "evaluate_custom_rule h r f own v dto k path source = run_return [] \<longleftrightarrow>
     (\<forall>x \<in> set (rule_elements h r v). accepting (f h x dto k))"
proof -
  have prefixed: "run_bind (run_callback c) (\<lambda>res. run_return (prefix_issues p s (normalize_result res None t code))) = run_return []
      \<longleftrightarrow> accepting c" for c p s t code
    by (cases c) (auto simp: normalize_result_nil_iff accepting_def)
  show ?thesis
    using enumerate_values [of 0 "get_rule_values h v" "\<lambda>x. accepting (f h x dto k)"]
    by (auto simp: evaluate_custom_rule_def Let_def rule_elements_def run_concat_nil_iff callback_issues_iff prefixed
        split: prod.splits)
qed

lemma returns_custom_rule: "returns (evaluate_custom_rule h r f own v dto k path source)"
  by (auto simp: evaluate_custom_rule_def Let_def intro!: returns_concat)

lemma validate_class_rule_iff: "validate_class_rule h dto r = run_return [] \<longleftrightarrow> accepting (cr_validate r h dto)"
  by (simp add: validate_class_rule_def callback_issues_iff)

text \<open>The rules whose check is a predicate.\<close>

fun is_predicate :: "rule_kind \<Rightarrow> bool" where
  "is_predicate (Custom f own) = False"
| "is_predicate (Nested d) = False"
| "is_predicate kind = True"

definition evaluate_predicate :: "dto_world \<Rightarrow> js_heap \<Rightarrow> js_val \<Rightarrow> string \<Rightarrow> metadata_source option \<Rightarrow> dto_rule \<Rightarrow> issue list run" where
  "evaluate_predicate W h v path source r =
     (if ru_each r then
        run_concat (\<lambda>(i, x).
            run_bind (run_callback (validate_single_rule W h (ru_kind r) x)) (\<lambda>ok.
            run_return (if ok then [] else [build_issue (describe_code r) (indexed_path path i) source])))
          (enumerate 0 (get_rule_values h v))
      else
        run_bind (run_callback (validate_single_rule W h (ru_kind r) v)) (\<lambda>ok.
        run_return (if ok then [] else [build_issue (describe_code r) path source])))"

lemma evaluate_rule_predicate:
  "is_predicate (ru_kind r) \<Longrightarrow> evaluate_rule W mk walk h dto k v path source active r = evaluate_predicate W h v path source r"
  by (cases "ru_kind r") (simp_all add: evaluate_rule_def evaluate_predicate_def)

lemma rule_holds_predicate:
  "is_predicate (ru_kind r) \<Longrightarrow>
   rule_holds C W h dto k v r \<longleftrightarrow> (\<forall>x \<in> set (rule_elements h r v). validate_single_rule W h (ru_kind r) x = Inr True)"
  by (cases "ru_kind r") (simp_all add: rule_holds_def)

lemma evaluate_predicate_iff:
  "evaluate_predicate W h v path source r = run_return [] \<longleftrightarrow>
     (\<forall>x \<in> set (rule_elements h r v). validate_single_rule W h (ru_kind r) x = Inr True)"
proof -
  have one: "run_bind (run_callback c) (\<lambda>ok. run_return (if ok then [] else [i])) = run_return [] \<longleftrightarrow> c = Inr True" for c and i :: issue
    by (cases c) auto
  show ?thesis
    using enumerate_values [of 0 "get_rule_values h v" "\<lambda>x. validate_single_rule W h (ru_kind r) x = Inr True"]
    by (auto simp: evaluate_predicate_def rule_elements_def run_concat_nil_iff one split: prod.splits)
qed

lemma returns_predicate: "returns (evaluate_predicate W h v path source r)"
  by (auto simp: evaluate_predicate_def intro!: returns_concat)


section \<open>Settled objects\<close>

text \<open>A value under a nested rule with nothing left to instantiate: it is missing, an instance that is
  itself settled, or of a kind that the rule rejects. The first argument bounds the nesting. Parts are older
  than the whole.\<close>

fun older :: "js_val \<Rightarrow> js_val \<Rightarrow> bool" where
  "older (Ref q) (Ref p) = (q < p)"
| "older v w = False"

definition nested_element :: "dto_world \<Rightarrow> js_heap \<Rightarrow> nat \<Rightarrow> js_val \<Rightarrow> nat \<Rightarrow> js_val \<Rightarrow> bool" where
  "nested_element W h D v D' x \<longleftrightarrow>
     (\<exists>k rs r d. (k, rs) \<in> set (schema_of W D) \<and> r \<in> set rs \<and> ru_kind r = Nested d \<and> resolve_nested_dto d = run_return D' \<and>
        x \<in> set (rule_elements h r (read_property W h v k)))"

definition rejected_element :: "dto_world \<Rightarrow> js_heap \<Rightarrow> nat \<Rightarrow> js_val \<Rightarrow> bool" where
  "rejected_element W h D x \<longleftrightarrow> \<not> is_plain_object h x \<and> \<not> instance_of W h x D \<and> (\<forall>q. x = Ref q \<longrightarrow> q < length h)"

primrec settled :: "nat \<Rightarrow> dto_world \<Rightarrow> js_heap \<Rightarrow> nat \<Rightarrow> js_val \<Rightarrow> bool" where
  "settled 0 W h D v = False"
| "settled (Suc n) W h D v =
     (instance_of W h v D \<and> (\<exists>M. get_dto_metadata W D = run_return M) \<and>
      (\<forall>D' x. nested_element W h D v D' x \<longrightarrow>
         missing x \<or> (settled n W h D' x \<and> older x v) \<or> rejected_element W h D' x))"

lemma settled_Suc: "settled n W h D v \<Longrightarrow> settled (Suc n) W h D v"
proof (induction n arbitrary: D v)
  case (Suc n)
  from Suc.prems have "nested_element W h D v D' x \<Longrightarrow> missing x \<or> (settled (Suc n) W h D' x \<and> older x v) \<or> rejected_element W h D' x" for D' x
    unfolding settled.simps(2) [of n W h D v] using Suc.IH by blast
  with Suc.prems show ?case
    by simp
qed simp

lemma settled_mono: "m \<le> n \<Longrightarrow> settled m W h D v \<Longrightarrow> settled n W h D v"
  by (induction n rule: nat_induct_at_least) (auto dest: settled_Suc simp del: settled.simps)


lemma settled_object:
  assumes "settled n W h D v"
  shows "\<exists>c m. deref h v = Some (Instance c m) \<and> D \<in> set (dw_supers W c)" "\<exists>M. get_dto_metadata W D = run_return M"
    "nested_element W h D v D' x \<Longrightarrow> \<not> missing x \<Longrightarrow> \<not> rejected_element W h D' x \<Longrightarrow> settled (n - 1) W h D' x \<and> older x v"
  using assms by (cases n; fastforce simp: instance_of_def split: option.splits js_obj.splits)+

lemma settled_instance:
  assumes "settled n W h D v"
  shows "instance_of W h v D" "\<not> is_plain_object h v" "\<not> missing v" "n \<noteq> 0"
proof -
  obtain c m where "deref h v = Some (Instance c m)" "D \<in> set (dw_supers W c)"
    using settled_object(1) [OF assms(1)] by blast
  then show "instance_of W h v D" "\<not> is_plain_object h v" "\<not> missing v"
    by (auto simp: instance_of_def is_plain_object_def deref_def)
  show "n \<noteq> 0"
    using assms(1) by (cases n) auto
qed

section \<open>Issues and conformance\<close>

lemma create_keeps: "\<not> is_plain_object h v \<Longrightarrow> create_nested_dto_instance (Suc n) W D v active h = run_return (v, h)"
  by (auto simp: is_plain_object_def split: option.splits js_obj.splits)

definition nested_issues where
  "nested_issues W mk walk h r D v path source active =
     run_concat (\<lambda>(i, x). validate_nested_entry W mk walk h r D (if ru_each r then indexed_path path i else path) source active x)
       (enumerate 0 (rule_elements h r v))"

lemma evaluate_rule_nested:
  "ru_kind r = Nested d \<Longrightarrow>
   evaluate_rule W mk walk h dto k v path source active r =
     run_bind (resolve_nested_dto d) (\<lambda>D. nested_issues W mk walk h r D v path source active)"
  by (simp add: evaluate_rule_def validate_nested_rule_def nested_issues_def rule_elements_def)

lemma evaluate_rule_plain:
  assumes "\<And>d. ru_kind r \<noteq> Nested d"
  shows "evaluate_rule W mk walk h dto k v path source active r = run_return [] \<longleftrightarrow> rule_holds C W h dto k v r"
    and "returns (evaluate_rule W mk walk h dto k v path source active r)"
proof -
  consider (custom) f own where "ru_kind r = Custom f own" | (predicate) "is_predicate (ru_kind r)"
    using assms by (cases "ru_kind r") auto
  then have "(evaluate_rule W mk walk h dto k v path source active r = run_return [] \<longleftrightarrow> rule_holds C W h dto k v r) \<and>
      returns (evaluate_rule W mk walk h dto k v path source active r)"
  proof cases
    case custom
    then show ?thesis
      by (simp add: evaluate_rule_def rule_holds_def evaluate_custom_rule_iff returns_custom_rule)
  next
    case predicate
    then show ?thesis
      by (simp add: evaluate_rule_predicate rule_holds_predicate evaluate_predicate_iff returns_predicate)
  qed
  then show "evaluate_rule W mk walk h dto k v path source active r = run_return [] \<longleftrightarrow> rule_holds C W h dto k v r"
    and "returns (evaluate_rule W mk walk h dto k v path source active r)"
    by blast+
qed

lemma nested_issues_nil_iff:
  "nested_issues W mk walk h r D v path source active = run_return [] \<longleftrightarrow>
     (\<forall>(i, x) \<in> set (enumerate 0 (rule_elements h r v)).
        validate_nested_entry W mk walk h r D (if ru_each r then indexed_path path i else path) source active x = run_return [])"
  by (auto simp: nested_issues_def run_concat_nil_iff split: prod.splits)

text \<open>A rule that applies holds exactly if it has no issues, provided this is so for the entries of nested
  rules.\<close>

lemma evaluate_rule_holds:
  assumes "\<And>d D x p. ru_kind r = Nested d \<Longrightarrow> resolve_nested_dto d = run_return D \<Longrightarrow>
      x \<in> set (rule_elements h r v) \<Longrightarrow> validate_nested_entry W mk walk h r D p source active x = run_return [] \<Longrightarrow>
      missing x \<or> C D x"
    and "evaluate_rule W mk walk h dto k v path source active r = run_return []"
  shows "rule_holds C W h dto k v r"
proof (cases "\<exists>d. ru_kind r = Nested d")
  case True
  then obtain d where kind: "ru_kind r = Nested d"
    by blast
  then obtain D where d: "ru_kind r = Nested d" "resolve_nested_dto d = run_return D"
    and entries: "nested_issues W mk walk h r D v path source active = run_return []"
    using assms(2) unfolding evaluate_rule_nested [OF kind] run_bind_return_iff by blast
  have "missing x \<or> C D x" if member: "x \<in> set (rule_elements h r v)" for x
  proof -
    obtain i where "(i, x) \<in> set (enumerate 0 (rule_elements h r v))"
      using enumerate_covers [OF member] by blast
    with entries have "validate_nested_entry W mk walk h r D (if ru_each r then indexed_path path i else path) source active x = run_return []"
      unfolding nested_issues_nil_iff by fast
    then show ?thesis
      by (rule assms(1) [OF d member])
  qed
  with d show ?thesis
    by (auto simp: rule_holds_def)
next
  case False
  then show ?thesis
    using assms(2) evaluate_rule_plain(1) by blast
qed

lemma evaluate_rule_accepts:
  assumes "\<And>d D x p. ru_kind r = Nested d \<Longrightarrow> resolve_nested_dto d = run_return D \<Longrightarrow>
      x \<in> set (rule_elements h r v) \<Longrightarrow> missing x \<or> C D x \<Longrightarrow> validate_nested_entry W mk walk h r D p source active x = run_return []"
    and "rule_holds C W h dto k v r"
  shows "evaluate_rule W mk walk h dto k v path source active r = run_return []"
proof (cases "\<exists>d. ru_kind r = Nested d")
  case True
  then obtain d D where d: "ru_kind r = Nested d" "resolve_nested_dto d = run_return D"
    and holds: "\<forall>x \<in> set (rule_elements h r v). missing x \<or> C D x"
    using assms(2) by (auto simp: rule_holds_def)
  have "validate_nested_entry W mk walk h r D p source active x = run_return []" if "x \<in> set (rule_elements h r v)" for x p
    using assms(1) [OF d that] holds that by blast
  then have "nested_issues W mk walk h r D v path source active = run_return []"
    unfolding nested_issues_nil_iff by (auto dest: enumerate_member)
  with d show ?thesis
    by (simp add: evaluate_rule_nested)
next
  case False
  then show ?thesis
    using assms(2) evaluate_rule_plain(1) by blast
qed

lemma evaluate_rule_returns:
  assumes "\<And>d D x p. ru_kind r = Nested d \<Longrightarrow> resolve_nested_dto d = run_return D \<Longrightarrow>
      x \<in> set (rule_elements h r v) \<Longrightarrow> returns (validate_nested_entry W mk walk h r D p source active x)"
  shows "returns (evaluate_rule W mk walk h dto k v path source active r)"
proof (cases "\<exists>d. ru_kind r = Nested d")
  case True
  then obtain d where d: "ru_kind r = Nested d"
    by blast
  have "returns (nested_issues W mk walk h r D v path source active)" if "resolve_nested_dto d = run_return D" for D
    unfolding nested_issues_def
  proof (rule returns_concat)
    fix y assume member: "y \<in> set (enumerate 0 (rule_elements h r v))"
    obtain i x where y: "y = (i, x)"
      by (cases y)
    moreover have "x \<in> set (rule_elements h r v)"
      using member enumerate_member unfolding y by fast
    ultimately show "returns (case y of (i, x) \<Rightarrow>
        validate_nested_entry W mk walk h r D (if ru_each r then indexed_path path i else path) source active x)"
      using assms [OF d that] by simp
  qed
  moreover have "returns (resolve_nested_dto d)"
    by (simp add: resolve_nested_dto_def)
  ultimately show ?thesis
    by (simp add: evaluate_rule_nested [OF d])
next
  case False
  then show ?thesis
    using evaluate_rule_plain(2) by blast
qed


lemma apply_property_rules_nil:
  assumes "apply_property_rules W mk walk h dto k (read_property W h dto k) path source active rs = run_return []"
    and "\<And>r. r \<in> set rs \<Longrightarrow> evaluate_rule W mk walk h dto k (read_property W h dto k) path source active r = run_return [] \<Longrightarrow>
      rule_holds C W h dto k (read_property W h dto k) r"
  shows "field_holds C W h dto k rs"
  using assms
  by (auto simp: apply_property_rules_def field_holds_def Let_def run_bind_return_iff run_callback_return_iff run_concat_nil_iff
      split: if_splits)

lemma apply_property_rules_accepts:
  assumes "field_holds C W h dto k rs"
    and "\<And>r. r \<in> set rs \<Longrightarrow> rule_holds C W h dto k (read_property W h dto k) r \<Longrightarrow>
      evaluate_rule W mk walk h dto k (read_property W h dto k) path source active r = run_return []"
  shows "apply_property_rules W mk walk h dto k (read_property W h dto k) path source active rs = run_return []"
  using assms by (auto simp: apply_property_rules_def field_holds_def Let_def run_concat_nil_iff)

lemma apply_property_rules_returns:
  assumes "\<And>r. r \<in> set rs \<Longrightarrow> returns (evaluate_rule W mk walk h dto k v path source active r)"
  shows "returns (apply_property_rules W mk walk h dto k v path source active rs)"
  using assms by (auto simp: apply_property_rules_def intro!: returns_concat)

lemma nested_entry_element:
  assumes "(k, rs) \<in> set (schema_of W D)" "r \<in> set rs" "ru_kind r = Nested d" "resolve_nested_dto d = run_return D'"
    "x \<in> set (rule_elements h r (read_property W h v k))"
  shows "nested_element W h D v D' x"
  using assms unfolding nested_element_def by blast

lemma collect_sound:
  assumes "collect_validation_issues n W inherited D v pre active h = run_return []" "settled m W h D v" "v \<notin> set active"
  shows "conforms W h D v"
  using assms(1-3)
proof (induction n arbitrary: m inherited D v pre active)
  case (Suc n)
  note object = settled_object [OF Suc.prems(2)]
  obtain M where M: "get_dto_metadata W D = run_return M"
    using object(2) by blast
  then have schema: "dm_schema M = schema_of W D" and rules: "dm_class_rules M = get_class_validation_rules (dw_supers W) (dw_store W) D"
    by (auto simp: get_dto_metadata_def Let_def run_bind_return_iff)
  have classes: "accepting (cr_validate r h v)" if "r \<in> set (dm_class_rules M)" for r
    using Suc.prems(1,3) that
    by (auto simp: M run_bind_return_iff run_concat_nil_iff validate_class_rule_iff split: if_splits)
  have "field_holds (conforms W h) W h v k rs" if k: "(k, rs) \<in> set (dm_schema M)" for k rs
  proof -
    define source where "source = coalesce (db_source (get_or (dm_bindings M) k no_binding)) inherited"
    define path where "path = (if pre = [] then to_field_name k else join_field_path pre (Some (to_field_name k)))"
    define mk where "mk = (\<lambda>D' x h'. create_nested_dto_instance n W D' x (v # active) h')"
    define walk where "walk = (\<lambda>D' x pre' active' h'. collect_validation_issues n W source D' x pre' active' h')"
    have field: "apply_property_rules W mk walk h v k (read_property W h v k) path source (v # active) rs = run_return []"
      using Suc.prems(1,3) k
      by (auto simp: M run_bind_return_iff run_concat_nil_iff Let_def source_def path_def mk_def walk_def split: if_splits)
    show ?thesis
    proof (rule apply_property_rules_nil [OF field])
      fix r
      assume r: "r \<in> set rs" and "evaluate_rule W mk walk h v k (read_property W h v k) path source (v # active) r = run_return []"
      then show "rule_holds (conforms W h) W h v k (read_property W h v k) r"
      proof (elim evaluate_rule_holds [rotated])
        fix d D' x p
        assume d: "ru_kind r = Nested d" "resolve_nested_dto d = run_return D'" "x \<in> set (rule_elements h r (read_property W h v k))"
          and entry: "validate_nested_entry W mk walk h r D' p source (v # active) x = run_return []"
        show "missing x \<or> conforms W h D' x"
        proof (cases "missing x")
          case False
          then have x: "x \<notin> set (v # active)" "\<not> rejected_element W h D' x"
            and inner: "run_bind (mk D' x h) (\<lambda>(dto, h'). walk D' dto p (if instance_of W h x D' then v # active else x # v # active) h') = run_return []"
            using entry by (auto simp: validate_nested_entry_def rejected_element_def split: if_splits)
          have settled: "settled (m - 1) W h D' x"
            using object(3) [OF nested_entry_element [OF _ r d] False x(2)] k schema by simp
          then have plain: "instance_of W h x D'" "\<not> is_plain_object h x"
            using settled_instance by blast+
          have "n \<noteq> 0"
            using inner by (cases n) (simp_all add: mk_def run_return_def)
          then have "mk D' x h = run_return (x, h)"
            using create_keeps [OF plain(2)] by (cases n) (simp_all add: mk_def)
          with inner plain have "walk D' x p (v # active) h = run_return []"
            by simp
          then have "conforms W h D' x"
            using Suc.IH settled x(1) unfolding walk_def by blast
          then show ?thesis ..
        qed simp
      qed
    qed
  qed
  with classes show ?case
    using settled_instance(1) [OF Suc.prems(2)] by (intro conforms_object) (simp_all add: schema rules)
qed (simp add: run_return_def)


lemma older_irrefl [simp]: "\<not> older v v"
  by (cases v) auto

lemma older_trans: "older x y \<Longrightarrow> older y z \<Longrightarrow> older x z"
  by (cases x; cases y; cases z) auto

lemma not_active: "\<forall>a \<in> set active. older v a \<Longrightarrow> v \<notin> set active"
  using older_irrefl by blast

lemma active_older: "\<forall>a \<in> set active. older v a \<Longrightarrow> older x v \<Longrightarrow> \<forall>a \<in> set (v # active). older x a"
  using older_trans by auto

text \<open>An entry under a nested rule of a settled object.\<close>

lemma settled_entry:
  assumes "settled m W h D v" "nested_element W h D v D' x" "\<not> missing x" "instance_of W h x D' \<or> is_plain_object h x"
  shows "settled (m - 1) W h D' x" "older x v" "instance_of W h x D'" "\<not> is_plain_object h x" "m - 1 \<noteq> 0"
proof -
  have "\<not> rejected_element W h D' x"
    using assms(4) by (auto simp: rejected_element_def)
  then have "settled (m - 1) W h D' x \<and> older x v"
    using settled_object(3) [OF assms(1-3)] by blast
  then show "settled (m - 1) W h D' x" "older x v" "instance_of W h x D'" "\<not> is_plain_object h x" "m - 1 \<noteq> 0"
    using settled_instance by blast+
qed

lemma validate_nested_entry_at:
  assumes "settled m W h D v" "nested_element W h D v D' x" "m \<le> Suc n"
    and active: "\<forall>a \<in> set active. older v a"
  shows "validate_nested_entry W (\<lambda>D' x h'. create_nested_dto_instance n W D' x (v # active) h') walk h r D' p source (v # active) x =
    (if missing x then run_return []
     else if instance_of W h x D' then walk D' x p (v # active) h
     else run_return [build_issue (describe_code r) p source])"
proof -
  consider "missing x" | "\<not> missing x" "\<not> instance_of W h x D'" "\<not> is_plain_object h x"
    | "\<not> missing x" "instance_of W h x D' \<or> is_plain_object h x"
    by blast
  then show ?thesis
  proof cases
    case 3
    note x = settled_entry [OF assms(1,2) 3]
    obtain n' where "n = Suc n'"
      using x(5) assms(3) by (cases n) auto
    moreover have "x \<notin> set (v # active)"
      by (rule not_active [OF active_older [OF active x(2)]])
    ultimately show ?thesis
      using 3(1) x(3,4) create_keeps [OF x(4)] by (simp add: validate_nested_entry_def)
  qed (simp_all add: validate_nested_entry_def)
qed

lemma collect_complete:
  assumes "conforms W h D v" "settled m W h D v" "m \<le> n" "\<forall>a \<in> set active. older v a"
  shows "collect_validation_issues n W inherited D v pre active h = run_return []"
  using assms(1-4)
proof (induction n arbitrary: m inherited D v pre active)
  case 0
  then show ?case
    using settled_instance(4) by fastforce
next
  case (Suc n)
  note object = settled_object [OF Suc.prems(2)]
  obtain M where M: "get_dto_metadata W D = run_return M"
    using object(2) by blast
  then have schema: "dm_schema M = schema_of W D" and rules: "dm_class_rules M = get_class_validation_rules (dw_supers W) (dw_store W) D"
    by (auto simp: get_dto_metadata_def Let_def run_bind_return_iff)
  have holds: "field_holds (conforms W h) W h v k rs" if "(k, rs) \<in> set (dm_schema M)" for k rs
    using conforms_parts(2) [OF Suc.prems(1)] that schema by simp
  have classes: "accepting (cr_validate r h v)" if "r \<in> set (dm_class_rules M)" for r
    using conforms_parts(3) [OF Suc.prems(1)] that rules by simp
  have field: "apply_property_rules W (\<lambda>D' x h'. create_nested_dto_instance n W D' x (v # active) h')
      (\<lambda>D' x pre' active' h'. collect_validation_issues n W source D' x pre' active' h')
      h v k (read_property W h v k) path source (v # active) rs = run_return []"
    if k: "(k, rs) \<in> set (dm_schema M)" for k rs source path
  proof (rule apply_property_rules_accepts [OF holds [OF k]], erule evaluate_rule_accepts [rotated])
    fix r d D' x p
    assume r: "r \<in> set rs" "ru_kind r = Nested d" "resolve_nested_dto d = run_return D'"
      "x \<in> set (rule_elements h r (read_property W h v k))" and x: "missing x \<or> conforms W h D' x"
    have element: "nested_element W h D v D' x"
      using nested_entry_element [OF _ r] k schema by simp
    note entry = validate_nested_entry_at [OF Suc.prems(2) element Suc.prems(3) Suc.prems(4)]
    have "collect_validation_issues n W source D' x p (v # active) h = run_return []" if present: "\<not> missing x" "instance_of W h x D'"
    proof -
      note parts = settled_entry [OF Suc.prems(2) element present(1) disjI1 [OF present(2)]]
      have "m - 1 \<le> n"
        using Suc.prems(3) by simp
      with Suc.IH x present parts(1) active_older [OF Suc.prems(4) parts(2)] show ?thesis
        by blast
    qed
    moreover have "instance_of W h x D'" if "conforms W h D' x"
      using that by (rule conforms_parts(1))
    ultimately show "validate_nested_entry W (\<lambda>D' x h'. create_nested_dto_instance n W D' x (v # active) h')
        (\<lambda>D' x pre' active' h'. collect_validation_issues n W source D' x pre' active' h') h r D' p source (v # active) x = run_return []"
      unfolding entry using x by auto
  qed
  have all_fields: "run_concat (\<lambda>(k, rs).
            let source = coalesce (db_source (get_or (dm_bindings M) k no_binding)) inherited;
                path = (if pre = [] then to_field_name k else join_field_path pre (Some (to_field_name k))) in
            apply_property_rules W (\<lambda>D' x h'. create_nested_dto_instance n W D' x (v # active) h')
              (\<lambda>D' x prefix' active' h'. collect_validation_issues n W source D' x prefix' active' h')
              h v k (read_property W h v k) path source (v # active) rs) (dm_schema M) = run_return []"
    unfolding run_concat_nil_iff by (auto simp: Let_def field)
  have all_classes: "run_concat (\<lambda>r. run_bind (validate_class_rule h v r) (\<lambda>is.
      run_return (if pre = [] then is else prefix_issues pre inherited is))) (dm_class_rules M) = run_return []"
    unfolding run_concat_nil_iff using classes by (auto simp: run_bind_return_iff validate_class_rule_iff)
  show ?case
    using not_active [OF Suc.prems(4)] all_fields all_classes by (simp add: M Let_def)
qed

lemma collect_returns:
  assumes "settled m W h D v" "m \<le> n" "\<forall>a \<in> set active. older v a"
  shows "returns (collect_validation_issues n W inherited D v pre active h)"
  using assms(1-3)
proof (induction n arbitrary: m inherited D v pre active)
  case 0
  then show ?case
    using settled_instance(4) by fastforce
next
  case (Suc n)
  note object = settled_object [OF Suc.prems(1)]
  obtain M where M: "get_dto_metadata W D = run_return M"
    using object(2) by blast
  then have schema: "dm_schema M = schema_of W D"
    by (auto simp: get_dto_metadata_def Let_def run_bind_return_iff)
  have field: "returns (apply_property_rules W (\<lambda>D' x h'. create_nested_dto_instance n W D' x (v # active) h')
      (\<lambda>D' x pre' active' h'. collect_validation_issues n W source D' x pre' active' h')
      h v k (read_property W h v k) path source (v # active) rs)"
    if k: "(k, rs) \<in> set (dm_schema M)" for k rs source path
  proof (rule apply_property_rules_returns, rule evaluate_rule_returns)
    fix r d D' x p
    assume r: "r \<in> set rs" "ru_kind r = Nested d" "resolve_nested_dto d = run_return D'"
      "x \<in> set (rule_elements h r (read_property W h v k))"
    have element: "nested_element W h D v D' x"
      using nested_entry_element [OF _ r] k schema by simp
    note entry = validate_nested_entry_at [OF Suc.prems(1) element Suc.prems(2) Suc.prems(3)]
    have "returns (collect_validation_issues n W source D' x p (v # active) h)" if present: "\<not> missing x" "instance_of W h x D'"
    proof -
      note parts = settled_entry [OF Suc.prems(1) element present(1) disjI1 [OF present(2)]]
      have "m - 1 \<le> n"
        using Suc.prems(2) by simp
      with Suc.IH parts(1) active_older [OF Suc.prems(3) parts(2)] show ?thesis
        by blast
    qed
    then show "returns (validate_nested_entry W (\<lambda>D' x h'. create_nested_dto_instance n W D' x (v # active) h')
        (\<lambda>D' x pre' active' h'. collect_validation_issues n W source D' x pre' active' h') h r D' p source (v # active) x)"
      unfolding entry by simp
  qed
  show ?case
    by (auto simp: M Let_def field validate_class_rule_def intro!: returns_concat)
qed


section \<open>Growing heaps\<close>

lemma deref_grows: "prefix h h' \<Longrightarrow> deref h v = Some ob \<Longrightarrow> deref h' v = Some ob"
  by (auto simp: deref_def prefix_def nth_append split: js_val.splits if_splits)

lemma deref_same: "prefix h h' \<Longrightarrow> (\<forall>q. v = Ref q \<longrightarrow> q < length h) \<Longrightarrow> deref h' v = deref h v"
  by (auto simp: deref_def prefix_def nth_append split: js_val.splits)

lemma deref_valid: "deref h v = Some ob \<Longrightarrow> \<exists>q. v = Ref q \<and> q < length h \<and> h ! q = ob"
  by (auto simp: deref_def split: js_val.splits if_splits)

lemma rejected_grows: "prefix h h' \<Longrightarrow> rejected_element W h D x \<Longrightarrow> rejected_element W h' D x"
  unfolding rejected_element_def is_plain_object_def instance_of_def
  using deref_same [of h h' x] prefix_length_le [of h h'] by fastforce

lemma rule_elements_same:
  "deref h' y = deref h y \<Longrightarrow> rule_elements h' r y = rule_elements h r y"
  by (simp add: rule_elements_def get_rule_values_def get_iterable_values_def)

lemma rule_elements_atom: "deref h y = None \<Longrightarrow> rule_elements h r y = [y]"
  by (simp add: rule_elements_def get_rule_values_def get_iterable_values_def)

lemma settled_grows:
  assumes "prefix h h'" "settled n W h D v"
  shows "settled n W h' D v"
  using assms(2)
proof (induction n arbitrary: D v)
  case (Suc n)
  note object = settled_object [OF Suc.prems]
  obtain c m where m: "deref h v = Some (Instance c m)" "D \<in> set (dw_supers W c)"
    using object(1) by blast
  note m' = deref_grows [OF assms(1) m(1)]
  have "missing x \<or> (settled n W h' D' x \<and> older x v) \<or> rejected_element W h' D' x" if "nested_element W h' D v D' x" for D' x
  proof -
    obtain k rs r d where r: "(k, rs) \<in> set (schema_of W D)" "r \<in> set rs" "ru_kind r = Nested d"
      "resolve_nested_dto d = run_return D'" and x: "x \<in> set (rule_elements h' r (read_property W h' v k))"
      using \<open>nested_element W h' D v D' x\<close> unfolding nested_element_def by blast
    define y where "y = read_property W h v k"
    have y: "read_property W h' v k = y"
      by (simp add: y_def read_property_def m m')
    have "\<forall>q. y = Ref q \<longrightarrow> q < length h"
    proof (rule ccontr)
      assume dangling: "\<not> ?thesis"
      then have none: "deref h y = None"
        by (auto simp: deref_def)
      then have "nested_element W h D v D' y"
        using nested_entry_element [OF r] by (simp add: y_def rule_elements_atom)
      moreover have "\<not> settled n W h D' y" for n
        using settled_object(1) none by fastforce
      ultimately show False
        using object(3) dangling by (auto simp: rejected_element_def)
    qed
    then have "nested_element W h D v D' x"
      using nested_entry_element [OF r] x y rule_elements_same [OF deref_same [OF assms(1)]] unfolding y_def by metis
    then have "missing x \<or> (settled n W h D' x \<and> older x v) \<or> rejected_element W h D' x"
      using Suc.prems by simp
    then show ?thesis
      using Suc.IH rejected_grows [OF assms(1)] by blast
  qed
  moreover have "instance_of W h' v D"
    using m(2) m' by (simp add: instance_of_def)
  ultimately show ?case
    using object(2) by simp
qed simp

section \<open>The data\<close>

text \<open>Objects that hold only older objects, as a parser and the binder make them; instances among them
  have nothing left to instantiate.\<close>

fun children :: "js_obj \<Rightarrow> js_val list" where
  "children (PlainObj m) = map snd m"
| "children (Instance c m) = map snd m"
| "children (ArrayObj vs) = vs"
| "children (SetObj vs) = vs"
| "children (MapObj kvs) = map fst kvs @ map snd kvs"
| "children _ = []"

definition below :: "nat \<Rightarrow> js_val \<Rightarrow> bool" where
  "below r x \<longleftrightarrow> (\<forall>q. x = Ref q \<longrightarrow> q < r)"

definition data_ok :: "dto_world \<Rightarrow> js_heap \<Rightarrow> bool" where
  "data_ok W h \<longleftrightarrow> (\<forall>r < length h. (\<forall>x \<in> set (children (h ! r)). below r x) \<and>
     (\<forall>c m D. h ! r = Instance c m \<longrightarrow> D \<in> set (dw_supers W c) \<longrightarrow> settled (Suc r) W h D (Ref r)))"

text \<open>A value of a field with a nested rule in which nothing is left to instantiate: missing, of a kind the
  rule rejects, or a settled instance or (under a rule for each element) a collection of such values.\<close>

definition produced :: "dto_world \<Rightarrow> nat \<Rightarrow> nat \<Rightarrow> js_val \<Rightarrow> js_heap \<Rightarrow> bool" where
  "produced W d D w h \<longleftrightarrow> missing w \<or> settled d W h D w \<or> rejected_element W h D w"

definition field_produced :: "dto_world \<Rightarrow> nat \<Rightarrow> nat \<Rightarrow> bool \<Rightarrow> js_val \<Rightarrow> js_heap \<Rightarrow> bool" where
  "field_produced W d D each w h \<longleftrightarrow>
     below (length h) w \<and> (\<forall>x \<in> set (if each then get_rule_values h w else [w]). produced W d D x h)"

text \<open>What is asked of the surroundings: a class is the first of its lineage; a constructor only adds
  objects and leaves in a field with a nested rule nothing to instantiate (as \<open>new AddressDto()\<close>, an
  empty array and no initializer at all do), nested \<open>d\<close> deep at most; prototypes have no values for
  such fields; what plain objects inherit are functions; a field has at most one nested rule.\<close>

definition nested_keys :: "dto_world \<Rightarrow> nat \<Rightarrow> dto_key set" where
  "nested_keys W D = {k. \<exists>rs r. (k, rs) \<in> set (schema_of W D) \<and> r \<in> set rs \<and> is_nested r}"

definition constructors_ok :: "nat \<Rightarrow> dto_world \<Rightarrow> bool" where
  "constructors_ok d W \<longleftrightarrow>
     (\<forall>D h init h1. dw_construct W D h = Inr (init, h1) \<longrightarrow>
        prefix h h1 \<and>
        (\<forall>k rs r n D' v. (k, rs) \<in> set (schema_of W D) \<longrightarrow> r \<in> set rs \<longrightarrow> ru_kind r = Nested n \<longrightarrow>
           resolve_nested_dto n = run_return D' \<longrightarrow> js_get init k = Some v \<longrightarrow> field_produced W d D' (ru_each r) v h1))"

definition prototypes_ok :: "dto_world \<Rightarrow> bool" where
  "prototypes_ok W \<longleftrightarrow>
     (\<forall>D. D \<in> set (dw_supers W D)) \<and>
     (\<forall>D m. \<forall>k \<in> nested_keys W D. missing (dw_inherited W (Instance D m) k)) \<and>
     (\<forall>m k q. dw_inherited W (PlainObj m) k \<noteq> Ref q)"

definition schemas_ok :: "dto_world \<Rightarrow> bool" where
  "schemas_ok W \<longleftrightarrow>
     (\<forall>D. distinct (map fst (schema_of W D)) \<and> (\<forall>(k, rs) \<in> set (schema_of W D). length (filter is_nested rs) \<le> 1))"

definition dto_world_ok :: "nat \<Rightarrow> dto_world \<Rightarrow> bool" where
  "dto_world_ok d W \<longleftrightarrow> constructors_ok d W \<and> prototypes_ok W \<and> schemas_ok W"

lemma below_mono: "below q x \<Longrightarrow> q \<le> r \<Longrightarrow> below r x"
  by (auto simp: below_def)

lemma data_children:
  assumes "data_ok W h0" "prefix h0 h" "below r v" "r \<le> length h0" "deref h v = Some ob" "x \<in> set (children ob)"
  shows "below r x"
proof -
  obtain q where q: "v = Ref q" "q < r" "h ! q = ob"
    using deref_valid [OF assms(5)] assms(3) by (auto simp: below_def)
  then have "h0 ! q = ob" "q < length h0"
    using assms(2,4) by (auto simp: prefix_def nth_append)
  then show ?thesis
    using assms(1,6) q(2) below_mono unfolding data_ok_def by fastforce
qed

text \<open>What is not a plain object in the data is produced.\<close>

lemma data_produced:
  assumes "data_ok W h0" "prefix h0 h" "below r x" "r \<le> length h0" "\<not> is_plain_object h x" "r \<le> d"
  shows "produced W d D x h"
proof (cases "instance_of W h x D")
  case True
  then obtain q c m where q: "x = Ref q" "q < r" "h ! q = Instance c m" "D \<in> set (dw_supers W c)"
    using deref_valid [of h x] assms(3) by (fastforce simp: instance_of_def below_def split: option.splits js_obj.splits)
  then have "q < length h0" "h0 ! q = Instance c m"
    using assms(2,4) by (auto simp: prefix_def nth_append)
  then have "settled (Suc q) W h0 D x"
    using assms(1) q unfolding data_ok_def by blast
  then have "settled d W h D x"
    using settled_mono [of "Suc q" d] settled_grows [OF assms(2)] q(2) assms(6) by fastforce
  then show ?thesis
    by (simp add: produced_def)
next
  case False
  moreover have "\<forall>q. x = Ref q \<longrightarrow> q < length h"
    using assms(3,4) prefix_length_le [OF assms(2)] by (auto simp: below_def)
  ultimately show ?thesis
    using assms(5) by (simp add: produced_def rejected_element_def)
qed

section \<open>What creation produces\<close>

text \<open>A maker is sound for the objects below \<open>r\<close> of the data, in heaps that extend it, and keeps what is
  not a plain object.\<close>

definition maker_sound :: "dto_world \<Rightarrow> nat \<Rightarrow> js_heap \<Rightarrow> nat \<Rightarrow> nested_maker \<Rightarrow> bool" where
  "maker_sound W d h0 r mk \<longleftrightarrow>
     (\<forall>D x h w h'. prefix h0 h \<longrightarrow> mk D x h = run_return (w, h') \<longrightarrow>
        (below r x \<longrightarrow> prefix h h' \<and> produced W d D w h' \<and> (w = x \<or> settled d W h' D w)) \<and>
        (\<not> is_plain_object h x \<longrightarrow> w = x \<and> h' = h))"

text \<open>A value the code transforms is one of the data, or one a constructor has set.\<close>

definition fit :: "dto_world \<Rightarrow> nat \<Rightarrow> nat \<Rightarrow> nat \<Rightarrow> js_val \<Rightarrow> js_heap \<Rightarrow> bool" where
  "fit W d r D x h \<longleftrightarrow> below r x \<or> produced W d D x h"

definition field_fit :: "dto_world \<Rightarrow> nat \<Rightarrow> nat \<Rightarrow> nat \<Rightarrow> bool \<Rightarrow> js_val \<Rightarrow> js_heap \<Rightarrow> bool" where
  "field_fit W d r D each v h \<longleftrightarrow> below r v \<or> field_produced W d D each v h"

lemma produced_grows: "prefix h h' \<Longrightarrow> produced W d D w h \<Longrightarrow> produced W d D w h'"
  unfolding produced_def using settled_grows rejected_grows by blast

lemma produced_not_plain: "produced W d D w h \<Longrightarrow> \<not> missing w \<Longrightarrow> \<not> is_plain_object h w"
  by (auto simp: produced_def rejected_element_def dest: settled_instance(2))

lemma produced_mono: "m \<le> n \<Longrightarrow> produced W m D w h \<Longrightarrow> produced W n D w h"
  unfolding produced_def using settled_mono by blast

lemma field_produced_mono: "m \<le> n \<Longrightarrow> field_produced W m D each w h \<Longrightarrow> field_produced W n D each w h"
  unfolding field_produced_def using produced_mono by blast

lemma fit_grows: "prefix h h' \<Longrightarrow> fit W d r D x h \<Longrightarrow> fit W d r D x h'"
  unfolding fit_def using produced_grows by blast

lemma produced_below: "produced W d D w h \<Longrightarrow> below (length h) w"
  by (auto simp: produced_def below_def rejected_element_def dest!: settled_object(1) deref_valid)

lemma field_produced_grows:
  assumes "prefix h h'" "field_produced W d D each w h"
  shows "field_produced W d D each w h'"
proof -
  have "get_rule_values h' w = get_rule_values h w"
    using assms deref_same [of h h' w] by (simp add: field_produced_def below_def get_rule_values_def get_iterable_values_def)
  then show ?thesis
    using assms produced_grows [OF assms(1)] prefix_length_le [OF assms(1)]
    by (auto simp: field_produced_def below_def split: if_splits)
qed

lemma field_fit_grows: "prefix h h' \<Longrightarrow> field_fit W d r D each v h \<Longrightarrow> field_fit W d r D each v h'"
  unfolding field_fit_def using field_produced_grows by blast

lemma transform_nested_value_sound:
  assumes mk: "maker_sound W d h0 r mk" "prefix h0 h" and x: "fit W d r D x h"
    and run: "transform_nested_value mk D x h = run_return (w, h')"
  shows "prefix h h'" "produced W d D w h'" "w = x \<or> settled d W h' D w"
proof -
  have "prefix h h' \<and> produced W d D w h' \<and> (w = x \<or> settled d W h' D w)"
  proof (cases "missing x")
    case True
    then show ?thesis
      using run by (auto simp: transform_nested_value_def produced_def)
  next
    case False
    then have made: "mk D x h = run_return (w, h')"
      using run by (simp add: transform_nested_value_def split: if_splits)
    show ?thesis
    proof (cases "below r x")
      case True
      then show ?thesis
        using mk made unfolding maker_sound_def by blast
    next
      case below: False
      then have produced: "produced W d D x h"
        using x by (simp add: fit_def)
      then have "w = x \<and> h' = h"
        using mk made produced_not_plain [OF produced False] unfolding maker_sound_def by blast
      then show ?thesis
        using produced by simp
    qed
  qed
  then show "prefix h h'" "produced W d D w h'" "w = x \<or> settled d W h' D w"
    by blast+
qed

lemma run_map_sound:
  assumes "maker_sound W d h0 r mk" "prefix h0 h" "\<forall>x \<in> set xs. fit W d r D x h"
    "run_map (transform_nested_value mk D) xs h = run_return (ws, h')"
  shows "prefix h h' \<and> (\<forall>w \<in> set ws. produced W d D w h') \<and> length ws = length xs"
  using assms(2-4)
proof (induction xs arbitrary: h ws)
  case (Cons x xs)
  then obtain w h1 ws' where w: "transform_nested_value mk D x h = run_return (w, h1)"
    and rest: "run_map (transform_nested_value mk D) xs h1 = run_return (ws', h')" and ws: "ws = w # ws'"
    by (auto simp: run_bind_return_iff)
  have first: "prefix h h1" "produced W d D w h1"
    using transform_nested_value_sound [OF assms(1) Cons.prems(1) _ w] Cons.prems(2) by simp_all
  have "prefix h0 h1"
    using first(1) Cons.prems(1) by (rule prefix_order.order_trans [rotated])
  moreover have "\<forall>x \<in> set xs. fit W d r D x h1"
    using Cons.prems(2) fit_grows [OF first(1)] by simp
  ultimately have "prefix h1 h' \<and> (\<forall>w \<in> set ws'. produced W d D w h') \<and> length ws' = length xs"
    using Cons.IH [OF _ _ rest] by blast
  then show ?case
    using first produced_grows ws prefix_order.order_trans by fastforce
qed simp

lemma append_field:
  assumes "prefix h h'" "\<forall>w \<in> set ws. produced W d D w h'" "get_iterable_values (h' @ [ob]) (Ref (length h')) = Some vs"
    "set vs = set ws"
  shows "prefix h (h' @ [ob]) \<and> field_produced W d D True (Ref (length h')) (h' @ [ob])"
proof -
  have "\<forall>w \<in> set vs. produced W d D w (h' @ [ob])"
    using assms(2,4) produced_grows [of h' "h' @ [ob]"] by auto
  then show ?thesis
    using assms(1,3) by (auto simp: field_produced_def below_def get_rule_values_def)
qed

lemma get_iterable_appended:
  "get_iterable_values (h @ [ArrayObj vs]) (Ref (length h)) = Some vs"
  "get_iterable_values (h @ [SetObj vs]) (Ref (length h)) = Some vs"
  "get_iterable_values (h @ [MapObj kvs]) (Ref (length h)) = Some (map snd kvs)"
  by (simp_all add: get_iterable_values_def deref_def)

lemma transform_value_field:
  assumes "maker_sound W d h0 r mk" "prefix h0 h" "fit W d r D x h" "r \<le> length h0" "transform_nested_value mk D x h = run_return (w, h')"
    "each \<longrightarrow> get_iterable_values h x = None"
  shows "prefix h h' \<and> field_produced W d D each w h'"
proof -
  note sound = transform_nested_value_sound [OF assms(1-3,5)]
  have "get_iterable_values h' w = None" if each
    using sound(3)
  proof
    assume "w = x"
    moreover have "below (length h) x"
      using assms(3)
    proof (unfold fit_def, elim disjE)
      show "below (length h) x" if "below r x"
        using that assms(2,4) below_mono prefix_length_le order_trans by meson
    qed (rule produced_below)
    ultimately show ?thesis
      using assms(6) that deref_same [OF sound(1), of x] by (simp add: get_iterable_values_def below_def)
  next
    assume "settled d W h' D w"
    then show ?thesis
      by (auto dest!: settled_object(1) simp: get_iterable_values_def)
  qed
  then show ?thesis
    using sound produced_below by (auto simp: field_produced_def get_rule_values_def)
qed

lemma iterable_cases:
  "(\<exists>vs. deref h x = Some (ArrayObj vs)) \<or> (\<exists>vs. deref h x = Some (SetObj vs)) \<or> (\<exists>kvs. deref h x = Some (MapObj kvs)) \<or>
   get_iterable_values h x = None"
  by (auto simp: get_iterable_values_def split: option.split js_obj.split)

text \<open>What a collection holds is as fit as the collection.\<close>

lemma elements_fit:
  assumes data: "data_ok W h0" "r \<le> length h0" "prefix h0 h" and x: "field_fit W d r D True x h"
    and ob: "deref h x = Some ob" "get_iterable_values h x = Some vs"
  shows "\<forall>y \<in> set vs. fit W d r D y h"
  using x
proof (unfold field_fit_def, elim disjE)
  assume "below r x"
  from data_children [OF data(1,3) this data(2) ob(1)] have "\<forall>y \<in> set (children ob). below r y"
    by blast
  moreover have "set vs \<subseteq> set (children ob)"
    using ob by (cases ob) (auto simp: get_iterable_values_def)
  ultimately show ?thesis
    by (auto simp: fit_def)
next
  assume "field_produced W d D True x h"
  then show ?thesis
    using ob(2) by (simp add: field_produced_def get_rule_values_def fit_def)
qed

lemma single_fit: "field_fit W d r D each x h \<Longrightarrow> each \<longrightarrow> get_iterable_values h x = None \<Longrightarrow> fit W d r D x h"
  by (auto simp: field_fit_def fit_def field_produced_def get_rule_values_def split: if_splits)

lemma transform_field_sound:
  assumes data: "data_ok W h0" "r \<le> length h0" and mk: "maker_sound W d h0 r mk" and heap: "prefix h0 h"
    and x: "field_fit W d r D each x h"
    and run: "(if each then transform_nested_each_value else transform_nested_value) mk D x h = run_return (w, h')"
  shows "prefix h h' \<and> field_produced W d D each w h'"
proof (cases each)
  case False
  then have "fit W d r D x h"
    by (intro single_fit [OF x]) simp
  from transform_value_field [OF mk heap this data(2), of w h' each] False run show ?thesis
    by simp
next
  case True
  then have fit: "field_fit W d r D True x h"
    using x by simp
  note collection = append_field [OF _ _ get_iterable_appended(1)] append_field [OF _ _ get_iterable_appended(2)]
    append_field [OF _ _ get_iterable_appended(3)]
  consider (array) vs where "deref h x = Some (ArrayObj vs)" | (set) vs where "deref h x = Some (SetObj vs)"
    | (map) kvs where "deref h x = Some (MapObj kvs)" | (other) "get_iterable_values h x = None"
    using iterable_cases [of h x] by (elim disjE exE)
  then show ?thesis
  proof cases
    case array
    then obtain ws h1 where ws: "run_map (transform_nested_value mk D) vs h = run_return (ws, h1)"
      and w: "w = Ref (length h1)" "h' = h1 @ [ArrayObj ws]"
      using run True by (auto simp: transform_nested_each_value_def run_bind_return_iff)
    have vals: "\<forall>y \<in> set vs. fit W d r D y h"
      by (rule elements_fit [OF data heap fit array]) (simp add: get_iterable_values_def array)
    from run_map_sound [OF mk heap vals ws] have "prefix h h1" "\<forall>w \<in> set ws. produced W d D w h1"
      by blast+
    from collection(1) [OF this] show ?thesis
      using w True by simp
  next
    case set
    then obtain ws h1 where ws: "run_map (transform_nested_value mk D) vs h = run_return (ws, h1)"
      and w: "w = Ref (length h1)" "h' = h1 @ [SetObj (rev (remdups (rev ws)))]"
      using run True by (auto simp: transform_nested_each_value_def run_bind_return_iff)
    have vals: "\<forall>y \<in> set vs. fit W d r D y h"
      by (rule elements_fit [OF data heap fit set]) (simp add: get_iterable_values_def set)
    from run_map_sound [OF mk heap vals ws] have "prefix h h1" "\<forall>w \<in> set ws. produced W d D w h1"
      by blast+
    from collection(2) [OF this] show ?thesis
      using w True by simp
  next
    case map
    then obtain ws h1 where ws: "run_map (transform_nested_value mk D) (map snd kvs) h = run_return (ws, h1)"
      and w: "w = Ref (length h1)" "h' = h1 @ [MapObj (zip (map fst kvs) ws)]"
      using run True by (auto simp: transform_nested_each_value_def run_bind_return_iff)
    have vals: "\<forall>y \<in> set (map snd kvs). fit W d r D y h"
      by (rule elements_fit [OF data heap fit map]) (simp add: get_iterable_values_def map)
    from run_map_sound [OF mk heap vals ws] have "prefix h h1" "\<forall>w \<in> set ws. produced W d D w h1" "length ws = length kvs"
      by auto
    moreover from this have "set (map snd (zip (map fst kvs) ws)) = set ws"
      by simp
    ultimately show ?thesis
      using collection(3) [of h h1 ws W d D "zip (map fst kvs) ws"] w True by simp
  next
    case other
    then have "transform_nested_each_value mk D x h = transform_nested_value mk D x h"
      by (auto simp: transform_nested_each_value_def get_iterable_values_def split: option.splits js_obj.splits)
    moreover have "fit W d r D x h"
      using other by (intro single_fit [OF x]) simp
    ultimately show ?thesis
      using transform_value_field [OF mk heap _ data(2), of D x w h' each] run True other by simp
  qed
qed


lemma read_object_set: "read_object W (Instance D (js_set k w props)) j = (if j = k then w else
    case js_get props j of Some v \<Rightarrow> v | None \<Rightarrow> dw_inherited W (Instance D (js_set k w props)) j)"
  by (simp add: read_object_def)

lemma transform_fields_sound:
  assumes data: "data_ok W h0" "r \<le> length h0" and mk: "maker_sound W d h0 r mk"
    and keys: "distinct (map nt_key ts)" "\<forall>t \<in> set ts. \<forall>m. missing (dw_inherited W (Instance D m) (nt_key t))"
    and "prefix h0 h"
    and "\<forall>t \<in> set ts. \<forall>v. js_get props (nt_key t) = Some v \<longrightarrow> field_fit W d r (nt_class t) (nt_each t) v h"
    and "transform_fields W mk D ts props h = run_return (props', h')"
  shows "prefix h h' \<and> (\<forall>k. k \<notin> nt_key ` set ts \<longrightarrow> js_get props' k = js_get props k) \<and>
    (\<forall>t \<in> set ts. field_produced W d (nt_class t) (nt_each t) (read_object W (Instance D props') (nt_key t)) h')"
  using keys assms(6-8)
proof (induction ts arbitrary: props h)
  case (Cons t ts)
  define v where "v = read_object W (Instance D props) (nt_key t)"
  have missing_ok: "field_produced W d D' each w h'" if "missing w" for D' each w
    using that by (auto simp: field_produced_def produced_def below_def get_rule_values_def get_iterable_values_def deref_def)
  show ?case
  proof (cases "missing v")
    case True
    then have run: "transform_fields W mk D ts props h = run_return (props', h')"
      using Cons.prems(5) by (simp add: v_def Let_def)
    have "prefix h h' \<and> (\<forall>k. k \<notin> nt_key ` set ts \<longrightarrow> js_get props' k = js_get props k) \<and>
        (\<forall>t \<in> set ts. field_produced W d (nt_class t) (nt_each t) (read_object W (Instance D props') (nt_key t)) h')"
      using Cons.IH [OF _ _ _ _ run] Cons.prems(1-4) by simp
    moreover have "js_get props' (nt_key t) = js_get props (nt_key t)"
      using calculation Cons.prems(1) by simp
    then have "missing (read_object W (Instance D props') (nt_key t))"
      using True Cons.prems(2) by (cases "js_get props (nt_key t)") (simp_all add: v_def read_object_def)
    ultimately show ?thesis
      using missing_ok by auto
  next
    case False
    then obtain u where u: "js_get props (nt_key t) = Some u" "v = u"
      using Cons.prems(2) by (auto simp: v_def read_object_def split: option.splits)
    obtain w h1 where w: "(if nt_each t then transform_nested_each_value else transform_nested_value) mk (nt_class t) v h = run_return (w, h1)"
      and run: "transform_fields W mk D ts (js_set (nt_key t) w props) h1 = run_return (props', h')"
      using Cons.prems(5) False by (auto simp: v_def Let_def run_bind_return_iff split: if_splits)
    have "field_fit W d r (nt_class t) (nt_each t) v h"
      using Cons.prems(4) u by simp
    from transform_field_sound [OF data mk Cons.prems(3) this w]
    have first: "prefix h h1" "field_produced W d (nt_class t) (nt_each t) w h1"
      by blast+
    have rest: "prefix h1 h' \<and> (\<forall>k. k \<notin> nt_key ` set ts \<longrightarrow> js_get props' k = js_get (js_set (nt_key t) w props) k) \<and>
        (\<forall>t \<in> set ts. field_produced W d (nt_class t) (nt_each t) (read_object W (Instance D props') (nt_key t)) h')"
      using Cons.prems(1-4) prefix_order.order_trans [OF Cons.prems(3) first(1)] field_fit_grows [OF first(1)]
      by (intro Cons.IH [OF _ _ _ _ run]) (auto simp: image_iff)
    moreover have "read_object W (Instance D props') (nt_key t) = w"
      using rest Cons.prems(1) by (simp add: read_object_def)
    ultimately show ?thesis
      using first field_produced_grows prefix_order.order_trans [OF first(1)] by auto
  qed
qed simp


section \<open>Creation\<close>

lemma assigned_source:
  "js_get (assign_safe_own_enumerable_properties target source) k = Some v \<Longrightarrow> (k, v) \<in> set source \<or> js_get target k = Some v"
  unfolding assign_safe_own_enumerable_properties_def
proof (induction source arbitrary: target)
  case (Cons entry entries)
  obtain j w where entry: "entry = (j, w)"
    by (cases entry)
  have "(k, v) \<in> set entries \<or> js_get (if dangerous_key j then target else js_set j w target) k = Some v"
    using Cons.IH Cons.prems by (simp add: entry)
  then show ?case
    by (auto simp: entry split: if_splits)
qed simp

lemma bound_source:
  "js_get (apply_binding_values W raw keys bindings props) k = Some v \<Longrightarrow>
   (\<exists>j. v = read_object W raw j) \<or> js_get props k = Some v"
  unfolding apply_binding_values_def
proof (induction keys arbitrary: props)
  case (Cons j keys)
  then show ?case
    by (fastforce split: option.splits if_splits)
qed simp

lemma read_plain_below:
  assumes "prototypes_ok W" "\<forall>x \<in> set (children (PlainObj raw)). below r x"
  shows "below r (read_object W (PlainObj raw) j)"
proof (cases "js_get raw j")
  case (Some v)
  then have "v \<in> set (children (PlainObj raw))"
    by (force dest: map_of_SomeD)
  with Some assms(2) show ?thesis
    by (auto simp: read_object_def)
next
  case None
  with assms(1) show ?thesis
    by (simp add: read_object_def below_def prototypes_ok_def)
qed

lemma find_only: "length (filter P xs) \<le> 1 \<Longrightarrow> x \<in> set xs \<Longrightarrow> P x \<Longrightarrow> List.find P xs = Some x"
proof (induction xs)
  case (Cons y ys)
  show ?case
  proof (cases "P y")
    case True
    then have "filter P ys = []"
      using Cons.prems(1) by simp
    then show ?thesis
      using True Cons.prems by (auto simp: filter_empty_conv)
  next
    case False
    then show ?thesis
      using Cons by auto
  qed
qed simp

lemma find_in: "List.find P xs = Some x \<Longrightarrow> x \<in> set xs \<and> P x"
  by (induction xs) (auto split: if_splits)

lemma transforms_step:
  "collect_nested_dto_transforms ((k, rs) # entries) = run_return ts \<Longrightarrow>
   (collect_nested_dto_transforms entries = run_return ts) \<or>
   (\<exists>r D ts'. List.find is_nested rs = Some r \<and> collect_nested_dto_transforms entries = run_return ts' \<and>
      ts = \<lparr>nt_key = k, nt_each = ru_each r, nt_class = D\<rparr> # ts')"
  by (auto simp: run_bind_return_iff split: option.splits rule_kind.splits)

lemma transform_of_rule:
  assumes "collect_nested_dto_transforms schema = run_return ts" "(k, rs) \<in> set schema" "r \<in> set rs" "ru_kind r = Nested d"
    "length (filter is_nested rs) \<le> 1" "resolve_nested_dto d = run_return D"
  shows "\<lparr>nt_key = k, nt_each = ru_each r, nt_class = D\<rparr> \<in> set ts"
  using assms(1,2)
proof (induction schema arbitrary: ts)
  case (Cons entry entries)
  have nested: "is_nested r"
    using assms(4) by (simp add: is_nested_def)
  obtain j qs where entry: "entry = (j, qs)"
    by (cases entry)
  show ?case
  proof (cases "(k, rs) = (j, qs)")
    case True
    then have found: "List.find is_nested qs = Some r"
      using find_only [OF assms(5,3) nested] by simp
    show ?thesis
      using Cons.prems(1) True found assms(4,6) by (auto simp: entry run_bind_return_iff)
  next
    case False
    then have rest: "(k, rs) \<in> set entries"
      using Cons.prems(2) entry by auto
    from Cons.prems(1) [unfolded entry] show ?thesis
      by (elim transforms_step [THEN disjE] exE conjE) (use Cons.IH rest in auto)
  qed
qed simp

lemma rule_of_transform:
  assumes "collect_nested_dto_transforms schema = run_return ts" "t \<in> set ts"
  shows "\<exists>rs r n. (nt_key t, rs) \<in> set schema \<and> r \<in> set rs \<and> ru_kind r = Nested n \<and>
    resolve_nested_dto n = run_return (nt_class t) \<and> nt_each t = ru_each r"
  using assms
proof (induction schema arbitrary: ts)
  case (Cons entry entries)
  obtain k rs where entry: "entry = (k, rs)"
    by (cases entry)
  show ?case
  proof (cases "List.find is_nested rs")
    case None
    then show ?thesis
      using Cons unfolding entry by fastforce
  next
    case (Some r)
    then obtain n where r: "r \<in> set rs" "ru_kind r = Nested n"
      using find_in [OF Some] by (cases "ru_kind r") (auto simp: is_nested_def)
    then obtain D ts' where "resolve_nested_dto n = run_return D" "collect_nested_dto_transforms entries = run_return ts'"
        "ts = \<lparr>nt_key = k, nt_each = ru_each r, nt_class = D\<rparr> # ts'"
      using Cons.prems(1) Some by (auto simp: entry run_bind_return_iff)
    with Cons.IH [of ts'] Cons.prems(2) r show ?thesis
      unfolding entry by fastforce
  qed
qed simp

lemma transform_keys:
  assumes "collect_nested_dto_transforms schema = run_return ts"
  shows "nt_key ` set ts \<subseteq> {k. \<exists>rs r. (k, rs) \<in> set schema \<and> r \<in> set rs \<and> is_nested r} \<and>
    (distinct (map fst schema) \<longrightarrow> distinct (map nt_key ts))"
  using assms
proof (induction schema arbitrary: ts)
  case (Cons entry entries)
  obtain k rs where entry: "entry = (k, rs)"
    by (cases entry)
  from transforms_step [OF Cons.prems [unfolded entry]] show ?case
  proof (elim disjE exE conjE)
    assume "collect_nested_dto_transforms entries = run_return ts"
    from Cons.IH [OF this] show ?thesis
      unfolding entry by fastforce
  next
    fix r D ts'
    assume found: "List.find is_nested rs = Some r" and ts': "collect_nested_dto_transforms entries = run_return ts'"
      "ts = \<lparr>nt_key = k, nt_each = ru_each r, nt_class = D\<rparr> # ts'"
    let ?N = "\<lambda>es. {k. \<exists>rs r. (k, rs) \<in> set es \<and> r \<in> set rs \<and> is_nested r}"
    have keys: "nt_key ` set ts' \<subseteq> ?N entries" "distinct (map fst entries) \<longrightarrow> distinct (map nt_key ts')"
      using Cons.IH [OF ts'(1)] by blast+
    have "k \<in> ?N (entry # entries)" "?N entries \<subseteq> ?N (entry # entries)"
      using find_in [OF found] unfolding entry by auto
    then have "nt_key ` set ts \<subseteq> ?N (entry # entries)"
      using keys(1) unfolding ts'(2) by simp
    moreover have "?N entries \<subseteq> fst ` set entries"
      by force
    with keys(1) have "nt_key ` set ts' \<subseteq> fst ` set entries"
      by blast
    then have "distinct (map nt_key ts)" if "distinct (map fst (entry # entries))"
      using that keys(2) unfolding ts'(2) entry by auto
    ultimately show ?thesis
      by blast
  qed
qed simp


lemma metadata_parts:
  assumes "get_dto_metadata W D = run_return M"
  shows "dm_schema M = schema_of W D" "collect_nested_dto_transforms (schema_of W D) = run_return (dm_transforms M)"
  using assms by (auto simp: get_dto_metadata_def Let_def run_bind_return_iff)

text \<open>The instance made of a plain object is settled.\<close>

lemma created_instance_settled:
  assumes W: "dto_world_ok b W" and M: "get_dto_metadata W D = run_return M"
    and fields: "\<forall>t \<in> set (dm_transforms M). field_produced W d (nt_class t) (nt_each t) (read_object W (Instance D props) (nt_key t)) h"
  shows "settled (Suc d) W (h @ [Instance D props]) D (Ref (length h))"
proof -
  let ?h = "h @ [Instance D props]" and ?v = "Ref (length h)"
  have v: "deref ?h ?v = Some (Instance D props)"
    by (simp add: deref_def)
  have "missing x \<or> (settled d W ?h D' x \<and> older x ?v) \<or> rejected_element W ?h D' x" if element: "nested_element W ?h D ?v D' x" for D' x
  proof -
    obtain k rs r n where r: "(k, rs) \<in> set (schema_of W D)" "r \<in> set rs" "ru_kind r = Nested n"
      "resolve_nested_dto n = run_return D'" and x: "x \<in> set (rule_elements ?h r (read_property W ?h ?v k))"
      using element unfolding nested_element_def by blast
    have "length (filter is_nested rs) \<le> 1"
      using W r(1) by (auto simp: dto_world_ok_def schemas_ok_def)
    from transform_of_rule [OF metadata_parts(2) [OF M] r(1-3) this r(4)]
    have field: "field_produced W d D' (ru_each r) (read_object W (Instance D props) k) h"
      using fields by fastforce
    have "rule_elements ?h r (read_property W ?h ?v k) = rule_elements h r (read_object W (Instance D props) k)"
    proof -
      have read: "read_property W ?h ?v k = read_object W (Instance D props) k"
        by (simp add: read_property_def v)
      have same: "deref ?h (read_object W (Instance D props) k) = deref h (read_object W (Instance D props) k)"
        using field by (intro deref_same) (simp_all add: field_produced_def below_def)
      show ?thesis
        unfolding read by (rule rule_elements_same [OF same])
    qed
    then have made: "produced W d D' x h"
      using x field by (simp add: rule_elements_def field_produced_def)
    then have "produced W d D' x ?h"
      by (rule produced_grows [rotated]) simp
    moreover have "older x ?v" if settled: "settled d W h D' x"
    proof -
      obtain c m where "deref h x = Some (Instance c m)"
        using settled_object(1) [OF settled] by blast
      then show ?thesis
        using deref_valid by fastforce
    qed
    moreover have "prefix h ?h"
      by simp
    ultimately show ?thesis
      using made rejected_grows unfolding produced_def by blast
  qed
  moreover have "instance_of W ?h ?v D"
    using W v by (simp add: instance_of_def dto_world_ok_def prototypes_ok_def)
  ultimately show ?thesis
    using M by simp
qed

lemma created_fields_fit:
  assumes W: "dto_world_ok b W" and init: "dw_construct W D h = Inr (init, h1)" and M: "get_dto_metadata W D = run_return M"
    and raw: "\<forall>x \<in> set (children (PlainObj raw)). below r x" and t: "t \<in> set (dm_transforms M)"
    and v: "js_get (apply_binding_values W (PlainObj raw) keys bindings (assign_safe_own_enumerable_properties init raw)) (nt_key t) = Some v"
  shows "field_fit W (r + b) r (nt_class t) (nt_each t) v h1"
proof -
  obtain rs q n where rule: "(nt_key t, rs) \<in> set (schema_of W D)" "q \<in> set rs" "ru_kind q = Nested n"
      "resolve_nested_dto n = run_return (nt_class t)" "nt_each t = ru_each q"
    using rule_of_transform [OF metadata_parts(2) [OF M] t] by blast
  consider (bound) j where "v = read_object W (PlainObj raw) j" | (own) "(nt_key t, v) \<in> set raw" | (init) "js_get init (nt_key t) = Some v"
    using bound_source [OF v] assigned_source by blast
  then show ?thesis
  proof cases
    case bound
    then show ?thesis
      using read_plain_below [OF _ raw] W by (simp add: dto_world_ok_def field_fit_def)
  next
    case own
    then show ?thesis
      using raw by (force simp: field_fit_def)
  next
    case init
    have "\<And>k rs r n D' v. (k, rs) \<in> set (schema_of W D) \<Longrightarrow> r \<in> set rs \<Longrightarrow> ru_kind r = Nested n \<Longrightarrow>
        resolve_nested_dto n = run_return D' \<Longrightarrow> js_get init k = Some v \<Longrightarrow> field_produced W b D' (ru_each r) v h1"
      using W \<open>dw_construct W D h = Inr (init, h1)\<close> unfolding dto_world_ok_def constructors_ok_def by blast
    from this [OF rule(1-4) init] have "field_produced W b (nt_class t) (nt_each t) v h1"
      unfolding rule(5) .
    then show ?thesis
      using field_produced_mono [of b "r + b"] by (simp add: field_fit_def)
  qed
qed

text \<open>The parts of a plain object are made soundly.\<close>

lemma created_parts_sound:
  assumes data: "data_ok W h0" and r: "v = Ref r" "r < length h0" "\<forall>a \<in> set active. older v a"
    and IH: "\<And>D x h w h' q. create_nested_dto_instance n W D x (v # active) h = run_return (w, h') \<Longrightarrow> prefix h0 h \<Longrightarrow> x = Ref q \<Longrightarrow>
      q < length h0 \<Longrightarrow> is_plain_object h0 x \<Longrightarrow> \<forall>a \<in> set (v # active). older x a \<Longrightarrow> prefix h h' \<and> settled (Suc (q + b)) W h' D w"
  shows "maker_sound W (r + b) h0 r (\<lambda>D' x h'. create_nested_dto_instance n W D' x (v # active) h')"
  unfolding maker_sound_def
proof (intro allI impI conjI)
  fix D' x g u g'
  assume g: "prefix h0 g" and run: "create_nested_dto_instance n W D' x (v # active) g = run_return (u, g')"
  then obtain n' where n': "n = Suc n'"
    by (cases n) (auto simp: run_return_def)
  have kept: "u = x \<and> g' = g" if "\<not> is_plain_object g x"
    using run create_keeps [OF that] n' by simp
  then show "u = x" "g' = g" if "\<not> is_plain_object g x"
    using that by blast+
  assume x: "below r x"
  have "prefix g g' \<and> produced W (r + b) D' u g' \<and> (u = x \<or> settled (r + b) W g' D' u)"
  proof (cases "is_plain_object g x")
    case True
    then obtain q where q: "x = Ref q" "q < r"
      using x by (auto simp: is_plain_object_def deref_def below_def split: js_val.splits)
    then have "is_plain_object h0 x"
      using True g r(2) deref_same [of h0 g x] by (simp add: is_plain_object_def)
    then have "prefix g g' \<and> settled (Suc (q + b)) W g' D' u"
    proof (intro IH [OF run g q(1)])
      show "q < length h0"
        using q(2) r(2) by simp
      show "\<forall>a \<in> set (v # active). older x a"
        by (rule active_older [OF r(3)]) (simp add: q r(1))
    qed
    moreover have "settled (r + b) W g' D' u" if "settled (Suc (q + b)) W g' D' u"
      using that q(2) settled_mono [of "Suc (q + b)" "r + b"] by simp
    ultimately show ?thesis
      unfolding produced_def by blast
  next
    case False
    then show ?thesis
      using kept data_produced [OF data g x _ False, of "r + b"] r(2) by simp
  qed
  then show "prefix g g'" "produced W (r + b) D' u g'" "u = x \<or> settled (r + b) W g' D' u"
    by blast+
qed

lemma created_keys:
  assumes W: "dto_world_ok b W" and M: "get_dto_metadata W D = run_return M"
  shows "distinct (map nt_key (dm_transforms M))"
    and "\<forall>t \<in> set (dm_transforms M). \<forall>m. missing (dw_inherited W (Instance D m) (nt_key t))"
proof -
  have transforms: "nt_key ` set (dm_transforms M) \<subseteq> nested_keys W D"
      "distinct (map fst (schema_of W D)) \<longrightarrow> distinct (map nt_key (dm_transforms M))"
    using transform_keys [OF metadata_parts(2) [OF M]] unfolding nested_keys_def by blast+
  then show "distinct (map nt_key (dm_transforms M))"
    using W by (simp add: dto_world_ok_def schemas_ok_def)
  show "\<forall>t \<in> set (dm_transforms M). \<forall>m. missing (dw_inherited W (Instance D m) (nt_key t))"
    using transforms(1) W by (simp add: dto_world_ok_def prototypes_ok_def subset_iff)
qed

lemma create_settled:
  assumes W: "dto_world_ok b W" and data: "data_ok W h0"
  shows "create_nested_dto_instance n W D v active h = run_return (w, h') \<Longrightarrow> prefix h0 h \<Longrightarrow> v = Ref r \<Longrightarrow> r < length h0 \<Longrightarrow>
    is_plain_object h0 v \<Longrightarrow> \<forall>a \<in> set active. older v a \<Longrightarrow> prefix h h' \<and> settled (Suc (r + b)) W h' D w"
proof (induction n arbitrary: D v active h w h' r)
  case 0
  then show ?case
    by (simp add: run_return_def)
next
  case (Suc n)
  obtain raw where raw0: "deref h0 v = Some (PlainObj raw)"
    using Suc.prems(5) by (auto simp: is_plain_object_def split: option.splits js_obj.splits)
  then have raw: "deref h v = Some (PlainObj raw)"
    using deref_grows Suc.prems(2) by blast
  obtain init h1 M props h2 where init: "dw_construct W D h = Inr (init, h1)" and M: "get_dto_metadata W D = run_return M"
    and made: "transform_fields W (\<lambda>D' x h'. create_nested_dto_instance n W D' x (v # active) h') D (dm_transforms M)
        (apply_binding_values W (PlainObj raw) (dm_keys M) (dm_bindings M) (assign_safe_own_enumerable_properties init raw)) h1 =
      run_return (props, h2)"
    and w: "w = Ref (length h2)" "h' = h2 @ [Instance D props]"
    using Suc.prems(1) raw not_active [OF Suc.prems(6)]
    by (auto simp: run_bind_return_iff run_callback_return_iff)
  have h1: "prefix h h1"
    using W init by (auto simp: dto_world_ok_def constructors_ok_def)
  then have h01: "prefix h0 h1"
    using Suc.prems(2) prefix_order.order_trans by blast
  have parts: "\<forall>x \<in> set (children (PlainObj raw)). below r x"
    using data raw0 Suc.prems(3,4) by (fastforce simp: data_ok_def deref_def)
  have "maker_sound W (r + b) h0 r (\<lambda>D' x h'. create_nested_dto_instance n W D' x (v # active) h')"
    using Suc.IH Suc.prems(3,4,6) by (intro created_parts_sound [OF data]) blast+
  from transform_fields_sound [OF data _ this created_keys [OF W M] h01 _ made]
  have "prefix h1 h2" and fields: "\<forall>t \<in> set (dm_transforms M).
      field_produced W (r + b) (nt_class t) (nt_each t) (read_object W (Instance D props) (nt_key t)) h2"
    using Suc.prems(4) created_fields_fit [OF W init M parts] by auto
  then have "prefix h h'"
    using h1 prefix_order.order_trans unfolding w(2) by (metis prefix_append)
  with created_instance_settled [OF W M fields] show ?case
    unfolding w by blast
qed


section \<open>Creation ends\<close>

definition maker_returns :: "js_heap \<Rightarrow> nat \<Rightarrow> nested_maker \<Rightarrow> bool" where
  "maker_returns h0 r mk \<longleftrightarrow> (\<forall>D x h. prefix h0 h \<longrightarrow> below r x \<or> \<not> is_plain_object h x \<longrightarrow> returns (mk D x h))"

lemma transform_nested_value_returns:
  "maker_returns h0 r mk \<Longrightarrow> prefix h0 h \<Longrightarrow> fit W d r D x h \<Longrightarrow> returns (transform_nested_value mk D x h)"
  using produced_not_plain [of W d D x h] by (auto simp: transform_nested_value_def maker_returns_def fit_def)

lemma run_map_returns:
  assumes "maker_sound W d h0 r mk" "maker_returns h0 r mk" "prefix h0 h" "\<forall>x \<in> set xs. fit W d r D x h"
  shows "returns (run_map (transform_nested_value mk D) xs h)"
  using assms(3,4)
proof (induction xs arbitrary: h)
  case (Cons x xs)
  have "returns (run_map (transform_nested_value mk D) xs h1)" if w: "transform_nested_value mk D x h = run_return (w, h1)" for w h1
  proof -
    have h1: "prefix h h1"
      using transform_nested_value_sound(1) [OF assms(1) Cons.prems(1) _ w] Cons.prems(2) by simp
    moreover have "prefix h0 h1"
      using h1 Cons.prems(1) by (rule prefix_order.order_trans [rotated])
    moreover have "\<forall>x \<in> set xs. fit W d r D x h1"
      using Cons.prems(2) fit_grows [OF h1] by simp
    ultimately show ?thesis
      using Cons.IH by blast
  qed
  moreover have "fit W d r D x h"
    using Cons.prems(2) by simp
  then have "returns (transform_nested_value mk D x h)"
    by (rule transform_nested_value_returns [OF assms(2) Cons.prems(1)])
  ultimately show ?case
    by auto
qed simp

lemma transform_field_returns:
  assumes data: "data_ok W h0" "r \<le> length h0" and mk: "maker_sound W d h0 r mk" "maker_returns h0 r mk"
    and heap: "prefix h0 h" and x: "field_fit W d r D each x h"
  shows "returns ((if each then transform_nested_each_value else transform_nested_value) mk D x h)"
proof (cases "each \<and> get_iterable_values h x \<noteq> None")
  case True
  then obtain ob vs where ob: "deref h x = Some ob" "get_iterable_values h x = Some vs"
    by (auto simp: get_iterable_values_def split: option.splits)
  have "field_fit W d r D True x h"
    using x True by simp
  from elements_fit [OF data heap this ob] have "returns (run_map (transform_nested_value mk D) vs h)"
    by (rule run_map_returns [OF mk heap])
  then show ?thesis
    using True ob by (cases ob) (auto simp: transform_nested_each_value_def get_iterable_values_def)
next
  case False
  then have "transform_nested_each_value mk D x h = transform_nested_value mk D x h" if each
    using that by (auto simp: transform_nested_each_value_def get_iterable_values_def split: option.splits js_obj.splits)
  moreover have "fit W d r D x h"
    using False by (intro single_fit [OF x]) simp
  ultimately show ?thesis
    using transform_nested_value_returns [OF mk(2) heap] by simp
qed

lemma transform_fields_returns:
  assumes data: "data_ok W h0" "r \<le> length h0" and mk: "maker_sound W d h0 r mk" "maker_returns h0 r mk"
    and keys: "distinct (map nt_key ts)" "\<forall>t \<in> set ts. \<forall>m. missing (dw_inherited W (Instance D m) (nt_key t))"
    and "prefix h0 h"
    and "\<forall>t \<in> set ts. \<forall>v. js_get props (nt_key t) = Some v \<longrightarrow> field_fit W d r (nt_class t) (nt_each t) v h"
  shows "returns (transform_fields W mk D ts props h)"
  using keys assms(7,8)
proof (induction ts arbitrary: props h)
  case (Cons t ts)
  define v where "v = read_object W (Instance D props) (nt_key t)"
  show ?case
  proof (cases "missing v")
    case True
    then show ?thesis
      using Cons by (simp add: v_def Let_def)
  next
    case False
    then have "field_fit W d r (nt_class t) (nt_each t) v h"
      using Cons.prems(2,4) by (auto simp: v_def read_object_def split: option.splits)
    note field = transform_field_returns [OF data mk Cons.prems(3) this] transform_field_sound [OF data mk(1) Cons.prems(3) this]
    have "returns (transform_fields W mk D ts (js_set (nt_key t) w props) h1)"
      if "(if nt_each t then transform_nested_each_value else transform_nested_value) mk (nt_class t) v h = run_return (w, h1)" for w h1
    proof (rule Cons.IH)
      show "prefix h0 h1"
        using field(2) [OF that] Cons.prems(3) prefix_order.order_trans by blast
      have "prefix h h1"
        using field(2) [OF that] by blast
      then show "\<forall>t' \<in> set ts. \<forall>u. js_get (js_set (nt_key t) w props) (nt_key t') = Some u \<longrightarrow>
          field_fit W d r (nt_class t') (nt_each t') u h1"
        using Cons.prems(1,4) field_fit_grows by (auto simp: image_iff)
    qed (use Cons.prems in simp_all)
    with field(1) show ?thesis
      using False by (auto simp: v_def Let_def)
  qed
qed simp

lemma nested_rule: "is_nested r \<Longrightarrow> \<exists>d. ru_kind r = Nested d"
  by (cases "ru_kind r") (simp_all add: is_nested_def)

lemma get_dto_metadata_returns: "returns (get_dto_metadata W D)"
proof -
  have "returns (collect_nested_dto_transforms schema)" for schema
  proof (induction schema)
    case (Cons entry entries)
    obtain k rs where entry: "entry = (k, rs)"
      by (cases entry)
    show ?case
    proof (cases "List.find is_nested rs")
      case (Some r)
      then obtain d where "ru_kind r = Nested d"
        using find_in [OF Some] nested_rule by blast
      then show ?thesis
        using Cons Some by (simp add: entry resolve_nested_dto_def)
    qed (use Cons entry in simp)
  qed simp
  then show ?thesis
    by (simp add: get_dto_metadata_def Let_def)
qed

lemma create_returns:
  assumes W: "dto_world_ok b W" and data: "data_ok W h0"
  shows "prefix h0 h \<Longrightarrow> v = Ref r \<Longrightarrow> r < length h0 \<Longrightarrow> is_plain_object h0 v \<Longrightarrow> \<forall>a \<in> set active. older v a \<Longrightarrow>
    r + 2 \<le> n \<Longrightarrow> returns (create_nested_dto_instance n W D v active h)"
proof (induction n arbitrary: D v active h r)
  case (Suc n)
  obtain raw where raw0: "deref h0 v = Some (PlainObj raw)"
    using Suc.prems(4) by (auto simp: is_plain_object_def split: option.splits js_obj.splits)
  then have raw: "deref h v = Some (PlainObj raw)"
    using deref_grows Suc.prems(1) by blast
  let ?mk = "\<lambda>D' x h'. create_nested_dto_instance n W D' x (v # active) h'"
  have sound: "maker_sound W (r + b) h0 r ?mk"
    using create_settled [OF W data] Suc.prems(2,3,5) by (intro created_parts_sound [OF data]) blast+
  have ends: "maker_returns h0 r ?mk"
    unfolding maker_returns_def
  proof (intro allI impI)
    fix D' x g
    assume g: "prefix h0 g" and x: "below r x \<or> \<not> is_plain_object g x"
    obtain n' where n': "n = Suc n'"
      using Suc.prems(6) by (cases n) simp_all
    show "returns (?mk D' x g)"
    proof (cases "is_plain_object g x")
      case True
      then obtain q where q: "x = Ref q" "q < r"
        using x by (auto simp: is_plain_object_def deref_def below_def split: js_val.splits)
      then have "is_plain_object h0 x"
        using True g Suc.prems(3) deref_same [of h0 g x] by (simp add: is_plain_object_def)
      moreover have "\<forall>a \<in> set (v # active). older x a"
        by (rule active_older [OF Suc.prems(5)]) (simp add: q Suc.prems(2))
      moreover have "q < length h0" "q + 2 \<le> n"
        using q(2) Suc.prems(3,6) by simp_all
      ultimately show ?thesis
        using Suc.IH [OF g q(1)] by blast
    next
      case False
      then show ?thesis
        using create_keeps unfolding n' by simp
    qed
  qed
  have fields: "returns (transform_fields W ?mk D (dm_transforms M)
      (apply_binding_values W (PlainObj raw) (dm_keys M) (dm_bindings M) (assign_safe_own_enumerable_properties init raw)) h1)"
    if init: "dw_construct W D h = Inr (init, h1)" and M: "get_dto_metadata W D = run_return M" for init h1 M
  proof (rule transform_fields_returns [OF data _ sound ends created_keys [OF W M]])
    have "prefix h h1"
      using W init by (auto simp: dto_world_ok_def constructors_ok_def)
    then show "prefix h0 h1"
      using Suc.prems(1) prefix_order.order_trans by blast
    have parts: "\<forall>x \<in> set (children (PlainObj raw)). below r x"
      using data raw0 Suc.prems(2,3) by (fastforce simp: data_ok_def deref_def)
    show "\<forall>t \<in> set (dm_transforms M). \<forall>u. js_get (apply_binding_values W (PlainObj raw) (dm_keys M) (dm_bindings M)
        (assign_safe_own_enumerable_properties init raw)) (nt_key t) = Some u \<longrightarrow> field_fit W (r + b) r (nt_class t) (nt_each t) u h1"
      using created_fields_fit [OF W init M parts] by blast
  qed (use Suc.prems(3) in simp)
  show ?case
    using raw fields get_dto_metadata_returns by (auto simp: run_callback_return_iff)
qed simp

section \<open>The validator\<close>

definition valid_root :: "dto_world \<Rightarrow> js_heap \<Rightarrow> nat \<Rightarrow> js_val \<Rightarrow> bool" where
  "valid_root W h D v \<longleftrightarrow> is_plain_object h v \<or> instance_of W h v D"

lemma valid_root_iff: "assert_valid_root_value W h D v = run_return () \<longleftrightarrow> valid_root W h D v"
  by (auto simp: assert_valid_root_value_def valid_root_def)

lemma materialize_run:
  "materialize_dto n W D v h = run_return (w, h') \<longleftrightarrow>
   valid_root W h D v \<and> create_nested_dto_instance n W D v [] h = run_return (w, h') \<and>
   collect_validation_issues n W None D w [] [] h' = run_return []"
  by (auto simp: materialize_dto_def run_bind_return_iff throw_issues_def valid_root_iff split: if_splits)

text \<open>What is made of a root is settled.\<close>

lemma root_created:
  assumes W: "dto_world_ok b W" and data: "data_ok W h" and root: "valid_root W h D v"
  shows "length h < n \<Longrightarrow> returns (create_nested_dto_instance n W D v [] h)"
    and "create_nested_dto_instance n W D v [] h = run_return (w, h') \<Longrightarrow> settled (length h + b) W h' D w"
proof -
  obtain r ob where r: "v = Ref r" "r < length h" "h ! r = ob"
    using root deref_valid [of h v]
    by (auto simp: valid_root_def instance_of_def is_plain_object_def split: option.splits)
  show "returns (create_nested_dto_instance n W D v [] h)" if "length h < n"
  proof (cases "is_plain_object h v")
    case True
    then show ?thesis
      using create_returns [OF W data prefix_order.order_refl r(1,2)] r(2) that by simp
  next
    case False
    from create_keeps [OF this] that show ?thesis
      by (cases n) simp_all
  qed
  show "settled (length h + b) W h' D w" if made: "create_nested_dto_instance n W D v [] h = run_return (w, h')"
  proof (cases "is_plain_object h v")
    case True
    then have "settled (Suc (r + b)) W h' D w"
      using create_settled [OF W data made prefix_order.order_refl r(1,2)] by simp
    moreover have "Suc (r + b) \<le> length h + b"
      using r(2) by simp
    ultimately show ?thesis
      using settled_mono by blast
  next
    case False
    then have kept: "w = v" "h' = h"
      using made create_keeps [OF False] by (cases n; simp add: run_return_def)+
    obtain c m where c: "h ! r = Instance c m" "D \<in> set (dw_supers W c)"
      using root False r by (auto simp: valid_root_def instance_of_def deref_def split: js_obj.splits)
    then have "settled (Suc r) W h D v"
      using data r(1,2) unfolding data_ok_def by blast
    moreover have "Suc r \<le> length h + b"
      using r(2) by simp
    ultimately show ?thesis
      unfolding kept using settled_mono by blast
  qed
qed

lemma materialize_sound:
  assumes "dto_world_ok b W" "data_ok W h" "materialize_dto n W D v h = run_return (w, h')"
  shows "conforms W h' D w"
  using assms(3) root_created(2) [OF assms(1,2)] collect_sound unfolding materialize_run by fastforce


text \<open>C16. the validator gives the object it created from its input exactly if the input is a plain
  object or an instance of the class and the object conforms to the class: it is an instance, every rule
  of every field holds, whatever is under a nested rule is itself an instance that conforms, and the
  rules of the class accept it. The data may hold instances, and constructors may initialize
  nested fields, as long as these are themselves finished (\<open>data_ok\<close>, \<open>constructors_ok\<close>): an
  instance that holds a plain object under a nested rule is checked as if the object were
  converted, and returned unconverted. A field has at most one nested rule. The stack is as deep as
  the data has objects and the defaults are nested.\<close>

theorem materialize_iff_conforms:
  assumes "dto_world_ok b W" "data_ok W h" "length h + b < n"
  shows "materialize_dto n W D v h = Some (Inr (w, h')) \<longleftrightarrow>
    (is_plain_object h v \<or> instance_of W h v D) \<and>
    create_nested_dto_instance n W D v [] h = Some (Inr (w, h')) \<and> conforms W h' D w"
proof -
  have "collect_validation_issues n W None D w [] [] h' = run_return []"
    if "valid_root W h D v" and "create_nested_dto_instance n W D v [] h = run_return (w, h')" and "conforms W h' D w"
    using root_created(2) [OF assms(1,2) that(1,2)] assms(3) collect_complete [OF that(3), of "length h + b" n "[]"] by simp
  then have "materialize_dto n W D v h = run_return (w, h') \<longleftrightarrow>
      valid_root W h D v \<and> create_nested_dto_instance n W D v [] h = run_return (w, h') \<and> conforms W h' D w"
    using materialize_sound [OF assms(1,2)] unfolding materialize_run by blast
  then show ?thesis
    by (simp add: run_return_def valid_root_def)
qed

end
