(* ===== verification/Validation_Examples.thy ===== *)
theory Validation_Examples
  imports Validation_Facts
begin

text \<open>
  An order with a list of items, made and checked from plain data, and four defects: instances
  returned with unconverted parts, rules that compare with objects, rules of subclasses, and
  classes whose text does not start as expected.
\<close>

section \<open>An order and its items\<close>

definition plain_rule :: "rule_kind \<Rightarrow> dto_rule" where
  "plain_rule kind = \<lparr>ru_kind = kind, ru_code = None, ru_each = False\<rparr>"

definition item_class :: nested_dto where
  "item_class = \<lparr>nd_text = ''() => Item'', nd_class = 2, nd_is_class = False\<rparr>"

definition order_decorators :: "dto_decorator list" where
  "order_decorators =
     [FieldRule (NameKey ''id'') (plain_rule IsString), FieldRule (NameKey ''id'') (plain_rule (MinLength (Fin 1))),
      FieldRule (NameKey ''items'')
        ((plain_rule (Nested item_class))\<lparr>ru_each := True\<rparr>),
      FieldRule (NameKey ''gift'') (plain_rule (Nested item_class))]"

definition item_decorators :: "dto_decorator list" where
  "item_decorators = [FieldRule (NameKey ''quantity'') (plain_rule IsInt), FieldRule (NameKey ''quantity'') (plain_rule Positive)]"

definition self_only :: "nat \<Rightarrow> nat list" where
  "self_only c = [c]"

definition shop_store :: dto_store where
  "shop_store = declare_dto self_only 1 order_decorators (declare_dto self_only 2 item_decorators empty_store)"

text \<open>The class of orders initializes \<open>items\<close> with an empty array and \<open>gift\<close> with a new item.\<close>

definition shop_construct :: "nat \<Rightarrow> js_heap \<Rightarrow> ((dto_key, js_val) js_map \<times> js_heap) callback" where
  "shop_construct D h =
     (if D = 1
      then Inr ([(NameKey ''items'', Ref (length h)), (NameKey ''gift'', Ref (length h + 1))], h @ [ArrayObj [], Instance 2 []])
      else Inr ([], h))"

definition shop :: dto_world where
  "shop = \<lparr>dw_supers = self_only, dw_store = shop_store, dw_construct = shop_construct,
     dw_inherited = (\<lambda>ob k. Undef), dw_validator_js = (\<lambda>name s args. Inr False)\<rparr>"

text \<open>An order with a plain item and an item that is an instance already.\<close>

definition order_data :: "rat \<Rightarrow> js_heap" where
  "order_data q =
     [PlainObj [(NameKey ''quantity'', Num (Fin q))], Instance 2 [(NameKey ''quantity'', Num (Fin 1))],
      ArrayObj [Ref 0, Ref 1, Null],
      PlainObj [(NameKey ''id'', Str ''a1''), (NameKey ''__proto__'', Ref 1), (NameKey ''items'', Ref 2)]]"

lemmas dto_defs = plain_rule_def item_class_def order_decorators_def item_decorators_def self_only_def shop_store_def shop_def declare_dto_def
  append_standard_dto_validation_rule_def owner_of_def bag_read_def bag_at_def get_or_def empty_store_def empty_bag_def

lemma shop_schema:
  "schema_of shop D =
     (if D = 1 then
        [(NameKey ''id'', [plain_rule IsString, plain_rule (MinLength (Fin 1))]),
         (NameKey ''items'', [(plain_rule (Nested item_class))\<lparr>ru_each := True\<rparr>]),
         (NameKey ''gift'', [plain_rule (Nested item_class)])]
      else if D = 2 then [(NameKey ''quantity'', [plain_rule IsInt, plain_rule Positive])] else [])"
  by (simp add: dto_defs get_dto_validation_schema_def get_inherited_stored_dto_validation_map_def merge_metadata_property_keys_def
      clone_rule_def Let_def)

lemma shop_supers: "dw_supers shop = self_only"
  by (simp add: shop_def)

lemma shop_fields [simp]: "dw_construct shop = shop_construct" "dw_inherited shop ob k = Undef"
  by (simp_all add: shop_def)

lemma item_settled:
  assumes "deref h v = Some (Instance 2 m)"
  shows "settled (Suc n) shop h 2 v"
proof -
  have "\<exists>M. get_dto_metadata shop 2 = run_return M"
    by (simp add: get_dto_metadata_def Let_def shop_schema plain_rule_def is_nested_def run_bind_return_iff)
  moreover have "\<not> nested_element shop h 2 v D' x" for D' x
    by (auto simp: nested_element_def shop_schema plain_rule_def)
  ultimately show ?thesis
    using assms by (simp add: instance_of_def shop_supers self_only_def)
qed

lemma item_class_resolved: "resolve_nested_dto item_class = run_return D \<longleftrightarrow> D = 2"
  by (simp add: resolve_nested_dto_def item_class_def)

lemma shop_ok: "dto_world_ok 1 shop"
proof -
  have "constructors_ok 1 shop"
    unfolding constructors_ok_def
  proof (intro allI impI conjI)
    fix D h init h1
    assume init: "dw_construct shop D h = Inr (init, h1)"
    then show "prefix h h1"
      by (auto simp: shop_construct_def split: if_splits)
    fix k rs r n D' v
    assume rule: "(k, rs) \<in> set (schema_of shop D)" "r \<in> set rs" "ru_kind r = Nested n" "resolve_nested_dto n = run_return D'"
      and v: "js_get init k = Some v"
    then have "D = 1" and heap: "h1 = h @ [ArrayObj [], Instance 2 []]" and D': "D' = 2"
      and field: "ru_each r \<and> v = Ref (length h) \<or> \<not> ru_each r \<and> v = Ref (length h + 1)"
      using init
      by (auto simp: shop_construct_def shop_schema plain_rule_def item_class_resolved split: if_splits)
    have array: "deref h1 (Ref (length h)) = Some (ArrayObj [])" and gift: "deref h1 (Ref (length h + 1)) = Some (Instance 2 [])"
      by (simp_all add: heap deref_def nth_append)
    show "field_produced shop 1 D' (ru_each r) v h1"
      using field
    proof
      assume "ru_each r \<and> v = Ref (length h)"
      then show ?thesis
        using array by (simp add: field_produced_def below_def heap get_rule_values_def get_iterable_values_def)
    next
      assume "\<not> ru_each r \<and> v = Ref (length h + 1)"
      then show ?thesis
        using item_settled [OF gift, of 0] by (simp add: field_produced_def below_def heap produced_def D' del: settled.simps)
    qed
  qed
  then show ?thesis
    unfolding dto_world_ok_def prototypes_ok_def schemas_ok_def
    by (simp add: shop_schema) (simp add: shop_supers self_only_def plain_rule_def is_nested_def)
qed

lemma order_data_ok: "data_ok shop (order_data q)"
proof -
  have "settled (Suc 1) shop (order_data q) 2 (Ref 1)"
    by (rule item_settled) (simp add: deref_def order_data_def)
  then show ?thesis
    by (simp add: data_ok_def order_data_def below_def less_Suc_eq numeral_2_eq_2 numeral_3_eq_3 all_conj_distrib shop_supers self_only_def
        del: settled.simps)
qed

lemma order_materialized:
  "materialize_dto 6 shop 1 (Ref 3) (order_data 3) = Some (Inr (Ref 8, order_data 3 @
     [ArrayObj [], Instance 2 [], Instance 2 [(NameKey ''quantity'', Num (Fin 3))], ArrayObj [Ref 6, Ref 1, Null],
      Instance 1 [(NameKey ''items'', Ref 7), (NameKey ''gift'', Ref 5), (NameKey ''id'', Str ''a1'')]]))"
  by code_simp



theorem materialize_iff_conforms_witness:
  "\<exists>h'. create_nested_dto_instance 6 shop 1 (Ref 3) [] (order_data 3) = Some (Inr (Ref 8, h')) \<and> conforms shop h' 1 (Ref 8)"
proof -
  have "length (order_data 3) + 1 < 6"
    by (simp add: order_data_def)
  from materialize_iff_conforms [OF shop_ok order_data_ok this] order_materialized show ?thesis
    by blast
qed

text \<open>An instance in the data that holds a plain object under a nested rule passes the check, which
  converts the object for itself, and is returned as it is: the object is no instance.\<close>

theorem unfinished_instance_returned:
  "(let h = [PlainObj [(NameKey ''quantity'', Num (Fin 2))], Instance 1 [(NameKey ''id'', Str ''a1''), (NameKey ''gift'', Ref 0)]]
    in materialize_dto 6 shop 1 (Ref 1) h = Some (Inr (Ref 1, h)) \<and> \<not> instance_of shop h (Ref 0) 2)"
  by code_simp

text \<open>An item that breaks a rule is reported with its path.\<close>

lemma order_rejected:
  "materialize_dto 6 shop 1 (Ref 3) (order_data 0) = Some (Inl (DtoValidationError
     [\<lparr>is_code = ''POSITIVE'', is_field = Some ''items[0].quantity'', is_source = None\<rparr>]))"
  by code_simp

section \<open>Defects\<close>

text \<open>A rule that compares with an object compares with a copy of it: the decorated field never
  equals the object, whatever its value.\<close>

lemma object_operand_never_equal:
  assumes "(k, rs) \<in> set (get_dto_validation_schema supers S D)" "r \<in> set rs" "ru_kind r = Equals w"
  shows "w \<noteq> Ref p" "deref h v \<noteq> None \<Longrightarrow> \<not> rule_predicate W h (ru_kind r) v"
proof -
  obtain xs ys where "rs = map clone_rule xs @ map clone_rule ys"
    using assms(1) by (auto simp: get_dto_validation_schema_def Let_def)
  then obtain r' where r': "r = clone_rule r'"
    using assms(2) by auto
  then have "clone_kind (ru_kind r') = Equals w"
    using assms(3) by (simp add: clone_rule_def)
  then obtain u where "w = clone_value u"
    by (cases "ru_kind r'") auto
  then have none: "w \<noteq> Ref p" for p
    by (cases u) auto
  then show "w \<noteq> Ref p" .
  show "\<not> rule_predicate W h (ru_kind r) v" if "deref h v \<noteq> None"
    using that none by (auto simp: assms(3) strictly_equal_def dest!: deref_valid)
qed

text \<open>A rule that a subclass declares is a rule of the base class as well.\<close>

lemma subclass_rule_leaks:
  "let supers = (\<lambda>c. if c = 2 then [2, 1] else [c]);
       base = declare_dto supers 1 [FieldRule (NameKey ''a'') (plain_rule IsString)] empty_store;
       both = declare_dto supers 2 [FieldRule (NameKey ''b'') (plain_rule Defined)] base in
   map fst (get_dto_validation_schema supers base 1) = [NameKey ''a''] \<and>
   map fst (get_dto_validation_schema supers both 1) = [NameKey ''a'', NameKey ''b'']"
  by code_simp

text \<open>A class whose text has no space after the keyword is taken for a function and called, which a class
  does not allow.\<close>

lemma class_without_space_is_called:
  "resolve_nested_dto \<lparr>nd_text = ''class{quantity=0}'', nd_class = 2, nd_is_class = True\<rparr> = run_throw NotCallable"
  by code_simp

end
