(* ===== verification/Dto_Binding.thy ===== *)
theory Dto_Binding
  imports Validation_Facts
begin

text \<open>
  Binding a request to a data transfer object (\<open>http/src/adapters/binding.ts\<close>,
  \<open>dto-binding-plan.ts\<close>, \<open>dto-validation-adapter.ts\<close>): the plan compiled for a class, the check of the
  body's keys, the fields with their converters, and the validation before a handler is called
  (\<open>dispatch/dispatch-handler-policy.ts\<close>). The dictionaries of a request are plain objects. Converters are
  code of the application; resolving one twice gives the same converter. A token is a class or a
  name, of which a symbol is one.
\<close>

section \<open>Plans\<close>

record plan_entry =
  pe_converter :: "converter_like option"
  pe_field :: string
  pe_optional :: bool
  pe_key :: dto_key
  pe_source :: metadata_source
  pe_source_key :: string

record dto_plan =
  pl_body_keys :: "string list"
  pl_entries :: "plan_entry list"
  pl_has_field_converters :: bool
  pl_needs_validation :: bool
  pl_property_keys :: "dto_key list"
  pl_filters :: bool

definition resolve_source_key :: "dto_key \<Rightarrow> string option \<Rightarrow> string" where
  "resolve_source_key k key = (case key of None \<Rightarrow> to_field_name k | Some s \<Rightarrow> s)"

definition plan_entry_of :: "dto_key \<times> dto_binding \<Rightarrow> plan_entry" where
  "plan_entry_of kb = (case kb of (k, b) \<Rightarrow>
     \<lparr>pe_converter = db_converter b, pe_field = to_field_name k, pe_optional = (db_optional b = Some True), pe_key = k,
      pe_source = the (db_source b), pe_source_key = resolve_source_key k (db_key b)\<rparr>)"

fun is_dto_aware_validation_rule :: "rule_kind \<Rightarrow> bool" where
  "is_dto_aware_validation_rule (Custom f own) = True"
| "is_dto_aware_validation_rule (ValidateIf f) = True"
| "is_dto_aware_validation_rule _ = False"

text \<open>\<open>getCompiledDtoBindingPlan\<close>\<close>

definition get_compiled_dto_binding_plan :: "dto_world \<Rightarrow> nat \<Rightarrow> dto_plan" where
  "get_compiled_dto_binding_plan W D =
     (let entries = map plan_entry_of (get_dto_binding_schema (dw_supers W) (dw_store W) D);
          keys = map pe_key entries;
          schema = get_dto_validation_schema (dw_supers W) (dw_store W) D;
          class_rules = get_class_validation_rules (dw_supers W) (dw_store W) D \<noteq> [];
          dto_aware = list_ex (\<lambda>(k, rs). list_ex (\<lambda>r. is_dto_aware_validation_rule (ru_kind r)) rs) schema in
      \<lparr>pl_body_keys = map pe_source_key (filter (\<lambda>e. pe_source e = BodySource) entries), pl_entries = entries,
       pl_has_field_converters = list_ex (\<lambda>e. pe_converter e \<noteq> None) entries,
       pl_needs_validation = (class_rules \<or> schema \<noteq> []), pl_property_keys = keys,
       pl_filters = (class_rules \<or> dto_aware \<or> list_ex (\<lambda>(k, rs). k \<notin> set keys) schema)\<rparr>)"

section \<open>Requests\<close>

record dto_request =
  dr_params :: "(dto_key, js_val) js_map"
  dr_query :: "(dto_key, js_val) js_map"
  dr_headers :: "(dto_key, js_val) js_map"
  dr_cookies :: "(dto_key, js_val) js_map"
  dr_body :: js_val

definition read_entry :: "dto_world \<Rightarrow> (dto_key, js_val) js_map \<Rightarrow> string \<Rightarrow> js_val" where
  "read_entry W m s = read_object W (PlainObj m) (NameKey s)"

definition read_header :: "dto_world \<Rightarrow> dto_request \<Rightarrow> string \<Rightarrow> js_val" where
  "read_header W req key =
     (let v = read_entry W (dr_headers req) (js_lower key) in if missing v then read_entry W (dr_headers req) key else v)"

text \<open>\<open>createSourceReader\<close>\<close>

definition read_source :: "dto_world \<Rightarrow> js_heap \<Rightarrow> dto_request \<Rightarrow> plan_entry \<Rightarrow> js_val" where
  "read_source W h req e =
     (case pe_source e of
        PathSource \<Rightarrow> read_entry W (dr_params req) (pe_source_key e)
      | QuerySource \<Rightarrow> read_entry W (dr_query req) (pe_source_key e)
      | HeaderSource \<Rightarrow> read_header W req (pe_source_key e)
      | CookieSource \<Rightarrow> read_entry W (dr_cookies req) (pe_source_key e)
      | BodySource \<Rightarrow> read_property W h (dr_body req) (NameKey (pe_source_key e)))"

datatype binding_error = BadRequest "issue list" | InvariantError | ConverterThrew nat | DtoThrew nat

definition binding_issue :: "string \<Rightarrow> string option \<Rightarrow> metadata_source \<Rightarrow> issue" where
  "binding_issue code field source = \<lparr>is_code = code, is_field = field, is_source = Some source\<rparr>"

fun dto_names :: "dto_key list \<Rightarrow> string list" where
  "dto_names [] = []"
| "dto_names (NameKey s # ks) = s # dto_names ks"
| "dto_names (SymKey i d # ks) = dto_names ks"

text \<open>\<open>validateBodyKeys\<close>, for a body that is there\<close>

definition validate_body_keys :: "js_heap \<Rightarrow> js_val \<Rightarrow> string list \<Rightarrow> issue list" where
  "validate_body_keys h body keys =
     (case deref h body of
        Some (PlainObj m) \<Rightarrow>
          concat (map (\<lambda>s.
            if dangerous_key (NameKey s) then [binding_issue ''DANGEROUS_KEY'' (Some s) BodySource]
            else if s \<notin> set keys then [binding_issue ''UNKNOWN_FIELD'' (Some s) BodySource] else []) (dto_names (map fst m)))
      | _ \<Rightarrow> [binding_issue ''INVALID_BODY'' None BodySource])"

section \<open>Converters\<close>

text \<open>What resolving a token gives, what constructing a class gives (\<open>None\<close> is not a converter), and
  what a converter makes of a value.\<close>

record converters =
  cv_resolve :: "converter_like \<Rightarrow> nat option callback"
  cv_construct :: "nat \<Rightarrow> nat option callback"
  cv_convert :: "nat \<Rightarrow> plan_entry \<Rightarrow> js_val \<Rightarrow> js_val callback"

text \<open>\<open>resolveConverter\<close>. A class that cannot be resolved, or not to a converter, is constructed. The empty
  name is no converter.\<close>

definition resolve_converter :: "converters \<Rightarrow> converter_like \<Rightarrow> (binding_error, nat option) result" where
  "resolve_converter C c =
     (case c of
        ConverterInstance i \<Rightarrow> Inr (Some i)
      | NotAConverter \<Rightarrow> Inl InvariantError
      | ConverterName s \<Rightarrow>
          if s = [] then Inr None
          else (case cv_resolve C c of
                  Inl e \<Rightarrow> Inl (ConverterThrew e)
                | Inr None \<Rightarrow> Inl InvariantError
                | Inr (Some i) \<Rightarrow> Inr (Some i))
      | ConverterClass d \<Rightarrow>
          (case cv_resolve C c of
             Inr (Some i) \<Rightarrow> Inr (Some i)
           | _ \<Rightarrow> (case cv_construct C d of
                   Inl e \<Rightarrow> Inl (ConverterThrew e)
                 | Inr None \<Rightarrow> Inl InvariantError
                 | Inr (Some i) \<Rightarrow> Inr (Some i))))"

definition resolve_converters :: "converters \<Rightarrow> converter_like list \<Rightarrow> (binding_error, nat list) result" where
  "resolve_converters C cs =
     (case map_result (resolve_converter C) cs of
        Inl e \<Rightarrow> Inl e
      | Inr is \<Rightarrow> Inr (map the (filter (\<lambda>i. i \<noteq> None) is)))"

fun apply_converters :: "converters \<Rightarrow> plan_entry \<Rightarrow> nat list \<Rightarrow> js_val \<Rightarrow> (binding_error, js_val) result" where
  "apply_converters C e [] v = Inr v"
| "apply_converters C e (i # is) v =
     (case cv_convert C i e v of Inl x \<Rightarrow> Inl (ConverterThrew x) | Inr w \<Rightarrow> apply_converters C e is w)"

definition convert_field :: "converters \<Rightarrow> nat list \<Rightarrow> plan_entry \<Rightarrow> js_val \<Rightarrow> (binding_error, js_val) result" where
  "convert_field C global e v =
     (case apply_converters C e global v of
        Inl x \<Rightarrow> Inl x
      | Inr w \<Rightarrow>
          (case pe_converter e of
             None \<Rightarrow> Inr w
           | Some c \<Rightarrow>
               (case resolve_converter C c of
                  Inl x \<Rightarrow> Inl x
                | Inr None \<Rightarrow> Inr w
                | Inr (Some i) \<Rightarrow> apply_converters C e [i] w)))"

section \<open>The binder\<close>

text \<open>The loop over the entries; the accumulators are the fields of the object and the issues so far.\<close>

fun bind_entries ::
  "(plan_entry \<Rightarrow> js_val) \<Rightarrow> (plan_entry \<Rightarrow> js_val \<Rightarrow> (binding_error, js_val) result) \<Rightarrow> plan_entry list \<Rightarrow>
   (dto_key, js_val) js_map \<Rightarrow> issue list \<Rightarrow> (binding_error, (dto_key, js_val) js_map \<times> issue list) result" where
  "bind_entries rd cv [] props details = Inr (props, details)"
| "bind_entries rd cv (e # es) props details =
     (let v = rd e in
      if v = Undef then
        (if pe_optional e then bind_entries rd cv es props details
         else bind_entries rd cv es props (details @ [binding_issue ''MISSING_FIELD'' (Some (pe_field e)) (pe_source e)]))
      else (case cv e v of Inl x \<Rightarrow> Inl x | Inr w \<Rightarrow> bind_entries rd cv es (js_set (pe_key e) w props) details))"

text \<open>The loop without converters.\<close>

fun bind_entries_plain ::
  "(plan_entry \<Rightarrow> js_val) \<Rightarrow> plan_entry list \<Rightarrow> (dto_key, js_val) js_map \<Rightarrow> issue list \<Rightarrow> (dto_key, js_val) js_map \<times> issue list" where
  "bind_entries_plain rd [] props details = (props, details)"
| "bind_entries_plain rd (e # es) props details =
     (let v = rd e in
      if v = Undef then
        (if pe_optional e then bind_entries_plain rd es props details
         else bind_entries_plain rd es props (details @ [binding_issue ''MISSING_FIELD'' (Some (pe_field e)) (pe_source e)]))
      else bind_entries_plain rd es (js_set (pe_key e) v props) details)"

definition finish_binding ::
  "nat \<Rightarrow> js_heap \<Rightarrow> (dto_key, js_val) js_map \<times> issue list \<Rightarrow> (binding_error, js_val \<times> js_heap) result" where
  "finish_binding D h pd =
     (case pd of (props, details) \<Rightarrow>
        if details \<noteq> [] then Inl (BadRequest details) else Inr (Ref (length h), h @ [Instance D props]))"

text \<open>\<open>DefaultBinder.bind\<close>\<close>

definition bind_dto ::
  "dto_world \<Rightarrow> converters \<Rightarrow> converter_like list \<Rightarrow> nat \<Rightarrow> dto_request \<Rightarrow> js_heap \<Rightarrow> (binding_error, js_val \<times> js_heap) result" where
  "bind_dto W C global D req h =
     (let plan = get_compiled_dto_binding_plan W D in
      case dw_construct W D h of
        Inl e \<Rightarrow> Inl (DtoThrew e)
      | Inr (init, h1) \<Rightarrow>
          (let body_issues = (if missing (dr_body req) then [] else validate_body_keys h1 (dr_body req) (pl_body_keys plan)) in
           if body_issues \<noteq> [] then Inl (BadRequest body_issues)
           else if global = [] \<and> \<not> pl_has_field_converters plan
           then finish_binding D h1 (bind_entries_plain (read_source W h1 req) (pl_entries plan) init [])
           else
             (case resolve_converters C global of
                Inl e \<Rightarrow> Inl e
              | Inr is \<Rightarrow>
                  (case bind_entries (read_source W h1 req) (convert_field C is) (pl_entries plan) init [] of
                     Inl e \<Rightarrow> Inl e
                   | Inr pd \<Rightarrow> finish_binding D h1 pd))))"

section \<open>Validation before the handler\<close>

text \<open>\<open>toValidationValue\<close>: for some plans a copy with the bound properties only.\<close>

definition filtered_properties :: "dto_key list \<Rightarrow> (dto_key, js_val) js_map \<Rightarrow> (dto_key, js_val) js_map" where
  "filtered_properties keys m =
     fold (\<lambda>k acc. case js_get m k of None \<Rightarrow> acc | Some v \<Rightarrow> js_set k v acc) keys []"

definition to_validation_value :: "dto_plan \<Rightarrow> js_val \<Rightarrow> js_heap \<Rightarrow> js_val \<times> js_heap" where
  "to_validation_value plan v h =
     (if \<not> pl_filters plan then (v, h)
      else
        (case deref h v of
           Some (Instance D m) \<Rightarrow> (Ref (length h), h @ [Instance D (filtered_properties (pl_property_keys plan) m)])
         | Some (PlainObj m) \<Rightarrow> (Ref (length h), h @ [PlainObj (filtered_properties (pl_property_keys plan) m)])
         | _ \<Rightarrow> (v, h)))"

datatype input_error = Binding binding_error | Validating dto_error

text \<open>\<open>invokeControllerHandler\<close> up to the call of the method, with \<open>HttpDtoValidationAdapter.validate\<close>: the
  input of the handler.\<close>

definition bind_and_validate ::
  "nat \<Rightarrow> dto_world \<Rightarrow> converters \<Rightarrow> converter_like list \<Rightarrow> nat \<Rightarrow> dto_request \<Rightarrow> js_heap \<Rightarrow>
   (input_error, js_val \<times> js_heap) result option" where
  "bind_and_validate n W C global D req h =
     (case bind_dto W C global D req h of
        Inl e \<Rightarrow> Some (Inl (Binding e))
      | Inr (v, h1) \<Rightarrow>
          (let plan = get_compiled_dto_binding_plan W D in
           if \<not> pl_needs_validation plan then Some (Inr (v, h1))
           else
             (let (w, h2) = to_validation_value plan v h1 in
              case validate_dto n W D w h2 of
                None \<Rightarrow> None
              | Some (Inl e) \<Rightarrow> Some (Inl (Validating e))
              | Some (Inr u) \<Rightarrow> Some (Inr (v, h2)))))"


section \<open>What is bound\<close>

lemma bind_entries_identity:
  "(\<forall>e \<in> set es. pe_converter e = None) \<Longrightarrow>
   bind_entries rd (convert_field C []) es props details = Inr (bind_entries_plain rd es props details)"
  by (induction es arbitrary: props details) (simp_all add: convert_field_def Let_def)

lemma bind_entries_bound:
  assumes "bind_entries rd cv es props details = Inr (props', details')"
  shows "(\<forall>k. k \<notin> pe_key ` set es \<longrightarrow> js_get props' k = js_get props k) \<and>
    (\<exists>more. details' = details @ more) \<and> (details' = [] \<longrightarrow> (\<forall>e \<in> set es. pe_optional e \<or> rd e \<noteq> Undef))"
  using assms
proof (induction es arbitrary: props details)
  case (Cons e es)
  consider (optional) "rd e = Undef" "pe_optional e" | (absent) "rd e = Undef" "\<not> pe_optional e" | (present) "rd e \<noteq> Undef"
    by blast
  then show ?case
  proof cases
    case optional
    then show ?thesis
      using Cons by auto
  next
    case absent
    then have run: "bind_entries rd cv es props (details @ [binding_issue ''MISSING_FIELD'' (Some (pe_field e)) (pe_source e)]) = Inr (props', details')"
      using Cons.prems by simp
    from Cons.IH [OF this] show ?thesis
      by auto
  next
    case present
    then obtain w where "bind_entries rd cv es (js_set (pe_key e) w props) details = Inr (props', details')"
      using Cons.prems by (auto split: sum.splits)
    from Cons.IH [OF this] present show ?thesis
      by auto
  qed
qed simp

lemma validate_body_keys_nil:
  "validate_body_keys h body keys = [] \<longleftrightarrow>
   (\<exists>m. deref h body = Some (PlainObj m) \<and> (\<forall>s \<in> set (dto_names (map fst m)). \<not> dangerous_key (NameKey s) \<and> s \<in> set keys))"
proof -
  have nil: "concat (map (\<lambda>s. if P s then [f s] else if Q s then [g s] else []) xs) = [] \<longleftrightarrow> (\<forall>s \<in> set xs. \<not> P s \<and> \<not> Q s)"
    for P Q and f g :: "string \<Rightarrow> issue" and xs
    by (induction xs) auto
  show ?thesis
  proof (cases "deref h body")
    case (Some ob)
    then show ?thesis
      by (cases ob) (simp_all add: validate_body_keys_def nil del: concat_eq_Nil_conv)
  qed (simp add: validate_body_keys_def)
qed

lemma finish_binding_ok:
  "finish_binding D h pd = Inr (w, h') \<longleftrightarrow> snd pd = [] \<and> w = Ref (length h) \<and> h' = h @ [Instance D (fst pd)]"
  by (cases pd) (auto simp: finish_binding_def)

text \<open>Both loops, as the one with converters.\<close>

lemma bind_dto_ok:
  assumes "bind_dto W C global D req h = Inr (w, h')"
  shows "\<exists>init h1 is props. dw_construct W D h = Inr (init, h1) \<and>
    (missing (dr_body req) \<or> validate_body_keys h1 (dr_body req) (pl_body_keys (get_compiled_dto_binding_plan W D)) = []) \<and>
    bind_entries (read_source W h1 req) (convert_field C is) (pl_entries (get_compiled_dto_binding_plan W D)) init [] = Inr (props, []) \<and>
    w = Ref (length h1) \<and> h' = h1 @ [Instance D props]"
proof -
  let ?plan = "get_compiled_dto_binding_plan W D"
  obtain init h1 where init: "dw_construct W D h = Inr (init, h1)"
    using assms by (auto simp: bind_dto_def Let_def split: sum.splits)
  have body: "missing (dr_body req) \<or> validate_body_keys h1 (dr_body req) (pl_body_keys ?plan) = []"
    using assms init by (auto simp: bind_dto_def Let_def split: if_splits)
  show ?thesis
  proof (cases "global = [] \<and> \<not> pl_has_field_converters ?plan")
    case True
    then have "\<forall>e \<in> set (pl_entries ?plan). pe_converter e = None"
      by (simp add: get_compiled_dto_binding_plan_def Let_def list_ex_iff)
    note plain = bind_entries_identity [OF this]
    obtain props details where pd: "bind_entries_plain (read_source W h1 req) (pl_entries ?plan) init [] = (props, details)"
      by (cases "bind_entries_plain (read_source W h1 req) (pl_entries ?plan) init []")
    have "finish_binding D h1 (props, details) = Inr (w, h')"
      using assms init body True pd by (auto simp: bind_dto_def Let_def split: if_splits)
    then have "details = []" "w = Ref (length h1)" "h' = h1 @ [Instance D props]"
      by (simp_all add: finish_binding_ok)
    then show ?thesis
      using init body plain pd by (intro exI [of _ init] exI [of _ h1] exI [of _ "[]"] exI [of _ props]) simp
  next
    case False
    then obtain "is" pd where "bind_entries (read_source W h1 req) (convert_field C is) (pl_entries ?plan) init [] = Inr pd"
      "finish_binding D h1 pd = Inr (w, h')"
      using assms init body by (auto simp: bind_dto_def Let_def split: if_splits sum.splits)
    then show ?thesis
      using init body
      by (intro exI [of _ init] exI [of _ h1] exI [of _ "is"] exI [of _ "fst pd"]) (simp add: finish_binding_ok prod_eq_iff)
  qed
qed

text \<open>C17. a bound object is an instance of its class in which only declared properties differ from what
  the constructor set; every property that is not optional has a value in the request; and the body, if there
  is one, is a plain object with declared keys only, none of them dangerous.\<close>

theorem bound_input_is_declared:
  assumes "bind_dto W C global D req h = Inr (w, h')"
  shows "\<exists>init h1 props. dw_construct W D h = Inr (init, h1) \<and> deref h' w = Some (Instance D props) \<and>
    (\<forall>k. k \<notin> set (pl_property_keys (get_compiled_dto_binding_plan W D)) \<longrightarrow> js_get props k = js_get init k) \<and>
    (\<forall>e \<in> set (pl_entries (get_compiled_dto_binding_plan W D)). pe_optional e \<or> read_source W h1 req e \<noteq> Undef) \<and>
    (missing (dr_body req) \<or>
     (\<exists>m. deref h1 (dr_body req) = Some (PlainObj m) \<and>
        (\<forall>s \<in> set (dto_names (map fst m)). \<not> dangerous_key (NameKey s) \<and> s \<in> set (pl_body_keys (get_compiled_dto_binding_plan W D)))))"
proof -
  let ?plan = "get_compiled_dto_binding_plan W D"
  obtain init h1 "is" props where init: "dw_construct W D h = Inr (init, h1)"
    and body: "missing (dr_body req) \<or> validate_body_keys h1 (dr_body req) (pl_body_keys ?plan) = []"
    and bound: "bind_entries (read_source W h1 req) (convert_field C is) (pl_entries ?plan) init [] = Inr (props, [])"
    and w: "w = Ref (length h1)" "h' = h1 @ [Instance D props]"
    using bind_dto_ok [OF assms] by blast
  have keys: "set (pl_property_keys ?plan) = pe_key ` set (pl_entries ?plan)"
    by (simp add: get_compiled_dto_binding_plan_def Let_def image_image)
  have "deref h' w = Some (Instance D props)"
    by (simp add: w deref_def)
  with init bind_entries_bound [OF bound] body show ?thesis
    unfolding keys validate_body_keys_nil by blast
qed

section \<open>What the handler receives\<close>

lemma filtered_get: "k \<in> set keys \<Longrightarrow> js_get (filtered_properties keys m) k = js_get m k"
proof -
  have outside: "js_get (fold (\<lambda>k acc. case js_get m k of None \<Rightarrow> acc | Some v \<Rightarrow> js_set k v acc) keys acc) k = js_get acc k"
    if "k \<notin> set keys" for keys acc
    using that by (induction keys arbitrary: acc) (auto split: option.splits)
  have "js_get (fold (\<lambda>k acc. case js_get m k of None \<Rightarrow> acc | Some v \<Rightarrow> js_set k v acc) keys acc) k = js_get m k"
    if "k \<in> set keys" "js_get acc k = None \<or> js_get acc k = js_get m k" for keys acc
    using that
  proof (induction keys arbitrary: acc)
    case (Cons j keys)
    show ?case
    proof (cases "k \<in> set keys")
      case True
      then show ?thesis
        using Cons by (auto split: option.splits)
    next
      case False
      then show ?thesis
        using Cons.prems outside by (auto split: option.splits)
    qed
  qed simp
  then show "k \<in> set keys \<Longrightarrow> js_get (filtered_properties keys m) k = js_get m k"
    by (simp add: filtered_properties_def)
qed

lemma no_conditions: "\<forall>r \<in> set rs. \<not> is_validate_if (ru_kind r) \<Longrightarrow> should_conditionally_skip h rs dto v = Inr False"
proof (induction rs)
  case (Cons r rs)
  then show ?case
    by (cases "ru_kind r") simp_all
qed simp

lemma collected_field:
  assumes "collect_validation_issues n W inherited D v pre [] h = run_return []" "(k, rs) \<in> set (schema_of W D)"
  shows "\<exists>mk walk path source active. apply_property_rules W mk walk h v k (read_property W h v k) path source active rs = run_return []"
proof -
  obtain n' where n: "n = Suc n'"
    using assms(1) by (cases n) (simp_all add: run_return_def)
  obtain M where M: "get_dto_metadata W D = run_return M"
    using assms(1) by (auto simp: n run_bind_return_iff)
  let ?field = "\<lambda>(k, rs).
      let source = coalesce (db_source (get_or (dm_bindings M) k no_binding)) inherited;
          path = (if pre = [] then to_field_name k else join_field_path pre (Some (to_field_name k))) in
      apply_property_rules W (\<lambda>D' x h'. create_nested_dto_instance n' W D' x [v] h')
        (\<lambda>D' x prefix' active' h'. collect_validation_issues n' W source D' x prefix' active' h')
        h v k (read_property W h v k) path source [v] rs"
  have "run_concat ?field (dm_schema M) = run_return []"
    using assms(1) by (auto simp: n M run_bind_return_iff)
  then have "\<forall>x \<in> set (dm_schema M). ?field x = run_return []"
    unfolding run_concat_nil_iff .
  moreover have "(k, rs) \<in> set (dm_schema M)"
    using assms(2) metadata_parts(1) [OF M] by simp
  ultimately have "?field (k, rs) = run_return []"
    by (rule bspec)
  then show ?thesis
    unfolding prod.case Let_def by blast
qed

text \<open>C18. what a handler receives satisfies the rules of its fields: for a bound field that is not declared
  with a condition, either the field is optional and missing or every rule that applies to its value and is
  a predicate holds of it.\<close>

theorem handler_input_satisfies_rules:
  assumes "bind_and_validate n W C global D req h = Some (Inr (w, h'))" "(k, rs) \<in> set (schema_of W D)"
    and "k \<in> set (pl_property_keys (get_compiled_dto_binding_plan W D))" "\<forall>r \<in> set rs. \<not> is_validate_if (ru_kind r)"
    and "\<And>m m'. dw_inherited W (Instance D m) k = dw_inherited W (Instance D m') k"
  shows "has_optional rs \<and> missing (read_property W h' w k) \<or>
    (\<forall>r \<in> set rs. is_predicate (ru_kind r) \<longrightarrow> rule_applies (read_property W h' w k) r \<longrightarrow>
       (\<forall>x \<in> set (rule_elements h' r (read_property W h' w k)). validate_single_rule W h' (ru_kind r) x = Inr True))"
proof -
  let ?plan = "get_compiled_dto_binding_plan W D"
  have needed: "pl_needs_validation ?plan"
    using assms(2) by (auto simp: get_compiled_dto_binding_plan_def Let_def)
  obtain h1 where bound: "bind_dto W C global D req h = Inr (w, h1)"
    using assms(1) needed by (auto simp: bind_and_validate_def Let_def split: sum.splits option.splits prod.splits)
  obtain u h2 where view: "to_validation_value ?plan w h1 = (u, h2)"
    by (cases "to_validation_value ?plan w h1")
  have checked: "validate_dto n W D u h2 = run_return ()" and h': "h' = h2"
    using assms(1) needed bound view
    by (auto simp: bind_and_validate_def run_return_def split: sum.splits option.splits)
  obtain props where w: "deref h1 w = Some (Instance D props)"
    using bind_dto_ok [OF bound] by (auto simp: deref_def)
  have same: "read_property W h2 u k = read_property W h2 w k"
  proof (cases "pl_filters ?plan")
    case True
    then have h2: "u = Ref (length h1)" "h2 = h1 @ [Instance D (filtered_properties (pl_property_keys ?plan) props)]"
      using view w by (simp_all add: to_validation_value_def)
    then have "deref h2 w = Some (Instance D props)"
      using deref_grows [OF _ w] by simp
    then show ?thesis
      using filtered_get [OF assms(3)] assms(5) by (simp add: h2 read_property_def deref_def read_object_def split: option.split)
  qed (use view in \<open>simp add: to_validation_value_def\<close>)
  have "collect_validation_issues n W None D u [] [] h2 = run_return []"
    using checked by (auto simp: validate_dto_def run_bind_return_iff throw_issues_def split: if_splits)
  from collected_field [OF this assms(2)] obtain mk walk path source active where
    field: "apply_property_rules W mk walk h2 u k (read_property W h2 w k) path source active rs = run_return []"
    unfolding same by blast
  show ?thesis
  proof (cases "has_optional rs \<and> missing (read_property W h2 w k)")
    case False
    have evaluated: "evaluate_rule W mk walk h2 u k (read_property W h2 w k) path source active r = run_return []"
      if "r \<in> set rs" "rule_applies (read_property W h2 w k) r" for r
      using field that False no_conditions [OF assms(4)]
      by (auto simp: apply_property_rules_def run_concat_nil_iff split: if_splits)
    then have "evaluate_predicate W h2 (read_property W h2 w k) path source r = run_return []"
      if "r \<in> set rs" "is_predicate (ru_kind r)" "rule_applies (read_property W h2 w k) r" for r
      using evaluated [OF that(1,3)] by (simp only: evaluate_rule_predicate [OF that(2)])
    then show ?thesis
      unfolding h' evaluate_predicate_iff by blast
  qed (use h' in simp)
qed

end
