(* ===== verification/Binding_Examples.thy ===== *)
theory Binding_Examples
  imports Validation_Examples Dto_Binding
begin

text \<open>A request that is bound and checked, and requests that are refused.\<close>

definition cart_store :: dto_store where
  "cart_store = declare_dto self_only 2
     (BindFrom BodySource (NameKey ''quantity'') (Some ''qty'') # BindFrom QuerySource (NameKey ''note'') None # MarkOptional (NameKey ''note'') #
      item_decorators) empty_store"

definition cart :: dto_world where
  "cart = shop\<lparr>dw_store := cart_store\<rparr>"

definition no_converters :: converters where
  "no_converters = \<lparr>cv_resolve = (\<lambda>_. Inr None), cv_construct = (\<lambda>_. Inr None), cv_convert = (\<lambda>i e v. Inr v)\<rparr>"

definition cart_request :: dto_request where
  "cart_request = \<lparr>dr_params = [], dr_query = [], dr_headers = [], dr_cookies = [], dr_body = Ref 0\<rparr>"

definition cart_body :: "(dto_key, js_val) js_map \<Rightarrow> js_heap" where
  "cart_body m = [PlainObj m]"

lemma cart_bound:
  "bind_dto cart no_converters [] 2 cart_request (cart_body [(NameKey ''qty'', Num (Fin 3))]) =
     Inr (Ref 1, [PlainObj [(NameKey ''qty'', Num (Fin 3))], Instance 2 [(NameKey ''quantity'', Num (Fin 3))]])"
  by code_simp

lemma cart_accepted:
  "bind_and_validate 2 cart no_converters [] 2 cart_request (cart_body [(NameKey ''qty'', Num (Fin 3))]) =
     Some (Inr (Ref 1, [PlainObj [(NameKey ''qty'', Num (Fin 3))], Instance 2 [(NameKey ''quantity'', Num (Fin 3))]]))"
  by code_simp

lemma cart_refused:
  "bind_dto cart no_converters [] 2 cart_request (cart_body [(NameKey ''price'', Num (Fin 0)), (NameKey ''__proto__'', Null)]) =
     Inl (BadRequest [binding_issue ''UNKNOWN_FIELD'' (Some ''price'') BodySource, binding_issue ''DANGEROUS_KEY'' (Some ''__proto__'') BodySource])"
  "bind_dto cart no_converters [] 2 cart_request (cart_body []) =
     Inl (BadRequest [binding_issue ''MISSING_FIELD'' (Some ''quantity'') BodySource])"
  "bind_and_validate 2 cart no_converters [] 2 cart_request (cart_body [(NameKey ''qty'', Num (Fin 0))]) =
     Some (Inl (Validating (DtoValidationError [\<lparr>is_code = ''POSITIVE'', is_field = Some ''quantity'', is_source = Some BodySource\<rparr>])))"
  by code_simp+

theorem bound_input_is_declared_witness:
  "\<exists>props. deref [PlainObj [(NameKey ''qty'', Num (Fin 3))], Instance 2 [(NameKey ''quantity'', Num (Fin 3))]] (Ref 1) = Some (Instance 2 props) \<and>
     (\<exists>init h1. dw_construct cart 2 (cart_body [(NameKey ''qty'', Num (Fin 3))]) = Inr (init, h1) \<and>
        js_get props (NameKey ''admin'') = js_get init (NameKey ''admin''))"
proof -
  have "NameKey ''admin'' \<notin> set (pl_property_keys (get_compiled_dto_binding_plan cart 2))"
    by code_simp
  with bound_input_is_declared [OF cart_bound] show ?thesis
    by blast
qed

lemma cart_schema: "schema_of cart 2 = [(NameKey ''quantity'', [plain_rule IsInt, plain_rule Positive])]"
  by (simp add: cart_def cart_store_def dto_defs get_dto_validation_schema_def get_inherited_stored_dto_validation_map_def
      merge_metadata_property_keys_def clone_rule_def merge_standard_dto_binding_def Let_def)

theorem handler_input_satisfies_rules_witness:
  "has_optional [plain_rule IsInt, plain_rule Positive] \<or>
   validate_single_rule cart [PlainObj [(NameKey ''qty'', Num (Fin 3))], Instance 2 [(NameKey ''quantity'', Num (Fin 3))]] Positive (Num (Fin 3)) = Inr True"
proof -
  let ?h = "[PlainObj [(NameKey ''qty'', Num (Fin 3))], Instance 2 [(NameKey ''quantity'', Num (Fin 3))]]"
  have key: "NameKey ''quantity'' \<in> set (pl_property_keys (get_compiled_dto_binding_plan cart 2))"
    by code_simp
  have rule: "(NameKey ''quantity'', [plain_rule IsInt, plain_rule Positive]) \<in> set (schema_of cart 2)"
    by (simp add: cart_schema)
  have unconditional: "\<forall>r \<in> set [plain_rule IsInt, plain_rule Positive]. \<not> is_validate_if (ru_kind r)"
    by (simp add: plain_rule_def)
  have read: "read_property cart ?h (Ref 1) (NameKey ''quantity'') = Num (Fin 3)"
    by (simp add: read_property_def deref_def read_object_def)
  have "rule_applies (Num (Fin 3)) (plain_rule Positive)" "is_predicate (ru_kind (plain_rule Positive))"
    "Num (Fin 3) \<in> set (rule_elements ?h (plain_rule Positive) (Num (Fin 3)))"
    by (simp_all add: plain_rule_def rule_applies_def should_skip_rule_for_missing_value_def rule_elements_def)
  moreover have "dw_inherited cart (Instance 2 m) (NameKey ''quantity'') = dw_inherited cart (Instance 2 m') (NameKey ''quantity'')" for m m'
    by (simp add: cart_def shop_def)
  ultimately show ?thesis
    using handler_input_satisfies_rules [OF cart_accepted rule key unconditional] unfolding read
    by (auto simp: plain_rule_def)
qed

end
