(* ===== verification/Mapped_Types.thy ===== *)
theory Mapped_Types
  imports Dto_Metadata
begin

text \<open>
  The classes that \<open>PickType\<close>, \<open>OmitType\<close> and \<open>PartialType\<close> derive (\<open>validation/src/mapped-types.ts\<close>): what is read
  back from the stores for a derived class, in terms of what is read for its base.
\<close>

section \<open>Stores\<close>

text \<open>The stores that decorators and derivations lead to.\<close>

inductive declared :: "(nat \<Rightarrow> nat list) \<Rightarrow> dto_store \<Rightarrow> bool" for supers where
  nothing_declared: "declared supers empty_store"
| decorated: "declared supers S \<Longrightarrow> declared supers (apply_dto_decorator supers c d S)"
| picked: "declared supers S \<Longrightarrow> declared supers (pick_type supers base keys target S)"
| omitted: "declared supers S \<Longrightarrow> declared supers (omit_type supers base keys target S)"
| intersected: "declared supers S \<Longrightarrow> declared supers (intersection_type supers bases target S)"
| made_partial: "declared supers S \<Longrightarrow> declared supers (partial_type supers base target S)"

definition bag_ok :: "dto_bag \<Rightarrow> bool" where
  "bag_ok b \<longleftrightarrow>
     (\<forall>m. bg_bindings b = Some m \<longrightarrow> distinct (map fst m)) \<and> (\<forall>m. bg_rules b = Some m \<longrightarrow> distinct (map fst m))"

lemma bag_at_set: "bag_at (S\<lparr>st_bags := js_set d b m\<rparr>) c = (if c = d then b else get_or m c empty_bag)"
  by (simp add: bag_at_def get_or_def)

lemma bag_read_field: "bag_read field supers S c = Some m \<Longrightarrow> \<exists>d. field (bag_at S d) = Some m"
  by (auto simp: bag_read_def split: option.splits)

lemma bag_read_distinct:
  assumes "\<And>c. bag_ok (bag_at S c)"
  shows "bag_read bg_bindings supers S c = Some m \<Longrightarrow> distinct (map fst m)"
    and "bag_read bg_rules supers S c = Some m' \<Longrightarrow> distinct (map fst m')"
  using assms by (auto dest!: bag_read_field simp: bag_ok_def)

lemma read_or_empty_distinct:
  assumes "\<And>c. bag_ok (bag_at S c)"
  shows "distinct (map fst (case bag_read bg_bindings supers S c of None \<Rightarrow> [] | Some m \<Rightarrow> m))"
    and "distinct (map fst (case bag_read bg_rules supers S c of None \<Rightarrow> [] | Some m \<Rightarrow> m))"
  using bag_read_distinct [OF assms] by (simp_all split: option.split)

lemma decorator_keeps_bags:
  assumes ok: "\<And>c. bag_ok (bag_at S c)"
  shows "bag_ok (bag_at (apply_dto_decorator supers c d S) e)"
proof -
  have other: "bag_ok (get_or (st_bags S) e empty_bag)" for e
    using ok by (simp add: bag_at_def)
  have with_rules: "bag_ok (b\<lparr>bg_rules := Some m\<rparr>)" if "bag_ok b" "distinct (map fst m)" for b m
    using that by (simp add: bag_ok_def)
  have with_bindings: "bag_ok (b\<lparr>bg_bindings := Some m\<rparr>)" if "bag_ok b" "distinct (map fst m)" for b m
    using that by (simp add: bag_ok_def)
  have with_class_rules: "bag_ok (b\<lparr>bg_class_rules := rs\<rparr>)" if "bag_ok b" for b rs
    using that by (simp add: bag_ok_def)
  note facts = other ok with_rules with_bindings with_class_rules distinct_update read_or_empty_distinct [OF ok]
  show ?thesis
    by (cases d) (simp_all add: append_standard_dto_validation_rule_def append_standard_class_validation_rule_def
        merge_standard_dto_binding_def Let_def bag_at_set facts)
qed

lemma stored_parts [simp]:
  "st_bags (define_dto_field_binding_metadata c k b S) = st_bags S"
  "st_rules (define_dto_field_binding_metadata c k b S) = st_rules S"
  "st_class_rules (define_dto_field_binding_metadata c k b S) = st_class_rules S"
  "st_bags (append_dto_field_validation_rule c k r S) = st_bags S"
  "st_bindings (append_dto_field_validation_rule c k r S) = st_bindings S"
  "st_class_rules (append_dto_field_validation_rule c k r S) = st_class_rules S"
  "st_bags (append_class_validation_rule c q S) = st_bags S"
  by (simp_all add: define_dto_field_binding_metadata_def append_dto_field_validation_rule_def append_class_validation_rule_def Let_def)

lemma fold_keeps:
  assumes "\<And>x S. f (g x S) = f S"
  shows "f (fold g xs S) = f S"
  using assms by (induction xs arbitrary: S) simp_all

lemma copy_keeps_bags [simp]: "st_bags (copy_dto_metadata supers source target include class_rules S) = st_bags S"
  by (simp add: copy_dto_metadata_def Let_def fold_keeps [of st_bags] split_beta)

lemma declared_bags: "declared supers S \<Longrightarrow> bag_ok (bag_at S c)"
proof (induction arbitrary: c rule: declared.induct)
  case (decorated S d d')
  then show ?case
    by (intro decorator_keeps_bags)
qed (simp_all add: bag_at_def get_or_def empty_store_def empty_bag_def bag_ok_def pick_type_def omit_type_def
    intersection_type_def partial_type_def fold_keeps [of st_bags] split_beta Let_def)

section \<open>Schemas\<close>

lemma merge_keys_distinct: "distinct stored \<Longrightarrow> distinct standard \<Longrightarrow> distinct (merge_metadata_property_keys stored standard)"
  by (auto simp: merge_metadata_property_keys_def)

lemma merge_keys_nil [simp]: "merge_metadata_property_keys keys [] = keys"
  by (simp add: merge_metadata_property_keys_def)

lemma fold_distinct:
  assumes "\<And>x m. distinct (map fst m) \<Longrightarrow> distinct (map fst (g x m))" "distinct (map fst m)"
  shows "distinct (map fst (fold g xs m))"
  using assms(2) by (induction xs arbitrary: m) (simp_all add: assms(1))

lemma inherited_maps_distinct:
  "distinct (map fst (get_inherited_stored_dto_binding_map supers S c))"
  "distinct (map fst (get_inherited_stored_dto_validation_map supers S c))"
  unfolding get_inherited_stored_dto_binding_map_def get_inherited_stored_dto_validation_map_def
  by (auto intro!: fold_distinct simp: distinct_update split_beta)

lemma filter_keys_distinct: "distinct (map fst m) \<Longrightarrow> distinct (map fst (filter P m))"
  by (simp add: distinct_map inj_on_def)

lemma schemas_distinct:
  assumes "declared supers S"
  shows "distinct (map fst (get_dto_binding_schema supers S c))" "distinct (map fst (get_dto_validation_schema supers S c))"
proof -
  note bags = read_or_empty_distinct [OF declared_bags [OF assms]]
  show "distinct (map fst (get_dto_binding_schema supers S c))"
    unfolding get_dto_binding_schema_def Let_def
    by (intro filter_keys_distinct) (simp add: comp_def merge_keys_distinct inherited_maps_distinct bags)
  show "distinct (map fst (get_dto_validation_schema supers S c))"
    unfolding get_dto_validation_schema_def Let_def
    by (intro filter_keys_distinct) (simp add: comp_def merge_keys_distinct inherited_maps_distinct bags)
qed

lemma clone_value_idem [simp]: "clone_value (clone_value v) = clone_value v"
  by (cases v) simp_all

lemma clone_rule_idem [simp]: "clone_rule (clone_rule r) = clone_rule r"
  by (cases "ru_kind r") (simp_all add: clone_rule_def)

lemma clone_optional [simp]: "clone_rule optional_rule = optional_rule"
  by (simp add: clone_rule_def optional_rule_def)

lemma schema_rules_cloned: "(k, rs) \<in> set (get_dto_validation_schema supers S c) \<Longrightarrow> map clone_rule rs = rs \<and> rs \<noteq> []"
  by (auto simp: get_dto_validation_schema_def Let_def)

lemma schema_rules_there: "(k, []) \<notin> set (get_dto_validation_schema supers S c)"
  by (simp add: get_dto_validation_schema_def Let_def)

lemma schema_source: "(k, b) \<in> set (get_dto_binding_schema supers S c) \<Longrightarrow> db_source b \<noteq> None"
  by (auto simp: get_dto_binding_schema_def Let_def)

section \<open>Copies\<close>

lemma js_set_new: "k \<notin> fst ` set m \<Longrightarrow> js_set k v m = m @ [(k, v)]"
  by (induction m) auto

lemma fold_js_set_new:
  "distinct (map fst (m @ bs)) \<Longrightarrow> fold (\<lambda>(k, b). js_set k b) bs m = m @ bs"
  by (induction bs arbitrary: m) (auto simp: js_set_new)

lemma get_or_new: "k \<notin> fst ` set m \<Longrightarrow> get_or m k d = d"
  by (simp add: get_or_def map_of_eq_None_iff [symmetric] split: option.split)

lemma get_or_set [simp]: "get_or (js_set k v m) j d = (if j = k then v else get_or m j d)"
  by (simp add: get_or_def)

lemma define_all:
  "get_or (st_bindings (fold (\<lambda>(k, b). define_dto_field_binding_metadata c k (f b)) bs S)) c [] =
   fold (\<lambda>(k, b). js_set k b) (map (\<lambda>(k, b). (k, f b)) bs) (get_or (st_bindings S) c [])"
  by (induction bs arbitrary: S) (auto simp: define_dto_field_binding_metadata_def)

lemma append_rules:
  "rs \<noteq> [] \<Longrightarrow> get_or (st_rules (fold (append_dto_field_validation_rule c k) rs S)) c [] =
     js_set k (get_or (get_or (st_rules S) c []) k [] @ map clone_rule rs) (get_or (st_rules S) c [])"
proof (induction rs arbitrary: S)
  case (Cons r rs)
  then show ?case
    by (cases "rs = []") (simp_all add: append_dto_field_validation_rule_def Let_def)
qed simp

lemma append_all:
  assumes "\<forall>(k, rs) \<in> set es. rs \<noteq> []" "distinct (map fst (get_or (st_rules S) c [] @ es))"
  shows "get_or (st_rules (fold (\<lambda>(k, rs). fold (append_dto_field_validation_rule c k) rs) es S)) c [] =
    get_or (st_rules S) c [] @ map (\<lambda>(k, rs). (k, map clone_rule rs)) es"
  using assms
proof (induction es arbitrary: S)
  case (Cons e es)
  obtain k rs where e: "e = (k, rs)"
    by (cases e)
  let ?S = "fold (append_dto_field_validation_rule c k) rs S"
  have "get_or (st_rules ?S) c [] = get_or (st_rules S) c [] @ [(k, map clone_rule rs)]"
    using Cons.prems append_rules [of rs c k S] by (auto simp: e js_set_new get_or_new)
  moreover from this have "distinct (map fst (get_or (st_rules ?S) c [] @ es))"
    using Cons.prems by (auto simp: e)
  ultimately show ?case
    using Cons.IH [of ?S] Cons.prems by (simp add: e)
qed simp

text \<open>A class of which nothing is known, without a superclass.\<close>

definition fresh_class :: "(nat \<Rightarrow> nat list) \<Rightarrow> dto_store \<Rightarrow> nat \<Rightarrow> bool" where
  "fresh_class supers S c \<longleftrightarrow>
     supers c = [c] \<and> js_get (st_bindings S) c = None \<and> js_get (st_rules S) c = None \<and> js_get (st_class_rules S) c = None \<and>
     js_get (st_bags S) c = None"

lemma no_standard_metadata:
  assumes "supers c = [c]" "js_get (st_bags S) c = None" "field empty_bag = None"
  shows "bag_read field supers S c = None"
  using assms by (simp add: bag_read_def owner_of_def bag_at_def get_or_def)

lemma stored_binding_schema:
  assumes "supers c = [c]" "js_get (st_bags S) c = None" "get_or (st_bindings S) c [] = bs" "distinct (map fst bs)"
    and "\<forall>(k, b) \<in> set bs. db_source b \<noteq> None"
  shows "get_dto_binding_schema supers S c = bs"
proof -
  have stored: "get_inherited_stored_dto_binding_map supers S c = bs"
    using assms by (simp add: get_inherited_stored_dto_binding_map_def fold_js_set_new)
  have merged: "(k, merge_binding (get_or bs k no_binding) (get_or [] k no_binding)) = (k, b)" if "(k, b) \<in> set bs" for k b
  proof -
    have coalesce: "coalesce x None = x" for x :: "'x option"
      by (cases x) simp_all
    show ?thesis
      using that assms(4) by (simp add: get_or_def merge_binding_def no_binding_def coalesce)
  qed
  have "map (\<lambda>k. (k, merge_binding (get_or bs k no_binding) (get_or [] k no_binding))) (map fst bs) = bs"
    unfolding map_map by (rule map_idI) (use merged in fastforce)
  then show ?thesis
    using assms(5) no_standard_metadata [where field = bg_bindings and supers = supers and c = c and S = S, OF assms(1) assms(2)]
    by (simp add: get_dto_binding_schema_def stored empty_bag_def filter_id_conv split_beta)
qed

lemma fold_append_new:
  assumes "distinct (map fst (m @ es))"
  shows "fold (\<lambda>(k, rs) m. js_set k (get_or m k [] @ map clone_rule rs) m) es m = m @ map (\<lambda>(k, rs). (k, map clone_rule rs)) es"
  using assms by (induction es arbitrary: m) (auto simp: js_set_new get_or_new)

lemma stored_validation_schema:
  assumes "supers c = [c]" "js_get (st_bags S) c = None" "get_or (st_rules S) c [] = es" "distinct (map fst es)"
    and es: "\<forall>(k, rs) \<in> set es. rs \<noteq> [] \<and> map clone_rule rs = rs"
  shows "get_dto_validation_schema supers S c = es"
proof -
  have "map (\<lambda>(k, rs). (k, map clone_rule rs)) es = es"
    by (rule map_idI) (use es in auto)
  then have stored: "get_inherited_stored_dto_validation_map supers S c = es"
    using assms fold_append_new [of "[]" es] by (simp add: get_inherited_stored_dto_validation_map_def)
  have merged: "map clone_rule (get_or [] k []) @ map clone_rule (get_or es k []) = rs" if "(k, rs) \<in> set es" for k rs
    using that assms(4) es by (auto simp: get_or_def)
  have "map (\<lambda>k. (k, map clone_rule (get_or [] k []) @ map clone_rule (get_or es k []))) (map fst es) = es"
    unfolding map_map by (rule map_idI) (use merged in fastforce)
  then show ?thesis
    using es no_standard_metadata [where field = bg_rules and supers = supers and c = c and S = S, OF assms(1) assms(2)]
    by (simp add: get_dto_validation_schema_def stored empty_bag_def filter_id_conv split_beta)
qed

text \<open>What is copied to a fresh class is what is read for it.\<close>

lemma copied_schemas:
  assumes "fresh_class supers S target"
    and bs: "distinct (map fst bs)" "\<forall>(k, b) \<in> set bs. db_source b \<noteq> None"
    and es: "distinct (map fst es)" "\<forall>(k, rs) \<in> set es. rs \<noteq> [] \<and> map clone_rule rs = rs"
    and S': "S' = fold (\<lambda>(k, rs). fold (append_dto_field_validation_rule target k) rs) es
      (fold (\<lambda>(k, b). define_dto_field_binding_metadata target k b) bs S)"
  shows "get_dto_binding_schema supers S' target = bs \<and> get_dto_validation_schema supers S' target = es \<and>
    get_class_validation_rules supers S' target = []"
proof -
  have fresh: "supers target = [target]" "js_get (st_bags S) target = None" "get_or (st_bindings S) target [] = []"
    "get_or (st_rules S) target [] = []" "get_or (st_class_rules S) target [] = []"
    using assms(1) by (simp_all add: fresh_class_def get_or_def)
  have bags: "st_bags S' = st_bags S" and class_rules: "st_class_rules S' = st_class_rules S"
    by (simp_all add: S' fold_keeps [of st_bags] fold_keeps [of st_class_rules] split_beta)
  have "st_bindings S' = st_bindings (fold (\<lambda>(k, b). define_dto_field_binding_metadata target k b) bs S)"
    by (simp add: S' fold_keeps [of st_bindings] split_beta)
  then have bindings: "get_or (st_bindings S') target [] = bs"
    using define_all [of target id bs S] bs(1) fresh(3) fold_js_set_new [of "[]" bs] by simp
  have "get_or (st_rules (fold (\<lambda>(k, b). define_dto_field_binding_metadata target k b) bs S)) target [] = []"
    using fresh(4) by (simp add: fold_keeps [of st_rules] split_beta)
  moreover have "map (\<lambda>(k, rs). (k, map clone_rule rs)) es = es"
    by (rule map_idI) (use es(2) in auto)
  ultimately have rules: "get_or (st_rules S') target [] = es"
    using append_all [of es "fold (\<lambda>(k, b). define_dto_field_binding_metadata target k b) bs S" target] es
    by (auto simp: S')
  have "get_class_validation_rules supers S' target = []"
    using no_standard_metadata [where field = bg_class_rules and supers = supers and c = target and S = S'] fresh bags
    by (simp add: get_class_validation_rules_def get_inherited_stored_class_validation_rules_def class_rules empty_bag_def)
  with stored_binding_schema [where supers = supers and c = target and S = S', OF fresh(1) _ bindings bs]
    stored_validation_schema [where supers = supers and c = target and S = S', OF fresh(1) _ rules es] show ?thesis
    by (simp add: bags fresh(2))
qed

lemma validation_schema_cong:
  assumes "st_rules S = st_rules S'" "st_bags S = st_bags S'"
  shows "get_dto_validation_schema supers S c = get_dto_validation_schema supers S' c"
proof -
  have "bag_at S = bag_at S'"
    by (rule ext) (simp add: bag_at_def assms)
  then have "bag_read bg_rules supers S = bag_read bg_rules supers S'"
    unfolding bag_read_def [abs_def] owner_of_def by (rule arg_cong)
  then show ?thesis
    by (simp add: get_dto_validation_schema_def get_inherited_stored_dto_validation_map_def assms)
qed

lemma binding_schema_later:
  "get_dto_validation_schema supers (fold (\<lambda>(k, b). define_dto_field_binding_metadata target k (f b)) bs S) c =
   get_dto_validation_schema supers S c"
  by (rule validation_schema_cong) (simp_all add: fold_keeps [of st_rules] fold_keeps [of st_bags] split_beta)

lemma copied_part:
  assumes "declared supers S" "fresh_class supers S target"
  shows "get_dto_binding_schema supers (copy_dto_metadata supers base target include False S) target =
      filter (\<lambda>(k, b). include k) (get_dto_binding_schema supers S base) \<and>
    get_dto_validation_schema supers (copy_dto_metadata supers base target include False S) target =
      filter (\<lambda>(k, rs). include k) (get_dto_validation_schema supers S base) \<and>
    get_class_validation_rules supers (copy_dto_metadata supers base target include False S) target = []"
  by (rule copied_schemas [OF assms(2)])
    (use schemas_distinct [OF assms(1)] schema_source schema_rules_cloned schema_rules_there in
      \<open>auto simp: copy_dto_metadata_def Let_def binding_schema_later [where f = id, simplified] intro: filter_keys_distinct\<close>)

text \<open>C32. a class derived with \<open>PickType\<close> or \<open>OmitType\<close> binds and checks exactly the selected fields of its base, each
  with all its rules, in the base's order; one derived with \<open>PartialType\<close> binds and checks all of them, each
  optional; none has rules of its class.\<close>

theorem derived_class_schemas:
  assumes "declared supers S" "fresh_class supers S target"
  shows "get_dto_binding_schema supers (pick_type supers base keys target S) target =
      filter (\<lambda>(k, b). k \<in> set keys) (get_dto_binding_schema supers S base) \<and>
    get_dto_validation_schema supers (pick_type supers base keys target S) target =
      filter (\<lambda>(k, rs). k \<in> set keys) (get_dto_validation_schema supers S base) \<and>
    get_dto_binding_schema supers (omit_type supers base keys target S) target =
      filter (\<lambda>(k, b). k \<notin> set keys) (get_dto_binding_schema supers S base) \<and>
    get_dto_validation_schema supers (omit_type supers base keys target S) target =
      filter (\<lambda>(k, rs). k \<notin> set keys) (get_dto_validation_schema supers S base) \<and>
    get_dto_binding_schema supers (partial_type supers base target S) target =
      map (\<lambda>(k, b). (k, b\<lparr>db_optional := Some True\<rparr>)) (get_dto_binding_schema supers S base) \<and>
    get_dto_validation_schema supers (partial_type supers base target S) target =
      map (\<lambda>(k, rs). (k, if list_ex (\<lambda>r. is_optional_field (ru_kind r)) rs then rs else rs @ [optional_rule]))
        (get_dto_validation_schema supers S base) \<and>
    get_class_validation_rules supers (pick_type supers base keys target S) target = [] \<and>
    get_class_validation_rules supers (omit_type supers base keys target S) target = [] \<and>
    get_class_validation_rules supers (partial_type supers base target S) target = []"
proof -
  let ?bs = "map (\<lambda>(k, b). (k, b\<lparr>db_optional := Some True\<rparr>)) (get_dto_binding_schema supers S base)"
  let ?es = "map (\<lambda>(k, rs). (k, if list_ex (\<lambda>r. is_optional_field (ru_kind r)) rs then rs else rs @ [optional_rule]))
    (get_dto_validation_schema supers S base)"
  have conditional: "rs @ (if b then [] else [r]) = (if b then rs else rs @ [r])" for rs b and r :: dto_rule
    by simp
  have partial: "partial_type supers base target S = fold (\<lambda>(k, rs). fold (append_dto_field_validation_rule target k) rs) ?es
      (fold (\<lambda>(k, b). define_dto_field_binding_metadata target k b) ?bs S)"
    unfolding partial_type_def Let_def binding_schema_later conditional fold_map comp_def split_beta by simp
  have "get_dto_binding_schema supers (partial_type supers base target S) target = ?bs \<and>
      get_dto_validation_schema supers (partial_type supers base target S) target = ?es \<and>
      get_class_validation_rules supers (partial_type supers base target S) target = []"
    by (rule copied_schemas [OF assms(2) _ _ _ _ partial])
      (use schemas_distinct [OF assms(1), of base] schema_source schema_rules_cloned schema_rules_there in
        \<open>auto simp: comp_def split_beta\<close>)
  then show ?thesis
    using copied_part [OF assms, of base "\<lambda>k. k \<in> set keys"] copied_part [OF assms, of base "\<lambda>k. k \<notin> set keys"]
    by (simp add: pick_type_def omit_type_def)
qed

section \<open>An account without its password\<close>

definition account_store :: dto_store where
  "account_store = declare_dto (\<lambda>c. [c]) 0
     [BindFrom BodySource (NameKey ''password'') None, BindFrom BodySource (NameKey ''name'') None,
      FieldRule (NameKey ''password'') \<lparr>ru_kind = IsString, ru_code = None, ru_each = False\<rparr>] empty_store"

lemma account_schemas:
  "map fst (get_dto_binding_schema (\<lambda>c. [c]) account_store 0) = [NameKey ''password'', NameKey ''name'']"
  "map fst (get_dto_validation_schema (\<lambda>c. [c]) account_store 0) = [NameKey ''password'']"
  by code_simp+

theorem derived_class_schemas_witness:
  "map fst (get_dto_binding_schema (\<lambda>c. [c]) (omit_type (\<lambda>c. [c]) 0 [NameKey ''password''] 1 account_store) 1) = [NameKey ''name''] \<and>
   get_dto_validation_schema (\<lambda>c. [c]) (omit_type (\<lambda>c. [c]) 0 [NameKey ''password''] 1 account_store) 1 = []"
proof -
  have declared: "declared (\<lambda>c. [c]) account_store"
    by (simp add: account_store_def declare_dto_def del: apply_dto_decorator.simps) (intro declared.intros)
  have fresh: "fresh_class (\<lambda>c. [c]) account_store 1"
    by code_simp
  have "map fst (filter (\<lambda>(k, b). k \<notin> set [NameKey ''password'']) (get_dto_binding_schema (\<lambda>c. [c]) account_store 0)) = [NameKey ''name'']"
    "map fst (filter (\<lambda>(k, rs). k \<notin> set [NameKey ''password'']) (get_dto_validation_schema (\<lambda>c. [c]) account_store 0)) = []"
    by code_simp+
  with derived_class_schemas [OF declared fresh, of 0 "[NameKey ''password'']"] show ?thesis
    by simp
qed

end
