(* ===== verification/Spec2Isabelle.thy ===== *)
theory Spec2Isabelle
  imports Platform_Shell_Facts Container_Examples Container_Plan Module_Cache
    Handler_Mapping_Facts Content_Negotiation_Facts Rate_Limit Throttler_Facts
    Dispatch_Examples Sse_Facts Cache_Interceptor Jwt_Facts Refresh_Facts
    Serialization_Facts Passport_Facts Cron_Examples Binding_Examples Mapped_Types
begin

text \<open>
  A verification library of the fluo framework: a TypeScript server framework with a dependency
  injection container (\<open>packages/di\<close>, with the class metadata of \<open>packages/core\<close>), an
  application runtime that compiles module graphs and starts platform components
  (\<open>packages/runtime\<close>), an HTTP layer that routes requests, negotiates content and limits
  rates (\<open>packages/http\<close>), and packages on top of them: a throttler (\<open>packages/throttler\<close>), a cache
  (\<open>packages/cache-manager\<close>), tokens (\<open>packages/jwt\<close>), authentication (\<open>packages/passport\<close>), the
  validation of data transfer objects (\<open>packages/validation\<close>) and a task scheduler
  (\<open>packages/cron\<close>).

  \<^bold>\<open>How the parts interact.\<close> Decorators record class metadata, which module compilation and the
  container read. The runtime compiles the module graph, registers the providers the modules
  declare in a root container, starts the platform shell, and builds the handler mapping from
  the controllers. For each request the HTTP layer matches a handler and resolves its controller
  from the root container or from a request scope of it; the middleware, guards and throttler
  policies decide whether the handler runs; its input is bound from the request and validated, and
  content negotiation decides how its result is written.

  \<^bold>\<open>Conventions.\<close> Objects with an identity carry a number; records and enumerations of the source
  are records and datatypes with the source's names; \<open>throw\<close> is \<open>Inl\<close> of an error datatype. A
  JavaScript \<open>Map\<close> or object used as a dictionary is an association list in insertion order
  (\<open>js_map\<close> in \<open>Prelude\<close>), because the code's behaviour depends on that order. Code of the
  application (constructors, factories, component methods, version extractors, disposal
  hooks) is a parameter, and may depend on everything that happened before through the log of
  events. Where the code guards against calls that overlap (the cache service, the rotation of
  refresh tokens, the scheduler), a state holds the calls under way, a step is a stretch of code between two
  awaits, and the theorems hold for every sequence of steps. Everywhere else an operation runs to
  completion before the next one starts, with what its own microtasks do to the order of its
  effects written out; the request scopes that the root's \<open>dispose\<close> tears down together run side by
  side, and \<open>next_scope\<close> of the environment says which goes on when a hook has settled. No definition but those of the serializer and the validator has
  fuel: loops over possibly cyclic graphs terminate by the set of tokens or modules not yet on the
  path, and the termination proofs stand next to them. Strings are lists of Latin-1 code units. Numbers read from text are
  exact rationals, not doubles; times and counters are \<open>int\<close> and \<open>nat\<close>, which agree with doubles
  below \<open>2^53\<close>.

  \<^bold>\<open>Foundations.\<close>
  \<^item> \<open>Prelude\<close>: insertion-ordered maps, results, and the lemma collections the theories share.
  \<^item> \<open>Js_String\<close>, \<open>Js_Number\<close>, \<open>Uri_Encoding\<close>: trimming, case, splitting, \<open>Number(s)\<close> and
    \<open>encodeURIComponent\<close>, which is proved injective.
  \<^item> \<open>Versioned_Cache\<close>: the locale of a cache whose entries carry the version they were computed
    at; three caches of the framework are interpretations of it.
  \<^item> \<open>Topo_Sort\<close>: depth-first ordering of a dependency graph, used by the module graph and by the
    platform shell; an order is returned exactly if no cycle is reachable.

  \<^bold>\<open>Dependency injection.\<close>
  \<^item> \<open>Class_Di\<close> (\<open>core/src/metadata/class-di.ts\<close>): the metadata store, inheritance along the
    prototype chain, and the proof that the inherited-metadata cache is transparent.
  \<^item> \<open>Di_Types\<close> (\<open>di/src/types.ts\<close>, \<open>errors.ts\<close>): providers and their normalization.
  \<^item> \<open>Container_State\<close>, \<open>Container_Graph\<close>, \<open>Container_Resolve\<close>, \<open>Container_World\<close>
    (\<open>di/src/container.ts\<close>): registrations and lookups along the parent chain; the walks over
    the provider graph; \<open>resolve\<close> with the instance caches, where a promise is a slot that is
    pending or settled; and whole hierarchies with \<open>createRequestScope\<close>, \<open>override\<close> and
    \<open>dispose\<close>. A hierarchy is a \<open>world\<close>; \<open>container_step\<close> is one public call.
  \<^item> \<open>Container_Graph_Facts\<close>, \<open>Container_Resolve_Facts\<close>, \<open>Container_Sharing\<close>,
    \<open>Container_World_Facts\<close>, \<open>Container_Override\<close>: the scope checks are exact (up to
    request-scoped providers registered under the empty string), resolution ends
    without deadlock and reports only real cycles, instances are shared per cache, every
    reachable hierarchy is well formed, disposal destroys everything, each container its own once in
    reverse order and the scopes in an interleaving, and an override invalidates exactly the
    dependents, instances of multi providers included.
  \<^item> \<open>Container_Plan\<close>: the revision-keyed plan caches equal the plain walks the other theories use.
  \<^item> \<open>Container_Examples\<close>: concrete hierarchies, among them two disposal defects and one of the scope check.

  \<^bold>\<open>Runtime.\<close>
  \<^item> \<open>Module_Graph\<close>, \<open>Module_Graph_Facts\<close> (\<open>core/src/metadata/module.ts\<close>,
    \<open>runtime/src/module-graph.ts\<close>): compilation succeeds exactly on well-formed graphs, and what it
    returns.
  \<^item> \<open>Module_Cache\<close>: the opt-in compile cache, transparent for options without an empty \<open>inject\<close>.
  \<^item> \<open>Platform_Shell\<close>, \<open>Platform_Shell_Facts\<close> (\<open>runtime/src/platform-shell.ts\<close>): start, rollback,
    stop, readiness and health, with the invariant of the reachable shells.

  \<^bold>\<open>HTTP.\<close>
  \<^item> \<open>Http_Request\<close>: the request fields routing reads. \<open>Route_Path\<close> (\<open>http/src/route-path.ts\<close>):
    normalization, parsing and matching of paths, with round trips.
  \<^item> \<open>Handler_Mapping\<close>, \<open>Handler_Mapping_Facts\<close> (\<open>http/src/mapping.ts\<close>): descriptors, the compiled
    index and versioned matching; the index refines a scan over all descriptors.
  \<^item> \<open>Content_Negotiation\<close>, \<open>Content_Negotiation_Facts\<close>
    (\<open>http/src/dispatch/dispatch-content-negotiation.ts\<close>): the Accept header and the formatter
    chosen for it.
  \<^item> \<open>Http_Response\<close> (\<open>http/src/exceptions.ts\<close>, \<open>dispatch/dispatch-response-policy.ts\<close>,
    \<open>dispatch/dispatch-error-policy.ts\<close>, \<open>runtime/src/web.ts\<close>): what handlers return and throw, the
    response object, and how results and errors are written to it.
  \<^item> \<open>Sse\<close>, \<open>Sse_Facts\<close> (\<open>http/src/context/sse.ts\<close>): event frames, which read back as the event
    they encode, and the streaming of a handler's iterable; \<open>integer_text\<close> is how JavaScript prints a whole number.
  \<^item> \<open>Dispatch_Plan\<close>, \<open>Dispatch_State\<close>, \<open>Dispatcher\<close> (\<open>http/src/dispatch\<close>, \<open>guards.ts\<close>,
    \<open>interceptors.ts\<close>, \<open>middleware/middleware.ts\<close>): what \<open>createDispatcher\<close> precomputes; the state of one
    dispatch, with a container hierarchy in it, and the code of the application as scripts, trees
    of calls on the request context that may depend on everything that happened so far; and the
    two entry points with their chains, fast path, error handling and scope release. A script
    is well-founded: middleware that never returns is not covered.
  \<^item> \<open>Dispatch_Rules\<close>: the locale of a property of dispatch states that every primitive step keeps;
    the pipeline keeps it then. \<open>Dispatch_Facts\<close> interprets it twice: no request scope
    outlives its dispatch, and no handler runs before its guards. \<open>Dispatch_Paths\<close>: the compiled
    plans are exact and the fast path equals the full path for a controller that inherits its method
    from the declared class, whose prototype the fast path calls. \<open>Dispatch_Examples\<close>: concrete requests,
    among them five defects.
  \<^item> \<open>Client_Identity\<close> (\<open>http/src/client-identity.ts\<close>): who a client is, with and without trusted
    proxies.
  \<^item> \<open>Rate_Window\<close>: the locale of a store of fixed windows, with the bound on what it admits.
    \<open>Rate_Limit\<close> (\<open>http/src/middleware/rate-limit.ts\<close>) and \<open>Throttler\<close>, \<open>Throttler_Facts\<close>
    (\<open>packages/throttler\<close>) interpret it on the middleware's and the guard's in-memory stores; the
    Lua script of the Redis store computes the same windows.

  \<^bold>\<open>Cache and tokens.\<close>
  \<^item> \<open>Memory_Store\<close> (\<open>cache-manager/src/stores/memory-store.ts\<close>): the store, with the locale of a cache
    store's contract, which it interprets, and its refinement of a specification without sweeps.
  \<^item> \<open>Cache_Service\<close>, \<open>Cache_Facts\<close> (\<open>cache-manager/src/service.ts\<close>): read-through loading with overlapping
    calls; an invalidation is never undone by a load under way unless the service was closed
    first, and loads of the current generation are shared.
  \<^item> \<open>Cache_Interceptor\<close> (\<open>cache-manager/src/interceptor.ts\<close>): keys of requests, and the proof that
    no one is answered with what was made for another: another path, other names and values in the
    query, or another principal; paths with a bar or a question mark apart.
  \<^item> \<open>Jwt\<close>, \<open>Jwt_Facts\<close> (\<open>jwt/src/signing\<close>): which key checks a token and what its claims must say;
    what is accepted is authentic, and what is signed is accepted. The host's cryptography is a
    parameter, with its documented behaviour as the hypothesis \<open>host_ok\<close> of the round trip.
  \<^item> \<open>Refresh_Token\<close>, \<open>Refresh_Facts\<close> (\<open>jwt/src/refresh/refresh-token.ts\<close>, with the in-memory store of
    \<open>packages/passport\<close>): rotation, with the locale of a token store's contract; no token is
    redeemed twice however calls overlap.
  \<^item> \<open>Passport\<close>, \<open>Passport_Facts\<close> (\<open>passport/src\<close>): requirements that decorators declare, the guard,
    the cookie strategy and account linking. The locale \<open>auth_rule\<close> states what makes a rule about
    declarations survive all later ones; it is interpreted for scopes and for strategies.

  \<^bold>\<open>Scheduling.\<close>
  \<^item> \<open>Cron\<close> (\<open>cron/src/service.ts\<close>, \<open>task-runner.ts\<close>, \<open>distributed-lock-manager.ts\<close>): the registry
    of tasks and timers, and the run of a task under a lock in Redis that it renews as it goes.
    Several nodes take steps, one per stretch of code between two awaits. Redis is a parameter; what
    is used of its commands is the hypothesis \<open>redis_ok\<close>.
  \<^item> \<open>Cron_Facts\<close>: leases, what a tick may rely on about its lock, and the invariant that gives the
    exclusion of successful runs, with what it needs of keys and replies (\<open>well_behaved\<close>) and of
    shutdowns (\<open>orderly\<close>). \<open>Cron_Examples\<close>: two nodes on a table of keys, and four defects.

  \<^bold>\<open>Input.\<close>
  \<^item> \<open>Dto_Metadata\<close> (\<open>core/src/metadata/validation.ts\<close>, \<open>validation/src/decorators.ts\<close>,
    \<open>mapped-types.ts\<close>): values and objects, rules and bindings, the stores that decorators fill, the
    schemas read back from them, and derived classes. \<open>Mapped_Types\<close>: the schemas of a derived class
    are those of its base, selected or made optional.
  \<^item> \<open>Validation\<close> (\<open>validation/src/validation.ts\<close>): the validator on a heap, a list of objects that may be
    shared and cyclic; operations add objects to it. \<open>create_nested_dto_instance\<close> and
    \<open>collect_validation_issues\<close> have the depth of the host's stack as their first argument, and \<open>None\<close> is a
    stack overflow; on such data a depth above the number of objects and the nesting of the
    constructors' defaults is enough. \<open>Validation_Facts\<close>: what is
    materialized conforms to its class, a specification on the value alone, and whatever conforms
    is accepted. Its hypotheses are about the input and application code: instances in the data
    (\<open>data_ok\<close>) and what constructors put in nested fields (\<open>constructors_ok\<close>) hold nothing that is left
    to convert, the data is acyclic, and a field has one nested rule at most (\<open>dto_world_ok\<close>); the bound
    adds the nesting of the defaults. \<open>Validation_Examples\<close>: an order with its items, and four defects.
  \<^item> \<open>Dto_Binding\<close> (\<open>http/src/adapters\<close>, \<open>dispatch/dispatch-handler-policy.ts\<close>): the plan of a class, the binder
    with its converters, and the validation before a handler is called: only declared properties
    are set, and what the handler receives satisfies the rules. \<open>Binding_Examples\<close>: requests that are
    bound and refused.

  \<^bold>\<open>Responses.\<close>
  \<^item> \<open>Serialization\<close>, \<open>Serialization_Facts\<close> (\<open>serialization/src\<close>): the metadata of serialized classes and
    the walk over an object graph. \<open>serialize_internal\<close> has a bound: its first argument is the depth of the host's stack, and \<open>None\<close> is a stack overflow; a depth above
    the number of reachable objects is enough.

  \<^bold>\<open>Not modelled.\<close> Error messages (errors are their class and the tokens they carry); freezing and
  cloning of records that no operation mutates; decorators other than those named above,
  which only fill the metadata stores; adapters and transports, which are input and output; and the packages whose core is
  a third-party library (drivers, brokers, cryptography, schema builders). The remaining
  packages with logic of their own (cqrs, event-bus, queue, config, i18n,
  websockets, graphql, microservices, openapi, terminus, notifications, the bootstrap of the
  runtime) are listed as such in the manifest.
\<close>

end
